(* ===== verification/Prelude.thy ===== *)
theory Prelude
  imports Main "HOL-Library.Word"
begin

text \<open>
  Shared vocabulary of the development: the C types of \<^verbatim>\<open>include/tk/typedef.h\<close> as Isabelle
  types, the error codes of \<^verbatim>\<open>include/tk/errno.h\<close>, the lemma collections, and the generic
  facts on lists that the queue components share (removal of an element, insertion in front
  of the first larger key).
\<close>

unbundle bit_operations_syntax

section \<open>C types\<close>

text \<open>
  \<open>UINT\<close>, \<open>UW\<close>, \<open>ATR\<close>, \<open>ID\<close> and pointers are 32-bit words on the three supported boards.
  \<open>INT_\<close>, \<open>ER\<close>, \<open>PRI\<close>, \<open>TMO\<close> are signed 32-bit values and are modelled by \<open>int\<close>; the
  components prove where a bound is needed that no operation leaves the range.
\<close>

type_synonym UW = "32 word"
type_synonym UB = "8 word"
type_synonym UH = "16 word"
type_synonym ATR = "32 word"
type_synonym ID = "32 word"
type_synonym ER = int
type_synonym TMO = int
type_synonym LL = "64 word"

definition INT_MAX :: int where
  "INT_MAX = 2147483647"

section \<open>Error codes\<close>

definition ERCD :: "int \<Rightarrow> int \<Rightarrow> ER" where
  "ERCD mer ser = sint (push_bit 16 (word_of_int mer :: UW) OR (word_of_int ser AND 0x0000FFFF))"

definition E_OK :: ER where "E_OK = 0"
definition E_SYS :: ER where "E_SYS = ERCD (-5) 0"
definition E_NOCOP :: ER where "E_NOCOP = ERCD (-6) 0"
definition E_NOSPT :: ER where "E_NOSPT = ERCD (-9) 0"
definition E_RSATR :: ER where "E_RSATR = ERCD (-11) 0"
definition E_PAR :: ER where "E_PAR = ERCD (-17) 0"
definition E_ID :: ER where "E_ID = ERCD (-18) 0"
definition E_CTX :: ER where "E_CTX = ERCD (-25) 0"
definition E_ILUSE :: ER where "E_ILUSE = ERCD (-28) 0"
definition E_NOMEM :: ER where "E_NOMEM = ERCD (-33) 0"
definition E_LIMIT :: ER where "E_LIMIT = ERCD (-34) 0"
definition E_OBJ :: ER where "E_OBJ = ERCD (-41) 0"
definition E_NOEXS :: ER where "E_NOEXS = ERCD (-42) 0"
definition E_QOVR :: ER where "E_QOVR = ERCD (-43) 0"
definition E_RLWAI :: ER where "E_RLWAI = ERCD (-49) 0"
definition E_TMOUT :: ER where "E_TMOUT = ERCD (-50) 0"
definition E_DLT :: ER where "E_DLT = ERCD (-51) 0"
definition E_DISWAI :: ER where "E_DISWAI = ERCD (-52) 0"
definition E_ONAME :: ER where "E_ONAME = ERCD (-69) 0"
definition E_DACV :: ER where "E_DACV = ERCD (-70) 0"

named_theorems er_defs \<open>numeric values of the error codes\<close>

lemma E_SYS_val [er_defs]: "E_SYS = -327680" by (simp add: E_SYS_def ERCD_def)
lemma E_NOCOP_val [er_defs]: "E_NOCOP = -393216" by (simp add: E_NOCOP_def ERCD_def)
lemma E_NOSPT_val [er_defs]: "E_NOSPT = -589824" by (simp add: E_NOSPT_def ERCD_def)
lemma E_RSATR_val [er_defs]: "E_RSATR = -720896" by (simp add: E_RSATR_def ERCD_def)
lemma E_PAR_val [er_defs]: "E_PAR = -1114112" by (simp add: E_PAR_def ERCD_def)
lemma E_ID_val [er_defs]: "E_ID = -1179648" by (simp add: E_ID_def ERCD_def)
lemma E_CTX_val [er_defs]: "E_CTX = -1638400" by (simp add: E_CTX_def ERCD_def)
lemma E_ILUSE_val [er_defs]: "E_ILUSE = -1835008" by (simp add: E_ILUSE_def ERCD_def)
lemma E_NOMEM_val [er_defs]: "E_NOMEM = -2162688" by (simp add: E_NOMEM_def ERCD_def)
lemma E_LIMIT_val [er_defs]: "E_LIMIT = -2228224" by (simp add: E_LIMIT_def ERCD_def)
lemma E_OBJ_val [er_defs]: "E_OBJ = -2686976" by (simp add: E_OBJ_def ERCD_def)
lemma E_NOEXS_val [er_defs]: "E_NOEXS = -2752512" by (simp add: E_NOEXS_def ERCD_def)
lemma E_QOVR_val [er_defs]: "E_QOVR = -2818048" by (simp add: E_QOVR_def ERCD_def)
lemma E_RLWAI_val [er_defs]: "E_RLWAI = -3211264" by (simp add: E_RLWAI_def ERCD_def)
lemma E_TMOUT_val [er_defs]: "E_TMOUT = -3276800" by (simp add: E_TMOUT_def ERCD_def)
lemma E_DLT_val [er_defs]: "E_DLT = -3342336" by (simp add: E_DLT_def ERCD_def)
lemma E_DISWAI_val [er_defs]: "E_DISWAI = -3407872" by (simp add: E_DISWAI_def ERCD_def)
lemma E_ONAME_val [er_defs]: "E_ONAME = -4521984" by (simp add: E_ONAME_def ERCD_def)
lemma E_DACV_val [er_defs]: "E_DACV = -4587520" by (simp add: E_DACV_def ERCD_def)

lemmas E_OK_val [er_defs] = E_OK_def

section \<open>Lists\<close>

text \<open>
  \<open>insert_before P e xs\<close> puts \<open>e\<close> in front of the first element that satisfies \<open>P\<close>, at the end
  if there is none. This is what a search loop over a ring followed by \<open>QueInsert\<close> computes.
\<close>

fun insert_before :: "('a \<Rightarrow> bool) \<Rightarrow> 'a \<Rightarrow> 'a list \<Rightarrow> 'a list" where
  "insert_before P e [] = [e]"
| "insert_before P e (x # xs) = (if P x then e # x # xs else x # insert_before P e xs)"

lemma insert_before_split:
  "insert_before P e xs = takeWhile (\<lambda>x. \<not> P x) xs @ e # dropWhile (\<lambda>x. \<not> P x) xs"
  by (induction xs) auto

lemma set_insert_before [simp]: "set (insert_before P e xs) = insert e (set xs)"
  by (induction xs) auto

lemma length_insert_before [simp]: "length (insert_before P e xs) = Suc (length xs)"
  by (induction xs) auto

lemma distinct_insert_before [simp]:
  "distinct (insert_before P e xs) \<longleftrightarrow> e \<notin> set xs \<and> distinct xs"
  by (induction xs) auto

lemma insert_before_not_Nil [simp]: "insert_before P e xs \<noteq> []"
  by (cases xs) auto

lemma insert_before_never [simp]: "(\<And>x. x \<in> set xs \<Longrightarrow> \<not> P x) \<Longrightarrow> insert_before P e xs = xs @ [e]"
  by (induction xs) auto

lemma insert_before_append:
  "insert_before P e (xs @ ys) =
     (if \<exists>x\<in>set xs. P x then insert_before P e xs @ ys else xs @ insert_before P e ys)"
  by (induction xs) auto

lemma remove1_insert_before [simp]: "e \<notin> set xs \<Longrightarrow> remove1 e (insert_before P e xs) = xs"
  by (induction xs) auto

lemma filter_insert_before:
  "filter Q (insert_before P e xs) = (if Q e then insert_before P e xs else xs) \<or> \<not> (\<forall>x \<in> set xs. Q x)"
  by (induction xs) (auto simp: filter_id_conv)

lemma remove1_notin [simp]: "x \<notin> set xs \<Longrightarrow> remove1 x xs = xs"
  by (rule remove1_idem)

lemma remove1_split: "x \<notin> set as \<Longrightarrow> remove1 x (as @ x # bs) = as @ bs"
  by (simp add: remove1_append)


section \<open>Ordered queues\<close>

lemma sorted_insert_before:
  "sorted (map key xs) \<Longrightarrow> sorted (map key (insert_before (\<lambda>x. key e < key x) e xs))"
  for key :: "'a \<Rightarrow> 'k::linorder"
proof (induction xs)
  case (Cons x xs)
  then show ?case by (cases "key e < key x") (auto intro: order_trans less_imp_le)
qed simp

text \<open>In a sorted list the new element has its place behind all that are not greater.\<close>

lemma insert_before_place:
  fixes f :: "'a \<Rightarrow> int"
  assumes "sorted (map f xs)"
  shows "\<exists>ys zs. xs = ys @ zs \<and> insert_before (\<lambda>x. v < f x) e xs = ys @ e # zs \<and> (\<forall>x\<in>set ys. f x \<le> v) \<and> (\<forall>x\<in>set zs. v < f x)"
  using assms
proof (induction xs)
  case (Cons x xs)
  show ?case
  proof (cases "v < f x")
    case True
    then have "\<forall>y\<in>set (x # xs). v < f y" using Cons.prems by auto
    then show ?thesis using True by (intro exI [of _ "[]"] exI [of _ "x # xs"]) simp
  next
    case False
    from Cons obtain ys zs where "xs = ys @ zs" "insert_before (\<lambda>x. v < f x) e xs = ys @ e # zs"
      "\<forall>x\<in>set ys. f x \<le> v" "\<forall>x\<in>set zs. v < f x" by auto
    with False show ?thesis by (intro exI [of _ "x # ys"] exI [of _ zs]) simp
  qed
qed simp

lemma filter_key_insert_before:
  "sorted (map key xs) \<Longrightarrow>
   filter (\<lambda>x. key x = k) (insert_before (\<lambda>x. key e < key x) e xs) =
     filter (\<lambda>x. key x = k) xs @ (if key e = k then [e] else [])"
  for key :: "'a \<Rightarrow> 'k::linorder"
proof (induction xs)
  case (Cons x xs)
  have "filter (\<lambda>y. key y = key e) xs = []" if "key e < key x"
    using Cons.prems that by (auto simp: filter_empty_conv)
  with Cons show ?case by auto
qed simp

text \<open>
  A queue that an operation \<open>enq\<close> keeps ordered by \<open>key\<close>, a new entry going behind the entries
  of the same key; \<open>ok\<close> is the condition under which the operation may be called.
\<close>

locale stable_queue =
  fixes key :: "'s \<Rightarrow> 'a \<Rightarrow> 'k::linorder" and que :: "'s \<Rightarrow> 'a list"
    and enq :: "'a \<Rightarrow> 's \<Rightarrow> 's" and ok :: "'s \<Rightarrow> 'a \<Rightarrow> bool"
  assumes enq_que: "ok s e \<Longrightarrow> que (enq e s) = insert_before (\<lambda>x. key s e < key s x) e (que s)"
    and enq_key: "key (enq e s) = key s"
begin

lemma enq_sorted:
  "ok s e \<Longrightarrow> sorted (map (key s) (que s)) \<Longrightarrow> sorted (map (key (enq e s)) (que (enq e s)))"
  by (simp add: enq_que enq_key sorted_insert_before)

lemma enq_set: "ok s e \<Longrightarrow> set (que (enq e s)) = insert e (set (que s))"
  by (simp add: enq_que)

lemma enq_distinct: "ok s e \<Longrightarrow> distinct (que (enq e s)) \<longleftrightarrow> e \<notin> set (que s) \<and> distinct (que s)"
  by (simp add: enq_que)

lemma enq_fifo:
  "ok s e \<Longrightarrow> sorted (map (key s) (que s)) \<Longrightarrow>
   filter (\<lambda>x. key s x = k) (que (enq e s)) =
     filter (\<lambda>x. key s x = k) (que s) @ (if key s e = k then [e] else [])"
  by (simp add: enq_que filter_key_insert_before)

lemma enq_remove: "ok s e \<Longrightarrow> e \<notin> set (que s) \<Longrightarrow> remove1 e (que (enq e s)) = que s"
  by (simp add: enq_que)

lemma enq_hd:
  "ok s e \<Longrightarrow> hd (que (enq e s)) = (if que s = [] \<or> key s e < key s (hd (que s)) then e else hd (que s))"
  by (cases "que s") (simp_all add: enq_que)

end

end
