(* ===== verification/Ring_Queue.thy ===== *)
theory Ring_Queue
  imports Prelude
begin

text \<open>
  The double-link ring queues of \<^verbatim>\<open>include/sys/queue.h\<close>, at the level of the pointers: a heap
  gives every \<open>QUEUE\<close> node its \<open>next\<close> and \<open>prev\<close>; the operations are the assignments of the
  source in their order. \<open>ring h q xs\<close> says that the ring whose head is \<open>q\<close> holds the entries
  \<open>xs\<close>, and \<open>store h H Q\<close> that every head of \<open>H\<close> is the head of a ring of its own. The
  refinement lemmas show that each operation changes exactly one ring, and how: this is what
  entitles the other theories to model a queue by the list of its entries.
\<close>

section \<open>The operations\<close>

record 'n heap =
  nxt :: "'n \<Rightarrow> 'n"
  prv :: "'n \<Rightarrow> 'n"

definition QueInit :: "'n \<Rightarrow> 'n heap \<Rightarrow> 'n heap" where
  "QueInit que h = h\<lparr>nxt := (nxt h)(que := que), prv := (prv h)(que := que)\<rparr>"

definition isQueEmpty :: "'n \<Rightarrow> 'n heap \<Rightarrow> bool" where
  "isQueEmpty que h \<longleftrightarrow> nxt h que = que"

definition QueInsert :: "'n \<Rightarrow> 'n \<Rightarrow> 'n heap \<Rightarrow> 'n heap" where
  "QueInsert entry que h =
    (let h = h\<lparr>prv := (prv h)(entry := prv h que)\<rparr>;
         h = h\<lparr>nxt := (nxt h)(entry := que)\<rparr>;
         h = h\<lparr>nxt := (nxt h)(prv h que := entry)\<rparr>
     in h\<lparr>prv := (prv h)(que := entry)\<rparr>)"

definition QueRemove :: "'n \<Rightarrow> 'n heap \<Rightarrow> 'n heap" where
  "QueRemove entry h =
    (if nxt h entry \<noteq> entry then
       let h = h\<lparr>nxt := (nxt h)(prv h entry := nxt h entry)\<rparr>
       in h\<lparr>prv := (prv h)(nxt h entry := prv h entry)\<rparr>
     else h)"

definition QueRemoveNext :: "'n \<Rightarrow> 'n heap \<Rightarrow> 'n option \<times> 'n heap" where
  "QueRemoveNext que h =
    (if nxt h que = que then (None, h)
     else let entry = nxt h que;
              h = h\<lparr>nxt := (nxt h)(que := nxt h entry)\<rparr>;
              h = h\<lparr>prv := (prv h)(nxt h entry := que)\<rparr>
          in (Some entry, h))"

text \<open>
  The search loop \<open>for ( q = start; q != end; q = q->next ) if ( P q ) break;\<close> that
  \<open>queue_insert_tpri\<close> (wait.h) and \<open>enqueue_tmeb\<close> (timer.c) run before their \<open>QueInsert\<close>;
  \<open>None\<close> means that the loop does not end.
\<close>

partial_function (option) que_find :: "'n heap \<Rightarrow> ('n \<Rightarrow> bool) \<Rightarrow> 'n \<Rightarrow> 'n \<Rightarrow> 'n option" where
  "que_find h P end q =
     (if q = end then Some q else if P q then Some q else que_find h P end (nxt h q))"

section \<open>Rings\<close>

fun linked :: "'n heap \<Rightarrow> 'n \<Rightarrow> 'n list \<Rightarrow> 'n \<Rightarrow> bool" where
  "linked h a [] b \<longleftrightarrow> nxt h a = b \<and> prv h b = a"
| "linked h a (x # xs) b \<longleftrightarrow> nxt h a = x \<and> prv h x = a \<and> linked h x xs b"

definition ring :: "'n heap \<Rightarrow> 'n \<Rightarrow> 'n list \<Rightarrow> bool" where
  "ring h q xs \<longleftrightarrow> distinct (q # xs) \<and> linked h q xs q"

definition store :: "'n heap \<Rightarrow> 'n set \<Rightarrow> ('n \<Rightarrow> 'n list) \<Rightarrow> bool" where
  "store h H Q \<longleftrightarrow> (\<forall>q \<in> H. ring h q (Q q)) \<and>
     (\<forall>q \<in> H. \<forall>r \<in> H. q \<noteq> r \<longrightarrow> insert q (set (Q q)) \<inter> insert r (set (Q r)) = {})"

lemma linked_append [simp]:
  "linked h a (xs @ y # ys) b \<longleftrightarrow> linked h a xs y \<and> linked h y ys b"
  by (induction xs arbitrary: a) auto

lemma linked_prv: "linked h a xs b \<Longrightarrow> prv h b = last (a # xs)"
  by (induction xs arbitrary: a) auto

lemma linked_nxt: "linked h a xs b \<Longrightarrow> nxt h a = hd (xs @ [b])"
  by (cases xs) auto

lemma linked_cong:
  assumes "linked h a xs b"
    and "\<And>x. x \<in> insert a (set xs) \<Longrightarrow> nxt h' x = nxt h x"
    and "\<And>x. x \<in> insert b (set xs) \<Longrightarrow> prv h' x = prv h x"
  shows "linked h' a xs b"
  using assms by (induction xs arbitrary: a) auto

lemma linked_nxt_in: "linked h a xs b \<Longrightarrow> x \<in> insert a (set xs) \<Longrightarrow> nxt h x \<in> insert b (set xs)"
proof (induction xs arbitrary: a)
  case (Cons y ys)
  then show ?case by (cases "x = a") auto
qed auto

lemma linked_prv_in: "linked h a xs b \<Longrightarrow> x \<in> insert b (set xs) \<Longrightarrow> prv h x \<in> insert a (set xs)"
proof (induction xs arbitrary: a)
  case (Cons y ys)
  then show ?case by (cases "x = y") auto
qed auto

lemma ring_nxt_in: "ring h q xs \<Longrightarrow> x \<in> insert q (set xs) \<Longrightarrow> nxt h x \<in> insert q (set xs)"
  by (auto simp: ring_def dest: linked_nxt_in)

lemma ring_prv_in: "ring h q xs \<Longrightarrow> x \<in> insert q (set xs) \<Longrightarrow> prv h x \<in> insert q (set xs)"
  by (auto simp: ring_def dest: linked_prv_in)

lemma ring_cong:
  "ring h q xs \<Longrightarrow> (\<And>x. x \<in> insert q (set xs) \<Longrightarrow> nxt h' x = nxt h x \<and> prv h' x = prv h x) \<Longrightarrow> ring h' q xs"
  unfolding ring_def by (blast intro: linked_cong)

lemma ring_empty: "ring h q [] \<longleftrightarrow> nxt h q = q \<and> prv h q = q"
  by (auto simp: ring_def)

lemma isQueEmpty_ring: "ring h q xs \<Longrightarrow> isQueEmpty q h \<longleftrightarrow> xs = []"
  by (cases xs) (auto simp: ring_def isQueEmpty_def)

lemma ring_first: "ring h q (x # xs) \<Longrightarrow> nxt h q = x"
  by (simp add: ring_def)

section \<open>Effect of the operations on a ring\<close>

lemma QueInsert_sel [simp]:
  assumes "entry \<noteq> que"
  shows "nxt (QueInsert entry que h) = (nxt h)(entry := que, prv h que := entry)"
    and "prv (QueInsert entry que h) = (prv h)(entry := prv h que, que := entry)"
  using assms by (simp_all add: QueInsert_def Let_def)

lemma linked_QueInsert:
  assumes "linked h a xs b" and "distinct (a # xs)" and "b \<notin> set xs"
    and "e \<notin> insert a (insert b (set xs))"
  shows "linked (QueInsert e b h) a (xs @ [e]) b"
  using assms
proof (induction xs arbitrary: a)
  case Nil
  then show ?case by simp
next
  case (Cons x xs)
  from Cons.prems have IH: "linked (QueInsert e b h) x (xs @ [e]) b"
    by (intro Cons.IH) auto
  from Cons.prems have "prv h b = last (x # xs)"
    by (auto dest: linked_prv)
  then have "prv h b \<in> set (x # xs)"
    using last_in_set [of "x # xs"] by simp
  moreover from this Cons.prems have "prv h b \<noteq> e" by auto
  ultimately show ?case using Cons.prems IH by (auto simp del: linked_append)
qed

lemma ring_QueInsert_head:
  assumes "ring h q xs" and "e \<notin> insert q (set xs)"
  shows "ring (QueInsert e q h) q (xs @ [e])"
  using assms linked_QueInsert [of h q xs q e] by (auto simp: ring_def simp del: linked_append)

lemma ring_QueInsert_entry:
  assumes r: "ring h q (as @ y # bs)" and e: "e \<notin> insert q (set (as @ y # bs))"
  shows "ring (QueInsert e y h) q (as @ e # y # bs)"
proof -
  from r have la: "linked h q as y" and lb: "linked h y bs q" and d: "distinct (q # as @ y # bs)"
    by (auto simp: ring_def)
  have 1: "linked (QueInsert e y h) q (as @ [e]) y"
    using la d e by (intro linked_QueInsert) auto
  have p: "prv h y = last (q # as)"
    using la by (rule linked_prv)
  then have pin: "prv h y \<in> insert q (set as)"
    using last_in_set [of "q # as"] by simp
  have 2: "linked (QueInsert e y h) y bs q"
    by (rule linked_cong [OF lb]) (use d e pin in auto)
  from 1 2 d e show ?thesis by (auto simp: ring_def)
qed

lemma QueRemove_sel:
  assumes "nxt h e \<noteq> e" and "prv h e \<noteq> e"
  shows "nxt (QueRemove e h) = (nxt h)(prv h e := nxt h e)"
    and "prv (QueRemove e h) = (prv h)(nxt h e := prv h e)"
  using assms by (simp_all add: QueRemove_def Let_def)

lemma ring_QueRemove:
  assumes r: "ring h q (as @ e # bs)"
  shows "ring (QueRemove e h) q (as @ bs)"
proof -
  from r have la: "linked h q as e" and lb: "linked h e bs q" and d: "distinct (q # as @ e # bs)"
    by (auto simp: ring_def)
  have p: "prv h e = last (q # as)" using la by (rule linked_prv)
  have n: "nxt h e = hd (bs @ [q])" using lb by (rule linked_nxt)
  have pin: "prv h e \<in> insert q (set as)" using p last_in_set [of "q # as"] by simp
  have nin: "nxt h e \<in> insert q (set bs)" using n by (cases bs) auto
  have sel: "nxt (QueRemove e h) = (nxt h)(prv h e := nxt h e)"
            "prv (QueRemove e h) = (prv h)(nxt h e := prv h e)"
    by (rule QueRemove_sel; use pin nin d in auto)+
  have "linked (QueRemove e h) q (as @ bs) q"
  proof (cases as rule: rev_cases)
    case Nil
    then show ?thesis
      using lb d p n by (cases bs) (auto simp: sel intro!: linked_cong [of h])
  next
    case (snoc as' z)
    have z: "prv h e = z" using p snoc by simp
    have 1: "linked (QueRemove e h) q as' z"
      by (rule linked_cong [of h]) (use la snoc d z nin in \<open>auto simp: sel\<close>)
    have 2: "linked (QueRemove e h) z bs q"
      using lb d n snoc z by (cases bs) (auto simp: sel intro!: linked_cong [of h])
    from 1 2 snoc show ?thesis by simp
  qed
  with d show ?thesis by (auto simp: ring_def)
qed

lemma QueRemove_unlinked: "nxt h e = e \<Longrightarrow> QueRemove e h = h"
  by (simp add: QueRemove_def)

lemma QueRemoveNext_ring_Nil: "ring h q [] \<Longrightarrow> QueRemoveNext q h = (None, h)"
  by (simp add: ring_empty QueRemoveNext_def)

lemma QueRemoveNext_ring_Cons:
  assumes "ring h q (x # xs)"
  shows "QueRemoveNext q h = (Some x, QueRemove x h)"
proof -
  from assms have "nxt h q = x" "prv h x = q" "q \<noteq> x" and n: "nxt h x = hd (xs @ [q])" and "x \<notin> set xs"
    by (auto simp: ring_def dest: linked_nxt)
  moreover from n \<open>q \<noteq> x\<close> \<open>x \<notin> set xs\<close> have "nxt h x \<noteq> x" by (cases xs) auto
  ultimately show ?thesis
    by (simp add: QueRemoveNext_def QueRemove_def Let_def fun_upd_twist)
qed

section \<open>Refinement of the stores of rings\<close>

definition in_store :: "'n set \<Rightarrow> ('n \<Rightarrow> 'n list) \<Rightarrow> 'n set" where
  "in_store H Q = (\<Union>q\<in>H. insert q (set (Q q)))"

lemma store_ring: "store h H Q \<Longrightarrow> q \<in> H \<Longrightarrow> ring h q (Q q)"
  by (simp add: store_def)

lemma store_disjoint:
  "store h H Q \<Longrightarrow> q \<in> H \<Longrightarrow> r \<in> H \<Longrightarrow> q \<noteq> r \<Longrightarrow> x \<in> insert q (set (Q q)) \<Longrightarrow> x \<notin> insert r (set (Q r))"
  unfolding store_def by blast

text \<open>
  The frame argument, once for all operations: an operation that turns the ring of \<open>q\<close> into a
  ring with entries \<open>xs\<close>, touching only nodes of that ring and nodes outside the store, refines
  the update of the queue \<open>q\<close> to \<open>xs\<close>.
\<close>

lemma store_update:
  assumes st: "store h H Q" and q: "q \<in> H" and r: "ring h' q xs"
    and fresh: "set xs \<subseteq> set (Q q) \<union> - in_store H Q"
    and fr: "\<And>x. x \<in> in_store H Q \<Longrightarrow> x \<notin> insert q (set (Q q)) \<Longrightarrow> nxt h' x = nxt h x \<and> prv h' x = prv h x"
  shows "store h' H (Q(q := xs))"
  unfolding store_def
proof (intro conjI ballI impI)
  fix p assume p: "p \<in> H"
  show "ring h' p ((Q(q := xs)) p)"
  proof (cases "p = q")
    case False
    have "ring h' p (Q p)"
    proof (rule ring_cong [OF store_ring [OF st p]])
      fix x assume "x \<in> insert p (set (Q p))"
      moreover from this have "x \<in> in_store H Q" using p by (auto simp: in_store_def)
      ultimately show "nxt h' x = nxt h x \<and> prv h' x = prv h x"
        using fr store_disjoint [OF st p q False] by blast
    qed
    with False show ?thesis by simp
  qed (use r in simp)
next
  fix p s assume p: "p \<in> H" and s: "s \<in> H" and ne: "p \<noteq> s"
  have out: "insert r (set (Q r)) \<inter> insert q (set xs) = {}" if "r \<in> H" "r \<noteq> q" for r
    using fresh that q store_disjoint [OF st that(1) q that(2)] by (fastforce simp: in_store_def)
  show "insert p (set ((Q(q := xs)) p)) \<inter> insert s (set ((Q(q := xs)) s)) = {}"
  proof (cases "p = q \<or> s = q")
    case True
    then show ?thesis using out [OF s] out [OF p] ne by (auto simp: Int_commute)
  next
    case False
    then show ?thesis using store_disjoint [OF st p s ne] by auto
  qed
qed

theorem store_QueInsert_head:
  assumes st: "store h H Q" and q: "q \<in> H" and e: "e \<notin> in_store H Q"
  shows "store (QueInsert e q h) H (Q(q := Q q @ [e]))"
proof (rule store_update [OF st q])
  have r: "ring h q (Q q)" using st q by (rule store_ring)
  have e': "e \<notin> insert q (set (Q q))" using e q by (auto simp: in_store_def)
  show "ring (QueInsert e q h) q (Q q @ [e])"
    using r e' by (rule ring_QueInsert_head)
  show "set (Q q @ [e]) \<subseteq> set (Q q) \<union> - in_store H Q" using e by auto
  fix x assume "x \<in> in_store H Q" and "x \<notin> insert q (set (Q q))"
  then show "nxt (QueInsert e q h) x = nxt h x \<and> prv (QueInsert e q h) x = prv h x"
    using e e' ring_prv_in [OF r, of q] by auto
qed

theorem store_QueInsert_entry:
  assumes st: "store h H Q" and q: "q \<in> H" and e: "e \<notin> in_store H Q"
    and y: "Q q = as @ y # bs"
  shows "store (QueInsert e y h) H (Q(q := as @ e # y # bs))"
proof (rule store_update [OF st q])
  have r: "ring h q (as @ y # bs)" using store_ring [OF st q] y by simp
  have e': "e \<notin> insert q (set (as @ y # bs))" using e q y by (auto simp: in_store_def)
  show "ring (QueInsert e y h) q (as @ e # y # bs)"
    using r e' by (rule ring_QueInsert_entry)
  show "set (as @ e # y # bs) \<subseteq> set (Q q) \<union> - in_store H Q" using e y by auto
  fix x assume "x \<in> in_store H Q" and "x \<notin> insert q (set (Q q))"
  then show "nxt (QueInsert e y h) x = nxt h x \<and> prv (QueInsert e y h) x = prv h x"
    using e e' y ring_prv_in [OF r, of y] by auto
qed

theorem store_QueRemove:
  assumes st: "store h H Q" and q: "q \<in> H" and e: "Q q = as @ e # bs"
  shows "store (QueRemove e h) H (Q(q := as @ bs))"
proof (rule store_update [OF st q])
  have r: "ring h q (as @ e # bs)" using store_ring [OF st q] e by simp
  then show "ring (QueRemove e h) q (as @ bs)" by (rule ring_QueRemove)
  show "set (as @ bs) \<subseteq> set (Q q) \<union> - in_store H Q" using e by auto
  fix x assume "x \<in> in_store H Q" and "x \<notin> insert q (set (Q q))"
  then show "nxt (QueRemove e h) x = nxt h x \<and> prv (QueRemove e h) x = prv h x"
    using e ring_prv_in [OF r, of e] ring_nxt_in [OF r, of e]
    by (auto simp: QueRemove_def Let_def)
qed

theorem store_QueRemoveNext:
  assumes st: "store h H Q" and q: "q \<in> H"
  shows "QueRemoveNext q h = (None, h) \<and> Q q = [] \<or>
    (\<exists>x xs h'. QueRemoveNext q h = (Some x, h') \<and> Q q = x # xs \<and> store h' H (Q(q := xs)))"
proof (cases "Q q")
  case Nil
  with store_ring [OF st q] show ?thesis by (simp add: QueRemoveNext_ring_Nil)
next
  case (Cons x xs)
  then show ?thesis
    using QueRemoveNext_ring_Cons [of h q x xs] store_ring [OF st q]
      store_QueRemove [OF st q, of "[]" x xs] by simp
qed

theorem store_QueInit_new_head:
  assumes st: "store h H Q" and e: "e \<notin> in_store H Q"
  shows "store (QueInit e h) (insert e H) (Q(e := []))"
proof -
  have "ring (QueInit e h) e []" by (simp add: ring_empty QueInit_def)
  moreover have "ring (QueInit e h) p (Q p)" if "p \<in> H" for p
    by (rule ring_cong [OF store_ring [OF st that]]) (use that e in \<open>auto simp: in_store_def QueInit_def\<close>)
  moreover have "e \<notin> insert p (set (Q p))" if "p \<in> H" for p
    using e that by (auto simp: in_store_def)
  ultimately show ?thesis
    using st unfolding store_def by (auto; blast)
qed

section \<open>The search loop\<close>

lemma que_find_linked:
  assumes "linked h a xs b" and "b \<notin> set xs"
  shows "que_find h P b (hd (xs @ [b])) = Some (hd (dropWhile (\<lambda>x. \<not> P x) xs @ [b]))"
  using assms
proof (induction xs arbitrary: a)
  case Nil
  then show ?case by (simp add: que_find.simps)
next
  case (Cons x xs)
  then have "nxt h x = hd (xs @ [b])" by (auto dest: linked_nxt)
  with Cons show ?case by (auto simp: que_find.simps [of h P b x])
qed

text \<open>
  The loop ends, and inserting at the node it returns puts the new entry in front of the first
  entry that satisfies \<open>P\<close>.
\<close>

theorem store_find_insert:
  assumes st: "store h H Q" and q: "q \<in> H" and e: "e \<notin> in_store H Q"
  shows "\<exists>y. que_find h P q (nxt h q) = Some y \<and>
    store (QueInsert e y h) H (Q(q := insert_before P e (Q q)))"
proof -
  have r: "linked h q (Q q) q" "q \<notin> set (Q q)"
    using store_ring [OF st q] by (auto simp: ring_def)
  have n: "nxt h q = hd (Q q @ [q])" using r(1) by (rule linked_nxt)
  have f: "que_find h P q (nxt h q) = Some (hd (dropWhile (\<lambda>x. \<not> P x) (Q q) @ [q]))"
    unfolding n using r by (rule que_find_linked)
  show ?thesis
  proof (cases "dropWhile (\<lambda>x. \<not> P x) (Q q)")
    case Nil
    then have "insert_before P e (Q q) = Q q @ [e]" by simp
    moreover from f have "que_find h P q (nxt h q) = Some q"
      by (simp only: Nil append_Nil list.sel)
    ultimately show ?thesis
      using store_QueInsert_head [OF st q e] by simp
  next
    case (Cons y ys)
    then have "Q q = takeWhile (\<lambda>x. \<not> P x) (Q q) @ y # ys"
      by (metis takeWhile_dropWhile_id)
    from store_QueInsert_entry [OF st q e this] Cons f show ?thesis
      by (simp add: insert_before_split)
  qed
qed

end
