(* ===== verification/Kernel_State.thy ===== *)
theory Kernel_State
  imports Prelude "HOL-Library.Monad_Syntax"
begin

text \<open>
  The data of the kernel: the task control block (\<^verbatim>\<open>task.h\<close>), the wait information
  (\<^verbatim>\<open>winfo.h\<close>), the timer event block (\<^verbatim>\<open>timer.h\<close>), the object control blocks and the global
  variables of \<^verbatim>\<open>task.c\<close>, \<^verbatim>\<open>timer.c\<close>, \<^verbatim>\<open>mp_domain.c\<close> and the object modules, gathered in one
  state. A TCB, semaphore, \<dots> is referred to by its index in its table.

  Queues are lists of the entries of the ring (theory \<open>Ring_Queue\<close>). A task is linked by its
  one \<open>tskque\<close> node, so \<open>QueRemove(&tcb->tskque)\<close> takes it out of whatever ring holds it:
  \<open>QueRemove_tsk\<close> below removes it from every queue.
\<close>

section \<open>Configuration\<close>

definition MAX_PROC :: nat where "MAX_PROC = 4"
definition NUM_PRI :: nat where "NUM_PRI = 140"
definition MIN_PRI :: int where "MIN_PRI = 1"
definition MAX_PRI :: int where "MAX_PRI = 140"
definition BITMAP_BYTES :: nat where "BITMAP_BYTES = 20"

definition CHK_PRI :: "int \<Rightarrow> bool" where
  "CHK_PRI pri \<longleftrightarrow> MIN_PRI \<le> pri \<and> pri \<le> MAX_PRI"

definition int_priority :: "int \<Rightarrow> int" where
  "int_priority x = x - MIN_PRI"

definition ext_tskpri :: "nat \<Rightarrow> int" where
  "ext_tskpri x = int x + MIN_PRI"

section \<open>Object attributes and time-out values\<close>

definition TA_HLNG :: ATR where "TA_HLNG = 0x00000001"
definition TA_TFIFO :: ATR where "TA_TFIFO = 0x00000000"
definition TA_TPRI :: ATR where "TA_TPRI = 0x00000001"
definition TA_FIRST :: ATR where "TA_FIRST = 0x00000000"
definition TA_CNT :: ATR where "TA_CNT = 0x00000002"
definition TA_NODISWAI :: ATR where "TA_NODISWAI = 0x00000080"
definition TA_ONAME :: ATR where "TA_ONAME = 0x00000040"

definition TMO_POL :: TMO where "TMO_POL = 0"
definition TMO_FEVR :: TMO where "TMO_FEVR = -1"

section \<open>Tasks\<close>

datatype TSTAT = TS_NONEXIST | TS_READY | TS_WAIT | TS_SUSPEND | TS_WAITSUS | TS_DORMANT

fun tstat_code :: "TSTAT \<Rightarrow> UW" where
  "tstat_code TS_NONEXIST = 0"
| "tstat_code TS_READY = 1"
| "tstat_code TS_WAIT = 2"
| "tstat_code TS_SUSPEND = 4"
| "tstat_code TS_WAITSUS = 6"
| "tstat_code TS_DORMANT = 8"

definition task_alive :: "TSTAT \<Rightarrow> bool" where
  "task_alive st \<longleftrightarrow> tstat_code st AND (1 OR 2 OR 4) \<noteq> 0"

definition is_wait :: "TSTAT \<Rightarrow> bool" where
  "is_wait st \<longleftrightarrow> tstat_code st AND tstat_code TS_WAIT \<noteq> 0"

lemma is_wait_iff [simp]: "is_wait st \<longleftrightarrow> st = TS_WAIT \<or> st = TS_WAITSUS"
  by (cases st) (simp_all add: is_wait_def)

lemma task_alive_iff [simp]: "task_alive st \<longleftrightarrow> st \<noteq> TS_NONEXIST \<and> st \<noteq> TS_DORMANT"
  by (cases st) (simp_all add: task_alive_def)

text \<open>
  The hook functions a \<open>WSPEC\<close> points to, by name, and the \<open>WSPEC\<close> objects, by address: the
  static ones of the object modules and the local one of \<open>_tk_wai_tev\<close>.
\<close>

datatype hook = Sem_chg_pri | Sem_rel_wai | Flg_chg_pri | Mbx_chg_pri | Mtx_chg_pri | Mtx_rel_wai
  | Mpf_chg_pri | Mpl_chg_pri | Mpl_rel_wai | Mbf_chg_pri | Mbf_rel_wai | Cal_chg_pri

record WSPEC =
  tskwait :: UW
  chg_pri_hook :: "hook option"
  rel_wai_hook :: "hook option"

definition TTW_SLP :: UW where "TTW_SLP = 0x00000001"
definition TTW_DLY :: UW where "TTW_DLY = 0x00000002"
definition TTW_SEM :: UW where "TTW_SEM = 0x00000004"
definition TTW_FLG :: UW where "TTW_FLG = 0x00000008"
definition TTW_MBX :: UW where "TTW_MBX = 0x00000040"
definition TTW_MTX :: UW where "TTW_MTX = 0x00000080"
definition TTW_SMBF :: UW where "TTW_SMBF = 0x00000100"
definition TTW_RMBF :: UW where "TTW_RMBF = 0x00000200"
definition TTW_CAL :: UW where "TTW_CAL = 0x00000400"
definition TTW_ACP :: UW where "TTW_ACP = 0x00000800"
definition TTW_RDV :: UW where "TTW_RDV = 0x00001000"
definition TTW_MPF :: UW where "TTW_MPF = 0x00002000"
definition TTW_MPL :: UW where "TTW_MPL = 0x00004000"

datatype wspec_ref = Wspec_slp | Wspec_sem_tfifo | Wspec_sem_tpri | Wspec_flg_tfifo | Wspec_flg_tpri
  | Wspec_mbx_tfifo | Wspec_mbx_tpri | Wspec_mtx_tfifo | Wspec_mtx_tpri | Wspec_mtx_inherit
  | Wspec_mpf_tfifo | Wspec_mpf_tpri | Wspec_mpl_tfifo | Wspec_mpl_tpri | Wspec_smbf_tfifo | Wspec_smbf_tpri | Wspec_rmbf
  | Wspec_cal_tfifo | Wspec_cal_tpri | Wspec_acp | Wspec_rdv | Wspec_dly | Wspec_local WSPEC

fun wspec_at :: "wspec_ref \<Rightarrow> WSPEC" where
  "wspec_at Wspec_slp = \<lparr>tskwait = TTW_SLP, chg_pri_hook = None, rel_wai_hook = None\<rparr>"
| "wspec_at Wspec_sem_tfifo = \<lparr>tskwait = TTW_SEM, chg_pri_hook = None, rel_wai_hook = Some Sem_rel_wai\<rparr>"
| "wspec_at Wspec_sem_tpri = \<lparr>tskwait = TTW_SEM, chg_pri_hook = Some Sem_chg_pri, rel_wai_hook = Some Sem_rel_wai\<rparr>"
| "wspec_at Wspec_flg_tfifo = \<lparr>tskwait = TTW_FLG, chg_pri_hook = None, rel_wai_hook = None\<rparr>"
| "wspec_at Wspec_flg_tpri = \<lparr>tskwait = TTW_FLG, chg_pri_hook = Some Flg_chg_pri, rel_wai_hook = None\<rparr>"
| "wspec_at Wspec_mbx_tfifo = \<lparr>tskwait = TTW_MBX, chg_pri_hook = None, rel_wai_hook = None\<rparr>"
| "wspec_at Wspec_mbx_tpri = \<lparr>tskwait = TTW_MBX, chg_pri_hook = Some Mbx_chg_pri, rel_wai_hook = None\<rparr>"
| "wspec_at Wspec_mtx_tfifo = \<lparr>tskwait = TTW_MTX, chg_pri_hook = None, rel_wai_hook = None\<rparr>"
| "wspec_at Wspec_mtx_tpri = \<lparr>tskwait = TTW_MTX, chg_pri_hook = Some Mtx_chg_pri, rel_wai_hook = None\<rparr>"
| "wspec_at Wspec_mtx_inherit = \<lparr>tskwait = TTW_MTX, chg_pri_hook = Some Mtx_chg_pri, rel_wai_hook = Some Mtx_rel_wai\<rparr>"
| "wspec_at Wspec_mpf_tfifo = \<lparr>tskwait = TTW_MPF, chg_pri_hook = None, rel_wai_hook = None\<rparr>"
| "wspec_at Wspec_mpf_tpri = \<lparr>tskwait = TTW_MPF, chg_pri_hook = Some Mpf_chg_pri, rel_wai_hook = None\<rparr>"
| "wspec_at Wspec_mpl_tfifo = \<lparr>tskwait = TTW_MPL, chg_pri_hook = None, rel_wai_hook = Some Mpl_rel_wai\<rparr>"
| "wspec_at Wspec_mpl_tpri = \<lparr>tskwait = TTW_MPL, chg_pri_hook = Some Mpl_chg_pri, rel_wai_hook = Some Mpl_rel_wai\<rparr>"
| "wspec_at Wspec_smbf_tfifo = \<lparr>tskwait = TTW_SMBF, chg_pri_hook = None, rel_wai_hook = Some Mbf_rel_wai\<rparr>"
| "wspec_at Wspec_smbf_tpri = \<lparr>tskwait = TTW_SMBF, chg_pri_hook = Some Mbf_chg_pri, rel_wai_hook = Some Mbf_rel_wai\<rparr>"
| "wspec_at Wspec_rmbf = \<lparr>tskwait = TTW_RMBF, chg_pri_hook = None, rel_wai_hook = None\<rparr>"
| "wspec_at Wspec_cal_tfifo = \<lparr>tskwait = TTW_CAL, chg_pri_hook = None, rel_wai_hook = None\<rparr>"
| "wspec_at Wspec_cal_tpri = \<lparr>tskwait = TTW_CAL, chg_pri_hook = Some Cal_chg_pri, rel_wai_hook = None\<rparr>"
| "wspec_at Wspec_acp = \<lparr>tskwait = TTW_ACP, chg_pri_hook = None, rel_wai_hook = None\<rparr>"
| "wspec_at Wspec_rdv = \<lparr>tskwait = TTW_RDV, chg_pri_hook = None, rel_wai_hook = None\<rparr>"
| "wspec_at Wspec_dly = \<lparr>tskwait = TTW_DLY, chg_pri_hook = None, rel_wai_hook = None\<rparr>"
| "wspec_at (Wspec_local w) = w"

text \<open>The union \<open>WINFO\<close>; a pointer is a 32-bit address.\<close>

datatype WINFO = Winfo_none
  | Winfo_sem (sem_cnt: int)
  | Winfo_flg (flg_waiptn: UW) (flg_wfmode: UW) (flg_p_flgptn: UW)
  | Winfo_mbx (mbx_ppk_msg: UW)
  | Winfo_rmbf (rmbf_msg: UW) (rmbf_p_msgsz: UW)
  | Winfo_smbf (smbf_msg: UW) (smbf_msgsz: int)
  | Winfo_cal (cal_calptn: UW) (cal_msg: UW) (cal_cmsgsz: int) (cal_p_rmsgsz: UW)
  | Winfo_acp (acp_acpptn: UW) (acp_msg: UW) (acp_p_rdvno: UW) (acp_p_cmsgsz: UW)
  | Winfo_rdv (rdv_rdvno: UW) (rdv_msg: UW) (rdv_maxrmsz: int) (rdv_p_rmsgsz: UW)
  | Winfo_mpl (mpl_blksz: int) (mpl_p_blk: UW)
  | Winfo_mpf (mpf_p_blf: UW)

datatype tmeb_ref = TmTsk nat | TmCyc nat | TmAlm nat

datatype callback = Cb_wait_release_tmout nat | Cb_distribute tmeb_ref | Cb_call tmeb_ref

record TMEB =
  tm_time :: LL
  tm_callback :: "callback option"

text \<open>The only lock of this kind is the member \<open>svclock\<close> of a task control block.\<close>

datatype svclock_ref = SvcTsk nat

record tcb =
  tskid :: ID
  exinf :: UW
  tskatr :: ATR
  resid :: int
  stksz :: int
  sstksz :: int
  reqdct :: UB
  isysmode :: int
  sysmode :: int
  ipriority :: nat
  bpriority :: nat
  priority :: nat
  state :: TSTAT
  nodiswai :: bool
  klockwait :: bool
  klocked :: bool
  stkfree :: bool
  wspec :: wspec_ref
  wid :: ID
  wupcnt :: int
  suscnt :: int
  wercd :: int
  winfo :: WINFO
  wtmeb :: TMEB
  waitmask :: UW
  wrdvno :: UW
  mtxlist :: "nat list"
  tskevt :: UB
  svclocked :: "svclock_ref list"
  texhdr :: UW
  texmask :: UW
  pendtex :: UW
  exectex :: UW
  texflg :: UH
  execssid :: UH
  slicetime :: UW
  slicecnt :: UW
  stime :: UW
  utime :: UW
  tsk_oname :: "UB list"
  assprc :: UW
  tsk_task :: UW
  istack :: UW
  isstack :: UW
  ctx_ssp :: UW
  ctx_uatb :: UW
  ctx_lsid :: int

section \<open>Queues of tasks\<close>

text \<open>The heads of the rings a TCB can be linked into.\<close>

datatype qhead = QReady nat | QFreeTcb | QSem nat | QFlg nat | QMbx nat | QMtx nat
  | QMpf nat | QMpl nat | QSmbf nat | QRmbf nat | QCal nat | QAcp nat
  | QObjLock nat | QSvcLock svclock_ref

text \<open>The successor of an entry in its ring; \<open>None\<close> is the head.\<close>

fun ring_next :: "nat list \<Rightarrow> nat \<Rightarrow> nat option" where
  "ring_next [] t = None"
| "ring_next [x] t = None"
| "ring_next (x # y # zs) t = (if x = t then Some y else ring_next (y # zs) t)"

section \<open>Object control blocks\<close>

record SEMCB =
  semid :: ID
  sem_exinf :: UW
  sematr :: ATR
  semcnt :: int
  maxsem :: int
  sem_oname :: "UB list"

record FLGCB =
  flgid :: ID
  flg_exinf :: UW
  flgatr :: ATR
  flgptn :: UW
  flg_oname :: "UB list"

text \<open>
  A message queue is linked through the first word of the message headers, starting in the
  control block: a link is a message address or \<open>NULL\<close>.
\<close>

record MBXCB =
  mbxid :: ID
  mbx_exinf :: UW
  mbxatr :: ATR
  mq_head :: "UW option"
  mq_tail :: "UW option"
  mbx_oname :: "UB list"

record MTXCB =
  mtxid :: ID
  mtx_exinf :: UW
  mtxatr :: ATR
  ceilpri :: nat
  mtxtsk :: "nat option"
  mtx_oname :: "UB list"

record DOMCB =
  domid :: ID
  dom_exinf :: UW
  domatr :: ATR
  dom_oname :: "UB list"
  objcnt :: UW

text \<open>A module's table of control blocks, its \<open>FreeQue\<close> (indices in queue order) and its size.\<close>

record 'cb objtab =
  cbs :: "nat \<Rightarrow> 'cb"
  freeq :: "nat list"
  maxid :: nat

datatype objtype = OT_TSK | OT_SEM | OT_FLG | OT_MBX | OT_MTX | OT_MBF | OT_POR | OT_MPF | OT_MPL | OT_CYC | OT_ALM | OT_DOM

record T_MSG =
  nextmsg :: "UW option"
  msgpri :: int

text \<open>The buffer of a message buffer is the block of bytes that \<open>buffer\<close> points to.\<close>

record MBFCB =
  mbfid :: ID
  mbf_exinf :: UW
  mbfatr :: ATR
  bufsz :: int
  maxmsz :: int
  frbufsz :: int
  mbf_head :: int
  mbf_tail :: int
  buffer :: "UB list"
  mbf_oname :: "UB list"

text \<open>\<open>mempool\<close>, \<open>unused\<close> and \<open>freelist\<close> are addresses; 0 is \<open>NULL\<close>.\<close>

record MPFCB =
  mpfid :: ID
  mpf_exinf :: UW
  mpfatr :: ATR
  mpfcnt :: int
  blfsz :: int
  mpfsz :: int
  frbcnt :: int
  mempool :: UW
  unused :: UW
  freelist :: UW
  mpf_locked :: bool
  mpf_oname :: "UB list"

text \<open>\<open>areaque\<close> and \<open>freeque\<close> are the addresses of the two queue heads in the control block.\<close>

record MPLCB =
  mplid :: ID
  mpl_exinf :: UW
  mplatr :: ATR
  mplsz :: int
  areaque :: UW
  freeque :: UW
  mpl_oname :: "UB list"

record PORCB =
  porid :: ID
  por_exinf :: UW
  poratr :: ATR
  maxcmsz :: int
  maxrmsz :: int
  por_oname :: "UB list"

text \<open>The timer event block of a handler is in \<open>cyc_tmeb\<close> or \<open>alm_tmeb\<close>; a handler address 0 is \<open>NULL\<close>.\<close>

record CYCCB =
  cycid :: ID
  cyc_exinf :: UW
  cycatr :: ATR
  cychdr :: UW
  cycstat :: UW
  cyctim :: UW
  cyc_gp :: UW
  cyc_oname :: "UB list"
  cyc_assprc :: UW
  cycno :: UW

record ALMCB =
  almid :: ID
  alm_exinf :: UW
  almatr :: ATR
  almhdr :: UW
  almstat :: UW
  alm_gp :: UW
  alm_oname :: "UB list"
  alm_assprc :: UW
  almno :: UW

record HDRQUE =
  hq_upd :: bool
  hq_act :: bool
  hdrque :: "tmeb_ref list"

text \<open>
  The other objects. \<open>bmem\<close> is the memory of message contents, byte by byte. A lock of \<^verbatim>\<open>klock.c\<close> is held when
  the \<open>next\<close> of its queue is not \<open>NULL\<close>.
\<close>

record kobjs =
  bmem :: "UW \<Rightarrow> UB"
  mbftab :: "MBFCB objtab"
  mpftab :: "MPFCB objtab"
  mpltab :: "MPLCB objtab"
  portab :: "PORCB objtab"
  cyctab :: "CYCCB objtab"
  almtab :: "ALMCB objtab"
  handler_queue :: "nat \<Rightarrow> HDRQUE"
  objlock_held :: "nat \<Rightarrow> bool"
  svclock_held :: "svclock_ref \<Rightarrow> bool"
  default_sstksz :: int
  max_resid :: nat
  available_cop :: ATR

section \<open>The kernel state\<close>

record kstate =
  num_proc :: nat
  max_tskid :: nat
  task_indep :: "nat \<Rightarrow> bool"
  cpu_di :: "nat \<Rightarrow> bool"
  ctxtsk :: "nat \<Rightarrow> nat option"
  schedtsk :: "nat \<Rightarrow> nat option"
  dispatch_disabled :: "nat \<Rightarrow> nat"
  tcbs :: "nat \<Rightarrow> tcb"
  ques :: "qhead \<Rightarrow> nat list"
  rq_bitmap :: "UB list"
  rq_klocktsk :: "nat option"
  rq_top :: "nat option list"
  rq_chg :: bool
  timer_period :: UW
  current_time :: LL
  real_time_ofs :: LL
  timer_queue :: "tmeb_ref list"
  cyc_tmeb :: "nat \<Rightarrow> TMEB"
  alm_tmeb :: "nat \<Rightarrow> TMEB"
  semtab :: "SEMCB objtab"
  flgtab :: "FLGCB objtab"
  mbxtab :: "MBXCB objtab"
  mtxtab :: "MTXCB objtab"
  domtab :: "DOMCB objtab"
  hashcb :: "objtype \<Rightarrow> UW list"
  oaplimit :: int
  umem :: "UW \<Rightarrow> UW"
  ko :: kobjs
  msgs :: "UW \<Rightarrow> T_MSG"

definition upd_tcb :: "nat \<Rightarrow> (tcb \<Rightarrow> tcb) \<Rightarrow> kstate \<Rightarrow> kstate" where
  "upd_tcb t f s = s\<lparr>tcbs := (tcbs s)(t := f (tcbs s t))\<rparr>"

abbreviation pri :: "kstate \<Rightarrow> nat \<Rightarrow> nat" where
  "pri s t \<equiv> priority (tcbs s t)"

definition set_que :: "qhead \<Rightarrow> nat list \<Rightarrow> kstate \<Rightarrow> kstate" where
  "set_que q xs s = s\<lparr>ques := (ques s)(q := xs)\<rparr>"

definition QueInsert_tail :: "nat \<Rightarrow> qhead \<Rightarrow> kstate \<Rightarrow> kstate" where
  "QueInsert_tail t q s = set_que q (ques s q @ [t]) s"

definition QueInsert_head :: "nat \<Rightarrow> qhead \<Rightarrow> kstate \<Rightarrow> kstate" where
  "QueInsert_head t q s = set_que q (t # ques s q) s"

definition QueRemove_tsk :: "nat \<Rightarrow> kstate \<Rightarrow> kstate" where
  "QueRemove_tsk t s = s\<lparr>ques := (\<lambda>q. remove1 t (ques s q))\<rparr>"

lemma tcbs_upd_tcb [simp]: "tcbs (upd_tcb t f s) = (tcbs s)(t := f (tcbs s t))"
  by (simp add: upd_tcb_def)

lemma upd_tcb_frame [simp]:
  "num_proc (upd_tcb t f s) = num_proc s" "max_tskid (upd_tcb t f s) = max_tskid s"
  "task_indep (upd_tcb t f s) = task_indep s" "cpu_di (upd_tcb t f s) = cpu_di s"
  "ctxtsk (upd_tcb t f s) = ctxtsk s" "schedtsk (upd_tcb t f s) = schedtsk s"
  "dispatch_disabled (upd_tcb t f s) = dispatch_disabled s" "ques (upd_tcb t f s) = ques s"
  "rq_bitmap (upd_tcb t f s) = rq_bitmap s" "rq_klocktsk (upd_tcb t f s) = rq_klocktsk s"
  "rq_top (upd_tcb t f s) = rq_top s" "rq_chg (upd_tcb t f s) = rq_chg s"
  "timer_period (upd_tcb t f s) = timer_period s" "current_time (upd_tcb t f s) = current_time s"
  "cyc_tmeb (upd_tcb t f s) = cyc_tmeb s" "alm_tmeb (upd_tcb t f s) = alm_tmeb s"
  "real_time_ofs (upd_tcb t f s) = real_time_ofs s" "timer_queue (upd_tcb t f s) = timer_queue s"
  "semtab (upd_tcb t f s) = semtab s" "flgtab (upd_tcb t f s) = flgtab s"
  "mbxtab (upd_tcb t f s) = mbxtab s" "mtxtab (upd_tcb t f s) = mtxtab s"
  "domtab (upd_tcb t f s) = domtab s" "hashcb (upd_tcb t f s) = hashcb s"
  "oaplimit (upd_tcb t f s) = oaplimit s" "umem (upd_tcb t f s) = umem s" "ko (upd_tcb t f s) = ko s" "msgs (upd_tcb t f s) = msgs s"
  by (simp_all add: upd_tcb_def)

end
