(* ===== verification/Bitop.thy ===== *)
theory Bitop
  imports Prelude
begin

text \<open>
  The bit strings of \<^verbatim>\<open>kernel/tstdlib/bitop.c\<close> in their little-endian configuration. A bit
  string is an array of bytes; bit \<open>n\<close> is bit \<open>n mod 8\<close> of byte \<open>n div 8\<close>. The searches return
  \<open>None\<close> where the code would read behind the array or shift its mask for ever; the search
  theorems show that neither happens inside the array, and that the byte-skipping loops find
  the first bit that a plain left-to-right search finds.
\<close>

section \<open>Bit operations\<close>

definition BIT_SET_N :: "int \<Rightarrow> UB" where
  "BIT_SET_N n = push_bit (nat (n mod 8)) 1"

definition BIT_SHIFT :: "UB \<Rightarrow> UB" where
  "BIT_SHIFT n = push_bit 1 n"

definition BIT_MSK_N :: "int \<Rightarrow> UB" where
  "BIT_MSK_N n = push_bit (nat (n mod 8)) 0xFF"

definition tstdlib_bitclr :: "UB list \<Rightarrow> int \<Rightarrow> UB list" where
  "tstdlib_bitclr base offset =
    (if offset < 0 then base
     else let cp = nat (offset div 8); msk = BIT_SET_N offset
          in base[cp := base ! cp AND NOT msk])"

definition tstdlib_bitset :: "UB list \<Rightarrow> int \<Rightarrow> UB list" where
  "tstdlib_bitset base offset =
    (if offset < 0 then base
     else let cp = nat (offset div 8); msk = BIT_SET_N offset
          in base[cp := base ! cp OR msk])"

definition tstdlib_bittest :: "UB list \<Rightarrow> int \<Rightarrow> bool" where
  "tstdlib_bittest base offset =
    (if offset < 0 then False
     else let cp = nat (offset div 8); msk = BIT_SET_N offset
          in base ! cp AND msk \<noteq> 0)"

partial_function (option) bitsearch0_scan :: "UB \<Rightarrow> UB \<Rightarrow> int \<Rightarrow> int \<Rightarrow> int option" where
  "bitsearch0_scan byte msk position width =
    (if byte AND msk = 0 then Some (if position < width then position else -1)
     else bitsearch0_scan byte (BIT_SHIFT msk) (position + 1) width)"

partial_function (option) bitsearch0_loop ::
  "UB list \<Rightarrow> int \<Rightarrow> int \<Rightarrow> nat \<Rightarrow> UB \<Rightarrow> UB \<Rightarrow> int \<Rightarrow> int option" where
  "bitsearch0_loop base offset width cp msk cpmask position =
    (if position < width then
       if length base \<le> cp then None
       else if base ! cp OR cpmask \<noteq> 0xFF then bitsearch0_scan (base ! cp) msk position width
       else if position \<noteq> 0
         then bitsearch0_loop base offset width (cp + 1) msk cpmask (position + 8)
         else bitsearch0_loop base offset width (cp + 1) (BIT_SET_N 0) (NOT (BIT_MSK_N 0)) (8 - offset mod 8)
     else Some (-1))"

definition tstdlib_bitsearch0 :: "UB list \<Rightarrow> int \<Rightarrow> int \<Rightarrow> int option" where
  "tstdlib_bitsearch0 base offset width =
    (if offset < 0 \<or> width < 0 then Some (-1)
     else bitsearch0_loop base offset width (nat (offset div 8)) (BIT_SET_N offset)
            (NOT (BIT_MSK_N offset)) 0)"

partial_function (option) bitsearch1_scan :: "UB \<Rightarrow> UB \<Rightarrow> int \<Rightarrow> int \<Rightarrow> int option" where
  "bitsearch1_scan byte msk position width =
    (if byte AND msk \<noteq> 0 then Some (if position < width then position else -1)
     else bitsearch1_scan byte (BIT_SHIFT msk) (position + 1) width)"

partial_function (option) bitsearch1_loop ::
  "UB list \<Rightarrow> int \<Rightarrow> int \<Rightarrow> nat \<Rightarrow> UB \<Rightarrow> UB \<Rightarrow> int \<Rightarrow> int option" where
  "bitsearch1_loop base offset width cp msk cpmask position =
    (if position < width then
       if length base \<le> cp then None
       else if base ! cp AND cpmask \<noteq> 0 then bitsearch1_scan (base ! cp) msk position width
       else if position \<noteq> 0
         then bitsearch1_loop base offset width (cp + 1) msk cpmask (position + 8)
         else bitsearch1_loop base offset width (cp + 1) (BIT_SET_N 0) (BIT_MSK_N 0) (8 - offset mod 8)
     else Some (-1))"

definition tstdlib_bitsearch1 :: "UB list \<Rightarrow> int \<Rightarrow> int \<Rightarrow> int option" where
  "tstdlib_bitsearch1 base offset width =
    (if offset < 0 \<or> width < 0 then Some (-1)
     else bitsearch1_loop base offset width (nat (offset div 8)) (BIT_SET_N offset)
            (BIT_MSK_N offset) 0)"

section \<open>The bits of a bit string\<close>

definition bit_at :: "UB list \<Rightarrow> nat \<Rightarrow> bool" where
  "bit_at base n = bit (base ! (n div 8)) (n mod 8)"

text \<open>The reference search: position of the first bit with value \<open>b\<close> among \<open>width\<close> bits.\<close>

definition first_bit :: "bool \<Rightarrow> UB list \<Rightarrow> nat \<Rightarrow> nat \<Rightarrow> int" where
  "first_bit b base offset width =
    (case find (\<lambda>i. bit_at base (offset + i) = b) [0..<width] of None \<Rightarrow> -1 | Some i \<Rightarrow> int i)"

lemma byte_eq_zero_iff: "w = 0 \<longleftrightarrow> (\<forall>j<8. \<not> bit w j)" for w :: UB
  by (auto simp: bit_eq_iff)

lemma bit_BIT_SET_N [simp]: "j < 8 \<Longrightarrow> bit (BIT_SET_N (int n)) j \<longleftrightarrow> j = n mod 8"
  by (auto simp: BIT_SET_N_def bit_simps nat_mod_distrib)

definition bit1 :: "nat \<Rightarrow> UB" where
  "bit1 k = push_bit k 1"

lemma BIT_SET_N_eq: "BIT_SET_N (int n) = bit1 (n mod 8)"
  by (simp add: BIT_SET_N_def bit1_def nat_mod_distrib)

lemma bit_FF: "i < 8 \<Longrightarrow> bit (0xFF :: UB) i"
  by (auto simp: less_Suc_eq numeral_eq_Suc)

lemma byte_eq_FF_iff: "w = 0xFF \<longleftrightarrow> (\<forall>j<8. bit w j)" for w :: UB
  using bit_FF by (auto simp: bit_eq_iff simp del: bit_numeral_simps)

lemma bit_BIT_MSK_N [simp]: "j < 8 \<Longrightarrow> bit (BIT_MSK_N (int n)) j \<longleftrightarrow> n mod 8 \<le> j"
proof -
  assume j: "j < 8"
  with bit_FF show ?thesis by (auto simp: BIT_MSK_N_def bit_simps nat_mod_distrib)
qed

lemma nat_int_div_8 [simp]: "nat (int n div 8) = n div 8"
  by (simp add: nat_div_distrib)

lemma length_bitclr [simp]: "length (tstdlib_bitclr base i) = length base"
  by (simp add: tstdlib_bitclr_def Let_def)

lemma length_bitset [simp]: "length (tstdlib_bitset base i) = length base"
  by (simp add: tstdlib_bitset_def Let_def)

lemma bit_at_bitset:
  "n < 8 * length base \<Longrightarrow> bit_at (tstdlib_bitset base (int n)) m \<longleftrightarrow> m = n \<or> bit_at base m"
proof -
  assume n: "n < 8 * length base"
  have m: "m = n \<longleftrightarrow> m div 8 = n div 8 \<and> m mod 8 = n mod 8"
    by (metis div_mult_mod_eq)
  show ?thesis
    using n by (auto simp: tstdlib_bitset_def bit_at_def nth_list_update bit_or_iff m Let_def)
qed

lemma bit_at_bitclr:
  "n < 8 * length base \<Longrightarrow> bit_at (tstdlib_bitclr base (int n)) m \<longleftrightarrow> m \<noteq> n \<and> bit_at base m"
proof -
  assume n: "n < 8 * length base"
  have m: "m = n \<longleftrightarrow> m div 8 = n div 8 \<and> m mod 8 = n mod 8"
    by (metis div_mult_mod_eq)
  show ?thesis
    using n by (auto simp: tstdlib_bitclr_def bit_at_def nth_list_update bit_and_iff bit_not_iff m Let_def)
qed

lemma bittest_bit_at: "tstdlib_bittest base (int n) \<longleftrightarrow> bit_at base n"
proof -
  have "base ! (n div 8) AND BIT_SET_N (int n) \<noteq> 0 \<longleftrightarrow> (\<exists>j<8. bit (base ! (n div 8)) j \<and> j = n mod 8)"
    by (auto simp: byte_eq_zero_iff bit_and_iff)
  then show ?thesis by (simp add: tstdlib_bittest_def bit_at_def Let_def)
qed


section \<open>Correctness of the searches\<close>

lemma bitsearch1_scan_simps:
  "byte AND m \<noteq> 0 \<Longrightarrow> bitsearch1_scan byte m p w = Some (if p < w then p else -1)"
  "byte AND m = 0 \<Longrightarrow> bitsearch1_scan byte m p w = bitsearch1_scan byte (BIT_SHIFT m) (p + 1) w"
  by (subst bitsearch1_scan.simps; simp)+

lemma bitsearch0_scan_simps:
  "byte AND m = 0 \<Longrightarrow> bitsearch0_scan byte m p w = Some (if p < w then p else -1)"
  "byte AND m \<noteq> 0 \<Longrightarrow> bitsearch0_scan byte m p w = bitsearch0_scan byte (BIT_SHIFT m) (p + 1) w"
  by (subst bitsearch0_scan.simps; simp)+

lemma bitsearch1_loop_simps:
  "\<not> p < w \<Longrightarrow> bitsearch1_loop base off w cp m c p = Some (-1)"
  "p < w \<Longrightarrow> cp < length base \<Longrightarrow> base ! cp AND c \<noteq> 0 \<Longrightarrow>
     bitsearch1_loop base off w cp m c p = bitsearch1_scan (base ! cp) m p w"
  "p < w \<Longrightarrow> cp < length base \<Longrightarrow> base ! cp AND c = 0 \<Longrightarrow>
     bitsearch1_loop base off w cp m c p =
       (if p \<noteq> 0 then bitsearch1_loop base off w (Suc cp) m c (p + 8)
        else bitsearch1_loop base off w (Suc cp) (BIT_SET_N 0) (BIT_MSK_N 0) (8 - off mod 8))"
  by (subst bitsearch1_loop.simps; simp)+

lemma bitsearch0_loop_simps:
  "\<not> p < w \<Longrightarrow> bitsearch0_loop base off w cp m c p = Some (-1)"
  "p < w \<Longrightarrow> cp < length base \<Longrightarrow> base ! cp OR c \<noteq> 0xFF \<Longrightarrow>
     bitsearch0_loop base off w cp m c p = bitsearch0_scan (base ! cp) m p w"
  "p < w \<Longrightarrow> cp < length base \<Longrightarrow> base ! cp OR c = 0xFF \<Longrightarrow>
     bitsearch0_loop base off w cp m c p =
       (if p \<noteq> 0 then bitsearch0_loop base off w (Suc cp) m c (p + 8)
        else bitsearch0_loop base off w (Suc cp) (BIT_SET_N 0) (NOT (BIT_MSK_N 0)) (8 - off mod 8))"
  by (subst bitsearch0_loop.simps; simp)+

lemma find_append_if: "find P (xs @ ys) = (if \<exists>x\<in>set xs. P x then find P xs else find P ys)"
  by (induction xs) auto

lemma find_upt_from:
  assumes "p \<le> w" and "\<And>i. i < p \<Longrightarrow> \<not> P i"
  shows "find P [0..<w] = find P [p..<w]"
proof -
  have "[0..<w] = [0..<p] @ [p..<w]"
    using assms(1) upt_add_eq_append [of 0 p "w - p"] by simp
  with assms(2) show ?thesis by (auto simp: find_append_if)
qed

lemma first_bit_here:
  "p < w \<Longrightarrow> (\<And>i. i < p \<Longrightarrow> bit_at base (off + i) \<noteq> b) \<Longrightarrow> bit_at base (off + p) = b \<Longrightarrow>
   first_bit b base off w = int p"
  unfolding first_bit_def by (subst find_upt_from [of p]) (auto simp: upt_conv_Cons)

lemma first_bit_none:
  "(\<And>i. i < w \<Longrightarrow> bit_at base (off + i) \<noteq> b) \<Longrightarrow> first_bit b base off w = -1"
  unfolding first_bit_def by (subst find_upt_from [of w]) auto

lemma first_bit_Some:
  "first_bit b base off w = int p \<Longrightarrow>
     p < w \<and> bit_at base (off + p) = b \<and> (\<forall>i<p. bit_at base (off + i) \<noteq> b)"
  by (auto simp: first_bit_def find_Some_iff split: option.splits)

lemma first_bit_minus1:
  "first_bit b base off w = -1 \<longleftrightarrow> (\<forall>i<w. bit_at base (off + i) \<noteq> b)"
  by (auto simp: first_bit_def find_None_iff find_Some_iff split: option.splits)

lemma BIT_SHIFT_push [simp]: "BIT_SHIFT (bit1 k) = bit1 (Suc k)"
  by (simp add: BIT_SHIFT_def bit1_def push_bit_push_bit del: push_bit_of_1)

lemma and_push_one_iff: "k < 8 \<Longrightarrow> w AND bit1 k = 0 \<longleftrightarrow> \<not> bit w k" for w :: UB
  by (auto simp: byte_eq_zero_iff bit_and_iff bit1_def bit_simps)

text \<open>Scanning a byte from bit \<open>k\<close> stops at the first wanted bit, if the byte has one from \<open>k\<close> on.\<close>

lemma bitsearch1_scan_first:
  assumes "k \<le> j" and "j < 8" and "bit byte j" and "\<And>i. k \<le> i \<Longrightarrow> i < j \<Longrightarrow> \<not> bit byte i"
  shows "bitsearch1_scan byte (bit1 k) (int p) (int w) =
    Some (if p + (j - k) < w then int (p + (j - k)) else -1)"
  using assms
proof (induction "j - k" arbitrary: k p)
  case 0
  then show ?case by (simp add: bitsearch1_scan_simps and_push_one_iff)
next
  case (Suc d)
  then have "k < j" and "\<not> bit byte k" by auto
  moreover have "bitsearch1_scan byte (bit1 (Suc k)) (int (Suc p)) (int w) =
      Some (if Suc p + (j - Suc k) < w then int (Suc p + (j - Suc k)) else -1)"
    using Suc.prems \<open>k < j\<close> by (intro Suc.hyps(1)) (use Suc.hyps(2) in auto)
  moreover have "Suc p + (j - Suc k) = p + (j - k)" using \<open>k < j\<close> by simp
  ultimately show ?case
    using Suc.prems by (simp add: bitsearch1_scan_simps and_push_one_iff add.commute)
qed

lemma bitsearch0_scan_first:
  assumes "k \<le> j" and "j < 8" and "\<not> bit byte j" and "\<And>i. k \<le> i \<Longrightarrow> i < j \<Longrightarrow> bit byte i"
  shows "bitsearch0_scan byte (bit1 k) (int p) (int w) =
    Some (if p + (j - k) < w then int (p + (j - k)) else -1)"
  using assms
proof (induction "j - k" arbitrary: k p)
  case 0
  then show ?case by (simp add: bitsearch0_scan_simps and_push_one_iff)
next
  case (Suc d)
  then have "k < j" and "bit byte k" by auto
  moreover have "bitsearch0_scan byte (bit1 (Suc k)) (int (Suc p)) (int w) =
      Some (if Suc p + (j - Suc k) < w then int (Suc p + (j - Suc k)) else -1)"
    using Suc.prems \<open>k < j\<close> by (intro Suc.hyps(1)) (use Suc.hyps(2) in auto)
  moreover have "Suc p + (j - Suc k) = p + (j - k)" using \<open>k < j\<close> by simp
  ultimately show ?case
    using Suc.prems by (simp add: bitsearch0_scan_simps and_push_one_iff add.commute)
qed

text \<open>
  The invariant of the outer loops: \<open>position\<close> bits have been passed over, the next one is bit
  \<open>k\<close> of byte \<open>cp\<close>, and \<open>k\<close> is \<open>0\<close> from the second byte on.
\<close>

definition search_inv :: "bool \<Rightarrow> UB list \<Rightarrow> nat \<Rightarrow> nat \<Rightarrow> nat \<Rightarrow> nat \<Rightarrow> bool" where
  "search_inv b base off cp k p \<longleftrightarrow> 8 * cp + k = off + p \<and> k < 8 \<and>
     (p = 0 \<longrightarrow> k = off mod 8) \<and> (p \<noteq> 0 \<longrightarrow> k = 0) \<and> (\<forall>i<p. bit_at base (off + i) \<noteq> b)"

lemma search_inv_start: "search_inv b base off (off div 8) (off mod 8) 0"
  by (simp add: search_inv_def)

lemma search_inv_bit:
  "search_inv b base off cp k p \<Longrightarrow> k \<le> j \<Longrightarrow> j < 8 \<Longrightarrow> bit_at base (off + (p + (j - k))) = bit (base ! cp) j"
proof -
  assume i: "search_inv b base off cp k p" and j: "k \<le> j" "j < 8"
  then have "off + (p + (j - k)) = 8 * cp + j" unfolding search_inv_def by linarith
  with j show ?thesis by (simp add: bit_at_def)
qed

lemma search_inv_next:
  assumes i: "search_inv b base off cp k p" and n: "\<And>j. k \<le> j \<Longrightarrow> j < 8 \<Longrightarrow> bit (base ! cp) j \<noteq> b"
  shows "search_inv b base off (Suc cp) 0 (p + (8 - k))"
proof -
  have "bit_at base (off + l) \<noteq> b" if "l < p + (8 - k)" for l
  proof (cases "l < p")
    case True
    with i show ?thesis by (simp add: search_inv_def)
  next
    case False
    with that have "l = p + ((l - p + k) - k)" "l - p + k < 8" by auto
    with search_inv_bit [OF i, of "l - p + k"] n [of "l - p + k"] show ?thesis by auto
  qed
  with i show ?thesis by (auto simp: search_inv_def)
qed

lemma search_inv_found:
  assumes i: "search_inv b base off cp k p" and f: "\<exists>j. k \<le> j \<and> j < 8 \<and> bit (base ! cp) j = b" and p: "p < w"
  shows "\<exists>j\<ge>k. j < 8 \<and> bit (base ! cp) j = b \<and> (\<forall>i. k \<le> i \<and> i < j \<longrightarrow> bit (base ! cp) i \<noteq> b) \<and>
    first_bit b base off w = (if p + (j - k) < w then int (p + (j - k)) else -1)"
proof -
  define j where "j = (LEAST j. k \<le> j \<and> j < 8 \<and> bit (base ! cp) j = b)"
  have j: "k \<le> j \<and> j < 8 \<and> bit (base ! cp) j = b" unfolding j_def using f by (rule LeastI_ex)
  have least: "bit (base ! cp) i \<noteq> b" if "k \<le> i" "i < j" for i
    using not_less_Least [of i "\<lambda>j. k \<le> j \<and> j < 8 \<and> bit (base ! cp) j = b"] that j
    unfolding j_def by auto
  have before: "bit_at base (off + l) \<noteq> b" if "l < p + (j - k)" for l
  proof (cases "l < p")
    case True
    with i show ?thesis by (simp add: search_inv_def)
  next
    case False
    with that j have "l = p + ((l - p + k) - k)" "k \<le> l - p + k" "l - p + k < j" by auto
    with search_inv_bit [OF i, of "l - p + k"] least [of "l - p + k"] j show ?thesis by auto
  qed
  have "first_bit b base off w = (if p + (j - k) < w then int (p + (j - k)) else -1)"
  proof (cases "p + (j - k) < w")
    case True
    with before j search_inv_bit [OF i, of j] show ?thesis by (simp add: first_bit_here)
  next
    case False
    then show ?thesis using before by (simp add: first_bit_none)
  qed
  with j least show ?thesis by blast
qed

lemma bitsearch1_loop_first:
  assumes "search_inv True base off cp k p" and "off + w \<le> 8 * length base"
  shows "bitsearch1_loop base (int off) (int w) cp (bit1 k) (BIT_MSK_N (int k)) (int p) =
    Some (first_bit True base off w)"
  using assms
proof (induction "w - p" arbitrary: cp k p rule: less_induct)
  case less
  note i = less.prems(1)
  show ?case
  proof (cases "p < w")
    case False
    with i show ?thesis
      by (simp add: bitsearch1_loop_simps first_bit_none search_inv_def)
  next
    case True
    have cp: "cp < length base" using i True less.prems(2) by (auto simp: search_inv_def)
    have k: "k < 8" using i by (simp add: search_inv_def)
    have hit: "base ! cp AND BIT_MSK_N (int k) = 0 \<longleftrightarrow> (\<forall>j. k \<le> j \<longrightarrow> j < 8 \<longrightarrow> \<not> bit (base ! cp) j)"
      using k by (auto simp: byte_eq_zero_iff bit_and_iff)
    show ?thesis
    proof (cases "base ! cp AND BIT_MSK_N (int k) = 0")
      case True
      then have n: "search_inv True base off (Suc cp) 0 (p + (8 - k))"
        using i hit by (intro search_inv_next) auto
      have "bitsearch1_loop base (int off) (int w) (Suc cp) (bit1 0) (BIT_MSK_N (int 0)) (int (p + (8 - k))) =
          Some (first_bit True base off w)"
        using n less.prems(2) \<open>p < w\<close> k by (intro less.hyps) auto
      moreover have "int off mod 8 = int k" if "p = 0"
        using i that by (simp add: search_inv_def of_nat_mod)
      moreover have "k = 0" if "p \<noteq> 0" using i that by (simp add: search_inv_def)
      ultimately show ?thesis
        using \<open>p < w\<close> cp True
        by (cases "p = 0") (simp_all add: bitsearch1_loop_simps BIT_SET_N_eq [of 0, simplified] add.commute of_nat_diff)
    next
      case False
      with hit have "\<exists>j. k \<le> j \<and> j < 8 \<and> bit (base ! cp) j = True" by auto
      from search_inv_found [OF i this \<open>p < w\<close>] obtain j where
        "k \<le> j" "j < 8" "bit (base ! cp) j = True" "\<forall>i. k \<le> i \<and> i < j \<longrightarrow> bit (base ! cp) i \<noteq> True"
        and "first_bit True base off w = (if p + (j - k) < w then int (p + (j - k)) else -1)" by blast
      then show ?thesis
        using False \<open>p < w\<close> cp
        by (simp add: bitsearch1_loop_simps bitsearch1_scan_first)
    qed
  qed
qed

text \<open>The search for a set bit never leaves the array, ends, and finds the first set bit.\<close>

lemma bitsearch1_first:
  assumes "off + w \<le> 8 * length base"
  shows "tstdlib_bitsearch1 base (int off) (int w) = Some (first_bit True base off w)"
proof -
  have "BIT_MSK_N (int off) = BIT_MSK_N (int (off mod 8))"
    by (simp add: BIT_MSK_N_def nat_mod_distrib)
  then show ?thesis
    using bitsearch1_loop_first [OF search_inv_start assms]
    by (simp add: tstdlib_bitsearch1_def BIT_SET_N_eq)
qed

lemma bitsearch0_loop_first:
  assumes "search_inv False base off cp k p" and "off + w \<le> 8 * length base"
  shows "bitsearch0_loop base (int off) (int w) cp (bit1 k) (NOT (BIT_MSK_N (int k))) (int p) =
    Some (first_bit False base off w)"
  using assms
proof (induction "w - p" arbitrary: cp k p rule: less_induct)
  case less
  note i = less.prems(1)
  show ?case
  proof (cases "p < w")
    case False
    with i show ?thesis
      by (simp add: bitsearch0_loop_simps first_bit_none search_inv_def)
  next
    case True
    have cp: "cp < length base" using i True less.prems(2) by (auto simp: search_inv_def)
    have k: "k < 8" using i by (simp add: search_inv_def)
    have hit: "base ! cp OR NOT (BIT_MSK_N (int k)) = 0xFF \<longleftrightarrow> (\<forall>j. k \<le> j \<longrightarrow> j < 8 \<longrightarrow> bit (base ! cp) j)"
      using k by (auto simp: byte_eq_FF_iff bit_or_iff bit_not_iff)
    show ?thesis
    proof (cases "base ! cp OR NOT (BIT_MSK_N (int k)) = 0xFF")
      case True
      then have n: "search_inv False base off (Suc cp) 0 (p + (8 - k))"
        using i hit by (intro search_inv_next) auto
      have "bitsearch0_loop base (int off) (int w) (Suc cp) (bit1 0) (NOT (BIT_MSK_N (int 0))) (int (p + (8 - k))) =
          Some (first_bit False base off w)"
        using n less.prems(2) \<open>p < w\<close> k by (intro less.hyps) auto
      moreover have "int off mod 8 = int k" if "p = 0"
        using i that by (simp add: search_inv_def of_nat_mod)
      moreover have "k = 0" if "p \<noteq> 0" using i that by (simp add: search_inv_def)
      ultimately show ?thesis
        using \<open>p < w\<close> cp True
        by (cases "p = 0") (simp_all add: bitsearch0_loop_simps BIT_SET_N_eq [of 0, simplified] add.commute of_nat_diff)
    next
      case False
      with hit have "\<exists>j. k \<le> j \<and> j < 8 \<and> bit (base ! cp) j = False" by auto
      from search_inv_found [OF i this \<open>p < w\<close>] obtain j where
        "k \<le> j" "j < 8" "bit (base ! cp) j = False" "\<forall>i. k \<le> i \<and> i < j \<longrightarrow> bit (base ! cp) i \<noteq> False"
        and "first_bit False base off w = (if p + (j - k) < w then int (p + (j - k)) else -1)" by blast
      then show ?thesis
        using False \<open>p < w\<close> cp
        by (simp add: bitsearch0_loop_simps bitsearch0_scan_first)
    qed
  qed
qed

lemma bitsearch0_first:
  assumes "off + w \<le> 8 * length base"
  shows "tstdlib_bitsearch0 base (int off) (int w) = Some (first_bit False base off w)"
proof -
  have "BIT_MSK_N (int off) = BIT_MSK_N (int (off mod 8))"
    by (simp add: BIT_MSK_N_def nat_mod_distrib)
  then show ?thesis
    using bitsearch0_loop_first [OF search_inv_start assms]
    by (simp add: tstdlib_bitsearch0_def BIT_SET_N_eq)
qed

end
