(* ===== verification/Ready_Queue.thy ===== *)
theory Ready_Queue
  imports Kernel_State Bitop
begin

text \<open>
  The ready queue of \<^verbatim>\<open>ready_queue.h\<close>: a ring per priority, a bitmap of the non-empty ones,
  and the array \<open>top\<close> that caches the \<open>num_proc\<close> first ready tasks. The abstract ready queue
  \<open>rdy s\<close> is one list, ordered by priority and FIFO within a priority; the invariant \<open>rq_wf\<close>
  says that bitmap and \<open>top\<close> agree with it, and each operation is shown to keep the invariant
  and to do to \<open>rdy s\<close> what its comment promises.
\<close>

section \<open>Operations\<close>

definition ready_queue_initialize :: "kstate \<Rightarrow> kstate" where
  "ready_queue_initialize s =
    s\<lparr>rq_top := replicate MAX_PROC None,
      ques := (\<lambda>q. case q of QReady p \<Rightarrow> if p < NUM_PRI then [] else ques s q | _ \<Rightarrow> ques s q),
      rq_klocktsk := None,
      rq_bitmap := replicate BITMAP_BYTES 0,
      rq_chg := False\<rparr>"

text \<open>\<open>None\<close> is the access through the \<open>NULL\<close> pointer in \<open>top[0]\<close> of an empty ready queue.\<close>

definition ready_queue_top_priority :: "kstate \<Rightarrow> nat option" where
  "ready_queue_top_priority s = map_option (pri s) (rq_top s ! 0)"

definition is_change_ready_queue :: "kstate \<Rightarrow> bool" where
  "is_change_ready_queue s = rq_chg s"

text \<open>The shift loop \<open>for ( i = num_proc - 1; n < i; i-- ) tp[i] = tp[i-1];\<close>\<close>

fun shift_down :: "nat \<Rightarrow> nat \<Rightarrow> 'a list \<Rightarrow> 'a list" where
  "shift_down n 0 tp = tp"
| "shift_down n (Suc i) tp = (if n < Suc i then shift_down n i (tp[Suc i := tp ! i]) else tp)"

text \<open>
  The search for the insertion point, from \<open>n\<close>; \<open>before x\<close> is the comparison
  (\<open>>\<close> in \<open>update_top_when_insert\<close>, \<open>>=\<close> in \<open>update_top_when_insert_top\<close>).
\<close>

function top_insert_from :: "nat \<Rightarrow> (nat \<Rightarrow> bool) \<Rightarrow> nat \<Rightarrow> nat \<Rightarrow> nat option list \<Rightarrow> nat option list" where
  "top_insert_from np before t n tp =
    (if n < np then
       if (case tp ! n of None \<Rightarrow> True | Some x \<Rightarrow> before x)
       then (shift_down n (np - 1) tp)[n := Some t]
       else top_insert_from np before t (Suc n) tp
     else tp)"
  by pat_completeness auto
termination by (relation "measure (\<lambda>(np, _, _, n, _). np - n)") auto

declare top_insert_from.simps [simp del]

definition update_top_when_insert :: "kstate \<Rightarrow> nat \<Rightarrow> nat option list" where
  "update_top_when_insert s t = top_insert_from (num_proc s) (\<lambda>x. pri s x > pri s t) t 0 (rq_top s)"

definition update_top_when_insert_top :: "kstate \<Rightarrow> nat \<Rightarrow> nat option list" where
  "update_top_when_insert_top s t = top_insert_from (num_proc s) (\<lambda>x. pri s x \<ge> pri s t) t 0 (rq_top s)"

definition ready_queue_insert :: "nat \<Rightarrow> kstate \<Rightarrow> kstate" where
  "ready_queue_insert t s =
    (let priority = pri s t;
         s = upd_tcb t (\<lambda>c. c\<lparr>slicecnt := 0\<rparr>) s;
         s = QueInsert_tail t (QReady priority) s;
         s = s\<lparr>rq_bitmap := tstdlib_bitset (rq_bitmap s) (int priority)\<rparr>;
         s = (if klocked (tcbs s t) then s\<lparr>rq_klocktsk := Some t\<rparr> else s)
     in s\<lparr>rq_top := update_top_when_insert s t, rq_chg := True\<rparr>)"

definition ready_queue_insert_top :: "nat \<Rightarrow> kstate \<Rightarrow> kstate" where
  "ready_queue_insert_top t s =
    (let priority = pri s t;
         s = QueInsert_head t (QReady priority) s;
         s = s\<lparr>rq_bitmap := tstdlib_bitset (rq_bitmap s) (int priority)\<rparr>;
         s = (if klocked (tcbs s t) then s\<lparr>rq_klocktsk := Some t\<rparr> else s)
     in s\<lparr>rq_top := update_top_when_insert_top s t, rq_chg := True\<rparr>)"

text \<open>
  \<open>get_next_tcb\<close>; \<open>nx\<close> is \<open>tcb->tskque.next\<close>. It is passed separately because a TCB that has
  just been removed keeps the link it had, and \<open>update_top_when_remove\<close> follows it.
\<close>

definition get_next_tcb :: "kstate \<Rightarrow> nat option \<Rightarrow> nat \<Rightarrow> nat option" where
  "get_next_tcb s nx prio =
    (case nx of
       Some y \<Rightarrow> Some y
     | None \<Rightarrow>
         (let prio = int prio + 1;
              i = tstdlib_bitsearch1 (rq_bitmap s) prio (int NUM_PRI - prio)
          in case i of
               Some j \<Rightarrow> if j \<ge> 0 then (case ques s (QReady (nat (prio + j))) of [] \<Rightarrow> None | x # _ \<Rightarrow> Some x)
                         else None
             | None \<Rightarrow> None))"

definition tsk_next :: "kstate \<Rightarrow> nat \<Rightarrow> nat option" where
  "tsk_next s t = ring_next (ques s (QReady (pri s t))) t"

text \<open>The shift loop \<open>for ( i = n; i < num_proc-1; i++ ) tp[i] = tp[i+1];\<close>\<close>

function shift_up :: "nat \<Rightarrow> nat \<Rightarrow> 'a list \<Rightarrow> 'a list" where
  "shift_up i m tp = (if i < m then shift_up (Suc i) m (tp[i := tp ! Suc i]) else tp)"
  by pat_completeness auto
termination by (relation "measure (\<lambda>(i, m, _). m - i)") auto

declare shift_up.simps [simp del]

function top_remove_from :: "kstate \<Rightarrow> nat option \<Rightarrow> nat \<Rightarrow> nat \<Rightarrow> nat option list \<Rightarrow> nat option list" where
  "top_remove_from s nx t n tp =
    (if n < num_proc s then
       if tp ! n = Some t then
         if num_proc s = 1 then tp[n := get_next_tcb s nx (pri s t)]
         else let tp = shift_up n (num_proc s - 1) tp
              in (case tp ! (num_proc s - 2) of
                    None \<Rightarrow> tp
                  | Some x \<Rightarrow> tp[num_proc s - 1 := get_next_tcb s (tsk_next s x) (pri s x)])
       else top_remove_from s nx t (Suc n) tp
     else tp)"
  by pat_completeness auto
termination by (relation "measure (\<lambda>(s, _, _, n, _). num_proc s - n)") auto

declare top_remove_from.simps [simp del]

definition update_top_when_remove :: "kstate \<Rightarrow> nat option \<Rightarrow> nat \<Rightarrow> nat option list" where
  "update_top_when_remove s nx t = top_remove_from s nx t 0 (rq_top s)"

text \<open>\<open>rq_unlink\<close> is the first half of \<open>ready_queue_delete\<close>: the lock owner, the ring and the bitmap.\<close>

definition rq_unlink :: "nat \<Rightarrow> kstate \<Rightarrow> kstate" where
  "rq_unlink t s =
    (let s = (if rq_klocktsk s = Some t then s\<lparr>rq_klocktsk := None\<rparr> else s);
         s = QueRemove_tsk t s
     in if ques s (QReady (pri s t)) = [] then s\<lparr>rq_bitmap := tstdlib_bitclr (rq_bitmap s) (int (pri s t))\<rparr>
        else s)"

definition ready_queue_delete :: "nat \<Rightarrow> kstate \<Rightarrow> kstate" where
  "ready_queue_delete t s =
    (let nx = tsk_next s t;
         s = rq_unlink t s
     in if klockwait (tcbs s t) then upd_tcb t (\<lambda>c. c\<lparr>klockwait := False\<rparr>) s
        else s\<lparr>rq_top := update_top_when_remove s nx t, rq_chg := True\<rparr>)"

definition ready_queue_rotate :: "nat \<Rightarrow> kstate \<Rightarrow> kstate" where
  "ready_queue_rotate prio s =
    (case ques s (QReady prio) of
       [] \<Rightarrow> s
     | [t] \<Rightarrow> upd_tcb t (\<lambda>c. c\<lparr>slicecnt := 0\<rparr>) s
     | t # y # zs \<Rightarrow>
         (let s = QueRemove_tsk t s;
              s = s\<lparr>rq_top := update_top_when_remove s (Some y) t\<rparr>;
              s = QueInsert_tail t (QReady prio) s;
              s = s\<lparr>rq_top := update_top_when_insert s t\<rparr>;
              s = s\<lparr>rq_chg := True\<rparr>
          in upd_tcb t (\<lambda>c. c\<lparr>slicecnt := 0\<rparr>) s))"

definition ready_queue_move_last :: "nat \<Rightarrow> kstate \<Rightarrow> bool \<times> kstate" where
  "ready_queue_move_last t s =
    (let q = QReady (pri s t); nx = tsk_next s t;
         (chg, s) =
           (if nx \<noteq> None then
              let s = QueRemove_tsk t s;
                  s = s\<lparr>rq_top := update_top_when_remove s nx t\<rparr>;
                  s = QueInsert_tail t q s;
                  s = s\<lparr>rq_top := update_top_when_insert s t\<rparr>
              in (True, s)
            else (False, s))
     in (chg, upd_tcb t (\<lambda>c. c\<lparr>slicecnt := 0\<rparr>) s))"

section \<open>The abstract ready queue and the invariant\<close>

definition rdy :: "kstate \<Rightarrow> nat list" where
  "rdy s = concat (map (\<lambda>p. ques s (QReady p)) [0..<NUM_PRI])"

definition pad :: "nat \<Rightarrow> nat list \<Rightarrow> nat option list" where
  "pad n xs = take n (map Some xs @ replicate n None)"

definition rq_prios :: "kstate \<Rightarrow> bool" where
  "rq_prios s \<longleftrightarrow> (\<forall>p<NUM_PRI. \<forall>x\<in>set (ques s (QReady p)). pri s x = p)"

definition rq_bits :: "kstate \<Rightarrow> bool" where
  "rq_bits s \<longleftrightarrow> length (rq_bitmap s) = BITMAP_BYTES \<and>
     (\<forall>p<NUM_PRI. bit_at (rq_bitmap s) p \<longleftrightarrow> ques s (QReady p) \<noteq> [])"

definition rq_tops :: "kstate \<Rightarrow> bool" where
  "rq_tops s \<longleftrightarrow> 1 \<le> num_proc s \<and> num_proc s \<le> MAX_PROC \<and>
     rq_top s = pad (num_proc s) (rdy s) @ replicate (MAX_PROC - num_proc s) None"

definition rq_wf :: "kstate \<Rightarrow> bool" where
  "rq_wf s \<longleftrightarrow> rq_prios s \<and> (\<forall>p<NUM_PRI. distinct (ques s (QReady p))) \<and> rq_bits s \<and> rq_tops s"


section \<open>Lists: padding, shifting, successors\<close>

lemma length_pad [simp]: "length (pad n xs) = n"
  by (simp add: pad_def)

lemma nth_pad: "i < n \<Longrightarrow> pad n xs ! i = (if i < length xs then Some (xs ! i) else None)"
  by (auto simp: pad_def nth_append)

lemma pad_eqI:
  assumes "\<And>i. i < n \<Longrightarrow> i < length xs \<longleftrightarrow> i < length ys" and "\<And>i. i < n \<Longrightarrow> i < length xs \<Longrightarrow> xs ! i = ys ! i"
  shows "pad n xs = pad n ys"
  by (rule nth_equalityI) (use assms in \<open>auto simp: nth_pad\<close>)

lemma length_shift_down [simp]: "length (shift_down n i tp) = length tp"
  by (induction n i tp rule: shift_down.induct) auto

lemma nth_shift_down:
  "i < length tp \<Longrightarrow> shift_down n i tp ! j = (if n < j \<and> j \<le> i then tp ! (j - 1) else tp ! j)"
  by (induction n i tp rule: shift_down.induct) (auto simp: nth_list_update le_Suc_eq)

lemma length_shift_up [simp]: "length (shift_up i m tp) = length tp"
  by (induction i m tp rule: shift_up.induct) (subst shift_up.simps, simp)

lemma nth_shift_up:
  "m < length tp \<Longrightarrow> shift_up i m tp ! j = (if i \<le> j \<and> j < m then tp ! Suc j else tp ! j)"
proof (induction i m tp rule: shift_up.induct)
  case (1 i m tp)
  then show ?case by (subst shift_up.simps) (auto simp: nth_list_update le_Suc_eq Suc_le_eq)
qed

lemma insert_before_at:
  assumes "n \<le> length xs" and "\<And>i. i < n \<Longrightarrow> \<not> P (xs ! i)" and "n < length xs \<Longrightarrow> P (xs ! n)"
  shows "insert_before P e xs = take n xs @ e # drop n xs"
  using assms
proof (induction xs arbitrary: n)
  case (Cons x xs)
  show ?case
  proof (cases n)
    case (Suc m)
    with Cons.prems(2) [of 0] have "\<not> P x" by simp
    with Suc Cons.prems Cons.IH [of m] show ?thesis by (fastforce simp: nth_Cons)
  qed (use Cons.prems in auto)
qed simp

lemma insert_before_beyond:
  assumes "\<And>i. i < n \<Longrightarrow> \<not> P (xs ! i)" and "n \<le> length xs"
  shows "take n (insert_before P e xs) = take n xs"
  using assms
proof (induction xs arbitrary: n)
  case (Cons x xs)
  show ?case
  proof (cases n)
    case (Suc m)
    with Cons.prems(1) [of 0] have "\<not> P x" by simp
    with Suc Cons.prems Cons.IH [of m] show ?thesis by fastforce
  qed simp
qed simp

text \<open>
  The insertion loops on the padded array are insertion into the list behind it.
\<close>

lemma top_insert_pad:
  assumes "n \<le> length xs" and "\<And>i. i < n \<Longrightarrow> \<not> before (xs ! i)"
  shows "top_insert_from np before t n (pad np xs @ rest) = pad np (insert_before before t xs) @ rest"
  using assms
proof (induction "np - n" arbitrary: n rule: less_induct)
  case less
  show ?case
  proof (cases "n < np")
    case False
    then have "np \<le> length xs" "\<And>i. i < np \<Longrightarrow> \<not> before (xs ! i)" using less.prems by auto
    then have "take np (insert_before before t xs) = take np xs" by (intro insert_before_beyond)
    moreover from this have "insert_before before t xs ! i = xs ! i" if "i < np" for i
      using that by (metis nth_take)
    ultimately have "pad np (insert_before before t xs) = pad np xs"
      using \<open>np \<le> length xs\<close> by (intro pad_eqI) auto
    with False show ?thesis by (simp add: top_insert_from.simps)
  next
    case True
    note n = True
    show ?thesis
    proof (cases "n < length xs \<and> \<not> before (xs ! n)")
      case True
      then have "top_insert_from np before t (Suc n) (pad np xs @ rest) = pad np (insert_before before t xs) @ rest"
        using less.prems n by (intro less.hyps) (auto simp: less_Suc_eq)
      with True n show ?thesis
        by (simp add: top_insert_from.simps [of np before t n] nth_append nth_pad)
    next
      case False
      then have ins: "insert_before before t xs = take n xs @ t # drop n xs"
        using less.prems by (intro insert_before_at) auto
      have "(shift_down n (np - 1) (pad np xs @ rest))[n := Some t] = pad np (take n xs @ t # drop n xs) @ rest"
        by (rule nth_equalityI)
          (use n less.prems(1) in \<open>auto simp: nth_append nth_list_update nth_shift_down nth_pad nth_Cons' min_def\<close>)
      with False n show ?thesis
        by (auto simp: top_insert_from.simps [of np before t n] nth_append nth_pad ins)
    qed
  qed
qed

lemma ring_next_nth:
  "distinct xs \<Longrightarrow> i < length xs \<Longrightarrow> ring_next xs (xs ! i) = (if Suc i < length xs then Some (xs ! Suc i) else None)"
proof (induction xs "xs ! i" arbitrary: i rule: ring_next.induct)
  case (3 x y zs)
  then show ?case by (cases i) (auto simp: nth_Cons')
qed auto

lemma ring_next_split:
  "x \<notin> set as \<Longrightarrow> ring_next (as @ x # bs) x = (case bs of [] \<Rightarrow> None | y # _ \<Rightarrow> Some y)"
proof (induction as)
  case Nil
  then show ?case by (cases bs) auto
next
  case (Cons a as)
  then show ?case by (cases as) auto
qed


section \<open>The abstract ready queue\<close>

definition rdy_range :: "kstate \<Rightarrow> nat \<Rightarrow> nat \<Rightarrow> nat list" where
  "rdy_range s a b = concat (map (\<lambda>p. ques s (QReady p)) [a..<b])"

lemma rdy_range_0: "rdy s = rdy_range s 0 NUM_PRI"
  by (simp add: rdy_def rdy_range_def)

lemma rdy_split:
  "p < NUM_PRI \<Longrightarrow> rdy s = rdy_range s 0 p @ ques s (QReady p) @ rdy_range s (Suc p) NUM_PRI"
proof -
  assume p: "p < NUM_PRI"
  then have "[0..<NUM_PRI] = [0..<p] @ p # [Suc p..<NUM_PRI]"
    using upt_add_eq_append [of 0 p "NUM_PRI - p"] by (simp add: upt_conv_Cons)
  then show ?thesis by (simp add: rdy_def rdy_range_def)
qed

lemma set_rdy_range: "x \<in> set (rdy_range s a b) \<longleftrightarrow> (\<exists>p. a \<le> p \<and> p < b \<and> x \<in> set (ques s (QReady p)))"
  by (auto simp: rdy_range_def)

lemma rq_priosD: "rq_prios s \<Longrightarrow> p < NUM_PRI \<Longrightarrow> x \<in> set (ques s (QReady p)) \<Longrightarrow> pri s x = p"
  by (simp add: rq_prios_def)

lemma rdy_range_pri:
  "rq_prios s \<Longrightarrow> b \<le> NUM_PRI \<Longrightarrow> x \<in> set (rdy_range s a b) \<Longrightarrow> a \<le> pri s x \<and> pri s x < b"
proof -
  assume rq: "rq_prios s" and b: "b \<le> NUM_PRI" and x: "x \<in> set (rdy_range s a b)"
  from x obtain p where "a \<le> p" "p < b" "x \<in> set (ques s (QReady p))" by (auto simp: set_rdy_range)
  with rq b rq_priosD [of s p x] show ?thesis by auto
qed

lemma rdy_mem: "rq_prios s \<Longrightarrow> x \<in> set (rdy s) \<longleftrightarrow> pri s x < NUM_PRI \<and> x \<in> set (ques s (QReady (pri s x)))"
  by (auto simp: rdy_range_0 set_rdy_range rq_prios_def)

lemma rdy_sorted: "rq_prios s \<Longrightarrow> sorted (map (pri s) (rdy s))"
proof -
  assume p: "rq_prios s"
  have "sorted (map (pri s) (rdy_range s 0 n))" if "n \<le> NUM_PRI" for n
    using that
  proof (induction n)
    case 0
    then show ?case by (simp add: rdy_range_def)
  next
    case (Suc n)
    have q: "pri s x = n" if "x \<in> set (ques s (QReady n))" for x
      using p Suc.prems that by (simp add: rq_prios_def)
    have sp: "rdy_range s 0 (Suc n) = rdy_range s 0 n @ ques s (QReady n)"
      by (simp add: rdy_range_def)
    have "sorted (map (pri s) (ques s (QReady n)))"
      using q by (simp add: sorted_iff_nth_mono)
    moreover have "pri s x \<le> pri s y" if "x \<in> set (rdy_range s 0 n)" "y \<in> set (ques s (QReady n))" for x y
      using rdy_range_pri [OF p _ that(1)] q [OF that(2)] Suc.prems by simp
    ultimately show ?case using Suc by (auto simp: sp sorted_append)
  qed
  then show ?thesis by (simp add: rdy_range_0)
qed

lemma rdy_range_distinct:
  assumes "rq_prios s" and "\<forall>p<NUM_PRI. distinct (ques s (QReady p))" and "n \<le> NUM_PRI"
  shows "distinct (rdy_range s 0 n)"
  using assms(3)
proof (induction n)
  case (Suc n)
  have sp: "rdy_range s 0 (Suc n) = rdy_range s 0 n @ ques s (QReady n)"
    by (simp add: rdy_range_def)
  have "x \<notin> set (rdy_range s 0 n)" if "x \<in> set (ques s (QReady n))" for x
    using rdy_range_pri [OF assms(1), of n x 0] rq_priosD [OF assms(1) _ that] Suc.prems by auto
  with Suc assms(2) show ?case by (auto simp: sp)
qed (simp add: rdy_range_def)

lemma rdy_distinct: "rq_wf s \<Longrightarrow> distinct (rdy s)"
  by (simp add: rq_wf_def rdy_range_0 rdy_range_distinct)

lemma rdy_range_cong:
  "(\<And>p. a \<le> p \<Longrightarrow> p < b \<Longrightarrow> ques s (QReady p) = ques s' (QReady p)) \<Longrightarrow> rdy_range s a b = rdy_range s' a b"
  unfolding rdy_range_def by (intro arg_cong [of _ _ concat] map_cong) auto

text \<open>A TCB linked in behind the tasks of its priority is inserted into the ordered list.\<close>

lemma rdy_insert_tail:
  assumes "rq_prios s" and "p < NUM_PRI" and "pri s t = p"
  shows "rdy (QueInsert_tail t (QReady p) s) = insert_before (\<lambda>x. pri s x > pri s t) t (rdy s)"
proof -
  let ?s = "QueInsert_tail t (QReady p) s"
  have r: "rdy_range ?s 0 p = rdy_range s 0 p" "rdy_range ?s (Suc p) NUM_PRI = rdy_range s (Suc p) NUM_PRI"
    by (rule rdy_range_cong; simp add: QueInsert_tail_def set_que_def)+
  have lo: "\<not> pri s x > p" if "x \<in> set (rdy_range s 0 p)" for x
    using rdy_range_pri [OF assms(1) _ that] assms(2) by simp
  have mid: "\<not> pri s x > p" if "x \<in> set (ques s (QReady p))" for x
    using that assms by (simp add: rq_prios_def)
  have hi: "insert_before (\<lambda>x. pri s x > p) t (rdy_range s (Suc p) NUM_PRI) = t # rdy_range s (Suc p) NUM_PRI"
    using rdy_range_pri [OF assms(1), of NUM_PRI _ "Suc p"]
    by (cases "rdy_range s (Suc p) NUM_PRI") (auto simp: Suc_le_eq)
  show ?thesis
    using assms lo mid
    by (simp add: rdy_split [OF assms(2), of ?s] rdy_split [OF assms(2), of s] r insert_before_append hi)
      (auto simp: QueInsert_tail_def set_que_def)
qed

lemma rdy_insert_head:
  assumes "rq_prios s" and "p < NUM_PRI" and "pri s t = p"
  shows "rdy (QueInsert_head t (QReady p) s) = insert_before (\<lambda>x. pri s x \<ge> pri s t) t (rdy s)"
proof -
  let ?s = "QueInsert_head t (QReady p) s"
  have r: "rdy_range ?s 0 p = rdy_range s 0 p" "rdy_range ?s (Suc p) NUM_PRI = rdy_range s (Suc p) NUM_PRI"
    by (rule rdy_range_cong; simp add: QueInsert_head_def set_que_def)+
  have lo: "\<not> pri s x \<ge> p" if "x \<in> set (rdy_range s 0 p)" for x
    using rdy_range_pri [OF assms(1) _ that] assms(2) by simp
  have mid: "pri s x \<ge> p" if "x \<in> set (ques s (QReady p))" for x
    using that assms by (simp add: rq_prios_def)
  have hi: "pri s x \<ge> p" if "x \<in> set (rdy_range s (Suc p) NUM_PRI)" for x
    using rdy_range_pri [OF assms(1) _ that] by simp
  have "insert_before (\<lambda>x. pri s x \<ge> p) t (ques s (QReady p) @ rdy_range s (Suc p) NUM_PRI)
      = t # ques s (QReady p) @ rdy_range s (Suc p) NUM_PRI"
    using mid hi
    by (cases "ques s (QReady p)"; cases "rdy_range s (Suc p) NUM_PRI") auto
  then show ?thesis
    using assms lo
    by (simp add: rdy_split [OF assms(2), of ?s] rdy_split [OF assms(2), of s] r insert_before_append)
      (auto simp: QueInsert_head_def set_que_def)
qed

lemma remove1_concat:
  "distinct (concat xss) \<Longrightarrow> concat (map (remove1 t) xss) = remove1 t (concat xss)"
proof (induction xss)
  case (Cons xs xss)
  then have "t \<in> set xs \<Longrightarrow> t \<notin> set (concat xss)" by auto
  moreover have "map (remove1 t) yss = yss" if "t \<notin> set (concat yss)" for yss :: "'a list list"
    using that by (induction yss) auto
  ultimately show ?case using Cons by (auto simp: remove1_append)
qed simp

lemma rdy_remove: "distinct (rdy s) \<Longrightarrow> rdy (QueRemove_tsk t s) = remove1 t (rdy s)"
  using remove1_concat [of "map (\<lambda>p. ques s (QReady p)) [0..<NUM_PRI]" t]
  by (simp add: rdy_def QueRemove_tsk_def comp_def)


section \<open>The successor of a ready task\<close>

definition first_of :: "'a list \<Rightarrow> 'a option" where
  "first_of xs = (case xs of [] \<Rightarrow> None | x # _ \<Rightarrow> Some x)"

lemma first_of_simps [simp]: "first_of [] = None" "first_of (x # xs) = Some x"
  by (simp_all add: first_of_def)

lemma rdy_range_split:
  "a \<le> p \<Longrightarrow> p < b \<Longrightarrow> rdy_range s a b = rdy_range s a p @ ques s (QReady p) @ rdy_range s (Suc p) b"
proof -
  assume p: "a \<le> p" "p < b"
  then have "[a..<b] = [a..<p] @ p # [Suc p..<b]"
    using upt_add_eq_append [of a p "b - p"] by (simp add: upt_conv_Cons)
  then show ?thesis by (simp add: rdy_range_def)
qed

text \<open>The bitmap search finds the first task of the lower priorities.\<close>

lemma get_next_tcb_None:
  assumes b: "rq_bits s" and p: "p < NUM_PRI"
  shows "get_next_tcb s None p = first_of (rdy_range s (Suc p) NUM_PRI)"
proof -
  define w where "w = NUM_PRI - Suc p"
  have w: "int p + 1 = int (Suc p)" "int NUM_PRI - int (Suc p) = int w"
    using p by (simp_all add: w_def of_nat_diff)
  have bs: "tstdlib_bitsearch1 (rq_bitmap s) (int (Suc p)) (int w) = Some (first_bit True (rq_bitmap s) (Suc p) w)"
    using b p by (intro bitsearch1_first) (simp add: rq_bits_def w_def BITMAP_BYTES_def NUM_PRI_def)
  have g: "get_next_tcb s None p =
      (case tstdlib_bitsearch1 (rq_bitmap s) (int (Suc p)) (int w) of
         Some j \<Rightarrow> if 0 \<le> j then first_of (ques s (QReady (nat (int (Suc p) + j)))) else None
       | None \<Rightarrow> None)"
    by (simp only: get_next_tcb_def option.case Let_def w first_of_def)
  have bit: "bit_at (rq_bitmap s) (Suc p + i) \<longleftrightarrow> ques s (QReady (Suc p + i)) \<noteq> []" if "i < w" for i
    using b that p by (auto simp: rq_bits_def w_def)
  show ?thesis
  proof (cases "first_bit True (rq_bitmap s) (Suc p) w = -1")
    case True
    then have no: "\<not> bit_at (rq_bitmap s) (Suc p + i)" if "i < w" for i
      using that by (simp add: first_bit_minus1)
    have "ques s (QReady q) = []" if "Suc p \<le> q" "q < NUM_PRI" for q
    proof -
      from that have "q - Suc p < w" "q = Suc p + (q - Suc p)" by (auto simp: w_def)
      then show ?thesis using no bit by metis
    qed
    then have "rdy_range s (Suc p) NUM_PRI = []"
      by (auto simp: rdy_range_def)
    with True show ?thesis by (simp add: g bs del: of_nat_Suc)
  next
    case False
    then obtain j where j: "first_bit True (rq_bitmap s) (Suc p) w = int j"
      by (auto simp: first_bit_def split: option.splits)
    then have jw: "j < w" and hit: "ques s (QReady (Suc p + j)) \<noteq> []"
      and miss: "\<And>i. i < j \<Longrightarrow> ques s (QReady (Suc p + i)) = []"
      using first_bit_Some [OF j] bit by auto
    have "ques s (QReady q) = []" if "Suc p \<le> q" "q < Suc p + j" for q
      using miss [of "q - Suc p"] that by simp
    then have "rdy_range s (Suc p) (Suc p + j) = []"
      by (auto simp: rdy_range_def)
    with jw hit have f: "first_of (rdy_range s (Suc p) NUM_PRI) = first_of (ques s (QReady (Suc p + j)))"
      by (cases "ques s (QReady (Suc p + j))")
        (auto simp: w_def rdy_range_split [of "Suc p" "Suc p + j" NUM_PRI])
    have "nat (int (Suc p) + int j) = Suc p + j" by simp
    then show ?thesis by (simp add: g bs j f del: of_nat_Suc)
  qed
qed

lemma get_next_tcb_rdy:
  assumes p: "rq_prios s" and d: "distinct (rdy s)" and b: "rq_bits s" and x: "x \<in> set (rdy s)"
  shows "get_next_tcb s (tsk_next s x) (pri s x) = ring_next (rdy s) x"
proof -
  let ?p = "pri s x"
  from x p have pl: "?p < NUM_PRI" and "x \<in> set (ques s (QReady ?p))"
    by (auto simp: rdy_mem)
  then obtain as bs where q: "ques s (QReady ?p) = as @ x # bs" by (meson split_list)
  have r: "rdy s = (rdy_range s 0 ?p @ as) @ x # (bs @ rdy_range s (Suc ?p) NUM_PRI)"
    using rdy_split [OF pl] q by simp
  with d have n: "x \<notin> set (rdy_range s 0 ?p @ as)" "x \<notin> set as" by auto
  have "ring_next (rdy s) x = first_of (bs @ rdy_range s (Suc ?p) NUM_PRI)"
    unfolding r by (simp only: ring_next_split [OF n(1)] first_of_def)
  moreover have "tsk_next s x = first_of bs"
    unfolding tsk_next_def q by (simp only: ring_next_split [OF n(2)] first_of_def)
  moreover have "get_next_tcb s (Some y) ?p = Some y" for y
    by (simp add: get_next_tcb_def)
  ultimately show ?thesis
    using get_next_tcb_None [OF b pl] by (cases bs) auto
qed

section \<open>Removal from the array\<close>

lemma top_remove_pad:
  assumes d: "distinct (as @ t # bs)" and np: "1 \<le> num_proc s"
    and nxt: "\<And>x. x \<in> set (as @ bs) \<Longrightarrow> get_next_tcb s (tsk_next s x) (pri s x) = ring_next (as @ bs) x"
    and nx: "as = [] \<Longrightarrow> get_next_tcb s nx (pri s t) = first_of bs"
    and n: "n \<le> length as"
  shows "top_remove_from s nx t n (pad (num_proc s) (as @ t # bs) @ rest) = pad (num_proc s) (as @ bs) @ rest"
  using n
proof (induction "num_proc s - n" arbitrary: n rule: less_induct)
  case less
  let ?np = "num_proc s" and ?tp = "pad (num_proc s) (as @ t # bs) @ rest"
  show ?case
  proof (cases "n < ?np")
    case False
    then have "pad ?np (as @ t # bs) = pad ?np (as @ bs)"
      using less.prems by (intro pad_eqI) (auto simp: nth_append)
    with False show ?thesis by (simp add: top_remove_from.simps)
  next
    case True
    note n = True
    have top_n: "?tp ! n = Some ((as @ t # bs) ! n)"
      using n less.prems by (simp add: nth_append [of "pad ?np (as @ t # bs)"] nth_pad)
    show ?thesis
    proof (cases "n < length as")
      case True
      then have "(as @ t # bs) ! n \<noteq> t" using d by (auto simp: nth_append)
      moreover have "top_remove_from s nx t (Suc n) ?tp = pad ?np (as @ bs) @ rest"
        using True n by (intro less.hyps) auto
      ultimately show ?thesis using n top_n by (simp add: top_remove_from.simps [of s nx t n])
    next
      case False
      with less.prems have k: "n = length as" by simp
      with top_n have here: "?tp ! n = Some t" by simp
      show ?thesis
      proof (cases "?np = 1")
        case True
        with n k have "as = []" by simp
        have "pad 1 (t # bs) = [Some t]" "pad 1 bs = [first_of bs]"
          by (simp_all add: pad_def first_of_def split: list.split)
        then show ?thesis
          using True k here \<open>as = []\<close> nx by (simp add: top_remove_from.simps [of s nx t 0])
      next
        case False
        with np obtain m where m: "?np = Suc (Suc m)"
          by (metis One_nat_def Suc_le_D le_antisym not_less_eq_eq)
        let ?up = "shift_up n (Suc m) ?tp"
        have up: "?up ! j = (if j < Suc m then pad ?np (as @ bs) ! j else ?tp ! j)" if "j < length ?tp" for j
          using that k m by (auto simp: nth_shift_up nth_append nth_pad)
        have last: "(case ?up ! m of None \<Rightarrow> ?up
              | Some x \<Rightarrow> ?up[Suc m := get_next_tcb s (tsk_next s x) (pri s x)]) = pad ?np (as @ bs) @ rest"
        proof (cases "m < length (as @ bs)")
          case True
          define x where "x = (as @ bs) ! m"
          have "?up ! m = Some x"
            using up [of m] m True by (simp add: nth_pad x_def)
          moreover have "get_next_tcb s (tsk_next s x) (pri s x) = pad ?np (as @ bs) ! Suc m"
            using nxt [of x] ring_next_nth [of "as @ bs" m] d m True nth_mem [OF True]
            by (simp add: x_def nth_pad)
          ultimately show ?thesis
            using up m by (auto intro!: nth_equalityI simp: nth_list_update nth_append less_Suc_eq)
        next
          case False
          then have none: "?up ! m = None"
            using up [of m] m by (simp add: nth_pad)
          have "?tp ! Suc m = pad ?np (as @ bs) ! Suc m"
            using False m by (auto simp: nth_append nth_pad)
          with none show ?thesis
            using up m by (auto intro!: nth_equalityI simp: nth_append less_Suc_eq)
        qed
        with n here m show ?thesis
          by (simp add: top_remove_from.simps [of s nx t n] Let_def cong: option.case_cong)
      qed
    qed
  qed
qed


section \<open>Every operation keeps the invariant\<close>

lemma rq_wfI:
  assumes "rq_prios s" and "\<And>p. p < NUM_PRI \<Longrightarrow> distinct (ques s (QReady p))" and "rq_bits s" and "rq_tops s"
  shows "rq_wf s"
  using assms by (simp add: rq_wf_def)

lemma rq_wf_dests:
  assumes "rq_wf s"
  shows "rq_prios s" and "p < NUM_PRI \<Longrightarrow> distinct (ques s (QReady p))" and "rq_bits s" and "rq_tops s"
  using assms by (simp_all add: rq_wf_def)

text \<open>The invariant only reads the priorities and the fields of the ready queue.\<close>

lemma rq_cong:
  assumes "\<And>p. p < NUM_PRI \<Longrightarrow> ques s' (QReady p) = ques s (QReady p)"
    and "\<And>x. x \<in> set (rdy s) \<Longrightarrow> pri s' x = pri s x"
    and "rq_bitmap s' = rq_bitmap s" and "rq_top s' = rq_top s" and "num_proc s' = num_proc s"
  shows "rdy s' = rdy s" and "rq_wf s' = rq_wf s"
proof -
  show r: "rdy s' = rdy s"
    unfolding rdy_def using assms(1) by (intro arg_cong [of _ _ concat] map_cong) auto
  have "rq_prios s' = rq_prios s"
    using assms(1,2) unfolding rq_prios_def rdy_range_0 set_rdy_range by fastforce
  with r assms(1,3-) show "rq_wf s' = rq_wf s"
    by (auto simp: rq_wf_def rq_bits_def rq_tops_def)
qed

lemma rq_prios_tail:
  "rq_prios s \<Longrightarrow> p < NUM_PRI \<Longrightarrow> pri s t = p \<Longrightarrow> rq_prios (QueInsert_tail t (QReady p) s)"
  by (auto simp: rq_prios_def QueInsert_tail_def set_que_def)

lemma rq_prios_head:
  "rq_prios s \<Longrightarrow> p < NUM_PRI \<Longrightarrow> pri s t = p \<Longrightarrow> rq_prios (QueInsert_head t (QReady p) s)"
  by (auto simp: rq_prios_def QueInsert_head_def set_que_def)

lemma rq_prios_remove: "rq_prios s \<Longrightarrow> rq_prios (QueRemove_tsk t s)"
  by (auto simp: rq_prios_def QueRemove_tsk_def dest: notin_set_remove1)

lemma bits_set:
  assumes "rq_bits s" and "p < NUM_PRI"
  shows "length (tstdlib_bitset (rq_bitmap s) (int p)) = BITMAP_BYTES"
    and "q < NUM_PRI \<Longrightarrow> bit_at (tstdlib_bitset (rq_bitmap s) (int p)) q \<longleftrightarrow> q = p \<or> ques s (QReady q) \<noteq> []"
  using assms by (auto simp: rq_bits_def bit_at_bitset BITMAP_BYTES_def NUM_PRI_def)

lemma bits_clr:
  assumes "rq_bits s" and "p < NUM_PRI"
  shows "length (tstdlib_bitclr (rq_bitmap s) (int p)) = BITMAP_BYTES"
    and "q < NUM_PRI \<Longrightarrow> bit_at (tstdlib_bitclr (rq_bitmap s) (int p)) q \<longleftrightarrow> q \<noteq> p \<and> ques s (QReady q) \<noteq> []"
  using assms by (auto simp: rq_bits_def bit_at_bitclr BITMAP_BYTES_def NUM_PRI_def)

text \<open>
  \<open>rq_base\<close> is the invariant without the array \<open>top\<close>, which is out of date between the ring
  operation and the call of \<open>update_top_...\<close>.
\<close>

definition rq_base :: "kstate \<Rightarrow> bool" where
  "rq_base s \<longleftrightarrow> rq_prios s \<and> (\<forall>p<NUM_PRI. distinct (ques s (QReady p))) \<and> rq_bits s \<and>
     1 \<le> num_proc s \<and> num_proc s \<le> MAX_PROC"

definition rq_top_of :: "nat \<Rightarrow> nat list \<Rightarrow> nat option list" where
  "rq_top_of np xs = pad np xs @ replicate (MAX_PROC - np) None"

lemma rq_wf_base: "rq_wf s \<longleftrightarrow> rq_base s \<and> rq_top s = rq_top_of (num_proc s) (rdy s)"
  by (auto simp: rq_wf_def rq_base_def rq_tops_def rq_top_of_def)

lemma rq_base_distinct: "rq_base s \<Longrightarrow> distinct (rdy s)"
  by (simp add: rq_base_def rdy_range_0 rdy_range_distinct)

lemma rq_base_next:
  "rq_base s \<Longrightarrow> x \<in> set (rdy s) \<Longrightarrow> get_next_tcb s (tsk_next s x) (pri s x) = ring_next (rdy s) x"
  by (simp add: rq_base_distinct get_next_tcb_rdy rq_base_def)

lemma update_top_when_insert_eq:
  "rq_top s = rq_top_of (num_proc s) xs \<Longrightarrow>
    update_top_when_insert s t = rq_top_of (num_proc s) (insert_before (\<lambda>x. pri s x > pri s t) t xs)"
  by (simp add: update_top_when_insert_def rq_top_of_def top_insert_pad)

lemma update_top_when_insert_top_eq:
  "rq_top s = rq_top_of (num_proc s) xs \<Longrightarrow>
    update_top_when_insert_top s t = rq_top_of (num_proc s) (insert_before (\<lambda>x. pri s x \<ge> pri s t) t xs)"
  by (simp add: update_top_when_insert_top_def rq_top_of_def top_insert_pad)

text \<open>
  After the removal of a ready task, the array still shows the old list, and \<open>nx\<close> is the link
  the removed TCB kept.
\<close>

lemma update_top_when_remove_eq:
  assumes b: "rq_base s" and tp: "rq_top s = rq_top_of (num_proc s) xs" and d: "distinct xs" and t: "t \<in> set xs"
    and r: "rdy s = remove1 t xs"
    and nx: "\<And>ys. xs = t # ys \<Longrightarrow> get_next_tcb s nx (pri s t) = first_of ys"
  shows "update_top_when_remove s nx t = rq_top_of (num_proc s) (rdy s)"
proof -
  from t obtain as bs where xs: "xs = as @ t # bs" by (meson split_list)
  with d r have r': "rdy s = as @ bs" by (auto simp: remove1_append)
  show ?thesis
    unfolding update_top_when_remove_def tp rq_top_of_def xs r'
    by (rule top_remove_pad)
      (use d xs b nx rq_base_next [OF b] r' in \<open>auto simp: rq_base_def\<close>)
qed


lemma rq_wf_initialize:
  "1 \<le> num_proc s \<Longrightarrow> num_proc s \<le> MAX_PROC \<Longrightarrow> rq_wf (ready_queue_initialize s) \<and> rdy (ready_queue_initialize s) = []"
proof -
  assume np: "1 \<le> num_proc s" "num_proc s \<le> MAX_PROC"
  let ?s = "ready_queue_initialize s"
  have q: "ques ?s (QReady p) = []" if "p < NUM_PRI" for p
    using that by (simp add: ready_queue_initialize_def)
  then have r: "rdy ?s = []" by (simp add: rdy_def)
  have "rq_top ?s = rq_top_of (num_proc s) []"
    using np by (simp add: ready_queue_initialize_def rq_top_of_def pad_def replicate_add [symmetric])
  moreover have "num_proc ?s = num_proc s" by (simp add: ready_queue_initialize_def)
  moreover have "rq_bits ?s"
    using q by (auto simp: rq_bits_def bit_at_def) (auto simp: ready_queue_initialize_def bit_at_def NUM_PRI_def BITMAP_BYTES_def)
  ultimately show ?thesis
    using np q r by (simp add: rq_wf_base rq_base_def rq_prios_def)
qed

lemma rq_base_tail:
  assumes "rq_base s" and "p < NUM_PRI" and "pri s t = p" and "t \<notin> set (rdy s)"
    and "rq_bitmap s' = tstdlib_bitset (rq_bitmap s) (int p)" and "ques s' = ques (QueInsert_tail t (QReady p) s)"
    and "\<And>x. pri s' x = pri s x" and "num_proc s' = num_proc s"
  shows "rq_base s'"
proof -
  from assms(1) have b: "rq_prios s" "rq_bits s" "\<And>p. p < NUM_PRI \<Longrightarrow> distinct (ques s (QReady p))"
    by (auto simp: rq_base_def)
  have "rq_prios s'" using rq_prios_tail [OF b(1) assms(2,3)] assms(6,7)
    by (simp add: rq_prios_def QueInsert_tail_def set_que_def)
  moreover have "t \<notin> set (ques s (QReady p))" using assms(2,3,4) b(1) by (auto simp: rdy_mem)
  ultimately show ?thesis
    using assms b bits_set [OF b(2) assms(2)]
    by (auto simp: rq_base_def rq_bits_def QueInsert_tail_def set_que_def)
qed

lemma rq_base_head:
  assumes "rq_base s" and "p < NUM_PRI" and "pri s t = p" and "t \<notin> set (rdy s)"
    and "rq_bitmap s' = tstdlib_bitset (rq_bitmap s) (int p)" and "ques s' = ques (QueInsert_head t (QReady p) s)"
    and "\<And>x. pri s' x = pri s x" and "num_proc s' = num_proc s"
  shows "rq_base s'"
proof -
  from assms(1) have b: "rq_prios s" "rq_bits s" "\<And>p. p < NUM_PRI \<Longrightarrow> distinct (ques s (QReady p))"
    by (auto simp: rq_base_def)
  have "rq_prios s'" using rq_prios_head [OF b(1) assms(2,3)] assms(6,7)
    by (simp add: rq_prios_def QueInsert_head_def set_que_def)
  moreover have "t \<notin> set (ques s (QReady p))" using assms(2,3,4) b(1) by (auto simp: rdy_mem)
  ultimately show ?thesis
    using assms b bits_set [OF b(2) assms(2)]
    by (auto simp: rq_base_def rq_bits_def QueInsert_head_def set_que_def)
qed

text \<open>What each operation writes besides the rings.\<close>

lemma ready_queue_insert_sel:
  "ques (ready_queue_insert t s) = ques (QueInsert_tail t (QReady (pri s t)) s)"
  "tcbs (ready_queue_insert t s) = (tcbs s)(t := (tcbs s t)\<lparr>slicecnt := 0\<rparr>)"
  "num_proc (ready_queue_insert t s) = num_proc s"
  "rq_bitmap (ready_queue_insert t s) = tstdlib_bitset (rq_bitmap s) (int (pri s t))"
  "rq_chg (ready_queue_insert t s)"
  by (simp_all add: ready_queue_insert_def Let_def QueInsert_tail_def set_que_def)

lemma ready_queue_insert_top_sel:
  "ques (ready_queue_insert_top t s) = ques (QueInsert_head t (QReady (pri s t)) s)"
  "tcbs (ready_queue_insert_top t s) = tcbs s"
  "num_proc (ready_queue_insert_top t s) = num_proc s"
  "rq_bitmap (ready_queue_insert_top t s) = tstdlib_bitset (rq_bitmap s) (int (pri s t))"
  "rq_chg (ready_queue_insert_top t s)"
  by (simp_all add: ready_queue_insert_top_def Let_def QueInsert_head_def set_que_def)

lemma ready_queue_insert_last:
  "\<exists>s2. ready_queue_insert t s = s2\<lparr>rq_top := update_top_when_insert s2 t, rq_chg := True\<rparr> \<and>
     rq_top s2 = rq_top s \<and> num_proc s2 = num_proc s \<and> (\<forall>x. pri s2 x = pri s x)"
  unfolding ready_queue_insert_def Let_def
  by (rule exI, rule conjI, rule refl) (simp add: QueInsert_tail_def set_que_def)

lemma ready_queue_insert_top_last:
  "\<exists>s2. ready_queue_insert_top t s = s2\<lparr>rq_top := update_top_when_insert_top s2 t, rq_chg := True\<rparr> \<and>
     rq_top s2 = rq_top s \<and> num_proc s2 = num_proc s \<and> (\<forall>x. pri s2 x = pri s x)"
  unfolding ready_queue_insert_top_def Let_def
  by (rule exI, rule conjI, rule refl) (simp add: QueInsert_head_def set_que_def)

lemma rdy_ques_cong: "ques s' = ques s \<Longrightarrow> rdy s' = rdy s"
  by (simp add: rdy_def)

lemma ready_queue_insert_wf:
  assumes wf: "rq_wf s" and p: "pri s t < NUM_PRI" and t: "t \<notin> set (rdy s)"
  shows "rq_wf (ready_queue_insert t s)"
    and "rdy (ready_queue_insert t s) = insert_before (\<lambda>x. pri s x > pri s t) t (rdy s)"
proof -
  let ?s = "ready_queue_insert t s"
  have b: "rq_base s" and tp: "rq_top s = rq_top_of (num_proc s) (rdy s)" using wf by (simp_all add: rq_wf_base)
  have pr: "pri ?s x = pri s x" for x by (simp add: ready_queue_insert_sel)
  have b': "rq_base ?s"
    by (rule rq_base_tail [OF b p refl t]) (use pr in \<open>simp_all add: ready_queue_insert_sel\<close>)
  show r: "rdy ?s = insert_before (\<lambda>x. pri s x > pri s t) t (rdy s)"
    using rdy_insert_tail [of s "pri s t" t] b p by (simp add: rdy_ques_cong [OF ready_queue_insert_sel(1)] rq_base_def)
  have "rq_top ?s = rq_top_of (num_proc s) (insert_before (\<lambda>x. pri s x > pri s t) t (rdy s))"
  proof -
    obtain s2 where s2: "?s = s2\<lparr>rq_top := update_top_when_insert s2 t, rq_chg := True\<rparr>"
        "rq_top s2 = rq_top s" "num_proc s2 = num_proc s" "\<And>x. pri s2 x = pri s x"
      using ready_queue_insert_last [of t s] by blast
    with tp have "rq_top s2 = rq_top_of (num_proc s2) (rdy s)" by simp
    from update_top_when_insert_eq [OF this, of t] s2 show ?thesis by simp
  qed
  with b' r show "rq_wf ?s" by (simp add: rq_wf_base ready_queue_insert_sel)
qed

lemma ready_queue_insert_top_wf:
  assumes wf: "rq_wf s" and p: "pri s t < NUM_PRI" and t: "t \<notin> set (rdy s)"
  shows "rq_wf (ready_queue_insert_top t s)"
    and "rdy (ready_queue_insert_top t s) = insert_before (\<lambda>x. pri s x \<ge> pri s t) t (rdy s)"
proof -
  let ?s = "ready_queue_insert_top t s"
  have b: "rq_base s" and tp: "rq_top s = rq_top_of (num_proc s) (rdy s)" using wf by (simp_all add: rq_wf_base)
  have b': "rq_base ?s"
    by (rule rq_base_head [OF b p refl t]) (simp_all add: ready_queue_insert_top_sel)
  show r: "rdy ?s = insert_before (\<lambda>x. pri s x \<ge> pri s t) t (rdy s)"
    using rdy_insert_head [of s "pri s t" t] b p by (simp add: rdy_ques_cong [OF ready_queue_insert_top_sel(1)] rq_base_def)
  have "rq_top ?s = rq_top_of (num_proc s) (insert_before (\<lambda>x. pri s x \<ge> pri s t) t (rdy s))"
  proof -
    obtain s2 where s2: "?s = s2\<lparr>rq_top := update_top_when_insert_top s2 t, rq_chg := True\<rparr>"
        "rq_top s2 = rq_top s" "num_proc s2 = num_proc s" "\<And>x. pri s2 x = pri s x"
      using ready_queue_insert_top_last [of t s] by blast
    with tp have "rq_top s2 = rq_top_of (num_proc s2) (rdy s)" by simp
    from update_top_when_insert_top_eq [OF this, of t] s2 show ?thesis by simp
  qed
  with b' r show "rq_wf ?s" by (simp add: rq_wf_base ready_queue_insert_top_sel)
qed


lemma get_next_tcb_stale:
  assumes b: "rq_base s" and r: "rdy s = t # ys" and b': "rq_bits s'"
    and up: "rdy_range s' (Suc (pri s t)) NUM_PRI = rdy_range s (Suc (pri s t)) NUM_PRI"
  shows "get_next_tcb s' (tsk_next s t) (pri s t) = first_of ys"
proof -
  let ?p = "pri s t"
  have p: "rq_prios s" using b by (simp add: rq_base_def)
  have t: "?p < NUM_PRI" "t \<in> set (ques s (QReady ?p))" using rdy_mem [OF p, of t] r by auto
  have "t \<notin> set (rdy_range s 0 ?p)" using rdy_range_pri [OF p, of ?p t 0] t by auto
  moreover from t obtain as bs where q: "ques s (QReady ?p) = as @ t # bs" by (meson split_list)
  moreover have "distinct (ques s (QReady ?p))" using b t by (simp add: rq_base_def)
  moreover have "t # ys = rdy_range s 0 ?p @ ques s (QReady ?p) @ rdy_range s (Suc ?p) NUM_PRI"
    using rdy_split [OF t(1)] r by simp
  ultimately have "as = []" "ys = bs @ rdy_range s (Suc ?p) NUM_PRI"
    by (cases "rdy_range s 0 ?p"; cases as; auto)+
  moreover from this have "tsk_next s t = first_of bs"
    using q by (simp add: tsk_next_def first_of_def split: list.split)
  moreover have "get_next_tcb s' (Some y) ?p = Some y" for y
    by (simp add: get_next_tcb_def)
  ultimately show ?thesis
    using get_next_tcb_None [OF b' t(1)] up by (cases bs) auto
qed

lemma rq_bits_same:
  "rq_bits s \<Longrightarrow> rq_bitmap s' = rq_bitmap s \<Longrightarrow>
   (\<And>p. p < NUM_PRI \<Longrightarrow> ques s' (QReady p) = [] \<longleftrightarrow> ques s (QReady p) = []) \<Longrightarrow> rq_bits s'"
  by (auto simp: rq_bits_def)

lemma ques_QueRemove: "ques (QueRemove_tsk t s) q = remove1 t (ques s q)"
  by (simp add: QueRemove_tsk_def)

text \<open>The ring part of a deletion: \<open>QueRemove\<close>, then the bit of the emptied priority.\<close>

lemma rq_base_delete:
  assumes b: "rq_base s" and q: "ques s' = ques (QueRemove_tsk t s)"
    and bm: "rq_bitmap s' = (if ques s' (QReady (pri s t)) = []
       then tstdlib_bitclr (rq_bitmap s) (int (pri s t)) else rq_bitmap s)"
    and pr: "\<And>x. pri s' x = pri s x" and np: "num_proc s' = num_proc s" and p: "pri s t < NUM_PRI"
  shows "rq_base s'" and "rdy s' = remove1 t (rdy s)"
    and "rdy_range s' (Suc (pri s t)) NUM_PRI = rdy_range s (Suc (pri s t)) NUM_PRI"
proof -
  have b': "rq_prios s" "rq_bits s" "\<And>p. p < NUM_PRI \<Longrightarrow> distinct (ques s (QReady p))"
    using b by (auto simp: rq_base_def)
  have pri: "rq_prios s'"
    using rq_prios_remove [OF b'(1), of t] q pr by (simp add: rq_prios_def QueRemove_tsk_def)
  have other: "remove1 t (ques s (QReady x)) = ques s (QReady x)" if "x < NUM_PRI" "x \<noteq> pri s t" for x
    using that rq_priosD [OF b'(1)] by (metis remove1_idem)
  have "rq_bits s'"
  proof (cases "ques s' (QReady (pri s t)) = []")
    case True
    have "bit_at (rq_bitmap s') x \<longleftrightarrow> ques s' (QReady x) \<noteq> []" if "x < NUM_PRI" for x
      using bits_clr(2) [OF b'(2) p that] True bm q other [OF that]
      by (cases "x = pri s t") (simp_all add: ques_QueRemove)
    then show ?thesis using bits_clr(1) [OF b'(2) p] bm True by (simp add: rq_bits_def)
  next
    case False
    show ?thesis
    proof (rule rq_bits_same [OF b'(2)])
      show "rq_bitmap s' = rq_bitmap s" using bm False by simp
      fix x assume "x < NUM_PRI"
      with False q other show "ques s' (QReady x) = [] \<longleftrightarrow> ques s (QReady x) = []"
        by (cases "x = pri s t") (auto simp: ques_QueRemove)
    qed
  qed
  with pri b' b q np show "rq_base s'"
    by (simp add: rq_base_def ques_QueRemove)
  show "rdy s' = remove1 t (rdy s)"
    using rdy_remove [OF rq_base_distinct [OF b], of t] rdy_ques_cong [OF q] by simp
  show "rdy_range s' (Suc (pri s t)) NUM_PRI = rdy_range s (Suc (pri s t)) NUM_PRI"
    by (rule rdy_range_cong) (use other q in \<open>simp add: ques_QueRemove\<close>)
qed

lemma rq_unlink_sel [simp]:
  "rq_top (rq_unlink t s) = rq_top s" "num_proc (rq_unlink t s) = num_proc s" "tcbs (rq_unlink t s) = tcbs s"
  "ques (rq_unlink t s) = ques (QueRemove_tsk t s)"
  "rq_bitmap (rq_unlink t s) = (if ques (QueRemove_tsk t s) (QReady (pri s t)) = []
       then tstdlib_bitclr (rq_bitmap s) (int (pri s t)) else rq_bitmap s)"
  by (simp_all add: rq_unlink_def Let_def QueRemove_tsk_def)

lemma ready_queue_delete_wf:
  assumes wf: "rq_wf s" and k: "\<not> klockwait (tcbs s t)" and t: "t \<in> set (rdy s)"
  shows "rq_wf (ready_queue_delete t s)" and "rdy (ready_queue_delete t s) = remove1 t (rdy s)"
proof -
  have b: "rq_base s" and tp: "rq_top s = rq_top_of (num_proc s) (rdy s)" using wf by (simp_all add: rq_wf_base)
  have p: "pri s t < NUM_PRI" using t b by (simp add: rdy_mem rq_base_def)
  define s2 where "s2 = rq_unlink t s"
  have e: "ready_queue_delete t s = s2\<lparr>rq_top := update_top_when_remove s2 (tsk_next s t) t, rq_chg := True\<rparr>"
    using k by (simp add: ready_queue_delete_def Let_def s2_def)
  have s2: "rq_top s2 = rq_top s" "num_proc s2 = num_proc s" "tcbs s2 = tcbs s" "ques s2 = ques (QueRemove_tsk t s)"
    "rq_bitmap s2 = (if ques s2 (QReady (pri s t)) = []
       then tstdlib_bitclr (rq_bitmap s) (int (pri s t)) else rq_bitmap s)"
    by (simp_all add: s2_def)
  have d: "rq_base s2" "rdy s2 = remove1 t (rdy s)"
    "rdy_range s2 (Suc (pri s t)) NUM_PRI = rdy_range s (Suc (pri s t)) NUM_PRI"
    by (rule rq_base_delete [OF b s2(4,5) _ s2(2) p]; simp add: s2(3))+
  have "update_top_when_remove s2 (tsk_next s t) t = rq_top_of (num_proc s2) (rdy s2)"
  proof (rule update_top_when_remove_eq [OF d(1) _ rq_base_distinct [OF b] t d(2)])
    show "rq_top s2 = rq_top_of (num_proc s2) (rdy s)" using tp s2 by simp
    fix ys assume "rdy s = t # ys"
    then show "get_next_tcb s2 (tsk_next s t) (pri s2 t) = first_of ys"
      using get_next_tcb_stale [OF b, of t ys s2] d by (simp add: rq_base_def s2(3))
  qed
  with e d have tp': "rq_top (ready_queue_delete t s) = rq_top_of (num_proc s2) (rdy s2)" by simp
  have q: "ques (ready_queue_delete t s) = ques s2" using e by simp
  have "rq_base (ready_queue_delete t s)"
    using d(1) e by (simp add: rq_base_def rq_prios_def rq_bits_def)
  with tp' q rdy_ques_cong [OF q] e show "rq_wf (ready_queue_delete t s)" by (simp add: rq_wf_base)
  show "rdy (ready_queue_delete t s) = remove1 t (rdy s)" using rdy_ques_cong [OF q] d by simp
qed

text \<open>Deleting a task that waits for a kernel lock leaves the ready queue alone.\<close>

lemma ready_queue_delete_klockwait:
  assumes wf: "rq_wf s" and k: "klockwait (tcbs s t)" and t: "t \<notin> set (rdy s)" and p: "pri s t < NUM_PRI"
  shows "rq_wf (ready_queue_delete t s)" and "rdy (ready_queue_delete t s) = rdy s"
proof -
  let ?s = "ready_queue_delete t s"
  have b: "rq_base s" and tp: "rq_top s = rq_top_of (num_proc s) (rdy s)" using wf by (simp_all add: rq_wf_base)
  have pr: "pri ?s x = pri s x" for x using k by (simp add: ready_queue_delete_def Let_def)
  have q: "ques ?s = ques (QueRemove_tsk t s)" using k by (simp add: ready_queue_delete_def Let_def)
  have np: "num_proc ?s = num_proc s" using k by (simp add: ready_queue_delete_def Let_def)
  have bm: "rq_bitmap ?s = (if ques ?s (QReady (pri s t)) = []
       then tstdlib_bitclr (rq_bitmap s) (int (pri s t)) else rq_bitmap s)"
    using k by (simp add: ready_queue_delete_def Let_def)
  note d = rq_base_delete [OF b q bm pr np p]
  show r: "rdy ?s = rdy s" using d(2) t by simp
  have "rq_top ?s = rq_top s" using k by (simp add: ready_queue_delete_def Let_def)
  with d(1) r np tp show "rq_wf ?s" by (simp add: rq_wf_base)
qed


section \<open>Moving a task behind the others of its priority\<close>

definition to_back :: "kstate \<Rightarrow> nat \<Rightarrow> nat list" where
  "to_back s t = insert_before (\<lambda>x. pri s x > pri s t) t (remove1 t (rdy s))"

lemma to_back_id:
  assumes "rq_base s" and "t \<in> set (rdy s)" and "tsk_next s t = None"
  shows "to_back s t = rdy s"
proof -
  let ?p = "pri s t"
  have p: "rq_prios s" using assms(1) by (simp add: rq_base_def)
  have t: "?p < NUM_PRI" "t \<in> set (ques s (QReady ?p))" using rdy_mem [OF p, of t] assms(2) by auto
  then obtain as bs where q: "ques s (QReady ?p) = as @ t # bs" by (meson split_list)
  moreover from this assms(1) t(1) have n: "t \<notin> set as" by (auto simp: rq_base_def)
  ultimately have "bs = []"
    using assms(3) ring_next_split [OF n, of bs] by (auto simp: tsk_next_def split: list.splits)
  have r: "rdy s = (rdy_range s 0 ?p @ as) @ t # rdy_range s (Suc ?p) NUM_PRI"
    using rdy_split [OF t(1)] q \<open>bs = []\<close> by simp
  have lo: "\<not> pri s x > ?p" if "x \<in> set (rdy_range s 0 ?p @ as)" for x
    using that rdy_range_pri [OF p, of ?p x 0] rq_priosD [OF p t(1), of x] q t by fastforce
  have hi: "insert_before (\<lambda>x. pri s x > ?p) t (rdy_range s (Suc ?p) NUM_PRI) = t # rdy_range s (Suc ?p) NUM_PRI"
    using rdy_range_pri [OF p, of NUM_PRI _ "Suc ?p"]
    by (cases "rdy_range s (Suc ?p) NUM_PRI") (auto simp: Suc_le_eq)
  have "t \<notin> set (rdy_range s 0 ?p @ as)"
    using rq_base_distinct [OF assms(1)] r by auto
  then have "remove1 t (rdy s) = (rdy_range s 0 ?p @ as) @ rdy_range s (Suc ?p) NUM_PRI"
    unfolding r by (rule remove1_split)
  moreover have "\<not> (\<exists>x\<in>set (rdy_range s 0 ?p @ as). pri s x > ?p)" using lo by blast
  ultimately show ?thesis
    by (simp only: to_back_def r insert_before_append hi if_False)
qed

text \<open>
  The common part of \<open>ready_queue_rotate\<close> and \<open>ready_queue_move_last\<close>: \<open>t\<close> has a successor of
  its priority, is taken out and linked in again behind the tasks of its priority.
\<close>

definition requeue :: "nat \<Rightarrow> kstate \<Rightarrow> kstate" where
  "requeue t s =
    (let nx = tsk_next s t;
         s = QueRemove_tsk t s;
         s = s\<lparr>rq_top := update_top_when_remove s nx t\<rparr>;
         s = QueInsert_tail t (QReady (pri s t)) s
     in s\<lparr>rq_top := update_top_when_insert s t\<rparr>)"

lemma requeue_wf:
  assumes wf: "rq_wf s" and t: "t \<in> set (rdy s)" and nx: "tsk_next s t \<noteq> None"
  shows "rq_wf (requeue t s)" and "rdy (requeue t s) = to_back s t" and "tcbs (requeue t s) = tcbs s"
    and "num_proc (requeue t s) = num_proc s"
proof -
  let ?p = "pri s t"
  have b: "rq_base s" and tp: "rq_top s = rq_top_of (num_proc s) (rdy s)" using wf by (simp_all add: rq_wf_base)
  then have p: "rq_prios s" by (simp add: rq_base_def)
  have tq: "?p < NUM_PRI" "t \<in> set (ques s (QReady ?p))" using rdy_mem [OF p, of t] t by auto
  define s1 where "s1 = QueRemove_tsk t s"
  have s1: "ques s1 = ques (QueRemove_tsk t s)" "rq_bitmap s1 = rq_bitmap s" "rq_top s1 = rq_top s"
    "tcbs s1 = tcbs s" "num_proc s1 = num_proc s"
    by (simp_all add: s1_def QueRemove_tsk_def)
  have ne: "ques s1 (QReady ?p) \<noteq> []"
  proof
    assume "ques s1 (QReady ?p) = []"
    then have "length (ques s (QReady ?p)) = 1"
      using tq(2) by (cases "ques s (QReady ?p)") (auto simp: s1(1) ques_QueRemove split: if_splits)
    then obtain z where "ques s (QReady ?p) = [z]" by (auto simp: length_Suc_conv)
    with nx show False by (simp add: tsk_next_def)
  qed
  have d: "rq_base s1" "rdy s1 = remove1 t (rdy s)"
    "rdy_range s1 (Suc ?p) NUM_PRI = rdy_range s (Suc ?p) NUM_PRI"
    by (rule rq_base_delete [OF b s1(1) _ _ s1(5) tq(1)]; use ne in \<open>simp add: s1\<close>)+
  have u: "update_top_when_remove s1 (tsk_next s t) t = rq_top_of (num_proc s1) (rdy s1)"
  proof (rule update_top_when_remove_eq [OF d(1) _ rq_base_distinct [OF b] t d(2)])
    show "rq_top s1 = rq_top_of (num_proc s1) (rdy s)" using tp s1 by simp
    fix ys assume "rdy s = t # ys"
    then show "get_next_tcb s1 (tsk_next s t) (pri s1 t) = first_of ys"
      using get_next_tcb_stale [OF b, of t ys s1] d by (simp add: rq_base_def s1(4))
  qed
  define s2 where "s2 = s1\<lparr>rq_top := rq_top_of (num_proc s1) (rdy s1)\<rparr>"
  have s2: "rdy s2 = rdy s1" by (rule rdy_ques_cong) (simp add: s2_def)
  have b2: "rq_base s2" using d(1) by (simp add: s2_def rq_base_def rq_prios_def rq_bits_def)
  define s3 where "s3 = QueInsert_tail t (QReady ?p) s2"
  have pr: "pri s3 x = pri s x" for x by (simp add: s3_def s2_def s1 QueInsert_tail_def set_que_def)
  have np: "num_proc s3 = num_proc s" by (simp add: s3_def s2_def s1 QueInsert_tail_def set_que_def)
  have p2: "pri s2 x = pri s x" for x by (simp add: s2_def s1)
  have nin: "t \<notin> set (rdy s2)" using rq_base_distinct [OF b] by (simp add: s2 d(2))
  have r3: "rdy s3 = to_back s t"
    using rdy_insert_tail [of s2 ?p t] b2 tq(1) by (simp add: s3_def rq_base_def to_back_def s2 d(2) p2)
  have "t \<notin> set (ques s2 (QReady ?p))"
    using nin b2 tq(1) p2 by (simp add: rdy_mem rq_base_def)
  then have "\<forall>x<NUM_PRI. distinct (ques s3 (QReady x))"
    using b2 by (simp add: s3_def rq_base_def QueInsert_tail_def set_que_def)
  moreover have "rq_bits s3"
    by (rule rq_bits_same [of s2])
      (use b2 ne in \<open>auto simp: rq_base_def s3_def s2_def QueInsert_tail_def set_que_def\<close>)
  moreover have "rq_prios s3"
    unfolding s3_def by (rule rq_prios_tail) (use b2 tq(1) p2 in \<open>simp_all add: rq_base_def\<close>)
  ultimately have b3: "rq_base s3"
    using b2 by (simp add: rq_base_def s3_def s2_def QueInsert_tail_def set_que_def)
  have eq: "requeue t s = s3\<lparr>rq_top := update_top_when_insert s3 t\<rparr>"
    by (simp add: requeue_def Let_def s1_def [symmetric] u s2_def [symmetric] s1(4) s3_def p2)
  have "rq_top s3 = rq_top_of (num_proc s3) (rdy s2)"
    by (simp add: s3_def s2_def s2 [unfolded s2_def] QueInsert_tail_def set_que_def)
  from update_top_when_insert_eq [OF this, of t] have tp3:
    "update_top_when_insert s3 t = rq_top_of (num_proc s) (to_back s t)"
    by (simp add: pr np to_back_def s2 d(2))
  have q: "ques (requeue t s) = ques s3" by (simp add: eq)
  show r: "rdy (requeue t s) = to_back s t" using rdy_ques_cong [OF q] r3 by simp
  show "tcbs (requeue t s) = tcbs s" by (simp add: eq s3_def s2_def s1 QueInsert_tail_def set_que_def)
  show "num_proc (requeue t s) = num_proc s" by (simp add: eq np)
  have "rq_base (requeue t s)" using b3 by (simp add: eq rq_base_def rq_prios_def rq_bits_def)
  then show "rq_wf (requeue t s)" using r tp3 np by (simp add: rq_wf_base eq)
qed


lemma rq_wf_slice [simp]:
  "rq_wf (upd_tcb t (\<lambda>c. c\<lparr>slicecnt := v\<rparr>) s) \<longleftrightarrow> rq_wf s"
  "rdy (upd_tcb t (\<lambda>c. c\<lparr>slicecnt := v\<rparr>) s) = rdy s"
  by (auto simp: rq_wf_def rq_prios_def rq_bits_def rq_tops_def rdy_def)

lemma rq_wf_chg [simp]: "rq_wf (s\<lparr>rq_chg := b\<rparr>) \<longleftrightarrow> rq_wf s" "rdy (s\<lparr>rq_chg := b\<rparr>) = rdy s"
  by (auto simp: rq_wf_def rq_prios_def rq_bits_def rq_tops_def rdy_def)

lemma ready_queue_rotate_requeue:
  assumes "ques s (QReady p) = t # y # zs" and "pri s t = p"
  shows "ready_queue_rotate p s = upd_tcb t (\<lambda>c. c\<lparr>slicecnt := 0\<rparr>) ((requeue t s)\<lparr>rq_chg := True\<rparr>)"
  using assms by (simp add: ready_queue_rotate_def requeue_def Let_def tsk_next_def upd_tcb_def QueRemove_tsk_def)

lemma rdy_first_of_pri:
  assumes "rq_wf s" and "p < NUM_PRI" and "ques s (QReady p) = t # ys"
  shows "pri s t = p" and "t \<in> set (rdy s)"
proof -
  have p: "rq_prios s" using assms(1) by (simp add: rq_wf_def)
  show "pri s t = p" using p assms(2,3) by (simp add: rq_prios_def)
  with p assms show "t \<in> set (rdy s)" by (simp add: rdy_mem)
qed

text \<open>Rotation moves the head of the priority's ring behind the others of the same priority.\<close>

lemma ready_queue_rotate_wf:
  assumes wf: "rq_wf s" and p: "p < NUM_PRI"
  shows "rq_wf (ready_queue_rotate p s)"
    and "rdy (ready_queue_rotate p s) =
      (case ques s (QReady p) of [] \<Rightarrow> rdy s | t # ys \<Rightarrow> to_back s t)"
proof -
  have "rq_wf (ready_queue_rotate p s) \<and> rdy (ready_queue_rotate p s) =
      (case ques s (QReady p) of [] \<Rightarrow> rdy s | t # ys \<Rightarrow> to_back s t)"
  proof (cases "ques s (QReady p)")
    case Nil
    with wf show ?thesis by (simp add: ready_queue_rotate_def)
  next
    case (Cons t ys)
    note t = rdy_first_of_pri [OF wf p Cons]
    have b: "rq_base s" using wf by (simp add: rq_wf_base)
    show ?thesis
    proof (cases ys)
      case Nil
      with Cons t(1) have "tsk_next s t = None" by (simp add: tsk_next_def)
      from to_back_id [OF b t(2) this] Cons Nil wf show ?thesis by (simp add: ready_queue_rotate_def)
    next
      case (Cons y zs)
      with \<open>ques s (QReady p) = t # ys\<close> have q: "ques s (QReady p) = t # y # zs" by simp
      with t(1) have "tsk_next s t \<noteq> None" by (simp add: tsk_next_def)
      from requeue_wf [OF wf t(2) this] q ready_queue_rotate_requeue [OF q t(1)] show ?thesis by simp
    qed
  qed
  then show "rq_wf (ready_queue_rotate p s)" "rdy (ready_queue_rotate p s) =
      (case ques s (QReady p) of [] \<Rightarrow> rdy s | t # ys \<Rightarrow> to_back s t)" by auto
qed

lemma ready_queue_move_last_eq:
  "ready_queue_move_last t s = (tsk_next s t \<noteq> None,
     upd_tcb t (\<lambda>c. c\<lparr>slicecnt := 0\<rparr>) (if tsk_next s t \<noteq> None then requeue t s else s))"
  by (auto simp: ready_queue_move_last_def requeue_def Let_def QueRemove_tsk_def)

lemma ready_queue_move_last_wf:
  assumes wf: "rq_wf s" and t: "t \<in> set (rdy s)"
  shows "rq_wf (snd (ready_queue_move_last t s))" and "rdy (snd (ready_queue_move_last t s)) = to_back s t"
    and "fst (ready_queue_move_last t s) \<longleftrightarrow> tsk_next s t \<noteq> None"
proof -
  have b: "rq_base s" using wf by (simp add: rq_wf_base)
  show "rq_wf (snd (ready_queue_move_last t s))"
    using requeue_wf(1) [OF wf t] wf by (auto simp: ready_queue_move_last_eq)
  show "rdy (snd (ready_queue_move_last t s)) = to_back s t"
    using requeue_wf(2) [OF wf t] to_back_id [OF b t] by (auto simp: ready_queue_move_last_eq)
qed (simp add: ready_queue_move_last_eq)


text \<open>The ready queue as an ordered queue.\<close>

definition rdy_ok :: "kstate \<Rightarrow> nat \<Rightarrow> bool" where
  "rdy_ok s t \<longleftrightarrow> rq_wf s \<and> pri s t < NUM_PRI \<and> t \<notin> set (rdy s)"

interpretation readyq: stable_queue pri rdy ready_queue_insert rdy_ok
proof
  fix s e
  show "rdy_ok s e \<Longrightarrow> rdy (ready_queue_insert e s) = insert_before (\<lambda>x. pri s e < pri s x) e (rdy s)"
    by (simp add: rdy_ok_def ready_queue_insert_wf(2))
  show "pri (ready_queue_insert e s) = pri s"
    by (simp add: ready_queue_insert_sel fun_eq_iff)
qed

end
