(* ===== verification/Scheduler.thy ===== *)
theory Scheduler
  imports Ready_Queue "HOL-Library.Multiset"
begin

text \<open>
  Task selection and task state changes: \<^verbatim>\<open>ready_queue.c\<close> (choice of the tasks to run and
  their distribution over the processors) and \<^verbatim>\<open>task.c\<close> (\<open>schedtsk\<close>, \<open>make_ready\<close>,
  \<open>make_non_ready\<close>, rotation, time slices). The retry loop of \<open>ready_queue_top\<close> is a
  \<open>partial_function\<close>; it is shown to end on a well-formed ready queue and to compute the greedy
  choice \<open>select\<close> over the abstract queue \<open>rdy\<close>.
\<close>

section \<open>Bits of processor sets\<close>

definition DDS_ENABLE :: nat where "DDS_ENABLE = 0"
definition DDS_DISABLE_IMPLICIT :: nat where "DDS_DISABLE_IMPLICIT = 1"
definition DDS_DISABLE :: nat where "DDS_DISABLE = 2"

definition TA_ASSPRC :: ATR where "TA_ASSPRC = 0x00020000"

definition all_core_bit :: "nat \<Rightarrow> UW" where
  "all_core_bit np = drop_bit (32 - np) 0xFFFFFFFF"

abbreviation ALL_CORE_BIT :: "kstate \<Rightarrow> UW" where
  "ALL_CORE_BIT s \<equiv> all_core_bit (num_proc s)"

definition cnt_bits_table :: "UW list" where
  "cnt_bits_table = [0, 1, 1, 2, 1, 2, 2, 3, 1, 2, 2, 3, 2, 3, 3, 4]"

function cnt_bits_from :: "nat \<Rightarrow> nat \<Rightarrow> UW \<Rightarrow> UW \<Rightarrow> UW" where
  "cnt_bits_from np i bits cnt =
    (if i < np then cnt_bits_from np (i + 4) (drop_bit 4 bits) (cnt + cnt_bits_table ! unat (bits AND 0xF))
     else cnt)"
  by pat_completeness auto
termination by (relation "measure (\<lambda>(np, i, _). np - i)") auto

declare cnt_bits_from.simps [simp del]

definition cnt_bits :: "nat \<Rightarrow> UW \<Rightarrow> UW" where
  "cnt_bits np bits = cnt_bits_from np 0 bits 0"

definition cnt_bits2 :: "nat \<Rightarrow> UW \<Rightarrow> UW" where
  "cnt_bits2 np bits = foldl (\<lambda>cnt i. if bits AND push_bit i 1 \<noteq> 0 then cnt + 1 else cnt) 0 [0..<np]"

definition unsum_bits :: "nat \<Rightarrow> UW list \<Rightarrow> UW \<Rightarrow> UW list" where
  "unsum_bits np cnt b = foldl (\<lambda>c k. if b AND push_bit k 1 \<noteq> 0 then c[k := c ! k - 1] else c) cnt [0..<np]"

definition sum_bits :: "nat \<Rightarrow> UW list \<Rightarrow> UW \<Rightarrow> UW list" where
  "sum_bits np cnt b = foldl (\<lambda>c k. if b AND push_bit k 1 \<noteq> 0 then c[k := c ! k + 1] else c) cnt [0..<np]"

definition drop_bit_no :: "nat \<Rightarrow> UW list \<Rightarrow> nat \<Rightarrow> UW list" where
  "drop_bit_no np bits no = foldl (\<lambda>b k. b[k := b ! k AND NOT (push_bit no 1)]) bits [0..<np]"

section \<open>Choosing the tasks to run\<close>

text \<open>The local variables of \<open>ready_queue_top\<close>; \<open>se_hist\<close> is \<open>hist[0..hist_num-1]\<close>.\<close>

record selst =
  se_tcb :: "nat option list"
  se_bit :: "UW list"
  se_cnt :: "UW list"
  se_hist :: "UW list"
  se_num :: nat

definition rqt_init :: "kstate \<Rightarrow> selst" where
  "rqt_init s = \<lparr>se_tcb = map (\<lambda>i. rq_top s ! i) [0..<num_proc s], se_bit = replicate (num_proc s) 0,
     se_cnt = replicate (num_proc s) 0, se_hist = [], se_num = 0\<rparr>"

definition make_dds_mask :: "kstate \<Rightarrow> UW" where
  "make_dds_mask s = NOT (foldl (\<lambda>m j. if dispatch_disabled s j \<ge> DDS_DISABLE then m OR push_bit j 1 else m)
     0 [0..<num_proc s])"

text \<open>
  The processors the task may be given to; 0 if there is none. A task that runs on a processor
  with dispatching disabled stays there.
\<close>

definition core_bits :: "kstate \<Rightarrow> UW \<Rightarrow> nat \<Rightarrow> UW" where
  "core_bits s dds_mask t =
    (case List.find (\<lambda>i. ctxtsk s i = Some t \<and> dispatch_disabled s i \<ge> DDS_DISABLE) [0..<num_proc s] of
       Some i \<Rightarrow> push_bit i 1
     | None \<Rightarrow> (if tskatr (tcbs s t) AND TA_ASSPRC = 0 then ALL_CORE_BIT s else assprc (tcbs s t)) AND dds_mask)"

text \<open>\<open>shift top[]\<close>: drop entry \<open>j\<close> and fetch one more task behind the last entry.\<close>

definition shift_top :: "kstate \<Rightarrow> nat \<Rightarrow> nat option list \<Rightarrow> nat option list" where
  "shift_top s j tp =
    (let tp = shift_up j (num_proc s - 1) tp; k = max j (num_proc s - 1)
     in case tp ! k of None \<Rightarrow> tp | Some x \<Rightarrow> tp[k := get_next_tcb s (tsk_next s x) (pri s x)])"

text \<open>
  The check routine. An entry of \<open>hist\<close> stands for a set of chosen tasks: its lower half is the
  union of their processors, its upper half their number. \<open>None\<close> if the new task would leave some
  set with fewer processors than tasks; otherwise the entries for the sets with the new task.
\<close>

fun hist_check :: "nat \<Rightarrow> UW \<Rightarrow> UW list \<Rightarrow> UW list option" where
  "hist_check np b [] = Some []"
| "hist_check np b (h # hs) =
    (let or_bit_num = (h OR b) + push_bit 16 1
     in if cnt_bits np (or_bit_num AND 0xFFFF) < drop_bit 16 or_bit_num then None
        else map_option ((#) or_bit_num) (hist_check np b hs))"

definition sel_save :: "kstate \<Rightarrow> nat \<Rightarrow> UW \<Rightarrow> selst \<Rightarrow> selst" where
  "sel_save s j b x = x\<lparr>se_bit := (se_bit x)[j := b], se_cnt := sum_bits (num_proc s) (se_cnt x) b,
     se_num := se_num x + 1\<rparr>"

partial_function (option) rqt_scan :: "kstate \<Rightarrow> UW \<Rightarrow> nat \<Rightarrow> selst \<Rightarrow> selst option" where
  "rqt_scan s dds_mask j x =
    (if j < num_proc s then
       (case se_tcb x ! j of
          None \<Rightarrow> Some x
        | Some t \<Rightarrow>
            (let b = core_bits s dds_mask t in
             if b = 0 then rqt_scan s dds_mask j (x\<lparr>se_tcb := shift_top s j (se_tcb x)\<rparr>)
             else if b \<noteq> ALL_CORE_BIT s then
               (case hist_check (num_proc s) b (se_hist x) of
                  None \<Rightarrow> rqt_scan s dds_mask j (x\<lparr>se_tcb := shift_top s j (se_tcb x)\<rparr>)
                | Some hs \<Rightarrow>
                    rqt_scan s dds_mask (Suc j) (sel_save s j b
                      (if j \<noteq> num_proc s - 1 then x\<lparr>se_hist := se_hist x @ hs @ [b OR push_bit 16 1]\<rparr> else x)))
             else rqt_scan s dds_mask (Suc j) (sel_save s j b x)))
     else Some x)"

section \<open>Giving the chosen tasks to processors\<close>

text \<open>
  In the assignment loops \<open>sch\<close> is the schedule being built and \<open>tops\<close> the chosen tasks not yet placed.
  \<open>place np ok t sch\<close> puts \<open>t\<close> on the first free processor with \<open>ok\<close>; \<open>None\<close> if there is none.
\<close>

definition place :: "nat \<Rightarrow> (nat \<Rightarrow> bool) \<Rightarrow> nat \<Rightarrow> nat option list \<Rightarrow> nat option list option" where
  "place np ok t sch = map_option (\<lambda>i. sch[i := Some t]) (List.find (\<lambda>i. ok i \<and> sch ! i = None) [0..<np])"

definition sca_step :: "nat \<Rightarrow> (nat \<Rightarrow> nat \<Rightarrow> bool) \<Rightarrow> (nat \<Rightarrow> bool) \<Rightarrow>
    nat option list \<times> nat option list \<Rightarrow> nat \<Rightarrow> nat option list \<times> nat option list" where
  "sca_step np ok skip st j =
    (case st of (sch, tops) \<Rightarrow>
      (case tops ! j of
         None \<Rightarrow> (sch, tops)
       | Some t \<Rightarrow>
           if skip t then (sch, tops)
           else (case place np (ok t) t sch of None \<Rightarrow> (sch, tops) | Some sch' \<Rightarrow> (sch', tops[j := None]))))"

definition single_core_assign :: "kstate \<Rightarrow> nat option list \<Rightarrow> nat option list" where
  "single_core_assign s tops =
    (let np = num_proc s;
         sch = replicate np None;
         js = takeWhile (\<lambda>j. tops ! j \<noteq> None) [0..<np];
         st = foldl (sca_step np (\<lambda>t i. assprc (tcbs s t) AND push_bit i 1 \<noteq> 0)
                (\<lambda>t. tskatr (tcbs s t) AND TA_ASSPRC = 0 \<or> assprc (tcbs s t) = ALL_CORE_BIT s)) (sch, tops) js;
         st = foldl (sca_step np (\<lambda>t i. ctxtsk s i = Some t) (\<lambda>t. False)) st [0..<np];
         st = foldl (sca_step np (\<lambda>t i. \<not> dispatch_disabled s i \<ge> DDS_DISABLE) (\<lambda>t. False)) st [0..<np]
     in fst st)"

record mcast =
  mc_sch :: "nat option list"
  mc_bit :: "UW list"
  mc_cnt :: "UW list"

definition try_assign :: "nat \<Rightarrow> nat option list \<Rightarrow> mcast \<Rightarrow> nat \<times> nat \<times> nat option \<Rightarrow> mcast option" where
  "try_assign np top_tcb x a =
    (case a of (idx, pr, cmptcb) \<Rightarrow>
      if mc_bit x ! idx AND push_bit pr 1 \<noteq> 0 \<and> mc_sch x ! pr = None \<and> cmptcb = top_tcb ! idx then
        Some (let cnt = unsum_bits np (mc_cnt x) (mc_bit x ! idx);
                  bits = drop_bit_no np (mc_bit x) pr
              in \<lparr>mc_sch = (mc_sch x)[pr := top_tcb ! idx], mc_bit = bits[idx := 0], mc_cnt = cnt\<rparr>)
      else None)"

text \<open>
  The attempts between two \<open>RE_ASSIGN\<close>, in the order of the loops over \<open>c\<close> and \<open>j\<close>: a failing
  \<open>try_assign\<close> changes nothing, and the first success starts the search again.
\<close>

definition mca_pass :: "kstate \<Rightarrow> nat option list \<Rightarrow> mcast \<Rightarrow> UW \<Rightarrow>
    (nat \<Rightarrow> nat \<Rightarrow> nat option) \<Rightarrow> (nat \<Rightarrow> nat \<Rightarrow> nat option) \<Rightarrow> (nat \<times> nat \<times> nat option) list" where
  "mca_pass s top_tcb x c col row =
    concat (map (\<lambda>j.
      (if mc_cnt x ! j = c then map (\<lambda>i. (i, j, col i j)) [0..<num_proc s] else []) @
      (if cnt_bits (num_proc s) (mc_bit x ! j) = c then map (\<lambda>i. (j, i, row i j)) [0..<num_proc s] else []))
     [0..<num_proc s])"

definition mca_attempts :: "kstate \<Rightarrow> nat option list \<Rightarrow> mcast \<Rightarrow> (nat \<times> nat \<times> nat option) list" where
  "mca_attempts s top_tcb x =
    concat (map (\<lambda>c.
      mca_pass s top_tcb x (of_nat c) (\<lambda>i j. ctxtsk s j) (\<lambda>i j. ctxtsk s i) @
      mca_pass s top_tcb x (of_nat c) (\<lambda>i j. top_tcb ! i) (\<lambda>i j. top_tcb ! j))
     [1..<Suc (num_proc s)])"

fun first_assign :: "nat \<Rightarrow> nat option list \<Rightarrow> mcast \<Rightarrow> (nat \<times> nat \<times> nat option) list \<Rightarrow> mcast option" where
  "first_assign np top_tcb x [] = None"
| "first_assign np top_tcb x (a # as) =
    (case try_assign np top_tcb x a of None \<Rightarrow> first_assign np top_tcb x as | Some y \<Rightarrow> Some y)"

fun mca_loop :: "kstate \<Rightarrow> nat option list \<Rightarrow> nat \<Rightarrow> mcast \<Rightarrow> mcast" where
  "mca_loop s top_tcb 0 x = x"
| "mca_loop s top_tcb (Suc n) x =
    (case first_assign (num_proc s) top_tcb x (mca_attempts s top_tcb x) of
       None \<Rightarrow> x
     | Some y \<Rightarrow> mca_loop s top_tcb n y)"

definition multi_core_assign :: "kstate \<Rightarrow> nat option list \<Rightarrow> UW list \<Rightarrow> UW list \<Rightarrow> nat \<Rightarrow> nat option list" where
  "multi_core_assign s top_tcb top_bit bit_cnt assign_num =
    mc_sch (mca_loop s top_tcb assign_num
      \<lparr>mc_sch = replicate (num_proc s) None, mc_bit = top_bit, mc_cnt = bit_cnt\<rparr>)"

definition has_multi :: "kstate \<Rightarrow> selst \<Rightarrow> bool" where
  "has_multi s x \<longleftrightarrow> (\<exists>j \<in> {0..<se_num x}.
     let k = cnt_bits2 (num_proc s) (assprc (tcbs s (the (se_tcb x ! j)))) in k > 1 \<and> k < of_nat (num_proc s))"

definition ready_queue_top :: "kstate \<Rightarrow> (nat option list \<times> kstate) option" where
  "ready_queue_top s =
    map_option (\<lambda>x.
      (if has_multi s x then multi_core_assign s (se_tcb x) (se_bit x) (se_cnt x) (se_num x)
       else single_core_assign s (se_tcb x),
       s\<lparr>rq_chg := False\<rparr>))
    (rqt_scan s (make_dds_mask s) 0 (rqt_init s))"

section \<open>Task state changes\<close>

definition time_slice_schedule :: "nat option \<Rightarrow> kstate \<Rightarrow> bool \<times> kstate" where
  "time_slice_schedule x s =
    (case x of
       None \<Rightarrow> (False, s)
     | Some t \<Rightarrow>
         if slicetime (tcbs s t) > 0 then
           (let s = upd_tcb t (\<lambda>c. c\<lparr>slicecnt := slicecnt c + timer_period s\<rparr>) s
            in if slicecnt (tcbs s t) > slicetime (tcbs s t) then ready_queue_move_last t s else (False, s))
         else (False, s))"

definition is_change_schedule :: "kstate \<Rightarrow> (nat \<Rightarrow> nat option) \<Rightarrow> nat option list \<Rightarrow> bool" where
  "is_change_schedule s cur pre \<longleftrightarrow> (\<exists>i \<in> {0..<num_proc s}. cur i \<noteq> pre ! i)"

definition is_schedtsk :: "kstate \<Rightarrow> nat \<Rightarrow> bool" where
  "is_schedtsk s t \<longleftrightarrow> (\<exists>i \<in> {0..<num_proc s}. schedtsk s i = Some t)"

definition is_ctxtsk :: "kstate \<Rightarrow> nat \<Rightarrow> bool" where
  "is_ctxtsk s t \<longleftrightarrow> (\<exists>i \<in> {0..<num_proc s}. ctxtsk s i = Some t)"

definition get_prid_from_ctx :: "kstate \<Rightarrow> nat \<Rightarrow> nat" where
  "get_prid_from_ctx s t = (case List.find (\<lambda>i. ctxtsk s i = Some t) [0..<num_proc s] of Some i \<Rightarrow> i | None \<Rightarrow> 0)"

definition is_element :: "kstate \<Rightarrow> nat option \<Rightarrow> nat option list \<Rightarrow> bool" where
  "is_element s x array \<longleftrightarrow> (\<exists>i \<in> {0..<num_proc s}. array ! i = x)"

definition reschedule_step :: "nat option list \<Rightarrow> kstate \<Rightarrow> nat \<Rightarrow> kstate" where
  "reschedule_step toptsk s i =
    (let s = (if schedtsk s i = ctxtsk s i \<and> \<not> is_element s (ctxtsk s i) toptsk
              then snd (time_slice_schedule (schedtsk s i) s) else s)
     in s\<lparr>schedtsk := (schedtsk s)(i := toptsk ! i)\<rparr>)"

text \<open>\<open>dispatch_request\<close> (an interrupt that makes the processors compare \<open>ctxtsk\<close> with \<open>schedtsk\<close>)
  has no effect on this state.\<close>

definition reschedule :: "kstate \<Rightarrow> kstate option" where
  "reschedule s = do {
     (toptsk, s) \<leftarrow> ready_queue_top s;
     Some (if is_change_schedule s (schedtsk s) toptsk
           then foldl (reschedule_step toptsk) s [0..<num_proc s] else s)
   }"

definition update_schedtsk :: "kstate \<Rightarrow> kstate option" where
  "update_schedtsk s = (if is_change_ready_queue s then reschedule s else Some s)"

definition make_ready :: "nat \<Rightarrow> kstate \<Rightarrow> kstate" where
  "make_ready t s = ready_queue_insert t (upd_tcb t (\<lambda>c. c\<lparr>state := TS_READY\<rparr>) s)"

definition copy_sched :: "nat \<Rightarrow> nat option list \<Rightarrow> (nat \<Rightarrow> nat option) \<Rightarrow> nat \<Rightarrow> nat option" where
  "copy_sched np sch old i = (if i < np then sch ! i else old i)"

definition make_non_ready :: "nat \<Rightarrow> kstate \<Rightarrow> kstate option" where
  "make_non_ready t s =
    (let s = ready_queue_delete t s
     in if is_schedtsk s t then do {
          (sch, s) \<leftarrow> ready_queue_top s;
          Some (s\<lparr>schedtsk := copy_sched (num_proc s) sch (schedtsk s)\<rparr>)
        } else Some s)"

definition rotate_ready_queue :: "nat \<Rightarrow> kstate \<Rightarrow> kstate" where
  "rotate_ready_queue prio s = ready_queue_rotate prio s"

definition rotate_ready_queue_run :: "kstate \<Rightarrow> kstate option" where
  "rotate_ready_queue_run s = map_option (\<lambda>p. ready_queue_rotate p s) (ready_queue_top_priority s)"

definition rotate_ready_queue_ctx :: "nat \<Rightarrow> kstate \<Rightarrow> kstate option" where
  "rotate_ready_queue_ctx prid s =
    (case ctxtsk s prid of
       None \<Rightarrow> None
     | Some t \<Rightarrow> (case ready_queue_move_last t s of (chg, s) \<Rightarrow> if chg then reschedule s else Some s))"

definition td_rdy_que :: "int \<Rightarrow> int \<Rightarrow> kstate \<Rightarrow> int \<times> ID list" where
  "td_rdy_que prio nent s =
    (if \<not> CHK_PRI prio then (E_PAR, [])
     else let ts = ques s (QReady (nat (int_priority prio))) in (int (length ts), take (nat nent) (map (\<lambda>t. tskid (tcbs s t)) ts)))"

definition make_dormant :: "nat \<Rightarrow> kstate \<Rightarrow> kstate" where
  "make_dormant t s = upd_tcb t (\<lambda>c. c\<lparr>state := TS_DORMANT,
     priority := ipriority c, bpriority := ipriority c, sysmode := isysmode c,
     wupcnt := 0, suscnt := 0, waitmask := 0,
     stkfree := False, nodiswai := False, klockwait := False, klocked := False,
     slicetime := 0, stime := 0, utime := 0,
     mtxlist := [], tskevt := 0, reqdct := 0,
     texhdr := 0, texmask := 0, pendtex := 0, exectex := 0, texflg := 0, execssid := 0\<rparr>) s"


section \<open>The scan computes the greedy choice\<close>

text \<open>
  The specification of the choice: walk down the ready queue, take every task that leaves all
  sets of chosen tasks with enough processors, until every processor has one.
\<close>

fun select :: "kstate \<Rightarrow> nat \<Rightarrow> UW list \<Rightarrow> nat list \<Rightarrow> (nat \<times> UW) list" where
  "select s 0 hist ts = []"
| "select s (Suc k) hist [] = []"
| "select s (Suc k) hist (t # ts) =
    (let b = core_bits s (make_dds_mask s) t in
     if b = 0 then select s (Suc k) hist ts
     else if b = ALL_CORE_BIT s then (t, b) # select s k hist ts
     else (case hist_check (num_proc s) b hist of
             None \<Rightarrow> select s (Suc k) hist ts
           | Some hs \<Rightarrow> (t, b) # select s k (if k = 0 then hist else hist @ hs @ [b OR push_bit 16 1]) ts))"

lemma rq_wf_next:
  assumes "rq_wf s" and "rdy s = pre @ x # rest"
  shows "get_next_tcb s (tsk_next s x) (pri s x) = first_of rest"
proof -
  have d: "distinct (rdy s)" using assms(1) by (rule rdy_distinct)
  have "get_next_tcb s (tsk_next s x) (pri s x) = ring_next (rdy s) x"
    using assms d by (intro get_next_tcb_rdy) (auto simp: rq_wf_def)
  also have "\<dots> = first_of rest"
    using d ring_next_split [of x pre rest] by (simp add: assms(2) first_of_def split: list.splits)
  finally show ?thesis .
qed

lemma pad_0 [simp]: "pad 0 xs = []"
  by (simp add: pad_def)

lemma pad_Suc_Cons: "pad (Suc n) (t # xs) = Some t # pad n xs"
  by (rule nth_equalityI) (auto simp: nth_pad nth_Cons')

lemma shift_top_pad:
  assumes wf: "rq_wf s" and r: "rdy s = pre @ t # rest" and j: "j < num_proc s" "length acc = j"
  shows "shift_top s j (map Some acc @ pad (num_proc s - j) (t # rest)) = map Some acc @ pad (num_proc s - j) rest"
proof -
  define m where "m = num_proc s - Suc j"
  have np: "num_proc s = Suc (j + m)" using j by (simp add: m_def)
  let ?tp = "shift_up j (num_proc s - 1) (map Some acc @ pad (num_proc s - j) (t # rest))"
  have tp: "?tp ! i = (if i < j then Some (acc ! i) else if i < j + m then pad m rest ! (i - j)
      else pad (Suc m) (t # rest) ! m)" if "i < num_proc s" for i
    using that j(2)
    by (cases "i = j + m") (auto simp: np nth_shift_up nth_append nth_pad Suc_diff_le)
  have last: "get_next_tcb s (tsk_next s x) (pri s x) = (if m < length rest then Some (rest ! m) else None)"
    if "pad (Suc m) (t # rest) ! m = Some x" for x
  proof -
    have l: "m < length (t # rest)" "x = (t # rest) ! m" using that by (auto simp: nth_pad split: if_splits)
    then have "rdy s = (pre @ take m (t # rest)) @ x # drop (Suc m) (t # rest)"
      using r id_take_nth_drop [OF l(1)] by simp
    from rq_wf_next [OF wf this] show ?thesis
      by (auto simp: first_of_def drop_Suc_Cons split: list.split dest: nth_via_drop)
  qed
  show ?thesis
  proof (rule nth_equalityI)
    show "length (shift_top s j (map Some acc @ pad (num_proc s - j) (t # rest))) =
      length (map Some acc @ pad (num_proc s - j) rest)"
      by (simp add: shift_top_def Let_def split: option.split)
    fix i assume "i < length (shift_top s j (map Some acc @ pad (num_proc s - j) (t # rest)))"
    then have i: "i < num_proc s" using j np by (simp add: shift_top_def Let_def split: option.splits)
    have k: "max j (num_proc s - 1) = j + m" by (simp add: np)
    have "shift_top s j (map Some acc @ pad (num_proc s - j) (t # rest)) ! i =
        (if i < j then Some (acc ! i) else if i < j + m then pad m rest ! (i - j)
         else if m < length rest then Some (rest ! m) else None)"
      using i tp [of i] tp [of "j + m"] j(2) last
      by (auto simp: shift_top_def Let_def k np nth_list_update nth_pad split: option.split if_splits)
    moreover have "(map Some acc @ pad (num_proc s - j) rest) ! i = (if i < j then Some (acc ! i) else pad (Suc m) rest ! (i - j))"
      using i j np by (auto simp: nth_append)
    ultimately show "shift_top s j (map Some acc @ pad (num_proc s - j) (t # rest)) ! i =
        (map Some acc @ pad (num_proc s - j) rest) ! i"
      using i np by (cases "i = j + m") (auto simp: nth_pad)
  qed
qed


lemma rqt_scan_done: "\<not> j < num_proc s \<Longrightarrow> rqt_scan s m j x = Some x"
  by (subst rqt_scan.simps) simp

lemma rqt_scan_None: "j < num_proc s \<Longrightarrow> se_tcb x ! j = None \<Longrightarrow> rqt_scan s m j x = Some x"
  by (subst rqt_scan.simps) simp

lemma rqt_scan_Some:
  "j < num_proc s \<Longrightarrow> se_tcb x ! j = Some t \<Longrightarrow> b = core_bits s m t \<Longrightarrow>
   rqt_scan s m j x =
     (if b = 0 then rqt_scan s m j (x\<lparr>se_tcb := shift_top s j (se_tcb x)\<rparr>)
      else if b \<noteq> ALL_CORE_BIT s then
        (case hist_check (num_proc s) b (se_hist x) of
           None \<Rightarrow> rqt_scan s m j (x\<lparr>se_tcb := shift_top s j (se_tcb x)\<rparr>)
         | Some hs \<Rightarrow>
             rqt_scan s m (Suc j) (sel_save s j b
               (if j \<noteq> num_proc s - 1 then x\<lparr>se_hist := se_hist x @ hs @ [b OR push_bit 16 1]\<rparr> else x)))
      else rqt_scan s m (Suc j) (sel_save s j b x))"
  by (hypsubst, subst rqt_scan.simps, simp add: Let_def)

lemma select_Nil [simp]: "select s k hist [] = []"
  by (cases k) auto

text \<open>
  The scan at position \<open>j\<close>: \<open>acc\<close> holds the tasks chosen so far, \<open>ts\<close> the part of the ready queue
  that is left. It always ends, with the choice of \<open>select\<close>.
\<close>

lemma rqt_scan_select:
  assumes wf: "rq_wf s" and r: "rdy s = pre @ ts" and j: "j \<le> num_proc s" "length acc = j"
    and tp: "se_tcb x = map Some acc @ pad (num_proc s - j) ts"
    and bits: "se_bit x = bs @ replicate (num_proc s - j) 0" "length bs = j" and num: "se_num x = j"
  shows "\<exists>x' rest. let c = select s (num_proc s - j) (se_hist x) ts in
     rqt_scan s (make_dds_mask s) j x = Some x' \<and>
     se_tcb x' = map Some acc @ map (Some \<circ> fst) c @ rest \<and> length (se_tcb x') = num_proc s \<and>
     (rest = replicate (num_proc s - j - length c) None) \<and>
     se_bit x' = bs @ map snd c @ replicate (num_proc s - j - length c) 0 \<and>
     se_num x' = j + length c \<and> length c \<le> num_proc s - j"
  using r j tp bits num
proof (induction ts arbitrary: pre j acc x bs)
  case Nil
  show ?case
  proof (cases "j < num_proc s")
    case True
    then have "se_tcb x ! j = None" using Nil.prems by (simp add: nth_append nth_pad)
    with True Nil.prems show ?thesis by (simp add: rqt_scan_None pad_def)
  next
    case False
    with Nil.prems show ?thesis by (simp add: rqt_scan_done)
  qed
next
  case (Cons t ts)
  show ?case
  proof (cases "j < num_proc s")
    case False
    with Cons.prems show ?thesis by (simp add: rqt_scan_done)
  next
    case True
    define m where "m = num_proc s - Suc j"
    have m: "num_proc s - j = Suc m" using True by (simp add: m_def)
    have tj: "se_tcb x ! j = Some t" using Cons.prems True by (simp add: nth_append nth_pad)
    define b where "b = core_bits s (make_dds_mask s) t"
    note step = rqt_scan_Some [of j s x t b "make_dds_mask s", OF True tj b_def]
    have r': "rdy s = (pre @ [t]) @ ts" using Cons.prems by simp
    have sh: "shift_top s j (se_tcb x) = map Some acc @ pad (num_proc s - j) ts"
      using shift_top_pad [OF wf, of pre t ts j acc] Cons.prems True by simp
    note skip = Cons.IH [OF r', of j acc "x\<lparr>se_tcb := shift_top s j (se_tcb x)\<rparr>" bs]
    show ?thesis
    proof (cases "b = 0 \<or> b \<noteq> ALL_CORE_BIT s \<and> hist_check (num_proc s) b (se_hist x) = None")
      case True
      then have "rqt_scan s (make_dds_mask s) j x =
          rqt_scan s (make_dds_mask s) j (x\<lparr>se_tcb := shift_top s j (se_tcb x)\<rparr>)"
        using step by auto
      moreover have "select s (num_proc s - j) (se_hist x) (t # ts) = select s (num_proc s - j) (se_hist x) ts"
        using True by (auto simp: m b_def Let_def)
      ultimately show ?thesis using skip Cons.prems sh by simp
    next
      case False
      define h where "h = (if b = ALL_CORE_BIT s \<or> m = 0 then se_hist x
        else se_hist x @ the (hist_check (num_proc s) b (se_hist x)) @ [b OR push_bit 16 1])"
      define x2 where "x2 = sel_save s j b (x\<lparr>se_hist := h\<rparr>)"
      have m0: "m = 0 \<longleftrightarrow> j = num_proc s - 1" using True by (auto simp: m_def)
      have x2: "rqt_scan s (make_dds_mask s) j x = rqt_scan s (make_dds_mask s) (Suc j) x2"
        using False step by (auto simp: x2_def h_def m0)
      have sel: "select s (num_proc s - j) (se_hist x) (t # ts) = (t, b) # select s m h ts"
        using False by (auto simp: m b_def [symmetric] Let_def h_def)
      have tp2: "se_tcb x2 = map Some (acc @ [t]) @ pad (num_proc s - Suc j) ts"
        using Cons.prems by (simp add: x2_def sel_save_def m pad_Suc_Cons m_def)
      have bits2: "se_bit x2 = (bs @ [b]) @ replicate (num_proc s - Suc j) 0"
        using Cons.prems by (simp add: x2_def sel_save_def m list_update_append m_def [symmetric])
      have h2: "se_hist x2 = h" and n2: "se_num x2 = Suc j"
        using Cons.prems by (simp_all add: x2_def sel_save_def)
      have "Suc j \<le> num_proc s" "length (acc @ [t]) = Suc j" "length (bs @ [b]) = Suc j"
        using True Cons.prems by simp_all
      from Cons.IH [OF r' this(1,2) tp2 bits2 this(3) n2] show ?thesis
        by (simp add: sel [unfolded m] x2 h2 m m_def [symmetric] Let_def del: select.simps)
    qed
  qed
qed

definition chosen :: "kstate \<Rightarrow> (nat \<times> UW) list" where
  "chosen s = select s (num_proc s) [] (rdy s)"

lemma rqt_scan_chosen:
  assumes wf: "rq_wf s"
  shows "\<exists>x'. rqt_scan s (make_dds_mask s) 0 (rqt_init s) = Some x' \<and>
     se_tcb x' = pad (num_proc s) (map fst (chosen s)) \<and>
     se_bit x' = map snd (chosen s) @ replicate (num_proc s - length (chosen s)) 0 \<and>
     se_num x' = length (chosen s) \<and> length (chosen s) \<le> num_proc s"
proof -
  have np: "num_proc s \<le> MAX_PROC" "rq_top s = pad (num_proc s) (rdy s) @ replicate (MAX_PROC - num_proc s) None"
    using wf by (auto simp: rq_wf_def rq_tops_def)
  then have tp: "se_tcb (rqt_init s) = map Some [] @ pad (num_proc s - 0) (rdy s)"
    by (intro nth_equalityI) (auto simp: rqt_init_def nth_append)
  have "se_hist (rqt_init s) = []" by (simp add: rqt_init_def)
  with rqt_scan_select [OF wf, of "[]" "rdy s" 0 "[]" "rqt_init s" "[]"] tp
  show ?thesis by (auto simp: rqt_init_def chosen_def Let_def pad_def)
qed

lemma select_mem: "(t, b) \<in> set (select s k hist ts) \<Longrightarrow> t \<in> set ts"
  by (induction s k hist ts rule: select.induct) (auto simp: Let_def split: option.splits if_splits)

lemma select_subset: "fst ` set (select s k hist ts) \<subseteq> set ts"
  using select_mem by fastforce

lemma select_distinct: "distinct ts \<Longrightarrow> distinct (map fst (select s k hist ts))"
proof (induction s k hist ts rule: select.induct)
  case (3 s k hist t ts)
  have "t \<notin> fst ` set (select s k h ts)" for h
    using select_subset [of s k h ts] 3(5) by auto
  with 3 show ?case by (auto simp: Let_def split: option.splits)
qed simp_all

lemma select_core_bits: "(t, b) \<in> set (select s k hist ts) \<Longrightarrow> b = core_bits s (make_dds_mask s) t \<and> b \<noteq> 0"
  by (induction s k hist ts rule: select.induct) (auto simp: Let_def split: option.splits if_splits)


section \<open>The assignment loops place chosen tasks, each at most once\<close>

definition nn :: "'a option list \<Rightarrow> 'a option multiset" where
  "nn xs = filter_mset (\<lambda>x. x \<noteq> None) (mset xs)"

lemma nn_set: "i < length xs \<Longrightarrow> xs ! i = None \<Longrightarrow> nn (xs[i := Some t]) = add_mset (Some t) (nn xs)"
  by (simp add: nn_def mset_update)

lemma nn_clear: "i < length xs \<Longrightarrow> xs ! i = Some t \<Longrightarrow> nn xs = add_mset (Some t) (nn (xs[i := None]))"
proof -
  assume i: "i < length xs" "xs ! i = Some t"
  then have "Some t \<in># mset xs" by (metis nth_mem in_multiset_in_set)
  then obtain M where "mset xs = add_mset (Some t) M" by (metis insert_DiffM)
  moreover from this have "mset (xs[i := None]) = add_mset None M" using i by (simp add: mset_update)
  ultimately show ?thesis by (simp add: nn_def)
qed

lemma nn_replicate [simp]: "nn (replicate n None) = {#}"
  by (simp add: nn_def)

lemma nn_nth: "i < length xs \<Longrightarrow> xs ! i = Some t \<Longrightarrow> Some t \<in># nn xs"
  by (auto simp: nn_def in_set_conv_nth)

lemma nn_distinct:
  assumes "\<forall>x. count (nn xs) x \<le> 1" and "i < length xs" "j < length xs" "xs ! i = Some t" "xs ! j = Some t"
  shows "i = j"
proof (rule ccontr)
  assume "i \<noteq> j"
  have "nn xs = add_mset (Some t) (nn (xs[i := None]))" using assms by (intro nn_clear)
  moreover have "Some t \<in># nn (xs[i := None])" using assms \<open>i \<noteq> j\<close> by (intro nn_nth [of j]) auto
  ultimately have "count (nn xs) (Some t) \<ge> 2" by (simp add: Suc_le_eq)
  with assms(1) show False by (metis Suc_1 not_less_eq_eq)
qed

lemma place_Some:
  "place np ok t sch = Some sch' \<Longrightarrow> \<exists>i<np. ok i \<and> sch ! i = None \<and> sch' = sch[i := Some t]"
  by (auto simp: place_def find_Some_iff)

lemma place_None: "place np ok t sch = None \<longleftrightarrow> (\<forall>i<np. ok i \<longrightarrow> sch ! i \<noteq> None)"
  by (auto simp: place_def find_None_iff)

lemma sca_step_nn:
  assumes "length (fst st) = np" and "length (snd st) = np" and "j < np"
  shows "nn (fst (sca_step np ok skip st j)) + nn (snd (sca_step np ok skip st j)) = nn (fst st) + nn (snd st)"
    and "length (fst (sca_step np ok skip st j)) = np" and "length (snd (sca_step np ok skip st j)) = np"
  using assms
  by (auto simp: sca_step_def nn_set nn_clear [of j] split: option.split prod.split dest!: place_Some)

lemma sca_fold_nn:
  "length (fst st) = np \<Longrightarrow> length (snd st) = np \<Longrightarrow> \<forall>j\<in>set js. j < np \<Longrightarrow>
   nn (fst (foldl (sca_step np ok skip) st js)) + nn (snd (foldl (sca_step np ok skip) st js)) = nn (fst st) + nn (snd st)
   \<and> length (fst (foldl (sca_step np ok skip) st js)) = np \<and> length (snd (foldl (sca_step np ok skip) st js)) = np"
  by (induction js arbitrary: st) (simp_all add: sca_step_nn)

lemma single_core_assign_nn:
  assumes "length tops = num_proc s"
  shows "nn (single_core_assign s tops) \<subseteq># nn tops" and "length (single_core_assign s tops) = num_proc s"
proof -
  let ?np = "num_proc s"
  define st1 where "st1 = foldl (sca_step ?np (\<lambda>t i. assprc (tcbs s t) AND push_bit i 1 \<noteq> 0)
      (\<lambda>t. tskatr (tcbs s t) AND TA_ASSPRC = 0 \<or> assprc (tcbs s t) = ALL_CORE_BIT s))
      (replicate ?np None, tops) (takeWhile (\<lambda>j. tops ! j \<noteq> None) [0..<?np])"
  define st2 where "st2 = foldl (sca_step ?np (\<lambda>t i. ctxtsk s i = Some t) (\<lambda>t. False)) st1 [0..<?np]"
  define st3 where "st3 = foldl (sca_step ?np (\<lambda>t i. \<not> dispatch_disabled s i \<ge> DDS_DISABLE) (\<lambda>t. False)) st2 [0..<?np]"
  have "\<forall>j\<in>set (takeWhile (\<lambda>j. tops ! j \<noteq> None) [0..<?np]). j < ?np" by (auto dest: set_takeWhileD)
  then have "nn (fst st1) + nn (snd st1) = nn (fst (replicate ?np None :: nat option list, tops)) + nn (snd (replicate ?np None :: nat option list, tops))
      \<and> length (fst st1) = ?np \<and> length (snd st1) = ?np"
    unfolding st1_def by (intro sca_fold_nn) (use assms in auto)
  moreover from this have "nn (fst st2) + nn (snd st2) = nn (fst st1) + nn (snd st1)
      \<and> length (fst st2) = ?np \<and> length (snd st2) = ?np"
    unfolding st2_def by (intro sca_fold_nn) auto
  moreover from this have "nn (fst st3) + nn (snd st3) = nn (fst st2) + nn (snd st2)
      \<and> length (fst st3) = ?np \<and> length (snd st3) = ?np"
    unfolding st3_def by (intro sca_fold_nn) auto
  ultimately have "nn (fst st3) + nn (snd st3) = nn tops" "length (fst st3) = ?np" by simp_all
  moreover have "single_core_assign s tops = fst st3"
    by (simp add: single_core_assign_def Let_def st1_def st2_def st3_def)
  ultimately show "nn (single_core_assign s tops) \<subseteq># nn tops" "length (single_core_assign s tops) = ?np"
    by (metis mset_subset_eq_add_left)+
qed

text \<open>
  Invariant of the \<open>RE_ASSIGN\<close> loop: \<open>I\<close> is the set of the chosen tasks already placed; their
  processor sets have been cleared, and the remaining ones have only shrunk.
\<close>

definition mca_inv :: "kstate \<Rightarrow> nat option list \<Rightarrow> UW list \<Rightarrow> mcast \<Rightarrow> nat set \<Rightarrow> bool" where
  "mca_inv s top_tcb bits x I \<longleftrightarrow>
     length (mc_sch x) = num_proc s \<and> length (mc_bit x) = num_proc s \<and> I \<subseteq> {..<num_proc s} \<and>
     nn (mc_sch x) = image_mset ((!) top_tcb) (mset_set I) \<and>
     (\<forall>i\<in>I. mc_bit x ! i = 0) \<and>
     (\<forall>i<num_proc s. \<forall>p. mc_bit x ! i AND push_bit p 1 \<noteq> 0 \<longrightarrow> bits ! i AND push_bit p 1 \<noteq> 0) \<and>
     (\<forall>p<num_proc s. \<forall>t. mc_sch x ! p = Some t \<longrightarrow>
        (\<exists>i\<in>I. top_tcb ! i = Some t \<and> bits ! i AND push_bit p 1 \<noteq> 0))"

lemma foldl_upd:
  "length (foldl (\<lambda>b k. b[k := f (b ! k)]) bits [0..<n]) = length bits"
  "i < length bits \<Longrightarrow> foldl (\<lambda>b k. b[k := f (b ! k)]) bits [0..<n] ! i = (if i < n then f (bits ! i) else bits ! i)"
  by (induction n) (auto simp: nth_list_update less_Suc_eq)

lemma length_drop_bit_no [simp]: "length (drop_bit_no np bits no) = length bits"
  unfolding drop_bit_no_def by (rule foldl_upd)

lemma drop_bit_no_nth:
  "i < length bits \<Longrightarrow> drop_bit_no np bits no ! i = (if i < np then bits ! i AND NOT (push_bit no 1) else bits ! i)"
  unfolding drop_bit_no_def by (rule foldl_upd)

lemma drop_bit_no_sub:
  "i < length bits \<Longrightarrow> drop_bit_no np bits no ! i AND b \<noteq> 0 \<Longrightarrow> bits ! i AND b \<noteq> 0"
proof -
  assume i: "i < length bits" "drop_bit_no np bits no ! i AND b \<noteq> 0"
  have "(x AND y) AND b = (x AND b) AND y" for x y :: UW
    by (simp only: and.assoc and.commute and.left_commute)
  then have "x AND b = 0 \<Longrightarrow> (x AND y) AND b = 0" for x y :: UW by simp
  with i show ?thesis by (auto simp only: drop_bit_no_nth split: if_splits)
qed

lemma drop_bit_no_zero: "i < length bits \<Longrightarrow> bits ! i = 0 \<Longrightarrow> drop_bit_no np bits no ! i = 0"
  by (simp add: drop_bit_no_nth)

lemma try_assign_inv:
  assumes inv: "mca_inv s top_tcb bits x I" and y: "try_assign (num_proc s) top_tcb x (idx, pr, c) = Some y"
    and b: "idx < num_proc s" "pr < num_proc s" and nz: "\<And>i. i < num_proc s \<Longrightarrow> bits ! i \<noteq> 0 \<Longrightarrow> top_tcb ! i \<noteq> None"
  shows "mca_inv s top_tcb bits y (insert idx I) \<and> idx \<notin> I"
proof -
  have g: "mc_bit x ! idx AND push_bit pr 1 \<noteq> 0" "mc_sch x ! pr = None"
    and y': "mc_sch y = (mc_sch x)[pr := top_tcb ! idx]"
      "mc_bit y = (drop_bit_no (num_proc s) (mc_bit x) pr)[idx := 0]"
    using y by (auto simp: try_assign_def Let_def split: if_splits)
  have gb: "bits ! idx AND push_bit pr 1 \<noteq> 0" using inv g(1) b by (simp add: mca_inv_def)
  then have "top_tcb ! idx \<noteq> None" using nz [of idx] b(1) by fastforce
  then obtain t where t: "top_tcb ! idx = Some t" by blast
  have fin: "finite I" using inv by (auto simp: mca_inv_def intro: finite_subset)
  have nin: "idx \<notin> I" using inv g(1) by (auto simp: mca_inv_def)
  have "nn (mc_sch y) = image_mset ((!) top_tcb) (mset_set (insert idx I))"
    using inv b g(2) t nin fin by (simp add: y' nn_set mca_inv_def)
  moreover have "\<forall>i\<in>insert idx I. mc_bit y ! i = 0"
    using inv b by (auto simp: y' mca_inv_def nth_list_update drop_bit_no_zero)
  moreover have "mc_bit y ! i AND push_bit p 1 \<noteq> 0 \<Longrightarrow> bits ! i AND push_bit p 1 \<noteq> 0" if "i < num_proc s" for i p
    using inv that drop_bit_no_sub [of i "mc_bit x" "num_proc s" pr "push_bit p 1"]
    by (cases "i = idx") (auto simp: y' mca_inv_def)
  moreover have "\<exists>i\<in>insert idx I. top_tcb ! i = Some u \<and> bits ! i AND push_bit p 1 \<noteq> 0"
    if "p < num_proc s" "mc_sch y ! p = Some u" for p u
    using inv that gb t by (cases "p = pr") (auto simp: y' mca_inv_def nth_list_update)
  ultimately show ?thesis
    using inv b nin by (auto simp: mca_inv_def y')
qed

lemma mca_attempts_range: "(i, p, c) \<in> set (mca_attempts s tops x) \<Longrightarrow> i < num_proc s \<and> p < num_proc s"
  by (auto simp: mca_attempts_def mca_pass_def split: if_splits)

lemma first_assign_Some:
  "first_assign np tops x as = Some y \<Longrightarrow> \<exists>a\<in>set as. try_assign np tops x a = Some y"
  by (induction as) (auto split: option.splits)

lemma mca_loop_inv:
  assumes "mca_inv s top_tcb bits x I" and "\<And>i. i < num_proc s \<Longrightarrow> bits ! i \<noteq> 0 \<Longrightarrow> top_tcb ! i \<noteq> None"
  shows "\<exists>I'. mca_inv s top_tcb bits (mca_loop s top_tcb n x) I'"
  using assms(1)
proof (induction n arbitrary: x I)
  case (Suc n)
  show ?case
  proof (cases "first_assign (num_proc s) top_tcb x (mca_attempts s top_tcb x)")
    case (Some y)
    then obtain i p c where a: "(i, p, c) \<in> set (mca_attempts s top_tcb x)"
        "try_assign (num_proc s) top_tcb x (i, p, c) = Some y"
      using first_assign_Some by (metis prod_cases3)
    from try_assign_inv [OF Suc.prems a(2) _ _ assms(2)] mca_attempts_range [OF a(1)] Suc.IH Some
    show ?thesis by auto
  qed (use Suc.prems in auto)
qed auto


section \<open>The schedule is a set of distinct ready tasks\<close>

definition sched_ok :: "kstate \<Rightarrow> nat option list \<Rightarrow> bool" where
  "sched_ok s sch \<longleftrightarrow> length sch = num_proc s \<and>
     (\<forall>i<num_proc s. \<forall>t. sch ! i = Some t \<longrightarrow> t \<in> set (map fst (chosen s))) \<and>
     (\<forall>i<num_proc s. \<forall>j<num_proc s. \<forall>t. sch ! i = Some t \<and> sch ! j = Some t \<longrightarrow> i = j)"

lemma count_nn_pad: "distinct xs \<Longrightarrow> count (nn (pad n xs)) x \<le> 1"
proof -
  assume "distinct xs"
  then have "distinct (map Some (take n xs))" by (simp add: distinct_map)
  moreover have "nn (pad n xs) = mset (map Some (take n xs))"
    by (auto simp: nn_def pad_def take_map filter_mset_eq_conv filter_mset_image_mset)
  ultimately show ?thesis by (metis distinct_count_atmost_1 le_refl zero_le)
qed

lemma sched_okI:
  assumes "length sch = num_proc s" and "distinct (map fst (chosen s))"
    and "nn sch \<subseteq># nn (pad (num_proc s) (map fst (chosen s)))"
  shows "sched_ok s sch"
proof -
  let ?p = "pad (num_proc s) (map fst (chosen s))"
  have c: "count (nn sch) x \<le> 1" for x
    using mset_subset_eq_count [OF assms(3), of x] count_nn_pad [OF assms(2), of "num_proc s" x] by linarith
  have "t \<in> set (map fst (chosen s))" if "i < num_proc s" "sch ! i = Some t" for i t
  proof -
    have "Some t \<in># nn ?p" using nn_nth [of i sch t] that assms(1,3) mset_subset_eqD by metis
    then have "Some t \<in> set ?p" by (simp add: nn_def)
    then show ?thesis unfolding in_set_conv_nth by (auto simp: nth_pad split: if_splits simp flip: set_map)
  qed
  with assms(1) c nn_distinct [of sch] show ?thesis by (auto simp: sched_ok_def)
qed

lemma chosen_distinct: "rq_wf s \<Longrightarrow> distinct (map fst (chosen s))"
  unfolding chosen_def by (intro select_distinct rdy_distinct)

lemma chosen_rdy: "set (map fst (chosen s)) \<subseteq> set (rdy s)"
  using select_subset by (auto simp: chosen_def)

lemma image_mset_pad:
  assumes "I \<subseteq> {..<n}" and "\<And>i. i \<in> I \<Longrightarrow> xs ! i \<noteq> None" and "length xs = n"
  shows "image_mset ((!) xs) (mset_set I) \<subseteq># nn xs"
proof -
  have "mset xs = image_mset ((!) xs) (mset_set {..<n})"
    using assms(3) by (metis atLeast0LessThan map_nth mset_map mset_upt)
  then have "nn xs = image_mset ((!) xs) (filter_mset (\<lambda>i. xs ! i \<noteq> None) (mset_set {..<n}))"
    by (simp add: nn_def filter_mset_image_mset)
  moreover have "mset_set I \<subseteq># filter_mset (\<lambda>i. xs ! i \<noteq> None) (mset_set {..<n})"
    using assms by (auto simp: filter_mset_mset_set intro!: subset_imp_msubset_mset_set)
  ultimately show ?thesis by (simp add: image_mset_subseteq_mono)
qed

lemma mca_inv_init:
  "length bits = num_proc s \<Longrightarrow>
   mca_inv s tops bits \<lparr>mc_sch = replicate (num_proc s) None, mc_bit = bits, mc_cnt = cnt\<rparr> {}"
  by (simp add: mca_inv_def)

lemma multi_core_assign_inv:
  assumes "length bits = num_proc s" and "\<And>i. i < num_proc s \<Longrightarrow> bits ! i \<noteq> 0 \<Longrightarrow> top_tcb ! i \<noteq> None"
  shows "\<exists>x I. multi_core_assign s top_tcb bits cnt n = mc_sch x \<and> mca_inv s top_tcb bits x I"
  using mca_loop_inv [OF mca_inv_init [OF assms(1), of top_tcb cnt] assms(2), of n]
  by (auto simp: multi_core_assign_def)

text \<open>\<open>ready_queue_top\<close> always returns, and its schedule consists of distinct chosen tasks.\<close>

lemma ready_queue_top_ok:
  assumes wf: "rq_wf s"
  shows "\<exists>sch. ready_queue_top s = Some (sch, s\<lparr>rq_chg := False\<rparr>) \<and> sched_ok s sch"
proof -
  let ?np = "num_proc s" and ?c = "chosen s"
  from rqt_scan_chosen [OF wf] obtain x where x: "rqt_scan s (make_dds_mask s) 0 (rqt_init s) = Some x"
    "se_tcb x = pad ?np (map fst ?c)" "se_bit x = map snd ?c @ replicate (?np - length ?c) 0"
    "length ?c \<le> ?np" by blast
  note d = chosen_distinct [OF wf]
  have "sched_ok s (single_core_assign s (se_tcb x))"
    using single_core_assign_nn [of "se_tcb x" s] d by (intro sched_okI) (simp_all add: x(2))
  moreover have "sched_ok s (multi_core_assign s (se_tcb x) (se_bit x) (se_cnt x) (se_num x))"
  proof -
    have top: "se_tcb x ! i \<noteq> None" if "i < ?np" "se_bit x ! i \<noteq> 0" for i
      using that x(3,4) by (auto simp: x(2) nth_pad nth_append split: if_splits)
    have len: "length (se_bit x) = ?np" using x(3,4) by simp
    obtain y I where y: "multi_core_assign s (se_tcb x) (se_bit x) (se_cnt x) (se_num x) = mc_sch y"
        "mca_inv s (se_tcb x) (se_bit x) y I"
      using multi_core_assign_inv [of "se_bit x" s "se_tcb x" "se_cnt x" "se_num x"] top len by blast
    have nn: "nn (mc_sch y) = image_mset ((!) (se_tcb x)) (mset_set I)" "I \<subseteq> {..<?np}" "length (mc_sch y) = ?np"
      using y(2) by (auto simp: mca_inv_def)
    have "se_tcb x ! i \<noteq> None" if "i \<in> I" for i
    proof -
      have "finite I" using nn(2) by (rule finite_subset) simp
      then have "se_tcb x ! i \<in># nn (mc_sch y)" using nn(1) that by simp
      then show ?thesis by (auto simp: nn_def)
    qed
    then have "nn (mc_sch y) \<subseteq># nn (se_tcb x)"
      unfolding nn(1) using nn(2) by (intro image_mset_pad) (simp_all add: x(2))
    with d nn show ?thesis unfolding y(1) by (intro sched_okI) (simp_all add: x(2))
  qed
  ultimately show ?thesis by (auto simp: ready_queue_top_def x(1))
qed

section \<open>Scheduling keeps the kernel state well formed\<close>

definition ready_head :: "qhead \<Rightarrow> bool" where
  "ready_head q \<longleftrightarrow> (\<exists>p<NUM_PRI. q = QReady p)"

text \<open>A task in the ready queue is in no other queue, and only ready tasks are scheduled.\<close>

definition rdy_excl :: "kstate \<Rightarrow> bool" where
  "rdy_excl s \<longleftrightarrow> (\<forall>t\<in>set (rdy s). \<forall>q. \<not> ready_head q \<longrightarrow> t \<notin> set (ques s q))"

definition sched_in :: "kstate \<Rightarrow> bool" where
  "sched_in s \<longleftrightarrow> (\<forall>i<num_proc s. \<forall>t. schedtsk s i = Some t \<longrightarrow> t \<in> set (rdy s))"

definition sched_wf :: "kstate \<Rightarrow> bool" where
  "sched_wf s \<longleftrightarrow> rq_wf s \<and> rdy_excl s \<and> sched_in s"

text \<open>
  What a scheduling step may change: \<open>schedtsk\<close>, the order of the ready queue and the time
  slice counters.
\<close>

definition sched_frame :: "kstate \<Rightarrow> kstate \<Rightarrow> bool" where
  "sched_frame s s' \<longleftrightarrow>
     s'\<lparr>schedtsk := schedtsk s, rq_chg := rq_chg s, rq_top := rq_top s, ques := ques s, tcbs := tcbs s\<rparr> = s \<and>
     (\<forall>q. \<not> ready_head q \<longrightarrow> ques s' q = ques s q) \<and> set (rdy s') = set (rdy s) \<and>
     (\<forall>t. (tcbs s' t)\<lparr>slicecnt := 0\<rparr> = (tcbs s t)\<lparr>slicecnt := 0\<rparr>)"

lemma sched_frame_refl [simp]: "sched_frame s s"
  by (simp add: sched_frame_def)

lemma sched_frame_trans:
  assumes a: "sched_frame s s1" and b: "sched_frame s1 s2"
  shows "sched_frame s s2"
proof -
  let ?u = "\<lambda>y x. y\<lparr>schedtsk := schedtsk x, rq_chg := rq_chg x, rq_top := rq_top x, ques := ques x, tcbs := tcbs x\<rparr>"
  have "?u s2 s = ?u (?u s2 s1) s" by simp
  also have "\<dots> = s" using a b by (simp only: sched_frame_def)
  finally show ?thesis using a b by (simp add: sched_frame_def)
qed

lemma sched_frame_sel:
  assumes "sched_frame s s'"
  shows
    "cyc_tmeb s' = cyc_tmeb s" "alm_tmeb s' = alm_tmeb s"
    "num_proc s' = num_proc s" "ctxtsk s' = ctxtsk s" "dispatch_disabled s' = dispatch_disabled s"
    "timer_period s' = timer_period s" "timer_queue s' = timer_queue s" "semtab s' = semtab s"
    "flgtab s' = flgtab s" "mbxtab s' = mbxtab s" "mtxtab s' = mtxtab s"
    "domtab s' = domtab s" "hashcb s' = hashcb s" "umem s' = umem s" "ko s' = ko s"
    "msgs s' = msgs s" "max_tskid s' = max_tskid s" "current_time s' = current_time s"
    "real_time_ofs s' = real_time_ofs s" "rq_klocktsk s' = rq_klocktsk s" "rq_bitmap s' = rq_bitmap s"
    "task_indep s' = task_indep s" "oaplimit s' = oaplimit s" "cpu_di s' = cpu_di s"
proof -
  have e: "s'\<lparr>schedtsk := schedtsk s, rq_chg := rq_chg s, rq_top := rq_top s, ques := ques s, tcbs := tcbs s\<rparr> = s"
    using assms by (simp add: sched_frame_def)
  show
    "cyc_tmeb s' = cyc_tmeb s" "alm_tmeb s' = alm_tmeb s"
    "num_proc s' = num_proc s" "ctxtsk s' = ctxtsk s" "dispatch_disabled s' = dispatch_disabled s"
    "timer_period s' = timer_period s" "timer_queue s' = timer_queue s" "semtab s' = semtab s"
    "flgtab s' = flgtab s" "mbxtab s' = mbxtab s" "mtxtab s' = mtxtab s"
    "domtab s' = domtab s" "hashcb s' = hashcb s" "umem s' = umem s" "ko s' = ko s"
    "msgs s' = msgs s" "max_tskid s' = max_tskid s" "current_time s' = current_time s"
    "real_time_ofs s' = real_time_ofs s" "rq_klocktsk s' = rq_klocktsk s" "rq_bitmap s' = rq_bitmap s"
    "task_indep s' = task_indep s" "oaplimit s' = oaplimit s" "cpu_di s' = cpu_di s"
    using arg_cong [OF e, of cyc_tmeb] arg_cong [OF e, of alm_tmeb]
      arg_cong [OF e, of num_proc]
      arg_cong [OF e, of ctxtsk]
      arg_cong [OF e, of dispatch_disabled]
      arg_cong [OF e, of timer_period]
      arg_cong [OF e, of timer_queue]
      arg_cong [OF e, of semtab]
      arg_cong [OF e, of flgtab]
      arg_cong [OF e, of mbxtab]
      arg_cong [OF e, of mtxtab]
      arg_cong [OF e, of domtab]
      arg_cong [OF e, of hashcb]
      arg_cong [OF e, of umem]
      arg_cong [OF e, of ko]
      arg_cong [OF e, of msgs]
      arg_cong [OF e, of max_tskid]
      arg_cong [OF e, of current_time]
      arg_cong [OF e, of real_time_ofs]
      arg_cong [OF e, of rq_klocktsk]
      arg_cong [OF e, of rq_bitmap]
      arg_cong [OF e, of task_indep]
      arg_cong [OF e, of oaplimit]
      arg_cong [OF e, of cpu_di]
    by simp_all
qed

lemma sched_frame_tcb:
  assumes "sched_frame s s'"
  shows
    "priority (tcbs s' t) = priority (tcbs s t)" "state (tcbs s' t) = state (tcbs s t)" "klockwait (tcbs s' t) = klockwait (tcbs s t)"
    "klocked (tcbs s' t) = klocked (tcbs s t)" "wid (tcbs s' t) = wid (tcbs s t)" "wspec (tcbs s' t) = wspec (tcbs s t)"
    "winfo (tcbs s' t) = winfo (tcbs s t)" "wercd (tcbs s' t) = wercd (tcbs s t)" "wtmeb (tcbs s' t) = wtmeb (tcbs s t)"
    "mtxlist (tcbs s' t) = mtxlist (tcbs s t)" "bpriority (tcbs s' t) = bpriority (tcbs s t)" "ipriority (tcbs s' t) = ipriority (tcbs s t)"
    "wupcnt (tcbs s' t) = wupcnt (tcbs s t)" "suscnt (tcbs s' t) = suscnt (tcbs s t)" "nodiswai (tcbs s' t) = nodiswai (tcbs s t)"
    "waitmask (tcbs s' t) = waitmask (tcbs s t)" "tskatr (tcbs s' t) = tskatr (tcbs s t)" "assprc (tcbs s' t) = assprc (tcbs s t)"
    "svclocked (tcbs s' t) = svclocked (tcbs s t)" "slicetime (tcbs s' t) = slicetime (tcbs s t)" "tskid (tcbs s' t) = tskid (tcbs s t)"
proof -
  have e: "(tcbs s' t)\<lparr>slicecnt := 0\<rparr> = (tcbs s t)\<lparr>slicecnt := 0\<rparr>"
    using assms by (simp add: sched_frame_def)
  show
    "priority (tcbs s' t) = priority (tcbs s t)" "state (tcbs s' t) = state (tcbs s t)" "klockwait (tcbs s' t) = klockwait (tcbs s t)"
    "klocked (tcbs s' t) = klocked (tcbs s t)" "wid (tcbs s' t) = wid (tcbs s t)" "wspec (tcbs s' t) = wspec (tcbs s t)"
    "winfo (tcbs s' t) = winfo (tcbs s t)" "wercd (tcbs s' t) = wercd (tcbs s t)" "wtmeb (tcbs s' t) = wtmeb (tcbs s t)"
    "mtxlist (tcbs s' t) = mtxlist (tcbs s t)" "bpriority (tcbs s' t) = bpriority (tcbs s t)" "ipriority (tcbs s' t) = ipriority (tcbs s t)"
    "wupcnt (tcbs s' t) = wupcnt (tcbs s t)" "suscnt (tcbs s' t) = suscnt (tcbs s t)" "nodiswai (tcbs s' t) = nodiswai (tcbs s t)"
    "waitmask (tcbs s' t) = waitmask (tcbs s t)" "tskatr (tcbs s' t) = tskatr (tcbs s t)" "assprc (tcbs s' t) = assprc (tcbs s t)"
    "svclocked (tcbs s' t) = svclocked (tcbs s t)" "slicetime (tcbs s' t) = slicetime (tcbs s t)" "tskid (tcbs s' t) = tskid (tcbs s t)"
    using arg_cong [OF e, of priority]
      arg_cong [OF e, of state]
      arg_cong [OF e, of klockwait]
      arg_cong [OF e, of klocked]
      arg_cong [OF e, of wid]
      arg_cong [OF e, of wspec]
      arg_cong [OF e, of winfo]
      arg_cong [OF e, of wercd]
      arg_cong [OF e, of wtmeb]
      arg_cong [OF e, of mtxlist]
      arg_cong [OF e, of bpriority]
      arg_cong [OF e, of ipriority]
      arg_cong [OF e, of wupcnt]
      arg_cong [OF e, of suscnt]
      arg_cong [OF e, of nodiswai]
      arg_cong [OF e, of waitmask]
      arg_cong [OF e, of tskatr]
      arg_cong [OF e, of assprc]
      arg_cong [OF e, of svclocked]
      arg_cong [OF e, of slicetime]
      arg_cong [OF e, of tskid]
    by simp_all
qed

lemma sched_frame_ques: "sched_frame s s' \<Longrightarrow> \<not> ready_head q \<Longrightarrow> ques s' q = ques s q"
  by (simp add: sched_frame_def)

lemma sched_frame_rdy: "sched_frame s s' \<Longrightarrow> set (rdy s') = set (rdy s)"
  by (simp add: sched_frame_def)


lemma set_to_back: "t \<in> set (rdy s) \<Longrightarrow> distinct (rdy s) \<Longrightarrow> set (to_back s t) = set (rdy s)"
  by (auto simp: to_back_def)

lemma requeue_frame:
  assumes "rq_wf s" and "rdy_excl s" and "t \<in> set (rdy s)" and "tsk_next s t \<noteq> None"
  shows "sched_frame s (requeue t s)" and "schedtsk (requeue t s) = schedtsk s"
proof -
  note r = requeue_wf [OF assms(1,3,4)]
  have "set (rdy (requeue t s)) = set (rdy s)"
    using r(2) set_to_back [OF assms(3) rdy_distinct [OF assms(1)]] by simp
  moreover have p: "pri s t < NUM_PRI" using assms(1,3) by (simp add: rdy_mem rq_wf_def)
  moreover have "ques (requeue t s) q = ques s q" if "\<not> ready_head q" for q
    using assms(2,3) p that
    by (auto simp: requeue_def Let_def QueInsert_tail_def set_que_def QueRemove_tsk_def rdy_excl_def ready_head_def)
  ultimately show "sched_frame s (requeue t s)"
    using r(3) by (simp add: sched_frame_def)
      (simp add: requeue_def Let_def QueInsert_tail_def set_que_def QueRemove_tsk_def)
  show "schedtsk (requeue t s) = schedtsk s"
    by (simp add: requeue_def Let_def QueInsert_tail_def set_que_def QueRemove_tsk_def)
qed

lemma sched_frame_excl: "sched_frame s s' \<Longrightarrow> rdy_excl s \<Longrightarrow> rdy_excl s'"
  by (simp add: rdy_excl_def sched_frame_def)

lemma sched_frame_in: "sched_frame s s' \<Longrightarrow> schedtsk s' = schedtsk s \<Longrightarrow> sched_in s \<Longrightarrow> sched_in s'"
  by (simp add: sched_in_def sched_frame_rdy sched_frame_sel)

lemma sched_frame_slice [simp]:
  "sched_frame s (upd_tcb t (\<lambda>c. c\<lparr>slicecnt := v\<rparr>) s)"
  "sched_frame s (upd_tcb t (\<lambda>c. c\<lparr>slicecnt := f c\<rparr>) s)"
  "sched_frame s (s\<lparr>schedtsk := x\<rparr>)" "sched_frame s (s\<lparr>rq_chg := b\<rparr>)"
  by (simp_all add: sched_frame_def) (simp_all add: upd_tcb_def rdy_def)

lemma rq_wf_schedtsk [simp]: "rq_wf (s\<lparr>schedtsk := x\<rparr>) \<longleftrightarrow> rq_wf s" "rdy (s\<lparr>schedtsk := x\<rparr>) = rdy s"
  by (auto simp: rq_wf_def rq_prios_def rq_bits_def rq_tops_def rdy_def)

lemma rq_wf_slice_upd [simp]:
  "rq_wf (upd_tcb t (\<lambda>c. c\<lparr>slicecnt := f c\<rparr>) s) \<longleftrightarrow> rq_wf s"
  "rdy (upd_tcb t (\<lambda>c. c\<lparr>slicecnt := f c\<rparr>) s) = rdy s"
  by (auto simp: rq_wf_def rq_prios_def rq_bits_def rq_tops_def rdy_def)

lemma move_last_frame:
  assumes "rq_wf s" and "rdy_excl s" and "t \<in> set (rdy s)"
  shows "rq_wf (snd (ready_queue_move_last t s))" and "sched_frame s (snd (ready_queue_move_last t s))"
    and "schedtsk (snd (ready_queue_move_last t s)) = schedtsk s"
proof -
  show "rq_wf (snd (ready_queue_move_last t s))" using ready_queue_move_last_wf [OF assms(1,3)] by simp
  show "sched_frame s (snd (ready_queue_move_last t s))"
    using requeue_frame(1) [OF assms] sched_frame_trans [OF _ sched_frame_slice(1)]
    by (auto simp: ready_queue_move_last_eq)
  show "schedtsk (snd (ready_queue_move_last t s)) = schedtsk s"
    using requeue_frame(2) [OF assms] by (auto simp: ready_queue_move_last_eq)
qed

lemma time_slice_frame:
  assumes "rq_wf s" and "rdy_excl s" and "\<And>t. x = Some t \<Longrightarrow> t \<in> set (rdy s)"
  shows "rq_wf (snd (time_slice_schedule x s))" and "sched_frame s (snd (time_slice_schedule x s))"
    and "schedtsk (snd (time_slice_schedule x s)) = schedtsk s"
proof -
  have "rq_wf (snd (time_slice_schedule x s)) \<and> sched_frame s (snd (time_slice_schedule x s))
      \<and> schedtsk (snd (time_slice_schedule x s)) = schedtsk s"
  proof (cases x)
    case (Some t)
    define s1 where "s1 = upd_tcb t (\<lambda>c. c\<lparr>slicecnt := slicecnt c + timer_period s\<rparr>) s"
    have s1: "rq_wf s1" "sched_frame s s1" "t \<in> set (rdy s1)" "schedtsk s1 = schedtsk s"
      using assms Some by (simp_all add: s1_def)
    moreover have "rdy_excl s1" using s1(2) assms(2) by (rule sched_frame_excl)
    ultimately have "rq_wf (snd (ready_queue_move_last t s1)) \<and> sched_frame s (snd (ready_queue_move_last t s1))
       \<and> schedtsk (snd (ready_queue_move_last t s1)) = schedtsk s"
      using move_last_frame [of s1 t] sched_frame_trans by auto
    with s1 Some assms(1) show ?thesis
      by (simp add: time_slice_schedule_def Let_def s1_def [symmetric])
  qed (use assms(1) in \<open>simp add: time_slice_schedule_def\<close>)
  then show "rq_wf (snd (time_slice_schedule x s))" "sched_frame s (snd (time_slice_schedule x s))"
    "schedtsk (snd (time_slice_schedule x s)) = schedtsk s" by simp_all
qed

lemma reschedule_step_frame:
  assumes "rq_wf s" and "rdy_excl s" and "\<And>t. schedtsk s i = Some t \<Longrightarrow> t \<in> set (rdy s)"
  shows "rq_wf (reschedule_step tp s i)" and "sched_frame s (reschedule_step tp s i)"
    and "schedtsk (reschedule_step tp s i) = (schedtsk s)(i := tp ! i)"
proof -
  define s1 where "s1 = (if schedtsk s i = ctxtsk s i \<and> \<not> is_element s (ctxtsk s i) tp
      then snd (time_slice_schedule (schedtsk s i) s) else s)"
  have s1: "rq_wf s1" "sched_frame s s1" "schedtsk s1 = schedtsk s"
    using time_slice_frame [OF assms(1,2), of "schedtsk s i"] assms(1,3)
    by (metis s1_def sched_frame_refl)+
  have e: "reschedule_step tp s i = s1\<lparr>schedtsk := (schedtsk s1)(i := tp ! i)\<rparr>"
    by (simp add: reschedule_step_def s1_def Let_def)
  from s1 sched_frame_trans [OF s1(2) sched_frame_slice(3)]
  show "rq_wf (reschedule_step tp s i)" "sched_frame s (reschedule_step tp s i)"
    "schedtsk (reschedule_step tp s i) = (schedtsk s)(i := tp ! i)"
    by (simp_all add: e)
qed

lemma reschedule_fold:
  assumes "rq_wf s" and "rdy_excl s" and "\<And>i t. i \<in> set js \<Longrightarrow> schedtsk s i = Some t \<Longrightarrow> t \<in> set (rdy s)"
    and "distinct js"
  shows "rq_wf (foldl (reschedule_step tp) s js) \<and> sched_frame s (foldl (reschedule_step tp) s js) \<and>
    (\<forall>i. schedtsk (foldl (reschedule_step tp) s js) i = (if i \<in> set js then tp ! i else schedtsk s i))"
  using assms
proof (induction js arbitrary: s)
  case (Cons j js)
  let ?s = "reschedule_step tp s j"
  have "\<And>t. schedtsk s j = Some t \<Longrightarrow> t \<in> set (rdy s)" using Cons.prems(3) [of j] by simp
  note st = reschedule_step_frame [OF Cons.prems(1,2) this, of j tp]
  moreover have "rdy_excl ?s" using st(2) Cons.prems(2) by (rule sched_frame_excl)
  moreover have "t \<in> set (rdy ?s)" if "i \<in> set js" "schedtsk ?s i = Some t" for i t
    using that Cons.prems st sched_frame_rdy [OF st(2)] by (auto split: if_splits)
  moreover have "distinct js" using Cons.prems(4) by simp
  ultimately have "rq_wf (foldl (reschedule_step tp) ?s js) \<and> sched_frame ?s (foldl (reschedule_step tp) ?s js) \<and>
    (\<forall>i. schedtsk (foldl (reschedule_step tp) ?s js) i = (if i \<in> set js then tp ! i else schedtsk ?s i))"
    by (intro Cons.IH) auto
  with st Cons.prems(4) sched_frame_trans [OF st(2)] show ?case by auto
qed simp

text \<open>
  \<open>reschedule\<close> and \<open>update_schedtsk\<close> return, keep the state well formed and change nothing but
  the schedule, the order within the ready queue and the slice counters.
\<close>

lemma rdy_excl_sel [simp]: "rdy_excl (s\<lparr>rq_chg := b\<rparr>) \<longleftrightarrow> rdy_excl s" "rdy_excl (s\<lparr>schedtsk := x\<rparr>) \<longleftrightarrow> rdy_excl s"
  by (simp_all add: rdy_excl_def)

lemma reschedule_wf:
  assumes wf: "sched_wf s"
  shows "\<exists>s'. reschedule s = Some s' \<and> sched_wf s' \<and> sched_frame s s' \<and> (\<exists>sch. sched_ok s sch \<and> (\<forall>i<num_proc s. schedtsk s' i = sch ! i))"
proof -
  have w: "rq_wf s" "rdy_excl s" "sched_in s" using wf by (simp_all add: sched_wf_def)
  from ready_queue_top_ok [OF w(1)] obtain sch where t: "ready_queue_top s = Some (sch, s\<lparr>rq_chg := False\<rparr>)"
    and ok: "sched_ok s sch" by blast
  let ?s = "s\<lparr>rq_chg := False\<rparr>"
  define s2 where "s2 = (if is_change_schedule ?s (schedtsk ?s) sch
      then foldl (reschedule_step sch) ?s [0..<num_proc ?s] else ?s)"
  have r: "reschedule s = Some s2" by (simp add: reschedule_def t s2_def)
  have f: "rq_wf (foldl (reschedule_step sch) ?s [0..<num_proc s]) \<and>
      sched_frame ?s (foldl (reschedule_step sch) ?s [0..<num_proc s]) \<and>
      (\<forall>i. schedtsk (foldl (reschedule_step sch) ?s [0..<num_proc s]) i =
          (if i \<in> set [0..<num_proc s] then sch ! i else schedtsk ?s i))"
    by (rule reschedule_fold) (use w in \<open>auto simp: sched_in_def\<close>)
  have s2: "rq_wf s2" "sched_frame s s2" "\<forall>i<num_proc s. schedtsk s2 i = sch ! i"
    using f w sched_frame_trans [OF sched_frame_slice(4)] by (auto simp: s2_def is_change_schedule_def)
  have "t \<in> set (rdy s)" if "i < num_proc s" "sch ! i = Some t" for i t
    using ok that chosen_rdy [of s] unfolding sched_ok_def by blast
  then have "sched_in s2"
    using s2 sched_frame_rdy [OF s2(2)] sched_frame_sel [OF s2(2)] by (simp add: sched_in_def)
  with s2 sched_frame_excl [OF s2(2) w(2)] r ok show ?thesis by (auto simp: sched_wf_def)
qed

lemma update_schedtsk_wf:
  assumes "sched_wf s"
  shows "\<exists>s'. update_schedtsk s = Some s' \<and> sched_wf s' \<and> sched_frame s s'"
  using reschedule_wf [OF assms] assms by (auto simp: update_schedtsk_def)


section \<open>Making tasks ready and non-ready\<close>

lemma ready_queue_insert_frame [simp]:
    "cyc_tmeb (ready_queue_insert t s) = cyc_tmeb s" "alm_tmeb (ready_queue_insert t s) = alm_tmeb s"
    "num_proc (ready_queue_insert t s) = num_proc s" "ctxtsk (ready_queue_insert t s) = ctxtsk s" "schedtsk (ready_queue_insert t s) = schedtsk s"
    "dispatch_disabled (ready_queue_insert t s) = dispatch_disabled s" "timer_period (ready_queue_insert t s) = timer_period s" "timer_queue (ready_queue_insert t s) = timer_queue s"
    "semtab (ready_queue_insert t s) = semtab s" "flgtab (ready_queue_insert t s) = flgtab s" "mbxtab (ready_queue_insert t s) = mbxtab s"
    "mtxtab (ready_queue_insert t s) = mtxtab s" "domtab (ready_queue_insert t s) = domtab s" "hashcb (ready_queue_insert t s) = hashcb s"
    "umem (ready_queue_insert t s) = umem s" "ko (ready_queue_insert t s) = ko s" "msgs (ready_queue_insert t s) = msgs s" "max_tskid (ready_queue_insert t s) = max_tskid s"
    "current_time (ready_queue_insert t s) = current_time s" "real_time_ofs (ready_queue_insert t s) = real_time_ofs s" "task_indep (ready_queue_insert t s) = task_indep s"
    "oaplimit (ready_queue_insert t s) = oaplimit s" "cpu_di (ready_queue_insert t s) = cpu_di s"
    "q \<noteq> QReady (pri s t) \<Longrightarrow> ques (ready_queue_insert t s) q = ques s q"
    "tcbs (ready_queue_insert t s) = (tcbs s)(t := (tcbs s t)\<lparr>slicecnt := 0\<rparr>)"
  by (auto simp: ready_queue_insert_def Let_def QueInsert_tail_def set_que_def ready_head_def)

lemma ready_queue_delete_frame [simp]:
    "cyc_tmeb (ready_queue_delete t s) = cyc_tmeb s" "alm_tmeb (ready_queue_delete t s) = alm_tmeb s"
    "num_proc (ready_queue_delete t s) = num_proc s" "ctxtsk (ready_queue_delete t s) = ctxtsk s" "schedtsk (ready_queue_delete t s) = schedtsk s"
    "dispatch_disabled (ready_queue_delete t s) = dispatch_disabled s" "timer_period (ready_queue_delete t s) = timer_period s" "timer_queue (ready_queue_delete t s) = timer_queue s"
    "semtab (ready_queue_delete t s) = semtab s" "flgtab (ready_queue_delete t s) = flgtab s" "mbxtab (ready_queue_delete t s) = mbxtab s"
    "mtxtab (ready_queue_delete t s) = mtxtab s" "domtab (ready_queue_delete t s) = domtab s" "hashcb (ready_queue_delete t s) = hashcb s"
    "umem (ready_queue_delete t s) = umem s" "ko (ready_queue_delete t s) = ko s" "msgs (ready_queue_delete t s) = msgs s" "max_tskid (ready_queue_delete t s) = max_tskid s"
    "current_time (ready_queue_delete t s) = current_time s" "real_time_ofs (ready_queue_delete t s) = real_time_ofs s" "task_indep (ready_queue_delete t s) = task_indep s"
    "oaplimit (ready_queue_delete t s) = oaplimit s" "cpu_di (ready_queue_delete t s) = cpu_di s"
    "ques (ready_queue_delete t s) q = remove1 t (ques s q)"
    "tcbs (ready_queue_delete t s) = (tcbs s)(t := (tcbs s t)\<lparr>klockwait := False\<rparr>)"
  by (auto simp: ready_queue_delete_def rq_unlink_def Let_def QueRemove_tsk_def)

lemma make_ready_frame [simp]:
    "cyc_tmeb (make_ready t s) = cyc_tmeb s" "alm_tmeb (make_ready t s) = alm_tmeb s"
    "num_proc (make_ready t s) = num_proc s" "ctxtsk (make_ready t s) = ctxtsk s" "schedtsk (make_ready t s) = schedtsk s"
    "dispatch_disabled (make_ready t s) = dispatch_disabled s" "timer_period (make_ready t s) = timer_period s" "timer_queue (make_ready t s) = timer_queue s"
    "semtab (make_ready t s) = semtab s" "flgtab (make_ready t s) = flgtab s" "mbxtab (make_ready t s) = mbxtab s"
    "mtxtab (make_ready t s) = mtxtab s" "domtab (make_ready t s) = domtab s" "hashcb (make_ready t s) = hashcb s"
    "umem (make_ready t s) = umem s" "ko (make_ready t s) = ko s" "msgs (make_ready t s) = msgs s" "max_tskid (make_ready t s) = max_tskid s"
    "current_time (make_ready t s) = current_time s" "real_time_ofs (make_ready t s) = real_time_ofs s" "task_indep (make_ready t s) = task_indep s"
    "oaplimit (make_ready t s) = oaplimit s" "cpu_di (make_ready t s) = cpu_di s"
    "q \<noteq> QReady (pri s t) \<Longrightarrow> ques (make_ready t s) q = ques s q"
    "tcbs (make_ready t s) = (tcbs s)(t := (tcbs s t)\<lparr>state := TS_READY, slicecnt := 0\<rparr>)"
  by (auto simp: make_ready_def)

lemma rq_wf_tcb_upd:
  assumes "\<And>c. priority (f c) = priority c"
  shows "rq_wf (upd_tcb t f s) \<longleftrightarrow> rq_wf s" and "rdy (upd_tcb t f s) = rdy s"
  using assms by (auto simp: rq_wf_def rq_prios_def rq_bits_def rq_tops_def rdy_def)

lemma make_ready_wf:
  assumes wf: "sched_wf s" and t: "t \<notin> set (rdy s)" "pri s t < NUM_PRI"
    and q: "\<And>q. \<not> ready_head q \<Longrightarrow> t \<notin> set (ques s q)"
  shows "sched_wf (make_ready t s)" and "rdy (make_ready t s) = insert_before (\<lambda>x. pri s x > pri s t) t (rdy s)"
proof -
  define s1 where "s1 = upd_tcb t (\<lambda>c. c\<lparr>state := TS_READY\<rparr>) s"
  have s1: "rq_wf s1" "rdy s1 = rdy s" "\<And>x. pri s1 x = pri s x"
    using wf rq_wf_tcb_upd [of "\<lambda>c. c\<lparr>state := TS_READY\<rparr>" t s] by (simp_all add: s1_def sched_wf_def)
  have m: "make_ready t s = ready_queue_insert t s1" by (simp add: make_ready_def s1_def)
  have r: "rq_wf (make_ready t s)" "rdy (make_ready t s) = insert_before (\<lambda>x. pri s1 x > pri s1 t) t (rdy s1)"
    using ready_queue_insert_wf [OF s1(1), of t] t s1 by (simp_all add: m)
  show rr: "rdy (make_ready t s) = insert_before (\<lambda>x. pri s x > pri s t) t (rdy s)"
    using r(2) s1 by simp
  have "q' \<noteq> QReady (pri s t)" if "\<not> ready_head q'" for q' using that t(2) by (auto simp: ready_head_def)
  with r(1) rr wf q show "sched_wf (make_ready t s)"
    by (auto simp: sched_wf_def sched_in_def rdy_excl_def)
qed

lemma make_non_ready_wf:
  assumes wf: "sched_wf s" and t: "t \<in> set (rdy s)" and k: "\<not> klockwait (tcbs s t)"
  shows "\<exists>s'. make_non_ready t s = Some s' \<and> sched_wf s' \<and> set (rdy s') = set (rdy s) - {t} \<and>
     sched_frame (ready_queue_delete t s) s' \<and> tcbs s' = tcbs s"
proof -
  define s1 where "s1 = ready_queue_delete t s"
  have w: "rq_wf s" "rdy_excl s" "sched_in s" using wf by (simp_all add: sched_wf_def)
  have s1: "rq_wf s1" "rdy s1 = remove1 t (rdy s)"
    using ready_queue_delete_wf [OF w(1) k t] by (simp_all add: s1_def)
  have tc: "tcbs s1 = tcbs s" using k by (simp add: s1_def fun_eq_iff)
  have set: "set (rdy s1) = set (rdy s) - {t}" using s1(2) rdy_distinct [OF w(1)] by simp
  have ex: "rdy_excl s1" using w(2) set by (auto simp: rdy_excl_def s1_def ready_head_def dest: notin_set_remove1)
  show ?thesis
  proof (cases "is_schedtsk s1 t")
    case False
    then have "sched_in s1"
      using w(3) set by (auto simp: sched_in_def is_schedtsk_def s1_def)
    with False s1 ex set tc show ?thesis
      by (simp add: make_non_ready_def s1_def [symmetric] sched_wf_def)
  next
    case True
    from ready_queue_top_ok [OF s1(1)] obtain sch where
      top: "ready_queue_top s1 = Some (sch, s1\<lparr>rq_chg := False\<rparr>)" and ok: "sched_ok s1 sch" by blast
    define s2 where "s2 = s1\<lparr>rq_chg := False, schedtsk := copy_sched (num_proc s1) sch (schedtsk s1)\<rparr>"
    have m: "make_non_ready t s = Some s2"
      using True by (simp add: make_non_ready_def s1_def [symmetric] top s2_def)
    have f: "sched_frame s1 s2" unfolding s2_def
      by (rule sched_frame_trans [OF sched_frame_slice(4) sched_frame_slice(3)])
    have "x \<in> set (rdy s1)" if "i < num_proc s1" "sch ! i = Some x" for i x
      using ok that chosen_rdy [of s1] unfolding sched_ok_def by blast
    then have "sched_in s2" by (auto simp: sched_in_def s2_def copy_sched_def)
    with s1 ex m f set tc show ?thesis
      by (simp add: sched_wf_def s1_def [symmetric]) (simp add: s2_def)
  qed
qed

lemma ready_queue_rotate_frame:
  assumes "rq_wf s" and "rdy_excl s" and "p < NUM_PRI"
  shows "sched_frame s (ready_queue_rotate p s)" and "schedtsk (ready_queue_rotate p s) = schedtsk s"
proof -
  have "sched_frame s (ready_queue_rotate p s) \<and> schedtsk (ready_queue_rotate p s) = schedtsk s"
  proof (cases "ques s (QReady p)" rule: list.exhaust [case_names Nil Cons])
    case (Cons t ys)
    note t = rdy_first_of_pri [OF assms(1,3) Cons]
    show ?thesis
    proof (cases ys)
      case (Cons y zs)
      with \<open>ques s (QReady p) = t # ys\<close> have q: "ques s (QReady p) = t # y # zs" by simp
      with t(1) have nx: "tsk_next s t \<noteq> None" by (simp add: tsk_next_def)
      note f = requeue_frame [OF assms(1,2) t(2) nx]
      have "sched_frame s ((requeue t s)\<lparr>rq_chg := True\<rparr>)"
        using f(1) sched_frame_slice(4) by (rule sched_frame_trans)
      then have "sched_frame s (ready_queue_rotate p s)"
        unfolding ready_queue_rotate_requeue [OF q t(1)] using sched_frame_slice(1) by (rule sched_frame_trans)
      with f(2) show ?thesis by (simp add: ready_queue_rotate_requeue [OF q t(1)])
    qed (use Cons in \<open>simp add: ready_queue_rotate_def\<close>)
  qed (simp add: ready_queue_rotate_def)
  then show "sched_frame s (ready_queue_rotate p s)" "schedtsk (ready_queue_rotate p s) = schedtsk s" by simp_all
qed

lemma rotate_ready_queue_wf:
  assumes "sched_wf s" and "p < NUM_PRI"
  shows "sched_wf (rotate_ready_queue p s)" and "sched_frame s (rotate_ready_queue p s)"
proof -
  have w: "rq_wf s" "rdy_excl s" "sched_in s" using assms(1) by (simp_all add: sched_wf_def)
  note f = ready_queue_rotate_frame [OF w(1,2) assms(2)]
  show "sched_frame s (rotate_ready_queue p s)" using f(1) by (simp add: rotate_ready_queue_def)
  from f w ready_queue_rotate_wf(1) [OF w(1) assms(2)] show "sched_wf (rotate_ready_queue p s)"
    by (simp add: sched_wf_def rotate_ready_queue_def sched_frame_excl [OF f(1)] sched_frame_in)
qed

lemma rotate_ready_queue_ctx_wf:
  assumes wf: "sched_wf s" and c: "ctxtsk s prid = Some t" "t \<in> set (rdy s)"
  shows "\<exists>s'. rotate_ready_queue_ctx prid s = Some s' \<and> sched_wf s' \<and> sched_frame s s'"
proof -
  have w: "rq_wf s" "rdy_excl s" "sched_in s" using wf by (simp_all add: sched_wf_def)
  note m = move_last_frame [OF w(1,2) c(2)]
  have wf1: "sched_wf (snd (ready_queue_move_last t s))"
    using m w by (simp add: sched_wf_def sched_frame_excl [OF m(2)] sched_frame_in)
  from reschedule_wf [OF this] sched_frame_trans [OF m(2)] c wf1 m(2) show ?thesis
    by (auto simp: rotate_ready_queue_ctx_def split: prod.split)
qed

end
