(* ===== verification/Assignment.thy ===== *)
theory Assignment
  imports Scheduler
begin

text \<open>
  What the schedule of \<open>ready_queue_top\<close> looks like when no task is bound to a processor and
  dispatching is enabled everywhere: the \<open>num_proc\<close> first tasks of the ready queue run, and a task
  that runs already and is chosen again stays on its processor.
\<close>

section \<open>Without processor bindings\<close>

definition uniform :: "kstate \<Rightarrow> bool" where
  "uniform s \<longleftrightarrow> 0 < num_proc s \<and> num_proc s \<le> MAX_PROC \<and> (\<forall>i<num_proc s. dispatch_disabled s i < DDS_DISABLE) \<and>
     (\<forall>t\<in>set (rdy s). tskatr (tcbs s t) AND TA_ASSPRC = 0 \<and> assprc (tcbs s t) = ALL_CORE_BIT s)"

definition ctx_distinct :: "kstate \<Rightarrow> bool" where
  "ctx_distinct s \<longleftrightarrow> (\<forall>i<num_proc s. \<forall>j<num_proc s. \<forall>t. ctxtsk s i = Some t \<and> ctxtsk s j = Some t \<longrightarrow> i = j)"

lemma num_proc_cases:
  assumes "0 < (n :: nat)" and "n \<le> MAX_PROC"
  obtains "n = 1" | "n = 2" | "n = 3" | "n = 4"
  using assms by (auto simp: MAX_PROC_def le_Suc_eq numeral_eq_Suc)

lemma all_core_facts:
  assumes "0 < n" and "n \<le> MAX_PROC"
  shows "all_core_bit n \<noteq> 0" and "cnt_bits2 n (all_core_bit n) = of_nat n"
  using assms by (cases rule: num_proc_cases; simp; code_simp)+

lemma foldl_id: "(\<And>j. j \<in> set js \<Longrightarrow> f st j = st) \<Longrightarrow> foldl f st js = st"
  by (induction js) auto

lemma uniform_core_bits:
  assumes u: "uniform s" and t: "t \<in> set (rdy s)"
  shows "core_bits s (make_dds_mask s) t = ALL_CORE_BIT s"
proof -
  have d: "\<not> dispatch_disabled s i \<ge> DDS_DISABLE" if "i < num_proc s" for i
    using u that by (auto simp: uniform_def not_le)
  have "make_dds_mask s = NOT 0"
    unfolding make_dds_mask_def by (subst foldl_id) (use d in auto)
  moreover have "List.find (\<lambda>i. ctxtsk s i = Some t \<and> dispatch_disabled s i \<ge> DDS_DISABLE) [0..<num_proc s] = None"
    using d by (auto simp: find_None_iff)
  ultimately show ?thesis using u t by (auto simp: core_bits_def uniform_def)
qed

lemma select_uniform:
  assumes "\<And>t. t \<in> set ts \<Longrightarrow> core_bits s (make_dds_mask s) t = ALL_CORE_BIT s" and "ALL_CORE_BIT s \<noteq> 0"
  shows "map fst (select s k hist ts) = take k ts"
  using assms by (induction s k hist ts rule: select.induct) auto

lemma uniform_chosen:
  assumes "uniform s"
  shows "map fst (chosen s) = take (num_proc s) (rdy s)"
  unfolding chosen_def
  by (rule select_uniform) (use assms uniform_core_bits all_core_facts(1) in \<open>auto simp: uniform_def\<close>)

section \<open>The three passes\<close>

lemma sca_step_mono:
  "fst st ! i = Some t \<Longrightarrow> fst (sca_step np ok skip st j) ! i = Some t"
proof -
  assume i: "fst st ! i = Some t"
  have "sch ! i = Some t \<Longrightarrow> k < np \<Longrightarrow> sch ! k = None \<Longrightarrow> sch[k := x] ! i = Some t" for sch :: "nat option list" and k x
    by (cases "k = i") auto
  with i show ?thesis by (auto simp: sca_step_def split: prod.splits option.splits dest!: place_Some)
qed

lemma sca_fold_mono:
  "fst st ! i = Some t \<Longrightarrow> fst (foldl (sca_step np ok skip) st js) ! i = Some t"
  by (induction js arbitrary: st) (simp_all add: sca_step_mono)

lemma sca_step_tops: "k \<noteq> j \<Longrightarrow> snd (sca_step np ok skip st j) ! k = snd st ! k"
  by (auto simp: sca_step_def split: prod.splits option.splits)

lemma sca_fold_tops: "k \<notin> set js \<Longrightarrow> snd (foldl (sca_step np ok skip) st js) ! k = snd st ! k"
  by (induction js arbitrary: st) (simp_all add: sca_step_tops)

lemma find_unique:
  "i < n \<Longrightarrow> P i \<Longrightarrow> (\<And>j. j < n \<Longrightarrow> P j \<Longrightarrow> j = i) \<Longrightarrow> List.find P [0..<n] = Some i"
proof -
  assume i: "i < n" "P i" and u: "\<And>j. j < n \<Longrightarrow> P j \<Longrightarrow> j = i"
  have "List.find P [0..<n] \<noteq> None" using i by (auto simp: find_None_iff)
  then obtain j where j: "List.find P [0..<n] = Some j" by blast
  then have "j < n" "P j" by (auto simp: find_Some_iff)
  with u j show ?thesis by simp
qed

text \<open>The second pass leaves every chosen task that runs on its processor.\<close>

lemma stay_fold:
  assumes c: "ctx_distinct s" and np: "np = num_proc s" and l: "length (fst st) = np" "length (snd st) = np" and m: "m \<le> np"
    and sub: "\<And>i t. i < np \<Longrightarrow> fst st ! i = Some t \<Longrightarrow> ctxtsk s i = Some t"
  shows "(\<forall>i<np. \<forall>t. fst (foldl (sca_step np (\<lambda>t i. ctxtsk s i = Some t) (\<lambda>t. False)) st [0..<m]) ! i = Some t \<longrightarrow> ctxtsk s i = Some t) \<and>
    (\<forall>i<np. \<forall>k<m. \<forall>t. ctxtsk s i = Some t \<and> snd st ! k = Some t \<longrightarrow>
      fst (foldl (sca_step np (\<lambda>t i. ctxtsk s i = Some t) (\<lambda>t. False)) st [0..<m]) ! i = Some t)"
  using m
proof (induction m)
  case 0
  then show ?case using sub by simp
next
  case (Suc m)
  let ?f = "sca_step np (\<lambda>t i. ctxtsk s i = Some t) (\<lambda>t. False)"
  let ?s = "foldl ?f st [0..<m]"
  have len: "length (fst ?s) = np" using sca_fold_nn [of st np "[0..<m]"] l Suc.prems by simp
  have a: "\<And>i t. i < np \<Longrightarrow> fst ?s ! i = Some t \<Longrightarrow> ctxtsk s i = Some t"
    and b: "\<And>i k t. i < np \<Longrightarrow> k < m \<Longrightarrow> ctxtsk s i = Some t \<Longrightarrow> snd st ! k = Some t \<Longrightarrow> fst ?s ! i = Some t"
    using Suc.IH [OF Suc_leD [OF Suc.prems]] by blast+
  have tm: "snd ?s ! m = snd st ! m" by (rule sca_fold_tops) simp
  have "ctxtsk s i = Some t" if i: "i < np" "fst (?f ?s m) ! i = Some t" for i t
  proof (cases "fst (?f ?s m) = fst ?s")
    case True
    with a i show ?thesis by simp
  next
    case False
    then obtain x k where "k < np" "ctxtsk s k = Some x" "fst (?f ?s m) = (fst ?s)[k := Some x]"
      by (auto simp: sca_step_def split: prod.splits option.splits dest!: place_Some)
    then show ?thesis using a i len by (cases "k = i") auto
  qed
  moreover have "fst (?f ?s m) ! i = Some t" if i: "i < np" "ctxtsk s i = Some t" "snd st ! m = Some t" for i t
  proof (cases "fst ?s ! i")
    case None
    have "List.find (\<lambda>j. ctxtsk s j = Some t \<and> fst ?s ! j = None) [0..<np] = Some i"
      using c i None by (intro find_unique) (auto simp: ctx_distinct_def np)
    then have p: "place np (\<lambda>j. ctxtsk s j = Some t) t (fst ?s) = Some ((fst ?s)[i := Some t])" by (simp add: place_def)
    show ?thesis using p i len tm by (simp add: sca_step_def split_beta)
  next
    case (Some x)
    then have "x = t" using a i by auto
    with Some show ?thesis by (simp add: sca_step_mono)
  qed
  moreover have "fst (?f ?s m) ! i = Some t" if "i < np" "k < m" "ctxtsk s i = Some t" "snd st ! k = Some t" for i k t
    by (rule sca_step_mono) (rule b [OF that])
  moreover have st: "foldl ?f st [0..<Suc m] = ?f ?s m" by simp
  ultimately show ?case unfolding st less_Suc_eq by blast
qed

text \<open>The third pass places whatever is left.\<close>

lemma size_nn_full: "(\<And>i. i < length xs \<Longrightarrow> xs ! i \<noteq> None) \<Longrightarrow> size (nn xs) = length xs"
proof -
  assume f: "\<And>i. i < length xs \<Longrightarrow> xs ! i \<noteq> None"
  then have "\<forall>x\<in>#mset xs. x \<noteq> None" by (auto simp: in_set_conv_nth)
  then have "filter_mset (\<lambda>x. x \<noteq> None) (mset xs) = mset xs" by (auto simp: filter_mset_eq_conv)
  then show ?thesis by (simp add: nn_def)
qed

lemma fill_fold:
  assumes l: "length (fst st) = np" "length (snd st) = np" and room: "size (nn (fst st) + nn (snd st)) \<le> np" and m: "m \<le> np"
  shows "\<forall>k<m. snd (foldl (sca_step np (\<lambda>t i. True) (\<lambda>t. False)) st [0..<m]) ! k = None"
  using m
proof (induction m)
  case (Suc m)
  let ?f = "sca_step np (\<lambda>t i. True) (\<lambda>t. False)"
  let ?s = "foldl ?f st [0..<m]"
  have n: "nn (fst ?s) + nn (snd ?s) = nn (fst st) + nn (snd st)" and ls: "length (fst ?s) = np" "length (snd ?s) = np"
    using sca_fold_nn [of st np "[0..<m]"] l Suc.prems by simp_all
  have "snd (?f ?s m) ! m = None"
  proof (cases "snd ?s ! m")
    case None
    then show ?thesis by (simp add: sca_step_def split_beta)
  next
    case (Some t)
    have "place np (\<lambda>i. True) t (fst ?s) \<noteq> None"
    proof
      assume "place np (\<lambda>i. True) t (fst ?s) = None"
      then have "size (nn (fst ?s)) = np" using ls by (simp add: place_None size_nn_full)
      moreover have "Some t \<in># nn (snd ?s)" using Some ls Suc.prems by (intro nn_nth [of m]) auto
      then have "0 < size (nn (snd ?s))" by (metis empty_iff nonempty_has_size set_mset_empty)
      ultimately have "np < size (nn (fst ?s) + nn (snd ?s))" by simp
      with room n show False by simp
    qed
    with Some ls Suc.prems show ?thesis
      by (auto simp: sca_step_def split_beta split: option.splits)
  qed
  moreover have "snd (?f ?s m) ! k = None" if "k < m" for k
    using Suc that by (simp add: sca_step_tops)
  ultimately show ?case by (auto simp: less_Suc_eq)
qed simp

text \<open>Together: the first tasks of the ready queue are placed, those already running where they run.\<close>

lemma single_core_uniform:
  assumes u: "uniform s" and c: "ctx_distinct s" and tops: "tops = pad (num_proc s) ts" and ts: "length ts \<le> num_proc s"
    "set ts \<subseteq> set (rdy s)"
  shows "nn (single_core_assign s tops) = nn tops" and "length (single_core_assign s tops) = num_proc s"
    and "i < num_proc s \<Longrightarrow> ctxtsk s i = Some t \<Longrightarrow> t \<in> set ts \<Longrightarrow> single_core_assign s tops ! i = Some t"
proof -
  let ?np = "num_proc s"
  let ?f2 = "sca_step ?np (\<lambda>t i. ctxtsk s i = Some t) (\<lambda>t. False)" and ?f3 = "sca_step ?np (\<lambda>t i. True) (\<lambda>t. False)"
  define st1 where "st1 = (replicate ?np (None :: nat option), tops)"
  define st2 where "st2 = foldl ?f2 st1 [0..<?np]"
  define st3 where "st3 = foldl ?f3 st2 [0..<?np]"
  have skip: "sca_step ?np ok (\<lambda>t. tskatr (tcbs s t) AND TA_ASSPRC = 0 \<or> assprc (tcbs s t) = ALL_CORE_BIT s) st1 j = st1"
    if "j \<in> set (takeWhile (\<lambda>j. tops ! j \<noteq> None) [0..<?np])" for ok j
  proof -
    have "j < ?np" "tops ! j \<noteq> None" using set_takeWhileD [OF that] by auto
    then have "\<exists>t. tops ! j = Some t \<and> t \<in> set (rdy s)" using ts(2) by (auto simp: tops nth_pad split: if_splits)
    then show ?thesis using u by (auto simp: sca_step_def st1_def uniform_def)
  qed
  have enabled: "foldl (sca_step ?np (\<lambda>t i. \<not> dispatch_disabled s i \<ge> DDS_DISABLE) (\<lambda>t. False)) st2 [0..<?np] = st3"
  proof -
    have "sca_step ?np (\<lambda>t i. \<not> dispatch_disabled s i \<ge> DDS_DISABLE) (\<lambda>t. False) = ?f3"
    proof -
      have "List.find (\<lambda>i. \<not> dispatch_disabled s i \<ge> DDS_DISABLE \<and> sch ! i = None) [0..<?np] =
          List.find (\<lambda>i. True \<and> sch ! i = None) [0..<?np]" for sch :: "nat option list"
        using u by (intro find_cong) (auto simp: uniform_def not_le)
      then show ?thesis by (intro ext) (simp only: sca_step_def place_def)
    qed
    then show ?thesis by (simp add: st3_def)
  qed
  have a: "single_core_assign s tops = fst st3"
    unfolding single_core_assign_def Let_def st1_def [symmetric]
    by (subst foldl_id, erule skip) (simp only: st2_def [symmetric] enabled)
  have n1: "nn (fst st1) + nn (snd st1) = nn tops" "length (fst st1) = ?np" "length (snd st1) = ?np"
    by (simp_all add: st1_def tops)
  have n2: "nn (fst st2) + nn (snd st2) = nn tops" "length (fst st2) = ?np" "length (snd st2) = ?np"
    using sca_fold_nn [of st1 ?np "[0..<?np]"] n1 by (simp_all add: st2_def)
  have n3: "nn (fst st3) + nn (snd st3) = nn tops" "length (fst st3) = ?np" "length (snd st3) = ?np"
    using sca_fold_nn [of st2 ?np "[0..<?np]"] n2 by (simp_all add: st3_def)
  have "size (nn tops) \<le> ?np" using size_filter_mset_lesseq [of _ "mset tops"] by (simp add: nn_def tops)
  then have "\<forall>k<?np. snd st3 ! k = None"
    using fill_fold [OF n2(2,3), of ?np] n2(1) by (simp add: st3_def)
  then have "snd st3 = replicate ?np None" using n3(3) by (intro nth_equalityI) auto
  then show "nn (single_core_assign s tops) = nn tops" "length (single_core_assign s tops) = ?np"
    using n3 by (simp_all add: a)
  assume i: "i < ?np" "ctxtsk s i = Some t" "t \<in> set ts"
  then obtain k where "k < length ts" "ts ! k = t" by (auto simp: in_set_conv_nth)
  then have k: "k < ?np" "snd st1 ! k = Some t" using ts(1) by (simp_all add: st1_def tops nth_pad)
  have "fst st2 ! i = Some t"
  proof -
    have "\<And>j t. j < ?np \<Longrightarrow> fst st1 ! j = Some t \<Longrightarrow> ctxtsk s j = Some t" by (simp add: st1_def)
    from stay_fold [OF c refl n1(2,3) le_refl this, THEN conjunct2] i k show ?thesis
      unfolding st2_def by blast
  qed
  then show "single_core_assign s tops ! i = Some t"
    unfolding a st3_def by (rule sca_fold_mono)
qed

lemma uniform_no_multi:
  assumes u: "uniform s" and n: "se_num x \<le> num_proc s" and x: "\<And>j. j < se_num x \<Longrightarrow> \<exists>t. se_tcb x ! j = Some t \<and> t \<in> set (rdy s)"
  shows "\<not> has_multi s x"
proof -
  have "cnt_bits2 (num_proc s) (assprc (tcbs s (the (se_tcb x ! j)))) = of_nat (num_proc s)" if "j < se_num x" for j
    using x [OF that] u all_core_facts(2) by (auto simp: uniform_def)
  then show ?thesis by (simp add: has_multi_def)
qed

lemma set_nn: "length xs = n \<Longrightarrow> Some t \<in># nn xs \<longleftrightarrow> (\<exists>i<n. xs ! i = Some t)"
  by (auto simp: nn_def in_set_conv_nth)

lemma pad_mem:
  assumes "length ts \<le> n"
  shows "(\<exists>i<n. pad n ts ! i = Some t) \<longleftrightarrow> t \<in> set ts"
proof
  assume "\<exists>i<n. pad n ts ! i = Some t"
  then show "t \<in> set ts" by (auto simp: nth_pad split: if_splits)
next
  assume "t \<in> set ts"
  then obtain i where "i < length ts" "ts ! i = t" by (auto simp: in_set_conv_nth)
  with assms show "\<exists>i<n. pad n ts ! i = Some t" by (intro exI [of _ i]) (simp add: nth_pad)
qed

lemma ready_queue_top_uniform:
  assumes wf: "rq_wf s" and u: "uniform s" and c: "ctx_distinct s"
  shows "\<exists>sch. ready_queue_top s = Some (sch, s\<lparr>rq_chg := False\<rparr>) \<and> length sch = num_proc s \<and>
     {t. \<exists>i<num_proc s. sch ! i = Some t} = set (take (num_proc s) (rdy s)) \<and>
     (\<forall>i<num_proc s. \<forall>t. ctxtsk s i = Some t \<and> t \<in> set (take (num_proc s) (rdy s)) \<longrightarrow> sch ! i = Some t)"
proof -
  let ?np = "num_proc s" and ?ts = "take (num_proc s) (rdy s)"
  from rqt_scan_chosen [OF wf] obtain x where x: "rqt_scan s (make_dds_mask s) 0 (rqt_init s) = Some x"
    "se_tcb x = pad ?np ?ts" "se_num x = length ?ts"
    using uniform_chosen [OF u] by (metis length_map)
  have "\<not> has_multi s x"
    by (rule uniform_no_multi [OF u]) (auto simp: x nth_pad dest!: in_set_takeD intro!: nth_mem)
  then have r: "ready_queue_top s = Some (single_core_assign s (pad ?np ?ts), s\<lparr>rq_chg := False\<rparr>)"
    by (simp add: ready_queue_top_def x)
  have l: "length ?ts \<le> ?np" "set ?ts \<subseteq> set (rdy s)" by (auto dest: in_set_takeD)
  note a = single_core_uniform [OF u c refl l]
  have "{t. \<exists>i<?np. single_core_assign s (pad ?np ?ts) ! i = Some t} = {t. Some t \<in># nn (pad ?np ?ts)}"
    using set_nn [OF a(2)] a(1) by auto
  also have "\<dots> = set ?ts"
    unfolding set_nn [OF length_pad] by (simp only: pad_mem [OF l(1)] Collect_mem_eq)
  finally show ?thesis using r a(2,3) by blast
qed

end
