(* ===== verification/Hall.thy ===== *)
theory Hall
  imports Main
begin

text \<open>
  When can every one of a set of tasks have a processor of its own? By the theorem of Hall, exactly if every set of them has
  together at least as many processors to choose from as it has tasks.
\<close>

section \<open>Assignments without conflict\<close>

definition assignable :: "('t \<Rightarrow> 'p set) \<Rightarrow> 't set \<Rightarrow> bool" where
  "assignable A T \<longleftrightarrow> (\<exists>f. inj_on f T \<and> (\<forall>t\<in>T. f t \<in> A t))"

definition enough :: "('t \<Rightarrow> 'p set) \<Rightarrow> 't set \<Rightarrow> bool" where
  "enough A T \<longleftrightarrow> (\<forall>U\<subseteq>T. card U \<le> card (\<Union> (A ` U)))"

lemma enoughD: "enough A T \<Longrightarrow> U \<subseteq> T \<Longrightarrow> card U \<le> card (\<Union> (A ` U))"
  by (simp add: enough_def)

lemma enough_subset: "enough A T \<Longrightarrow> U \<subseteq> T \<Longrightarrow> enough A U"
  by (auto simp: enough_def)

lemma assignable_enough:
  assumes "finite T" and "\<And>t. t \<in> T \<Longrightarrow> finite (A t)" and "assignable A T"
  shows "enough A T"
  unfolding enough_def
proof (intro allI impI)
  fix U assume U: "U \<subseteq> T"
  from assms(3) obtain f where f: "inj_on f T" "\<And>t. t \<in> T \<Longrightarrow> f t \<in> A t" by (auto simp: assignable_def)
  have "finite U" using U assms(1) by (rule finite_subset)
  then have "finite (\<Union> (A ` U))" using U assms(2) by blast
  moreover have "f ` U \<subseteq> \<Union> (A ` U)" using U f(2) by blast
  ultimately have "card (f ` U) \<le> card (\<Union> (A ` U))" by (rule card_mono)
  moreover have "card (f ` U) = card U" using card_image inj_on_subset [OF f(1) U] by blast
  ultimately show "card U \<le> card (\<Union> (A ` U))" by simp
qed

text \<open>Two assignments, the second one without the processors of the first.\<close>

lemma assignable_union:
  assumes "assignable A U" and "assignable (\<lambda>t. A t - \<Union> (A ` U)) V"
  shows "assignable A (U \<union> V)"
proof -
  from assms(1) obtain f where f: "inj_on f U" "\<And>t. t \<in> U \<Longrightarrow> f t \<in> A t" unfolding assignable_def by blast
  from assms(2) obtain g where g: "inj_on g V" "\<And>t. t \<in> V \<Longrightarrow> g t \<in> A t - \<Union> (A ` U)" unfolding assignable_def by blast
  let ?h = "\<lambda>t. if t \<in> U then f t else g t"
  have ne: "f u \<noteq> g v" if "u \<in> U" "v \<in> V" for u v
  proof
    assume e: "f u = g v"
    have "f u \<in> \<Union> (A ` U)" using f(2) [OF that(1)] that(1) by (rule UN_I [rotated])
    then show False using g(2) [OF that(2)] e by simp
  qed
  have "inj_on ?h (U \<union> V)"
  proof (rule inj_onI)
    fix x y assume xy: "x \<in> U \<union> V" "y \<in> U \<union> V" and e: "?h x = ?h y"
    consider "x \<in> U" "y \<in> U" | "x \<in> U" "y \<notin> U" "y \<in> V" | "x \<notin> U" "x \<in> V" "y \<in> U" | "x \<notin> U" "x \<in> V" "y \<notin> U" "y \<in> V" using xy by blast
    then show "x = y"
    proof cases
      case 1
      then show ?thesis using e f(1) by (simp add: inj_on_def)
    next
      case 2
      then show ?thesis using e ne [of x y] by simp
    next
      case 3
      then show ?thesis using e ne [of y x] by simp
    next
      case 4
      then show ?thesis using e g(1) by (simp add: inj_on_def)
    qed
  qed
  moreover have "?h t \<in> A t" if "t \<in> U \<union> V" for t using that f(2) g(2) by auto
  ultimately show ?thesis by (auto simp: assignable_def)
qed

lemma UN_split: "\<Union> (A ` (U \<union> V)) = \<Union> (A ` U) \<union> \<Union> ((\<lambda>t. A t - \<Union> (A ` U)) ` V)"
  by blast

text \<open>A set that has just enough processors leaves enough to the others.\<close>

lemma enough_rest:
  assumes e: "enough A T" and f: "finite T" "\<And>t. t \<in> T \<Longrightarrow> finite (A t)" and U: "U \<subseteq> T" "card (\<Union> (A ` U)) = card U"
  shows "enough (\<lambda>t. A t - \<Union> (A ` U)) (T - U)"
  unfolding enough_def
proof (intro allI impI)
  fix V assume V: "V \<subseteq> T - U"
  let ?P = "\<Union> (A ` U)" let ?Q = "\<Union> ((\<lambda>t. A t - ?P) ` V)"
  have fin: "finite U" "finite V" using U(1) V f(1) by (blast intro: finite_subset)+
  have finP: "finite ?P" "finite ?Q" using fin U(1) V f(2) by blast+
  have "card U + card V = card (U \<union> V)" using fin V by (subst card_Un_disjoint) auto
  also have "\<dots> \<le> card (\<Union> (A ` (U \<union> V)))" using enoughD [OF e, of "U \<union> V"] U(1) V by blast
  also have "\<dots> = card ?P + card ?Q" unfolding UN_split using finP by (subst card_Un_disjoint) auto
  finally show "card V \<le> card ?Q" using U(2) by simp
qed

text \<open>If every smaller set has one processor more than it needs, any choice for one task will do.\<close>

lemma enough_drop_one:
  assumes f: "finite T" "\<And>t. t \<in> T \<Longrightarrow> finite (A t)"
    and more: "\<And>U. U \<subset> T \<Longrightarrow> U \<noteq> {} \<Longrightarrow> card U < card (\<Union> (A ` U))" and t: "t \<in> T"
  shows "enough (\<lambda>u. A u - {a}) (T - {t})"
  unfolding enough_def
proof (intro allI impI)
  fix V assume V: "V \<subseteq> T - {t}"
  show "card V \<le> card (\<Union> ((\<lambda>u. A u - {a}) ` V))"
  proof (cases "V = {}")
    case False
    have "finite V" using V f(1) by (blast intro: finite_subset)
    then have fin: "finite (\<Union> (A ` V))" using V f(2) by blast
    have "card V < card (\<Union> (A ` V))" using more [of V] V t False by blast
    moreover have "\<Union> ((\<lambda>u. A u - {a}) ` V) = \<Union> (A ` V) - {a}" by blast
    moreover have "card (\<Union> (A ` V)) - 1 \<le> card (\<Union> (A ` V) - {a})" using fin by (cases "a \<in> \<Union> (A ` V)") simp_all
    ultimately show ?thesis by simp
  qed simp
qed

lemma assignable_insert:
  assumes "t \<notin> V" and "a \<in> A t" and "assignable (\<lambda>u. A u - {a}) V"
  shows "assignable A (insert t V)"
proof -
  from assms(3) obtain g where g: "inj_on g V" "\<And>u. u \<in> V \<Longrightarrow> g u \<in> A u - {a}" by (auto simp: assignable_def)
  have "inj_on (g(t := a)) (insert t V)" using g assms(1) by (auto simp: inj_on_def)
  moreover have "(g(t := a)) u \<in> A u" if "u \<in> insert t V" for u using that g(2) assms(1,2) by auto
  ultimately show ?thesis unfolding assignable_def by blast
qed

lemma enough_assignable:
  "finite T \<Longrightarrow> (\<And>t. t \<in> T \<Longrightarrow> finite (A t)) \<Longrightarrow> enough A T \<Longrightarrow> assignable A T"
proof (induction "card T" arbitrary: T A rule: less_induct)
  case less
  show ?case
  proof (cases "\<exists>U. U \<subset> T \<and> U \<noteq> {} \<and> card (\<Union> (A ` U)) = card U")
    case True
    then obtain U where U: "U \<subset> T" "U \<noteq> {}" "card (\<Union> (A ` U)) = card U" by blast
    have c: "card U < card T" "card (T - U) < card T"
      using U less.prems(1) psubset_card_mono [OF less.prems(1), of U] psubset_card_mono [OF less.prems(1), of "T - U"] by blast+
    have "assignable A U"
      by (rule less.hyps [OF c(1)]) (use U less.prems enough_subset in \<open>auto intro: finite_subset\<close>)
    moreover have "assignable (\<lambda>t. A t - \<Union> (A ` U)) (T - U)"
      by (rule less.hyps [OF c(2)]) (use U less.prems enough_rest [of A T U] in auto)
    ultimately have "assignable A (U \<union> (T - U))" by (rule assignable_union)
    then show ?thesis using U(1) by (simp add: Un_absorb1 psubset_imp_subset)
  next
    case False
    have more: "card U < card (\<Union> (A ` U))" if "U \<subset> T" "U \<noteq> {}" for U
      using that False enoughD [OF less.prems(3), of U] by (metis le_neq_implies_less psubset_imp_subset)
    show ?thesis
    proof (cases "T = {}")
      case True
      then show ?thesis by (simp add: assignable_def)
    next
      case False
      then obtain t where t: "t \<in> T" by blast
      have "1 \<le> card (A t)" using enoughD [OF less.prems(3), of "{t}"] t by simp
      then obtain a where a: "a \<in> A t" by fastforce
      have "assignable (\<lambda>u. A u - {a}) (T - {t})"
        by (rule less.hyps [OF card_Diff1_less [OF less.prems(1) t]]) (use t less.prems more enough_drop_one [of T A t a] in auto)
      then have "assignable A (insert t (T - {t}))" using a by (intro assignable_insert) auto
      then show ?thesis using t by (simp add: insert_absorb)
    qed
  qed
qed

theorem assignable_iff_enough:
  assumes "finite T" and "\<And>t. t \<in> T \<Longrightarrow> finite (A t)"
  shows "assignable A T \<longleftrightarrow> enough A T"
proof
  show "assignable A T \<Longrightarrow> enough A T" using assms by (rule assignable_enough)
  show "enough A T \<Longrightarrow> assignable A T" using assms by (rule enough_assignable)
qed

end
