(* ===== verification/Greedy.thy ===== *)
theory Greedy
  imports Assignment Hall
begin

unbundle bit_operations_syntax

text \<open>
  What the retry loop of \<open>ready_queue_top\<close> chooses when tasks are bound to processors. \<open>allowed s t\<close> is the set of processors that
  task \<open>t\<close> may run on, \<open>greedy\<close> goes down the ready queue and takes every task for which there is still a way to give
  all taken tasks processors of their own. The loop keeps a history of sets of processors and numbers of tasks, packed into words;
  \<open>hist_ok\<close> says what is in it.
\<close>

section \<open>The processors a task may run on\<close>

definition allowed :: "kstate \<Rightarrow> nat \<Rightarrow> nat set" where
  "allowed s t =
    (let stay = {i. i < num_proc s \<and> ctxtsk s i = Some t \<and> DDS_DISABLE \<le> dispatch_disabled s i}
     in if stay \<noteq> {} then stay
        else {i. i < num_proc s \<and> dispatch_disabled s i < DDS_DISABLE \<and>
                 (tskatr (tcbs s t) AND TA_ASSPRC \<noteq> 0 \<longrightarrow> bit (assprc (tcbs s t)) i)})"

definition bound_ok :: "kstate \<Rightarrow> nat \<Rightarrow> bool" where
  "bound_ok s t \<longleftrightarrow> (tskatr (tcbs s t) AND TA_ASSPRC \<noteq> 0 \<longrightarrow> assprc (tcbs s t) AND NOT (ALL_CORE_BIT s) = 0)"

lemma allowed_subset: "allowed s t \<subseteq> {..<num_proc s}"
  by (auto simp: allowed_def Let_def split: if_splits)

lemma allowed_finite [simp]: "finite (allowed s t)"
  using allowed_subset by (rule finite_subset) simp

lemma bit_all_core: "n \<le> MAX_PROC \<Longrightarrow> bit (all_core_bit n) k \<longleftrightarrow> k < n"
proof -
  assume n: "n \<le> MAX_PROC"
  have m: "(0xFFFFFFFF :: UW) = - 1" by simp
  show ?thesis using n unfolding all_core_bit_def m by (auto simp: bit_drop_bit_eq bit_mask_iff MAX_PROC_def)
qed

lemma and_bits_0: "(w :: UW) AND NOT (all_core_bit n) = 0 \<Longrightarrow> n \<le> MAX_PROC \<Longrightarrow> bit w k \<Longrightarrow> k < n"
proof -
  assume a: "w AND NOT (all_core_bit n) = 0" "n \<le> MAX_PROC" "bit w k"
  have "\<not> bit (w AND NOT (all_core_bit n)) k" using a(1) by simp
  then show ?thesis using a(2,3) bit_imp_le_length [OF a(3)] by (simp add: bit_simps bit_all_core)
qed

lemma bit_dds_mask:
  assumes "num_proc s \<le> MAX_PROC" and "k < 32"
  shows "bit (make_dds_mask s) k \<longleftrightarrow> \<not> (k < num_proc s \<and> DDS_DISABLE \<le> dispatch_disabled s k)"
proof -
  have "bit (foldl (\<lambda>m j. if dispatch_disabled s j \<ge> DDS_DISABLE then m OR push_bit j 1 else m) (0 :: UW) [0..<n]) k \<longleftrightarrow>
      k < n \<and> DDS_DISABLE \<le> dispatch_disabled s k" if "n \<le> 32" for n
    using that assms(2) by (induction n) (auto simp: bit_simps less_Suc_eq)
  from this [of "num_proc s"] show ?thesis
    using assms by (simp add: make_dds_mask_def bit_simps MAX_PROC_def)
qed

lemma core_bits_allowed:
  assumes np: "num_proc s \<le> MAX_PROC" and c: "ctx_distinct s" and b: "bound_ok s t"
  shows "bit (core_bits s (make_dds_mask s) t) k \<longleftrightarrow> k \<in> allowed s t"
proof (cases "List.find (\<lambda>i. ctxtsk s i = Some t \<and> dispatch_disabled s i \<ge> DDS_DISABLE) [0..<num_proc s]")
  case None
  then have n: "{i. i < num_proc s \<and> ctxtsk s i = Some t \<and> DDS_DISABLE \<le> dispatch_disabled s i} = {}"
    by (auto simp: find_None_iff)
  have "bit (assprc (tcbs s t)) k \<Longrightarrow> tskatr (tcbs s t) AND TA_ASSPRC \<noteq> 0 \<Longrightarrow> k < num_proc s"
    using and_bits_0 [OF _ np] b by (simp add: bound_ok_def)
  moreover have "k < num_proc s \<Longrightarrow> k < 32" using np by (simp add: MAX_PROC_def)
  ultimately show ?thesis
    using bit_dds_mask [OF np, of k] by (auto simp: core_bits_def None allowed_def n bit_and_iff bit_all_core [OF np] not_le)
next
  case (Some i)
  then have i: "i < num_proc s" "ctxtsk s i = Some t" "DDS_DISABLE \<le> dispatch_disabled s i" by (auto simp: find_Some_iff)
  have "{j. j < num_proc s \<and> ctxtsk s j = Some t \<and> DDS_DISABLE \<le> dispatch_disabled s j} = {i}"
    using i c by (auto simp: ctx_distinct_def)
  then have "allowed s t = {i}" by (simp add: allowed_def)
  moreover have "i < 32" using i np by (simp add: MAX_PROC_def)
  ultimately show ?thesis by (auto simp: core_bits_def Some bit_simps)
qed

section \<open>Counting bits\<close>

lemma low_bits_cases:
  assumes "\<And>k. bit (w :: UW) k \<Longrightarrow> k < 4"
  shows "unat w < 16" and "w AND 0xF = w"
proof -
  have "w = take_bit 4 w" using assms by (intro bit_word_eqI) (auto simp: bit_take_bit_iff)
  then have "unat w = take_bit 4 (unat w)" by (metis unsigned_take_bit_eq)
  then have "unat w = unat w mod 16" by (simp add: take_bit_eq_mod)
  then show "unat w < 16" by (metis mod_less_divisor zero_less_numeral)
  show "w AND 0xF = w" using \<open>w = take_bit 4 w\<close> by (simp add: take_bit_eq_mask mask_numeral)
qed

lemma card_bits_4: "card {k. k < 4 \<and> P k} = of_bool (P 0) + of_bool (P 1) + of_bool (P 2) + of_bool (P (3 :: nat))"
proof -
  have "card {k. k < 4 \<and> P k} = (\<Sum>k<4. of_bool (P k))"
    by (subst sum_of_bool_eq) (auto intro: arg_cong [where f = card])
  then show ?thesis by (simp add: numeral_eq_Suc)
qed

lemma cnt_bits_card:
  assumes n: "1 \<le> n" "n \<le> MAX_PROC" and w: "\<And>k. bit w k \<Longrightarrow> k < n"
  shows "unat (cnt_bits n w) = card {k. bit w k}"
proof -
  have w4: "\<And>k. bit w k \<Longrightarrow> k < 4" using w n by (fastforce simp: MAX_PROC_def)
  have "cnt_bits n w = cnt_bits_table ! unat w"
    using n low_bits_cases [OF w4] by (simp add: cnt_bits_def cnt_bits_from.simps [of n 0] cnt_bits_from.simps [of n 4] MAX_PROC_def)
  moreover have "{k. bit w k} = {k. k < 4 \<and> bit w k}" using w4 by auto
  moreover have "unat (cnt_bits_table ! unat w) = of_bool (bit w 0) + of_bool (bit w 1) + of_bool (bit w 2) + of_bool (bit w 3)"
  proof -
    have "\<forall>i\<in>set [0..<16]. unat (cnt_bits_table ! i) =
        of_bool (bit (word_of_nat i :: UW) 0) + of_bool (bit (word_of_nat i :: UW) 1) +
        of_bool (bit (word_of_nat i :: UW) 2) + of_bool (bit (word_of_nat i :: UW) 3)"
      by code_simp
    moreover have "unat w \<in> set [0..<16]" "word_of_nat (unat w) = w" using low_bits_cases(1) [OF w4] by simp_all
    ultimately show ?thesis by metis
  qed
  ultimately show ?thesis by (simp only: card_bits_4)
qed

section \<open>The entries of the history\<close>

text \<open>A word whose lower half is the set of processors of the tasks in \<open>U\<close> and whose upper half is the number of these tasks.\<close>

definition entry :: "kstate \<Rightarrow> nat set \<Rightarrow> UW \<Rightarrow> bool" where
  "entry s U h \<longleftrightarrow> (\<forall>k<16. bit h k \<longleftrightarrow> k \<in> \<Union> (allowed s ` U)) \<and> unat (drop_bit 16 h) = card U"

lemma upper_half_add:
  fixes w :: UW
  assumes "unat (drop_bit 16 w) < 100"
  shows "unat (drop_bit 16 (w + push_bit 16 1)) = Suc (unat (drop_bit 16 w))" and "k < 16 \<Longrightarrow> bit (w + push_bit 16 1) k \<longleftrightarrow> bit w k"
proof -
  have d: "unat (drop_bit 16 v) = unat v div 65536" for v :: UW
  proof -
    have "unat v < 2 ^ 32" using unsigned_less [of v] by simp
    then show ?thesis unfolding unsigned_drop_bit_eq by (simp add: take_bit_eq_mod drop_bit_eq_div)
  qed
  have l: "unat w < 6553600" using assms unfolding d by (simp add: div_less_iff_less_mult)
  have a: "unat (w + push_bit 16 1) = unat w + 65536" using l by (simp add: push_bit_eq_mult unat_word_ariths)
  show "unat (drop_bit 16 (w + push_bit 16 1)) = Suc (unat (drop_bit 16 w))" unfolding d a by simp
  assume k: "k < 16"
  have "take_bit 16 (unat (w + push_bit 16 1)) = take_bit 16 (unat w)" unfolding a by (simp add: take_bit_eq_mod)
  then have "bit (take_bit 16 (unat (w + push_bit 16 1))) k = bit (take_bit 16 (unat w)) k" by simp
  then show "bit (w + push_bit 16 1) k \<longleftrightarrow> bit w k" using k by (simp add: bit_take_bit_iff bit_unsigned_iff)
qed

lemma entry_single:
  assumes "\<And>k. bit b k \<longleftrightarrow> k \<in> allowed s t" and "num_proc s \<le> MAX_PROC"
  shows "entry s {t} (b OR push_bit 16 1)"
proof -
  have low: "\<not> bit b k" if "4 \<le> k" for k using assms allowed_subset [of s t] that by (auto simp: MAX_PROC_def)
  have "drop_bit 16 (b OR push_bit 16 1) = 1"
    by (rule bit_word_eqI) (use low in \<open>auto simp: bit_simps\<close>)
  moreover have "\<not> bit (push_bit 16 1 :: UW) k" if "k < 16" for k using that unfolding bit_push_bit_iff by simp
  ultimately show ?thesis by (auto simp: entry_def assms(1) bit_or_iff)
qed

lemma entry_insert:
  assumes h: "entry s U h" and b: "\<And>k. bit b k \<longleftrightarrow> k \<in> allowed s t" and np: "num_proc s \<le> MAX_PROC"
    and U: "finite U" "t \<notin> U" "card U < 100"
  shows "entry s (insert t U) ((h OR b) + push_bit 16 1)"
proof -
  have low: "\<not> bit b k" if "4 \<le> k" for k using b np allowed_subset [of s t] that by (auto simp: MAX_PROC_def)
  have d: "drop_bit 16 (h OR b) = drop_bit 16 h"
    by (rule bit_word_eqI) (use low in \<open>auto simp: bit_simps\<close>)
  have c: "unat (drop_bit 16 (h OR b)) = card U" using h unfolding d by (simp add: entry_def)
  note a = upper_half_add [of "h OR b", unfolded c, OF U(3)]
  show ?thesis
    using h U(1,2) a by (auto simp: entry_def b bit_or_iff)
qed

text \<open>What the comparison of an entry decides.\<close>

lemma entry_check:
  assumes h: "entry s U h" and np: "1 \<le> num_proc s" "num_proc s \<le> MAX_PROC"
  shows "cnt_bits (num_proc s) (h AND 0xFFFF) < drop_bit 16 h \<longleftrightarrow> card (\<Union> (allowed s ` U)) < card U"
proof -
  have m: "(0xFFFF :: UW) = mask 16" by (simp add: mask_eq_exp_minus_1)
  have b: "bit (h AND 0xFFFF) k \<longleftrightarrow> k \<in> \<Union> (allowed s ` U)" for k
    using h allowed_subset [of s] np(2) unfolding m by (cases "k < 16") (auto simp: entry_def bit_and_iff bit_mask_iff MAX_PROC_def, fastforce)
  have "k < num_proc s" if "bit (h AND 0xFFFF) k" for k using that allowed_subset [of s] by (auto simp: b)
  from cnt_bits_card [OF np this] have "unat (cnt_bits (num_proc s) (h AND 0xFFFF)) = card {k. bit (h AND 0xFFFF) k}" .
  also have "{k. bit (h AND 0xFFFF) k} = \<Union> (allowed s ` U)" unfolding b by blast
  finally have "unat (cnt_bits (num_proc s) (h AND 0xFFFF)) = card (\<Union> (allowed s ` U))" .
  then show ?thesis using h by (simp add: word_less_nat_alt entry_def)
qed

section \<open>The history as a whole\<close>

text \<open>An entry for every non-empty subset of \<open>F\<close>, and no others.\<close>

definition hist_ok :: "kstate \<Rightarrow> nat set \<Rightarrow> UW list \<Rightarrow> bool" where
  "hist_ok s F hist \<longleftrightarrow> (\<forall>h\<in>set hist. \<exists>U. U \<subseteq> F \<and> U \<noteq> {} \<and> entry s U h) \<and>
     (\<forall>U. U \<subseteq> F \<and> U \<noteq> {} \<longrightarrow> (\<exists>h\<in>set hist. entry s U h))"

lemma hist_check_map:
  "hist_check np b hs =
    (if \<forall>h\<in>set hs. \<not> cnt_bits np (((h OR b) + push_bit 16 1) AND 0xFFFF) < drop_bit 16 ((h OR b) + push_bit 16 1)
     then Some (map (\<lambda>h. (h OR b) + push_bit 16 1) hs) else None)"
  by (induction hs) (simp_all add: Let_def)

lemma entry_new:
  assumes np: "1 \<le> num_proc s" "num_proc s \<le> MAX_PROC" and b: "\<And>k. bit b k \<longleftrightarrow> k \<in> allowed s t"
    and F: "finite F" "t \<notin> F" "card F < 100"
    and U: "entry s U h" "U \<subseteq> F"
  shows "entry s (insert t U) ((h OR b) + push_bit 16 1)"
proof (rule entry_insert [OF U(1) b np(2)])
  show "finite U" "t \<notin> U" using U(2) F by (auto intro: finite_subset)
  show "card U < 100" using card_mono [OF F(1) U(2)] F(3) by simp
qed

lemma hist_check_spec:
  assumes np: "1 \<le> num_proc s" "num_proc s \<le> MAX_PROC" and b: "\<And>k. bit b k \<longleftrightarrow> k \<in> allowed s t"
    and F: "finite F" "t \<notin> F" "card F < 100" and hist: "hist_ok s F hist"
  shows "hist_check (num_proc s) b hist =
    (if \<forall>U. U \<subseteq> F \<and> U \<noteq> {} \<longrightarrow> card (insert t U) \<le> card (\<Union> (allowed s ` insert t U))
     then Some (map (\<lambda>h. (h OR b) + push_bit 16 1) hist) else None)"
proof -
  have c: "cnt_bits (num_proc s) (((h OR b) + push_bit 16 1) AND 0xFFFF) < drop_bit 16 ((h OR b) + push_bit 16 1) \<longleftrightarrow>
      card (\<Union> (allowed s ` insert t U)) < card (insert t U)" if "entry s U h" "U \<subseteq> F" for U h
    by (rule entry_check [OF entry_new [OF np b F that] np])
  have "(\<forall>h\<in>set hist. \<not> cnt_bits (num_proc s) (((h OR b) + push_bit 16 1) AND 0xFFFF) < drop_bit 16 ((h OR b) + push_bit 16 1)) \<longleftrightarrow>
      (\<forall>U. U \<subseteq> F \<and> U \<noteq> {} \<longrightarrow> card (insert t U) \<le> card (\<Union> (allowed s ` insert t U)))"
    (is "?l \<longleftrightarrow> ?r")
  proof
    assume l: ?l
    show ?r
    proof (intro allI impI)
      fix U assume U: "U \<subseteq> F \<and> U \<noteq> {}"
      then obtain h where h: "h \<in> set hist" "entry s U h" using hist unfolding hist_ok_def by blast
      show "card (insert t U) \<le> card (\<Union> (allowed s ` insert t U))" using c [OF h(2)] U l [rule_format, OF h(1)] not_less by blast
    qed
  next
    assume r: ?r
    show ?l
    proof
      fix h assume "h \<in> set hist"
      then obtain U where U: "U \<subseteq> F" "U \<noteq> {}" "entry s U h" using hist unfolding hist_ok_def by blast
      show "\<not> cnt_bits (num_proc s) (((h OR b) + push_bit 16 1) AND 0xFFFF) < drop_bit 16 ((h OR b) + push_bit 16 1)"
        using c [OF U(3,1)] r [rule_format, of U] U(1,2) not_less by blast
    qed
  qed
  then show ?thesis unfolding hist_check_map by presburger
qed

lemma hist_ok_grow:
  assumes np: "1 \<le> num_proc s" "num_proc s \<le> MAX_PROC" and b: "\<And>k. bit b k \<longleftrightarrow> k \<in> allowed s t"
    and F: "finite F" "t \<notin> F" "card F < 100" and hist: "hist_ok s F hist"
  shows "hist_ok s (insert t F) (hist @ map (\<lambda>h. (h OR b) + push_bit 16 1) hist @ [b OR push_bit 16 1])"
  unfolding hist_ok_def
proof (intro conjI ballI allI impI)
  fix h assume "h \<in> set (hist @ map (\<lambda>h. (h OR b) + push_bit 16 1) hist @ [b OR push_bit 16 1])"
  then consider "h \<in> set hist" | g where "g \<in> set hist" "h = (g OR b) + push_bit 16 1" | "h = b OR push_bit 16 1" by auto
  then show "\<exists>U. U \<subseteq> insert t F \<and> U \<noteq> {} \<and> entry s U h"
  proof cases
    case 1
    then show ?thesis using hist unfolding hist_ok_def by blast
  next
    case (2 g)
    then obtain U where "U \<subseteq> F" "entry s U g" using hist unfolding hist_ok_def by blast
    then have "entry s (insert t U) h" unfolding 2(2) by (intro entry_new [OF np b F])
    then show ?thesis using \<open>U \<subseteq> F\<close> by (intro exI [of _ "insert t U"]) auto
  next
    case 3
    then show ?thesis using entry_single [OF b np(2)] by blast
  qed
next
  fix U assume U: "U \<subseteq> insert t F \<and> U \<noteq> {}"
  consider "U \<subseteq> F" | "U = {t}" | V where "V \<subseteq> F" "V \<noteq> {}" "U = insert t V"
  proof (cases "t \<in> U")
    case True
    then show thesis using that(2) that(3) [of "U - {t}"] U by blast
  qed (use U that(1) in blast)
  then show "\<exists>h\<in>set (hist @ map (\<lambda>h. (h OR b) + push_bit 16 1) hist @ [b OR push_bit 16 1]). entry s U h"
  proof cases
    case 1
    then obtain h where "h \<in> set hist" "entry s U h" using hist U unfolding hist_ok_def by blast
    then show ?thesis by (intro bexI [of _ h]) simp_all
  next
    case 2
    then show ?thesis using entry_single [OF b np(2)] by (intro bexI [of _ "b OR push_bit 16 1"]) simp_all
  next
    case (3 V)
    then obtain g where "g \<in> set hist" "entry s V g" using hist unfolding hist_ok_def by blast
    moreover have "entry s U ((g OR b) + push_bit 16 1)" unfolding 3(3) by (rule entry_new [OF np b F]) fact+
    ultimately show ?thesis by (intro bexI [of _ "(g OR b) + push_bit 16 1"]) simp_all
  qed
qed

section \<open>The greedy choice\<close>

fun greedy :: "kstate \<Rightarrow> nat list \<Rightarrow> nat list \<Rightarrow> nat list" where
  "greedy s acc [] = acc"
| "greedy s acc (t # ts) =
    (if assignable (allowed s) (insert t (set acc)) then greedy s (acc @ [t]) ts else greedy s acc ts)"

lemma assignable_allowed: "finite T \<Longrightarrow> assignable (allowed s) T \<longleftrightarrow> enough (allowed s) T"
  by (rule assignable_iff_enough) simp_all

definition picky :: "kstate \<Rightarrow> nat set \<Rightarrow> nat set" where
  "picky s T = {t \<in> T. allowed s t \<noteq> {..<num_proc s}}"

text \<open>A set with a task that may run anywhere needs no check.\<close>

lemma enough_insert_iff:
  assumes e: "enough (allowed s) T" and T: "finite T" "t \<notin> T" "card T < num_proc s"
  shows "enough (allowed s) (insert t T) \<longleftrightarrow>
    allowed s t = {..<num_proc s} \<or>
    allowed s t \<noteq> {} \<and> (\<forall>U. U \<subseteq> picky s T \<and> U \<noteq> {} \<longrightarrow> card (insert t U) \<le> card (\<Union> (allowed s ` insert t U)))"
    (is "?l \<longleftrightarrow> ?a \<or> ?b \<and> ?c")
proof
  assume l: ?l
  have "card {t} \<le> card (\<Union> (allowed s ` {t}))" by (rule enoughD [OF l]) simp
  then have ?b by auto
  moreover have ?c
  proof (intro allI impI)
    fix U assume "U \<subseteq> picky s T \<and> U \<noteq> {}"
    then have "insert t U \<subseteq> insert t T" by (auto simp: picky_def)
    then show "card (insert t U) \<le> card (\<Union> (allowed s ` insert t U))" by (rule enoughD [OF l])
  qed
  ultimately show "?a \<or> ?b \<and> ?c" by blast
next
  assume r: "?a \<or> ?b \<and> ?c"
  show ?l
    unfolding enough_def
  proof (intro allI impI)
    fix U assume U: "U \<subseteq> insert t T"
    show "card U \<le> card (\<Union> (allowed s ` U))"
    proof (cases "t \<in> U")
      case False
      then show ?thesis using U enoughD [OF e, of U] by blast
    next
      case t: True
      show ?thesis
      proof (cases "\<exists>u\<in>U. allowed s u = {..<num_proc s}")
        case True
        then have "\<Union> (allowed s ` U) = {..<num_proc s}" using allowed_subset [of s] by blast
        moreover have "card U \<le> num_proc s" using card_mono [OF _ U] T by simp
        ultimately show ?thesis by simp
      next
        case False
        then have p: "U - {t} \<subseteq> picky s T" using U by (auto simp: picky_def)
        have i: "insert t (U - {t}) = U" using t by blast
        have r: ?b ?c using r False t by blast+
        show ?thesis
        proof (cases "U - {t} = {}")
          case True
          then have "U = {t}" using t by blast
          then show ?thesis using r(1) card_gt_0_iff [of "allowed s t"] by (simp add: Suc_le_eq)
        next
          case False
          with r(2) p i show ?thesis by metis
        qed
      qed
    qed
  qed
qed

lemma no_room:
  assumes "finite T" and "num_proc s < card T"
  shows "\<not> assignable (allowed s) T"
proof
  assume "assignable (allowed s) T"
  then have "card T \<le> card (\<Union> (allowed s ` T))" using enoughD [of "allowed s" T T] by (simp add: assignable_allowed assms(1))
  also have "\<dots> \<le> card {..<num_proc s}" by (rule card_mono) (use allowed_subset [of s] in auto)
  finally show False using assms(2) by simp
qed

lemma greedy_full:
  assumes "length acc = num_proc s" and "distinct (acc @ ts)"
  shows "greedy s acc ts = acc"
  using assms(2)
proof (induction ts)
  case (Cons t ts)
  have "\<not> assignable (allowed s) (insert t (set acc))"
    by (rule no_room) (use Cons.prems assms(1) in \<open>simp_all add: distinct_card\<close>)
  then show ?case using Cons by simp
qed simp

lemma select_greedy:
  assumes np: "1 \<le> num_proc s" "num_proc s \<le> MAX_PROC" and c: "ctx_distinct s"
    and "\<And>t. t \<in> set ts \<Longrightarrow> bound_ok s t" and "distinct (acc @ ts)" and "enough (allowed s) (set acc)" and "length acc \<le> num_proc s"
    and "length acc < num_proc s \<longrightarrow> hist_ok s (picky s (set acc)) hist"
  shows "acc @ map fst (select s (num_proc s - length acc) hist ts) = greedy s acc ts"
  using assms(4-8)
proof (induction ts arbitrary: acc hist)
  case (Cons t ts)
  show ?case
  proof (cases "length acc = num_proc s")
    case True
    then show ?thesis using greedy_full [OF True Cons.prems(2)] by (simp del: greedy.simps)
  next
    case False
    define k where "k = num_proc s - Suc (length acc)"
    have l: "length acc < num_proc s" and k: "num_proc s - length acc = Suc k" using False Cons.prems(4) by (auto simp: k_def)
    define b where "b = core_bits s (make_dds_mask s) t"
    have b: "bit b i \<longleftrightarrow> i \<in> allowed s t" for i
      unfolding b_def using core_bits_allowed [OF np(2) c] Cons.prems(1) by simp
    have r32: "i < 32" if "i \<in> allowed s t \<or> i < num_proc s" for i using that allowed_subset [of s t] np(2) by (auto simp: MAX_PROC_def)
    then have b0: "b = 0 \<longleftrightarrow> allowed s t = {}" using b by (auto simp: bit_eq_iff)
    have ball: "b = ALL_CORE_BIT s \<longleftrightarrow> allowed s t = {..<num_proc s}" using b r32 by (auto simp: bit_eq_iff bit_all_core [OF np(2)])
    let ?F = "picky s (set acc)"
    have F: "finite ?F" "t \<notin> ?F" "card ?F < 100"
    proof -
      have "?F \<subseteq> set acc" by (auto simp: picky_def)
      then have "card ?F \<le> length acc" using card_mono [OF finite_set] card_length le_trans by blast
      then show "card ?F < 100" using l np by (simp add: MAX_PROC_def)
    qed (use Cons.prems(2) in \<open>auto simp: picky_def\<close>)
    have h: "hist_ok s ?F hist" using Cons.prems(5) l by simp
    have "card (set acc) < num_proc s" using l card_length [of acc] by simp
    moreover define C where "C \<longleftrightarrow> (\<forall>U. U \<subseteq> ?F \<and> U \<noteq> {} \<longrightarrow> card (insert t U) \<le> card (\<Union> (allowed s ` insert t U)))"
    moreover have "t \<notin> set acc" using Cons.prems(2) by simp
    ultimately have e: "enough (allowed s) (insert t (set acc)) \<longleftrightarrow> allowed s t = {..<num_proc s} \<or> allowed s t \<noteq> {} \<and> C"
      using enough_insert_iff [OF Cons.prems(3), of t] by simp
    note hc = hist_check_spec [OF np b F h, folded C_def]
    have a: "assignable (allowed s) (insert t (set acc)) \<longleftrightarrow> b = ALL_CORE_BIT s \<or> b \<noteq> 0 \<and> hist_check (num_proc s) b hist \<noteq> None"
      by (simp add: assignable_allowed b0 ball e hc)
    have nz: "ALL_CORE_BIT s \<noteq> 0" using bit_all_core [OF np(2), of 0] np(1) by auto
    show ?thesis
    proof (cases "assignable (allowed s) (insert t (set acc))")
      case False
      then have "select s (Suc k) hist (t # ts) = select s (Suc k) hist ts" using a by (auto simp: Let_def b_def [symmetric])
      moreover have "acc @ map fst (select s (num_proc s - length acc) hist ts) = greedy s acc ts"
        by (rule Cons.IH) (use Cons.prems in auto)
      ultimately show ?thesis using False by (simp add: k)
    next
      case True
      define h' where "h' = (if b = ALL_CORE_BIT s \<or> k = 0 then hist
        else hist @ the (hist_check (num_proc s) b hist) @ [b OR push_bit 16 1])"
      have sel: "select s (Suc k) hist (t # ts) = (t, b) # select s k h' ts"
        using True a nz by (auto simp: Let_def b_def [symmetric] h'_def)
      have p: "picky s (set (acc @ [t])) = (if b = ALL_CORE_BIT s then ?F else insert t ?F)" by (auto simp: picky_def ball)
      have "hist_ok s (picky s (set (acc @ [t]))) h'" if "Suc (length acc) < num_proc s"
      proof (cases "b = ALL_CORE_BIT s")
        case True
        then show ?thesis unfolding p h'_def using h by simp
      next
        case False
        then have "hist_check (num_proc s) b hist \<noteq> None" using True a by blast
        then have "hist_check (num_proc s) b hist = Some (map (\<lambda>h. (h OR b) + push_bit 16 1) hist)" using hc by metis
        then have "h' = hist @ map (\<lambda>h. (h OR b) + push_bit 16 1) hist @ [b OR push_bit 16 1]"
          using False that by (simp add: h'_def k_def)
        then show ?thesis using hist_ok_grow [OF np b F h] False by (simp only: p if_False)
      qed
      then have "(acc @ [t]) @ map fst (select s (num_proc s - length (acc @ [t])) h' ts) = greedy s (acc @ [t]) ts"
        using Cons.prems True l by (intro Cons.IH) (auto simp: assignable_allowed)
      then show ?thesis using True sel by (simp add: k k_def)
    qed
  qed
qed simp

lemma chosen_greedy:
  assumes "rq_wf s" and "ctx_distinct s" and "\<forall>t\<in>set (rdy s). bound_ok s t"
  shows "map fst (chosen s) = greedy s [] (rdy s)"
  unfolding chosen_def
  by (rule select_greedy [of s "rdy s" "[]" "[]", simplified])
    (use assms rdy_distinct [OF assms(1)] in \<open>auto simp: rq_wf_def rq_tops_def enough_def hist_ok_def picky_def\<close>)

lemma greedy_assignable: "assignable (allowed s) (set acc) \<Longrightarrow> assignable (allowed s) (set (greedy s acc ts))"
  by (induction ts arbitrary: acc) simp_all

lemma scan_greedy:
  assumes "rq_wf s" and "ctx_distinct s" and "\<forall>t\<in>set (rdy s). bound_ok s t"
  shows "\<exists>x. rqt_scan s (make_dds_mask s) 0 (rqt_init s) = Some x \<and> se_num x = length (greedy s [] (rdy s)) \<and>
     se_tcb x = pad (num_proc s) (greedy s [] (rdy s)) \<and>
     (\<forall>i<length (greedy s [] (rdy s)). {k. bit (se_bit x ! i) k} = allowed s (greedy s [] (rdy s) ! i)) \<and>
     assignable (allowed s) (set (greedy s [] (rdy s)))"
proof -
  note g = chosen_greedy [OF assms]
  have np: "num_proc s \<le> MAX_PROC" using assms(1) by (simp add: rq_wf_def rq_tops_def)
  obtain x where x: "rqt_scan s (make_dds_mask s) 0 (rqt_init s) = Some x" "se_num x = length (chosen s)"
    "se_tcb x = pad (num_proc s) (map fst (chosen s))"
    "se_bit x = map snd (chosen s) @ replicate (num_proc s - length (chosen s)) 0"
    using rqt_scan_chosen [OF assms(1)] by blast
  have l: "length (greedy s [] (rdy s)) = length (chosen s)" unfolding g [symmetric] by simp
  have "{k. bit (se_bit x ! i) k} = allowed s (greedy s [] (rdy s) ! i)" if i: "i < length (chosen s)" for i
  proof -
    have m: "chosen s ! i \<in> set (select s (num_proc s) [] (rdy s))" using nth_mem [OF i] by (simp add: chosen_def)
    then have "fst (chosen s ! i) \<in> set (rdy s)" using select_subset by fastforce
    moreover have "snd (chosen s ! i) = core_bits s (make_dds_mask s) (fst (chosen s ! i))"
      using m select_core_bits [of "fst (chosen s ! i)" "snd (chosen s ! i)"] by simp
    moreover have "greedy s [] (rdy s) ! i = fst (chosen s ! i)" unfolding g [symmetric] using i by simp
    ultimately show ?thesis using core_bits_allowed [OF np assms(2)] assms(3) i x(4) by (simp add: nth_append)
  qed
  moreover have "assignable (allowed s) (set (greedy s [] (rdy s)))" by (rule greedy_assignable) (simp add: assignable_def)
  ultimately show ?thesis using x(1-3) by (simp add: l g)
qed

end
