(* ===== verification/Timer.thy ===== *)
theory Timer
  imports Scheduler
begin

text \<open>
  The timer event queue of \<^verbatim>\<open>timer.c\<close>: events ordered by time, compared with the 64-bit
  arithmetic of \<^verbatim>\<open>longlong.h\<close>.
\<close>

section \<open>Operations\<close>

definition ll_add :: "LL \<Rightarrow> LL \<Rightarrow> LL" where
  "ll_add a b = a + b"

definition ll_cmp :: "LL \<Rightarrow> LL \<Rightarrow> int" where
  "ll_cmp a b = sint (a - b)"

definition ltoll :: "int \<Rightarrow> LL" where
  "ltoll n = word_of_int n"

definition uitoll :: "UW \<Rightarrow> LL" where
  "uitoll n = ucast n"

fun tmeb_at :: "kstate \<Rightarrow> tmeb_ref \<Rightarrow> TMEB" where
  "tmeb_at s (TmTsk t) = wtmeb (tcbs s t)"
| "tmeb_at s (TmCyc i) = cyc_tmeb s i"
| "tmeb_at s (TmAlm i) = alm_tmeb s i"

fun upd_tmeb :: "tmeb_ref \<Rightarrow> (TMEB \<Rightarrow> TMEB) \<Rightarrow> kstate \<Rightarrow> kstate" where
  "upd_tmeb (TmTsk t) f s = upd_tcb t (\<lambda>c. c\<lparr>wtmeb := f (wtmeb c)\<rparr>) s"
| "upd_tmeb (TmCyc i) f s = s\<lparr>cyc_tmeb := (cyc_tmeb s)(i := f (cyc_tmeb s i))\<rparr>"
| "upd_tmeb (TmAlm i) f s = s\<lparr>alm_tmeb := (alm_tmeb s)(i := f (alm_tmeb s i))\<rparr>"

abbreviation etime :: "kstate \<Rightarrow> tmeb_ref \<Rightarrow> LL" where
  "etime s e \<equiv> tm_time (tmeb_at s e)"

definition enqueue_tmeb :: "tmeb_ref \<Rightarrow> kstate \<Rightarrow> kstate" where
  "enqueue_tmeb e s =
    s\<lparr>timer_queue := insert_before (\<lambda>q. ll_cmp (etime s e) (etime s q) < 0) e (timer_queue s)\<rparr>"

text \<open>With \<open>TMO_FEVR\<close> the event's node becomes a ring of its own: it is in no queue.\<close>

definition timer_insert :: "tmeb_ref \<Rightarrow> TMO \<Rightarrow> callback option \<Rightarrow> kstate \<Rightarrow> kstate" where
  "timer_insert e tmout cb s =
    (let s = upd_tmeb e (\<lambda>x. x\<lparr>tm_callback := cb\<rparr>) s
     in if tmout = TMO_FEVR then s
        else (let s = upd_tmeb e (\<lambda>x. x\<lparr>tm_time := ll_add (ll_add (current_time s) (ltoll tmout)) (uitoll (timer_period s))\<rparr>) s
              in enqueue_tmeb e s))"

definition timer_insert_reltim :: "tmeb_ref \<Rightarrow> UW \<Rightarrow> callback option \<Rightarrow> kstate \<Rightarrow> kstate" where
  "timer_insert_reltim e tmout cb s =
    (let s = upd_tmeb e (\<lambda>x. x\<lparr>tm_callback := cb\<rparr>) s;
         s = upd_tmeb e (\<lambda>x. x\<lparr>tm_time := ll_add (ll_add (current_time s) (uitoll tmout)) (uitoll (timer_period s))\<rparr>) s
     in enqueue_tmeb e s)"

definition timer_insert_abs :: "tmeb_ref \<Rightarrow> LL \<Rightarrow> callback option \<Rightarrow> kstate \<Rightarrow> kstate" where
  "timer_insert_abs e sotime cb s =
    (let s = upd_tmeb e (\<lambda>x. x\<lparr>tm_callback := cb\<rparr>) s;
         s = upd_tmeb e (\<lambda>x. x\<lparr>tm_time := sotime\<rparr>) s
     in enqueue_tmeb e s)"

definition timer_delete :: "tmeb_ref \<Rightarrow> kstate \<Rightarrow> kstate" where
  "timer_delete e s = s\<lparr>timer_queue := remove1 e (timer_queue s)\<rparr>"

text \<open>
  The clock part of the timer interrupt handler: the software clock and the per-task accounting.
  \<open>tick_tsk\<close> is one iteration of the loop over the processors.
\<close>

definition tick_tsk :: "bool \<times> kstate \<Rightarrow> nat \<Rightarrow> bool \<times> kstate" where
  "tick_tsk st i =
    (case st of (sched_change, s) \<Rightarrow>
      (case ctxtsk s i of
         None \<Rightarrow> (sched_change, s)
       | Some t \<Rightarrow>
           (let s = upd_tcb t (\<lambda>c. if sysmode c > 0 then c\<lparr>stime := stime c + timer_period s\<rparr>
                                   else c\<lparr>utime := utime c + timer_period s\<rparr>) s
            in if is_schedtsk s t then
                 (case time_slice_schedule (Some t) s of (chg, s) \<Rightarrow> (sched_change \<or> chg, s))
               else (sched_change, s))))"

definition timer_tick :: "kstate \<Rightarrow> kstate option" where
  "timer_tick s =
    (let s = s\<lparr>current_time := ll_add (current_time s) (uitoll (timer_period s))\<rparr>
     in case foldl tick_tsk (False, s) [0..<MAX_PROC] of
          (sched_change, s) \<Rightarrow>
            if sched_change then do {
              (sch, s) \<leftarrow> ready_queue_top s;
              Some (s\<lparr>schedtsk := copy_sched (num_proc s) sch (schedtsk s)\<rparr>)
            } else Some s)"

text \<open>
  The event loop of the handler; \<open>cb\<close> calls a callback function. The loop ends because a callback
  can only make new events later than the current time; that is a property of the callbacks, so
  the loop itself is a partial function.
\<close>

partial_function (option) timer_events :: "(callback \<Rightarrow> kstate \<Rightarrow> kstate option) \<Rightarrow> kstate \<Rightarrow> kstate option" where
  "timer_events cb s =
    (case timer_queue s of
       [] \<Rightarrow> Some s
     | e # es \<Rightarrow>
         if ll_cmp (etime s e) (current_time s) > 0 then Some s
         else (let s = s\<lparr>timer_queue := es\<rparr>
               in case tm_callback (tmeb_at s e) of
                    None \<Rightarrow> timer_events cb s
                  | Some f \<Rightarrow> do { s \<leftarrow> cb f s; timer_events cb s }))"

section \<open>The queue stays ordered\<close>

text \<open>
  \<open>ll_cmp\<close> compares by the sign of the difference: it is the order of the times as long as they
  are less than half the 64-bit range apart.
\<close>

definition time_ok :: "LL \<Rightarrow> bool" where
  "time_ok x \<longleftrightarrow> 0 \<le> sint x \<and> sint x < 2 ^ 62"

lemma ll_cmp_less: "time_ok a \<Longrightarrow> time_ok b \<Longrightarrow> ll_cmp a b < 0 \<longleftrightarrow> sint a < sint b"
proof -
  assume a: "time_ok a" "time_ok b"
  then have "sint (a - b) = sint a - sint b"
    by (simp add: sint_word_diff time_ok_def signed_take_bit_int_eq_self_iff)
  then show ?thesis by (simp add: ll_cmp_def)
qed

definition timer_ok :: "kstate \<Rightarrow> tmeb_ref \<Rightarrow> bool" where
  "timer_ok s e \<longleftrightarrow> time_ok (etime s e) \<and> (\<forall>x\<in>set (timer_queue s). time_ok (etime s x))"

lemma insert_before_cong:
  "(\<And>x. x \<in> set xs \<Longrightarrow> P x \<longleftrightarrow> Q x) \<Longrightarrow> insert_before P e xs = insert_before Q e xs"
  by (induction xs) auto

lemma tmeb_at_timer_queue [simp]: "tmeb_at (s\<lparr>timer_queue := q\<rparr>) = tmeb_at s"
proof
  fix e show "tmeb_at (s\<lparr>timer_queue := q\<rparr>) e = tmeb_at s e" by (cases e) simp_all
qed

interpretation timerq: stable_queue "\<lambda>s e. sint (etime s e)" timer_queue enqueue_tmeb timer_ok
proof
  fix s e
  assume "timer_ok s e"
  then show "timer_queue (enqueue_tmeb e s) = insert_before (\<lambda>x. sint (etime s e) < sint (etime s x)) e (timer_queue s)"
    by (auto simp: enqueue_tmeb_def timer_ok_def ll_cmp_less intro!: insert_before_cong)
qed (simp add: enqueue_tmeb_def)

definition timer_wf :: "kstate \<Rightarrow> bool" where
  "timer_wf s \<longleftrightarrow> sorted (map (\<lambda>e. sint (etime s e)) (timer_queue s)) \<and> distinct (timer_queue s) \<and>
     (\<forall>e\<in>set (timer_queue s). time_ok (etime s e))"

lemma enqueue_tmeb_sel [simp]:
  "tcbs (enqueue_tmeb e s) = tcbs s" "ques (enqueue_tmeb e s) = ques s" "num_proc (enqueue_tmeb e s) = num_proc s"
  "tmeb_at (enqueue_tmeb e s) = tmeb_at s" "current_time (enqueue_tmeb e s) = current_time s"
  by (simp_all add: enqueue_tmeb_def)

lemma tmeb_at_upd: "tmeb_at (upd_tmeb e f s) x = (if x = e then f (tmeb_at s e) else tmeb_at s x)"
  by (cases e; cases x) auto

lemma timer_queue_upd [simp]: "timer_queue (upd_tmeb e f s) = timer_queue s"
  "current_time (upd_tmeb e f s) = current_time s" "timer_period (upd_tmeb e f s) = timer_period s"
  by (cases e; simp)+

lemma map_etime_upd: "e \<notin> set q \<Longrightarrow> map (\<lambda>x. sint (etime (upd_tmeb e f s) x)) q = map (\<lambda>x. sint (etime s x)) q"
  by (auto simp: tmeb_at_upd)

lemma enqueue_tmeb_wf:
  assumes "timer_wf s" and "e \<notin> set (timer_queue s)" and "time_ok (etime s e)"
  shows "timer_wf (enqueue_tmeb e s)"
proof -
  have ok: "timer_ok s e" using assms by (simp add: timer_wf_def timer_ok_def)
  show ?thesis
    using timerq.enq_sorted [OF ok] timerq.enq_set [OF ok] timerq.enq_distinct [OF ok] assms
    by (simp add: timer_wf_def)
qed

lemma upd_tmeb_wf: "timer_wf s \<Longrightarrow> e \<notin> set (timer_queue s) \<Longrightarrow> timer_wf (upd_tmeb e f s)"
  by (simp add: timer_wf_def map_etime_upd) (auto simp: tmeb_at_upd)

text \<open>
  The time at which \<open>timer_insert\<close> sets its event: the full time-out plus one period, because the
  current period is already running. It is exact as long as the clock has not run for half the
  64-bit range.
\<close>

lemma timer_insert_time:
  assumes "tmout \<noteq> TMO_FEVR"
  shows "etime (timer_insert e tmout cb s) e = current_time s + word_of_int tmout + ucast (timer_period s)"
    and "timer_queue (timer_insert e tmout cb s) =
      insert_before (\<lambda>q. ll_cmp (current_time s + word_of_int tmout + ucast (timer_period s)) (etime s q) < 0 \<and> q \<noteq> e) e
        (timer_queue s) \<or> e \<in> set (timer_queue s)"
proof -
  show "etime (timer_insert e tmout cb s) e = current_time s + word_of_int tmout + ucast (timer_period s)"
    using assms by (simp add: timer_insert_def Let_def tmeb_at_upd ll_add_def ltoll_def uitoll_def)
  show "timer_queue (timer_insert e tmout cb s) =
      insert_before (\<lambda>q. ll_cmp (current_time s + word_of_int tmout + ucast (timer_period s)) (etime s q) < 0 \<and> q \<noteq> e) e
        (timer_queue s) \<or> e \<in> set (timer_queue s)"
    using assms by (auto simp: timer_insert_def Let_def enqueue_tmeb_def tmeb_at_upd ll_add_def ltoll_def uitoll_def
        intro!: insert_before_cong)
qed

text \<open>The time, as a number.\<close>

lemma event_time:
  fixes now :: LL and period :: UW
  assumes "0 \<le> tmout" and "tmout \<le> INT_MAX" and "0 \<le> sint now" and "sint now < 2 ^ 61"
  shows "sint (now + word_of_int tmout + ucast period) = sint now + tmout + uint period"
proof -
  define P where "P = uint period"
  have p: "0 \<le> P" "P < 2 ^ 32" using uint_lt2p [of period] by (simp_all add: P_def)
  have u: "sint (ucast period :: LL) = P"
    unfolding ucast_eq sint_sbintrunc' P_def [symmetric] by (rule signed_take_bit_int_eq_self) (use p in simp_all)
  have t: "sint (word_of_int tmout :: LL) = tmout"
    using assms by (simp add: sint_sbintrunc' signed_take_bit_int_eq_self_iff INT_MAX_def)
  have "sint (now + word_of_int tmout) = sint now + tmout"
    using assms by (simp add: sint_word_add t signed_take_bit_int_eq_self_iff INT_MAX_def)
  then show ?thesis
    using assms p unfolding P_def [symmetric] by (simp add: sint_word_add u signed_take_bit_int_eq_self_iff INT_MAX_def)
qed

lemma timer_insert_wf:
  assumes "timer_wf s" and "e \<notin> set (timer_queue s)" and "0 \<le> tmout \<or> tmout = TMO_FEVR" and "tmout \<le> INT_MAX"
    and "0 \<le> sint (current_time s)" and "sint (current_time s) < 2 ^ 61"
  shows "timer_wf (timer_insert e tmout cb s)"
proof (cases "tmout = TMO_FEVR")
  case True
  then show ?thesis using assms upd_tmeb_wf by (simp add: timer_insert_def Let_def)
next
  case False
  define s1 where "s1 = upd_tmeb e (\<lambda>x. x\<lparr>tm_time := current_time s + word_of_int tmout + ucast (timer_period s)\<rparr>)
      (upd_tmeb e (\<lambda>x. x\<lparr>tm_callback := cb\<rparr>) s)"
  have i: "timer_insert e tmout cb s = enqueue_tmeb e s1"
    using False by (simp add: timer_insert_def Let_def s1_def ll_add_def ltoll_def uitoll_def)
  have w: "timer_wf s1" using assms by (simp add: s1_def upd_tmeb_wf)
  have "sint (current_time s + word_of_int tmout + ucast (timer_period s)) = sint (current_time s) + tmout + uint (timer_period s)"
    using event_time assms False by blast
  moreover have "uint (timer_period s) < 2 ^ 32" using uint_lt2p [of "timer_period s"] by simp
  ultimately have "time_ok (etime s1 e)"
    using assms False by (simp add: time_ok_def s1_def tmeb_at_upd INT_MAX_def)
  with w assms(2) show ?thesis by (simp add: i enqueue_tmeb_wf s1_def)
qed

lemma timer_insert_place:
  assumes w: "timer_wf s" and e: "e \<notin> set (timer_queue s)" and t: "0 \<le> tmout" "tmout \<le> INT_MAX"
    and c: "0 \<le> sint (current_time s)" "sint (current_time s) < 2 ^ 61"
  shows "sint (etime (timer_insert e tmout cb s) e) = sint (current_time s) + tmout + uint (timer_period s) \<and>
     tm_callback (tmeb_at (timer_insert e tmout cb s) e) = cb \<and>
     (\<forall>x. x \<noteq> e \<longrightarrow> tmeb_at (timer_insert e tmout cb s) x = tmeb_at s x) \<and>
     (\<exists>ys zs. timer_queue s = ys @ zs \<and> timer_queue (timer_insert e tmout cb s) = ys @ e # zs \<and>
        (\<forall>x\<in>set ys. sint (etime s x) \<le> sint (current_time s) + tmout + uint (timer_period s)) \<and>
        (\<forall>x\<in>set zs. sint (current_time s) + tmout + uint (timer_period s) < sint (etime s x)))"
proof -
  define T where "T = current_time s + word_of_int tmout + ucast (timer_period s)"
  define V where "V = sint (current_time s) + tmout + uint (timer_period s)"
  have V: "sint T = V" unfolding T_def V_def by (rule event_time [OF t c])
  have f: "tmout \<noteq> TMO_FEVR" using t by (simp add: TMO_FEVR_def)
  define s1 where "s1 = upd_tmeb e (\<lambda>x. x\<lparr>tm_time := T\<rparr>) (upd_tmeb e (\<lambda>x. x\<lparr>tm_callback := cb\<rparr>) s)"
  have i: "timer_insert e tmout cb s = enqueue_tmeb e s1"
    using f by (simp add: timer_insert_def Let_def s1_def T_def ll_add_def ltoll_def uitoll_def)
  have at: "tmeb_at s1 x = (if x = e then (tmeb_at s e)\<lparr>tm_callback := cb, tm_time := T\<rparr> else tmeb_at s x)" for x
    by (simp add: s1_def tmeb_at_upd)
  have "uint (timer_period s) < 2 ^ 32" using uint_lt2p [of "timer_period s"] by simp
  then have "time_ok T" using t c V by (simp add: time_ok_def V_def INT_MAX_def)
  moreover have q: "timer_queue s1 = timer_queue s" by (simp add: s1_def)
  ultimately have "timer_ok s1 e" using w e by (auto simp: timer_ok_def at timer_wf_def)
  from timerq.enq_que [OF this] have "timer_queue (enqueue_tmeb e s1) = insert_before (\<lambda>x. V < sint (etime s1 x)) e (timer_queue s)"
    by (simp add: at V q)
  also have "\<dots> = insert_before (\<lambda>x. V < sint (etime s x)) e (timer_queue s)"
    by (rule insert_before_cong) (use e in \<open>auto simp: at\<close>)
  finally show ?thesis
    using insert_before_place [of "\<lambda>x. sint (etime s x)" "timer_queue s" V e] w V
    by (auto simp: i at timer_wf_def V_def [symmetric])
qed

lemma timer_delete_wf: "timer_wf s \<Longrightarrow> timer_wf (timer_delete e s)"
  by (auto simp: timer_wf_def timer_delete_def sorted_map_remove1 dest: notin_set_remove1)

end
