(* ===== verification/Kernel_Inv.thy ===== *)
theory Kernel_Inv
  imports Timer
begin

text \<open>
  The invariant \<open>kinv\<close> on where tasks are: every task is linked into at most one queue, the
  tasks of the ready queue are exactly the executable ones, waiting tasks are in wait queues.
  \<open>kinv_but t\<close> is the invariant in the middle of an operation that has taken task \<open>t\<close> out of its
  queue and not yet put it anywhere; the lemmas say how the primitives move between the two.
\<close>

section \<open>The invariant\<close>

fun place_ok :: "qhead \<Rightarrow> tcb \<Rightarrow> bool" where
  "place_ok (QReady p) c \<longleftrightarrow> p < NUM_PRI \<and> priority c = p \<and> state c = TS_READY \<and> \<not> klockwait c"
| "place_ok QFreeTcb c \<longleftrightarrow> state c = TS_NONEXIST"
| "place_ok (QSem i) c \<longleftrightarrow> is_wait (state c)"
| "place_ok (QFlg i) c \<longleftrightarrow> is_wait (state c)"
| "place_ok (QMbx i) c \<longleftrightarrow> is_wait (state c)"
| "place_ok (QMtx i) c \<longleftrightarrow> is_wait (state c)"
| "place_ok (QMpf i) c \<longleftrightarrow> is_wait (state c)"
| "place_ok (QMpl i) c \<longleftrightarrow> is_wait (state c)"
| "place_ok (QSmbf i) c \<longleftrightarrow> is_wait (state c)"
| "place_ok (QRmbf i) c \<longleftrightarrow> is_wait (state c)"
| "place_ok (QCal i) c \<longleftrightarrow> is_wait (state c)"
| "place_ok (QAcp i) c \<longleftrightarrow> is_wait (state c)"
| "place_ok (QObjLock i) c \<longleftrightarrow> state c = TS_READY \<and> klockwait c"
| "place_ok (QSvcLock l) c \<longleftrightarrow> state c = TS_READY \<and> klockwait c"

definition kinv_but :: "nat \<Rightarrow> kstate \<Rightarrow> bool" where
  "kinv_but t s \<longleftrightarrow> sched_wf s \<and> (\<forall>q. distinct (ques s q)) \<and>
     (\<forall>q q' x. x \<in> set (ques s q) \<and> x \<in> set (ques s q') \<longrightarrow> q = q') \<and>
     (\<forall>x. pri s x < NUM_PRI) \<and> (\<forall>q x. x \<in> set (ques s q) \<longrightarrow> place_ok q (tcbs s x)) \<and>
     (\<forall>x. x \<noteq> t \<and> state (tcbs s x) = TS_READY \<and> \<not> klockwait (tcbs s x) \<longrightarrow> x \<in> set (rdy s)) \<and>
     (\<forall>x. x \<noteq> t \<and> klockwait (tcbs s x) \<longrightarrow> state (tcbs s x) = TS_READY) \<and>
     (\<forall>q. t \<notin> set (ques s q))"

definition kinv :: "kstate \<Rightarrow> bool" where
  "kinv s \<longleftrightarrow> sched_wf s \<and> (\<forall>q. distinct (ques s q)) \<and>
     (\<forall>q q' x. x \<in> set (ques s q) \<and> x \<in> set (ques s q') \<longrightarrow> q = q') \<and>
     (\<forall>x. pri s x < NUM_PRI) \<and> (\<forall>q x. x \<in> set (ques s q) \<longrightarrow> place_ok q (tcbs s x)) \<and>
     (\<forall>x. state (tcbs s x) = TS_READY \<and> \<not> klockwait (tcbs s x) \<longrightarrow> x \<in> set (rdy s)) \<and>
     (\<forall>x. klockwait (tcbs s x) \<longrightarrow> state (tcbs s x) = TS_READY)"

section \<open>What the invariant reads\<close>

lemma sched_wf_cong:
  assumes "\<And>p. p < NUM_PRI \<Longrightarrow> ques s' (QReady p) = ques s (QReady p)"
    and "\<And>x. x \<in> set (rdy s) \<Longrightarrow> pri s' x = pri s x"
    and "rq_bitmap s' = rq_bitmap s" and "rq_top s' = rq_top s" and "num_proc s' = num_proc s"
    and "schedtsk s' = schedtsk s"
    and "\<And>q x. \<not> ready_head q \<Longrightarrow> x \<in> set (ques s' q) \<Longrightarrow> x \<in> set (rdy s) \<Longrightarrow> x \<in> set (ques s q)"
    and "sched_wf s"
  shows "sched_wf s'" and "rdy s' = rdy s"
proof -
  note c = rq_cong [of s' s, OF assms(1-5)]
  show r: "rdy s' = rdy s" by (rule c)
  show "sched_wf s'" using assms(6-8) r c(2) assms(5) unfolding sched_wf_def rdy_excl_def sched_in_def by auto
qed

lemma kinv_cong:
  assumes "tcbs s' = tcbs s" "ques s' = ques s" "rq_bitmap s' = rq_bitmap s" "rq_top s' = rq_top s"
    "num_proc s' = num_proc s" "schedtsk s' = schedtsk s"
  shows "kinv s' \<longleftrightarrow> kinv s" and "kinv_but t s' \<longleftrightarrow> kinv_but t s" and "rdy s' = rdy s"
proof -
  have c: "rdy s' = rdy s" "rq_wf s' = rq_wf s" by (rule rq_cong; simp add: assms)+
  then show "rdy s' = rdy s" by simp
  have "sched_wf s' \<longleftrightarrow> sched_wf s" using c assms by (simp add: sched_wf_def rdy_excl_def sched_in_def)
  then show "kinv s' \<longleftrightarrow> kinv s" "kinv_but t s' \<longleftrightarrow> kinv_but t s"
    using c assms by (simp_all add: kinv_def kinv_but_def)
qed

lemma kinv_fields [simp]:
  "kinv (s\<lparr>timer_queue := tq\<rparr>) \<longleftrightarrow> kinv s" "kinv (s\<lparr>semtab := st\<rparr>) \<longleftrightarrow> kinv s"
  "kinv (s\<lparr>flgtab := ft\<rparr>) \<longleftrightarrow> kinv s" "kinv (s\<lparr>mbxtab := mt\<rparr>) \<longleftrightarrow> kinv s" "kinv (s\<lparr>mtxtab := xt\<rparr>) \<longleftrightarrow> kinv s"
  "kinv (s\<lparr>domtab := dt\<rparr>) \<longleftrightarrow> kinv s" "kinv (s\<lparr>hashcb := h\<rparr>) \<longleftrightarrow> kinv s" "kinv (s\<lparr>umem := u\<rparr>) \<longleftrightarrow> kinv s"
  "kinv (s\<lparr>ko := k0\<rparr>) \<longleftrightarrow> kinv s"
  "kinv (s\<lparr>msgs := ms\<rparr>) \<longleftrightarrow> kinv s" "kinv (s\<lparr>current_time := ct\<rparr>) \<longleftrightarrow> kinv s"
  "kinv (s\<lparr>cyc_tmeb := cy\<rparr>) \<longleftrightarrow> kinv s" "kinv (s\<lparr>alm_tmeb := al\<rparr>) \<longleftrightarrow> kinv s"
  "kinv (s\<lparr>rq_klocktsk := k\<rparr>) \<longleftrightarrow> kinv s" "kinv (s\<lparr>rq_chg := b\<rparr>) \<longleftrightarrow> kinv s"
  "kinv (s\<lparr>ctxtsk := c\<rparr>) \<longleftrightarrow> kinv s" "kinv (s\<lparr>dispatch_disabled := d\<rparr>) \<longleftrightarrow> kinv s"
  by (rule kinv_cong; simp)+

lemma kinv_but_fields [simp]:
  "kinv_but t (s\<lparr>timer_queue := tq\<rparr>) \<longleftrightarrow> kinv_but t s" "kinv_but t (s\<lparr>semtab := st\<rparr>) \<longleftrightarrow> kinv_but t s"
  "kinv_but t (s\<lparr>mtxtab := xt\<rparr>) \<longleftrightarrow> kinv_but t s" "kinv_but t (s\<lparr>mbxtab := mt\<rparr>) \<longleftrightarrow> kinv_but t s"
  "kinv_but t (s\<lparr>flgtab := ft\<rparr>) \<longleftrightarrow> kinv_but t s" "kinv_but t (s\<lparr>umem := u\<rparr>) \<longleftrightarrow> kinv_but t s"
  "kinv_but t (s\<lparr>ko := k0\<rparr>) \<longleftrightarrow> kinv_but t s"
  "kinv_but t (s\<lparr>rq_klocktsk := k\<rparr>) \<longleftrightarrow> kinv_but t s"
  "kinv_but t (s\<lparr>cyc_tmeb := cy\<rparr>) \<longleftrightarrow> kinv_but t s" "kinv_but t (s\<lparr>alm_tmeb := al\<rparr>) \<longleftrightarrow> kinv_but t s"
  by (rule kinv_cong; simp)+

lemma kinv_dest:
  assumes "kinv s"
  shows "sched_wf s" "rq_wf s" "rdy_excl s" "pri s x < NUM_PRI" "distinct (ques s q)"
    "x \<in> set (ques s q) \<Longrightarrow> place_ok q (tcbs s x)"
    "x \<in> set (ques s q) \<Longrightarrow> x \<in> set (ques s q') \<Longrightarrow> q = q'"
  using assms by (auto simp: kinv_def sched_wf_def)

lemma kinv_rdy:
  assumes "kinv s"
  shows "x \<in> set (rdy s) \<longleftrightarrow> state (tcbs s x) = TS_READY \<and> \<not> klockwait (tcbs s x)"
proof
  assume "x \<in> set (rdy s)"
  then have "x \<in> set (ques s (QReady (pri s x)))" using assms by (simp add: rdy_mem kinv_def sched_wf_def rq_wf_def)
  then show "state (tcbs s x) = TS_READY \<and> \<not> klockwait (tcbs s x)" using kinv_dest(6) [OF assms] by fastforce
qed (use assms in \<open>simp add: kinv_def\<close>)

lemma kinv_waitD:
  "kinv s \<Longrightarrow> is_wait (state (tcbs s x)) \<Longrightarrow> x \<notin> set (rdy s)" "kinv s \<Longrightarrow> is_wait (state (tcbs s x)) \<Longrightarrow> \<not> klockwait (tcbs s x)"
  by (auto simp: kinv_rdy kinv_def)

section \<open>The primitives\<close>

lemma kinv_but_remove:
  assumes k: "kinv s" and t: "t \<notin> set (rdy s)"
  shows "kinv_but t (QueRemove_tsk t s)"
proof -
  let ?s = "QueRemove_tsk t s"
  have pp: "rq_prios s" using k by (simp add: kinv_def sched_wf_def rq_wf_def)
  have nt: "t \<notin> set (ques s (QReady p))" if "p < NUM_PRI" for p
    using t that rdy_mem [OF pp, of t] rq_priosD [OF pp that, of t] by auto
  have q: "ques ?s q = remove1 t (ques s q)" for q by (simp add: QueRemove_tsk_def)
  have sel: "tcbs ?s = tcbs s" "num_proc ?s = num_proc s" "rq_top ?s = rq_top s" "rq_bitmap ?s = rq_bitmap s" "schedtsk ?s = schedtsk s"
    by (simp_all add: QueRemove_tsk_def)
  have w: "sched_wf ?s" "rdy ?s = rdy s"
    by (rule sched_wf_cong [of ?s s];
        use nt kinv_dest(1) [OF k] in \<open>auto simp: q sel dest: subsetD [OF set_remove1_subset]\<close>)+
  have "distinct (ques s q)" for q using k by (simp add: kinv_dest)
  with w k show ?thesis
    by (auto simp: kinv_but_def kinv_def q sel)
qed

lemma kinv_but_upd:
  assumes k: "kinv_but t s" and p: "priority (f (tcbs s t)) < NUM_PRI"
  shows "kinv_but t (upd_tcb t f s)" and "rdy (upd_tcb t f s) = rdy s"
proof -
  have t: "t \<notin> set (rdy s)" using k by (auto simp: kinv_but_def rdy_def)
  have w: "sched_wf (upd_tcb t f s)" "rdy (upd_tcb t f s) = rdy s"
    by (rule sched_wf_cong [of _ s]; use k t in \<open>auto simp: kinv_but_def\<close>)+
  show "rdy (upd_tcb t f s) = rdy s" by (rule w)
  show "kinv_but t (upd_tcb t f s)" using k w p by (auto simp: kinv_but_def)
qed

lemma kinv_but_ready:
  assumes k: "kinv_but t s" and w: "\<not> klockwait (tcbs s t)"
  shows "kinv (make_ready t s)" and "rdy (make_ready t s) = insert_before (\<lambda>x. pri s x > pri s t) t (rdy s)"
proof -
  let ?s = "make_ready t s"
  have t: "t \<notin> set (rdy s)" using k by (auto simp: kinv_but_def rdy_def)
  have p: "pri s t < NUM_PRI" using k by (simp add: kinv_but_def)
  have sw: "sched_wf s" using k by (simp add: kinv_but_def)
  note m = make_ready_wf [OF sw t p]
  have nq: "\<And>q. \<not> ready_head q \<Longrightarrow> t \<notin> set (ques s q)" using k by (simp add: kinv_but_def)
  have r: "rdy ?s = insert_before (\<lambda>x. pri s x > pri s t) t (rdy s)" and s: "sched_wf ?s"
    using m [OF nq] by auto
  have q: "ques ?s q = (if q = QReady (pri s t) then ques s q @ [t] else ques s q)" for q
    by (simp add: make_ready_def ready_queue_insert_sel QueInsert_tail_def set_que_def)
  have a: "distinct (ques s q)" "x \<in> set (ques s q) \<Longrightarrow> x \<in> set (ques s q') \<Longrightarrow> q = q'" "t \<notin> set (ques s q)"
      "x \<in> set (ques s q) \<Longrightarrow> place_ok q (tcbs s x)" for q q' x
    using k by (auto simp: kinv_but_def)
  have "distinct (ques ?s q)" for q using a by (simp add: q)
  moreover have "q = q'" if "x \<in> set (ques ?s q)" "x \<in> set (ques ?s q')" for q q' x
    using that a by (auto simp: q split: if_splits)
  moreover have "place_ok q (tcbs ?s x)" if "x \<in> set (ques ?s q)" for q x
    using that w p a(4) [of x q] a(3) by (auto simp: q split: if_splits)
  moreover have "pri ?s x < NUM_PRI" for x using k p by (simp add: kinv_but_def)
  ultimately show "kinv ?s"
    using s k w by (auto simp: kinv_def r kinv_but_def)
  show "rdy ?s = insert_before (\<lambda>x. pri s x > pri s t) t (rdy s)" by (rule r)
qed

lemma kinv_but_rest:
  assumes "kinv_but t s" and "state (tcbs s t) \<noteq> TS_READY" and "\<not> klockwait (tcbs s t)"
  shows "kinv s"
  unfolding kinv_def
proof (intro conjI allI impI)
  fix x assume x: "state (tcbs s x) = TS_READY \<and> \<not> klockwait (tcbs s x)"
  then have "x \<noteq> t" using assms(2) by auto
  with x assms(1) show "x \<in> set (rdy s)" unfolding kinv_but_def by blast
next
  fix x assume x: "klockwait (tcbs s x)"
  then have "x \<noteq> t" using assms(3) by auto
  with x assms(1) show "state (tcbs s x) = TS_READY" unfolding kinv_but_def by blast
next
  fix q q' x assume "x \<in> set (ques s q) \<and> x \<in> set (ques s q')"
  then show "q = q'" using assms(1) unfolding kinv_but_def by blast
qed (use assms(1) in \<open>simp_all add: kinv_but_def\<close>)

text \<open>Linking the task into a queue that is not a ready queue.\<close>

lemma kinv_but_enqueue:
  assumes k: "kinv_but t s" and q: "\<not> ready_head q" "place_ok q (tcbs s t)" and xs: "set xs = insert t (set (ques s q))"
    "distinct xs" and st: "state (tcbs s t) = TS_READY \<longleftrightarrow> klockwait (tcbs s t)"
  shows "kinv (set_que q xs s)" and "rdy (set_que q xs s) = rdy s"
proof -
  let ?s = "set_que q xs s"
  have qs: "ques ?s q' = (if q' = q then xs else ques s q')" for q' by (simp add: set_que_def)
  have sel: "tcbs ?s = tcbs s" "num_proc ?s = num_proc s" "rq_top ?s = rq_top s" "rq_bitmap ?s = rq_bitmap s" "schedtsk ?s = schedtsk s"
    by (simp_all add: set_que_def)
  have nr: "q \<noteq> QReady p" if "p < NUM_PRI" for p using q(1) that by (auto simp: ready_head_def)
  have t: "t \<notin> set (rdy s)" using k by (auto simp: kinv_but_def rdy_def)
  have sw: "sched_wf s" using k by (simp add: kinv_but_def)
  have w: "sched_wf ?s \<and> rdy ?s = rdy s"
    using sw t xs nr by (intro conjI sched_wf_cong [of ?s s]) (auto simp: qs sel split: if_splits)
  then show "rdy ?s = rdy s" by simp
  have a: "distinct (ques s q)" "x \<in> set (ques s q) \<Longrightarrow> x \<in> set (ques s q') \<Longrightarrow> q = q'" "t \<notin> set (ques s q)"
      "x \<in> set (ques s q) \<Longrightarrow> place_ok q (tcbs s x)" for q q' x
    using k by (auto simp: kinv_but_def)
  have "q1 = q2" if "x \<in> set (ques ?s q1)" "x \<in> set (ques ?s q2)" for q1 q2 x
    using that a xs(1) by (auto simp: qs split: if_splits)
  moreover have "place_ok q' (tcbs ?s x)" if "x \<in> set (ques ?s q')" for q' x
    using that a q(2) xs(1) by (auto simp: qs sel split: if_splits)
  moreover have "distinct (ques ?s q')" for q' using a xs(2) by (simp add: qs)
  moreover have "x \<in> set (rdy ?s)" if "state (tcbs s x) = TS_READY" "\<not> klockwait (tcbs s x)" for x
    using that k w st by (cases "x = t") (auto simp: kinv_but_def)
  moreover have "state (tcbs s x) = TS_READY" if "klockwait (tcbs s x)" for x
    using that k st by (cases "x = t") (auto simp: kinv_but_def)
  ultimately show "kinv ?s"
    using w k unfolding kinv_def sel by (auto simp: kinv_but_def)
qed

text \<open>
  A state whose ready queue is well formed and whose other queues only lost entries: the queues
  are still disjoint and hold tasks in the right states.
\<close>

lemma queues_shrink:
  assumes k: "kinv s" and w: "sched_wf s'" and r: "set (rdy s') \<subseteq> set (rdy s)"
    and q: "\<And>q. \<not> ready_head q \<Longrightarrow> set (ques s' q) \<subseteq> set (ques s q) \<and> distinct (ques s' q)"
    and c: "\<And>x. pri s' x = pri s x \<and> state (tcbs s' x) = state (tcbs s x) \<and> klockwait (tcbs s' x) = klockwait (tcbs s x)"
  shows "distinct (ques s' q)" and "x \<in> set (ques s' q) \<Longrightarrow> place_ok q (tcbs s' x)"
    and "x \<in> set (ques s' q) \<Longrightarrow> x \<in> set (ques s' q') \<Longrightarrow> q = q'"
proof -
  have rq: "rq_prios s'" "rq_wf s'" using w by (simp_all add: sched_wf_def rq_wf_def)
  have rh: "x \<in> set (rdy s) \<and> x \<in> set (rdy s') \<and> pri s' x = p" if "x \<in> set (ques s' (QReady p))" "p < NUM_PRI" for x p
    using that rq_priosD [OF rq(1) that(2,1)] rdy_mem [OF rq(1), of x] r by auto
  show "distinct (ques s' q)" using q [of q] rq(2) by (cases "ready_head q") (auto simp: ready_head_def rq_wf_def)
  show "place_ok q (tcbs s' x)" if x: "x \<in> set (ques s' q)"
  proof (cases "ready_head q")
    case True
    then show ?thesis using rh x c kinv_rdy [OF k, of x] by (auto simp: ready_head_def)
  next
    case False
    then have "place_ok q (tcbs s x)" using q x kinv_dest(6) [OF k] by blast
    then show ?thesis using c [of x] by (cases q) auto
  qed
  show "q = q'" if x: "x \<in> set (ques s' q)" "x \<in> set (ques s' q')"
  proof -
    have mix: False if "ready_head a" "\<not> ready_head b" "x \<in> set (ques s' a)" "x \<in> set (ques s' b)" for a b
      using that rh w unfolding sched_wf_def rdy_excl_def by (auto simp: ready_head_def)
    show ?thesis
    proof (cases "ready_head q"; cases "ready_head q'")
      assume "ready_head q" "ready_head q'"
      then show ?thesis using rh x by (auto simp: ready_head_def)
    next
      assume "\<not> ready_head q" "\<not> ready_head q'"
      then show ?thesis using q x kinv_dest(7) [OF k] by blast
    qed (use mix x in blast)+
  qed
qed

lemma kinv_frame:
  assumes k: "kinv s" and f: "sched_frame s s'" and w: "sched_wf s'"
  shows "kinv s'"
proof -
  note c = sched_frame_tcb [OF f] sched_frame_rdy [OF f] sched_frame_ques [OF f]
  have "\<And>q. \<not> ready_head q \<Longrightarrow> set (ques s' q) \<subseteq> set (ques s q) \<and> distinct (ques s' q)"
    using c kinv_dest(5) [OF k] by simp
  note s = queues_shrink [OF k w _ this]
  show ?thesis
    unfolding kinv_def using w s k c by (auto simp: kinv_def)
qed

lemma update_schedtsk_kinv:
  assumes "kinv s"
  shows "\<exists>s'. update_schedtsk s = Some s' \<and> kinv s' \<and> sched_frame s s'"
  using update_schedtsk_wf [OF kinv_dest(1) [OF assms]] kinv_frame [OF assms] by blast

lemma kinv_but_non_ready:
  assumes k: "kinv s" and t: "t \<in> set (rdy s)"
  shows "\<exists>s'. make_non_ready t s = Some s' \<and> kinv_but t s' \<and> set (rdy s') = set (rdy s) - {t} \<and>
     sched_frame (ready_queue_delete t s) s' \<and> tcbs s' = tcbs s"
proof -
  have kl: "\<not> klockwait (tcbs s t)" using k t by (simp add: kinv_rdy)
  from make_non_ready_wf [OF kinv_dest(1) [OF k] t kl] obtain s' where
    m: "make_non_ready t s = Some s'" and w: "sched_wf s'" and r: "set (rdy s') = set (rdy s) - {t}"
    and f: "sched_frame (ready_queue_delete t s) s'" and tc: "tcbs s' = tcbs s" by blast
  have q: "ques s' q = remove1 t (ques s q)" if "\<not> ready_head q" for q
    using sched_frame_ques [OF f that] by simp
  have sh: "\<And>q. \<not> ready_head q \<Longrightarrow> set (ques s' q) \<subseteq> set (ques s q) \<and> distinct (ques s' q)"
    using q kinv_dest(5) [OF k] by (simp add: set_remove1_subset)
  have r': "set (rdy s') \<subseteq> set (rdy s)" using r by blast
  note s = queues_shrink [OF k w r' sh]
  have nt: "t \<notin> set (ques s' q)" for q
  proof (cases "ready_head q")
    case True
    have "rq_prios s'" using w by (simp add: sched_wf_def rq_wf_def)
    then show ?thesis using True r rq_priosD [of s' _ t] rdy_mem [of s' t] by (fastforce simp: ready_head_def)
  next
    case False
    then show ?thesis using q kinv_dest(5) [OF k] by simp
  qed
  have "kinv_but t s'"
    unfolding kinv_but_def using w s nt k r tc by (auto simp: kinv_def)
  with m r f tc show ?thesis by blast
qed

end
