(* ===== verification/Wait.thy ===== *)
theory Wait
  imports Kernel_Inv
begin

text \<open>
  Waiting and wait release, \<^verbatim>\<open>wait.h\<close> and \<^verbatim>\<open>wait.c\<close>. The functions that call the
  \<open>rel_wai_hook\<close> of the task's \<open>WSPEC\<close> take the hook functions as the argument \<open>rh\<close>; the object
  modules define the hooks, and \<open>Hooks\<close> ties them together. \<open>prid\<close> is \<open>get_prid()\<close>.
\<close>

section \<open>Release\<close>

definition make_non_wait :: "nat \<Rightarrow> kstate \<Rightarrow> kstate" where
  "make_non_wait t s =
    (if state (tcbs s t) = TS_WAIT then make_ready t s else upd_tcb t (\<lambda>c. c\<lparr>state := TS_SUSPEND\<rparr>) s)"

definition wait_release :: "nat \<Rightarrow> kstate \<Rightarrow> kstate" where
  "wait_release t s = make_non_wait t (QueRemove_tsk t (timer_delete (TmTsk t) s))"

definition wait_release_ok :: "nat \<Rightarrow> kstate \<Rightarrow> kstate" where
  "wait_release_ok t s = wait_release t (upd_tcb t (\<lambda>c. c\<lparr>wercd := E_OK\<rparr>) s)"

definition wait_release_ok_ercd :: "nat \<Rightarrow> ER \<Rightarrow> kstate \<Rightarrow> kstate" where
  "wait_release_ok_ercd t ercd s = wait_release t (upd_tcb t (\<lambda>c. c\<lparr>wercd := ercd\<rparr>) s)"

definition wait_release_ng :: "(hook \<Rightarrow> nat \<Rightarrow> kstate \<Rightarrow> kstate option) \<Rightarrow> nat \<Rightarrow> ER \<Rightarrow> kstate \<Rightarrow> kstate option" where
  "wait_release_ng rh t ercd s =
    (let s = wait_release t (upd_tcb t (\<lambda>c. c\<lparr>wercd := ercd\<rparr>) s)
     in case rel_wai_hook (wspec_at (wspec (tcbs s t))) of None \<Rightarrow> Some s | Some h \<Rightarrow> rh h t s)"

definition wait_release_tmout :: "(hook \<Rightarrow> nat \<Rightarrow> kstate \<Rightarrow> kstate option) \<Rightarrow> nat \<Rightarrow> kstate \<Rightarrow> kstate option" where
  "wait_release_tmout rh t s =
    (let s = make_non_wait t (QueRemove_tsk t s)
     in case rel_wai_hook (wspec_at (wspec (tcbs s t))) of None \<Rightarrow> Some s | Some h \<Rightarrow> rh h t s)"

definition wait_cancel :: "nat \<Rightarrow> kstate \<Rightarrow> kstate" where
  "wait_cancel t s = QueRemove_tsk t (timer_delete (TmTsk t) s)"

partial_function (option) wait_delete :: "qhead \<Rightarrow> kstate \<Rightarrow> kstate option" where
  "wait_delete q s =
    (case ques s q of
       [] \<Rightarrow> Some s
     | t # _ \<Rightarrow> wait_delete q (wait_release t (upd_tcb t (\<lambda>c. c\<lparr>wercd := E_DLT\<rparr>) s)))"

definition wait_tskid :: "qhead \<Rightarrow> kstate \<Rightarrow> ID" where
  "wait_tskid q s = (case ques s q of [] \<Rightarrow> 0 | t # _ \<Rightarrow> tskid (tcbs s t))"

section \<open>Entering the wait state\<close>

definition set_nodiswai :: "nat \<Rightarrow> ATR \<Rightarrow> kstate \<Rightarrow> kstate" where
  "set_nodiswai t atr s = upd_tcb t (\<lambda>c. c\<lparr>nodiswai := atr AND TA_NODISWAI \<noteq> 0\<rparr>) s"

text \<open>The \<open>switch\<close> on the task state that \<open>make_wait\<close> and \<open>make_wait_reltim\<close> share.\<close>

definition enter_wait :: "nat \<Rightarrow> kstate \<Rightarrow> kstate option" where
  "enter_wait t s =
    (case state (tcbs s t) of
       TS_READY \<Rightarrow> do { s \<leftarrow> make_non_ready t s; Some (upd_tcb t (\<lambda>c. c\<lparr>state := TS_WAIT\<rparr>) s) }
     | TS_SUSPEND \<Rightarrow> Some (upd_tcb t (\<lambda>c. c\<lparr>state := TS_WAITSUS\<rparr>) s)
     | _ \<Rightarrow> Some s)"

definition make_wait :: "nat \<Rightarrow> TMO \<Rightarrow> ATR \<Rightarrow> kstate \<Rightarrow> kstate option" where
  "make_wait prid tmout atr s = do {
     t \<leftarrow> ctxtsk s prid;
     s \<leftarrow> enter_wait t s;
     Some (timer_insert (TmTsk t) tmout (Some (Cb_wait_release_tmout t)) (set_nodiswai t atr s))
   }"

definition make_wait_reltim :: "nat \<Rightarrow> UW \<Rightarrow> ATR \<Rightarrow> kstate \<Rightarrow> kstate option" where
  "make_wait_reltim prid tmout atr s = do {
     t \<leftarrow> ctxtsk s prid;
     s \<leftarrow> enter_wait t s;
     Some (timer_insert_reltim (TmTsk t) tmout (Some (Cb_wait_release_tmout t)) (set_nodiswai t atr s))
   }"

definition queue_insert_tpri :: "qhead \<Rightarrow> nat \<Rightarrow> kstate \<Rightarrow> kstate" where
  "queue_insert_tpri q t s = set_que q (insert_before (\<lambda>x. pri s x > pri s t) t (ques s q)) s"

text \<open>The common part of the object control blocks.\<close>

record GCB =
  wait_queue :: qhead
  objid :: ID
  objatr :: ATR

definition gcb_insert :: "GCB \<Rightarrow> nat \<Rightarrow> kstate \<Rightarrow> kstate" where
  "gcb_insert gcb t s =
    (if objatr gcb AND TA_TPRI \<noteq> 0 then queue_insert_tpri (wait_queue gcb) t s
     else QueInsert_tail t (wait_queue gcb) s)"

definition gcb_make_wait :: "nat \<Rightarrow> GCB \<Rightarrow> TMO \<Rightarrow> kstate \<Rightarrow> kstate option" where
  "gcb_make_wait prid gcb tmout s = do {
     t \<leftarrow> ctxtsk s prid;
     s \<leftarrow> make_wait prid tmout (objatr gcb) (upd_tcb t (\<lambda>c. c\<lparr>wid := objid gcb\<rparr>) s);
     Some (gcb_insert gcb t s)
   }"

definition is_diswai :: "GCB \<Rightarrow> tcb \<Rightarrow> UW \<Rightarrow> bool" where
  "is_diswai gcb c wait \<longleftrightarrow> waitmask c AND wait \<noteq> 0 \<and> objatr gcb AND TA_NODISWAI = 0"

definition gcb_make_wait_with_diswai :: "nat \<Rightarrow> GCB \<Rightarrow> TMO \<Rightarrow> kstate \<Rightarrow> kstate option" where
  "gcb_make_wait_with_diswai prid gcb tmout s = do {
     t \<leftarrow> ctxtsk s prid;
     if is_diswai gcb (tcbs s t) (tskwait (wspec_at (wspec (tcbs s t)))) then
       Some (upd_tcb t (\<lambda>c. c\<lparr>wercd := E_DISWAI\<rparr>) s)
     else
       (let s = upd_tcb t (\<lambda>c. c\<lparr>wercd := E_TMOUT\<rparr>) s
        in if tmout \<noteq> TMO_POL then gcb_make_wait prid gcb tmout s else Some s)
   }"

definition gcb_change_priority :: "GCB \<Rightarrow> nat \<Rightarrow> kstate \<Rightarrow> kstate" where
  "gcb_change_priority gcb t s = queue_insert_tpri (wait_queue gcb) t (QueRemove_tsk t s)"

definition gcb_top_of_wait_queue :: "GCB \<Rightarrow> nat \<Rightarrow> kstate \<Rightarrow> nat" where
  "gcb_top_of_wait_queue gcb t s =
    (case ques s (wait_queue gcb) of
       [] \<Rightarrow> t
     | q # _ \<Rightarrow> if objatr gcb AND TA_TPRI = 0 then q else if pri s t < pri s q then t else q)"

section \<open>Priority-ordered wait queues\<close>

interpretation waitq: stable_queue pri "\<lambda>s. ques s q" "queue_insert_tpri q" "\<lambda>s t. True" for q
  by unfold_locales (simp_all add: queue_insert_tpri_def set_que_def)

section \<open>What the operations change\<close>

lemma timer_delete_sel [simp]:
  "tcbs (timer_delete e s) = tcbs s" "ques (timer_delete e s) = ques s" "num_proc (timer_delete e s) = num_proc s"
  "semtab (timer_delete e s) = semtab s" "flgtab (timer_delete e s) = flgtab s" "mbxtab (timer_delete e s) = mbxtab s"
  "mtxtab (timer_delete e s) = mtxtab s" "ctxtsk (timer_delete e s) = ctxtsk s" "rdy (timer_delete e s) = rdy s"
  "domtab (timer_delete e s) = domtab s" "hashcb (timer_delete e s) = hashcb s" "umem (timer_delete e s) = umem s" "ko (timer_delete e s) = ko s"
  "msgs (timer_delete e s) = msgs s" "schedtsk (timer_delete e s) = schedtsk s"
  by (simp_all add: timer_delete_def rdy_def)

lemma kinv_timer_delete [simp]: "kinv (timer_delete e s) \<longleftrightarrow> kinv s"
  by (simp add: timer_delete_def)

lemma QueRemove_tsk_sel [simp]:
  "tcbs (QueRemove_tsk e s) = tcbs s" "ques (QueRemove_tsk t s) q = remove1 t (ques s q)" "num_proc (QueRemove_tsk e s) = num_proc s"
  "semtab (QueRemove_tsk e s) = semtab s" "flgtab (QueRemove_tsk e s) = flgtab s" "mbxtab (QueRemove_tsk e s) = mbxtab s"
  "mtxtab (QueRemove_tsk e s) = mtxtab s" "ctxtsk (QueRemove_tsk e s) = ctxtsk s"
  "domtab (QueRemove_tsk e s) = domtab s" "hashcb (QueRemove_tsk e s) = hashcb s" "umem (QueRemove_tsk e s) = umem s" "ko (QueRemove_tsk e s) = ko s"
  "msgs (QueRemove_tsk e s) = msgs s" "schedtsk (QueRemove_tsk e s) = schedtsk s" "timer_queue (QueRemove_tsk e s) = timer_queue s"
  by (simp_all add: QueRemove_tsk_def)

lemma wait_release_frame [simp]:
  "num_proc (wait_release t s) = num_proc s" "semtab (wait_release t s) = semtab s" "flgtab (wait_release t s) = flgtab s"
  "mbxtab (wait_release t s) = mbxtab s" "mtxtab (wait_release t s) = mtxtab s" "domtab (wait_release t s) = domtab s"
  "hashcb (wait_release t s) = hashcb s" "umem (wait_release t s) = umem s" "ko (wait_release t s) = ko s" "msgs (wait_release t s) = msgs s"
  "ctxtsk (wait_release t s) = ctxtsk s" "schedtsk (wait_release t s) = schedtsk s"
  "timer_queue (wait_release t s) = remove1 (TmTsk t) (timer_queue s)"
  by (simp_all add: wait_release_def make_non_wait_def) (simp_all add: timer_delete_def)

lemma wait_release_tcbs:
  "tcbs (wait_release t s) = (tcbs s)(t := (if state (tcbs s t) = TS_WAIT
     then (tcbs s t)\<lparr>state := TS_READY, slicecnt := 0\<rparr> else (tcbs s t)\<lparr>state := TS_SUSPEND\<rparr>))"
  by (simp add: wait_release_def make_non_wait_def)

lemma wait_release_other [simp]: "x \<noteq> t \<Longrightarrow> tcbs (wait_release t s) x = tcbs s x"
  by (simp add: wait_release_tcbs)

lemma wait_release_same [simp]:
  "pri (wait_release t s) x = pri s x" "wercd (tcbs (wait_release t s) x) = wercd (tcbs s x)"
  "winfo (tcbs (wait_release t s) x) = winfo (tcbs s x)" "wid (tcbs (wait_release t s) x) = wid (tcbs s x)"
  "wspec (tcbs (wait_release t s) x) = wspec (tcbs s x)" "klockwait (tcbs (wait_release t s) x) = klockwait (tcbs s x)"
  "mtxlist (tcbs (wait_release t s) x) = mtxlist (tcbs s x)" "bpriority (tcbs (wait_release t s) x) = bpriority (tcbs s x)"
  "tskid (tcbs (wait_release t s) x) = tskid (tcbs s x)"
  by (auto simp: wait_release_tcbs)

lemma wait_release_ques:
  "(\<And>p. q \<noteq> QReady p) \<Longrightarrow> ques (wait_release t s) q = remove1 t (ques s q)"
  by (simp add: wait_release_def make_non_wait_def)

lemma wait_release_ques_simps [simp]:
  "ques (wait_release t s) (QSem i) = remove1 t (ques s (QSem i))" "ques (wait_release t s) (QFlg i) = remove1 t (ques s (QFlg i))"
  "ques (wait_release t s) (QMbx i) = remove1 t (ques s (QMbx i))" "ques (wait_release t s) (QMtx i) = remove1 t (ques s (QMtx i))"
  "ques (wait_release t s) (QMpf i) = remove1 t (ques s (QMpf i))" "ques (wait_release t s) (QMpl i) = remove1 t (ques s (QMpl i))"
  "ques (wait_release t s) (QSmbf i) = remove1 t (ques s (QSmbf i))" "ques (wait_release t s) (QRmbf i) = remove1 t (ques s (QRmbf i))"
  "ques (wait_release t s) (QCal i) = remove1 t (ques s (QCal i))" "ques (wait_release t s) (QAcp i) = remove1 t (ques s (QAcp i))"
  "ques (wait_release t s) QFreeTcb = remove1 t (ques s QFreeTcb)"
  by (simp_all add: wait_release_ques)

section \<open>Invariants\<close>

text \<open>Fields of a task that the invariant does not read may change.\<close>

lemma kinv_tcb_upd:
  assumes "kinv s" and "priority (f (tcbs s t)) = priority (tcbs s t)" and "state (f (tcbs s t)) = state (tcbs s t)"
    and "klockwait (f (tcbs s t)) = klockwait (tcbs s t)"
  shows "kinv (upd_tcb t f s)" and "rdy (upd_tcb t f s) = rdy s"
proof -
  have w: "sched_wf (upd_tcb t f s)" "rdy (upd_tcb t f s) = rdy s"
    by (rule sched_wf_cong [of _ s]; use assms in \<open>auto simp: kinv_def\<close>)+
  show "rdy (upd_tcb t f s) = rdy s" by (rule w)
  have pl: "place_ok q (tcbs (upd_tcb t f s) x)" if "x \<in> set (ques s q)" for q x
    using kinv_dest(6) [OF assms(1) that] assms(2-) by (cases q) auto
  have d: "state (tcbs (upd_tcb t f s) x) = state (tcbs s x)" "klockwait (tcbs (upd_tcb t f s) x) = klockwait (tcbs s x)"
    "pri (upd_tcb t f s) x = pri s x" for x
    using assms(2-) by simp_all
  show "kinv (upd_tcb t f s)"
    using assms(1) w(1) pl unfolding kinv_def d w(2) upd_tcb_frame by blast
qed

lemma wait_release_kinv:
  assumes k: "kinv s" and w: "is_wait (state (tcbs s t))"
  shows "kinv (wait_release t s)" and "set (rdy (wait_release t s)) =
    (if state (tcbs s t) = TS_WAIT then insert t (set (rdy s)) else set (rdy s))"
proof -
  let ?s = "QueRemove_tsk t (timer_delete (TmTsk t) s)"
  have kt: "kinv (timer_delete (TmTsk t) s)" using k by simp
  have nt: "t \<notin> set (rdy s)" "\<not> klockwait (tcbs s t)" using kinv_waitD [OF k w] by auto
  have b: "kinv_but t ?s" using kinv_but_remove [OF kt, of t] nt by simp
  have r: "rdy ?s = rdy s"
  proof -
    have "distinct (rdy (timer_delete (TmTsk t) s))" using rdy_distinct [OF kinv_dest(2) [OF k]] by simp
    from rdy_remove [OF this, of t] nt show ?thesis by simp
  qed
  show "kinv (wait_release t s)"
  proof (cases "state (tcbs s t) = TS_WAIT")
    case True
    then show ?thesis using kinv_but_ready(1) [OF b] nt by (simp add: wait_release_def make_non_wait_def)
  next
    case False
    have "kinv_but t (upd_tcb t (\<lambda>c. c\<lparr>state := TS_SUSPEND\<rparr>) ?s)"
      by (rule kinv_but_upd [OF b]) (use k in \<open>simp add: kinv_dest\<close>)
    from kinv_but_rest [OF this] show ?thesis
      using False nt by (simp add: wait_release_def make_non_wait_def)
  qed
  show "set (rdy (wait_release t s)) = (if state (tcbs s t) = TS_WAIT then insert t (set (rdy s)) else set (rdy s))"
  proof (cases "state (tcbs s t) = TS_WAIT")
    case True
    then show ?thesis using kinv_but_ready(2) [OF b] nt r by (simp add: wait_release_def make_non_wait_def)
  next
    case False
    have "rdy (upd_tcb t (\<lambda>c. c\<lparr>state := TS_SUSPEND\<rparr>) ?s) = rdy ?s"
      by (rule kinv_but_upd [OF b]) (use k in \<open>simp add: kinv_dest\<close>)
    then show ?thesis using False r by (simp add: wait_release_def make_non_wait_def)
  qed
qed


text \<open>The heads of wait queues.\<close>

fun wait_head :: "qhead \<Rightarrow> bool" where
  "wait_head (QSem i) = True"
| "wait_head (QFlg i) = True"
| "wait_head (QMbx i) = True"
| "wait_head (QMtx i) = True"
| "wait_head (QMpf i) = True"
| "wait_head (QMpl i) = True"
| "wait_head (QSmbf i) = True"
| "wait_head (QRmbf i) = True"
| "wait_head (QCal i) = True"
| "wait_head (QAcp i) = True"
| "wait_head _ = False"

lemma wait_head_place: "wait_head q \<Longrightarrow> place_ok q c \<longleftrightarrow> is_wait (state c)"
  by (cases q) simp_all

lemma wait_head_ready: "wait_head q \<Longrightarrow> \<not> ready_head q"
  by (auto simp: ready_head_def)

lemma wait_head_qready: "wait_head q \<Longrightarrow> q \<noteq> QReady p"
  by auto

lemma wait_headD:
  "kinv s \<Longrightarrow> wait_head q \<Longrightarrow> t \<in> set (ques s q) \<Longrightarrow> is_wait (state (tcbs s t))"
  using kinv_dest(6) wait_head_place by blast

text \<open>What another object than a task keeps over an operation.\<close>

definition objs_same :: "kstate \<Rightarrow> kstate \<Rightarrow> bool" where
  "objs_same s s' \<longleftrightarrow> num_proc s' = num_proc s \<and> ctxtsk s' = ctxtsk s \<and> semtab s' = semtab s \<and> flgtab s' = flgtab s \<and>
     mbxtab s' = mbxtab s \<and> mtxtab s' = mtxtab s \<and> domtab s' = domtab s \<and> hashcb s' = hashcb s \<and>
     umem s' = umem s \<and> ko s' = ko s \<and> msgs s' = msgs s \<and> current_time s' = current_time s \<and> max_tskid s' = max_tskid s"

lemma objs_same_refl [simp]: "objs_same s s"
  by (simp add: objs_same_def)

lemma objs_same_trans: "objs_same a b \<Longrightarrow> objs_same b c \<Longrightarrow> objs_same a c"
  by (simp add: objs_same_def)

lemma objs_same_sched: "sched_frame s s' \<Longrightarrow> objs_same s s'"
  by (simp add: objs_same_def sched_frame_sel)

lemma objs_same_delete: "objs_same s (ready_queue_delete t s)"
  by (simp add: objs_same_def)

lemma objs_same_simps [simp]:
  "objs_same s (upd_tcb t f s')  \<longleftrightarrow> objs_same s s'" "objs_same s (set_que q xs s') \<longleftrightarrow> objs_same s s'"
  "objs_same s (timer_delete e s') \<longleftrightarrow> objs_same s s'" "objs_same s (wait_release t s') \<longleftrightarrow> objs_same s s'"
  "objs_same s (enqueue_tmeb e s') \<longleftrightarrow> objs_same s s'" "objs_same s (QueRemove_tsk t s') \<longleftrightarrow> objs_same s s'"
  by (simp_all add: objs_same_def set_que_def timer_delete_def enqueue_tmeb_def QueRemove_tsk_def)
    (simp add: wait_release_def make_non_wait_def timer_delete_def QueRemove_tsk_def)

lemma objs_same_upd_tmeb [simp]: "objs_same s (upd_tmeb e g s') \<longleftrightarrow> objs_same s s'"
  by (cases e) (simp_all add: objs_same_def)

lemma objs_same_timer_insert [simp]: "objs_same s (timer_insert e tm cb s') \<longleftrightarrow> objs_same s s'"
  by (simp add: timer_insert_def Let_def)

definition task_frame :: "nat \<Rightarrow> kstate \<Rightarrow> kstate \<Rightarrow> bool" where
  "task_frame t s s' \<longleftrightarrow> objs_same s s' \<and> (\<forall>x. x \<noteq> t \<longrightarrow> tcbs s' x = tcbs s x) \<and> pri s' t = pri s t \<and>
     wspec (tcbs s' t) = wspec (tcbs s t) \<and> winfo (tcbs s' t) = winfo (tcbs s t) \<and> wercd (tcbs s' t) = wercd (tcbs s t) \<and>
     mtxlist (tcbs s' t) = mtxlist (tcbs s t) \<and> bpriority (tcbs s' t) = bpriority (tcbs s t)"

lemma enter_wait_ok:
  assumes k: "kinv s" and t: "t \<in> set (rdy s)"
  shows "\<exists>s'. enter_wait t s = Some s' \<and> kinv_but t s' \<and> set (rdy s') = set (rdy s) - {t} \<and>
     (\<forall>q. \<not> ready_head q \<longrightarrow> ques s' q = ques s q) \<and> tcbs s' = (tcbs s)(t := (tcbs s t)\<lparr>state := TS_WAIT\<rparr>) \<and>
     objs_same s s' \<and> timer_queue s' = timer_queue s"
proof -
  from kinv_but_non_ready [OF k t] obtain s1 where m: "make_non_ready t s = Some s1" and b: "kinv_but t s1"
    and r: "set (rdy s1) = set (rdy s) - {t}" and f: "sched_frame (ready_queue_delete t s) s1" and tc: "tcbs s1 = tcbs s"
    by blast
  have st: "state (tcbs s t) = TS_READY" using t by (simp add: kinv_rdy [OF k])
  let ?s = "upd_tcb t (\<lambda>c. c\<lparr>state := TS_WAIT\<rparr>) s1"
  have e: "enter_wait t s = Some ?s" by (simp add: enter_wait_def st m)
  have u: "kinv_but t ?s" "rdy ?s = rdy s1"
    by (rule kinv_but_upd [OF b]; use b in \<open>simp add: kinv_but_def\<close>)+
  have q: "ques s1 q = ques s q" if "\<not> ready_head q" for q
  proof -
    have "t \<notin> set (ques s q)" using t that kinv_dest(3) [OF k] by (simp add: rdy_excl_def)
    then show ?thesis using sched_frame_ques [OF f that] by simp
  qed
  have "objs_same s s1" using objs_same_trans [OF objs_same_delete objs_same_sched [OF f]] .
  then show ?thesis using e u r q tc sched_frame_sel(7) [OF f] by (simp add: sched_frame_sel [OF f])
qed

lemma timer_insert_tsk_sel [simp]:
  "ques (timer_insert e tm cb s) = ques s" "rq_bitmap (timer_insert e tm cb s) = rq_bitmap s"
  "rq_top (timer_insert e tm cb s) = rq_top s" "num_proc (timer_insert e tm cb s) = num_proc s"
  "schedtsk (timer_insert e tm cb s) = schedtsk s"
  by (cases e; simp add: timer_insert_def Let_def enqueue_tmeb_def)+

lemma timer_insert_tcbs:
  "\<exists>v. tcbs (timer_insert (TmTsk t) tm cb s) = (tcbs s)(t := (tcbs s t)\<lparr>wtmeb := v\<rparr>)"
  by (auto simp: timer_insert_def Let_def)

lemma kinv_but_timer:
  assumes "kinv_but t s"
  shows "kinv_but t (timer_insert (TmTsk t) tm cb s)" and "rdy (timer_insert (TmTsk t) tm cb s) = rdy s"
proof -
  let ?s = "timer_insert (TmTsk t) tm cb s"
  obtain v where v: "tcbs ?s = (tcbs s)(t := (tcbs s t)\<lparr>wtmeb := v\<rparr>)" using timer_insert_tcbs by blast
  let ?u = "upd_tcb t (\<lambda>c. c\<lparr>wtmeb := v\<rparr>) s"
  have u: "kinv_but t ?u" "rdy ?u = rdy s"
    by (rule kinv_but_upd [OF assms]; use assms in \<open>simp add: kinv_but_def\<close>)+
  have "tcbs ?s = tcbs ?u" using v by simp
  then have "kinv_but t ?s \<longleftrightarrow> kinv_but t ?u" "rdy ?s = rdy ?u"
    by (rule kinv_cong; simp)+
  with u show "kinv_but t ?s" "rdy ?s = rdy s" by simp_all
qed

lemma make_wait_ok:
  assumes k: "kinv s" and c: "ctxtsk s prid = Some t" and t: "t \<in> set (rdy s)"
  shows "\<exists>s'. make_wait prid tmout atr s = Some s' \<and> kinv_but t s' \<and> set (rdy s') = set (rdy s) - {t} \<and>
     (\<forall>q. \<not> ready_head q \<longrightarrow> ques s' q = ques s q) \<and> task_frame t s s' \<and> state (tcbs s' t) = TS_WAIT \<and>
     wid (tcbs s' t) = wid (tcbs s t) \<and> \<not> klockwait (tcbs s' t)"
proof -
  from enter_wait_ok [OF k t] obtain s1 where e: "enter_wait t s = Some s1" and b: "kinv_but t s1"
    and r: "set (rdy s1) = set (rdy s) - {t}" and q: "\<forall>q. \<not> ready_head q \<longrightarrow> ques s1 q = ques s q"
    and tc: "tcbs s1 = (tcbs s)(t := (tcbs s t)\<lparr>state := TS_WAIT\<rparr>)" and o: "objs_same s s1" by blast
  define s2 where "s2 = set_nodiswai t atr s1"
  have b2: "kinv_but t s2" "rdy s2 = rdy s1"
    unfolding s2_def set_nodiswai_def by (rule kinv_but_upd [OF b]; use b in \<open>simp add: kinv_but_def\<close>)+
  let ?s = "timer_insert (TmTsk t) tmout (Some (Cb_wait_release_tmout t)) s2"
  have kl: "\<not> klockwait (tcbs s t)" using t by (simp add: kinv_rdy [OF k])
  have "make_wait prid tmout atr s = Some ?s" by (simp add: make_wait_def c e s2_def)
  moreover have "task_frame t s ?s \<and> state (tcbs ?s t) = TS_WAIT \<and> wid (tcbs ?s t) = wid (tcbs s t) \<and> \<not> klockwait (tcbs ?s t)"
  proof -
    obtain v where "tcbs ?s = (tcbs s2)(t := (tcbs s2 t)\<lparr>wtmeb := v\<rparr>)" using timer_insert_tcbs by blast
    then show ?thesis using o kl by (simp add: task_frame_def s2_def set_nodiswai_def tc)
  qed
  ultimately show ?thesis
    using kinv_but_timer [OF b2(1)] b2(2) r q by (auto simp: s2_def set_nodiswai_def)
qed


lemma task_frame_refl [simp]: "task_frame t s s"
  by (simp add: task_frame_def)

text \<open>
  The current task goes to wait for an object: it leaves the ready queue, is linked into the
  object's queue in the order the attribute asks for, and everything else stays.
\<close>

lemma gcb_make_wait_ok:
  assumes k: "kinv s" and c: "ctxtsk s prid = Some t" and t: "t \<in> set (rdy s)" and h: "wait_head (wait_queue gcb)"
  shows "\<exists>s'. gcb_make_wait prid gcb tmout s = Some s' \<and> kinv s' \<and> set (rdy s') = set (rdy s) - {t} \<and>
     (\<forall>q. \<not> ready_head q \<and> q \<noteq> wait_queue gcb \<longrightarrow> ques s' q = ques s q) \<and>
     ques s' (wait_queue gcb) =
       (if objatr gcb AND TA_TPRI \<noteq> 0 then insert_before (\<lambda>x. pri s x > pri s t) t (ques s (wait_queue gcb))
        else ques s (wait_queue gcb) @ [t]) \<and>
     task_frame t s s' \<and> state (tcbs s' t) = TS_WAIT \<and> wid (tcbs s' t) = objid gcb"
proof -
  let ?q = "wait_queue gcb"
  define s0 where "s0 = upd_tcb t (\<lambda>c. c\<lparr>wid := objid gcb\<rparr>) s"
  have k0: "kinv s0" "rdy s0 = rdy s" unfolding s0_def by (rule kinv_tcb_upd [OF k]; simp)+
  have c0: "ctxtsk s0 prid = Some t" "t \<in> set (rdy s0)" using c t k0 by (simp_all add: s0_def)
  from make_wait_ok [OF k0(1) c0, of tmout "objatr gcb"] obtain s1 where
    m: "make_wait prid tmout (objatr gcb) s0 = Some s1" and b: "kinv_but t s1" and r: "set (rdy s1) = set (rdy s0) - {t}"
    and q: "\<forall>q. \<not> ready_head q \<longrightarrow> ques s1 q = ques s0 q" and f: "task_frame t s0 s1"
    and st: "state (tcbs s1 t) = TS_WAIT" "wid (tcbs s1 t) = wid (tcbs s0 t)" "\<not> klockwait (tcbs s1 t)" by blast
  have pr: "pri s1 x = pri s x" for x using f by (cases "x = t") (auto simp: task_frame_def s0_def)
  have qq: "ques s1 ?q = ques s ?q" using q wait_head_ready [OF h] by (simp add: s0_def)
  define xs where "xs = (if objatr gcb AND TA_TPRI \<noteq> 0 then insert_before (\<lambda>x. pri s x > pri s t) t (ques s ?q) else ques s ?q @ [t])"
  have g: "gcb_make_wait prid gcb tmout s = Some (set_que ?q xs s1)"
    by (simp add: gcb_make_wait_def c s0_def [symmetric] m gcb_insert_def queue_insert_tpri_def QueInsert_tail_def xs_def pr qq)
  have nt: "t \<notin> set (ques s ?q)" "distinct (ques s ?q)"
    using b qq unfolding kinv_but_def by metis+
  have kk: "kinv (set_que ?q xs s1)" "rdy (set_que ?q xs s1) = rdy s1"
    by (rule kinv_but_enqueue [OF b wait_head_ready [OF h]];
        use st nt wait_head_place [OF h] qq in \<open>simp add: xs_def\<close>)+
  have "task_frame t s (set_que ?q xs s1)"
    using f by (simp add: task_frame_def s0_def set_que_def objs_same_def)
  with g kk r k0 st q show ?thesis
    by (auto simp: xs_def set_que_def s0_def)
qed

text \<open>The release of one task of a wait queue.\<close>

definition released :: "ER \<Rightarrow> tcb \<Rightarrow> tcb \<Rightarrow> bool" where
  "released e c c' \<longleftrightarrow> wercd c' = e \<and> state c' = (if state c = TS_WAIT then TS_READY else TS_SUSPEND) \<and>
     priority c' = priority c \<and> bpriority c' = bpriority c \<and> mtxlist c' = mtxlist c \<and> winfo c' = winfo c \<and>
     wid c' = wid c \<and> wspec c' = wspec c \<and> tskid c' = tskid c"

lemma wait_release_ok_ercd_E_OK: "wait_release_ok t s = wait_release_ok_ercd t E_OK s"
  by (simp add: wait_release_ok_def wait_release_ok_ercd_def)

lemma wait_release_props:
  fixes s :: kstate and t :: nat and e :: ER
  assumes k: "kinv s" and h: "wait_head q" and t: "t \<in> set (ques s q)"
  defines "s' \<equiv> wait_release_ok_ercd t e s"
  shows "kinv s'" and "ques s' q = remove1 t (ques s q)"
    and "\<And>q'. \<not> ready_head q' \<Longrightarrow> q' \<noteq> q \<Longrightarrow> ques s' q' = ques s q'"
    and "\<And>x. x \<noteq> t \<Longrightarrow> tcbs s' x = tcbs s x" and "released e (tcbs s t) (tcbs s' t)" and "objs_same s s'"
    and "set (rdy s') = (if state (tcbs s t) = TS_WAIT then insert t (set (rdy s)) else set (rdy s))"
    and "timer_queue s' = remove1 (TmTsk t) (timer_queue s)"
proof -
  define s0 where "s0 = upd_tcb t (\<lambda>c. c\<lparr>wercd := e\<rparr>) s"
  have s': "s' = wait_release t s0" by (simp add: s'_def s0_def wait_release_ok_ercd_def)
  have k0: "kinv s0" "rdy s0 = rdy s" unfolding s0_def by (rule kinv_tcb_upd [OF k]; simp)+
  have w: "is_wait (state (tcbs s0 t))" using wait_headD [OF k h t] by (simp add: s0_def)
  note k1 = wait_release_kinv [OF k0(1) w]
  show "kinv s'" using k1(1) by (simp add: s')
  show "ques s' q = remove1 t (ques s q)"
    using wait_head_qready [OF h] by (simp add: s' s0_def wait_release_ques)
  show "ques s' q' = ques s q'" if "\<not> ready_head q'" "q' \<noteq> q" for q'
  proof -
    have "t \<notin> set (ques s q')" using kinv_dest(7) [OF k, of t q q'] t that(2) by auto
    moreover have "ques s' q' = remove1 t (ques s q')"
    proof (cases "\<exists>p. q' = QReady p")
      case True
      then obtain p where p: "q' = QReady p" by blast
      with that(1) have "p \<noteq> pri s t" using kinv_dest(4) [OF k, of t] by (auto simp: ready_head_def)
      then show ?thesis by (simp add: s' s0_def p wait_release_def make_non_wait_def)
    next
      case False
      then show ?thesis by (simp add: s' s0_def wait_release_ques)
    qed
    ultimately show ?thesis by simp
  qed
  show "tcbs s' x = tcbs s x" if "x \<noteq> t" for x using that by (simp add: s' s0_def)
  show "released e (tcbs s t) (tcbs s' t)" by (simp add: s' s0_def wait_release_tcbs released_def)
  show "objs_same s s'" by (simp add: s' s0_def)
  show "set (rdy s') = (if state (tcbs s t) = TS_WAIT then insert t (set (rdy s)) else set (rdy s))"
    using k1(2) k0(2) by (simp add: s' s0_def)
  show "timer_queue s' = remove1 (TmTsk t) (timer_queue s)" by (simp add: s' s0_def)
qed

lemma released_alive: "released e c c' \<Longrightarrow> \<not> is_wait (state c')"
  by (auto simp: released_def)

text \<open>A wait queue is emptied, every task in it being released with \<open>E_DLT\<close>.\<close>

lemma wait_delete_Nil: "ques s q = [] \<Longrightarrow> wait_delete q s = Some s"
  by (subst wait_delete.simps) simp

lemma wait_delete_Cons:
  "ques s q = t # ts \<Longrightarrow> wait_delete q s = wait_delete q (wait_release_ok_ercd t E_DLT s)"
  by (subst wait_delete.simps) (simp add: wait_release_ok_ercd_def)

lemma wait_delete_ok:
  assumes "kinv s" and "wait_head q" and "ques s q = ts"
  shows "\<exists>s'. wait_delete q s = Some s' \<and> kinv s' \<and> ques s' q = [] \<and>
     (\<forall>q'. \<not> ready_head q' \<and> q' \<noteq> q \<longrightarrow> ques s' q' = ques s q') \<and> objs_same s s' \<and>
     (\<forall>t\<in>set ts. released E_DLT (tcbs s t) (tcbs s' t)) \<and> (\<forall>x. x \<notin> set ts \<longrightarrow> tcbs s' x = tcbs s x) \<and>
     set (rdy s') = set (rdy s) \<union> {t \<in> set ts. state (tcbs s t) = TS_WAIT}"
  using assms
proof (induction ts arbitrary: s)
  case Nil
  then show ?case by (simp add: wait_delete_Nil)
next
  case (Cons t ts)
  define s1 where "s1 = wait_release_ok_ercd t E_DLT s"
  have tq: "t \<in> set (ques s q)" using Cons.prems(3) by simp
  note r = wait_release_props [OF Cons.prems(1,2) tq, where e = E_DLT, folded s1_def]
  have nt: "t \<notin> set ts" using kinv_dest(5) [OF Cons.prems(1), of q] Cons.prems(3) by simp
  have q1: "ques s1 q = ts" using r(2) Cons.prems(3) by simp
  from Cons.IH [OF r(1) Cons.prems(2) q1] obtain s' where
    d: "wait_delete q s1 = Some s'" "kinv s'" "ques s' q = []" "\<forall>q'. \<not> ready_head q' \<and> q' \<noteq> q \<longrightarrow> ques s' q' = ques s1 q'"
      "objs_same s1 s'" "\<forall>t\<in>set ts. released E_DLT (tcbs s1 t) (tcbs s' t)" "\<forall>x. x \<notin> set ts \<longrightarrow> tcbs s' x = tcbs s1 x"
      "set (rdy s') = set (rdy s1) \<union> {t \<in> set ts. state (tcbs s1 t) = TS_WAIT}" by blast
  have "{x \<in> set ts. state (tcbs s1 x) = TS_WAIT} = {x \<in> set ts. state (tcbs s x) = TS_WAIT}"
    by (rule Collect_cong) (metis r(4) nt)
  then have "set (rdy s') = set (rdy s) \<union> {x \<in> set (t # ts). state (tcbs s x) = TS_WAIT}"
    using d(8) r(7) by auto
  moreover have "\<forall>x\<in>set (t # ts). released E_DLT (tcbs s x) (tcbs s' x)"
  proof
    fix x assume "x \<in> set (t # ts)"
    then show "released E_DLT (tcbs s x) (tcbs s' x)"
      using d(6,7) r(5) nt r(4) [of x] by (cases "x = t") auto
  qed
  moreover have "wait_delete q s = Some s'"
    using wait_delete_Cons [OF Cons.prems(3)] d(1) by (simp add: s1_def)
  ultimately show ?case
    using d(2-5,7) r(3,4) objs_same_trans [OF r(6)] by auto
qed

lemma gcb_change_priority_ok:
  assumes k: "kinv s" and h: "wait_head (wait_queue gcb)" and t: "t \<in> set (ques s (wait_queue gcb))"
  shows "kinv (gcb_change_priority gcb t s)"
    and "ques (gcb_change_priority gcb t s) (wait_queue gcb) =
       insert_before (\<lambda>x. pri s x > pri s t) t (remove1 t (ques s (wait_queue gcb)))"
    and "q \<noteq> wait_queue gcb \<Longrightarrow> ques (gcb_change_priority gcb t s) q = ques s q"
proof -
  let ?q = "wait_queue gcb"
  let ?s = "QueRemove_tsk t s"
  have w: "is_wait (state (tcbs s t))" using wait_headD [OF k h t] .
  have b: "kinv_but t ?s" by (rule kinv_but_remove [OF k]) (use kinv_waitD [OF k w] in simp)
  have g: "gcb_change_priority gcb t s =
      set_que ?q (insert_before (\<lambda>x. pri s x > pri s t) t (remove1 t (ques s ?q))) ?s"
    by (simp add: gcb_change_priority_def queue_insert_tpri_def)
  have d: "distinct (ques s ?q)" using k by (simp add: kinv_dest)
  show "kinv (gcb_change_priority gcb t s)"
    unfolding g by (rule kinv_but_enqueue [OF b wait_head_ready [OF h]])
      (use w d kinv_waitD [OF k w] wait_head_place [OF h] in auto)
  show "ques (gcb_change_priority gcb t s) ?q = insert_before (\<lambda>x. pri s x > pri s t) t (remove1 t (ques s ?q))"
    by (simp add: g set_que_def)
  show "q \<noteq> ?q \<Longrightarrow> ques (gcb_change_priority gcb t s) q = ques s q"
    using kinv_dest(7) [OF k, of t ?q q] t
    by (cases "t \<in> set (ques s q)") (auto simp: g set_que_def)
qed

end
