(* ===== verification/Check.thy ===== *)
theory Check
  imports Wait
begin

text \<open>
  Object identifiers (\<^verbatim>\<open>config.h\<close>), the argument checks of \<^verbatim>\<open>check.h\<close> and the context
  tests of \<^verbatim>\<open>cpu_status.h\<close>. A check macro returns from the system call; a call therefore
  starts with a list of guards, and \<open>guards\<close> gives the error of the first one that fails.

  An identifier holds the object number in bits 0-15, the number of its domain in bits 16-23 and
  the kernel number in bits 24-27.
\<close>

section \<open>Identifiers\<close>

definition MP_SFT_PRID :: ID where "MP_SFT_PRID = push_bit 24 1"

definition GET_PRID :: "ID \<Rightarrow> ID" where
  "GET_PRID i = drop_bit 24 (i AND 0x0f000000)"

definition SET_PRID :: "ID \<Rightarrow> ID" where
  "SET_PRID i = i OR MP_SFT_PRID"

definition DOMID_MASK :: ID where "DOMID_MASK = 0x00ff0000"

definition GET_DOMID :: "ID \<Rightarrow> ID" where
  "GET_DOMID i = drop_bit 16 (i AND DOMID_MASK)"

definition GET_OBJID :: "ID \<Rightarrow> ID" where
  "GET_OBJID i = i AND 0x0000ffff"

text \<open>\<open>CHK_SEMID\<close>, \<open>INDEX_SEM\<close>, \<open>ID_SEM\<close> and their copies for the other objects numbered from 1.\<close>

definition CHK_OBJID :: "nat \<Rightarrow> ID \<Rightarrow> bool" where
  "CHK_OBJID mx i \<longleftrightarrow> 1 \<le> unat (GET_OBJID i) \<and> unat (GET_OBJID i) \<le> mx"

definition INDEX_OBJ :: "ID \<Rightarrow> nat" where
  "INDEX_OBJ i = unat (GET_OBJID i) - 1"

definition ID_OBJ :: "nat \<Rightarrow> ID" where
  "ID_OBJ n = SET_PRID (of_nat (n + 1))"

definition MP_KDMID :: ID where "MP_KDMID = 0"

definition INDEX_DOM :: "ID \<Rightarrow> nat" where
  "INDEX_DOM i = unat (GET_OBJID i)"

definition ID_DOM :: "nat \<Rightarrow> ID" where
  "ID_DOM n = SET_PRID (of_nat n)"

definition CHK_DOMID :: "kstate \<Rightarrow> ID \<Rightarrow> bool" where
  "CHK_DOMID s i \<longleftrightarrow> unat (GET_OBJID i) \<le> maxid (domtab s)"

definition CHK_ID_DOM :: "kstate \<Rightarrow> ID \<Rightarrow> bool" where
  "CHK_ID_DOM s i \<longleftrightarrow> unat (GET_DOMID i) \<le> maxid (domtab s)"

definition CHK_ID_PRC :: "ID \<Rightarrow> bool" where
  "CHK_ID_PRC i \<longleftrightarrow> GET_PRID i = 1"

section \<open>Context\<close>

definition in_indp :: "nat \<Rightarrow> kstate \<Rightarrow> bool" where
  "in_indp prid s \<longleftrightarrow> task_indep s prid \<or> ctxtsk s prid = None"

definition in_ddsp :: "nat \<Rightarrow> kstate \<Rightarrow> bool" where
  "in_ddsp prid s \<longleftrightarrow> dispatch_disabled s prid \<noteq> 0 \<or> in_indp prid s \<or> cpu_di s prid"

definition in_loc :: "nat \<Rightarrow> kstate \<Rightarrow> bool" where
  "in_loc prid s \<longleftrightarrow> cpu_di s prid \<or> in_indp prid s"

section \<open>Guards\<close>

fun guards :: "(bool \<times> ER) list \<Rightarrow> ER option" where
  "guards [] = None"
| "guards ((ok, e) # gs) = (if ok then guards gs else Some e)"

definition TSK_SELF :: ID where "TSK_SELF = 0"
definition TPRI_INI :: int where "TPRI_INI = 0"
definition TPRI_RUN :: int where "TPRI_RUN = 0"

definition CHECK_OBJID :: "nat \<Rightarrow> kstate \<Rightarrow> ID \<Rightarrow> bool \<times> ER" where
  "CHECK_OBJID mx s i = (CHK_OBJID mx i \<and> CHK_ID_DOM s i \<and> CHK_ID_PRC i, E_ID)"

definition CHECK_SEMID :: "kstate \<Rightarrow> ID \<Rightarrow> bool \<times> ER" where
  "CHECK_SEMID s i = CHECK_OBJID (maxid (semtab s)) s i"

definition CHECK_FLGID :: "kstate \<Rightarrow> ID \<Rightarrow> bool \<times> ER" where
  "CHECK_FLGID s i = CHECK_OBJID (maxid (flgtab s)) s i"

definition CHECK_MBXID :: "kstate \<Rightarrow> ID \<Rightarrow> bool \<times> ER" where
  "CHECK_MBXID s i = CHECK_OBJID (maxid (mbxtab s)) s i"

definition CHECK_MTXID :: "kstate \<Rightarrow> ID \<Rightarrow> bool \<times> ER" where
  "CHECK_MTXID s i = CHECK_OBJID (maxid (mtxtab s)) s i"

definition CHECK_MBFID :: "kstate \<Rightarrow> ID \<Rightarrow> bool \<times> ER" where
  "CHECK_MBFID s i = CHECK_OBJID (maxid (mbftab (ko s))) s i"

definition CHECK_PORID :: "kstate \<Rightarrow> ID \<Rightarrow> bool \<times> ER" where
  "CHECK_PORID s i = CHECK_OBJID (maxid (portab (ko s))) s i"

definition CHECK_MPLID :: "kstate \<Rightarrow> ID \<Rightarrow> bool \<times> ER" where
  "CHECK_MPLID s i = CHECK_OBJID (maxid (mpltab (ko s))) s i"

definition CHECK_MPFID :: "kstate \<Rightarrow> ID \<Rightarrow> bool \<times> ER" where
  "CHECK_MPFID s i = CHECK_OBJID (maxid (mpftab (ko s))) s i"

definition CHECK_CYCID :: "kstate \<Rightarrow> ID \<Rightarrow> bool \<times> ER" where
  "CHECK_CYCID s i = CHECK_OBJID (maxid (cyctab (ko s))) s i"

definition CHECK_ALMID :: "kstate \<Rightarrow> ID \<Rightarrow> bool \<times> ER" where
  "CHECK_ALMID s i = CHECK_OBJID (maxid (almtab (ko s))) s i"

text \<open>\<open>CHECK_TSKID\<close> has two exits: \<open>E_OBJ\<close> for the caller itself, then \<open>E_ID\<close>.\<close>

definition CHECK_TSKID :: "nat \<Rightarrow> kstate \<Rightarrow> ID \<Rightarrow> (bool \<times> ER) list" where
  "CHECK_TSKID prid s i = [(\<not> (\<not> in_indp prid s \<and> i = TSK_SELF), E_OBJ), CHECK_OBJID (max_tskid s) s i]"

definition CHECK_TSKID_SELF :: "nat \<Rightarrow> kstate \<Rightarrow> ID \<Rightarrow> bool \<times> ER" where
  "CHECK_TSKID_SELF prid s i =
    ((\<not> in_indp prid s \<and> i = TSK_SELF) \<or> CHK_OBJID (max_tskid s) i \<and> CHK_ID_DOM s i \<and> CHK_ID_PRC i, E_ID)"

definition CHECK_DOMID :: "kstate \<Rightarrow> ID \<Rightarrow> bool \<times> ER" where
  "CHECK_DOMID s i = (CHK_DOMID s i \<and> CHK_ID_DOM s i \<and> CHK_ID_PRC i, E_ID)"

definition CHECK_PRCID :: "kstate \<Rightarrow> int \<Rightarrow> bool \<times> ER" where
  "CHECK_PRCID s i = (0 \<le> i \<and> i \<le> int (num_proc s), E_ID)"

definition CHECK_NONSELF :: "nat \<Rightarrow> kstate \<Rightarrow> ID \<Rightarrow> bool \<times> ER" where
  "CHECK_NONSELF prid s i =
    (\<not> (\<not> in_indp prid s \<and> (case ctxtsk s prid of Some t \<Rightarrow> i = tskid (tcbs s t) | None \<Rightarrow> False)), E_OBJ)"

definition CHECK_PRI :: "int \<Rightarrow> bool \<times> ER" where
  "CHECK_PRI p = (CHK_PRI p, E_PAR)"

definition CHECK_PRI_INI :: "int \<Rightarrow> bool \<times> ER" where
  "CHECK_PRI_INI p = (p = TPRI_INI \<or> CHK_PRI p, E_PAR)"

definition CHECK_PRI_RUN :: "int \<Rightarrow> bool \<times> ER" where
  "CHECK_PRI_RUN p = (p = TPRI_RUN \<or> CHK_PRI p, E_PAR)"

definition CHECK_TMOUT :: "TMO \<Rightarrow> bool \<times> ER" where
  "CHECK_TMOUT t = (t \<ge> TMO_FEVR, E_PAR)"

definition CHECK_PAR :: "bool \<Rightarrow> bool \<times> ER" where
  "CHECK_PAR b = (b, E_PAR)"

definition CHECK_RSATR :: "ATR \<Rightarrow> ATR \<Rightarrow> bool \<times> ER" where
  "CHECK_RSATR atr maxatr = (atr AND NOT maxatr = 0, E_RSATR)"

definition CHECK_INTSK :: "nat \<Rightarrow> kstate \<Rightarrow> bool \<times> ER" where
  "CHECK_INTSK prid s = (\<not> in_indp prid s, E_CTX)"

definition CHECK_CTX :: "bool \<Rightarrow> bool \<times> ER" where
  "CHECK_CTX b = (b, E_CTX)"

definition CHECK_DISPATCH :: "nat \<Rightarrow> kstate \<Rightarrow> bool \<times> ER" where
  "CHECK_DISPATCH prid s = (\<not> in_ddsp prid s, E_CTX)"

definition CHECK_DISPATCH_POL :: "nat \<Rightarrow> kstate \<Rightarrow> TMO \<Rightarrow> bool \<times> ER" where
  "CHECK_DISPATCH_POL prid s tmout = (\<not> (tmout \<noteq> TMO_POL \<and> in_ddsp prid s), E_CTX)"

lemmas check_defs = CHECK_OBJID_def CHECK_SEMID_def CHECK_FLGID_def CHECK_MBXID_def CHECK_MTXID_def
  CHECK_MBFID_def CHECK_PORID_def CHECK_MPLID_def CHECK_MPFID_def CHECK_TSKID_def
  CHECK_TSKID_SELF_def CHECK_DOMID_def CHECK_PRCID_def CHECK_NONSELF_def CHECK_PRI_def CHECK_PRI_INI_def
  CHECK_PRI_RUN_def CHECK_TMOUT_def CHECK_PAR_def CHECK_RSATR_def CHECK_INTSK_def CHECK_DISPATCH_def CHECK_DISPATCH_POL_def

section \<open>The identifiers are one-to-one with the table entries\<close>

lemma GET_OBJID_take_bit: "GET_OBJID i = take_bit 16 i"
  by (simp add: GET_OBJID_def take_bit_eq_mask) (simp add: mask_numeral)

lemma GET_OBJID_unat: "unat (GET_OBJID i) = unat i mod 2 ^ 16"
proof -
  show ?thesis by (simp only: GET_OBJID_take_bit unsigned_take_bit_eq) (simp add: take_bit_eq_mod)
qed

lemma GET_OBJID_SET_PRID: "GET_OBJID (SET_PRID i) = GET_OBJID i"
  by (simp add: GET_OBJID_def SET_PRID_def MP_SFT_PRID_def bit.conj_disj_distrib2)

lemma INDEX_ID_OBJ: "n < 65535 \<Longrightarrow> INDEX_OBJ (ID_OBJ n) = n"
proof -
  assume n: "n < 65535"
  have "unat (of_nat (n + 1) :: ID) = n + 1" using n by (simp only: unat_of_nat) simp
  then show ?thesis using n by (simp only: INDEX_OBJ_def ID_OBJ_def GET_OBJID_SET_PRID GET_OBJID_unat) simp
qed

lemma INDEX_ID_DOM: "n < 65536 \<Longrightarrow> INDEX_DOM (ID_DOM n) = n"
  by (simp add: INDEX_DOM_def ID_DOM_def GET_OBJID_SET_PRID GET_OBJID_unat unat_of_nat)

end
