(* ===== verification/Mp_Domain.thy ===== *)
theory Mp_Domain
  imports Check
begin

text \<open>
  Domains, object names and access protection: \<^verbatim>\<open>mp_domain.c\<close>. Domains form a tree with the
  kernel domain as root; the identifier of an object or domain holds the number of its parent.
  Names are found through a table of hash keys per object type. The walk up the tree of
  \<open>trace_domain_for_pchk\<close> is a partial function: it does not end if the parents form a cycle.

  The second part holds the code that every object module repeats with its own control block
  (checks at creation, \<open>tk_fnd_xxx\<close>, \<open>tk_dmi_xxx\<close>, \<open>xxx_getname\<close>, \<open>xxx_setname\<close>): it is written
  once over a record of access functions, and the modules instantiate it.
\<close>

section \<open>Attributes and names\<close>

definition TA_DOMID :: ATR where "TA_DOMID = 0x00010000"
definition TA_PUBLIC :: ATR where "TA_PUBLIC = 0x00000000"
definition TA_PRIVATE :: ATR where "TA_PRIVATE = 0x00040000"
definition TA_PROTECTED :: ATR where "TA_PROTECTED = 0x00080000"
definition TA_RNG3 :: ATR where "TA_RNG3 = 0x00000300"

definition OBJECT_NAME_LENGTH :: nat where "OBJECT_NAME_LENGTH = 8"

definition default_object_name :: "UB list" where "default_object_name = [0]"

definition MP_KDMID_SELF :: ID where "MP_KDMID_SELF = SET_PRID MP_KDMID"

definition MP_IS_KDMID :: "ID \<Rightarrow> bool" where "MP_IS_KDMID i \<longleftrightarrow> i = MP_KDMID_SELF"

definition MP_CMP_DOMIDPART :: "ID \<Rightarrow> ID \<Rightarrow> bool" where
  "MP_CMP_DOMIDPART a b \<longleftrightarrow> (a XOR b) AND DOMID_MASK = 0"

definition MP_GEN_DOMIDPART :: "ID \<Rightarrow> ID" where
  "MP_GEN_DOMIDPART i = push_bit 16 (GET_OBJID i) AND DOMID_MASK"

definition MP_GET_DOMATR :: "ATR \<Rightarrow> ATR" where
  "MP_GET_DOMATR atr = atr AND (TA_ONAME OR TA_PRIVATE OR TA_PROTECTED OR TA_PUBLIC)"

definition MP_GET_PATR :: "ATR \<Rightarrow> ATR" where
  "MP_GET_PATR atr = atr AND (TA_PRIVATE OR TA_PROTECTED OR TA_PUBLIC)"

definition CHECK_PATR :: "ATR \<Rightarrow> bool \<times> ER" where
  "CHECK_PATR atr = (MP_GET_PATR atr = TA_PUBLIC \<or> MP_GET_PATR atr = TA_PROTECTED \<or> MP_GET_PATR atr = TA_PRIVATE, E_RSATR)"

text \<open>\<open>strncmp\<close> and \<open>strncpy\<close> with length \<open>OBJECT_NAME_LENGTH\<close> on names.\<close>

definition cname :: "UB list \<Rightarrow> UB list" where
  "cname xs = takeWhile (\<lambda>c. c \<noteq> 0) (take OBJECT_NAME_LENGTH xs)"

definition name_eq :: "UB list \<Rightarrow> UB list \<Rightarrow> bool" where
  "name_eq a b \<longleftrightarrow> cname a = cname b"

definition name_copy :: "UB list \<Rightarrow> UB list" where
  "name_copy src = cname src @ replicate (OBJECT_NAME_LENGTH - length (cname src)) 0"

fun calc_hash_from :: "nat \<Rightarrow> UB list \<Rightarrow> nat \<Rightarrow> UH \<Rightarrow> nat \<times> UH" where
  "calc_hash_from 0 oname i hash = (i, hash)"
| "calc_hash_from (Suc n) [] i hash = (i, hash)"
| "calc_hash_from (Suc n) (c # cs) i hash =
    (if c = 0 then (i, hash) else calc_hash_from n cs (i + 1) (hash * 17 + ucast c))"

definition calc_hash :: "UB list \<Rightarrow> nat \<times> UH" where
  "calc_hash oname = calc_hash_from OBJECT_NAME_LENGTH oname 0 0"

definition MAKE_HASH_KEY :: "ID \<Rightarrow> UH \<Rightarrow> UW" where
  "MAKE_HASH_KEY i hash = 0x80000000 OR MP_GEN_DOMIDPART i OR ucast hash"

section \<open>Lookup\<close>

text \<open>\<open>onames i\<close> is the name in control block \<open>i\<close> (\<open>onametop + cbsz * i\<close>).\<close>

definition search_keys :: "UW list \<Rightarrow> (nat \<Rightarrow> UB list) \<Rightarrow> UW \<Rightarrow> UB list \<Rightarrow> int" where
  "search_keys keys onames key oname =
    (case List.find (\<lambda>i. keys ! i = key \<and> name_eq (onames i) oname) [0..<length keys] of
       Some i \<Rightarrow> int i | None \<Rightarrow> -1)"

definition search_hashcb :: "kstate \<Rightarrow> objtype \<Rightarrow> (nat \<Rightarrow> UB list) \<Rightarrow> ID \<Rightarrow> UB list \<Rightarrow> int" where
  "search_hashcb s ty onames did oname =
    (case calc_hash oname of (n, hash) \<Rightarrow>
      if n \<noteq> 0 then search_keys (hashcb s ty) onames (MAKE_HASH_KEY did hash) oname else -1)"

definition domid_of :: "kstate \<Rightarrow> nat \<Rightarrow> ID" where
  "domid_of s i = domid (cbs (domtab s) i)"

definition mp_get_domid_from_id :: "kstate \<Rightarrow> ID \<Rightarrow> ID" where
  "mp_get_domid_from_id s i = domid_of s (INDEX_DOM (drop_bit 16 (i AND DOMID_MASK)))"

definition mp_get_plevel :: "tcb \<Rightarrow> int" where
  "mp_get_plevel c = uint (drop_bit 8 (tskatr c AND TA_RNG3))"

definition is_oap_invalid :: "kstate \<Rightarrow> int \<Rightarrow> bool" where
  "is_oap_invalid s plevel \<longleftrightarrow> plevel \<le> oaplimit s"

definition check_exception_condition :: "nat \<Rightarrow> kstate \<Rightarrow> ATR \<Rightarrow> bool" where
  "check_exception_condition prid s atr =
    (if MP_GET_PATR atr = TA_PUBLIC then True
     else if in_indp prid s then True
     else (case ctxtsk s prid of Some t \<Rightarrow> is_oap_invalid s (mp_get_plevel (tcbs s t)) | None \<Rightarrow> False))"

partial_function (option) trace_domain :: "kstate \<Rightarrow> ATR \<Rightarrow> ID \<Rightarrow> ID \<Rightarrow> bool option" where
  "trace_domain s patr did tskdomid =
    (let d = mp_get_domid_from_id s tskdomid
     in if d = did then Some True
        else if patr = TA_PROTECTED \<and> d \<noteq> MP_KDMID_SELF then trace_domain s patr did d
        else Some False)"

definition trace_domain_for_pchk :: "kstate \<Rightarrow> ID \<Rightarrow> ATR \<Rightarrow> ID \<Rightarrow> bool option" where
  "trace_domain_for_pchk s did atr tid = trace_domain s (MP_GET_PATR atr) did tid"

definition mp_existence_check_of_domain :: "kstate \<Rightarrow> ID \<Rightarrow> ER" where
  "mp_existence_check_of_domain s i =
    (if domid_of s (INDEX_DOM i) = 0 then E_NOEXS
     else if \<not> MP_CMP_DOMIDPART (domid_of s (INDEX_DOM i)) i then E_NOEXS
     else E_OK)"

definition mp_get_calinf_tskid :: "nat \<Rightarrow> kstate \<Rightarrow> ID option" where
  "mp_get_calinf_tskid prid s = map_option (\<lambda>t. tskid (tcbs s t)) (ctxtsk s prid)"

definition mp_check_protection_cre :: "nat \<Rightarrow> kstate \<Rightarrow> ID \<Rightarrow> ATR \<Rightarrow> ER option" where
  "mp_check_protection_cre prid s did atr =
    (if check_exception_condition prid s atr then Some E_OK
     else do {
       tid \<leftarrow> mp_get_calinf_tskid prid s;
       ok \<leftarrow> trace_domain_for_pchk s (SET_PRID did) atr tid;
       Some (if ok then E_OK else E_PAR)
     })"

definition mp_check_protection_fwd :: "kstate \<Rightarrow> ID \<Rightarrow> ATR \<Rightarrow> nat \<Rightarrow> ER option" where
  "mp_check_protection_fwd s oid oatr t =
    (if MP_GET_PATR oatr = TA_PUBLIC then Some E_OK
     else if is_oap_invalid s (mp_get_plevel (tcbs s t)) then Some E_OK
     else do {
       ok \<leftarrow> trace_domain_for_pchk s (mp_get_domid_from_id s oid) oatr (tskid (tcbs s t));
       Some (if ok then E_OK else E_DACV)
     })"

definition mp_check_protection_fnd :: "nat \<Rightarrow> kstate \<Rightarrow> ID \<Rightarrow> ATR \<Rightarrow> ER option" where
  "mp_check_protection_fnd prid s oid oatr =
    (if check_exception_condition prid s oatr then Some E_OK
     else do {
       tid \<leftarrow> mp_get_calinf_tskid prid s;
       ok \<leftarrow> trace_domain_for_pchk s (mp_get_domid_from_id s oid) oatr tid;
       Some (if ok then E_OK else E_NOEXS)
     })"

definition mp_check_domain_and_protection :: "nat \<Rightarrow> kstate \<Rightarrow> ID \<Rightarrow> ID \<Rightarrow> ATR \<Rightarrow> ER option" where
  "mp_check_domain_and_protection prid s argid oid oatr =
    (if \<not> MP_CMP_DOMIDPART argid oid then Some E_NOEXS
     else if check_exception_condition prid s oatr then Some E_OK
     else do {
       tid \<leftarrow> mp_get_calinf_tskid prid s;
       ok \<leftarrow> trace_domain_for_pchk s (mp_get_domid_from_id s oid) oatr tid;
       Some (if ok then E_OK else E_DACV)
     })"

definition mp_check_domain_and_protection_tsk :: "nat \<Rightarrow> kstate \<Rightarrow> ID \<Rightarrow> ID \<Rightarrow> ATR \<Rightarrow> ER option" where
  "mp_check_domain_and_protection_tsk prid s argid oid oatr =
    (if argid = TSK_SELF then Some E_OK else mp_check_domain_and_protection prid s argid oid oatr)"

definition mp_existence_check_of_oname :: "kstate \<Rightarrow> objtype \<Rightarrow> (nat \<Rightarrow> UB list) \<Rightarrow> ID \<Rightarrow> UB list \<Rightarrow> ER" where
  "mp_existence_check_of_oname s ty onames did oname =
    (if search_hashcb s ty onames did oname < 0 then E_OK else E_ONAME)"

definition set_key :: "objtype \<Rightarrow> nat \<Rightarrow> UW \<Rightarrow> kstate \<Rightarrow> kstate" where
  "set_key ty i key s = s\<lparr>hashcb := (hashcb s)(ty := (hashcb s ty)[i := key])\<rparr>"

text \<open>\<open>set_name idx nm\<close> stores a name in control block \<open>idx\<close>.\<close>

definition mp_change_oname :: "objtype \<Rightarrow> (nat \<Rightarrow> UB list) \<Rightarrow> (nat \<Rightarrow> UB list \<Rightarrow> kstate \<Rightarrow> kstate) \<Rightarrow>
    ID \<Rightarrow> UB list \<Rightarrow> nat \<Rightarrow> kstate \<Rightarrow> ER \<times> kstate" where
  "mp_change_oname ty onames set_name oid oname idx s =
    (case calc_hash oname of (n, hash) \<Rightarrow>
      let key = (if n \<noteq> 0 then MAKE_HASH_KEY (mp_get_domid_from_id s oid) hash else 0)
      in if n \<noteq> 0 \<and> 0 \<le> search_keys (hashcb s ty) onames key oname then (E_ONAME, s)
         else (E_OK, set_key ty idx key (set_name idx (name_copy oname) s)))"

definition mp_search_oname :: "kstate \<Rightarrow> objtype \<Rightarrow> (nat \<Rightarrow> UB list) \<Rightarrow> (nat \<Rightarrow> ID) \<Rightarrow> ID \<Rightarrow> UB list \<Rightarrow> ER" where
  "mp_search_oname s ty onames ids did oname =
    (let ercd = mp_existence_check_of_domain s did
     in if ercd = E_OK then
          (let idx = search_hashcb s ty onames did oname
           in if idx < 0 then E_NOEXS else sint (ids (nat idx)))
        else ercd)"

section \<open>Registration\<close>

definition upd_dom :: "nat \<Rightarrow> (DOMCB \<Rightarrow> DOMCB) \<Rightarrow> kstate \<Rightarrow> kstate" where
  "upd_dom i f s = s\<lparr>domtab := (domtab s)\<lparr>cbs := (cbs (domtab s))(i := f (cbs (domtab s) i))\<rparr>\<rparr>"

definition mp_register_object_in_domain :: "ID \<Rightarrow> objtype \<Rightarrow> nat \<Rightarrow> UB list \<Rightarrow> kstate \<Rightarrow> kstate" where
  "mp_register_object_in_domain did ty objidx oname s =
    (case calc_hash oname of (n, hash) \<Rightarrow>
      let key = (if n = 0 then 0 else MAKE_HASH_KEY did hash);
          s = set_key ty objidx key s
      in upd_dom (INDEX_DOM did) (\<lambda>d. d\<lparr>objcnt := objcnt d + 1\<rparr>) s)"

definition mp_unregister_object_in_domain :: "ID \<Rightarrow> objtype \<Rightarrow> nat \<Rightarrow> kstate \<Rightarrow> kstate" where
  "mp_unregister_object_in_domain oid ty objidx s =
    (let s = set_key ty objidx 0 s
     in upd_dom (INDEX_DOM (mp_get_domid_from_id s oid)) (\<lambda>d. d\<lparr>objcnt := objcnt d - 1\<rparr>) s)"

definition set_free_dom :: "nat list \<Rightarrow> kstate \<Rightarrow> kstate" where
  "set_free_dom q s = s\<lparr>domtab := (domtab s)\<lparr>freeq := q\<rparr>\<rparr>"

section \<open>Domain management\<close>

text \<open>
  \<open>_tk_get_cfn\<close> and \<open>Imalloc\<close>/\<open>Icalloc\<close> are outside this component: \<open>max_dom\<close> and \<open>oap\<close> are the two
  configuration values (\<open>None\<close> if not configured), \<open>sizes\<close> the table sizes, \<open>mem\<close> tells whether the
  allocations succeed.
\<close>

definition init_dom_cbs :: "(nat \<Rightarrow> DOMCB) \<Rightarrow> nat \<Rightarrow> nat \<Rightarrow> DOMCB" where
  "init_dom_cbs old n i =
    (if i = 0 then (old 0)\<lparr>domid := SET_PRID MP_KDMID, dom_exinf := 0, domatr := TA_PUBLIC,
        dom_oname := replicate OBJECT_NAME_LENGTH 0, objcnt := 0\<rparr>
     else if i < n then (old i)\<lparr>domid := 0\<rparr> else old i)"

definition mp_domain_initialize :: "int option \<Rightarrow> int option \<Rightarrow> (objtype \<Rightarrow> nat) \<Rightarrow> bool \<Rightarrow> bool \<Rightarrow> kstate \<Rightarrow> ER \<times> kstate" where
  "mp_domain_initialize max_dom oap sizes mem_cb mem_keys s =
    (case max_dom of
       None \<Rightarrow> (E_SYS, s)
     | Some m \<Rightarrow>
         let s = s\<lparr>domtab := (domtab s)\<lparr>maxid := nat m\<rparr>\<rparr> in
         if m + 1 < 1 then (E_SYS, s)
         else (case oap of
             None \<Rightarrow> (E_SYS, s)
           | Some l \<Rightarrow>
               let s = s\<lparr>oaplimit := l\<rparr> in
               if l < 0 \<or> l > 3 then (E_SYS, s)
               else if \<not> mem_cb then (E_NOMEM, s)
               else
                 (let n = nat m + 1;
                      s = s\<lparr>domtab := \<lparr>cbs = init_dom_cbs (cbs (domtab s)) n,
                              freeq = [1..<n], maxid = nat m\<rparr>\<rparr>
                  in if \<not> mem_keys then (E_NOMEM, s)
                     else (E_OK, s\<lparr>hashcb := \<lambda>ty. replicate (if ty = OT_DOM then n else sizes ty) 0\<rparr>))))"

record T_CDOM =
  cdom_exinf :: UW
  cdom_domatr :: ATR
  cdom_domid :: ID
  cdom_oname :: "UB list"

definition dom_onames :: "kstate \<Rightarrow> nat \<Rightarrow> UB list" where
  "dom_onames s i = dom_oname (cbs (domtab s) i)"

definition tk_cre_dom :: "T_CDOM \<Rightarrow> kstate \<Rightarrow> ER \<times> kstate" where
  "tk_cre_dom pk s =
    (case guards ([CHECK_RSATR (cdom_domatr pk) (TA_DOMID OR TA_ONAME)] @
        (if cdom_domatr pk AND TA_DOMID \<noteq> 0 then [CHECK_DOMID s (cdom_domid pk)] else [])) of
       Some e \<Rightarrow> (e, s)
     | None \<Rightarrow>
         (let ercd = (if cdom_domatr pk AND TA_DOMID \<noteq> 0 then mp_existence_check_of_domain s (cdom_domid pk) else E_OK);
              bdomid = (if cdom_domatr pk AND TA_DOMID \<noteq> 0 then cdom_domid pk else MP_KDMID)
          in if ercd \<noteq> E_OK then (ercd, s)
             else
               (let named = cdom_domatr pk AND TA_ONAME \<noteq> 0;
                    ercd = (if named then mp_existence_check_of_oname s OT_DOM (dom_onames s) bdomid (cdom_oname pk) else E_OK);
                    oname = (if named then cdom_oname pk else default_object_name)
                in if ercd \<noteq> E_OK then (ercd, s)
                   else (case freeq (domtab s) of
                       [] \<Rightarrow> (E_LIMIT, s)
                     | i # q \<Rightarrow>
                         (let did = MP_GEN_DOMIDPART bdomid OR ID_DOM i;
                              s = set_free_dom q s;
                              s = upd_dom i (\<lambda>d. d\<lparr>domid := did, dom_exinf := cdom_exinf pk, domatr := cdom_domatr pk\<rparr>) s;
                              s = upd_dom i (\<lambda>d. d\<lparr>dom_oname := name_copy oname\<rparr>) s;
                              s = mp_register_object_in_domain bdomid OT_DOM (INDEX_DOM did) oname s;
                              s = upd_dom i (\<lambda>d. d\<lparr>objcnt := 0\<rparr>) s
                          in (sint did, s))))))"

text \<open>The part that \<open>_tk_del_dom\<close> and \<open>_tk_fdel_dom\<close> share.\<close>

definition remove_dom :: "ID \<Rightarrow> kstate \<Rightarrow> kstate" where
  "remove_dom did s =
    (let i = INDEX_DOM did;
         s = mp_unregister_object_in_domain did OT_DOM i s;
         s = set_free_dom (freeq (domtab s) @ [i]) s
     in upd_dom i (\<lambda>d. d\<lparr>domid := 0\<rparr>) s)"

definition tk_del_dom :: "ID \<Rightarrow> kstate \<Rightarrow> ER \<times> kstate" where
  "tk_del_dom did s =
    (case guards [CHECK_DOMID s did] of
       Some e \<Rightarrow> (e, s)
     | None \<Rightarrow>
         if MP_IS_KDMID did then (E_OBJ, s)
         else (let d = cbs (domtab s) (INDEX_DOM did)
               in if domid d = 0 then (E_NOEXS, s)
                  else if \<not> MP_CMP_DOMIDPART (domid d) did then (E_NOEXS, s)
                  else if objcnt d \<noteq> 0 then (E_OBJ, s)
                  else (E_OK, remove_dom did s)))"

definition tk_fdel_dom :: "ID \<Rightarrow> kstate \<Rightarrow> ER \<times> kstate" where
  "tk_fdel_dom did s =
    (case guards [CHECK_DOMID s did] of
       Some e \<Rightarrow> (e, s)
     | None \<Rightarrow>
         if MP_IS_KDMID did then (E_OBJ, s)
         else (let d = cbs (domtab s) (INDEX_DOM did)
               in if domid d = 0 then (E_NOEXS, s)
                  else if \<not> MP_CMP_DOMIDPART (domid d) did then (E_NOEXS, s)
                  else (E_OK, remove_dom did s)))"

record T_RDOM =
  rdom_exinf :: UW
  rdom_domid :: ID
  rdom_objcnt :: UW

definition tk_ref_dom :: "ID \<Rightarrow> kstate \<Rightarrow> ER \<times> T_RDOM option" where
  "tk_ref_dom did s =
    (case guards [CHECK_DOMID s did] of
       Some e \<Rightarrow> (e, None)
     | None \<Rightarrow>
         (let d = cbs (domtab s) (INDEX_DOM did)
          in if domid d = 0 then (E_NOEXS, None)
             else if \<not> MP_CMP_DOMIDPART (domid d) did then (E_NOEXS, None)
             else (E_OK, Some \<lparr>rdom_exinf = dom_exinf d, rdom_domid = mp_get_domid_from_id s (domid d), rdom_objcnt = objcnt d\<rparr>)))"

definition tk_fnd_dom :: "ID \<Rightarrow> UB list \<Rightarrow> kstate \<Rightarrow> ER" where
  "tk_fnd_dom did oname s =
    (case guards [CHECK_DOMID s did] of
       Some e \<Rightarrow> e
     | None \<Rightarrow> mp_search_oname s OT_DOM (dom_onames s) (domid_of s) did oname)"

record T_DMI =
  dmi_domatr :: ATR
  dmi_domid :: ID
  dmi_kdmid :: ID
  dmi_oname :: "UB list"

definition tk_dmi_dom :: "ID \<Rightarrow> kstate \<Rightarrow> ER \<times> T_DMI option" where
  "tk_dmi_dom did s =
    (case guards [CHECK_DOMID s did] of
       Some e \<Rightarrow> (e, None)
     | None \<Rightarrow>
         (let d = cbs (domtab s) (INDEX_DOM did)
          in if domid d = 0 then (E_NOEXS, None)
             else if \<not> MP_CMP_DOMIDPART (domid d) did then (E_NOEXS, None)
             else (E_OK, Some \<lparr>dmi_domatr = MP_GET_DOMATR (domatr d), dmi_domid = mp_get_domid_from_id s (domid d),
                     dmi_kdmid = MP_KDMID_SELF, dmi_oname = dom_oname d\<rparr>)))"

definition tk_get_kdm :: "int \<Rightarrow> kstate \<Rightarrow> ER" where
  "tk_get_kdm prcid s =
    (case guards [CHECK_PRCID s prcid] of
       Some e \<Rightarrow> e
     | None \<Rightarrow> if prcid = 0 then sint MP_KDMID_SELF else sint (MP_KDMID OR push_bit 24 1))"

definition domain_getname :: "ID \<Rightarrow> kstate \<Rightarrow> ER \<times> UB list option" where
  "domain_getname i s =
    (case guards [CHECK_DOMID s i] of
       Some e \<Rightarrow> (e, None)
     | None \<Rightarrow>
         (let d = cbs (domtab s) (INDEX_DOM i)
          in if domid d = 0 then (E_NOEXS, None)
             else if \<not> MP_CMP_DOMIDPART i (domid d) then (E_NOEXS, None)
             else if domatr d AND TA_ONAME = 0 then (E_OBJ, None)
             else (E_OK, Some (dom_oname d))))"

definition domain_setname :: "ID \<Rightarrow> UB list \<Rightarrow> kstate \<Rightarrow> ER \<times> kstate" where
  "domain_setname i name s =
    (case guards [CHECK_DOMID s i] of
       Some e \<Rightarrow> (e, s)
     | None \<Rightarrow>
         (let d = cbs (domtab s) (INDEX_DOM i)
          in if domid d = 0 then (E_NOEXS, s)
             else if \<not> MP_CMP_DOMIDPART i (domid d) then (E_NOEXS, s)
             else if domatr d AND TA_ONAME = 0 then (E_OBJ, s)
             else mp_change_oname OT_DOM (dom_onames s) (\<lambda>k nm. upd_dom k (\<lambda>d. d\<lparr>dom_oname := nm\<rparr>)) i name (INDEX_DOM i) s))"

text \<open>The calls of the debugger.\<close>

definition td_lst_dom :: "int \<Rightarrow> kstate \<Rightarrow> int \<times> ID list" where
  "td_lst_dom nent s =
    (let ids = filter (\<lambda>i. i \<noteq> 0) (map (domid_of s) [1..<maxid (domtab s) + 1]) in (int (length ids), take (nat nent) ids))"

definition td_ref_dom :: "ID \<Rightarrow> kstate \<Rightarrow> ER \<times> T_RDOM option" where
  "td_ref_dom did s =
    (case guards [CHECK_DOMID s did] of
       Some e \<Rightarrow> (e, None)
     | None \<Rightarrow>
         (let d = cbs (domtab s) (INDEX_DOM did)
          in if domid d = 0 then (E_NOEXS, None)
             else if \<not> MP_CMP_DOMIDPART (domid d) did then (E_NOEXS, None)
             else (E_OK, Some \<lparr>rdom_exinf = dom_exinf d, rdom_domid = mp_get_domid_from_id s (domid d), rdom_objcnt = objcnt d\<rparr>)))"

definition td_fnd_dom :: "ID \<Rightarrow> UB list \<Rightarrow> kstate \<Rightarrow> ER" where
  "td_fnd_dom did oname s =
    (case guards [CHECK_DOMID s did] of
       Some e \<Rightarrow> e
     | None \<Rightarrow> mp_search_oname s OT_DOM (dom_onames s) (domid_of s) did oname)"

definition td_dmi_dom :: "ID \<Rightarrow> kstate \<Rightarrow> ER \<times> T_DMI option" where
  "td_dmi_dom did s =
    (case guards [CHECK_DOMID s did] of
       Some e \<Rightarrow> (e, None)
     | None \<Rightarrow>
         (let d = cbs (domtab s) (INDEX_DOM did)
          in if domid d = 0 then (E_NOEXS, None)
             else if \<not> MP_CMP_DOMIDPART (domid d) did then (E_NOEXS, None)
             else (E_OK, Some \<lparr>dmi_domatr = MP_GET_DOMATR (domatr d), dmi_domid = mp_get_domid_from_id s (domid d),
                     dmi_kdmid = MP_KDMID_SELF, dmi_oname = dom_oname d\<rparr>)))"

section \<open>The parts the object modules share\<close>

text \<open>
  \<open>END_CRITICAL_SECTION\<close> calls \<open>update_schedtsk\<close>; \<open>END_CRITICAL_NO_DISPATCH\<close> does not. The switch to
  another task that may follow is the dispatcher's step.
\<close>

definition end_critical :: "'a \<Rightarrow> kstate \<Rightarrow> ('a \<times> kstate) option" where
  "end_critical r s = map_option (Pair r) (update_schedtsk s)"

definition leave_critical :: "bool \<Rightarrow> 'a \<Rightarrow> kstate \<Rightarrow> ('a \<times> kstate) option" where
  "leave_critical dsp r s = (if dsp then end_critical r s else Some (r, s))"

text \<open>
  The access functions of an object module; \<open>oo_dispatch\<close> tells which macro ends the critical section
  of its \<open>_tk_fnd_xxx\<close> and \<open>_tk_dmi_xxx\<close>.
\<close>

record objops =
  oo_type :: objtype
  oo_dispatch :: bool
  oo_max :: "kstate \<Rightarrow> nat"
  oo_id :: "kstate \<Rightarrow> nat \<Rightarrow> ID"
  oo_atr :: "kstate \<Rightarrow> nat \<Rightarrow> ATR"
  oo_name :: "kstate \<Rightarrow> nat \<Rightarrow> UB list"
  oo_set_name :: "nat \<Rightarrow> UB list \<Rightarrow> kstate \<Rightarrow> kstate"
  oo_free :: "kstate \<Rightarrow> nat list"
  oo_set_free :: "nat list \<Rightarrow> kstate \<Rightarrow> kstate"
  oo_set_id :: "nat \<Rightarrow> ID \<Rightarrow> kstate \<Rightarrow> kstate"

text \<open>The checks of \<open>_tk_cre_xxx\<close> in its critical section: the domain and the name to use, or an error.\<close>

definition cre_prologue :: "nat \<Rightarrow> objops \<Rightarrow> ATR \<Rightarrow> ID \<Rightarrow> UB list \<Rightarrow> kstate \<Rightarrow> (ER + ID \<times> UB list) option" where
  "cre_prologue prid ops atr did oname s =
    (let ercd = (if atr AND TA_DOMID \<noteq> 0 then mp_existence_check_of_domain s did else E_OK);
         did = (if atr AND TA_DOMID \<noteq> 0 then did else MP_KDMID)
     in if ercd \<noteq> E_OK then Some (Inl ercd)
        else
          (let named = atr AND TA_ONAME \<noteq> 0;
               ercd = (if named then mp_existence_check_of_oname s (oo_type ops) (oo_name ops s) did oname else E_OK);
               oname = (if named then oname else default_object_name)
           in if ercd \<noteq> E_OK then Some (Inl ercd)
              else do {
                ercd \<leftarrow> mp_check_protection_cre prid s did atr;
                Some (if ercd \<noteq> E_OK then Inl ercd else Inr (did, oname))
              }))"

definition obj_fnd :: "nat \<Rightarrow> objops \<Rightarrow> ID \<Rightarrow> UB list \<Rightarrow> kstate \<Rightarrow> (ER \<times> kstate) option" where
  "obj_fnd prid ops did oname s =
    (case guards [CHECK_DOMID s did] of
       Some e \<Rightarrow> Some (e, s)
     | None \<Rightarrow>
         (let ercd = mp_search_oname s (oo_type ops) (oo_name ops s) (oo_id ops s) did oname
          in if 0 < ercd then
               (let oid = word_of_int ercd :: ID
                in do {
                  ercd \<leftarrow> mp_check_protection_fnd prid s oid (oo_atr ops s (INDEX_OBJ oid));
                  leave_critical (oo_dispatch ops) (if ercd < E_OK then ercd else sint oid) s
                })
             else leave_critical (oo_dispatch ops) (if ercd < E_OK then ercd else 0) s))"

definition obj_dmi :: "nat \<Rightarrow> objops \<Rightarrow> ID \<Rightarrow> kstate \<Rightarrow> ((ER \<times> T_DMI option) \<times> kstate) option" where
  "obj_dmi prid ops i s =
    (case guards [CHECK_OBJID (oo_max ops s) s i] of
       Some e \<Rightarrow> Some ((e, None), s)
     | None \<Rightarrow>
         (let n = INDEX_OBJ i
          in if oo_id ops s n = 0 then leave_critical (oo_dispatch ops) (E_NOEXS, None) s
             else do {
               ercd \<leftarrow> mp_check_domain_and_protection prid s i (oo_id ops s n) (oo_atr ops s n);
               leave_critical (oo_dispatch ops) (ercd, if ercd = E_OK then
                   Some \<lparr>dmi_domatr = MP_GET_DOMATR (oo_atr ops s n), dmi_domid = mp_get_domid_from_id s (oo_id ops s n),
                         dmi_kdmid = MP_KDMID_SELF, dmi_oname = oo_name ops s n\<rparr>
                 else None) s
             }))"

definition obj_getname :: "objops \<Rightarrow> ID \<Rightarrow> kstate \<Rightarrow> ER \<times> UB list option" where
  "obj_getname ops i s =
    (case guards [CHECK_OBJID (oo_max ops s) s i] of
       Some e \<Rightarrow> (e, None)
     | None \<Rightarrow>
         (let n = INDEX_OBJ i
          in if oo_id ops s n = 0 then (E_NOEXS, None)
             else if \<not> MP_CMP_DOMIDPART i (oo_id ops s n) then (E_NOEXS, None)
             else if oo_atr ops s n AND TA_ONAME = 0 then (E_OBJ, None)
             else (E_OK, Some (oo_name ops s n))))"

definition obj_setname :: "objops \<Rightarrow> ID \<Rightarrow> UB list \<Rightarrow> kstate \<Rightarrow> ER \<times> kstate" where
  "obj_setname ops i name s =
    (case guards [CHECK_OBJID (oo_max ops s) s i] of
       Some e \<Rightarrow> (e, s)
     | None \<Rightarrow>
         (let n = INDEX_OBJ i
          in if oo_id ops s n = 0 then (E_NOEXS, s)
             else if \<not> MP_CMP_DOMIDPART i (oo_id ops s n) then (E_NOEXS, s)
             else if oo_atr ops s n AND TA_ONAME = 0 then (E_OBJ, s)
             else mp_change_oname (oo_type ops) (oo_name ops s) (oo_set_name ops) i name n s))"

text \<open>\<open>_td_lst_xxx\<close>: the identifiers in use; \<open>_td_fnd_xxx\<close> and \<open>_td_dmi_xxx\<close>: without protection checks.\<close>

definition obj_lst :: "objops \<Rightarrow> int \<Rightarrow> kstate \<Rightarrow> int \<times> ID list" where
  "obj_lst ops nent s =
    (let ids = filter (\<lambda>i. i \<noteq> 0) (map (oo_id ops s) [0..<oo_max ops s]) in (int (length ids), take (nat nent) ids))"

definition obj_td_fnd :: "objops \<Rightarrow> ID \<Rightarrow> UB list \<Rightarrow> kstate \<Rightarrow> ER" where
  "obj_td_fnd ops did oname s =
    (case guards [CHECK_DOMID s did] of
       Some e \<Rightarrow> e
     | None \<Rightarrow> mp_search_oname s (oo_type ops) (oo_name ops s) (oo_id ops s) did oname)"

definition obj_td_dmi :: "objops \<Rightarrow> ID \<Rightarrow> kstate \<Rightarrow> ER \<times> T_DMI option" where
  "obj_td_dmi ops i s =
    (case guards [CHECK_OBJID (oo_max ops s) s i] of
       Some e \<Rightarrow> (e, None)
     | None \<Rightarrow>
         (let n = INDEX_OBJ i
          in if oo_id ops s n = 0 then (E_NOEXS, None)
             else if \<not> MP_CMP_DOMIDPART i (oo_id ops s n) then (E_NOEXS, None)
             else (E_OK, Some \<lparr>dmi_domatr = MP_GET_DOMATR (oo_atr ops s n), dmi_domid = mp_get_domid_from_id s (oo_id ops s n),
                     dmi_kdmid = MP_KDMID_SELF, dmi_oname = oo_name ops s n\<rparr>)))"


section \<open>The walk up the domain tree\<close>

fun domain_walk :: "kstate \<Rightarrow> ID \<Rightarrow> nat \<Rightarrow> ID" where
  "domain_walk s t 0 = mp_get_domid_from_id s t"
| "domain_walk s t (Suc n) = mp_get_domid_from_id s (domain_walk s t n)"

lemma domain_walk_shift: "domain_walk s (mp_get_domid_from_id s t) n = domain_walk s t (Suc n)"
  by (induction n) simp_all

lemma trace_domain_step:
  "trace_domain s p did t =
    (if mp_get_domid_from_id s t = did then Some True
     else if p = TA_PROTECTED \<and> mp_get_domid_from_id s t \<noteq> MP_KDMID_SELF
          then trace_domain s p did (mp_get_domid_from_id s t)
          else Some False)"
  by (subst trace_domain.simps) (simp add: Let_def)

lemma trace_private:
  "p \<noteq> TA_PROTECTED \<Longrightarrow> trace_domain s p did t = Some (mp_get_domid_from_id s t = did)"
  by (subst trace_domain_step) simp

lemma trace_found:
  "domain_walk s t n = did \<Longrightarrow> (\<And>k. k < n \<Longrightarrow> domain_walk s t k \<noteq> did \<and> domain_walk s t k \<noteq> MP_KDMID_SELF) \<Longrightarrow>
   trace_domain s TA_PROTECTED did t = Some True"
proof (induction n arbitrary: t)
  case 0
  then show ?case by (subst trace_domain_step) simp
next
  case (Suc n)
  let ?t = "mp_get_domid_from_id s t"
  have "trace_domain s TA_PROTECTED did ?t = Some True"
  proof (rule Suc.IH)
    show "domain_walk s ?t n = did" using Suc.prems(1) by (simp only: domain_walk_shift)
    show "domain_walk s ?t k \<noteq> did \<and> domain_walk s ?t k \<noteq> MP_KDMID_SELF" if "k < n" for k
      using Suc.prems(2) [of "Suc k"] that by (simp add: domain_walk_shift del: domain_walk.simps)
  qed
  moreover have "?t \<noteq> did" "?t \<noteq> MP_KDMID_SELF" using Suc.prems(2) [of 0] by simp_all
  ultimately show ?case by (subst trace_domain_step) simp
qed

lemma trace_refused:
  "domain_walk s t n = MP_KDMID_SELF \<Longrightarrow> (\<And>k. k \<le> n \<Longrightarrow> domain_walk s t k \<noteq> did) \<Longrightarrow>
   (\<And>k. k < n \<Longrightarrow> domain_walk s t k \<noteq> MP_KDMID_SELF) \<Longrightarrow>
   trace_domain s TA_PROTECTED did t = Some False"
proof (induction n arbitrary: t)
  case 0
  then show ?case by (subst trace_domain_step) simp
next
  case (Suc n)
  let ?t = "mp_get_domid_from_id s t"
  have "trace_domain s TA_PROTECTED did ?t = Some False"
  proof (rule Suc.IH)
    show "domain_walk s ?t n = MP_KDMID_SELF" using Suc.prems(1) by (simp only: domain_walk_shift)
    show "domain_walk s ?t k \<noteq> did" if "k \<le> n" for k
      using Suc.prems(2) [of "Suc k"] that by (simp add: domain_walk_shift del: domain_walk.simps)
    show "domain_walk s ?t k \<noteq> MP_KDMID_SELF" if "k < n" for k
      using Suc.prems(3) [of "Suc k"] that by (simp add: domain_walk_shift del: domain_walk.simps)
  qed
  moreover have "?t \<noteq> did" "?t \<noteq> MP_KDMID_SELF" using Suc.prems(2) [of 0] Suc.prems(3) [of 0] by simp_all
  ultimately show ?case by (subst trace_domain_step) simp
qed

text \<open>If the walk meets neither the domain nor the root, the loop does not end.\<close>

lemma trace_returns_only:
  assumes "trace_domain s p did t = Some b" and "p = TA_PROTECTED"
  shows "\<exists>n. domain_walk s t n = did \<or> domain_walk s t n = MP_KDMID_SELF"
proof -
  have "p = TA_PROTECTED \<longrightarrow> (\<exists>n. domain_walk s t n = did \<or> domain_walk s t n = MP_KDMID_SELF)"
  proof (rule trace_domain.raw_induct [OF _ assms(1), of "\<lambda>s p did t b. p = TA_PROTECTED \<longrightarrow>
      (\<exists>n. domain_walk s t n = did \<or> domain_walk s t n = MP_KDMID_SELF)"])
    fix tr :: "kstate \<Rightarrow> ATR \<Rightarrow> ID \<Rightarrow> ID \<Rightarrow> bool option" and s p did t b
    assume ih: "\<And>s p did t b. tr s p did t = Some b \<Longrightarrow>
        p = TA_PROTECTED \<longrightarrow> (\<exists>n. domain_walk s t n = did \<or> domain_walk s t n = MP_KDMID_SELF)"
    assume r: "(let d = mp_get_domid_from_id s t in if d = did then Some True
        else if p = TA_PROTECTED \<and> d \<noteq> MP_KDMID_SELF then tr s p did d else Some False) = Some b"
    show "p = TA_PROTECTED \<longrightarrow> (\<exists>n. domain_walk s t n = did \<or> domain_walk s t n = MP_KDMID_SELF)"
    proof
      assume p: "p = TA_PROTECTED"
      show "\<exists>n. domain_walk s t n = did \<or> domain_walk s t n = MP_KDMID_SELF"
      proof (cases "mp_get_domid_from_id s t = did \<or> mp_get_domid_from_id s t = MP_KDMID_SELF")
        case True
        then show ?thesis by (intro exI [of _ 0]) simp
      next
        case False
        with r p have "tr s p did (mp_get_domid_from_id s t) = Some b" by (simp add: Let_def)
        from ih [OF this] p show ?thesis by (metis domain_walk_shift)
      qed
    qed
  qed
  then show ?thesis using assms(2) by simp
qed

lemma trace_protected_returns:
  "(\<exists>b. trace_domain s TA_PROTECTED did t = Some b) \<longleftrightarrow>
     (\<exists>n. domain_walk s t n = did \<or> domain_walk s t n = MP_KDMID_SELF)"
proof
  assume "\<exists>b. trace_domain s TA_PROTECTED did t = Some b"
  then show "\<exists>n. domain_walk s t n = did \<or> domain_walk s t n = MP_KDMID_SELF"
    using trace_returns_only by blast
next
  let ?P = "\<lambda>n. domain_walk s t n = did \<or> domain_walk s t n = MP_KDMID_SELF"
  assume ex: "\<exists>n. ?P n"
  define n where "n = (LEAST n. ?P n)"
  have n: "?P n" unfolding n_def by (rule LeastI_ex [OF ex])
  have less: "\<not> ?P k" if "k < n" for k using that not_less_Least unfolding n_def by blast
  show "\<exists>b. trace_domain s TA_PROTECTED did t = Some b"
  proof (cases "domain_walk s t n = did")
    case True
    then show ?thesis using trace_found [of s t n did] less by blast
  next
    case False
    then have "domain_walk s t k \<noteq> did" if "k \<le> n" for k using less that by (cases "k = n") auto
    then show ?thesis using trace_refused [of s t n did] n False less by blast
  qed
qed

section \<open>Names\<close>

lemma search_keys_hit:
  "search_keys keys onames key oname = int i \<Longrightarrow> i < length keys \<and> keys ! i = key \<and> name_eq (onames i) oname"
  by (auto simp: search_keys_def find_Some_iff split: option.splits)

lemma search_keys_miss:
  "search_keys keys onames key oname < 0 \<longleftrightarrow> (\<forall>i<length keys. \<not> (keys ! i = key \<and> name_eq (onames i) oname))"
  by (auto simp: search_keys_def find_None_iff find_Some_iff split: option.splits)

lemma search_keys_unique:
  assumes "i < length keys" and "keys ! i = key" and "name_eq (onames i) oname"
    and "\<And>j. j < length keys \<Longrightarrow> j \<noteq> i \<Longrightarrow> \<not> (keys ! j = key \<and> name_eq (onames j) oname)"
  shows "search_keys keys onames key oname = int i"
proof -
  have "\<not> search_keys keys onames key oname < 0" using assms(1-3) by (auto simp: search_keys_miss)
  then obtain j where j: "search_keys keys onames key oname = int j" by (metis not_less nonneg_int_cases)
  from search_keys_hit [OF j] assms(4) [of j] show ?thesis by (cases "j = i") (auto simp: j)
qed

lemma cname_name_copy: "cname (name_copy xs) = cname xs"
proof -
  have l: "length (cname xs) \<le> OBJECT_NAME_LENGTH"
    using length_takeWhile_le [of "\<lambda>c. c \<noteq> 0" "take OBJECT_NAME_LENGTH xs"] by (simp add: cname_def)
  have nz: "\<forall>c\<in>set (cname xs). c \<noteq> 0" by (auto simp: cname_def dest: set_takeWhileD)
  have "take OBJECT_NAME_LENGTH (name_copy xs) = name_copy xs" using l by (simp add: name_copy_def)
  moreover have "takeWhile (\<lambda>c. c \<noteq> 0) (name_copy xs) = cname xs"
    using nz by (cases "OBJECT_NAME_LENGTH - length (cname xs)") (simp_all add: name_copy_def takeWhile_append2)
  ultimately show ?thesis by (simp add: cname_def)
qed

text \<open>After its registration an object is found under its name, if no other object has that name.\<close>

lemma register_search:
  assumes "i < length (hashcb s ty)" and "fst (calc_hash oname) \<noteq> 0" and "name_eq (onames i) oname"
    and "search_hashcb (set_key ty i 0 s) ty onames did oname < 0"
  shows "search_hashcb (mp_register_object_in_domain did ty i oname s) ty onames did oname = int i"
proof -
  obtain n h where h: "calc_hash oname = (n, h)" by (cases "calc_hash oname")
  have n: "n \<noteq> 0" using assms(2) h by simp
  let ?k = "MAKE_HASH_KEY did h"
  have "\<not> (hashcb s ty ! j = ?k \<and> name_eq (onames j) oname)" if "j < length (hashcb s ty)" "j \<noteq> i" for j
    using assms(4) that n by (auto simp: search_hashcb_def h search_keys_miss set_key_def)
  then show ?thesis
    using n assms(1,3)
    by (simp add: search_hashcb_def h mp_register_object_in_domain_def Let_def set_key_def upd_dom_def)
      (rule search_keys_unique; simp)
qed


section \<open>The end of a critical section\<close>

lemma end_critical_ok:
  assumes "kinv s"
  shows "\<exists>s'. end_critical r s = Some (r, s') \<and> kinv s' \<and> sched_frame s s'"
  using update_schedtsk_kinv [OF assms] by (auto simp: end_critical_def)

lemma end_critical_result:
  "end_critical r s = Some (r', s') \<Longrightarrow> kinv s \<Longrightarrow> r' = r \<and> kinv s' \<and> sched_frame s s'"
  using end_critical_ok [of s r] by auto

lemma upd_dom_sel [simp]:
  "tcbs (upd_dom i f s) = tcbs s" "ques (upd_dom i f s) = ques s" "kinv (upd_dom i f s) \<longleftrightarrow> kinv s"
  "semtab (upd_dom i f s) = semtab s" "flgtab (upd_dom i f s) = flgtab s" "mbxtab (upd_dom i f s) = mbxtab s"
  "mtxtab (upd_dom i f s) = mtxtab s" "rdy (upd_dom i f s) = rdy s" "ctxtsk (upd_dom i f s) = ctxtsk s"
  by (simp_all add: upd_dom_def rdy_def)

lemma set_key_sel [simp]:
  "tcbs (set_key ty i k s) = tcbs s" "ques (set_key ty i k s) = ques s" "kinv (set_key ty i k s) \<longleftrightarrow> kinv s"
  "semtab (set_key ty i k s) = semtab s" "flgtab (set_key ty i k s) = flgtab s" "mbxtab (set_key ty i k s) = mbxtab s"
  "mtxtab (set_key ty i k s) = mtxtab s" "rdy (set_key ty i k s) = rdy s" "ctxtsk (set_key ty i k s) = ctxtsk s"
  by (simp_all add: set_key_def rdy_def)

lemma register_sel [simp]:
  fixes d :: ID and ty :: objtype and i :: nat and nm :: "UB list" and s :: kstate
  defines "r \<equiv> mp_register_object_in_domain d ty i nm s"
  shows "tcbs r = tcbs s" "ques r = ques s" "kinv r \<longleftrightarrow> kinv s" "semtab r = semtab s" "flgtab r = flgtab s"
    "mbxtab r = mbxtab s" "mtxtab r = mtxtab s" "rdy r = rdy s" "ctxtsk r = ctxtsk s"
  by (simp_all add: r_def mp_register_object_in_domain_def Let_def split: prod.split)

lemma unregister_sel [simp]:
  fixes d :: ID and ty :: objtype and i :: nat and s :: kstate
  defines "r \<equiv> mp_unregister_object_in_domain d ty i s"
  shows "tcbs r = tcbs s" "ques r = ques s" "kinv r \<longleftrightarrow> kinv s" "semtab r = semtab s" "flgtab r = flgtab s"
    "mbxtab r = mbxtab s" "mtxtab r = mtxtab s" "rdy r = rdy s" "ctxtsk r = ctxtsk s"
  by (simp_all add: r_def mp_unregister_object_in_domain_def Let_def)

text \<open>An identifier put together at creation leads back to its table entry.\<close>

lemma INDEX_gen_id: "n < 65535 \<Longrightarrow> INDEX_OBJ (MP_GEN_DOMIDPART d OR ID_OBJ n) = n"
proof -
  assume n: "n < 65535"
  have "GET_OBJID (MP_GEN_DOMIDPART d) = 0"
    by (rule bit_word_eqI) (auto simp: GET_OBJID_take_bit MP_GEN_DOMIDPART_def bit_simps)
  then have "GET_OBJID (MP_GEN_DOMIDPART d OR ID_OBJ n) = GET_OBJID (ID_OBJ n)"
    by (simp add: GET_OBJID_def bit.conj_disj_distrib2)
  then show ?thesis using INDEX_ID_OBJ [OF n] by (simp add: INDEX_OBJ_def)
qed

lemma gen_id_nonzero: "MP_GEN_DOMIDPART d OR ID_OBJ n \<noteq> 0"
proof
  assume "MP_GEN_DOMIDPART d OR ID_OBJ n = 0"
  then have "bit (MP_GEN_DOMIDPART d OR ID_OBJ n) 24 = bit (0 :: ID) 24" by simp
  then show False by (simp add: ID_OBJ_def SET_PRID_def MP_SFT_PRID_def bit_simps)
qed

end
