(* ===== verification/Domain_Tree.thy ===== *)
theory Domain_Tree
  imports Mp_Domain
begin

unbundle bit_operations_syntax

text \<open>
  The domains form a tree with the kernel domain as its root, as long as they are created by \<open>tk_cre_dom\<close> and deleted by
  \<open>tk_del_dom\<close>, which refuses to delete a domain with objects or domains in it: \<open>dom_tree\<close> is kept by both. In a tree the walk
  of the protection check ends, and finds out whether a domain is above the task.
\<close>

section \<open>The tree of domains\<close>

text \<open>The index of the domain in which a domain or an object is.\<close>

definition dom_part :: "ID \<Rightarrow> nat" where
  "dom_part i = INDEX_DOM (drop_bit 16 (i AND DOMID_MASK))"

definition dom_live :: "kstate \<Rightarrow> nat \<Rightarrow> bool" where
  "dom_live s i \<longleftrightarrow> i \<le> maxid (domtab s) \<and> domid_of s i \<noteq> 0"

definition dom_children :: "kstate \<Rightarrow> nat \<Rightarrow> nat set" where
  "dom_children s i = {j. dom_live s j \<and> j \<noteq> 0 \<and> dom_part (domid_of s j) = i}"

definition dom_tree :: "kstate \<Rightarrow> bool" where
  "dom_tree s \<longleftrightarrow> maxid (domtab s) < 256 \<and> domid_of s 0 = MP_KDMID_SELF \<and> distinct (freeq (domtab s)) \<and>
     (\<forall>i\<in>set (freeq (domtab s)). 0 < i \<and> i \<le> maxid (domtab s) \<and> domid_of s i = 0) \<and>
     (\<forall>i. dom_live s i \<and> i \<noteq> 0 \<longrightarrow> dom_live s (dom_part (domid_of s i)) \<and> INDEX_DOM (domid_of s i) = i) \<and>
     (\<forall>i. dom_live s i \<longrightarrow> card (dom_children s i) \<le> unat (objcnt (cbs (domtab s) i))) \<and>
     (\<exists>d :: nat \<Rightarrow> nat. \<forall>i. dom_live s i \<and> i \<noteq> 0 \<longrightarrow> d (dom_part (domid_of s i)) < d i)"

lemma dom_tree_cong: "domtab s' = domtab s \<Longrightarrow> dom_tree s' \<longleftrightarrow> dom_tree s"
  by (simp add: dom_tree_def dom_live_def dom_children_def domid_of_def)

lemma mp_get_domid_part: "mp_get_domid_from_id s i = domid_of s (dom_part i)"
  by (simp add: mp_get_domid_from_id_def dom_part_def)

lemma dom_part_shape: "dom_part i = unat (take_bit 8 (drop_bit 16 i))"
proof -
  have m: "DOMID_MASK = push_bit 16 (mask 8)" by (simp add: DOMID_MASK_def mask_eq_exp_minus_1)
  have "GET_OBJID (drop_bit 16 (i AND DOMID_MASK)) = take_bit 8 (drop_bit 16 i)"
    unfolding m by (rule bit_word_eqI) (auto simp: GET_OBJID_take_bit bit_simps)
  then show ?thesis by (simp add: dom_part_def INDEX_DOM_def)
qed

lemma kdm_self: "dom_part MP_KDMID_SELF = 0" "INDEX_DOM MP_KDMID_SELF = 0" "MP_KDMID_SELF \<noteq> 0"
  by code_simp+

lemma new_domid:
  assumes "INDEX_DOM b < 256" and "i < 256"
  shows "dom_part (MP_GEN_DOMIDPART b OR ID_DOM i) = INDEX_DOM b" and "INDEX_DOM (MP_GEN_DOMIDPART b OR ID_DOM i) = i"
    and "MP_GEN_DOMIDPART b OR ID_DOM i \<noteq> 0"
proof -
  have m: "DOMID_MASK = push_bit 16 (mask 8)" by (simp add: DOMID_MASK_def mask_eq_exp_minus_1)
  have hi: "\<not> bit (of_nat i :: ID) k" if "8 \<le> k" for k
  proof
    assume "bit (of_nat i :: ID) k"
    then have "bit i k" by (simp add: bit_of_nat_iff)
    moreover have "i = take_bit 8 i" using assms(2) by (simp add: take_bit_eq_mod)
    ultimately show False using that by (metis bit_take_bit_iff not_le)
  qed
  have o: "GET_OBJID b = take_bit 8 (GET_OBJID b)"
    using assms(1) by (intro word_unat_eq_iff [THEN iffD2]) (simp only: INDEX_DOM_def unsigned_take_bit_eq, simp add: take_bit_eq_mod)
  have "take_bit 8 (drop_bit 16 (MP_GEN_DOMIDPART b OR ID_DOM i)) = take_bit 8 (GET_OBJID b)"
    unfolding MP_GEN_DOMIDPART_def m ID_DOM_def SET_PRID_def MP_SFT_PRID_def
    by (rule bit_word_eqI) (use hi in \<open>auto simp: bit_simps\<close>)
  then show "dom_part (MP_GEN_DOMIDPART b OR ID_DOM i) = INDEX_DOM b" unfolding dom_part_shape INDEX_DOM_def using o by simp
  have "GET_OBJID (MP_GEN_DOMIDPART b OR ID_DOM i) = GET_OBJID (ID_DOM i)"
    unfolding GET_OBJID_take_bit MP_GEN_DOMIDPART_def m by (rule bit_word_eqI) (auto simp: bit_simps)
  then show "INDEX_DOM (MP_GEN_DOMIDPART b OR ID_DOM i) = i" using INDEX_ID_DOM [of i] assms(2) by (simp add: INDEX_DOM_def)
  have "bit (MP_GEN_DOMIDPART b OR ID_DOM i) 24" by (simp add: ID_DOM_def SET_PRID_def MP_SFT_PRID_def bit_simps)
  then show "MP_GEN_DOMIDPART b OR ID_DOM i \<noteq> 0" by auto
qed

section \<open>The walk from a task to the root\<close>

lemma dom_treeD:
  assumes "dom_tree s"
  shows "domid_of s 0 = MP_KDMID_SELF" "dom_live s 0"
    "dom_live s i \<Longrightarrow> i \<noteq> 0 \<Longrightarrow> dom_live s (dom_part (domid_of s i))" "dom_live s i \<Longrightarrow> i \<noteq> 0 \<Longrightarrow> INDEX_DOM (domid_of s i) = i"
    "i \<in> set (freeq (domtab s)) \<Longrightarrow> 0 < i" "i \<in> set (freeq (domtab s)) \<Longrightarrow> i \<le> maxid (domtab s)"
    "i \<in> set (freeq (domtab s)) \<Longrightarrow> domid_of s i = 0"
    "dom_live s i \<Longrightarrow> card (dom_children s i) \<le> unat (objcnt (cbs (domtab s) i))" "maxid (domtab s) < 256" "distinct (freeq (domtab s))"
  using assms kdm_self(3) by (auto simp: dom_tree_def dom_live_def)

lemma dom_index: "dom_tree s \<Longrightarrow> dom_live s i \<Longrightarrow> INDEX_DOM (domid_of s i) = i"
  using dom_treeD(1) [of s] dom_treeD(4) [of s i] kdm_self(2) by (cases "i = 0") auto

lemma walk_live:
  assumes "dom_tree s" and "dom_live s (dom_part t)"
  shows "\<exists>i. dom_live s i \<and> domain_walk s t n = domid_of s i"
proof (induction n)
  case 0
  then show ?case using assms(2) by (auto simp: mp_get_domid_part)
next
  case (Suc n)
  then obtain i where i: "dom_live s i" "domain_walk s t n = domid_of s i" by blast
  then have e: "domain_walk s t (Suc n) = domid_of s (dom_part (domid_of s i))" by (simp add: mp_get_domid_part)
  show ?case
  proof (cases "i = 0")
    case True
    then show ?thesis using e i(1) dom_treeD(1) [OF assms(1)] kdm_self(1) by auto
  next
    case False
    then show ?thesis using e dom_treeD(3) [OF assms(1) i(1)] by blast
  qed
qed

lemma walk_ends:
  assumes "dom_tree s" and "dom_live s (dom_part t)"
  shows "\<exists>n. domain_walk s t n = MP_KDMID_SELF"
proof -
  from assms(1) obtain d :: "nat \<Rightarrow> nat" where d: "\<And>i. dom_live s i \<Longrightarrow> i \<noteq> 0 \<Longrightarrow> d (dom_part (domid_of s i)) < d i"
    unfolding dom_tree_def by blast
  have "\<exists>n. domain_walk s t n = MP_KDMID_SELF" if "dom_live s (dom_part t)" for t
    using that
  proof (induction "d (dom_part t)" arbitrary: t rule: less_induct)
    case less
    let ?i = "dom_part t"
    show ?case
    proof (cases "?i = 0")
      case True
      then have "domain_walk s t 0 = MP_KDMID_SELF" using dom_treeD(1) [OF assms(1)] by (simp add: mp_get_domid_part)
      then show ?thesis by blast
    next
      case False
      have "\<exists>n. domain_walk s (domid_of s ?i) n = MP_KDMID_SELF"
        by (rule less.hyps [OF d [OF less.prems False] dom_treeD(3) [OF assms(1) less.prems False]])
      then show ?thesis using domain_walk_shift [of s t] by (metis mp_get_domid_part)
    qed
  qed
  then show ?thesis using assms(2) by blast
qed

lemma walk_root: "dom_tree s \<Longrightarrow> domain_walk s t n = MP_KDMID_SELF \<Longrightarrow> domain_walk s t (n + k) = MP_KDMID_SELF"
  by (induction k) (simp_all add: mp_get_domid_part kdm_self(1) dom_treeD(1))

text \<open>The check of protected access finds out whether the domain is one of those above the task.\<close>

lemma trace_tree:
  assumes t: "dom_tree s" and l: "dom_live s (dom_part t)"
  shows "trace_domain s TA_PROTECTED did t = Some (\<exists>n. domain_walk s t n = did)"
proof -
  from walk_ends [OF assms] have ex: "\<exists>n. domain_walk s t n = did \<or> domain_walk s t n = MP_KDMID_SELF" by blast
  define n where "n = (LEAST n. domain_walk s t n = did \<or> domain_walk s t n = MP_KDMID_SELF)"
  have n: "domain_walk s t n = did \<or> domain_walk s t n = MP_KDMID_SELF" unfolding n_def by (rule LeastI_ex [OF ex])
  have less: "domain_walk s t k \<noteq> did \<and> domain_walk s t k \<noteq> MP_KDMID_SELF" if "k < n" for k
    using that not_less_Least unfolding n_def by blast
  show ?thesis
  proof (cases "domain_walk s t n = did")
    case True
    then show ?thesis using trace_found [OF True less] by auto
  next
    case False
    then have r: "domain_walk s t n = MP_KDMID_SELF" using n by blast
    have "domain_walk s t k \<noteq> did" for k
    proof (cases "k < n")
      case False
      then obtain j where "k = n + j" using le_Suc_ex not_less by blast
      then show ?thesis using walk_root [OF t r, of j] r \<open>domain_walk s t n \<noteq> did\<close> by simp
    qed (use less in blast)
    moreover from this have "trace_domain s TA_PROTECTED did t = Some False" using r less by (intro trace_refused) auto
    ultimately show ?thesis by simp
  qed
qed

section \<open>Creation and deletion keep the tree\<close>

lemma dom_sel [simp]:
  "domid_of (upd_dom i f s) j = (if j = i then domid (f (cbs (domtab s) i)) else domid_of s j)"
  "cbs (domtab (upd_dom i f s)) j = (if j = i then f (cbs (domtab s) i) else cbs (domtab s) j)"
  "freeq (domtab (upd_dom i f s)) = freeq (domtab s)" "maxid (domtab (upd_dom i f s)) = maxid (domtab s)"
  "domid_of (set_free_dom q s) = domid_of s" "cbs (domtab (set_free_dom q s)) = cbs (domtab s)"
  "freeq (domtab (set_free_dom q s)) = q" "maxid (domtab (set_free_dom q s)) = maxid (domtab s)"
  "domtab (set_key ty k x s) = domtab s" "domid_of (set_key ty k x s) = domid_of s"
  by (auto simp: upd_dom_def set_free_dom_def set_key_def domid_of_def)

lemma dom_children_finite [simp]: "finite (dom_children s i)"
  by (rule finite_subset [of _ "{..maxid (domtab s)}"]) (auto simp: dom_children_def dom_live_def)

lemma dom_tree_add:
  assumes t: "dom_tree s" and i: "freeq (domtab s) = i # q" and b: "dom_live s b" "b < 256"
    and id: "domid_of s' = (domid_of s)(i := x)" "x \<noteq> 0" "dom_part x = b" "INDEX_DOM x = i"
    and o: "freeq (domtab s') = q" "maxid (domtab s') = maxid (domtab s)"
    and cnt: "\<And>j. objcnt (cbs (domtab s') j) = (if j = i then 0 else objcnt (cbs (domtab s) j) + of_bool (j = b))"
    and small: "unat (objcnt (cbs (domtab s) b)) < 2 ^ 32 - 1"
  shows "dom_tree s'"
proof -
  have f: "0 < i" "i \<le> maxid (domtab s)" "domid_of s i = 0" "i \<notin> set q" "distinct q"
    using dom_treeD(5,6,7,10) [OF t] i by auto
  have live: "dom_live s' j \<longleftrightarrow> dom_live s j \<or> j = i" for j using f id o by (auto simp: dom_live_def)
  have ni: "\<not> dom_live s i" "b \<noteq> i" using f b by (auto simp: dom_live_def)
  have par: "dom_part (domid_of s j) \<noteq> i" if "dom_live s j" "j \<noteq> 0" for j using dom_treeD(3) [OF t that] ni by auto
  have kids: "dom_children s' p = (if p = b then insert i (dom_children s p) else if p = i then {} else dom_children s p)" for p
    using ni f(1) par by (auto simp: dom_children_def live id)
  have c: "card (dom_children s' p) \<le> unat (objcnt (cbs (domtab s') p))" if "dom_live s' p" for p
  proof (cases "p = i")
    case True
    then show ?thesis using ni by (simp add: kids)
  next
    case False
    then have l: "dom_live s p" using that live by blast
    show ?thesis
    proof (cases "p = b")
      case True
      have "unat (objcnt (cbs (domtab s) b) + 1) = Suc (unat (objcnt (cbs (domtab s) b)))"
        using small by (simp add: unat_word_ariths)
      moreover have "card (insert i (dom_children s b)) \<le> Suc (card (dom_children s b))" by (simp add: card_insert_if)
      ultimately show ?thesis using dom_treeD(8) [OF t l] True False by (simp add: kids cnt)
    next
      case nb: False
      then show ?thesis using dom_treeD(8) [OF t l] False by (simp add: kids cnt)
    qed
  qed
  obtain d :: "nat \<Rightarrow> nat" where d: "\<And>j. dom_live s j \<Longrightarrow> j \<noteq> 0 \<Longrightarrow> d (dom_part (domid_of s j)) < d j"
    using t unfolding dom_tree_def by blast
  have "\<forall>j. dom_live s' j \<and> j \<noteq> 0 \<longrightarrow> (d(i := Suc (d b))) (dom_part (domid_of s' j)) < (d(i := Suc (d b))) j"
    using d par ni by (auto simp: live id)
  then have "\<exists>d :: nat \<Rightarrow> nat. \<forall>j. dom_live s' j \<and> j \<noteq> 0 \<longrightarrow> d (dom_part (domid_of s' j)) < d j" by (rule exI [where x = "d(i := Suc (d b))"])
  moreover have "dom_live s' (dom_part (domid_of s' j)) \<and> INDEX_DOM (domid_of s' j) = j" if "dom_live s' j" "j \<noteq> 0" for j
    using that dom_treeD(3,4) [OF t] b(1) by (auto simp: live id)
  moreover have "0 < j \<and> j \<le> maxid (domtab s') \<and> domid_of s' j = 0" if "j \<in> set q" for j
    using that f(4) dom_treeD(5,6,7) [OF t, of j] i by (auto simp: id o)
  ultimately show ?thesis
    using dom_treeD(1,9) [OF t] f c unfolding dom_tree_def by (simp add: id o)
qed

lemma dom_tree_remove:
  assumes t: "dom_tree s" and i: "dom_live s i" "i \<noteq> 0" "objcnt (cbs (domtab s) i) = 0"
    and id: "domid_of s' = (domid_of s)(i := 0)"
    and o: "freeq (domtab s') = freeq (domtab s) @ [i]" "maxid (domtab s') = maxid (domtab s)"
    and cnt: "\<And>j. j \<noteq> i \<Longrightarrow> objcnt (cbs (domtab s') j) = objcnt (cbs (domtab s) j) - of_bool (j = dom_part (domid_of s i))"
  shows "dom_tree s'"
proof -
  let ?p = "dom_part (domid_of s i)"
  have none: "dom_children s i = {}" using dom_treeD(8) [OF t i(1)] i(3) by simp
  have live: "dom_live s' j \<longleftrightarrow> dom_live s j \<and> j \<noteq> i" for j by (auto simp: dom_live_def id o)
  have par: "dom_part (domid_of s j) \<noteq> i" if "dom_live s j" "j \<noteq> 0" for j using none that by (auto simp: dom_children_def)
  have kids: "dom_children s' p = dom_children s p - {i}" for p by (auto simp: dom_children_def live id)
  have fr: "i \<notin> set (freeq (domtab s))" using dom_treeD(7) [OF t] i(1) by (auto simp: dom_live_def)
  have c: "card (dom_children s' p) \<le> unat (objcnt (cbs (domtab s') p))" if "dom_live s' p" for p
  proof (cases "p = ?p")
    case False
    then have "i \<notin> dom_children s p" by (auto simp: dom_children_def)
    then show ?thesis using dom_treeD(8) [OF t, of p] that False by (simp add: kids live cnt)
  next
    case True
    have m: "i \<in> dom_children s p" using i True by (simp add: dom_children_def)
    then have "1 \<le> card (dom_children s p)" by (metis One_nat_def Suc_leI card_gt_0_iff dom_children_finite empty_iff)
    then have "unat (objcnt (cbs (domtab s) p) - 1) = unat (objcnt (cbs (domtab s) p)) - 1"
      using dom_treeD(8) [OF t, of p] that by (intro unat_minus_one) (auto simp: live)
    then show ?thesis using dom_treeD(8) [OF t, of p] that True m by (simp add: kids live cnt)
  qed
  obtain d :: "nat \<Rightarrow> nat" where d: "\<And>j. dom_live s j \<Longrightarrow> j \<noteq> 0 \<Longrightarrow> d (dom_part (domid_of s j)) < d j"
    using t unfolding dom_tree_def by blast
  have "\<forall>j. dom_live s' j \<and> j \<noteq> 0 \<longrightarrow> d (dom_part (domid_of s' j)) < d j" using d by (auto simp: live id)
  then have "\<exists>d :: nat \<Rightarrow> nat. \<forall>j. dom_live s' j \<and> j \<noteq> 0 \<longrightarrow> d (dom_part (domid_of s' j)) < d j" by (rule exI [where x = d])
  moreover have "dom_live s' (dom_part (domid_of s' j)) \<and> INDEX_DOM (domid_of s' j) = j" if "dom_live s' j" "j \<noteq> 0" for j
    using that dom_treeD(3,4) [OF t] par by (auto simp: live id)
  moreover have "0 < j \<and> j \<le> maxid (domtab s') \<and> domid_of s' j = 0" if "j \<in> set (freeq (domtab s'))" for j
    using that i dom_treeD(5,6,7) [OF t, of j] by (auto simp: id o dom_live_def)
  moreover have "domid_of s' 0 = MP_KDMID_SELF" using dom_treeD(1) [OF t] i(2) by (simp add: id)
  ultimately show ?thesis
    using dom_treeD(9,10) [OF t] fr c unfolding dom_tree_def by (simp add: id o)
qed

lemma cre_dom_tree:
  assumes t: "dom_tree s" and small: "\<And>i. unat (objcnt (cbs (domtab s) i)) < 2 ^ 32 - 1"
  shows "dom_tree (snd (tk_cre_dom pk s))"
proof (cases "snd (tk_cre_dom pk s) = s")
  case False
  define b where "b = (if cdom_domatr pk AND TA_DOMID \<noteq> 0 then cdom_domid pk else MP_KDMID)"
  define nm where "nm = (if cdom_domatr pk AND TA_ONAME \<noteq> 0 then cdom_oname pk else default_object_name)"
  obtain i q where i: "freeq (domtab s) = i # q" and r: "snd (tk_cre_dom pk s) =
      upd_dom i (\<lambda>d. d\<lparr>objcnt := 0\<rparr>) (mp_register_object_in_domain b OT_DOM (INDEX_DOM (MP_GEN_DOMIDPART b OR ID_DOM i)) nm
        (upd_dom i (\<lambda>d. d\<lparr>dom_oname := name_copy nm\<rparr>) (upd_dom i (\<lambda>d. d\<lparr>domid := MP_GEN_DOMIDPART b OR ID_DOM i,
          dom_exinf := cdom_exinf pk, domatr := cdom_domatr pk\<rparr>) (set_free_dom q s))))"
    and l: "dom_live s (INDEX_DOM b)"
  proof -
    have k: "INDEX_DOM MP_KDMID = 0" by code_simp
    have g: "guards ([CHECK_RSATR (cdom_domatr pk) (TA_DOMID OR TA_ONAME)] @
        (if cdom_domatr pk AND TA_DOMID \<noteq> 0 then [CHECK_DOMID s (cdom_domid pk)] else [])) = None"
      using False by (auto simp: tk_cre_dom_def split: option.splits)
    have x: "cdom_domatr pk AND TA_DOMID \<noteq> 0 \<Longrightarrow> mp_existence_check_of_domain s (cdom_domid pk) = E_OK"
      using False unfolding tk_cre_dom_def g by (auto simp: Let_def split: if_splits)
    have "dom_live s (INDEX_DOM b)"
    proof (cases "cdom_domatr pk AND TA_DOMID \<noteq> 0")
      case True
      then have "INDEX_DOM (cdom_domid pk) \<le> maxid (domtab s)"
        using g by (auto simp: CHECK_RSATR_def CHECK_DOMID_def CHK_DOMID_def INDEX_DOM_def split: if_splits)
      moreover have "domid_of s (INDEX_DOM (cdom_domid pk)) \<noteq> 0"
        using x [OF True] by (auto simp: mp_existence_check_of_domain_def E_OK_def E_NOEXS_val)
      ultimately show ?thesis using True by (simp add: b_def dom_live_def)
    next
      case False
      then show ?thesis using k dom_treeD(2) [OF t] by (simp add: b_def)
    qed
    moreover have "(if cdom_domatr pk AND TA_DOMID \<noteq> 0 then mp_existence_check_of_domain s (cdom_domid pk) else E_OK) = E_OK" using x by simp
    ultimately show thesis
      using False that unfolding tk_cre_dom_def g
      by (cases "freeq (domtab s)") (auto simp: b_def [symmetric] nm_def [symmetric] Let_def split: if_splits)
  qed
  have m: "maxid (domtab s) < 256" by (rule dom_treeD(9) [OF t])
  then have lt: "INDEX_DOM b < 256" "i < 256" using l dom_treeD(6) [OF t, of i] i by (auto simp: dom_live_def)
  note nd = new_domid [OF lt]
  have f: "domid_of s i = 0" using dom_treeD(7) [OF t, of i] i by simp
  then have bi: "INDEX_DOM b \<noteq> i" using l by (auto simp: dom_live_def)
  show ?thesis
    by (rule dom_tree_add [OF t i l lt(1) _ nd(3,1,2) _ _ _ small])
      (use bi in \<open>auto simp: r mp_register_object_in_domain_def Let_def domid_of_def fun_eq_iff split: prod.splits\<close>)
qed (use t in simp)

lemma del_dom_tree:
  assumes t: "dom_tree s" and i: "INDEX_DOM did \<noteq> 0"
  shows "dom_tree (snd (tk_del_dom did s))"
proof (cases "snd (tk_del_dom did s) = s")
  case False
  let ?i = "INDEX_DOM did"
  have r: "snd (tk_del_dom did s) = remove_dom did s" and l: "dom_live s ?i" "objcnt (cbs (domtab s) ?i) = 0"
    and c: "MP_CMP_DOMIDPART (domid_of s ?i) did"
    using False by (auto simp: tk_del_dom_def Let_def CHECK_DOMID_def CHK_DOMID_def dom_live_def INDEX_DOM_def domid_of_def
        split: if_splits option.splits)
  have p: "dom_part did = dom_part (domid_of s ?i)"
  proof -
    have "did AND DOMID_MASK = domid_of s ?i AND DOMID_MASK"
    proof (rule bit_word_eqI)
      fix k assume "k < LENGTH(32)"
      have "\<not> bit ((domid_of s ?i XOR did) AND DOMID_MASK) k" using c by (simp add: MP_CMP_DOMIDPART_def)
      then show "bit (did AND DOMID_MASK) k \<longleftrightarrow> bit (domid_of s ?i AND DOMID_MASK) k" by (auto simp: bit_and_iff bit_xor_iff)
    qed
    then show ?thesis by (simp add: dom_part_def)
  qed
  have "INDEX_DOM (mp_get_domid_from_id s did) = dom_part (domid_of s ?i)"
    using dom_index [OF t dom_treeD(3) [OF t l(1) i]] by (simp add: mp_get_domid_part p)
  then have "remove_dom did s = upd_dom ?i (\<lambda>d. d\<lparr>domid := 0\<rparr>) (set_free_dom (freeq (domtab s) @ [?i])
      (upd_dom (dom_part (domid_of s ?i)) (\<lambda>d. d\<lparr>objcnt := objcnt d - 1\<rparr>) (set_key OT_DOM ?i 0 s)))"
    by (simp add: remove_dom_def mp_unregister_object_in_domain_def Let_def mp_get_domid_from_id_def)
  then show ?thesis
    unfolding r by (intro dom_tree_remove [OF t l(1) i l(2)]) (auto simp: domid_of_def fun_eq_iff)
qed (use t in simp)

end
