(* ===== verification/Boot_State.thy ===== *)
theory Boot_State
  imports Mp_Domain
begin

text \<open>
  A small concrete configuration: two processors, all tables initialised and empty, every task
  dormant. It is what the start-up code leaves behind, is well formed, and is the starting point of
  the concrete runs in the other theories.
\<close>

definition blank_tcb :: "nat \<Rightarrow> tcb" where
  "blank_tcb t = \<lparr>tskid = ID_OBJ t, exinf = 0, tskatr = 0, resid = 0, stksz = 0, sstksz = 0, reqdct = 0, isysmode = 0,
     sysmode = 0, ipriority = 9, bpriority = 9, priority = 9, state = TS_DORMANT, nodiswai = False, klockwait = False,
     klocked = False, stkfree = False, wspec = Wspec_slp, wid = 0, wupcnt = 0, suscnt = 0, wercd = 0, winfo = Winfo_none,
     wtmeb = \<lparr>tm_time = 0, tm_callback = None\<rparr>, waitmask = 0, wrdvno = 0, mtxlist = [], tskevt = 0, svclocked = [], texhdr = 0,
     texmask = 0, pendtex = 0, exectex = 0, texflg = 0, execssid = 0, slicetime = 0, slicecnt = 0, stime = 0, utime = 0,
     tsk_oname = [], assprc = 3, tsk_task = 0, istack = 0, isstack = 0, ctx_ssp = 0, ctx_uatb = 0, ctx_lsid = 0\<rparr>"

definition boot_objs :: kobjs where
  "boot_objs = \<lparr>bmem = \<lambda>_. 0,
     mbftab = \<lparr>cbs = \<lambda>_. \<lparr>mbfid = 0, mbf_exinf = 0, mbfatr = 0, bufsz = 0, maxmsz = 0, frbufsz = 0, mbf_head = 0, mbf_tail = 0,
       buffer = [], mbf_oname = []\<rparr>, freeq = [0, 1, 2], maxid = 3\<rparr>,
     mpftab = \<lparr>cbs = \<lambda>_. \<lparr>mpfid = 0, mpf_exinf = 0, mpfatr = 0, mpfcnt = 0, blfsz = 0, mpfsz = 0, frbcnt = 0, mempool = 0,
       unused = 0, freelist = 0, mpf_locked = False, mpf_oname = []\<rparr>, freeq = [0, 1, 2], maxid = 3\<rparr>,
     mpltab = \<lparr>cbs = \<lambda>i. \<lparr>mplid = 0, mpl_exinf = 0, mplatr = 0, mplsz = 0, areaque = of_nat (64 * i + 16), freeque = of_nat (64 * i + 24),
       mpl_oname = []\<rparr>, freeq = [0, 1, 2], maxid = 3\<rparr>,
     portab = \<lparr>cbs = \<lambda>_. \<lparr>porid = 0, por_exinf = 0, poratr = 0, maxcmsz = 0, maxrmsz = 0, por_oname = []\<rparr>,
       freeq = [0, 1, 2], maxid = 3\<rparr>,
     cyctab = \<lparr>cbs = \<lambda>_. \<lparr>cycid = 0, cyc_exinf = 0, cycatr = 0, cychdr = 0, cycstat = 0, cyctim = 0, cyc_gp = 0, cyc_oname = [],
       cyc_assprc = 0, cycno = 0\<rparr>, freeq = [0, 1, 2], maxid = 3\<rparr>,
     almtab = \<lparr>cbs = \<lambda>_. \<lparr>almid = 0, alm_exinf = 0, almatr = 0, almhdr = 0, almstat = 0, alm_gp = 0, alm_oname = [],
       alm_assprc = 0, almno = 0\<rparr>, freeq = [0, 1, 2], maxid = 3\<rparr>,
     handler_queue = \<lambda>_. \<lparr>hq_upd = False, hq_act = False, hdrque = []\<rparr>,
     objlock_held = \<lambda>_. False, svclock_held = \<lambda>_. False, default_sstksz = 2048, max_resid = 4, available_cop = 0\<rparr>"

definition boot_state :: kstate where
  "boot_state = \<lparr>num_proc = 2, max_tskid = 8, task_indep = \<lambda>_. False, cpu_di = \<lambda>_. False, ctxtsk = \<lambda>_. None,
     schedtsk = \<lambda>_. None, dispatch_disabled = \<lambda>_. 0, tcbs = blank_tcb, ques = \<lambda>_. [],
     rq_bitmap = replicate BITMAP_BYTES 0, rq_klocktsk = None, rq_top = replicate MAX_PROC None, rq_chg = False,
     timer_period = 10, current_time = 0, real_time_ofs = 0, timer_queue = [],
     cyc_tmeb = \<lambda>_. \<lparr>tm_time = 0, tm_callback = None\<rparr>, alm_tmeb = \<lambda>_. \<lparr>tm_time = 0, tm_callback = None\<rparr>,
     semtab = \<lparr>cbs = \<lambda>_. \<lparr>semid = 0, sem_exinf = 0, sematr = 0, semcnt = 0, maxsem = 0, sem_oname = []\<rparr>, freeq = [0, 1, 2], maxid = 3\<rparr>,
     flgtab = \<lparr>cbs = \<lambda>_. \<lparr>flgid = 0, flg_exinf = 0, flgatr = 0, flgptn = 0, flg_oname = []\<rparr>, freeq = [0, 1, 2], maxid = 3\<rparr>,
     mbxtab = \<lparr>cbs = \<lambda>_. \<lparr>mbxid = 0, mbx_exinf = 0, mbxatr = 0, mq_head = None, mq_tail = None, mbx_oname = []\<rparr>,
       freeq = [0, 1, 2], maxid = 3\<rparr>,
     mtxtab = \<lparr>cbs = \<lambda>_. \<lparr>mtxid = 0, mtx_exinf = 0, mtxatr = 0, ceilpri = 0, mtxtsk = None, mtx_oname = []\<rparr>,
       freeq = [0, 1, 2], maxid = 3\<rparr>,
     domtab = \<lparr>cbs = init_dom_cbs (\<lambda>_. \<lparr>domid = 0, dom_exinf = 0, domatr = 0, dom_oname = [], objcnt = 0\<rparr>) 4,
       freeq = [1, 2, 3], maxid = 3\<rparr>,
     hashcb = \<lambda>_. replicate 8 0, oaplimit = 0, umem = \<lambda>_. 0, ko = boot_objs, msgs = \<lambda>_. \<lparr>nextmsg = None, msgpri = 0\<rparr>\<rparr>"

lemma boot_kinv: "kinv boot_state"
proof -
  have r: "rdy boot_state = []" by (simp add: rdy_def boot_state_def)
  have r4: "replicate 4 None = replicate 2 None @ replicate 2 (None :: nat option)" by (simp add: numeral_eq_Suc)
  have "rq_wf boot_state"
    unfolding rq_wf_def rq_tops_def r
    by (auto simp: boot_state_def rq_prios_def rq_bits_def pad_def MAX_PROC_def bit_at_def BITMAP_BYTES_def NUM_PRI_def r4)
  then show ?thesis
    by (simp add: kinv_def sched_wf_def rdy_excl_def sched_in_def r)
      (simp add: boot_state_def blank_tcb_def NUM_PRI_def)
qed

text \<open>A dormant task is given a priority and made ready.\<close>

definition run_task :: "nat \<Rightarrow> nat \<Rightarrow> kstate \<Rightarrow> kstate" where
  "run_task t p s = make_ready t (upd_tcb t (\<lambda>c. c\<lparr>priority := p, bpriority := p\<rparr>) s)"

lemma run_task_kinv:
  assumes k: "kinv s" and d: "state (tcbs s t) = TS_DORMANT" "\<And>q. t \<notin> set (ques s q)" and p: "p < NUM_PRI"
  shows "kinv (run_task t p s)"
proof -
  have n: "t \<notin> set (rdy s)" "\<not> klockwait (tcbs s t)" using k d by (auto simp: kinv_rdy kinv_def)
  have r: "QueRemove_tsk t s = s" using d(2) by (simp add: QueRemove_tsk_def)
  have "kinv_but t s" using kinv_but_remove [OF k n(1)] r by simp
  then have "kinv_but t (upd_tcb t (\<lambda>c. c\<lparr>priority := p, bpriority := p\<rparr>) s)" by (rule kinv_but_upd) (use p in simp)
  then show ?thesis unfolding run_task_def by (rule kinv_but_ready) (simp add: n(2))
qed

text \<open>The dispatcher on processor \<open>i\<close>.\<close>

definition dispatch_on :: "nat \<Rightarrow> kstate \<Rightarrow> kstate" where
  "dispatch_on i s = s\<lparr>ctxtsk := (ctxtsk s)(i := schedtsk s i)\<rparr>"

text \<open>Tasks 0 and 1 run on the two processors.\<close>

definition running_state :: kstate where
  "running_state =
    dispatch_on 0 (dispatch_on 1 (the (update_schedtsk (run_task 1 20 (run_task 0 10 boot_state)))))"

lemma running_kinv: "kinv running_state"
proof -
  have k0: "kinv (run_task 0 10 boot_state)"
    by (rule run_task_kinv [OF boot_kinv]) (simp_all add: boot_state_def blank_tcb_def NUM_PRI_def)
  have k1: "kinv (run_task 1 20 (run_task 0 10 boot_state))"
  proof (rule run_task_kinv [OF k0])
    show "state (tcbs (run_task 0 10 boot_state) 1) = TS_DORMANT"
      by (simp add: run_task_def boot_state_def blank_tcb_def)
    show "1 \<notin> set (ques (run_task 0 10 boot_state) q)" for q
      by (cases "q = QReady 10") (simp_all add: run_task_def make_ready_def ready_queue_insert_sel QueInsert_tail_def set_que_def
          boot_state_def)
  qed (simp add: NUM_PRI_def)
  from update_schedtsk_kinv [OF k1] show ?thesis by (auto simp: running_state_def dispatch_on_def)
qed

declare rqt_scan.simps [code] wait_delete.simps [code] trace_domain.simps [code] timer_events.simps [code]
  bitsearch0_scan.simps [code] bitsearch0_loop.simps [code] bitsearch1_scan.simps [code] bitsearch1_loop.simps [code]

lemma running_ctx: "ctxtsk running_state 0 = Some 0 \<and> ctxtsk running_state 1 = Some 1"
  by code_simp

end
