(* ===== verification/Object_Base.thy ===== *)
theory Object_Base
  imports Mp_Domain
begin

text \<open>
  What the object modules share. First the shape of their system calls: every call on an existing
  object checks its arguments, finds the control block, refuses an unused entry and a caller without
  access, and then does its work. Then the laws of a table of control blocks, as the locale
  \<open>obj_table\<close>: the invariant of each object is a predicate on its \<open>view\<close>, that is its control block
  and what the waiting tasks stored when they went to wait; the locale proves once that the ends of
  critical sections, creation and deletion keep it.
\<close>

section \<open>The shape of the calls\<close>

text \<open>\<open>body\<close> is the part of the call behind the existence and protection checks.\<close>

definition obj_call :: "bool \<Rightarrow> (bool \<times> ER) list \<Rightarrow> nat \<Rightarrow> objops \<Rightarrow> ID \<Rightarrow>
    (nat \<Rightarrow> kstate \<Rightarrow> (ER \<times> kstate) option) \<Rightarrow> kstate \<Rightarrow> (ER \<times> kstate) option" where
  "obj_call dsp gs prid ops oid body s =
    (case guards gs of
       Some e \<Rightarrow> Some (e, s)
     | None \<Rightarrow>
         (let i = INDEX_OBJ oid
          in if oo_id ops s i = 0 then leave_critical dsp E_NOEXS s
             else do {
               ercd \<leftarrow> mp_check_domain_and_protection prid s oid (oo_id ops s i) (oo_atr ops s i);
               if ercd \<noteq> E_OK then leave_critical dsp ercd s else body i s
             }))"

text \<open>Creation: \<open>init\<close> fills the control block, or fails after it has been taken from \<open>FreeQue\<close>.\<close>

definition obj_cre :: "(bool \<times> ER) list \<Rightarrow> nat \<Rightarrow> objops \<Rightarrow> ATR \<Rightarrow> ID \<Rightarrow> UB list \<Rightarrow>
    (nat \<Rightarrow> ID \<Rightarrow> kstate \<Rightarrow> kstate) \<Rightarrow> kstate \<Rightarrow> (ER \<times> kstate) option" where
  "obj_cre gs prid ops atr did oname init s =
    (case guards (gs @ [CHECK_PATR atr] @ (if atr AND TA_DOMID \<noteq> 0 then [CHECK_DOMID s did] else [])) of
       Some e \<Rightarrow> Some (e, s)
     | None \<Rightarrow> do {
         r \<leftarrow> cre_prologue prid ops atr did oname s;
         case r of
           Inl e \<Rightarrow> Some (e, s)
         | Inr (did, oname) \<Rightarrow>
             (case oo_free ops s of
                [] \<Rightarrow> Some (E_LIMIT, s)
              | i # q \<Rightarrow>
                  (let s = oo_set_free ops q s;
                       oid = MP_GEN_DOMIDPART did OR ID_OBJ i;
                       s = init i oid s;
                       s = oo_set_name ops i (name_copy oname) s;
                       s = mp_register_object_in_domain did (oo_type ops) (INDEX_OBJ oid) oname s
                   in Some (sint oid, s)))
       })"

text \<open>Deletion, once the waiting tasks have been released.\<close>

definition obj_unlink :: "objops \<Rightarrow> ID \<Rightarrow> nat \<Rightarrow> kstate \<Rightarrow> kstate" where
  "obj_unlink ops oid i s =
    (let s = mp_unregister_object_in_domain oid (oo_type ops) (INDEX_OBJ oid) s;
         s = oo_set_free ops (oo_free ops s @ [i]) s
     in oo_set_id ops i 0 s)"

definition obj_ref :: "(bool \<times> ER) list \<Rightarrow> nat \<Rightarrow> objops \<Rightarrow> ID \<Rightarrow> (nat \<Rightarrow> 'r) \<Rightarrow> kstate \<Rightarrow> (ER \<times> 'r option) option" where
  "obj_ref gs prid ops oid body s =
    (case guards gs of
       Some e \<Rightarrow> Some (e, None)
     | None \<Rightarrow>
         (let i = INDEX_OBJ oid
          in if oo_id ops s i = 0 then Some (E_NOEXS, None)
             else do {
               ercd \<leftarrow> mp_check_domain_and_protection prid s oid (oo_id ops s i) (oo_atr ops s i);
               Some (ercd, if ercd = E_OK then Some (body i) else None)
             }))"

text \<open>\<open>_td_ref_xxx\<close> checks the domain part of the identifier only.\<close>

definition obj_td_ref :: "(bool \<times> ER) list \<Rightarrow> objops \<Rightarrow> ID \<Rightarrow> (nat \<Rightarrow> 'r) \<Rightarrow> kstate \<Rightarrow> ER \<times> 'r option" where
  "obj_td_ref gs ops oid body s =
    (case guards gs of
       Some e \<Rightarrow> (e, None)
     | None \<Rightarrow>
         (let i = INDEX_OBJ oid
          in if oo_id ops s i = 0 then (E_NOEXS, None)
             else if \<not> MP_CMP_DOMIDPART oid (oo_id ops s i) then (E_NOEXS, None)
             else (E_OK, Some (body i))))"

text \<open>\<open>_td_xxx_que\<close>: the number of waiting tasks and the first \<open>nent\<close> of their identifiers.\<close>

definition obj_td_que :: "(bool \<times> ER) list \<Rightarrow> objops \<Rightarrow> (nat \<Rightarrow> qhead) \<Rightarrow> ID \<Rightarrow> int \<Rightarrow> kstate \<Rightarrow> ER \<times> ID list" where
  "obj_td_que gs ops hd_of oid nent s =
    (case obj_td_ref gs ops oid (\<lambda>i. map (\<lambda>t. tskid (tcbs s t)) (ques s (hd_of i))) s of
       (e, None) \<Rightarrow> (e, [])
     | (e, Some ids) \<Rightarrow> (int (length ids), take (nat nent) ids))"

text \<open>
  The body of a call that goes to wait: \<open>wspec\<close>, \<open>winfo\<close> and \<open>wercd\<close> are set, then the task is linked
  into the queue, unless polling; the value of the call is what \<open>wercd\<close> holds.
\<close>

definition wait_on :: "nat \<Rightarrow> GCB \<Rightarrow> wspec_ref \<Rightarrow> WINFO \<Rightarrow> TMO \<Rightarrow> kstate \<Rightarrow> (ER \<times> kstate) option" where
  "wait_on prid gcb w wi tmout s = do {
     t \<leftarrow> ctxtsk s prid;
     s \<leftarrow> gcb_make_wait_with_diswai prid gcb tmout (upd_tcb t (\<lambda>c. c\<lparr>wspec := w, winfo := wi, wercd := E_OK\<rparr>) s);
     end_critical (wercd (tcbs s t)) s
   }"

lemma guards_None: "guards gs = None \<longleftrightarrow> (\<forall>g\<in>set gs. fst g)"
  by (induction gs rule: guards.induct) auto

text \<open>The ways out of a call.\<close>

lemma obj_call_cases:
  assumes "obj_call dsp gs prid ops oid body s = Some (e, s')"
  obtains "s' = s" | x where "leave_critical dsp x s = Some (e, s')"
  | "guards gs = None" "oo_id ops s (INDEX_OBJ oid) \<noteq> 0" "body (INDEX_OBJ oid) s = Some (e, s')"
proof (cases "guards gs")
  case (Some x)
  with assms that(1) show ?thesis by (simp add: obj_call_def)
next
  case None
  show ?thesis
  proof (cases "oo_id ops s (INDEX_OBJ oid) = 0")
    case True
    with assms None that(2) show ?thesis by (simp add: obj_call_def)
  next
    case False
    with assms None obtain x where "(if x \<noteq> E_OK then leave_critical dsp x s else body (INDEX_OBJ oid) s) = Some (e, s')"
      by (auto simp: obj_call_def Let_def split: Option.bind_splits)
    then show ?thesis using that(2) that(3) [OF None False] by (simp split: if_splits)
  qed
qed

lemma obj_cre_cases:
  assumes r: "obj_cre gs prid ops atr did oname init s = Some (e, s')"
  obtains "s' = s" | i q dom nm oid where "guards (gs @ [CHECK_PATR atr] @ (if atr AND TA_DOMID \<noteq> 0 then [CHECK_DOMID s did] else [])) = None"
    "oo_free ops s = i # q" "oid = MP_GEN_DOMIDPART dom OR ID_OBJ i" "e = sint oid"
    "s' = mp_register_object_in_domain dom (oo_type ops) (INDEX_OBJ oid) nm
       (oo_set_name ops i (name_copy nm) (init i oid (oo_set_free ops q s)))"
proof (cases "guards (gs @ [CHECK_PATR atr] @ (if atr AND TA_DOMID \<noteq> 0 then [CHECK_DOMID s did] else []))")
  case (Some x)
  with r that(1) show ?thesis by (simp add: obj_cre_def)
next
  case None
  obtain p where p: "cre_prologue prid ops atr did oname s = Some p"
    using r None by (auto simp: obj_cre_def split: Option.bind_splits)
  show ?thesis
  proof (cases p)
    case (Inl x)
    with r None p that(1) show ?thesis by (simp add: obj_cre_def)
  next
    case (Inr y)
    obtain dom nm where y: "y = (dom, nm)" by (cases y)
    show ?thesis
    proof (cases "oo_free ops s")
      case Nil
      with r None p Inr y that(1) show ?thesis by (simp add: obj_cre_def)
    next
      case (Cons i q)
      show ?thesis
        by (rule that(2) [where dom = dom and nm = nm, OF None Cons refl]) (use r None p Inr y Cons in \<open>simp_all add: obj_cre_def Let_def\<close>)
    qed
  qed
qed

section \<open>Guards and queue heads\<close>

lemma CHECK_OBJID_index: "fst (CHECK_OBJID mx s oid) \<Longrightarrow> INDEX_OBJ oid < mx"
  by (auto simp: CHECK_OBJID_def CHK_OBJID_def INDEX_OBJ_def)

lemma ready_head_simps [simp]:
  "\<not> ready_head (QSem i)" "\<not> ready_head (QFlg i)" "\<not> ready_head (QMbx i)" "\<not> ready_head (QMtx i)" "\<not> ready_head QFreeTcb"
  "\<not> ready_head (QMpf i)" "\<not> ready_head (QMpl i)" "\<not> ready_head (QSmbf i)" "\<not> ready_head (QRmbf i)"
  "\<not> ready_head (QCal i)" "\<not> ready_head (QAcp i)" "\<not> ready_head (QObjLock i)" "\<not> ready_head (QSvcLock l)"
  by (auto simp: ready_head_def)

text \<open>The current task is executable; this is where waiting starts from.\<close>

definition ctx_ready :: "nat \<Rightarrow> kstate \<Rightarrow> bool" where
  "ctx_ready prid s \<longleftrightarrow> (\<forall>t. ctxtsk s prid = Some t \<longrightarrow> t \<in> set (rdy s))"

lemma hd_insert_before: "hd (insert_before P e xs) = (if xs = [] \<or> P (hd xs) then e else hd xs)"
  by (cases xs) auto

lemma map_insert_before:
  "(\<And>x. x \<in> set xs \<Longrightarrow> P' (f x) \<longleftrightarrow> P x) \<Longrightarrow> map f (insert_before P e xs) = insert_before P' (f e) (map f xs)"
  by (induction xs) auto

lemma set_que_same: "ques s q = xs \<Longrightarrow> set_que q xs s = s"
  by (auto simp: set_que_def)

lemma distinct_remove1_filter: "distinct xs \<Longrightarrow> remove1 t xs = filter (\<lambda>x. x \<noteq> t) xs"
  by (induction xs) (auto simp: filter_id_conv)

section \<open>What waiting tasks stored\<close>

type_synonym waiter = "nat \<times> WINFO \<times> ID \<times> wspec_ref \<times> nat"

definition wview :: "tcb \<Rightarrow> WINFO \<times> ID \<times> wspec_ref \<times> nat" where
  "wview c = (winfo c, wid c, wspec c, priority c)"

definition waiters :: "kstate \<Rightarrow> qhead \<Rightarrow> waiter list" where
  "waiters s q = map (\<lambda>t. (t, wview (tcbs s t))) (ques s q)"

text \<open>The queues outside \<open>Q\<close> and what their tasks stored stay as they are.\<close>

definition touches :: "qhead set \<Rightarrow> kstate \<Rightarrow> kstate \<Rightarrow> bool" where
  "touches Q s s' \<longleftrightarrow> (\<forall>q. \<not> ready_head q \<and> q \<notin> Q \<longrightarrow> waiters s' q = waiters s q)"

lemma touchesD: "touches Q s s' \<Longrightarrow> \<not> ready_head q \<Longrightarrow> q \<notin> Q \<Longrightarrow> waiters s' q = waiters s q"
  by (simp add: touches_def)

lemma touchesI:
  "(\<And>q. \<not> ready_head q \<Longrightarrow> q \<notin> Q \<Longrightarrow> ques s' q = ques s q) \<Longrightarrow>
   (\<And>q t. \<not> ready_head q \<Longrightarrow> q \<notin> Q \<Longrightarrow> t \<in> set (ques s q) \<Longrightarrow> wview (tcbs s' t) = wview (tcbs s t)) \<Longrightarrow> touches Q s s'"
  by (auto simp: touches_def waiters_def)

lemma touches_refl [simp]: "touches Q s s"
  by (simp add: touches_def)

lemma touches_trans [trans]: "touches Q s s1 \<Longrightarrow> touches Q s1 s2 \<Longrightarrow> touches Q s s2"
  by (simp add: touches_def)

lemma touches_mono: "touches Q s s' \<Longrightarrow> Q \<subseteq> R \<Longrightarrow> touches R s s'"
  by (auto simp: touches_def)

lemma touches_sched: "sched_frame s s' \<Longrightarrow> touches Q s s'"
  by (rule touchesI) (simp_all add: sched_frame_ques wview_def sched_frame_tcb)

lemma touches_same: "tcbs s' = tcbs s \<Longrightarrow> ques s' = ques s \<Longrightarrow> touches Q s s'"
  by (rule touchesI) simp_all

lemma waiters_tasks: "map fst (waiters s q) = ques s q"
  by (simp add: waiters_def comp_def)

lemma waiters_Nil [simp]: "waiters s q = [] \<longleftrightarrow> ques s q = []"
  by (simp add: waiters_def)

lemma touches_ques: "touches Q s s' \<Longrightarrow> \<not> ready_head q \<Longrightarrow> q \<notin> Q \<Longrightarrow> ques s' q = ques s q"
  by (metis touchesD waiters_tasks)

lemma ready_not_waiting: "kinv s \<Longrightarrow> t \<in> set (rdy s) \<Longrightarrow> \<not> ready_head q \<Longrightarrow> t \<notin> set (ques s q)"
  using kinv_dest(3) by (fastforce simp: rdy_excl_def)

lemma touches_upd_ready:
  "kinv s \<Longrightarrow> t \<in> set (rdy s) \<Longrightarrow> touches Q s (upd_tcb t f s)"
  by (rule touchesI) (auto dest: ready_not_waiting)

lemma released_wview: "released e c c' \<Longrightarrow> wview c' = wview c"
  by (simp add: released_def wview_def)

lemma touches_release:
  assumes k: "kinv s" and h: "wait_head q" and t: "t \<in> set (ques s q)"
  shows "touches {q} s (wait_release_ok_ercd t e s)"
    and "waiters (wait_release_ok_ercd t e s) q = filter (\<lambda>w. fst w \<noteq> t) (waiters s q)"
proof -
  note r = wait_release_props [OF k h t, where e = e]
  have v: "wview (tcbs (wait_release_ok_ercd t e s) x) = wview (tcbs s x)" for x
    using r(4) released_wview [OF r(5)] by (cases "x = t") auto
  show "touches {q} s (wait_release_ok_ercd t e s)"
    by (rule touchesI) (use r(3) v in auto)
  show "waiters (wait_release_ok_ercd t e s) q = filter (\<lambda>w. fst w \<noteq> t) (waiters s q)"
    using kinv_dest(5) [OF k, of q] by (simp add: waiters_def r(2) v filter_map comp_def distinct_remove1_filter)
qed

lemma touches_wait_delete:
  assumes k: "kinv s" and h: "wait_head q" and d: "wait_delete q s = Some s'"
  shows "kinv s'" "touches {q} s s'" "ques s' q = []" "objs_same s s'"
proof -
  from wait_delete_ok [OF k h refl] d have w: "kinv s'" "ques s' q = []" "objs_same s s'"
    "\<forall>q'. \<not> ready_head q' \<and> q' \<noteq> q \<longrightarrow> ques s' q' = ques s q'" "\<forall>t\<in>set (ques s q). released E_DLT (tcbs s t) (tcbs s' t)"
    "\<forall>x. x \<notin> set (ques s q) \<longrightarrow> tcbs s' x = tcbs s x" by auto
  show "kinv s'" "ques s' q = []" "objs_same s s'" by (fact w)+
  have "wview (tcbs s' x) = wview (tcbs s x)" for x
    using w(5,6) released_wview by (cases "x \<in> set (ques s q)") auto
  then show "touches {q} s s'" by (intro touchesI) (use w(4) in auto)
qed

section \<open>Going to wait\<close>

text \<open>
  The current task \<open>t\<close> waits for an object: its entry joins the object's queue in the order of the
  attribute, or it is turned away at once because it polls or must not wait.
\<close>

definition join_queue :: "ATR \<Rightarrow> waiter \<Rightarrow> waiter list \<Rightarrow> waiter list" where
  "join_queue atr w ws =
    (if atr AND TA_TPRI \<noteq> 0 then insert_before (\<lambda>x. snd (snd (snd (snd x))) > snd (snd (snd (snd w)))) w ws else ws @ [w])"

text \<open>The part of \<open>gcb_make_wait_with_diswai\<close> that blocks the task.\<close>

lemma gcb_wait_ok:
  fixes s :: kstate and wi :: WINFO and w :: wspec_ref
  assumes k: "kinv s" and c: "ctxtsk s prid = Some t" and t: "t \<in> set (rdy s)" and h: "wait_head (wait_queue gcb)"
  defines "s2 \<equiv> upd_tcb t (\<lambda>c. c\<lparr>wspec := w, winfo := wi, wercd := E_TMOUT\<rparr>) s"
  shows "\<exists>s3 s'. gcb_make_wait prid gcb tmout s2 = Some s3 \<and> wercd (tcbs s3 t) = E_TMOUT \<and> end_critical E_TMOUT s3 = Some (E_TMOUT, s') \<and>
     kinv s' \<and> objs_same s s' \<and> touches {wait_queue gcb} s s' \<and> state (tcbs s' t) = TS_WAIT \<and> set (rdy s') = set (rdy s) - {t} \<and>
     waiters s' (wait_queue gcb) = join_queue (objatr gcb) (t, wi, objid gcb, w, pri s t) (waiters s (wait_queue gcb))"
proof -
  have k2: "kinv s2" "rdy s2 = rdy s" unfolding s2_def by (rule kinv_tcb_upd [OF k]; simp)+
  have c2: "ctxtsk s2 prid = Some t" "t \<in> set (rdy s2)" using c t k2 by (simp_all add: s2_def)
  let ?q = "wait_queue gcb"
  have pr: "pri s2 x = pri s x" for x by (simp add: s2_def)
  from gcb_make_wait_ok [OF k2(1) c2 h, of tmout] obtain s3 where
    s3: "gcb_make_wait prid gcb tmout s2 = Some s3" "kinv s3" "set (rdy s3) = set (rdy s2) - {t}"
      "\<forall>q. \<not> ready_head q \<and> q \<noteq> ?q \<longrightarrow> ques s3 q = ques s2 q"
      "ques s3 ?q = (if objatr gcb AND TA_TPRI \<noteq> 0 then insert_before (\<lambda>x. pri s2 x > pri s2 t) t (ques s2 ?q) else ques s2 ?q @ [t])"
      "task_frame t s2 s3" "state (tcbs s3 t) = TS_WAIT" "wid (tcbs s3 t) = objid gcb" by blast
  have we: "wercd (tcbs s3 t) = E_TMOUT" using s3(6) by (simp add: task_frame_def s2_def)
  from end_critical_ok [OF s3(2), of "E_TMOUT"] obtain s' where
    s': "end_critical E_TMOUT s3 = Some (E_TMOUT, s')" "kinv s'" "sched_frame s3 s'" by blast
  have qs: "ques s2 = ques s" by (simp add: s2_def)
  have nt: "t \<notin> set (ques s q)" if "\<not> ready_head q" for q using ready_not_waiting [OF k t that] .
  have v: "wview (tcbs s3 x) = wview (tcbs s x)" if "x \<noteq> t" for x
    using s3(6) that by (simp add: task_frame_def s2_def)
  have vt: "wview (tcbs s3 t) = (wi, objid gcb, w, pri s t)"
    using s3(6,8) by (simp add: task_frame_def s2_def wview_def)
  have t3: "touches {?q} s s3"
  proof (rule touchesI)
    fix q x assume q: "\<not> ready_head q" "x \<in> set (ques s q)"
    then have "x \<noteq> t" using nt by blast
    then show "wview (tcbs s3 x) = wview (tcbs s x)" by (rule v)
  qed (use s3(4) qs in auto)
  have "touches {?q} s s'" using touches_trans [OF t3 touches_sched [OF s'(3)]] .
  moreover have "objs_same s s'"
    using s3(6) objs_same_trans [of s s3 s'] objs_same_sched [OF s'(3)] by (simp add: task_frame_def s2_def objs_same_def)
  moreover have "waiters s' ?q = join_queue (objatr gcb) (t, wi, objid gcb, w, pri s t) (waiters s ?q)"
  proof -
    have nq: "t \<notin> set (ques s ?q)" using nt wait_head_ready [OF h] by simp
    have vq: "wview (tcbs s3 x) = wview (tcbs s x)" if "x \<in> set (ques s ?q)" for x
    proof (rule v)
      show "x \<noteq> t" using that nq by blast
    qed
    have "waiters s' ?q = waiters s3 ?q"
      by (rule touchesD [OF touches_sched [OF s'(3), of "{}"]]) (simp_all add: wait_head_ready [OF h])
    also have "\<dots> = join_queue (objatr gcb) (t, wi, objid gcb, w, pri s t) (waiters s ?q)"
    proof (cases "objatr gcb AND TA_TPRI \<noteq> 0")
      case True
      have w3: "map (\<lambda>x. (x, wview (tcbs s3 x))) (ques s ?q) = waiters s ?q"
        using vq by (simp add: waiters_def)
      have "waiters s3 ?q = map (\<lambda>x. (x, wview (tcbs s3 x))) (insert_before (\<lambda>x. pri s x > pri s t) t (ques s ?q))"
        using True by (simp add: waiters_def s3(5) qs pr)
      also have "\<dots> = insert_before (\<lambda>x. snd (snd (snd (snd x))) > pri s t) (t, wview (tcbs s3 t)) (map (\<lambda>x. (x, wview (tcbs s3 x))) (ques s ?q))"
      proof (rule map_insert_before)
        fix x assume "x \<in> set (ques s ?q)"
        with nq have "x \<noteq> t" by blast
        from v [OF this] show "pri s t < snd (snd (snd (snd (x, wview (tcbs s3 x))))) \<longleftrightarrow> pri s t < pri s x"
          by (simp add: wview_def)
      qed
      finally show ?thesis using True by (simp add: w3 vt join_queue_def)
    next
      case False
      then show ?thesis using vq by (simp add: waiters_def s3(5) qs vt join_queue_def)
    qed
    finally show ?thesis .
  qed
  moreover have "state (tcbs s' t) = TS_WAIT" using s3(7) by (simp add: sched_frame_tcb [OF s'(3)])
  moreover have "set (rdy s') = set (rdy s) - {t}" using s3(3) k2(2) sched_frame_rdy [OF s'(3)] by simp
  ultimately show ?thesis using s' s3(1) we by blast
qed

lemma wait_on_ok:
  assumes k: "kinv s" and c: "ctxtsk s prid = Some t" and t: "t \<in> set (rdy s)" and h: "wait_head (wait_queue gcb)"
  shows "\<exists>e s'. wait_on prid gcb w wi tmout s = Some (e, s') \<and> kinv s' \<and> objs_same s s' \<and>
     (if is_diswai gcb (tcbs s t) (tskwait (wspec_at w)) then e = E_DISWAI \<and> touches {} s s'
      else if tmout = TMO_POL then e = E_TMOUT \<and> touches {} s s'
      else e = E_TMOUT \<and> touches {wait_queue gcb} s s' \<and> state (tcbs s' t) = TS_WAIT \<and> set (rdy s') = set (rdy s) - {t} \<and>
        waiters s' (wait_queue gcb) = join_queue (objatr gcb) (t, wi, objid gcb, w, pri s t) (waiters s (wait_queue gcb)))"
proof -
  define s1 where "s1 = upd_tcb t (\<lambda>c. c\<lparr>wspec := w, winfo := wi, wercd := E_OK\<rparr>) s"
  define m where "m = is_diswai gcb (tcbs s t) (tskwait (wspec_at w))"
  have g: "wait_on prid gcb w wi tmout s = do {
       s' \<leftarrow> gcb_make_wait_with_diswai prid gcb tmout s1; end_critical (wercd (tcbs s' t)) s' }"
    by (simp add: wait_on_def c s1_def)
  have d: "is_diswai gcb (tcbs s1 t) (tskwait (wspec_at (wspec (tcbs s1 t)))) = m"
    by (simp add: s1_def is_diswai_def m_def)
  have upd: "kinv (upd_tcb t (\<lambda>c. c\<lparr>wspec := w, winfo := wi, wercd := e\<rparr>) s)"
    "rdy (upd_tcb t (\<lambda>c. c\<lparr>wspec := w, winfo := wi, wercd := e\<rparr>) s) = rdy s" for e
    by (rule kinv_tcb_upd [OF k]; simp)+
  have turned: "\<exists>s'. end_critical (wercd (tcbs u t)) u = Some (e, s') \<and> kinv s' \<and> objs_same s s' \<and> touches {} s s'"
    if u: "u = upd_tcb t (\<lambda>c. c\<lparr>wspec := w, winfo := wi, wercd := e\<rparr>) s" for u e
  proof -
    have ku: "kinv u" using upd by (simp add: u)
    from end_critical_ok [OF ku, of "wercd (tcbs u t)"] obtain s' where
      s': "end_critical (wercd (tcbs u t)) u = Some (wercd (tcbs u t), s')" "kinv s'" "sched_frame u s'" by blast
    have "touches {} s s'"
      using touches_trans [OF touches_upd_ready [OF k t] touches_sched [OF s'(3)[unfolded u]]] .
    moreover have "objs_same s s'" using objs_same_trans [of s u s'] objs_same_sched [OF s'(3)] by (simp add: u)
    ultimately show ?thesis using s' by (simp add: u)
  qed
  have c1: "ctxtsk s1 prid = Some t" using c by (simp add: s1_def)
  consider (dis) m | (poll) "\<not> m" "tmout = TMO_POL" | (wait) "\<not> m" "tmout \<noteq> TMO_POL" by blast
  then show ?thesis
  proof cases
    case dis
    have "gcb_make_wait_with_diswai prid gcb tmout s1 = Some (upd_tcb t (\<lambda>c. c\<lparr>wspec := w, winfo := wi, wercd := E_DISWAI\<rparr>) s)"
      using dis d by (simp add: gcb_make_wait_with_diswai_def c1) (simp add: s1_def upd_tcb_def)
    then show ?thesis using turned [OF refl, of E_DISWAI] dis by (simp add: g m_def [symmetric])
  next
    case poll
    have "gcb_make_wait_with_diswai prid gcb tmout s1 = Some (upd_tcb t (\<lambda>c. c\<lparr>wspec := w, winfo := wi, wercd := E_TMOUT\<rparr>) s)"
      using poll d by (simp add: gcb_make_wait_with_diswai_def c1 Let_def) (simp add: s1_def upd_tcb_def)
    then show ?thesis using turned [OF refl, of E_TMOUT] poll by (simp add: g [unfolded poll(2)] m_def [symmetric])
  next
    case wait
    note w = gcb_wait_ok [OF k c t h, where w = w and wi = wi and tmout = tmout]
    have "gcb_make_wait_with_diswai prid gcb tmout s1 = gcb_make_wait prid gcb tmout (upd_tcb t (\<lambda>c. c\<lparr>wspec := w, winfo := wi, wercd := E_TMOUT\<rparr>) s)"
      using wait d by (simp add: gcb_make_wait_with_diswai_def c1 Let_def) (simp add: s1_def upd_tcb_def)
    then show ?thesis using w wait by (auto simp: g m_def [symmetric])
  qed
qed

lemma wait_on_cases:
  assumes k: "kinv s" and c: "ctxtsk s prid = Some t" and t: "t \<in> set (rdy s)" and h: "wait_head (wait_queue gcb)"
    and r: "wait_on prid gcb w wi tmout s = Some (e, s')"
  obtains (turned_away) "e = E_DISWAI \<or> e = E_TMOUT" "kinv s'" "objs_same s s'" "touches {} s s'"
  | (waiting) "e = E_TMOUT" "kinv s'" "objs_same s s'" "touches {wait_queue gcb} s s'" "state (tcbs s' t) = TS_WAIT"
      "waiters s' (wait_queue gcb) = join_queue (objatr gcb) (t, wi, objid gcb, w, pri s t) (waiters s (wait_queue gcb))"
  using wait_on_ok [OF k c t h, of w wi tmout] r
  by (cases "is_diswai gcb (tcbs s t) (tskwait (wspec_at w))"; cases "tmout = TMO_POL") auto

section \<open>Order of the waiting tasks\<close>

abbreviation waiter_pri :: "waiter \<Rightarrow> nat" where
  "waiter_pri w \<equiv> snd (snd (snd (snd w)))"

lemma sorted_map_filter: "sorted (map f xs) \<Longrightarrow> sorted (map f (filter P xs))"
  by (induction xs) auto

lemma sorted_join: "atr AND TA_TPRI \<noteq> 0 \<Longrightarrow> sorted (map waiter_pri ws) \<Longrightarrow> sorted (map waiter_pri (join_queue atr w ws))"
  using sorted_insert_before [of waiter_pri ws w] by (simp add: join_queue_def)

lemma set_join: "set (join_queue atr w ws) = insert w (set ws)"
  by (auto simp: join_queue_def)

lemma length_join: "length (join_queue atr w ws) = Suc (length ws)"
  by (simp add: join_queue_def)

text \<open>The priority of a waiting task changes and the hook puts it into its new place.\<close>

lemma reorder_ok:
  assumes k: "kinv s0" and h: "wait_head q" and t: "t \<in> set (ques s0 q)" and p: "p < NUM_PRI" and g: "wait_queue gcb = q"
  defines "s \<equiv> upd_tcb t (\<lambda>c. c\<lparr>priority := p\<rparr>) s0"
  shows "kinv (gcb_change_priority gcb t s)" and "touches {q} s0 (gcb_change_priority gcb t s)"
    and "atr AND TA_TPRI \<noteq> 0 \<Longrightarrow> waiters (gcb_change_priority gcb t s) q =
      join_queue atr (t, wview (tcbs s t)) (filter (\<lambda>w. fst w \<noteq> t) (waiters s0 q))"
proof -
  let ?s = "gcb_change_priority gcb t s"
  have w: "is_wait (state (tcbs s0 t))" using wait_headD [OF k h t] .
  have b: "kinv_but t (QueRemove_tsk t s0)" by (rule kinv_but_remove [OF k]) (use kinv_waitD [OF k w] in simp)
  have u: "upd_tcb t (\<lambda>c. c\<lparr>priority := p\<rparr>) (QueRemove_tsk t s0) = QueRemove_tsk t s"
    by (simp add: s_def upd_tcb_def QueRemove_tsk_def)
  have b2: "kinv_but t (QueRemove_tsk t s)" using kinv_but_upd(1) [OF b, of "\<lambda>c. c\<lparr>priority := p\<rparr>"] p by (simp add: u)
  have qs: "ques s = ques s0" by (simp add: s_def)
  have d: "distinct (ques s0 q)" using k by (rule kinv_dest)
  define ys where "ys = insert_before (\<lambda>x. pri s x > p) t (remove1 t (ques s0 q))"
  have e: "?s = set_que q ys (QueRemove_tsk t s)"
    by (simp add: gcb_change_priority_def queue_insert_tpri_def g ys_def qs) (simp add: s_def)
  show "kinv ?s"
    unfolding e by (rule kinv_but_enqueue [OF b2 wait_head_ready [OF h]])
      (use w d wait_head_place [OF h] qs kinv_waitD [OF k w] in \<open>auto simp: ys_def s_def\<close>)
  have tc: "tcbs ?s = tcbs s" by (simp add: e set_que_def)
  have v: "wview (tcbs s x) = wview (tcbs s0 x)" if "x \<noteq> t" for x using that by (simp add: s_def)
  show "touches {q} s0 ?s"
  proof (rule touchesI)
    fix q' x assume q': "\<not> ready_head q'" "q' \<notin> {q}"
    have n: "t \<notin> set (ques s0 q')" using kinv_dest(7) [OF k t] q'(2) by blast
    then show "ques ?s q' = ques s0 q'" using q' by (simp add: e set_que_def qs)
    assume "x \<in> set (ques s0 q')"
    with n have "x \<noteq> t" by blast
    from v [OF this] show "wview (tcbs ?s x) = wview (tcbs s0 x)" by (simp add: tc)
  qed
  have "waiters ?s q = map (\<lambda>x. (x, wview (tcbs s x))) ys" by (simp add: waiters_def tc) (simp add: e set_que_def)
  also have "\<dots> = insert_before (\<lambda>x. waiter_pri x > p) (t, wview (tcbs s t)) (map (\<lambda>x. (x, wview (tcbs s x))) (remove1 t (ques s0 q)))"
    unfolding ys_def by (rule map_insert_before) (simp add: wview_def)
  also have "map (\<lambda>x. (x, wview (tcbs s x))) (remove1 t (ques s0 q)) = filter (\<lambda>w. fst w \<noteq> t) (waiters s0 q)"
    using v d by (simp add: distinct_remove1_filter waiters_def filter_map comp_def cong: map_cong)
  finally show "waiters ?s q = join_queue atr (t, wview (tcbs s t)) (filter (\<lambda>w. fst w \<noteq> t) (waiters s0 q))"
    if "atr AND TA_TPRI \<noteq> 0" using that by (simp add: join_queue_def wview_def s_def)
qed

section \<open>Tables of objects\<close>

text \<open>Registration changes the tables of domains and names only.\<close>

lemma register_shape: "\<exists>h dt. mp_register_object_in_domain d ty i nm s = s\<lparr>hashcb := h, domtab := dt\<rparr>"
  by (simp add: mp_register_object_in_domain_def Let_def set_key_def upd_dom_def split: prod.split)
    (rule exI conjI allI impI refl)+

lemma unregister_shape: "\<exists>h dt. mp_unregister_object_in_domain d ty i s = s\<lparr>hashcb := h, domtab := dt\<rparr>"
  by (simp add: mp_unregister_object_in_domain_def Let_def set_key_def upd_dom_def) (rule exI refl)+

text \<open>
  The contract between an object module and its table. \<open>view s i\<close> is all that the invariant \<open>wf i\<close> of
  object \<open>i\<close> reads; \<open>same\<close> says that two states agree on the module's own data; \<open>hds i\<close> are the wait
  queues of object \<open>i\<close>.
\<close>

locale obj_table =
  fixes ops :: objops and view :: "kstate \<Rightarrow> nat \<Rightarrow> 'v" and vid :: "'v \<Rightarrow> ID" and wf :: "nat \<Rightarrow> 'v \<Rightarrow> bool"
    and same :: "kstate \<Rightarrow> kstate \<Rightarrow> bool" and hds :: "nat \<Rightarrow> qhead set"
  assumes same_objs: "objs_same s s' \<Longrightarrow> same s s'"
    and same_dom: "same s (s\<lparr>hashcb := h, domtab := d\<rparr>)"
    and view_same: "same s s' \<Longrightarrow> touches Q s s' \<Longrightarrow> hds i \<inter> Q = {} \<Longrightarrow> view s' i = view s i"
    and table_same: "same s s' \<Longrightarrow> oo_max ops s' = oo_max ops s \<and> oo_free ops s' = oo_free ops s"
    and id_view: "oo_id ops s i = vid (view s i)"
    and set_free: "oo_max ops (oo_set_free ops q s) = oo_max ops s" "oo_free ops (oo_set_free ops q s) = q"
      "view (oo_set_free ops q s) i = view s i" "kinv (oo_set_free ops q s) \<longleftrightarrow> kinv s"
    and ques_set_free: "ques (oo_set_free ops q s) = ques s"
    and set_id: "oo_max ops (oo_set_id ops j x s) = oo_max ops s" "oo_free ops (oo_set_id ops j x s) = oo_free ops s"
      "i \<noteq> j \<Longrightarrow> view (oo_set_id ops j x s) i = view s i" "vid (view (oo_set_id ops j x s) j) = x" "kinv (oo_set_id ops j x s) \<longleftrightarrow> kinv s"
    and set_name: "oo_max ops (oo_set_name ops j nm s) = oo_max ops s" "oo_free ops (oo_set_name ops j nm s) = oo_free ops s"
      "i \<noteq> j \<Longrightarrow> view (oo_set_name ops j nm s) i = view s i" "vid (view (oo_set_name ops j nm s) j) = vid (view s j)"
      "wf j (view (oo_set_name ops j nm s) j) \<longleftrightarrow> wf j (view s j)" "kinv (oo_set_name ops j nm s) \<longleftrightarrow> kinv s"
begin

definition table_ok :: "kstate \<Rightarrow> bool" where
  "table_ok s \<longleftrightarrow> oo_max ops s < 65535 \<and> (\<forall>i<oo_max ops s. wf i (view s i)) \<and> distinct (oo_free ops s) \<and>
     (\<forall>i\<in>set (oo_free ops s). i < oo_max ops s \<and> vid (view s i) = 0)"

lemma table_okD: "table_ok s \<Longrightarrow> i < oo_max ops s \<Longrightarrow> wf i (view s i)"
  by (simp add: table_ok_def)

text \<open>Steps elsewhere.\<close>

lemma view_elsewhere: "same s s' \<Longrightarrow> touches {} s s' \<Longrightarrow> view s' i = view s i"
  by (rule view_same [where Q = "{}"]) simp_all

lemma table_ok_elsewhere: "same s s' \<Longrightarrow> touches {} s s' \<Longrightarrow> table_ok s' \<longleftrightarrow> table_ok s"
  using table_same view_elsewhere by (simp add: table_ok_def)

lemma table_ok_foreign: "same s s' \<Longrightarrow> touches Q s s' \<Longrightarrow> (\<And>i. hds i \<inter> Q = {}) \<Longrightarrow> table_ok s' \<longleftrightarrow> table_ok s"
  using table_same view_same by (simp add: table_ok_def)

lemma table_ok_sched: "sched_frame s s' \<Longrightarrow> table_ok s' \<longleftrightarrow> table_ok s"
  by (intro table_ok_elsewhere same_objs objs_same_sched touches_sched)

text \<open>A step on object \<open>i\<close>: its invariant must be shown, the others follow.\<close>

lemma table_ok_step:
  assumes "table_ok s" and "oo_max ops s' = oo_max ops s" and "oo_free ops s' = oo_free ops s"
    and "\<And>j. j < oo_max ops s \<Longrightarrow> j \<noteq> i \<Longrightarrow> view s' j = view s j" and "vid (view s i) \<noteq> 0" and "wf i (view s' i)"
  shows "table_ok s'"
  unfolding table_ok_def assms(2,3)
proof (intro conjI allI impI ballI)
  show "wf j (view s' j)" if "j < oo_max ops s" for j
    using assms(4) [OF that] assms(6) table_okD [OF assms(1) that] by (cases "j = i") auto
  fix j assume j: "j \<in> set (oo_free ops s)"
  then have "vid (view s j) = 0" "j < oo_max ops s" using assms(1) by (simp_all add: table_ok_def)
  with assms(4,5) show "vid (view s' j) = 0" by (cases "j = i") auto
qed (use assms(1) in \<open>auto simp: table_ok_def\<close>)

text \<open>The ends of critical sections.\<close>

lemma table_ok_end:
  "end_critical r s = Some (r', s') \<Longrightarrow> kinv s \<Longrightarrow> table_ok s \<Longrightarrow> kinv s' \<and> table_ok s'"
  using end_critical_result [of r s r' s'] table_ok_sched [of s s'] by simp

lemma table_ok_leave:
  "leave_critical b r s = Some (r', s') \<Longrightarrow> kinv s \<Longrightarrow> table_ok s \<Longrightarrow> kinv s' \<and> table_ok s'"
  using table_ok_end [of r s r' s'] by (auto simp: leave_critical_def split: if_splits)

lemma obj_call_ok:
  assumes r: "obj_call dsp gs prid ops oid body s = Some (e, s')" and k: "kinv s" and ok: "table_ok s"
    and g: "\<And>i. i = INDEX_OBJ oid \<Longrightarrow> guards gs = None \<Longrightarrow> vid (view s i) \<noteq> 0 \<Longrightarrow> body i s = Some (e, s') \<Longrightarrow> kinv s' \<and> table_ok s'"
  shows "kinv s' \<and> table_ok s'"
  using r
proof (cases rule: obj_call_cases)
  case 3
  then show ?thesis using g by (simp add: id_view)
next
  case (2 x)
  from table_ok_leave [OF this k ok] show ?thesis .
qed (use k ok in simp)

text \<open>The current task goes to wait in the queue \<open>wait_queue gcb\<close> of object \<open>i\<close>.\<close>

lemma wait_on_table_ok:
  assumes k: "kinv s" and ok: "table_ok s" and c: "ctxtsk s prid = Some t" "t \<in> set (rdy s)" and h: "wait_head (wait_queue gcb)"
    and r: "wait_on prid gcb w wi tmout s = Some (e, s')" and live: "vid (view s i) \<noteq> 0"
    and oth: "\<And>j. j \<noteq> i \<Longrightarrow> hds j \<inter> {wait_queue gcb} = {}"
    and wfi: "\<And>u. objs_same s u \<Longrightarrow> touches {wait_queue gcb} s u \<Longrightarrow>
      waiters u (wait_queue gcb) = join_queue (objatr gcb) (t, wi, objid gcb, w, pri s t) (waiters s (wait_queue gcb)) \<Longrightarrow> wf i (view u i)"
  shows "kinv s' \<and> table_ok s'"
  using k c h r
proof (cases rule: wait_on_cases)
  case turned_away
  then show ?thesis using table_ok_elsewhere same_objs ok by blast
next
  case waiting
  have sm: "same s s'" using same_objs [OF waiting(3)] .
  have v: "view s' j = view s j" if "j \<noteq> i" for j by (rule view_same [OF sm waiting(4) oth [OF that]])
  have "table_ok s'"
    by (rule table_ok_step [OF ok _ _ v live wfi [OF waiting(3,4,6)]]) (use table_same [OF sm] in simp_all)
  with waiting(2) show ?thesis by simp
qed

lemma register_elsewhere:
  "touches {} s (mp_register_object_in_domain d ty i nm s)" "touches {} s (mp_unregister_object_in_domain o' ty i s)"
  by (rule touches_same; simp)+

lemma register_same:
  "same s (mp_register_object_in_domain d ty i nm s)" "same s (mp_unregister_object_in_domain o' ty i s)"
  using register_shape [of d ty i nm s] unregister_shape [of o' ty i s] same_dom by metis+

lemmas register_ok = table_ok_elsewhere [OF register_same(1) register_elsewhere(1)]
lemmas unregister_ok = table_ok_elsewhere [OF register_same(2) register_elsewhere(2)]

text \<open>Creation. \<open>step_on i s s'\<close>: object \<open>i\<close> changes to a well formed one and the others stay.\<close>

definition step_on :: "nat \<Rightarrow> kstate \<Rightarrow> kstate \<Rightarrow> bool" where
  "step_on i s s' \<longleftrightarrow> kinv s' \<and> oo_max ops s' = oo_max ops s \<and> oo_free ops s' = oo_free ops s \<and>
     (\<forall>j. j \<noteq> i \<longrightarrow> view s' j = view s j) \<and> wf i (view s' i)"

lemma obj_cre_ok:
  assumes r: "obj_cre gs prid ops atr did oname init s = Some (e, s')" and k: "kinv s" and ok: "table_ok s"
    and init: "\<And>i oid u. i < oo_max ops s \<Longrightarrow> kinv u \<Longrightarrow> guards gs = None \<Longrightarrow> wf i (view u i) \<Longrightarrow> vid (view u i) = 0 \<Longrightarrow>
        INDEX_OBJ oid = i \<Longrightarrow> oid \<noteq> 0 \<Longrightarrow>
        step_on i u (init i oid u)"
  shows "kinv s' \<and> table_ok s'"
  using r
proof (cases rule: obj_cre_cases)
  case 1
  with k ok show ?thesis by simp
next
  case (2 i q dom nm oid)
  define s1 where "s1 = oo_set_free ops q s"
  define s2 where "s2 = init i oid s1"
  define s3 where "s3 = oo_set_name ops i (name_copy nm) s2"
  have s': "s' = mp_register_object_in_domain dom (oo_type ops) (INDEX_OBJ oid) nm s3"
    using 2(5) by (simp add: s1_def s2_def s3_def)
  have gs: "guards gs = None" using 2(1) by (auto simp: guards_None)
  have f: "i < oo_max ops s" "vid (view s i) = 0" "distinct (i # q)" "oo_max ops s < 65535"
    "\<forall>j\<in>set q. j < oo_max ops s \<and> vid (view s j) = 0"
    using ok 2(2) by (auto simp: table_ok_def)
  have ix: "INDEX_OBJ oid = i" "oid \<noteq> 0"
    unfolding 2(3) using f(1,4) by (auto intro!: INDEX_gen_id simp: gen_id_nonzero)
  have i2: "kinv s2 \<and> oo_max ops s2 = oo_max ops s1 \<and> oo_free ops s2 = oo_free ops s1 \<and>
      (\<forall>j. j \<noteq> i \<longrightarrow> view s2 j = view s1 j) \<and> wf i (view s2 i)"
    unfolding s2_def step_on_def [symmetric]
    by (rule init) (use k gs f ix table_okD [OF ok f(1)] in \<open>simp_all add: s1_def set_free\<close>)
  have w: "wf j (view s3 j)" if "j < oo_max ops s" for j
    using i2 table_okD [OF ok that] by (cases "j = i") (simp_all add: s3_def set_name s1_def set_free)
  have v: "vid (view s3 j) = 0" if "j \<in> set q" for j
    using i2 f(3,5) that by (cases "j = i") (auto simp: s3_def set_name s1_def set_free)
  have "table_ok s3"
    using i2 f(3-5) w v by (simp add: table_ok_def) (simp add: s3_def set_name s1_def set_free)
  moreover have "kinv s3" using i2 by (simp add: s3_def set_name)
  ultimately show ?thesis by (simp add: s' register_ok)
qed

text \<open>Deletion: object \<open>i\<close> is in use and nobody waits for it any more.\<close>

lemma obj_unlink_ok:
  assumes k: "kinv s" and ok: "table_ok s0" and i: "i < oo_max ops s0" "vid (view s0 i) \<noteq> 0"
    and t: "oo_max ops s = oo_max ops s0" "oo_free ops s = oo_free ops s0" "\<And>j. j \<noteq> i \<Longrightarrow> view s j = view s0 j"
    and e: "wf i (view (obj_unlink ops oid i s) i)"
  shows "kinv (obj_unlink ops oid i s)" and "table_ok (obj_unlink ops oid i s)"
proof -
  let ?u = "mp_unregister_object_in_domain oid (oo_type ops) (INDEX_OBJ oid) s"
  have s1: "oo_max ops ?u = oo_max ops s" "oo_free ops ?u = oo_free ops s" "\<And>j. view ?u j = view s j"
    using table_same [OF register_same(2)] view_elsewhere [OF register_same(2) register_elsewhere(2)] by simp_all
  show "kinv (obj_unlink ops oid i s)" using k by (simp add: obj_unlink_def Let_def set_id set_free)
  have v: "view (obj_unlink ops oid i s) j = view s0 j" if "j \<noteq> i" for j
    using that by (simp add: obj_unlink_def Let_def set_id set_free s1 t)
  have f: "oo_free ops (obj_unlink ops oid i s) = oo_free ops s0 @ [i]" "oo_max ops (obj_unlink ops oid i s) = oo_max ops s0"
    "vid (view (obj_unlink ops oid i s) i) = 0"
    by (simp_all add: obj_unlink_def Let_def set_id set_free s1 t)
  have ni: "i \<notin> set (oo_free ops s0)" using ok i(2) by (auto simp: table_ok_def)
  show "table_ok (obj_unlink ops oid i s)"
    unfolding table_ok_def f(1,2)
  proof (intro conjI allI impI ballI)
    show "wf j (view (obj_unlink ops oid i s) j)" if "j < oo_max ops s0" for j
      using e v table_okD [OF ok that] by (cases "j = i") auto
    fix j assume "j \<in> set (oo_free ops s0 @ [i])"
    then show "j < oo_max ops s0" "vid (view (obj_unlink ops oid i s) j) = 0"
      using ok f(3) i(1) v by (cases "j = i"; auto simp: table_ok_def)+
  qed (use ok ni in \<open>auto simp: table_ok_def\<close>)
qed

text \<open>The whole of \<open>_tk_del_xxx\<close> for an object with one wait queue.\<close>

lemma obj_del_ok:
  assumes r: "obj_call True gs prid ops oid
        (\<lambda>i s. do { s \<leftarrow> wait_delete (hd_of i) s; end_critical E_OK (obj_unlink ops oid i s) }) s = Some (e, s')"
    and k: "kinv s" and ok: "table_ok s" and ix: "guards gs = None \<Longrightarrow> INDEX_OBJ oid < oo_max ops s"
    and h: "\<And>i. wait_head (hd_of i)" "\<And>i j. j \<noteq> i \<Longrightarrow> hds j \<inter> {hd_of i} = {}"
    and e: "\<And>i u. ques u (hd_of i) = [] \<Longrightarrow> wf i (view (oo_set_id ops i 0 u) i)"
  shows "kinv s' \<and> table_ok s'"
proof (rule obj_call_ok [OF r k ok])
  fix i assume i: "i = INDEX_OBJ oid" "guards gs = None" "vid (view s i) \<noteq> 0"
    and b: "do { s \<leftarrow> wait_delete (hd_of i) s; end_critical E_OK (obj_unlink ops oid i s) } = Some (e, s')"
  obtain s1 where d: "wait_delete (hd_of i) s = Some s1" and e1: "end_critical E_OK (obj_unlink ops oid i s1) = Some (e, s')"
    using b by (auto split: Option.bind_splits)
  note w = touches_wait_delete [OF k h(1) d]
  have sm: "same s s1" using same_objs [OF w(4)] .
  have tab: "oo_max ops s1 = oo_max ops s" "oo_free ops s1 = oo_free ops s" using table_same [OF sm] by simp_all
  have v: "view s1 j = view s j" if "j \<noteq> i" for j by (rule view_same [OF sm w(2) h(2) [OF that]])
  let ?u = "oo_set_free ops (oo_free ops s1 @ [i]) (mp_unregister_object_in_domain oid (oo_type ops) (INDEX_OBJ oid) s1)"
  have "oo_free ops (mp_unregister_object_in_domain oid (oo_type ops) (INDEX_OBJ oid) s1) = oo_free ops s1"
    using table_same [OF register_same(2)] by simp
  then have un: "obj_unlink ops oid i s1 = oo_set_id ops i 0 ?u" by (simp add: obj_unlink_def)
  have "ques ?u (hd_of i) = []" using w(3) ques_set_free by simp
  from e [OF this] have wfu: "wf i (view (obj_unlink ops oid i s1) i)" unfolding un .
  from obj_unlink_ok [OF w(1) ok ix [OF i(2), folded i(1)] i(3) tab v wfu] have "kinv (obj_unlink ops oid i s1)" "table_ok (obj_unlink ops oid i s1)"
    by blast+
  with table_ok_end [OF e1] show "kinv s' \<and> table_ok s'" by simp
qed

text \<open>The hook of a queue in priority order, called when the priority of task \<open>t\<close> in it has changed to \<open>p\<close>.\<close>

lemma chg_pri_table_ok:
  assumes k: "kinv s0" and ok: "table_ok s0" and h: "wait_head (wait_queue gcb)" and t: "t \<in> set (ques s0 (wait_queue gcb))"
    and p: "p < NUM_PRI" and live: "vid (view s0 i) \<noteq> 0" and a: "atr AND TA_TPRI \<noteq> 0"
    and oth: "\<And>j. j \<noteq> i \<Longrightarrow> hds j \<inter> {wait_queue gcb} = {}"
    and wfi: "\<And>u. objs_same s0 u \<Longrightarrow> touches {wait_queue gcb} s0 u \<Longrightarrow> waiters u (wait_queue gcb) =
        join_queue atr (t, wview ((tcbs s0 t)\<lparr>priority := p\<rparr>)) (filter (\<lambda>w. fst w \<noteq> t) (waiters s0 (wait_queue gcb))) \<Longrightarrow> wf i (view u i)"
  defines "u \<equiv> gcb_change_priority gcb t (upd_tcb t (\<lambda>c. c\<lparr>priority := p\<rparr>) s0)"
  shows "kinv u \<and> table_ok u"
proof -
  note r = reorder_ok [OF k h t p refl, folded u_def]
  have o: "objs_same s0 u"
    by (simp add: u_def gcb_change_priority_def queue_insert_tpri_def)
  note sm = same_objs [OF o]
  have v: "view u j = view s0 j" if "j \<noteq> i" for j by (rule view_same [OF sm r(2) oth [OF that]])
  have "wf i (view u i)" by (rule wfi [OF o r(2)]) (use r(3) [OF a] in simp)
  then have "table_ok u" by (rule table_ok_step [OF ok _ _ v live, rotated -1]) (use table_same [OF sm] in simp_all)
  with r(1) show ?thesis by simp
qed

end

end
