(* ===== verification/Semaphore.thy ===== *)
theory Semaphore
  imports Object_Base
begin

text \<open>
  Counting semaphores, \<^verbatim>\<open>semaphore.c\<close>. A call that waits leaves its result in the task's
  \<open>wercd\<close>: the value of \<open>tk_wai_sem\<close> is that of the call if it does not wait, and \<open>E_TMOUT\<close> until a
  wait release overwrites \<open>wercd\<close> if it does.

  The component invariant \<open>sem_inv\<close> says that the count stays between 0 and its maximum and that no
  task waits for resources that are there.
\<close>

section \<open>Control blocks\<close>

definition semcb :: "kstate \<Rightarrow> nat \<Rightarrow> SEMCB" where
  "semcb s i = cbs (semtab s) i"

definition upd_sem :: "nat \<Rightarrow> (SEMCB \<Rightarrow> SEMCB) \<Rightarrow> kstate \<Rightarrow> kstate" where
  "upd_sem i f s = s\<lparr>semtab := (semtab s)\<lparr>cbs := (cbs (semtab s))(i := f (cbs (semtab s) i))\<rparr>\<rparr>"

definition set_free_sem :: "nat list \<Rightarrow> kstate \<Rightarrow> kstate" where
  "set_free_sem q s = s\<lparr>semtab := (semtab s)\<lparr>freeq := q\<rparr>\<rparr>"

definition sem_gcb :: "kstate \<Rightarrow> nat \<Rightarrow> GCB" where
  "sem_gcb s i = \<lparr>wait_queue = QSem i, objid = semid (semcb s i), objatr = sematr (semcb s i)\<rparr>"

definition sem_ops :: objops where
  "sem_ops = \<lparr>oo_type = OT_SEM, oo_dispatch = True, oo_max = \<lambda>s. maxid (semtab s), oo_id = \<lambda>s i. semid (semcb s i),
     oo_atr = \<lambda>s i. sematr (semcb s i), oo_name = \<lambda>s i. sem_oname (semcb s i),
     oo_set_name = \<lambda>i nm. upd_sem i (\<lambda>c. c\<lparr>sem_oname := nm\<rparr>), oo_free = \<lambda>s. freeq (semtab s),
     oo_set_free = set_free_sem, oo_set_id = \<lambda>i x. upd_sem i (\<lambda>c. c\<lparr>semid := x\<rparr>)\<rparr>"

section \<open>Operations\<close>

definition semaphore_initialize :: "int option \<Rightarrow> bool \<Rightarrow> kstate \<Rightarrow> ER \<times> kstate" where
  "semaphore_initialize max_semid mem s =
    (case max_semid of
       None \<Rightarrow> (E_SYS, s)
     | Some m \<Rightarrow>
         let s = s\<lparr>semtab := (semtab s)\<lparr>maxid := nat m\<rparr>\<rparr> in
         if m < 1 then (E_SYS, s)
         else if \<not> mem then (E_NOMEM, s)
         else (E_OK, s\<lparr>semtab := (semtab s)\<lparr>cbs := (\<lambda>i. if i < nat m then (cbs (semtab s) i)\<lparr>semid := 0\<rparr> else cbs (semtab s) i),
                 freeq := [0..<nat m]\<rparr>\<rparr>))"

text \<open>The loop of \<open>sem_chg_pri\<close>; \<open>ts\<close> is the part of the wait queue still to look at.\<close>

fun sem_grant :: "nat \<Rightarrow> nat list \<Rightarrow> kstate \<Rightarrow> kstate" where
  "sem_grant i [] s = s"
| "sem_grant i (t # ts) s =
    (if semcnt (semcb s i) < sem_cnt (winfo (tcbs s t)) then s
     else (let s = wait_release_ok t s;
               s = upd_sem i (\<lambda>c. c\<lparr>semcnt := semcnt c - sem_cnt (winfo (tcbs s t))\<rparr>) s
           in sem_grant i ts s))"

definition sem_chg_pri :: "nat \<Rightarrow> int \<Rightarrow> kstate \<Rightarrow> kstate" where
  "sem_chg_pri t oldpri s =
    (let i = INDEX_OBJ (wid (tcbs s t));
         s = (if oldpri \<ge> 0 then gcb_change_priority (sem_gcb s i) t s else s)
     in if sematr (semcb s i) AND TA_CNT \<noteq> 0 then s
        else sem_grant i (ques s (QSem i)) s)"

definition sem_rel_wai :: "nat \<Rightarrow> kstate \<Rightarrow> kstate" where
  "sem_rel_wai t s = sem_chg_pri t (-1) s"

record T_CSEM =
  csem_exinf :: UW
  csem_sematr :: ATR
  csem_isemcnt :: int
  csem_maxsem :: int
  csem_domid :: ID
  csem_oname :: "UB list"

definition VALID_SEMATR :: ATR where
  "VALID_SEMATR = TA_TPRI OR TA_CNT OR TA_NODISWAI OR TA_DOMID OR TA_ONAME OR TA_PRIVATE OR TA_PROTECTED OR TA_PUBLIC"

definition tk_cre_sem :: "nat \<Rightarrow> T_CSEM \<Rightarrow> kstate \<Rightarrow> (ER \<times> kstate) option" where
  "tk_cre_sem prid pk s =
    (case guards ([CHECK_RSATR (csem_sematr pk) VALID_SEMATR, CHECK_PAR (csem_isemcnt pk \<ge> 0), CHECK_PAR (csem_maxsem pk > 0),
        CHECK_PAR (csem_maxsem pk \<ge> csem_isemcnt pk), CHECK_PATR (csem_sematr pk)] @
        (if csem_sematr pk AND TA_DOMID \<noteq> 0 then [CHECK_DOMID s (csem_domid pk)] else [])) of
       Some e \<Rightarrow> Some (e, s)
     | None \<Rightarrow> do {
         r \<leftarrow> cre_prologue prid sem_ops (csem_sematr pk) (csem_domid pk) (csem_oname pk) s;
         case r of
           Inl e \<Rightarrow> Some (e, s)
         | Inr (did, oname) \<Rightarrow>
             (case freeq (semtab s) of
                [] \<Rightarrow> Some (E_LIMIT, s)
              | i # q \<Rightarrow>
                  (let s = set_free_sem q s;
                       sid = MP_GEN_DOMIDPART did OR ID_OBJ i;
                       s = set_que (QSem i) [] s;
                       s = upd_sem i (\<lambda>c. c\<lparr>semid := sid, sem_exinf := csem_exinf pk, sematr := csem_sematr pk,
                             semcnt := csem_isemcnt pk, maxsem := csem_maxsem pk\<rparr>) s;
                       s = upd_sem i (\<lambda>c. c\<lparr>sem_oname := name_copy oname\<rparr>) s;
                       s = mp_register_object_in_domain did OT_SEM (INDEX_OBJ sid) oname s
                   in Some (sint sid, s)))
       })"

definition tk_del_sem :: "nat \<Rightarrow> ID \<Rightarrow> kstate \<Rightarrow> (ER \<times> kstate) option" where
  "tk_del_sem prid sid s =
    (case guards [CHECK_SEMID s sid] of
       Some e \<Rightarrow> Some (e, s)
     | None \<Rightarrow>
         (let i = INDEX_OBJ sid
          in if semid (semcb s i) = 0 then end_critical E_NOEXS s
             else do {
               ercd \<leftarrow> mp_check_domain_and_protection prid s sid (semid (semcb s i)) (sematr (semcb s i));
               if ercd = E_OK then do {
                 s \<leftarrow> wait_delete (QSem i) s;
                 let s = mp_unregister_object_in_domain sid OT_SEM (INDEX_OBJ sid) s;
                 let s = set_free_sem (freeq (semtab s) @ [i]) s;
                 end_critical ercd (upd_sem i (\<lambda>c. c\<lparr>semid := 0\<rparr>) s)
               } else end_critical ercd s
             }))"

text \<open>The search loop of \<open>_tk_sig_sem\<close>.\<close>

fun sig_scan :: "nat \<Rightarrow> nat list \<Rightarrow> kstate \<Rightarrow> kstate" where
  "sig_scan i [] s = s"
| "sig_scan i (t # ts) s =
    (if semcnt (semcb s i) < sem_cnt (winfo (tcbs s t)) then
       (if sematr (semcb s i) AND TA_CNT = 0 then s else sig_scan i ts s)
     else (let s = wait_release_ok t s;
               s = upd_sem i (\<lambda>c. c\<lparr>semcnt := semcnt c - sem_cnt (winfo (tcbs s t))\<rparr>) s
           in if semcnt (semcb s i) \<le> 0 then s else sig_scan i ts s))"

definition tk_sig_sem :: "nat \<Rightarrow> ID \<Rightarrow> int \<Rightarrow> kstate \<Rightarrow> (ER \<times> kstate) option" where
  "tk_sig_sem prid sid cnt s =
    (case guards [CHECK_SEMID s sid, CHECK_PAR (cnt > 0)] of
       Some e \<Rightarrow> Some (e, s)
     | None \<Rightarrow>
         (let i = INDEX_OBJ sid
          in if semid (semcb s i) = 0 then end_critical E_NOEXS s
             else do {
               ercd \<leftarrow> mp_check_domain_and_protection prid s sid (semid (semcb s i)) (sematr (semcb s i));
               if ercd \<noteq> E_OK then end_critical ercd s
               else if cnt > maxsem (semcb s i) - semcnt (semcb s i) then end_critical E_QOVR s
               else
                 (let s = upd_sem i (\<lambda>c. c\<lparr>semcnt := semcnt c + cnt\<rparr>) s
                  in end_critical E_OK (sig_scan i (ques s (QSem i)) s))
             }))"

definition tk_wai_sem :: "nat \<Rightarrow> ID \<Rightarrow> int \<Rightarrow> TMO \<Rightarrow> kstate \<Rightarrow> (ER \<times> kstate) option" where
  "tk_wai_sem prid sid cnt tmout s =
    (case guards [CHECK_SEMID s sid, CHECK_PAR (cnt > 0), CHECK_TMOUT tmout, CHECK_DISPATCH prid s] of
       Some e \<Rightarrow> Some (e, s)
     | None \<Rightarrow>
         (let i = INDEX_OBJ sid
          in if semid (semcb s i) = 0 then end_critical E_NOEXS s
             else do {
               ercd \<leftarrow> mp_check_domain_and_protection prid s sid (semid (semcb s i)) (sematr (semcb s i));
               if ercd \<noteq> E_OK then end_critical ercd s
               else if cnt > maxsem (semcb s i) then end_critical E_PAR s
               else do {
                 t \<leftarrow> ctxtsk s prid;
                 if is_diswai (sem_gcb s i) (tcbs s t) TTW_SEM then end_critical E_DISWAI s
                 else if (sematr (semcb s i) AND TA_CNT \<noteq> 0 \<or> gcb_top_of_wait_queue (sem_gcb s i) t s = t)
                         \<and> semcnt (semcb s i) \<ge> cnt then
                   end_critical E_OK (upd_sem i (\<lambda>c. c\<lparr>semcnt := semcnt c - cnt\<rparr>) s)
                 else do {
                   let s = upd_tcb t (\<lambda>c. c\<lparr>wspec := (if sematr (semcb s i) AND TA_TPRI \<noteq> 0 then Wspec_sem_tpri
                                                     else Wspec_sem_tfifo),
                                            winfo := Winfo_sem cnt, wercd := E_OK\<rparr>) s;
                   s \<leftarrow> gcb_make_wait_with_diswai prid (sem_gcb s i) tmout s;
                   end_critical (wercd (tcbs s t)) s
                 }
               }
             }))"

record T_RSEM =
  rsem_exinf :: UW
  rsem_wtsk :: ID
  rsem_semcnt :: int

definition tk_ref_sem :: "nat \<Rightarrow> ID \<Rightarrow> kstate \<Rightarrow> (ER \<times> T_RSEM option) option" where
  "tk_ref_sem prid sid s =
    (case guards [CHECK_SEMID s sid] of
       Some e \<Rightarrow> Some (e, None)
     | None \<Rightarrow>
         (let i = INDEX_OBJ sid
          in if semid (semcb s i) = 0 then Some (E_NOEXS, None)
             else do {
               ercd \<leftarrow> mp_check_domain_and_protection prid s sid (semid (semcb s i)) (sematr (semcb s i));
               Some (ercd, if ercd = E_OK then
                   Some \<lparr>rsem_exinf = sem_exinf (semcb s i), rsem_wtsk = wait_tskid (QSem i) s, rsem_semcnt = semcnt (semcb s i)\<rparr>
                 else None)
             }))"

definition tk_fnd_sem :: "nat \<Rightarrow> ID \<Rightarrow> UB list \<Rightarrow> kstate \<Rightarrow> (ER \<times> kstate) option" where
  "tk_fnd_sem prid = obj_fnd prid sem_ops"

definition tk_dmi_sem :: "nat \<Rightarrow> ID \<Rightarrow> kstate \<Rightarrow> ((ER \<times> T_DMI option) \<times> kstate) option" where
  "tk_dmi_sem prid = obj_dmi prid sem_ops"

definition semaphore_getname :: "ID \<Rightarrow> kstate \<Rightarrow> ER \<times> UB list option" where
  "semaphore_getname = obj_getname sem_ops"

definition semaphore_setname :: "ID \<Rightarrow> UB list \<Rightarrow> kstate \<Rightarrow> ER \<times> kstate" where
  "semaphore_setname = obj_setname sem_ops"

definition td_lst_sem :: "int \<Rightarrow> kstate \<Rightarrow> int \<times> ID list" where
  "td_lst_sem = obj_lst sem_ops"

definition td_ref_sem :: "ID \<Rightarrow> kstate \<Rightarrow> ER \<times> T_RSEM option" where
  "td_ref_sem sid s =
    (case guards [CHECK_SEMID s sid] of
       Some e \<Rightarrow> (e, None)
     | None \<Rightarrow>
         (let i = INDEX_OBJ sid
          in if semid (semcb s i) = 0 then (E_NOEXS, None)
             else if \<not> MP_CMP_DOMIDPART sid (semid (semcb s i)) then (E_NOEXS, None)
             else (E_OK, Some \<lparr>rsem_exinf = sem_exinf (semcb s i), rsem_wtsk = wait_tskid (QSem i) s,
                     rsem_semcnt = semcnt (semcb s i)\<rparr>)))"

text \<open>The number of waiting tasks and the first \<open>nent\<close> of their identifiers.\<close>

definition td_sem_que :: "ID \<Rightarrow> int \<Rightarrow> kstate \<Rightarrow> ER \<times> ID list" where
  "td_sem_que sid nent s =
    (case guards [CHECK_SEMID s sid] of
       Some e \<Rightarrow> (e, [])
     | None \<Rightarrow>
         (let i = INDEX_OBJ sid
          in if semid (semcb s i) = 0 then (E_NOEXS, [])
             else if \<not> MP_CMP_DOMIDPART sid (semid (semcb s i)) then (E_NOEXS, [])
             else (let ids = map (\<lambda>t. tskid (tcbs s t)) (ques s (QSem i)) in (int (length ids), take (nat nent) ids))))"

definition td_fnd_sem :: "ID \<Rightarrow> UB list \<Rightarrow> kstate \<Rightarrow> ER" where
  "td_fnd_sem = obj_td_fnd sem_ops"

definition td_dmi_sem :: "ID \<Rightarrow> kstate \<Rightarrow> ER \<times> T_DMI option" where
  "td_dmi_sem = obj_td_dmi sem_ops"

section \<open>Which tasks a count serves\<close>

text \<open>
  The specification of the two loops: the tasks that get their request from \<open>n\<close> resources. Without
  \<open>TA_CNT\<close> (\<open>all\<close> false) the first task that cannot be served blocks those behind it.
\<close>

fun sem_served :: "bool \<Rightarrow> (nat \<Rightarrow> int) \<Rightarrow> int \<Rightarrow> nat list \<Rightarrow> nat list" where
  "sem_served all req n [] = []"
| "sem_served all req n (t # ts) =
    (if n < req t then (if all then sem_served all req n ts else [])
     else t # sem_served all req (n - req t) ts)"

lemma sem_served_subset: "set (sem_served all req n ts) \<subseteq> set ts"
  by (induction all req n ts rule: sem_served.induct) auto

lemma sem_served_none: "n \<le> 0 \<Longrightarrow> \<forall>t\<in>set ts. 0 < req t \<Longrightarrow> sem_served all req n ts = []"
proof (induction ts)
  case (Cons t ts)
  then have "n < req t" by (auto dest: bspec)
  with Cons show ?case by auto
qed simp

lemma sem_served_cong: "(\<And>t. t \<in> set ts \<Longrightarrow> req t = req' t) \<Longrightarrow> sem_served all req n ts = sem_served all req' n ts"
  by (induction all req n ts rule: sem_served.induct) auto

lemma sem_served_sum_le:
  "0 \<le> n \<Longrightarrow> \<forall>t\<in>set ts. 0 < req t \<Longrightarrow> 0 \<le> sum_list (map req (sem_served all req n ts)) \<and>
     sum_list (map req (sem_served all req n ts)) \<le> n"
proof (induction all req n ts rule: sem_served.induct)
  case (2 all req n t ts)
  show ?case
  proof (cases "n < req t")
    case False
    then have "0 \<le> n - req t" by simp
    with 2 False show ?thesis by fastforce
  qed (use 2 in auto)
qed simp

definition sem_starved :: "bool \<Rightarrow> ('a \<Rightarrow> int) \<Rightarrow> int \<Rightarrow> 'a list \<Rightarrow> bool" where
  "sem_starved all req n ts \<longleftrightarrow> (if all then \<forall>t\<in>set ts. n < req t else ts \<noteq> [] \<longrightarrow> n < req (hd ts))"

lemma filter_set_Nil [simp]: "filter (\<lambda>x. x \<notin> {}) xs = xs"
  by simp

lemma sem_served_rest:
  "0 \<le> n \<Longrightarrow> \<forall>t\<in>set ts. 0 < req t \<Longrightarrow> distinct ts \<Longrightarrow>
   sem_starved all req (n - sum_list (map req (sem_served all req n ts)))
     (filter (\<lambda>x. x \<notin> set (sem_served all req n ts)) ts)"
proof (induction all req n ts rule: sem_served.induct)
  case (2 all req n t ts)
  let ?r = "sem_served all req (n - req t) ts"
  show ?case
  proof (cases "n < req t")
    case True
    show ?thesis
    proof (cases all)
      case True
      have "t \<notin> set (sem_served all req n ts)" using sem_served_subset 2(5) by fastforce
      moreover have "0 \<le> sum_list (map req (sem_served all req n ts))"
        using sem_served_sum_le [of n ts req all] 2(3,4) by simp
      ultimately show ?thesis
        using 2(1) [OF \<open>n < req t\<close> True] 2(3-5) \<open>n < req t\<close> True by (auto simp: sem_starved_def)
    qed (use True in \<open>simp add: sem_starved_def\<close>)
  next
    case False
    have "filter (\<lambda>x. x \<noteq> t \<and> x \<notin> set ?r) ts = filter (\<lambda>x. x \<notin> set ?r) ts"
      using 2(5) by (auto intro: filter_cong)
    moreover have "sem_starved all req (n - req t - sum_list (map req ?r)) (filter (\<lambda>x. x \<notin> set ?r) ts)"
      using 2(2) [OF False] 2(3-5) False by simp
    ultimately show ?thesis using False by (simp add: algebra_simps)
  qed
qed (simp add: sem_starved_def)

section \<open>The loops serve what the specification says\<close>

abbreviation req :: "kstate \<Rightarrow> nat \<Rightarrow> int" where
  "req s t \<equiv> sem_cnt (winfo (tcbs s t))"

definition grant :: "nat \<Rightarrow> nat \<Rightarrow> kstate \<Rightarrow> kstate" where
  "grant i t s = upd_sem i (\<lambda>c. c\<lparr>semcnt := semcnt c - req (wait_release_ok t s) t\<rparr>) (wait_release_ok t s)"

text \<open>What an operation on semaphore \<open>i\<close> leaves alone.\<close>

definition sem_frame :: "nat \<Rightarrow> kstate \<Rightarrow> kstate \<Rightarrow> bool" where
  "sem_frame i s s' \<longleftrightarrow> objs_same (s\<lparr>semtab := semtab s'\<rparr>) s' \<and> freeq (semtab s') = freeq (semtab s) \<and>
     maxid (semtab s') = maxid (semtab s) \<and> (\<forall>j. j \<noteq> i \<longrightarrow> semcb s' j = semcb s j) \<and>
     semcb s' i = (semcb s i)\<lparr>semcnt := semcnt (semcb s' i)\<rparr> \<and>
     (\<forall>q. \<not> ready_head q \<and> q \<noteq> QSem i \<longrightarrow> ques s' q = ques s q)"

lemma sem_frame_refl [simp]: "sem_frame i s s"
  by (simp add: sem_frame_def objs_same_def)

lemma sem_frame_trans: "sem_frame i s s1 \<Longrightarrow> sem_frame i s1 s2 \<Longrightarrow> sem_frame i s s2"
proof -
  assume a: "sem_frame i s s1" and b: "sem_frame i s1 s2"
  have "semcb s2 i = (semcb s1 i)\<lparr>semcnt := semcnt (semcb s2 i)\<rparr>" using b by (simp add: sem_frame_def)
  also have "semcb s1 i = (semcb s i)\<lparr>semcnt := semcnt (semcb s1 i)\<rparr>" using a by (simp add: sem_frame_def)
  finally have "semcb s2 i = (semcb s i)\<lparr>semcnt := semcnt (semcb s2 i)\<rparr>" by simp
  with a b show ?thesis by (simp add: sem_frame_def objs_same_def)
qed

lemma upd_sem_sel [simp]:
  "tcbs (upd_sem i f s) = tcbs s" "ques (upd_sem i f s) = ques s" "kinv (upd_sem i f s) \<longleftrightarrow> kinv s"
  "semcb (upd_sem i f s) j = (if j = i then f (semcb s i) else semcb s j)"
  "rdy (upd_sem i f s) = rdy s" "ctxtsk (upd_sem i f s) = ctxtsk s" "domtab (upd_sem i f s) = domtab s"
  "num_proc (upd_sem i f s) = num_proc s" "freeq (semtab (upd_sem i f s)) = freeq (semtab s)"
  "maxid (semtab (upd_sem i f s)) = maxid (semtab s)"
  by (simp_all add: upd_sem_def semcb_def rdy_def)

lemma sem_frame_upd: "sem_frame i s (upd_sem i (\<lambda>c. c\<lparr>semcnt := f c\<rparr>) s)"
  by (simp add: sem_frame_def) (simp add: upd_sem_def objs_same_def)

lemma grant_props:
  assumes k: "kinv s" and t: "t \<in> set (ques s (QSem i))"
  shows "kinv (grant i t s)" and "ques (grant i t s) (QSem i) = remove1 t (ques s (QSem i))"
    and "sem_frame i s (grant i t s)" and "x \<noteq> t \<Longrightarrow> tcbs (grant i t s) x = tcbs s x"
    and "released E_OK (tcbs s t) (tcbs (grant i t s) t)"
    and "semcnt (semcb (grant i t s) i) = semcnt (semcb s i) - req s t"
    and "set (rdy (grant i t s)) = (if state (tcbs s t) = TS_WAIT then insert t (set (rdy s)) else set (rdy s))"
proof -
  define s1 where "s1 = wait_release_ok_ercd t E_OK s"
  have g: "grant i t s = upd_sem i (\<lambda>c. c\<lparr>semcnt := semcnt c - req s1 t\<rparr>) s1"
    by (simp add: grant_def s1_def wait_release_ok_ercd_E_OK)
  note r = wait_release_props [OF k _ t, where e = E_OK, folded s1_def, simplified]
  have sc: "semcb s1 = semcb s" using r(6) by (simp add: semcb_def objs_same_def fun_eq_iff)
  have rq: "req s1 t = req s t" using r(5) by (simp add: released_def)
  show "kinv (grant i t s)" using r(1) by (simp add: g)
  show "ques (grant i t s) (QSem i) = remove1 t (ques s (QSem i))" using r(2) by (simp add: g)
  show "x \<noteq> t \<Longrightarrow> tcbs (grant i t s) x = tcbs s x" using r(4) by (simp add: g)
  show "released E_OK (tcbs s t) (tcbs (grant i t s) t)" using r(5) by (simp add: g)
  show "semcnt (semcb (grant i t s) i) = semcnt (semcb s i) - req s t" by (simp add: g sc rq)
  have "sem_frame i s s1" using r(3,6) sc by (simp add: sem_frame_def objs_same_def)
  then show "sem_frame i s (grant i t s)" unfolding g using sem_frame_upd by (rule sem_frame_trans)
  show "set (rdy (grant i t s)) = (if state (tcbs s t) = TS_WAIT then insert t (set (rdy s)) else set (rdy s))"
    using r(7) by (simp add: g)
qed

lemma sig_scan_grant:
  "sig_scan i (t # ts) s =
    (if semcnt (semcb s i) < req s t then (if sematr (semcb s i) AND TA_CNT = 0 then s else sig_scan i ts s)
     else if semcnt (semcb (grant i t s) i) \<le> 0 then grant i t s else sig_scan i ts (grant i t s))"
  by (simp add: grant_def Let_def)

lemma sem_grant_grant:
  "sem_grant i (t # ts) s = (if semcnt (semcb s i) < req s t then s else sem_grant i ts (grant i t s))"
  by (simp add: grant_def Let_def)

text \<open>The outcome of serving the tasks \<open>r\<close> of the queue.\<close>

definition sem_outcome :: "nat \<Rightarrow> nat list \<Rightarrow> kstate \<Rightarrow> kstate \<Rightarrow> bool" where
  "sem_outcome i r s s' \<longleftrightarrow> kinv s' \<and> sem_frame i s s' \<and>
     ques s' (QSem i) = filter (\<lambda>x. x \<notin> set r) (ques s (QSem i)) \<and>
     semcnt (semcb s' i) = semcnt (semcb s i) - sum_list (map (req s) r) \<and>
     (\<forall>x. x \<notin> set r \<longrightarrow> tcbs s' x = tcbs s x) \<and> (\<forall>t\<in>set r. released E_OK (tcbs s t) (tcbs s' t))"

lemma sem_outcome_Nil: "kinv s \<Longrightarrow> sem_outcome i [] s s"
  by (simp add: sem_outcome_def)

lemma sem_outcome_Cons:
  assumes k: "kinv s" and t: "t \<in> set (ques s (QSem i))" and o: "sem_outcome i r (grant i t s) s'" and n: "t \<notin> set r"
  shows "sem_outcome i (t # r) s s'"
proof -
  note g = grant_props [OF k t]
  have d: "distinct (ques s (QSem i))" using k by (rule kinv_dest)
  have "req (grant i t s) x = req s x" for x
    using g(4,5) by (cases "x = t") (auto simp: released_def)
  then have sum: "sum_list (map (req (grant i t s)) r) = sum_list (map (req s) r)" by simp
  have "filter (\<lambda>x. x \<notin> set r) (remove1 t (ques s (QSem i))) = filter (\<lambda>x. x \<notin> set (t # r)) (ques s (QSem i))"
    using d by (simp add: distinct_remove1_removeAll removeAll_filter_not_eq filter_filter conj_commute)
      (rule filter_cong; auto)
  moreover have "released E_OK (tcbs s x) (tcbs s' x)" if "x \<in> set (t # r)" for x
  proof (cases "x = t")
    case True
    then show ?thesis using o n g(5) by (simp add: sem_outcome_def)
  next
    case False
    then have "x \<in> set r" using that by simp
    then have "released E_OK (tcbs (grant i t s) x) (tcbs s' x)" using o by (simp add: sem_outcome_def)
    then show ?thesis using g(4) [OF False] by simp
  qed
  ultimately show ?thesis
    using o g(2,4,6) sum sem_frame_trans [OF g(3)] by (auto simp: sem_outcome_def)
qed

lemma sig_scan_outcome:
  assumes "kinv s" and "set ts \<subseteq> set (ques s (QSem i))" and "distinct ts" and "\<forall>t\<in>set ts. 0 < req s t"
  shows "sem_outcome i (sem_served (sematr (semcb s i) AND TA_CNT \<noteq> 0) (req s) (semcnt (semcb s i)) ts) s (sig_scan i ts s)"
  using assms
proof (induction ts arbitrary: s)
  case Nil
  then show ?case by (simp add: sem_outcome_Nil)
next
  case (Cons t ts)
  let ?s = "grant i t s" and ?all = "sematr (semcb s i) AND TA_CNT \<noteq> 0" and ?n = "semcnt (semcb s i)"
  show ?case
  proof (cases "?n < req s t")
    case True
    have "sem_outcome i (sem_served ?all (req s) ?n ts) s (sig_scan i ts s)"
      by (rule Cons.IH) (use Cons.prems in auto)
    with True Cons.prems(1) show ?thesis
      by (cases ?all) (simp_all add: sig_scan_grant sem_outcome_Nil del: sig_scan.simps(2))
  next
    case False
    have t: "t \<in> set (ques s (QSem i))" using Cons.prems by simp
    note g = grant_props [OF Cons.prems(1) t]
    have at: "sematr (semcb ?s i) = sematr (semcb s i)"
      using g(3) by (metis sem_frame_def SEMCB.select_convs(3) SEMCB.surjective SEMCB.update_convs(4))
    have rq: "req ?s x = req s x" if "x \<in> set ts" for x using g(4) that Cons.prems(3) by (metis distinct.simps(2))
    have sub: "set ts \<subseteq> set (ques ?s (QSem i))" using g(2) Cons.prems(2,3) kinv_dest(5) [OF Cons.prems(1), of "QSem i"] by auto
    have nt: "t \<notin> set (sem_served ?all (req s) (?n - req s t) ts)"
      using sem_served_subset Cons.prems(3) by fastforce
    have sv: "sem_served ?all (req ?s) (?n - req s t) ts = sem_served ?all (req s) (?n - req s t) ts"
      by (rule sem_served_cong) (rule rq)
    have "sem_outcome i (sem_served ?all (req ?s) (semcnt (semcb ?s i)) ts) ?s (sig_scan i ts ?s)"
      using Cons.IH [OF g(1) sub] Cons.prems(3,4) rq by (simp add: at)
    then have full: "sem_outcome i (sem_served ?all (req s) (?n - req s t) ts) ?s (sig_scan i ts ?s)"
      by (simp add: g(6) sv)
    have stop: "sem_outcome i (sem_served ?all (req s) (?n - req s t) ts) ?s ?s" if "?n - req s t \<le> 0"
      using sem_served_none [OF that] Cons.prems(4) g(1) by (simp add: sem_outcome_Nil)
    show ?thesis
      unfolding sig_scan_grant
      using False sem_outcome_Cons [OF Cons.prems(1) t full nt] sem_outcome_Cons [OF Cons.prems(1) t stop nt]
      by (simp add: g(6))
  qed
qed

lemma sem_grant_outcome:
  assumes "kinv s" and "set ts \<subseteq> set (ques s (QSem i))" and "distinct ts"
  shows "sem_outcome i (sem_served False (req s) (semcnt (semcb s i)) ts) s (sem_grant i ts s)"
  using assms
proof (induction ts arbitrary: s)
  case Nil
  then show ?case by (simp add: sem_outcome_Nil)
next
  case (Cons t ts)
  let ?s = "grant i t s" and ?n = "semcnt (semcb s i)"
  show ?case
  proof (cases "?n < req s t")
    case True
    then show ?thesis using Cons by (simp add: sem_grant_grant sem_outcome_Nil del: sem_grant.simps(2))
  next
    case False
    have t: "t \<in> set (ques s (QSem i))" using Cons.prems by simp
    note g = grant_props [OF Cons.prems(1) t]
    have rq: "req ?s x = req s x" if "x \<in> set ts" for x using g(4) that Cons.prems(3) by (metis distinct.simps(2))
    have sub: "set ts \<subseteq> set (ques ?s (QSem i))" using g(2) Cons.prems(2,3) kinv_dest(5) [OF Cons.prems(1), of "QSem i"] by auto
    have nt: "t \<notin> set (sem_served False (req s) (?n - req s t) ts)"
      using sem_served_subset Cons.prems(3) by fastforce
    have sv: "sem_served False (req ?s) (?n - req s t) ts = sem_served False (req s) (?n - req s t) ts"
      by (rule sem_served_cong) (rule rq)
    have "sem_outcome i (sem_served False (req ?s) (semcnt (semcb ?s i)) ts) ?s (sem_grant i ts ?s)"
      using Cons.IH [OF g(1) sub] Cons.prems(3) by simp
    then have "sem_outcome i (sem_served False (req s) (?n - req s t) ts) ?s (sem_grant i ts ?s)"
      by (simp add: g(6) sv)
    from sem_outcome_Cons [OF Cons.prems(1) t this nt] False show ?thesis
      by (simp add: sem_grant_grant del: sem_grant.simps(2))
  qed
qed

section \<open>The invariant of the semaphores\<close>

definition sem_waiter :: "kstate \<Rightarrow> nat \<Rightarrow> nat \<Rightarrow> bool" where
  "sem_waiter s i t \<longleftrightarrow> 0 < req s t \<and> req s t \<le> maxsem (semcb s i) \<and> wid (tcbs s t) = semid (semcb s i) \<and>
     wspec (tcbs s t) = (if sematr (semcb s i) AND TA_TPRI \<noteq> 0 then Wspec_sem_tpri else Wspec_sem_tfifo)"

text \<open>\<open>sem_basic\<close> leaves out the last part: no task waits that could be served.\<close>

definition sem_basic :: "kstate \<Rightarrow> nat \<Rightarrow> bool" where
  "sem_basic s i \<longleftrightarrow>
     (if semid (semcb s i) = 0 then ques s (QSem i) = []
      else INDEX_OBJ (semid (semcb s i)) = i \<and> 0 \<le> semcnt (semcb s i) \<and> semcnt (semcb s i) \<le> maxsem (semcb s i) \<and>
        maxsem (semcb s i) \<le> INT_MAX \<and> (\<forall>t\<in>set (ques s (QSem i)). sem_waiter s i t))"

definition sem_blocked :: "kstate \<Rightarrow> nat \<Rightarrow> bool" where
  "sem_blocked s i \<longleftrightarrow>
     sem_starved (sematr (semcb s i) AND TA_CNT \<noteq> 0) (req s) (semcnt (semcb s i)) (ques s (QSem i))"

definition sem_inv :: "kstate \<Rightarrow> nat \<Rightarrow> bool" where
  "sem_inv s i \<longleftrightarrow> sem_basic s i \<and> sem_blocked s i"

definition sems_ok :: "kstate \<Rightarrow> bool" where
  "sems_ok s \<longleftrightarrow> maxid (semtab s) < 65535 \<and> (\<forall>i<maxid (semtab s). sem_inv s i) \<and> distinct (freeq (semtab s)) \<and>
     (\<forall>i\<in>set (freeq (semtab s)). i < maxid (semtab s) \<and> semid (semcb s i) = 0)"

text \<open>What the invariant of one semaphore reads.\<close>

definition sem_same :: "kstate \<Rightarrow> kstate \<Rightarrow> nat \<Rightarrow> bool" where
  "sem_same s s' i \<longleftrightarrow> semcb s' i = semcb s i \<and> ques s' (QSem i) = ques s (QSem i) \<and>
     (\<forall>t\<in>set (ques s (QSem i)). winfo (tcbs s' t) = winfo (tcbs s t) \<and> wid (tcbs s' t) = wid (tcbs s t) \<and>
        wspec (tcbs s' t) = wspec (tcbs s t))"

lemma sem_starved_cong:
  "(\<And>t. t \<in> set ts \<Longrightarrow> r t = r' t) \<Longrightarrow> sem_starved all r n ts \<longleftrightarrow> sem_starved all r' n ts"
  by (cases ts) (auto simp: sem_starved_def)

lemma sem_starved_mono: "sem_starved all r n ts \<Longrightarrow> m \<le> n \<Longrightarrow> sem_starved all r m ts"
  by (auto simp: sem_starved_def split: if_splits)

lemma sem_same_inv:
  assumes "sem_same s s' i"
  shows "sem_basic s' i \<longleftrightarrow> sem_basic s i" and "sem_blocked s' i \<longleftrightarrow> sem_blocked s i" and "sem_inv s' i \<longleftrightarrow> sem_inv s i"
proof -
  show b: "sem_basic s' i \<longleftrightarrow> sem_basic s i"
    using assms by (auto simp: sem_same_def sem_basic_def sem_waiter_def)
  show w: "sem_blocked s' i \<longleftrightarrow> sem_blocked s i"
    using assms sem_starved_cong [of "ques s (QSem i)" "req s'" "req s"] by (simp add: sem_same_def sem_blocked_def)
  show "sem_inv s' i \<longleftrightarrow> sem_inv s i" using b w by (simp add: sem_inv_def)
qed

lemma sem_same_sched: "sched_frame s s' \<Longrightarrow> sem_same s s' i"
  by (simp add: sem_same_def semcb_def sched_frame_sel sched_frame_tcb sched_frame_ques)

lemma sems_ok_sched: "sched_frame s s' \<Longrightarrow> sems_ok s' \<longleftrightarrow> sems_ok s"
  using sem_same_inv(3) [OF sem_same_sched] by (auto simp: sems_ok_def sched_frame_sel semcb_def)

lemma sem_end_critical:
  "end_critical r s = Some (r', s') \<Longrightarrow> kinv s \<Longrightarrow> sems_ok s \<Longrightarrow> kinv s' \<and> sems_ok s'"
  using end_critical_result [of r s r' s'] sems_ok_sched [of s s'] by simp

text \<open>Serving tasks of semaphore \<open>i\<close>: the others do not notice.\<close>

lemma sem_outcome_other:
  assumes k: "kinv s" and o: "sem_outcome i r s s'" and r: "set r \<subseteq> set (ques s (QSem i))" and j: "j \<noteq> i"
  shows "sem_same s s' j"
proof -
  have "t \<notin> set r" if "t \<in> set (ques s (QSem j))" for t
    using kinv_dest(7) [OF k, of t "QSem j" "QSem i"] r that j by auto
  then show ?thesis using o j by (simp add: sem_same_def sem_outcome_def sem_frame_def)
qed

lemma sem_frame_cb:
  assumes "sem_frame i s s'"
  shows "semid (semcb s' i) = semid (semcb s i)" "sematr (semcb s' i) = sematr (semcb s i)"
    "maxsem (semcb s' i) = maxsem (semcb s i)"
proof -
  have e: "semcb s' i = (semcb s i)\<lparr>semcnt := semcnt (semcb s' i)\<rparr>" using assms by (simp add: sem_frame_def)
  show "semid (semcb s' i) = semid (semcb s i)" "sematr (semcb s' i) = sematr (semcb s i)"
    "maxsem (semcb s' i) = maxsem (semcb s i)" by (subst e; simp)+
qed

text \<open>
  After serving the queue from a count in range, the invariant holds again: this is why a signal or
  a hook leaves no task waiting for what is there.
\<close>

lemma sem_outcome_inv:
  assumes k: "kinv s" and live: "semid (semcb s i) \<noteq> 0" and b: "sem_basic s i"
    and o: "sem_outcome i (sem_served (sematr (semcb s i) AND TA_CNT \<noteq> 0) (req s) (semcnt (semcb s i)) (ques s (QSem i))) s s'"
  shows "sem_inv s' i"
proof -
  let ?q = "ques s (QSem i)" and ?n = "semcnt (semcb s i)" and ?all = "sematr (semcb s i) AND TA_CNT \<noteq> 0"
  let ?r = "sem_served ?all (req s) ?n ?q"
  have w: "\<forall>t\<in>set ?q. 0 < req s t" "0 \<le> ?n" "distinct ?q"
    using b live kinv_dest(5) [OF k, of "QSem i"] by (auto simp: sem_basic_def sem_waiter_def)
  have f: "sem_frame i s s'" and q: "ques s' (QSem i) = filter (\<lambda>x. x \<notin> set ?r) ?q"
    and n: "semcnt (semcb s' i) = ?n - sum_list (map (req s) ?r)" and tc: "\<And>x. x \<notin> set ?r \<Longrightarrow> tcbs s' x = tcbs s x"
    using o by (auto simp: sem_outcome_def)
  note cb = sem_frame_cb [OF f]
  have sum: "0 \<le> sum_list (map (req s) ?r)" "sum_list (map (req s) ?r) \<le> ?n"
    using sem_served_sum_le [OF w(2,1)] by auto
  have "sem_basic s' i"
    using b live sum n cb tc q by (auto simp: sem_basic_def sem_waiter_def)
  moreover have "sem_starved ?all (req s) (semcnt (semcb s' i)) (ques s' (QSem i))"
    unfolding n q by (rule sem_served_rest [OF w(2,1,3)])
  then have "sem_blocked s' i"
    unfolding sem_blocked_def cb using tc q
      sem_starved_cong [of "ques s' (QSem i)" "req s'" "req s" ?all "semcnt (semcb s' i)"] by auto
  ultimately show ?thesis by (simp add: sem_inv_def)
qed

lemma sem_outcome_sems_ok:
  assumes k: "kinv s" and ok: "sems_ok s0" and tab: "freeq (semtab s) = freeq (semtab s0)" "maxid (semtab s) = maxid (semtab s0)"
    "\<And>j. semid (semcb s j) = semid (semcb s0 j)" "\<And>j. j \<noteq> i \<Longrightarrow> sem_inv s j \<longleftrightarrow> sem_inv s0 j"
    and live: "semid (semcb s i) \<noteq> 0" and b: "sem_basic s i"
    and o: "sem_outcome i (sem_served (sematr (semcb s i) AND TA_CNT \<noteq> 0) (req s) (semcnt (semcb s i)) (ques s (QSem i))) s s'"
  shows "sems_ok s'"
proof -
  have f: "sem_frame i s s'" using o by (simp add: sem_outcome_def)
  have ids: "semid (semcb s' j) = semid (semcb s0 j)" for j
    using f sem_frame_cb(1) [OF f] tab(3) by (cases "j = i") (auto simp: sem_frame_def)
  have "sem_inv s' j" if "j < maxid (semtab s0)" for j
  proof (cases "j = i")
    case True
    then show ?thesis using sem_outcome_inv [OF k live b o] by simp
  next
    case False
    have "sem_same s s' j" by (rule sem_outcome_other [OF k o sem_served_subset False])
    then show ?thesis using sem_same_inv(3) tab(4) [OF False] ok that by (auto simp: sems_ok_def)
  qed
  then show ?thesis using ok f ids tab by (auto simp: sems_ok_def sem_frame_def)
qed

lemma sems_okD: "sems_ok s \<Longrightarrow> i < maxid (semtab s) \<Longrightarrow> sem_inv s i"
  by (simp add: sems_ok_def)

lemma CHECK_SEMID_index: "fst (CHECK_SEMID s sid) \<Longrightarrow> INDEX_OBJ sid < maxid (semtab s)"
  by (auto simp: CHECK_SEMID_def CHECK_OBJID_def CHK_OBJID_def INDEX_OBJ_def)

text \<open>The branches of the call: an error leaves the state to the end of the critical section.\<close>

lemma tk_sig_sem_cases:
  assumes "tk_sig_sem prid sid cnt s = Some (e, s')"
  obtains "s' = s" | x where "end_critical x s = Some (e, s')"
  | "INDEX_OBJ sid < maxid (semtab s)" "0 < cnt" "semid (semcb s (INDEX_OBJ sid)) \<noteq> 0"
    "cnt \<le> maxsem (semcb s (INDEX_OBJ sid)) - semcnt (semcb s (INDEX_OBJ sid))"
    "let i = INDEX_OBJ sid; s1 = upd_sem i (\<lambda>c. c\<lparr>semcnt := semcnt c + cnt\<rparr>) s
     in end_critical E_OK (sig_scan i (ques s1 (QSem i)) s1) = Some (e, s')"
proof (cases "guards [CHECK_SEMID s sid, CHECK_PAR (cnt > 0)]")
  case (Some x)
  with assms that(1) show ?thesis by (simp add: tk_sig_sem_def)
next
  case None
  then have g: "INDEX_OBJ sid < maxid (semtab s)" "0 < cnt"
    by (auto simp: guards_None CHECK_PAR_def intro: CHECK_SEMID_index)
  show ?thesis
  proof (cases "semid (semcb s (INDEX_OBJ sid)) = 0")
    case True
    with assms None that(2) show ?thesis by (simp add: tk_sig_sem_def del: guards.simps)
  next
    case False
    with assms None that(2) that(3) [OF g False] show ?thesis
      by (auto simp: tk_sig_sem_def Let_def simp del: guards.simps split: Option.bind_splits if_splits)
  qed
qed

lemma tk_sig_sem_inv:
  assumes k: "kinv s" and ok: "sems_ok s" and r: "tk_sig_sem prid sid cnt s = Some (e, s')"
  shows "kinv s' \<and> sems_ok s'"
  using r
proof (cases rule: tk_sig_sem_cases)
  case 1
  with k ok show ?thesis by simp
next
  case (2 x)
  from sem_end_critical [OF this k ok] show ?thesis .
next
  case 3
  define i where "i = INDEX_OBJ sid"
  define s1 where "s1 = upd_sem i (\<lambda>c. c\<lparr>semcnt := semcnt c + cnt\<rparr>) s"
  have live: "semid (semcb s1 i) \<noteq> 0" and inv: "sem_inv s i"
    using 3 sems_okD [OF ok] by (simp_all add: s1_def i_def)
  have e: "end_critical E_OK (sig_scan i (ques s1 (QSem i)) s1) = Some (e, s')"
    using 3(5) by (simp add: i_def s1_def Let_def)
  have b: "sem_basic s1 i"
    using inv 3(2-4) by (auto simp: sem_inv_def sem_basic_def sem_waiter_def s1_def i_def)
  have k1: "kinv s1" using k by (simp add: s1_def)
  have o: "sem_outcome i (sem_served (sematr (semcb s1 i) AND TA_CNT \<noteq> 0) (req s1) (semcnt (semcb s1 i)) (ques s1 (QSem i))) s1
      (sig_scan i (ques s1 (QSem i)) s1)"
    by (rule sig_scan_outcome [OF k1])
      (use b live kinv_dest(5) [OF k1] in \<open>auto simp: sem_basic_def sem_waiter_def\<close>)
  have same: "sem_inv s1 j \<longleftrightarrow> sem_inv s j" if "j \<noteq> i" for j
    by (rule sem_same_inv) (use that in \<open>simp add: sem_same_def s1_def\<close>)
  have "sems_ok (sig_scan i (ques s1 (QSem i)) s1)"
    by (rule sem_outcome_sems_ok [OF k1 ok _ _ _ same live b o]) (simp_all add: s1_def)
  moreover have "kinv (sig_scan i (ques s1 (QSem i)) s1)" using o by (simp add: sem_outcome_def)
  ultimately show ?thesis using sem_end_critical [OF e] by simp
qed

text \<open>The successful signal.\<close>

lemma tk_sig_sem_ok:
  assumes k: "kinv s" and ok: "sems_ok s" and g: "guards [CHECK_SEMID s sid, CHECK_PAR (cnt > 0)] = None"
    and i: "i = INDEX_OBJ sid" and live: "semid (semcb s i) \<noteq> 0"
    and acc: "mp_check_domain_and_protection prid s sid (semid (semcb s i)) (sematr (semcb s i)) = Some E_OK"
    and m: "cnt \<le> maxsem (semcb s i) - semcnt (semcb s i)"
  shows "\<exists>s1 s'. tk_sig_sem prid sid cnt s = Some (E_OK, s') \<and>
     sem_outcome i (sem_served (sematr (semcb s i) AND TA_CNT \<noteq> 0) (req s) (semcnt (semcb s i) + cnt) (ques s (QSem i)))
       (upd_sem i (\<lambda>c. c\<lparr>semcnt := semcnt c + cnt\<rparr>) s) s1 \<and>
     sched_frame s1 s' \<and> kinv s' \<and> sems_ok s'"
proof -
  define s0 where "s0 = upd_sem i (\<lambda>c. c\<lparr>semcnt := semcnt c + cnt\<rparr>) s"
  have c: "i < maxid (semtab s)" "0 < cnt"
    using g i by (auto simp: guards_None CHECK_PAR_def intro: CHECK_SEMID_index)
  have inv: "sem_inv s i" using sems_okD [OF ok c(1)] .
  have k0: "kinv s0" using k by (simp add: s0_def)
  have o: "sem_outcome i (sem_served (sematr (semcb s0 i) AND TA_CNT \<noteq> 0) (req s0) (semcnt (semcb s0 i)) (ques s0 (QSem i))) s0
      (sig_scan i (ques s0 (QSem i)) s0)"
    by (rule sig_scan_outcome [OF k0])
      (use inv live kinv_dest(5) [OF k] in \<open>auto simp: sem_inv_def sem_basic_def sem_waiter_def s0_def\<close>)
  have k1: "kinv (sig_scan i (ques s0 (QSem i)) s0)" using o by (simp add: sem_outcome_def)
  from end_critical_ok [OF k1, of E_OK] obtain s' where
    e: "end_critical E_OK (sig_scan i (ques s0 (QSem i)) s0) = Some (E_OK, s')" "sched_frame (sig_scan i (ques s0 (QSem i)) s0) s'" by blast
  have "\<not> cnt > maxsem (semcb s i) - semcnt (semcb s i)" using m by simp
  then have r: "tk_sig_sem prid sid cnt s = Some (E_OK, s')"
    using e(1) g live acc unfolding tk_sig_sem_def i by (simp add: s0_def i Let_def del: guards.simps)
  from tk_sig_sem_inv [OF k ok r] e(2) r o show ?thesis by (auto simp: s0_def)
qed

text \<open>Waiting.\<close>

lemma tk_wai_sem_cases:
  assumes "tk_wai_sem prid sid cnt tmout s = Some (e, s')"
  obtains "s' = s" | x where "end_critical x s = Some (e, s')"
  | t i where "i = INDEX_OBJ sid" "i < maxid (semtab s)" "0 < cnt" "semid (semcb s i) \<noteq> 0" "cnt \<le> maxsem (semcb s i)"
      "ctxtsk s prid = Some t" "sematr (semcb s i) AND TA_CNT \<noteq> 0 \<or> gcb_top_of_wait_queue (sem_gcb s i) t s = t"
      "cnt \<le> semcnt (semcb s i)" "end_critical E_OK (upd_sem i (\<lambda>c. c\<lparr>semcnt := semcnt c - cnt\<rparr>) s) = Some (e, s')"
  | t i s1 s2 where "i = INDEX_OBJ sid" "i < maxid (semtab s)" "0 < cnt" "semid (semcb s i) \<noteq> 0" "cnt \<le> maxsem (semcb s i)"
      "ctxtsk s prid = Some t" "\<not> is_diswai (sem_gcb s i) (tcbs s t) TTW_SEM"
      "\<not> ((sematr (semcb s i) AND TA_CNT \<noteq> 0 \<or> gcb_top_of_wait_queue (sem_gcb s i) t s = t) \<and> cnt \<le> semcnt (semcb s i))"
      "s1 = upd_tcb t (\<lambda>c. c\<lparr>wspec := (if sematr (semcb s i) AND TA_TPRI \<noteq> 0 then Wspec_sem_tpri else Wspec_sem_tfifo),
              winfo := Winfo_sem cnt, wercd := E_OK\<rparr>) s"
      "gcb_make_wait_with_diswai prid (sem_gcb s1 i) tmout s1 = Some s2" "end_critical (wercd (tcbs s2 t)) s2 = Some (e, s')"
proof (cases "guards [CHECK_SEMID s sid, CHECK_PAR (cnt > 0), CHECK_TMOUT tmout, CHECK_DISPATCH prid s]")
  case (Some x)
  with assms that(1) show ?thesis by (simp add: tk_wai_sem_def)
next
  case None
  then have g: "INDEX_OBJ sid < maxid (semtab s)" "0 < cnt"
    by (auto simp: guards_None CHECK_PAR_def intro: CHECK_SEMID_index)
  show ?thesis
  proof (cases "semid (semcb s (INDEX_OBJ sid)) = 0")
    case True
    with assms None that(2) show ?thesis by (simp add: tk_wai_sem_def del: guards.simps)
  next
    case False
    with assms None that(2) that(3) [OF refl g False] that(4) [OF refl g False _ _ _ _ refl] show ?thesis
      by (auto simp: tk_wai_sem_def Let_def simp del: guards.simps split: Option.bind_splits if_splits)
  qed
qed

lemma tpri_wspec: "tskwait (wspec_at (if b then Wspec_sem_tpri else Wspec_sem_tfifo)) = TTW_SEM"
  by simp

lemma sems_ok_other:
  assumes "sems_ok s" and "semtab s' = semtab s" and "\<And>j. j < maxid (semtab s) \<Longrightarrow> sem_inv s' j"
  shows "sems_ok s'"
  using assms by (simp add: sems_ok_def semcb_def)

lemma sem_wait_blocked:
  assumes b: "sem_blocked s i" and c: "\<not> ((sematr (semcb s i) AND TA_CNT \<noteq> 0 \<or> gcb_top_of_wait_queue (sem_gcb s i) t s = t) \<and> cnt \<le> semcnt (semcb s i))"
    and t: "t \<notin> set (ques s (QSem i))" and r: "\<And>x. r x = (if x = t then cnt else req s x)"
  shows "sem_starved (sematr (semcb s i) AND TA_CNT \<noteq> 0) r (semcnt (semcb s i))
     (if sematr (semcb s i) AND TA_TPRI \<noteq> 0 then insert_before (\<lambda>x. pri s x > pri s t) t (ques s (QSem i)) else ques s (QSem i) @ [t])"
proof (cases "sematr (semcb s i) AND TA_CNT \<noteq> 0")
  case True
  then show ?thesis using b c t by (auto simp: sem_starved_def sem_blocked_def r)
next
  case False
  let ?q = "ques s (QSem i)"
  have h: "?q \<noteq> [] \<Longrightarrow> semcnt (semcb s i) < req s (hd ?q) \<and> hd ?q \<noteq> t"
    using b False t by (auto simp: sem_starved_def sem_blocked_def)
  have "semcnt (semcb s i) < cnt" if "?q = [] \<or> sematr (semcb s i) AND TA_TPRI \<noteq> 0 \<and> pri s (hd ?q) > pri s t"
    using c False that by (cases ?q) (auto simp: gcb_top_of_wait_queue_def sem_gcb_def split: if_splits)
  then show ?thesis
    using h False by (auto simp: sem_starved_def r hd_insert_before hd_append)
qed

lemma sem_set_winfo:
  fixes s :: kstate and t cnt i :: nat and w :: wspec_ref and n :: int and e :: ER
  assumes k: "kinv s" and t: "t \<in> set (rdy s)"
  defines "s1 \<equiv> upd_tcb t (\<lambda>c. c\<lparr>wspec := w, winfo := Winfo_sem n, wercd := e\<rparr>) s"
  shows "kinv s1" "rdy s1 = rdy s" "sem_same s s1 j" "sems_ok s1 \<longleftrightarrow> sems_ok s"
proof -
  show "kinv s1" "rdy s1 = rdy s" unfolding s1_def by (rule kinv_tcb_upd [OF k]; simp)+
  have nt: "t \<notin> set (ques s (QSem j))" for j
    using kinv_dest(3) [OF k] t by (simp add: rdy_excl_def)
  have sm: "sem_same s s1 j" for j using nt by (auto simp: sem_same_def s1_def semcb_def)
  then show "sem_same s s1 j" .
  show "sems_ok s1 \<longleftrightarrow> sems_ok s" using sem_same_inv(3) [OF sm] by (simp add: sems_ok_def s1_def semcb_def)
qed

lemma tk_wai_sem_inv:
  assumes k: "kinv s" and ok: "sems_ok s" and c: "ctx_ready prid s" and r: "tk_wai_sem prid sid cnt tmout s = Some (e, s')"
  shows "kinv s' \<and> sems_ok s'"
  using r
proof (cases rule: tk_wai_sem_cases)
  case 1
  with k ok show ?thesis by simp
next
  case (2 x)
  from sem_end_critical [OF this k ok] show ?thesis .
next
  case (3 t i)
  let ?s = "upd_sem i (\<lambda>c. c\<lparr>semcnt := semcnt c - cnt\<rparr>) s"
  have inv: "sem_inv s i" using sems_okD [OF ok 3(2)] .
  have "sem_inv ?s i"
    using inv 3(3-5,8) sem_starved_mono [of _ _ "semcnt (semcb s i)" _ "semcnt (semcb s i) - cnt"]
    by (auto simp: sem_inv_def sem_basic_def sem_blocked_def sem_waiter_def)
  moreover have "sem_inv ?s j \<longleftrightarrow> sem_inv s j" if "j \<noteq> i" for j
    by (rule sem_same_inv) (use that in \<open>simp add: sem_same_def\<close>)
  ultimately have "sem_inv ?s j" if "j < maxid (semtab s)" for j using sems_okD [OF ok that] by (cases "j = i") auto
  then have "sems_ok ?s" using ok 3(4) by (auto simp: sems_ok_def)
  with sem_end_critical [OF 3(9)] k show ?thesis by simp
next
  case (4 t i s1 s2)
  have t: "t \<in> set (rdy s)" using c 4(6) by (simp add: ctx_ready_def)
  note p = sem_set_winfo [OF k t, where w = "if sematr (semcb s i) AND TA_TPRI \<noteq> 0 then Wspec_sem_tpri else Wspec_sem_tfifo"
      and e = E_OK and n = cnt, folded 4(9)]
  have c1: "ctxtsk s1 prid = Some t" "t \<in> set (rdy s1)" using 4(6,9) t p(2) by simp_all
  have g: "sem_gcb s1 i = sem_gcb s i" by (simp add: 4(9) sem_gcb_def semcb_def)
  have nd: "\<not> is_diswai (sem_gcb s1 i) (tcbs s1 t) (tskwait (wspec_at (wspec (tcbs s1 t))))"
    using 4(7) by (simp add: 4(9) g [unfolded 4(9)] is_diswai_def)
  define s1' where "s1' = upd_tcb t (\<lambda>c. c\<lparr>wercd := E_TMOUT\<rparr>) s1"
  have q: "(if tmout \<noteq> TMO_POL then gcb_make_wait prid (sem_gcb s1 i) tmout s1' else Some s1') = Some s2"
    using 4(10) nd c1(1) by (simp add: gcb_make_wait_with_diswai_def s1'_def Let_def split: if_splits)
  have s1': "s1' = upd_tcb t (\<lambda>c. c\<lparr>wspec := (if sematr (semcb s i) AND TA_TPRI \<noteq> 0 then Wspec_sem_tpri else Wspec_sem_tfifo),
              winfo := Winfo_sem cnt, wercd := E_TMOUT\<rparr>) s"
    by (simp add: s1'_def 4(9) upd_tcb_def)
  note p' = sem_set_winfo [OF k t, where w = "if sematr (semcb s i) AND TA_TPRI \<noteq> 0 then Wspec_sem_tpri else Wspec_sem_tfifo"
      and e = E_TMOUT and n = cnt, folded s1']
  show ?thesis
  proof (cases "tmout = TMO_POL")
    case True
    with q have "s2 = s1'" by simp
    with sem_end_critical [OF 4(11)] p' ok show ?thesis by simp
  next
    case False
    have c2: "ctxtsk s1' prid = Some t" "t \<in> set (rdy s1')" using 4(6) t p'(2) by (simp_all add: s1')
    from gcb_make_wait_ok [OF p'(1) c2, of "sem_gcb s i" tmout] q False g have
      k2: "kinv s2" and q2: "\<And>q. \<not> ready_head q \<Longrightarrow> q \<noteq> QSem i \<Longrightarrow> ques s2 q = ques s1' q"
      and qi: "ques s2 (QSem i) = (if sematr (semcb s i) AND TA_TPRI \<noteq> 0
          then insert_before (\<lambda>x. pri s1' x > pri s1' t) t (ques s1' (QSem i)) else ques s1' (QSem i) @ [t])"
      and f: "task_frame t s1' s2" and wd: "wid (tcbs s2 t) = semid (semcb s i)"
      by (auto simp: sem_gcb_def)
    have pr: "pri s1' x = pri s x" for x by (simp add: s1')
    have sc: "semcb s2 = semcb s" "semtab s2 = semtab s"
      using f by (auto simp: task_frame_def objs_same_def s1' semcb_def fun_eq_iff)
    have tc: "x \<noteq> t \<Longrightarrow> tcbs s2 x = tcbs s x" for x using f by (simp add: task_frame_def s1')
    have tt: "winfo (tcbs s2 t) = Winfo_sem cnt" "wspec (tcbs s2 t) = (if sematr (semcb s i) AND TA_TPRI \<noteq> 0 then Wspec_sem_tpri else Wspec_sem_tfifo)"
      using f by (simp_all add: task_frame_def s1')
    have nt: "t \<notin> set (ques s (QSem j))" for j
      using kinv_dest(3) [OF k] t by (simp add: rdy_excl_def)
    have qs: "ques s1' = ques s" by (simp add: s1')
    have inv: "sem_inv s i" using sems_okD [OF ok 4(2)] .
    have set: "set (ques s2 (QSem i)) = insert t (set (ques s (QSem i)))" by (auto simp: qi qs)
    have "sem_waiter s2 i x" if "x \<in> set (ques s2 (QSem i))" for x
    proof (cases "x = t")
      case True
      then show ?thesis using 4(3,5) wd tt by (simp add: sem_waiter_def sc)
    next
      case False
      then have "sem_waiter s i x" using that set inv 4(4) by (auto simp: sem_inv_def sem_basic_def)
      then show ?thesis using tc [OF False] by (simp add: sem_waiter_def sc)
    qed
    then have "sem_basic s2 i" using inv 4(4) by (auto simp: sem_inv_def sem_basic_def sc)
    moreover have "sem_blocked s2 i"
      unfolding sem_blocked_def sc qi qs pr
      by (rule sem_wait_blocked [OF _ 4(8) nt]) (use inv tt tc in \<open>auto simp: sem_inv_def\<close>)
    ultimately have i2: "sem_inv s2 i" by (simp add: sem_inv_def)
    have "sem_inv s2 j" if "j < maxid (semtab s)" for j
    proof (cases "j = i")
      case False
      have "\<forall>x\<in>set (ques s (QSem j)). tcbs s2 x = tcbs s x" using nt [of j] tc by metis
      then have "sem_same s s2 j" using q2 [of "QSem j"] False by (simp add: sem_same_def sc qs)
      then show ?thesis using sem_same_inv(3) sems_okD [OF ok that] by blast
    qed (use i2 in simp)
    then have "sems_ok s2" using ok by (simp add: sems_ok_def sc)
    with sem_end_critical [OF 4(11)] k2 show ?thesis by simp
  qed
qed

text \<open>The hooks: the priority of a waiting task changed, or a waiting task was released.\<close>

lemma sem_chg_pri_tail:
  assumes k: "kinv s" and ok: "sems_ok s0" and tab: "semtab s = semtab s0" and i: "i < maxid (semtab s0)"
    and oth: "\<And>j. j \<noteq> i \<Longrightarrow> sem_inv s j \<longleftrightarrow> sem_inv s0 j" and b: "sem_basic s i"
    and st: "sematr (semcb s i) AND TA_CNT \<noteq> 0 \<Longrightarrow> sem_blocked s i" and live: "semid (semcb s i) \<noteq> 0"
  shows "kinv (if sematr (semcb s i) AND TA_CNT \<noteq> 0 then s else sem_grant i (ques s (QSem i)) s)"
    and "sems_ok (if sematr (semcb s i) AND TA_CNT \<noteq> 0 then s else sem_grant i (ques s (QSem i)) s)"
proof -
  have sc: "semcb s j = semcb s0 j" for j by (simp add: semcb_def tab)
  have o: "sem_outcome i (sem_served False (req s) (semcnt (semcb s i)) (ques s (QSem i))) s (sem_grant i (ques s (QSem i)) s)"
    by (rule sem_grant_outcome [OF k]) (simp_all add: kinv_dest(5) [OF k])
  show "kinv (if sematr (semcb s i) AND TA_CNT \<noteq> 0 then s else sem_grant i (ques s (QSem i)) s)"
    using k o by (simp add: sem_outcome_def)
  show "sems_ok (if sematr (semcb s i) AND TA_CNT \<noteq> 0 then s else sem_grant i (ques s (QSem i)) s)"
  proof (cases "sematr (semcb s i) AND TA_CNT \<noteq> 0")
    case True
    have "sem_inv s j" if "j < maxid (semtab s0)" for j
      using True st b oth [of j] sems_okD [OF ok that] by (cases "j = i") (auto simp: sem_inv_def)
    then show ?thesis using True ok by (simp add: sems_ok_def tab sc)
  next
    case False
    then have "sems_ok (sem_grant i (ques s (QSem i)) s)"
      using sem_outcome_sems_ok [OF k ok _ _ _ oth live b] o by (simp add: tab sc)
    with False show ?thesis by simp
  qed
qed

text \<open>
  A waiting task's priority has just changed from \<open>s0\<close> to \<open>s\<close>; the hook moves it to its place and
  serves the new head of the queue.
\<close>

lemma gcb_change_priority_sel [simp]:
  "tcbs (gcb_change_priority g t s) = tcbs s" "semtab (gcb_change_priority g t s) = semtab s"
  by (simp_all add: gcb_change_priority_def queue_insert_tpri_def set_que_def)

lemma sem_chg_pri_inv:
  assumes k: "kinv s" and ok: "sems_ok s" and i: "i < maxid (semtab s)" and t: "t \<in> set (ques s (QSem i))" and p: "0 \<le> p"
  shows "kinv (sem_chg_pri t p s)" and "sems_ok (sem_chg_pri t p s)"
proof -
  have inv: "sem_inv s i" using sems_okD [OF ok i] .
  have live: "semid (semcb s i) \<noteq> 0" using inv t by (auto simp: sem_inv_def sem_basic_def)
  have ix: "INDEX_OBJ (wid (tcbs s t)) = i"
    using inv live t by (simp add: sem_inv_def sem_basic_def sem_waiter_def)
  define s1 where "s1 = gcb_change_priority (sem_gcb s i) t s"
  have t': "t \<in> set (ques s (wait_queue (sem_gcb s i)))" using t by (simp add: sem_gcb_def)
  note c = gcb_change_priority_ok [OF k _ t', folded s1_def, unfolded sem_gcb_def, simplified]
  have s1: "tcbs s1 = tcbs s" "semtab s1 = semtab s" "semcb s1 = semcb s" by (simp_all add: s1_def semcb_def fun_eq_iff)
  have qi: "set (ques s1 (QSem i)) = set (ques s (QSem i))"
    using c(2) t kinv_dest(5) [OF k] by auto
  have oth: "sem_inv s1 j \<longleftrightarrow> sem_inv s j" if "j \<noteq> i" for j
    by (rule sem_same_inv) (use that c(3) in \<open>simp add: sem_same_def s1\<close>)
  have b: "sem_basic s1 i" using inv live qi by (simp add: sem_inv_def sem_basic_def sem_waiter_def s1)
  have st: "sem_blocked s1 i" if "sematr (semcb s1 i) AND TA_CNT \<noteq> 0"
    using inv that qi by (simp add: sem_inv_def sem_blocked_def sem_starved_def s1)
  have e: "sem_chg_pri t p s = (if sematr (semcb s1 i) AND TA_CNT \<noteq> 0 then s1 else sem_grant i (ques s1 (QSem i)) s1)"
    using p by (simp add: sem_chg_pri_def Let_def ix s1_def)
  have live': "semid (semcb s1 i) \<noteq> 0" using live by (simp add: s1)
  show "kinv (sem_chg_pri t p s)" "sems_ok (sem_chg_pri t p s)"
    unfolding e by (rule sem_chg_pri_tail [OF c(1) ok s1(2) i oth b st live']; assumption?)+
qed

text \<open>
  A task \<open>t\<close> that waited for semaphore \<open>i\<close> in \<open>s0\<close> has been taken out of the queue: the hook
  serves those behind it.
\<close>

lemma sem_rel_wai_inv:
  assumes k: "kinv s" and ok: "sems_ok s0" and i: "i < maxid (semtab s0)" and t: "t \<in> set (ques s0 (QSem i))"
    and tab: "semtab s = semtab s0" and q: "ques s (QSem i) = remove1 t (ques s0 (QSem i))"
    and oth: "\<And>j. j \<noteq> i \<Longrightarrow> sem_same s0 s j" and tc: "\<And>x. x \<noteq> t \<Longrightarrow> tcbs s x = tcbs s0 x"
    and wd: "wid (tcbs s t) = wid (tcbs s0 t)" and d: "distinct (ques s0 (QSem i))"
  shows "kinv (sem_rel_wai t s)" and "sems_ok (sem_rel_wai t s)"
proof -
  have inv: "sem_inv s0 i" using sems_okD [OF ok i] .
  have live: "semid (semcb s0 i) \<noteq> 0" using inv t by (auto simp: sem_inv_def sem_basic_def)
  have ix: "INDEX_OBJ (wid (tcbs s t)) = i"
    using inv live t wd by (simp add: sem_inv_def sem_basic_def sem_waiter_def)
  have sc: "semcb s = semcb s0" by (simp add: semcb_def tab fun_eq_iff)
  have sub: "x \<in> set (ques s0 (QSem i)) \<and> x \<noteq> t" if "x \<in> set (ques s (QSem i))" for x
    using that q d by auto
  have b: "sem_basic s i"
    using inv live sub tc by (auto simp: sem_inv_def sem_basic_def sem_waiter_def sc)
  have st: "sem_blocked s i" if "sematr (semcb s i) AND TA_CNT \<noteq> 0"
    using inv that sub tc by (auto simp: sem_inv_def sem_blocked_def sem_starved_def sc)
  have o: "sem_inv s j \<longleftrightarrow> sem_inv s0 j" if "j \<noteq> i" for j using sem_same_inv(3) [OF oth [OF that]] .
  have e: "sem_rel_wai t s = (if sematr (semcb s i) AND TA_CNT \<noteq> 0 then s else sem_grant i (ques s (QSem i)) s)"
    by (simp add: sem_rel_wai_def sem_chg_pri_def Let_def ix)
  have live': "semid (semcb s i) \<noteq> 0" using live by (simp add: sc)
  show "kinv (sem_rel_wai t s)" "sems_ok (sem_rel_wai t s)"
    unfolding e by (rule sem_chg_pri_tail [OF k ok tab i o b st live']; assumption?)+
qed

text \<open>Creation and deletion.\<close>

lemma set_free_sem_sel [simp]:
  "tcbs (set_free_sem f s) = tcbs s" "ques (set_free_sem f s) = ques s" "kinv (set_free_sem f s) \<longleftrightarrow> kinv s"
  "semcb (set_free_sem f s) = semcb s" "freeq (semtab (set_free_sem f s)) = f"
  "maxid (semtab (set_free_sem f s)) = maxid (semtab s)"
  by (simp_all add: set_free_sem_def semcb_def fun_eq_iff)

lemma semcb_register [simp]: "semcb (mp_register_object_in_domain d ty i nm s) = semcb s"
  "semcb (mp_unregister_object_in_domain d ty i s) = semcb s"
  by (simp_all add: semcb_def fun_eq_iff)

lemma tk_cre_sem_cases:
  assumes "tk_cre_sem prid pk s = Some (e, s')"
  obtains "s' = s" | i q did oname s1 where "freeq (semtab s) = i # q" "0 \<le> csem_isemcnt pk" "csem_isemcnt pk \<le> csem_maxsem pk"
    "s1 = upd_sem i (\<lambda>c. c\<lparr>semid := MP_GEN_DOMIDPART did OR ID_OBJ i, sem_exinf := csem_exinf pk, sematr := csem_sematr pk,
            semcnt := csem_isemcnt pk, maxsem := csem_maxsem pk, sem_oname := name_copy oname\<rparr>)
          (set_que (QSem i) [] (set_free_sem q s))"
    "s' = mp_register_object_in_domain did OT_SEM (INDEX_OBJ (MP_GEN_DOMIDPART did OR ID_OBJ i)) oname s1"
    "e = sint (MP_GEN_DOMIDPART did OR ID_OBJ i)"
proof (cases "guards ([CHECK_RSATR (csem_sematr pk) VALID_SEMATR, CHECK_PAR (csem_isemcnt pk \<ge> 0), CHECK_PAR (csem_maxsem pk > 0),
        CHECK_PAR (csem_maxsem pk \<ge> csem_isemcnt pk), CHECK_PATR (csem_sematr pk)] @
        (if csem_sematr pk AND TA_DOMID \<noteq> 0 then [CHECK_DOMID s (csem_domid pk)] else []))")
  case (Some x)
  with assms that(1) show ?thesis by (simp add: tk_cre_sem_def)
next
  case None
  then have g: "0 \<le> csem_isemcnt pk" "csem_isemcnt pk \<le> csem_maxsem pk"
    by (auto simp: guards_None CHECK_PAR_def)
  have u: "upd_sem i f (upd_sem i g s) = upd_sem i (f \<circ> g) s" for i f g s
    by (simp add: upd_sem_def)
  obtain r where r: "cre_prologue prid sem_ops (csem_sematr pk) (csem_domid pk) (csem_oname pk) s = Some r"
    using assms None by (auto simp: tk_cre_sem_def simp del: guards.simps split: Option.bind_splits)
  show ?thesis
  proof (cases r)
    case (Inl x)
    with assms None r that(1) show ?thesis by (simp add: tk_cre_sem_def del: guards.simps)
  next
    case (Inr y)
    obtain did oname where y: "y = (did, oname)" by (cases y)
    show ?thesis
    proof (cases "freeq (semtab s)")
      case Nil
      with assms None r Inr y that(1) show ?thesis by (simp add: tk_cre_sem_def del: guards.simps)
    next
      case (Cons i q)
      show ?thesis
        by (rule that(2) [where did = did and oname = oname, OF Cons g refl])
          (use assms None r Inr y Cons in \<open>simp_all add: tk_cre_sem_def Let_def u comp_def del: guards.simps\<close>)
    qed
  qed
qed

lemma tk_cre_sem_inv:
  assumes k: "kinv s" and ok: "sems_ok s" and m: "csem_maxsem pk \<le> INT_MAX" and r: "tk_cre_sem prid pk s = Some (e, s')"
  shows "kinv s' \<and> sems_ok s'"
  using r
proof (cases rule: tk_cre_sem_cases)
  case 1
  with k ok show ?thesis by simp
next
  case (2 i q did oname s1)
  have i: "i < maxid (semtab s)" "semid (semcb s i) = 0" "distinct (i # q)" and fr: "\<forall>j\<in>set q. j < maxid (semtab s) \<and> semid (semcb s j) = 0"
    using ok 2(1) by (auto simp: sems_ok_def)
  have mx: "maxid (semtab s) < 65535" using ok by (simp add: sems_ok_def)
  then have ix: "INDEX_OBJ (MP_GEN_DOMIDPART did OR ID_OBJ i) = i" using i(1) by (intro INDEX_gen_id) simp
  have em: "ques s (QSem i) = []" using sems_okD [OF ok i(1)] i(2) by (simp add: sem_inv_def sem_basic_def)
  then have sq: "set_que (QSem i) [] (set_free_sem q s) = set_free_sem q s" by (intro set_que_same) simp
  have "sem_inv s' i"
    using 2(2,3) em m by (simp add: 2(4,5) sq sem_inv_def sem_basic_def sem_blocked_def sem_starved_def ix gen_id_nonzero)
  moreover have "sem_inv s' j \<longleftrightarrow> sem_inv s j" if "j \<noteq> i" for j
    by (rule sem_same_inv) (use that in \<open>simp add: sem_same_def 2(4,5) sq\<close>)
  ultimately have "\<forall>j<maxid (semtab s). sem_inv s' j" using sems_okD [OF ok] by metis
  then have "sems_ok s'" using mx i(3) fr by (auto simp: sems_ok_def 2(4,5) sq)
  moreover have "kinv s'" using k by (simp add: 2(4,5) sq)
  ultimately show ?thesis by simp
qed

lemma tk_del_sem_cases:
  assumes "tk_del_sem prid sid s = Some (e, s')"
  obtains "s' = s" | x where "end_critical x s = Some (e, s')"
  | i s1 where "i = INDEX_OBJ sid" "i < maxid (semtab s)" "semid (semcb s i) \<noteq> 0" "wait_delete (QSem i) s = Some s1"
    "end_critical E_OK (upd_sem i (\<lambda>c. c\<lparr>semid := 0\<rparr>)
       (set_free_sem (freeq (semtab s1) @ [i]) (mp_unregister_object_in_domain sid OT_SEM i s1))) = Some (e, s')"
proof (cases "guards [CHECK_SEMID s sid]")
  case (Some x)
  with assms that(1) show ?thesis by (simp add: tk_del_sem_def)
next
  case None
  then have g: "INDEX_OBJ sid < maxid (semtab s)"
    by (auto simp: guards_None intro: CHECK_SEMID_index)
  show ?thesis
  proof (cases "semid (semcb s (INDEX_OBJ sid)) = 0")
    case True
    with assms None that(2) show ?thesis by (simp add: tk_del_sem_def del: guards.simps)
  next
    case False
    with assms None that(2) that(3) [OF refl g False] show ?thesis
      by (auto simp: tk_del_sem_def Let_def simp del: guards.simps split: Option.bind_splits if_splits)
  qed
qed

lemma tk_del_sem_inv:
  assumes k: "kinv s" and ok: "sems_ok s" and r: "tk_del_sem prid sid s = Some (e, s')"
  shows "kinv s' \<and> sems_ok s'"
  using r
proof (cases rule: tk_del_sem_cases)
  case 1
  with k ok show ?thesis by simp
next
  case (2 x)
  from sem_end_critical [OF this k ok] show ?thesis .
next
  case (3 i s1)
  from wait_delete_ok [OF k _ refl, of "QSem i"] 3(4) have
    k1: "kinv s1" and q: "ques s1 (QSem i) = []" and qo: "\<And>q. \<not> ready_head q \<Longrightarrow> q \<noteq> QSem i \<Longrightarrow> ques s1 q = ques s q"
    and o: "objs_same s s1" and tc: "\<And>x. x \<notin> set (ques s (QSem i)) \<Longrightarrow> tcbs s1 x = tcbs s x" by auto
  have sc: "semtab s1 = semtab s" "semcb s1 = semcb s" using o by (simp_all add: objs_same_def semcb_def fun_eq_iff)
  let ?s = "upd_sem i (\<lambda>c. c\<lparr>semid := 0\<rparr>) (set_free_sem (freeq (semtab s1) @ [i]) (mp_unregister_object_in_domain sid OT_SEM i s1))"
  have "sem_inv ?s i" using q by (simp add: sem_inv_def sem_basic_def sem_blocked_def sem_starved_def)
  moreover have "sem_inv ?s j \<longleftrightarrow> sem_inv s j" if "j \<noteq> i" for j
  proof (rule sem_same_inv)
    have "x \<notin> set (ques s (QSem i))" if "x \<in> set (ques s (QSem j))" for x
      using kinv_dest(7) [OF k, of x "QSem j" "QSem i"] that \<open>j \<noteq> i\<close> by auto
    then show "sem_same s ?s j" using that qo [of "QSem j"] tc by (simp add: sem_same_def sc)
  qed
  ultimately have "\<forall>j<maxid (semtab s). sem_inv ?s j" using sems_okD [OF ok] by metis
  moreover have "i \<notin> set (freeq (semtab s))" using ok 3(3) by (auto simp: sems_ok_def)
  ultimately have "sems_ok ?s" using ok 3(2) by (auto simp: sems_ok_def sc)
  with sem_end_critical [OF 3(5)] k1 show ?thesis by simp
qed

section \<open>The table of semaphores\<close>

text \<open>\<open>sems_ok\<close> is the table invariant of \<open>obj_table\<close>, so steps of other modules keep it.\<close>

definition sem_view :: "kstate \<Rightarrow> nat \<Rightarrow> SEMCB \<times> waiter list" where
  "sem_view s i = (semcb s i, waiters s (QSem i))"

fun sem_wf :: "nat \<Rightarrow> SEMCB \<times> waiter list \<Rightarrow> bool" where
  "sem_wf i (c, ws) \<longleftrightarrow>
     (if semid c = 0 then ws = []
      else INDEX_OBJ (semid c) = i \<and> 0 \<le> semcnt c \<and> semcnt c \<le> maxsem c \<and> maxsem c \<le> INT_MAX \<and>
        (\<forall>(t, wi, d, sp, p)\<in>set ws. 0 < sem_cnt wi \<and> sem_cnt wi \<le> maxsem c \<and> d = semid c \<and>
           sp = (if sematr c AND TA_TPRI \<noteq> 0 then Wspec_sem_tpri else Wspec_sem_tfifo)) \<and>
        sem_starved (sematr c AND TA_CNT \<noteq> 0) (\<lambda>(t, wi, _). sem_cnt wi) (semcnt c) ws)"

definition sem_agree :: "kstate \<Rightarrow> kstate \<Rightarrow> bool" where
  "sem_agree s s' \<longleftrightarrow> semtab s' = semtab s"

lemma sem_starved_map: "sem_starved all f n (map g xs) \<longleftrightarrow> sem_starved all (f \<circ> g) n xs"
  by (cases xs) (auto simp: sem_starved_def)

lemma sem_starved_Nil [simp]: "sem_starved all f n []"
  by (simp add: sem_starved_def)

lemma sem_wf_inv: "sem_wf i (sem_view s i) \<longleftrightarrow> sem_inv s i"
proof (cases "semid (semcb s i) = 0")
  case True
  then show ?thesis by (auto simp: sem_view_def sem_inv_def sem_basic_def sem_blocked_def)
next
  case False
  then show ?thesis
    by (simp add: sem_view_def sem_inv_def sem_basic_def sem_blocked_def sem_waiter_def waiters_def sem_starved_map comp_def wview_def)
qed

interpretation sem_tab: obj_table sem_ops sem_view "\<lambda>v. semid (fst v)" sem_wf sem_agree "\<lambda>i. {QSem i}"
proof unfold_locales
  show "sem_agree s s' \<Longrightarrow> touches Q s s' \<Longrightarrow> {QSem i} \<inter> Q = {} \<Longrightarrow> sem_view s' i = sem_view s i" for s s' Q i
    by (simp add: sem_agree_def sem_view_def semcb_def touchesD)
qed (auto simp: sem_agree_def objs_same_def sem_ops_def sem_view_def waiters_def)

lemma sems_ok_table: "sem_tab.table_ok s \<longleftrightarrow> sems_ok s"
  unfolding sem_tab.table_ok_def sem_wf_inv
  by (simp add: sems_ok_def sem_ops_def sem_view_def)

text \<open>Steps that leave the semaphores alone.\<close>

lemma sems_ok_foreign:
  "semtab s' = semtab s \<Longrightarrow> touches Q s s' \<Longrightarrow> (\<And>i. QSem i \<notin> Q) \<Longrightarrow> sems_ok s' \<longleftrightarrow> sems_ok s"
  using sem_tab.table_ok_foreign [of s s' Q] by (simp add: sem_agree_def sems_ok_table)

end
