(* ===== verification/Core_Properties.thy ===== *)
theory Core_Properties
  imports Ring_Queue Greedy Domain_Tree Boot_State Semaphore
begin

text \<open>
  The main statements about the scheduler, the queues, waiting, domains and semaphores, each with
  a concrete run that meets its hypotheses. The proofs are in the component theories.
\<close>

section \<open>Concrete states\<close>

definition three_ready :: kstate where
  "three_ready = run_task 2 30 (run_task 1 20 (run_task 0 10 boot_state))"

lemma three_ready_kinv: "kinv three_ready"
proof -
  have k0: "kinv (run_task 0 10 boot_state)"
    by (rule run_task_kinv [OF boot_kinv]) (simp_all add: boot_state_def blank_tcb_def NUM_PRI_def)
  have q: "ques (run_task t p s) q = (if q = QReady p then ques s q @ [t] else ques s q)" for t p s q
    by (simp add: run_task_def make_ready_def ready_queue_insert_sel QueInsert_tail_def set_que_def)
  have k1: "kinv (run_task 1 20 (run_task 0 10 boot_state))"
    by (rule run_task_kinv [OF k0]) (simp_all add: q, simp_all add: run_task_def boot_state_def blank_tcb_def NUM_PRI_def)
  show ?thesis
    unfolding three_ready_def
    by (rule run_task_kinv [OF k1]) (simp_all add: q, simp_all add: run_task_def boot_state_def blank_tcb_def NUM_PRI_def)
qed

lemma three_ready_rdy: "rdy three_ready = [0, 1, 2]"
  by code_simp

lemma three_ready_wf: "rq_wf three_ready"
  using three_ready_kinv by (rule kinv_dest)

section \<open>Scheduling\<close>

text \<open>
  C1. When no ready task is bound to processors and dispatching is enabled everywhere,
  \<open>ready_queue_top\<close> returns a schedule that runs exactly the first \<open>num_proc\<close> tasks of the ready
  queue, and a chosen task that is already running on a processor stays on that processor.
\<close>

theorem top_tasks_run:
  assumes "rq_wf s" and "uniform s" and "ctx_distinct s"
  shows "\<exists>sch. ready_queue_top s = Some (sch, s\<lparr>rq_chg := False\<rparr>) \<and> length sch = num_proc s \<and>
     {t. \<exists>i<num_proc s. sch ! i = Some t} = set (take (num_proc s) (rdy s)) \<and>
     (\<forall>i<num_proc s. \<forall>t. ctxtsk s i = Some t \<and> t \<in> set (take (num_proc s) (rdy s)) \<longrightarrow> sch ! i = Some t)"
  using assms by (rule ready_queue_top_uniform)

definition moved :: kstate where
  "moved = three_ready\<lparr>ctxtsk := (\<lambda>i. if i = 0 then Some 1 else if i = 1 then Some 2 else None)\<rparr>"

theorem top_tasks_run_witness:
  "\<exists>sch. ready_queue_top moved = Some (sch, moved\<lparr>rq_chg := False\<rparr>) \<and>
     {t. \<exists>i<2. sch ! i = Some t} = {0, 1} \<and> sch ! 0 = Some 1"
proof -
  have k: "kinv moved" using three_ready_kinv by (simp add: moved_def)
  have r: "rdy moved = [0, 1, 2]" by code_simp
  have n: "num_proc moved = 2" by code_simp
  have u: "uniform moved"
    unfolding uniform_def r n by (auto simp: numeral_2_eq_2 less_Suc_eq) code_simp+
  have c: "ctx_distinct moved"
    unfolding ctx_distinct_def n by (auto simp: moved_def numeral_2_eq_2 less_Suc_eq)
  have x: "ctxtsk moved 0 = Some 1" by (simp add: moved_def)
  from top_tasks_run [OF kinv_dest(2) [OF k] u c] show ?thesis
    unfolding r n using x by (force simp: numeral_2_eq_2)
qed

text \<open>
  C4. With any bindings and any processors that do not dispatch, the retry loop of \<open>ready_queue_top\<close> ends with the greedy choice:
  going down the ready queue it takes a task if and only if there is a way to give it and all tasks taken before processors of their own, each one that
  the task may run on. The taken tasks are returned with the sets of these processors. (\<open>bound_ok\<close> is what \<open>tk_cre_tsk\<close> checks.)
\<close>

theorem scan_is_greedy:
  assumes "rq_wf s" and "ctx_distinct s" and "\<forall>t\<in>set (rdy s). bound_ok s t"
  shows "\<exists>x. rqt_scan s (make_dds_mask s) 0 (rqt_init s) = Some x \<and> se_num x = length (greedy s [] (rdy s)) \<and>
     se_tcb x = pad (num_proc s) (greedy s [] (rdy s)) \<and>
     (\<forall>i<length (greedy s [] (rdy s)). {k. bit (se_bit x ! i) k} = allowed s (greedy s [] (rdy s) ! i)) \<and>
     assignable (allowed s) (set (greedy s [] (rdy s)))"
  using assms by (rule scan_greedy)

definition bound :: kstate where
  "bound = upd_tcb 1 (\<lambda>c. c\<lparr>tskatr := TA_ASSPRC, assprc := 1\<rparr>) (upd_tcb 0 (\<lambda>c. c\<lparr>tskatr := TA_ASSPRC, assprc := 1\<rparr>) three_ready)"

text \<open>Tasks 0 and 1 are bound to the same processor: task 1 is passed over, task 2 is taken.\<close>

theorem scan_is_greedy_witness:
  "(\<exists>x. rqt_scan bound (make_dds_mask bound) 0 (rqt_init bound) = Some x \<and> se_tcb x = pad 2 (greedy bound [] [0, 1, 2])) \<and>
   pad 2 (greedy bound [] [0, 1, 2]) = [Some 0, Some 2]"
proof -
  have "kinv bound"
    unfolding bound_def by (rule kinv_tcb_upd, rule kinv_tcb_upd, rule three_ready_kinv; simp)
  then have w: "rq_wf bound" by (rule kinv_dest)
  have n: "num_proc bound = 2" and r: "rdy bound = [0, 1, 2]" by code_simp+
  have c: "ctx_distinct bound" unfolding ctx_distinct_def n by (simp add: numeral_2_eq_2 less_Suc_eq bound_def three_ready_def run_task_def boot_state_def)
  have "bound_ok bound 0" "bound_ok bound 1" "bound_ok bound 2" by code_simp+
  then have b: "\<forall>t\<in>set (rdy bound). bound_ok bound t" by (simp add: r)
  have x: "map_option se_tcb (rqt_scan bound (make_dds_mask bound) 0 (rqt_init bound)) = Some [Some 0, Some 2]" by code_simp
  show ?thesis using scan_is_greedy [OF w c b] x unfolding n r by auto
qed

text \<open>
  C6. \<open>update_schedtsk\<close>, the end of every critical section, always returns; it keeps the kernel
  invariant and changes nothing but \<open>schedtsk\<close>, the change flag, the order of tasks of equal
  priority and time slice counters.
\<close>

theorem update_schedtsk_total:
  assumes "kinv s"
  shows "\<exists>s'. update_schedtsk s = Some s' \<and> kinv s' \<and> sched_frame s s'"
  using assms by (rule update_schedtsk_kinv)

theorem update_schedtsk_total_witness:
  "\<exists>s'. update_schedtsk three_ready = Some s' \<and> kinv s' \<and> sched_frame three_ready s'"
  using update_schedtsk_total [OF three_ready_kinv] .

text \<open>
  C26. \<open>ready_queue_insert\<close> keeps the priority bitmap, the top array and the queues consistent, and the
  ready queue they stand for gets the task behind all tasks of its priority or a higher one.
\<close>

theorem ready_queue_insert_refines:
  assumes "rq_wf s" and "pri s t < NUM_PRI" and "t \<notin> set (rdy s)"
  shows "rq_wf (ready_queue_insert t s) \<and>
     rdy (ready_queue_insert t s) = insert_before (\<lambda>x. pri s x > pri s t) t (rdy s)"
  using ready_queue_insert_wf [OF assms] by blast

theorem ready_queue_insert_refines_witness:
  "rdy (ready_queue_insert 3 (upd_tcb 3 (\<lambda>c. c\<lparr>priority := 20\<rparr>) three_ready)) = [0, 1, 3, 2]"
proof -
  let ?s = "upd_tcb 3 (\<lambda>c. c\<lparr>priority := 20\<rparr>) three_ready"
  have "rq_wf ?s \<and> rdy ?s = rdy three_ready"
  proof -
    have n: "x \<in> set (rdy three_ready) \<Longrightarrow> x \<noteq> 3" for x by (auto simp: three_ready_rdy)
    have "sched_wf ?s" "rdy ?s = rdy three_ready"
      by (rule sched_wf_cong [of _ three_ready]; use kinv_dest(1) [OF three_ready_kinv] n in simp)+
    then show ?thesis by (simp add: sched_wf_def)
  qed
  then have w: "rq_wf ?s" "rdy ?s = [0, 1, 2]" by (simp_all add: three_ready_rdy)
  have "pri ?s 3 < NUM_PRI" "3 \<notin> set (rdy ?s)" using w by (simp_all add: NUM_PRI_def)
  from ready_queue_insert_refines [OF w(1) this]
  have "rdy (ready_queue_insert 3 ?s) = insert_before (\<lambda>x. pri ?s x > pri ?s 3) 3 [0, 1, 2]" by (simp add: w(2))
  moreover have "pri three_ready 0 = 10" "pri three_ready 1 = 20" "pri three_ready 2 = 30" by code_simp+
  ultimately show ?thesis by simp
qed

text \<open>
  C27. \<open>ready_queue_delete\<close> of a task that is not waiting for a kernel lock keeps the structure
  consistent and takes exactly this task out of the ready queue; the top array is refilled from
  the queues behind it.
\<close>

theorem ready_queue_delete_refines:
  assumes "rq_wf s" and "\<not> klockwait (tcbs s t)" and "t \<in> set (rdy s)"
  shows "rq_wf (ready_queue_delete t s) \<and> rdy (ready_queue_delete t s) = remove1 t (rdy s)"
  using ready_queue_delete_wf [OF assms] by blast

theorem ready_queue_delete_refines_witness:
  "rdy (ready_queue_delete 0 three_ready) = [1, 2] \<and> rq_wf (ready_queue_delete 0 three_ready)"
proof -
  have "\<not> klockwait (tcbs three_ready 0)" by code_simp
  with ready_queue_delete_refines [OF three_ready_wf, of 0] show ?thesis by (simp add: three_ready_rdy)
qed

text \<open>
  C28. \<open>ready_queue_rotate\<close> moves the first task of a priority behind the other tasks of that priority,
  does nothing if there is none, and keeps the structure consistent.
\<close>

theorem ready_queue_rotate_refines:
  assumes "rq_wf s" and "p < NUM_PRI"
  shows "rq_wf (ready_queue_rotate p s) \<and>
     rdy (ready_queue_rotate p s) = (case ques s (QReady p) of [] \<Rightarrow> rdy s | t # ts \<Rightarrow> to_back s t)"
  using ready_queue_rotate_wf [OF assms] by blast

theorem ready_queue_rotate_refines_witness:
  "rq_wf (ready_queue_rotate 10 three_ready) \<and> rdy (ready_queue_rotate 10 three_ready) = [0, 1, 2]"
proof -
  have "(10 :: nat) < NUM_PRI" by (simp add: NUM_PRI_def)
  moreover have "ques three_ready (QReady 10) = [0]" "to_back three_ready 0 = [0, 1, 2]" by code_simp+
  ultimately show ?thesis using ready_queue_rotate_refines [OF three_ready_wf] by simp
qed

text \<open>C39. The bitmap search finds the first set bit at or after the offset, and -1 if there is none.\<close>

theorem bitsearch1_finds_first:
  assumes "off + w \<le> 8 * length base"
  shows "tstdlib_bitsearch1 base (int off) (int w) = Some (first_bit True base off w)"
  using assms by (rule bitsearch1_first)

theorem bitsearch1_finds_first_witness:
  "tstdlib_bitsearch1 [0, 8] (int 0) (int 16) = Some 11"
proof -
  have "first_bit True [0, 8] 0 16 = 11" by code_simp
  then show ?thesis using bitsearch1_finds_first [of 0 16 "[0, 8]"] by simp
qed

text \<open>
  C40. The search loop of an ordered insertion followed by \<open>QueInsert\<close>, on the pointer rings of
  \<^verbatim>\<open>queue.h\<close>, ends and inserts before the first entry with the property; all other rings of
  the store stay.
\<close>

theorem ring_ordered_insert:
  assumes "store h H Q" and "q \<in> H" and "e \<notin> in_store H Q"
  shows "\<exists>y. que_find h P q (nxt h q) = Some y \<and> store (QueInsert e y h) H (Q(q := insert_before P e (Q q)))"
  using assms by (rule store_find_insert)

definition small_heap :: "nat heap" where
  "small_heap = QueInit 0 \<lparr>nxt = (\<lambda>x. x), prv = (\<lambda>x. x)\<rparr>"

theorem ring_ordered_insert_witness:
  "\<exists>y. que_find small_heap (\<lambda>x. x > 5) 0 (nxt small_heap 0) = Some y \<and>
     store (QueInsert 3 y small_heap) {0} ((\<lambda>_. [])(0 := [3]))"
proof -
  have "store small_heap {0} (\<lambda>_. [])" by (simp add: small_heap_def store_def ring_empty QueInit_def)
  from ring_ordered_insert [OF this, of 0 3 "\<lambda>x. x > 5"] show ?thesis by (simp add: in_store_def)
qed

section \<open>Time and waiting\<close>

text \<open>
  C34. \<open>timer_insert\<close> sets the time of the event to the clock plus the full time-out plus one period, computed without wrap-around, and puts the
  event into the timer queue, behind all events that are due at that time or before and in front of all later ones, so that the queue stays
  sorted; the other events and their order stay as they are. With \<open>TMO_FEVR\<close> the event is not queued.
\<close>

theorem timer_insert_sorted:
  assumes "timer_wf s" and "e \<notin> set (timer_queue s)" and "0 \<le> tmout" and "tmout \<le> INT_MAX"
    and "0 \<le> sint (current_time s)" and "sint (current_time s) < 2 ^ 61"
  shows "timer_wf (timer_insert e tmout cb s) \<and>
     (\<exists>ys zs. timer_queue s = ys @ zs \<and> timer_queue (timer_insert e tmout cb s) = ys @ e # zs \<and>
        (\<forall>x\<in>set ys. sint (etime s x) \<le> sint (current_time s) + tmout + uint (timer_period s)) \<and>
        (\<forall>x\<in>set zs. sint (current_time s) + tmout + uint (timer_period s) < sint (etime s x))) \<and>
     sint (etime (timer_insert e tmout cb s) e) = sint (current_time s) + tmout + uint (timer_period s) \<and>
     tm_callback (tmeb_at (timer_insert e tmout cb s) e) = cb \<and>
     (\<forall>x. x \<noteq> e \<longrightarrow> tmeb_at (timer_insert e tmout cb s) x = tmeb_at s x) \<and>
     timer_queue (timer_insert e TMO_FEVR cb s) = timer_queue s"
proof -
  have "timer_queue (timer_insert e TMO_FEVR cb s) = timer_queue s" by (simp add: timer_insert_def Let_def)
  then show ?thesis using timer_insert_wf [OF assms(1,2) _ assms(4-6)] timer_insert_place [OF assms] assms(3) by simp
qed

text \<open>Between two events at the times 300 and 700, with the clock at 0 and a period of 10.\<close>

definition two_events :: kstate where
  "two_events = timer_insert_abs (TmCyc 1) 700 None (timer_insert_abs (TmCyc 0) 300 None boot_state)"

theorem timer_insert_sorted_witness:
  "timer_wf (timer_insert (TmTsk 1) 500 None two_events) \<and> sint (etime (timer_insert (TmTsk 1) 500 None two_events) (TmTsk 1)) = 510 \<and>
   timer_queue (timer_insert (TmTsk 1) 500 None two_events) = [TmCyc 0, TmTsk 1, TmCyc 1]"
proof -
  have q: "timer_queue two_events = [TmCyc 0, TmCyc 1]" "sint (etime two_events (TmCyc 0)) = 300" "sint (etime two_events (TmCyc 1)) = 700"
    "sint (current_time two_events) = 0" "uint (timer_period two_events) = 10"
    "timer_queue (timer_insert (TmTsk 1) 500 None two_events) = [TmCyc 0, TmTsk 1, TmCyc 1]"
    by code_simp+
  have w: "timer_wf two_events" using q(2,3) by (simp add: timer_wf_def q(1) time_ok_def)
  show ?thesis using timer_insert_sorted [OF w, of "TmTsk 1" 500 None] q(6) by (simp add: q(1,4,5) INT_MAX_def)
qed

text \<open>
  C7. \<open>gcb_make_wait\<close> puts the running task into the wait state and into the object's queue, behind
  the tasks of its priority or a higher one with \<open>TA_TPRI\<close> and at the end otherwise, takes it out of
  the ready queue, and leaves the other queues, tasks and objects alone.
\<close>

theorem wait_for_object:
  assumes "kinv s" and "ctxtsk s prid = Some t" and "t \<in> set (rdy s)" and "wait_head (wait_queue gcb)"
  shows "\<exists>s'. gcb_make_wait prid gcb tmout s = Some s' \<and> kinv s' \<and> set (rdy s') = set (rdy s) - {t} \<and>
     (\<forall>q. \<not> ready_head q \<and> q \<noteq> wait_queue gcb \<longrightarrow> ques s' q = ques s q) \<and>
     ques s' (wait_queue gcb) =
       (if objatr gcb AND TA_TPRI \<noteq> 0 then insert_before (\<lambda>x. pri s x > pri s t) t (ques s (wait_queue gcb))
        else ques s (wait_queue gcb) @ [t]) \<and>
     task_frame t s s' \<and> state (tcbs s' t) = TS_WAIT \<and> wid (tcbs s' t) = objid gcb"
  using assms by (rule gcb_make_wait_ok)

lemma running_rdy: "rdy running_state = [0, 1]"
  by code_simp

theorem wait_for_object_witness:
  "\<exists>s'. gcb_make_wait 0 (sem_gcb running_state 0) 100 running_state = Some s' \<and> kinv s' \<and>
     ques s' (QSem 0) = [0] \<and> state (tcbs s' 0) = TS_WAIT"
proof -
  have w: "wait_queue (sem_gcb running_state 0) = QSem 0" by (simp add: sem_gcb_def)
  have "ques running_state (QSem 0) = []" by code_simp
  then show ?thesis
    using wait_for_object [OF running_kinv, of 0 0 "sem_gcb running_state 0" 100] running_ctx
    by (auto simp: running_rdy w)
qed

text \<open>
  C8. Deleting an object releases every task that waits for it: \<open>wait_delete\<close> ends with the queue
  empty, each task of it has \<open>E_DLT\<close> as its result and is ready, or suspended if it was in the
  waiting-suspended state, and all other tasks, queues and objects are as before.
\<close>

theorem wait_delete_releases:
  assumes "kinv s" and "wait_head q"
  shows "\<exists>s'. wait_delete q s = Some s' \<and> kinv s' \<and> ques s' q = [] \<and>
     (\<forall>q'. \<not> ready_head q' \<and> q' \<noteq> q \<longrightarrow> ques s' q' = ques s q') \<and> objs_same s s' \<and>
     (\<forall>t\<in>set (ques s q). released E_DLT (tcbs s t) (tcbs s' t)) \<and> (\<forall>x. x \<notin> set (ques s q) \<longrightarrow> tcbs s' x = tcbs s x) \<and>
     set (rdy s') = set (rdy s) \<union> {t \<in> set (ques s q). state (tcbs s t) = TS_WAIT}"
  using wait_delete_ok [OF assms refl] .

theorem wait_delete_releases_witness:
  "\<exists>s'. wait_delete (QSem 0) running_state = Some s' \<and> kinv s' \<and> ques s' (QSem 0) = []"
  using wait_delete_releases [OF running_kinv, of "QSem 0"] by auto

section \<open>Domains\<close>

text \<open>
  A name registered in a domain is found again: the search returns the table entry of the
  object if no other object of the type has the name in that domain.
\<close>

theorem register_then_search:
  assumes "i < length (hashcb s ty)" and "fst (calc_hash oname) \<noteq> 0" and "name_eq (onames i) oname"
    and "search_hashcb (set_key ty i 0 s) ty onames did oname < 0"
  shows "search_hashcb (mp_register_object_in_domain did ty i oname s) ty onames did oname = int i"
  using assms by (rule register_search)

theorem register_then_search_witness:
  "search_hashcb (mp_register_object_in_domain 0 OT_SEM 2 [65, 66] boot_state) OT_SEM (\<lambda>i. [65, 66]) 0 [65, 66] = int 2"
proof -
  have "2 < length (hashcb boot_state OT_SEM)" "fst (calc_hash [65, 66]) \<noteq> 0" "name_eq ((\<lambda>i. [65, 66]) (2 :: nat)) [65, 66]"
    "search_hashcb (set_key OT_SEM 2 0 boot_state) OT_SEM (\<lambda>i. [65, 66]) 0 [65, 66] < 0"
    by code_simp+
  then show ?thesis by (rule register_then_search)
qed

definition dom_packet :: "ATR \<Rightarrow> ID \<Rightarrow> T_CDOM" where
  "dom_packet atr d = \<lparr>cdom_exinf = 0, cdom_domatr = atr, cdom_domid = d, cdom_oname = []\<rparr>"

text \<open>
  C37. The domains stay a tree under \<open>tk_cre_dom\<close> and \<open>tk_del_dom\<close> (for identifiers other than those of the kernel domain, and as long as no count of
  objects overflows). In a tree the check of a call with an identifier always returns: it is \<open>E_NOEXS\<close> for an identifier with the wrong domain; \<open>E_OK\<close> if the object is
  public, the caller needs no permission, the domain of the object is that of the calling task, or the object is
  protected and its domain is one above that of the calling task; and \<open>E_DACV\<close> otherwise.
\<close>

theorem protection_check_returns:
  assumes "dom_tree s"
  shows "((\<forall>i. unat (objcnt (cbs (domtab s) i)) < 2 ^ 32 - 1) \<longrightarrow> dom_tree (snd (tk_cre_dom pk s))) \<and>
     (INDEX_DOM did \<noteq> 0 \<longrightarrow> dom_tree (snd (tk_del_dom did s))) \<and>
     (ctxtsk s prid = Some t \<and> dom_live s (dom_part (tskid (tcbs s t))) \<longrightarrow>
      mp_check_domain_and_protection prid s argid oid oatr = Some
        (if \<not> MP_CMP_DOMIDPART argid oid then E_NOEXS
         else if check_exception_condition prid s oatr \<or> mp_get_domid_from_id s (tskid (tcbs s t)) = mp_get_domid_from_id s oid \<or>
           MP_GET_PATR oatr = TA_PROTECTED \<and> (\<exists>n. domain_walk s (tskid (tcbs s t)) n = mp_get_domid_from_id s oid) then E_OK
         else E_DACV))"
proof (intro conjI impI)
  show "dom_tree (snd (tk_cre_dom pk s))" if "\<forall>i. unat (objcnt (cbs (domtab s) i)) < 2 ^ 32 - 1"
    using cre_dom_tree [OF assms] that by blast
  show "dom_tree (snd (tk_del_dom did s))" if "INDEX_DOM did \<noteq> 0" using that by (rule del_dom_tree [OF assms])
  assume c: "ctxtsk s prid = Some t \<and> dom_live s (dom_part (tskid (tcbs s t)))"
  let ?i = "tskid (tcbs s t)" let ?d = "mp_get_domid_from_id s oid"
  have "trace_domain_for_pchk s ?d oatr ?i =
      Some (mp_get_domid_from_id s ?i = ?d \<or> MP_GET_PATR oatr = TA_PROTECTED \<and> (\<exists>n. domain_walk s ?i n = ?d))"
  proof (cases "MP_GET_PATR oatr = TA_PROTECTED")
    case True
    have "mp_get_domid_from_id s ?i = ?d \<Longrightarrow> \<exists>n. domain_walk s ?i n = ?d" by (intro exI [of _ 0]) simp
    then show ?thesis using trace_tree [OF assms, of ?i ?d] c True by (auto simp: trace_domain_for_pchk_def)
  next
    case False
    then show ?thesis by (simp add: trace_domain_for_pchk_def trace_private)
  qed
  then show "mp_check_domain_and_protection prid s argid oid oatr = Some
        (if \<not> MP_CMP_DOMIDPART argid oid then E_NOEXS
         else if check_exception_condition prid s oatr \<or> mp_get_domid_from_id s ?i = ?d \<or>
           MP_GET_PATR oatr = TA_PROTECTED \<and> (\<exists>n. domain_walk s ?i n = ?d) then E_OK
         else E_DACV)"
    using c by (simp add: mp_check_domain_and_protection_def mp_get_calinf_tskid_def)
qed

text \<open>
  Domain A in slot 1, B in A in slot 2, A deleted by force, a domain in slot 3, and then a domain in
  B, which gets slot 1 again.
\<close>

definition dom_a :: ID where "dom_a = ID_DOM 1"
definition dom_b :: ID where "dom_b = MP_GEN_DOMIDPART dom_a OR ID_DOM 2"
definition dom_x :: ID where "dom_x = ID_DOM 3"
definition dom_c :: ID where "dom_c = MP_GEN_DOMIDPART dom_b OR ID_DOM 1"

definition cyclic_state :: kstate where
  "cyclic_state =
    (let s = snd (tk_cre_dom (dom_packet 0 0) boot_state);
         s = snd (tk_cre_dom (dom_packet TA_DOMID dom_a) s);
         s = snd (tk_fdel_dom dom_a s);
         s = snd (tk_cre_dom (dom_packet 0 0) s)
     in snd (tk_cre_dom (dom_packet TA_DOMID dom_b) s))"

lemma cyclic_parents:
  "mp_get_domid_from_id cyclic_state dom_b = dom_c" "mp_get_domid_from_id cyclic_state dom_c = dom_b"
  by code_simp+

text \<open>
  C36. After \<open>tk_fdel_dom\<close> of a domain that has a child, the slot can be used again for a descendant
  of that child; the domains then form a cycle, and the protection check of a task in one of them
  against a protected object of another domain never returns.
\<close>

theorem forced_delete_cycle:
  "fst (tk_fdel_dom dom_a (snd (tk_cre_dom (dom_packet TA_DOMID dom_a) (snd (tk_cre_dom (dom_packet 0 0) boot_state))))) = E_OK \<and>
   trace_domain cyclic_state TA_PROTECTED dom_x dom_c = None"
proof
  show "fst (tk_fdel_dom dom_a (snd (tk_cre_dom (dom_packet TA_DOMID dom_a) (snd (tk_cre_dom (dom_packet 0 0) boot_state))))) = E_OK"
    by code_simp
  have w: "domain_walk cyclic_state dom_c n \<in> {dom_b, dom_c}" for n
    by (induction n) (auto simp: cyclic_parents)
  have "dom_x \<notin> {dom_b, dom_c}" "MP_KDMID_SELF \<notin> {dom_b, dom_c}" by code_simp+
  then have "domain_walk cyclic_state dom_c n \<noteq> dom_x \<and> domain_walk cyclic_state dom_c n \<noteq> MP_KDMID_SELF" for n
    using w [of n] by metis
  then have "\<not> (\<exists>b. trace_domain cyclic_state TA_PROTECTED dom_x dom_c = Some b)"
    by (simp add: trace_protected_returns)
  then show "trace_domain cyclic_state TA_PROTECTED dom_x dom_c = None" by simp
qed

text \<open>
  Bits 28 to 31 of an identifier are not checked, and \<open>tk_fdel_dom\<close> knows the kernel domain only by its full identifier: with one of these bits set it deletes
  the kernel domain.
\<close>

theorem kernel_domain_deleted:
  "fst (tk_fdel_dom 0x11000000 boot_state) = E_OK \<and> domid_of (snd (tk_fdel_dom 0x11000000 boot_state)) 0 = 0 \<and>
   fst (tk_fdel_dom 0x01000000 boot_state) = E_OBJ"
  by code_simp

text \<open>Task 0, moved to a new domain A, may use a protected object of the kernel domain; task 1 in the kernel domain may not use one of A.\<close>

definition in_domain :: kstate where
  "in_domain = upd_tcb 0 (\<lambda>c. c\<lparr>tskid := MP_GEN_DOMIDPART dom_a OR ID_OBJ 0, tskatr := TA_RNG3\<rparr>)
     (upd_tcb 1 (\<lambda>c. c\<lparr>tskid := ID_OBJ 1, tskatr := TA_RNG3\<rparr>) ((snd (tk_cre_dom (dom_packet 0 0) boot_state))\<lparr>ctxtsk := Some\<rparr>))"

lemma boot_tree: "dom_tree boot_state"
proof -
  have d: "domid_of boot_state i = (if i = 0 then MP_KDMID_SELF else 0)" for i
    by (simp add: domid_of_def boot_state_def init_dom_cbs_def MP_KDMID_SELF_def)
  then have l: "dom_live boot_state i \<longleftrightarrow> i = 0" for i using kdm_self(3) by (simp add: dom_live_def)
  then have "dom_children boot_state i = {}" for i by (auto simp: dom_children_def)
  moreover have "freeq (domtab boot_state) = [1, 2, 3]" "maxid (domtab boot_state) = 3" by (simp_all add: boot_state_def)
  ultimately show ?thesis by (simp add: dom_tree_def l d)
qed

theorem protection_check_returns_witness:
  "dom_tree in_domain \<and> (\<exists>n. domain_walk in_domain (tskid (tcbs in_domain 0)) n = MP_KDMID_SELF) \<and>
   mp_check_domain_and_protection 0 in_domain (ID_OBJ 5) (ID_OBJ 5) TA_PROTECTED = Some E_OK \<and>
   mp_check_domain_and_protection 1 in_domain (MP_GEN_DOMIDPART dom_a OR ID_OBJ 5) (MP_GEN_DOMIDPART dom_a OR ID_OBJ 5) TA_PROTECTED = Some E_DACV"
proof -
  have "\<forall>i. unat (objcnt (cbs (domtab boot_state) i)) < 2 ^ 32 - 1" by (simp add: boot_state_def init_dom_cbs_def)
  then have "dom_tree (snd (tk_cre_dom (dom_packet 0 0) boot_state))"
    using protection_check_returns [OF boot_tree, of "dom_packet 0 0"] by blast
  then have t: "dom_tree in_domain" using dom_tree_cong [of in_domain "snd (tk_cre_dom (dom_packet 0 0) boot_state)"] by (simp add: in_domain_def)
  have r: "mp_check_domain_and_protection 0 in_domain (ID_OBJ 5) (ID_OBJ 5) TA_PROTECTED = Some E_OK"
    "mp_check_domain_and_protection 1 in_domain (MP_GEN_DOMIDPART dom_a OR ID_OBJ 5) (MP_GEN_DOMIDPART dom_a OR ID_OBJ 5) TA_PROTECTED = Some E_DACV"
    by code_simp+
  have f: "ctxtsk in_domain 0 = Some 0" "dom_live in_domain (dom_part (tskid (tcbs in_domain 0)))" "MP_CMP_DOMIDPART (ID_OBJ 5) (ID_OBJ 5)"
    "\<not> check_exception_condition 0 in_domain TA_PROTECTED" "mp_get_domid_from_id in_domain (ID_OBJ 5) = MP_KDMID_SELF"
    "mp_get_domid_from_id in_domain (tskid (tcbs in_domain 0)) \<noteq> MP_KDMID_SELF" "E_DACV \<noteq> E_OK"
    by code_simp+
  have "mp_check_domain_and_protection 0 in_domain (ID_OBJ 5) (ID_OBJ 5) TA_PROTECTED = Some
      (if MP_GET_PATR TA_PROTECTED = TA_PROTECTED \<and> (\<exists>n. domain_walk in_domain (tskid (tcbs in_domain 0)) n = MP_KDMID_SELF) then E_OK else E_DACV)"
    using protection_check_returns [OF t, of _ _ 0 0 "ID_OBJ 5" "ID_OBJ 5" TA_PROTECTED] f by simp
  then have "\<exists>n. domain_walk in_domain (tskid (tcbs in_domain 0)) n = MP_KDMID_SELF" using r(1) f(7) by (auto split: if_splits)
  then show ?thesis using t r by blast
qed

section \<open>Semaphores\<close>

lemma running_frame:
  "semtab running_state = semtab boot_state" "\<And>q. \<not> ready_head q \<Longrightarrow> ques running_state q = []"
proof -
  let ?s = "run_task 1 20 (run_task 0 10 boot_state)"
  have q: "ques (run_task t p s) q = (if q = QReady p then ques s q @ [t] else ques s q)" for t p s q
    by (simp add: run_task_def make_ready_def ready_queue_insert_sel QueInsert_tail_def set_que_def)
  have k0: "kinv (run_task 0 10 boot_state)"
    by (rule run_task_kinv [OF boot_kinv]) (simp_all add: boot_state_def blank_tcb_def NUM_PRI_def)
  have k1: "kinv ?s"
    by (rule run_task_kinv [OF k0]) (simp_all add: q, simp_all add: run_task_def boot_state_def blank_tcb_def NUM_PRI_def)
  have p: "semtab ?s = semtab boot_state" by (simp add: run_task_def)
  from update_schedtsk_kinv [OF k1] obtain s' where u: "update_schedtsk ?s = Some s'" "sched_frame ?s s'" by blast
  show "semtab running_state = semtab boot_state"
    using u p by (simp add: running_state_def dispatch_on_def sched_frame_sel)
  show "ques running_state q = []" if "\<not> ready_head q" for q
    using u that sched_frame_ques [OF u(2) that] q [of 1 20] q [of 0 10]
    by (auto simp: running_state_def dispatch_on_def ready_head_def NUM_PRI_def boot_state_def)
qed

lemma running_sems_ok: "sems_ok running_state"
  by (simp add: sems_ok_def sem_inv_def sem_basic_def sem_blocked_def sem_starved_def semcb_def running_frame)
    (simp add: boot_state_def)

definition sem_packet :: T_CSEM where
  "sem_packet = \<lparr>csem_exinf = 0, csem_sematr = TA_TPRI, csem_isemcnt = 1, csem_maxsem = 5, csem_domid = 0, csem_oname = []\<rparr>"

definition sem_state :: kstate where
  "sem_state = snd (the (tk_cre_sem 0 sem_packet running_state))"

lemma sem_created: "map_option fst (tk_cre_sem 0 sem_packet running_state) = Some (sint (ID_OBJ 0))"
  by code_simp

lemma sem_state_ok: "kinv sem_state" "sems_ok sem_state"
proof -
  obtain e where e: "tk_cre_sem 0 sem_packet running_state = Some (e, sem_state)"
    using sem_created by (auto simp: sem_state_def)
  have m: "csem_maxsem sem_packet \<le> INT_MAX" by (simp add: sem_packet_def INT_MAX_def)
  from tk_cre_sem_inv [OF running_kinv running_sems_ok m e] show "kinv sem_state" "sems_ok sem_state" by auto
qed

text \<open>
  C3. \<open>tk_sig_sem\<close> on an accessible semaphore that has room for the count returns \<open>E_OK\<close>: the count
  goes up, exactly the tasks that \<open>sem_served\<close> names are released with \<open>E_OK\<close> and their requests
  subtracted (in queue order, and past a task that asks for too much only with \<open>TA_CNT\<close>), and
  afterwards the count is in range and no task waits for resources that are there.
\<close>

theorem sig_sem_serves:
  assumes "kinv s" and "sems_ok s" and "guards [CHECK_SEMID s sid, CHECK_PAR (cnt > 0)] = None"
    and "i = INDEX_OBJ sid" and "semid (semcb s i) \<noteq> 0"
    and "mp_check_domain_and_protection prid s sid (semid (semcb s i)) (sematr (semcb s i)) = Some E_OK"
    and "cnt \<le> maxsem (semcb s i) - semcnt (semcb s i)"
  shows "\<exists>s1 s'. tk_sig_sem prid sid cnt s = Some (E_OK, s') \<and>
     sem_outcome i (sem_served (sematr (semcb s i) AND TA_CNT \<noteq> 0) (req s) (semcnt (semcb s i) + cnt) (ques s (QSem i)))
       (upd_sem i (\<lambda>c. c\<lparr>semcnt := semcnt c + cnt\<rparr>) s) s1 \<and>
     sched_frame s1 s' \<and> kinv s' \<and> sems_ok s'"
  using assms by (rule tk_sig_sem_ok)

theorem sig_sem_serves_witness:
  "\<exists>s'. tk_sig_sem 0 (ID_OBJ 0) 3 sem_state = Some (E_OK, s') \<and> kinv s' \<and> sems_ok s'"
proof -
  have "guards [CHECK_SEMID sem_state (ID_OBJ 0), CHECK_PAR ((3 :: int) > 0)] = None" "INDEX_OBJ (ID_OBJ 0) = 0"
    "semid (semcb sem_state 0) \<noteq> 0" "3 \<le> maxsem (semcb sem_state 0) - semcnt (semcb sem_state 0)"
    "mp_check_domain_and_protection 0 sem_state (ID_OBJ 0) (semid (semcb sem_state 0)) (sematr (semcb sem_state 0)) = Some E_OK"
    by code_simp+
  then show ?thesis using sig_sem_serves [OF sem_state_ok, of "ID_OBJ 0" 3 0 0] by auto
qed

text \<open>
  C25. \<open>tk_wai_sem\<close>, in every branch, keeps the kernel invariant and the semaphore invariant: the
  count stays between 0 and its maximum and no task is left waiting that could be served.
\<close>

theorem wai_sem_invariant:
  assumes "kinv s" and "sems_ok s" and "ctx_ready prid s" and "tk_wai_sem prid sid cnt tmout s = Some (e, s')"
  shows "kinv s' \<and> sems_ok s'"
  using assms by (rule tk_wai_sem_inv)

theorem wai_sem_invariant_witness:
  "\<exists>s'. tk_wai_sem 0 (ID_OBJ 0) 2 100 sem_state = Some (E_TMOUT, s') \<and> kinv s' \<and> sems_ok s'"
proof -
  have "ctxtsk sem_state 0 = Some 0" "rdy sem_state = [0, 1]" by code_simp+
  then have c: "ctx_ready 0 sem_state" by (simp add: ctx_ready_def)
  have "map_option fst (tk_wai_sem 0 (ID_OBJ 0) 2 100 sem_state) = Some E_TMOUT" by code_simp
  then obtain s' where "tk_wai_sem 0 (ID_OBJ 0) 2 100 sem_state = Some (E_TMOUT, s')" by auto
  with wai_sem_invariant [OF sem_state_ok c this] show ?thesis by blast
qed

text \<open>
  Creating a semaphore, in every branch, keeps the kernel invariant and the semaphore invariant.
\<close>

theorem cre_sem_correct:
  assumes "kinv s" and "sems_ok s" and "csem_maxsem pk \<le> INT_MAX" and "tk_cre_sem prid pk s = Some (e, s')"
  shows "kinv s' \<and> sems_ok s'"
  using assms by (rule tk_cre_sem_inv)

theorem cre_sem_correct_witness:
  "\<exists>e s'. tk_cre_sem 0 sem_packet running_state = Some (e, s') \<and> kinv s' \<and> sems_ok s'"
proof -
  obtain e s' where e: "tk_cre_sem 0 sem_packet running_state = Some (e, s')" using sem_created by auto
  have m: "csem_maxsem sem_packet \<le> INT_MAX" by (simp add: sem_packet_def INT_MAX_def)
  from cre_sem_correct [OF running_kinv running_sems_ok m e] e show ?thesis by blast
qed

text \<open>
  Deleting a semaphore, in every branch, keeps both invariants: the control block goes back to
  the free queue only with an empty wait queue.
\<close>

theorem del_sem_invariant:
  assumes "kinv s" and "sems_ok s" and "tk_del_sem prid sid s = Some (e, s')"
  shows "kinv s' \<and> sems_ok s'"
  using assms by (rule tk_del_sem_inv)

theorem del_sem_invariant_witness:
  "\<exists>s'. tk_del_sem 0 (ID_OBJ 0) sem_state = Some (E_OK, s') \<and> kinv s' \<and> sems_ok s'"
proof -
  have "map_option fst (tk_del_sem 0 (ID_OBJ 0) sem_state) = Some E_OK" by code_simp
  then obtain s' where "tk_del_sem 0 (ID_OBJ 0) sem_state = Some (E_OK, s')" by auto
  with del_sem_invariant [OF sem_state_ok this] show ?thesis by blast
qed

end
