(* ===== verification/Message_Base.thy ===== *)
theory Message_Base
  imports Object_Base
begin

text \<open>
  What message buffers and rendezvous ports share: copying of messages, objects with two wait queues,
  and waiting in a queue that is always in the order of arrival.
\<close>

section \<open>Bytes\<close>

definition memcpy :: "UW \<Rightarrow> UW \<Rightarrow> nat \<Rightarrow> (UW \<Rightarrow> UB) \<Rightarrow> UW \<Rightarrow> UB" where
  "memcpy d a n m = (\<lambda>x. if unat (x - d) < n then m (a + (x - d)) else m x)"

definition read_bytes :: "(UW \<Rightarrow> UB) \<Rightarrow> UW \<Rightarrow> nat \<Rightarrow> UB list" where
  "read_bytes m a n = map (\<lambda>k. m (a + of_nat k)) [0..<n]"

definition write_bytes :: "UW \<Rightarrow> UB list \<Rightarrow> (UW \<Rightarrow> UB) \<Rightarrow> UW \<Rightarrow> UB" where
  "write_bytes d bs m = (\<lambda>x. if unat (x - d) < length bs then bs ! unat (x - d) else m x)"

definition upd_bmem :: "((UW \<Rightarrow> UB) \<Rightarrow> UW \<Rightarrow> UB) \<Rightarrow> kstate \<Rightarrow> kstate" where
  "upd_bmem f s = s\<lparr>ko := (ko s)\<lparr>bmem := f (bmem (ko s))\<rparr>\<rparr>"

lemma length_read_bytes [simp]: "length (read_bytes m a n) = n"
  by (simp add: read_bytes_def)

lemma memcpy_write: "memcpy d a n m = write_bytes d (read_bytes m a n) m"
  by (auto simp: memcpy_def write_bytes_def read_bytes_def fun_eq_iff)

lemma read_write_bytes:
  assumes "length bs < 2 ^ 32"
  shows "read_bytes (write_bytes d bs m) d (length bs) = bs"
proof (rule nth_equalityI)
  fix k assume "k < length (read_bytes (write_bytes d bs m) d (length bs))"
  then have k: "k < length bs" by simp
  have "unat (of_nat k :: UW) = k" using k assms by (simp add: unat_of_nat)
  then show "read_bytes (write_bytes d bs m) d (length bs) ! k = bs ! k"
    using k by (simp add: read_bytes_def write_bytes_def)
qed simp

text \<open>A message arrives as it was sent.\<close>

lemma memcpy_read: "n < 2 ^ 32 \<Longrightarrow> read_bytes (memcpy d a n m) d n = read_bytes m a n"
  using read_write_bytes [of "read_bytes m a n" d m] by (simp add: memcpy_write)

lemma upd_bmem_sel [simp]:
  "tcbs (upd_bmem f s) = tcbs s" "ques (upd_bmem f s) = ques s" "kinv (upd_bmem f s) \<longleftrightarrow> kinv s" "waiters (upd_bmem f s) = waiters s"
  "umem (upd_bmem f s) = umem s" "ctxtsk (upd_bmem f s) = ctxtsk s" "rdy (upd_bmem f s) = rdy s" "bmem (ko (upd_bmem f s)) = f (bmem (ko s))"
  "mbftab (ko (upd_bmem f s)) = mbftab (ko s)" "mpftab (ko (upd_bmem f s)) = mpftab (ko s)" "mpltab (ko (upd_bmem f s)) = mpltab (ko s)"
  "portab (ko (upd_bmem f s)) = portab (ko s)" "mtxtab (upd_bmem f s) = mtxtab s" "num_proc (upd_bmem f s) = num_proc s"
  "max_tskid (upd_bmem f s) = max_tskid s"
  by (simp_all add: upd_bmem_def waiters_def fun_eq_iff rdy_def)

section \<open>Waiting in the order of arrival\<close>

text \<open>
  \<open>tk_rcv_mbf\<close> and \<open>tk_acp_por\<close> wait in the second queue of the object, without \<open>gcb_make_wait\<close>: \<open>d\<close> is
  the identifier the caller gave, \<open>atr\<close> the object's attribute.
\<close>

definition wait_tail :: "nat \<Rightarrow> qhead \<Rightarrow> ID \<Rightarrow> ATR \<Rightarrow> wspec_ref \<Rightarrow> WINFO \<Rightarrow> TMO \<Rightarrow> kstate \<Rightarrow> (ER \<times> kstate) option" where
  "wait_tail prid q d atr w wi tmout s =
    (if tmout = TMO_POL then end_critical E_TMOUT s
     else do {
       t \<leftarrow> ctxtsk s prid;
       s \<leftarrow> make_wait prid tmout atr (upd_tcb t (\<lambda>c. c\<lparr>wspec := w, wid := d, wercd := E_TMOUT, winfo := wi\<rparr>) s);
       let s = QueInsert_tail t q s;
       end_critical (wercd (tcbs s t)) s
     })"

lemma tcb_wait_order: "(c::tcb)\<lparr>wspec := w, winfo := wi, wercd := e, wid := d\<rparr> = c\<lparr>wspec := w, wid := d, wercd := e, winfo := wi\<rparr>"
  by (rule tcb.equality) simp_all

lemma wait_tail_cases:
  assumes k: "kinv s" and c: "ctxtsk s prid = Some t" and t: "t \<in> set (rdy s)" and h: "wait_head q"
    and r: "wait_tail prid q d atr w wi tmout s = Some (e, s')"
  obtains (turned_away) "e = E_TMOUT" "kinv s'" "objs_same s s'" "touches {} s s'"
  | (waiting) "e = E_TMOUT" "kinv s'" "objs_same s s'" "touches {q} s s'" "state (tcbs s' t) = TS_WAIT"
      "waiters s' q = waiters s q @ [(t, wi, d, w, pri s t)]"
proof (cases "tmout = TMO_POL")
  case True
  with r have e: "end_critical E_TMOUT s = Some (e, s')" by (simp add: wait_tail_def)
  from end_critical_result [OF e k] have s': "e = E_TMOUT" "kinv s'" "sched_frame s s'" by simp_all
  then show thesis by (intro that(1)) (auto intro: objs_same_sched touches_sched)
next
  case False
  let ?g = "\<lparr>wait_queue = q, objid = d, objatr = atr AND NOT TA_TPRI\<rparr>"
  have m: "make_wait prid tmout (atr AND NOT TA_TPRI) = make_wait prid tmout atr"
  proof -
    have "(atr AND NOT TA_TPRI) AND TA_NODISWAI = atr AND TA_NODISWAI"
    proof -
      have "NOT TA_TPRI AND TA_NODISWAI = TA_NODISWAI" by (simp add: TA_TPRI_def TA_NODISWAI_def)
      then show ?thesis by (simp only: and.assoc)
    qed
    then show ?thesis by (simp add: make_wait_def set_nodiswai_def fun_eq_iff)
  qed
  have z: "(atr AND NOT TA_TPRI) AND TA_TPRI = 0" by (simp add: and.assoc)
  have u: "upd_tcb t (\<lambda>c. c\<lparr>wid := d\<rparr>) (upd_tcb t (\<lambda>c. c\<lparr>wspec := w, winfo := wi, wercd := E_TMOUT\<rparr>) s) =
      upd_tcb t (\<lambda>c. c\<lparr>wspec := w, wid := d, wercd := E_TMOUT, winfo := wi\<rparr>) s"
    by (simp add: upd_tcb_def tcb_wait_order)
  have "wait_head (wait_queue ?g)" using h by simp
  from gcb_wait_ok [OF k c t this, where w = w and wi = wi and tmout = tmout] obtain s3 s4 where
    s3: "gcb_make_wait prid ?g tmout (upd_tcb t (\<lambda>c. c\<lparr>wspec := w, winfo := wi, wercd := E_TMOUT\<rparr>) s) = Some s3"
      "wercd (tcbs s3 t) = E_TMOUT" "end_critical E_TMOUT s3 = Some (E_TMOUT, s4)" "kinv s4" "objs_same s s4"
      "touches {wait_queue ?g} s s4" "state (tcbs s4 t) = TS_WAIT"
      "waiters s4 (wait_queue ?g) = join_queue (objatr ?g) (t, wi, objid ?g, w, pri s t) (waiters s (wait_queue ?g))"
    by blast
  have "wait_tail prid q d atr w wi tmout s = end_critical (wercd (tcbs s3 t)) s3"
    using s3(1) False by (auto simp: wait_tail_def c gcb_make_wait_def u m gcb_insert_def z split: Option.bind_splits)
  then have "e = E_TMOUT" "s' = s4" using r s3(2,3) by simp_all
  then show thesis using that(2) s3 by (simp add: join_queue_def z)
qed

section \<open>Waiting outside of any queue\<close>

lemma make_wait_alone:
  assumes k: "kinv s" and c: "ctxtsk s prid = Some t" "t \<in> set (rdy s)"
    and f: "priority (f (tcbs s t)) = pri s t" "state (f (tcbs s t)) = state (tcbs s t)" "klockwait (f (tcbs s t)) = klockwait (tcbs s t)"
    and m: "make_wait prid tmout atr (upd_tcb t f s) = Some s'"
  shows "kinv s'" "objs_same s s'" "touches {} s s'" "state (tcbs s' t) = TS_WAIT" "set (rdy s') = set (rdy s) - {t}"
    "wercd (tcbs s' t) = wercd (f (tcbs s t))"
proof -
  have k1: "kinv (upd_tcb t f s)" "rdy (upd_tcb t f s) = rdy s" by (rule kinv_tcb_upd [where f = f and t = t, OF k f])+
  have c1: "ctxtsk (upd_tcb t f s) prid = Some t" "t \<in> set (rdy (upd_tcb t f s))" using c k1 by simp_all
  from make_wait_ok [OF k1(1) c1, of tmout atr] m have
    w: "kinv_but t s'" "set (rdy s') = set (rdy s) - {t}" "\<forall>q. \<not> ready_head q \<longrightarrow> ques s' q = ques s q"
      "task_frame t (upd_tcb t f s) s'" "state (tcbs s' t) = TS_WAIT" "\<not> klockwait (tcbs s' t)"
    using k1(2) by auto
  show "kinv s'" by (rule kinv_but_rest [OF w(1)]) (use w in simp_all)
  show "objs_same s s'" using w(4) objs_same_trans [of s "upd_tcb t f s" s'] by (simp add: task_frame_def)
  show "state (tcbs s' t) = TS_WAIT" "set (rdy s') = set (rdy s) - {t}" by (fact w)+
  show "wercd (tcbs s' t) = wercd (f (tcbs s t))" using w(4) by (simp add: task_frame_def)
  show "touches {} s s'"
  proof (rule touchesI)
    fix q x assume q: "\<not> ready_head q" "x \<in> set (ques s q)"
    then have "x \<noteq> t" using ready_not_waiting [OF k c(2)] by blast
    then show "wview (tcbs s' x) = wview (tcbs s x)" using w(4) by (simp add: task_frame_def)
  qed (use w(3) in auto)
qed

lemma wait_release_ng_None:
  "rel_wai_hook (wspec_at (wspec (tcbs s t))) = None \<Longrightarrow> wait_release_ng rh t e s = Some (wait_release_ok_ercd t e s)"
  by (simp add: wait_release_ng_def wait_release_ok_ercd_def)

lemma kinv_but_alone: "kinv s \<Longrightarrow> (\<And>q. t \<notin> set (ques s q)) \<Longrightarrow> kinv_but t s"
  by (auto simp: kinv_def kinv_but_def)

lemma touches_upd_alone: "(\<And>q. t \<notin> set (ques s q)) \<Longrightarrow> touches Q s (upd_tcb t f s)"
  by (rule touchesI) auto

lemma release_alone:
  fixes e :: ER
  assumes k: "kinv s" and w: "is_wait (state (tcbs s t))" and n: "\<And>q. t \<notin> set (ques s q)"
  defines "u \<equiv> wait_release_ok_ercd t e s"
  shows "kinv u" "objs_same s u" "touches Q s u"
proof -
  let ?v = "upd_tcb t (\<lambda>c. c\<lparr>wercd := e\<rparr>) s"
  have kv: "kinv ?v" "rdy ?v = rdy s" by (rule kinv_tcb_upd [OF k]; simp)+
  show "kinv u" using wait_release_kinv(1) [OF kv(1), of t] w by (simp add: u_def wait_release_ok_ercd_def)
  show "objs_same s u" by (simp add: u_def wait_release_ok_ercd_def)
  show "touches Q s u"
  proof (rule touchesI)
    show "ques u q = ques s q" if q: "\<not> ready_head q" for q
    proof (cases "\<exists>p. q = QReady p")
      case True
      then obtain p where p: "q = QReady p" by blast
      with q have "p \<noteq> pri s t" using kinv_dest(4) [OF k, of t] by (auto simp: ready_head_def)
      then show ?thesis using n [of q] by (simp add: u_def wait_release_ok_ercd_def p wait_release_def make_non_wait_def remove1_idem)
    next
      case False
      then show ?thesis using n [of q] by (simp add: u_def wait_release_ok_ercd_def wait_release_ques remove1_idem)
    qed
    show "wview (tcbs u x) = wview (tcbs s x)" if "x \<in> set (ques s q)" for q x
    proof -
      have "x \<noteq> t" using n that by blast
      then show ?thesis by (simp add: u_def wait_release_ok_ercd_def)
    qed
  qed
qed

section \<open>Deleting an object with two queues\<close>

context obj_table begin

lemma wait_tail_table_ok:
  assumes k: "kinv s" and ok: "table_ok s" and c: "ctxtsk s prid = Some t" "t \<in> set (rdy s)" and h: "wait_head q"
    and r: "wait_tail prid q d atr w wi tmout s = Some (e, s')" and live: "vid (view s i) \<noteq> 0"
    and oth: "\<And>j. j \<noteq> i \<Longrightarrow> hds j \<inter> {q} = {}"
    and wfi: "\<And>u. objs_same s u \<Longrightarrow> touches {q} s u \<Longrightarrow> waiters u q = waiters s q @ [(t, wi, d, w, pri s t)] \<Longrightarrow> wf i (view u i)"
  shows "kinv s' \<and> table_ok s'"
  using k c h r
proof (cases rule: wait_tail_cases)
  case turned_away
  then show ?thesis using table_ok_elsewhere same_objs ok by blast
next
  case waiting
  have sm: "same s s'" using same_objs [OF waiting(3)] .
  have v: "view s' j = view s j" if "j \<noteq> i" for j by (rule view_same [OF sm waiting(4) oth [OF that]])
  have "table_ok s'"
    by (rule table_ok_step [OF ok _ _ v live wfi [OF waiting(3,4,6)]]) (use table_same [OF sm] in simp_all)
  with waiting(2) show ?thesis by simp
qed

lemma obj_del2_ok:
  assumes r: "obj_call True gs prid ops oid
        (\<lambda>i s. do { s \<leftarrow> wait_delete (A i) s; s \<leftarrow> wait_delete (B i) s; end_critical E_OK (obj_unlink ops oid i s) }) s = Some (e, s')"
    and k: "kinv s" and ok: "table_ok s" and ix: "guards gs = None \<Longrightarrow> INDEX_OBJ oid < oo_max ops s"
    and h: "\<And>i. wait_head (A i)" "\<And>i. wait_head (B i)" "\<And>i. A i \<noteq> B i" "\<And>i j. j \<noteq> i \<Longrightarrow> hds j \<inter> {A i, B i} = {}"
    and e: "\<And>i u. ques u (A i) = [] \<Longrightarrow> ques u (B i) = [] \<Longrightarrow> wf i (view (oo_set_id ops i 0 u) i)"
  shows "kinv s' \<and> table_ok s'"
proof (rule obj_call_ok [OF r k ok])
  fix i assume i: "i = INDEX_OBJ oid" "guards gs = None" "vid (view s i) \<noteq> 0"
    and b: "do { s \<leftarrow> wait_delete (A i) s; s \<leftarrow> wait_delete (B i) s; end_critical E_OK (obj_unlink ops oid i s) } = Some (e, s')"
  obtain s1 s2 where d: "wait_delete (A i) s = Some s1" "wait_delete (B i) s1 = Some s2"
    and e1: "end_critical E_OK (obj_unlink ops oid i s2) = Some (e, s')"
    using b by (auto split: Option.bind_splits)
  note w1 = touches_wait_delete [OF k h(1) d(1)]
  note w2 = touches_wait_delete [OF w1(1) h(2) d(2)]
  have tch: "touches {A i, B i} s s2"
    by (rule touches_trans [OF touches_mono [OF w1(2)] touches_mono [OF w2(2)]]) auto
  have sm: "same s s2" using same_objs [OF objs_same_trans [OF w1(4) w2(4)]] .
  have tab: "oo_max ops s2 = oo_max ops s" "oo_free ops s2 = oo_free ops s" using table_same [OF sm] by simp_all
  have v: "view s2 j = view s j" if "j \<noteq> i" for j by (rule view_same [OF sm tch h(4) [OF that]])
  have qA: "ques s2 (A i) = []"
    using touches_ques [OF w2(2), of "A i"] wait_head_ready [OF h(1)] h(3) w1(3) by simp
  let ?u = "oo_set_free ops (oo_free ops s2 @ [i]) (mp_unregister_object_in_domain oid (oo_type ops) (INDEX_OBJ oid) s2)"
  have "oo_free ops (mp_unregister_object_in_domain oid (oo_type ops) (INDEX_OBJ oid) s2) = oo_free ops s2"
    using table_same [OF register_same(2)] by simp
  then have un: "obj_unlink ops oid i s2 = oo_set_id ops i 0 ?u" by (simp add: obj_unlink_def)
  have "ques ?u (A i) = []" "ques ?u (B i) = []" using qA w2(3) ques_set_free by simp_all
  from e [OF this] have wfu: "wf i (view (obj_unlink ops oid i s2) i)" unfolding un .
  from obj_unlink_ok [OF w2(1) ok ix [OF i(2), folded i(1)] i(3) tab v wfu]
  have "kinv (obj_unlink ops oid i s2)" "table_ok (obj_unlink ops oid i s2)" by blast+
  with table_ok_end [OF e1] show "kinv s' \<and> table_ok s'" by simp
qed

end

end
