(* ===== verification/Mutex.thy ===== *)
theory Mutex
  imports Object_Base
begin

text \<open>
  Mutexes, \<^verbatim>\<open>mutex.c\<close>, with \<open>change_task_priority\<close> of \<^verbatim>\<open>task.c\<close>. A change of priority runs the
  \<open>chg_pri_hook\<close> of the object the task waits for; the hook of a mutex with priority inheritance
  changes the priority of the holder in turn, so \<open>change_task_priority\<close> is recursive, a partial
  function here: nothing bounds the recursion when tasks wait for each other in a circle. The hooks
  of the other modules are the argument \<open>oh\<close>.

  The list of the mutexes that a task holds, linked through the control blocks, is \<open>mtxlist\<close> of
  its TCB.
\<close>

section \<open>Control blocks\<close>

definition TA_INHERIT :: ATR where "TA_INHERIT = 0x00000002"
definition TA_CEILING :: ATR where "TA_CEILING = 0x00000003"

definition mtxcb :: "kstate \<Rightarrow> nat \<Rightarrow> MTXCB" where
  "mtxcb s i = cbs (mtxtab s) i"

definition upd_mtx :: "nat \<Rightarrow> (MTXCB \<Rightarrow> MTXCB) \<Rightarrow> kstate \<Rightarrow> kstate" where
  "upd_mtx i f s = s\<lparr>mtxtab := (mtxtab s)\<lparr>cbs := (cbs (mtxtab s))(i := f (cbs (mtxtab s) i))\<rparr>\<rparr>"

definition set_free_mtx :: "nat list \<Rightarrow> kstate \<Rightarrow> kstate" where
  "set_free_mtx q s = s\<lparr>mtxtab := (mtxtab s)\<lparr>freeq := q\<rparr>\<rparr>"

definition mtx_gcb :: "kstate \<Rightarrow> nat \<Rightarrow> GCB" where
  "mtx_gcb s i = \<lparr>wait_queue = QMtx i, objid = mtxid (mtxcb s i), objatr = mtxatr (mtxcb s i)\<rparr>"

definition mtx_ops :: objops where
  "mtx_ops = \<lparr>oo_type = OT_MTX, oo_dispatch = False, oo_max = \<lambda>s. maxid (mtxtab s), oo_id = \<lambda>s i. mtxid (mtxcb s i),
     oo_atr = \<lambda>s i. mtxatr (mtxcb s i), oo_name = \<lambda>s i. mtx_oname (mtxcb s i),
     oo_set_name = \<lambda>i nm. upd_mtx i (\<lambda>c. c\<lparr>mtx_oname := nm\<rparr>), oo_free = \<lambda>s. freeq (mtxtab s),
     oo_set_free = set_free_mtx, oo_set_id = \<lambda>i x. upd_mtx i (\<lambda>c. c\<lparr>mtxid := x\<rparr>)\<rparr>"

text \<open>The protocol bits of the attribute.\<close>

definition mtx_proto :: "kstate \<Rightarrow> nat \<Rightarrow> ATR" where
  "mtx_proto s i = mtxatr (mtxcb s i) AND TA_CEILING"

definition mutex_initialize :: "int option \<Rightarrow> bool \<Rightarrow> kstate \<Rightarrow> ER \<times> kstate" where
  "mutex_initialize max_mtxid mem s =
    (case max_mtxid of
       None \<Rightarrow> (E_SYS, s)
     | Some m \<Rightarrow>
         let s = s\<lparr>mtxtab := (mtxtab s)\<lparr>maxid := nat m\<rparr>\<rparr> in
         if m < 1 then (E_SYS, s)
         else if \<not> mem then (E_NOMEM, s)
         else (E_OK, s\<lparr>mtxtab := (mtxtab s)\<lparr>cbs := (\<lambda>i. if i < nat m then (cbs (mtxtab s) i)\<lparr>mtxid := 0\<rparr> else cbs (mtxtab s) i),
                 freeq := [0..<nat m]\<rparr>\<rparr>))"

section \<open>Priorities\<close>

definition mtx_waited :: "kstate \<Rightarrow> nat \<Rightarrow> bool" where
  "mtx_waited s i \<longleftrightarrow> ques s (QMtx i) \<noteq> []"

definition mtx_head_pri :: "kstate \<Rightarrow> nat \<Rightarrow> nat" where
  "mtx_head_pri s i = pri s (hd (ques s (QMtx i)))"

text \<open>The loop of \<open>release_mutex\<close> over the mutexes the task holds: the priority it ends up with.\<close>

fun release_scan :: "kstate \<Rightarrow> nat option \<Rightarrow> nat list \<Rightarrow> nat \<Rightarrow> nat \<Rightarrow> nat" where
  "release_scan s rel [] newpri p = newpri"
| "release_scan s rel (i # is) newpri p =
    (if rel = Some i then release_scan s rel is newpri p
     else (let p = (if mtx_proto s i = TA_CEILING then ceilpri (mtxcb s i)
                    else if mtx_proto s i = TA_INHERIT then (if mtx_waited s i then mtx_head_pri s i else p)
                    else p)
           in release_scan s rel is (if newpri > p then p else newpri) p))"

text \<open>\<open>ctp\<close> stands for \<open>change_task_priority\<close>.\<close>

definition release_mutex_with :: "(nat \<Rightarrow> nat \<Rightarrow> kstate \<Rightarrow> kstate option) \<Rightarrow> nat \<Rightarrow> nat option \<Rightarrow> kstate \<Rightarrow> kstate option" where
  "release_mutex_with ctp t rel s =
    (let newpri = release_scan s rel (mtxlist (tcbs s t)) (bpriority (tcbs s t)) (bpriority (tcbs s t));
         s = upd_tcb t (\<lambda>c. c\<lparr>mtxlist := filter (\<lambda>i. rel \<noteq> Some i) (mtxlist c)\<rparr>) s
     in if newpri \<noteq> pri s t then ctp t newpri s else Some s)"

definition mtx_chg_pri_with :: "(nat \<Rightarrow> nat \<Rightarrow> kstate \<Rightarrow> kstate option) \<Rightarrow> nat \<Rightarrow> int \<Rightarrow> kstate \<Rightarrow> kstate option" where
  "mtx_chg_pri_with ctp t oldpri s =
    (let i = INDEX_OBJ (wid (tcbs s t));
         s = gcb_change_priority (mtx_gcb s i) t s
     in if mtx_proto s i = TA_INHERIT then
          do {
            h \<leftarrow> mtxtsk (mtxcb s i);
            if pri s h > pri s t then ctp h (pri s t) s
            else if int (pri s h) = oldpri then release_mutex_with ctp h None s
            else Some s
          }
        else Some s)"

lemma release_mutex_mono [partial_function_mono]:
  assumes "\<And>t p s. mono_option (\<lambda>f. g f t p s)"
  shows "mono_option (\<lambda>f. release_mutex_with (g f) t rel s)"
  unfolding release_mutex_with_def Let_def by (intro partial_function_mono assms)

lemma mtx_chg_pri_mono [partial_function_mono]:
  assumes "\<And>t p s. mono_option (\<lambda>f. g f t p s)"
  shows "mono_option (\<lambda>f. mtx_chg_pri_with (g f) t old s)"
  unfolding mtx_chg_pri_with_def Let_def by (intro partial_function_mono release_mutex_mono assms)

partial_function (option) change_task_priority ::
    "(hook \<Rightarrow> nat \<Rightarrow> int \<Rightarrow> kstate \<Rightarrow> kstate option) \<Rightarrow> nat \<Rightarrow> nat \<Rightarrow> kstate \<Rightarrow> kstate option" where
  "change_task_priority oh t p s =
    (if state (tcbs s t) = TS_READY then
       Some (ready_queue_insert t (upd_tcb t (\<lambda>c. c\<lparr>priority := p\<rparr>) (ready_queue_delete t s)))
     else
       (let oldpri = int (pri s t);
            s = upd_tcb t (\<lambda>c. c\<lparr>priority := p\<rparr>) s
        in if is_wait (state (tcbs s t)) then
             (case chg_pri_hook (wspec_at (wspec (tcbs s t))) of
                None \<Rightarrow> Some s
              | Some h \<Rightarrow> if h = Mtx_chg_pri then mtx_chg_pri_with (\<lambda>t p s. change_task_priority oh t p s) t oldpri s
                           else oh h t oldpri s)
           else Some s))"

definition release_mutex :: "(hook \<Rightarrow> nat \<Rightarrow> int \<Rightarrow> kstate \<Rightarrow> kstate option) \<Rightarrow> nat \<Rightarrow> nat option \<Rightarrow> kstate \<Rightarrow> kstate option" where
  "release_mutex oh = release_mutex_with (change_task_priority oh)"

definition mtx_chg_pri :: "(hook \<Rightarrow> nat \<Rightarrow> int \<Rightarrow> kstate \<Rightarrow> kstate option) \<Rightarrow> nat \<Rightarrow> int \<Rightarrow> kstate \<Rightarrow> kstate option" where
  "mtx_chg_pri oh = mtx_chg_pri_with (change_task_priority oh)"

definition mtx_rel_wai :: "(hook \<Rightarrow> nat \<Rightarrow> int \<Rightarrow> kstate \<Rightarrow> kstate option) \<Rightarrow> nat \<Rightarrow> kstate \<Rightarrow> kstate option" where
  "mtx_rel_wai oh t s = do {
     h \<leftarrow> mtxtsk (mtxcb s (INDEX_OBJ (wid (tcbs s t))));
     if pri s h = pri s t then release_mutex oh h None s else Some s
   }"

text \<open>The next holder of a mutex, the head of its queue; without one the mutex is free.\<close>

definition pass_mutex :: "(hook \<Rightarrow> nat \<Rightarrow> int \<Rightarrow> kstate \<Rightarrow> kstate option) \<Rightarrow> nat \<Rightarrow> kstate \<Rightarrow> kstate option" where
  "pass_mutex oh i s =
    (case ques s (QMtx i) of
       t # _ \<Rightarrow>
         (let s = wait_release_ok t s;
              s = upd_mtx i (\<lambda>c. c\<lparr>mtxtsk := Some t\<rparr>) s;
              s = upd_tcb t (\<lambda>c. c\<lparr>mtxlist := i # mtxlist c\<rparr>) s
          in if mtx_proto s i = TA_CEILING \<and> pri s t > ceilpri (mtxcb s i)
             then change_task_priority oh t (ceilpri (mtxcb s i)) s else Some s)
     | [] \<Rightarrow> Some (upd_mtx i (\<lambda>c. c\<lparr>mtxtsk := None\<rparr>) s))"

fun pass_all :: "(hook \<Rightarrow> nat \<Rightarrow> int \<Rightarrow> kstate \<Rightarrow> kstate option) \<Rightarrow> nat list \<Rightarrow> kstate \<Rightarrow> kstate option" where
  "pass_all oh [] s = Some s"
| "pass_all oh (i # is) s = do { s \<leftarrow> pass_mutex oh i s; pass_all oh is s }"

definition signal_all_mutex :: "(hook \<Rightarrow> nat \<Rightarrow> int \<Rightarrow> kstate \<Rightarrow> kstate option) \<Rightarrow> nat \<Rightarrow> kstate \<Rightarrow> kstate option" where
  "signal_all_mutex oh t s = pass_all oh (mtxlist (tcbs s t)) s"

text \<open>The loop of \<open>chg_pri_mutex\<close>: the highest priority, the lowest allowed one and the last \<open>pri\<close>.\<close>

fun chg_pri_scan :: "kstate \<Rightarrow> nat list \<Rightarrow> int \<Rightarrow> int \<Rightarrow> int \<Rightarrow> int \<times> int" where
  "chg_pri_scan s [] hi low p = (hi, low)"
| "chg_pri_scan s (i # is) hi low p =
    (let (p, low) = (if mtx_proto s i = TA_CEILING then (int (ceilpri (mtxcb s i)), max low (int (ceilpri (mtxcb s i))))
                     else if mtx_proto s i = TA_INHERIT \<and> mtx_waited s i then (int (mtx_head_pri s i), low)
                     else (p, low))
     in chg_pri_scan s is (if p < hi then p else hi) low p)"

definition chg_pri_mutex :: "nat \<Rightarrow> int \<Rightarrow> kstate \<Rightarrow> int" where
  "chg_pri_mutex t prio s =
    (let low = int_priority MIN_PRI;
         low = (if is_wait (state (tcbs s t)) \<and> tskwait (wspec_at (wspec (tcbs s t))) AND TTW_MTX \<noteq> 0 then
                  (let i = INDEX_OBJ (wid (tcbs s t))
                   in if mtx_proto s i = TA_CEILING then max low (int (ceilpri (mtxcb s i))) else low)
                else low);
         (hi, low) = chg_pri_scan s (mtxlist (tcbs s t)) prio low prio
     in if prio < low then E_ILUSE else hi)"

section \<open>System calls\<close>

record T_CMTX =
  cmtx_exinf :: UW
  cmtx_mtxatr :: ATR
  cmtx_ceilpri :: int
  cmtx_domid :: ID
  cmtx_oname :: "UB list"

definition VALID_MTXATR :: ATR where
  "VALID_MTXATR = TA_CEILING OR TA_NODISWAI OR TA_DOMID OR TA_ONAME OR TA_PRIVATE OR TA_PROTECTED OR TA_PUBLIC"

text \<open>\<open>CHECK_PRI\<close> is the last of the argument checks; \<open>obj_cre\<close> makes those of the attribute and the domain.\<close>

definition tk_cre_mtx :: "nat \<Rightarrow> T_CMTX \<Rightarrow> kstate \<Rightarrow> (ER \<times> kstate) option" where
  "tk_cre_mtx prid pk s =
    (let ceil = (cmtx_mtxatr pk AND TA_CEILING = TA_CEILING)
     in case guards ([CHECK_RSATR (cmtx_mtxatr pk) VALID_MTXATR, CHECK_PATR (cmtx_mtxatr pk)] @
            (if cmtx_mtxatr pk AND TA_DOMID \<noteq> 0 then [CHECK_DOMID s (cmtx_domid pk)] else []) @
            (if ceil then [CHECK_PRI (cmtx_ceilpri pk)] else [])) of
          Some e \<Rightarrow> Some (e, s)
        | None \<Rightarrow>
            obj_cre [] prid mtx_ops (cmtx_mtxatr pk) (cmtx_domid pk) (cmtx_oname pk)
              (\<lambda>i oid s. upd_mtx i (\<lambda>c. c\<lparr>mtxid := oid, mtx_exinf := cmtx_exinf pk, mtxatr := cmtx_mtxatr pk,
                   ceilpri := (if ceil then nat (int_priority (cmtx_ceilpri pk)) else 0), mtxtsk := None\<rparr>)
                 (set_que (QMtx i) [] s)) s)"

definition tk_del_mtx :: "(hook \<Rightarrow> nat \<Rightarrow> int \<Rightarrow> kstate \<Rightarrow> kstate option) \<Rightarrow> nat \<Rightarrow> ID \<Rightarrow> kstate \<Rightarrow> (ER \<times> kstate) option" where
  "tk_del_mtx oh prid mid s =
    obj_call True [CHECK_MTXID s mid] prid mtx_ops mid
      (\<lambda>i s. do {
         s \<leftarrow> (case mtxtsk (mtxcb s i) of None \<Rightarrow> Some s | Some h \<Rightarrow> release_mutex oh h (Some i) s);
         s \<leftarrow> wait_delete (QMtx i) s;
         end_critical E_OK (obj_unlink mtx_ops mid i s)
       }) s"

definition mtx_wspec :: "ATR \<Rightarrow> wspec_ref" where
  "mtx_wspec a = (if a = TA_TFIFO then Wspec_mtx_tfifo else if a = TA_INHERIT then Wspec_mtx_inherit else Wspec_mtx_tpri)"

text \<open>The current task takes the free mutex, or goes to wait for it.\<close>

definition lock_free :: "(hook \<Rightarrow> nat \<Rightarrow> int \<Rightarrow> kstate \<Rightarrow> kstate option) \<Rightarrow> nat \<Rightarrow> nat \<Rightarrow> kstate \<Rightarrow> kstate option" where
  "lock_free oh t i s =
    (let s = upd_mtx i (\<lambda>c. c\<lparr>mtxtsk := Some t\<rparr>) s;
         s = upd_tcb t (\<lambda>c. c\<lparr>mtxlist := i # mtxlist c\<rparr>) s
     in if mtx_proto s i = TA_CEILING \<and> pri s t > ceilpri (mtxcb s i)
        then change_task_priority oh t (ceilpri (mtxcb s i)) s else Some s)"

definition lock_wait :: "(hook \<Rightarrow> nat \<Rightarrow> int \<Rightarrow> kstate \<Rightarrow> kstate option) \<Rightarrow> nat \<Rightarrow> nat \<Rightarrow> nat \<Rightarrow> TMO \<Rightarrow> nat \<Rightarrow> kstate \<Rightarrow> kstate option" where
  "lock_wait oh prid t i tmout h s =
    (let proto = mtx_proto s i
     in do {
          s \<leftarrow> (if proto = TA_INHERIT \<and> pri s h > pri s t then change_task_priority oh h (pri s t) s else Some s);
          s \<leftarrow> make_wait prid tmout (mtxatr (mtxcb s i))
            (upd_tcb t (\<lambda>c. c\<lparr>wspec := mtx_wspec proto, wercd := E_TMOUT, wid := mtxid (mtxcb s i)\<rparr>) s);
          Some (if proto = TA_TFIFO then QueInsert_tail t (QMtx i) s else queue_insert_tpri (QMtx i) t s)
        })"

definition tk_loc_mtx :: "(hook \<Rightarrow> nat \<Rightarrow> int \<Rightarrow> kstate \<Rightarrow> kstate option) \<Rightarrow> nat \<Rightarrow> ID \<Rightarrow> TMO \<Rightarrow> kstate \<Rightarrow> (ER \<times> kstate) option" where
  "tk_loc_mtx oh prid mid tmout s =
    obj_call True [CHECK_MTXID s mid, CHECK_TMOUT tmout, CHECK_DISPATCH prid s] prid mtx_ops mid
      (\<lambda>i s. do {
         t \<leftarrow> ctxtsk s prid;
         if mtxtsk (mtxcb s i) = Some t then end_critical E_ILUSE s
         else if mtx_proto s i = TA_CEILING \<and> bpriority (tcbs s t) < ceilpri (mtxcb s i) then end_critical E_ILUSE s
         else if is_diswai (mtx_gcb s i) (tcbs s t) TTW_MTX then end_critical E_DISWAI s
         else (case mtxtsk (mtxcb s i) of
             None \<Rightarrow> do { s \<leftarrow> lock_free oh t i s; end_critical E_OK s }
           | Some h \<Rightarrow>
               if tmout = TMO_POL then end_critical E_TMOUT s
               else do { s \<leftarrow> lock_wait oh prid t i tmout h s; end_critical (wercd (tcbs s t)) s })
       }) s"

definition tk_unl_mtx :: "(hook \<Rightarrow> nat \<Rightarrow> int \<Rightarrow> kstate \<Rightarrow> kstate option) \<Rightarrow> nat \<Rightarrow> ID \<Rightarrow> kstate \<Rightarrow> (ER \<times> kstate) option" where
  "tk_unl_mtx oh prid mid s =
    obj_call True [CHECK_MTXID s mid, CHECK_INTSK prid s] prid mtx_ops mid
      (\<lambda>i s. do {
         t \<leftarrow> ctxtsk s prid;
         if mtxtsk (mtxcb s i) \<noteq> Some t then end_critical E_ILUSE s
         else do {
           s \<leftarrow> release_mutex oh t (Some i) s;
           s \<leftarrow> pass_mutex oh i s;
           end_critical E_OK s
         }
       }) s"

record T_RMTX =
  rmtx_exinf :: UW
  rmtx_htsk :: ID
  rmtx_wtsk :: ID

definition mtx_ref :: "kstate \<Rightarrow> nat \<Rightarrow> T_RMTX" where
  "mtx_ref s i = \<lparr>rmtx_exinf = mtx_exinf (mtxcb s i),
     rmtx_htsk = (case mtxtsk (mtxcb s i) of Some h \<Rightarrow> tskid (tcbs s h) | None \<Rightarrow> 0), rmtx_wtsk = wait_tskid (QMtx i) s\<rparr>"

definition tk_ref_mtx :: "nat \<Rightarrow> ID \<Rightarrow> kstate \<Rightarrow> (ER \<times> T_RMTX option) option" where
  "tk_ref_mtx prid mid s = obj_ref [CHECK_MTXID s mid] prid mtx_ops mid (mtx_ref s) s"

definition tk_fnd_mtx :: "nat \<Rightarrow> ID \<Rightarrow> UB list \<Rightarrow> kstate \<Rightarrow> (ER \<times> kstate) option" where
  "tk_fnd_mtx prid = obj_fnd prid mtx_ops"

definition tk_dmi_mtx :: "nat \<Rightarrow> ID \<Rightarrow> kstate \<Rightarrow> ((ER \<times> T_DMI option) \<times> kstate) option" where
  "tk_dmi_mtx prid = obj_dmi prid mtx_ops"

definition mutex_getname :: "ID \<Rightarrow> kstate \<Rightarrow> ER \<times> UB list option" where
  "mutex_getname = obj_getname mtx_ops"

definition mutex_setname :: "ID \<Rightarrow> UB list \<Rightarrow> kstate \<Rightarrow> ER \<times> kstate" where
  "mutex_setname = obj_setname mtx_ops"

definition td_lst_mtx :: "int \<Rightarrow> kstate \<Rightarrow> int \<times> ID list" where
  "td_lst_mtx = obj_lst mtx_ops"

definition td_ref_mtx :: "ID \<Rightarrow> kstate \<Rightarrow> ER \<times> T_RMTX option" where
  "td_ref_mtx mid s = obj_td_ref [CHECK_MTXID s mid] mtx_ops mid (mtx_ref s) s"

definition td_mtx_que :: "ID \<Rightarrow> int \<Rightarrow> kstate \<Rightarrow> ER \<times> ID list" where
  "td_mtx_que mid nent s = obj_td_que [CHECK_MTXID s mid] mtx_ops QMtx mid nent s"

definition td_fnd_mtx :: "ID \<Rightarrow> UB list \<Rightarrow> kstate \<Rightarrow> ER" where
  "td_fnd_mtx = obj_td_fnd mtx_ops"

definition td_dmi_mtx :: "ID \<Rightarrow> kstate \<Rightarrow> ER \<times> T_DMI option" where
  "td_dmi_mtx = obj_td_dmi mtx_ops"

end
