(* ===== verification/Priority.thy ===== *)
theory Priority
  imports Object_Base
begin

text \<open>
  The priority of a task in state \<open>READY\<close> changes: the first branch of \<open>change_task_priority\<close>. A task
  in the ready queue moves to its new place; one that waits for a kernel lock leaves the queue of the
  lock and becomes executable (it will ask for the lock again).
\<close>

section \<open>The change\<close>

definition chg_ready :: "nat \<Rightarrow> nat \<Rightarrow> kstate \<Rightarrow> kstate" where
  "chg_ready t p s = ready_queue_insert t (upd_tcb t (\<lambda>c. c\<lparr>priority := p\<rparr>) (ready_queue_delete t s))"

definition lock_heads :: "qhead set" where
  "lock_heads = range QObjLock \<union> range QSvcLock"

lemma lock_heads_simps [simp]:
  "QSem i \<notin> lock_heads" "QFlg i \<notin> lock_heads" "QMbx i \<notin> lock_heads" "QMtx i \<notin> lock_heads" "QMpf i \<notin> lock_heads"
  "QMpl i \<notin> lock_heads" "QSmbf i \<notin> lock_heads" "QRmbf i \<notin> lock_heads" "QCal i \<notin> lock_heads" "QAcp i \<notin> lock_heads"
  "QFreeTcb \<notin> lock_heads" "QReady p \<notin> lock_heads"
  by (auto simp: lock_heads_def)

lemma chg_ready_tcbs:
  "tcbs (chg_ready t p s) = (tcbs s)(t := (tcbs s t)\<lparr>klockwait := False, priority := p, slicecnt := 0\<rparr>)"
  by (auto simp: chg_ready_def ready_queue_insert_sel ready_queue_delete_def Let_def)

lemma chg_ready_ques:
  "ques (chg_ready t p s) q = (if q = QReady p then remove1 t (ques s q) @ [t] else remove1 t (ques s q))"
  by (simp add: chg_ready_def ready_queue_insert_sel ready_queue_delete_def Let_def QueInsert_tail_def set_que_def)

lemma chg_ready_same: "objs_same s (chg_ready t p s)" "schedtsk (chg_ready t p s) = schedtsk s" "num_proc (chg_ready t p s) = num_proc s"
  by (simp_all add: chg_ready_def ready_queue_insert_def ready_queue_delete_def rq_unlink_def Let_def objs_same_def QueInsert_tail_def
      set_que_def QueRemove_tsk_def)

lemma chg_ready_wf:
  assumes k: "kinv s" and st: "state (tcbs s t) = TS_READY" and p: "p < NUM_PRI"
  shows "rq_wf (chg_ready t p s)" and "set (rdy (chg_ready t p s)) = insert t (set (rdy s))"
proof -
  let ?d = "ready_queue_delete t s"
  let ?u = "upd_tcb t (\<lambda>c. c\<lparr>priority := p\<rparr>) ?d"
  have w: "rq_wf s" "pri s t < NUM_PRI" using k by (auto dest: kinv_dest)
  have d: "rq_wf ?d \<and> rdy ?d = remove1 t (rdy s)"
  proof (cases "klockwait (tcbs s t)")
    case True
    then have nt: "t \<notin> set (rdy s)" using k by (simp add: kinv_rdy)
    show ?thesis using ready_queue_delete_klockwait [OF w(1) True nt w(2)] nt by simp
  next
    case False
    then have "t \<in> set (rdy s)" using k st by (simp add: kinv_rdy)
    then show ?thesis using ready_queue_delete_wf [OF w(1) False] by simp
  qed
  have nt: "t \<notin> set (rdy ?d)" using d rdy_distinct [OF w(1)] by simp
  have u: "rdy ?u = rdy ?d" "rq_wf ?u \<longleftrightarrow> rq_wf ?d"
    by (rule rq_cong; use nt in auto)+
  have nt': "t \<notin> set (rdy ?u)" and pu: "pri ?u t < NUM_PRI" using nt u p by simp_all
  note i = ready_queue_insert_wf [OF _ pu nt']
  show "rq_wf (chg_ready t p s)" using i(1) u d by (simp add: chg_ready_def)
  have "set (rdy (chg_ready t p s)) = insert t (set (rdy ?d))"
    using i(2) u d by (simp add: chg_ready_def set_insert_before)
  then show "set (rdy (chg_ready t p s)) = insert t (set (rdy s))"
    using d rdy_distinct [OF w(1)] by (auto simp: set_remove1_eq)
qed

lemma chg_ready_kinv:
  assumes k: "kinv s" and st: "state (tcbs s t) = TS_READY" and p: "p < NUM_PRI"
  shows "kinv (chg_ready t p s)"
proof -
  let ?s = "chg_ready t p s"
  note w = chg_ready_wf [OF assms]
  note q = chg_ready_ques [of t p s] and c = chg_ready_tcbs [of t p s]
  have d: "distinct (ques s q)" for q using k by (rule kinv_dest)
  have mem: "x \<in> set (ques ?s q) \<longleftrightarrow> (if x = t then q = QReady p else x \<in> set (ques s q))" for x q
    using d by (auto simp: q)
  have dq: "distinct (ques ?s q)" for q using d [of q] by (cases "q = QReady p") (simp_all add: q)
  have one: "q1 = q2" if "x \<in> set (ques ?s q1)" "x \<in> set (ques ?s q2)" for q1 q2 x
    using that kinv_dest(7) [OF k] by (simp add: mem split: if_splits)
  have pl: "place_ok q (tcbs ?s x)" if "x \<in> set (ques ?s q)" for q x
    using that kinv_dest(6) [OF k] st p by (simp add: mem c split: if_splits)
  have ex: "rdy_excl ?s"
    unfolding rdy_excl_def
  proof (intro allI ballI impI notI)
    fix q x assume r: "x \<in> set (rdy ?s)" and q: "\<not> ready_head q" and x: "x \<in> set (ques ?s q)"
    have "rq_prios ?s" using w by (simp add: rq_wf_def)
    with r have "x \<in> set (ques ?s (QReady (pri ?s x)))" "pri ?s x < NUM_PRI" by (simp_all add: rdy_mem)
    with one [OF x] q show False by (auto simp: ready_head_def)
  qed
  have "sched_in ?s" using kinv_dest(1) [OF k] w(2) by (simp add: sched_wf_def sched_in_def chg_ready_same)
  with w ex have sw: "sched_wf ?s" by (simp add: sched_wf_def)
  have pr: "pri ?s x < NUM_PRI" for x using k p by (simp add: c kinv_dest)
  have "x \<in> set (rdy ?s)" if "state (tcbs ?s x) = TS_READY" "\<not> klockwait (tcbs ?s x)" for x
    using that k w(2) by (cases "x = t") (auto simp: c kinv_rdy)
  moreover have "state (tcbs ?s x) = TS_READY" if "klockwait (tcbs ?s x)" for x
    using that k by (cases "x = t") (auto simp: c kinv_def)
  ultimately show ?thesis
    unfolding kinv_def using sw dq one pl pr by blast
qed

text \<open>The tasks waiting for an object are not concerned.\<close>

lemma chg_ready_touches:
  assumes k: "kinv s" and st: "state (tcbs s t) = TS_READY" and p: "p < NUM_PRI"
  shows "touches lock_heads s (chg_ready t p s)"
proof (rule touchesI)
  have nt: "t \<notin> set (ques s q)" if "\<not> ready_head q" "q \<notin> lock_heads" for q
  proof
    assume "t \<in> set (ques s q)"
    then have "place_ok q (tcbs s t)" using kinv_dest(6) [OF k] by simp
    with st that show False by (cases q) (auto simp: lock_heads_def ready_head_def)
  qed
  show "ques (chg_ready t p s) q = ques s q" if q: "\<not> ready_head q" "q \<notin> lock_heads" for q
  proof (cases "q = QReady p")
    case False
    then show ?thesis using nt [OF q] by (simp add: chg_ready_ques)
  next
    case True
    then show ?thesis using q p by (simp add: ready_head_def)
  qed
  show "wview (tcbs (chg_ready t p s) x) = wview (tcbs s x)" if "\<not> ready_head q" "q \<notin> lock_heads" "x \<in> set (ques s q)" for q x
    using nt [OF that(1,2)] that(3) by (auto simp: chg_ready_tcbs)
qed

end
