(* ===== verification/Mutex_Inv.thy ===== *)
theory Mutex_Inv
  imports Mutex Priority
begin

text \<open>
  What the mutexes promise. \<open>pri_ok s t\<close>: the priority of task \<open>t\<close> is the highest of its base
  priority, the ceilings of the \<open>TA_CEILING\<close> mutexes it holds and the priorities of the tasks that
  wait for the \<open>TA_INHERIT\<close> mutexes it holds. The lists of held mutexes agree with the holders stored
  in the control blocks (\<open>mtx_own\<close>), and the waiting tasks are in the queues their TCBs name (\<open>placed\<close>).
\<close>

section \<open>The table of mutexes\<close>

definition mtx_view :: "kstate \<Rightarrow> nat \<Rightarrow> MTXCB \<times> waiter list" where
  "mtx_view s i = (mtxcb s i, waiters s (QMtx i))"

definition mtx_waiter :: "MTXCB \<Rightarrow> waiter \<Rightarrow> bool" where
  "mtx_waiter c w \<longleftrightarrow> (case w of (t, wi, d, sp, p) \<Rightarrow> d = mtxid c \<and> sp = mtx_wspec (mtxatr c AND TA_CEILING) \<and> mtxtsk c \<noteq> Some t)"

fun mtx_wf :: "nat \<Rightarrow> MTXCB \<times> waiter list \<Rightarrow> bool" where
  "mtx_wf i (c, ws) \<longleftrightarrow>
     (if mtxid c = 0 then ws = []
      else INDEX_OBJ (mtxid c) = i \<and> (mtxtsk c = None \<longrightarrow> ws = []) \<and> ceilpri c < NUM_PRI \<and>
        (mtxatr c AND TA_CEILING \<noteq> TA_TFIFO \<longrightarrow> sorted (map waiter_pri ws)) \<and> (\<forall>w\<in>set ws. mtx_waiter c w))"

definition mtx_agree :: "kstate \<Rightarrow> kstate \<Rightarrow> bool" where
  "mtx_agree s s' \<longleftrightarrow> mtxtab s' = mtxtab s"

lemma upd_mtx_sel [simp]:
  "tcbs (upd_mtx i f s) = tcbs s" "ques (upd_mtx i f s) = ques s" "kinv (upd_mtx i f s) \<longleftrightarrow> kinv s"
  "mtxcb (upd_mtx i f s) = (mtxcb s)(i := f (mtxcb s i))" "freeq (mtxtab (upd_mtx i f s)) = freeq (mtxtab s)"
  "maxid (mtxtab (upd_mtx i f s)) = maxid (mtxtab s)" "waiters (upd_mtx i f s) = waiters s" "rdy (upd_mtx i f s) = rdy s"
  "ctxtsk (upd_mtx i f s) = ctxtsk s" "num_proc (upd_mtx i f s) = num_proc s"
  by (simp_all add: upd_mtx_def mtxcb_def waiters_def fun_eq_iff rdy_def)

lemma set_free_mtx_sel [simp]:
  "tcbs (set_free_mtx f s) = tcbs s" "ques (set_free_mtx f s) = ques s" "kinv (set_free_mtx f s) \<longleftrightarrow> kinv s"
  "mtxcb (set_free_mtx f s) = mtxcb s" "freeq (mtxtab (set_free_mtx f s)) = f"
  "maxid (mtxtab (set_free_mtx f s)) = maxid (mtxtab s)" "waiters (set_free_mtx f s) = waiters s"
  by (simp_all add: set_free_mtx_def mtxcb_def waiters_def fun_eq_iff)

interpretation mtx_tab: obj_table mtx_ops mtx_view "\<lambda>v. mtxid (fst v)" mtx_wf mtx_agree "\<lambda>i. {QMtx i}"
proof unfold_locales
  show "mtx_agree s s' \<Longrightarrow> touches Q s s' \<Longrightarrow> {QMtx i} \<inter> Q = {} \<Longrightarrow> mtx_view s' i = mtx_view s i" for s s' Q i
    by (simp add: mtx_agree_def mtx_view_def mtxcb_def touchesD)
qed (auto simp: mtx_agree_def objs_same_def mtx_ops_def mtx_view_def mtx_waiter_def mtxcb_def)

abbreviation mtab_ok :: "kstate \<Rightarrow> bool" where
  "mtab_ok \<equiv> mtx_tab.table_ok"

lemma mtx_ops_sel [simp]:
  "oo_max mtx_ops s = maxid (mtxtab s)" "oo_free mtx_ops s = freeq (mtxtab s)" "oo_type mtx_ops = OT_MTX"
  "oo_set_id mtx_ops i x = upd_mtx i (\<lambda>c. c\<lparr>mtxid := x\<rparr>)" "oo_set_free mtx_ops = set_free_mtx"
  by (simp_all add: mtx_ops_def)

lemma mtx_index: "guards (CHECK_MTXID s mid # gs) = None \<Longrightarrow> INDEX_OBJ mid < maxid (mtxtab s)"
  by (auto simp: guards_None CHECK_MTXID_def intro: CHECK_OBJID_index)

lemma mtab_okD: "mtab_ok s \<Longrightarrow> i < maxid (mtxtab s) \<Longrightarrow> mtx_wf i (mtxcb s i, waiters s (QMtx i))"
  using mtx_tab.table_okD [of s i] by (simp add: mtx_view_def)

lemma mtab_ok_step:
  assumes "mtab_ok s" "maxid (mtxtab s') = maxid (mtxtab s)" "freeq (mtxtab s') = freeq (mtxtab s)"
    "\<And>j. j \<noteq> i \<Longrightarrow> mtxcb s' j = mtxcb s j" "touches {QMtx i} s s'" "mtxid (mtxcb s i) \<noteq> 0"
    "mtx_wf i (mtxcb s' i, waiters s' (QMtx i))"
  shows "mtab_ok s'"
  by (rule mtx_tab.table_ok_step [OF assms(1), where i = i])
    (use assms touchesD [OF assms(5)] in \<open>simp_all add: mtx_view_def\<close>)

section \<open>Who holds what\<close>

text \<open>The tasks of \<open>X\<close> are in the middle of an operation.\<close>

definition mtx_own :: "nat set \<Rightarrow> kstate \<Rightarrow> bool" where
  "mtx_own X s \<longleftrightarrow>
     (\<forall>h. h \<notin> X \<longrightarrow> distinct (mtxlist (tcbs s h)) \<and>
        set (mtxlist (tcbs s h)) = {i. i < maxid (mtxtab s) \<and> mtxid (mtxcb s i) \<noteq> 0 \<and> mtxtsk (mtxcb s i) = Some h}) \<and>
     (\<forall>i\<ge>maxid (mtxtab s). ques s (QMtx i) = [])"

text \<open>The queue a waiting task is linked into, by its \<open>wspec\<close> and \<open>wid\<close>.\<close>

fun wait_place :: "wspec_ref \<Rightarrow> ID \<Rightarrow> qhead option" where
  "wait_place Wspec_sem_tfifo d = Some (QSem (INDEX_OBJ d))"
| "wait_place Wspec_sem_tpri d = Some (QSem (INDEX_OBJ d))"
| "wait_place Wspec_flg_tfifo d = Some (QFlg (INDEX_OBJ d))"
| "wait_place Wspec_flg_tpri d = Some (QFlg (INDEX_OBJ d))"
| "wait_place Wspec_mbx_tfifo d = Some (QMbx (INDEX_OBJ d))"
| "wait_place Wspec_mbx_tpri d = Some (QMbx (INDEX_OBJ d))"
| "wait_place Wspec_mtx_tfifo d = Some (QMtx (INDEX_OBJ d))"
| "wait_place Wspec_mtx_tpri d = Some (QMtx (INDEX_OBJ d))"
| "wait_place Wspec_mtx_inherit d = Some (QMtx (INDEX_OBJ d))"
| "wait_place Wspec_mpf_tfifo d = Some (QMpf (INDEX_OBJ d))"
| "wait_place Wspec_mpf_tpri d = Some (QMpf (INDEX_OBJ d))"
| "wait_place Wspec_mpl_tfifo d = Some (QMpl (INDEX_OBJ d))"
| "wait_place Wspec_mpl_tpri d = Some (QMpl (INDEX_OBJ d))"
| "wait_place Wspec_smbf_tfifo d = Some (QSmbf (INDEX_OBJ d))"
| "wait_place Wspec_smbf_tpri d = Some (QSmbf (INDEX_OBJ d))"
| "wait_place Wspec_rmbf d = Some (QRmbf (INDEX_OBJ d))"
| "wait_place Wspec_cal_tfifo d = Some (QCal (INDEX_OBJ d))"
| "wait_place Wspec_cal_tpri d = Some (QCal (INDEX_OBJ d))"
| "wait_place Wspec_acp d = Some (QAcp (INDEX_OBJ d))"
| "wait_place Wspec_slp d = None"
| "wait_place Wspec_dly d = None"
| "wait_place Wspec_rdv d = None"
| "wait_place (Wspec_local w) d = None"

definition well_placed :: "kstate \<Rightarrow> nat \<Rightarrow> bool" where
  "well_placed s t \<longleftrightarrow> (\<forall>q. wait_place (wspec (tcbs s t)) (wid (tcbs s t)) = Some q \<longrightarrow> t \<in> set (ques s q)) \<and>
     (\<forall>w. wspec (tcbs s t) = Wspec_local w \<longrightarrow> chg_pri_hook w = None \<and> rel_wai_hook w = None)"

definition placed :: "kstate \<Rightarrow> bool" where
  "placed s \<longleftrightarrow> (\<forall>t. is_wait (state (tcbs s t)) \<longrightarrow> well_placed s t)"

lemma placedD:
  "placed s \<Longrightarrow> is_wait (state (tcbs s t)) \<Longrightarrow> wait_place (wspec (tcbs s t)) (wid (tcbs s t)) = Some q \<Longrightarrow> t \<in> set (ques s q)"
  unfolding placed_def well_placed_def by blast

lemma mtx_hook_place: "chg_pri_hook (wspec_at (wspec (tcbs s t))) = Some Mtx_chg_pri \<Longrightarrow> placed s \<Longrightarrow> is_wait (state (tcbs s t)) \<Longrightarrow>
    t \<in> set (ques s (QMtx (INDEX_OBJ (wid (tcbs s t)))))"
  by (rule placedD) (cases "wspec (tcbs s t)"; auto simp: placed_def well_placed_def)+

section \<open>The priority a task should have\<close>

definition mtx_claims :: "kstate \<Rightarrow> nat \<Rightarrow> nat list" where
  "mtx_claims s i =
    (if mtx_proto s i = TA_CEILING then [ceilpri (mtxcb s i)]
     else if mtx_proto s i = TA_INHERIT then map (pri s) (ques s (QMtx i)) else [])"

definition claims :: "kstate \<Rightarrow> nat \<Rightarrow> nat list" where
  "claims s t = bpriority (tcbs s t) # concat (map (mtx_claims s) (mtxlist (tcbs s t)))"

definition pri_ok :: "kstate \<Rightarrow> nat \<Rightarrow> bool" where
  "pri_ok s t \<longleftrightarrow> pri s t = Min (set (claims s t))"

definition is_min :: "nat set \<Rightarrow> nat \<Rightarrow> bool" where
  "is_min A m \<longleftrightarrow> m \<in> A \<and> (\<forall>a\<in>A. m \<le> a)"

lemma is_min_Min: "finite A \<Longrightarrow> A \<noteq> {} \<Longrightarrow> is_min A m \<longleftrightarrow> m = Min A"
  by (metis is_min_def Min_in Min_le Min_eqI)

lemma is_min_set: "xs \<noteq> [] \<Longrightarrow> is_min (set xs) m \<longleftrightarrow> m = Min (set xs)"
  by (simp add: is_min_Min)

lemma is_min_insert: "is_min A m \<Longrightarrow> is_min (insert m B) k \<Longrightarrow> is_min (A \<union> B) k"
  by (fastforce simp: is_min_def)

lemma pri_ok_iff: "pri_ok s t \<longleftrightarrow> is_min (set (claims s t)) (pri s t)"
  unfolding pri_ok_def by (rule is_min_set [symmetric]) (simp add: claims_def)

text \<open>
  A queue in the order of the priorities: \<open>mtx_head_pri\<close> is the highest. The scan of \<open>release_mutex\<close>
  carries the last priority it looked at along, which has no effect.
\<close>

lemma mtx_claims_head:
  assumes "sorted (map (pri s) (ques s (QMtx i)))" and "mtx_waited s i"
  shows "is_min (set (map (pri s) (ques s (QMtx i)))) (mtx_head_pri s i)"
  using assms by (cases "ques s (QMtx i)") (auto simp: mtx_waited_def mtx_head_pri_def is_min_def)

definition mtx_sorted :: "kstate \<Rightarrow> nat list \<Rightarrow> bool" where
  "mtx_sorted s is \<longleftrightarrow> (\<forall>i\<in>set is. mtx_proto s i = TA_INHERIT \<longrightarrow> sorted (map (pri s) (ques s (QMtx i))))"

lemma release_scan_min:
  assumes "mtx_sorted s is" and "newpri \<le> p"
  shows "release_scan s rel is newpri p =
    Min (set (newpri # concat (map (mtx_claims s) (filter (\<lambda>i. rel \<noteq> Some i) is))))"
  using assms
proof (induction s rel "is" newpri p rule: release_scan.induct)
  case (2 s rel i "is" newpri p)
  show ?case
  proof (cases "rel = Some i")
    case True
    with 2 show ?thesis by (simp add: mtx_sorted_def)
  next
    case False
    define p' where "p' = (if mtx_proto s i = TA_CEILING then ceilpri (mtxcb s i)
      else if mtx_proto s i = TA_INHERIT then (if mtx_waited s i then mtx_head_pri s i else p) else p)"
    have m: "is_min (set (newpri # mtx_claims s i)) (min newpri p')"
    proof (cases "mtx_proto s i = TA_INHERIT \<and> mtx_waited s i")
      case True
      then have "is_min (set (map (pri s) (ques s (QMtx i)))) (mtx_head_pri s i)"
        using mtx_claims_head 2(3) by (simp add: mtx_sorted_def)
      then show ?thesis
        using True by (auto simp: is_min_def p'_def mtx_claims_def TA_INHERIT_def TA_CEILING_def min_def)
    next
      case no: False
      then show ?thesis
        using 2(4) by (auto simp: is_min_def p'_def mtx_claims_def mtx_waited_def)
    qed
    let ?r = "concat (map (mtx_claims s) (filter (\<lambda>i. rel \<noteq> Some i) is))"
    have "release_scan s rel (i # is) newpri p = release_scan s rel is (min newpri p') p'"
      using False by (simp add: p'_def [symmetric] min_def)
    also have "\<dots> = Min (set (min newpri p' # ?r))"
    proof -
      have mn: "(if newpri > p' then p' else newpri) = min newpri p'" by auto
      have "mtx_sorted s is" using 2(3) by (simp add: mtx_sorted_def)
      from 2(2) [OF False p'_def this, unfolded mn] show ?thesis by simp
    qed
    also have "\<dots> = Min (set (newpri # mtx_claims s i @ ?r))"
    proof -
      have "is_min (set (min newpri p' # ?r)) (Min (set (min newpri p' # ?r)))" by (subst is_min_set) simp_all
      then have "is_min (insert (min newpri p') (set ?r)) (Min (set (min newpri p' # ?r)))" by simp
      from is_min_insert [OF m this] have "is_min (set (newpri # mtx_claims s i @ ?r)) (Min (set (min newpri p' # ?r)))" by simp
      then show ?thesis by (subst (asm) is_min_set) simp_all
    qed
    finally show ?thesis using False by simp
  qed
qed simp

end
