(* ===== verification/Task_Sync.thy ===== *)
theory Task_Sync
  imports Message_Base Mutex_Inv
begin

text \<open>
  Synchronisation of tasks, \<^verbatim>\<open>task_sync.c\<close>: suspending and resuming, sleeping and waking up, task events.
  All of it works on one task and leaves the objects and their queues alone; this is the relation \<open>quiet\<close>,
  which every call is shown to keep.
\<close>

section \<open>The shape of the calls on tasks\<close>

definition get_tcb :: "ID \<Rightarrow> nat" where
  "get_tcb i = INDEX_OBJ i"

definition get_tcb_self :: "nat \<Rightarrow> kstate \<Rightarrow> ID \<Rightarrow> nat option" where
  "get_tcb_self prid s i = (if i = TSK_SELF then ctxtsk s prid else Some (get_tcb i))"

text \<open>
  \<open>pchk\<close> is the protection check the call uses; \<open>dsp\<close> tells which macro ends the critical section. \<open>body\<close>
  is the part behind the checks.
\<close>

definition tsk_call :: "(ID \<Rightarrow> ID \<Rightarrow> ATR \<Rightarrow> ER option) \<Rightarrow> bool \<Rightarrow> (bool \<times> ER) list \<Rightarrow> nat \<Rightarrow> ID \<Rightarrow>
    (nat \<Rightarrow> kstate \<Rightarrow> (int \<times> kstate) option) \<Rightarrow> kstate \<Rightarrow> (int \<times> kstate) option" where
  "tsk_call pchk dsp gs prid tid body s =
    (case guards gs of
       Some e \<Rightarrow> Some (e, s)
     | None \<Rightarrow> do {
         t \<leftarrow> get_tcb_self prid s tid;
         if state (tcbs s t) = TS_NONEXIST then leave_critical dsp E_NOEXS s
         else do {
           ercd \<leftarrow> pchk tid (tskid (tcbs s t)) (tskatr (tcbs s t));
           if ercd \<noteq> E_OK then leave_critical dsp ercd s else body t s
         }
       })"

section \<open>Suspending and resuming\<close>

definition tk_sus_tsk :: "nat \<Rightarrow> ID \<Rightarrow> kstate \<Rightarrow> (ER \<times> kstate) option" where
  "tk_sus_tsk prid tid s =
    tsk_call (mp_check_domain_and_protection prid s) True (CHECK_TSKID prid s tid @ [CHECK_NONSELF prid s tid]) prid tid
      (\<lambda>t s. if state (tcbs s t) = TS_DORMANT then end_critical E_OBJ s
             else if is_ctxtsk s t \<and> dispatch_disabled s (get_prid_from_ctx s t) \<ge> DDS_DISABLE then end_critical E_CTX s
             else if suscnt (tcbs s t) = INT_MAX then end_critical E_QOVR s
             else
               (let s = upd_tcb t (\<lambda>c. c\<lparr>suscnt := suscnt c + 1\<rparr>) s
                in if state (tcbs s t) = TS_READY then
                     do { s \<leftarrow> make_non_ready t s; end_critical E_OK (upd_tcb t (\<lambda>c. c\<lparr>state := TS_SUSPEND\<rparr>) s) }
                   else if state (tcbs s t) = TS_WAIT then end_critical E_OK (upd_tcb t (\<lambda>c. c\<lparr>state := TS_WAITSUS\<rparr>) s)
                   else end_critical E_OK s)) s"

definition tk_rsm_tsk :: "nat \<Rightarrow> ID \<Rightarrow> kstate \<Rightarrow> (ER \<times> kstate) option" where
  "tk_rsm_tsk prid tid s =
    tsk_call (mp_check_domain_and_protection prid s) True (CHECK_TSKID prid s tid @ [CHECK_NONSELF prid s tid]) prid tid
      (\<lambda>t s. case state (tcbs s t) of
         TS_SUSPEND \<Rightarrow>
           (let s = upd_tcb t (\<lambda>c. c\<lparr>suscnt := suscnt c - 1\<rparr>) s
            in end_critical E_OK (if suscnt (tcbs s t) = 0 then make_ready t s else s))
       | TS_WAITSUS \<Rightarrow>
           (let s = upd_tcb t (\<lambda>c. c\<lparr>suscnt := suscnt c - 1\<rparr>) s
            in end_critical E_OK (if suscnt (tcbs s t) = 0 then upd_tcb t (\<lambda>c. c\<lparr>state := TS_WAIT\<rparr>) s else s))
       | TS_NONEXIST \<Rightarrow> end_critical E_SYS s
       | _ \<Rightarrow> end_critical E_OBJ s) s"

definition tk_frsm_tsk :: "nat \<Rightarrow> ID \<Rightarrow> kstate \<Rightarrow> (ER \<times> kstate) option" where
  "tk_frsm_tsk prid tid s =
    tsk_call (mp_check_domain_and_protection prid s) True (CHECK_TSKID prid s tid @ [CHECK_NONSELF prid s tid]) prid tid
      (\<lambda>t s. case state (tcbs s t) of
         TS_SUSPEND \<Rightarrow> end_critical E_OK (make_ready t (upd_tcb t (\<lambda>c. c\<lparr>suscnt := 0\<rparr>) s))
       | TS_WAITSUS \<Rightarrow> end_critical E_OK (upd_tcb t (\<lambda>c. c\<lparr>suscnt := 0, state := TS_WAIT\<rparr>) s)
       | TS_NONEXIST \<Rightarrow> end_critical E_SYS s
       | _ \<Rightarrow> end_critical E_OBJ s) s"

section \<open>Sleeping and waking up\<close>

definition tk_slp_tsk :: "nat \<Rightarrow> TMO \<Rightarrow> kstate \<Rightarrow> (ER \<times> kstate) option" where
  "tk_slp_tsk prid tmout s =
    (case guards [CHECK_TMOUT tmout, CHECK_DISPATCH prid s] of
       Some e \<Rightarrow> Some (e, s)
     | None \<Rightarrow> do {
         t \<leftarrow> ctxtsk s prid;
         if waitmask (tcbs s t) AND TTW_SLP \<noteq> 0 then end_critical E_DISWAI s
         else if wupcnt (tcbs s t) > 0 then end_critical E_OK (upd_tcb t (\<lambda>c. c\<lparr>wupcnt := wupcnt c - 1\<rparr>) s)
         else if tmout = TMO_POL then end_critical E_TMOUT s
         else do {
           s \<leftarrow> make_wait prid tmout 0 (upd_tcb t (\<lambda>c. c\<lparr>wspec := Wspec_slp, wid := 0, wercd := E_TMOUT\<rparr>) s);
           end_critical (wercd (tcbs s t)) s
         }
       })"

definition tk_wup_tsk :: "nat \<Rightarrow> ID \<Rightarrow> kstate \<Rightarrow> (ER \<times> kstate) option" where
  "tk_wup_tsk prid tid s =
    tsk_call (mp_check_domain_and_protection prid s) True (CHECK_TSKID prid s tid @ [CHECK_NONSELF prid s tid]) prid tid
      (\<lambda>t s. if state (tcbs s t) = TS_DORMANT then end_critical E_OBJ s
             else if is_wait (state (tcbs s t)) \<and> wspec (tcbs s t) = Wspec_slp then end_critical E_OK (wait_release_ok t s)
             else if wupcnt (tcbs s t) = INT_MAX then end_critical E_QOVR s
             else end_critical E_OK (upd_tcb t (\<lambda>c. c\<lparr>wupcnt := wupcnt c + 1\<rparr>) s)) s"

definition tk_can_wup :: "nat \<Rightarrow> ID \<Rightarrow> kstate \<Rightarrow> (int \<times> kstate) option" where
  "tk_can_wup prid tid s =
    tsk_call (mp_check_domain_and_protection prid s) True [CHECK_TSKID_SELF prid s tid] prid tid
      (\<lambda>t s. if state (tcbs s t) = TS_DORMANT then end_critical E_OBJ s
             else end_critical (wupcnt (tcbs s t)) (upd_tcb t (\<lambda>c. c\<lparr>wupcnt := 0\<rparr>) s)) s"

section \<open>Task events\<close>

definition toTTW :: "UW \<Rightarrow> UW" where
  "toTTW evtmask = push_bit 16 evtmask"

definition toEVT :: "UW \<Rightarrow> UB" where
  "toEVT w = ucast (drop_bit 16 w)"

definition tk_wai_tev :: "nat \<Rightarrow> int \<Rightarrow> TMO \<Rightarrow> kstate \<Rightarrow> (int \<times> kstate) option" where
  "tk_wai_tev prid waiptn tmout s =
    (let ptn = word_of_int waiptn :: UW
     in case guards [CHECK_TMOUT tmout, CHECK_PAR (ptn AND NOT 0xff = 0 \<and> ptn AND 0xff \<noteq> 0), CHECK_DISPATCH prid s] of
       Some e \<Rightarrow> Some (e, s)
     | None \<Rightarrow> do {
         t \<leftarrow> ctxtsk s prid;
         if waitmask (tcbs s t) AND toTTW ptn \<noteq> 0 then end_critical E_DISWAI s
         else if ucast (tskevt (tcbs s t)) AND ptn \<noteq> 0 then
           end_critical (uint (tskevt (tcbs s t))) (upd_tcb t (\<lambda>c. c\<lparr>tskevt := tskevt c AND ucast (NOT ptn)\<rparr>) s)
         else if tmout = TMO_POL then end_critical E_TMOUT s
         else do {
           s \<leftarrow> make_wait prid tmout 0 (upd_tcb t (\<lambda>c. c\<lparr>
               wspec := Wspec_local \<lparr>tskwait = toTTW ptn, chg_pri_hook = None, rel_wai_hook = None\<rparr>, wid := 0, wercd := E_TMOUT\<rparr>) s);
           end_critical (wercd (tcbs s t)) s
         }
       })"

definition tk_sig_tev :: "nat \<Rightarrow> ID \<Rightarrow> int \<Rightarrow> kstate \<Rightarrow> (ER \<times> kstate) option" where
  "tk_sig_tev prid tid ev s =
    tsk_call (mp_check_domain_and_protection_tsk prid s) True
      [CHECK_TSKID_SELF prid s tid, CHECK_PAR (ev \<ge> 1 \<and> ev \<le> 8)] prid tid
      (\<lambda>t s. let evtmsk = push_bit (nat (ev - 1)) 1 :: UW
             in if state (tcbs s t) = TS_DORMANT then end_critical E_OBJ s
                else if is_wait (state (tcbs s t)) \<and> tskwait (wspec_at (wspec (tcbs s t))) AND toTTW evtmsk \<noteq> 0 then
                  end_critical E_OK (wait_release_ok_ercd t (sint (ucast (tskevt (tcbs s t)) OR evtmsk)) s)
                else end_critical E_OK (upd_tcb t (\<lambda>c. c\<lparr>tskevt := tskevt c OR ucast evtmsk\<rparr>) s)) s"

section \<open>Steps that leave the objects alone\<close>

text \<open>The queues of the locks and the queue of free control blocks hold tasks, but belong to no object.\<close>

definition task_heads :: "qhead set" where
  "task_heads = lock_heads \<union> {QFreeTcb}"

definition quiet :: "kstate \<Rightarrow> kstate \<Rightarrow> bool" where
  "quiet s s' \<longleftrightarrow> kinv s' \<and> objs_same s s' \<and> touches task_heads s s'"

lemma quiet_refl: "kinv s \<Longrightarrow> quiet s s"
  by (simp add: quiet_def)

lemma quiet_trans: "quiet a b \<Longrightarrow> quiet b c \<Longrightarrow> quiet a c"
  unfolding quiet_def using objs_same_trans touches_trans by blast

lemma quiet_kinv: "quiet s s' \<Longrightarrow> kinv s'"
  by (simp add: quiet_def)

lemma quiet_end: "quiet s u \<Longrightarrow> end_critical r u = Some (e, s') \<Longrightarrow> quiet s s'"
  using end_critical_result [of r u e s'] quiet_trans [of s u s'] by (auto simp: quiet_def intro: objs_same_sched touches_sched)

lemma quiet_leave: "quiet s u \<Longrightarrow> leave_critical d r u = Some (e, s') \<Longrightarrow> quiet s s'"
  using quiet_end by (auto simp: leave_critical_def split: if_splits)

lemma quiet_upd:
  assumes k: "kinv s" and f: "wview (f (tcbs s t)) = wview (tcbs s t)" "state (f (tcbs s t)) = state (tcbs s t)" "klockwait (f (tcbs s t)) = klockwait (tcbs s t)"
  shows "quiet s (upd_tcb t f s)"
  unfolding quiet_def
proof (intro conjI)
  show "kinv (upd_tcb t f s)" by (rule kinv_tcb_upd [OF k]) (use f in \<open>simp_all add: wview_def\<close>)
  show "touches task_heads s (upd_tcb t f s)" by (rule touchesI) (use f in auto)
qed simp

lemma tsk_call_quiet:
  assumes k: "kinv s" and r: "tsk_call pchk dsp gs prid tid body s = Some (e, s')"
    and b: "\<And>t. guards gs = None \<Longrightarrow> get_tcb_self prid s tid = Some t \<Longrightarrow> state (tcbs s t) \<noteq> TS_NONEXIST \<Longrightarrow>
      body t s = Some (e, s') \<Longrightarrow> quiet s s'"
  shows "quiet s s'"
proof -
  consider "s' = s" | x where "leave_critical dsp x s = Some (e, s')"
    | t where "guards gs = None" "get_tcb_self prid s tid = Some t" "state (tcbs s t) \<noteq> TS_NONEXIST" "body t s = Some (e, s')"
    using r by (auto simp: tsk_call_def split: option.splits Option.bind_splits if_splits)
  then show ?thesis
  proof cases
    case 1
    then show ?thesis using quiet_refl [OF k] by simp
  next
    case 2
    then show ?thesis by (rule quiet_leave [OF quiet_refl [OF k]])
  next
    case 3
    then show ?thesis by (rule b)
  qed
qed

section \<open>Suspended tasks\<close>

text \<open>A task that waits for a lock leaves the queue of the lock.\<close>

lemma klock_leave:
  assumes k: "kinv s" and w: "klockwait (tcbs s t)"
  shows "kinv_but t (ready_queue_delete t s)" "rdy (ready_queue_delete t s) = rdy s" "make_non_ready t s = Some (ready_queue_delete t s)"
proof -
  let ?k = "s\<lparr>rq_klocktsk := (if rq_klocktsk s = Some t then None else rq_klocktsk s)\<rparr>"
  let ?q = "QueRemove_tsk t ?k"
  let ?b = "if ques ?q (QReady (pri s t)) = [] then tstdlib_bitclr (rq_bitmap s) (int (pri s t)) else rq_bitmap s"
  have nr: "t \<notin> set (rdy s)" using kinv_rdy [OF k] w by simp
  have kk: "kinv ?k" using k by simp
  have b0: "kinv_but t ?q" "rdy ?q = rdy s"
  proof -
    show "kinv_but t ?q" by (rule kinv_but_remove [OF kk]) (use nr in \<open>simp add: rdy_def\<close>)
    have "distinct (rdy ?k)" using rdy_distinct [OF kinv_dest(2) [OF k]] by (simp add: rdy_def)
    from rdy_remove [OF this, of t] nr show "rdy ?q = rdy s" by (simp add: rdy_def)
  qed
  have p: "pri s t < NUM_PRI" using k by (simp add: kinv_dest)
  have bm: "rq_wf (?q\<lparr>rq_bitmap := ?b\<rparr>) \<and> rdy (?q\<lparr>rq_bitmap := ?b\<rparr>) = rdy ?q"
  proof -
    have "rq_wf ?q" using b0(1) by (simp add: kinv_but_def sched_wf_def)
    then have q: "rq_wf ?q" "rq_bits ?q" by (simp_all add: rq_wf_def)
    have r: "rdy (?q\<lparr>rq_bitmap := ?b\<rparr>) = rdy ?q" by (simp add: rdy_def)
    have "rq_bits (?q\<lparr>rq_bitmap := ?b\<rparr>)"
    proof (cases "ques ?q (QReady (pri s t)) = []")
      case True
      have e: "rq_bitmap ?q = rq_bitmap s" by (simp add: QueRemove_tsk_def)
      note c = bits_clr [OF q(2) p, unfolded e]
      show ?thesis
        unfolding rq_bits_def
      proof (intro conjI allI impI)
        fix p' assume "p' < NUM_PRI"
        from c(2) [OF this] show "bit_at (rq_bitmap (?q\<lparr>rq_bitmap := ?b\<rparr>)) p' \<longleftrightarrow> ques (?q\<lparr>rq_bitmap := ?b\<rparr>) (QReady p') \<noteq> []"
          using True by auto
      qed (use True c(1) in simp)
    next
      case False
      have "rq_bitmap ?q = rq_bitmap s" by (simp add: QueRemove_tsk_def)
      then show ?thesis using q(2) False by (simp add: rq_bits_def)
    qed
    then show ?thesis using q(1) r by (simp add: rq_wf_def rq_prios_def rq_tops_def)
  qed
  have kb: "kinv_but t (?q\<lparr>rq_bitmap := ?b\<rparr>)"
    using b0(1) bm unfolding kinv_but_def sched_wf_def rdy_excl_def sched_in_def by simp
  have del: "ready_queue_delete t s = upd_tcb t (\<lambda>c. c\<lparr>klockwait := False\<rparr>) (?q\<lparr>rq_bitmap := ?b\<rparr>)"
    using w by (simp add: ready_queue_delete_def rq_unlink_def Let_def QueRemove_tsk_def)
  show "kinv_but t (ready_queue_delete t s)" "rdy (ready_queue_delete t s) = rdy s"
    unfolding del using kinv_but_upd [OF kb, of "\<lambda>c. c\<lparr>klockwait := False\<rparr>"] p bm b0(2) by simp_all
  have "\<not> is_schedtsk (ready_queue_delete t s) t"
    using kinv_dest(1) [OF k] nr by (auto simp: is_schedtsk_def sched_wf_def sched_in_def)
  then show "make_non_ready t s = Some (ready_queue_delete t s)" by (simp add: make_non_ready_def)
qed

text \<open>A ready task becomes suspended.\<close>

lemma suspend_ready:
  assumes k: "kinv s" and st: "state (tcbs s t) = TS_READY"
  shows "\<exists>u. make_non_ready t s = Some u \<and> quiet s (upd_tcb t (\<lambda>c. c\<lparr>state := TS_SUSPEND\<rparr>) u)"
proof -
  have nq: "t \<notin> set (ques s q)" if "\<not> ready_head q" "\<not> klockwait (tcbs s t)" for q
    using that ready_not_waiting [OF k] kinv_rdy [OF k] st by blast
  have "\<exists>u. make_non_ready t s = Some u \<and> kinv_but t u \<and> \<not> klockwait (tcbs u t) \<and> objs_same s u \<and>
      (\<forall>q. \<not> ready_head q \<longrightarrow> ques u q = remove1 t (ques s q)) \<and> (\<forall>x. wview (tcbs u x) = wview (tcbs s x))"
  proof (cases "klockwait (tcbs s t)")
    case True
    note kl = klock_leave [OF k True]
    show ?thesis using kl by (intro exI [of _ "ready_queue_delete t s"]) (simp add: wview_def objs_same_delete)
  next
    case False
    then have "t \<in> set (rdy s)" using kinv_rdy [OF k] st by simp
    from kinv_but_non_ready [OF k this] obtain u where u: "make_non_ready t s = Some u" "kinv_but t u"
      "sched_frame (ready_queue_delete t s) u" "tcbs u = tcbs s" by blast
    show ?thesis
      using u False objs_same_trans [OF objs_same_delete objs_same_sched [OF u(3)]] sched_frame_ques [OF u(3)]
      by (intro exI [of _ u]) simp
  qed
  then obtain u where u: "make_non_ready t s = Some u" "kinv_but t u" "\<not> klockwait (tcbs u t)" "objs_same s u"
    "\<And>q. \<not> ready_head q \<Longrightarrow> ques u q = remove1 t (ques s q)" "\<And>x. wview (tcbs u x) = wview (tcbs s x)" by blast
  let ?u = "upd_tcb t (\<lambda>c. c\<lparr>state := TS_SUSPEND\<rparr>) u"
  show ?thesis
  proof (intro exI conjI)
    show "make_non_ready t s = Some u" by (fact u(1))
    have b: "kinv_but t ?u" by (rule kinv_but_upd [OF u(2)]) (use u(2) in \<open>simp add: kinv_but_def\<close>)
    show "quiet s ?u"
      unfolding quiet_def
    proof (intro conjI)
      show "kinv ?u" by (rule kinv_but_rest [OF b]) (use u(3) in simp_all)
      show "objs_same s ?u" using u(4) by simp
      show "touches task_heads s ?u"
      proof (rule touchesI)
        show "wview (tcbs ?u x) = wview (tcbs s x)" for x
          using u(6) [of x] by (cases "x = t") (simp_all add: wview_def)
        show "ques ?u q = ques s q" if q: "\<not> ready_head q" "q \<notin> task_heads" for q
        proof -
          have "t \<notin> set (ques s q)"
          proof
            assume "t \<in> set (ques s q)"
            from kinv_dest(6) [OF k this] q st show False by (cases q) (auto simp: task_heads_def lock_heads_def ready_head_def)
          qed
          then show ?thesis using u(5) [OF q(1)] by (simp add: remove1_idem)
        qed
      qed
    qed
  qed
qed

text \<open>A suspended task is in no queue, and can become ready.\<close>

lemma no_queue:
  assumes "kinv s" and "\<not> is_wait (state (tcbs s t))" and "state (tcbs s t) \<noteq> TS_READY" and "state (tcbs s t) \<noteq> TS_NONEXIST"
  shows "t \<notin> set (ques s q)"
proof
  assume "t \<in> set (ques s q)"
  from kinv_dest(6) [OF assms(1) this] assms(2-) show False by (cases q) auto
qed

lemma quiet_make_ready:
  assumes k: "kinv s" and st: "\<not> is_wait (state (tcbs s t))" "state (tcbs s t) \<noteq> TS_READY" "state (tcbs s t) \<noteq> TS_NONEXIST"
  shows "quiet s (make_ready t s)"
proof -
  have nq: "\<And>q. t \<notin> set (ques s q)" using no_queue [OF k st(1,2,3)] .
  have kl: "\<not> klockwait (tcbs s t)" using k st(2) unfolding kinv_def by blast
  note m = kinv_but_ready [OF kinv_but_alone [OF k nq] kl]
  have p: "pri s t < NUM_PRI" using k by (simp add: kinv_dest)
  have q: "ques (make_ready t s) q = (if q = QReady (pri s t) then ques s q @ [t] else ques s q)" for q
    by (simp add: make_ready_def ready_queue_insert_sel QueInsert_tail_def set_que_def)
  show ?thesis
    unfolding quiet_def
  proof (intro conjI)
    show "kinv (make_ready t s)" by (fact m(1))
    show "objs_same s (make_ready t s)" by (simp add: objs_same_def)
    show "touches task_heads s (make_ready t s)"
      by (rule touchesI) (use p nq in \<open>auto simp: q ready_head_def\<close>)
  qed
qed

text \<open>The change between waiting and waiting-suspended.\<close>

lemma quiet_waitsus:
  assumes k: "kinv s" and st: "is_wait (state (tcbs s t))" "is_wait (state (f (tcbs s t)))"
    and f: "wview (f (tcbs s t)) = wview (tcbs s t)" "klockwait (f (tcbs s t)) = klockwait (tcbs s t)"
  shows "quiet s (upd_tcb t f s)"
proof -
  have kl: "\<not> klockwait (tcbs s t)" "t \<notin> set (rdy s)" using kinv_waitD [OF k st(1)] by simp_all
  have pr: "priority (f (tcbs s t)) = pri s t" using f(1) by (simp add: wview_def)
  have w: "sched_wf (upd_tcb t f s)" "rdy (upd_tcb t f s) = rdy s"
    by (rule sched_wf_cong [of _ s]; use k pr in \<open>auto simp: kinv_def\<close>)+
  have pl: "place_ok q (tcbs (upd_tcb t f s) x)" if "x \<in> set (ques s q)" for q x
  proof (cases "x = t")
    case True
    from kinv_dest(6) [OF k that] st show ?thesis unfolding True by (cases q) (auto simp: is_wait_def)
  next
    case False
    then show ?thesis using kinv_dest(6) [OF k that] by simp
  qed
  have nr: "state (f (tcbs s t)) \<noteq> TS_READY" using st(2) by auto
  have "kinv (upd_tcb t f s)"
    unfolding kinv_def w(2) upd_tcb_frame
  proof (intro conjI allI impI)
    show "sched_wf (upd_tcb t f s)" by (fact w(1))
    show "distinct (ques s q)" for q using k by (simp add: kinv_dest)
    show "q = q'" if "x \<in> set (ques s q) \<and> x \<in> set (ques s q')" for q q' x using kinv_dest(7) [OF k] that by blast
    show "pri (upd_tcb t f s) x < NUM_PRI" for x using kinv_dest(4) [OF k] pr by simp
    show "place_ok q (tcbs (upd_tcb t f s) x)" if "x \<in> set (ques s q)" for q x by (rule pl [OF that])
    show "x \<in> set (rdy s)" if "state (tcbs (upd_tcb t f s) x) = TS_READY \<and> \<not> klockwait (tcbs (upd_tcb t f s) x)" for x
      using that nr kinv_rdy [OF k, of x] by (cases "x = t") simp_all
    show "state (tcbs (upd_tcb t f s) x) = TS_READY" if "klockwait (tcbs (upd_tcb t f s) x)" for x
      using that kl f(2) k by (cases "x = t") (simp_all add: kinv_def)
  qed
  then show ?thesis
    unfolding quiet_def by (auto intro!: touchesI simp: f(1))
qed

section \<open>The calls keep the invariants\<close>

lemma tk_sus_tsk_quiet:
  assumes k: "kinv s" and r: "tk_sus_tsk prid tid s = Some (e, s')"
  shows "quiet s s'"
proof (rule tsk_call_quiet [OF k r [unfolded tk_sus_tsk_def]])
  fix t
  let ?s = "upd_tcb t (\<lambda>c. c\<lparr>suscnt := suscnt c + 1\<rparr>) s"
  have q: "quiet s ?s" by (rule quiet_upd [OF k]) (simp_all add: wview_def)
  assume "(if state (tcbs s t) = TS_DORMANT then end_critical E_OBJ s
             else if is_ctxtsk s t \<and> dispatch_disabled s (get_prid_from_ctx s t) \<ge> DDS_DISABLE then end_critical E_CTX s
             else if suscnt (tcbs s t) = INT_MAX then end_critical E_QOVR s
             else
               (let s = ?s
                in if state (tcbs s t) = TS_READY then
                     do { s \<leftarrow> make_non_ready t s; end_critical E_OK (upd_tcb t (\<lambda>c. c\<lparr>state := TS_SUSPEND\<rparr>) s) }
                   else if state (tcbs s t) = TS_WAIT then end_critical E_OK (upd_tcb t (\<lambda>c. c\<lparr>state := TS_WAITSUS\<rparr>) s)
                   else end_critical E_OK s)) = Some (e, s')"
  then consider x where "end_critical x s = Some (e, s')"
    | u where "state (tcbs ?s t) = TS_READY" "make_non_ready t ?s = Some u" "end_critical E_OK (upd_tcb t (\<lambda>c. c\<lparr>state := TS_SUSPEND\<rparr>) u) = Some (e, s')"
    | "state (tcbs ?s t) = TS_WAIT" "end_critical E_OK (upd_tcb t (\<lambda>c. c\<lparr>state := TS_WAITSUS\<rparr>) ?s) = Some (e, s')"
    | "end_critical E_OK ?s = Some (e, s')"
    by (auto simp: Let_def split: if_splits Option.bind_splits)
  then show "quiet s s'"
  proof cases
    case 1
    then show ?thesis by (rule quiet_end [OF quiet_refl [OF k]])
  next
    case 2
    from suspend_ready [OF quiet_kinv [OF q] 2(1)] 2(2) have "quiet ?s (upd_tcb t (\<lambda>c. c\<lparr>state := TS_SUSPEND\<rparr>) u)" by simp
    then show ?thesis by (rule quiet_end [OF quiet_trans [OF q] 2(3)])
  next
    case 3
    have "quiet ?s (upd_tcb t (\<lambda>c. c\<lparr>state := TS_WAITSUS\<rparr>) ?s)"
      by (rule quiet_waitsus [OF quiet_kinv [OF q]]) (use 3(1) in \<open>simp_all add: wview_def\<close>)
    then show ?thesis by (rule quiet_end [OF quiet_trans [OF q] 3(2)])
  next
    case 4
    then show ?thesis by (rule quiet_end [OF q])
  qed
qed

lemma quiet_resume:
  assumes k: "kinv s" and st: "state (tcbs s t) = TS_SUSPEND" and f: "wview (f (tcbs s t)) = wview (tcbs s t)"
    "state (f (tcbs s t)) = state (tcbs s t)" "klockwait (f (tcbs s t)) = klockwait (tcbs s t)"
  shows "quiet s (make_ready t (upd_tcb t f s))"
proof -
  have q: "quiet s (upd_tcb t f s)" by (rule quiet_upd [where f = f and t = t, OF k f])
  show ?thesis by (rule quiet_trans [OF q quiet_make_ready [OF quiet_kinv [OF q]]]) (use st f(2) in simp_all)
qed

lemma tk_rsm_tsk_quiet:
  assumes k: "kinv s" and r: "tk_rsm_tsk prid tid s = Some (e, s')"
  shows "quiet s s'"
proof (rule tsk_call_quiet [OF k r [unfolded tk_rsm_tsk_def]])
  fix t
  let ?f = "\<lambda>c :: tcb. c\<lparr>suscnt := suscnt c - 1\<rparr>"
  let ?s = "upd_tcb t ?f s"
  have q: "quiet s ?s" by (rule quiet_upd [OF k]) (simp_all add: wview_def)
  assume b: "(case state (tcbs s t) of
         TS_SUSPEND \<Rightarrow> (let s = ?s in end_critical E_OK (if suscnt (tcbs s t) = 0 then make_ready t s else s))
       | TS_WAITSUS \<Rightarrow> (let s = ?s in end_critical E_OK (if suscnt (tcbs s t) = 0 then upd_tcb t (\<lambda>c. c\<lparr>state := TS_WAIT\<rparr>) s else s))
       | TS_NONEXIST \<Rightarrow> end_critical E_SYS s
       | _ \<Rightarrow> end_critical E_OBJ s) = Some (e, s')"
  consider x where "end_critical x s = Some (e, s')" | "end_critical E_OK ?s = Some (e, s')"
    | "state (tcbs s t) = TS_SUSPEND" "end_critical E_OK (make_ready t ?s) = Some (e, s')"
    | "state (tcbs s t) = TS_WAITSUS" "end_critical E_OK (upd_tcb t (\<lambda>c. c\<lparr>state := TS_WAIT\<rparr>) ?s) = Some (e, s')"
    using b by (auto simp: Let_def split: TSTAT.splits if_splits)
  then show "quiet s s'"
  proof cases
    case 1
    then show ?thesis by (rule quiet_end [OF quiet_refl [OF k]])
  next
    case 2
    then show ?thesis by (rule quiet_end [OF q])
  next
    case 3
    have "quiet s (make_ready t ?s)" by (rule quiet_resume [OF k 3(1)]) (simp_all add: wview_def)
    then show ?thesis by (rule quiet_end [OF _ 3(2)])
  next
    case 4
    have "quiet ?s (upd_tcb t (\<lambda>c. c\<lparr>state := TS_WAIT\<rparr>) ?s)"
      by (rule quiet_waitsus [OF quiet_kinv [OF q]]) (use 4(1) in \<open>simp_all add: wview_def\<close>)
    then show ?thesis by (rule quiet_end [OF quiet_trans [OF q] 4(2)])
  qed
qed

lemma tk_frsm_tsk_quiet:
  assumes k: "kinv s" and r: "tk_frsm_tsk prid tid s = Some (e, s')"
  shows "quiet s s'"
proof (rule tsk_call_quiet [OF k r [unfolded tk_frsm_tsk_def]])
  fix t
  let ?s = "upd_tcb t (\<lambda>c. c\<lparr>suscnt := 0\<rparr>) s"
  let ?w = "upd_tcb t (\<lambda>c. c\<lparr>suscnt := 0, state := TS_WAIT\<rparr>) s"
  assume b: "(case state (tcbs s t) of
         TS_SUSPEND \<Rightarrow> end_critical E_OK (make_ready t ?s) | TS_WAITSUS \<Rightarrow> end_critical E_OK ?w
       | TS_NONEXIST \<Rightarrow> end_critical E_SYS s | _ \<Rightarrow> end_critical E_OBJ s) = Some (e, s')"
  consider x where "end_critical x s = Some (e, s')"
    | "state (tcbs s t) = TS_SUSPEND" "end_critical E_OK (make_ready t ?s) = Some (e, s')"
    | "state (tcbs s t) = TS_WAITSUS" "end_critical E_OK ?w = Some (e, s')"
    using b by (auto split: TSTAT.splits)
  then show "quiet s s'"
  proof cases
    case 1
    then show ?thesis by (rule quiet_end [OF quiet_refl [OF k]])
  next
    case 2
    have "quiet s (make_ready t ?s)" by (rule quiet_resume [OF k 2(1)]) (simp_all add: wview_def)
    then show ?thesis by (rule quiet_end [OF _ 2(2)])
  next
    case 3
    have "quiet s ?w" by (rule quiet_waitsus [OF k]) (use 3(1) in \<open>simp_all add: wview_def\<close>)
    then show ?thesis by (rule quiet_end [OF _ 3(2)])
  qed
qed

text \<open>
  A task waits in a queue only with the wait specification of that queue. This is what the invariants of the
  object modules give; here it tells that a sleeping task is in no queue.
\<close>

definition queued_as :: "kstate \<Rightarrow> bool" where
  "queued_as s \<longleftrightarrow> (\<forall>q. wait_head q \<longrightarrow> (\<forall>t\<in>set (ques s q). wait_place (wspec (tcbs s t)) (wid (tcbs s t)) = Some q))"

lemma unqueued:
  assumes k: "kinv s" and a: "queued_as s" and w: "is_wait (state (tcbs s t))" "wait_place (wspec (tcbs s t)) (wid (tcbs s t)) = None"
  shows "t \<notin> set (ques s q)"
proof
  assume t: "t \<in> set (ques s q)"
  have "wait_head q" using kinv_dest(6) [OF k t] w(1) by (cases q) auto
  then show False using a t w(2) by (auto simp: queued_as_def)
qed

lemma quiet_release:
  assumes k: "kinv s" and a: "queued_as s" and w: "is_wait (state (tcbs s t))" "wait_place (wspec (tcbs s t)) (wid (tcbs s t)) = None"
  shows "quiet s (wait_release_ok_ercd t e s)"
  using release_alone [OF k w(1) unqueued [OF k a w]] by (simp add: quiet_def)

lemma quiet_make_wait:
  assumes k: "kinv s" and c: "ctxtsk s prid = Some t" "ctx_ready prid s"
    and f: "priority (f (tcbs s t)) = pri s t" "state (f (tcbs s t)) = state (tcbs s t)" "klockwait (f (tcbs s t)) = klockwait (tcbs s t)"
    and m: "make_wait prid tmout atr (upd_tcb t f s) = Some s'"
  shows "quiet s s'"
proof -
  have t: "t \<in> set (rdy s)" using c by (simp add: ctx_ready_def)
  have "touches task_heads s s'" by (rule touches_mono [OF make_wait_alone(3) [OF k c(1) t f m]]) simp
  then show ?thesis using make_wait_alone(1,2) [OF k c(1) t f m] by (simp add: quiet_def)
qed

lemma tk_slp_tsk_quiet:
  assumes k: "kinv s" and c: "ctx_ready prid s" and r: "tk_slp_tsk prid tmout s = Some (e, s')"
  shows "quiet s s'"
proof -
  have q: "quiet s (upd_tcb t (\<lambda>c. c\<lparr>wupcnt := wupcnt c - 1\<rparr>) s)" for t by (rule quiet_upd [OF k]) (simp_all add: wview_def)
  consider "s' = s" | x where "end_critical x s = Some (e, s')"
    | t where "end_critical E_OK (upd_tcb t (\<lambda>c. c\<lparr>wupcnt := wupcnt c - 1\<rparr>) s) = Some (e, s')"
    | t u x where "ctxtsk s prid = Some t" "make_wait prid tmout 0 (upd_tcb t (\<lambda>c. c\<lparr>wspec := Wspec_slp, wid := 0, wercd := E_TMOUT\<rparr>) s) = Some u"
        "end_critical x u = Some (e, s')"
    using r by (auto simp: tk_slp_tsk_def split: option.splits Option.bind_splits if_splits)
  then show ?thesis
  proof cases
    case 1
    then show ?thesis using quiet_refl [OF k] by simp
  next
    case 2
    then show ?thesis by (rule quiet_end [OF quiet_refl [OF k]])
  next
    case 3
    then show ?thesis by (rule quiet_end [OF q])
  next
    case 4
    have "quiet s u" by (rule quiet_make_wait [OF k 4(1) c _ _ _ 4(2)]) simp_all
    then show ?thesis by (rule quiet_end [OF _ 4(3)])
  qed
qed

lemma tk_wup_tsk_quiet:
  assumes k: "kinv s" and a: "queued_as s" and r: "tk_wup_tsk prid tid s = Some (e, s')"
  shows "quiet s s'"
proof (rule tsk_call_quiet [OF k r [unfolded tk_wup_tsk_def]])
  fix t
  let ?s = "upd_tcb t (\<lambda>c. c\<lparr>wupcnt := wupcnt c + 1\<rparr>) s"
  assume b: "(if state (tcbs s t) = TS_DORMANT then end_critical E_OBJ s
             else if is_wait (state (tcbs s t)) \<and> wspec (tcbs s t) = Wspec_slp then end_critical E_OK (wait_release_ok t s)
             else if wupcnt (tcbs s t) = INT_MAX then end_critical E_QOVR s
             else end_critical E_OK ?s) = Some (e, s')"
  consider x where "end_critical x s = Some (e, s')" | "end_critical E_OK ?s = Some (e, s')"
    | "is_wait (state (tcbs s t))" "wspec (tcbs s t) = Wspec_slp" "end_critical E_OK (wait_release_ok_ercd t E_OK s) = Some (e, s')"
    using b by (auto simp: wait_release_ok_ercd_E_OK split: if_splits)
  then show "quiet s s'"
  proof cases
    case 1
    then show ?thesis by (rule quiet_end [OF quiet_refl [OF k]])
  next
    case 2
    have "quiet s ?s" by (rule quiet_upd [OF k]) (simp_all add: wview_def)
    then show ?thesis by (rule quiet_end [OF _ 2])
  next
    case 3
    have "quiet s (wait_release_ok_ercd t E_OK s)" by (rule quiet_release [OF k a 3(1)]) (simp add: 3(2))
    then show ?thesis by (rule quiet_end [OF _ 3(3)])
  qed
qed

lemma tk_can_wup_quiet:
  assumes k: "kinv s" and r: "tk_can_wup prid tid s = Some (e, s')"
  shows "quiet s s'"
proof (rule tsk_call_quiet [OF k r [unfolded tk_can_wup_def]])
  fix t
  let ?s = "upd_tcb t (\<lambda>c. c\<lparr>wupcnt := 0\<rparr>) s"
  assume b: "(if state (tcbs s t) = TS_DORMANT then end_critical E_OBJ s else end_critical (wupcnt (tcbs s t)) ?s) = Some (e, s')"
  have q: "quiet s ?s" by (rule quiet_upd [OF k]) (simp_all add: wview_def)
  show "quiet s s'"
    by (cases "state (tcbs s t) = TS_DORMANT") (use b quiet_end [OF quiet_refl [OF k]] quiet_end [OF q] in auto)
qed

lemma tk_wai_tev_quiet:
  assumes k: "kinv s" and c: "ctx_ready prid s" and r: "tk_wai_tev prid waiptn tmout s = Some (e, s')"
  shows "quiet s s'"
proof -
  define ptn where "ptn = (word_of_int waiptn :: UW)"
  define w where "w = Wspec_local \<lparr>tskwait = toTTW ptn, chg_pri_hook = None, rel_wai_hook = None\<rparr>"
  have q: "quiet s (upd_tcb t (\<lambda>c. c\<lparr>tskevt := tskevt c AND ucast (NOT ptn)\<rparr>) s)" for t
    by (rule quiet_upd [OF k]) (simp_all add: wview_def)
  consider "s' = s" | x where "end_critical x s = Some (e, s')"
    | x t where "end_critical x (upd_tcb t (\<lambda>c. c\<lparr>tskevt := tskevt c AND ucast (NOT ptn)\<rparr>) s) = Some (e, s')"
    | t u x where "ctxtsk s prid = Some t" "make_wait prid tmout 0 (upd_tcb t (\<lambda>c. c\<lparr>wspec := w, wid := 0, wercd := E_TMOUT\<rparr>) s) = Some u"
        "end_critical x u = Some (e, s')"
    using r unfolding tk_wai_tev_def Let_def ptn_def [symmetric] w_def [symmetric]
    by (auto split: option.splits Option.bind_splits if_splits)
  then show ?thesis
  proof cases
    case 1
    then show ?thesis using quiet_refl [OF k] by simp
  next
    case 2
    then show ?thesis by (rule quiet_end [OF quiet_refl [OF k]])
  next
    case 3
    then show ?thesis by (rule quiet_end [OF q])
  next
    case 4
    have "quiet s u" by (rule quiet_make_wait [OF k 4(1) c _ _ _ 4(2)]) simp_all
    then show ?thesis by (rule quiet_end [OF _ 4(3)])
  qed
qed

text \<open>The event bits of a wait specification are those of \<open>tk_wai_tev\<close> only.\<close>

lemma event_wspec:
  assumes "tskwait (wspec_at w) AND toTTW e \<noteq> 0"
  shows "wait_place w d = None"
proof (rule ccontr)
  assume p: "wait_place w d \<noteq> None"
  have "take_bit 16 (tskwait (wspec_at w)) = tskwait (wspec_at w)"
    using p by (cases w)
      (simp_all add: TTW_SEM_def TTW_FLG_def TTW_MBX_def TTW_MTX_def TTW_MPF_def TTW_MPL_def TTW_SMBF_def TTW_RMBF_def TTW_CAL_def TTW_ACP_def)
  moreover have "take_bit 16 x AND push_bit 16 e = 0" for x :: UW
    by (rule bit_word_eqI) (auto simp: bit_take_bit_iff bit_push_bit_iff bit_and_iff)
  ultimately have "tskwait (wspec_at w) AND toTTW e = 0" unfolding toTTW_def by metis
  with assms show False by simp
qed

lemma tk_sig_tev_quiet:
  assumes k: "kinv s" and a: "queued_as s" and r: "tk_sig_tev prid tid ev s = Some (e, s')"
  shows "quiet s s'"
proof (rule tsk_call_quiet [OF k r [unfolded tk_sig_tev_def]])
  fix t
  define m where "m = (push_bit (nat (ev - 1)) 1 :: UW)"
  let ?s = "upd_tcb t (\<lambda>c. c\<lparr>tskevt := tskevt c OR ucast m\<rparr>) s"
  let ?x = "sint (ucast (tskevt (tcbs s t)) OR m)"
  assume b: "(let evtmsk = push_bit (nat (ev - 1)) 1 :: UW
             in if state (tcbs s t) = TS_DORMANT then end_critical E_OBJ s
                else if is_wait (state (tcbs s t)) \<and> tskwait (wspec_at (wspec (tcbs s t))) AND toTTW evtmsk \<noteq> 0 then
                  end_critical E_OK (wait_release_ok_ercd t (sint (ucast (tskevt (tcbs s t)) OR evtmsk)) s)
                else end_critical E_OK (upd_tcb t (\<lambda>c. c\<lparr>tskevt := tskevt c OR ucast evtmsk\<rparr>) s)) = Some (e, s')"
  consider "end_critical E_OBJ s = Some (e, s')" | "end_critical E_OK ?s = Some (e, s')"
    | "is_wait (state (tcbs s t))" "tskwait (wspec_at (wspec (tcbs s t))) AND toTTW m \<noteq> 0" "end_critical E_OK (wait_release_ok_ercd t ?x s) = Some (e, s')"
    using b unfolding Let_def m_def [symmetric] by (auto split: if_splits)
  then show "quiet s s'"
  proof cases
    case 1
    then show ?thesis by (rule quiet_end [OF quiet_refl [OF k]])
  next
    case 2
    have "quiet s ?s" by (rule quiet_upd [OF k]) (simp_all add: wview_def)
    then show ?thesis by (rule quiet_end [OF _ 2])
  next
    case 3
    have "quiet s (wait_release_ok_ercd t ?x s)" by (rule quiet_release [OF k a 3(1) event_wspec [OF 3(2)]])
    then show ?thesis by (rule quiet_end [OF _ 3(3)])
  qed
qed

end
