(* ===== verification/Klock.thy ===== *)
theory Klock
  imports Kernel_Inv
begin

text \<open>
  The locks of \<^verbatim>\<open>klock.c\<close>: the object lock, and the extended SVC lock, which a task may hold several of. A task that
  finds the lock held leaves the ready queue for the queue of the lock, and retries when it runs again; the functions here are
  one attempt, and tell whether the task has the lock.
\<close>

section \<open>The operations\<close>

definition upd_ko :: "(kobjs \<Rightarrow> kobjs) \<Rightarrow> kstate \<Rightarrow> kstate" where
  "upd_ko f s = s\<lparr>ko := f (ko s)\<rparr>"

text \<open>\<open>ready_queue_top(&ready_queue, schedtsk)\<close>\<close>

definition store_top :: "kstate \<Rightarrow> kstate option" where
  "store_top s = do { (sch, s) \<leftarrow> ready_queue_top s; Some (s\<lparr>schedtsk := copy_sched (num_proc s) sch (schedtsk s)\<rparr>) }"

text \<open>The current task joins the queue of the lock.\<close>

definition klock_wait :: "nat \<Rightarrow> qhead \<Rightarrow> kstate \<Rightarrow> kstate option" where
  "klock_wait t q s =
    (let s = ready_queue_delete t s;
         s = upd_tcb t (\<lambda>c. c\<lparr>klockwait := True\<rparr>) s
     in store_top (QueInsert_tail t q s))"

definition LockOBJ :: "nat \<Rightarrow> nat \<Rightarrow> kstate \<Rightarrow> (bool \<times> kstate) option" where
  "LockOBJ prid loc s = do {
     t \<leftarrow> ctxtsk s prid;
     (got, s) \<leftarrow>
       (if klocked (tcbs s t) then Some (True, s)
        else if \<not> objlock_held (ko s) loc then
          (let s = set_que (QObjLock loc) [] (upd_ko (\<lambda>k. k\<lparr>objlock_held := (objlock_held k)(loc := True)\<rparr>) s);
               s = upd_tcb t (\<lambda>c. c\<lparr>klocked := True\<rparr>) s
           in Some (True, s\<lparr>rq_klocktsk := Some t\<rparr>))
        else do { s \<leftarrow> klock_wait t (QObjLock loc) s; Some (False, s) });
     s \<leftarrow> update_schedtsk s;
     Some (got, s)
   }"

definition UnlockOBJ :: "nat \<Rightarrow> nat \<Rightarrow> kstate \<Rightarrow> kstate option" where
  "UnlockOBJ prid loc s = do {
     t \<leftarrow> ctxtsk s prid;
     let s = (upd_tcb t (\<lambda>c. c\<lparr>klocked := False\<rparr>) s)\<lparr>rq_klocktsk := None\<rparr>;
     let s = (case ques s (QObjLock loc) of
                [] \<Rightarrow> upd_ko (\<lambda>k. k\<lparr>objlock_held := (objlock_held k)(loc := False)\<rparr>) s
              | x # xs \<Rightarrow>
                  (let s = set_que (QObjLock loc) xs s;
                       s = upd_tcb x (\<lambda>c. c\<lparr>klockwait := False, klocked := True\<rparr>) s
                   in ready_queue_insert_top x s));
     s \<leftarrow> store_top s;
     update_schedtsk s
   }"

text \<open>The list of the locks a task holds starts with the one it took last.\<close>

definition LockSVC :: "nat \<Rightarrow> svclock_ref \<Rightarrow> kstate \<Rightarrow> (bool \<times> kstate) option" where
  "LockSVC prid loc s = do {
     t \<leftarrow> ctxtsk s prid;
     (got, s) \<leftarrow>
       (if (case svclocked (tcbs s t) of l # _ \<Rightarrow> l = loc | [] \<Rightarrow> False) then Some (True, s)
        else if \<not> svclock_held (ko s) loc then
          (let s = set_que (QSvcLock loc) [] (upd_ko (\<lambda>k. k\<lparr>svclock_held := (svclock_held k)(loc := True)\<rparr>) s)
           in Some (True, upd_tcb t (\<lambda>c. c\<lparr>svclocked := loc # svclocked c\<rparr>) s))
        else do { s \<leftarrow> klock_wait t (QSvcLock loc) s; Some (False, s) });
     s \<leftarrow> update_schedtsk s;
     Some (got, s)
   }"

text \<open>The task \<open>t\<close> gives up its last lock, which goes to the task that has waited longest.\<close>

definition release_svc :: "nat \<Rightarrow> svclock_ref \<Rightarrow> kstate \<Rightarrow> kstate" where
  "release_svc t loc s =
    (let s = upd_tcb t (\<lambda>c. c\<lparr>svclocked := tl (svclocked c)\<rparr>) s
     in case ques s (QSvcLock loc) of
          [] \<Rightarrow> upd_ko (\<lambda>k. k\<lparr>svclock_held := (svclock_held k)(loc := False)\<rparr>) s
        | x # xs \<Rightarrow>
            (let s = set_que (QSvcLock loc) xs s;
                 s = upd_tcb x (\<lambda>c. c\<lparr>klockwait := False, svclocked := loc # svclocked c\<rparr>) s
             in ready_queue_insert x s))"

definition UnlockSVC :: "nat \<Rightarrow> kstate \<Rightarrow> kstate option" where
  "UnlockSVC prid s = do {
     t \<leftarrow> ctxtsk s prid;
     case svclocked (tcbs s t) of
       [] \<Rightarrow> None
     | loc # _ \<Rightarrow> do {
         let waited = (ques s (QSvcLock loc) \<noteq> []);
         let s = release_svc t loc s;
         s \<leftarrow> (if waited then store_top s else Some s);
         update_schedtsk s
       }
   }"

text \<open>The parameter of \<open>AllUnlockSVC\<close> is overwritten before it is read: the locks are those of the calling task.\<close>

partial_function (option) unlock_svcs :: "nat \<Rightarrow> kstate \<Rightarrow> kstate option" where
  "unlock_svcs t s =
    (case svclocked (tcbs s t) of
       [] \<Rightarrow> Some s
     | loc # _ \<Rightarrow> unlock_svcs t (release_svc t loc s))"

definition AllUnlockSVC :: "nat \<Rightarrow> nat \<Rightarrow> kstate \<Rightarrow> kstate option" where
  "AllUnlockSVC prid tsk s = do {
     t \<leftarrow> ctxtsk s prid;
     s \<leftarrow> unlock_svcs t s;
     s \<leftarrow> store_top s;
     update_schedtsk s
   }"

end
