(* ===== verification/Inheritance.thy ===== *)
theory Inheritance
  imports Mutex_Inv
begin

text \<open>
  \<open>change_task_priority\<close> ends and keeps every priority right. The hooks of the other modules are
  described by the locale \<open>pri_hooks\<close>; \<open>OK\<close> is the invariant of these modules. The induction follows
  the chain of holders: a chain of raised priorities lowers the number of tasks below the new priority,
  a chain of lowered ones the number of tasks that have the old one. Nothing is assumed about circular
  waiting.
\<close>

section \<open>Steps that leave the mutexes alone\<close>

definition mtx_heads :: "qhead set" where
  "mtx_heads = range QMtx \<union> lock_heads \<union> {QFreeTcb}"

definition mtx_calm :: "kstate \<Rightarrow> kstate \<Rightarrow> bool" where
  "mtx_calm s s' \<longleftrightarrow> mtxtab s' = mtxtab s \<and> ctxtsk s' = ctxtsk s \<and> num_proc s' = num_proc s \<and>
     (\<forall>x. bpriority (tcbs s' x) = bpriority (tcbs s x) \<and> mtxlist (tcbs s' x) = mtxlist (tcbs s x) \<and>
        wspec (tcbs s' x) = wspec (tcbs s x) \<and> wid (tcbs s' x) = wid (tcbs s x) \<and>
        (is_wait (state (tcbs s' x)) \<longrightarrow> is_wait (state (tcbs s x)))) \<and>
     (\<forall>i. set (ques s' (QMtx i)) = set (ques s (QMtx i))) \<and> set (rdy s) \<subseteq> set (rdy s')"

lemma mtx_calm_refl [simp]: "mtx_calm s s"
  by (simp add: mtx_calm_def)

lemma mtx_calm_trans: "mtx_calm a b \<Longrightarrow> mtx_calm b c \<Longrightarrow> mtx_calm a c"
  unfolding mtx_calm_def by (metis subset_trans)

lemma mtx_calmD:
  assumes "mtx_calm s s'"
  shows "mtxtab s' = mtxtab s" "mtxcb s' = mtxcb s" "mtx_proto s' = mtx_proto s" "ctxtsk s' = ctxtsk s" "num_proc s' = num_proc s"
    "bpriority (tcbs s' x) = bpriority (tcbs s x)" "mtxlist (tcbs s' x) = mtxlist (tcbs s x)"
    "wspec (tcbs s' x) = wspec (tcbs s x)" "wid (tcbs s' x) = wid (tcbs s x)"
    "is_wait (state (tcbs s' x)) \<Longrightarrow> is_wait (state (tcbs s x))"
    "set (ques s' (QMtx i)) = set (ques s (QMtx i))" "set (rdy s) \<subseteq> set (rdy s')" "mtx_own X s' \<longleftrightarrow> mtx_own X s"
proof -
  note a = assms [unfolded mtx_calm_def]
  show "mtxtab s' = mtxtab s" "ctxtsk s' = ctxtsk s" "num_proc s' = num_proc s" "bpriority (tcbs s' x) = bpriority (tcbs s x)"
    "mtxlist (tcbs s' x) = mtxlist (tcbs s x)" "wspec (tcbs s' x) = wspec (tcbs s x)" "wid (tcbs s' x) = wid (tcbs s x)"
    "is_wait (state (tcbs s' x)) \<Longrightarrow> is_wait (state (tcbs s x))" "set (rdy s) \<subseteq> set (rdy s')"
    using a by blast+
  show q: "set (ques s' (QMtx i)) = set (ques s (QMtx i))" for i using a by blast
  show "mtxcb s' = mtxcb s" using a by (simp add: mtxcb_def fun_eq_iff)
  then show "mtx_proto s' = mtx_proto s" by (simp add: mtx_proto_def fun_eq_iff)
  have "ques s' (QMtx i) = [] \<longleftrightarrow> ques s (QMtx i) = []" for i using q [of i] by (metis set_empty)
  then show "mtx_own X s' \<longleftrightarrow> mtx_own X s" using a by (simp add: mtx_own_def mtxcb_def)
qed

definition chg_ok :: "nat \<Rightarrow> nat \<Rightarrow> kstate \<Rightarrow> kstate \<Rightarrow> bool" where
  "chg_ok t p s s' \<longleftrightarrow> kinv s' \<and> placed s' \<and> mtx_calm s s' \<and> (\<forall>x. pri s' x = (if x = t then p else pri s x))"

lemma chg_okI:
  assumes k: "kinv s'" and pl: "placed s" and r: "set (rdy s) \<subseteq> set (rdy s')" and o: "objs_same s s'"
    and c: "\<And>x. bpriority (tcbs s' x) = bpriority (tcbs s x) \<and> mtxlist (tcbs s' x) = mtxlist (tcbs s x) \<and>
        wspec (tcbs s' x) = wspec (tcbs s x) \<and> wid (tcbs s' x) = wid (tcbs s x) \<and> state (tcbs s' x) = state (tcbs s x)"
    and p: "\<And>x. pri s' x = (if x = t then p else pri s x)"
    and q: "\<And>q x. is_wait (state (tcbs s x)) \<Longrightarrow> x \<in> set (ques s q) \<Longrightarrow> x \<in> set (ques s' q)"
    and m: "\<And>i. set (ques s' (QMtx i)) = set (ques s (QMtx i))"
  shows "chg_ok t p s s'"
proof -
  have "placed s'"
    unfolding placed_def well_placed_def c [THEN conjunct2, THEN conjunct2, THEN conjunct1]
      c [THEN conjunct2, THEN conjunct2, THEN conjunct2, THEN conjunct1] c [THEN conjunct2, THEN conjunct2, THEN conjunct2, THEN conjunct2]
    using pl q unfolding placed_def well_placed_def by blast
  then show ?thesis using k r o c p m by (simp add: chg_ok_def mtx_calm_def objs_same_def)
qed

section \<open>One task\<close>

lemma kinv_upd_pri:
  assumes k: "kinv s" and t: "t \<notin> set (rdy s)" and p: "p < NUM_PRI"
  shows "kinv (upd_tcb t (\<lambda>c. c\<lparr>priority := p\<rparr>) s)" and "rdy (upd_tcb t (\<lambda>c. c\<lparr>priority := p\<rparr>) s) = rdy s"
proof -
  let ?s = "upd_tcb t (\<lambda>c. c\<lparr>priority := p\<rparr>) s"
  have w: "sched_wf ?s" "rdy ?s = rdy s"
    by (rule sched_wf_cong [of _ s]; use t kinv_dest(1) [OF k] in auto)+
  show "rdy ?s = rdy s" by (rule w)
  have nq: "t \<notin> set (ques s (QReady i))" for i
  proof
    assume "t \<in> set (ques s (QReady i))"
    then have "place_ok (QReady i) (tcbs s t)" using kinv_dest(6) [OF k] by blast
    with t k show False by (simp add: kinv_rdy)
  qed
  have pl: "place_ok q (tcbs ?s x)" if "x \<in> set (ques s q)" for q x
    using kinv_dest(6) [OF k that] that nq by (cases q) auto
  have q: "ques ?s = ques s" by simp
  have d: "state (tcbs ?s x) = state (tcbs s x)" "klockwait (tcbs ?s x) = klockwait (tcbs s x)" for x by simp_all
  have pr: "pri ?s x < NUM_PRI" for x using p k by (simp add: kinv_dest)
  show "kinv ?s"
    unfolding kinv_def q d w(2) using w(1) pl pr k [unfolded kinv_def] by blast
qed

lemma chg_ready_chg_ok:
  assumes k: "kinv s" and pl: "placed s" and st: "state (tcbs s t) = TS_READY" and p: "p < NUM_PRI"
  shows "chg_ok t p s (chg_ready t p s)" and "touches mtx_heads s (chg_ready t p s)" and "objs_same s (chg_ready t p s)"
    and "mtab_ok (chg_ready t p s) \<longleftrightarrow> mtab_ok s"
proof -
  let ?s = "chg_ready t p s"
  show o: "objs_same s ?s" by (rule chg_ready_same)
  have tl: "touches lock_heads s ?s" by (rule chg_ready_touches [OF k st p])
  then show "touches mtx_heads s ?s" by (rule touches_mono) (auto simp: mtx_heads_def)
  show "mtab_ok ?s \<longleftrightarrow> mtab_ok s"
    by (rule mtx_tab.table_ok_foreign [OF mtx_tab.same_objs [OF o] tl]) simp
  show "chg_ok t p s ?s"
  proof (rule chg_okI [OF chg_ready_kinv [OF k st p] pl _ o])
    show "set (rdy s) \<subseteq> set (rdy ?s)" using chg_ready_wf(2) [OF k st p] by blast
    show "set (ques ?s (QMtx i)) = set (ques s (QMtx i))" for i
      using touches_ques [OF tl, of "QMtx i"] by (simp add: ready_head_def)
    show "x \<in> set (ques ?s q)" if "is_wait (state (tcbs s x))" "x \<in> set (ques s q)" for q x
    proof -
      have "x \<noteq> t" using that(1) st by auto
      then show ?thesis using that(2) by (auto simp: chg_ready_ques)
    qed
  qed (simp_all add: chg_ready_tcbs)
qed

text \<open>A task that is neither executable nor waiting, or whose queue does not depend on priorities.\<close>

lemma upd_pri_chg_ok:
  assumes k: "kinv s" and pl: "placed s" and st: "state (tcbs s t) \<noteq> TS_READY" and p: "p < NUM_PRI"
  shows "chg_ok t p s (upd_tcb t (\<lambda>c. c\<lparr>priority := p\<rparr>) s)"
proof -
  have "t \<notin> set (rdy s)" using st k by (simp add: kinv_rdy)
  note u = kinv_upd_pri [OF k this p]
  show ?thesis
    by (rule chg_okI [OF u(1) pl]) (simp_all add: u(2))
qed

lemma upd_pri_touches:
  assumes k: "kinv s" and st: "\<not> is_wait (state (tcbs s t))"
  shows "touches mtx_heads s (upd_tcb t (\<lambda>c. c\<lparr>priority := p\<rparr>) s)"
proof (rule touchesI)
  fix q x assume q: "\<not> ready_head q" "q \<notin> mtx_heads" "x \<in> set (ques s q)"
  have "x \<noteq> t"
  proof
    assume "x = t"
    then have "place_ok q (tcbs s t)" using kinv_dest(6) [OF k] q(3) by simp
    moreover have "t \<notin> set (rdy s)" if "q = QReady p" for p
    proof
      assume "t \<in> set (rdy s)"
      then show False using ready_not_waiting [OF k _ q(1)] q(3) \<open>x = t\<close> by blast
    qed
    ultimately show False using st q(1,2) kinv_rdy [OF k, of t] by (cases q) (auto simp: mtx_heads_def lock_heads_def)
  qed
  then show "wview (tcbs (upd_tcb t (\<lambda>c. c\<lparr>priority := p\<rparr>) s) x) = wview (tcbs s x)" by simp
qed simp

text \<open>The table of mutexes does not notice when the queue of the task is not sorted.\<close>

lemma mtx_wf_pri:
  assumes w: "mtx_wf i (c, waiters s q)" and u: "mtxatr c AND TA_CEILING = TA_TFIFO \<or> t \<notin> set (ques s q)"
  shows "mtx_wf i (c, waiters (upd_tcb t (\<lambda>c. c\<lparr>priority := p\<rparr>) s) q)"
proof (cases "t \<in> set (ques s q)")
  case False
  have "waiters (upd_tcb t (\<lambda>c. c\<lparr>priority := p\<rparr>) s) q = waiters s q"
    unfolding waiters_def using False by (auto intro!: map_cong)
  then show ?thesis using w by simp
next
  case True
  have "mtx_waiter c x" if x: "x \<in> set (waiters (upd_tcb t (\<lambda>c. c\<lparr>priority := p\<rparr>) s) q)" and l: "mtxid c \<noteq> 0" for x
  proof -
    obtain y where y: "y \<in> set (ques s q)" "x = (y, wview (tcbs (upd_tcb t (\<lambda>c. c\<lparr>priority := p\<rparr>) s) y))"
      using x by (auto simp: waiters_def simp del: tcbs_upd_tcb)
    have "mtx_waiter c (y, wview (tcbs s y))" using w l y(1) by (simp add: waiters_def)
    then show ?thesis by (auto simp: y(2) mtx_waiter_def wview_def)
  qed
  then show ?thesis using w u True by (auto simp: waiters_def)
qed

lemma upd_pri_mtab_ok:
  assumes ok: "mtab_ok s" and u: "\<And>i. i < maxid (mtxtab s) \<Longrightarrow> t \<in> set (ques s (QMtx i)) \<Longrightarrow> mtx_proto s i = TA_TFIFO"
  shows "mtab_ok (upd_tcb t (\<lambda>c. c\<lparr>priority := p\<rparr>) s)"
proof -
  let ?s = "upd_tcb t (\<lambda>c. c\<lparr>priority := p\<rparr>) s"
  have "mtx_wf i (mtxcb s i, waiters ?s (QMtx i))" if "i < maxid (mtxtab s)" for i
    by (rule mtx_wf_pri [OF mtab_okD [OF ok that]]) (use u [OF that] in \<open>auto simp: mtx_proto_def\<close>)
  then show ?thesis
    using ok by (simp add: mtx_tab.table_ok_def mtx_view_def mtxcb_def del: mtx_wf.simps)
qed

text \<open>A task that waits for a mutex: what the invariants say of it.\<close>

lemma mtx_waiting:
  assumes ok: "mtab_ok s" and own: "mtx_own X s" and t: "t \<in> set (ques s (QMtx i))"
  obtains h where "i < maxid (mtxtab s)" "mtxid (mtxcb s i) \<noteq> 0" "mtxtsk (mtxcb s i) = Some h" "h \<noteq> t"
    "INDEX_OBJ (wid (tcbs s t)) = i" "wspec (tcbs s t) = mtx_wspec (mtx_proto s i)"
proof -
  have i: "i < maxid (mtxtab s)"
  proof (rule ccontr)
    assume "\<not> i < maxid (mtxtab s)"
    then have "ques s (QMtx i) = []" using own by (simp add: mtx_own_def)
    with t show False by simp
  qed
  have m: "(t, wview (tcbs s t)) \<in> set (waiters s (QMtx i))" using t by (simp add: waiters_def)
  note w = mtab_okD [OF ok i]
  have l: "mtxid (mtxcb s i) \<noteq> 0" using w m by (auto split: if_splits)
  then have x: "mtx_waiter (mtxcb s i) (t, wview (tcbs s t))" and ix: "INDEX_OBJ (mtxid (mtxcb s i)) = i"
    and n: "mtxtsk (mtxcb s i) \<noteq> None" using w m by (auto simp del: waiters_Nil)
  from n obtain h where h: "mtxtsk (mtxcb s i) = Some h" by blast
  show thesis
    by (rule that [OF i l h]) (use x h ix in \<open>auto simp: mtx_waiter_def wview_def mtx_proto_def\<close>)
qed

text \<open>A hook puts the task into its place in the queue it waits in.\<close>

lemma reorder_chg_ok:
  assumes k: "kinv s" and pl: "placed s" and h: "wait_head (wait_queue g)" and t: "t \<in> set (ques s (wait_queue g))" and p: "p < NUM_PRI"
  defines "s1 \<equiv> gcb_change_priority g t (upd_tcb t (\<lambda>c. c\<lparr>priority := p\<rparr>) s)"
  shows "chg_ok t p s s1" and "touches {wait_queue g} s s1" and "objs_same s s1"
proof -
  note ro = reorder_ok [OF k h t p refl, folded s1_def]
  show "touches {wait_queue g} s s1" by (rule ro)
  have tc: "tcbs s1 = (tcbs s)(t := (tcbs s t)\<lparr>priority := p\<rparr>)"
    by (simp add: s1_def gcb_change_priority_def queue_insert_tpri_def set_que_def QueRemove_tsk_def)
  have d: "distinct (ques s q)" for q using k by (rule kinv_dest)
  have q: "set (ques s1 q) = (if q = wait_queue g then insert t (set (ques s q)) else set (ques s q) - {t})" for q
    by (simp add: s1_def gcb_change_priority_def queue_insert_tpri_def set_que_def QueRemove_tsk_def set_insert_before d)
  have qs: "set (ques s1 q) = set (ques s q)" for q
  proof (cases "q = wait_queue g")
    case True
    then show ?thesis using q t by (simp add: insert_absorb)
  next
    case False
    then have "t \<notin> set (ques s q)" using kinv_dest(7) [OF k t, of q] by blast
    then show ?thesis using q False by simp
  qed
  show o: "objs_same s s1"
    by (simp add: s1_def gcb_change_priority_def queue_insert_tpri_def)
  have r: "set (rdy s1) = set (rdy s)" by (simp add: rdy_def qs)
  show "chg_ok t p s s1"
    by (rule chg_okI [OF ro(1) pl]) (use o in \<open>simp_all add: r qs tc\<close>)
qed

text \<open>The own hook of the mutexes.\<close>

lemma mtx_reorder_chg_ok:
  assumes k: "kinv s" and pl: "placed s" and ok: "mtab_ok s" and own: "mtx_own X s" and t: "t \<in> set (ques s (QMtx i))" and p: "p < NUM_PRI"
  defines "s1 \<equiv> gcb_change_priority (mtx_gcb s i) t (upd_tcb t (\<lambda>c. c\<lparr>priority := p\<rparr>) s)"
  shows "chg_ok t p s s1" and "mtab_ok s1" and "touches mtx_heads s s1" and "objs_same s s1"
proof -
  obtain h where m: "i < maxid (mtxtab s)" "mtxid (mtxcb s i) \<noteq> 0" "mtxtsk (mtxcb s i) = Some h" "h \<noteq> t"
    by (rule mtx_waiting [OF ok own t])
  note w = mtab_okD [OF ok m(1)]
  have wh: "wait_head (wait_queue (mtx_gcb s i))" and tq: "t \<in> set (ques s (wait_queue (mtx_gcb s i)))" using t by (simp_all add: mtx_gcb_def)
  note ro = reorder_chg_ok [OF k pl wh tq p, folded s1_def]
  show "chg_ok t p s s1" "objs_same s s1" by (fact ro)+
  show "touches mtx_heads s s1"
    by (rule touches_mono [OF ro(2)]) (simp add: mtx_heads_def mtx_gcb_def)
  have "kinv s1 \<and> mtab_ok s1"
    unfolding s1_def
  proof (rule mtx_tab.chg_pri_table_ok [OF k ok wh tq p, where i = i and atr = TA_TPRI])
    fix u
    let ?w = "(t, wview ((tcbs s t)\<lparr>priority := p\<rparr>))" and ?ws = "filter (\<lambda>w. fst w \<noteq> t) (waiters s (QMtx i))"
    assume o: "objs_same s u" and u: "waiters u (wait_queue (mtx_gcb s i)) =
        join_queue TA_TPRI ?w (filter (\<lambda>w. fst w \<noteq> t) (waiters s (wait_queue (mtx_gcb s i))))"
    have v: "mtx_view u i = (mtxcb s i, join_queue TA_TPRI ?w ?ws)"
      using u o by (simp add: mtx_view_def mtx_gcb_def mtxcb_def objs_same_def)
    have wt: "mtx_waiter (mtxcb s i) (t, wview (tcbs s t))" using w m(2) t by (auto simp: waiters_def)
    then have "mtx_waiter (mtxcb s i) ?w" by (simp add: mtx_waiter_def wview_def)
    then have "\<forall>x\<in>set (join_queue TA_TPRI ?w ?ws). mtx_waiter (mtxcb s i) x" using w m(2) by (auto simp: set_join)
    moreover have "sorted (map waiter_pri (join_queue TA_TPRI ?w ?ws))" if "mtxatr (mtxcb s i) AND TA_CEILING \<noteq> TA_TFIFO"
      by (rule sorted_join) (use w m(2) that sorted_map_filter in \<open>auto simp: TA_TPRI_def\<close>)
    ultimately show "mtx_wf i (mtx_view u i)" using w m by (simp add: v)
  qed (use m in \<open>auto simp: mtx_view_def mtx_gcb_def TA_TPRI_def\<close>)
  then show "mtab_ok s1" by simp
qed

section \<open>The hooks of the other modules\<close>

locale pri_hooks =
  fixes oh :: "hook \<Rightarrow> nat \<Rightarrow> int \<Rightarrow> kstate \<Rightarrow> kstate option" and OK :: "kstate \<Rightarrow> bool"
  assumes foreign: "OK s \<Longrightarrow> objs_same s s' \<Longrightarrow> touches mtx_heads s s' \<Longrightarrow> OK s'"
    and foreign_mtx: "OK s \<Longrightarrow> OK (s\<lparr>mtxtab := m\<rparr>)"
    and foreign_dom: "OK s \<Longrightarrow> OK (s\<lparr>hashcb := hk, domtab := dt\<rparr>)"
    and no_hook: "kinv s \<Longrightarrow> OK s \<Longrightarrow> placed s \<Longrightarrow> is_wait (state (tcbs s t)) \<Longrightarrow> p < NUM_PRI \<Longrightarrow>
      chg_pri_hook (wspec_at (wspec (tcbs s t))) = None \<Longrightarrow> OK (upd_tcb t (\<lambda>c. c\<lparr>priority := p\<rparr>) s)"
    and other_hook: "kinv s \<Longrightarrow> OK s \<Longrightarrow> placed s \<Longrightarrow> is_wait (state (tcbs s t)) \<Longrightarrow> p < NUM_PRI \<Longrightarrow>
      chg_pri_hook (wspec_at (wspec (tcbs s t))) = Some h \<Longrightarrow> h \<noteq> Mtx_chg_pri \<Longrightarrow>
      \<exists>s'. oh h t (int (pri s t)) (upd_tcb t (\<lambda>c. c\<lparr>priority := p\<rparr>) s) = Some s' \<and> OK s' \<and> chg_ok t p s s' \<and>
        (\<forall>i. waiters s' (QMtx i) = waiters s (QMtx i))"
begin

text \<open>All invariants but those on priorities.\<close>

definition base_ok :: "nat set \<Rightarrow> kstate \<Rightarrow> bool" where
  "base_ok X s \<longleftrightarrow> kinv s \<and> OK s \<and> mtab_ok s \<and> placed s \<and> mtx_own X s \<and> (\<forall>x. bpriority (tcbs s x) < NUM_PRI)"

lemma base_okD: "base_ok X s \<Longrightarrow> kinv s" "base_ok X s \<Longrightarrow> OK s" "base_ok X s \<Longrightarrow> mtab_ok s" "base_ok X s \<Longrightarrow> placed s"
    "base_ok X s \<Longrightarrow> mtx_own X s" "base_ok X s \<Longrightarrow> bpriority (tcbs s x) < NUM_PRI"
  by (simp_all add: base_ok_def)

lemma base_ok_chg: "base_ok X s \<Longrightarrow> chg_ok t p s s' \<Longrightarrow> OK s' \<Longrightarrow> mtab_ok s' \<Longrightarrow> base_ok X s'"
  using mtx_calmD(6,13) by (auto simp: base_ok_def chg_ok_def)

lemma base_ok_sorted:
  assumes "base_ok X s"
  shows "mtx_sorted s is"
proof -
  have "sorted (map (pri s) (ques s (QMtx i)))" if "mtx_proto s i = TA_INHERIT" for i
  proof (cases "i < maxid (mtxtab s)")
    case True
    have "map waiter_pri (waiters s (QMtx i)) = map (pri s) (ques s (QMtx i))" by (simp add: waiters_def wview_def comp_def)
    moreover have "sorted (map waiter_pri (waiters s (QMtx i)))"
      using mtab_okD [OF base_okD(3) [OF assms] True] that by (auto simp: mtx_proto_def TA_INHERIT_def TA_TFIFO_def waiters_def split: if_splits)
    ultimately show ?thesis by simp
  next
    case False
    then show ?thesis using base_okD(5) [OF assms] by (simp add: mtx_own_def)
  qed
  then show ?thesis by (simp add: mtx_sorted_def)
qed

text \<open>The holder whose priority depends on the one of \<open>t\<close>.\<close>

definition blocks :: "kstate \<Rightarrow> nat \<Rightarrow> nat \<Rightarrow> bool" where
  "blocks s h t \<longleftrightarrow> (\<exists>i. t \<in> set (ques s (QMtx i)) \<and> mtx_proto s i = TA_INHERIT \<and> mtxtsk (mtxcb s i) = Some h)"

lemma reset_none:
  assumes "base_ok X s"
  shows "release_mutex_with ctp h None s =
    (let p = Min (set (claims s h)) in if p \<noteq> pri s h then ctp h p s else Some s)"
proof -
  have "upd_tcb h (\<lambda>c. c\<lparr>mtxlist := filter (\<lambda>i. None \<noteq> Some i) (mtxlist c)\<rparr>) s = s" by (simp add: upd_tcb_def)
  moreover have "release_scan s None (mtxlist (tcbs s h)) (bpriority (tcbs s h)) (bpriority (tcbs s h)) = Min (set (claims s h))"
    using release_scan_min [OF base_ok_sorted [OF assms] order_refl] by (simp add: claims_def)
  ultimately show ?thesis by (simp only: release_mutex_with_def Let_def)
qed

lemma step_unblocked:
  assumes "base_ok X s" "chg_ok t p s s1" "OK s1" "mtab_ok s1" "change_task_priority oh t p s = Some s1"
    "\<And>i. t \<in> set (ques s (QMtx i)) \<Longrightarrow> mtx_proto s i \<noteq> TA_INHERIT"
  shows "\<exists>s1. chg_ok t p s s1 \<and> base_ok X s1 \<and>
     ((\<forall>h. \<not> blocks s h t) \<and> change_task_priority oh t p s = Some s1 \<or>
      (\<exists>h. blocks s h t \<and> h \<noteq> t \<and> change_task_priority oh t p s =
        (if pri s1 h > p then change_task_priority oh h p s1
         else if pri s1 h = pri s t then release_mutex_with (change_task_priority oh) h None s1 else Some s1)))"
  using assms base_ok_chg [OF assms(1-4)] by (auto simp: blocks_def)

lemma step_blocked:
  assumes "base_ok X s" "chg_ok t p s s1" "OK s1" "mtab_ok s1" "blocks s h t" "h \<noteq> t"
    "change_task_priority oh t p s =
      (if pri s1 h > p then change_task_priority oh h p s1
       else if pri s1 h = pri s t then release_mutex_with (change_task_priority oh) h None s1 else Some s1)"
  shows "\<exists>s1. chg_ok t p s s1 \<and> base_ok X s1 \<and>
     ((\<forall>h. \<not> blocks s h t) \<and> change_task_priority oh t p s = Some s1 \<or>
      (\<exists>h. blocks s h t \<and> h \<noteq> t \<and> change_task_priority oh t p s =
        (if pri s1 h > p then change_task_priority oh h p s1
         else if pri s1 h = pri s t then release_mutex_with (change_task_priority oh) h None s1 else Some s1)))"
  using assms base_ok_chg [OF assms(1-4)] by blast

lemma change_step:
  assumes b: "base_ok X s" and p: "p < NUM_PRI"
  shows "\<exists>s1. chg_ok t p s s1 \<and> base_ok X s1 \<and>
     ((\<forall>h. \<not> blocks s h t) \<and> change_task_priority oh t p s = Some s1 \<or>
      (\<exists>h. blocks s h t \<and> h \<noteq> t \<and> change_task_priority oh t p s =
        (if pri s1 h > p then change_task_priority oh h p s1
         else if pri s1 h = pri s t then release_mutex_with (change_task_priority oh) h None s1 else Some s1)))"
proof -
  note k = base_okD(1) [OF b] and O = base_okD(2) [OF b] and m = base_okD(3) [OF b] and pl = base_okD(4) [OF b] and own = base_okD(5) [OF b]
  note ctp = change_task_priority.simps [of oh t p s]
  let ?u = "upd_tcb t (\<lambda>c. c\<lparr>priority := p\<rparr>) s"
  let ?hk = "chg_pri_hook (wspec_at (wspec (tcbs s t)))"
  have nq: "t \<notin> set (ques s (QMtx i))" if "\<not> is_wait (state (tcbs s t))" for i
    using kinv_dest(6) [OF k, of t "QMtx i"] that by auto
  consider (ready) "state (tcbs s t) = TS_READY" | (idle) "state (tcbs s t) \<noteq> TS_READY" "\<not> is_wait (state (tcbs s t))"
    | (none) "is_wait (state (tcbs s t))" "?hk = None" | (mtx) "is_wait (state (tcbs s t))" "?hk = Some Mtx_chg_pri"
    | (other) h where "is_wait (state (tcbs s t))" "?hk = Some h" "h \<noteq> Mtx_chg_pri" by (cases ?hk) auto
  then show ?thesis
  proof cases
    case ready
    note c = chg_ready_chg_ok [OF k pl ready p]
    show ?thesis
      by (rule step_unblocked [OF b c(1) foreign [OF O c(3,2)]]) (use c(4) m nq ready ctp in \<open>simp_all add: chg_ready_def\<close>)
  next
    case idle
    have mu: "mtab_ok ?u" by (rule upd_pri_mtab_ok [OF m]) (use nq idle in blast)
    show ?thesis
      by (rule step_unblocked [OF b upd_pri_chg_ok [OF k pl idle(1) p] foreign [OF O _ upd_pri_touches [OF k idle(2)]] mu])
        (use nq idle ctp in \<open>simp_all add: Let_def\<close>)
  next
    case none
    have nr: "state (tcbs s t) \<noteq> TS_READY" using none by auto
    have tf: "mtx_proto s i = TA_TFIFO" if "t \<in> set (ques s (QMtx i))" for i
    proof -
      have "wspec (tcbs s t) = mtx_wspec (mtx_proto s i)" by (rule mtx_waiting [OF m own that])
      then show ?thesis using none(2) by (simp add: mtx_wspec_def split: if_splits)
    qed
    show ?thesis
      by (rule step_unblocked [OF b upd_pri_chg_ok [OF k pl nr p] no_hook [OF k O pl none(1) p none(2)] upd_pri_mtab_ok [OF m]])
        (use tf none nr ctp in \<open>auto simp: Let_def TA_TFIFO_def TA_INHERIT_def\<close>)
  next
    case other
    from other_hook [OF k O pl other(1) p other(2,3)] obtain s1 where
      s1: "oh h t (int (pri s t)) ?u = Some s1" "OK s1" "chg_ok t p s s1" "\<forall>i. waiters s1 (QMtx i) = waiters s (QMtx i)" by blast
    have nm: "t \<notin> set (ques s (QMtx i))" for i
    proof
      assume "t \<in> set (ques s (QMtx i))"
      then have "wspec (tcbs s t) = mtx_wspec (mtx_proto s i)" by (rule mtx_waiting [OF m own])
      then show False using other(2,3) by (auto simp: mtx_wspec_def split: if_splits)
    qed
    have tab: "mtxtab s1 = mtxtab s" "mtxcb s1 = mtxcb s" using s1(3) mtx_calmD by (auto simp: chg_ok_def)
    have mu: "mtab_ok s1" using m s1(4) tab by (simp add: mtx_tab.table_ok_def mtx_view_def)
    show ?thesis
      by (rule step_unblocked [OF b s1(3,2) mu]) (use nm other ctp s1(1) in \<open>auto simp: Let_def\<close>)
  next
    case mtx
    define i where "i = INDEX_OBJ (wid (tcbs s t))"
    have t: "t \<in> set (ques s (QMtx i))" unfolding i_def by (rule mtx_hook_place [OF mtx(2) pl mtx(1)])
    obtain h where h: "mtxtsk (mtxcb s i) = Some h" "h \<noteq> t" by (rule mtx_waiting [OF m own t])
    define s1 where "s1 = gcb_change_priority (mtx_gcb s i) t ?u"
    note c = mtx_reorder_chg_ok [OF k pl m own t p, folded s1_def]
    have g: "mtx_gcb ?u i = mtx_gcb s i" by (simp add: mtx_gcb_def mtxcb_def)
    have cb: "mtxcb s1 = mtxcb s" "mtx_proto s1 = mtx_proto s" and pr: "pri s1 t = p" using c(1) mtx_calmD by (auto simp: chg_ok_def)
    have ct: "change_task_priority oh t p s = (if mtx_proto s i = TA_INHERIT then
          (if pri s1 h > p then change_task_priority oh h p s1
           else if pri s1 h = pri s t then release_mutex_with (change_task_priority oh) h None s1 else Some s1) else Some s1)"
      using mtx by (simp add: ctp Let_def mtx_chg_pri_with_def i_def [symmetric] g s1_def [symmetric] cb h(1) pr) auto
    show ?thesis
    proof (cases "mtx_proto s i = TA_INHERIT")
      case True
      then have "blocks s h t" using t h by (auto simp: blocks_def)
      from step_blocked [OF b c(1) foreign [OF O c(4,3)] c(2) this h(2)] ct True show ?thesis by simp
    next
      case False
      have "mtx_proto s j \<noteq> TA_INHERIT" if "t \<in> set (ques s (QMtx j))" for j
        using kinv_dest(7) [OF k t that] False by simp
      then show ?thesis
        by (intro step_unblocked [OF b c(1) foreign [OF O c(4,3)] c(2)]) (use ct False in auto)
    qed
  qed
qed

end

section \<open>How the claims on a priority change\<close>

definition own_pris :: "kstate \<Rightarrow> nat \<Rightarrow> nat set" where
  "own_pris s h = insert (bpriority (tcbs s h))
     {c. \<exists>i\<in>set (mtxlist (tcbs s h)). mtx_proto s i = TA_CEILING \<and> c = ceilpri (mtxcb s i)}"

definition heirs :: "kstate \<Rightarrow> nat \<Rightarrow> nat set" where
  "heirs s h = {x. \<exists>i\<in>set (mtxlist (tcbs s h)). mtx_proto s i = TA_INHERIT \<and> x \<in> set (ques s (QMtx i))}"

lemma set_claims: "set (claims s h) = own_pris s h \<union> pri s ` heirs s h"
  by (auto simp: claims_def own_pris_def heirs_def mtx_claims_def TA_CEILING_def TA_INHERIT_def split: if_splits)

lemma claims_calm:
  assumes "mtx_calm s s'"
  shows "own_pris s' h = own_pris s h" and "heirs s' h = heirs s h"
  using mtx_calmD [OF assms] by (simp_all add: own_pris_def heirs_def)

lemma claims_chg:
  assumes c: "chg_ok t p s s'"
  shows "t \<notin> heirs s u \<Longrightarrow> set (claims s' u) = set (claims s u)"
    and "t \<in> heirs s u \<Longrightarrow> set (claims s' u) = own_pris s u \<union> pri s ` (heirs s u - {t}) \<union> {p}"
    and "t \<in> heirs s u \<Longrightarrow> set (claims s u) = own_pris s u \<union> pri s ` (heirs s u - {t}) \<union> {pri s t}"
proof -
  have m: "mtx_calm s s'" and p: "pri s' = (pri s)(t := p)" using c by (auto simp: chg_ok_def fun_eq_iff)
  note e = set_claims [of s' u, unfolded claims_calm [OF m] p]
  show "t \<notin> heirs s u \<Longrightarrow> set (claims s' u) = set (claims s u)"
    unfolding e set_claims [of s] by (auto intro: image_eqI simp: image_iff)
  show "t \<in> heirs s u \<Longrightarrow> set (claims s' u) = own_pris s u \<union> pri s ` (heirs s u - {t}) \<union> {p}"
    unfolding e by (auto simp: image_iff)
  show "t \<in> heirs s u \<Longrightarrow> set (claims s u) = own_pris s u \<union> pri s ` (heirs s u - {t}) \<union> {pri s t}"
    unfolding set_claims by auto
qed

lemma is_min_raise: "is_min (A \<union> {q}) m \<Longrightarrow> p < m \<Longrightarrow> is_min (A \<union> {p}) p"
  by (fastforce simp: is_min_def)

lemma is_min_stay: "is_min (A \<union> {q}) m \<Longrightarrow> m \<noteq> q \<Longrightarrow> m \<le> p \<Longrightarrow> is_min (A \<union> {p}) m"
  by (auto simp: is_min_def)

context pri_hooks begin

text \<open>The task whose claims \<open>t\<close> is part of is the one that blocks it.\<close>

lemma heirs_blocks:
  assumes b: "base_ok X s" and h: "h \<notin> X"
  shows "t \<in> heirs s h \<longleftrightarrow> blocks s h t"
proof -
  have own: "set (mtxlist (tcbs s h)) = {i. i < maxid (mtxtab s) \<and> mtxid (mtxcb s i) \<noteq> 0 \<and> mtxtsk (mtxcb s i) = Some h}"
    using base_okD(5) [OF b] h by (simp add: mtx_own_def)
  have "i < maxid (mtxtab s)" "mtxid (mtxcb s i) \<noteq> 0" if "t \<in> set (ques s (QMtx i))" for i
    by (rule mtx_waiting [OF base_okD(3,5) [OF b] that], assumption)+
  then show ?thesis unfolding heirs_def blocks_def own by blast
qed

lemma blocks_unique: "base_ok X s \<Longrightarrow> blocks s h t \<Longrightarrow> blocks s h' t \<Longrightarrow> h = h'"
  using kinv_dest(7) [OF base_okD(1)] by (fastforce simp: blocks_def)

text \<open>\<open>t\<close> is about to get the priority \<open>p\<close>, which is right for it; the others have the right one.\<close>

definition chain_pre :: "nat set \<Rightarrow> nat \<Rightarrow> nat \<Rightarrow> kstate \<Rightarrow> bool" where
  "chain_pre X t p s \<longleftrightarrow> base_ok X s \<and> p < NUM_PRI \<and> (\<forall>u. u \<notin> X \<and> u \<noteq> t \<longrightarrow> pri_ok s u) \<and>
     (t \<notin> X \<longrightarrow> is_min (set (claims s t)) p)"

lemma chain_step:
  assumes pre: "chain_pre X t p s"
  shows "\<exists>s1. chg_ok t p s s1 \<and> base_ok X s1 \<and>
     (change_task_priority oh t p s = Some s1 \<and> (\<forall>u. u \<notin> X \<longrightarrow> pri_ok s1 u) \<or>
      (\<exists>h q. blocks s h t \<and> h \<noteq> t \<and> change_task_priority oh t p s = change_task_priority oh h q s1 \<and>
         chain_pre X h q s1 \<and> q \<noteq> pri s1 h \<and> (q = p \<and> p < pri s1 h \<or> pri s1 h = pri s t \<and> pri s1 h \<le> p)))"
proof -
  have b: "base_ok X s" and p: "p < NUM_PRI" and oth: "\<And>u. u \<notin> X \<Longrightarrow> u \<noteq> t \<Longrightarrow> is_min (set (claims s u)) (pri s u)"
    and tp: "t \<notin> X \<Longrightarrow> is_min (set (claims s t)) p" using pre by (auto simp: chain_pre_def pri_ok_iff)
  from change_step [OF b p, of t] obtain s1 where c: "chg_ok t p s s1" and b1: "base_ok X s1" and
    st: "(\<forall>h. \<not> blocks s h t) \<and> change_task_priority oh t p s = Some s1 \<or>
      (\<exists>h. blocks s h t \<and> h \<noteq> t \<and> change_task_priority oh t p s =
        (if pri s1 h > p then change_task_priority oh h p s1
         else if pri s1 h = pri s t then release_mutex_with (change_task_priority oh) h None s1 else Some s1))" by blast
  have pr: "pri s1 x = (if x = t then p else pri s x)" for x using c by (simp add: chg_ok_def)
  have free: "pri_ok s1 u" if "u \<notin> X" "\<not> blocks s u t" for u
  proof -
    have "t \<notin> heirs s u" using heirs_blocks [OF b that(1)] that(2) by simp
    then have "set (claims s1 u) = set (claims s u)" by (rule claims_chg(1) [OF c])
    then show ?thesis using oth [OF that(1)] tp that(1) by (cases "u = t") (simp_all add: pri_ok_iff pr)
  qed
  show ?thesis
  proof (cases "\<exists>h. blocks s h t")
    case False
    with st free c b1 show ?thesis by blast
  next
    case True
    then obtain h where h: "blocks s h t" "h \<noteq> t" and ct: "change_task_priority oh t p s =
        (if pri s1 h > p then change_task_priority oh h p s1
         else if pri s1 h = pri s t then release_mutex_with (change_task_priority oh) h None s1 else Some s1)" using st by blast
    have rest: "pri_ok s1 u" if "u \<notin> X" "u \<noteq> h" for u
      using free [OF that(1)] blocks_unique [OF b h(1)] that(2) by blast
    have hx: "t \<in> heirs s h" if "h \<notin> X" using heirs_blocks [OF b that] h(1) by simp
    have cl: "set (claims s1 h) = own_pris s h \<union> pri s ` (heirs s h - {t}) \<union> {p}"
        "is_min (own_pris s h \<union> pri s ` (heirs s h - {t}) \<union> {pri s t}) (pri s h)" if "h \<notin> X"
      using claims_chg(2,3) [OF c hx [OF that]] oth [OF that h(2)] by simp_all
    have pre1: "chain_pre X h q s1" if "q < NUM_PRI" "h \<notin> X \<Longrightarrow> is_min (set (claims s1 h)) q" for q
      using that b1 rest by (auto simp: chain_pre_def)
    consider (raise) "pri s1 h > p" | (reset) "pri s1 h \<le> p" "pri s1 h = pri s t" | (stop) "pri s1 h \<le> p" "pri s1 h \<noteq> pri s t" by linarith
    then show ?thesis
    proof cases
      case raise
      have "chain_pre X h p s1"
        by (rule pre1 [OF p]) (use cl is_min_raise raise pr h(2) in metis)
      moreover have "change_task_priority oh t p s = change_task_priority oh h p s1" "p \<noteq> pri s1 h" using ct raise by simp_all
      ultimately show ?thesis using c b1 h raise by blast
    next
      case stop
      have "pri_ok s1 h" if "h \<notin> X"
        using is_min_stay [OF cl(2) [OF that], of p] cl(1) [OF that] stop pr [of h] h(2) by (simp add: pri_ok_iff)
      then have "\<forall>u. u \<notin> X \<longrightarrow> pri_ok s1 u" using rest by blast
      moreover have "change_task_priority oh t p s = Some s1" using ct stop by simp
      ultimately show ?thesis using c b1 by blast
    next
      case reset
      define q where "q = Min (set (claims s1 h))"
      have ct: "change_task_priority oh t p s = (if q \<noteq> pri s1 h then change_task_priority oh h q s1 else Some s1)"
        using ct reset by (simp add: reset_none [OF b1] q_def [symmetric] Let_def)
      have m: "is_min (set (claims s1 h)) q" by (subst is_min_set) (simp_all add: q_def claims_def)
      have "q \<le> bpriority (tcbs s1 h)" using m by (simp add: is_min_def claims_def)
      with base_okD(6) [OF b1, of h] have "q < NUM_PRI" by simp
      from pre1 [OF this m] have pre2: "chain_pre X h q s1" .
      show ?thesis
      proof (cases "q = pri s1 h")
        case True
        then have "\<forall>u. u \<notin> X \<longrightarrow> pri_ok s1 u" using rest m by (metis pri_ok_iff)
        with ct True c b1 show ?thesis by auto
      next
        case False
        then have "change_task_priority oh t p s = change_task_priority oh h q s1" using ct by simp
        with False show ?thesis using c b1 h pre2 reset by blast
      qed
    qed
  qed
qed

text \<open>The holders, and \<open>t\<close> itself: the tasks a chain can run through.\<close>

definition holders :: "kstate \<Rightarrow> nat set" where
  "holders s = (\<lambda>i. case mtxtsk (mtxcb s i) of Some h \<Rightarrow> h | None \<Rightarrow> 0) ` {..<maxid (mtxtab s)}"

lemma holders: "finite (holders s)" "base_ok X s \<Longrightarrow> blocks s h t \<Longrightarrow> h \<in> holders s"
  "mtx_calm s s' \<Longrightarrow> holders s' = holders s"
proof -
  show "finite (holders s)" by (simp add: holders_def)
  show "mtx_calm s s' \<Longrightarrow> holders s' = holders s" using mtx_calmD(1,2) by (simp add: holders_def)
  assume b: "base_ok X s" and "blocks s h t"
  then obtain i where i: "t \<in> set (ques s (QMtx i))" "mtxtsk (mtxcb s i) = Some h" by (auto simp: blocks_def)
  have "i < maxid (mtxtab s)" by (rule mtx_waiting [OF base_okD(3,5) [OF b] i(1)])
  then show "h \<in> holders s" using i(2) by (force simp: holders_def)
qed

definition chain_post :: "nat set \<Rightarrow> kstate \<Rightarrow> kstate \<Rightarrow> bool" where
  "chain_post X s s' \<longleftrightarrow> base_ok X s' \<and> mtx_calm s s' \<and> (\<forall>u. u \<notin> X \<longrightarrow> pri_ok s' u)"

lemma chain_post_trans: "chg_ok t p s s1 \<Longrightarrow> chain_post X s1 s' \<Longrightarrow> chain_post X s s'"
  using mtx_calm_trans by (auto simp: chain_post_def chg_ok_def)

definition raised :: "nat \<Rightarrow> kstate \<Rightarrow> kstate \<Rightarrow> bool" where
  "raised p s s' \<longleftrightarrow> (\<forall>u. pri s' u = pri s u \<or> pri s' u = p \<and> p < pri s u)"

lemma psubset_card_pri:
  assumes W: "finite W" "t \<in> W" and P: "P (pri s t)" "\<not> P p" and pr: "\<And>x. pri s1 x = (if x = t then p else pri s x)"
  shows "card {u \<in> W. P (pri s1 u)} < card {u \<in> W. P (pri s u)}"
proof (rule psubset_card_mono)
  show "{u \<in> W. P (pri s1 u)} \<subset> {u \<in> W. P (pri s u)}" using W(2) P by (auto simp: pr)
qed (use W(1) in simp)

lemma raise_chain:
  assumes "finite W" "holders s \<subseteq> W" "t \<in> W" "p < pri s t" "chain_pre X t p s"
  shows "\<exists>s'. change_task_priority oh t p s = Some s' \<and> chain_post X s s' \<and> raised p s s' \<and> pri s' t = p"
  using assms(2-)
proof (induction "card {u \<in> W. p < pri s u}" arbitrary: t s rule: less_induct)
  case less
  have b: "base_ok X s" using less.prems by (simp add: chain_pre_def)
  from chain_step [OF less.prems(4)] obtain s1 where c: "chg_ok t p s s1" and b1: "base_ok X s1" and
    d: "change_task_priority oh t p s = Some s1 \<and> (\<forall>u. u \<notin> X \<longrightarrow> pri_ok s1 u) \<or>
      (\<exists>h q. blocks s h t \<and> h \<noteq> t \<and> change_task_priority oh t p s = change_task_priority oh h q s1 \<and>
         chain_pre X h q s1 \<and> q \<noteq> pri s1 h \<and> (q = p \<and> p < pri s1 h \<or> pri s1 h = pri s t \<and> pri s1 h \<le> p))" by blast
  have pr: "pri s1 x = (if x = t then p else pri s x)" for x using c by (simp add: chg_ok_def)
  have m: "mtx_calm s s1" using c by (simp add: chg_ok_def)
  have r1: "raised p s s1" using less.prems(3) by (simp add: raised_def pr)
  from d show ?case
  proof (elim disjE exE conjE)
    assume "change_task_priority oh t p s = Some s1" "\<forall>u. u \<notin> X \<longrightarrow> pri_ok s1 u"
    with b1 m r1 pr show ?thesis by (simp add: chain_post_def)
  next
    fix h q
    assume "pri s1 h = pri s t" "pri s1 h \<le> p"
    with less.prems(3) show ?thesis by simp
  next
    fix h q
    assume h: "blocks s h t" "h \<noteq> t" and ct: "change_task_priority oh t p s = change_task_priority oh h q s1"
      and pre: "chain_pre X h q s1" and q: "q = p" "p < pri s1 h"
    have W1: "holders s1 \<subseteq> W" "h \<in> W" using holders(2) [OF b h(1)] holders(3) [OF m] less.prems(1) by auto
    have "card {u \<in> W. p < pri s1 u} < card {u \<in> W. p < pri s u}"
      by (rule psubset_card_pri [OF assms(1) less.prems(2,3) less_irrefl pr])
    from less.hyps [OF this W1 q(2) pre [unfolded q(1)]] obtain s' where
      s': "change_task_priority oh h p s1 = Some s'" "chain_post X s1 s'" "raised p s1 s'" by blast
    have "raised p s s'" using r1 s'(3) unfolding raised_def by (metis less_irrefl)
    moreover have "pri s' t = p" using s'(3) pr [of t] unfolding raised_def by metis
    ultimately show ?thesis using s'(1) ct q(1) chain_post_trans [OF c s'(2)] by simp
  qed
qed

lemma lower_chain:
  assumes "finite W" "holders s \<subseteq> W" "t \<in> W" "pri s t = old" "old < p" "chain_pre X t p s"
  shows "\<exists>s'. change_task_priority oh t p s = Some s' \<and> chain_post X s s'"
  using assms(2-)
proof (induction "card {u \<in> W. pri s u = old}" arbitrary: t s p rule: less_induct)
  case less
  have b: "base_ok X s" using less.prems by (simp add: chain_pre_def)
  from chain_step [OF less.prems(5)] obtain s1 where c: "chg_ok t p s s1" and b1: "base_ok X s1" and
    d: "change_task_priority oh t p s = Some s1 \<and> (\<forall>u. u \<notin> X \<longrightarrow> pri_ok s1 u) \<or>
      (\<exists>h q. blocks s h t \<and> h \<noteq> t \<and> change_task_priority oh t p s = change_task_priority oh h q s1 \<and>
         chain_pre X h q s1 \<and> q \<noteq> pri s1 h \<and> (q = p \<and> p < pri s1 h \<or> pri s1 h = pri s t \<and> pri s1 h \<le> p))" by blast
  have pr: "pri s1 x = (if x = t then p else pri s x)" for x using c by (simp add: chg_ok_def)
  have m: "mtx_calm s s1" using c by (simp add: chg_ok_def)
  show ?case
  proof (cases "change_task_priority oh t p s = Some s1 \<and> (\<forall>u. u \<notin> X \<longrightarrow> pri_ok s1 u)")
    case True
    with b1 m show ?thesis by (simp add: chain_post_def)
  next
    case False
    with d obtain h q where h: "blocks s h t" "h \<noteq> t" and ct: "change_task_priority oh t p s = change_task_priority oh h q s1"
      and pre: "chain_pre X h q s1" and q: "q \<noteq> pri s1 h" "q = p \<and> p < pri s1 h \<or> pri s1 h = pri s t \<and> pri s1 h \<le> p" by blast
    have W1: "holders s1 \<subseteq> W" "h \<in> W" using holders(2) [OF b h(1)] holders(3) [OF m] less.prems(1) by auto
    have "\<exists>s'. change_task_priority oh h q s1 = Some s' \<and> chain_post X s1 s'"
    proof (cases "q < pri s1 h")
      case True
      from raise_chain [OF assms(1) W1 this pre] show ?thesis by blast
    next
      case low: False
      then have h1: "pri s1 h = old" "old < q" using q less.prems(3) by auto
      have "card {u \<in> W. pri s1 u = old} < card {u \<in> W. pri s u = old}"
        by (rule psubset_card_pri [OF assms(1) less.prems(2), where P = "\<lambda>x. x = old"]) (use less.prems(3,4) pr in auto)
      from less.hyps [OF this W1 h1 pre] show ?thesis .
    qed
    then show ?thesis using ct chain_post_trans [OF c] by auto
  qed
qed

theorem change_priority_ok:
  assumes pre: "chain_pre X t p s"
  shows "\<exists>s'. change_task_priority oh t p s = Some s' \<and> chain_post X s s' \<and> (p < pri s t \<longrightarrow> raised p s s' \<and> pri s' t = p)"
proof -
  let ?W = "insert t (holders s)"
  have W: "finite ?W" "holders s \<subseteq> ?W" "t \<in> ?W" using holders(1) by auto
  consider "p < pri s t" | "pri s t < p" | (eq) "p = pri s t" by linarith
  then show ?thesis
  proof cases
    case 1
    from raise_chain [OF W 1 pre] show ?thesis by blast
  next
    case 2
    from lower_chain [OF W refl 2 pre] 2 show ?thesis by auto
  next
    case eq
    from chain_step [OF pre] obtain s1 where c: "chg_ok t p s s1" and b1: "base_ok X s1" and
      d: "change_task_priority oh t p s = Some s1 \<and> (\<forall>u. u \<notin> X \<longrightarrow> pri_ok s1 u) \<or>
        (\<exists>h q. blocks s h t \<and> h \<noteq> t \<and> change_task_priority oh t p s = change_task_priority oh h q s1 \<and> chain_pre X h q s1 \<and> q \<noteq> pri s1 h)"
      by blast
    from d show ?thesis
    proof (elim disjE exE conjE)
      assume "change_task_priority oh t p s = Some s1" "\<forall>u. u \<notin> X \<longrightarrow> pri_ok s1 u"
      with b1 c eq show ?thesis by (simp add: chain_post_def chg_ok_def)
    next
      fix h q
      assume ct: "change_task_priority oh t p s = change_task_priority oh h q s1" and p1: "chain_pre X h q s1" "q \<noteq> pri s1 h"
      have W1: "finite (insert h (holders s1))" "holders s1 \<subseteq> insert h (holders s1)" "h \<in> insert h (holders s1)" using holders(1) by auto
      have "\<exists>s'. change_task_priority oh h q s1 = Some s' \<and> chain_post X s1 s'"
        using raise_chain [OF W1 _ p1(1)] lower_chain [OF W1 refl _ p1(1)] p1(2) by (cases "q < pri s1 h") auto
      then show ?thesis using ct chain_post_trans [OF c] eq by auto
    qed
  qed
qed

lemma change_ready_ok:
  "base_ok X s \<Longrightarrow> state (tcbs s t) = TS_READY \<Longrightarrow> p < NUM_PRI \<Longrightarrow> change_task_priority oh t p s = Some (chg_ready t p s) \<and>
     chg_ok t p s (chg_ready t p s) \<and> base_ok X (chg_ready t p s)"
  using chg_ready_chg_ok [of s t p] base_ok_chg [of X s t p "chg_ready t p s"] foreign [of s "chg_ready t p s"]
  by (auto simp: base_ok_def change_task_priority.simps chg_ready_def)

section \<open>The operations on mutexes\<close>

text \<open>
  \<open>mtx_ok s\<close>: all the invariants. Task \<open>t\<close> of \<open>X\<close> has an outdated list of mutexes in the middle of an operation.
\<close>

definition pri_inv :: "nat set \<Rightarrow> kstate \<Rightarrow> bool" where
  "pri_inv X s \<longleftrightarrow> base_ok X s \<and> (\<forall>u. u \<notin> X \<longrightarrow> pri_ok s u)"

lemma chain_post_inv: "chain_post X s s' \<Longrightarrow> pri_inv X s'"
  by (simp add: chain_post_def pri_inv_def)

text \<open>\<open>mtx_rel_wai\<close>: a task that waited for the mutex of \<open>h\<close> has left its queue.\<close>

lemma mtx_rel_wai_ok:
  assumes b: "base_ok {} s" and oth: "\<And>u. u \<noteq> h \<Longrightarrow> pri_ok s u"
    and own: "mtxtsk (mtxcb s (INDEX_OBJ (wid (tcbs s t)))) = Some h"
    and m: "is_min (insert (pri s t) (set (claims s h))) (pri s h)"
  shows "\<exists>s'. mtx_rel_wai oh t s = Some s' \<and> pri_inv {} s' \<and> mtx_calm s s'"
proof (cases "pri s h = pri s t")
  case False
  then have "pri_ok s h" using m by (auto simp: pri_ok_iff is_min_def)
  then have "\<forall>u. pri_ok s u" using oth by metis
  then show ?thesis using False own b by (simp add: mtx_rel_wai_def pri_inv_def)
next
  case True
  define q where "q = Min (set (claims s h))"
  have e: "mtx_rel_wai oh t s = (if q \<noteq> pri s h then change_task_priority oh h q s else Some s)"
    using own True by (simp add: mtx_rel_wai_def release_mutex_def reset_none [OF b] q_def [symmetric] Let_def)
  have mq: "is_min (set (claims s h)) q" by (subst is_min_set) (simp_all add: q_def claims_def)
  show ?thesis
  proof (cases "q = pri s h")
    case True
    then have "\<forall>u. pri_ok s u" using oth mq by (metis pri_ok_iff)
    then show ?thesis using True e b by (simp add: pri_inv_def)
  next
    case False
    have "q \<le> bpriority (tcbs s h)" using mq by (simp add: is_min_def claims_def)
    with base_okD(6) [OF b, of h] have "q < NUM_PRI" by simp
    then have "chain_pre {} h q s" using b oth mq by (simp add: chain_pre_def)
    from change_priority_ok [OF this] e False chain_post_inv show ?thesis by (auto simp: chain_post_def)
  qed
qed

end

end
