(* ===== verification/Hook_Steps.thy ===== *)
theory Hook_Steps
  imports Inheritance
begin

text \<open>
  What the hooks of the object modules do besides moving the task: they release tasks and change the
  data of their own module. Such steps keep what the mutexes rely on (\<open>calm_step\<close>). The second part
  says what a change of priority does to the waiting tasks as the object modules see them.
\<close>

section \<open>Releasing tasks\<close>

definition calm_step :: "kstate \<Rightarrow> kstate \<Rightarrow> bool" where
  "calm_step s s' \<longleftrightarrow> kinv s' \<and> placed s' \<and> mtx_calm s s' \<and> (\<forall>x. pri s' x = pri s x) \<and>
     (\<forall>i. waiters s' (QMtx i) = waiters s (QMtx i))"

lemma calm_step_refl: "kinv s \<Longrightarrow> placed s \<Longrightarrow> calm_step s s"
  by (simp add: calm_step_def)

lemma calm_step_trans [trans]: "calm_step a b \<Longrightarrow> calm_step b c \<Longrightarrow> calm_step a c"
  using mtx_calm_trans by (auto simp: calm_step_def)

lemma calm_stepD: "calm_step s s' \<Longrightarrow> kinv s'" "calm_step s s' \<Longrightarrow> placed s'"
  by (simp_all add: calm_step_def)

lemma calm_same:
  assumes "kinv s'" "placed s" "tcbs s' = tcbs s" "ques s' = ques s" "mtxtab s' = mtxtab s" "ctxtsk s' = ctxtsk s" "num_proc s' = num_proc s"
  shows "calm_step s s'"
proof -
  have "rdy s' = rdy s" using assms(4) by (simp add: rdy_def)
  moreover have "placed s'" using assms(2-4) by (simp add: placed_def well_placed_def)
  ultimately show ?thesis using assms by (simp add: calm_step_def mtx_calm_def waiters_def)
qed

text \<open>The tasks of \<open>R\<close> are released from queue \<open>q\<close>.\<close>

lemma calm_served:
  assumes k: "kinv s" "kinv s'" and pl: "placed s" and h: "wait_head q" and n: "\<And>i. q \<noteq> QMtx i"
    and R: "R \<subseteq> set (ques s q)" "\<And>x. x \<in> R \<Longrightarrow> released e (tcbs s x) (tcbs s' x)" "\<And>x. x \<notin> R \<Longrightarrow> tcbs s' x = tcbs s x"
    and q: "set (ques s' q) = set (ques s q) - R" "\<And>q'. \<not> ready_head q' \<Longrightarrow> q' \<noteq> q \<Longrightarrow> ques s' q' = ques s q'"
    and m: "mtxtab s' = mtxtab s" "ctxtsk s' = ctxtsk s" "num_proc s' = num_proc s"
  shows "calm_step s s'" and "touches {q} s s'"
proof -
  have w: "is_wait (state (tcbs s x))" if "x \<in> R" for x using wait_headD [OF k(1) h] R(1) that by blast
  have st: "\<not> is_wait (state (tcbs s' x))" if "x \<in> R" for x using R(2) [OF that] by (simp add: released_def)
  have same: "bpriority (tcbs s' x) = bpriority (tcbs s x)" "mtxlist (tcbs s' x) = mtxlist (tcbs s x)" "wspec (tcbs s' x) = wspec (tcbs s x)"
    "wid (tcbs s' x) = wid (tcbs s x)" "pri s' x = pri s x" "wview (tcbs s' x) = wview (tcbs s x)" for x
    using R(2,3) [of x] by (cases "x \<in> R"; simp add: released_def wview_def)+
  have iw: "x \<notin> R \<and> is_wait (state (tcbs s x))" if "is_wait (state (tcbs s' x))" for x
    using that st R(3) by (cases "x \<in> R") auto
  show tch: "touches {q} s s'" by (rule touchesI) (use q(2) same in auto)
  have np: "wait_place w d = Some q' \<Longrightarrow> \<not> ready_head q'" for w d q' by (cases w) auto
  have wp: "well_placed s' x" if x: "is_wait (state (tcbs s' x))" for x
  proof -
    have p: "well_placed s x" using pl iw [OF x] unfolding placed_def by blast
    have "x \<in> set (ques s' q')" if "wait_place (wspec (tcbs s x)) (wid (tcbs s x)) = Some q'" for q'
    proof -
      have "x \<in> set (ques s q')" using p that by (simp add: well_placed_def)
      then show ?thesis using np [OF that] q iw [OF x] by (cases "q' = q") auto
    qed
    then show ?thesis using p by (simp add: well_placed_def same)
  qed
  have rd: "x \<in> set (rdy s')" if "x \<in> set (rdy s)" for x
  proof -
    have "x \<notin> R" using that w kinv_rdy [OF k(1)] by fastforce
    then show ?thesis using that R(3) by (simp add: kinv_rdy [OF k(1)] kinv_rdy [OF k(2)])
  qed
  have "waiters s' (QMtx i) = waiters s (QMtx i)" for i
    by (rule touchesD [OF tch]) (use n in \<open>auto simp: ready_head_def\<close>)
  moreover have "ques s' (QMtx i) = ques s (QMtx i)" for i by (rule q(2)) (use n in \<open>auto simp: ready_head_def\<close>)
  ultimately show "calm_step s s'"
    using k(2) same iw wp m rd by (auto simp: calm_step_def mtx_calm_def placed_def)
qed

lemma calm_release:
  assumes k: "kinv s" and pl: "placed s" and h: "wait_head q" and n: "\<And>i. q \<noteq> QMtx i" and t: "t \<in> set (ques s q)"
  shows "calm_step s (wait_release_ok_ercd t e s)"
proof -
  note r = wait_release_props [OF k h t, where e = e]
  show ?thesis
    by (rule calm_served(1) [OF k r(1) pl h n, where R = "{t}" and e = e])
      (use r t kinv_dest(5) [OF k, of q] in \<open>auto simp: objs_same_def\<close>)
qed

lemmas calm_release_ok = calm_release [where e = E_OK, folded wait_release_ok_ercd_E_OK]

lemma chg_ok_calm:
  assumes "chg_ok t p s s1" and "calm_step s1 s2"
  shows "chg_ok t p s s2" and "\<And>i. waiters s2 (QMtx i) = waiters s1 (QMtx i)"
  using assms mtx_calm_trans by (auto simp: chg_ok_def calm_step_def)

section \<open>A change of priority seen by the objects\<close>

definition repri :: "nat \<Rightarrow> nat \<Rightarrow> waiter list \<Rightarrow> waiter list" where
  "repri t p ws = map (\<lambda>(x, wi, d, sp, q). (x, wi, d, sp, if x = t then p else q)) ws"

lemma waiters_repri: "waiters (upd_tcb t (\<lambda>c. c\<lparr>priority := p\<rparr>) s) q = repri t p (waiters s q)"
  by (simp add: waiters_def repri_def wview_def)

lemma repri_notin: "t \<notin> fst ` set ws \<Longrightarrow> repri t p ws = ws"
  unfolding repri_def by (rule map_idI) (force simp: image_iff)

lemma repri_Nil [simp]: "repri t p ws = [] \<longleftrightarrow> ws = []" "length (repri t p ws) = length ws"
  by (simp_all add: repri_def)

lemma set_repri: "set (repri t p ws) = (\<lambda>(x, wi, d, sp, q). (x, wi, d, sp, if x = t then p else q)) ` set ws"
  by (simp add: repri_def)

text \<open>The invariant of an object whose queue does not depend on the priorities.\<close>

lemma repri_wf:
  assumes "t \<in> fst ` set ws \<Longrightarrow> W (repri t p ws)" and "W ws"
  shows "W (repri t p ws)"
  using assms repri_notin by (cases "t \<in> fst ` set ws") auto

end
