(* ===== verification/Eventflag.thy ===== *)
theory Eventflag
  imports Object_Base
begin

text \<open>
  Event flags, \<^verbatim>\<open>eventflag.c\<close>. \<open>set_scan\<close> is the loop of \<open>_tk_set_flg\<close>; \<open>flg_serve\<close> is its
  specification on the list of waiting conditions. The component invariant says that the condition
  of no waiting task holds, that at most one task waits without \<open>TA_WMUL\<close>, and that a queue in
  priority order is sorted.
\<close>

section \<open>Control blocks\<close>

definition TWF_ORW :: UW where "TWF_ORW = 0x00000001"
definition TWF_CLR :: UW where "TWF_CLR = 0x00000010"
definition TWF_BITCLR :: UW where "TWF_BITCLR = 0x00000020"
definition TA_WMUL :: ATR where "TA_WMUL = 0x00000008"

definition flgcb :: "kstate \<Rightarrow> nat \<Rightarrow> FLGCB" where
  "flgcb s i = cbs (flgtab s) i"

definition upd_flg :: "nat \<Rightarrow> (FLGCB \<Rightarrow> FLGCB) \<Rightarrow> kstate \<Rightarrow> kstate" where
  "upd_flg i f s = s\<lparr>flgtab := (flgtab s)\<lparr>cbs := (cbs (flgtab s))(i := f (cbs (flgtab s) i))\<rparr>\<rparr>"

definition set_free_flg :: "nat list \<Rightarrow> kstate \<Rightarrow> kstate" where
  "set_free_flg q s = s\<lparr>flgtab := (flgtab s)\<lparr>freeq := q\<rparr>\<rparr>"

definition flg_gcb :: "kstate \<Rightarrow> nat \<Rightarrow> GCB" where
  "flg_gcb s i = \<lparr>wait_queue = QFlg i, objid = flgid (flgcb s i), objatr = flgatr (flgcb s i)\<rparr>"

definition flg_ops :: objops where
  "flg_ops = \<lparr>oo_type = OT_FLG, oo_dispatch = False, oo_max = \<lambda>s. maxid (flgtab s), oo_id = \<lambda>s i. flgid (flgcb s i),
     oo_atr = \<lambda>s i. flgatr (flgcb s i), oo_name = \<lambda>s i. flg_oname (flgcb s i),
     oo_set_name = \<lambda>i nm. upd_flg i (\<lambda>c. c\<lparr>flg_oname := nm\<rparr>), oo_free = \<lambda>s. freeq (flgtab s),
     oo_set_free = set_free_flg, oo_set_id = \<lambda>i x. upd_flg i (\<lambda>c. c\<lparr>flgid := x\<rparr>)\<rparr>"

section \<open>Operations\<close>

definition eventflag_initialize :: "int option \<Rightarrow> bool \<Rightarrow> kstate \<Rightarrow> ER \<times> kstate" where
  "eventflag_initialize max_flgid mem s =
    (case max_flgid of
       None \<Rightarrow> (E_SYS, s)
     | Some m \<Rightarrow>
         let s = s\<lparr>flgtab := (flgtab s)\<lparr>maxid := nat m\<rparr>\<rparr> in
         if m < 1 then (E_SYS, s)
         else if \<not> mem then (E_NOMEM, s)
         else (E_OK, s\<lparr>flgtab := (flgtab s)\<lparr>cbs := (\<lambda>i. if i < nat m then (cbs (flgtab s) i)\<lparr>flgid := 0\<rparr> else cbs (flgtab s) i),
                 freeq := [0..<nat m]\<rparr>\<rparr>))"

definition eventflag_cond :: "UW \<Rightarrow> UW \<Rightarrow> UW \<Rightarrow> bool" where
  "eventflag_cond ptn waiptn wfmode =
    (if wfmode AND TWF_ORW \<noteq> 0 then ptn AND waiptn \<noteq> 0 else ptn AND waiptn = waiptn)"

definition flg_chg_pri :: "nat \<Rightarrow> int \<Rightarrow> kstate \<Rightarrow> kstate" where
  "flg_chg_pri t oldpri s = gcb_change_priority (flg_gcb s (INDEX_OBJ (wid (tcbs s t)))) t s"

record T_CFLG =
  cflg_exinf :: UW
  cflg_flgatr :: ATR
  cflg_iflgptn :: UW
  cflg_domid :: ID
  cflg_oname :: "UB list"

definition VALID_FLGATR :: ATR where
  "VALID_FLGATR = TA_TPRI OR TA_WMUL OR TA_NODISWAI OR TA_DOMID OR TA_ONAME OR TA_PRIVATE OR TA_PROTECTED OR TA_PUBLIC"

definition tk_cre_flg :: "nat \<Rightarrow> T_CFLG \<Rightarrow> kstate \<Rightarrow> (ER \<times> kstate) option" where
  "tk_cre_flg prid pk =
    obj_cre [CHECK_RSATR (cflg_flgatr pk) VALID_FLGATR] prid flg_ops (cflg_flgatr pk) (cflg_domid pk) (cflg_oname pk)
      (\<lambda>i oid s. upd_flg i (\<lambda>c. c\<lparr>flgid := oid, flg_exinf := cflg_exinf pk, flgatr := cflg_flgatr pk, flgptn := cflg_iflgptn pk\<rparr>)
         (set_que (QFlg i) [] s))"

definition tk_del_flg :: "nat \<Rightarrow> ID \<Rightarrow> kstate \<Rightarrow> (ER \<times> kstate) option" where
  "tk_del_flg prid fid s =
    obj_call True [CHECK_FLGID s fid] prid flg_ops fid
      (\<lambda>i s. do { s \<leftarrow> wait_delete (QFlg i) s; end_critical E_OK (obj_unlink flg_ops fid i s) }) s"

text \<open>The search loop of \<open>_tk_set_flg\<close>; the list is the part of the wait queue still to look at.\<close>

fun set_scan :: "nat \<Rightarrow> nat list \<Rightarrow> kstate \<Rightarrow> kstate" where
  "set_scan i [] s = s"
| "set_scan i (t # ts) s =
    (let waiptn = flg_waiptn (winfo (tcbs s t));
         wfmode = flg_wfmode (winfo (tcbs s t))
     in if eventflag_cond (flgptn (flgcb s i)) waiptn wfmode then
          (let s = s\<lparr>umem := (umem s)(flg_p_flgptn (winfo (tcbs s t)) := flgptn (flgcb s i))\<rparr>;
               s = wait_release_ok t s;
               s = (if wfmode AND TWF_BITCLR \<noteq> 0 then upd_flg i (\<lambda>c. c\<lparr>flgptn := flgptn c AND NOT waiptn\<rparr>) s else s)
           in if wfmode AND TWF_BITCLR \<noteq> 0 \<and> flgptn (flgcb s i) = 0 then s
              else if wfmode AND TWF_CLR \<noteq> 0 then upd_flg i (\<lambda>c. c\<lparr>flgptn := 0\<rparr>) s
              else set_scan i ts s)
        else set_scan i ts s)"

definition tk_set_flg :: "nat \<Rightarrow> ID \<Rightarrow> UW \<Rightarrow> kstate \<Rightarrow> (ER \<times> kstate) option" where
  "tk_set_flg prid fid setptn s =
    obj_call True [CHECK_FLGID s fid] prid flg_ops fid
      (\<lambda>i s. let s = upd_flg i (\<lambda>c. c\<lparr>flgptn := flgptn c OR setptn\<rparr>) s
             in end_critical E_OK (set_scan i (ques s (QFlg i)) s)) s"

definition tk_clr_flg :: "nat \<Rightarrow> ID \<Rightarrow> UW \<Rightarrow> kstate \<Rightarrow> (ER \<times> kstate) option" where
  "tk_clr_flg prid fid clrptn s =
    obj_call False [CHECK_FLGID s fid] prid flg_ops fid
      (\<lambda>i s. Some (E_OK, upd_flg i (\<lambda>c. c\<lparr>flgptn := flgptn c AND clrptn\<rparr>) s)) s"

text \<open>The effect of a satisfied \<open>tk_wai_flg\<close> on the pattern.\<close>

definition wai_clear :: "UW \<Rightarrow> UW \<Rightarrow> UW \<Rightarrow> UW" where
  "wai_clear waiptn wfmode ptn =
    (let ptn = (if wfmode AND TWF_BITCLR \<noteq> 0 then ptn AND NOT waiptn else ptn)
     in if wfmode AND TWF_CLR \<noteq> 0 then 0 else ptn)"

definition tk_wai_flg :: "nat \<Rightarrow> ID \<Rightarrow> UW \<Rightarrow> UW \<Rightarrow> UW \<Rightarrow> TMO \<Rightarrow> kstate \<Rightarrow> (ER \<times> kstate) option" where
  "tk_wai_flg prid fid waiptn wfmode p_flgptn tmout s =
    obj_call True [CHECK_FLGID s fid, CHECK_PAR (waiptn \<noteq> 0), CHECK_PAR (wfmode AND NOT (TWF_ORW OR TWF_CLR OR TWF_BITCLR) = 0),
        CHECK_TMOUT tmout, CHECK_DISPATCH prid s] prid flg_ops fid
      (\<lambda>i s. if flgatr (flgcb s i) AND TA_WMUL = 0 \<and> ques s (QFlg i) \<noteq> [] then end_critical E_OBJ s
             else do {
               t \<leftarrow> ctxtsk s prid;
               if is_diswai (flg_gcb s i) (tcbs s t) TTW_FLG then end_critical E_DISWAI s
               else if eventflag_cond (flgptn (flgcb s i)) waiptn wfmode then
                 (let s = s\<lparr>umem := (umem s)(p_flgptn := flgptn (flgcb s i))\<rparr>
                  in end_critical E_OK (upd_flg i (\<lambda>c. c\<lparr>flgptn := wai_clear waiptn wfmode (flgptn c)\<rparr>) s))
               else wait_on prid (flg_gcb s i) (if flgatr (flgcb s i) AND TA_TPRI \<noteq> 0 then Wspec_flg_tpri else Wspec_flg_tfifo)
                      (Winfo_flg waiptn wfmode p_flgptn) tmout s
             }) s"

record T_RFLG =
  rflg_exinf :: UW
  rflg_wtsk :: ID
  rflg_flgptn :: UW

definition flg_ref :: "kstate \<Rightarrow> nat \<Rightarrow> T_RFLG" where
  "flg_ref s i = \<lparr>rflg_exinf = flg_exinf (flgcb s i), rflg_wtsk = wait_tskid (QFlg i) s, rflg_flgptn = flgptn (flgcb s i)\<rparr>"

definition tk_ref_flg :: "nat \<Rightarrow> ID \<Rightarrow> kstate \<Rightarrow> (ER \<times> T_RFLG option) option" where
  "tk_ref_flg prid fid s = obj_ref [CHECK_FLGID s fid] prid flg_ops fid (flg_ref s) s"

definition tk_fnd_flg :: "nat \<Rightarrow> ID \<Rightarrow> UB list \<Rightarrow> kstate \<Rightarrow> (ER \<times> kstate) option" where
  "tk_fnd_flg prid = obj_fnd prid flg_ops"

definition tk_dmi_flg :: "nat \<Rightarrow> ID \<Rightarrow> kstate \<Rightarrow> ((ER \<times> T_DMI option) \<times> kstate) option" where
  "tk_dmi_flg prid = obj_dmi prid flg_ops"

definition eventflag_getname :: "ID \<Rightarrow> kstate \<Rightarrow> ER \<times> UB list option" where
  "eventflag_getname = obj_getname flg_ops"

definition eventflag_setname :: "ID \<Rightarrow> UB list \<Rightarrow> kstate \<Rightarrow> ER \<times> kstate" where
  "eventflag_setname = obj_setname flg_ops"

definition td_lst_flg :: "int \<Rightarrow> kstate \<Rightarrow> int \<times> ID list" where
  "td_lst_flg = obj_lst flg_ops"

definition td_ref_flg :: "ID \<Rightarrow> kstate \<Rightarrow> ER \<times> T_RFLG option" where
  "td_ref_flg fid s = obj_td_ref [CHECK_FLGID s fid] flg_ops fid (flg_ref s) s"

definition td_flg_que :: "ID \<Rightarrow> int \<Rightarrow> kstate \<Rightarrow> ER \<times> ID list" where
  "td_flg_que fid nent s = obj_td_que [CHECK_FLGID s fid] flg_ops QFlg fid nent s"

definition td_fnd_flg :: "ID \<Rightarrow> UB list \<Rightarrow> kstate \<Rightarrow> ER" where
  "td_fnd_flg = obj_td_fnd flg_ops"

definition td_dmi_flg :: "ID \<Rightarrow> kstate \<Rightarrow> ER \<times> T_DMI option" where
  "td_dmi_flg = obj_td_dmi flg_ops"

section \<open>Which tasks a pattern serves\<close>

text \<open>
  The specification of the loop: the waiting tasks take what they wait for one after the other. The
  result lists the tasks served with the address and the pattern each one gets, and the pattern left.
  The \<open>break\<close>s of the code do not show: nothing waits for the empty pattern.
\<close>

fun flg_serve :: "UW \<Rightarrow> (nat \<times> WINFO) list \<Rightarrow> (nat \<times> UW \<times> UW) list \<times> UW" where
  "flg_serve ptn [] = ([], ptn)"
| "flg_serve ptn ((t, wi) # ws) =
    (if eventflag_cond ptn (flg_waiptn wi) (flg_wfmode wi) then
       (case flg_serve (wai_clear (flg_waiptn wi) (flg_wfmode wi) ptn) ws of
          (r, p) \<Rightarrow> ((t, flg_p_flgptn wi, ptn) # r, p))
     else flg_serve ptn ws)"

definition tasks :: "(nat \<times> 'a) list \<Rightarrow> nat set" where
  "tasks r = fst ` set r"

lemma tasks_simps [simp]:
  "tasks [] = {}" "tasks ((t, x) # r) = insert t (tasks r)" "tasks (r @ r') = tasks r \<union> tasks r'" "finite (tasks r)"
  by (auto simp: tasks_def)

lemma flg_serve_tasks: "tasks (fst (flg_serve ptn ws)) \<subseteq> tasks ws"
proof (induction ptn ws rule: flg_serve.induct)
  case (2 ptn t wi ws)
  show ?case
  proof (cases "eventflag_cond ptn (flg_waiptn wi) (flg_wfmode wi)")
    case True
    then show ?thesis using 2(1) [OF True]
      by (cases "flg_serve (wai_clear (flg_waiptn wi) (flg_wfmode wi) ptn) ws") auto
  qed (use 2(2) in auto)
qed simp

definition sub_ptn :: "UW \<Rightarrow> UW \<Rightarrow> bool" where
  "sub_ptn p q \<longleftrightarrow> p AND q = p"

lemma sub_ptn_bit: "sub_ptn p q \<longleftrightarrow> (\<forall>n. bit p n \<longrightarrow> bit q n)"
proof
  assume "sub_ptn p q"
  then have "bit (p AND q) n = bit p n" for n by (simp add: sub_ptn_def)
  then show "\<forall>n. bit p n \<longrightarrow> bit q n" by (simp add: bit_simps) blast
next
  assume "\<forall>n. bit p n \<longrightarrow> bit q n"
  then show "sub_ptn p q" unfolding sub_ptn_def by (intro bit_word_eqI) (auto simp: bit_simps)
qed

lemma sub_ptn_trans: "sub_ptn p q \<Longrightarrow> sub_ptn q r \<Longrightarrow> sub_ptn p r"
  by (simp add: sub_ptn_bit)

lemma sub_ptn_simps [simp]: "sub_ptn p p" "sub_ptn 0 p" "sub_ptn (p AND q) p" "sub_ptn p (p OR q)"
  by (auto simp: sub_ptn_bit bit_simps)

lemma wai_clear_sub: "sub_ptn (wai_clear w m ptn) ptn"
  by (simp add: wai_clear_def)

lemma flg_serve_sub: "sub_ptn (snd (flg_serve ptn ws)) ptn"
  by (induction ptn ws rule: flg_serve.induct) (auto split: prod.splits intro: sub_ptn_trans [OF _ wai_clear_sub])

lemma cond_bit:
  "eventflag_cond ptn w m \<longleftrightarrow>
     (if m AND TWF_ORW \<noteq> 0 then \<exists>n. bit ptn n \<and> bit w n else \<forall>n. bit w n \<longrightarrow> bit ptn n)"
proof -
  have "ptn AND w \<noteq> 0 \<longleftrightarrow> (\<exists>n. bit ptn n \<and> bit w n)"
  proof
    assume "ptn AND w \<noteq> 0"
    then obtain n where "bit (ptn AND w) n \<noteq> bit (0 :: UW) n" using bit_eqI by blast
    then show "\<exists>n. bit ptn n \<and> bit w n" by (auto simp: bit_simps)
  next
    assume "\<exists>n. bit ptn n \<and> bit w n"
    then obtain n where "bit (ptn AND w) n" by (auto simp: bit_simps)
    then show "ptn AND w \<noteq> 0" by auto
  qed
  moreover have "ptn AND w = w \<longleftrightarrow> (\<forall>n. bit w n \<longrightarrow> bit ptn n)"
    using sub_ptn_bit [of w ptn] by (simp add: sub_ptn_def and.commute)
  ultimately show ?thesis by (simp add: eventflag_cond_def)
qed

lemma cond_mono: "eventflag_cond p w m \<Longrightarrow> sub_ptn p q \<Longrightarrow> eventflag_cond q w m"
  by (auto simp: cond_bit sub_ptn_bit split: if_splits)

lemma cond_0: "w \<noteq> 0 \<Longrightarrow> \<not> eventflag_cond 0 w m"
  by (auto simp: eventflag_cond_def)

lemma flg_serve_0: "\<forall>(t, wi)\<in>set ws. flg_waiptn wi \<noteq> 0 \<Longrightarrow> flg_serve 0 ws = ([], 0)"
  by (induction ws) (auto simp: cond_0)

lemma flg_serve_rest:
  "(t, wi) \<in> set ws \<Longrightarrow> distinct (map fst ws) \<Longrightarrow> t \<notin> tasks (fst (flg_serve ptn ws)) \<Longrightarrow>
   \<not> eventflag_cond (snd (flg_serve ptn ws)) (flg_waiptn wi) (flg_wfmode wi)"
proof (induction ptn ws rule: flg_serve.induct)
  case (2 ptn t' wi' ws)
  show ?case
  proof (cases "eventflag_cond ptn (flg_waiptn wi') (flg_wfmode wi')")
    case True
    then show ?thesis using 2(1) [OF True] 2(3-) by (auto split: prod.splits)
  next
    case False
    show ?thesis
    proof (cases "(t, wi) = (t', wi')")
      case True
      then show ?thesis using False cond_mono [OF _ flg_serve_sub [of ptn ws]] by auto
    next
      case other: False
      then show ?thesis using 2(2) [OF False] 2(3-) False by auto
    qed
  qed
qed simp

section \<open>The loop serves what the specification says\<close>

lemma upd_flg_sel [simp]:
  "tcbs (upd_flg i f s) = tcbs s" "ques (upd_flg i f s) = ques s" "kinv (upd_flg i f s) \<longleftrightarrow> kinv s"
  "flgcb (upd_flg i f s) j = (if j = i then f (flgcb s i) else flgcb s j)" "umem (upd_flg i f s) = umem s"
  "rdy (upd_flg i f s) = rdy s" "ctxtsk (upd_flg i f s) = ctxtsk s" "freeq (flgtab (upd_flg i f s)) = freeq (flgtab s)"
  "maxid (flgtab (upd_flg i f s)) = maxid (flgtab s)" "waiters (upd_flg i f s) = waiters s"
  by (simp_all add: upd_flg_def flgcb_def rdy_def waiters_def fun_eq_iff)

lemma upd_flg_upd [simp]: "upd_flg i f (upd_flg i g s) = upd_flg i (f \<circ> g) s"
  by (simp add: upd_flg_def)

text \<open>The outcome of serving the tasks of \<open>r\<close> and leaving the pattern \<open>p\<close>.\<close>

definition flg_outcome :: "nat \<Rightarrow> (nat \<times> UW \<times> UW) list \<Rightarrow> UW \<Rightarrow> kstate \<Rightarrow> kstate \<Rightarrow> bool" where
  "flg_outcome i r p s s' \<longleftrightarrow> kinv s' \<and> objs_same (s\<lparr>flgtab := flgtab s', umem := umem s'\<rparr>) s' \<and>
     flgtab s' = flgtab (upd_flg i (\<lambda>c. c\<lparr>flgptn := p\<rparr>) s) \<and> touches {QFlg i} s s' \<and>
     ques s' (QFlg i) = filter (\<lambda>x. x \<notin> tasks r) (ques s (QFlg i)) \<and>
     (\<forall>x. x \<notin> tasks r \<longrightarrow> tcbs s' x = tcbs s x) \<and> (\<forall>x\<in>tasks r. released E_OK (tcbs s x) (tcbs s' x)) \<and>
     umem s' = fold (\<lambda>(t, a, v) m. m(a := v)) r (umem s)"

lemma flg_outcome_Nil: "kinv s \<Longrightarrow> flg_outcome i [] (flgptn (flgcb s i)) s s"
  by (simp add: flg_outcome_def upd_flg_def objs_same_def flgcb_def)

text \<open>One task is served.\<close>

definition flg_grant :: "nat \<Rightarrow> nat \<Rightarrow> UW \<Rightarrow> kstate \<Rightarrow> kstate" where
  "flg_grant i t p s = upd_flg i (\<lambda>c. c\<lparr>flgptn := p\<rparr>) (wait_release_ok t
     (s\<lparr>umem := (umem s)(flg_p_flgptn (winfo (tcbs s t)) := flgptn (flgcb s i))\<rparr>))"

lemma flg_grant_outcome:
  assumes k: "kinv s" and t: "t \<in> set (ques s (QFlg i))"
  shows "flg_outcome i [(t, flg_p_flgptn (winfo (tcbs s t)), flgptn (flgcb s i))] p s (flg_grant i t p s)"
proof -
  define s0 where "s0 = s\<lparr>umem := (umem s)(flg_p_flgptn (winfo (tcbs s t)) := flgptn (flgcb s i))\<rparr>"
  define s1 where "s1 = wait_release_ok_ercd t E_OK s0"
  have k0: "kinv s0" and t0: "t \<in> set (ques s0 (QFlg i))" using k t by (simp_all add: s0_def)
  note r = wait_release_props [OF k0 _ t0, where e = E_OK, folded s1_def, simplified]
  have g: "flg_grant i t p s = upd_flg i (\<lambda>c. c\<lparr>flgptn := p\<rparr>) s1"
    by (simp add: flg_grant_def s1_def s0_def wait_release_ok_ercd_E_OK)
  have tt: "touches {QFlg i} s (flg_grant i t p s)"
  proof -
    have "touches {QFlg i} s s0" by (rule touches_same) (simp_all add: s0_def)
    also have "touches {QFlg i} s0 s1" unfolding s1_def by (rule touches_release(1) [OF k0 _ t0]) simp
    also have "touches {QFlg i} s1 (flg_grant i t p s)" unfolding g by (rule touches_same) simp_all
    finally show ?thesis .
  qed
  have d: "distinct (ques s0 (QFlg i))" using k0 by (rule kinv_dest)
  have fl: "flgtab s1 = flgtab s" "umem s1 = umem s0" and os: "objs_same s0 s1"
    using r(6) by (simp_all add: objs_same_def s0_def)
  have rest: "tcbs s0 = tcbs s" "ques s0 = ques s" by (simp_all add: s0_def)
  show ?thesis
    unfolding flg_outcome_def
    using tt r(1,2,4,5) d rest
    by (simp add: g fl distinct_remove1_filter)
      (use os in \<open>simp add: upd_flg_def fl objs_same_def s0_def\<close>)
qed

lemma flg_outcome_trans:
  assumes a: "flg_outcome i r p s s1" and b: "flg_outcome i r' p' s1 s2" and n: "tasks r \<inter> tasks r' = {}"
  shows "flg_outcome i (r @ r') p' s s2"
proof -
  have "touches {QFlg i} s s2" using a b touches_trans by (auto simp: flg_outcome_def)
  moreover have "released E_OK (tcbs s x) (tcbs s2 x)" if "x \<in> tasks (r @ r')" for x
  proof (cases "x \<in> tasks r")
    case True
    then have "x \<notin> tasks r'" using n by blast
    then have "tcbs s2 x = tcbs s1 x" using b by (simp add: flg_outcome_def)
    then show ?thesis using a True by (simp add: flg_outcome_def)
  next
    case False
    then have "tcbs s1 x = tcbs s x" "x \<in> tasks r'" using a that by (auto simp: flg_outcome_def)
    then show ?thesis using b by (metis flg_outcome_def)
  qed
  moreover have "ques s2 (QFlg i) = filter (\<lambda>x. x \<notin> tasks (r @ r')) (ques s (QFlg i))"
    using a b by (simp add: flg_outcome_def)
  moreover have "flgtab s2 = flgtab (upd_flg i (\<lambda>c. c\<lparr>flgptn := p'\<rparr>) s)"
    using a b by (simp add: flg_outcome_def upd_flg_def)
  ultimately show ?thesis using a b by (simp add: flg_outcome_def objs_same_def)
qed

lemma set_scan_grant:
  "set_scan i (t # ts) s =
    (let w = flg_waiptn (winfo (tcbs s t)); m = flg_wfmode (winfo (tcbs s t)); p = flgptn (flgcb s i)
     in if eventflag_cond p w m then
          if m AND TWF_BITCLR \<noteq> 0 \<and> p AND NOT w = 0 \<or> m AND TWF_CLR \<noteq> 0 then flg_grant i t 0 s
          else set_scan i ts (flg_grant i t (wai_clear w m p) s)
        else set_scan i ts s)"
proof -
  define s0 where "s0 = s\<lparr>umem := (umem s)(flg_p_flgptn (winfo (tcbs s t)) := flgptn (flgcb s i))\<rparr>"
  have f: "flgtab (wait_release_ok t s0) = flgtab s"
    by (simp add: wait_release_ok_def s0_def)
  have same: "upd_flg i (\<lambda>c. c) u = u" for u by (simp add: upd_flg_def)
  have "upd_flg i (\<lambda>c. c\<lparr>flgptn := flgptn (flgcb s i)\<rparr>) (wait_release_ok t s0) = wait_release_ok t s0"
    using f by (simp add: upd_flg_def flgcb_def)
  moreover have "upd_flg i (\<lambda>c. c\<lparr>flgptn := flgptn c AND NOT x\<rparr>) (wait_release_ok t s0) =
      upd_flg i (\<lambda>c. c\<lparr>flgptn := flgptn (flgcb s i) AND NOT x\<rparr>) (wait_release_ok t s0)" for x
    using f by (simp add: upd_flg_def flgcb_def)
  moreover have "flgptn (flgcb (wait_release_ok t s0) i) = flgptn (flgcb s i)"
    using f by (simp add: flgcb_def)
  ultimately show ?thesis
    by (simp add: Let_def s0_def [symmetric] flg_grant_def wai_clear_def comp_def)
qed

abbreviation conds :: "kstate \<Rightarrow> nat list \<Rightarrow> (nat \<times> WINFO) list" where
  "conds s ts \<equiv> map (\<lambda>t. (t, winfo (tcbs s t))) ts"

lemma tasks_conds [simp]: "tasks (conds s ts) = set ts"
  by (simp add: tasks_def image_image)

lemma flg_outcome_winfo: "flg_outcome i r p s s' \<Longrightarrow> winfo (tcbs s' x) = winfo (tcbs s x)"
  by (cases "x \<in> tasks r") (auto simp: flg_outcome_def released_def)

lemma set_scan_outcome:
  assumes "kinv s" and "set ts \<subseteq> set (ques s (QFlg i))" and "distinct ts"
    and "\<forall>t\<in>set ts. flg_waiptn (winfo (tcbs s t)) \<noteq> 0" and "flg_serve (flgptn (flgcb s i)) (conds s ts) = (r, p)"
  shows "flg_outcome i r p s (set_scan i ts s)"
  using assms
proof (induction ts arbitrary: s r)
  case Nil
  then show ?case using flg_outcome_Nil [of s i] by auto
next
  case (Cons t ts)
  let ?w = "flg_waiptn (winfo (tcbs s t))" and ?m = "flg_wfmode (winfo (tcbs s t))" and ?n = "flgptn (flgcb s i)"
  let ?g = "(t, flg_p_flgptn (winfo (tcbs s t)), ?n)"
  have t: "t \<in> set (ques s (QFlg i))" using Cons.prems(2) by simp
  show ?case
  proof (cases "eventflag_cond ?n ?w ?m")
    case False
    have "flg_outcome i r p s (set_scan i ts s)"
      by (rule Cons.IH) (use Cons.prems False in auto)
    with False show ?thesis by (simp add: set_scan_grant Let_def del: set_scan.simps(2))
  next
    case True
    define n' where "n' = wai_clear ?w ?m ?n"
    obtain r' where r': "flg_serve n' (conds s ts) = (r', p)" "r = ?g # r'"
      using Cons.prems(5) True by (auto simp: n'_def split: prod.splits)
    show ?thesis
    proof (cases "?m AND TWF_BITCLR \<noteq> 0 \<and> ?n AND NOT ?w = 0 \<or> ?m AND TWF_CLR \<noteq> 0")
      case stop: True
      then have "n' = 0" by (auto simp: n'_def wai_clear_def)
      moreover have "\<forall>(t, wi)\<in>set (conds s ts). flg_waiptn wi \<noteq> 0" using Cons.prems(4) by auto
      ultimately have "r' = []" "p = 0" using r'(1) flg_serve_0 by auto
      with stop True flg_grant_outcome [OF Cons.prems(1) t, of 0] r'(2) show ?thesis
        by (simp add: set_scan_grant Let_def del: set_scan.simps(2))
    next
      case go: False
      define s1 where "s1 = flg_grant i t n' s"
      note o = flg_grant_outcome [OF Cons.prems(1) t, of n', folded s1_def]
      have wi: "winfo (tcbs s1 x) = winfo (tcbs s x)" for x using flg_outcome_winfo [OF o] .
      have s1: "flgptn (flgcb s1 i) = n'" "conds s1 ts = conds s ts"
        using o wi by (auto simp: flg_outcome_def upd_flg_def flgcb_def)
      have sub: "set ts \<subseteq> set (ques s1 (QFlg i))" using o Cons.prems(2,3) by (auto simp: flg_outcome_def)
      have k1: "kinv s1" using o by (simp add: flg_outcome_def)
      have "flg_outcome i r' p s1 (set_scan i ts s1)"
        by (rule Cons.IH [OF k1 sub]) (use Cons.prems(3,4) wi r'(1) s1 in auto)
      moreover have "t \<notin> tasks r'" using flg_serve_tasks [of n' "conds s ts"] r'(1) Cons.prems(3) by auto
      ultimately have "flg_outcome i ([?g] @ r') p s (set_scan i ts s1)"
        by (intro flg_outcome_trans [OF o]) auto
      moreover have "set_scan i (t # ts) s = set_scan i ts s1"
        using True go by (auto simp: set_scan_grant Let_def s1_def n'_def simp del: set_scan.simps(2))
      ultimately show ?thesis using r'(2) by simp
    qed
  qed
qed

section \<open>The invariant of the event flags\<close>

definition flg_view :: "kstate \<Rightarrow> nat \<Rightarrow> FLGCB \<times> waiter list" where
  "flg_view s i = (flgcb s i, waiters s (QFlg i))"

definition flg_waiter :: "FLGCB \<Rightarrow> waiter \<Rightarrow> bool" where
  "flg_waiter c w \<longleftrightarrow> (case w of (t, wi, d, sp, p) \<Rightarrow>
     flg_waiptn wi \<noteq> 0 \<and> \<not> eventflag_cond (flgptn c) (flg_waiptn wi) (flg_wfmode wi) \<and> d = flgid c \<and>
     sp = (if flgatr c AND TA_TPRI \<noteq> 0 then Wspec_flg_tpri else Wspec_flg_tfifo))"

fun flg_wf :: "nat \<Rightarrow> FLGCB \<times> waiter list \<Rightarrow> bool" where
  "flg_wf i (c, ws) \<longleftrightarrow>
     (if flgid c = 0 then ws = []
      else INDEX_OBJ (flgid c) = i \<and> (flgatr c AND TA_WMUL = 0 \<longrightarrow> length ws \<le> 1) \<and>
        (flgatr c AND TA_TPRI \<noteq> 0 \<longrightarrow> sorted (map waiter_pri ws)) \<and> (\<forall>w\<in>set ws. flg_waiter c w))"

definition flg_agree :: "kstate \<Rightarrow> kstate \<Rightarrow> bool" where
  "flg_agree s s' \<longleftrightarrow> flgtab s' = flgtab s"

lemma set_free_flg_sel [simp]:
  "tcbs (set_free_flg f s) = tcbs s" "ques (set_free_flg f s) = ques s" "kinv (set_free_flg f s) \<longleftrightarrow> kinv s"
  "flgcb (set_free_flg f s) = flgcb s" "freeq (flgtab (set_free_flg f s)) = f"
  "maxid (flgtab (set_free_flg f s)) = maxid (flgtab s)" "waiters (set_free_flg f s) = waiters s"
  by (simp_all add: set_free_flg_def flgcb_def waiters_def fun_eq_iff)

interpretation flg_tab: obj_table flg_ops flg_view "\<lambda>v. flgid (fst v)" flg_wf flg_agree "\<lambda>i. {QFlg i}"
proof unfold_locales
  show "flg_agree s s' \<Longrightarrow> touches Q s s' \<Longrightarrow> {QFlg i} \<inter> Q = {} \<Longrightarrow> flg_view s' i = flg_view s i" for s s' Q i
    by (simp add: flg_agree_def flg_view_def flgcb_def touchesD)
qed (auto simp: flg_agree_def objs_same_def flg_ops_def flg_view_def waiters_def flg_waiter_def)

abbreviation flgs_ok :: "kstate \<Rightarrow> bool" where
  "flgs_ok \<equiv> flg_tab.table_ok"

lemma flg_ops_sel [simp]:
  "oo_max flg_ops s = maxid (flgtab s)" "oo_free flg_ops s = freeq (flgtab s)" "oo_type flg_ops = OT_FLG"
  "oo_set_id flg_ops i x = upd_flg i (\<lambda>c. c\<lparr>flgid := x\<rparr>)" "oo_set_free flg_ops = set_free_flg"
  by (simp_all add: flg_ops_def)

lemma flg_index: "guards (CHECK_FLGID s fid # gs) = None \<Longrightarrow> INDEX_OBJ fid < maxid (flgtab s)"
  by (auto simp: guards_None CHECK_FLGID_def intro: CHECK_OBJID_index)

lemma flgs_okD: "flgs_ok s \<Longrightarrow> i < maxid (flgtab s) \<Longrightarrow> flg_wf i (flgcb s i, waiters s (QFlg i))"
  using flg_tab.table_okD [of s i] by (simp add: flg_view_def)

lemma flgs_ok_step:
  assumes "flgs_ok s" "maxid (flgtab s') = maxid (flgtab s)" "freeq (flgtab s') = freeq (flgtab s)"
    "\<And>j. j \<noteq> i \<Longrightarrow> flgcb s' j = flgcb s j" "touches {QFlg i} s s'" "flgid (flgcb s i) \<noteq> 0"
    "flg_wf i (flgcb s' i, waiters s' (QFlg i))"
  shows "flgs_ok s'"
  by (rule flg_tab.table_ok_step [OF assms(1), where i = i])
    (use assms touchesD [OF assms(5)] in \<open>simp_all add: flg_view_def\<close>)

text \<open>A smaller pattern leaves everybody waiting.\<close>

lemma flg_waiter_mono: "flg_waiter c w \<Longrightarrow> sub_ptn p (flgptn c) \<Longrightarrow> flg_waiter (c\<lparr>flgptn := p\<rparr>) w"
  using cond_mono by (auto simp: flg_waiter_def)

lemma flg_wf_mono: "flg_wf i (c, ws) \<Longrightarrow> sub_ptn p (flgptn c) \<Longrightarrow> flg_wf i (c\<lparr>flgptn := p\<rparr>, ws)"
  using flg_waiter_mono by (auto simp: flg_wf.simps split: if_splits)

section \<open>Every call keeps the invariant\<close>

lemma tk_cre_flg_inv:
  assumes "kinv s" and "flgs_ok s" and "tk_cre_flg prid pk s = Some (e, s')"
  shows "kinv s' \<and> flgs_ok s'"
proof (rule flg_tab.obj_cre_ok [OF assms(3)[unfolded tk_cre_flg_def] assms(1,2)])
  fix i oid u
  assume u: "kinv u" "flg_wf i (flg_view u i)" "flgid (fst (flg_view u i)) = 0" "INDEX_OBJ oid = i" "oid \<noteq> 0"
  have q: "ques u (QFlg i) = []" "waiters u (QFlg i) = []" using u(2,3) by (simp_all add: flg_view_def)
  have s: "set_que (QFlg i) [] u = u" by (rule set_que_same [OF q(1)])
  show "flg_tab.step_on i u (upd_flg i (\<lambda>c. c\<lparr>flgid := oid, flg_exinf := cflg_exinf pk, flgatr := cflg_flgatr pk,
      flgptn := cflg_iflgptn pk\<rparr>) (set_que (QFlg i) [] u))"
    unfolding s using u(1,4,5) q by (simp add: flg_tab.step_on_def flg_view_def waiters_def)
qed

lemma tk_del_flg_inv:
  assumes "kinv s" and "flgs_ok s" and "tk_del_flg prid fid s = Some (e, s')"
  shows "kinv s' \<and> flgs_ok s'"
  by (rule flg_tab.obj_del_ok [OF assms(3)[unfolded tk_del_flg_def] assms(1,2)])
    (use flg_index in \<open>auto simp: flg_view_def\<close>)

text \<open>Serving the queue restores the invariant after the pattern was changed at will.\<close>

lemma flg_outcome_wf:
  assumes k: "kinv s" and o: "flg_outcome i r p s s'" and w: "flg_wf i (old, waiters s (QFlg i))"
    and old: "flgcb s i = old\<lparr>flgptn := q\<rparr>" and r: "flg_serve q (conds s (ques s (QFlg i))) = (r, p)" and live: "flgid old \<noteq> 0"
  shows "flg_wf i (flgcb s' i, waiters s' (QFlg i))"
proof -
  have d: "distinct (ques s (QFlg i))" using k by (rule kinv_dest)
  have v: "wview (tcbs s' x) = wview (tcbs s x)" for x
    using o released_wview by (cases "x \<in> tasks r") (auto simp: flg_outcome_def)
  have ws: "waiters s' (QFlg i) = filter (\<lambda>w. fst w \<notin> tasks r) (waiters s (QFlg i))"
    using o by (simp add: flg_outcome_def waiters_def v filter_map comp_def)
  have c: "flgcb s' i = old\<lparr>flgptn := p\<rparr>"
    using o old by (simp add: flg_outcome_def flgcb_def upd_flg_def)
  have len: "flgatr old AND TA_WMUL = 0 \<longrightarrow> length (waiters s' (QFlg i)) \<le> 1"
  proof
    assume "flgatr old AND TA_WMUL = 0"
    then have "length (waiters s (QFlg i)) \<le> 1" using w live by simp
    moreover have "length (waiters s' (QFlg i)) \<le> length (waiters s (QFlg i))" unfolding ws by (rule length_filter_le)
    ultimately show "length (waiters s' (QFlg i)) \<le> 1" by simp
  qed
  have "flg_waiter (old\<lparr>flgptn := p\<rparr>) x" if "x \<in> set (waiters s' (QFlg i))" for x
  proof -
    obtain t wi d' sp pr where x: "x = (t, wi, d', sp, pr)" by (cases x)
    have mem: "x \<in> set (waiters s (QFlg i))" "t \<notin> tasks r" using that x ws by auto
    then have "(t, wi) \<in> set (conds s (ques s (QFlg i)))" by (auto simp: waiters_def x wview_def)
    moreover have "distinct (map fst (conds s (ques s (QFlg i))))" using d by (simp add: comp_def)
    ultimately have "\<not> eventflag_cond p (flg_waiptn wi) (flg_wfmode wi)"
      using flg_serve_rest [of t wi "conds s (ques s (QFlg i))" q] mem(2) r by simp
    moreover have "flg_waiter old x" using w live mem(1) by simp
    ultimately show ?thesis by (simp add: flg_waiter_def x)
  qed
  then show ?thesis
    using w live len sorted_map_filter [of waiter_pri "waiters s (QFlg i)" "\<lambda>w. fst w \<notin> tasks r"] by (simp add: c ws)
qed

lemma flg_waiters_nonzero:
  assumes "flg_wf i (c, waiters s (QFlg i))" and "flgid c \<noteq> 0" and "t \<in> set (ques s (QFlg i))"
  shows "flg_waiptn (winfo (tcbs s t)) \<noteq> 0"
  using assms by (auto simp: waiters_def flg_waiter_def wview_def)

text \<open>Setting the pattern \<open>q\<close> and serving the queue, which is the heart of \<open>tk_set_flg\<close>.\<close>

lemma set_flg_ok:
  assumes k: "kinv s" and ok: "flgs_ok s" and i: "i < maxid (flgtab s)" and live: "flgid (flgcb s i) \<noteq> 0"
    and r: "flg_serve (flgptn (flgcb s i) OR setptn) (conds s (ques s (QFlg i))) = (r, p)"
  defines "s1 \<equiv> upd_flg i (\<lambda>c. c\<lparr>flgptn := flgptn c OR setptn\<rparr>) s"
  shows "flg_outcome i r p s (set_scan i (ques s1 (QFlg i)) s1)" and "flgs_ok (set_scan i (ques s1 (QFlg i)) s1)"
proof -
  let ?s = "set_scan i (ques s1 (QFlg i)) s1"
  note w = flgs_okD [OF ok i]
  have k1: "kinv s1" using k by (simp add: s1_def)
  have o: "flg_outcome i r p s1 ?s"
    by (rule set_scan_outcome [OF k1])
      (use r kinv_dest(5) [OF k] flg_waiters_nonzero [OF w live] in \<open>simp_all add: s1_def\<close>)
  have t1: "touches {QFlg i} s s1" by (rule touches_same) (simp_all add: s1_def)
  show "flg_outcome i r p s ?s"
    using o touches_trans [OF t1] by (simp add: flg_outcome_def s1_def) (simp add: upd_flg_def objs_same_def)
  then have t: "touches {QFlg i} s ?s" and f: "flgtab ?s = flgtab (upd_flg i (\<lambda>c. c\<lparr>flgptn := p\<rparr>) s)"
    by (simp_all add: flg_outcome_def)
  have "flg_wf i (flgcb ?s i, waiters ?s (QFlg i))"
    by (rule flg_outcome_wf [OF k1 o, where old = "flgcb s i" and q = "flgptn (flgcb s i) OR setptn"])
      (use w r live in \<open>simp_all add: s1_def\<close>)
  then show "flgs_ok ?s"
    by (rule flgs_ok_step [OF ok _ _ _ t live, rotated -1]) (use f in \<open>simp_all add: flgcb_def upd_flg_def\<close>)
qed

lemma tk_set_flg_inv:
  assumes k: "kinv s" and ok: "flgs_ok s" and r: "tk_set_flg prid fid setptn s = Some (e, s')"
  shows "kinv s' \<and> flgs_ok s'"
proof (rule flg_tab.obj_call_ok [OF r [unfolded tk_set_flg_def] k ok])
  fix i
  assume i: "i = INDEX_OBJ fid" "guards [CHECK_FLGID s fid] = None" "flgid (fst (flg_view s i)) \<noteq> 0"
    and b: "(let s = upd_flg i (\<lambda>c. c\<lparr>flgptn := flgptn c OR setptn\<rparr>) s in end_critical E_OK (set_scan i (ques s (QFlg i)) s)) = Some (e, s')"
  have ix: "i < maxid (flgtab s)" using flg_index [OF i(2)] i(1) by simp
  obtain r p where rp: "flg_serve (flgptn (flgcb s i) OR setptn) (conds s (ques s (QFlg i))) = (r, p)" by fastforce
  have live: "flgid (flgcb s i) \<noteq> 0" using i(3) by (simp add: flg_view_def)
  note o = set_flg_ok [OF k ok ix live rp]
  have "kinv s' \<and> flgs_ok s'"
    by (rule flg_tab.table_ok_end [OF b [unfolded Let_def]]) (use o in \<open>simp_all add: flg_outcome_def\<close>)
  then show "kinv s' \<and> flgs_ok s'" .
qed

lemma flg_mono_step:
  assumes ok: "flgs_ok s" and i: "i < maxid (flgtab s)" "flgid (flgcb s i) \<noteq> 0" and p: "sub_ptn (f (flgptn (flgcb s i))) (flgptn (flgcb s i))"
  shows "flgs_ok (upd_flg i (\<lambda>c. c\<lparr>flgptn := f (flgptn c)\<rparr>) s)"
  by (rule flgs_ok_step [OF ok _ _ _ touches_same i(2)])
    (use flg_wf_mono [OF flgs_okD [OF ok i(1)] p] in \<open>simp_all del: flg_wf.simps\<close>)

lemma tk_clr_flg_inv:
  assumes k: "kinv s" and ok: "flgs_ok s" and r: "tk_clr_flg prid fid clrptn s = Some (e, s')"
  shows "kinv s' \<and> flgs_ok s'"
proof (rule flg_tab.obj_call_ok [OF r [unfolded tk_clr_flg_def] k ok])
  fix i
  assume i: "i = INDEX_OBJ fid" "guards [CHECK_FLGID s fid] = None" "flgid (fst (flg_view s i)) \<noteq> 0"
    and b: "Some (E_OK, upd_flg i (\<lambda>c. c\<lparr>flgptn := flgptn c AND clrptn\<rparr>) s) = Some (e, s')"
  have ix: "i < maxid (flgtab s)" using flg_index [OF i(2)] i(1) by simp
  have "flgs_ok (upd_flg i (\<lambda>c. c\<lparr>flgptn := flgptn c AND clrptn\<rparr>) s)"
    by (rule flg_mono_step [OF ok ix]) (use i(3) in \<open>simp_all add: flg_view_def\<close>)
  with b k show "kinv s' \<and> flgs_ok s'" by auto
qed

lemma flg_wf_join:
  assumes w: "flg_wf i (c, ws)" "flgid c \<noteq> 0" and x: "flg_waiter c x" and m: "flgatr c AND TA_WMUL = 0 \<Longrightarrow> ws = []"
  shows "flg_wf i (c, join_queue (flgatr c) x ws)"
proof -
  have "sorted (map waiter_pri (join_queue (flgatr c) x ws))" if "flgatr c AND TA_TPRI \<noteq> 0"
    by (rule sorted_join [OF that]) (use w that in simp)
  moreover have "length (join_queue (flgatr c) x ws) \<le> 1" if "flgatr c AND TA_WMUL = 0"
    using m [OF that] by (simp add: length_join)
  moreover have "\<forall>y\<in>set (join_queue (flgatr c) x ws). flg_waiter c y" using w x by (simp add: set_join)
  ultimately show ?thesis using w by simp
qed

lemma tk_wai_flg_inv:
  assumes k: "kinv s" and ok: "flgs_ok s" and c: "ctx_ready prid s"
    and r: "tk_wai_flg prid fid waiptn wfmode p_flgptn tmout s = Some (e, s')"
  shows "kinv s' \<and> flgs_ok s'"
proof (rule flg_tab.obj_call_ok [OF r [unfolded tk_wai_flg_def] k ok])
  fix i
  let ?gs = "[CHECK_PAR (waiptn \<noteq> 0), CHECK_PAR (wfmode AND NOT (TWF_ORW OR TWF_CLR OR TWF_BITCLR) = 0), CHECK_TMOUT tmout, CHECK_DISPATCH prid s]"
  let ?sp = "if flgatr (flgcb s i) AND TA_TPRI \<noteq> 0 then Wspec_flg_tpri else Wspec_flg_tfifo"
  assume i: "i = INDEX_OBJ fid" "guards (CHECK_FLGID s fid # ?gs) = None" "flgid (fst (flg_view s i)) \<noteq> 0"
    and b: "(if flgatr (flgcb s i) AND TA_WMUL = 0 \<and> ques s (QFlg i) \<noteq> [] then end_critical E_OBJ s
             else do {
               t \<leftarrow> ctxtsk s prid;
               if is_diswai (flg_gcb s i) (tcbs s t) TTW_FLG then end_critical E_DISWAI s
               else if eventflag_cond (flgptn (flgcb s i)) waiptn wfmode then
                 (let s = s\<lparr>umem := (umem s)(p_flgptn := flgptn (flgcb s i))\<rparr>
                  in end_critical E_OK (upd_flg i (\<lambda>c. c\<lparr>flgptn := wai_clear waiptn wfmode (flgptn c)\<rparr>) s))
               else wait_on prid (flg_gcb s i) ?sp (Winfo_flg waiptn wfmode p_flgptn) tmout s
             }) = Some (e, s')"
  have ix: "i < maxid (flgtab s)" using flg_index [OF i(2)] i(1) by simp
  have live: "flgid (flgcb s i) \<noteq> 0" using i(3) by (simp add: flg_view_def)
  have nz: "waiptn \<noteq> 0" using i(2) by (simp add: guards_None CHECK_PAR_def)
  note w = flgs_okD [OF ok ix]
  note fin = flg_tab.table_ok_end [OF _ k ok]
  show "kinv s' \<and> flgs_ok s'"
  proof (cases "flgatr (flgcb s i) AND TA_WMUL = 0 \<and> ques s (QFlg i) \<noteq> []")
    case True
    with b fin show ?thesis by simp
  next
    case False
    then obtain t where t: "ctxtsk s prid = Some t" using b by (auto split: Option.bind_splits)
    have tr: "t \<in> set (rdy s)" using c t by (simp add: ctx_ready_def)
    consider (dis) "is_diswai (flg_gcb s i) (tcbs s t) TTW_FLG"
      | (sat) "\<not> is_diswai (flg_gcb s i) (tcbs s t) TTW_FLG" "eventflag_cond (flgptn (flgcb s i)) waiptn wfmode"
      | (wait) "\<not> is_diswai (flg_gcb s i) (tcbs s t) TTW_FLG" "\<not> eventflag_cond (flgptn (flgcb s i)) waiptn wfmode" by blast
    then show ?thesis
    proof cases
      case dis
      with b False t fin show ?thesis by simp
    next
      case sat
      define s1 where "s1 = s\<lparr>umem := (umem s)(p_flgptn := flgptn (flgcb s i))\<rparr>"
      have s1: "kinv s1" "flgtab s1 = flgtab s" "flgcb s1 = flgcb s" "touches {} s s1"
        using k by (simp_all add: s1_def flgcb_def fun_eq_iff touches_same)
      have ok1: "flgs_ok s1" using flg_tab.table_ok_elsewhere [OF _ s1(4)] ok s1(2) by (simp add: flg_agree_def)
      have ok2: "flgs_ok (upd_flg i (\<lambda>c. c\<lparr>flgptn := wai_clear waiptn wfmode (flgptn c)\<rparr>) s1)"
        by (rule flg_mono_step [OF ok1, where f = "wai_clear waiptn wfmode"]) (use ix live s1(2,3) wai_clear_sub in simp_all)
      have e2: "end_critical E_OK (upd_flg i (\<lambda>c. c\<lparr>flgptn := wai_clear waiptn wfmode (flgptn c)\<rparr>) s1) = Some (e, s')"
        using b False t sat by (simp add: s1_def Let_def)
      show ?thesis by (rule flg_tab.table_ok_end [OF e2 _ ok2]) (simp add: s1(1))
    next
      case wait
      then have wo: "wait_on prid (flg_gcb s i) ?sp (Winfo_flg waiptn wfmode p_flgptn) tmout s = Some (e, s')"
        using b False t by simp
      show ?thesis
      proof (rule flg_tab.wait_on_table_ok [OF k ok t tr _ wo i(3)])
        let ?w = "(t, Winfo_flg waiptn wfmode p_flgptn, objid (flg_gcb s i), ?sp, pri s t)"
        fix u
        assume o: "objs_same s u" and "waiters u (wait_queue (flg_gcb s i)) =
            join_queue (objatr (flg_gcb s i)) ?w (waiters s (wait_queue (flg_gcb s i)))"
        then have ws: "waiters u (QFlg i) = join_queue (flgatr (flgcb s i)) ?w (waiters s (QFlg i))" by (simp add: flg_gcb_def)
        have fc: "flgcb u = flgcb s" using o by (simp add: objs_same_def flgcb_def fun_eq_iff)
        have x: "flg_waiter (flgcb s i) ?w" using nz wait(2) by (simp add: flg_waiter_def flg_gcb_def)
        have "flg_wf i (flgcb s i, join_queue (flgatr (flgcb s i)) ?w (waiters s (QFlg i)))"
          by (rule flg_wf_join [OF w live x]) (use False in simp)
        then show "flg_wf i (flg_view u i)" unfolding flg_view_def ws fc .
      qed (simp_all add: flg_gcb_def)
    qed
  qed
qed

text \<open>
  The priority of a task in the queue changed from \<open>s0\<close> to \<open>s\<close>: the hook, which a \<open>TA_TPRI\<close> flag
  has, puts the task into its place.
\<close>

text \<open>The hook of a \<open>TA_TPRI\<close> flag, called when the priority of a waiting task has changed from \<open>s0\<close> to \<open>s\<close>.\<close>

lemma flg_chg_pri_ok:
  assumes k: "kinv s0" and ok: "flgs_ok s0" and i: "i < maxid (flgtab s0)" and t: "t \<in> set (ques s0 (QFlg i))" and p: "p < NUM_PRI"
    and a: "flgatr (flgcb s0 i) AND TA_TPRI \<noteq> 0"
  defines "s \<equiv> upd_tcb t (\<lambda>c. c\<lparr>priority := p\<rparr>) s0"
  shows "kinv (flg_chg_pri t old s)" and "flgs_ok (flg_chg_pri t old s)"
proof -
  note w = flgs_okD [OF ok i]
  have live: "flgid (flgcb s0 i) \<noteq> 0" using w t by auto
  have fs: "flgcb s = flgcb s0" "flgtab s = flgtab s0" "ques s = ques s0" by (simp_all add: s_def flgcb_def fun_eq_iff)
  have wt: "flg_waiter (flgcb s0 i) (t, wview (tcbs s0 t))" using w live t by (auto simp: waiters_def)
  have ix: "INDEX_OBJ (wid (tcbs s t)) = i"
    using wt w live by (simp add: flg_waiter_def wview_def s_def)
  have g: "flg_gcb s i = flg_gcb s0 i" by (simp add: flg_gcb_def fs)
  have "kinv (flg_chg_pri t old s) \<and> flgs_ok (flg_chg_pri t old s)"
    unfolding flg_chg_pri_def ix g unfolding s_def
  proof (rule flg_tab.chg_pri_table_ok [OF k ok, where i = i and atr = "flgatr (flgcb s0 i)"])
    fix u
    let ?w = "(t, wview ((tcbs s0 t)\<lparr>priority := p\<rparr>))" and ?ws = "filter (\<lambda>w. fst w \<noteq> t) (waiters s0 (QFlg i))"
    assume o: "objs_same s0 u" and u: "waiters u (wait_queue (flg_gcb s0 i)) =
        join_queue (flgatr (flgcb s0 i)) ?w (filter (\<lambda>w. fst w \<noteq> t) (waiters s0 (wait_queue (flg_gcb s0 i))))"
    have fu: "flg_view u i = (flgcb s0 i, join_queue (flgatr (flgcb s0 i)) ?w ?ws)"
      using u o by (simp add: flg_view_def flg_gcb_def flgcb_def objs_same_def)
    have wf: "flg_wf i (flgcb s0 i, ?ws)"
      using w live sorted_map_filter [of waiter_pri "waiters s0 (QFlg i)" "\<lambda>w. fst w \<noteq> t"]
        length_filter_le [of "\<lambda>w. fst w \<noteq> t" "waiters s0 (QFlg i)"] by (auto simp del: length_filter_le)
    have wx: "flg_waiter (flgcb s0 i) ?w" using wt by (simp add: flg_waiter_def wview_def)
    show "flg_wf i (flg_view u i)"
      unfolding fu
    proof (rule flg_wf_join [OF wf live wx])
      assume "flgatr (flgcb s0 i) AND TA_WMUL = 0"
      then have "length (waiters s0 (QFlg i)) \<le> 1" using w live by simp
      moreover have "(t, wview (tcbs s0 t)) \<in> set (waiters s0 (QFlg i))" using t by (simp add: waiters_def)
      ultimately have "waiters s0 (QFlg i) = [(t, wview (tcbs s0 t))]" by (cases "waiters s0 (QFlg i)") auto
      then show "?ws = []" by simp
    qed
  qed (use t p a live in \<open>simp_all add: flg_gcb_def flg_view_def\<close>)
  then show "kinv (flg_chg_pri t old s)" "flgs_ok (flg_chg_pri t old s)" by simp_all
qed

end
