(* ===== verification/Mailbox.thy ===== *)
theory Mailbox
  imports Object_Base
begin

text \<open>
  Mailboxes, \<^verbatim>\<open>mailbox.c\<close>. Messages are linked through their headers, starting in the control
  block and ending with \<open>NULL\<close>; with \<open>TA_MPRI\<close> in the order of their priorities, else in the order
  of sending, \<open>mq_tail\<close> being the last one. The insertion loop is a partial function: the list is in
  the memory of the application and nothing but its discipline keeps it free of cycles.

  \<open>mq s i\<close> is the abstract value of mailbox \<open>i\<close>: the messages with their priorities. Sending inserts
  into it and receiving takes its head. The invariant says that the list is well linked, in order,
  and that no task waits for a message that is there; no message is in two mailboxes.
\<close>

section \<open>Control blocks\<close>

definition TA_MPRI :: ATR where "TA_MPRI = 0x00000002"

definition mbxcb :: "kstate \<Rightarrow> nat \<Rightarrow> MBXCB" where
  "mbxcb s i = cbs (mbxtab s) i"

definition upd_mbx :: "nat \<Rightarrow> (MBXCB \<Rightarrow> MBXCB) \<Rightarrow> kstate \<Rightarrow> kstate" where
  "upd_mbx i f s = s\<lparr>mbxtab := (mbxtab s)\<lparr>cbs := (cbs (mbxtab s))(i := f (cbs (mbxtab s) i))\<rparr>\<rparr>"

definition set_free_mbx :: "nat list \<Rightarrow> kstate \<Rightarrow> kstate" where
  "set_free_mbx q s = s\<lparr>mbxtab := (mbxtab s)\<lparr>freeq := q\<rparr>\<rparr>"

definition mbx_gcb :: "kstate \<Rightarrow> nat \<Rightarrow> GCB" where
  "mbx_gcb s i = \<lparr>wait_queue = QMbx i, objid = mbxid (mbxcb s i), objatr = mbxatr (mbxcb s i)\<rparr>"

definition mbx_ops :: objops where
  "mbx_ops = \<lparr>oo_type = OT_MBX, oo_dispatch = False, oo_max = \<lambda>s. maxid (mbxtab s), oo_id = \<lambda>s i. mbxid (mbxcb s i),
     oo_atr = \<lambda>s i. mbxatr (mbxcb s i), oo_name = \<lambda>s i. mbx_oname (mbxcb s i),
     oo_set_name = \<lambda>i nm. upd_mbx i (\<lambda>c. c\<lparr>mbx_oname := nm\<rparr>), oo_free = \<lambda>s. freeq (mbxtab s),
     oo_set_free = set_free_mbx, oo_set_id = \<lambda>i x. upd_mbx i (\<lambda>c. c\<lparr>mbxid := x\<rparr>)\<rparr>"

text \<open>\<open>nextmsg(prev)\<close>; the head in the control block of mailbox \<open>i\<close> counts as a message header, \<open>None\<close>.\<close>

definition nextmsg_get :: "nat \<Rightarrow> UW option \<Rightarrow> kstate \<Rightarrow> UW option" where
  "nextmsg_get i prev s = (case prev of None \<Rightarrow> mq_head (mbxcb s i) | Some p \<Rightarrow> nextmsg (msgs s p))"

definition nextmsg_set :: "nat \<Rightarrow> UW option \<Rightarrow> UW option \<Rightarrow> kstate \<Rightarrow> kstate" where
  "nextmsg_set i prev v s =
    (case prev of
       None \<Rightarrow> upd_mbx i (\<lambda>c. c\<lparr>mq_head := v\<rparr>) s
     | Some p \<Rightarrow> s\<lparr>msgs := (msgs s)(p := (msgs s p)\<lparr>nextmsg := v\<rparr>)\<rparr>)"

section \<open>Operations\<close>

definition mailbox_initialize :: "int option \<Rightarrow> bool \<Rightarrow> kstate \<Rightarrow> ER \<times> kstate" where
  "mailbox_initialize max_mbxid mem s =
    (case max_mbxid of
       None \<Rightarrow> (E_SYS, s)
     | Some m \<Rightarrow>
         let s = s\<lparr>mbxtab := (mbxtab s)\<lparr>maxid := nat m\<rparr>\<rparr> in
         if m < 1 then (E_SYS, s)
         else if \<not> mem then (E_NOMEM, s)
         else (E_OK, s\<lparr>mbxtab := (mbxtab s)\<lparr>cbs := (\<lambda>i. if i < nat m then (cbs (mbxtab s) i)\<lparr>mbxid := 0\<rparr> else cbs (mbxtab s) i),
                 freeq := [0..<nat m]\<rparr>\<rparr>))"

text \<open>The loop of \<open>queue_insert_mpri\<close>: the header behind which message \<open>m\<close> goes.\<close>

partial_function (option) mpri_scan :: "nat \<Rightarrow> UW \<Rightarrow> kstate \<Rightarrow> UW option \<Rightarrow> UW option option" where
  "mpri_scan i m s prev =
    (case nextmsg_get i prev s of
       None \<Rightarrow> Some prev
     | Some x \<Rightarrow> if msgpri (msgs s x) > msgpri (msgs s m) then Some prev else mpri_scan i m s (Some x))"

definition queue_insert_mpri :: "UW \<Rightarrow> nat \<Rightarrow> kstate \<Rightarrow> kstate option" where
  "queue_insert_mpri m i s = do {
     prev \<leftarrow> mpri_scan i m s None;
     let s = nextmsg_set i (Some m) (nextmsg_get i prev s) s;
     Some (nextmsg_set i prev (Some m) s)
   }"

definition mbx_chg_pri :: "nat \<Rightarrow> int \<Rightarrow> kstate \<Rightarrow> kstate" where
  "mbx_chg_pri t oldpri s = gcb_change_priority (mbx_gcb s (INDEX_OBJ (wid (tcbs s t)))) t s"

record T_CMBX =
  cmbx_exinf :: UW
  cmbx_mbxatr :: ATR
  cmbx_domid :: ID
  cmbx_oname :: "UB list"

definition VALID_MBXATR :: ATR where
  "VALID_MBXATR = TA_MPRI OR TA_TPRI OR TA_NODISWAI OR TA_DOMID OR TA_ONAME OR TA_PRIVATE OR TA_PROTECTED OR TA_PUBLIC"

definition tk_cre_mbx :: "nat \<Rightarrow> T_CMBX \<Rightarrow> kstate \<Rightarrow> (ER \<times> kstate) option" where
  "tk_cre_mbx prid pk =
    obj_cre [CHECK_RSATR (cmbx_mbxatr pk) VALID_MBXATR] prid mbx_ops (cmbx_mbxatr pk) (cmbx_domid pk) (cmbx_oname pk)
      (\<lambda>i oid s. upd_mbx i (\<lambda>c. c\<lparr>mbxid := oid, mbx_exinf := cmbx_exinf pk, mbxatr := cmbx_mbxatr pk, mq_head := None\<rparr>)
         (set_que (QMbx i) [] s))"

definition tk_del_mbx :: "nat \<Rightarrow> ID \<Rightarrow> kstate \<Rightarrow> (ER \<times> kstate) option" where
  "tk_del_mbx prid mid s =
    obj_call True [CHECK_MBXID s mid] prid mbx_ops mid
      (\<lambda>i s. do { s \<leftarrow> wait_delete (QMbx i) s; end_critical E_OK (obj_unlink mbx_ops mid i s) }) s"

text \<open>A message is linked into the queue: the last branch of \<open>_tk_snd_mbx\<close>.\<close>

definition connect_msg :: "UW \<Rightarrow> nat \<Rightarrow> kstate \<Rightarrow> kstate option" where
  "connect_msg m i s =
    (if mbxatr (mbxcb s i) AND TA_MPRI \<noteq> 0 then queue_insert_mpri m i s
     else do {
       let s = nextmsg_set i (Some m) None s;
       s \<leftarrow> (if mq_head (mbxcb s i) = None then Some (upd_mbx i (\<lambda>c. c\<lparr>mq_head := Some m\<rparr>) s)
             else do { tl \<leftarrow> mq_tail (mbxcb s i); Some (nextmsg_set i (Some tl) (Some m) s) });
       Some (upd_mbx i (\<lambda>c. c\<lparr>mq_tail := Some m\<rparr>) s)
     })"

definition tk_snd_mbx :: "nat \<Rightarrow> ID \<Rightarrow> UW \<Rightarrow> kstate \<Rightarrow> (ER \<times> kstate) option" where
  "tk_snd_mbx prid mid m s =
    obj_call True [CHECK_MBXID s mid] prid mbx_ops mid
      (\<lambda>i s. if mbxatr (mbxcb s i) AND TA_MPRI \<noteq> 0 \<and> msgpri (msgs s m) \<le> 0 then end_critical E_PAR s
             else (case ques s (QMbx i) of
                 t # _ \<Rightarrow> end_critical E_OK (wait_release_ok t (s\<lparr>umem := (umem s)(mbx_ppk_msg (winfo (tcbs s t)) := m)\<rparr>))
               | [] \<Rightarrow> do { s \<leftarrow> connect_msg m i s; end_critical E_OK s })) s"

definition tk_rcv_mbx :: "nat \<Rightarrow> ID \<Rightarrow> UW \<Rightarrow> TMO \<Rightarrow> kstate \<Rightarrow> (ER \<times> kstate) option" where
  "tk_rcv_mbx prid mid ppk_msg tmout s =
    obj_call True [CHECK_MBXID s mid, CHECK_TMOUT tmout, CHECK_DISPATCH prid s] prid mbx_ops mid
      (\<lambda>i s. do {
         t \<leftarrow> ctxtsk s prid;
         if is_diswai (mbx_gcb s i) (tcbs s t) TTW_MBX then end_critical E_DISWAI s
         else (case mq_head (mbxcb s i) of
             Some m \<Rightarrow>
               (let s = s\<lparr>umem := (umem s)(ppk_msg := m)\<rparr>
                in end_critical E_OK (upd_mbx i (\<lambda>c. c\<lparr>mq_head := nextmsg (msgs s m)\<rparr>) s))
           | None \<Rightarrow> wait_on prid (mbx_gcb s i) (if mbxatr (mbxcb s i) AND TA_TPRI \<noteq> 0 then Wspec_mbx_tpri else Wspec_mbx_tfifo)
                 (Winfo_mbx ppk_msg) tmout s)
       }) s"

record T_RMBX =
  rmbx_exinf :: UW
  rmbx_wtsk :: ID
  rmbx_pk_msg :: "UW option"

definition mbx_ref :: "kstate \<Rightarrow> nat \<Rightarrow> T_RMBX" where
  "mbx_ref s i = \<lparr>rmbx_exinf = mbx_exinf (mbxcb s i), rmbx_wtsk = wait_tskid (QMbx i) s, rmbx_pk_msg = mq_head (mbxcb s i)\<rparr>"

definition tk_ref_mbx :: "nat \<Rightarrow> ID \<Rightarrow> kstate \<Rightarrow> (ER \<times> T_RMBX option) option" where
  "tk_ref_mbx prid mid s = obj_ref [CHECK_MBXID s mid] prid mbx_ops mid (mbx_ref s) s"

definition tk_fnd_mbx :: "nat \<Rightarrow> ID \<Rightarrow> UB list \<Rightarrow> kstate \<Rightarrow> (ER \<times> kstate) option" where
  "tk_fnd_mbx prid = obj_fnd prid mbx_ops"

definition tk_dmi_mbx :: "nat \<Rightarrow> ID \<Rightarrow> kstate \<Rightarrow> ((ER \<times> T_DMI option) \<times> kstate) option" where
  "tk_dmi_mbx prid = obj_dmi prid mbx_ops"

definition mailbox_getname :: "ID \<Rightarrow> kstate \<Rightarrow> ER \<times> UB list option" where
  "mailbox_getname = obj_getname mbx_ops"

definition mailbox_setname :: "ID \<Rightarrow> UB list \<Rightarrow> kstate \<Rightarrow> ER \<times> kstate" where
  "mailbox_setname = obj_setname mbx_ops"

definition td_lst_mbx :: "int \<Rightarrow> kstate \<Rightarrow> int \<times> ID list" where
  "td_lst_mbx = obj_lst mbx_ops"

definition td_ref_mbx :: "ID \<Rightarrow> kstate \<Rightarrow> ER \<times> T_RMBX option" where
  "td_ref_mbx mid s = obj_td_ref [CHECK_MBXID s mid] mbx_ops mid (mbx_ref s) s"

definition td_mbx_que :: "ID \<Rightarrow> int \<Rightarrow> kstate \<Rightarrow> ER \<times> ID list" where
  "td_mbx_que mid nent s = obj_td_que [CHECK_MBXID s mid] mbx_ops QMbx mid nent s"

definition td_fnd_mbx :: "ID \<Rightarrow> UB list \<Rightarrow> kstate \<Rightarrow> ER" where
  "td_fnd_mbx = obj_td_fnd mbx_ops"

definition td_dmi_mbx :: "ID \<Rightarrow> kstate \<Rightarrow> ER \<times> T_DMI option" where
  "td_dmi_mbx = obj_td_dmi mbx_ops"

section \<open>Linked messages\<close>

fun path :: "(UW \<Rightarrow> T_MSG) \<Rightarrow> UW option \<Rightarrow> UW list \<Rightarrow> UW option \<Rightarrow> bool" where
  "path m h [] e \<longleftrightarrow> h = e"
| "path m h (x # xs) e \<longleftrightarrow> h = Some x \<and> path m (nextmsg (m x)) xs e"

abbreviation chain :: "(UW \<Rightarrow> T_MSG) \<Rightarrow> UW option \<Rightarrow> UW list \<Rightarrow> bool" where
  "chain m h xs \<equiv> path m h xs None"

lemma path_append [simp]: "path m h (xs @ ys) e \<longleftrightarrow> (\<exists>k. path m h xs k \<and> path m k ys e)"
  by (induction xs arbitrary: h) auto

lemma path_upd [simp]: "x \<notin> set xs \<Longrightarrow> path (m(x := v)) h xs e \<longleftrightarrow> path m h xs e"
  by (induction xs arbitrary: h) auto

lemma path_cong: "(\<And>x. x \<in> set xs \<Longrightarrow> nextmsg (m' x) = nextmsg (m x)) \<Longrightarrow> path m' h xs e \<longleftrightarrow> path m h xs e"
  by (induction xs arbitrary: h) auto

lemma chain_unique: "chain m h xs \<Longrightarrow> chain m h ys \<Longrightarrow> xs = ys"
proof (induction xs arbitrary: h ys)
  case Nil
  then show ?case by (cases ys) auto
next
  case (Cons x xs)
  then show ?case by (cases ys) auto
qed

lemma chain_distinct: "chain m h xs \<Longrightarrow> distinct xs"
proof (induction xs arbitrary: h)
  case (Cons x xs)
  have "x \<notin> set xs"
  proof
    assume "x \<in> set xs"
    then obtain ys zs where xs: "xs = ys @ x # zs" by (meson split_list)
    have "chain m (Some x) (x # xs)" "chain m (Some x) (x # zs)" using Cons.prems by (auto simp: xs)
    from chain_unique [OF this] show False by (simp add: xs)
  qed
  with Cons show ?case by auto
qed simp

lemma chain_last: "chain m h xs \<Longrightarrow> xs \<noteq> [] \<Longrightarrow> nextmsg (m (last xs)) = None"
  by (induction xs arbitrary: h) auto

definition mq :: "kstate \<Rightarrow> nat \<Rightarrow> (UW \<times> int) list option" where
  "mq s i = (if \<exists>xs. chain (msgs s) (mq_head (mbxcb s i)) xs
     then Some (map (\<lambda>x. (x, msgpri (msgs s x))) (THE xs. chain (msgs s) (mq_head (mbxcb s i)) xs)) else None)"

abbreviation keyed :: "kstate \<Rightarrow> UW list \<Rightarrow> (UW \<times> int) list" where
  "keyed s xs \<equiv> map (\<lambda>x. (x, msgpri (msgs s x))) xs"

lemma mq_chain: "chain (msgs s) (mq_head (mbxcb s i)) xs \<Longrightarrow> mq s i = Some (keyed s xs)"
proof -
  assume c: "chain (msgs s) (mq_head (mbxcb s i)) xs"
  then have "(THE xs. chain (msgs s) (mq_head (mbxcb s i)) xs) = xs"
    by (rule the_equality) (rule chain_unique [OF _ c])
  with c show ?thesis by (auto simp: mq_def)
qed

lemma mq_cases:
  assumes "mq s i = Some l"
  obtains xs where "chain (msgs s) (mq_head (mbxcb s i)) xs" "l = keyed s xs" "distinct xs" "map fst l = xs"
proof -
  from assms obtain xs where c: "chain (msgs s) (mq_head (mbxcb s i)) xs" by (auto simp: mq_def split: if_splits)
  then have "l = keyed s xs" using mq_chain assms by simp
  with that c chain_distinct [OF c] show ?thesis by (simp add: comp_def)
qed

lemma mq_same:
  assumes "mq s i = Some l" and "mq_head (mbxcb s' i) = mq_head (mbxcb s i)" and "\<And>x. x \<in> fst ` set l \<Longrightarrow> msgs s' x = msgs s x"
  shows "mq s' i = Some l"
  using assms(1)
proof (rule mq_cases)
  fix xs assume x: "chain (msgs s) (mq_head (mbxcb s i)) xs" "l = keyed s xs" "map fst l = xs"
  have e: "msgs s' y = msgs s y" if "y \<in> set xs" for y using assms(3) [of y] that by (simp add: x(2) image_image)
  have "chain (msgs s') (mq_head (mbxcb s' i)) xs" using x(1) path_cong [of xs "msgs s'" "msgs s"] e by (simp add: assms(2))
  then have "mq s' i = Some (keyed s' xs)" by (rule mq_chain)
  also have "keyed s' xs = keyed s xs" using e by simp
  finally show ?thesis by (simp add: x(2))
qed

section \<open>Sending into the queue\<close>

lemma upd_mbx_sel [simp]:
  "tcbs (upd_mbx i f s) = tcbs s" "ques (upd_mbx i f s) = ques s" "kinv (upd_mbx i f s) \<longleftrightarrow> kinv s"
  "mbxcb (upd_mbx i f s) j = (if j = i then f (mbxcb s i) else mbxcb s j)" "umem (upd_mbx i f s) = umem s"
  "msgs (upd_mbx i f s) = msgs s" "rdy (upd_mbx i f s) = rdy s" "ctxtsk (upd_mbx i f s) = ctxtsk s"
  "freeq (mbxtab (upd_mbx i f s)) = freeq (mbxtab s)" "maxid (mbxtab (upd_mbx i f s)) = maxid (mbxtab s)"
  "waiters (upd_mbx i f s) = waiters s"
  by (simp_all add: upd_mbx_def mbxcb_def rdy_def waiters_def fun_eq_iff)

lemma mbxcb_msgs [simp]: "mbxcb (s\<lparr>msgs := m\<rparr>) = mbxcb s" "mbxcb (s\<lparr>umem := u\<rparr>) = mbxcb s"
  by (simp_all add: mbxcb_def fun_eq_iff)

text \<open>What linking a message changes: links, and the two ends in control block \<open>i\<close>.\<close>

definition mq_frame :: "nat \<Rightarrow> UW set \<Rightarrow> kstate \<Rightarrow> kstate \<Rightarrow> bool" where
  "mq_frame i X s s' \<longleftrightarrow> s' = s\<lparr>mbxtab := mbxtab s', msgs := msgs s'\<rparr> \<and> maxid (mbxtab s') = maxid (mbxtab s) \<and>
     freeq (mbxtab s') = freeq (mbxtab s) \<and> (\<forall>j. j \<noteq> i \<longrightarrow> mbxcb s' j = mbxcb s j) \<and>
     mbxcb s' i = (mbxcb s i)\<lparr>mq_head := mq_head (mbxcb s' i), mq_tail := mq_tail (mbxcb s' i)\<rparr> \<and>
     (\<forall>x. msgpri (msgs s' x) = msgpri (msgs s x)) \<and> (\<forall>x. x \<notin> X \<longrightarrow> msgs s' x = msgs s x)"

lemma mq_frame_refl: "mq_frame i X s s"
  by (simp add: mq_frame_def)

lemma mq_frame_trans: "mq_frame i X s s1 \<Longrightarrow> mq_frame i X s1 s2 \<Longrightarrow> mq_frame i X s s2"
proof -
  assume a: "mq_frame i X s s1" and b: "mq_frame i X s1 s2"
  have "mbxcb s2 i = (mbxcb s1 i)\<lparr>mq_head := mq_head (mbxcb s2 i), mq_tail := mq_tail (mbxcb s2 i)\<rparr>"
    using b by (simp add: mq_frame_def)
  also have "mbxcb s1 i = (mbxcb s i)\<lparr>mq_head := mq_head (mbxcb s1 i), mq_tail := mq_tail (mbxcb s1 i)\<rparr>"
    using a by (simp add: mq_frame_def)
  finally have "mbxcb s2 i = (mbxcb s i)\<lparr>mq_head := mq_head (mbxcb s2 i), mq_tail := mq_tail (mbxcb s2 i)\<rparr>" by simp
  moreover have "s2 = s\<lparr>mbxtab := mbxtab s2, msgs := msgs s2\<rparr>"
  proof -
    have "s2 = s1\<lparr>mbxtab := mbxtab s2, msgs := msgs s2\<rparr>" using b by (simp add: mq_frame_def)
    also have "s1 = s\<lparr>mbxtab := mbxtab s1, msgs := msgs s1\<rparr>" using a by (simp add: mq_frame_def)
    finally show ?thesis by simp
  qed
  ultimately show ?thesis using a b by (simp add: mq_frame_def)
qed

lemma mq_frame_head: "mq_frame i X s (upd_mbx i (\<lambda>c. c\<lparr>mq_head := h\<rparr>) s)" "mq_frame i X s (upd_mbx i (\<lambda>c. c\<lparr>mq_tail := h\<rparr>) s)"
  by (simp_all add: mq_frame_def) (simp_all add: upd_mbx_def)

lemma mq_frame_set: "(case prev of None \<Rightarrow> True | Some p \<Rightarrow> p \<in> X) \<Longrightarrow> mq_frame i X s (nextmsg_set i prev v s)"
  by (cases prev) (simp_all add: nextmsg_set_def mq_frame_head, simp add: mq_frame_def mbxcb_def)

lemma mpri_scan_ok:
  "chain (msgs s) (nextmsg_get i prev s) xs \<Longrightarrow>
   mpri_scan i m s prev = Some (let ys = takeWhile (\<lambda>x. \<not> msgpri (msgs s x) > msgpri (msgs s m)) xs
     in if ys = [] then prev else Some (last ys))"
proof (induction xs arbitrary: prev)
  case Nil
  then show ?case by (subst mpri_scan.simps) simp
next
  case (Cons x xs)
  then have n: "nextmsg_get i prev s = Some x" "chain (msgs s) (nextmsg_get i (Some x) s) xs"
    by (simp_all add: nextmsg_get_def)
  show ?case
  proof (cases "msgpri (msgs s x) > msgpri (msgs s m)")
    case True
    then show ?thesis by (subst mpri_scan.simps) (simp add: n(1))
  next
    case False
    then have "mpri_scan i m s prev = mpri_scan i m s (Some x)" by (subst mpri_scan.simps) (simp add: n(1))
    with Cons.IH [OF n(2)] False show ?thesis by (auto simp: Let_def)
  qed
qed

lemma queue_insert_mpri_ok:
  assumes c: "chain (msgs s) (mq_head (mbxcb s i)) xs" and m: "m \<notin> set xs"
  shows "\<exists>s'. queue_insert_mpri m i s = Some s' \<and> mq_frame i (insert m (set xs)) s s' \<and>
     chain (msgs s') (mq_head (mbxcb s' i)) (insert_before (\<lambda>x. msgpri (msgs s x) > msgpri (msgs s m)) m xs)"
proof -
  let ?P = "\<lambda>x. \<not> msgpri (msgs s x) > msgpri (msgs s m)"
  define ys where "ys = takeWhile ?P xs"
  define zs where "zs = dropWhile ?P xs"
  have xs: "xs = ys @ zs" by (simp add: ys_def zs_def)
  have ins: "insert_before (\<lambda>x. msgpri (msgs s x) > msgpri (msgs s m)) m xs = ys @ m # zs"
    by (simp add: insert_before_split ys_def zs_def)
  have d: "distinct xs" using chain_distinct [OF c] .
  have scan: "mpri_scan i m s None = Some (if ys = [] then None else Some (last ys))"
    using mpri_scan_ok [of s i None xs m] c by (simp add: nextmsg_get_def ys_def Let_def)
  show ?thesis
  proof (cases ys rule: rev_cases)
    case Nil
    define s1 where "s1 = nextmsg_set i (Some m) (mq_head (mbxcb s i)) s"
    define s2 where "s2 = nextmsg_set i None (Some m) s1"
    have "queue_insert_mpri m i s = Some s2"
      by (simp add: queue_insert_mpri_def scan Nil s1_def s2_def nextmsg_get_def)
    moreover have "mq_frame i (insert m (set xs)) s s2"
      unfolding s2_def s1_def by (rule mq_frame_trans [OF mq_frame_set mq_frame_set]) simp_all
    moreover have "chain (msgs s2) (mq_head (mbxcb s2 i)) (m # xs)"
      using c m by (simp add: s2_def s1_def nextmsg_set_def)
    ultimately show ?thesis using Nil by (simp add: ins) (simp add: xs)
  next
    case (snoc as p)
    define s1 where "s1 = nextmsg_set i (Some m) (nextmsg (msgs s p)) s"
    define s2 where "s2 = nextmsg_set i (Some p) (Some m) s1"
    have "queue_insert_mpri m i s = Some s2"
      by (simp add: queue_insert_mpri_def scan snoc s1_def s2_def nextmsg_get_def)
    moreover have "mq_frame i (insert m (set xs)) s s2"
      unfolding s2_def s1_def by (rule mq_frame_trans [OF mq_frame_set mq_frame_set]) (simp_all add: xs snoc)
    moreover have "chain (msgs s2) (mq_head (mbxcb s2 i)) (ys @ m # zs)"
      using c m d by (auto simp: s2_def s1_def nextmsg_set_def xs snoc)
    ultimately show ?thesis by (simp add: ins)
  qed
qed

lemma connect_fifo_ok:
  assumes c: "chain (msgs s) (mq_head (mbxcb s i)) xs" and m: "m \<notin> set xs" and a: "mbxatr (mbxcb s i) AND TA_MPRI = 0"
    and t: "xs \<noteq> [] \<Longrightarrow> mq_tail (mbxcb s i) = Some (last xs)"
  shows "\<exists>s'. connect_msg m i s = Some s' \<and> mq_frame i (insert m (set xs)) s s' \<and>
     chain (msgs s') (mq_head (mbxcb s' i)) (xs @ [m]) \<and> mq_tail (mbxcb s' i) = Some m"
proof -
  define s1 where "s1 = nextmsg_set i (Some m) None s"
  have f1: "mq_frame i (insert m (set xs)) s s1" unfolding s1_def by (rule mq_frame_set) simp
  have h1: "mbxcb s1 = mbxcb s" by (simp add: s1_def nextmsg_set_def mbxcb_def fun_eq_iff)
  show ?thesis
  proof (cases xs rule: rev_cases)
    case Nil
    define s2 where "s2 = upd_mbx i (\<lambda>c. c\<lparr>mq_head := Some m\<rparr>) s1"
    define s3 where "s3 = upd_mbx i (\<lambda>c. c\<lparr>mq_tail := Some m\<rparr>) s2"
    have "connect_msg m i s = Some s3"
      using a c Nil h1 by (simp add: connect_msg_def s1_def [symmetric] s2_def s3_def Let_def)
    moreover have "mq_frame i (insert m (set xs)) s s3"
      unfolding s3_def s2_def by (rule mq_frame_trans [OF mq_frame_trans [OF f1 mq_frame_head(1)] mq_frame_head(2)])
    ultimately show ?thesis using Nil by (simp add: s3_def s2_def s1_def nextmsg_set_def)
  next
    case (snoc ys p)
    define s2 where "s2 = nextmsg_set i (Some p) (Some m) s1"
    define s3 where "s3 = upd_mbx i (\<lambda>c. c\<lparr>mq_tail := Some m\<rparr>) s2"
    have h: "mq_head (mbxcb s i) \<noteq> None" using c snoc by (cases ys) auto
    have "mq_tail (mbxcb s1 i) = Some p" using t snoc h1 by simp
    then have "connect_msg m i s = Some s3"
      using a h h1 by (auto simp: connect_msg_def s1_def [symmetric] s2_def s3_def Let_def)
    moreover have "mq_frame i (insert m (set xs)) s s3"
      unfolding s3_def s2_def
      by (rule mq_frame_trans [OF mq_frame_trans [OF f1 mq_frame_set] mq_frame_head(2)]) (simp add: snoc)
    moreover have "chain (msgs s3) (mq_head (mbxcb s3 i)) (xs @ [m])"
      using c m chain_distinct [OF c] by (auto simp: s3_def s2_def s1_def nextmsg_set_def snoc)
    ultimately show ?thesis by (simp add: s3_def)
  qed
qed

section \<open>The invariant of the mailboxes\<close>

definition mbx_view :: "kstate \<Rightarrow> nat \<Rightarrow> MBXCB \<times> waiter list \<times> (UW \<times> int) list option" where
  "mbx_view s i = (mbxcb s i, waiters s (QMbx i), if mbxid (mbxcb s i) = 0 then None else mq s i)"

definition mbx_waiter :: "MBXCB \<Rightarrow> waiter \<Rightarrow> bool" where
  "mbx_waiter c w \<longleftrightarrow> (case w of (t, wi, d, sp, p) \<Rightarrow>
     d = mbxid c \<and> sp = (if mbxatr c AND TA_TPRI \<noteq> 0 then Wspec_mbx_tpri else Wspec_mbx_tfifo))"

definition mbx_msgs_ok :: "MBXCB \<Rightarrow> (UW \<times> int) list \<Rightarrow> bool" where
  "mbx_msgs_ok c l \<longleftrightarrow> (if mbxatr c AND TA_MPRI \<noteq> 0 then sorted (map snd l) else l \<noteq> [] \<longrightarrow> mq_tail c = Some (fst (last l)))"

fun mbx_wf :: "nat \<Rightarrow> MBXCB \<times> waiter list \<times> (UW \<times> int) list option \<Rightarrow> bool" where
  "mbx_wf i (c, ws, ml) \<longleftrightarrow>
     (if mbxid c = 0 then ws = []
      else INDEX_OBJ (mbxid c) = i \<and> (mbxatr c AND TA_TPRI \<noteq> 0 \<longrightarrow> sorted (map waiter_pri ws)) \<and> (\<forall>w\<in>set ws. mbx_waiter c w) \<and>
        (\<exists>l. ml = Some l \<and> (ws \<noteq> [] \<longrightarrow> l = []) \<and> mbx_msgs_ok c l))"

definition mbx_agree :: "kstate \<Rightarrow> kstate \<Rightarrow> bool" where
  "mbx_agree s s' \<longleftrightarrow> mbxtab s' = mbxtab s \<and> msgs s' = msgs s"

lemma mq_cong: "msgs s' = msgs s \<Longrightarrow> mq_head (mbxcb s' i) = mq_head (mbxcb s i) \<Longrightarrow> mq s' i = mq s i"
  by (simp add: mq_def)

lemma set_free_mbx_sel [simp]:
  "tcbs (set_free_mbx f s) = tcbs s" "ques (set_free_mbx f s) = ques s" "kinv (set_free_mbx f s) \<longleftrightarrow> kinv s"
  "mbxcb (set_free_mbx f s) = mbxcb s" "freeq (mbxtab (set_free_mbx f s)) = f" "msgs (set_free_mbx f s) = msgs s"
  "maxid (mbxtab (set_free_mbx f s)) = maxid (mbxtab s)" "waiters (set_free_mbx f s) = waiters s" "mq (set_free_mbx f s) = mq s"
  by (simp_all add: set_free_mbx_def mbxcb_def waiters_def fun_eq_iff mq_def)

lemma mq_upd_mbx [simp]: "mq_head (f (mbxcb s j)) = mq_head (mbxcb s j) \<Longrightarrow> mq (upd_mbx j f s) i = mq s i" "i \<noteq> j \<Longrightarrow> mq (upd_mbx j f s) i = mq s i"
  by (auto intro: mq_cong)

interpretation mbx_tab: obj_table mbx_ops mbx_view "\<lambda>v. mbxid (fst v)" mbx_wf mbx_agree "\<lambda>i. {QMbx i}"
proof unfold_locales
  show "mbx_agree s s' \<Longrightarrow> touches Q s s' \<Longrightarrow> {QMbx i} \<inter> Q = {} \<Longrightarrow> mbx_view s' i = mbx_view s i" for s s' Q i
    by (simp add: mbx_agree_def mbx_view_def mbxcb_def touchesD mq_def)
qed (auto simp: mbx_agree_def objs_same_def mbx_ops_def mbx_view_def mbx_waiter_def mbx_msgs_ok_def)

definition msgs_of :: "kstate \<Rightarrow> nat \<Rightarrow> UW set" where
  "msgs_of s i = (if mbxid (mbxcb s i) = 0 then {} else case mq s i of None \<Rightarrow> {} | Some l \<Rightarrow> fst ` set l)"

definition msgs_apart :: "kstate \<Rightarrow> bool" where
  "msgs_apart s \<longleftrightarrow> (\<forall>i<maxid (mbxtab s). \<forall>j<maxid (mbxtab s). i \<noteq> j \<longrightarrow> msgs_of s i \<inter> msgs_of s j = {})"

definition mbxs_ok :: "kstate \<Rightarrow> bool" where
  "mbxs_ok s \<longleftrightarrow> mbx_tab.table_ok s \<and> msgs_apart s"

lemma mbx_ops_sel [simp]:
  "oo_max mbx_ops s = maxid (mbxtab s)" "oo_free mbx_ops s = freeq (mbxtab s)" "oo_type mbx_ops = OT_MBX"
  "oo_set_id mbx_ops i x = upd_mbx i (\<lambda>c. c\<lparr>mbxid := x\<rparr>)" "oo_set_free mbx_ops = set_free_mbx"
  by (simp_all add: mbx_ops_def)

lemma mbx_index: "guards (CHECK_MBXID s mid # gs) = None \<Longrightarrow> INDEX_OBJ mid < maxid (mbxtab s)"
  by (auto simp: guards_None CHECK_MBXID_def intro: CHECK_OBJID_index)

lemma mbxs_okD: "mbxs_ok s \<Longrightarrow> i < maxid (mbxtab s) \<Longrightarrow> mbx_wf i (mbxcb s i, waiters s (QMbx i), mq s i)"
  using mbx_tab.table_okD [of s i] by (auto simp: mbx_view_def mbxs_ok_def split: if_splits)

text \<open>A live mailbox has a message list.\<close>

lemma mbxs_ok_mq:
  assumes "mbxs_ok s" and "i < maxid (mbxtab s)" and "mbxid (mbxcb s i) \<noteq> 0"
  obtains l where "mq s i = Some l" "mbx_msgs_ok (mbxcb s i) l" "ques s (QMbx i) \<noteq> [] \<Longrightarrow> l = []" "msgs_of s i = fst ` set l"
  using mbxs_okD [OF assms(1,2)] assms(3) that by (auto simp: msgs_of_def)

text \<open>Steps that leave the mailboxes alone, and the message sets of those that do not.\<close>

lemma msgs_of_same: "mbxid (mbxcb s' i) = mbxid (mbxcb s i) \<Longrightarrow> mq s' i = mq s i \<Longrightarrow> msgs_of s' i = msgs_of s i"
  by (simp add: msgs_of_def)

lemma mbxs_ok_foreign:
  assumes "mbxtab s' = mbxtab s" "msgs s' = msgs s" "touches Q s s'" "\<And>i. QMbx i \<notin> Q"
  shows "mbxs_ok s' \<longleftrightarrow> mbxs_ok s"
proof -
  have "mbx_tab.table_ok s' \<longleftrightarrow> mbx_tab.table_ok s"
    using mbx_tab.table_ok_foreign [OF _ assms(3)] assms by (simp add: mbx_agree_def)
  moreover have "msgs_of s' i = msgs_of s i" for i
    using assms by (intro msgs_of_same mq_cong) (simp_all add: mbxcb_def)
  ultimately show ?thesis using assms(1) by (simp add: mbxs_ok_def msgs_apart_def)
qed

lemma mbxs_ok_sched: "sched_frame s s' \<Longrightarrow> mbxs_ok s' \<longleftrightarrow> mbxs_ok s"
  using mbxs_ok_foreign [OF _ _ touches_sched [of s s' "{}"]] by (simp add: sched_frame_sel)

lemma mbxs_ok_end: "end_critical r s = Some (r', s') \<Longrightarrow> kinv s \<Longrightarrow> mbxs_ok s \<Longrightarrow> kinv s' \<and> mbxs_ok s'"
  using end_critical_result [of r s r' s'] mbxs_ok_sched [of s s'] by simp

text \<open>
  A step on mailbox \<open>i\<close> that changes the headers of its own messages and of the messages \<open>M\<close>,
  which are in no mailbox.
\<close>

lemma mbxs_ok_step:
  assumes ok: "mbxs_ok s" and tab: "maxid (mbxtab s') = maxid (mbxtab s)" "freeq (mbxtab s') = freeq (mbxtab s)"
    "\<And>j. j \<noteq> i \<Longrightarrow> mbxcb s' j = mbxcb s j" "touches {QMbx i} s s'" and live: "mbxid (mbxcb s i) \<noteq> 0" "i < maxid (mbxtab s)"
    and wf: "mbx_wf i (mbxcb s' i, waiters s' (QMbx i), mq s' i)"
    and ms: "\<And>x. x \<notin> M \<union> msgs_of s i \<Longrightarrow> msgs s' x = msgs s x" "msgs_of s' i \<subseteq> M \<union> msgs_of s i"
    and M: "\<And>j. j < maxid (mbxtab s) \<Longrightarrow> j \<noteq> i \<Longrightarrow> M \<inter> msgs_of s j = {}"
  shows "mbxs_ok s'"
proof -
  have ap: "msgs_apart s" using ok by (simp add: mbxs_ok_def)
  have mqj: "mq s' j = mq s j" if j: "j < maxid (mbxtab s)" "j \<noteq> i" "mbxid (mbxcb s j) \<noteq> 0" for j
  proof -
    obtain l where l: "mq s j = Some l" "msgs_of s j = fst ` set l"
      by (rule mbxs_ok_mq [OF ok j(1,3)]) (rule that; assumption)
    have "msgs_of s j \<inter> (M \<union> msgs_of s i) = {}"
      using M [OF j(1,2)] ap j(1,2) live(2) by (auto simp: msgs_apart_def)
    then have "msgs s' x = msgs s x" if "x \<in> fst ` set l" for x using that ms(1) l(2) by blast
    then show ?thesis using mq_same [OF l(1), of s'] tab(3) [OF j(2)] l(1) by simp
  qed
  have v: "mbx_view s' j = mbx_view s j" if "j < maxid (mbxtab s)" "j \<noteq> i" for j
    using mqj [OF that] tab(3) [OF that(2)] touchesD [OF tab(4)] that by (simp add: mbx_view_def)
  have "mbx_tab.table_ok s'"
  proof (rule mbx_tab.table_ok_step [where i = i and s = s])
    show "mbx_wf i (mbx_view s' i)" using wf by (auto simp: mbx_view_def)
    show "mbxid (fst (mbx_view s i)) \<noteq> 0" using live by (simp add: mbx_view_def)
  qed (use ok tab v in \<open>simp_all add: mbxs_ok_def\<close>)
  moreover have same: "msgs_of s' j = msgs_of s j" if "j < maxid (mbxtab s)" "j \<noteq> i" for j
    using mqj [OF that] tab(3) [OF that(2)] by (simp add: msgs_of_def)
  have "msgs_of s' a \<inter> msgs_of s' b = {}" if ab: "a < maxid (mbxtab s)" "b < maxid (mbxtab s)" "a \<noteq> b" for a b
  proof -
    have other: "msgs_of s' i \<inter> msgs_of s' c = {}" if "c < maxid (mbxtab s)" "c \<noteq> i" for c
      using ms(2) M [OF that] same [OF that] ap that live(2) by (fastforce simp: msgs_apart_def)
    consider "a = i" | "b = i" | "a \<noteq> i" "b \<noteq> i" by blast
    then show ?thesis
    proof cases
      case 1
      with other [of b] ab show ?thesis by simp
    next
      case 2
      with other [of a] ab show ?thesis by (simp add: Int_commute)
    next
      case 3
      with same ab ap show ?thesis by (simp add: msgs_apart_def)
    qed
  qed
  then have "msgs_apart s'" by (simp add: msgs_apart_def tab(1))
  ultimately show ?thesis by (simp add: mbxs_ok_def)
qed

section \<open>Every call keeps the invariant\<close>

lemma msgs_apart_sub:
  "msgs_apart s \<Longrightarrow> maxid (mbxtab s') = maxid (mbxtab s) \<Longrightarrow> (\<And>j. msgs_of s' j \<subseteq> msgs_of s j) \<Longrightarrow> msgs_apart s'"
proof -
  assume a: "msgs_apart s" and m: "maxid (mbxtab s') = maxid (mbxtab s)" and sub: "\<And>j. msgs_of s' j \<subseteq> msgs_of s j"
  have "msgs_of s' i \<inter> msgs_of s' j \<subseteq> msgs_of s i \<inter> msgs_of s j" for i j by (rule Int_mono [OF sub sub])
  with a show "msgs_apart s'" unfolding msgs_apart_def m by (metis subset_empty)
qed

lemma register_mbx [simp]:
  "mbxcb (mp_register_object_in_domain d ty i nm s) = mbxcb s" "mbxcb (mp_unregister_object_in_domain x ty i s) = mbxcb s"
  "mq (mp_register_object_in_domain d ty i nm s) = mq s" "mq (mp_unregister_object_in_domain x ty i s) = mq s"
proof -
  have m: "msgs (mp_register_object_in_domain d ty i nm s) = msgs s" "msgs (mp_unregister_object_in_domain x ty i s) = msgs s"
    by (simp_all add: mp_register_object_in_domain_def mp_unregister_object_in_domain_def Let_def set_key_def upd_dom_def split: prod.split)
  show c: "mbxcb (mp_register_object_in_domain d ty i nm s) = mbxcb s" "mbxcb (mp_unregister_object_in_domain x ty i s) = mbxcb s"
    by (simp_all add: mbxcb_def fun_eq_iff)
  show "mq (mp_register_object_in_domain d ty i nm s) = mq s" "mq (mp_unregister_object_in_domain x ty i s) = mq s"
    using m c by (auto intro!: ext mq_cong)
qed

lemma tk_cre_mbx_inv:
  assumes k: "kinv s" and ok: "mbxs_ok s" and r: "tk_cre_mbx prid pk s = Some (e, s')"
  shows "kinv s' \<and> mbxs_ok s'"
proof -
  have tab: "mbx_tab.table_ok s" and ap: "msgs_apart s" using ok by (simp_all add: mbxs_ok_def)
  have "kinv s' \<and> mbx_tab.table_ok s'"
  proof (rule mbx_tab.obj_cre_ok [OF r [unfolded tk_cre_mbx_def] k tab])
    fix i oid u
    assume u: "kinv u" "mbx_wf i (mbx_view u i)" "mbxid (fst (mbx_view u i)) = 0" "INDEX_OBJ oid = i" "oid \<noteq> 0"
    have q: "ques u (QMbx i) = []" "waiters u (QMbx i) = []" using u(2,3) by (simp_all add: mbx_view_def)
    have s: "set_que (QMbx i) [] u = u" by (rule set_que_same [OF q(1)])
    let ?u = "upd_mbx i (\<lambda>c. c\<lparr>mbxid := oid, mbx_exinf := cmbx_exinf pk, mbxatr := cmbx_mbxatr pk, mq_head := None\<rparr>) u"
    have m: "mq ?u i = Some []" using mq_chain [of ?u i "[]"] by simp
    show "mbx_tab.step_on i u (upd_mbx i (\<lambda>c. c\<lparr>mbxid := oid, mbx_exinf := cmbx_exinf pk, mbxatr := cmbx_mbxatr pk,
        mq_head := None\<rparr>) (set_que (QMbx i) [] u))"
      unfolding s using u(1,4,5) q m by (simp add: mbx_tab.step_on_def mbx_view_def mbx_msgs_ok_def waiters_def)
  qed
  moreover have "msgs_apart s'"
    using r [unfolded tk_cre_mbx_def]
  proof (cases rule: obj_cre_cases)
    case (2 i q dom nm oid)
    let ?f = "\<lambda>c :: MBXCB. c\<lparr>mbxid := oid, mbx_exinf := cmbx_exinf pk, mbxatr := cmbx_mbxatr pk, mq_head := None\<rparr>"
    have n: "oo_set_name mbx_ops = (\<lambda>i nm. upd_mbx i (\<lambda>c. c\<lparr>mbx_oname := nm\<rparr>))" by (simp add: mbx_ops_def)
    have q0: "ques s (QMbx i) = []"
    proof -
      have "i < maxid (mbxtab s)" "mbxid (mbxcb s i) = 0" using tab 2(2) by (auto simp: mbx_tab.table_ok_def mbx_view_def)
      with mbxs_okD [OF ok, of i] show ?thesis by simp
    qed
    have sq: "set_que (QMbx i) [] (set_free_mbx q s) = set_free_mbx q s" by (rule set_que_same) (simp add: q0)
    show ?thesis
    proof (rule msgs_apart_sub [OF ap])
      show "maxid (mbxtab s') = maxid (mbxtab s)" by (simp add: 2(5) n sq)
      fix j
      show "msgs_of s' j \<subseteq> msgs_of s j"
      proof (cases "j = i")
        case True
        have "mq s' i = Some []" by (rule mq_chain [of s' i "[]", simplified]) (simp add: 2(5) n sq)
        then show ?thesis by (simp add: msgs_of_def True)
      next
        case False
        then have "mq s' j = mq s j" "mbxcb s' j = mbxcb s j" by (simp_all add: 2(5) n sq)
        then show ?thesis by (simp add: msgs_of_def)
      qed
    qed
  qed (use ap in simp)
  ultimately show ?thesis by (simp add: mbxs_ok_def)
qed

lemma tk_del_mbx_inv:
  assumes k: "kinv s" and ok: "mbxs_ok s" and r: "tk_del_mbx prid mid s = Some (e, s')"
  shows "kinv s' \<and> mbxs_ok s'"
proof -
  have tab: "mbx_tab.table_ok s" and ap: "msgs_apart s" using ok by (simp_all add: mbxs_ok_def)
  have "kinv s' \<and> mbx_tab.table_ok s'"
    by (rule mbx_tab.obj_del_ok [OF r [unfolded tk_del_mbx_def] k tab])
      (use mbx_index in \<open>auto simp: mbx_view_def\<close>)
  moreover have "msgs_apart s'"
    using r [unfolded tk_del_mbx_def]
  proof (cases rule: obj_call_cases)
    case (2 x)
    then show ?thesis using mbxs_ok_end [of x s e s'] k ok by (simp add: leave_critical_def mbxs_ok_def)
  next
    case 3
    let ?i = "INDEX_OBJ mid"
    obtain s1 where d: "wait_delete (QMbx ?i) s = Some s1"
      and e: "end_critical E_OK (obj_unlink mbx_ops mid ?i s1) = Some (e, s')"
      using 3(3) by (auto split: Option.bind_splits)
    have w: "kinv s1" "objs_same s s1" using touches_wait_delete [OF k _ d] by simp_all
    let ?s = "obj_unlink mbx_ops mid ?i s1"
    have ku: "kinv ?s" using w(1) by (simp add: obj_unlink_def Let_def)
    from end_critical_result [OF e ku] have f: "sched_frame ?s s'" by simp
    have cb: "mbxcb s' j = (if j = ?i then (mbxcb s j)\<lparr>mbxid := 0\<rparr> else mbxcb s j)" for j
      using w(2) by (simp add: mbxcb_def sched_frame_sel [OF f]) (simp add: obj_unlink_def Let_def objs_same_def upd_mbx_def set_free_mbx_def)
    have "mq s' j = mq s j" for j
    proof (rule mq_cong)
      show "msgs s' = msgs s" using w(2)
        by (simp add: sched_frame_sel [OF f]) (simp add: obj_unlink_def Let_def upd_mbx_def set_free_mbx_def objs_same_def
          mp_unregister_object_in_domain_def set_key_def upd_dom_def)
      show "mq_head (mbxcb s' j) = mq_head (mbxcb s j)" by (simp add: cb)
    qed
    then have "msgs_of s' j \<subseteq> msgs_of s j" for j by (simp add: msgs_of_def cb)
    moreover have "maxid (mbxtab s') = maxid (mbxtab s)"
      using w(2) by (simp add: sched_frame_sel [OF f]) (simp add: obj_unlink_def Let_def objs_same_def)
    ultimately show ?thesis using msgs_apart_sub [OF ap] by blast
  qed (use ap in simp)
  ultimately show ?thesis by (simp add: mbxs_ok_def)
qed

text \<open>Message \<open>m\<close> is in no mailbox.\<close>

definition unlinked :: "UW \<Rightarrow> kstate \<Rightarrow> bool" where
  "unlinked m s \<longleftrightarrow> (\<forall>j<maxid (mbxtab s). m \<notin> msgs_of s j)"

text \<open>The abstract effect of sending.\<close>

definition mq_put :: "ATR \<Rightarrow> UW \<times> int \<Rightarrow> (UW \<times> int) list \<Rightarrow> (UW \<times> int) list" where
  "mq_put atr e l = (if atr AND TA_MPRI \<noteq> 0 then insert_before (\<lambda>x. snd x > snd e) e l else l @ [e])"

lemma fst_mq_put: "fst ` set (mq_put atr e l) = insert (fst e) (fst ` set l)"
  by (auto simp: mq_put_def)

lemma connect_msg_ok:
  assumes l: "mq s i = Some l" and w: "mbx_msgs_ok (mbxcb s i) l" and m: "m \<notin> fst ` set l"
  shows "\<exists>s'. connect_msg m i s = Some s' \<and> mq_frame i (insert m (fst ` set l)) s s' \<and>
     mq s' i = Some (mq_put (mbxatr (mbxcb s i)) (m, msgpri (msgs s m)) l) \<and> mbx_msgs_ok (mbxcb s' i) (mq_put (mbxatr (mbxcb s i)) (m, msgpri (msgs s m)) l)"
proof -
  obtain xs where c: "chain (msgs s) (mq_head (mbxcb s i)) xs" and x: "l = keyed s xs" "map fst l = xs"
    using l by (rule mq_cases)
  have fx: "fst ` set l = set xs" using x(2) by (metis list.set_map)
  have mx: "m \<notin> set xs" using m fx by simp
  show ?thesis
  proof (cases "mbxatr (mbxcb s i) AND TA_MPRI \<noteq> 0")
    case True
    let ?ins = "insert_before (\<lambda>x. msgpri (msgs s x) > msgpri (msgs s m)) m xs"
    from queue_insert_mpri_ok [OF c mx] obtain s' where
      s': "queue_insert_mpri m i s = Some s'" "mq_frame i (insert m (set xs)) s s'" "chain (msgs s') (mq_head (mbxcb s' i)) ?ins" by blast
    have "keyed s' ?ins = keyed s ?ins" using s'(2) by (simp add: mq_frame_def)
    also have "\<dots> = insert_before (\<lambda>x. snd x > msgpri (msgs s m)) (m, msgpri (msgs s m)) l"
      unfolding x(1) by (rule map_insert_before) simp
    finally have ms: "mq s' i = Some (mq_put (mbxatr (mbxcb s i)) (m, msgpri (msgs s m)) l)"
      using mq_chain [OF s'(3)] True by (simp add: mq_put_def)
    have "sorted (map snd (mq_put (mbxatr (mbxcb s i)) (m, msgpri (msgs s m)) l))"
      using w True sorted_insert_before [of snd l "(m, msgpri (msgs s m))"] by (simp add: mbx_msgs_ok_def mq_put_def)
    moreover have "mbxatr (mbxcb s' i) = mbxatr (mbxcb s i)" using s'(2) by (metis MBXCB.select_convs(3) MBXCB.surjective MBXCB.update_convs(4,5) mq_frame_def)
    ultimately show ?thesis using s' ms True by (simp add: connect_msg_def fx mbx_msgs_ok_def)
  next
    case False
    have a: "mbxatr (mbxcb s i) AND TA_MPRI = 0" using False by simp
    have t: "mq_tail (mbxcb s i) = Some (last xs)" if "xs \<noteq> []" using that w False x by (simp add: mbx_msgs_ok_def last_map)
    from connect_fifo_ok [OF c mx a t] obtain s' where
      s': "connect_msg m i s = Some s'" "mq_frame i (insert m (set xs)) s s'" "chain (msgs s') (mq_head (mbxcb s' i)) (xs @ [m])"
        "mq_tail (mbxcb s' i) = Some m" by blast
    have "keyed s' (xs @ [m]) = l @ [(m, msgpri (msgs s m))]" using s'(2) x(1) by (simp add: mq_frame_def)
    then have "mq s' i = Some (mq_put (mbxatr (mbxcb s i)) (m, msgpri (msgs s m)) l)"
      using mq_chain [OF s'(3)] False by (simp add: mq_put_def)
    moreover have "mbxatr (mbxcb s' i) = mbxatr (mbxcb s i)" using s'(2) by (metis MBXCB.select_convs(3) MBXCB.surjective MBXCB.update_convs(4,5) mq_frame_def)
    ultimately show ?thesis using s' False by (simp add: fx mbx_msgs_ok_def mq_put_def)
  qed
qed

lemma mq_frame_state: "mq_frame i X s s' \<Longrightarrow> tcbs s' = tcbs s \<and> ques s' = ques s \<and> (kinv s' \<longleftrightarrow> kinv s)"
proof -
  assume "mq_frame i X s s'"
  then have e: "s' = s\<lparr>mbxtab := mbxtab s', msgs := msgs s'\<rparr>" by (simp add: mq_frame_def)
  show ?thesis by (subst (1 2 3) e) simp
qed

lemma mq_frame_mbxs_ok:
  assumes ok: "mbxs_ok s" and f: "mq_frame i X s s'" and live: "mbxid (mbxcb s i) \<noteq> 0" "i < maxid (mbxtab s)"
    and q: "mq s' i = Some l" "mbx_msgs_ok (mbxcb s' i) l" "ques s (QMbx i) \<noteq> [] \<Longrightarrow> l = []" and X: "X \<subseteq> M \<union> msgs_of s i" "fst ` set l \<subseteq> M \<union> msgs_of s i"
    and M: "\<And>j. j < maxid (mbxtab s) \<Longrightarrow> j \<noteq> i \<Longrightarrow> M \<inter> msgs_of s j = {}"
  shows "mbxs_ok s'"
proof -
  have fs: "maxid (mbxtab s') = maxid (mbxtab s)" "freeq (mbxtab s') = freeq (mbxtab s)" "\<And>j. j \<noteq> i \<Longrightarrow> mbxcb s' j = mbxcb s j"
    "\<And>x. x \<notin> X \<Longrightarrow> msgs s' x = msgs s x"
    using f by (simp_all add: mq_frame_def)
  have cb: "mbxcb s' i = (mbxcb s i)\<lparr>mq_head := mq_head (mbxcb s' i), mq_tail := mq_tail (mbxcb s' i)\<rparr>"
    using f by (simp add: mq_frame_def)
  have at: "mbxid (mbxcb s' i) = mbxid (mbxcb s i)" "mbxatr (mbxcb s' i) = mbxatr (mbxcb s i)" by (subst cb; simp)+
  have ws: "waiters s' = waiters s" and t: "touches {QMbx i} s s'"
    using mq_frame_state [OF f] by (simp_all add: waiters_def fun_eq_iff touches_same)
  have "mbx_waiter (mbxcb s' i) = mbx_waiter (mbxcb s i)" by (simp add: fun_eq_iff mbx_waiter_def at)
  then have wf: "mbx_wf i (mbxcb s' i, waiters s' (QMbx i), mq s' i)"
    using mbxs_okD [OF ok live(2)] live q by (auto simp: at ws)
  show ?thesis
  proof (rule mbxs_ok_step [OF ok fs(1,2,3) t live wf _ _ M])
    show "msgs s' x = msgs s x" if "x \<notin> M \<union> msgs_of s i" for x using that X(1) by (intro fs(4)) blast
    show "msgs_of s' i \<subseteq> M \<union> msgs_of s i" using X(2) live(1) by (simp add: msgs_of_def at q(1))
  qed
qed

lemma tk_snd_mbx_inv:
  assumes k: "kinv s" and ok: "mbxs_ok s" and m: "unlinked m s" and r: "tk_snd_mbx prid mid m s = Some (e, s')"
  shows "kinv s' \<and> mbxs_ok s'"
  using r [unfolded tk_snd_mbx_def]
proof (cases rule: obj_call_cases)
  case 1
  then show ?thesis using k ok by simp
next
  case (2 x)
  then show ?thesis using mbxs_ok_end [OF _ k ok] by (simp add: leave_critical_def)
next
  case 3
  define i where "i = INDEX_OBJ mid"
  have ix: "i < maxid (mbxtab s)" using mbx_index [OF 3(1)] by (simp add: i_def)
  have live: "mbxid (mbxcb s i) \<noteq> 0" using 3(2) by (simp add: mbx_ops_def i_def)
  obtain l where l: "mq s i = Some l" "mbx_msgs_ok (mbxcb s i) l" "ques s (QMbx i) \<noteq> [] \<Longrightarrow> l = []" "msgs_of s i = fst ` set l"
    by (rule mbxs_ok_mq [OF ok ix live]) (rule that; assumption)
  note b = 3(3) [folded i_def]
  show ?thesis
  proof (cases "mbxatr (mbxcb s i) AND TA_MPRI \<noteq> 0 \<and> msgpri (msgs s m) \<le> 0")
    case True
    then show ?thesis using b mbxs_ok_end [OF _ k ok] by simp
  next
    case False
    show ?thesis
    proof (cases "ques s (QMbx i)")
      case Nil
      have nm: "m \<notin> fst ` set l" using m ix unfolding unlinked_def l(4) [symmetric] by blast
      from connect_msg_ok [OF l(1,2) nm] obtain s1 where
        s1: "connect_msg m i s = Some s1" "mq_frame i (insert m (fst ` set l)) s s1"
          "mq s1 i = Some (mq_put (mbxatr (mbxcb s i)) (m, msgpri (msgs s m)) l)"
          "mbx_msgs_ok (mbxcb s1 i) (mq_put (mbxatr (mbxcb s i)) (m, msgpri (msgs s m)) l)" by blast
      have ok1: "mbxs_ok s1"
        by (rule mq_frame_mbxs_ok [OF ok s1(2) live ix s1(3,4), where M = "{m}"])
          (use Nil m in \<open>auto simp: l(4) fst_mq_put unlinked_def\<close>)
      have "end_critical E_OK s1 = Some (e, s')" using b False Nil s1(1) by simp
      then show ?thesis by (rule mbxs_ok_end) (use mq_frame_state [OF s1(2)] k ok1 in simp_all)
    next
      case (Cons t ts)
      define s0 where "s0 = s\<lparr>umem := (umem s)(mbx_ppk_msg (winfo (tcbs s t)) := m)\<rparr>"
      define s1 where "s1 = wait_release_ok_ercd t E_OK s0"
      have k0: "kinv s0" using k by (simp add: s0_def)
      have t0: "t \<in> set (ques s0 (QMbx i))" using Cons by (simp add: s0_def)
      note rel = wait_release_props [OF k0 _ t0, where e = E_OK, folded s1_def, simplified]
      have fs: "mbxtab s1 = mbxtab s" "msgs s1 = msgs s" "mbxcb s1 = mbxcb s"
        using rel(6) by (simp_all add: objs_same_def s0_def mbxcb_def fun_eq_iff)
      have w0: "waiters s0 = waiters s" by (simp add: s0_def waiters_def fun_eq_iff)
      have tq: "touches {QMbx i} s s1"
        using touches_trans [OF touches_same touches_release(1) [OF k0 _ t0, of E_OK, folded s1_def]] by (simp add: s0_def)
      have ws: "waiters s1 (QMbx i) = filter (\<lambda>w. fst w \<noteq> t) (waiters s (QMbx i))"
        using touches_release(2) [OF k0 _ t0, of E_OK, folded s1_def] w0 by simp
      have mqs: "mq s1 i = mq s i" by (rule mq_cong) (simp_all add: fs)
      have "l = []" using l(3) Cons by simp
      then have wf: "mbx_wf i (mbxcb s1 i, waiters s1 (QMbx i), mq s1 i)"
        using mbxs_okD [OF ok ix] live l(1,2) sorted_map_filter [of waiter_pri "waiters s (QMbx i)" "\<lambda>w. fst w \<noteq> t"]
        by (simp add: fs mqs ws)
      have ok1: "mbxs_ok s1"
        by (rule mbxs_ok_step [OF ok _ _ _ tq live ix wf, where M = "{}"]) (simp_all add: fs msgs_of_def mqs)
      have "end_critical E_OK s1 = Some (e, s')"
        using b False Cons by (simp add: s1_def s0_def wait_release_ok_ercd_E_OK)
      then show ?thesis by (rule mbxs_ok_end [OF _ rel(1) ok1])
    qed
  qed
qed

text \<open>Receiving: the head of the list is taken off.\<close>

definition pop_msg :: "nat \<Rightarrow> UW \<Rightarrow> UW \<Rightarrow> kstate \<Rightarrow> kstate" where
  "pop_msg i m ppk s = (let s = s\<lparr>umem := (umem s)(ppk := m)\<rparr> in upd_mbx i (\<lambda>c. c\<lparr>mq_head := nextmsg (msgs s m)\<rparr>) s)"

lemma mq_head_None: "mq s i = Some l \<Longrightarrow> mq_head (mbxcb s i) = None \<longleftrightarrow> l = []"
  by (erule mq_cases) (auto elim: path.elims)

lemma pop_msg_ok:
  assumes l: "mq s i = Some ((m, p) # l)" and w: "mbx_msgs_ok (mbxcb s i) ((m, p) # l)"
  shows "mq (pop_msg i m ppk s) i = Some l" and "mbx_msgs_ok (mbxcb (pop_msg i m ppk s) i) l"
    and "mq_frame i {} (s\<lparr>umem := (umem s)(ppk := m)\<rparr>) (pop_msg i m ppk s)" and "mq_head (mbxcb s i) = Some m"
proof -
  obtain xs where c: "chain (msgs s) (mq_head (mbxcb s i)) (m # xs)" and x: "l = keyed s xs"
  proof (rule mq_cases [OF l])
    fix ys assume "chain (msgs s) (mq_head (mbxcb s i)) ys" "(m, p) # l = keyed s ys"
    then show ?thesis using that by (cases ys) auto
  qed
  show "mq_head (mbxcb s i) = Some m" using c by simp
  have "chain (msgs (pop_msg i m ppk s)) (mq_head (mbxcb (pop_msg i m ppk s) i)) xs" using c by (simp add: pop_msg_def Let_def)
  from mq_chain [OF this] show "mq (pop_msg i m ppk s) i = Some l" by (simp add: x) (simp add: pop_msg_def Let_def)
  show "mbx_msgs_ok (mbxcb (pop_msg i m ppk s) i) l" using w by (auto simp: mbx_msgs_ok_def pop_msg_def Let_def split: if_splits)
  show "mq_frame i {} (s\<lparr>umem := (umem s)(ppk := m)\<rparr>) (pop_msg i m ppk s)"
    unfolding pop_msg_def Let_def by (rule mq_frame_head)
qed

lemma tk_rcv_mbx_inv:
  assumes k: "kinv s" and ok: "mbxs_ok s" and c: "ctx_ready prid s" and r: "tk_rcv_mbx prid mid ppk tmout s = Some (e, s')"
  shows "kinv s' \<and> mbxs_ok s'"
  using r [unfolded tk_rcv_mbx_def]
proof (cases rule: obj_call_cases)
  case 1
  then show ?thesis using k ok by simp
next
  case (2 x)
  then show ?thesis using mbxs_ok_end [OF _ k ok] by (simp add: leave_critical_def)
next
  case 3
  define i where "i = INDEX_OBJ mid"
  have ix: "i < maxid (mbxtab s)" using mbx_index [OF 3(1)] by (simp add: i_def)
  have live: "mbxid (mbxcb s i) \<noteq> 0" using 3(2) by (simp add: mbx_ops_def i_def)
  obtain l where l: "mq s i = Some l" "mbx_msgs_ok (mbxcb s i) l" "ques s (QMbx i) \<noteq> [] \<Longrightarrow> l = []" "msgs_of s i = fst ` set l"
    by (rule mbxs_ok_mq [OF ok ix live]) (rule that; assumption)
  note b = 3(3) [folded i_def]
  obtain t where t: "ctxtsk s prid = Some t" using b by (auto split: Option.bind_splits)
  have tr: "t \<in> set (rdy s)" using c t by (simp add: ctx_ready_def)
  show ?thesis
  proof (cases "is_diswai (mbx_gcb s i) (tcbs s t) TTW_MBX")
    case True
    then show ?thesis using b t mbxs_ok_end [OF _ k ok] by simp
  next
    case nd: False
    show ?thesis
    proof (cases l)
      case Nil
      then have "mq_head (mbxcb s i) = None" using mq_head_None [OF l(1)] by simp
      then have wo: "wait_on prid (mbx_gcb s i) (if mbxatr (mbxcb s i) AND TA_TPRI \<noteq> 0 then Wspec_mbx_tpri else Wspec_mbx_tfifo)
                 (Winfo_mbx ppk) tmout s = Some (e, s')" using b t nd by simp
      have tab: "mbx_tab.table_ok s" using ok by (simp add: mbxs_ok_def)
      have "kinv s' \<and> mbx_tab.table_ok s'"
      proof (rule mbx_tab.wait_on_table_ok [OF k tab t tr _ wo])
        show "mbxid (fst (mbx_view s i)) \<noteq> 0" using live by (simp add: mbx_view_def)
        let ?w = "(t, Winfo_mbx ppk, objid (mbx_gcb s i), if mbxatr (mbxcb s i) AND TA_TPRI \<noteq> 0 then Wspec_mbx_tpri else Wspec_mbx_tfifo, pri s t)"
        fix u
        assume o: "objs_same s u" and "waiters u (wait_queue (mbx_gcb s i)) =
            join_queue (objatr (mbx_gcb s i)) ?w (waiters s (wait_queue (mbx_gcb s i)))"
        then have ws: "waiters u (QMbx i) = join_queue (mbxatr (mbxcb s i)) ?w (waiters s (QMbx i))" by (simp add: mbx_gcb_def)
        have cb: "mbxcb u = mbxcb s" "mq u i = mq s i" using o by (auto simp: objs_same_def mbxcb_def intro!: mq_cong ext)
        have w: "mbx_wf i (mbxcb s i, waiters s (QMbx i), mq s i)" using mbxs_okD [OF ok ix] .
        have "mbx_waiter (mbxcb s i) ?w" by (simp add: mbx_waiter_def mbx_gcb_def)
        moreover have "sorted (map waiter_pri (join_queue (mbxatr (mbxcb s i)) ?w (waiters s (QMbx i))))" if "mbxatr (mbxcb s i) AND TA_TPRI \<noteq> 0"
          by (rule sorted_join [OF that]) (use w live that in simp)
        ultimately show "mbx_wf i (mbx_view u i)"
          using w live l(1,2) Nil by (simp add: mbx_view_def cb ws set_join)
      qed (simp_all add: mbx_gcb_def)
      moreover have "msgs_apart s'"
      proof -
        have "objs_same s s'"
          using k t tr _ wo by (rule wait_on_cases) (simp_all add: mbx_gcb_def)
        then have "msgs_of s' j = msgs_of s j" "maxid (mbxtab s') = maxid (mbxtab s)" for j
          by (simp_all add: msgs_of_def objs_same_def mbxcb_def mq_def)
        then show ?thesis using ok by (simp add: mbxs_ok_def msgs_apart_def)
      qed
      ultimately show ?thesis by (simp add: mbxs_ok_def)
    next
      case (Cons mp l')
      obtain m p where mp: "mp = (m, p)" by (cases mp)
      have lm: "mq s i = Some ((m, p) # l')" using l(1) Cons mp by simp
      note po = pop_msg_ok(1-3) [OF lm l(2) [unfolded Cons mp], where ppk = ppk] pop_msg_ok(4) [OF lm l(2) [unfolded Cons mp]]
      define s0 where "s0 = s\<lparr>umem := (umem s)(ppk := m)\<rparr>"
      have ok0: "mbxs_ok s0" using mbxs_ok_foreign [of s0 s "{}"] ok by (simp add: s0_def touches_same)
      have s0: "mbxcb s0 = mbxcb s" "msgs_of s0 j = msgs_of s j" "ques s0 = ques s" "mbxtab s0 = mbxtab s" "kinv s0" for j
        using k by (simp_all add: s0_def msgs_of_def mq_def)
      have lt: "mbxid (mbxcb s0 i) \<noteq> 0" "i < maxid (mbxtab s0)" using live ix by (simp_all add: s0)
      have ok1: "mbxs_ok (pop_msg i m ppk s)"
        by (rule mq_frame_mbxs_ok [OF ok0 po(3)[folded s0_def] lt po(1,2), where M = "{}"])
          (use l Cons mp in \<open>auto simp: s0\<close>)
      have "end_critical E_OK (pop_msg i m ppk s) = Some (e, s')"
        using b t nd po(4) by (simp add: pop_msg_def Let_def)
      then show ?thesis
        by (rule mbxs_ok_end [OF _ _ ok1]) (use mq_frame_state [OF po(3)[folded s0_def]] s0(5) in simp)
    qed
  qed
qed

text \<open>The hook of a \<open>TA_TPRI\<close> mailbox.\<close>

lemma mbx_chg_pri_ok:
  assumes k: "kinv s0" and ok: "mbxs_ok s0" and i: "i < maxid (mbxtab s0)" and t: "t \<in> set (ques s0 (QMbx i))" and p: "p < NUM_PRI"
    and a: "mbxatr (mbxcb s0 i) AND TA_TPRI \<noteq> 0"
  defines "s \<equiv> upd_tcb t (\<lambda>c. c\<lparr>priority := p\<rparr>) s0"
  shows "kinv (mbx_chg_pri t old s)" and "mbxs_ok (mbx_chg_pri t old s)"
proof -
  note w = mbxs_okD [OF ok i]
  have tab: "mbx_tab.table_ok s0" using ok by (simp add: mbxs_ok_def)
  have live: "mbxid (mbxcb s0 i) \<noteq> 0" using w t by auto
  have wt: "mbx_waiter (mbxcb s0 i) (t, wview (tcbs s0 t))" using w live t by (auto simp: waiters_def)
  have ix: "INDEX_OBJ (wid (tcbs s t)) = i" using wt w live by (simp add: mbx_waiter_def wview_def s_def)
  have g: "mbx_gcb s i = mbx_gcb s0 i" by (simp add: mbx_gcb_def s_def mbxcb_def)
  have "kinv (mbx_chg_pri t old s) \<and> mbx_tab.table_ok (mbx_chg_pri t old s)"
    unfolding mbx_chg_pri_def ix g unfolding s_def
  proof (rule mbx_tab.chg_pri_table_ok [OF k tab, where i = i and atr = "mbxatr (mbxcb s0 i)"])
    fix u
    let ?w = "(t, wview ((tcbs s0 t)\<lparr>priority := p\<rparr>))" and ?ws = "filter (\<lambda>w. fst w \<noteq> t) (waiters s0 (QMbx i))"
    assume o: "objs_same s0 u" and u: "waiters u (wait_queue (mbx_gcb s0 i)) =
        join_queue (mbxatr (mbxcb s0 i)) ?w (filter (\<lambda>w. fst w \<noteq> t) (waiters s0 (wait_queue (mbx_gcb s0 i))))"
    have fu: "mbx_view u i = (mbxcb s0 i, join_queue (mbxatr (mbxcb s0 i)) ?w ?ws, mq s0 i)"
      using u o live by (simp add: mbx_view_def mbx_gcb_def mbxcb_def objs_same_def mq_def)
    have "sorted (map waiter_pri (join_queue (mbxatr (mbxcb s0 i)) ?w ?ws))"
      by (rule sorted_join [OF a sorted_map_filter]) (use w live a in simp)
    moreover have "mbx_waiter (mbxcb s0 i) ?w" using wt by (simp add: mbx_waiter_def wview_def)
    moreover have "waiters s0 (QMbx i) \<noteq> []" using t by auto
    ultimately show "mbx_wf i (mbx_view u i)"
      unfolding fu using w live by (auto simp: set_join)
  qed (use t p a live in \<open>simp_all add: mbx_gcb_def mbx_view_def\<close>)
  moreover have "msgs_of (mbx_chg_pri t old s) j = msgs_of s0 j" "mbxtab (mbx_chg_pri t old s) = mbxtab s0" for j
    by (simp_all add: mbx_chg_pri_def gcb_change_priority_def queue_insert_tpri_def set_que_def QueRemove_tsk_def s_def
        msgs_of_def mbxcb_def mq_def)
  ultimately show "kinv (mbx_chg_pri t old s)" "mbxs_ok (mbx_chg_pri t old s)"
    using ok by (simp_all add: mbxs_ok_def msgs_apart_def)
qed

section \<open>The priority-ordered mailbox as a queue\<close>

definition mq_list :: "kstate \<Rightarrow> nat \<Rightarrow> UW list" where
  "mq_list s i = (case mq s i of None \<Rightarrow> [] | Some l \<Rightarrow> map fst l)"

definition mpri_enq :: "nat \<Rightarrow> UW \<Rightarrow> kstate \<Rightarrow> kstate" where
  "mpri_enq i m s = (case queue_insert_mpri m i s of None \<Rightarrow> s | Some s' \<Rightarrow> s')"

interpretation mpriq: stable_queue "\<lambda>s x. msgpri (msgs s x)" "\<lambda>s. mq_list s i" "mpri_enq i"
    "\<lambda>s m. mq s i \<noteq> None \<and> m \<notin> set (mq_list s i)" for i
proof unfold_locales
  fix s :: kstate and m
  show "(\<lambda>x. msgpri (msgs (mpri_enq i m s) x)) = (\<lambda>x. msgpri (msgs s x))"
    by (auto simp: mpri_enq_def queue_insert_mpri_def nextmsg_set_def Let_def fun_eq_iff split: option.splits Option.bind_splits)
  assume "mq s i \<noteq> None \<and> m \<notin> set (mq_list s i)"
  then obtain l where l: "mq s i = Some l" "m \<notin> set (map fst l)" by (auto simp: mq_list_def)
  obtain xs where c: "chain (msgs s) (mq_head (mbxcb s i)) xs" and x: "l = keyed s xs" "map fst l = xs"
    using l(1) by (rule mq_cases)
  from queue_insert_mpri_ok [OF c] l(2) x(2) obtain s' where
    s': "queue_insert_mpri m i s = Some s'" "chain (msgs s') (mq_head (mbxcb s' i)) (insert_before (\<lambda>x. msgpri (msgs s x) > msgpri (msgs s m)) m xs)"
    by blast
  have "mq_list s' i = insert_before (\<lambda>x. msgpri (msgs s x) > msgpri (msgs s m)) m xs"
    by (simp add: mq_list_def mq_chain [OF s'(2)] comp_def)
  then show "mq_list (mpri_enq i m s) i = insert_before (\<lambda>x. msgpri (msgs s m) < msgpri (msgs s x)) m (mq_list s i)"
    by (simp add: mpri_enq_def s'(1) mq_list_def [of s] l(1) x(2))
qed

end
