(* ===== verification/Mempfix.thy ===== *)
theory Mempfix
  imports Object_Base
begin

text \<open>
  Memory pools of blocks of one size, \<^verbatim>\<open>mempfix.c\<close>. The free blocks are linked through their first word,
  which is in \<open>umem\<close>; a block that has never been handed out is above \<open>unused\<close>. The memory allocator
  is not part of the kernel source: its result is the argument \<open>mem\<close> of the creation, \<open>None\<close> for \<open>NULL\<close>.
\<close>

section \<open>Control blocks\<close>

definition TA_NORESIDENT :: ATR where "TA_NORESIDENT = 0x00000010"

definition mpfcb :: "kstate \<Rightarrow> nat \<Rightarrow> MPFCB" where
  "mpfcb s i = cbs (mpftab (ko s)) i"

definition set_mpftab :: "MPFCB objtab \<Rightarrow> kstate \<Rightarrow> kstate" where
  "set_mpftab m s = s\<lparr>ko := (ko s)\<lparr>mpftab := m\<rparr>\<rparr>"

definition upd_mpf :: "nat \<Rightarrow> (MPFCB \<Rightarrow> MPFCB) \<Rightarrow> kstate \<Rightarrow> kstate" where
  "upd_mpf i f s = set_mpftab ((mpftab (ko s))\<lparr>cbs := (cbs (mpftab (ko s)))(i := f (cbs (mpftab (ko s)) i))\<rparr>) s"

definition set_free_mpf :: "nat list \<Rightarrow> kstate \<Rightarrow> kstate" where
  "set_free_mpf q s = set_mpftab ((mpftab (ko s))\<lparr>freeq := q\<rparr>) s"

definition mpf_gcb :: "kstate \<Rightarrow> nat \<Rightarrow> GCB" where
  "mpf_gcb s i = \<lparr>wait_queue = QMpf i, objid = mpfid (mpfcb s i), objatr = mpfatr (mpfcb s i)\<rparr>"

definition mpf_ops :: objops where
  "mpf_ops = \<lparr>oo_type = OT_MPF, oo_dispatch = False, oo_max = \<lambda>s. maxid (mpftab (ko s)), oo_id = \<lambda>s i. mpfid (mpfcb s i),
     oo_atr = \<lambda>s i. mpfatr (mpfcb s i), oo_name = \<lambda>s i. mpf_oname (mpfcb s i),
     oo_set_name = \<lambda>i nm. upd_mpf i (\<lambda>c. c\<lparr>mpf_oname := nm\<rparr>), oo_free = \<lambda>s. freeq (mpftab (ko s)),
     oo_set_free = set_free_mpf, oo_set_id = \<lambda>i x. upd_mpf i (\<lambda>c. c\<lparr>mpfid := x\<rparr>)\<rparr>"

text \<open>A block size is rounded up to a multiple of the size of a link.\<close>

definition MINSZ :: "int \<Rightarrow> int" where
  "MINSZ sz = sint ((word_of_int sz + 3 :: UW) AND NOT 3)"

definition mempool_end :: "MPFCB \<Rightarrow> UW" where
  "mempool_end c = mempool c + word_of_int (mpfsz c)"

section \<open>Operations\<close>

definition fix_memorypool_initialize :: "int option \<Rightarrow> bool \<Rightarrow> kstate \<Rightarrow> ER \<times> kstate" where
  "fix_memorypool_initialize max_mpfid mem s =
    (case max_mpfid of
       None \<Rightarrow> (E_SYS, s)
     | Some m \<Rightarrow>
         let s = set_mpftab ((mpftab (ko s))\<lparr>maxid := nat m\<rparr>) s in
         if m < 1 then (E_SYS, s)
         else if \<not> mem then (E_NOMEM, s)
         else (E_OK, set_mpftab ((mpftab (ko s))\<lparr>cbs := (\<lambda>i. if i < nat m then (mpfcb s i)\<lparr>mpfid := 0\<rparr> else mpfcb s i),
                 freeq := [0..<nat m]\<rparr>) s))"

definition mpf_chg_pri :: "nat \<Rightarrow> int \<Rightarrow> kstate \<Rightarrow> kstate" where
  "mpf_chg_pri t oldpri s = gcb_change_priority (mpf_gcb s (INDEX_OBJ (wid (tcbs s t)))) t s"

record T_CMPF =
  cmpf_exinf :: UW
  cmpf_mpfatr :: ATR
  cmpf_mpfcnt :: int
  cmpf_blfsz :: int
  cmpf_domid :: ID
  cmpf_oname :: "UB list"

definition VALID_MPFATR :: ATR where
  "VALID_MPFATR = TA_TPRI OR TA_RNG3 OR TA_NORESIDENT OR TA_NODISWAI OR TA_DOMID OR TA_ONAME OR TA_PRIVATE OR TA_PROTECTED OR TA_PUBLIC"

text \<open>The size of the pool is a product of \<open>INT\<close>s, which wraps around.\<close>

definition mpf_init :: "T_CMPF \<Rightarrow> UW \<Rightarrow> ID \<Rightarrow> MPFCB \<Rightarrow> MPFCB" where
  "mpf_init pk a oid c = c\<lparr>mpf_exinf := cmpf_exinf pk, mpfatr := cmpf_mpfatr pk, mpfcnt := cmpf_mpfcnt pk, frbcnt := cmpf_mpfcnt pk,
     blfsz := MINSZ (cmpf_blfsz pk), mpfsz := sint (word_of_int (MINSZ (cmpf_blfsz pk) * cmpf_mpfcnt pk) :: UW),
     unused := a, mempool := a, freelist := 0, mpfid := oid\<rparr>"

definition tk_cre_mpf :: "nat \<Rightarrow> UW option \<Rightarrow> T_CMPF \<Rightarrow> kstate \<Rightarrow> (ER \<times> kstate) option" where
  "tk_cre_mpf prid mem pk s =
    (case guards ([CHECK_RSATR (cmpf_mpfatr pk) VALID_MPFATR, CHECK_PAR (cmpf_mpfcnt pk > 0), CHECK_PAR (cmpf_blfsz pk > 0),
         CHECK_DISPATCH prid s, CHECK_PATR (cmpf_mpfatr pk)] @
         (if cmpf_mpfatr pk AND TA_DOMID \<noteq> 0 then [CHECK_DOMID s (cmpf_domid pk)] else [])) of
       Some e \<Rightarrow> Some (e, s)
     | None \<Rightarrow>
         (case mem of
            None \<Rightarrow> Some (E_NOMEM, s)
          | Some a \<Rightarrow>
              obj_cre [CHECK_PAR (cmpf_mpfcnt pk > 0)] prid mpf_ops (cmpf_mpfatr pk) (cmpf_domid pk) (cmpf_oname pk)
                (\<lambda>i oid s. upd_mpf i (mpf_init pk a oid) (set_que (QMpf i) [] s)) s))"

definition tk_del_mpf :: "nat \<Rightarrow> ID \<Rightarrow> kstate \<Rightarrow> (ER \<times> kstate) option" where
  "tk_del_mpf prid mid s =
    obj_call True [CHECK_MPFID s mid, CHECK_DISPATCH prid s] prid mpf_ops mid
      (\<lambda>i s. do { s \<leftarrow> wait_delete (QMpf i) s; end_critical E_OK (obj_unlink mpf_ops mid i s) }) s"

text \<open>A block is taken from the list of free blocks or from the unused part.\<close>

definition take_blf :: "nat \<Rightarrow> UW \<Rightarrow> kstate \<Rightarrow> kstate" where
  "take_blf i p_blf s =
    (let c = mpfcb s i
     in if freelist c \<noteq> 0 then
          (let next = umem s (freelist c);
               s = upd_mpf i (\<lambda>c. c\<lparr>freelist := next\<rparr>) s;
               s = s\<lparr>umem := (umem s)(p_blf := freelist c)\<rparr>
           in upd_mpf i (\<lambda>c. c\<lparr>frbcnt := frbcnt c - 1\<rparr>) s)
        else
          (let s = s\<lparr>umem := (umem s)(p_blf := unused c)\<rparr>;
               s = upd_mpf i (\<lambda>c. c\<lparr>unused := unused c + word_of_int (blfsz c)\<rparr>) s
           in upd_mpf i (\<lambda>c. c\<lparr>frbcnt := frbcnt c - 1\<rparr>) s))"

definition tk_get_mpf :: "nat \<Rightarrow> ID \<Rightarrow> UW \<Rightarrow> TMO \<Rightarrow> kstate \<Rightarrow> (ER \<times> kstate) option" where
  "tk_get_mpf prid mid p_blf tmout s =
    obj_call True [CHECK_MPFID s mid, CHECK_TMOUT tmout, CHECK_DISPATCH prid s] prid mpf_ops mid
      (\<lambda>i s. do {
         t \<leftarrow> ctxtsk s prid;
         if is_diswai (mpf_gcb s i) (tcbs s t) TTW_MPF then end_critical E_DISWAI s
         else if frbcnt (mpfcb s i) \<le> 0 then
           wait_on prid (mpf_gcb s i) (if mpfatr (mpfcb s i) AND TA_TPRI \<noteq> 0 then Wspec_mpf_tpri else Wspec_mpf_tfifo)
             (Winfo_mpf p_blf) tmout s
         else end_critical E_OK (take_blf i p_blf s)
       }) s"

definition give_blf :: "nat \<Rightarrow> UW \<Rightarrow> kstate \<Rightarrow> kstate" where
  "give_blf i blf s =
    (let s = s\<lparr>umem := (umem s)(blf := freelist (mpfcb s i))\<rparr>
     in upd_mpf i (\<lambda>c. c\<lparr>freelist := blf, frbcnt := frbcnt c + 1\<rparr>) s)"

definition blf_valid :: "MPFCB \<Rightarrow> UW \<Rightarrow> bool" where
  "blf_valid c blf \<longleftrightarrow> \<not> (blf < mempool c \<or> blf \<ge> mempool_end c \<or> (uint blf - uint (mempool c)) mod blfsz c \<noteq> 0)"

definition tk_rel_mpf :: "nat \<Rightarrow> ID \<Rightarrow> UW \<Rightarrow> kstate \<Rightarrow> (ER \<times> kstate) option" where
  "tk_rel_mpf prid mid blf s =
    obj_call True [CHECK_MPFID s mid, CHECK_DISPATCH prid s] prid mpf_ops mid
      (\<lambda>i s. if \<not> blf_valid (mpfcb s i) blf then end_critical E_PAR s
             else (case ques s (QMpf i) of
                 t # _ \<Rightarrow> end_critical E_OK (wait_release_ok t (s\<lparr>umem := (umem s)(mpf_p_blf (winfo (tcbs s t)) := blf)\<rparr>))
               | [] \<Rightarrow> end_critical E_OK (give_blf i blf s))) s"

record T_RMPF =
  rmpf_exinf :: UW
  rmpf_wtsk :: ID
  rmpf_frbcnt :: int

definition mpf_ref :: "kstate \<Rightarrow> nat \<Rightarrow> T_RMPF" where
  "mpf_ref s i = \<lparr>rmpf_exinf = mpf_exinf (mpfcb s i), rmpf_wtsk = wait_tskid (QMpf i) s, rmpf_frbcnt = frbcnt (mpfcb s i)\<rparr>"

definition tk_ref_mpf :: "nat \<Rightarrow> ID \<Rightarrow> kstate \<Rightarrow> (ER \<times> T_RMPF option) option" where
  "tk_ref_mpf prid mid s = obj_ref [CHECK_MPFID s mid, CHECK_DISPATCH prid s] prid mpf_ops mid (mpf_ref s) s"

definition td_ref_mpf :: "ID \<Rightarrow> kstate \<Rightarrow> ER \<times> T_RMPF option" where
  "td_ref_mpf mid s = obj_td_ref [CHECK_MPFID s mid] mpf_ops mid (mpf_ref s) s"

definition td_mpf_que :: "ID \<Rightarrow> int \<Rightarrow> kstate \<Rightarrow> ER \<times> ID list" where
  "td_mpf_que mid nent s = obj_td_que [CHECK_MPFID s mid] mpf_ops QMpf mid nent s"

definition tk_fnd_mpf :: "nat \<Rightarrow> ID \<Rightarrow> UB list \<Rightarrow> kstate \<Rightarrow> (ER \<times> kstate) option" where
  "tk_fnd_mpf prid = obj_fnd prid mpf_ops"

definition tk_dmi_mpf :: "nat \<Rightarrow> ID \<Rightarrow> kstate \<Rightarrow> ((ER \<times> T_DMI option) \<times> kstate) option" where
  "tk_dmi_mpf prid = obj_dmi prid mpf_ops"

definition fix_memorypool_getname :: "ID \<Rightarrow> kstate \<Rightarrow> ER \<times> UB list option" where
  "fix_memorypool_getname = obj_getname mpf_ops"

definition fix_memorypool_setname :: "ID \<Rightarrow> UB list \<Rightarrow> kstate \<Rightarrow> ER \<times> kstate" where
  "fix_memorypool_setname = obj_setname mpf_ops"

definition td_lst_mpf :: "int \<Rightarrow> kstate \<Rightarrow> int \<times> ID list" where
  "td_lst_mpf = obj_lst mpf_ops"

definition td_fnd_mpf :: "ID \<Rightarrow> UB list \<Rightarrow> kstate \<Rightarrow> ER" where
  "td_fnd_mpf = obj_td_fnd mpf_ops"

definition td_dmi_mpf :: "ID \<Rightarrow> kstate \<Rightarrow> ER \<times> T_DMI option" where
  "td_dmi_mpf = obj_td_dmi mpf_ops"

section \<open>The invariant of the pools\<close>

lemma set_mpftab_sel [simp]:
  "tcbs (set_mpftab m s) = tcbs s" "ques (set_mpftab m s) = ques s" "kinv (set_mpftab m s) \<longleftrightarrow> kinv s" "mpftab (ko (set_mpftab m s)) = m"
  "ctxtsk (set_mpftab m s) = ctxtsk s" "rdy (set_mpftab m s) = rdy s" "waiters (set_mpftab m s) = waiters s" "umem (set_mpftab m s) = umem s"
  "num_proc (set_mpftab m s) = num_proc s" "mtxtab (set_mpftab m s) = mtxtab s" "bmem (ko (set_mpftab m s)) = bmem (ko s)"
  by (simp_all add: set_mpftab_def waiters_def fun_eq_iff rdy_def)

lemma upd_mpf_sel [simp]:
  "tcbs (upd_mpf i f s) = tcbs s" "ques (upd_mpf i f s) = ques s" "kinv (upd_mpf i f s) \<longleftrightarrow> kinv s"
  "mpfcb (upd_mpf i f s) = (mpfcb s)(i := f (mpfcb s i))" "freeq (mpftab (ko (upd_mpf i f s))) = freeq (mpftab (ko s))"
  "maxid (mpftab (ko (upd_mpf i f s))) = maxid (mpftab (ko s))" "waiters (upd_mpf i f s) = waiters s" "rdy (upd_mpf i f s) = rdy s"
  "ctxtsk (upd_mpf i f s) = ctxtsk s" "umem (upd_mpf i f s) = umem s" "bmem (ko (upd_mpf i f s)) = bmem (ko s)"
  by (simp_all add: upd_mpf_def mpfcb_def fun_eq_iff)

lemma set_free_mpf_sel [simp]:
  "tcbs (set_free_mpf f s) = tcbs s" "ques (set_free_mpf f s) = ques s" "kinv (set_free_mpf f s) \<longleftrightarrow> kinv s"
  "mpfcb (set_free_mpf f s) = mpfcb s" "freeq (mpftab (ko (set_free_mpf f s))) = f"
  "maxid (mpftab (ko (set_free_mpf f s))) = maxid (mpftab (ko s))" "waiters (set_free_mpf f s) = waiters s"
  by (simp_all add: set_free_mpf_def mpfcb_def fun_eq_iff)

definition mpf_view :: "kstate \<Rightarrow> nat \<Rightarrow> MPFCB \<times> waiter list" where
  "mpf_view s i = (mpfcb s i, waiters s (QMpf i))"

text \<open>
  Nobody waits while there are free blocks. The count of free blocks is not bounded by the number of
  blocks here: \<open>tk_rel_mpf\<close> takes a block back that is free already.
\<close>

definition mpf_waiter :: "MPFCB \<Rightarrow> waiter \<Rightarrow> bool" where
  "mpf_waiter c w \<longleftrightarrow> (case w of (t, wi, d, sp, p) \<Rightarrow>
     d = mpfid c \<and> sp = (if mpfatr c AND TA_TPRI \<noteq> 0 then Wspec_mpf_tpri else Wspec_mpf_tfifo))"

fun mpf_wf :: "nat \<Rightarrow> MPFCB \<times> waiter list \<Rightarrow> bool" where
  "mpf_wf i (c, ws) \<longleftrightarrow>
     (if mpfid c = 0 then ws = []
      else INDEX_OBJ (mpfid c) = i \<and> 0 \<le> frbcnt c \<and> (frbcnt c > 0 \<longrightarrow> ws = []) \<and>
        (mpfatr c AND TA_TPRI \<noteq> 0 \<longrightarrow> sorted (map waiter_pri ws)) \<and> (\<forall>w\<in>set ws. mpf_waiter c w))"

definition mpf_agree :: "kstate \<Rightarrow> kstate \<Rightarrow> bool" where
  "mpf_agree s s' \<longleftrightarrow> mpftab (ko s') = mpftab (ko s)"

interpretation mpf_tab: obj_table mpf_ops mpf_view "\<lambda>v. mpfid (fst v)" mpf_wf mpf_agree "\<lambda>i. {QMpf i}"
proof unfold_locales
  show "mpf_agree s s' \<Longrightarrow> touches Q s s' \<Longrightarrow> {QMpf i} \<inter> Q = {} \<Longrightarrow> mpf_view s' i = mpf_view s i" for s s' Q i
    by (simp add: mpf_agree_def mpf_view_def mpfcb_def touchesD)
qed (auto simp: mpf_agree_def objs_same_def mpf_ops_def mpf_view_def waiters_def mpf_waiter_def mpfcb_def)

abbreviation mpfs_ok :: "kstate \<Rightarrow> bool" where
  "mpfs_ok \<equiv> mpf_tab.table_ok"

lemma mpf_ops_sel [simp]:
  "oo_max mpf_ops s = maxid (mpftab (ko s))" "oo_free mpf_ops s = freeq (mpftab (ko s))" "oo_type mpf_ops = OT_MPF"
  "oo_set_id mpf_ops i x = upd_mpf i (\<lambda>c. c\<lparr>mpfid := x\<rparr>)" "oo_set_free mpf_ops = set_free_mpf"
  by (simp_all add: mpf_ops_def)

lemma mpf_index: "guards (CHECK_MPFID s mid # gs) = None \<Longrightarrow> INDEX_OBJ mid < maxid (mpftab (ko s))"
  by (auto simp: guards_None CHECK_MPFID_def intro: CHECK_OBJID_index)

lemma mpfs_okD: "mpfs_ok s \<Longrightarrow> i < maxid (mpftab (ko s)) \<Longrightarrow> mpf_wf i (mpfcb s i, waiters s (QMpf i))"
  using mpf_tab.table_okD [of s i] by (simp add: mpf_view_def)

lemma mpfs_ok_step:
  assumes "mpfs_ok s" "maxid (mpftab (ko s')) = maxid (mpftab (ko s))" "freeq (mpftab (ko s')) = freeq (mpftab (ko s))"
    "\<And>j. j \<noteq> i \<Longrightarrow> mpfcb s' j = mpfcb s j" "touches {QMpf i} s s'" "mpfid (mpfcb s i) \<noteq> 0"
    "mpf_wf i (mpfcb s' i, waiters s' (QMpf i))"
  shows "mpfs_ok s'"
  by (rule mpf_tab.table_ok_step [OF assms(1), where i = i])
    (use assms touchesD [OF assms(5)] in \<open>simp_all add: mpf_view_def\<close>)

section \<open>Every call keeps the invariant\<close>

lemma tk_cre_mpf_inv:
  assumes k: "kinv s" and ok: "mpfs_ok s" and r: "tk_cre_mpf prid mem pk s = Some (e, s')"
  shows "kinv s' \<and> mpfs_ok s'"
proof -
  consider "s' = s" | a where "obj_cre [CHECK_PAR (cmpf_mpfcnt pk > 0)] prid mpf_ops (cmpf_mpfatr pk) (cmpf_domid pk) (cmpf_oname pk)
      (\<lambda>i oid s. upd_mpf i (mpf_init pk a oid) (set_que (QMpf i) [] s)) s = Some (e, s')"
    using r by (auto simp: tk_cre_mpf_def split: option.splits)
  then show ?thesis
  proof cases
    case 1
    then show ?thesis using k ok by simp
  next
    case (2 a)
    show ?thesis
    proof (rule mpf_tab.obj_cre_ok [OF 2 k ok])
      fix i oid u
      assume u: "kinv u" "guards [CHECK_PAR (cmpf_mpfcnt pk > 0)] = None" "mpf_wf i (mpf_view u i)" "mpfid (fst (mpf_view u i)) = 0"
        "INDEX_OBJ oid = i" "oid \<noteq> 0"
      have q: "ques u (QMpf i) = []" using u(3,4) by (simp add: mpf_view_def)
      have s: "set_que (QMpf i) [] u = u" by (rule set_que_same [OF q])
      have "0 < cmpf_mpfcnt pk" using u(2) by (simp add: CHECK_PAR_def split: if_splits)
      then show "mpf_tab.step_on i u (upd_mpf i (mpf_init pk a oid) (set_que (QMpf i) [] u))"
        unfolding s using u(1,5,6) q by (simp add: mpf_tab.step_on_def mpf_view_def mpf_init_def waiters_def)
    qed
  qed
qed

lemma tk_del_mpf_inv:
  assumes "kinv s" and "mpfs_ok s" and "tk_del_mpf prid mid s = Some (e, s')"
  shows "kinv s' \<and> mpfs_ok s'"
  by (rule mpf_tab.obj_del_ok [OF assms(3)[unfolded tk_del_mpf_def] assms(1,2)])
    (use mpf_index in \<open>auto simp: mpf_view_def\<close>)

lemma mpf_wf_join:
  assumes w: "mpf_wf i (c, ws)" "mpfid c \<noteq> 0" and x: "mpf_waiter c x" and m: "frbcnt c \<le> 0"
  shows "mpf_wf i (c, join_queue (mpfatr c) x ws)"
proof -
  have "sorted (map waiter_pri (join_queue (mpfatr c) x ws))" if "mpfatr c AND TA_TPRI \<noteq> 0"
    by (rule sorted_join [OF that]) (use w that in simp)
  moreover have "\<forall>y\<in>set (join_queue (mpfatr c) x ws). mpf_waiter c y" using w x by (simp add: set_join)
  ultimately show ?thesis using w m by simp
qed

lemma mpf_same_list: "freelist c = 0 \<Longrightarrow> c\<lparr>freelist := 0, unused := u, frbcnt := n\<rparr> = c\<lparr>unused := u, frbcnt := n\<rparr>"
  by (cases c) simp

lemma take_blf_shape:
  "\<exists>m fl u. take_blf i p s = (upd_mpf i (\<lambda>c. c\<lparr>freelist := fl, unused := u, frbcnt := frbcnt c - 1\<rparr>) s)\<lparr>umem := m\<rparr>"
proof (cases "freelist (mpfcb s i) \<noteq> 0")
  case True
  show ?thesis
    by (rule exI [where x = "(umem s)(p := freelist (mpfcb s i))"], rule exI [where x = "umem s (freelist (mpfcb s i))"],
        rule exI [where x = "unused (mpfcb s i)"])
      (use True in \<open>simp add: take_blf_def Let_def upd_mpf_def set_mpftab_def mpfcb_def\<close>)
next
  case False
  show ?thesis
    by (rule exI [where x = "(umem s)(p := unused (mpfcb s i))"], rule exI [where x = "freelist (mpfcb s i)"],
        rule exI [where x = "unused (mpfcb s i) + word_of_int (blfsz (mpfcb s i))"])
      (use False in \<open>simp add: take_blf_def Let_def upd_mpf_def set_mpftab_def mpfcb_def mpf_same_list\<close>)
qed

lemma mpf_umem [simp]: "mpfcb (s\<lparr>umem := m\<rparr>) = mpfcb s" "kinv (s\<lparr>umem := m\<rparr>) \<longleftrightarrow> kinv s" "waiters (s\<lparr>umem := m\<rparr>) = waiters s"
  "mpfs_ok (s\<lparr>umem := m\<rparr>) \<longleftrightarrow> mpfs_ok s"
proof -
  show w: "mpfcb (s\<lparr>umem := m\<rparr>) = mpfcb s" "waiters (s\<lparr>umem := m\<rparr>) = waiters s" by (simp_all add: mpfcb_def waiters_def fun_eq_iff)
  show "kinv (s\<lparr>umem := m\<rparr>) \<longleftrightarrow> kinv s" by simp
  show "mpfs_ok (s\<lparr>umem := m\<rparr>) \<longleftrightarrow> mpfs_ok s" using w by (simp add: mpf_tab.table_ok_def mpf_view_def del: mpf_wf.simps)
qed

lemma take_blf_ok:
  assumes k: "kinv s" and ok: "mpfs_ok s" and i: "i < maxid (mpftab (ko s))" "mpfid (mpfcb s i) \<noteq> 0" and f: "frbcnt (mpfcb s i) > 0"
  shows "kinv (take_blf i p s)" and "mpfs_ok (take_blf i p s)"
proof -
  obtain m fl u where e: "take_blf i p s = (upd_mpf i (\<lambda>c. c\<lparr>freelist := fl, unused := u, frbcnt := frbcnt c - 1\<rparr>) s)\<lparr>umem := m\<rparr>"
    using take_blf_shape by blast
  show "kinv (take_blf i p s)" unfolding e using k by simp
  have "mpf_wf i (mpfcb s i, waiters s (QMpf i))" by (rule mpfs_okD [OF ok i(1)])
  then have w: "ques s (QMpf i) = []" "INDEX_OBJ (mpfid (mpfcb s i)) = i" using i(2) f by simp_all
  have "mpfs_ok (upd_mpf i (\<lambda>c. c\<lparr>freelist := fl, unused := u, frbcnt := frbcnt c - 1\<rparr>) s)"
    by (rule mpfs_ok_step [OF ok _ _ _ touches_same i(2)]) (use w f in \<open>simp_all add: waiters_def\<close>)
  then show "mpfs_ok (take_blf i p s)" unfolding e by simp
qed

lemma tk_get_mpf_inv:
  assumes k: "kinv s" and ok: "mpfs_ok s" and c: "ctx_ready prid s" and r: "tk_get_mpf prid mid p_blf tmout s = Some (e, s')"
  shows "kinv s' \<and> mpfs_ok s'"
proof (rule mpf_tab.obj_call_ok [OF r [unfolded tk_get_mpf_def] k ok])
  fix i
  let ?sp = "if mpfatr (mpfcb s i) AND TA_TPRI \<noteq> 0 then Wspec_mpf_tpri else Wspec_mpf_tfifo"
  assume i: "i = INDEX_OBJ mid" "guards [CHECK_MPFID s mid, CHECK_TMOUT tmout, CHECK_DISPATCH prid s] = None"
      "mpfid (fst (mpf_view s i)) \<noteq> 0"
    and b: "do {
         t \<leftarrow> ctxtsk s prid;
         if is_diswai (mpf_gcb s i) (tcbs s t) TTW_MPF then end_critical E_DISWAI s
         else if frbcnt (mpfcb s i) \<le> 0 then wait_on prid (mpf_gcb s i) ?sp (Winfo_mpf p_blf) tmout s
         else end_critical E_OK (take_blf i p_blf s)
       } = Some (e, s')"
  have ix: "i < maxid (mpftab (ko s))" using mpf_index [OF i(2)] i(1) by simp
  have live: "mpfid (mpfcb s i) \<noteq> 0" using i(3) by (simp add: mpf_view_def)
  note w = mpfs_okD [OF ok ix]
  obtain t where t: "ctxtsk s prid = Some t" using b by (auto split: Option.bind_splits)
  have tr: "t \<in> set (rdy s)" using c t by (simp add: ctx_ready_def)
  consider (dis) "is_diswai (mpf_gcb s i) (tcbs s t) TTW_MPF"
    | (take) "\<not> is_diswai (mpf_gcb s i) (tcbs s t) TTW_MPF" "frbcnt (mpfcb s i) > 0"
    | (wait) "\<not> is_diswai (mpf_gcb s i) (tcbs s t) TTW_MPF" "frbcnt (mpfcb s i) \<le> 0" by linarith
  then show "kinv s' \<and> mpfs_ok s'"
  proof cases
    case dis
    with b t have "end_critical E_DISWAI s = Some (e, s')" by simp
    from mpf_tab.table_ok_end [OF this k ok] show ?thesis .
  next
    case take
    with b t have "end_critical E_OK (take_blf i p_blf s) = Some (e, s')" by simp
    from mpf_tab.table_ok_end [OF this take_blf_ok [OF k ok ix live take(2)]] show ?thesis .
  next
    case wait
    then have wo: "wait_on prid (mpf_gcb s i) ?sp (Winfo_mpf p_blf) tmout s = Some (e, s')"
      using b t by simp
    show ?thesis
    proof (rule mpf_tab.wait_on_table_ok [OF k ok t tr _ wo i(3)])
      let ?w = "(t, Winfo_mpf p_blf, objid (mpf_gcb s i), ?sp, pri s t)"
      fix u
      assume o: "objs_same s u" and "waiters u (wait_queue (mpf_gcb s i)) =
          join_queue (objatr (mpf_gcb s i)) ?w (waiters s (wait_queue (mpf_gcb s i)))"
      then have ws: "waiters u (QMpf i) = join_queue (mpfatr (mpfcb s i)) ?w (waiters s (QMpf i))" by (simp add: mpf_gcb_def)
      have fc: "mpfcb u = mpfcb s" using o by (simp add: objs_same_def mpfcb_def fun_eq_iff)
      have x: "mpf_waiter (mpfcb s i) ?w" by (simp add: mpf_waiter_def mpf_gcb_def)
      have "mpf_wf i (mpfcb s i, join_queue (mpfatr (mpfcb s i)) ?w (waiters s (QMpf i)))"
        by (rule mpf_wf_join [OF w live x wait(2)])
      then show "mpf_wf i (mpf_view u i)" unfolding mpf_view_def ws fc .
    qed (simp_all add: mpf_gcb_def)
  qed
qed

lemma mpf_wf_filter: "mpf_wf i (c, ws) \<Longrightarrow> mpf_wf i (c, filter P ws)"
  using sorted_map_filter [of waiter_pri ws P] by (auto split: if_splits)

lemma mpf_release_ok:
  assumes k: "kinv s" and ok: "mpfs_ok s" and i: "i < maxid (mpftab (ko s))" "mpfid (mpfcb s i) \<noteq> 0" and t: "t \<in> set (ques s (QMpf i))"
  shows "kinv (wait_release_ok t s)" and "mpfs_ok (wait_release_ok t s)"
proof -
  let ?u = "wait_release_ok_ercd t E_OK s"
  have h: "wait_head (QMpf i)" by simp
  note rp = wait_release_props [OF k h t, where e = E_OK]
  have e: "wait_release_ok t s = ?u" by (simp add: wait_release_ok_def wait_release_ok_ercd_def)
  show "kinv (wait_release_ok t s)" unfolding e by (rule rp)
  note tch = touches_release [OF k h t, where e = E_OK]
  have o: "objs_same s ?u" by (rule rp)
  have tab: "mpfcb ?u = mpfcb s" "mpftab (ko ?u) = mpftab (ko s)" using o by (simp_all add: objs_same_def mpfcb_def fun_eq_iff)
  have "mpf_wf i (mpfcb ?u i, waiters ?u (QMpf i))"
    unfolding tab tch(2) by (rule mpf_wf_filter [OF mpfs_okD [OF ok i(1)]])
  then show "mpfs_ok (wait_release_ok t s)"
    unfolding e by (rule mpfs_ok_step [OF ok _ _ _ tch(1) i(2), rotated -1]) (simp_all add: tab)
qed

lemma give_blf_sel: "kinv (give_blf i b s) \<longleftrightarrow> kinv s"
    "mpfcb (give_blf i b s) = (mpfcb s)(i := (mpfcb s i)\<lparr>freelist := b, frbcnt := frbcnt (mpfcb s i) + 1\<rparr>)"
    "maxid (mpftab (ko (give_blf i b s))) = maxid (mpftab (ko s))" "freeq (mpftab (ko (give_blf i b s))) = freeq (mpftab (ko s))"
    "waiters (give_blf i b s) = waiters s" "umem (give_blf i b s) = (umem s)(b := freelist (mpfcb s i))"
    "tcbs (give_blf i b s) = tcbs s" "ques (give_blf i b s) = ques s"
  by (simp_all add: give_blf_def Let_def)

lemma tk_rel_mpf_inv:
  assumes k: "kinv s" and ok: "mpfs_ok s" and r: "tk_rel_mpf prid mid blf s = Some (e, s')"
  shows "kinv s' \<and> mpfs_ok s'"
proof (rule mpf_tab.obj_call_ok [OF r [unfolded tk_rel_mpf_def] k ok])
  fix i
  assume i: "i = INDEX_OBJ mid" "guards [CHECK_MPFID s mid, CHECK_DISPATCH prid s] = None" "mpfid (fst (mpf_view s i)) \<noteq> 0"
    and b: "(if \<not> blf_valid (mpfcb s i) blf then end_critical E_PAR s
             else (case ques s (QMpf i) of
                 t # _ \<Rightarrow> end_critical E_OK (wait_release_ok t (s\<lparr>umem := (umem s)(mpf_p_blf (winfo (tcbs s t)) := blf)\<rparr>))
               | [] \<Rightarrow> end_critical E_OK (give_blf i blf s))) = Some (e, s')"
  have ix: "i < maxid (mpftab (ko s))" using mpf_index [OF i(2)] i(1) by simp
  have live: "mpfid (mpfcb s i) \<noteq> 0" using i(3) by (simp add: mpf_view_def)
  note w = mpfs_okD [OF ok ix]
  show "kinv s' \<and> mpfs_ok s'"
  proof (cases "blf_valid (mpfcb s i) blf")
    case False
    with b have "end_critical E_PAR s = Some (e, s')" by simp
    from mpf_tab.table_ok_end [OF this k ok] show ?thesis .
  next
    case True
    show ?thesis
    proof (cases "ques s (QMpf i)")
      case (Cons t ts)
      let ?s = "s\<lparr>umem := (umem s)(mpf_p_blf (winfo (tcbs s t)) := blf)\<rparr>"
      have st: "kinv ?s" "mpfs_ok ?s" "i < maxid (mpftab (ko ?s))" "mpfid (mpfcb ?s i) \<noteq> 0" "t \<in> set (ques ?s (QMpf i))"
        using k ok ix live Cons by simp_all
      have "end_critical E_OK (wait_release_ok t ?s) = Some (e, s')" using b True Cons by simp
      from mpf_tab.table_ok_end [OF this mpf_release_ok [OF st]] show ?thesis .
    next
      case Nil
      have "mpfs_ok (give_blf i blf s)"
        by (rule mpfs_ok_step [OF ok _ _ _ touches_same live]) (use w live Nil in \<open>simp_all add: give_blf_sel waiters_def\<close>)
      moreover have "end_critical E_OK (give_blf i blf s) = Some (e, s')" using b True Nil by simp
      moreover have "kinv (give_blf i blf s)" using k by (simp add: give_blf_sel)
      ultimately show ?thesis by (intro mpf_tab.table_ok_end [where r = E_OK and s = "give_blf i blf s"])
    qed
  qed
qed

text \<open>The hook of a \<open>TA_TPRI\<close> pool.\<close>

lemma mpf_chg_pri_ok:
  assumes k: "kinv s0" and ok: "mpfs_ok s0" and i: "i < maxid (mpftab (ko s0))" and t: "t \<in> set (ques s0 (QMpf i))" and p: "p < NUM_PRI"
    and a: "mpfatr (mpfcb s0 i) AND TA_TPRI \<noteq> 0"
  defines "s \<equiv> upd_tcb t (\<lambda>c. c\<lparr>priority := p\<rparr>) s0"
  shows "kinv (mpf_chg_pri t old s)" and "mpfs_ok (mpf_chg_pri t old s)"
proof -
  note w = mpfs_okD [OF ok i]
  have live: "mpfid (mpfcb s0 i) \<noteq> 0" using w t by auto
  have wt: "mpf_waiter (mpfcb s0 i) (t, wview (tcbs s0 t))" using w live t by (auto simp: waiters_def)
  have ix: "INDEX_OBJ (wid (tcbs s t)) = i"
    using wt w live by (simp add: mpf_waiter_def wview_def s_def)
  have g: "mpf_gcb s i = mpf_gcb s0 i" by (simp add: mpf_gcb_def s_def mpfcb_def)
  have nf: "frbcnt (mpfcb s0 i) \<le> 0" using w live t by (cases "0 < frbcnt (mpfcb s0 i)") auto
  have "kinv (mpf_chg_pri t old s) \<and> mpfs_ok (mpf_chg_pri t old s)"
    unfolding mpf_chg_pri_def ix g unfolding s_def
  proof (rule mpf_tab.chg_pri_table_ok [OF k ok, where i = i and atr = "mpfatr (mpfcb s0 i)"])
    fix u
    let ?w = "(t, wview ((tcbs s0 t)\<lparr>priority := p\<rparr>))" and ?ws = "filter (\<lambda>w. fst w \<noteq> t) (waiters s0 (QMpf i))"
    assume o: "objs_same s0 u" and u: "waiters u (wait_queue (mpf_gcb s0 i)) =
        join_queue (mpfatr (mpfcb s0 i)) ?w (filter (\<lambda>w. fst w \<noteq> t) (waiters s0 (wait_queue (mpf_gcb s0 i))))"
    have fu: "mpf_view u i = (mpfcb s0 i, join_queue (mpfatr (mpfcb s0 i)) ?w ?ws)"
      using u o by (simp add: mpf_view_def mpf_gcb_def mpfcb_def objs_same_def)
    have wf: "mpf_wf i (mpfcb s0 i, ?ws)" by (rule mpf_wf_filter [OF w])
    have wx: "mpf_waiter (mpfcb s0 i) ?w" using wt by (simp add: mpf_waiter_def wview_def)
    show "mpf_wf i (mpf_view u i)" unfolding fu by (rule mpf_wf_join [OF wf live wx nf])
  qed (use t p a live in \<open>simp_all add: mpf_gcb_def mpf_view_def\<close>)
  then show "kinv (mpf_chg_pri t old s)" "mpfs_ok (mpf_chg_pri t old s)" by simp_all
qed

section \<open>The blocks of a pool\<close>

text \<open>
  Block number \<open>k\<close> of a pool. The memory that \<open>mem\<close> stands for has to hold all of them: \<open>area_ok\<close>.
\<close>

definition blf_addr :: "MPFCB \<Rightarrow> nat \<Rightarrow> UW" where
  "blf_addr c k = mempool c + of_nat k * word_of_int (blfsz c)"

definition area_ok :: "MPFCB \<Rightarrow> bool" where
  "area_ok c \<longleftrightarrow> 0 < blfsz c \<and> 0 < mpfcnt c \<and> mempool c \<noteq> 0 \<and> mpfsz c = blfsz c * mpfcnt c \<and> uint (mempool c) + mpfsz c < 2 ^ 32"

text \<open>The list of free blocks, and with it the set \<open>U\<close> of the blocks that the clients have.\<close>

fun free_chain :: "(UW \<Rightarrow> UW) \<Rightarrow> (nat \<Rightarrow> UW) \<Rightarrow> UW \<Rightarrow> nat list \<Rightarrow> bool" where
  "free_chain m B a [] \<longleftrightarrow> a = 0"
| "free_chain m B a (k # ks) \<longleftrightarrow> a = B k \<and> free_chain m B (m a) ks"

definition mpf_used :: "kstate \<Rightarrow> nat \<Rightarrow> nat set \<Rightarrow> bool" where
  "mpf_used s i U \<longleftrightarrow> (\<exists>fr u. free_chain (umem s) (blf_addr (mpfcb s i)) (freelist (mpfcb s i)) fr \<and> distinct fr \<and>
     set fr \<subseteq> {..<u} \<and> int u \<le> mpfcnt (mpfcb s i) \<and> unused (mpfcb s i) = blf_addr (mpfcb s i) u \<and>
     frbcnt (mpfcb s i) = int (length fr) + (mpfcnt (mpfcb s i) - int u) \<and> U = {..<u} - set fr)"

lemma uint_blf:
  assumes a: "area_ok c" and k: "int k < mpfcnt c"
  shows "uint (blf_addr c k) = uint (mempool c) + int k * blfsz c" and "int k * blfsz c + blfsz c \<le> mpfsz c"
proof -
  have b: "0 < blfsz c" and z: "mpfsz c = blfsz c * mpfcnt c" "uint (mempool c) + mpfsz c < 2 ^ 32" using a by (simp_all add: area_ok_def)
  have "(int k + 1) * blfsz c \<le> mpfcnt c * blfsz c" using b k by (intro mult_right_mono) simp_all
  then show le: "int k * blfsz c + blfsz c \<le> mpfsz c" by (simp add: z algebra_simps)
  have "blf_addr c k = word_of_int (uint (mempool c) + int k * blfsz c)" by (simp add: blf_addr_def)
  then have "uint (blf_addr c k) = (uint (mempool c) + int k * blfsz c) mod 2 ^ 32" by (simp only: uint_word_of_int) simp
  also have "\<dots> = uint (mempool c) + int k * blfsz c"
    using le z(2) b by (intro mod_pos_pos_trivial) simp_all
  finally show "uint (blf_addr c k) = uint (mempool c) + int k * blfsz c" .
qed

lemma blf_addr_inj: "area_ok c \<Longrightarrow> int k < mpfcnt c \<Longrightarrow> int j < mpfcnt c \<Longrightarrow> blf_addr c k = blf_addr c j \<longleftrightarrow> k = j"
proof -
  assume a: "area_ok c" and k: "int k < mpfcnt c" and j: "int j < mpfcnt c"
  have "blf_addr c k = blf_addr c j \<longleftrightarrow> int k * blfsz c = int j * blfsz c"
    using uint_blf(1) [OF a k] uint_blf(1) [OF a j] by (metis add_left_cancel word_uint_eqI)
  also have "\<dots> \<longleftrightarrow> k = j" using a by (simp add: area_ok_def)
  finally show ?thesis .
qed

lemma blf_addr_nonzero:
  assumes "area_ok c" and "int k < mpfcnt c"
  shows "blf_addr c k \<noteq> 0"
proof
  assume "blf_addr c k = 0"
  then have "uint (mempool c) + int k * blfsz c = 0" using uint_blf(1) [OF assms] by simp
  moreover have "0 \<le> int k * blfsz c" "0 < uint (mempool c)"
    using assms(1) by (simp_all add: area_ok_def uint_0_iff less_le)
  ultimately show False by simp
qed

lemma blf_valid_iff:
  assumes a: "area_ok c"
  shows "blf_valid c b \<longleftrightarrow> (\<exists>k. int k < mpfcnt c \<and> b = blf_addr c k)"
proof
  have ue: "uint (mempool_end c) = uint (mempool c) + mpfsz c"
  proof -
    have "uint (mempool_end c) = (uint (mempool c) + mpfsz c) mod 2 ^ 32"
      by (simp add: mempool_end_def uint_word_ariths uint_word_of_int mod_simps)
    moreover have "0 \<le> mpfsz c" using a by (simp add: area_ok_def)
    ultimately show ?thesis using a by (simp add: area_ok_def)
  qed
  show "\<exists>k. int k < mpfcnt c \<and> b = blf_addr c k" if v: "blf_valid c b"
  proof -
    have r: "uint (mempool c) \<le> uint b" "uint b < uint (mempool c) + mpfsz c" "(uint b - uint (mempool c)) mod blfsz c = 0"
      using v ue by (simp_all add: blf_valid_def word_less_def word_le_def not_less not_le)
    then obtain q where q: "uint b - uint (mempool c) = blfsz c * q" by auto
    have b0: "0 < blfsz c" using a by (simp add: area_ok_def)
    have "0 \<le> q" using r(1) q b0 by (metis diff_ge_0_iff_ge zero_le_mult_iff linorder_not_less)
    moreover have "blfsz c * q < mpfsz c" using r(2) q by linarith
    then have "blfsz c * q < blfsz c * mpfcnt c" using a by (simp add: area_ok_def)
    then have "q < mpfcnt c" using b0 by (simp only: mult_less_cancel_left_pos)
    ultimately have k: "int (nat q) < mpfcnt c" "int (nat q) = q" by simp_all
    have "uint b = uint (blf_addr c (nat q))" using uint_blf(1) [OF a k(1)] q k(2) by (simp add: algebra_simps)
    then show ?thesis using k(1) by (metis word_uint_eqI)
  qed
  assume "\<exists>k. int k < mpfcnt c \<and> b = blf_addr c k"
  then obtain k where k: "int k < mpfcnt c" "b = blf_addr c k" by blast
  note u = uint_blf [OF a k(1)]
  have b0: "0 < blfsz c" using a by (simp add: area_ok_def)
  define x where "x = int k * blfsz c"
  have x: "0 \<le> x" "x mod blfsz c = 0" unfolding x_def using b0 by simp_all
  note u = u [folded x_def]
  show "blf_valid c b"
    unfolding blf_valid_def k(2) word_less_def word_le_def u(1) ue using u(2) b0 x by simp
qed

lemma free_chain_upd: "(\<And>k. k \<in> set ks \<Longrightarrow> B k \<noteq> p) \<Longrightarrow> free_chain (m(p := v)) B a ks \<longleftrightarrow> free_chain m B a ks"
  by (induction ks arbitrary: a) auto

text \<open>A block that is handed out belonged to nobody; the cell \<open>p\<close> for its address is not in a free block.\<close>

lemma take_blf_used:
  assumes u: "mpf_used s i U" and a: "area_ok (mpfcb s i)" and f: "frbcnt (mpfcb s i) > 0"
    and p: "\<And>k. int k < mpfcnt (mpfcb s i) \<Longrightarrow> k \<notin> U \<Longrightarrow> blf_addr (mpfcb s i) k \<noteq> p"
  shows "\<exists>k. int k < mpfcnt (mpfcb s i) \<and> k \<notin> U \<and> umem (take_blf i p s) p = blf_addr (mpfcb s i) k \<and>
     mpf_used (take_blf i p s) i (insert k U)"
proof -
  let ?c = "mpfcb s i"
  obtain fr n where c: "free_chain (umem s) (blf_addr ?c) (freelist ?c) fr" "distinct fr" "set fr \<subseteq> {..<n}" "int n \<le> mpfcnt ?c"
    "unused ?c = blf_addr ?c n" "frbcnt ?c = int (length fr) + (mpfcnt ?c - int n)" "U = {..<n} - set fr"
    using u by (auto simp: mpf_used_def)
  have addr: "blf_addr (?c\<lparr>freelist := x, frbcnt := y\<rparr>) = blf_addr ?c" "blf_addr (?c\<lparr>unused := x, frbcnt := y\<rparr>) = blf_addr ?c" for x y
    by (simp_all add: blf_addr_def fun_eq_iff)
  have lt: "int k < mpfcnt ?c" if "k \<in> set fr" for k using c(3,4) that by (auto simp: subset_iff)
  have np: "blf_addr ?c k \<noteq> p" if "k \<in> set fr" for k using p lt that c(7) by blast
  show ?thesis
  proof (cases fr)
    case (Cons k ks)
    have fl: "freelist ?c = blf_addr ?c k" and ch: "free_chain (umem s) (blf_addr ?c) (umem s (freelist ?c)) ks" using c(1) Cons by auto
    have nz: "freelist ?c \<noteq> 0" using blf_addr_nonzero [OF a lt] Cons fl by simp
    let ?s = "take_blf i p s"
    have cb: "mpfcb ?s i = ?c\<lparr>freelist := umem s (freelist ?c), frbcnt := frbcnt ?c - 1\<rparr>" and um: "umem ?s = (umem s)(p := freelist ?c)"
      using nz by (simp_all add: take_blf_def Let_def)
    have "free_chain ((umem s)(p := freelist ?c)) (blf_addr ?c) (umem s (freelist ?c)) ks"
      using free_chain_upd [of ks "blf_addr ?c" p] np ch Cons by simp
    moreover have "insert k U = {..<n} - set ks" using c(2,3,7) Cons by auto
    ultimately have "mpf_used ?s i (insert k U)"
      unfolding mpf_used_def cb um addr using c Cons by (intro exI [where x = ks] exI [where x = n]) simp
    then show ?thesis using lt [of k] Cons c(7) fl um by auto
  next
    case Nil
    have z: "freelist ?c = 0" and n: "int n < mpfcnt ?c" using c(1,6) f Nil by simp_all
    let ?s = "take_blf i p s"
    have cb: "mpfcb ?s i = ?c\<lparr>unused := unused ?c + word_of_int (blfsz ?c), frbcnt := frbcnt ?c - 1\<rparr>" and um: "umem ?s = (umem s)(p := unused ?c)"
      using z by (simp_all add: take_blf_def Let_def)
    have "blf_addr ?c (Suc n) = unused ?c + word_of_int (blfsz ?c)" using c(5) by (simp add: blf_addr_def algebra_simps)
    moreover have "insert n U = {..<Suc n}" using c(7) Nil by auto
    ultimately have "mpf_used ?s i (insert n U)"
      unfolding mpf_used_def cb um addr using c Nil z n by (intro exI [where x = "[]"] exI [where x = "Suc n"]) simp
    then show ?thesis using n Nil c(5,7) um by auto
  qed
qed

text \<open>A block that a client had goes back.\<close>

lemma give_blf_used:
  assumes u: "mpf_used s i U" and a: "area_ok (mpfcb s i)" and k: "k \<in> U"
  shows "mpf_used (give_blf i (blf_addr (mpfcb s i) k) s) i (U - {k})"
proof -
  let ?c = "mpfcb s i" and ?s = "give_blf i (blf_addr (mpfcb s i) k) s"
  obtain fr n where c: "free_chain (umem s) (blf_addr ?c) (freelist ?c) fr" "distinct fr" "set fr \<subseteq> {..<n}" "int n \<le> mpfcnt ?c"
    "unused ?c = blf_addr ?c n" "frbcnt ?c = int (length fr) + (mpfcnt ?c - int n)" "U = {..<n} - set fr"
    using u by (auto simp: mpf_used_def)
  have lt: "int j < mpfcnt ?c" if "j \<in> insert k (set fr)" for j using c(3,4,7) k that by (auto simp: subset_iff)
  have ne: "blf_addr ?c j \<noteq> blf_addr ?c k" if "j \<in> set fr" for j
    using blf_addr_inj [OF a lt lt, of j k] that k c(7) by auto
  have cb: "mpfcb ?s i = ?c\<lparr>freelist := blf_addr ?c k, frbcnt := frbcnt ?c + 1\<rparr>" by (simp add: give_blf_sel)
  have addr: "blf_addr (?c\<lparr>freelist := x, frbcnt := y\<rparr>) = blf_addr ?c" for x y by (simp add: blf_addr_def fun_eq_iff)
  have "free_chain (umem ?s) (blf_addr ?c) (blf_addr ?c k) (k # fr)"
    using free_chain_upd [of fr "blf_addr ?c" "blf_addr ?c k"] ne c(1) by (simp add: give_blf_sel)
  then show ?thesis
    unfolding mpf_used_def cb addr using c k by (intro exI [where x = "k # fr"] exI [where x = n]) auto
qed

lemma mpf_used_count: "mpf_used s i U \<Longrightarrow> frbcnt (mpfcb s i) = mpfcnt (mpfcb s i) - int (card U)"
proof -
  assume "mpf_used s i U"
  then obtain fr n where c: "distinct fr" "set fr \<subseteq> {..<n}" "frbcnt (mpfcb s i) = int (length fr) + (mpfcnt (mpfcb s i) - int n)"
    "U = {..<n} - set fr" by (auto simp: mpf_used_def)
  have "card U = n - length fr" using c(1,2,4) by (simp add: card_Diff_subset distinct_card)
  moreover have "length fr \<le> n" using card_mono [OF _ c(2)] c(1) by (simp add: distinct_card)
  ultimately show ?thesis using c(3) by simp
qed

end
