(* ===== verification/Mempool.thy ===== *)
theory Mempool
  imports Ring_Queue Message_Base
begin

text \<open>
  Memory pools of blocks of any size, \<^verbatim>\<open>mempool.c\<close>: the allocator at the level of its pointers. Each area
  of the pool begins with a \<open>QUEUE\<close> that links it to its neighbours in the order of addresses
  (\<open>areaque\<close>); bit 0 of \<open>prev\<close> says that the area is in use. A free area has two more: one in the list of
  the sizes (\<open>freeque\<close>) or in the list of the areas of one size, and the head of such a list.
  A \<open>QUEUE\<close> is at an address divisible by 8, with \<open>next\<close> in its first word and \<open>prev\<close> in its second: the
  part of memory that the allocator reads and writes is a \<open>UW heap\<close> of theory \<open>Ring_Queue\<close>.
\<close>

section \<open>Control blocks\<close>

definition mplcb :: "kstate \<Rightarrow> nat \<Rightarrow> MPLCB" where
  "mplcb s i = cbs (mpltab (ko s)) i"

definition set_mpltab :: "MPLCB objtab \<Rightarrow> kstate \<Rightarrow> kstate" where
  "set_mpltab m s = s\<lparr>ko := (ko s)\<lparr>mpltab := m\<rparr>\<rparr>"

definition upd_mpl :: "nat \<Rightarrow> (MPLCB \<Rightarrow> MPLCB) \<Rightarrow> kstate \<Rightarrow> kstate" where
  "upd_mpl i f s = set_mpltab ((mpltab (ko s))\<lparr>cbs := (cbs (mpltab (ko s)))(i := f (cbs (mpltab (ko s)) i))\<rparr>) s"

definition set_free_mpl :: "nat list \<Rightarrow> kstate \<Rightarrow> kstate" where
  "set_free_mpl q s = set_mpltab ((mpltab (ko s))\<lparr>freeq := q\<rparr>) s"

definition mpl_gcb :: "kstate \<Rightarrow> nat \<Rightarrow> GCB" where
  "mpl_gcb s i = \<lparr>wait_queue = QMpl i, objid = mplid (mplcb s i), objatr = mplatr (mplcb s i)\<rparr>"

definition mpl_ops :: objops where
  "mpl_ops = \<lparr>oo_type = OT_MPL, oo_dispatch = False, oo_max = \<lambda>s. maxid (mpltab (ko s)), oo_id = \<lambda>s i. mplid (mplcb s i),
     oo_atr = \<lambda>s i. mplatr (mplcb s i), oo_name = \<lambda>s i. mpl_oname (mplcb s i),
     oo_set_name = \<lambda>i nm. upd_mpl i (\<lambda>c. c\<lparr>mpl_oname := nm\<rparr>), oo_free = \<lambda>s. freeq (mpltab (ko s)),
     oo_set_free = set_free_mpl, oo_set_id = \<lambda>i x. upd_mpl i (\<lambda>c. c\<lparr>mplid := x\<rparr>)\<rparr>"

section \<open>Nodes in memory\<close>

definition heap_of :: "(UW \<Rightarrow> UW) \<Rightarrow> UW heap" where
  "heap_of m = \<lparr>nxt = m, prv = \<lambda>q. m (q + 4)\<rparr>"

definition put_heap :: "UW heap \<Rightarrow> (UW \<Rightarrow> UW) \<Rightarrow> UW \<Rightarrow> UW" where
  "put_heap h m = (\<lambda>a. if a AND 7 = 0 then nxt h a else if a AND 7 = 4 then prv h (a - 4) else m a)"

definition mpl_heap :: "kstate \<Rightarrow> UW heap" where
  "mpl_heap s = heap_of (umem s)"

definition set_mpl_heap :: "UW heap \<Rightarrow> kstate \<Rightarrow> kstate" where
  "set_mpl_heap h s = s\<lparr>umem := put_heap h (umem s)\<rparr>"

section \<open>The allocator\<close>

definition QUEUESZ :: UW where "QUEUESZ = 8"
definition MIN_FRAGMENT :: UW where "MIN_FRAGMENT = 16"

definition roundSize :: "int \<Rightarrow> int" where
  "roundSize sz =
    (let sz = (if sz < uint MIN_FRAGMENT then uint MIN_FRAGMENT else sz)
     in sint ((word_of_int sz + (QUEUESZ - 1)) AND NOT (QUEUESZ - 1)))"

definition AREA_USE :: UW where "AREA_USE = 1"
definition AREA_MASK :: UW where "AREA_MASK = 1"

definition setAreaFlag :: "UW \<Rightarrow> UW \<Rightarrow> UW heap \<Rightarrow> UW heap" where
  "setAreaFlag q f h = h\<lparr>prv := (prv h)(q := prv h q OR f)\<rparr>"

definition clrAreaFlag :: "UW \<Rightarrow> UW \<Rightarrow> UW heap \<Rightarrow> UW heap" where
  "clrAreaFlag q f h = h\<lparr>prv := (prv h)(q := prv h q AND NOT f)\<rparr>"

definition chkAreaFlag :: "UW heap \<Rightarrow> UW \<Rightarrow> UW \<Rightarrow> bool" where
  "chkAreaFlag h q f \<longleftrightarrow> prv h q AND f \<noteq> 0"

definition Mask :: "UW \<Rightarrow> UW" where
  "Mask x = x AND NOT AREA_MASK"

text \<open>\<open>Assign(q->prev, y)\<close>\<close>

definition Assign_prev :: "UW \<Rightarrow> UW \<Rightarrow> UW heap \<Rightarrow> UW heap" where
  "Assign_prev q y h = h\<lparr>prv := (prv h)(q := (prv h q AND AREA_MASK) OR y)\<rparr>"

definition AreaSize :: "UW heap \<Rightarrow> UW \<Rightarrow> int" where
  "AreaSize h aq = sint (nxt h aq - (aq + QUEUESZ))"

definition FreeSize :: "UW heap \<Rightarrow> UW \<Rightarrow> int" where
  "FreeSize h fq = sint (nxt h (fq - QUEUESZ) - fq)"

definition MaxFreeSize :: "MPLCB \<Rightarrow> UW heap \<Rightarrow> int" where
  "MaxFreeSize c h = (if isQueEmpty (freeque c) h then 0 else FreeSize h (prv h (freeque c)))"

text \<open>The two searches for the smallest free area of at least \<open>blksz\<close> bytes; \<open>e\<close> is the head \<open>freeque\<close>.\<close>

partial_function (option) search_larger :: "UW heap \<Rightarrow> UW \<Rightarrow> int \<Rightarrow> int \<Rightarrow> UW \<Rightarrow> UW option" where
  "search_larger h e blksz fsz q =
    (let q = prv h q
     in if q = e then Some (if fsz \<ge> blksz then nxt h q else q)
        else let fsz = FreeSize h q
             in if fsz \<le> blksz then Some (if fsz < blksz then nxt h q else q)
                else search_larger h e blksz fsz q)"

definition searchFreeArea :: "MPLCB \<Rightarrow> int \<Rightarrow> UW heap \<Rightarrow> UW option" where
  "searchFreeArea c blksz h =
    (if blksz > mplsz c div 4 then search_larger h (freeque c) blksz 0 (freeque c)
     else que_find h (\<lambda>q. FreeSize h q \<ge> blksz) (freeque c) (nxt h (freeque c)))"

definition appendFreeArea :: "MPLCB \<Rightarrow> UW \<Rightarrow> UW heap \<Rightarrow> UW heap option" where
  "appendFreeArea c aq h = do {
     let size = AreaSize h aq;
     fq \<leftarrow> searchFreeArea c size h;
     let h = clrAreaFlag aq AREA_USE h;
     let h = (if fq \<noteq> freeque c \<and> FreeSize h fq = size then QueInsert (aq + QUEUESZ) (fq + QUEUESZ) h
              else QueInsert (aq + QUEUESZ) fq h);
     Some (QueInit (aq + 2 * QUEUESZ) h)
   }"

definition removeFreeQue :: "UW \<Rightarrow> UW heap \<Rightarrow> UW heap" where
  "removeFreeQue fq h =
    (let h = (if \<not> isQueEmpty (fq + QUEUESZ) h then
                (let nq = nxt h (fq + QUEUESZ);
                     h = QueRemove (fq + QUEUESZ) h;
                     h = QueInsert (nq + QUEUESZ) nq h;
                     h = QueRemove nq h
                 in QueInsert nq fq h)
              else h)
     in QueRemove fq h)"

definition insertAreaQue :: "UW \<Rightarrow> UW \<Rightarrow> UW heap \<Rightarrow> UW heap" where
  "insertAreaQue que ent h =
    (let h = h\<lparr>prv := (prv h)(ent := que)\<rparr>;
         h = h\<lparr>nxt := (nxt h)(ent := nxt h que)\<rparr>;
         h = Assign_prev (nxt h que) ent h
     in h\<lparr>nxt := (nxt h)(que := ent)\<rparr>)"

definition removeAreaQue :: "UW \<Rightarrow> UW heap \<Rightarrow> UW heap" where
  "removeAreaQue aq h =
    (let h = h\<lparr>nxt := (nxt h)(Mask (prv h aq) := nxt h aq)\<rparr>
     in Assign_prev (nxt h aq) (Mask (prv h aq)) h)"

text \<open>\<open>get_blk\<close> gives 0, that is \<open>NULL\<close>, when no free area is large enough.\<close>

definition get_blk :: "MPLCB \<Rightarrow> int \<Rightarrow> UW heap \<Rightarrow> (UW \<times> UW heap) option" where
  "get_blk c blksz h = do {
     q \<leftarrow> searchFreeArea c blksz h;
     if q = freeque c then Some (0, h)
     else do {
       let h = removeFreeQue q h;
       let aq = q - QUEUESZ;
       h \<leftarrow> (if (word_of_int (AreaSize h aq) - word_of_int blksz :: UW) \<ge> MIN_FRAGMENT + QUEUESZ then
              (let q = aq + QUEUESZ + word_of_int blksz
               in appendFreeArea c q (insertAreaQue aq q h))
            else Some h);
       Some (aq + QUEUESZ, setAreaFlag aq AREA_USE h)
     }
   }"

definition rel_blk :: "MPLCB \<Rightarrow> UW \<Rightarrow> UW heap \<Rightarrow> (ER \<times> UW heap) option" where
  "rel_blk c blk h =
    (let aq = blk - QUEUESZ
     in if \<not> chkAreaFlag h aq AREA_USE then Some (E_PAR, h)
        else do {
          let h = clrAreaFlag aq AREA_USE h;
          let h = (if \<not> chkAreaFlag h (nxt h aq) AREA_USE then
                     (let h = removeFreeQue (nxt h aq + QUEUESZ) h in removeAreaQue (nxt h aq) h)
                   else h);
          let (aq, h) = (if \<not> chkAreaFlag h (prv h aq) AREA_USE then
                     (let aq = prv h aq;
                          h = removeFreeQue (aq + QUEUESZ) h
                      in (aq, removeAreaQue (nxt h aq) h))
                   else (aq, h));
          h \<leftarrow> appendFreeArea c aq h;
          Some (E_OK, h)
        })"

definition init_mempool :: "MPLCB \<Rightarrow> UW \<Rightarrow> int \<Rightarrow> UW heap \<Rightarrow> UW heap option" where
  "init_mempool c mp mempsz h =
    (let h = QueInit (areaque c) h;
         h = QueInit (freeque c) h;
         tp = mp;
         ep = mp + word_of_int mempsz - QUEUESZ;
         h = insertAreaQue (areaque c) ep h;
         h = insertAreaQue (areaque c) tp h;
         h = setAreaFlag (areaque c) AREA_USE h;
         h = setAreaFlag ep AREA_USE h
     in appendFreeArea c tp h)"

section \<open>Operations\<close>

definition memorypool_initialize :: "int option \<Rightarrow> bool \<Rightarrow> kstate \<Rightarrow> ER \<times> kstate" where
  "memorypool_initialize max_mplid mem s =
    (case max_mplid of
       None \<Rightarrow> (E_SYS, s)
     | Some m \<Rightarrow>
         let s = set_mpltab ((mpltab (ko s))\<lparr>maxid := nat m\<rparr>) s in
         if m < 1 then (E_SYS, s)
         else if \<not> mem then (E_NOMEM, s)
         else (E_OK, set_mpltab ((mpltab (ko s))\<lparr>cbs := (\<lambda>i. if i < nat m then (mplcb s i)\<lparr>mplid := 0\<rparr> else mplcb s i),
                 freeq := [0..<nat m]\<rparr>) s))"

text \<open>Tasks at the head of the queue are served as long as there is a large enough free area.\<close>

partial_function (option) mpl_wakeup :: "nat \<Rightarrow> kstate \<Rightarrow> kstate option" where
  "mpl_wakeup i s =
    (case ques s (QMpl i) of
       [] \<Rightarrow> Some s
     | t # _ \<Rightarrow>
         (let blksz = mpl_blksz (winfo (tcbs s t))
          in if blksz > MaxFreeSize (mplcb s i) (mpl_heap s) then Some s
             else do {
               (blk, h) \<leftarrow> get_blk (mplcb s i) blksz (mpl_heap s);
               let s = set_mpl_heap h s;
               let s = s\<lparr>umem := (umem s)(mpl_p_blk (winfo (tcbs s t)) := blk)\<rparr>;
               mpl_wakeup i (wait_release_ok t s)
             }))"

definition mpl_chg_pri :: "nat \<Rightarrow> int \<Rightarrow> kstate \<Rightarrow> kstate option" where
  "mpl_chg_pri t oldpri s =
    (let i = INDEX_OBJ (wid (tcbs s t));
         s = (if oldpri \<ge> 0 then gcb_change_priority (mpl_gcb s i) t s else s)
     in mpl_wakeup i s)"

definition mpl_rel_wai :: "nat \<Rightarrow> kstate \<Rightarrow> kstate option" where
  "mpl_rel_wai t s = mpl_chg_pri t (-1) s"

record T_CMPL =
  cmpl_exinf :: UW
  cmpl_mplatr :: ATR
  cmpl_mplsz :: int
  cmpl_domid :: ID
  cmpl_oname :: "UB list"

definition VALID_MPLATR :: ATR where
  "VALID_MPLATR = TA_TPRI OR TA_RNG3 OR TA_NODISWAI OR TA_DOMID OR TA_ONAME OR TA_PRIVATE OR TA_PROTECTED OR TA_PUBLIC"

text \<open>
  \<open>mem\<close> is the block that \<open>IAmalloc\<close> returns, \<open>heads i\<close> the addresses of \<open>areaque\<close> and \<open>freeque\<close> in control
  block number \<open>i\<close>. The initialisation of the pool ends, so its result \<open>None\<close> does not occur.
\<close>

definition mpl_create :: "nat \<times> UW \<times> UW \<Rightarrow> T_CMPL \<Rightarrow> UW \<Rightarrow> ID \<Rightarrow> kstate \<Rightarrow> kstate" where
  "mpl_create ih pk a oid s =
    (case ih of (i, aq, fq) \<Rightarrow>
      (let sz = roundSize (cmpl_mplsz pk);
           s = set_que (QMpl i) [] s;
           s = upd_mpl i (\<lambda>c. c\<lparr>mplid := oid, mpl_exinf := cmpl_exinf pk, mplatr := cmpl_mplatr pk, mplsz := sz,
                 areaque := aq, freeque := fq\<rparr>) s
       in case init_mempool (mplcb s i) a (sz + 2 * uint QUEUESZ) (mpl_heap s) of Some h \<Rightarrow> set_mpl_heap h s | None \<Rightarrow> s))"

definition tk_cre_mpl :: "nat \<Rightarrow> UW option \<Rightarrow> (nat \<Rightarrow> UW \<times> UW) \<Rightarrow> T_CMPL \<Rightarrow> kstate \<Rightarrow> (ER \<times> kstate) option" where
  "tk_cre_mpl prid mem heads pk s =
    (case guards ([CHECK_RSATR (cmpl_mplatr pk) VALID_MPLATR, CHECK_PAR (cmpl_mplsz pk > 0), CHECK_DISPATCH prid s,
         CHECK_PATR (cmpl_mplatr pk)] @ (if cmpl_mplatr pk AND TA_DOMID \<noteq> 0 then [CHECK_DOMID s (cmpl_domid pk)] else [])) of
       Some e \<Rightarrow> Some (e, s)
     | None \<Rightarrow>
         (case mem of
            None \<Rightarrow> Some (E_NOMEM, s)
          | Some a \<Rightarrow>
              obj_cre [CHECK_PAR (cmpl_mplsz pk > 0)] prid mpl_ops (cmpl_mplatr pk) (cmpl_domid pk) (cmpl_oname pk)
                (\<lambda>i. mpl_create (i, heads i) pk a) s))"

definition tk_del_mpl :: "nat \<Rightarrow> ID \<Rightarrow> kstate \<Rightarrow> (ER \<times> kstate) option" where
  "tk_del_mpl prid mid s =
    obj_call True [CHECK_MPLID s mid, CHECK_DISPATCH prid s] prid mpl_ops mid
      (\<lambda>i s. do { s \<leftarrow> wait_delete (QMpl i) s; end_critical E_OK (obj_unlink mpl_ops mid i s) }) s"

definition tk_get_mpl :: "nat \<Rightarrow> ID \<Rightarrow> int \<Rightarrow> UW \<Rightarrow> TMO \<Rightarrow> kstate \<Rightarrow> (ER \<times> kstate) option" where
  "tk_get_mpl prid mid blksz p_blk tmout s =
    obj_call True [CHECK_MPLID s mid, CHECK_PAR (blksz > 0), CHECK_TMOUT tmout, CHECK_DISPATCH prid s] prid mpl_ops mid
      (\<lambda>i s. let blksz = roundSize blksz
             in if blksz > mplsz (mplcb s i) then end_critical E_PAR s
                else do {
                  t \<leftarrow> ctxtsk s prid;
                  if is_diswai (mpl_gcb s i) (tcbs s t) TTW_MPL then end_critical E_DISWAI s
                  else do {
                    (blk, h) \<leftarrow> (if gcb_top_of_wait_queue (mpl_gcb s i) t s = t then get_blk (mplcb s i) blksz (mpl_heap s)
                                 else Some (0, mpl_heap s));
                    if blk \<noteq> 0 then
                      (let s = set_mpl_heap h s in end_critical E_OK (s\<lparr>umem := (umem s)(p_blk := blk)\<rparr>))
                    else wait_on prid (mpl_gcb s i) (if mplatr (mplcb s i) AND TA_TPRI \<noteq> 0 then Wspec_mpl_tpri else Wspec_mpl_tfifo)
                      (Winfo_mpl blksz p_blk) tmout s
                  }
                }) s"

definition tk_rel_mpl :: "nat \<Rightarrow> ID \<Rightarrow> UW \<Rightarrow> kstate \<Rightarrow> (ER \<times> kstate) option" where
  "tk_rel_mpl prid mid blk s =
    obj_call True [CHECK_MPLID s mid, CHECK_DISPATCH prid s] prid mpl_ops mid
      (\<lambda>i s. let h = mpl_heap s; c = mplcb s i
             in if blk < nxt h (areaque c) \<or> blk > prv h (areaque c) then end_critical E_PAR s
                else do {
                  (ercd, h) \<leftarrow> rel_blk c blk h;
                  if ercd < E_OK then end_critical ercd s
                  else do {
                    s \<leftarrow> mpl_wakeup i (set_mpl_heap h s);
                    end_critical E_OK s
                  }
                }) s"

record T_RMPL =
  rmpl_exinf :: UW
  rmpl_wtsk :: ID
  rmpl_frsz :: int
  rmpl_maxsz :: int

text \<open>The nodes from \<open>q\<close> on up to the head \<open>e\<close>.\<close>

partial_function (option) que_nodes :: "UW heap \<Rightarrow> UW \<Rightarrow> UW \<Rightarrow> UW list option" where
  "que_nodes h e q = (if q = e then Some [] else do { qs \<leftarrow> que_nodes h e (nxt h q); Some (q # qs) })"

fun free_total :: "UW heap \<Rightarrow> UW list \<Rightarrow> int option" where
  "free_total h [] = Some 0"
| "free_total h (fq # fqs) = do {
     qs \<leftarrow> que_nodes h (fq + QUEUESZ) (nxt h (fq + QUEUESZ));
     n \<leftarrow> free_total h fqs;
     Some (FreeSize h fq * (1 + int (length qs)) + n)
   }"

definition mpl_ref :: "kstate \<Rightarrow> nat \<Rightarrow> T_RMPL option" where
  "mpl_ref s i = do {
     let h = mpl_heap s;
     fqs \<leftarrow> que_nodes h (freeque (mplcb s i)) (nxt h (freeque (mplcb s i)));
     frsz \<leftarrow> free_total h fqs;
     Some \<lparr>rmpl_exinf = mpl_exinf (mplcb s i), rmpl_wtsk = wait_tskid (QMpl i) s, rmpl_frsz = frsz,
       rmpl_maxsz = MaxFreeSize (mplcb s i) h\<rparr>
   }"

definition tk_ref_mpl :: "nat \<Rightarrow> ID \<Rightarrow> kstate \<Rightarrow> (ER \<times> T_RMPL option option) option" where
  "tk_ref_mpl prid mid s = obj_ref [CHECK_MPLID s mid, CHECK_DISPATCH prid s] prid mpl_ops mid (mpl_ref s) s"

definition td_ref_mpl :: "ID \<Rightarrow> kstate \<Rightarrow> ER \<times> T_RMPL option option" where
  "td_ref_mpl mid s = obj_td_ref [CHECK_MPLID s mid] mpl_ops mid (mpl_ref s) s"

definition td_mpl_que :: "ID \<Rightarrow> int \<Rightarrow> kstate \<Rightarrow> ER \<times> ID list" where
  "td_mpl_que mid nent s = obj_td_que [CHECK_MPLID s mid] mpl_ops QMpl mid nent s"

definition tk_fnd_mpl :: "nat \<Rightarrow> ID \<Rightarrow> UB list \<Rightarrow> kstate \<Rightarrow> (ER \<times> kstate) option" where
  "tk_fnd_mpl prid = obj_fnd prid mpl_ops"

definition tk_dmi_mpl :: "nat \<Rightarrow> ID \<Rightarrow> kstate \<Rightarrow> ((ER \<times> T_DMI option) \<times> kstate) option" where
  "tk_dmi_mpl prid = obj_dmi prid mpl_ops"

definition memorypool_getname :: "ID \<Rightarrow> kstate \<Rightarrow> ER \<times> UB list option" where
  "memorypool_getname = obj_getname mpl_ops"

definition memorypool_setname :: "ID \<Rightarrow> UB list \<Rightarrow> kstate \<Rightarrow> ER \<times> kstate" where
  "memorypool_setname = obj_setname mpl_ops"

definition td_lst_mpl :: "int \<Rightarrow> kstate \<Rightarrow> int \<times> ID list" where
  "td_lst_mpl = obj_lst mpl_ops"

definition td_fnd_mpl :: "ID \<Rightarrow> UB list \<Rightarrow> kstate \<Rightarrow> ER" where
  "td_fnd_mpl = obj_td_fnd mpl_ops"

definition td_dmi_mpl :: "ID \<Rightarrow> kstate \<Rightarrow> ER \<times> T_DMI option" where
  "td_dmi_mpl = obj_td_dmi mpl_ops"

lemma set_mpltab_sel [simp]:
  "tcbs (set_mpltab m s) = tcbs s" "ques (set_mpltab m s) = ques s" "kinv (set_mpltab m s) \<longleftrightarrow> kinv s" "mpltab (ko (set_mpltab m s)) = m"
  "ctxtsk (set_mpltab m s) = ctxtsk s" "rdy (set_mpltab m s) = rdy s" "waiters (set_mpltab m s) = waiters s" "umem (set_mpltab m s) = umem s"
  "num_proc (set_mpltab m s) = num_proc s" "mtxtab (set_mpltab m s) = mtxtab s" "bmem (ko (set_mpltab m s)) = bmem (ko s)"
  by (simp_all add: set_mpltab_def waiters_def fun_eq_iff rdy_def)

lemma upd_mpl_sel [simp]:
  "tcbs (upd_mpl i f s) = tcbs s" "ques (upd_mpl i f s) = ques s" "kinv (upd_mpl i f s) \<longleftrightarrow> kinv s"
  "mplcb (upd_mpl i f s) = (mplcb s)(i := f (mplcb s i))" "freeq (mpltab (ko (upd_mpl i f s))) = freeq (mpltab (ko s))"
  "maxid (mpltab (ko (upd_mpl i f s))) = maxid (mpltab (ko s))" "waiters (upd_mpl i f s) = waiters s" "rdy (upd_mpl i f s) = rdy s"
  "ctxtsk (upd_mpl i f s) = ctxtsk s" "umem (upd_mpl i f s) = umem s" "bmem (ko (upd_mpl i f s)) = bmem (ko s)"
  by (simp_all add: upd_mpl_def mplcb_def fun_eq_iff)

lemma set_free_mpl_sel [simp]:
  "tcbs (set_free_mpl f s) = tcbs s" "ques (set_free_mpl f s) = ques s" "kinv (set_free_mpl f s) \<longleftrightarrow> kinv s"
  "mplcb (set_free_mpl f s) = mplcb s" "freeq (mpltab (ko (set_free_mpl f s))) = f"
  "maxid (mpltab (ko (set_free_mpl f s))) = maxid (mpltab (ko s))" "waiters (set_free_mpl f s) = waiters s"
  by (simp_all add: set_free_mpl_def mplcb_def fun_eq_iff)

end
