(* ===== verification/Ring_Buffer.thy ===== *)
theory Ring_Buffer
  imports Message_Base
begin

text \<open>
  The storage of a message buffer, \<^verbatim>\<open>messagebuf.c\<close>: messages, each behind a header with its size, in a
  ring of bytes. \<open>msg_to_mbf\<close> and \<open>mbf_to_msg\<close> are the code's functions on the control block and the
  memory of the clients; \<open>None\<close> is an access outside of the buffer. The refinement \<open>mbf_holds c ms\<close>
  says that the ring holds the list of messages \<open>ms\<close>: the two functions are the operations of a queue.
\<close>

section \<open>The code\<close>

text \<open>A header is an \<open>INT\<close> in the byte order of the processor, which is little endian.\<close>

definition header_bytes :: "int \<Rightarrow> UB list" where
  "header_bytes n = (let w = word_of_int n :: UW in [ucast w, ucast (drop_bit 8 w), ucast (drop_bit 16 w), ucast (drop_bit 24 w)])"

fun bytes_header :: "UB list \<Rightarrow> int" where
  "bytes_header [a, b, c, d] =
     sint ((ucast a :: UW) OR push_bit 8 (ucast b) OR push_bit 16 (ucast c) OR push_bit 24 (ucast d))"
| "bytes_header _ = 0"

definition HEADERSZ :: int where "HEADERSZ = 4"

definition ROUNDSZ :: "int \<Rightarrow> UW" where
  "ROUNDSZ sz = (word_of_int sz + 3) AND NOT 3"

text \<open>The code's \<open>(INT)(HEADERSZ + ROUNDSZ(msgsz))\<close> and its conversion of a size for \<open>memcpy\<close>.\<close>

definition stored_size :: "int \<Rightarrow> int" where
  "stored_size msgsz = sint (word_of_int HEADERSZ + ROUNDSZ msgsz)"

definition usize :: "int \<Rightarrow> nat" where
  "usize n = unat (word_of_int n :: UW)"

text \<open>The comparison is one of \<open>UINT\<close>s.\<close>

definition mbf_free :: "MBFCB \<Rightarrow> int \<Rightarrow> bool" where
  "mbf_free c msgsz \<longleftrightarrow> (word_of_int HEADERSZ + word_of_int msgsz :: UW) \<le> word_of_int (frbufsz c)"

definition mbf_empty :: "MBFCB \<Rightarrow> bool" where
  "mbf_empty c \<longleftrightarrow> frbufsz c = bufsz c"

definition peek :: "UB list \<Rightarrow> int \<Rightarrow> nat \<Rightarrow> UB list option" where
  "peek b k n = (if 0 \<le> k \<and> nat k + n \<le> length b then Some (take n (drop (nat k) b)) else None)"

definition poke :: "UB list \<Rightarrow> int \<Rightarrow> UB list \<Rightarrow> UB list option" where
  "poke b k xs = (if 0 \<le> k \<and> nat k + length xs \<le> length b then Some (take (nat k) b @ xs @ drop (nat k + length xs) b) else None)"

definition wrap :: "MBFCB \<Rightarrow> int \<Rightarrow> int" where
  "wrap c k = (if k \<ge> bufsz c then 0 else k)"

text \<open>The part behind the header: the message in one piece, or in two at the end of the ring.\<close>

definition copy_in :: "(UW \<Rightarrow> UB) \<Rightarrow> MBFCB \<Rightarrow> UB list \<Rightarrow> int \<Rightarrow> UW \<Rightarrow> int \<Rightarrow> (UB list \<times> int) option" where
  "copy_in m c b tail msg msgsz = do {
     let remsz = bufsz c - tail;
     (b, msg, msgsz, tail) \<leftarrow>
       (if remsz < msgsz then do {
          b \<leftarrow> poke b tail (read_bytes m msg (usize remsz));
          Some (b, msg + word_of_int remsz, msgsz - remsz, 0)
        } else Some (b, msg, msgsz, tail));
     b \<leftarrow> poke b tail (read_bytes m msg (usize msgsz));
     Some (b, wrap c (tail + sint (ROUNDSZ msgsz)))
   }"

definition msg_to_mbf :: "(UW \<Rightarrow> UB) \<Rightarrow> MBFCB \<Rightarrow> UW \<Rightarrow> int \<Rightarrow> MBFCB option" where
  "msg_to_mbf m c msg msgsz = do {
     let tail = mbf_tail c;
     let c = c\<lparr>frbufsz := frbufsz c - stored_size msgsz\<rparr>;
     b \<leftarrow> poke (buffer c) tail (header_bytes msgsz);
     (b, tail) \<leftarrow> copy_in m c b (wrap c (tail + HEADERSZ)) msg msgsz;
     Some (c\<lparr>buffer := b, mbf_tail := tail\<rparr>)
   }"

definition copy_out :: "MBFCB \<Rightarrow> UB list \<Rightarrow> int \<Rightarrow> UW \<Rightarrow> int \<Rightarrow> (UW \<Rightarrow> UB) \<Rightarrow> ((UW \<Rightarrow> UB) \<times> int) option" where
  "copy_out c b head msg msgsz m = do {
     let remsz = bufsz c - head;
     (m, msg, msgsz, head) \<leftarrow>
       (if remsz < msgsz then do {
          xs \<leftarrow> peek b head (usize remsz);
          Some (write_bytes msg xs m, msg + word_of_int remsz, msgsz - remsz, 0)
        } else Some (m, msg, msgsz, head));
     xs \<leftarrow> peek b head (usize msgsz);
     Some (write_bytes msg xs m, wrap c (head + sint (ROUNDSZ msgsz)))
   }"

definition mbf_to_msg :: "MBFCB \<Rightarrow> UW \<Rightarrow> (UW \<Rightarrow> UB) \<Rightarrow> (int \<times> MBFCB \<times> (UW \<Rightarrow> UB)) option" where
  "mbf_to_msg c msg m = do {
     let head = mbf_head c;
     h \<leftarrow> peek (buffer c) head 4;
     let actsz = bytes_header h;
     let c = c\<lparr>frbufsz := frbufsz c + stored_size actsz\<rparr>;
     (m, head) \<leftarrow> copy_out c (buffer c) (wrap c (head + HEADERSZ)) msg actsz m;
     Some (actsz, c\<lparr>mbf_head := head\<rparr>, m)
   }"

section \<open>Sizes\<close>

definition rnd :: "nat \<Rightarrow> nat" where
  "rnd n = 4 * ((n + 3) div 4)"

lemma rnd_bounds: "n \<le> rnd n" "rnd n < n + 4" "4 dvd rnd n"
  by (simp_all add: rnd_def)

lemma rnd_split: "4 dvd r \<Longrightarrow> r \<le> n \<Longrightarrow> rnd n = r + rnd (n - r)"
proof -
  assume "4 dvd r" "r \<le> n"
  then obtain k m where "r = 4 * k" "n = r + m" by (metis dvd_def le_Suc_ex)
  moreover have "(4 * k + m + 3) div 4 = k + (m + 3) div 4" using div_mult_self4 [of 4 k "m + 3"] by (simp add: ac_simps)
  ultimately show ?thesis by (simp add: rnd_def)
qed

lemma rnd_le: "4 dvd N \<Longrightarrow> n \<le> N \<Longrightarrow> rnd n \<le> N"
  by (auto simp: rnd_def elim!: dvdE)

lemma and_not_3: "(x::UW) AND NOT 3 = word_of_nat (4 * (unat x div 4))"
proof -
  have "4 * (unat x div 4) = push_bit 2 (drop_bit 2 (unat x))" by (simp add: push_bit_eq_mult drop_bit_eq_div)
  then have "word_of_nat (4 * (unat x div 4)) = push_bit 2 (drop_bit 2 x)"
    by (simp add: push_bit_of_nat [symmetric] drop_bit_of_nat unat_drop_bit_eq [symmetric])
  moreover have "x AND NOT 3 = push_bit 2 (drop_bit 2 x)"
  proof (rule bit_word_eqI)
    fix n assume "n < LENGTH(32)"
    have m: "(3::UW) = mask 2" by (simp add: mask_eq_exp_minus_1)
    show "bit (x AND NOT 3) n = bit (push_bit 2 (drop_bit 2 x)) n"
    proof (cases "2 \<le> n")
      case True
      then obtain k where "n = 2 + k" using le_Suc_ex by blast
      then show ?thesis unfolding m using \<open>n < LENGTH(32)\<close> by (auto simp: bit_simps)
    next
      case False
      then show ?thesis unfolding m using \<open>n < LENGTH(32)\<close> by (auto simp: bit_simps)
    qed
  qed
  ultimately show ?thesis by simp
qed

lemma unat_ROUNDSZ: "rnd n < 2 ^ 32 \<Longrightarrow> unat (ROUNDSZ (int n)) = rnd n"
proof -
  assume r: "rnd n < 2 ^ 32"
  then have n: "n < 2 ^ 32" using rnd_bounds(1) [of n] by simp
  show ?thesis
  proof (cases "n + 3 < 2 ^ 32")
    case True
    then have "unat (word_of_int (int n) + 3 :: UW) = n + 3" by (simp add: unat_word_ariths unat_of_nat)
    then show ?thesis unfolding ROUNDSZ_def and_not_3 using r by (simp only: rnd_def [symmetric] unat_of_nat) simp
  next
    case False
    then have "(n + 3) div 4 \<ge> 2 ^ 30" by simp
    then have "rnd n \<ge> 2 ^ 32" by (simp add: rnd_def)
    then show ?thesis using r by simp
  qed
qed

lemma sint_small: "unat (w::UW) < 2 ^ 31 \<Longrightarrow> sint w = int (unat w)"
proof -
  assume w: "unat w < 2 ^ 31"
  have u: "uint w = int (unat w)" by simp
  have "int (unat w) < int (2 ^ 31)" using w by (simp only: of_nat_less_iff)
  then have "signed_take_bit 31 (int (unat w)) = int (unat w)" by (simp del: of_nat_unat add: signed_take_bit_int_eq_self_iff)
  then show ?thesis unfolding sint_uint u by (simp del: of_nat_unat)
qed

lemma sint_ROUNDSZ: "rnd n < 2 ^ 31 \<Longrightarrow> sint (ROUNDSZ (int n)) = int (rnd n)"
  using unat_ROUNDSZ [of n] sint_small [of "ROUNDSZ (int n)"] by simp

lemma stored_size: "rnd n + 4 < 2 ^ 31 \<Longrightarrow> stored_size (int n) = int (rnd n + 4)"
proof -
  assume r: "rnd n + 4 < 2 ^ 31"
  then have "unat (4 + ROUNDSZ (int n)) = rnd n + 4" using unat_ROUNDSZ [of n] by (simp add: unat_word_ariths)
  then show ?thesis using r sint_small [of "4 + ROUNDSZ (int n)"] by (simp add: stored_size_def HEADERSZ_def)
qed

lemma usize_of_nat: "n < 2 ^ 32 \<Longrightarrow> usize (int n) = n"
  by (simp add: usize_def unat_of_nat)

lemma bytes_header_bytes: "- (2 ^ 31) \<le> n \<Longrightarrow> n < 2 ^ 31 \<Longrightarrow> bytes_header (header_bytes n) = n"
proof -
  assume n: "- (2 ^ 31) \<le> n" "n < 2 ^ 31"
  let ?w = "word_of_int n :: UW"
  have "(ucast (ucast ?w :: UB) :: UW) OR push_bit 8 (ucast (ucast (drop_bit 8 ?w) :: UB)) OR
      push_bit 16 (ucast (ucast (drop_bit 16 ?w) :: UB)) OR push_bit 24 (ucast (ucast (drop_bit 24 ?w) :: UB)) = ?w"
  proof (rule bit_word_eqI)
    fix k assume "k < LENGTH(32)"
    have "k < 8 \<or> (8 \<le> k \<and> k < 16) \<or> (16 \<le> k \<and> k < 24) \<or> (24 \<le> k \<and> k < 32)" using \<open>k < LENGTH(32)\<close> by auto
    then consider "k < 8" | j where "k = 8 + j" "j < 8" | j where "k = 16 + j" "j < 8" | j where "k = 24 + j" "j < 8"
      by (elim disjE conjE) (use le_Suc_ex in force)+
    then show "bit ((ucast (ucast ?w :: UB) :: UW) OR push_bit 8 (ucast (ucast (drop_bit 8 ?w) :: UB)) OR
      push_bit 16 (ucast (ucast (drop_bit 16 ?w) :: UB)) OR push_bit 24 (ucast (ucast (drop_bit 24 ?w) :: UB))) k = bit ?w k"
      using \<open>k < LENGTH(32)\<close> by cases (auto simp: bit_simps)
  qed
  moreover have "sint ?w = n" using n by (simp add: sint_sbintrunc' signed_take_bit_int_eq_self)
  ultimately show ?thesis by (simp add: header_bytes_def Let_def)
qed

lemma length_header_bytes [simp]: "length (header_bytes n) = 4"
  by (simp add: header_bytes_def Let_def)

section \<open>A ring of bytes\<close>

definition ring_read :: "UB list \<Rightarrow> nat \<Rightarrow> nat \<Rightarrow> UB list" where
  "ring_read b p n = map (\<lambda>k. b ! ((p + k) mod length b)) [0..<n]"

fun ring_write :: "UB list \<Rightarrow> nat \<Rightarrow> UB list \<Rightarrow> UB list" where
  "ring_write b p [] = b"
| "ring_write b p (x # xs) = ring_write (b[p mod length b := x]) (Suc p) xs"

lemma length_ring [simp]: "length (ring_read b p n) = n" "length (ring_write b p xs) = length b"
  by (simp add: ring_read_def) (induction xs arbitrary: b p, simp_all)

lemma mod_add_inj: "k < N \<Longrightarrow> j < N \<Longrightarrow> (p + k) mod N = (p + j) mod N \<longleftrightarrow> k = (j::nat)"
proof (induction k j rule: linorder_wlog)
  case (le k j)
  have "N dvd j - k \<longleftrightarrow> k = j" using le nat_dvd_not_less [of "j - k" N] by fastforce
  then show ?case using mod_eq_dvd_iff_nat [of "p + k" "p + j" N] le(1) by fastforce
qed auto

lemma ring_write_nth:
  assumes "length xs \<le> length b" and "k < length b"
  shows "ring_write b p xs ! ((p + k) mod length b) = (if k < length xs then xs ! k else b ! ((p + k) mod length b))"
  using assms
proof (induction xs arbitrary: b p k)
  case (Cons x xs)
  let ?b = "b[p mod length b := x]"
  have l: "length xs \<le> length ?b" using Cons.prems(1) by simp
  show ?case
  proof (cases k)
    case 0
    have n1: "\<not> length b - 1 < length xs" using Cons.prems(1) by auto
    have "length b - 1 < length ?b" using Cons.prems(2) by simp
    from Cons.IH [OF l this, of "Suc p"] have "ring_write ?b (Suc p) xs ! ((Suc p + (length b - 1)) mod length b) = ?b ! ((Suc p + (length b - 1)) mod length b)"
      using n1 by simp
    moreover have "Suc p + (length b - 1) = p + length b" using Cons.prems(2) by simp
    then have "(Suc p + (length b - 1)) mod length b = p mod length b" by (simp only: mod_add_self2)
    ultimately show ?thesis using 0 Cons.prems(2) by simp
  next
    case (Suc j)
    have j: "j < length ?b" using Cons.prems(2) Suc by simp
    have "(p + k) mod length b \<noteq> p mod length b"
      using mod_add_inj [of k "length b" 0 p] Cons.prems(2) Suc by (cases "b = []") auto
    then show ?thesis using Cons.IH [OF l j, of "Suc p"] Suc by simp
  qed
qed simp

lemma ring_index: "j < N \<Longrightarrow> \<exists>k<N. j = (p + k) mod (N::nat)"
proof -
  assume j: "j < N"
  have "(p + (j + (N - p mod N)) mod N) mod N = (p mod N + (j + (N - p mod N))) mod N"
    by (simp add: mod_add_left_eq mod_add_right_eq)
  also have "p mod N + (j + (N - p mod N)) = j + N"
  proof -
    have "p mod N < N" using j by simp
    then show ?thesis by simp
  qed
  finally have "(p + (j + (N - p mod N)) mod N) mod N = j" using j by simp
  then show ?thesis using j by (metis mod_less_divisor not_gr_zero not_less0)
qed

lemma ring_ext:
  assumes "length b = length b'" and "\<And>k. k < length b \<Longrightarrow> b ! ((p + k) mod length b) = b' ! ((p + k) mod length b)"
  shows "b = b'"
  by (rule nth_equalityI) (use assms ring_index [where p = p] in metis)+

lemma ring_write_append: "ring_write b p (xs @ ys) = ring_write (ring_write b p xs) (p + length xs) ys"
  by (induction xs arbitrary: b p) simp_all

lemma ring_read_write: "length xs \<le> length b \<Longrightarrow> ring_read (ring_write b p xs) p (length xs) = xs"
  by (rule nth_equalityI) (simp_all add: ring_read_def ring_write_nth)

lemma ring_read_append: "ring_read b p (n + k) = ring_read b p n @ ring_read b (p + n) k"
  by (rule nth_equalityI) (auto simp: ring_read_def nth_append ac_simps)

text \<open>A straight access is one in the ring that does not come to the end.\<close>

lemma peek_ring: "p + n \<le> length b \<Longrightarrow> peek b (int p) n = Some (ring_read b p n)"
  by (auto simp: peek_def ring_read_def intro!: nth_equalityI)

lemma poke_ring:
  assumes "p + length xs \<le> length b"
  shows "poke b (int p) xs = Some (ring_write b p xs)"
proof -
  have l: "length xs \<le> length b" using assms by simp
  have "take p b @ xs @ drop (p + length xs) b = ring_write b p xs"
  proof (rule ring_ext [where p = p])
    show eq: "length (take p b @ xs @ drop (p + length xs) b) = length (ring_write b p xs)" using assms by simp
    fix k assume "k < length (take p b @ xs @ drop (p + length xs) b)"
    then have k: "k < length b" using eq by simp
    show "(take p b @ xs @ drop (p + length xs) b) ! ((p + k) mod length (take p b @ xs @ drop (p + length xs) b)) =
        ring_write b p xs ! ((p + k) mod length (take p b @ xs @ drop (p + length xs) b))"
    proof (cases "p + k < length b")
      case True
      then show ?thesis using assms ring_write_nth [OF l k, of p] by (simp add: eq nth_append)
    next
      case False
      then have "(p + k) mod length b = p + k - length b" "p + k - length b < p" using k assms
        by (simp_all add: le_mod_geq)
      then show ?thesis using assms ring_write_nth [OF l k, of p] False by (simp add: eq nth_append)
    qed
  qed
  then show ?thesis using assms by (simp add: poke_def)
qed

section \<open>The messages in the buffer\<close>

definition msg_room :: "UB list \<Rightarrow> nat" where
  "msg_room m = 4 + rnd (length m)"

definition total :: "UB list list \<Rightarrow> nat" where
  "total ms = sum_list (map msg_room ms)"

lemma total_simps [simp]: "total [] = 0" "total (m # ms) = msg_room m + total ms" "total (ms @ ms') = total ms + total ms'"
  by (simp_all add: total_def)

lemma total_dvd: "4 dvd total ms"
  by (induction ms) (simp_all add: msg_room_def rnd_bounds(3))

fun stored :: "UB list \<Rightarrow> nat \<Rightarrow> UB list list \<Rightarrow> bool" where
  "stored b p [] \<longleftrightarrow> True"
| "stored b p (m # ms) \<longleftrightarrow> m \<noteq> [] \<and> ring_read b p 4 = header_bytes (int (length m)) \<and> ring_read b (p + 4) (length m) = m \<and>
     stored b (p + msg_room m) ms"

lemma stored_append: "stored b p (ms @ ms') \<longleftrightarrow> stored b p ms \<and> stored b (p + total ms) ms'"
  by (induction ms arbitrary: p) (auto simp: add.assoc)

lemma ring_read_cong:
  "length b' = length b \<Longrightarrow> (\<And>k. k < n \<Longrightarrow> b' ! ((p + k) mod length b) = b ! ((p + k) mod length b)) \<Longrightarrow> ring_read b' p n = ring_read b p n"
  by (simp add: ring_read_def)

lemma stored_cong:
  assumes "length b' = length b" and "\<And>k. k < total ms \<Longrightarrow> b' ! ((p + k) mod length b) = b ! ((p + k) mod length b)"
  shows "stored b' p ms \<longleftrightarrow> stored b p ms"
  using assms(2)
proof (induction ms arbitrary: p)
  case (Cons m ms)
  have a: "b' ! ((p + k) mod length b) = b ! ((p + k) mod length b)" if "k < msg_room m" for k using Cons.prems [of k] that by simp
  have r: "ring_read b' p 4 = ring_read b p 4" "ring_read b' (p + 4) (length m) = ring_read b (p + 4) (length m)"
  proof -
    show "ring_read b' p 4 = ring_read b p 4" by (rule ring_read_cong [OF assms(1)]) (use a in \<open>simp add: msg_room_def\<close>)
    show "ring_read b' (p + 4) (length m) = ring_read b (p + 4) (length m)"
    proof (rule ring_read_cong [OF assms(1)])
      fix k assume "k < length m"
      then have "4 + k < msg_room m" using rnd_bounds(1) [of "length m"] by (simp add: msg_room_def)
      from a [OF this] show "b' ! ((p + 4 + k) mod length b) = b ! ((p + 4 + k) mod length b)" by (simp only: add.assoc)
    qed
  qed
  have "b' ! ((p + msg_room m + k) mod length b) = b ! ((p + msg_room m + k) mod length b)" if "k < total ms" for k
    using Cons.prems [of "msg_room m + k"] that by (simp add: add.assoc)
  then have "stored b' (p + msg_room m) ms \<longleftrightarrow> stored b (p + msg_room m) ms" by (rule Cons.IH)
  then show ?case by (simp add: r)
qed simp

lemma ring_read_mod: "ring_read b (p mod length b) n = ring_read b p n"
  by (simp add: ring_read_def mod_add_left_eq)

lemma stored_mod: "stored b (p mod length b) ms \<longleftrightarrow> stored b p ms"
proof (induction ms arbitrary: p)
  case (Cons m ms)
  have r: "ring_read b (p mod length b + n) k = ring_read b (p + n) k" for n k
    by (metis mod_add_left_eq ring_read_mod)
  have "stored b (p mod length b + msg_room m) ms \<longleftrightarrow> stored b (p + msg_room m) ms"
    by (metis Cons.IH mod_add_left_eq)
  then show ?case using r [of 0] by (simp add: r)
qed simp

text \<open>
  The refinement: the ring is a multiple of a header long and shorter than \<open>2 ^ 31\<close>, the messages
  start at \<open>head\<close>, end before \<open>tail\<close>, and \<open>frbufsz\<close> is what they leave.
\<close>

definition mbf_holds :: "MBFCB \<Rightarrow> UB list list \<Rightarrow> bool" where
  "mbf_holds c ms \<longleftrightarrow> (\<exists>h. bufsz c = int (length (buffer c)) \<and> 4 dvd length (buffer c) \<and> length (buffer c) < 2 ^ 31 \<and>
     mbf_head c = int h \<and> 4 dvd h \<and> h mod length (buffer c) = h \<and>
     mbf_tail c = int ((h + total ms) mod length (buffer c)) \<and>
     total ms \<le> length (buffer c) \<and> frbufsz c = int (length (buffer c) - total ms) \<and> stored (buffer c) h ms)"

lemma mbf_free_holds:
  assumes "mbf_holds c ms" and "n < 2 ^ 31"
  shows "mbf_free c (int n) \<longleftrightarrow> total ms + (4 + n) \<le> length (buffer c)"
proof -
  obtain f where f: "frbufsz c = int f" "f = length (buffer c) - total ms" "f < 2 ^ 31" "total ms \<le> length (buffer c)"
    using assms(1) by (auto simp: mbf_holds_def)
  have "unat (4 + word_of_int (int n) :: UW) = 4 + n" using assms(2) by (simp add: unat_word_ariths unat_of_nat)
  moreover have "unat (word_of_int (int f) :: UW) = f" using f(3) by (simp add: unat_of_nat)
  ultimately have "mbf_free c (int n) \<longleftrightarrow> 4 + n \<le> f" by (simp add: mbf_free_def HEADERSZ_def word_le_nat_alt f(1))
  with f(2,4) show ?thesis by auto
qed

lemma mbf_empty_holds: "mbf_holds c ms \<Longrightarrow> mbf_empty c \<longleftrightarrow> ms = []"
proof -
  assume "mbf_holds c ms"
  then have "mbf_empty c \<longleftrightarrow> total ms = 0" by (auto simp: mbf_holds_def mbf_empty_def)
  then show ?thesis by (cases ms) (simp_all add: msg_room_def)
qed

section \<open>Storing\<close>

lemma ring_write_cong: "p mod length b = q mod length b \<Longrightarrow> ring_write b p xs = ring_write b q xs"
proof (induction xs arbitrary: b p q)
  case (Cons x xs)
  have "Suc p mod length b = Suc q mod length b" using Cons.prems by (metis mod_Suc_eq)
  then have "ring_write (b[p mod length b := x]) (Suc p) xs = ring_write (b[p mod length b := x]) (Suc q) xs"
    by (intro Cons.IH) simp
  then show ?case by (simp only: ring_write.simps Cons.prems)
qed simp

lemma wrap_mod: "bufsz c = int N \<Longrightarrow> 0 < N \<Longrightarrow> k \<le> N \<Longrightarrow> wrap c (int k) = int (k mod N)"
  by (auto simp: wrap_def)

lemma read_bytes_append: "read_bytes m a (n + k) = read_bytes m a n @ read_bytes m (a + of_nat n) k"
  by (rule nth_equalityI) (auto simp: read_bytes_def nth_append algebra_simps of_nat_diff)

text \<open>
  In the following, \<open>N\<close> is the length of the ring, \<open>u\<close> the position behind the header. A message is
  written in one or two pieces; the position behind it is that of the rounded size.
\<close>

lemma store_body:
  assumes N: "bufsz c = int (length b)" "4 dvd length b" "length b < 2 ^ 31" and u: "4 dvd u" "u < length b" and n: "rnd n + 4 \<le> length b"
  shows "copy_in m c b (int u) a (int n) = Some (ring_write b u (read_bytes m a n), int ((u + rnd n) mod length b))"
proof (cases "int (length b) - int u < int n")
  case True
  define r where "r = length b - u"
  have r: "int (length b) - int u = int r" "4 dvd r" "r < n" "u + r = length b" "r < 2 ^ 31" using True u N by (auto simp: r_def dvd_diff_nat)
  have nb: "n \<le> rnd n" by (rule rnd_bounds)
  have rn: "rnd n = r + rnd (n - r)" by (rule rnd_split) (use r in simp_all)
  have sz: "usize (int r) = r" "usize (int n - int r) = n - r" "int n - int r = int (n - r)"
    using r N nb n usize_of_nat [of r] usize_of_nat [of "n - r"] by (simp_all add: of_nat_diff)
  have p1: "poke b (int u) (read_bytes m a r) = Some (ring_write b u (read_bytes m a r))" by (rule poke_ring) (use r in simp)
  define b2 where "b2 = ring_write b u (read_bytes m a r)"
  have l2: "length b2 = length b" by (simp add: b2_def)
  have p2: "poke b2 (int 0) (read_bytes m (a + of_nat r) (n - r)) = Some (ring_write b2 0 (read_bytes m (a + of_nat r) (n - r)))"
    by (rule poke_ring) (use n nb l2 in simp)
  have "ring_write b2 0 (read_bytes m (a + of_nat r) (n - r)) = ring_write b2 (u + r) (read_bytes m (a + of_nat r) (n - r))"
    by (rule ring_write_cong) (simp add: l2 r)
  also have "\<dots> = ring_write b u (read_bytes m a n)"
    using ring_write_append [of b u "read_bytes m a r" "read_bytes m (a + of_nat r) (n - r)"] read_bytes_append [of m a r "n - r"] r
    by (simp add: b2_def)
  finally have w: "ring_write b2 0 (read_bytes m (a + of_nat r) (n - r)) = ring_write b u (read_bytes m a n)" .
  have s: "sint (ROUNDSZ (int n - int r)) = int (rnd (n - r))" unfolding sz(3) by (rule sint_ROUNDSZ) (use rn n N in simp)
  have wr: "wrap c (int (rnd (n - r))) = int (rnd (n - r) mod length b)" by (rule wrap_mod [OF N(1)]) (use u rn n in auto)
  have "(u + rnd n) mod length b = rnd (n - r) mod length b" using rn r(4) by (simp add: add.assoc [symmetric])
  then show ?thesis using p1 p2 True wr by (simp add: N(1) r(1,3) sz(1,2) b2_def [symmetric] w s Let_def copy_in_def)
next
  case False
  have un: "u + n \<le> length b" using False by simp
  have nb: "n \<le> rnd n" by (rule rnd_bounds)
  have "rnd n \<le> length b - u" by (rule rnd_le) (use N u un in \<open>auto simp: dvd_diff_nat\<close>)
  then have ur: "u + rnd n \<le> length b" using u by simp
  have p: "poke b (int u) (read_bytes m a n) = Some (ring_write b u (read_bytes m a n))" by (rule poke_ring) (use un in simp)
  have s: "sint (ROUNDSZ (int n)) = int (rnd n)" by (rule sint_ROUNDSZ) (use n N in simp)
  have wr: "wrap c (int (u + rnd n)) = int ((u + rnd n) mod length b)" by (rule wrap_mod [OF N(1) _ ur]) (use u in auto)
  have sz: "usize (int n) = n" by (rule usize_of_nat) (use nb n N in simp)
  show ?thesis using False p wr by (simp add: N(1) sz s copy_in_def)
qed

text \<open>A message is put behind the others.\<close>

lemma msg_to_mbf_ok:
  assumes H: "mbf_holds c ms" and n: "0 < n" "total ms + (4 + n) \<le> length (buffer c)"
  shows "\<exists>c'. msg_to_mbf m c a (int n) = Some c' \<and> mbf_holds c' (ms @ [read_bytes m a n]) \<and>
     c' = c\<lparr>frbufsz := frbufsz c', buffer := buffer c', mbf_tail := mbf_tail c'\<rparr> \<and> length (buffer c') = length (buffer c)"
proof -
  define b where "b = buffer c"
  define N where "N = length b"
  obtain h where h: "bufsz c = int N" "4 dvd N" "N < 2 ^ 31" "mbf_head c = int h" "4 dvd h" "h mod N = h"
    "mbf_tail c = int ((h + total ms) mod N)" "total ms \<le> N" "frbufsz c = int (N - total ms)" "stored b h ms"
    using H by (auto simp: mbf_holds_def N_def b_def)
  define t where "t = (h + total ms) mod N"
  define c1 where "c1 = c\<lparr>frbufsz := frbufsz c - stored_size (int n)\<rparr>"
  have N0: "0 < N" and nN: "total ms + (4 + n) \<le> N" using n by (auto simp: N_def b_def)
  have t: "4 dvd t" "t < N" using N0 h(2,5) total_dvd [of ms] by (simp_all add: t_def dvd_mod)
  have t4: "t + 4 \<le> N" using t h(2) by (auto elim!: dvdE)
  define u where "u = (t + 4) mod N"
  have u: "4 dvd u" "u < N" using N0 t h(2) by (simp_all add: u_def dvd_mod)
  have "rnd n \<le> N - total ms - 4" by (rule rnd_le) (use nN h(2) total_dvd [of ms] in \<open>auto simp: dvd_diff_nat\<close>)
  then have rn: "total ms + (rnd n + 4) \<le> N" using nN by simp
  define b1 where "b1 = ring_write b t (header_bytes (int n))"
  have p1: "poke b (int t) (header_bytes (int n)) = Some b1"
    unfolding b1_def by (rule poke_ring) (use t4 in \<open>simp add: N_def\<close>)
  have l1: "length b1 = N" by (simp add: b1_def N_def)
  have w1: "wrap c1 (int t + HEADERSZ) = int u"
    using wrap_mod [of c1 N "t + 4"] h(1) N0 t4 by (simp add: c1_def HEADERSZ_def u_def)
  define b2 where "b2 = ring_write b1 u (read_bytes m a n)"
  define v where "v = (u + rnd n) mod N"
  have N1: "bufsz c1 = int (length b1)" "4 dvd length b1" "length b1 < 2 ^ 31" "u < length b1" "rnd n + 4 \<le> length b1"
    using h u rn by (simp_all add: c1_def l1)
  note body = store_body [OF N1(1-3) u(1) N1(4,5), of m a, unfolded l1, folded b2_def v_def]
  have tl: "mbf_tail c = int t" using h(7) by (simp add: t_def)
  have e: "msg_to_mbf m c a (int n) = Some (c1\<lparr>buffer := b2, mbf_tail := int v\<rparr>)"
    using body p1 by (simp add: msg_to_mbf_def tl c1_def [symmetric] w1 Let_def) (simp add: c1_def b_def)
  define xs where "xs = header_bytes (int n) @ read_bytes m a n"
  have lx: "length xs = 4 + n" by (simp add: xs_def)
  have b2: "b2 = ring_write b (h + total ms) xs"
  proof -
    have "b2 = ring_write b1 (t + 4) (read_bytes m a n)" unfolding b2_def by (rule ring_write_cong) (simp add: l1 u_def)
    also have "\<dots> = ring_write b t xs" by (simp add: b1_def xs_def ring_write_append)
    also have "\<dots> = ring_write b (h + total ms) xs" by (rule ring_write_cong) (simp add: t_def N_def)
    finally show ?thesis .
  qed
  have l2: "length b2 = N" by (simp add: b2 N_def)
  have lxN: "length xs \<le> length b" using nN by (simp add: lx N_def)
  have old: "stored b2 h ms"
  proof -
    have "b2 ! ((h + k) mod length b) = b ! ((h + k) mod length b)" if k: "k < total ms" for k
    proof -
      define j where "j = N - total ms + k"
      have j: "j < length b" "\<not> j < length xs" "h + total ms + j = h + k + N"
        using k h(8) nN by (simp_all add: j_def N_def lx)
      have "(h + total ms + j) mod length b = (h + k) mod length b" unfolding j(3) by (simp add: N_def)
      then show ?thesis using ring_write_nth [OF lxN j(1), of "h + total ms"] j(2) by (simp add: b2)
    qed
    then show ?thesis using stored_cong [of b2 b ms h] h(10) l2 by (simp add: N_def)
  qed
  have new: "stored b2 (h + total ms) [read_bytes m a n]"
  proof -
    have "ring_read b2 (h + total ms) (4 + n) = xs" using ring_read_write [OF lxN, of "h + total ms"] by (simp only: b2 lx)
    then have "ring_read b2 (h + total ms) 4 @ ring_read b2 (h + total ms + 4) n = header_bytes (int n) @ read_bytes m a n"
      by (simp only: ring_read_append xs_def)
    then show ?thesis using n(1) by (simp add: append_eq_append_conv) (metis length_0_conv length_read_bytes not_gr_zero)
  qed
  have "v = (h + total (ms @ [read_bytes m a n])) mod N"
    by (simp add: v_def u_def t_def msg_room_def mod_simps add.assoc)
  moreover have "stored_size (int n) = int (rnd n + 4)" by (rule stored_size) (use rn h(3) in simp)
  moreover have "frbufsz c1 = int (N - total (ms @ [read_bytes m a n]))"
    using rn h(9) by (simp add: c1_def \<open>stored_size (int n) = _\<close> msg_room_def of_nat_diff)
  ultimately have "mbf_holds (c1\<lparr>buffer := b2, mbf_tail := int v\<rparr>) (ms @ [read_bytes m a n])"
    unfolding mbf_holds_def using h old new rn
    by (intro exI [where x = h]) (simp add: l2 stored_append c1_def msg_room_def)
  with e show ?thesis using l2 by (intro exI [where x = "c1\<lparr>buffer := b2, mbf_tail := int v\<rparr>"]) (simp add: c1_def N_def b_def)
qed

section \<open>Taking out\<close>

lemma write_bytes_append:
  assumes "length xs + length ys < 2 ^ 32"
  shows "write_bytes (a + of_nat (length xs)) ys (write_bytes a xs m) = write_bytes a (xs @ ys) m"
proof
  fix x :: UW
  have l: "unat (of_nat (length xs) :: UW) = length xs" using assms by (simp add: unat_of_nat)
  have d: "x - (a + of_nat (length xs)) = (x - a) - of_nat (length xs)" by simp
  show "write_bytes (a + of_nat (length xs)) ys (write_bytes a xs m) x = write_bytes a (xs @ ys) m x"
  proof (cases "unat (x - a) < length xs")
    case True
    then have "unat ((x - a) - of_nat (length xs)) = unat (x - a) + 2 ^ 32 - length xs"
      using l by (simp add: unat_sub_if')
    moreover have "\<not> unat (x - a) + 2 ^ 32 - length xs < length ys" using assms by simp
    ultimately show ?thesis using True by (simp add: write_bytes_def d nth_append)
  next
    case False
    then have "unat ((x - a) - of_nat (length xs)) = unat (x - a) - length xs" using l by (simp add: unat_sub_if')
    then show ?thesis using False by (auto simp: write_bytes_def d nth_append)
  qed
qed

lemma load_body:
  assumes N: "bufsz c = int (length b)" "4 dvd length b" "length b < 2 ^ 31" and u: "4 dvd u" "u < length b" and n: "rnd n + 4 \<le> length b"
  shows "copy_out c b (int u) a (int n) m = Some (write_bytes a (ring_read b u n) m, int ((u + rnd n) mod length b))"
proof (cases "int (length b) - int u < int n")
  case True
  define r where "r = length b - u"
  have r: "int (length b) - int u = int r" "4 dvd r" "r < n" "u + r = length b" "r < 2 ^ 31" using True u N by (auto simp: r_def dvd_diff_nat)
  have nb: "n \<le> rnd n" by (rule rnd_bounds)
  have rn: "rnd n = r + rnd (n - r)" by (rule rnd_split) (use r in simp_all)
  have sz: "usize (int r) = r" "usize (int n - int r) = n - r" "int n - int r = int (n - r)"
    using r N nb n usize_of_nat [of r] usize_of_nat [of "n - r"] by (simp_all add: of_nat_diff)
  have p1: "peek b (int u) r = Some (ring_read b u r)" by (rule peek_ring) (use r in simp)
  have p2: "peek b (int 0) (n - r) = Some (ring_read b 0 (n - r))" by (rule peek_ring) (use n nb in simp)
  have "ring_read b 0 (n - r) = ring_read b (u + r) (n - r)" using ring_read_mod [of b "u + r" "n - r"] r(4) by simp
  then have w: "write_bytes (a + of_nat r) (ring_read b 0 (n - r)) (write_bytes a (ring_read b u r) m) = write_bytes a (ring_read b u n) m"
    using write_bytes_append [of "ring_read b u r" "ring_read b (u + r) (n - r)" a m] ring_read_append [of b u r "n - r"] r nb n N(3) by simp
  have s: "sint (ROUNDSZ (int n - int r)) = int (rnd (n - r))" unfolding sz(3) by (rule sint_ROUNDSZ) (use rn n N in simp)
  have wr: "wrap c (int (rnd (n - r))) = int (rnd (n - r) mod length b)" by (rule wrap_mod [OF N(1)]) (use u rn n in auto)
  have "(u + rnd n) mod length b = rnd (n - r) mod length b" using rn r(4) by (simp add: add.assoc [symmetric])
  then show ?thesis using p1 p2 True wr by (simp add: N(1) r(1,3) sz(1,2) w s Let_def copy_out_def)
next
  case False
  have un: "u + n \<le> length b" using False by simp
  have nb: "n \<le> rnd n" by (rule rnd_bounds)
  have "rnd n \<le> length b - u" by (rule rnd_le) (use N u un in \<open>auto simp: dvd_diff_nat\<close>)
  then have ur: "u + rnd n \<le> length b" using u by simp
  have p: "peek b (int u) n = Some (ring_read b u n)" by (rule peek_ring) (use un in simp)
  have s: "sint (ROUNDSZ (int n)) = int (rnd n)" by (rule sint_ROUNDSZ) (use n N in simp)
  have wr: "wrap c (int (u + rnd n)) = int ((u + rnd n) mod length b)" by (rule wrap_mod [OF N(1) _ ur]) (use u in auto)
  have sz: "usize (int n) = n" by (rule usize_of_nat) (use nb n N in simp)
  show ?thesis using False p wr by (simp add: N(1) sz s copy_out_def)
qed

text \<open>The first message is the one that comes out.\<close>

lemma mbf_to_msg_ok:
  assumes H: "mbf_holds c (x # ms)"
  shows "\<exists>c'. mbf_to_msg c a m = Some (int (length x), c', write_bytes a x m) \<and> mbf_holds c' ms \<and>
     c' = c\<lparr>frbufsz := frbufsz c', mbf_head := mbf_head c'\<rparr>"
proof -
  define b where "b = buffer c"
  define N where "N = length b"
  define n where "n = length x"
  obtain h where h: "bufsz c = int N" "4 dvd N" "N < 2 ^ 31" "mbf_head c = int h" "4 dvd h" "h mod N = h"
    "mbf_tail c = int ((h + total (x # ms)) mod N)" "total (x # ms) \<le> N" "frbufsz c = int (N - total (x # ms))" "stored b h (x # ms)"
    using H by (auto simp: mbf_holds_def N_def b_def)
  have rn: "4 + rnd n + total ms \<le> N" using h(8) by (simp add: msg_room_def n_def)
  have N0: "0 < N" using rn by simp
  have hN: "h < N" using h(6) N0 by (metis mod_less_divisor)
  have h4: "h + 4 \<le> N" using h(2,5) hN by (auto elim!: dvdE)
  define u where "u = (h + 4) mod N"
  have u: "4 dvd u" "u < N" using N0 h(2,5) by (simp_all add: u_def dvd_mod)
  have st: "ring_read b h 4 = header_bytes (int n)" "ring_read b (h + 4) n = x" "stored b (h + msg_room x) ms"
    using h(10) by (simp_all add: n_def)
  have p1: "peek b (int h) 4 = Some (header_bytes (int n))"
    using peek_ring [of h 4 b] h4 st(1) by (simp add: N_def)
  have n31: "n < 2 ^ 31" using rn h(3) rnd_bounds(1) [of n] by simp
  have hd: "bytes_header (header_bytes (int n)) = int n" by (rule bytes_header_bytes) (use n31 in simp_all)
  define c1 where "c1 = c\<lparr>frbufsz := frbufsz c + stored_size (int n)\<rparr>"
  have w1: "wrap c1 (int h + HEADERSZ) = int u"
    using wrap_mod [of c1 N "h + 4"] h(1) N0 h4 by (simp add: c1_def HEADERSZ_def u_def)
  have N1: "bufsz c1 = int (length b)" "4 dvd length b" "length b < 2 ^ 31" "u < length b" "rnd n + 4 \<le> length b"
    using h u rn by (simp_all add: c1_def N_def)
  define v where "v = (u + rnd n) mod N"
  have rd: "ring_read b u n = x" using ring_read_mod [of b "h + 4" n] st(2) by (simp add: u_def N_def)
  note body = load_body [OF N1(1-3) u(1) N1(4,5), of a m, unfolded rd, folded N_def, folded v_def]
  have e: "mbf_to_msg c a m = Some (int n, c1\<lparr>mbf_head := int v\<rparr>, write_bytes a x m)"
    using body p1 by (simp add: mbf_to_msg_def h(4) b_def [symmetric] hd c1_def [symmetric] w1 Let_def)
  have v: "v = (h + msg_room x) mod N" by (simp add: v_def u_def msg_room_def n_def mod_simps add.assoc)
  have tx: "total (x # ms) = 4 + rnd n + total ms" by (simp add: msg_room_def n_def)
  have v4: "4 dvd v" "v mod N = v" using N0 h(2,5) rnd_bounds(3) [of n] by (simp_all add: v msg_room_def n_def dvd_mod)
  have "stored b v ms" using st(3) stored_mod [of b "h + msg_room x" ms] by (simp add: v N_def)
  moreover have "stored_size (int n) = int (rnd n + 4)" by (rule stored_size) (use rn h(3) in simp)
  moreover have "frbufsz c1 = int (N - total ms)"
    using rn h(9) unfolding tx by (simp add: c1_def \<open>stored_size (int n) = _\<close> of_nat_diff)
  moreover have "mbf_tail c = int ((v + total ms) mod N)" using h(7) by (simp add: v mod_simps add.assoc)
  ultimately have "mbf_holds (c1\<lparr>mbf_head := int v\<rparr>) ms"
    unfolding mbf_holds_def using h(1-3) rn v4 by (intro exI [where x = v]) (simp add: c1_def N_def b_def)
  with e show ?thesis by (intro exI [where x = "c1\<lparr>mbf_head := int v\<rparr>"]) (simp add: c1_def n_def)
qed

text \<open>The buffer of a new message buffer holds nothing.\<close>

lemma mbf_holds_new:
  "bufsz c = int (length (buffer c)) \<Longrightarrow> 4 dvd length (buffer c) \<Longrightarrow> length (buffer c) < 2 ^ 31 \<Longrightarrow> frbufsz c = bufsz c \<Longrightarrow>
   mbf_head c = 0 \<Longrightarrow> mbf_tail c = 0 \<Longrightarrow> mbf_holds c []"
  unfolding mbf_holds_def by (intro exI [where x = 0]) simp

end
