(* ===== verification/Messagebuf.thy ===== *)
theory Messagebuf
  imports Ring_Buffer
begin

text \<open>
  Message buffers, \<^verbatim>\<open>messagebuf.c\<close>: the system calls over the ring of theory \<open>Ring_Buffer\<close>. Senders wait
  for room, receivers for a message. The memory allocator is not part of the source: the block it
  returns, with its contents, is the argument \<open>mem\<close> of the creation. The address of the local variable
  for the size of a message is an argument of \<open>tk_rcv_mbf\<close>.
\<close>

section \<open>Control blocks\<close>

definition mbfcb :: "kstate \<Rightarrow> nat \<Rightarrow> MBFCB" where
  "mbfcb s i = cbs (mbftab (ko s)) i"

definition set_mbftab :: "MBFCB objtab \<Rightarrow> kstate \<Rightarrow> kstate" where
  "set_mbftab m s = s\<lparr>ko := (ko s)\<lparr>mbftab := m\<rparr>\<rparr>"

definition upd_mbf :: "nat \<Rightarrow> (MBFCB \<Rightarrow> MBFCB) \<Rightarrow> kstate \<Rightarrow> kstate" where
  "upd_mbf i f s = set_mbftab ((mbftab (ko s))\<lparr>cbs := (cbs (mbftab (ko s)))(i := f (cbs (mbftab (ko s)) i))\<rparr>) s"

definition set_free_mbf :: "nat list \<Rightarrow> kstate \<Rightarrow> kstate" where
  "set_free_mbf q s = set_mbftab ((mbftab (ko s))\<lparr>freeq := q\<rparr>) s"

definition mbf_gcb :: "kstate \<Rightarrow> nat \<Rightarrow> GCB" where
  "mbf_gcb s i = \<lparr>wait_queue = QSmbf i, objid = mbfid (mbfcb s i), objatr = mbfatr (mbfcb s i)\<rparr>"

definition mbf_ops :: objops where
  "mbf_ops = \<lparr>oo_type = OT_MBF, oo_dispatch = False, oo_max = \<lambda>s. maxid (mbftab (ko s)), oo_id = \<lambda>s i. mbfid (mbfcb s i),
     oo_atr = \<lambda>s i. mbfatr (mbfcb s i), oo_name = \<lambda>s i. mbf_oname (mbfcb s i),
     oo_set_name = \<lambda>i nm. upd_mbf i (\<lambda>c. c\<lparr>mbf_oname := nm\<rparr>), oo_free = \<lambda>s. freeq (mbftab (ko s)),
     oo_set_free = set_free_mbf, oo_set_id = \<lambda>i x. upd_mbf i (\<lambda>c. c\<lparr>mbfid := x\<rparr>)\<rparr>"

section \<open>Operations\<close>

definition messagebuffer_initialize :: "int option \<Rightarrow> bool \<Rightarrow> kstate \<Rightarrow> ER \<times> kstate" where
  "messagebuffer_initialize max_mbfid mem s =
    (case max_mbfid of
       None \<Rightarrow> (E_SYS, s)
     | Some m \<Rightarrow>
         let s = set_mbftab ((mbftab (ko s))\<lparr>maxid := nat m\<rparr>) s in
         if m < 1 then (E_SYS, s)
         else if \<not> mem then (E_NOMEM, s)
         else (E_OK, set_mbftab ((mbftab (ko s))\<lparr>cbs := (\<lambda>i. if i < nat m then (mbfcb s i)\<lparr>mbfid := 0\<rparr> else mbfcb s i),
                 freeq := [0..<nat m]\<rparr>) s))"

text \<open>Senders at the head of the queue are served as long as their messages fit.\<close>

partial_function (option) mbf_wakeup :: "nat \<Rightarrow> kstate \<Rightarrow> kstate option" where
  "mbf_wakeup i s =
    (case ques s (QSmbf i) of
       [] \<Rightarrow> Some s
     | t # _ \<Rightarrow>
         (let msgsz = smbf_msgsz (winfo (tcbs s t))
          in if \<not> mbf_free (mbfcb s i) msgsz then Some s
             else do {
               c \<leftarrow> msg_to_mbf (bmem (ko s)) (mbfcb s i) (smbf_msg (winfo (tcbs s t))) msgsz;
               mbf_wakeup i (wait_release_ok t (upd_mbf i (\<lambda>_. c) s))
             }))"

definition mbf_chg_pri :: "nat \<Rightarrow> int \<Rightarrow> kstate \<Rightarrow> kstate option" where
  "mbf_chg_pri t oldpri s =
    (let i = INDEX_OBJ (wid (tcbs s t));
         s = (if oldpri \<ge> 0 then gcb_change_priority (mbf_gcb s i) t s else s)
     in mbf_wakeup i s)"

definition mbf_rel_wai :: "nat \<Rightarrow> kstate \<Rightarrow> kstate option" where
  "mbf_rel_wai t s = mbf_chg_pri t (-1) s"

record T_CMBF =
  cmbf_exinf :: UW
  cmbf_mbfatr :: ATR
  cmbf_bufsz :: int
  cmbf_maxmsz :: int
  cmbf_domid :: ID
  cmbf_oname :: "UB list"

definition VALID_MBFATR :: ATR where
  "VALID_MBFATR = TA_TPRI OR TA_NODISWAI OR TA_DOMID OR TA_ONAME OR TA_PRIVATE OR TA_PROTECTED OR TA_PUBLIC"

definition mbf_init :: "T_CMBF \<Rightarrow> int \<Rightarrow> UB list \<Rightarrow> ID \<Rightarrow> MBFCB \<Rightarrow> MBFCB" where
  "mbf_init pk sz b oid c = c\<lparr>mbfid := oid, mbf_exinf := cmbf_exinf pk, mbfatr := cmbf_mbfatr pk, buffer := b,
     bufsz := sz, frbufsz := sz, maxmsz := cmbf_maxmsz pk, mbf_head := 0, mbf_tail := 0\<rparr>"

definition tk_cre_mbf :: "nat \<Rightarrow> UB list option \<Rightarrow> T_CMBF \<Rightarrow> kstate \<Rightarrow> (ER \<times> kstate) option" where
  "tk_cre_mbf prid mem pk s =
    (let create = (\<lambda>sz b. obj_cre [CHECK_PAR (cmbf_bufsz pk \<ge> 0), CHECK_PAR (cmbf_maxmsz pk > 0)] prid mbf_ops (cmbf_mbfatr pk)
           (cmbf_domid pk) (cmbf_oname pk)
           (\<lambda>i oid s. upd_mbf i (mbf_init pk sz b oid) (set_que (QRmbf i) [] (set_que (QSmbf i) [] s))) s)
     in case guards ([CHECK_RSATR (cmbf_mbfatr pk) VALID_MBFATR, CHECK_PAR (cmbf_bufsz pk \<ge> 0), CHECK_PAR (cmbf_maxmsz pk > 0),
          CHECK_PATR (cmbf_mbfatr pk)] @ (if cmbf_mbfatr pk AND TA_DOMID \<noteq> 0 then [CHECK_DOMID s (cmbf_domid pk)] else [])) of
          Some e \<Rightarrow> Some (e, s)
        | None \<Rightarrow>
            (let sz = sint (ROUNDSZ (cmbf_bufsz pk))
             in if sz > 0 then (case mem of None \<Rightarrow> Some (E_NOMEM, s) | Some b \<Rightarrow> create sz b) else create sz []))"

definition tk_del_mbf :: "nat \<Rightarrow> ID \<Rightarrow> kstate \<Rightarrow> (ER \<times> kstate) option" where
  "tk_del_mbf prid mid s =
    obj_call True [CHECK_MBFID s mid] prid mbf_ops mid
      (\<lambda>i s. do { s \<leftarrow> wait_delete (QRmbf i) s; s \<leftarrow> wait_delete (QSmbf i) s; end_critical E_OK (obj_unlink mbf_ops mid i s) }) s"

text \<open>A message goes directly to the waiting receiver \<open>t\<close>.\<close>

definition give_msg :: "nat \<Rightarrow> UW \<Rightarrow> int \<Rightarrow> kstate \<Rightarrow> kstate" where
  "give_msg t msg msgsz s =
    (let s = upd_bmem (memcpy (rmbf_msg (winfo (tcbs s t))) msg (usize msgsz)) s;
         s = s\<lparr>umem := (umem s)(rmbf_p_msgsz (winfo (tcbs s t)) := word_of_int msgsz)\<rparr>
     in wait_release_ok t s)"

text \<open>In a task independent part there is no current task to look at.\<close>

definition snd_diswai :: "nat \<Rightarrow> nat \<Rightarrow> kstate \<Rightarrow> bool option" where
  "snd_diswai prid i s =
    (if in_indp prid s then Some False else do { t \<leftarrow> ctxtsk s prid; Some (is_diswai (mbf_gcb s i) (tcbs s t) TTW_SMBF) })"

definition snd_first :: "nat \<Rightarrow> nat \<Rightarrow> kstate \<Rightarrow> bool option" where
  "snd_first prid i s =
    (if in_indp prid s then Some True else do { t \<leftarrow> ctxtsk s prid; Some (gcb_top_of_wait_queue (mbf_gcb s i) t s = t) })"

definition tk_snd_mbf :: "nat \<Rightarrow> ID \<Rightarrow> UW \<Rightarrow> int \<Rightarrow> TMO \<Rightarrow> kstate \<Rightarrow> (ER \<times> kstate) option" where
  "tk_snd_mbf prid mid msg msgsz tmout s =
    obj_call True [CHECK_MBFID s mid, CHECK_PAR (msgsz > 0), CHECK_TMOUT tmout, CHECK_DISPATCH_POL prid s tmout] prid mbf_ops mid
      (\<lambda>i s. if msgsz > maxmsz (mbfcb s i) then end_critical E_PAR s
             else do {
               dis \<leftarrow> snd_diswai prid i s;
               if dis then end_critical E_DISWAI s
               else (case ques s (QRmbf i) of
                   t # _ \<Rightarrow> end_critical E_OK (give_msg t msg msgsz s)
                 | [] \<Rightarrow> do {
                     first \<leftarrow> snd_first prid i s;
                     if first \<and> mbf_free (mbfcb s i) msgsz then do {
                       c \<leftarrow> msg_to_mbf (bmem (ko s)) (mbfcb s i) msg msgsz;
                       end_critical E_OK (upd_mbf i (\<lambda>_. c) s)
                     }
                     else if tmout = TMO_POL then end_critical E_TMOUT s
                     else wait_on prid (mbf_gcb s i) (if mbfatr (mbfcb s i) AND TA_TPRI \<noteq> 0 then Wspec_smbf_tpri else Wspec_smbf_tfifo)
                       (Winfo_smbf msg msgsz) tmout s
                   })
             }) s"

text \<open>A message comes directly from the waiting sender \<open>t\<close>.\<close>

definition take_msg :: "nat \<Rightarrow> UW \<Rightarrow> kstate \<Rightarrow> kstate" where
  "take_msg t msg s =
    wait_release_ok t (upd_bmem (memcpy msg (smbf_msg (winfo (tcbs s t))) (usize (smbf_msgsz (winfo (tcbs s t))))) s)"

definition tk_rcv_mbf :: "nat \<Rightarrow> ID \<Rightarrow> UW \<Rightarrow> UW \<Rightarrow> TMO \<Rightarrow> kstate \<Rightarrow> (ER \<times> kstate) option" where
  "tk_rcv_mbf prid mid msg p_rcvsz tmout s =
    obj_call True [CHECK_MBFID s mid, CHECK_TMOUT tmout, CHECK_DISPATCH prid s] prid mbf_ops mid
      (\<lambda>i s. do {
         t \<leftarrow> ctxtsk s prid;
         if is_diswai (mbf_gcb s i) (tcbs s t) TTW_RMBF then end_critical E_DISWAI s
         else if \<not> mbf_empty (mbfcb s i) then do {
           (rcvsz, c, m) \<leftarrow> mbf_to_msg (mbfcb s i) msg (bmem (ko s));
           s \<leftarrow> mbf_wakeup i (upd_mbf i (\<lambda>_. c) (upd_bmem (\<lambda>_. m) s));
           end_critical rcvsz s
         }
         else (case ques s (QSmbf i) of
             x # _ \<Rightarrow> do {
               let rcvsz = smbf_msgsz (winfo (tcbs s x));
               s \<leftarrow> mbf_wakeup i (take_msg x msg s);
               end_critical rcvsz s
             }
           | [] \<Rightarrow> wait_tail prid (QRmbf i) mid (mbfatr (mbfcb s i)) Wspec_rmbf (Winfo_rmbf msg p_rcvsz) tmout s)
       }) s"

record T_RMBF =
  rmbf_exinf :: UW
  rmbf_wtsk :: ID
  rmbf_stsk :: ID
  rmbf_msgsz :: int
  rmbf_frbufsz :: int
  rmbf_maxmsz :: int

text \<open>The size of the next message; a header outside of the buffer does not occur.\<close>

definition next_msgsz :: "kstate \<Rightarrow> nat \<Rightarrow> int" where
  "next_msgsz s i =
    (if \<not> mbf_empty (mbfcb s i) then (case peek (buffer (mbfcb s i)) (mbf_head (mbfcb s i)) 4 of Some h \<Rightarrow> bytes_header h | None \<Rightarrow> 0)
     else (case ques s (QSmbf i) of t # _ \<Rightarrow> smbf_msgsz (winfo (tcbs s t)) | [] \<Rightarrow> 0))"

definition mbf_ref :: "kstate \<Rightarrow> nat \<Rightarrow> T_RMBF" where
  "mbf_ref s i = \<lparr>rmbf_exinf = mbf_exinf (mbfcb s i), rmbf_wtsk = wait_tskid (QRmbf i) s, rmbf_stsk = wait_tskid (QSmbf i) s,
     rmbf_msgsz = next_msgsz s i, rmbf_frbufsz = frbufsz (mbfcb s i), rmbf_maxmsz = maxmsz (mbfcb s i)\<rparr>"

definition tk_ref_mbf :: "nat \<Rightarrow> ID \<Rightarrow> kstate \<Rightarrow> (ER \<times> T_RMBF option) option" where
  "tk_ref_mbf prid mid s = obj_ref [CHECK_MBFID s mid] prid mbf_ops mid (mbf_ref s) s"

definition td_ref_mbf :: "ID \<Rightarrow> kstate \<Rightarrow> ER \<times> T_RMBF option" where
  "td_ref_mbf mid s = obj_td_ref [CHECK_MBFID s mid] mbf_ops mid (mbf_ref s) s"

definition td_smbf_que :: "ID \<Rightarrow> int \<Rightarrow> kstate \<Rightarrow> ER \<times> ID list" where
  "td_smbf_que mid nent s = obj_td_que [CHECK_MBFID s mid] mbf_ops QSmbf mid nent s"

definition td_rmbf_que :: "ID \<Rightarrow> int \<Rightarrow> kstate \<Rightarrow> ER \<times> ID list" where
  "td_rmbf_que mid nent s = obj_td_que [CHECK_MBFID s mid] mbf_ops QRmbf mid nent s"

definition tk_fnd_mbf :: "nat \<Rightarrow> ID \<Rightarrow> UB list \<Rightarrow> kstate \<Rightarrow> (ER \<times> kstate) option" where
  "tk_fnd_mbf prid = obj_fnd prid mbf_ops"

definition tk_dmi_mbf :: "nat \<Rightarrow> ID \<Rightarrow> kstate \<Rightarrow> ((ER \<times> T_DMI option) \<times> kstate) option" where
  "tk_dmi_mbf prid = obj_dmi prid mbf_ops"

definition messagebuffer_getname :: "ID \<Rightarrow> kstate \<Rightarrow> ER \<times> UB list option" where
  "messagebuffer_getname = obj_getname mbf_ops"

definition messagebuffer_setname :: "ID \<Rightarrow> UB list \<Rightarrow> kstate \<Rightarrow> ER \<times> kstate" where
  "messagebuffer_setname = obj_setname mbf_ops"

definition td_lst_mbf :: "int \<Rightarrow> kstate \<Rightarrow> int \<times> ID list" where
  "td_lst_mbf = obj_lst mbf_ops"

definition td_fnd_mbf :: "ID \<Rightarrow> UB list \<Rightarrow> kstate \<Rightarrow> ER" where
  "td_fnd_mbf = obj_td_fnd mbf_ops"

definition td_dmi_mbf :: "ID \<Rightarrow> kstate \<Rightarrow> ER \<times> T_DMI option" where
  "td_dmi_mbf = obj_td_dmi mbf_ops"

section \<open>The invariant of the buffers\<close>

lemma set_mbftab_sel [simp]:
  "tcbs (set_mbftab m s) = tcbs s" "ques (set_mbftab m s) = ques s" "kinv (set_mbftab m s) \<longleftrightarrow> kinv s" "mbftab (ko (set_mbftab m s)) = m"
  "ctxtsk (set_mbftab m s) = ctxtsk s" "rdy (set_mbftab m s) = rdy s" "waiters (set_mbftab m s) = waiters s" "umem (set_mbftab m s) = umem s"
  "num_proc (set_mbftab m s) = num_proc s" "mtxtab (set_mbftab m s) = mtxtab s" "bmem (ko (set_mbftab m s)) = bmem (ko s)"
  by (simp_all add: set_mbftab_def waiters_def fun_eq_iff rdy_def)

lemma upd_mbf_sel [simp]:
  "tcbs (upd_mbf i f s) = tcbs s" "ques (upd_mbf i f s) = ques s" "kinv (upd_mbf i f s) \<longleftrightarrow> kinv s"
  "mbfcb (upd_mbf i f s) = (mbfcb s)(i := f (mbfcb s i))" "freeq (mbftab (ko (upd_mbf i f s))) = freeq (mbftab (ko s))"
  "maxid (mbftab (ko (upd_mbf i f s))) = maxid (mbftab (ko s))" "waiters (upd_mbf i f s) = waiters s" "rdy (upd_mbf i f s) = rdy s"
  "ctxtsk (upd_mbf i f s) = ctxtsk s" "umem (upd_mbf i f s) = umem s" "bmem (ko (upd_mbf i f s)) = bmem (ko s)"
  by (simp_all add: upd_mbf_def mbfcb_def fun_eq_iff)

lemma set_free_mbf_sel [simp]:
  "tcbs (set_free_mbf f s) = tcbs s" "ques (set_free_mbf f s) = ques s" "kinv (set_free_mbf f s) \<longleftrightarrow> kinv s"
  "mbfcb (set_free_mbf f s) = mbfcb s" "freeq (mbftab (ko (set_free_mbf f s))) = f"
  "maxid (mbftab (ko (set_free_mbf f s))) = maxid (mbftab (ko s))" "waiters (set_free_mbf f s) = waiters s"
  by (simp_all add: set_free_mbf_def mbfcb_def fun_eq_iff)

definition mbf_view :: "kstate \<Rightarrow> nat \<Rightarrow> MBFCB \<times> waiter list \<times> waiter list" where
  "mbf_view s i = (mbfcb s i, waiters s (QSmbf i), waiters s (QRmbf i))"

definition snd_waiter :: "MBFCB \<Rightarrow> waiter \<Rightarrow> bool" where
  "snd_waiter c w \<longleftrightarrow> (case w of (t, wi, d, sp, p) \<Rightarrow>
     d = mbfid c \<and> sp = (if mbfatr c AND TA_TPRI \<noteq> 0 then Wspec_smbf_tpri else Wspec_smbf_tfifo) \<and>
     (\<exists>m n. wi = Winfo_smbf m (int n) \<and> 0 < n \<and> n < 2 ^ 31))"

definition rcv_waiter :: "MBFCB \<Rightarrow> waiter \<Rightarrow> bool" where
  "rcv_waiter c w \<longleftrightarrow> (case w of (t, wi, d, sp, p) \<Rightarrow> INDEX_OBJ d = INDEX_OBJ (mbfid c) \<and> sp = Wspec_rmbf)"

text \<open>
  The first sender does not fit; receivers wait only while there is neither a message nor a sender.
  \<open>mbf_wf0\<close> leaves out the first part, which holds again after \<open>mbf_wakeup\<close>.
\<close>

definition mbf_settled :: "MBFCB \<Rightarrow> waiter list \<Rightarrow> bool" where
  "mbf_settled c ws \<longleftrightarrow> (case ws of [] \<Rightarrow> True | w # _ \<Rightarrow> \<not> mbf_free c (smbf_msgsz (fst (snd w))))"

fun mbf_wf0 :: "nat \<Rightarrow> MBFCB \<times> waiter list \<times> waiter list \<Rightarrow> bool" where
  "mbf_wf0 i (c, ss, rs) \<longleftrightarrow>
     (if mbfid c = 0 then ss = [] \<and> rs = []
      else INDEX_OBJ (mbfid c) = i \<and> maxmsz c < 2 ^ 31 \<and> (\<exists>ms. mbf_holds c ms) \<and> (mbfatr c AND TA_TPRI \<noteq> 0 \<longrightarrow> sorted (map waiter_pri ss)) \<and>
        (\<forall>w\<in>set ss. snd_waiter c w) \<and> (\<forall>w\<in>set rs. rcv_waiter c w) \<and> (rs \<noteq> [] \<longrightarrow> ss = [] \<and> mbf_empty c))"

definition mbf_wf :: "nat \<Rightarrow> MBFCB \<times> waiter list \<times> waiter list \<Rightarrow> bool" where
  "mbf_wf i v \<longleftrightarrow> mbf_wf0 i v \<and> mbf_settled (fst v) (fst (snd v))"

definition mbf_agree :: "kstate \<Rightarrow> kstate \<Rightarrow> bool" where
  "mbf_agree s s' \<longleftrightarrow> mbftab (ko s') = mbftab (ko s)"

lemma mbf_name [simp]: "mbf_holds (c\<lparr>mbf_oname := nm\<rparr>) ms \<longleftrightarrow> mbf_holds c ms" "mbf_free (c\<lparr>mbf_oname := nm\<rparr>) n \<longleftrightarrow> mbf_free c n"
  "mbf_empty (c\<lparr>mbf_oname := nm\<rparr>) \<longleftrightarrow> mbf_empty c"
  by (simp_all add: mbf_holds_def mbf_free_def mbf_empty_def)

lemma mbf_name_settled [simp]: "mbf_settled (c\<lparr>mbf_oname := nm\<rparr>) ws \<longleftrightarrow> mbf_settled c ws"
  by (cases ws) (simp_all add: mbf_settled_def)

interpretation mbf_tab: obj_table mbf_ops mbf_view "\<lambda>v. mbfid (fst v)" mbf_wf mbf_agree "\<lambda>i. {QSmbf i, QRmbf i}"
proof unfold_locales
  show "mbf_agree s s' \<Longrightarrow> touches Q s s' \<Longrightarrow> {QSmbf i, QRmbf i} \<inter> Q = {} \<Longrightarrow> mbf_view s' i = mbf_view s i" for s s' Q i
    by (simp add: mbf_agree_def mbf_view_def mbfcb_def touchesD)
qed (auto simp: mbf_wf_def mbf_agree_def objs_same_def mbf_ops_def mbf_view_def waiters_def snd_waiter_def rcv_waiter_def mbfcb_def)

abbreviation mbfs_ok :: "kstate \<Rightarrow> bool" where
  "mbfs_ok \<equiv> mbf_tab.table_ok"

lemma mbf_ops_sel [simp]:
  "oo_max mbf_ops s = maxid (mbftab (ko s))" "oo_free mbf_ops s = freeq (mbftab (ko s))" "oo_type mbf_ops = OT_MBF"
  "oo_set_id mbf_ops i x = upd_mbf i (\<lambda>c. c\<lparr>mbfid := x\<rparr>)" "oo_set_free mbf_ops = set_free_mbf"
  by (simp_all add: mbf_ops_def)

lemma mbf_index: "guards (CHECK_MBFID s mid # gs) = None \<Longrightarrow> INDEX_OBJ mid < maxid (mbftab (ko s))"
  by (auto simp: guards_None CHECK_MBFID_def intro: CHECK_OBJID_index)

lemma mbfs_okD: "mbfs_ok s \<Longrightarrow> i < maxid (mbftab (ko s)) \<Longrightarrow> mbf_wf i (mbfcb s i, waiters s (QSmbf i), waiters s (QRmbf i))"
  using mbf_tab.table_okD [of s i] by (simp add: mbf_view_def)

lemma mbfs_ok_step:
  assumes "mbfs_ok s" "maxid (mbftab (ko s')) = maxid (mbftab (ko s))" "freeq (mbftab (ko s')) = freeq (mbftab (ko s))"
    "\<And>j. j \<noteq> i \<Longrightarrow> mbfcb s' j = mbfcb s j" "touches {QSmbf i, QRmbf i} s s'" "mbfid (mbfcb s i) \<noteq> 0"
    "mbf_wf i (mbfcb s' i, waiters s' (QSmbf i), waiters s' (QRmbf i))"
  shows "mbfs_ok s'"
  by (rule mbf_tab.table_ok_step [OF assms(1), where i = i])
    (use assms touchesD [OF assms(5)] in \<open>simp_all add: mbf_view_def\<close>)

section \<open>Serving the senders\<close>

text \<open>What \<open>mbf_wakeup\<close> leaves of the control block, and of the state beside it and the released tasks \<open>R\<close>.\<close>

definition mbf_part :: "MBFCB \<Rightarrow> MBFCB \<Rightarrow> bool" where
  "mbf_part c c' \<longleftrightarrow> mbfid c' = mbfid c \<and> mbfatr c' = mbfatr c \<and> maxmsz c' = maxmsz c \<and> bufsz c' = bufsz c \<and>
     length (buffer c') = length (buffer c)"

definition mbf_served :: "nat \<Rightarrow> nat set \<Rightarrow> kstate \<Rightarrow> kstate \<Rightarrow> bool" where
  "mbf_served i R s s' \<longleftrightarrow> kinv s' \<and> (\<forall>x\<in>R. released E_OK (tcbs s x) (tcbs s' x)) \<and> (\<forall>x. x \<notin> R \<longrightarrow> tcbs s' x = tcbs s x) \<and>
     (\<forall>q. \<not> ready_head q \<longrightarrow> q \<noteq> QSmbf i \<longrightarrow> ques s' q = ques s q) \<and> set (rdy s) \<subseteq> set (rdy s') \<and>
     objs_same (s\<lparr>ko := ko s'\<rparr>) s' \<and> (\<exists>m. ko s' = (ko s)\<lparr>mbftab := m\<rparr> \<and> maxid m = maxid (mbftab (ko s)) \<and> freeq m = freeq (mbftab (ko s))) \<and>
     (\<forall>j. j \<noteq> i \<longrightarrow> mbfcb s' j = mbfcb s j) \<and> mbf_part (mbfcb s i) (mbfcb s' i)"

lemma mbf_served_refl: "kinv s \<Longrightarrow> mbf_served i {} s s"
  by (simp add: mbf_served_def mbf_part_def objs_same_def) (rule exI [where x = "mbftab (ko s)"], simp)

lemma mbf_served_trans:
  assumes a: "mbf_served i R s s1" and b: "mbf_served i R' s1 s2" and d: "R \<inter> R' = {}"
  shows "mbf_served i (R \<union> R') s s2"
proof -
  have "released E_OK (tcbs s x) (tcbs s2 x)" if "x \<in> R \<union> R'" for x
    using that a b d by (cases "x \<in> R") (auto simp: mbf_served_def)
  moreover obtain m m' where "ko s1 = (ko s)\<lparr>mbftab := m\<rparr>" "maxid m = maxid (mbftab (ko s))" "freeq m = freeq (mbftab (ko s))"
    "ko s2 = (ko s1)\<lparr>mbftab := m'\<rparr>" "maxid m' = maxid (mbftab (ko s1))" "freeq m' = freeq (mbftab (ko s1))"
    using a b by (auto simp: mbf_served_def)
  then have "\<exists>m. ko s2 = (ko s)\<lparr>mbftab := m\<rparr> \<and> maxid m = maxid (mbftab (ko s)) \<and> freeq m = freeq (mbftab (ko s))"
    by (intro exI [where x = m']) simp
  ultimately show ?thesis using a b by (auto simp: mbf_served_def objs_same_def mbf_part_def)
qed

lemma upd_mbf_served:
  assumes "kinv s" and "mbf_part (mbfcb s i) c"
  shows "mbf_served i {} s (upd_mbf i (\<lambda>_. c) s)"
proof -
  let ?s = "upd_mbf i (\<lambda>_. c) s"
  have "ko ?s = (ko s)\<lparr>mbftab := mbftab (ko ?s)\<rparr>" by (simp add: upd_mbf_def set_mbftab_def)
  then show ?thesis using assms
    by (simp add: mbf_served_def) (auto simp: objs_same_def upd_mbf_def set_mbftab_def intro: exI [where x = "mbftab (ko ?s)"])
qed

lemma release_served:
  assumes k: "kinv s" and t: "t \<in> set (ques s (QSmbf i))"
  shows "mbf_served i {t} s (wait_release_ok t s)"
proof -
  have h: "wait_head (QSmbf i)" by simp
  note r = wait_release_props [OF k h t, where e = E_OK, folded wait_release_ok_ercd_E_OK]
  have e: "ko (wait_release_ok t s) = ko s" using r(6) by (simp add: objs_same_def)
  have "\<exists>m. ko (wait_release_ok t s) = (ko s)\<lparr>mbftab := m\<rparr> \<and> maxid m = maxid (mbftab (ko s)) \<and> freeq m = freeq (mbftab (ko s))"
    unfolding e by (rule exI [where x = "mbftab (ko s)"]) simp
  moreover have "objs_same (s\<lparr>ko := ko (wait_release_ok t s)\<rparr>) (wait_release_ok t s)" using r(6) by (simp add: objs_same_def)
  moreover have "mbfcb (wait_release_ok t s) = mbfcb s" using r(6) by (simp add: objs_same_def mbfcb_def fun_eq_iff)
  ultimately show ?thesis using r(1,3-5,7) by (auto simp: mbf_served_def mbf_part_def)
qed

lemma mbf_served_waiters:
  assumes k: "kinv s" and m: "mbf_served i R s s'" and q: "\<not> ready_head q" "q \<noteq> QSmbf i"
  shows "waiters s' q = waiters s q"
proof -
  have "wview (tcbs s' x) = wview (tcbs s x)" for x
    using m released_wview by (cases "x \<in> R") (auto simp: mbf_served_def)
  then show ?thesis using m q by (simp add: waiters_def mbf_served_def)
qed

lemma mbf_served_touches: "kinv s \<Longrightarrow> mbf_served i R s s' \<Longrightarrow> touches {QSmbf i} s s'"
  using mbf_served_waiters by (simp add: touches_def)

definition snd_msg :: "kstate \<Rightarrow> waiter \<Rightarrow> UB list" where
  "snd_msg s w = read_bytes (bmem (ko s)) (smbf_msg (fst (snd w))) (nat (smbf_msgsz (fst (snd w))))"

text \<open>
  The senders that are served are a prefix of the queue, their messages follow those in the buffer in
  the same order, and the next sender, if any, does not fit.
\<close>

lemma mbf_wakeup_ok:
  assumes "kinv s" and "mbf_holds (mbfcb s i) ms" and "\<forall>w\<in>set (waiters s (QSmbf i)). \<exists>m n. fst (snd w) = Winfo_smbf m (int n) \<and> 0 < n \<and> n < 2 ^ 31"
    and "waiters s (QSmbf i) = ws"
  shows "\<exists>s' n. mbf_wakeup i s = Some s' \<and> mbf_served i (fst ` set (take n ws)) s s' \<and> waiters s' (QSmbf i) = drop n ws \<and>
     mbf_holds (mbfcb s' i) (ms @ map (snd_msg s) (take n ws)) \<and> mbf_settled (mbfcb s' i) (drop n ws)"
  using assms
proof (induction ws arbitrary: s ms)
  case Nil
  then have "mbf_wakeup i s = Some s" by (subst mbf_wakeup.simps) (simp add: waiters_def)
  then show ?case using Nil mbf_served_refl by (intro exI [where x = s] exI [where x = 0]) (simp add: mbf_settled_def)
next
  case (Cons w ws)
  obtain t wi y where w: "w = (t, wi, y)" by (cases w)
  obtain m n where wi: "wi = Winfo_smbf m (int n)" "0 < n" "n < 2 ^ 31" using Cons.prems(3,4) w by auto
  have q: "ques s (QSmbf i) = t # map fst ws" using Cons.prems(4) waiters_tasks [of s "QSmbf i"] w by simp
  have inf: "winfo (tcbs s t) = wi" using Cons.prems(4) q w by (simp add: waiters_def wview_def)
  have fr: "mbf_free (mbfcb s i) (int n) \<longleftrightarrow> total ms + (4 + n) \<le> length (buffer (mbfcb s i))"
    by (rule mbf_free_holds [OF Cons.prems(2) wi(3)])
  show ?case
  proof (cases "mbf_free (mbfcb s i) (int n)")
    case False
    then have "mbf_wakeup i s = Some s" by (subst mbf_wakeup.simps) (simp add: q inf wi(1) Let_def)
    then show ?thesis using Cons.prems False w wi mbf_served_refl
      by (intro exI [where x = s] exI [where x = 0]) (simp add: mbf_settled_def)
  next
    case True
    with fr have room: "total ms + (4 + n) \<le> length (buffer (mbfcb s i))" by simp
    from msg_to_mbf_ok [OF Cons.prems(2) wi(2) room] obtain c where
      c: "msg_to_mbf (bmem (ko s)) (mbfcb s i) m (int n) = Some c" "mbf_holds c (ms @ [read_bytes (bmem (ko s)) m n])"
        "c = (mbfcb s i)\<lparr>frbufsz := frbufsz c, buffer := buffer c, mbf_tail := mbf_tail c\<rparr>" "length (buffer c) = length (buffer (mbfcb s i))"
      by blast
    have part: "mbf_part (mbfcb s i) c" unfolding mbf_part_def using c(4) by (subst (1 2 3 4) c(3)) simp
    define s1 where "s1 = upd_mbf i (\<lambda>_. c) s"
    have k1: "kinv s1" "t \<in> set (ques s1 (QSmbf i))" using Cons.prems(1) q by (simp_all add: s1_def)
    define s2 where "s2 = wait_release_ok t s1"
    have v1: "mbf_served i {} s s1" unfolding s1_def by (rule upd_mbf_served [OF Cons.prems(1) part])
    have v2: "mbf_served i {t} s1 s2" unfolding s2_def by (rule release_served [OF k1])
    have v: "mbf_served i {t} s s2" using mbf_served_trans [OF v1 v2] by simp
    have k2: "kinv s2" using v2 by (simp add: mbf_served_def)
    have h: "wait_head (QSmbf i)" by simp
    note tr = touches_release [OF k1(1) h k1(2), where e = E_OK, folded wait_release_ok_ercd_E_OK s2_def]
    have nt: "t \<notin> fst ` set ws"
    proof -
      have "distinct (t # map fst ws)" using kinv_dest(5) [OF Cons.prems(1), of "QSmbf i"] q by simp
      then show ?thesis by simp
    qed
    then have "filter (\<lambda>x. fst x \<noteq> t) ws = ws" by (auto intro!: filter_True)
    then have w2: "waiters s2 (QSmbf i) = ws" using tr(2) Cons.prems(4) w by (simp add: s1_def)
    have c2: "mbfcb s2 i = c"
      using wait_release_props(6) [OF k1(1) h k1(2), where e = E_OK, folded wait_release_ok_ercd_E_OK s2_def]
      by (simp add: objs_same_def mbfcb_def) (simp add: s1_def upd_mbf_def set_mbftab_def)
    have b2: "bmem (ko s2) = bmem (ko s)" using v by (auto simp: mbf_served_def)
    have h2: "mbf_holds (mbfcb s2 i) (ms @ [read_bytes (bmem (ko s)) m n])" using c(2) c2 by simp
    have all2: "\<forall>w\<in>set (waiters s2 (QSmbf i)). \<exists>m n. fst (snd w) = Winfo_smbf m (int n) \<and> 0 < n \<and> n < 2 ^ 31"
      using Cons.prems(3,4) w2 by simp
    have e: "mbf_wakeup i s = mbf_wakeup i s2"
      by (subst mbf_wakeup.simps) (use q inf wi(1) True c(1) in \<open>simp add: Let_def s1_def s2_def\<close>)
    from Cons.IH [OF k2 h2 all2 w2] obtain s' j where
      s': "mbf_wakeup i s2 = Some s'" "mbf_served i (fst ` set (take j ws)) s2 s'" "waiters s' (QSmbf i) = drop j ws"
        "mbf_holds (mbfcb s' i) ((ms @ [read_bytes (bmem (ko s)) m n]) @ map (snd_msg s2) (take j ws))" "mbf_settled (mbfcb s' i) (drop j ws)"
      by blast
    have "{t} \<inter> fst ` set (take j ws) = {}" using nt set_take_subset by fastforce
    from mbf_served_trans [OF v s'(2) this] have "mbf_served i (fst ` set (take (Suc j) (w # ws))) s s'" by (simp add: w)
    moreover have "snd_msg s2 = snd_msg s" by (simp add: snd_msg_def fun_eq_iff b2)
    then have "mbf_holds (mbfcb s' i) (ms @ map (snd_msg s) (take (Suc j) (w # ws)))"
      using s'(4) by (simp add: snd_msg_def w wi(1))
    ultimately show ?thesis using s' e by (intro exI [where x = s'] exI [where x = "Suc j"]) simp
  qed
qed

lemma mbf_part_waiter: "mbf_part c c' \<Longrightarrow> snd_waiter c' w \<longleftrightarrow> snd_waiter c w" "mbf_part c c' \<Longrightarrow> rcv_waiter c' w \<longleftrightarrow> rcv_waiter c w"
  by (simp_all add: mbf_part_def snd_waiter_def rcv_waiter_def)

lemma mbf_wf0_served:
  assumes "mbf_wf0 i (c, ss, [])" and "mbf_part c c'" and "mbf_holds c' ms"
  shows "mbf_wf0 i (c', drop n ss, [])"
  using assms mbf_part_waiter [OF assms(2)] set_drop_subset [of n ss]
  by (auto simp: mbf_part_def drop_map [symmetric] intro: sorted_wrt_drop)

lemma snd_waiter_info: "snd_waiter c w \<Longrightarrow> \<exists>m n. fst (snd w) = Winfo_smbf m (int n) \<and> 0 < n \<and> n < 2 ^ 31"
  by (auto simp: snd_waiter_def)

text \<open>The step from \<open>s0\<close> to \<open>s\<close> changed object \<open>i\<close> only; nobody waits to receive.\<close>

lemma mbf_wakeup_table:
  assumes k: "kinv s" and ok: "mbfs_ok s0" and i: "mbfid (mbfcb s i) \<noteq> 0" "mbfid (mbfcb s0 i) \<noteq> 0"
    and w: "mbf_wf0 i (mbfcb s i, waiters s (QSmbf i), [])" and r: "ques s (QRmbf i) = []"
    and t: "maxid (mbftab (ko s)) = maxid (mbftab (ko s0))" "freeq (mbftab (ko s)) = freeq (mbftab (ko s0))"
    and v: "\<And>j. j \<noteq> i \<Longrightarrow> mbf_view s j = mbf_view s0 j"
  shows "\<exists>s' n. mbf_wakeup i s = Some s' \<and> mbf_served i (set (take n (ques s (QSmbf i)))) s s' \<and> mbfs_ok s' \<and>
     ques s' (QSmbf i) = drop n (ques s (QSmbf i))"
proof -
  obtain ms where ms: "mbf_holds (mbfcb s i) ms" using w i(1) by auto
  have a: "\<forall>w\<in>set (waiters s (QSmbf i)). \<exists>m n. fst (snd w) = Winfo_smbf m (int n) \<and> 0 < n \<and> n < 2 ^ 31"
    using w i(1) snd_waiter_info by auto
  from mbf_wakeup_ok [OF k ms a refl] obtain s' n where
    s': "mbf_wakeup i s = Some s'" "mbf_served i (fst ` set (take n (waiters s (QSmbf i)))) s s'"
      "waiters s' (QSmbf i) = drop n (waiters s (QSmbf i))" "\<exists>ms. mbf_holds (mbfcb s' i) ms" "mbf_settled (mbfcb s' i) (drop n (waiters s (QSmbf i)))"
    by blast
  obtain ms' where ms': "mbf_holds (mbfcb s' i) ms'" using s'(4) by blast
  have part: "mbf_part (mbfcb s i) (mbfcb s' i)" using s'(2) by (simp add: mbf_served_def)
  have wr: "waiters s' (QRmbf i) = []" using mbf_served_waiters [OF k s'(2), of "QRmbf i"] r by (simp add: waiters_def)
  have "mbf_wf i (mbfcb s' i, waiters s' (QSmbf i), waiters s' (QRmbf i))"
    unfolding mbf_wf_def s'(3) wr using mbf_wf0_served [OF w part ms'] s'(5) by (simp del: mbf_wf0.simps)
  then have wf: "mbf_wf i (mbf_view s' i)" by (simp add: mbf_view_def)
  have v': "mbf_view s' j = mbf_view s0 j" if "j \<noteq> i" for j
  proof -
    have "mbf_view s' j = mbf_view s j"
      using mbf_served_waiters [OF k s'(2)] s'(2) that by (simp add: mbf_view_def) (auto simp: mbf_served_def)
    then show ?thesis using v [OF that] by simp
  qed
  have "oo_max mbf_ops s' = oo_max mbf_ops s0" "oo_free mbf_ops s' = oo_free mbf_ops s0"
    using s'(2) t by (auto simp: mbf_served_def)
  then have "mbfs_ok s'"
    by (intro mbf_tab.table_ok_step [OF ok _ _ v' _ wf]) (use i(2) in \<open>simp_all add: mbf_view_def\<close>)
  moreover have "fst ` set (take n (waiters s (QSmbf i))) = set (take n (ques s (QSmbf i)))"
    using waiters_tasks [of s "QSmbf i"] by (metis list.set_map take_map)
  moreover have "ques s' (QSmbf i) = drop n (ques s (QSmbf i))" using s'(3) by (metis drop_map waiters_tasks)
  ultimately show ?thesis using s'(1,2) by auto
qed

section \<open>Every call keeps the invariant\<close>

lemma tk_cre_mbf_inv:
  assumes k: "kinv s" and ok: "mbfs_ok s" and r: "tk_cre_mbf prid mem pk s = Some (e, s')"
    and b: "cmbf_bufsz pk \<le> 0x7FFFFFFC" "cmbf_maxmsz pk < 2 ^ 31"
    and mem: "\<And>b. mem = Some b \<Longrightarrow> length b = nat (sint (ROUNDSZ (cmbf_bufsz pk)))"
  shows "kinv s' \<and> mbfs_ok s'"
proof -
  let ?sz = "sint (ROUNDSZ (cmbf_bufsz pk))"
  consider "s' = s" | bb where "bb = [] \<and> ?sz \<le> 0 \<or> mem = Some bb" "0 \<le> cmbf_bufsz pk"
      "obj_cre [CHECK_PAR (cmbf_bufsz pk \<ge> 0), CHECK_PAR (cmbf_maxmsz pk > 0)] prid mbf_ops (cmbf_mbfatr pk) (cmbf_domid pk) (cmbf_oname pk)
      (\<lambda>i oid s. upd_mbf i (mbf_init pk ?sz bb oid) (set_que (QRmbf i) [] (set_que (QSmbf i) [] s))) s = Some (e, s')"
    using r by (auto simp: tk_cre_mbf_def Let_def CHECK_PAR_def CHECK_RSATR_def split: option.splits if_splits)
  then show ?thesis
  proof cases
    case 1
    then show ?thesis using k ok by simp
  next
    case (2 bb)
    define n where "n = rnd (nat (cmbf_bufsz pk))"
    have n: "nat (cmbf_bufsz pk) \<le> 0x7FFFFFFC" using b(1) by simp
    have "n \<le> 0x7FFFFFFC" unfolding n_def by (rule rnd_le [OF _ n]) simp
    then have n31: "n < 2 ^ 31" by simp
    have sz: "?sz = int n" using sint_ROUNDSZ [of "nat (cmbf_bufsz pk)"] n31 2(2) by (simp add: n_def)
    have lb: "length bb = n" using 2(1) mem sz by auto
    have n4: "4 dvd n" by (simp add: n_def rnd_bounds(3))
    show ?thesis
    proof (rule mbf_tab.obj_cre_ok [OF 2(3) k ok])
      fix i oid u
      assume u: "kinv u" "mbf_wf i (mbf_view u i)" "mbfid (fst (mbf_view u i)) = 0" "INDEX_OBJ oid = i" "oid \<noteq> 0"
      have q: "ques u (QSmbf i) = []" "ques u (QRmbf i) = []" using u(2,3) by (simp_all add: mbf_view_def mbf_wf_def)
      have s: "set_que (QRmbf i) [] (set_que (QSmbf i) [] u) = u" using q by (simp add: set_que_same)
      have "mbf_holds (mbf_init pk ?sz bb oid (mbfcb u i)) []"
        by (rule mbf_holds_new) (use sz lb n4 n31 in \<open>simp_all add: mbf_init_def\<close>)
      then show "mbf_tab.step_on i u (upd_mbf i (mbf_init pk ?sz bb oid) (set_que (QRmbf i) [] (set_que (QSmbf i) [] u)))"
        unfolding s using u(1,4,5) q b(2)
        by (simp add: mbf_tab.step_on_def mbf_view_def waiters_def mbf_wf_def mbf_settled_def) (auto simp: mbf_init_def)
    qed
  qed
qed

lemma tk_del_mbf_inv:
  assumes "kinv s" and "mbfs_ok s" and "tk_del_mbf prid mid s = Some (e, s')"
  shows "kinv s' \<and> mbfs_ok s'"
  by (rule mbf_tab.obj_del2_ok [OF assms(3)[unfolded tk_del_mbf_def] assms(1,2)])
    (use mbf_index in \<open>auto simp: mbf_view_def mbf_wf_def mbf_settled_def waiters_def\<close>)

lemma mbf_mem [simp]:
  "mbfcb (s\<lparr>umem := m\<rparr>) = mbfcb s" "mbfs_ok (s\<lparr>umem := m\<rparr>) \<longleftrightarrow> mbfs_ok s" "mbfcb (upd_bmem f s) = mbfcb s" "mbfs_ok (upd_bmem f s) \<longleftrightarrow> mbfs_ok s"
proof -
  have v: "waiters (s\<lparr>umem := m\<rparr>) = waiters s" by (simp add: waiters_def fun_eq_iff)
  show w: "mbfcb (s\<lparr>umem := m\<rparr>) = mbfcb s" "mbfcb (upd_bmem f s) = mbfcb s"
    by (simp_all add: mbfcb_def fun_eq_iff)
  show "mbfs_ok (s\<lparr>umem := m\<rparr>) \<longleftrightarrow> mbfs_ok s" "mbfs_ok (upd_bmem f s) \<longleftrightarrow> mbfs_ok s"
    using v w by (simp_all add: mbf_tab.table_ok_def mbf_view_def)
qed

text \<open>A receiver, or a sender, leaves its queue.\<close>

lemma mbf_wf_less: "mbf_wf i (c, ss, rs) \<Longrightarrow> mbf_wf i (c, ss, filter Q rs)"
  by (auto simp: mbf_wf_def split: if_splits)

lemma rcv_release_ok:
  assumes k: "kinv s" and ok: "mbfs_ok s" and i: "i < maxid (mbftab (ko s))" "mbfid (mbfcb s i) \<noteq> 0" and t: "t \<in> set (ques s (QRmbf i))"
  shows "kinv (wait_release_ok_ercd t e s) \<and> mbfs_ok (wait_release_ok_ercd t e s)"
proof -
  let ?u = "wait_release_ok_ercd t e s"
  have h: "wait_head (QRmbf i)" by simp
  note rp = wait_release_props [OF k h t, where e = e]
  note tch = touches_release [OF k h t, where e = e]
  have tab: "mbfcb ?u = mbfcb s" "mbftab (ko ?u) = mbftab (ko s)" using rp(6) by (simp_all add: objs_same_def mbfcb_def fun_eq_iff)
  have w: "waiters ?u (QSmbf i) = waiters s (QSmbf i)" using touchesD [OF tch(1), of "QSmbf i"] by simp
  have "mbf_wf i (mbfcb ?u i, waiters ?u (QSmbf i), waiters ?u (QRmbf i))"
    unfolding tab w tch(2) by (rule mbf_wf_less [OF mbfs_okD [OF ok i(1)]])
  then have "mbfs_ok ?u"
    by (rule mbfs_ok_step [OF ok _ _ _ touches_mono [OF tch(1)] i(2), rotated -1]) (simp_all add: tab)
  with rp(1) show ?thesis by simp
qed

text \<open>A sender joins the queue; the first of the queue still does not fit.\<close>

lemma mbf_wf_join:
  assumes w: "mbf_wf i (c, ss, [])" "mbfid c \<noteq> 0" and x: "snd_waiter c x"
    and f: "join_queue (mbfatr c) x ss = x # ss \<Longrightarrow> \<not> mbf_free c (smbf_msgsz (fst (snd x)))"
  shows "mbf_wf i (c, join_queue (mbfatr c) x ss, [])"
proof -
  have "sorted (map waiter_pri (join_queue (mbfatr c) x ss))" if "mbfatr c AND TA_TPRI \<noteq> 0"
    by (rule sorted_join [OF that]) (use w that in \<open>simp add: mbf_wf_def\<close>)
  moreover have "mbf_settled c (join_queue (mbfatr c) x ss)"
  proof (cases "join_queue (mbfatr c) x ss = x # ss")
    case True
    then show ?thesis using f by (simp add: mbf_settled_def)
  next
    case False
    then obtain y ys where y: "ss = y # ys" by (cases ss) (auto simp: join_queue_def split: if_splits)
    then have "\<exists>zs. join_queue (mbfatr c) x ss = y # zs" using False by (auto simp: join_queue_def split: if_splits)
    then show ?thesis using w(1) y by (auto simp: mbf_wf_def mbf_settled_def)
  qed
  ultimately show ?thesis using w x by (simp add: mbf_wf_def set_join)
qed

lemma mbf_store_ok:
  assumes k: "kinv s" and ok: "mbfs_ok s" and i: "i < maxid (mbftab (ko s))" "mbfid (mbfcb s i) \<noteq> 0" and r: "ques s (QRmbf i) = []"
    and n: "0 < n" "n < 2 ^ 31" "mbf_free (mbfcb s i) (int n)" and c: "msg_to_mbf (bmem (ko s)) (mbfcb s i) m (int n) = Some c"
  shows "kinv (upd_mbf i (\<lambda>_. c) s) \<and> mbfs_ok (upd_mbf i (\<lambda>_. c) s)"
proof -
  note w = mbfs_okD [OF ok i(1)]
  obtain ms where ms: "mbf_holds (mbfcb s i) ms" using w i(2) by (auto simp: mbf_wf_def)
  have room: "total ms + (4 + n) \<le> length (buffer (mbfcb s i))" using mbf_free_holds [OF ms n(2)] n(3) by simp
  from msg_to_mbf_ok [OF ms n(1) room, of "bmem (ko s)" m] c have c': "mbf_holds c (ms @ [read_bytes (bmem (ko s)) m n])"
      "c = (mbfcb s i)\<lparr>frbufsz := frbufsz c, buffer := buffer c, mbf_tail := mbf_tail c\<rparr>" "length (buffer c) = length (buffer (mbfcb s i))"
    by simp_all
  have part: "mbf_part (mbfcb s i) c" unfolding mbf_part_def using c'(3) by (subst (1 2 3 4) c'(2)) simp
  have wr: "waiters s (QRmbf i) = []" using r by (simp add: waiters_def)
  have "frbufsz c \<le> frbufsz (mbfcb s i)" using ms c'(1,3) by (auto simp: mbf_holds_def)
  then have fr: "mbf_free c k \<Longrightarrow> mbf_free (mbfcb s i) k" for k
  proof -
    have "0 \<le> frbufsz c" "frbufsz (mbfcb s i) < 2 ^ 31" using ms c'(1) by (auto simp: mbf_holds_def)
    then obtain a b where "frbufsz c = int a" "frbufsz (mbfcb s i) = int b" "b < 2 ^ 31" "a \<le> b"
      using that [of "nat (frbufsz c)" "nat (frbufsz (mbfcb s i))"] \<open>frbufsz c \<le> frbufsz (mbfcb s i)\<close> by simp
    then have "(word_of_int (frbufsz c) :: UW) \<le> word_of_int (frbufsz (mbfcb s i))"
      by (simp add: word_le_nat_alt unat_of_nat)
    then show "mbf_free c k \<Longrightarrow> mbf_free (mbfcb s i) k" by (simp add: mbf_free_def)
  qed
  have "mbf_settled c (waiters s (QSmbf i))"
    using w fr by (cases "waiters s (QSmbf i)") (auto simp: mbf_wf_def mbf_settled_def simp del: waiters_Nil mbf_wf0.simps)
  moreover have "mbf_wf0 i (c, drop 0 (waiters s (QSmbf i)), [])"
    by (rule mbf_wf0_served [OF _ part c'(1)]) (use w wr in \<open>simp add: mbf_wf_def del: mbf_wf0.simps\<close>)
  ultimately have "mbf_wf i (c, waiters s (QSmbf i), waiters s (QRmbf i))" by (simp add: mbf_wf_def wr del: mbf_wf0.simps)
  then have "mbfs_ok (upd_mbf i (\<lambda>_. c) s)"
    by (intro mbfs_ok_step [OF ok _ _ _ touches_same i(2)]) simp_all
  with k show ?thesis by simp
qed

lemma tk_snd_mbf_inv:
  assumes k: "kinv s" and ok: "mbfs_ok s" and c: "ctx_ready prid s" and r: "tk_snd_mbf prid mid msg z tmout s = Some (e, s')"
  shows "kinv s' \<and> mbfs_ok s'"
proof (rule mbf_tab.obj_call_ok [OF r [unfolded tk_snd_mbf_def] k ok])
  fix i
  let ?sp = "if mbfatr (mbfcb s i) AND TA_TPRI \<noteq> 0 then Wspec_smbf_tpri else Wspec_smbf_tfifo"
  assume i: "i = INDEX_OBJ mid" "guards [CHECK_MBFID s mid, CHECK_PAR (z > 0), CHECK_TMOUT tmout, CHECK_DISPATCH_POL prid s tmout] = None"
      "mbfid (fst (mbf_view s i)) \<noteq> 0"
    and b: "(if z > maxmsz (mbfcb s i) then end_critical E_PAR s
             else do {
               dis \<leftarrow> snd_diswai prid i s;
               if dis then end_critical E_DISWAI s
               else (case ques s (QRmbf i) of
                   t # _ \<Rightarrow> end_critical E_OK (give_msg t msg z s)
                 | [] \<Rightarrow> do {
                     first \<leftarrow> snd_first prid i s;
                     if first \<and> mbf_free (mbfcb s i) z then do {
                       c \<leftarrow> msg_to_mbf (bmem (ko s)) (mbfcb s i) msg z;
                       end_critical E_OK (upd_mbf i (\<lambda>_. c) s)
                     }
                     else if tmout = TMO_POL then end_critical E_TMOUT s
                     else wait_on prid (mbf_gcb s i) ?sp (Winfo_smbf msg z) tmout s
                   })
             }) = Some (e, s')"
  have ix: "i < maxid (mbftab (ko s))" using mbf_index [OF i(2)] i(1) by simp
  have live: "mbfid (mbfcb s i) \<noteq> 0" using i(3) by (simp add: mbf_view_def)
  have z0: "0 < z" using i(2) by (simp add: guards_None CHECK_PAR_def split: if_splits)
  note w = mbfs_okD [OF ok ix]
  have mx: "maxmsz (mbfcb s i) < 2 ^ 31" using w live by (simp add: mbf_wf_def)
  consider (out) x where "end_critical x s = Some (e, s')"
    | (give) t ts where "ques s (QRmbf i) = t # ts" "end_critical E_OK (give_msg t msg z s) = Some (e, s')"
    | (store) c where "ques s (QRmbf i) = []" "z \<le> maxmsz (mbfcb s i)" "mbf_free (mbfcb s i) z" "msg_to_mbf (bmem (ko s)) (mbfcb s i) msg z = Some c"
        "end_critical E_OK (upd_mbf i (\<lambda>_. c) s) = Some (e, s')"
    | (wait) first where "ques s (QRmbf i) = []" "z \<le> maxmsz (mbfcb s i)" "snd_first prid i s = Some first"
        "\<not> (first \<and> mbf_free (mbfcb s i) z)" "tmout \<noteq> TMO_POL" "wait_on prid (mbf_gcb s i) ?sp (Winfo_smbf msg z) tmout s = Some (e, s')"
  proof (cases "z > maxmsz (mbfcb s i)")
    case True
    then show ?thesis using b that(1) by simp
  next
    case le: False
    obtain d where d: "snd_diswai prid i s = Some d" using b le by (auto split: Option.bind_splits)
    show ?thesis
    proof (cases d)
      case True
      then show ?thesis using b d le that(1) by simp
    next
      case False
      show ?thesis
      proof (cases "ques s (QRmbf i)")
        case (Cons t ts)
        then show ?thesis using b d le False that(2) by simp
      next
        case Nil
        obtain f where f: "snd_first prid i s = Some f" using b le d False Nil by (auto split: Option.bind_splits)
        show ?thesis
        proof (cases "f \<and> mbf_free (mbfcb s i) z")
          case True
          then obtain c where "msg_to_mbf (bmem (ko s)) (mbfcb s i) msg z = Some c" "end_critical E_OK (upd_mbf i (\<lambda>_. c) s) = Some (e, s')"
            using b le d False Nil f by (auto split: Option.bind_splits)
          then show ?thesis using that(3) Nil le True by simp
        next
          case nf: False
          show ?thesis
          proof (cases "tmout = TMO_POL")
            case True
            then have "end_critical E_TMOUT s = Some (e, s')" using b le d False Nil f nf by simp
            then show ?thesis by (rule that(1))
          next
            case wt: False
            then have "wait_on prid (mbf_gcb s i) ?sp (Winfo_smbf msg z) tmout s = Some (e, s')" using b le d False Nil f nf by auto
            then show ?thesis using that(4) Nil le f nf wt by simp
          qed
        qed
      qed
    qed
  qed
  then show "kinv s' \<and> mbfs_ok s'"
  proof cases
    case (out x)
    from mbf_tab.table_ok_end [OF out k ok] show ?thesis .
  next
    case (give t ts)
    define u where "u = upd_bmem (memcpy (rmbf_msg (winfo (tcbs s t))) msg (usize z)) s"
    define v where "v = u\<lparr>umem := (umem u)(rmbf_p_msgsz (winfo (tcbs u t)) := word_of_int z)\<rparr>"
    have v: "kinv v" "mbfs_ok v" "i < maxid (mbftab (ko v))" "mbfid (mbfcb v i) \<noteq> 0" "t \<in> set (ques v (QRmbf i))"
      using k ok ix live give(1) by (simp_all add: v_def u_def)
    note x = rcv_release_ok [OF v, of E_OK, folded wait_release_ok_ercd_E_OK]
    have "give_msg t msg z s = wait_release_ok t v" by (simp only: give_msg_def Let_def u_def v_def upd_bmem_sel)
    with give(2) have "end_critical E_OK (wait_release_ok t v) = Some (e, s')" by simp
    then show ?thesis by (rule mbf_tab.table_ok_end) (use x in simp_all)
  next
    case (store c)
    obtain n where n: "z = int n" "0 < n" "n < 2 ^ 31"
      using that [of "nat z"] z0 store(2) mx by simp
    have x: "kinv (upd_mbf i (\<lambda>_. c) s) \<and> mbfs_ok (upd_mbf i (\<lambda>_. c) s)"
      by (rule mbf_store_ok [OF k ok ix live store(1) n(2,3)]) (use store n in simp_all)
    show ?thesis by (rule mbf_tab.table_ok_end [OF store(5)]) (use x in simp_all)
  next
    case (wait first)
    have ni: "\<not> in_indp prid s" using i(2) wait(5) by (auto simp: guards_None CHECK_DISPATCH_POL_def in_ddsp_def split: if_splits)
    then obtain t where t: "ctxtsk s prid = Some t" by (auto simp: in_indp_def)
    have tr: "t \<in> set (rdy s)" using c t by (simp add: ctx_ready_def)
    have fst: "first \<longleftrightarrow> gcb_top_of_wait_queue (mbf_gcb s i) t s = t" using wait(3) ni t by (auto simp: snd_first_def)
    have wr: "waiters s (QRmbf i) = []" using wait(1) by (simp add: waiters_def)
    show ?thesis
    proof (rule mbf_tab.wait_on_table_ok [OF k ok t tr _ wait(6) i(3)])
      let ?w = "(t, Winfo_smbf msg z, objid (mbf_gcb s i), ?sp, pri s t)"
      fix u
      assume o: "objs_same s u" and tch: "touches {wait_queue (mbf_gcb s i)} s u"
        and "waiters u (wait_queue (mbf_gcb s i)) = join_queue (objatr (mbf_gcb s i)) ?w (waiters s (wait_queue (mbf_gcb s i)))"
      then have ws: "waiters u (QSmbf i) = join_queue (mbfatr (mbfcb s i)) ?w (waiters s (QSmbf i))" "waiters u (QRmbf i) = []"
        using touchesD [OF tch, of "QRmbf i"] wr by (simp_all add: mbf_gcb_def)
      have pc: "mbfcb u = mbfcb s" using o by (simp add: objs_same_def mbfcb_def fun_eq_iff)
      have x: "snd_waiter (mbfcb s i) ?w"
        using z0 wait(2) mx by (simp add: snd_waiter_def mbf_gcb_def) (rule exI [where x = "nat z"], simp)
      have nf: "\<not> mbf_free (mbfcb s i) z" if j: "join_queue (mbfatr (mbfcb s i)) ?w (waiters s (QSmbf i)) = ?w # waiters s (QSmbf i)"
      proof -
        have first
        proof (cases "ques s (QSmbf i)")
          case Nil
          then show ?thesis by (simp add: fst gcb_top_of_wait_queue_def mbf_gcb_def)
        next
          case (Cons q qs)
          have "q \<noteq> t" using ready_not_waiting [OF k tr, of "QSmbf i"] Cons by auto
          have "waiters s (QSmbf i) = (q, wview (tcbs s q)) # map (\<lambda>t. (t, wview (tcbs s t))) qs" using Cons by (simp add: waiters_def)
          then show ?thesis using j \<open>q \<noteq> t\<close> Cons
            by (auto simp: fst gcb_top_of_wait_queue_def mbf_gcb_def join_queue_def wview_def split: if_splits)
        qed
        with wait(4) show ?thesis by simp
      qed
      have "mbf_wf i (mbfcb s i, join_queue (mbfatr (mbfcb s i)) ?w (waiters s (QSmbf i)), [])"
        by (rule mbf_wf_join [OF w[unfolded wr] live x]) (use nf in simp)
      then show "mbf_wf i (mbf_view u i)" unfolding mbf_view_def ws pc .
    qed (simp_all add: mbf_gcb_def)
  qed
qed

lemma wf0_view:
  assumes w: "mbf_wf i (c, ss, [])" "mbfid c \<noteq> 0"
  shows "mbf_wf0 i (c, filter P ss, [])"
  using w sorted_map_filter [of waiter_pri ss P] by (auto simp: mbf_wf_def)

lemma mbf_senderD:
  assumes ok: "mbfs_ok s" and i: "i < maxid (mbftab (ko s))" and t: "t \<in> set (ques s (QSmbf i))"
  shows "mbfid (mbfcb s i) \<noteq> 0" "snd_waiter (mbfcb s i) (t, wview (tcbs s t))" "ques s (QRmbf i) = []" "INDEX_OBJ (mbfid (mbfcb s i)) = i"
proof -
  note w = mbfs_okD [OF ok i]
  have tw: "(t, wview (tcbs s t)) \<in> set (waiters s (QSmbf i))" using t by (simp add: waiters_def)
  show live: "mbfid (mbfcb s i) \<noteq> 0" using w tw by (auto simp: mbf_wf_def)
  show "snd_waiter (mbfcb s i) (t, wview (tcbs s t))" using w live tw by (auto simp: mbf_wf_def)
  have "ques s (QSmbf i) \<noteq> []" using t by auto
  then show "ques s (QRmbf i) = []" using w live by (auto simp: mbf_wf_def split: if_splits)
  show "INDEX_OBJ (mbfid (mbfcb s i)) = i" using w live by (simp add: mbf_wf_def)
qed

text \<open>A sender has left the queue; the others get their turn.\<close>

lemma snd_release_ok:
  fixes e :: ER
  assumes k: "kinv s" and ok: "mbfs_ok s" and i: "i < maxid (mbftab (ko s))" "mbfid (mbfcb s i) \<noteq> 0" and t: "t \<in> set (ques s (QSmbf i))"
  defines "u \<equiv> wait_release_ok_ercd t e s"
  shows "\<exists>s' n. mbf_wakeup i u = Some s' \<and> mbf_served i (set (take n (ques u (QSmbf i)))) u s' \<and> mbfs_ok s' \<and>
     ques s' (QSmbf i) = drop n (ques u (QSmbf i))"
proof -
  have h: "wait_head (QSmbf i)" by simp
  note rp = wait_release_props [OF k h t, where e = e, folded u_def]
  note tch = touches_release [OF k h t, where e = e, folded u_def]
  have tab: "mbfcb u = mbfcb s" "mbftab (ko u) = mbftab (ko s)" using rp(6) by (simp_all add: objs_same_def mbfcb_def fun_eq_iff)
  note w = mbfs_okD [OF ok i(1)]
  have wr: "waiters s (QRmbf i) = []" using mbf_senderD(3) [OF ok i(1) t] by (simp add: waiters_def)
  then have qr: "ques u (QRmbf i) = []" using touches_ques [OF tch(1), of "QRmbf i"] by (simp add: waiters_def)
  show ?thesis
  proof (rule mbf_wakeup_table [OF rp(1) ok])
    show "mbf_wf0 i (mbfcb u i, waiters u (QSmbf i), [])"
      unfolding tab tch(2) by (rule wf0_view [OF _ i(2)]) (use w wr in simp)
    show "mbf_view u j = mbf_view s j" if "j \<noteq> i" for j
      using that touchesD [OF tch(1)] by (simp add: mbf_view_def tab)
  qed (use i qr in \<open>simp_all add: tab\<close>)
qed

lemma tk_rcv_mbf_inv:
  assumes k: "kinv s" and ok: "mbfs_ok s" and c: "ctx_ready prid s" and r: "tk_rcv_mbf prid mid msg pz tmout s = Some (e, s')"
  shows "kinv s' \<and> mbfs_ok s'"
proof (rule mbf_tab.obj_call_ok [OF r [unfolded tk_rcv_mbf_def] k ok])
  fix i
  assume i: "i = INDEX_OBJ mid" "guards [CHECK_MBFID s mid, CHECK_TMOUT tmout, CHECK_DISPATCH prid s] = None" "mbfid (fst (mbf_view s i)) \<noteq> 0"
    and b: "do {
         t \<leftarrow> ctxtsk s prid;
         if is_diswai (mbf_gcb s i) (tcbs s t) TTW_RMBF then end_critical E_DISWAI s
         else if \<not> mbf_empty (mbfcb s i) then do {
           (rcvsz, c, m) \<leftarrow> mbf_to_msg (mbfcb s i) msg (bmem (ko s));
           s \<leftarrow> mbf_wakeup i (upd_mbf i (\<lambda>_. c) (upd_bmem (\<lambda>_. m) s));
           end_critical rcvsz s
         }
         else (case ques s (QSmbf i) of
             x # _ \<Rightarrow> do {
               let rcvsz = smbf_msgsz (winfo (tcbs s x));
               s \<leftarrow> mbf_wakeup i (take_msg x msg s);
               end_critical rcvsz s
             }
           | [] \<Rightarrow> wait_tail prid (QRmbf i) mid (mbfatr (mbfcb s i)) Wspec_rmbf (Winfo_rmbf msg pz) tmout s)
       } = Some (e, s')"
  have ix: "i < maxid (mbftab (ko s))" using mbf_index [OF i(2)] i(1) by simp
  have live: "mbfid (mbfcb s i) \<noteq> 0" using i(3) by (simp add: mbf_view_def)
  note w = mbfs_okD [OF ok ix]
  obtain t where t: "ctxtsk s prid = Some t" using b by (auto split: Option.bind_splits)
  have tr: "t \<in> set (rdy s)" using c t by (simp add: ctx_ready_def)
  show "kinv s' \<and> mbfs_ok s'"
  proof (cases "is_diswai (mbf_gcb s i) (tcbs s t) TTW_RMBF")
    case True
    with b t have "end_critical E_DISWAI s = Some (e, s')" by simp
    from mbf_tab.table_ok_end [OF this k ok] show ?thesis .
  next
    case dis: False
    show ?thesis
    proof (cases "mbf_empty (mbfcb s i)")
      case False
      obtain ms where ms: "mbf_holds (mbfcb s i) ms" using w live by (auto simp: mbf_wf_def)
      then obtain x ms' where x: "ms = x # ms'" using mbf_empty_holds False by (cases ms) auto
      from mbf_to_msg_ok [OF ms [unfolded x], where a = msg and m = "bmem (ko s)"] obtain c where
        c: "mbf_to_msg (mbfcb s i) msg (bmem (ko s)) = Some (int (length x), c, write_bytes msg x (bmem (ko s)))" "mbf_holds c ms'"
          "c = (mbfcb s i)\<lparr>frbufsz := frbufsz c, mbf_head := mbf_head c\<rparr>" by blast
      define u where "u = upd_mbf i (\<lambda>_. c) (upd_bmem (\<lambda>_. write_bytes msg x (bmem (ko s))) s)"
      have u: "kinv u" "ques u = ques s" "waiters u = waiters s" "mbfcb u = (mbfcb s)(i := c)" "maxid (mbftab (ko u)) = maxid (mbftab (ko s))"
        "freeq (mbftab (ko u)) = freeq (mbftab (ko s))" using k by (simp_all add: u_def)
      have qr: "ques s (QRmbf i) = []" using w live False by (auto simp: mbf_wf_def)
      have part: "mbf_part (mbfcb s i) c" unfolding mbf_part_def by (subst (1 2 3 4 5) c(3)) simp
      have "\<exists>v n. mbf_wakeup i u = Some v \<and> mbf_served i (set (take n (ques u (QSmbf i)))) u v \<and> mbfs_ok v \<and>
          ques v (QSmbf i) = drop n (ques u (QSmbf i))"
      proof (rule mbf_wakeup_table [OF u(1) ok])
        show "mbf_wf0 i (mbfcb u i, waiters u (QSmbf i), [])"
          using mbf_wf0_served [OF _ part c(2), of i "waiters s (QSmbf i)" 0] w qr
          by (simp add: u(3,4) mbf_wf_def waiters_def del: mbf_wf0.simps)
        show "mbfid (mbfcb u i) \<noteq> 0" using part live by (simp add: u(4) mbf_part_def)
        show "mbf_view u j = mbf_view s j" if "j \<noteq> i" for j using that by (simp add: mbf_view_def u(3,4))
      qed (use live qr u in simp_all)
      then obtain v n where v: "mbf_wakeup i u = Some v" "mbf_served i (set (take n (ques u (QSmbf i)))) u v" "mbfs_ok v" by blast
      have kv: "kinv v" using v(2) by (simp add: mbf_served_def)
      have "end_critical (int (length x)) v = Some (e, s')" using b t dis False c(1) v(1) by (simp add: u_def)
      from mbf_tab.table_ok_end [OF this kv v(3)] show ?thesis .
    next
      case em: True
      show ?thesis
      proof (cases "ques s (QSmbf i)")
        case (Cons x xs)
        define u where "u = upd_bmem (memcpy msg (smbf_msg (winfo (tcbs s x))) (usize (smbf_msgsz (winfo (tcbs s x))))) s"
        have u: "kinv u" "mbfs_ok u" "i < maxid (mbftab (ko u))" "mbfid (mbfcb u i) \<noteq> 0" "x \<in> set (ques u (QSmbf i))"
          using k ok ix live Cons by (simp_all add: u_def)
        from snd_release_ok [OF u, of E_OK, folded wait_release_ok_ercd_E_OK] obtain v n where
          v: "mbf_wakeup i (wait_release_ok x u) = Some v" "mbf_served i (set (take n (ques (wait_release_ok x u) (QSmbf i)))) (wait_release_ok x u) v" "mbfs_ok v"
          by blast
        have kv: "kinv v" using v(2) by (simp add: mbf_served_def)
        have "end_critical (smbf_msgsz (winfo (tcbs s x))) v = Some (e, s')" using b t dis em Cons v(1) by (simp add: take_msg_def u_def)
        from mbf_tab.table_ok_end [OF this kv v(3)] show ?thesis .
      next
        case Nil
        then have wt: "wait_tail prid (QRmbf i) mid (mbfatr (mbfcb s i)) Wspec_rmbf (Winfo_rmbf msg pz) tmout s = Some (e, s')"
          using b t dis em by simp
        show ?thesis
        proof (rule mbf_tab.wait_tail_table_ok [OF k ok t tr _ wt i(3)])
          let ?w = "(t, Winfo_rmbf msg pz, mid, Wspec_rmbf, pri s t)"
          fix u
          assume o: "objs_same s u" and tch: "touches {QRmbf i} s u" and "waiters u (QRmbf i) = waiters s (QRmbf i) @ [?w]"
          then have ws: "waiters u (QRmbf i) = waiters s (QRmbf i) @ [?w]" "waiters u (QSmbf i) = []"
            using touchesD [OF tch, of "QSmbf i"] Nil by (simp_all add: waiters_def)
          have ss: "waiters s (QSmbf i) = []" using Nil by (simp add: waiters_def)
          have pc: "mbfcb u = mbfcb s" using o by (simp add: objs_same_def mbfcb_def fun_eq_iff)
          have "mbf_wf i (mbfcb s i, [], waiters s (QRmbf i) @ [?w])"
            using w [unfolded ss] live em i(1) by (auto simp: mbf_wf_def rcv_waiter_def)
          then show "mbf_wf i (mbf_view u i)" unfolding mbf_view_def ws pc .
        qed simp_all
      qed
    qed
  qed
qed

text \<open>The hooks: the priority of a sender has changed to \<open>p\<close>, or a sender has been released.\<close>

lemma mbf_chg_pri_ok:
  assumes k: "kinv s0" and ok: "mbfs_ok s0" and i: "i < maxid (mbftab (ko s0))" and t: "t \<in> set (ques s0 (QSmbf i))" and p: "p < NUM_PRI"
    and a: "mbfatr (mbfcb s0 i) AND TA_TPRI \<noteq> 0" and old: "0 \<le> old"
  defines "s \<equiv> upd_tcb t (\<lambda>c. c\<lparr>priority := p\<rparr>) s0"
  defines "u \<equiv> gcb_change_priority (mbf_gcb s i) t s"
  shows "\<exists>s' n. mbf_chg_pri t old s = Some s' \<and> mbf_served i (set (take n (ques u (QSmbf i)))) u s' \<and> mbfs_ok s' \<and>
     ques s' (QSmbf i) = drop n (ques u (QSmbf i))"
proof -
  note w = mbfs_okD [OF ok i]
  note live = mbf_senderD(1) [OF ok i t] and wt = mbf_senderD(2) [OF ok i t]
  have wr: "waiters s0 (QRmbf i) = []" using mbf_senderD(3) [OF ok i t] by (simp add: waiters_def)
  have ix: "INDEX_OBJ (wid (tcbs s t)) = i"
    using wt w live by (simp add: snd_waiter_def wview_def s_def mbf_wf_def)
  have g: "mbf_gcb s i = mbf_gcb s0 i" by (simp add: mbf_gcb_def s_def mbfcb_def)
  have h: "wait_head (QSmbf i)" "wait_queue (mbf_gcb s0 i) = QSmbf i" by (simp_all add: mbf_gcb_def)
  note rr = reorder_ok [OF k h(1) t p h(2), folded s_def, folded g, folded u_def]
  have e: "mbf_chg_pri t old s = mbf_wakeup i u" using old by (simp add: mbf_chg_pri_def ix u_def)
  have o: "objs_same s0 u" by (simp add: u_def s_def gcb_change_priority_def queue_insert_tpri_def)
  have tab: "mbfcb u = mbfcb s0" "mbftab (ko u) = mbftab (ko s0)" using o by (simp_all add: objs_same_def mbfcb_def fun_eq_iff)
  let ?w = "(t, wview (tcbs s t))" and ?ws = "filter (\<lambda>w. fst w \<noteq> t) (waiters s0 (QSmbf i))"
  have wx: "snd_waiter (mbfcb s0 i) ?w" using wt by (simp add: snd_waiter_def wview_def s_def)
  have "mbf_wf0 i (mbfcb s0 i, ?ws, [])" by (rule wf0_view [OF _ live]) (use w wr in simp)
  moreover have "sorted (map waiter_pri (join_queue (mbfatr (mbfcb s0 i)) ?w ?ws))"
    by (rule sorted_join [OF a]) (use \<open>mbf_wf0 i (mbfcb s0 i, ?ws, [])\<close> live a in simp)
  ultimately have "mbf_wf0 i (mbfcb s0 i, join_queue (mbfatr (mbfcb s0 i)) ?w ?ws, [])" using live wx by (simp add: set_join)
  then have w0: "mbf_wf0 i (mbfcb u i, waiters u (QSmbf i), [])" unfolding tab rr(3) [OF a] .
  show ?thesis
    unfolding e
  proof (rule mbf_wakeup_table [OF rr(1) ok _ live w0])
    show "ques u (QRmbf i) = []" using touches_ques [OF rr(2), of "QRmbf i"] wr by (simp add: waiters_def)
    show "mbf_view u j = mbf_view s0 j" if "j \<noteq> i" for j using that touchesD [OF rr(2)] by (simp add: mbf_view_def tab)
  qed (use live in \<open>simp_all add: tab\<close>)
qed

lemma mbf_rel_wai_ok:
  fixes e :: ER
  assumes k: "kinv s" and ok: "mbfs_ok s" and i: "i < maxid (mbftab (ko s))" and t: "t \<in> set (ques s (QSmbf i))"
  defines "u \<equiv> wait_release_ok_ercd t e s"
  shows "\<exists>s' n. mbf_rel_wai t u = Some s' \<and> mbf_served i (set (take n (ques u (QSmbf i)))) u s' \<and> mbfs_ok s' \<and>
     ques s' (QSmbf i) = drop n (ques u (QSmbf i))"
proof -
  note w = mbfs_okD [OF ok i]
  note live = mbf_senderD(1) [OF ok i t] and wt = mbf_senderD(2) [OF ok i t]
  have "wid (tcbs u t) = wid (tcbs s t)"
    using wait_release_props(5) [OF k _ t, where e = e, folded u_def] by (simp add: released_def)
  then have "INDEX_OBJ (wid (tcbs u t)) = i" using wt w live by (simp add: snd_waiter_def wview_def mbf_wf_def)
  then have "mbf_rel_wai t u = mbf_wakeup i u" by (simp add: mbf_rel_wai_def mbf_chg_pri_def)
  then show ?thesis using snd_release_ok [OF k ok i live t, of e, folded u_def] by simp
qed

end
