(* ===== verification/Rendezvous.thy ===== *)
theory Rendezvous
  imports Message_Base
begin

text \<open>
  Rendezvous ports, \<^verbatim>\<open>rendezvous.c\<close>. A caller waits in the call queue until an acceptor whose pattern
  shares a bit with its own takes the message, and then outside of any queue for the reply
  (\<open>Wspec_rdv\<close>). The address of the local variable that receives the size of a message
  (\<open>&rmsgsz\<close>, \<open>&cmsgsz\<close>) is an argument of the model; a call that returns at once gives the size as its
  value, one that waits has stored it there.
\<close>

section \<open>Control blocks\<close>

definition porcb :: "kstate \<Rightarrow> nat \<Rightarrow> PORCB" where
  "porcb s i = cbs (portab (ko s)) i"

definition set_portab :: "PORCB objtab \<Rightarrow> kstate \<Rightarrow> kstate" where
  "set_portab m s = s\<lparr>ko := (ko s)\<lparr>portab := m\<rparr>\<rparr>"

definition upd_por :: "nat \<Rightarrow> (PORCB \<Rightarrow> PORCB) \<Rightarrow> kstate \<Rightarrow> kstate" where
  "upd_por i f s = set_portab ((portab (ko s))\<lparr>cbs := (cbs (portab (ko s)))(i := f (cbs (portab (ko s)) i))\<rparr>) s"

definition set_free_por :: "nat list \<Rightarrow> kstate \<Rightarrow> kstate" where
  "set_free_por q s = set_portab ((portab (ko s))\<lparr>freeq := q\<rparr>) s"

definition por_gcb :: "kstate \<Rightarrow> nat \<Rightarrow> GCB" where
  "por_gcb s i = \<lparr>wait_queue = QCal i, objid = porid (porcb s i), objatr = poratr (porcb s i)\<rparr>"

definition por_ops :: objops where
  "por_ops = \<lparr>oo_type = OT_POR, oo_dispatch = False, oo_max = \<lambda>s. maxid (portab (ko s)), oo_id = \<lambda>s i. porid (porcb s i),
     oo_atr = \<lambda>s i. poratr (porcb s i), oo_name = \<lambda>s i. por_oname (porcb s i),
     oo_set_name = \<lambda>i nm. upd_por i (\<lambda>c. c\<lparr>por_oname := nm\<rparr>), oo_free = \<lambda>s. freeq (portab (ko s)),
     oo_set_free = set_free_por, oo_set_id = \<lambda>i x. upd_por i (\<lambda>c. c\<lparr>porid := x\<rparr>)\<rparr>"

section \<open>Rendezvous numbers\<close>

text \<open>
  A rendezvous number is the identifier of the calling task with a counter in bits 12 to 15.
\<close>

definition RDVNO_SHIFT :: nat where "RDVNO_SHIFT = 12"
definition RDVNO_MASK :: UW where "RDVNO_MASK = 0xf000"

definition next_rdvno :: "UW \<Rightarrow> UW" where
  "next_rdvno r = (r AND NOT RDVNO_MASK) OR ((r + push_bit RDVNO_SHIFT 1) AND RDVNO_MASK)"

definition gen_rdvno :: "nat \<Rightarrow> kstate \<Rightarrow> UW \<times> kstate" where
  "gen_rdvno t s = (wrdvno (tcbs s t), upd_tcb t (\<lambda>c. c\<lparr>wrdvno := next_rdvno (wrdvno c)\<rparr>) s)"

definition get_tskid_rdvno :: "UW \<Rightarrow> ID" where
  "get_tskid_rdvno r = r AND NOT RDVNO_MASK"

definition CHECK_RDVNO :: "kstate \<Rightarrow> UW \<Rightarrow> bool \<times> ER" where
  "CHECK_RDVNO s r = (CHK_OBJID (max_tskid s) (get_tskid_rdvno r) \<and> CHK_ID_DOM s (get_tskid_rdvno r) \<and> CHK_ID_PRC (get_tskid_rdvno r), E_OBJ)"

text \<open>
  The members \<open>cal\<close>, \<open>acp\<close> and \<open>rdv\<close> of the union have the message address in their second word,
  \<open>cal\<close> and \<open>rdv\<close> the address of the reply size in their fourth; the code moves between them.
\<close>

fun wi_msg :: "WINFO \<Rightarrow> UW" where
  "wi_msg (Winfo_cal ptn m sz p) = m"
| "wi_msg (Winfo_rdv rno m mx p) = m"
| "wi_msg (Winfo_acp ptn m pr pc) = m"
| "wi_msg _ = 0"

fun wi_p_rmsgsz :: "WINFO \<Rightarrow> UW" where
  "wi_p_rmsgsz (Winfo_cal ptn m sz p) = p"
| "wi_p_rmsgsz (Winfo_rdv rno m mx p) = p"
| "wi_p_rmsgsz _ = 0"

section \<open>Operations\<close>

definition rendezvous_initialize :: "int option \<Rightarrow> bool \<Rightarrow> kstate \<Rightarrow> ER \<times> kstate" where
  "rendezvous_initialize max_porid mem s =
    (case max_porid of
       None \<Rightarrow> (E_SYS, s)
     | Some m \<Rightarrow>
         let s = set_portab ((portab (ko s))\<lparr>maxid := nat m\<rparr>) s in
         if m < 1 then (E_SYS, s)
         else if \<not> mem then (E_NOMEM, s)
         else (E_OK, set_portab ((portab (ko s))\<lparr>cbs := (\<lambda>i. if i < nat m then (porcb s i)\<lparr>porid := 0\<rparr> else porcb s i),
                 freeq := [0..<nat m]\<rparr>) s))"

definition cal_chg_pri :: "nat \<Rightarrow> int \<Rightarrow> kstate \<Rightarrow> kstate" where
  "cal_chg_pri t oldpri s = gcb_change_priority (por_gcb s (INDEX_OBJ (wid (tcbs s t)))) t s"

record T_CPOR =
  cpor_exinf :: UW
  cpor_poratr :: ATR
  cpor_maxcmsz :: int
  cpor_maxrmsz :: int
  cpor_domid :: ID
  cpor_oname :: "UB list"

definition VALID_PORATR :: ATR where
  "VALID_PORATR = TA_TPRI OR TA_NODISWAI OR TA_DOMID OR TA_ONAME OR TA_PRIVATE OR TA_PROTECTED OR TA_PUBLIC"

definition tk_cre_por :: "nat \<Rightarrow> T_CPOR \<Rightarrow> kstate \<Rightarrow> (ER \<times> kstate) option" where
  "tk_cre_por prid pk s =
    obj_cre [CHECK_RSATR (cpor_poratr pk) VALID_PORATR, CHECK_PAR (cpor_maxcmsz pk \<ge> 0), CHECK_PAR (cpor_maxrmsz pk \<ge> 0),
        CHECK_INTSK prid s] prid por_ops (cpor_poratr pk) (cpor_domid pk) (cpor_oname pk)
      (\<lambda>i oid s. upd_por i (\<lambda>c. c\<lparr>porid := oid, por_exinf := cpor_exinf pk, poratr := cpor_poratr pk,
           maxcmsz := cpor_maxcmsz pk, maxrmsz := cpor_maxrmsz pk\<rparr>) (set_que (QAcp i) [] (set_que (QCal i) [] s))) s"

definition tk_del_por :: "nat \<Rightarrow> ID \<Rightarrow> kstate \<Rightarrow> (ER \<times> kstate) option" where
  "tk_del_por prid pid s =
    obj_call True [CHECK_PORID s pid, CHECK_INTSK prid s] prid por_ops pid
      (\<lambda>i s. do { s \<leftarrow> wait_delete (QCal i) s; s \<leftarrow> wait_delete (QAcp i) s; end_critical E_OK (obj_unlink por_ops pid i s) }) s"

text \<open>Handing a message to the acceptor \<open>a\<close>: the message, the rendezvous number and the size.\<close>

definition give_call :: "nat \<Rightarrow> UW \<Rightarrow> UW \<Rightarrow> int \<Rightarrow> kstate \<Rightarrow> kstate" where
  "give_call a rdvno msg cmsgsz s =
    (let s = (if cmsgsz > 0 then upd_bmem (memcpy (acp_msg (winfo (tcbs s a))) msg (nat cmsgsz)) s else s);
         s = s\<lparr>umem := (umem s)(acp_p_rdvno (winfo (tcbs s a)) := rdvno)\<rparr>;
         s = s\<lparr>umem := (umem s)(acp_p_cmsgsz (winfo (tcbs s a)) := word_of_int cmsgsz)\<rparr>
     in wait_release_ok a s)"

definition tk_cal_por :: "nat \<Rightarrow> ID \<Rightarrow> UW \<Rightarrow> UW \<Rightarrow> int \<Rightarrow> UW \<Rightarrow> TMO \<Rightarrow> kstate \<Rightarrow> (ER \<times> kstate) option" where
  "tk_cal_por prid pid calptn msg cmsgsz p_rmsgsz tmout s =
    obj_call True [CHECK_PORID s pid, CHECK_PAR (calptn \<noteq> 0), CHECK_PAR (cmsgsz \<ge> 0), CHECK_TMOUT tmout, CHECK_DISPATCH prid s]
      prid por_ops pid
      (\<lambda>i s. if cmsgsz > maxcmsz (porcb s i) then end_critical E_PAR s
             else do {
               t \<leftarrow> ctxtsk s prid;
               case find (\<lambda>a. calptn AND acp_acpptn (winfo (tcbs s a)) \<noteq> 0) (ques s (QAcp i)) of
                 Some a \<Rightarrow>
                   if is_diswai (por_gcb s i) (tcbs s t) TTW_CAL then end_critical E_DISWAI s
                   else
                     (let (rdvno, s) = gen_rdvno t s;
                          s = give_call a rdvno msg cmsgsz s
                      in if is_diswai (por_gcb s i) (tcbs s t) TTW_RDV then end_critical E_DISWAI s
                         else do {
                           s \<leftarrow> make_wait prid TMO_FEVR (poratr (porcb s i)) (upd_tcb t (\<lambda>c. c\<lparr>wspec := Wspec_rdv, wid := 0, wercd := E_TMOUT,
                               winfo := Winfo_rdv rdvno msg (maxrmsz (porcb s i)) p_rmsgsz\<rparr>) s);
                           end_critical (wercd (tcbs s t)) s
                         })
               | None \<Rightarrow>
                   wait_on prid (por_gcb s i) (if poratr (porcb s i) AND TA_TPRI \<noteq> 0 then Wspec_cal_tpri else Wspec_cal_tfifo)
                     (Winfo_cal calptn msg cmsgsz p_rmsgsz) tmout s
             }) s"

text \<open>The caller \<open>c\<close> now waits for the end of the rendezvous.\<close>

definition begin_rdv :: "nat \<Rightarrow> nat \<Rightarrow> UW \<Rightarrow> kstate \<Rightarrow> kstate" where
  "begin_rdv i c rdvno s =
    (let s = wait_cancel c s;
         s = upd_tcb c (\<lambda>x. x\<lparr>wspec := Wspec_rdv, wid := 0,
               winfo := Winfo_rdv rdvno (wi_msg (winfo x)) (maxrmsz (porcb s i)) (wi_p_rmsgsz (winfo x))\<rparr>) s
     in timer_insert (TmTsk c) TMO_FEVR (Some (Cb_wait_release_tmout c)) s)"

definition tk_acp_por :: "(hook \<Rightarrow> nat \<Rightarrow> kstate \<Rightarrow> kstate option) \<Rightarrow> nat \<Rightarrow> ID \<Rightarrow> UW \<Rightarrow> UW \<Rightarrow> UW \<Rightarrow> UW \<Rightarrow> TMO \<Rightarrow> kstate \<Rightarrow>
    (ER \<times> kstate) option" where
  "tk_acp_por rh prid pid acpptn p_rdvno msg p_cmsgsz tmout s =
    obj_call True [CHECK_PORID s pid, CHECK_PAR (acpptn \<noteq> 0), CHECK_TMOUT tmout, CHECK_DISPATCH prid s] prid por_ops pid
      (\<lambda>i s. do {
         t \<leftarrow> ctxtsk s prid;
         case find (\<lambda>c. acpptn AND cal_calptn (winfo (tcbs s c)) \<noteq> 0) (ques s (QCal i)) of
           Some c \<Rightarrow>
             if is_diswai (por_gcb s i) (tcbs s t) TTW_ACP then end_critical E_DISWAI s
             else
               (let (rdvno, s) = gen_rdvno c s;
                    s = s\<lparr>umem := (umem s)(p_rdvno := rdvno)\<rparr>;
                    cmsgsz = cal_cmsgsz (winfo (tcbs s c));
                    s = (if cmsgsz > 0 then upd_bmem (memcpy msg (cal_msg (winfo (tcbs s c))) (nat cmsgsz)) s else s)
                in if is_diswai (por_gcb s i) (tcbs s c) TTW_RDV then
                     do { s \<leftarrow> wait_release_ng rh c E_DISWAI s; end_critical cmsgsz s }
                   else end_critical cmsgsz (begin_rdv i c rdvno s))
         | None \<Rightarrow>
             if is_diswai (por_gcb s i) (tcbs s t) TTW_ACP then end_critical E_DISWAI s
             else wait_tail prid (QAcp i) pid (poratr (porcb s i)) Wspec_acp (Winfo_acp acpptn msg p_rdvno p_cmsgsz) tmout s
       }) s"

text \<open>The caller waits for the end of a rendezvous with this number.\<close>

definition rdv_waiting :: "kstate \<Rightarrow> nat \<Rightarrow> UW \<Rightarrow> bool" where
  "rdv_waiting s c rdvno \<longleftrightarrow> is_wait (state (tcbs s c)) \<and> wspec (tcbs s c) = Wspec_rdv \<and> rdvno = rdv_rdvno (winfo (tcbs s c))"

definition refuse_fwd :: "(hook \<Rightarrow> nat \<Rightarrow> kstate \<Rightarrow> kstate option) \<Rightarrow> nat \<Rightarrow> kstate \<Rightarrow> (ER \<times> kstate) option" where
  "refuse_fwd rh c s = do { s \<leftarrow> wait_release_ng rh c E_DISWAI s; end_critical E_DISWAI s }"

text \<open>The caller goes back to the call queue, with the forwarded message in its own buffer.\<close>

definition requeue_call :: "nat \<Rightarrow> ID \<Rightarrow> nat \<Rightarrow> UW \<Rightarrow> UW \<Rightarrow> int \<Rightarrow> kstate \<Rightarrow> kstate" where
  "requeue_call i pid c calptn msg cmsgsz s =
    (let atr = poratr (porcb s i);
         s = upd_tcb c (\<lambda>x. x\<lparr>wspec := (if atr AND TA_TPRI \<noteq> 0 then Wspec_cal_tpri else Wspec_cal_tfifo), wid := pid,
               winfo := Winfo_cal calptn (wi_msg (winfo x)) cmsgsz (wi_p_rmsgsz (winfo x)), nodiswai := atr AND TA_NODISWAI \<noteq> 0\<rparr>) s;
         s = timer_insert (TmTsk c) TMO_FEVR (Some (Cb_wait_release_tmout c)) s;
         s = (if atr AND TA_TPRI \<noteq> 0 then queue_insert_tpri (QCal i) c s else QueInsert_tail c (QCal i) s)
     in if cmsgsz > 0 then upd_bmem (memcpy (cal_msg (winfo (tcbs s c))) msg (nat cmsgsz)) s else s)"

definition tk_fwd_por :: "(hook \<Rightarrow> nat \<Rightarrow> kstate \<Rightarrow> kstate option) \<Rightarrow> nat \<Rightarrow> ID \<Rightarrow> UW \<Rightarrow> UW \<Rightarrow> UW \<Rightarrow> int \<Rightarrow> kstate \<Rightarrow> (ER \<times> kstate) option" where
  "tk_fwd_por rh prid pid calptn rdvno msg cmsgsz s =
    obj_call True [CHECK_PORID s pid, CHECK_PAR (calptn \<noteq> 0), CHECK_RDVNO s rdvno, CHECK_PAR (cmsgsz \<ge> 0), CHECK_INTSK prid s]
      prid por_ops pid
      (\<lambda>i s. let c = INDEX_OBJ (get_tskid_rdvno rdvno)
             in do {
               ercd \<leftarrow> mp_check_protection_fwd s (porid (porcb s i)) (poratr (porcb s i)) c;
               if ercd \<noteq> E_OK then end_critical ercd s
               else if cmsgsz > maxcmsz (porcb s i) then end_critical E_PAR s
               else if \<not> rdv_waiting s c rdvno then end_critical E_OBJ s
               else if maxrmsz (porcb s i) > rdv_maxrmsz (winfo (tcbs s c)) then end_critical E_OBJ s
               else if cmsgsz > rdv_maxrmsz (winfo (tcbs s c)) then end_critical E_PAR s
               else case find (\<lambda>a. calptn AND acp_acpptn (winfo (tcbs s a)) \<noteq> 0) (ques s (QAcp i)) of
                 Some a \<Rightarrow>
                   if is_diswai (por_gcb s i) (tcbs s c) TTW_CAL then refuse_fwd rh c s
                   else
                     (let (new_rdvno, s) = gen_rdvno c s;
                          s = give_call a new_rdvno msg cmsgsz s
                      in if is_diswai (por_gcb s i) (tcbs s c) TTW_RDV then refuse_fwd rh c s
                         else end_critical E_OK (upd_tcb c (\<lambda>x. x\<lparr>
                             winfo := Winfo_rdv new_rdvno (wi_msg (winfo x)) (maxrmsz (porcb s i)) (wi_p_rmsgsz (winfo x)),
                             nodiswai := poratr (porcb s i) AND TA_NODISWAI \<noteq> 0\<rparr>) s))
               | None \<Rightarrow>
                   if is_diswai (por_gcb s i) (tcbs s c) TTW_CAL then refuse_fwd rh c s
                   else end_critical E_OK (requeue_call i pid c calptn msg cmsgsz s)
             }) s"

definition tk_rpl_rdv :: "nat \<Rightarrow> UW \<Rightarrow> UW \<Rightarrow> int \<Rightarrow> kstate \<Rightarrow> (ER \<times> kstate) option" where
  "tk_rpl_rdv prid rdvno msg rmsgsz s =
    (case guards [CHECK_RDVNO s rdvno, CHECK_PAR (rmsgsz \<ge> 0), CHECK_INTSK prid s] of
       Some e \<Rightarrow> Some (e, s)
     | None \<Rightarrow>
         (let c = INDEX_OBJ (get_tskid_rdvno rdvno)
          in if \<not> rdv_waiting s c rdvno then end_critical E_OBJ s
             else if rmsgsz > rdv_maxrmsz (winfo (tcbs s c)) then end_critical E_PAR s
             else
               (let s = (if rmsgsz > 0 then upd_bmem (memcpy (rdv_msg (winfo (tcbs s c))) msg (nat rmsgsz)) s else s);
                    s = s\<lparr>umem := (umem s)(rdv_p_rmsgsz (winfo (tcbs s c)) := word_of_int rmsgsz)\<rparr>
                in end_critical E_OK (wait_release_ok c s))))"

record T_RPOR =
  rpor_exinf :: UW
  rpor_wtsk :: ID
  rpor_atsk :: ID
  rpor_maxcmsz :: int
  rpor_maxrmsz :: int

definition por_ref :: "kstate \<Rightarrow> nat \<Rightarrow> T_RPOR" where
  "por_ref s i = \<lparr>rpor_exinf = por_exinf (porcb s i), rpor_wtsk = wait_tskid (QCal i) s, rpor_atsk = wait_tskid (QAcp i) s,
     rpor_maxcmsz = maxcmsz (porcb s i), rpor_maxrmsz = maxrmsz (porcb s i)\<rparr>"

definition tk_ref_por :: "nat \<Rightarrow> ID \<Rightarrow> kstate \<Rightarrow> (ER \<times> T_RPOR option) option" where
  "tk_ref_por prid pid s = obj_ref [CHECK_PORID s pid] prid por_ops pid (por_ref s) s"

definition td_ref_por :: "ID \<Rightarrow> kstate \<Rightarrow> ER \<times> T_RPOR option" where
  "td_ref_por pid s = obj_td_ref [CHECK_PORID s pid] por_ops pid (por_ref s) s"

definition td_cal_que :: "ID \<Rightarrow> int \<Rightarrow> kstate \<Rightarrow> ER \<times> ID list" where
  "td_cal_que pid nent s = obj_td_que [CHECK_PORID s pid] por_ops QCal pid nent s"

definition td_acp_que :: "ID \<Rightarrow> int \<Rightarrow> kstate \<Rightarrow> ER \<times> ID list" where
  "td_acp_que pid nent s = obj_td_que [CHECK_PORID s pid] por_ops QAcp pid nent s"

definition tk_fnd_por :: "nat \<Rightarrow> ID \<Rightarrow> UB list \<Rightarrow> kstate \<Rightarrow> (ER \<times> kstate) option" where
  "tk_fnd_por prid = obj_fnd prid por_ops"

definition tk_dmi_por :: "nat \<Rightarrow> ID \<Rightarrow> kstate \<Rightarrow> ((ER \<times> T_DMI option) \<times> kstate) option" where
  "tk_dmi_por prid = obj_dmi prid por_ops"

definition rendezvous_getname :: "ID \<Rightarrow> kstate \<Rightarrow> ER \<times> UB list option" where
  "rendezvous_getname = obj_getname por_ops"

definition rendezvous_setname :: "ID \<Rightarrow> UB list \<Rightarrow> kstate \<Rightarrow> ER \<times> kstate" where
  "rendezvous_setname = obj_setname por_ops"

definition td_lst_por :: "int \<Rightarrow> kstate \<Rightarrow> int \<times> ID list" where
  "td_lst_por = obj_lst por_ops"

definition td_fnd_por :: "ID \<Rightarrow> UB list \<Rightarrow> kstate \<Rightarrow> ER" where
  "td_fnd_por = obj_td_fnd por_ops"

definition td_dmi_por :: "ID \<Rightarrow> kstate \<Rightarrow> ER \<times> T_DMI option" where
  "td_dmi_por = obj_td_dmi por_ops"

section \<open>The invariant of the ports\<close>

lemma set_portab_sel [simp]:
  "tcbs (set_portab m s) = tcbs s" "ques (set_portab m s) = ques s" "kinv (set_portab m s) \<longleftrightarrow> kinv s" "portab (ko (set_portab m s)) = m"
  "ctxtsk (set_portab m s) = ctxtsk s" "rdy (set_portab m s) = rdy s" "waiters (set_portab m s) = waiters s" "umem (set_portab m s) = umem s"
  "num_proc (set_portab m s) = num_proc s" "mtxtab (set_portab m s) = mtxtab s" "bmem (ko (set_portab m s)) = bmem (ko s)"
  by (simp_all add: set_portab_def waiters_def fun_eq_iff rdy_def)

lemma upd_por_sel [simp]:
  "tcbs (upd_por i f s) = tcbs s" "ques (upd_por i f s) = ques s" "kinv (upd_por i f s) \<longleftrightarrow> kinv s"
  "porcb (upd_por i f s) = (porcb s)(i := f (porcb s i))" "freeq (portab (ko (upd_por i f s))) = freeq (portab (ko s))"
  "maxid (portab (ko (upd_por i f s))) = maxid (portab (ko s))" "waiters (upd_por i f s) = waiters s" "rdy (upd_por i f s) = rdy s"
  "ctxtsk (upd_por i f s) = ctxtsk s" "umem (upd_por i f s) = umem s" "bmem (ko (upd_por i f s)) = bmem (ko s)"
  by (simp_all add: upd_por_def porcb_def fun_eq_iff)

lemma set_free_por_sel [simp]:
  "tcbs (set_free_por f s) = tcbs s" "ques (set_free_por f s) = ques s" "kinv (set_free_por f s) \<longleftrightarrow> kinv s"
  "porcb (set_free_por f s) = porcb s" "freeq (portab (ko (set_free_por f s))) = f"
  "maxid (portab (ko (set_free_por f s))) = maxid (portab (ko s))" "waiters (set_free_por f s) = waiters s"
  by (simp_all add: set_free_por_def porcb_def fun_eq_iff)

definition por_view :: "kstate \<Rightarrow> nat \<Rightarrow> PORCB \<times> waiter list \<times> waiter list" where
  "por_view s i = (porcb s i, waiters s (QCal i), waiters s (QAcp i))"

definition cal_waiter :: "PORCB \<Rightarrow> waiter \<Rightarrow> bool" where
  "cal_waiter c w \<longleftrightarrow> (case w of (t, wi, d, sp, p) \<Rightarrow>
     INDEX_OBJ d = INDEX_OBJ (porid c) \<and> sp = (if poratr c AND TA_TPRI \<noteq> 0 then Wspec_cal_tpri else Wspec_cal_tfifo) \<and>
     (\<exists>ptn m sz pr. wi = Winfo_cal ptn m sz pr \<and> 0 \<le> sz \<and> sz \<le> maxcmsz c))"

definition acp_waiter :: "PORCB \<Rightarrow> waiter \<Rightarrow> bool" where
  "acp_waiter c w \<longleftrightarrow> (case w of (t, wi, d, sp, p) \<Rightarrow>
     INDEX_OBJ d = INDEX_OBJ (porid c) \<and> sp = Wspec_acp \<and> (\<exists>ptn m pr pc. wi = Winfo_acp ptn m pr pc))"

text \<open>No waiting caller and waiting acceptor could meet.\<close>

definition unmatched :: "waiter \<Rightarrow> waiter \<Rightarrow> bool" where
  "unmatched c a \<longleftrightarrow> cal_calptn (fst (snd c)) AND acp_acpptn (fst (snd a)) = 0"

fun por_wf :: "nat \<Rightarrow> PORCB \<times> waiter list \<times> waiter list \<Rightarrow> bool" where
  "por_wf i (c, cs, as) \<longleftrightarrow>
     (if porid c = 0 then cs = [] \<and> as = []
      else INDEX_OBJ (porid c) = i \<and> (poratr c AND TA_TPRI \<noteq> 0 \<longrightarrow> sorted (map waiter_pri cs)) \<and>
        (\<forall>w\<in>set cs. cal_waiter c w) \<and> (\<forall>w\<in>set as. acp_waiter c w) \<and> (\<forall>x\<in>set cs. \<forall>a\<in>set as. unmatched x a))"

definition por_agree :: "kstate \<Rightarrow> kstate \<Rightarrow> bool" where
  "por_agree s s' \<longleftrightarrow> portab (ko s') = portab (ko s)"

interpretation por_tab: obj_table por_ops por_view "\<lambda>v. porid (fst v)" por_wf por_agree "\<lambda>i. {QCal i, QAcp i}"
proof unfold_locales
  show "por_agree s s' \<Longrightarrow> touches Q s s' \<Longrightarrow> {QCal i, QAcp i} \<inter> Q = {} \<Longrightarrow> por_view s' i = por_view s i" for s s' Q i
    by (simp add: por_agree_def por_view_def porcb_def touchesD)
qed (auto simp: por_agree_def objs_same_def por_ops_def por_view_def waiters_def cal_waiter_def acp_waiter_def porcb_def)

abbreviation pors_ok :: "kstate \<Rightarrow> bool" where
  "pors_ok \<equiv> por_tab.table_ok"

lemma por_ops_sel [simp]:
  "oo_max por_ops s = maxid (portab (ko s))" "oo_free por_ops s = freeq (portab (ko s))" "oo_type por_ops = OT_POR"
  "oo_set_id por_ops i x = upd_por i (\<lambda>c. c\<lparr>porid := x\<rparr>)" "oo_set_free por_ops = set_free_por"
  by (simp_all add: por_ops_def)

lemma por_index: "guards (CHECK_PORID s pid # gs) = None \<Longrightarrow> INDEX_OBJ pid < maxid (portab (ko s))"
  by (auto simp: guards_None CHECK_PORID_def intro: CHECK_OBJID_index)

lemma pors_okD: "pors_ok s \<Longrightarrow> i < maxid (portab (ko s)) \<Longrightarrow> por_wf i (porcb s i, waiters s (QCal i), waiters s (QAcp i))"
  using por_tab.table_okD [of s i] by (simp add: por_view_def)

lemma pors_ok_step:
  assumes "pors_ok s" "maxid (portab (ko s')) = maxid (portab (ko s))" "freeq (portab (ko s')) = freeq (portab (ko s))"
    "\<And>j. j \<noteq> i \<Longrightarrow> porcb s' j = porcb s j" "touches {QCal i, QAcp i} s s'" "porid (porcb s i) \<noteq> 0"
    "por_wf i (porcb s' i, waiters s' (QCal i), waiters s' (QAcp i))"
  shows "pors_ok s'"
  by (rule por_tab.table_ok_step [OF assms(1), where i = i])
    (use assms touchesD [OF assms(5)] in \<open>simp_all add: por_view_def\<close>)

section \<open>Every call keeps the invariant\<close>

lemma tk_cre_por_inv:
  assumes k: "kinv s" and ok: "pors_ok s" and r: "tk_cre_por prid pk s = Some (e, s')"
  shows "kinv s' \<and> pors_ok s'"
proof (rule por_tab.obj_cre_ok [OF r [unfolded tk_cre_por_def] k ok])
  fix i oid u
  assume u: "kinv u" "por_wf i (por_view u i)" "porid (fst (por_view u i)) = 0" "INDEX_OBJ oid = i" "oid \<noteq> 0"
  have q: "ques u (QCal i) = []" "ques u (QAcp i) = []" using u(2,3) by (simp_all add: por_view_def)
  have s: "set_que (QAcp i) [] (set_que (QCal i) [] u) = u" using q by (simp add: set_que_same)
  show "por_tab.step_on i u (upd_por i (\<lambda>c. c\<lparr>porid := oid, por_exinf := cpor_exinf pk, poratr := cpor_poratr pk,
           maxcmsz := cpor_maxcmsz pk, maxrmsz := cpor_maxrmsz pk\<rparr>) (set_que (QAcp i) [] (set_que (QCal i) [] u)))"
    unfolding s using u q by (simp add: por_tab.step_on_def por_view_def waiters_def)
qed

lemma tk_del_por_inv:
  assumes "kinv s" and "pors_ok s" and "tk_del_por prid pid s = Some (e, s')"
  shows "kinv s' \<and> pors_ok s'"
  by (rule por_tab.obj_del2_ok [OF assms(3)[unfolded tk_del_por_def] assms(1,2)])
    (use por_index in \<open>auto simp: por_view_def\<close>)

text \<open>Tasks leave the two queues.\<close>

lemma por_wf_filter: "por_wf i (c, cs, as) \<Longrightarrow> por_wf i (c, filter P cs, filter Q as)"
  using sorted_map_filter [of waiter_pri cs P] by (auto split: if_splits)

lemma por_mem [simp]:
  "porcb (s\<lparr>umem := m\<rparr>) = porcb s" "pors_ok (s\<lparr>umem := m\<rparr>) \<longleftrightarrow> pors_ok s" "waiters (s\<lparr>umem := m\<rparr>) = waiters s"
  "porcb (upd_bmem f s) = porcb s" "pors_ok (upd_bmem f s) \<longleftrightarrow> pors_ok s"
proof -
  show w: "porcb (s\<lparr>umem := m\<rparr>) = porcb s" "waiters (s\<lparr>umem := m\<rparr>) = waiters s" "porcb (upd_bmem f s) = porcb s"
    by (simp_all add: porcb_def waiters_def fun_eq_iff)
  show "pors_ok (s\<lparr>umem := m\<rparr>) \<longleftrightarrow> pors_ok s" "pors_ok (upd_bmem f s) \<longleftrightarrow> pors_ok s"
    using w by (simp_all add: por_tab.table_ok_def por_view_def del: por_wf.simps)
qed

lemma por_release_ok:
  assumes k: "kinv s" and ok: "pors_ok s" and i: "i < maxid (portab (ko s))" "porid (porcb s i) \<noteq> 0"
    and q: "q = QCal i \<or> q = QAcp i" and t: "t \<in> set (ques s q)"
  shows "kinv (wait_release_ok_ercd t e s) \<and> pors_ok (wait_release_ok_ercd t e s)"
proof -
  let ?u = "wait_release_ok_ercd t e s"
  have h: "wait_head q" using q by auto
  note rp = wait_release_props [OF k h t, where e = e]
  note tch = touches_release [OF k h t, where e = e]
  have o: "objs_same s ?u" by (rule rp)
  have tab: "porcb ?u = porcb s" "portab (ko ?u) = portab (ko s)" using o by (simp_all add: objs_same_def porcb_def fun_eq_iff)
  let ?P = "\<lambda>w. q = QCal i \<longrightarrow> fst w \<noteq> t" and ?Q = "\<lambda>w. q = QAcp i \<longrightarrow> fst w \<noteq> t"
  have w: "waiters ?u (QCal i) = filter ?P (waiters s (QCal i))" "waiters ?u (QAcp i) = filter ?Q (waiters s (QAcp i))"
    using q tch touchesD [OF tch(1), of "QCal i"] touchesD [OF tch(1), of "QAcp i"] by auto
  have "por_wf i (porcb ?u i, waiters ?u (QCal i), waiters ?u (QAcp i))"
    unfolding tab w by (rule por_wf_filter [OF pors_okD [OF ok i(1)]])
  then have "pors_ok ?u"
    by (rule pors_ok_step [OF ok _ _ _ touches_mono [OF tch(1)] i(2), rotated -1]) (use q in \<open>simp_all add: tab\<close>)
  with rp(1) show ?thesis by simp
qed

text \<open>The acceptor \<open>a\<close> gets the message and leaves its queue.\<close>

definition call_mem :: "nat \<Rightarrow> UW \<Rightarrow> UW \<Rightarrow> int \<Rightarrow> kstate \<Rightarrow> kstate" where
  "call_mem a rdvno msg cmsgsz s =
    (if cmsgsz > 0 then upd_bmem (memcpy (acp_msg (winfo (tcbs s a))) msg (nat cmsgsz)) s else s)
      \<lparr>umem := (umem s)(acp_p_rdvno (winfo (tcbs s a)) := rdvno, acp_p_cmsgsz (winfo (tcbs s a)) := word_of_int cmsgsz)\<rparr>"

lemma give_call_mem: "give_call a rdvno msg cmsgsz s = wait_release_ok_ercd a E_OK (call_mem a rdvno msg cmsgsz s)"
  by (simp add: give_call_def call_mem_def Let_def wait_release_ok_ercd_E_OK)

lemma call_mem_sel [simp]:
  "tcbs (call_mem a r m z s) = tcbs s" "ques (call_mem a r m z s) = ques s" "kinv (call_mem a r m z s) \<longleftrightarrow> kinv s"
  "waiters (call_mem a r m z s) = waiters s" "porcb (call_mem a r m z s) = porcb s" "pors_ok (call_mem a r m z s) \<longleftrightarrow> pors_ok s"
  "portab (ko (call_mem a r m z s)) = portab (ko s)" "ctxtsk (call_mem a r m z s) = ctxtsk s" "rdy (call_mem a r m z s) = rdy s"
  by (simp_all add: call_mem_def waiters_def fun_eq_iff rdy_def)

lemma give_call_ok:
  fixes r m :: UW and z :: int
  assumes k: "kinv s" and ok: "pors_ok s" and i: "i < maxid (portab (ko s))" "porid (porcb s i) \<noteq> 0" and a: "a \<in> set (ques s (QAcp i))"
  defines "u \<equiv> give_call a r m z s"
  shows "kinv u" "pors_ok u" "ctxtsk u = ctxtsk s" "set (rdy s) \<subseteq> set (rdy u)" "porcb u = porcb s" "portab (ko u) = portab (ko s)"
    "\<And>x. x \<noteq> a \<Longrightarrow> tcbs u x = tcbs s x" "\<And>q. \<not> ready_head q \<Longrightarrow> q \<noteq> QAcp i \<Longrightarrow> ques u q = ques s q"
    "set (ques u (QAcp i)) \<subseteq> set (ques s (QAcp i))"
proof -
  have km: "kinv (call_mem a r m z s)" "pors_ok (call_mem a r m z s)" "a \<in> set (ques (call_mem a r m z s) (QAcp i))"
    "i < maxid (portab (ko (call_mem a r m z s)))" "porid (porcb (call_mem a r m z s) i) \<noteq> 0"
    using k ok i a by simp_all
  have h: "wait_head (QAcp i)" by simp
  note w = por_release_ok [OF km(1,2,4,5) _ km(3), of E_OK]
  note p = wait_release_props [OF km(1) h km(3), where e = E_OK]
  show "kinv u" "pors_ok u" using w by (simp_all add: u_def give_call_mem)
  show "ctxtsk u = ctxtsk s" "porcb u = porcb s" "portab (ko u) = portab (ko s)"
    using p(6) by (simp_all add: u_def give_call_mem objs_same_def porcb_def fun_eq_iff)
  show "set (rdy s) \<subseteq> set (rdy u)" using p(7) by (auto simp: u_def give_call_mem)
  show "tcbs u x = tcbs s x" if "x \<noteq> a" for x using p(4) [OF that] by (simp add: u_def give_call_mem)
  show "ques u q = ques s q" if "\<not> ready_head q" "q \<noteq> QAcp i" for q using p(3) [OF that] by (simp add: u_def give_call_mem)
  show "set (ques u (QAcp i)) \<subseteq> set (ques s (QAcp i))" using set_remove1_subset p(2) by (fastforce simp: u_def give_call_mem)
qed

lemma gen_rdvno_ok:
  assumes k: "kinv s" and ok: "pors_ok s"
  shows "kinv (snd (gen_rdvno t s))" "pors_ok (snd (gen_rdvno t s))" "rdy (snd (gen_rdvno t s)) = rdy s"
    "ques (snd (gen_rdvno t s)) = ques s" "ctxtsk (snd (gen_rdvno t s)) = ctxtsk s" "ko (snd (gen_rdvno t s)) = ko s"
    "porcb (snd (gen_rdvno t s)) = porcb s" "waiters (snd (gen_rdvno t s)) = waiters s"
    "wview (tcbs (snd (gen_rdvno t s)) x) = wview (tcbs s x)" "state (tcbs (snd (gen_rdvno t s)) x) = state (tcbs s x)"
proof -
  let ?u = "snd (gen_rdvno t s)"
  have u: "?u = upd_tcb t (\<lambda>c. c\<lparr>wrdvno := next_rdvno (wrdvno c)\<rparr>) s" by (simp add: gen_rdvno_def)
  show "kinv ?u" "rdy ?u = rdy s" unfolding u by (rule kinv_tcb_upd [OF k]; simp)+
  show v: "wview (tcbs ?u x) = wview (tcbs s x)" for x by (simp add: u wview_def)
  show "state (tcbs ?u x) = state (tcbs s x)" by (simp add: u)
  show "ques ?u = ques s" "ctxtsk ?u = ctxtsk s" "ko ?u = ko s" by (simp_all add: u)
  show "porcb ?u = porcb s" by (simp add: u porcb_def fun_eq_iff)
  show "waiters ?u = waiters s" using v by (simp add: waiters_def fun_eq_iff u)
  have "touches {} s ?u" by (rule touchesI) (use v in \<open>simp_all add: u\<close>)
  then show "pors_ok ?u" using por_tab.table_ok_elsewhere [of s ?u] ok by (simp add: u por_agree_def)
qed

text \<open>A caller and an acceptor join their queues; they meet nobody there.\<close>

lemma por_wf_cal:
  assumes w: "por_wf i (c, cs, as)" "porid c \<noteq> 0" and x: "cal_waiter c x" "\<forall>a\<in>set as. unmatched x a"
  shows "por_wf i (c, join_queue (poratr c) x cs, as)"
proof -
  have "sorted (map waiter_pri (join_queue (poratr c) x cs))" if "poratr c AND TA_TPRI \<noteq> 0"
    by (rule sorted_join [OF that]) (use w that in simp)
  moreover have "\<forall>y\<in>set (join_queue (poratr c) x cs). cal_waiter c y" using w x by (simp add: set_join)
  moreover have "\<forall>y\<in>set (join_queue (poratr c) x cs). \<forall>a\<in>set as. unmatched y a" using w x by (auto simp: set_join)
  ultimately show ?thesis using w by simp
qed

lemma por_wf_acp:
  assumes "por_wf i (c, cs, as)" "porid c \<noteq> 0" and "acp_waiter c x" "\<forall>y\<in>set cs. unmatched y x"
  shows "por_wf i (c, cs, as @ [x])"
  using assms by auto

lemma unmatched_acceptors:
  "List.find (\<lambda>a. p AND acp_acpptn (winfo (tcbs s a)) \<noteq> 0) (ques s (QAcp i)) = None \<Longrightarrow>
   \<forall>a\<in>set (waiters s (QAcp i)). unmatched (t, Winfo_cal p m z r, y) a"
  by (auto simp: find_None_iff waiters_def unmatched_def wview_def)

lemma unmatched_callers:
  "List.find (\<lambda>c. p AND cal_calptn (winfo (tcbs s c)) \<noteq> 0) (ques s (QCal i)) = None \<Longrightarrow>
   \<forall>c\<in>set (waiters s (QCal i)). unmatched c (t, Winfo_acp p m r z, y)"
  by (auto simp: find_None_iff waiters_def unmatched_def wview_def and.commute)

lemma find_in: "List.find P xs = Some x \<Longrightarrow> x \<in> set xs \<and> P x"
  by (induction xs) (auto split: if_splits)

lemma tk_cal_por_inv:
  assumes k: "kinv s" and ok: "pors_ok s" and c: "ctx_ready prid s" and r: "tk_cal_por prid pid p msg z pr tmout s = Some (e, s')"
  shows "kinv s' \<and> pors_ok s'"
proof (rule por_tab.obj_call_ok [OF r [unfolded tk_cal_por_def] k ok])
  fix i
  let ?f = "\<lambda>a. p AND acp_acpptn (winfo (tcbs s a)) \<noteq> 0"
  let ?sp = "if poratr (porcb s i) AND TA_TPRI \<noteq> 0 then Wspec_cal_tpri else Wspec_cal_tfifo"
  assume i: "i = INDEX_OBJ pid" "guards [CHECK_PORID s pid, CHECK_PAR (p \<noteq> 0), CHECK_PAR (z \<ge> 0), CHECK_TMOUT tmout, CHECK_DISPATCH prid s] = None"
      "porid (fst (por_view s i)) \<noteq> 0"
    and b: "(if z > maxcmsz (porcb s i) then end_critical E_PAR s
             else do {
               t \<leftarrow> ctxtsk s prid;
               case List.find ?f (ques s (QAcp i)) of
                 Some a \<Rightarrow>
                   if is_diswai (por_gcb s i) (tcbs s t) TTW_CAL then end_critical E_DISWAI s
                   else
                     (let (rdvno, s) = gen_rdvno t s;
                          s = give_call a rdvno msg z s
                      in if is_diswai (por_gcb s i) (tcbs s t) TTW_RDV then end_critical E_DISWAI s
                         else do {
                           s \<leftarrow> make_wait prid TMO_FEVR (poratr (porcb s i)) (upd_tcb t (\<lambda>c. c\<lparr>wspec := Wspec_rdv, wid := 0, wercd := E_TMOUT,
                               winfo := Winfo_rdv rdvno msg (maxrmsz (porcb s i)) pr\<rparr>) s);
                           end_critical (wercd (tcbs s t)) s
                         })
               | None \<Rightarrow> wait_on prid (por_gcb s i) ?sp (Winfo_cal p msg z pr) tmout s
             }) = Some (e, s')"
  have ix: "i < maxid (portab (ko s))" using por_index [OF i(2)] i(1) by simp
  have live: "porid (porcb s i) \<noteq> 0" using i(3) by (simp add: por_view_def)
  have z: "0 \<le> z" using i(2) by (simp add: guards_None CHECK_PAR_def split: if_splits)
  note w = pors_okD [OF ok ix]
  show "kinv s' \<and> pors_ok s'"
  proof (cases "z > maxcmsz (porcb s i)")
    case True
    with b have "end_critical E_PAR s = Some (e, s')" by simp
    from por_tab.table_ok_end [OF this k ok] show ?thesis .
  next
    case False
    obtain t where t: "ctxtsk s prid = Some t" using b False by (auto split: Option.bind_splits)
    have tr: "t \<in> set (rdy s)" using c t by (simp add: ctx_ready_def)
    show ?thesis
    proof (cases "List.find ?f (ques s (QAcp i))")
      case None
      then have wo: "wait_on prid (por_gcb s i) ?sp (Winfo_cal p msg z pr) tmout s = Some (e, s')"
        using b False t by simp
      show ?thesis
      proof (rule por_tab.wait_on_table_ok [OF k ok t tr _ wo i(3)])
        let ?w = "(t, Winfo_cal p msg z pr, objid (por_gcb s i), ?sp, pri s t)"
        fix u
        assume o: "objs_same s u" and tch: "touches {wait_queue (por_gcb s i)} s u"
          and "waiters u (wait_queue (por_gcb s i)) = join_queue (objatr (por_gcb s i)) ?w (waiters s (wait_queue (por_gcb s i)))"
        then have ws: "waiters u (QCal i) = join_queue (poratr (porcb s i)) ?w (waiters s (QCal i))" "waiters u (QAcp i) = waiters s (QAcp i)"
          using touchesD [OF tch, of "QAcp i"] by (simp_all add: por_gcb_def)
        have pc: "porcb u = porcb s" using o by (simp add: objs_same_def porcb_def fun_eq_iff)
        have x: "cal_waiter (porcb s i) ?w" using False z by (simp add: cal_waiter_def por_gcb_def)
        have "por_wf i (porcb s i, join_queue (poratr (porcb s i)) ?w (waiters s (QCal i)), waiters s (QAcp i))"
          by (rule por_wf_cal [OF w live x unmatched_acceptors [OF None]])
        then show "por_wf i (por_view u i)" unfolding por_view_def ws pc .
      qed (simp_all add: por_gcb_def)
    next
      case (Some a)
      define g where "g = snd (gen_rdvno t s)"
      define n where "n = fst (gen_rdvno t s)"
      define u where "u = give_call a n msg z g"
      have gg: "gen_rdvno t s = (n, g)" by (simp add: n_def g_def)
      note g = gen_rdvno_ok [OF k ok, of t, folded g_def]
      have aq: "a \<in> set (ques g (QAcp i))" using find_in [OF Some] g(4) by simp
      have gi: "i < maxid (portab (ko g))" "porid (porcb g i) \<noteq> 0" using ix live g(6,7) by simp_all
      note u = give_call_ok [OF g(1,2) gi aq, where r = n and m = msg and z = z, folded u_def]
      have ut: "ctxtsk u prid = Some t" "t \<in> set (rdy u)" using u(3,4) g(3,5) t tr by auto
      consider "end_critical E_DISWAI s = Some (e, s')" | "end_critical E_DISWAI u = Some (e, s')"
        | s2 where "make_wait prid TMO_FEVR (poratr (porcb u i)) (upd_tcb t (\<lambda>c. c\<lparr>wspec := Wspec_rdv, wid := 0, wercd := E_TMOUT,
                               winfo := Winfo_rdv n msg (maxrmsz (porcb u i)) pr\<rparr>) u) = Some s2"
            "end_critical (wercd (tcbs s2 t)) s2 = Some (e, s')"
        using b False t Some gg u_def by (auto simp: Let_def split: if_splits Option.bind_splits)
      then show ?thesis
      proof cases
        case 1
        from por_tab.table_ok_end [OF this k ok] show ?thesis .
      next
        case 2
        from por_tab.table_ok_end [OF this u(1,2)] show ?thesis .
      next
        case (3 s2)
        note m = make_wait_alone [OF u(1) ut _ _ _ 3(1)]
        have "kinv s2" "objs_same u s2" "touches {} u s2" using m by simp_all
        then have "pors_ok s2" using por_tab.table_ok_elsewhere [of u s2] u(2) by (simp add: objs_same_def por_agree_def)
        from por_tab.table_ok_end [OF 3(2) \<open>kinv s2\<close> this] show ?thesis .
      qed
    qed
  qed
qed

text \<open>The caller goes from the call queue to the wait for the reply.\<close>

lemma begin_rdv_ok:
  assumes k: "kinv s" and ok: "pors_ok s" and i: "i < maxid (portab (ko s))" "porid (porcb s i) \<noteq> 0" and c: "c \<in> set (ques s (QCal i))"
  shows "kinv (begin_rdv i c n s) \<and> pors_ok (begin_rdv i c n s)"
proof -
  define s1 where "s1 = QueRemove_tsk c (timer_delete (TmTsk c) s)"
  define f where "f = (\<lambda>x::tcb. x\<lparr>wspec := Wspec_rdv, wid := 0,
      winfo := Winfo_rdv n (wi_msg (winfo x)) (maxrmsz (porcb s1 i)) (wi_p_rmsgsz (winfo x))\<rparr>)"
  define u where "u = timer_insert (TmTsk c) TMO_FEVR (Some (Cb_wait_release_tmout c)) (upd_tcb c f s1)"
  have e: "begin_rdv i c n s = u" by (simp add: begin_rdv_def wait_cancel_def Let_def s1_def f_def u_def)
  have w: "is_wait (state (tcbs s c))" by (rule wait_headD [OF k _ c]) simp
  have b1: "kinv_but c s1" unfolding s1_def by (rule kinv_but_remove) (use k kinv_waitD(1) [OF k w] in simp_all)
  have pf: "priority (f (tcbs s1 c)) < NUM_PRI" using kinv_dest(4) [OF k] by (simp add: f_def s1_def)
  note b2 = kinv_but_upd(1) [OF b1, of f, OF pf]
  have b3: "kinv_but c u" unfolding u_def by (rule kinv_but_timer(1) [OF b2])
  obtain v where "tcbs u = (tcbs (upd_tcb c f s1))(c := (tcbs (upd_tcb c f s1) c)\<lparr>wtmeb := v\<rparr>)"
    unfolding u_def using timer_insert_tcbs by blast
  then have t: "tcbs u = (tcbs s)(c := (f (tcbs s c))\<lparr>wtmeb := v\<rparr>)" by (simp add: s1_def)
  have ku: "kinv u" by (rule kinv_but_rest [OF b3]) (use w kinv_waitD(2) [OF k w] in \<open>auto simp: t f_def\<close>)
  have qu: "ques u q = remove1 c (ques s q)" for q by (simp add: u_def s1_def QueRemove_tsk_def)
  have nq: "c \<notin> set (ques s q)" if "q \<noteq> QCal i" for q using kinv_dest(7) [OF k c] that by blast
  have tch: "touches {QCal i} s u"
  proof (rule touchesI)
    show "ques u q = ques s q" if "q \<notin> {QCal i}" for q using nq that by (simp add: qu remove1_idem)
    show "wview (tcbs u x) = wview (tcbs s x)" if "q \<notin> {QCal i}" "x \<in> set (ques s q)" for q x
      using nq [of q] that by (auto simp: t)
  qed
  have wc: "waiters u (QCal i) = filter (\<lambda>w. fst w \<noteq> c) (waiters s (QCal i))"
    using kinv_dest(5) [OF k, of "QCal i"] by (simp add: waiters_def qu distinct_remove1_filter filter_map comp_def t)
  have o: "objs_same s u" by (simp add: u_def s1_def)
  have tab: "porcb u = porcb s" "portab (ko u) = portab (ko s)" using o by (simp_all add: objs_same_def porcb_def fun_eq_iff)
  have wa: "waiters u (QAcp i) = filter (\<lambda>_. True) (waiters s (QAcp i))" using touchesD [OF tch, of "QAcp i"] by simp
  have "por_wf i (porcb u i, waiters u (QCal i), waiters u (QAcp i))"
    unfolding tab wc wa by (rule por_wf_filter [OF pors_okD [OF ok i(1)]])
  then have "pors_ok u"
    by (rule pors_ok_step [OF ok _ _ _ touches_mono [OF tch] i(2), rotated -1]) (simp_all add: tab)
  with ku show ?thesis by (simp add: e)
qed

lemma cal_no_hook: "pors_ok s \<Longrightarrow> i < maxid (portab (ko s)) \<Longrightarrow> c \<in> set (ques s (QCal i)) \<Longrightarrow>
    rel_wai_hook (wspec_at (wspec (tcbs s c))) = None"
proof -
  assume ok: "pors_ok s" and i: "i < maxid (portab (ko s))" and c: "c \<in> set (ques s (QCal i))"
  have "(c, wview (tcbs s c)) \<in> set (waiters s (QCal i))" using c by (simp add: waiters_def)
  then have "cal_waiter (porcb s i) (c, wview (tcbs s c))" using pors_okD [OF ok i] by (auto split: if_splits)
  then show ?thesis by (auto simp: cal_waiter_def wview_def)
qed

lemma tk_acp_por_inv:
  assumes k: "kinv s" and ok: "pors_ok s" and c: "ctx_ready prid s" and r: "tk_acp_por rh prid pid p pn msg pz tmout s = Some (e, s')"
  shows "kinv s' \<and> pors_ok s'"
proof (rule por_tab.obj_call_ok [OF r [unfolded tk_acp_por_def] k ok])
  fix i
  let ?f = "\<lambda>c. p AND cal_calptn (winfo (tcbs s c)) \<noteq> 0"
  assume i: "i = INDEX_OBJ pid" "guards [CHECK_PORID s pid, CHECK_PAR (p \<noteq> 0), CHECK_TMOUT tmout, CHECK_DISPATCH prid s] = None"
      "porid (fst (por_view s i)) \<noteq> 0"
    and b: "do {
         t \<leftarrow> ctxtsk s prid;
         case List.find ?f (ques s (QCal i)) of
           Some c \<Rightarrow>
             if is_diswai (por_gcb s i) (tcbs s t) TTW_ACP then end_critical E_DISWAI s
             else
               (let (rdvno, s) = gen_rdvno c s;
                    s = s\<lparr>umem := (umem s)(pn := rdvno)\<rparr>;
                    cmsgsz = cal_cmsgsz (winfo (tcbs s c));
                    s = (if cmsgsz > 0 then upd_bmem (memcpy msg (cal_msg (winfo (tcbs s c))) (nat cmsgsz)) s else s)
                in if is_diswai (por_gcb s i) (tcbs s c) TTW_RDV then
                     do { s \<leftarrow> wait_release_ng rh c E_DISWAI s; end_critical cmsgsz s }
                   else end_critical cmsgsz (begin_rdv i c rdvno s))
         | None \<Rightarrow>
             if is_diswai (por_gcb s i) (tcbs s t) TTW_ACP then end_critical E_DISWAI s
             else wait_tail prid (QAcp i) pid (poratr (porcb s i)) Wspec_acp (Winfo_acp p msg pn pz) tmout s
       } = Some (e, s')"
  have ix: "i < maxid (portab (ko s))" using por_index [OF i(2)] i(1) by simp
  have live: "porid (porcb s i) \<noteq> 0" using i(3) by (simp add: por_view_def)
  note w = pors_okD [OF ok ix]
  obtain t where t: "ctxtsk s prid = Some t" using b by (auto split: Option.bind_splits)
  have tr: "t \<in> set (rdy s)" using c t by (simp add: ctx_ready_def)
  show "kinv s' \<and> pors_ok s'"
  proof (cases "is_diswai (por_gcb s i) (tcbs s t) TTW_ACP")
    case True
    with b t have "end_critical E_DISWAI s = Some (e, s')" by (simp split: option.splits)
    from por_tab.table_ok_end [OF this k ok] show ?thesis .
  next
    case dis: False
    show ?thesis
    proof (cases "List.find ?f (ques s (QCal i))")
      case None
      then have wt: "wait_tail prid (QAcp i) pid (poratr (porcb s i)) Wspec_acp (Winfo_acp p msg pn pz) tmout s = Some (e, s')"
        using b dis t by simp
      show ?thesis
      proof (rule por_tab.wait_tail_table_ok [OF k ok t tr _ wt i(3)])
        let ?w = "(t, Winfo_acp p msg pn pz, pid, Wspec_acp, pri s t)"
        fix u
        assume o: "objs_same s u" and tch: "touches {QAcp i} s u" and "waiters u (QAcp i) = waiters s (QAcp i) @ [?w]"
        then have ws: "waiters u (QAcp i) = waiters s (QAcp i) @ [?w]" "waiters u (QCal i) = waiters s (QCal i)"
          using touchesD [OF tch, of "QCal i"] by simp_all
        have pc: "porcb u = porcb s" using o by (simp add: objs_same_def porcb_def fun_eq_iff)
        have x: "acp_waiter (porcb s i) ?w" using w live i(1) by (simp add: acp_waiter_def)
        have "por_wf i (porcb s i, waiters s (QCal i), waiters s (QAcp i) @ [?w])"
          by (rule por_wf_acp [OF w live x unmatched_callers [OF None]])
        then show "por_wf i (por_view u i)" unfolding por_view_def ws pc .
      qed simp_all
    next
      case (Some d)
      define g where "g = snd (gen_rdvno d s)"
      define n where "n = fst (gen_rdvno d s)"
      have gg: "gen_rdvno d s = (n, g)" by (simp add: n_def g_def)
      note g = gen_rdvno_ok [OF k ok, of d, folded g_def]
      define h where "h = g\<lparr>umem := (umem g)(pn := n)\<rparr>"
      define z where "z = cal_cmsgsz (winfo (tcbs h d))"
      define v where "v = (if z > 0 then upd_bmem (memcpy msg (cal_msg (winfo (tcbs h d))) (nat z)) h else h)"
      have v: "kinv v" "pors_ok v" "ques v = ques s" "porcb v = porcb s" "portab (ko v) = portab (ko s)"
        using g by (simp_all add: v_def h_def)
      have dq: "d \<in> set (ques v (QCal i))" using find_in [OF Some] v(3) by simp
      have vi: "i < maxid (portab (ko v))" "porid (porcb v i) \<noteq> 0" using ix live v(4,5) by simp_all
      have "(if is_diswai (por_gcb v i) (tcbs v d) TTW_RDV then do { s \<leftarrow> wait_release_ng rh d E_DISWAI v; end_critical z s }
          else end_critical z (begin_rdv i d n v)) = Some (e, s')"
        using b by (simp only: dis t Some gg v_def z_def h_def Let_def prod.case option.case if_False Option.bind.simps)
      then consider "end_critical z (wait_release_ok_ercd d E_DISWAI v) = Some (e, s')" | "end_critical z (begin_rdv i d n v) = Some (e, s')"
        using wait_release_ng_None [OF cal_no_hook [OF v(2) vi(1) dq], of rh E_DISWAI] by (auto split: if_splits)
      then show ?thesis
      proof cases
        case 1
        note x = por_release_ok [OF v(1,2) vi _ dq, of E_DISWAI]
        show ?thesis by (rule por_tab.table_ok_end [OF 1]) (use x in simp_all)
      next
        case 2
        note x = begin_rdv_ok [OF v(1,2) vi dq, of n]
        show ?thesis by (rule por_tab.table_ok_end [OF 2]) (use x in simp_all)
      qed
    qed
  qed
qed

text \<open>
  A task that waits for the end of a rendezvous is in no queue. For the kernel as a whole this follows
  from the invariants of the modules, each of which says what the tasks in its queues wait for.
\<close>

definition rdv_apart :: "kstate \<Rightarrow> bool" where
  "rdv_apart s \<longleftrightarrow> (\<forall>q. wait_head q \<longrightarrow> (\<forall>t\<in>set (ques s q). wspec (tcbs s t) \<noteq> Wspec_rdv))"

lemma rdv_alone:
  assumes k: "kinv s" and a: "rdv_apart s" and w: "rdv_waiting s c n"
  shows "c \<notin> set (ques s q)"
proof
  assume q: "c \<in> set (ques s q)"
  then have "place_ok q (tcbs s c)" using kinv_dest(6) [OF k] by simp
  then have "wait_head q" using w by (cases q) (auto simp: rdv_waiting_def)
  with a q w show False by (auto simp: rdv_apart_def rdv_waiting_def)
qed

lemma pors_alone: "pors_ok s \<Longrightarrow> objs_same s u \<Longrightarrow> touches {} s u \<Longrightarrow> pors_ok u"
  using por_tab.table_ok_elsewhere [of s u] by (simp add: objs_same_def por_agree_def)

lemma refuse_fwd_ok:
  assumes k: "kinv s" and ok: "pors_ok s" and c: "is_wait (state (tcbs s c))" "wspec (tcbs s c) = Wspec_rdv" "\<And>q. c \<notin> set (ques s q)"
    and r: "refuse_fwd rh c s = Some (e, s')"
  shows "kinv s' \<and> pors_ok s'"
proof -
  have h: "rel_wai_hook (wspec_at (wspec (tcbs s c))) = None" using c by simp
  have "end_critical E_DISWAI (wait_release_ok_ercd c E_DISWAI s) = Some (e, s')"
    using r by (simp add: refuse_fwd_def wait_release_ng_None [OF h])
  note x = release_alone [OF k c(1,3), where e = E_DISWAI]
  show ?thesis by (rule por_tab.table_ok_end [OF \<open>end_critical _ _ = _\<close> x(1) pors_alone [OF ok x(2,3)]])
qed

lemma requeue_call_ok:
  assumes k: "kinv s" and ok: "pors_ok s" and i: "i < maxid (portab (ko s))" "porid (porcb s i) \<noteq> 0" "i = INDEX_OBJ pid"
    and w: "is_wait (state (tcbs s c))" and n: "\<And>q. c \<notin> set (ques s q)" and z: "0 \<le> z" "z \<le> maxcmsz (porcb s i)"
    and f: "List.find (\<lambda>a. p AND acp_acpptn (winfo (tcbs s a)) \<noteq> 0) (ques s (QAcp i)) = None"
  shows "kinv (requeue_call i pid c p msg z s) \<and> pors_ok (requeue_call i pid c p msg z s)"
proof -
  let ?atr = "poratr (porcb s i)"
  define g where "g = (\<lambda>x::tcb. x\<lparr>wspec := (if ?atr AND TA_TPRI \<noteq> 0 then Wspec_cal_tpri else Wspec_cal_tfifo), wid := pid,
               winfo := Winfo_cal p (wi_msg (winfo x)) z (wi_p_rmsgsz (winfo x)), nodiswai := ?atr AND TA_NODISWAI \<noteq> 0\<rparr>)"
  define u where "u = timer_insert (TmTsk c) TMO_FEVR (Some (Cb_wait_release_tmout c)) (upd_tcb c g s)"
  define xs where "xs = (if ?atr AND TA_TPRI \<noteq> 0 then insert_before (\<lambda>x. pri s x > pri s c) c (ques s (QCal i)) else ques s (QCal i) @ [c])"
  define v where "v = set_que (QCal i) xs u"
  obtain tv where "tcbs u = (tcbs (upd_tcb c g s))(c := (tcbs (upd_tcb c g s) c)\<lparr>wtmeb := tv\<rparr>)"
    unfolding u_def using timer_insert_tcbs by blast
  then have t: "tcbs u = (tcbs s)(c := (g (tcbs s c))\<lparr>wtmeb := tv\<rparr>)" by simp
  have pr: "pri u x = pri s x" for x by (simp add: t g_def)
  have qu: "ques u = ques s" by (simp add: u_def)
  have e: "requeue_call i pid c p msg z s = (if z > 0 then upd_bmem (memcpy (cal_msg (winfo (tcbs v c))) msg (nat z)) v else v)"
  proof -
    have "v = (if ?atr AND TA_TPRI \<noteq> 0 then queue_insert_tpri (QCal i) c u else QueInsert_tail c (QCal i) u)"
      by (simp add: v_def xs_def queue_insert_tpri_def QueInsert_tail_def pr qu)
    then show ?thesis by (simp only: requeue_call_def Let_def u_def g_def)
  qed
  have b: "kinv_but c s" by (rule kinv_but_alone [OF k n])
  have pg: "priority (g (tcbs s c)) < NUM_PRI" using kinv_dest(4) [OF k] by (simp add: g_def)
  have bu: "kinv_but c u" unfolding u_def by (rule kinv_but_timer(1) [OF kinv_but_upd(1) [OF b, of g, OF pg]])
  have kl: "\<not> klockwait (tcbs u c)" "is_wait (state (tcbs u c))" "state (tcbs u c) \<noteq> TS_READY"
    using w kinv_waitD(2) [OF k w] by (auto simp: t g_def)
  have kv: "kinv v" unfolding v_def
    by (rule kinv_but_enqueue(1) [OF bu]) (use kl n kinv_dest(5) [OF k] in \<open>auto simp: xs_def qu set_insert_before distinct_insert_before\<close>)
  have o: "objs_same s v" by (simp add: v_def u_def)
  have tab: "porcb v = porcb s" "portab (ko v) = portab (ko s)" using o by (simp_all add: objs_same_def porcb_def fun_eq_iff)
  have vw: "wview (tcbs v x) = wview (tcbs s x)" if "x \<noteq> c" for x using that by (simp add: v_def t set_que_def)
  have tch: "touches {QCal i} s v"
  proof (rule touchesI)
    show "ques v q = ques s q" if "q \<notin> {QCal i}" for q using that by (simp add: v_def set_que_def qu)
    show "wview (tcbs v x) = wview (tcbs s x)" if "x \<in> set (ques s q)" for q x
    proof (rule vw)
      show "x \<noteq> c" using n that by blast
    qed
  qed
  let ?w = "(c, wview (tcbs v c))"
  have wc: "waiters v (QCal i) = join_queue ?atr ?w (waiters s (QCal i))"
  proof -
    have old: "map (\<lambda>x. (x, wview (tcbs v x))) (ques s (QCal i)) = waiters s (QCal i)"
      unfolding waiters_def by (rule map_cong [OF refl]) (metis vw n)
    have pc: "snd (snd (snd (snd ?w))) = pri s c" by (simp add: wview_def v_def t g_def set_que_def)
    have ins: "map (\<lambda>x. (x, wview (tcbs v x))) (insert_before (\<lambda>x. pri s x > pri s c) c (ques s (QCal i))) =
        insert_before (\<lambda>x. snd (snd (snd (snd x))) > pri s c) ?w (map (\<lambda>x. (x, wview (tcbs v x))) (ques s (QCal i)))"
    proof (rule map_insert_before)
      fix x assume "x \<in> set (ques s (QCal i))"
      then have "x \<noteq> c" using n by blast
      from vw [OF this] show "pri s c < snd (snd (snd (snd (x, wview (tcbs v x))))) \<longleftrightarrow> pri s c < pri s x" by (simp add: wview_def)
    qed
    have "waiters v (QCal i) = map (\<lambda>x. (x, wview (tcbs v x))) xs" by (simp add: waiters_def v_def set_que_def)
    then show ?thesis using old ins pc by (simp add: xs_def join_queue_def)
  qed
  have w0: "por_wf i (porcb s i, waiters s (QCal i), waiters s (QAcp i))" by (rule pors_okD [OF ok i(1)])
  have wx: "cal_waiter (porcb s i) ?w"
    using w0 i(2,3) z by (simp add: cal_waiter_def wview_def v_def t g_def set_que_def)
  have un: "\<forall>a\<in>set (waiters s (QAcp i)). unmatched ?w a"
  proof -
    have "cal_calptn (fst (wview (tcbs v c))) = p"
      by (simp add: wview_def v_def t g_def set_que_def)
    then show ?thesis using unmatched_acceptors [OF f] by (simp add: unmatched_def)
  qed
  have "por_wf i (porcb v i, waiters v (QCal i), waiters v (QAcp i))"
    unfolding tab wc touchesD [OF tch, of "QAcp i", simplified] by (rule por_wf_cal [OF w0 i(2) wx un])
  then have "pors_ok v"
    by (rule pors_ok_step [OF ok _ _ _ touches_mono [OF tch] i(2), rotated -1]) (simp_all add: tab)
  with kv show ?thesis by (simp add: e)
qed

lemma tk_fwd_por_inv:
  assumes k: "kinv s" and ok: "pors_ok s" and ap: "rdv_apart s" and r: "tk_fwd_por rh prid pid p rno msg z s = Some (e, s')"
  shows "kinv s' \<and> pors_ok s'"
proof (rule por_tab.obj_call_ok [OF r [unfolded tk_fwd_por_def] k ok])
  fix i
  let ?c = "INDEX_OBJ (get_tskid_rdvno rno)"
  let ?f = "\<lambda>a. p AND acp_acpptn (winfo (tcbs s a)) \<noteq> 0"
  let ?g = "guards [CHECK_PORID s pid, CHECK_PAR (p \<noteq> 0), CHECK_RDVNO s rno, CHECK_PAR (z \<ge> 0), CHECK_INTSK prid s]"
  assume i: "i = INDEX_OBJ pid" "?g = None" "porid (fst (por_view s i)) \<noteq> 0"
    and b: "(let c = ?c
             in do {
               ercd \<leftarrow> mp_check_protection_fwd s (porid (porcb s i)) (poratr (porcb s i)) c;
               if ercd \<noteq> E_OK then end_critical ercd s
               else if z > maxcmsz (porcb s i) then end_critical E_PAR s
               else if \<not> rdv_waiting s c rno then end_critical E_OBJ s
               else if maxrmsz (porcb s i) > rdv_maxrmsz (winfo (tcbs s c)) then end_critical E_OBJ s
               else if z > rdv_maxrmsz (winfo (tcbs s c)) then end_critical E_PAR s
               else case List.find ?f (ques s (QAcp i)) of
                 Some a \<Rightarrow>
                   if is_diswai (por_gcb s i) (tcbs s c) TTW_CAL then refuse_fwd rh c s
                   else
                     (let (new_rdvno, s) = gen_rdvno c s;
                          s = give_call a new_rdvno msg z s
                      in if is_diswai (por_gcb s i) (tcbs s c) TTW_RDV then refuse_fwd rh c s
                         else end_critical E_OK (upd_tcb c (\<lambda>x. x\<lparr>
                             winfo := Winfo_rdv new_rdvno (wi_msg (winfo x)) (maxrmsz (porcb s i)) (wi_p_rmsgsz (winfo x)),
                             nodiswai := poratr (porcb s i) AND TA_NODISWAI \<noteq> 0\<rparr>) s))
               | None \<Rightarrow>
                   if is_diswai (por_gcb s i) (tcbs s c) TTW_CAL then refuse_fwd rh c s
                   else end_critical E_OK (requeue_call i pid c p msg z s)
             }) = Some (e, s')"
  have ix: "i < maxid (portab (ko s))" using por_index [OF i(2)] i(1) by simp
  have live: "porid (porcb s i) \<noteq> 0" using i(3) by (simp add: por_view_def)
  have z0: "0 \<le> z" using i(2) by (simp add: guards_None CHECK_PAR_def split: if_splits)
  consider (out) x where "end_critical x s = Some (e, s')"
    | (refuse) "rdv_waiting s ?c rno" "refuse_fwd rh ?c s = Some (e, s')"
    | (again) "rdv_waiting s ?c rno" "z \<le> maxcmsz (porcb s i)" "List.find ?f (ques s (QAcp i)) = None"
        "end_critical E_OK (requeue_call i pid ?c p msg z s) = Some (e, s')"
    | (meet) a n g u where "rdv_waiting s ?c rno" "List.find ?f (ques s (QAcp i)) = Some a" "gen_rdvno ?c s = (n, g)" "u = give_call a n msg z g"
        "(if is_diswai (por_gcb u i) (tcbs u ?c) TTW_RDV then refuse_fwd rh ?c u
          else end_critical E_OK (upd_tcb ?c (\<lambda>x. x\<lparr>
                             winfo := Winfo_rdv n (wi_msg (winfo x)) (maxrmsz (porcb u i)) (wi_p_rmsgsz (winfo x)),
                             nodiswai := poratr (porcb u i) AND TA_NODISWAI \<noteq> 0\<rparr>) u)) = Some (e, s')"
  proof -
    note that_out = that(1) and that_refuse = that(2) and that_again = that(3) and that_meet = that(4)
    obtain er where er: "mp_check_protection_fwd s (porid (porcb s i)) (poratr (porcb s i)) ?c = Some er"
      using b by (auto simp: Let_def split: Option.bind_splits)
    let ?rest = "er \<noteq> E_OK \<or> z > maxcmsz (porcb s i) \<or> \<not> rdv_waiting s ?c rno \<or>
      maxrmsz (porcb s i) > rdv_maxrmsz (winfo (tcbs s ?c)) \<or> z > rdv_maxrmsz (winfo (tcbs s ?c))"
    show thesis
    proof (cases ?rest)
      case True
      then have "\<exists>x. end_critical x s = Some (e, s')" using b er by (auto simp: Let_def split: if_splits)
      with that_out show thesis by blast
    next
      case False
      then have w: "rdv_waiting s ?c rno" "z \<le> maxcmsz (porcb s i)" by simp_all
      show thesis
      proof (cases "is_diswai (por_gcb s i) (tcbs s ?c) TTW_CAL")
        case True
        then have "refuse_fwd rh ?c s = Some (e, s')" using b er False by (simp add: Let_def split: option.splits)
        with that_refuse w show thesis by blast
      next
        case dis: False
        show thesis
        proof (cases "List.find ?f (ques s (QAcp i))")
          case None
          then have "end_critical E_OK (requeue_call i pid ?c p msg z s) = Some (e, s')" using b er False dis by (simp add: Let_def)
          with that_again w None show thesis by blast
        next
          case (Some a)
          obtain n g where g: "gen_rdvno ?c s = (n, g)" by (cases "gen_rdvno ?c s")
          show thesis
            by (rule that_meet [OF w(1) Some g refl]) (use b er False dis Some g in \<open>simp add: Let_def\<close>)
        qed
      qed
    qed
  qed
  then show "kinv s' \<and> pors_ok s'"
  proof cases
    case out
    from por_tab.table_ok_end [OF out k ok] show ?thesis .
  next
    case refuse
    show ?thesis
      by (rule refuse_fwd_ok [OF k ok _ _ rdv_alone [OF k ap refuse(1)] refuse(2)]) (use refuse(1) in \<open>simp_all add: rdv_waiting_def\<close>)
  next
    case again
    have w: "is_wait (state (tcbs s ?c))" using again(1) unfolding rdv_waiting_def by blast
    note x = requeue_call_ok [OF k ok ix live i(1) w rdv_alone [OF k ap again(1)] z0 again(2,3), where msg = msg]
    show ?thesis by (rule por_tab.table_ok_end [OF again(4)]) (use x in simp_all)
  next
    case (meet a n g u)
    have gd: "g = snd (gen_rdvno ?c s)" using meet(3) by simp
    note g = gen_rdvno_ok [OF k ok, of ?c, folded gd]
    have aq: "a \<in> set (ques g (QAcp i))" using find_in [OF meet(2)] g(4) by simp
    have gi: "i < maxid (portab (ko g))" "porid (porcb g i) \<noteq> 0" using ix live g(6,7) by simp_all
    note u = give_call_ok [OF g(1,2) gi aq, where r = n and m = msg and z = z, folded meet(4)]
    note al = rdv_alone [OF k ap meet(1)]
    have ca: "?c \<noteq> a" using al [of "QAcp i"] find_in [OF meet(2)] by auto
    have w: "is_wait (state (tcbs u ?c))" "wspec (tcbs u ?c) = Wspec_rdv"
      using u(7) [OF ca] g(10) [of ?c] g(9) [of ?c] meet(1) by (simp_all add: rdv_waiting_def wview_def)
    have n: "?c \<notin> set (ques u q)" for q
    proof (cases "ready_head q")
      case True
      then show ?thesis using kinv_dest(6) [OF u(1), of ?c q] w(1) by (auto simp: ready_head_def)
    next
      case False
      then show ?thesis using al [of q] u(8) [OF False] u(9) g(4) by (cases "q = QAcp i") auto
    qed
    show ?thesis
    proof (cases "is_diswai (por_gcb u i) (tcbs u ?c) TTW_RDV")
      case True
      then show ?thesis using meet(5) by (intro refuse_fwd_ok [OF u(1,2) w n]) simp
    next
      case False
      let ?h = "\<lambda>x::tcb. x\<lparr>winfo := Winfo_rdv n (wi_msg (winfo x)) (maxrmsz (porcb u i)) (wi_p_rmsgsz (winfo x)),
                             nodiswai := poratr (porcb u i) AND TA_NODISWAI \<noteq> 0\<rparr>"
      have e: "end_critical E_OK (upd_tcb ?c ?h u) = Some (e, s')" using meet(5) False by simp
      have kh: "kinv (upd_tcb ?c ?h u)" by (rule kinv_tcb_upd(1) [OF u(1)]) simp_all
      have "pors_ok (upd_tcb ?c ?h u)" by (rule pors_alone [OF u(2) _ touches_upd_alone [OF n]]) simp
      from por_tab.table_ok_end [OF e kh this] show ?thesis .
    qed
  qed
qed

lemma tk_rpl_rdv_inv:
  assumes k: "kinv s" and ok: "pors_ok s" and ap: "rdv_apart s" and r: "tk_rpl_rdv prid rno msg z s = Some (e, s')"
  shows "kinv s' \<and> pors_ok s'"
proof -
  let ?c = "INDEX_OBJ (get_tskid_rdvno rno)"
  define m where "m = (if z > 0 then upd_bmem (memcpy (rdv_msg (winfo (tcbs s ?c))) msg (nat z)) s else s)"
  define v where "v = m\<lparr>umem := (umem m)(rdv_p_rmsgsz (winfo (tcbs m ?c)) := word_of_int z)\<rparr>"
  consider "s' = s" | x where "end_critical x s = Some (e, s')"
    | "rdv_waiting s ?c rno" "end_critical E_OK (wait_release_ok ?c v) = Some (e, s')"
    using r by (auto simp: tk_rpl_rdv_def Let_def v_def m_def split: option.splits if_splits)
  then show ?thesis
  proof cases
    case 1
    then show ?thesis using k ok by simp
  next
    case (2 x)
    from por_tab.table_ok_end [OF 2 k ok] show ?thesis .
  next
    case 3
    have v: "kinv v" "pors_ok v" "tcbs v = tcbs s" "ques v = ques s" using k ok by (simp_all add: v_def m_def)
    have w: "is_wait (state (tcbs v ?c))" using 3(1) v(3) by (simp add: rdv_waiting_def)
    have n: "?c \<notin> set (ques v q)" for q using rdv_alone [OF k ap 3(1)] v(4) by simp
    note x = release_alone [OF v(1) w n, where e = E_OK, folded wait_release_ok_ercd_E_OK]
    from por_tab.table_ok_end [OF 3(2) x(1) pors_alone [OF v(2) x(2,3)]] show ?thesis .
  qed
qed

text \<open>The hook of a \<open>TA_TPRI\<close> port, for a caller.\<close>

lemma cal_chg_pri_ok:
  assumes k: "kinv s0" and ok: "pors_ok s0" and i: "i < maxid (portab (ko s0))" and t: "t \<in> set (ques s0 (QCal i))" and p: "p < NUM_PRI"
    and a: "poratr (porcb s0 i) AND TA_TPRI \<noteq> 0"
  defines "s \<equiv> upd_tcb t (\<lambda>c. c\<lparr>priority := p\<rparr>) s0"
  shows "kinv (cal_chg_pri t old s)" and "pors_ok (cal_chg_pri t old s)"
proof -
  note w = pors_okD [OF ok i]
  have live: "porid (porcb s0 i) \<noteq> 0" using w t by auto
  have wt: "cal_waiter (porcb s0 i) (t, wview (tcbs s0 t))" using w live t by (auto simp: waiters_def)
  have ix: "INDEX_OBJ (wid (tcbs s t)) = i"
    using wt w live by (simp add: cal_waiter_def wview_def s_def)
  have g: "por_gcb s i = por_gcb s0 i" by (simp add: por_gcb_def s_def porcb_def)
  have "kinv (cal_chg_pri t old s) \<and> pors_ok (cal_chg_pri t old s)"
    unfolding cal_chg_pri_def ix g unfolding s_def
  proof (rule por_tab.chg_pri_table_ok [OF k ok, where i = i and atr = "poratr (porcb s0 i)"])
    fix u
    let ?w = "(t, wview ((tcbs s0 t)\<lparr>priority := p\<rparr>))" and ?ws = "filter (\<lambda>w. fst w \<noteq> t) (waiters s0 (QCal i))"
    assume o: "objs_same s0 u" and u: "waiters u (wait_queue (por_gcb s0 i)) =
        join_queue (poratr (porcb s0 i)) ?w (filter (\<lambda>w. fst w \<noteq> t) (waiters s0 (wait_queue (por_gcb s0 i))))"
      and tch: "touches {wait_queue (por_gcb s0 i)} s0 u"
    have fu: "por_view u i = (porcb s0 i, join_queue (poratr (porcb s0 i)) ?w ?ws, waiters s0 (QAcp i))"
      using u o touchesD [OF tch, of "QAcp i"] by (simp add: por_view_def por_gcb_def porcb_def objs_same_def)
    have wf: "por_wf i (porcb s0 i, ?ws, waiters s0 (QAcp i))" using por_wf_filter [OF w, of _ "\<lambda>_. True"] by simp
    have wx: "cal_waiter (porcb s0 i) ?w" using wt by (simp add: cal_waiter_def wview_def)
    have "\<forall>a\<in>set (waiters s0 (QAcp i)). unmatched (t, wview (tcbs s0 t)) a" using w live t by (auto simp: waiters_def)
    then have un: "\<forall>a\<in>set (waiters s0 (QAcp i)). unmatched ?w a" by (simp add: unmatched_def wview_def)
    show "por_wf i (por_view u i)" unfolding fu by (rule por_wf_cal [OF wf live wx un])
  qed (use t p a live in \<open>simp_all add: por_gcb_def por_view_def\<close>)
  then show "kinv (cal_chg_pri t old s)" "pors_ok (cal_chg_pri t old s)" by simp_all
qed

end
