(* ===== verification/Mutex_Calls.thy ===== *)
theory Mutex_Calls
  imports Inheritance
begin

text \<open>
  The system calls on mutexes keep all invariants: the tables, the lists of held mutexes and the
  priority of every task.
\<close>

lemma mtx_upd_tcb [simp]: "mtxcb (upd_tcb t f s) = mtxcb s" "mtx_proto (upd_tcb t f s) = mtx_proto s"
  by (simp_all add: mtxcb_def mtx_proto_def fun_eq_iff)

context pri_hooks begin

section \<open>Steps that keep what the invariants read\<close>

lemma base_ok_calm:
  assumes "base_ok X s" "mtx_calm s s'" "kinv s'" "OK s'" "mtab_ok s'" "placed s'"
  shows "base_ok X s'"
  using assms mtx_calmD(6,13) [OF assms(2)] by (simp add: base_ok_def)

lemma pri_inv_calm:
  assumes i: "pri_inv X s" and c: "mtx_calm s s'" and p: "\<And>x. pri s' x = pri s x"
    and k: "kinv s'" "OK s'" "mtab_ok s'" "placed s'"
  shows "pri_inv X s'"
proof -
  have "pri s' = pri s" using p by blast
  then have "set (claims s' u) = set (claims s u)" for u by (simp only: set_claims claims_calm [OF c])
  then have "pri_ok s' u \<longleftrightarrow> pri_ok s u" for u by (simp only: pri_ok_def p)
  then show ?thesis using i base_ok_calm [OF _ c k] by (simp add: pri_inv_def)
qed

lemma sched_calm:
  assumes f: "sched_frame s s'"
  shows "mtx_calm s s'" and "placed s \<Longrightarrow> placed s'"
proof -
  note t = sched_frame_tcb [OF f] and q = sched_frame_ques [OF f]
  show "mtx_calm s s'"
    using t q by (simp add: mtx_calm_def sched_frame_sel [OF f] sched_frame_rdy [OF f])
  have np: "wait_place w d = Some q \<Longrightarrow> \<not> ready_head q" for w d q by (cases w) auto
  show "placed s \<Longrightarrow> placed s'"
    unfolding placed_def well_placed_def t using q np by metis
qed

lemma pri_inv_end:
  assumes e: "end_critical r s = Some (r', s')" and i: "pri_inv X s"
  shows "pri_inv X s'" and "r' = r"
proof -
  have b: "kinv s" "OK s" "mtab_ok s" "placed s" using i by (simp_all add: pri_inv_def base_ok_def)
  from end_critical_result [OF e b(1)] have s: "r' = r" "kinv s'" "sched_frame s s'" by simp_all
  show "r' = r" by (rule s)
  show "pri_inv X s'"
  proof (rule pri_inv_calm [OF i sched_calm(1) [OF s(3)] _ s(2) foreign [OF b(2) objs_same_sched [OF s(3)] touches_sched [OF s(3)]]])
    show "pri s' x = pri s x" for x by (rule sched_frame_tcb [OF s(3)])
    show "mtab_ok s'" by (rule mtx_tab.table_ok_sched [OF s(3), THEN iffD2, OF b(3)])
    show "placed s'" by (rule sched_calm(2) [OF s(3) b(4)])
  qed
qed

lemma pri_inv_leave:
  assumes "leave_critical d r s = Some (r', s')" and "pri_inv X s"
  shows "pri_inv X s'"
proof (cases d)
  case True
  with assms(1) have "end_critical r s = Some (r', s')" by (simp add: leave_critical_def)
  from pri_inv_end(1) [OF this assms(2)] show ?thesis .
next
  case False
  with assms show ?thesis by (simp add: leave_critical_def)
qed

lemma pri_inv_end_ex:
  assumes "pri_inv X s"
  shows "\<exists>s'. end_critical r s = Some (r, s') \<and> pri_inv X s'"
proof -
  have "kinv s" using assms by (simp add: pri_inv_def base_ok_def)
  from end_critical_ok [OF this, of r] obtain s' where e: "end_critical r s = Some (r, s')" by blast
  with pri_inv_end(1) [OF e assms] show ?thesis by blast
qed

text \<open>
  A call returns, and leaves a state with \<open>P\<close>, if the access check returns and the body does so; on all
  the other ways out nothing has changed.
\<close>

definition access_ends :: "nat \<Rightarrow> ID \<Rightarrow> kstate \<Rightarrow> bool" where
  "access_ends prid mid s \<longleftrightarrow> (let i = INDEX_OBJ mid
     in mp_check_domain_and_protection prid s mid (mtxid (mtxcb s i)) (mtxatr (mtxcb s i)) \<noteq> None)"

lemma pri_inv_call:
  assumes i: "pri_inv {} s" and a: "access_ends prid mid s"
    and g: "guards gs = None \<Longrightarrow> mtxid (mtxcb s (INDEX_OBJ mid)) \<noteq> 0 \<Longrightarrow> \<exists>e s'. body (INDEX_OBJ mid) s = Some (e, s') \<and> P s'"
    and P: "\<And>s'. pri_inv {} s' \<Longrightarrow> P s'"
  shows "\<exists>e s'. obj_call True gs prid mtx_ops mid body s = Some (e, s') \<and> P s'"
proof -
  obtain x where x: "mp_check_domain_and_protection prid s mid (mtxid (mtxcb s (INDEX_OBJ mid))) (mtxatr (mtxcb s (INDEX_OBJ mid))) = Some x"
    using a by (auto simp: access_ends_def Let_def)
  have l: "\<exists>e s'. leave_critical True r s = Some (e, s') \<and> P s'" for r
    using pri_inv_end_ex [OF i, of r] P by (auto simp: leave_critical_def)
  show ?thesis
  proof (cases "guards gs")
    case (Some e)
    then show ?thesis using P [OF i] by (simp add: obj_call_def)
  next
    case None
    show ?thesis
      using l [of E_NOEXS] l [of x] g [OF None] x None by (simp add: obj_call_def Let_def mtx_ops_def)
  qed
qed

section \<open>Taking a mutex\<close>

text \<open>Task \<open>t\<close>, not waiting, becomes the holder of a mutex that nobody holds, or that its holder passes on.\<close>

definition take_mtx :: "nat \<Rightarrow> nat \<Rightarrow> kstate \<Rightarrow> kstate" where
  "take_mtx t i s = upd_tcb t (\<lambda>c. c\<lparr>mtxlist := i # mtxlist c\<rparr>) (upd_mtx i (\<lambda>c. c\<lparr>mtxtsk := Some t\<rparr>) s)"

lemma take_mtx_sel [simp]:
  "ques (take_mtx t i s) = ques s" "pri (take_mtx t i s) x = pri s x" "bpriority (tcbs (take_mtx t i s) x) = bpriority (tcbs s x)"
  "mtxlist (tcbs (take_mtx t i s) x) = (if x = t then i # mtxlist (tcbs s t) else mtxlist (tcbs s x))"
  "mtxcb (take_mtx t i s) = (mtxcb s)(i := (mtxcb s i)\<lparr>mtxtsk := Some t\<rparr>)" "maxid (mtxtab (take_mtx t i s)) = maxid (mtxtab s)"
  "state (tcbs (take_mtx t i s) x) = state (tcbs s x)" "wid (tcbs (take_mtx t i s) x) = wid (tcbs s x)"
  "wspec (tcbs (take_mtx t i s) x) = wspec (tcbs s x)" "wview (tcbs (take_mtx t i s) x) = wview (tcbs s x)"
  "freeq (mtxtab (take_mtx t i s)) = freeq (mtxtab s)" "ctxtsk (take_mtx t i s) = ctxtsk s"
  by (simp_all add: take_mtx_def) (simp_all add: mtxcb_def upd_tcb_def upd_mtx_def wview_def fun_eq_iff)

lemma take_mtx_proto [simp]: "mtx_proto (take_mtx t i s) = mtx_proto s" "mtx_claims (take_mtx t i s) = mtx_claims s"
  by (simp_all add: mtx_proto_def mtx_claims_def fun_eq_iff TA_INHERIT_def TA_CEILING_def)

lemma take_claims: "set (claims (take_mtx t i s) u) = (if u = t then set (claims s t) \<union> set (mtx_claims s i) else set (claims s u))"
  by (auto simp: claims_def)

lemma take_kinv: "kinv s \<Longrightarrow> kinv (take_mtx t i s)" "kinv s \<Longrightarrow> rdy (take_mtx t i s) = rdy s"
proof -
  assume k: "kinv s"
  then have "kinv (upd_mtx i (\<lambda>c. c\<lparr>mtxtsk := Some t\<rparr>) s)" by simp
  from kinv_tcb_upd [OF this, of "\<lambda>c. c\<lparr>mtxlist := i # mtxlist c\<rparr>" t]
  show "kinv (take_mtx t i s)" "rdy (take_mtx t i s) = rdy s" by (simp_all add: take_mtx_def)
qed

lemma take_OK:
  assumes "OK s"
  shows "OK (take_mtx t i s)"
proof -
  have "OK (upd_mtx i (\<lambda>c. c\<lparr>mtxtsk := Some t\<rparr>) s)" unfolding upd_mtx_def by (rule foreign_mtx [OF assms])
  then show ?thesis unfolding take_mtx_def
    by (rule foreign) (auto intro!: touchesI simp: wview_def)
qed

lemma take_mtx_ok:
  assumes b: "kinv s" "OK s" "mtab_ok s" "placed s" "\<And>x. bpriority (tcbs s x) < NUM_PRI"
    and i: "i < maxid (mtxtab s)" "mtxid (mtxcb s i) \<noteq> 0" and t: "t \<notin> X" "t \<notin> set (ques s (QMtx i))"
    and own: "\<And>h. h \<notin> X \<Longrightarrow> distinct (mtxlist (tcbs s h)) \<and> set (mtxlist (tcbs s h)) =
        {j. j < maxid (mtxtab s) \<and> mtxid (mtxcb s j) \<noteq> 0 \<and> mtxtsk (mtxcb s j) = Some h} - {i}"
    and out: "\<And>j. j \<ge> maxid (mtxtab s) \<Longrightarrow> ques s (QMtx j) = []"
  shows "base_ok X (take_mtx t i s)"
proof -
  let ?s = "take_mtx t i s"
  have w: "waiters ?s = waiters s" by (simp add: waiters_def fun_eq_iff)
  have "mtab_ok ?s"
  proof (rule mtab_ok_step [OF b(3), where i = i])
    have "mtx_waiter ((mtxcb s i)\<lparr>mtxtsk := Some t\<rparr>) x" if x: "x \<in> set (waiters s (QMtx i))" for x
    proof -
      have "fst x \<in> set (ques s (QMtx i))" using x by (auto simp: waiters_def)
      then have "fst x \<noteq> t" using t(2) by blast
      moreover have "mtx_waiter (mtxcb s i) x" using mtab_okD [OF b(3) i(1)] i(2) x by simp
      ultimately show ?thesis by (auto simp: mtx_waiter_def)
    qed
    then show "mtx_wf i (mtxcb ?s i, waiters ?s (QMtx i))"
      using mtab_okD [OF b(3) i(1)] i(2) by (simp add: w)
    show "touches {QMtx i} s ?s" by (rule touchesI) simp_all
  qed (use i in simp_all)
  moreover have "mtx_own X ?s"
    unfolding mtx_own_def
  proof (intro conjI allI impI)
    fix h assume h: "h \<notin> X"
    note o = own [OF h]
    show "distinct (mtxlist (tcbs ?s h))" using o by auto
    show "set (mtxlist (tcbs ?s h)) = {j. j < maxid (mtxtab ?s) \<and> mtxid (mtxcb ?s j) \<noteq> 0 \<and> mtxtsk (mtxcb ?s j) = Some h}"
      using o i by auto
  qed (use out in simp)
  moreover have "placed ?s" using b(4) unfolding placed_def well_placed_def by simp
  ultimately show ?thesis using take_kinv(1) [OF b(1)] take_OK [OF b(2)] b(5) by (simp add: base_ok_def)
qed

text \<open>The end of taking a mutex: a ceiling is applied to the new holder, which does not wait.\<close>

lemma not_waiting_free:
  assumes "base_ok X s" and "\<not> is_wait (state (tcbs s t))"
  shows "t \<notin> set (ques s (QMtx i))" and "\<not> blocks s h t" and "t \<notin> heirs s h"
proof -
  show q: "t \<notin> set (ques s (QMtx i))" for i
    using kinv_dest(6) [OF base_okD(1) [OF assms(1)], of t "QMtx i"] assms(2) by auto
  show "\<not> blocks s h t" "t \<notin> heirs s h" using q by (auto simp: blocks_def heirs_def)
qed

lemma change_not_waiting:
  assumes b: "base_ok X s" and w: "\<not> is_wait (state (tcbs s t))" and p: "p < NUM_PRI"
  shows "\<exists>s'. change_task_priority oh t p s = Some s' \<and> chg_ok t p s s' \<and> base_ok X s' \<and> (\<forall>u. set (claims s' u) = set (claims s u))"
proof -
  note n = not_waiting_free [OF b w]
  from change_step [OF b p, of t] n(2) obtain s' where "change_task_priority oh t p s = Some s'" "chg_ok t p s s'" "base_ok X s'" by blast
  then show ?thesis using claims_chg(1) n(3) by blast
qed

definition ceiling :: "nat \<Rightarrow> nat \<Rightarrow> kstate \<Rightarrow> kstate option" where
  "ceiling t i s = (if mtx_proto s i = TA_CEILING \<and> pri s t > ceilpri (mtxcb s i) then change_task_priority oh t (ceilpri (mtxcb s i)) s
     else Some s)"

lemma ceiling_ok:
  assumes b: "base_ok X s" and t: "\<not> is_wait (state (tcbs s t))" and c: "ceilpri (mtxcb s i) < NUM_PRI"
    and p: "\<And>u. u \<notin> Y \<Longrightarrow> u \<noteq> t \<Longrightarrow> pri_ok s u"
    and m: "set (claims s t) = A \<union> set (mtx_claims s i)" "is_min A (pri s t)"
    and h: "\<And>x. mtx_proto s i = TA_INHERIT \<Longrightarrow> x \<in> set (ques s (QMtx i)) \<Longrightarrow> pri s t \<le> pri s x"
  shows "\<exists>s'. ceiling t i s = Some s' \<and> base_ok X s' \<and> mtx_calm s s' \<and> (\<forall>u. u \<notin> Y \<longrightarrow> pri_ok s' u)"
proof (cases "mtx_proto s i = TA_CEILING \<and> pri s t > ceilpri (mtxcb s i)")
  case True
  from change_not_waiting [OF b t c] obtain s' where s': "change_task_priority oh t (ceilpri (mtxcb s i)) s = Some s'"
    "chg_ok t (ceilpri (mtxcb s i)) s s'" "base_ok X s'" "\<And>u. set (claims s' u) = set (claims s u)" by blast
  have "pri_ok s' u" if "u \<notin> Y" for u
  proof (cases "u = t")
    case False
    then show ?thesis using p [OF that] s'(2,4) by (simp add: pri_ok_iff chg_ok_def)
  next
    case u: True
    have "is_min (A \<union> {ceilpri (mtxcb s i)}) (ceilpri (mtxcb s i))" using m(2) True by (auto simp: is_min_def)
    then show ?thesis using s'(2,4) m(1) True by (simp add: u pri_ok_iff chg_ok_def mtx_claims_def)
  qed
  then show ?thesis using s' True by (auto simp: ceiling_def chg_ok_def)
next
  case False
  have "is_min (A \<union> set (mtx_claims s i)) (pri s t)"
    using m(2) False h by (auto simp: is_min_def mtx_claims_def split: if_splits)
  then have "pri_ok s u" if "u \<notin> Y" for u using p [OF that] m(1) by (cases "u = t") (auto simp: pri_ok_iff)
  moreover have "ceiling t i s = Some s" using False by (auto simp: ceiling_def)
  ultimately show ?thesis using b by simp
qed

section \<open>Passing a mutex on\<close>

text \<open>A task leaves the queue of a mutex.\<close>

lemma release_waiter_ok:
  fixes e :: ER
  assumes b: "base_ok X s" and t: "t \<in> set (ques s (QMtx i))" and i: "i < maxid (mtxtab s)"
  defines "s' \<equiv> wait_release_ok_ercd t e s"
  shows "base_ok X s'" and "ques s' (QMtx i) = remove1 t (ques s (QMtx i))" and "pri s' x = pri s x"
    and "i \<notin> set (mtxlist (tcbs s u)) \<Longrightarrow> set (claims s' u) = set (claims s u)" and "mtxcb s' = mtxcb s"
    and "mtxlist (tcbs s' x) = mtxlist (tcbs s x)" and "\<not> is_wait (state (tcbs s' t))" and "maxid (mtxtab s') = maxid (mtxtab s)"
    and "\<And>x. x \<noteq> t \<Longrightarrow> tcbs s' x = tcbs s x"
proof -
  note k = base_okD(1) [OF b]
  have wh: "wait_head (QMtx i)" by simp
  note r = wait_release_props [OF k wh t, where e = e, folded s'_def]
  note to = touches_release [OF k wh t, where e = e, folded s'_def]
  have tv: "bpriority (tcbs s' x) = bpriority (tcbs s x)" "pri s' x = pri s x" "mtxlist (tcbs s' x) = mtxlist (tcbs s x)"
      "wspec (tcbs s' x) = wspec (tcbs s x)" "wid (tcbs s' x) = wid (tcbs s x)" for x
    using r(4) [of x] r(5) by (cases "x = t"; simp add: released_def)+
  show "ques s' (QMtx i) = remove1 t (ques s (QMtx i))" "pri s' x = pri s x" "mtxlist (tcbs s' x) = mtxlist (tcbs s x)"
    by (fact r tv)+
  show "\<not> is_wait (state (tcbs s' t))" by (rule released_alive [OF r(5)])
  show "\<And>x. x \<noteq> t \<Longrightarrow> tcbs s' x = tcbs s x" by (rule r(4))
  have tab: "mtxtab s' = mtxtab s" using r(6) by (simp add: objs_same_def)
  then show mc: "mtxcb s' = mtxcb s" and "maxid (mtxtab s') = maxid (mtxtab s)" by (simp_all add: mtxcb_def fun_eq_iff)
  have q: "ques s' (QMtx j) = ques s (QMtx j)" if "j \<noteq> i" for j using r(3) [of "QMtx j"] that by simp
  have "mtxid (mtxcb s i) \<noteq> 0" by (rule mtx_waiting [OF base_okD(3,5) [OF b] t])
  moreover note w = mtab_okD [OF base_okD(3) [OF b] i]
  ultimately have "mtx_wf i (mtxcb s' i, waiters s' (QMtx i))"
    using sorted_map_filter [of waiter_pri "waiters s (QMtx i)" "\<lambda>w. fst w \<noteq> t"] by (auto simp: mc to(2) simp del: waiters_Nil)
  then have m: "mtab_ok s'"
    by (rule mtab_ok_step [OF base_okD(3) [OF b] _ _ _ to(1) \<open>mtxid (mtxcb s i) \<noteq> 0\<close>, rotated -1]) (simp_all add: tab mc)
  have O: "OK s'" by (rule foreign [OF base_okD(2) [OF b] r(6) touches_mono [OF to(1)]]) (simp add: mtx_heads_def)
  have "placed s'"
    unfolding placed_def well_placed_def
  proof (intro allI impI conjI)
    fix x assume x: "is_wait (state (tcbs s' x))"
    then have ne: "x \<noteq> t" using released_alive [OF r(5)] by blast
    then have e: "tcbs s' x = tcbs s x" by (rule r(4))
    have wp: "well_placed s x" using base_okD(4) [OF b] x unfolding e placed_def by blast
    show "chg_pri_hook w = None" "rel_wai_hook w = None" if "wspec (tcbs s' x) = Wspec_local w" for w
      using wp that by (simp_all add: well_placed_def e)
    fix q assume "wait_place (wspec (tcbs s' x)) (wid (tcbs s' x)) = Some q"
    then have xq: "x \<in> set (ques s q)" "\<not> ready_head q" using wp by (auto simp: well_placed_def e elim: wait_place.elims)
    show "x \<in> set (ques s' q)"
      using xq r(2,3) ne by (cases "q = QMtx i") simp_all
  qed
  moreover have "mtx_own X s'"
    using base_okD(5) [OF b] q i by (auto simp: mtx_own_def tv mc tab)
  ultimately show "base_ok X s'" using m O r(1) b by (simp add: base_ok_def tv)
  assume u: "i \<notin> set (mtxlist (tcbs s u))"
  have "mtx_claims s' j = mtx_claims s j" if "j \<noteq> i" for j using q [OF that] tv(2) by (simp add: mtx_claims_def mc mtx_proto_def)
  then have "map (mtx_claims s') (mtxlist (tcbs s u)) = map (mtx_claims s) (mtxlist (tcbs s u))" using u by (intro map_cong refl) metis
  then show "set (claims s' u) = set (claims s u)" by (simp only: claims_def tv)
qed

lemma pass_mutex_ok:
  assumes b: "base_ok {h} s" and i: "i < maxid (mtxtab s)" "mtxid (mtxcb s i) \<noteq> 0" "mtxtsk (mtxcb s i) = Some h"
    and p: "\<And>u. u \<notin> Y \<Longrightarrow> pri_ok s u" and Y: "Y \<subseteq> {h}" and hi: "h \<notin> Y \<Longrightarrow> i \<notin> set (mtxlist (tcbs s h))"
  shows "\<exists>s' o'. pass_mutex oh i s = Some s' \<and> base_ok {h} s' \<and> (\<forall>u. u \<notin> Y \<longrightarrow> pri_ok s' u) \<and> o' \<noteq> Some h \<and>
     mtxcb s' = (mtxcb s)(i := (mtxcb s i)\<lparr>mtxtsk := o'\<rparr>) \<and> maxid (mtxtab s') = maxid (mtxtab s) \<and>
     mtxlist (tcbs s' h) = mtxlist (tcbs s h)"
proof (cases "ques s (QMtx i)")
  case Nil
  let ?s = "upd_mtx i (\<lambda>c. c\<lparr>mtxtsk := None\<rparr>) s"
  have "waiters s (QMtx i) = []" using Nil by simp
  then have "mtab_ok ?s"
    by (intro mtab_ok_step [OF base_okD(3) [OF b], where i = i])
      (use mtab_okD [OF base_okD(3) [OF b] i(1)] i in \<open>auto intro: touches_same simp del: waiters_Nil\<close>)
  moreover have "OK ?s" unfolding upd_mtx_def by (rule foreign_mtx [OF base_okD(2) [OF b]])
  moreover have "mtx_own {h} ?s" using base_okD(5) [OF b] i(3) by (auto simp: mtx_own_def)
  ultimately have "base_ok {h} ?s" using b by (simp add: base_ok_def placed_def well_placed_def)
  moreover have "mtx_claims ?s = mtx_claims s" by (simp add: fun_eq_iff mtx_claims_def mtx_proto_def TA_CEILING_def TA_INHERIT_def)
  then have "pri_ok ?s u \<longleftrightarrow> pri_ok s u" for u by (simp add: pri_ok_def claims_def)
  ultimately show ?thesis using Nil p by (intro exI [of _ ?s] exI [of _ None]) (simp add: pass_mutex_def)
next
  case (Cons t ts)
  have t: "t \<in> set (ques s (QMtx i))" using Cons by simp
  obtain h' where "mtxtsk (mtxcb s i) = Some h'" "h' \<noteq> t" by (rule mtx_waiting [OF base_okD(3,5) [OF b] t])
  then have th: "t \<noteq> h" using i(3) by simp
  define s1 where "s1 = wait_release_ok_ercd t E_OK s"
  note r = release_waiter_ok [OF b t i(1), where e = E_OK, folded s1_def]
  define s2 where "s2 = take_mtx t i s1"
  have own: "set (mtxlist (tcbs s u)) = {j. j < maxid (mtxtab s) \<and> mtxid (mtxcb s j) \<noteq> 0 \<and> mtxtsk (mtxcb s j) = Some u}"
      "distinct (mtxlist (tcbs s u))" if "u \<noteq> h" for u using base_okD(5) [OF b] that by (simp_all add: mtx_own_def)
  have d: "distinct (ques s (QMtx i))" using kinv_dest(5) [OF base_okD(1) [OF b]] .
  have b2: "base_ok {h} s2"
    unfolding s2_def
  proof (rule take_mtx_ok [OF base_okD(1-4) [OF r(1)] base_okD(6) [OF r(1)]])
    show "t \<notin> set (ques s1 (QMtx i))" using d by (simp add: r(2))
    show "\<And>j. maxid (mtxtab s1) \<le> j \<Longrightarrow> ques s1 (QMtx j) = []" using base_okD(5) [OF r(1)] by (simp add: mtx_own_def)
    show "distinct (mtxlist (tcbs s1 u)) \<and> set (mtxlist (tcbs s1 u)) =
        {j. j < maxid (mtxtab s1) \<and> mtxid (mtxcb s1 j) \<noteq> 0 \<and> mtxtsk (mtxcb s1 j) = Some u} - {i}" if "u \<notin> {h}" for u
      using own [of u] that i(3) by (auto simp: r(5,6,8))
  qed (use i th r in simp_all)
  have cl: "set (claims s1 u) = set (claims s u)" if "u \<notin> Y" for u
    by (rule r(4)) (use own [of u] hi that i(3) in \<open>cases "u = h"; auto\<close>)
  have p2: "pri_ok s2 u" if "u \<notin> Y" "u \<noteq> t" for u
    using p [OF that(1)] cl [OF that(1)] that(2) by (simp add: pri_ok_iff s2_def take_claims r(3))
  have ty: "t \<notin> Y" using th Y by blast
  have "\<exists>s'. ceiling t i s2 = Some s' \<and> base_ok {h} s' \<and> mtx_calm s2 s' \<and> (\<forall>u. u \<notin> Y \<longrightarrow> pri_ok s' u)"
  proof (rule ceiling_ok [OF b2 _ _ p2, where A = "set (claims s t)"])
    show "set (claims s2 t) = set (claims s t) \<union> set (mtx_claims s2 i)" by (simp add: s2_def take_claims cl [OF ty])
    show "is_min (set (claims s t)) (pri s2 t)" using p [OF ty] by (simp add: pri_ok_iff s2_def r(3))
    show "ceilpri (mtxcb s2 i) < NUM_PRI" using mtab_okD [OF base_okD(3) [OF b] i(1)] i(2) by (simp add: s2_def r(5))
    show "\<not> is_wait (state (tcbs s2 t))" using r(7) by (simp add: s2_def del: is_wait_iff)
    show "pri s2 t \<le> pri s2 x" if "mtx_proto s2 i = TA_INHERIT" "x \<in> set (ques s2 (QMtx i))" for x
    proof -
      have "sorted (map (pri s) (ques s (QMtx i)))"
        using base_ok_sorted [OF b, of "[i]"] that(1) by (simp add: mtx_sorted_def s2_def mtx_proto_def r(5))
      then show ?thesis using that(2) by (simp add: s2_def r(2,3) Cons)
    qed
  qed
  then obtain s' where s': "ceiling t i s2 = Some s'" "base_ok {h} s'" "mtx_calm s2 s'" "\<forall>u. u \<notin> Y \<longrightarrow> pri_ok s' u" by blast
  have "pass_mutex oh i s = ceiling t i s2"
    by (simp add: pass_mutex_def Cons ceiling_def s2_def take_mtx_def s1_def wait_release_ok_ercd_E_OK Let_def)
  then show ?thesis
    using s' mtx_calmD(1,2,7) [OF s'(3)] th by (intro exI [of _ s'] exI [of _ "Some t"]) (auto simp: s2_def r)
qed

section \<open>Giving a mutex back\<close>

lemma own_complete:
  assumes "base_ok {t} s" and "distinct (mtxlist (tcbs s t))"
    and "set (mtxlist (tcbs s t)) = {i. i < maxid (mtxtab s) \<and> mtxid (mtxcb s i) \<noteq> 0 \<and> mtxtsk (mtxcb s i) = Some t}"
  shows "base_ok {} s"
  using assms by (auto simp: base_ok_def mtx_own_def)

text \<open>\<open>release_mutex\<close> takes the mutex off the list of its holder, whose priority becomes the one due to the others.\<close>

lemma release_mutex_ok:
  fixes t i :: nat
  assumes inv: "pri_inv {} s"
  defines "s0 \<equiv> upd_tcb t (\<lambda>c. c\<lparr>mtxlist := filter (\<lambda>j. Some i \<noteq> Some j) (mtxlist c)\<rparr>) s"
  shows "\<exists>s'. release_mutex oh t (Some i) s = Some s' \<and> base_ok {t} s' \<and> mtx_calm s0 s' \<and>
     (\<forall>u. u \<noteq> t \<or> \<not> is_wait (state (tcbs s t)) \<longrightarrow> pri_ok s' u)"
proof -
  have b: "base_ok {} s" and p: "\<And>u. pri_ok s u" using inv by (simp_all add: pri_inv_def)
  define q where "q = Min (set (claims s0 t))"
  have pr: "pri s0 x = pri s x" and st: "state (tcbs s0 x) = state (tcbs s x)" for x by (simp_all add: s0_def)
  have mc: "mtx_claims s0 = mtx_claims s"
  proof -
    have "mtxcb s0 = mtxcb s" "mtx_proto s0 = mtx_proto s" "ques s0 = ques s" by (simp_all add: s0_def)
    then show ?thesis unfolding mtx_claims_def [abs_def] pr by (simp only:)
  qed
  have cl: "claims s0 u = claims s u" if "u \<noteq> t" for u
    using that by (simp add: claims_def mc) (simp add: s0_def)
  have "release_scan s (Some i) (mtxlist (tcbs s t)) (bpriority (tcbs s t)) (bpriority (tcbs s t)) = q"
    using release_scan_min [OF base_ok_sorted [OF b] order_refl, of "Some i"]
    by (simp add: q_def claims_def mc) (simp add: s0_def)
  then have e: "release_mutex oh t (Some i) s = (if q \<noteq> pri s t then change_task_priority oh t q s0 else Some s0)"
    by (simp add: release_mutex_def release_mutex_with_def Let_def s0_def)
  have t0: "touches {} s s0" "objs_same s s0" by (auto simp: s0_def wview_def intro!: touchesI)
  have "kinv s0" unfolding s0_def by (rule kinv_tcb_upd [OF base_okD(1) [OF b]]) simp_all
  moreover have "OK s0" by (rule foreign [OF base_okD(2) [OF b] t0(2) touches_mono [OF t0(1)]]) simp
  moreover have "mtab_ok s0" using mtx_tab.table_ok_elsewhere [OF mtx_tab.same_objs [OF t0(2)] t0(1)] base_okD(3) [OF b] by simp
  moreover have "placed s0" using base_okD(4) [OF b] unfolding placed_def well_placed_def s0_def by simp
  moreover have "mtx_own {t} s0" using base_okD(5) [OF b] by (simp add: mtx_own_def s0_def mtxcb_def)
  ultimately have b0: "base_ok {t} s0" using b by (simp add: base_ok_def s0_def)
  have mq: "is_min (set (claims s0 t)) q" by (subst is_min_set) (simp_all add: q_def claims_def)
  have oth: "pri_ok s0 u" if "u \<noteq> t" for u using p [of u] cl [OF that] pr by (simp add: pri_ok_def)
  show ?thesis
  proof (cases "q = pri s t")
    case True
    then have "pri_ok s0 t" using mq by (simp add: pri_ok_iff pr)
    then have "pri_ok s0 u" for u using oth by (cases "u = t") auto
    then show ?thesis using True b0 by (simp add: e)
  next
    case False
    have "q \<le> bpriority (tcbs s0 t)" using mq by (simp add: is_min_def claims_def)
    with base_okD(6) [OF b0, of t] have qn: "q < NUM_PRI" by simp
    show ?thesis
    proof (cases "is_wait (state (tcbs s t))")
      case True
      have "chain_pre {t} t q s0" using b0 qn oth by (simp add: chain_pre_def)
      from change_priority_ok [OF this] False True show ?thesis by (auto simp: e chain_post_def)
    next
      case w: False
      then have "\<not> is_wait (state (tcbs s0 t))" by (simp add: st)
      from change_not_waiting [OF b0 this qn] obtain s' where s': "change_task_priority oh t q s0 = Some s'" "chg_ok t q s0 s'"
        "base_ok {t} s'" "\<And>u. set (claims s' u) = set (claims s0 u)" by blast
      have "pri_ok s' u" for u
        using oth [of u] mq s'(2,4) by (cases "u = t") (simp_all add: pri_ok_iff chg_ok_def)
      then show ?thesis using s' False by (auto simp: e chg_ok_def)
    qed
  qed
qed

lemma tk_unl_mtx_ok:
  assumes inv: "pri_inv {} s" and a: "access_ends prid mid s" and c: "ctxtsk s prid = Some t" "t \<in> set (rdy s)"
  shows "\<exists>e s'. tk_unl_mtx oh prid mid s = Some (e, s') \<and> pri_inv {} s'"
  unfolding tk_unl_mtx_def
proof (rule pri_inv_call [OF inv a])
  let ?i = "INDEX_OBJ mid"
  assume g: "guards [CHECK_MTXID s mid, CHECK_INTSK prid s] = None" and l: "mtxid (mtxcb s ?i) \<noteq> 0"
  have i: "?i < maxid (mtxtab s)" by (rule mtx_index [OF g])
  have b: "base_ok {} s" using inv by (simp add: pri_inv_def)
  have w: "\<not> is_wait (state (tcbs s t))" using c(2) kinv_rdy [OF base_okD(1) [OF b]] by auto
  show "\<exists>e s'. do { t \<leftarrow> ctxtsk s prid; if mtxtsk (mtxcb s ?i) \<noteq> Some t then end_critical E_ILUSE s
         else do { s \<leftarrow> release_mutex oh t (Some ?i) s; s \<leftarrow> pass_mutex oh ?i s; end_critical E_OK s } } = Some (e, s') \<and> pri_inv {} s'"
  proof (cases "mtxtsk (mtxcb s ?i) = Some t")
    case False
    then show ?thesis using c(1) pri_inv_end_ex [OF inv, of E_ILUSE] by auto
  next
    case True
    from release_mutex_ok [OF inv, of t ?i] w obtain s1 where s1: "release_mutex oh t (Some ?i) s = Some s1" "base_ok {t} s1"
      "mtx_calm (upd_tcb t (\<lambda>c. c\<lparr>mtxlist := filter (\<lambda>j. Some ?i \<noteq> Some j) (mtxlist c)\<rparr>) s) s1" "\<And>u. pri_ok s1 u" by auto
    note m = mtx_calmD [OF s1(3)]
    have cb: "mtxcb s1 = mtxcb s" "maxid (mtxtab s1) = maxid (mtxtab s)" "mtxlist (tcbs s1 t) = filter (\<lambda>j. ?i \<noteq> j) (mtxlist (tcbs s t))"
      using m(1,2,7) by simp_all
    have "\<exists>s2 o'. pass_mutex oh ?i s1 = Some s2 \<and> base_ok {t} s2 \<and> (\<forall>u. u \<notin> {} \<longrightarrow> pri_ok s2 u) \<and> o' \<noteq> Some t \<and>
        mtxcb s2 = (mtxcb s1)(?i := (mtxcb s1 ?i)\<lparr>mtxtsk := o'\<rparr>) \<and> maxid (mtxtab s2) = maxid (mtxtab s1) \<and>
        mtxlist (tcbs s2 t) = mtxlist (tcbs s1 t)"
      by (rule pass_mutex_ok [OF s1(2) _ _ _ s1(4)]) (use i l True in \<open>simp_all add: cb\<close>)
    then obtain s2 o' where s2: "pass_mutex oh ?i s1 = Some s2" "base_ok {t} s2" "\<And>u. pri_ok s2 u" "o' \<noteq> Some t"
      "mtxcb s2 = (mtxcb s1)(?i := (mtxcb s1 ?i)\<lparr>mtxtsk := o'\<rparr>)" "maxid (mtxtab s2) = maxid (mtxtab s1)"
      "mtxlist (tcbs s2 t) = mtxlist (tcbs s1 t)" by auto
    have "base_ok {} s2"
      by (rule own_complete [OF s2(2)]) (use base_okD(5) [OF b] s2(4) in \<open>auto simp: mtx_own_def s2(5-7) cb\<close>)
    then have "pri_inv {} s2" using s2(3) by (simp add: pri_inv_def)
    from pri_inv_end_ex [OF this, of E_OK] show ?thesis using c(1) True s1(1) s2(1) by auto
  qed
qed

text \<open>The mutexes of a task that ends are all passed on.\<close>

lemma pass_all_ok:
  assumes "base_ok {h} s" and "\<And>u. u \<noteq> h \<Longrightarrow> pri_ok s u" and "distinct is"
    and "\<And>i. i \<in> set is \<Longrightarrow> i < maxid (mtxtab s) \<and> mtxid (mtxcb s i) \<noteq> 0 \<and> mtxtsk (mtxcb s i) = Some h"
  shows "\<exists>s'. pass_all oh is s = Some s' \<and> base_ok {h} s' \<and> (\<forall>u. u \<noteq> h \<longrightarrow> pri_ok s' u) \<and> maxid (mtxtab s') = maxid (mtxtab s) \<and>
     (\<forall>j. j \<notin> set is \<longrightarrow> mtxcb s' j = mtxcb s j) \<and> (\<forall>i\<in>set is. mtxtsk (mtxcb s' i) \<noteq> Some h)"
  using assms
proof (induction "is" arbitrary: s)
  case Nil
  then show ?case by simp
next
  case (Cons i "is")
  have i: "i < maxid (mtxtab s)" "mtxid (mtxcb s i) \<noteq> 0" "mtxtsk (mtxcb s i) = Some h" using Cons.prems(4) by simp_all
  have "\<exists>s1 o'. pass_mutex oh i s = Some s1 \<and> base_ok {h} s1 \<and> (\<forall>u. u \<notin> {h} \<longrightarrow> pri_ok s1 u) \<and> o' \<noteq> Some h \<and>
     mtxcb s1 = (mtxcb s)(i := (mtxcb s i)\<lparr>mtxtsk := o'\<rparr>) \<and> maxid (mtxtab s1) = maxid (mtxtab s) \<and> mtxlist (tcbs s1 h) = mtxlist (tcbs s h)"
    by (rule pass_mutex_ok [OF Cons.prems(1) i]) (use Cons.prems(2) in simp_all)
  then obtain s1 o' where s1: "pass_mutex oh i s = Some s1" "base_ok {h} s1" "\<forall>u. u \<noteq> h \<longrightarrow> pri_ok s1 u" "o' \<noteq> Some h"
     "mtxcb s1 = (mtxcb s)(i := (mtxcb s i)\<lparr>mtxtsk := o'\<rparr>)" "maxid (mtxtab s1) = maxid (mtxtab s)" by auto
  have "\<exists>s'. pass_all oh is s1 = Some s' \<and> base_ok {h} s' \<and> (\<forall>u. u \<noteq> h \<longrightarrow> pri_ok s' u) \<and> maxid (mtxtab s') = maxid (mtxtab s1) \<and>
     (\<forall>j. j \<notin> set is \<longrightarrow> mtxcb s' j = mtxcb s1 j) \<and> (\<forall>i\<in>set is. mtxtsk (mtxcb s' i) \<noteq> Some h)"
  proof (rule Cons.IH [OF s1(2)])
    fix j assume "j \<in> set is"
    then show "j < maxid (mtxtab s1) \<and> mtxid (mtxcb s1 j) \<noteq> 0 \<and> mtxtsk (mtxcb s1 j) = Some h"
      using Cons.prems(3,4) by (auto simp: s1(5,6))
  qed (use s1(3) Cons.prems(3) in auto)
  then show ?case using s1(1,4,5,6) Cons.prems(3) by auto
qed

lemma signal_all_mutex_ok:
  assumes inv: "pri_inv {} s"
  shows "\<exists>s'. signal_all_mutex oh h s = Some s' \<and> base_ok {h} s' \<and> (\<forall>u. u \<noteq> h \<longrightarrow> pri_ok s' u) \<and>
     (\<forall>i<maxid (mtxtab s'). mtxid (mtxcb s' i) \<noteq> 0 \<longrightarrow> mtxtsk (mtxcb s' i) \<noteq> Some h)"
proof -
  have b: "base_ok {} s" using inv by (simp add: pri_inv_def)
  then have own: "set (mtxlist (tcbs s h)) = {i. i < maxid (mtxtab s) \<and> mtxid (mtxcb s i) \<noteq> 0 \<and> mtxtsk (mtxcb s i) = Some h}"
    "distinct (mtxlist (tcbs s h))" using base_okD(5) [OF b] by (simp_all add: mtx_own_def)
  have bh: "base_ok {h} s" using b by (simp add: base_ok_def mtx_own_def)
  have "\<exists>s'. pass_all oh (mtxlist (tcbs s h)) s = Some s' \<and> base_ok {h} s' \<and> (\<forall>u. u \<noteq> h \<longrightarrow> pri_ok s' u) \<and> maxid (mtxtab s') = maxid (mtxtab s) \<and>
     (\<forall>j. j \<notin> set (mtxlist (tcbs s h)) \<longrightarrow> mtxcb s' j = mtxcb s j) \<and> (\<forall>i\<in>set (mtxlist (tcbs s h)). mtxtsk (mtxcb s' i) \<noteq> Some h)"
    by (rule pass_all_ok [OF bh _ own(2)]) (use own(1) inv in \<open>auto simp: pri_inv_def\<close>)
  then obtain s' where s': "pass_all oh (mtxlist (tcbs s h)) s = Some s'" "base_ok {h} s'" "\<forall>u. u \<noteq> h \<longrightarrow> pri_ok s' u"
     "maxid (mtxtab s') = maxid (mtxtab s)" "\<forall>j. j \<notin> set (mtxlist (tcbs s h)) \<longrightarrow> mtxcb s' j = mtxcb s j"
     "\<forall>i\<in>set (mtxlist (tcbs s h)). mtxtsk (mtxcb s' i) \<noteq> Some h" by blast
  have "mtxtsk (mtxcb s' i) \<noteq> Some h" if "i < maxid (mtxtab s')" "mtxid (mtxcb s' i) \<noteq> 0" for i
  proof (cases "i \<in> set (mtxlist (tcbs s h))")
    case False
    then show ?thesis using s'(4,5) that unfolding own(1) by auto
  qed (use s'(6) in blast)
  with s'(1-3) show ?thesis by (auto simp: signal_all_mutex_def)
qed

section \<open>Deletion\<close>

lemma wait_delete_mtx_ok:
  assumes "base_ok X s" and "i < maxid (mtxtab s)" and "\<And>u. u \<notin> Y \<Longrightarrow> i \<notin> set (mtxlist (tcbs s u))"
  shows "\<exists>s'. wait_delete (QMtx i) s = Some s' \<and> base_ok X s' \<and> ques s' (QMtx i) = [] \<and> mtxcb s' = mtxcb s \<and>
     maxid (mtxtab s') = maxid (mtxtab s) \<and> (\<forall>x. pri s' x = pri s x \<and> mtxlist (tcbs s' x) = mtxlist (tcbs s x)) \<and>
     (\<forall>u. u \<notin> Y \<longrightarrow> set (claims s' u) = set (claims s u))"
  using assms
proof (induction "ques s (QMtx i)" arbitrary: s)
  case Nil
  then show ?case using wait_delete_Nil [of s "QMtx i"] by auto
next
  case (Cons t ts)
  have t: "t \<in> set (ques s (QMtx i))" using Cons.hyps(2) by (metis list.set_intros(1))
  note r = release_waiter_ok [OF Cons.prems(1) t Cons.prems(2), where e = E_DLT]
  let ?s = "wait_release_ok_ercd t E_DLT s"
  have "ts = ques ?s (QMtx i)" using Cons.hyps(2) by (metis r(2) remove1.simps(2))
  moreover have "i < maxid (mtxtab ?s)" using Cons.prems(2) r(8) by simp
  moreover have "i \<notin> set (mtxlist (tcbs ?s u))" if "u \<notin> Y" for u unfolding r(6) by (rule Cons.prems(3) [OF that])
  ultimately obtain s' where s': "wait_delete (QMtx i) ?s = Some s'" "base_ok X s'" "ques s' (QMtx i) = []" "mtxcb s' = mtxcb ?s"
     "maxid (mtxtab s') = maxid (mtxtab ?s)" "\<forall>x. pri s' x = pri ?s x \<and> mtxlist (tcbs s' x) = mtxlist (tcbs ?s x)"
     "\<forall>u. u \<notin> Y \<longrightarrow> set (claims s' u) = set (claims ?s u)" using Cons.hyps(1) [OF _ r(1)] by blast
  have "wait_delete (QMtx i) s = Some s'" using wait_delete_Cons [OF Cons.hyps(2) [symmetric]] s'(1) by simp
  then show ?case
    using s'(2-) r(3,5,6,8) r(4) [OF Cons.prems(3)] by auto
qed

lemma OK_register: "OK s \<Longrightarrow> OK (mp_register_object_in_domain d ty i nm s)" "OK s \<Longrightarrow> OK (mp_unregister_object_in_domain d ty i s)"
  using register_shape [of d ty i nm s] unregister_shape [of d ty i s] foreign_dom by metis+

lemma unlink_mtx_ok:
  assumes b: "base_ok H s" and q: "ques s (QMtx i) = []" and i: "i < maxid (mtxtab s)" "mtxid (mtxcb s i) \<noteq> 0"
    and own: "\<And>u. set (mtxlist (tcbs s u)) = {j. j < maxid (mtxtab s) \<and> mtxid (mtxcb s j) \<noteq> 0 \<and> mtxtsk (mtxcb s j) = Some u} - {i}"
      "\<And>u. distinct (mtxlist (tcbs s u))"
  shows "base_ok {} (obj_unlink mtx_ops mid i s)" and "pri_ok (obj_unlink mtx_ops mid i s) u \<longleftrightarrow> pri_ok s u"
proof -
  let ?s = "obj_unlink mtx_ops mid i s"
  let ?u = "mp_unregister_object_in_domain mid OT_MTX (INDEX_OBJ mid) s"
  have e: "?s = upd_mtx i (\<lambda>c. c\<lparr>mtxid := 0\<rparr>) (set_free_mtx (freeq (mtxtab ?u) @ [i]) ?u)"
    by (simp add: obj_unlink_def Let_def)
  have cu: "mtxcb ?u = mtxcb s" by (simp add: mtxcb_def fun_eq_iff)
  have sel: "tcbs ?s = tcbs s" "ques ?s = ques s" "maxid (mtxtab ?s) = maxid (mtxtab s)" "mtxcb ?s = (mtxcb s)(i := (mtxcb s i)\<lparr>mtxid := 0\<rparr>)"
    unfolding e by (simp_all add: cu)
  have w: "mtx_wf i (mtx_view ?s i)" by (simp add: mtx_view_def sel q)
  have "kinv ?s \<and> mtab_ok ?s"
    using mtx_tab.obj_unlink_ok [OF base_okD(1,3) [OF b] _ _ refl refl refl w] i by (simp add: mtx_view_def)
  moreover have "OK ?s"
    unfolding e upd_mtx_def set_free_mtx_def by (intro foreign_mtx OK_register(2) base_okD(2) [OF b])
  moreover have "placed ?s" using base_okD(4) [OF b] by (simp add: placed_def well_placed_def sel)
  moreover have "mtx_own {} ?s" using base_okD(5) [OF b] own by (auto simp: mtx_own_def sel)
  ultimately show "base_ok {} ?s" using b by (simp add: base_ok_def sel)
  have "mtx_proto ?s = mtx_proto s" by (simp add: mtx_proto_def sel fun_eq_iff)
  then have "mtx_claims ?s = mtx_claims s" by (simp add: mtx_claims_def [abs_def] sel fun_eq_iff TA_CEILING_def TA_INHERIT_def)
  then show "pri_ok ?s u \<longleftrightarrow> pri_ok s u" by (simp add: pri_ok_def claims_def sel)
qed

lemma tk_del_mtx_ok:
  assumes inv: "pri_inv {} s" and a: "access_ends prid mid s"
  shows "\<exists>e s'. tk_del_mtx oh prid mid s = Some (e, s') \<and> base_ok {} s' \<and>
     (\<forall>u. mtxtsk (mtxcb s (INDEX_OBJ mid)) \<noteq> Some u \<or> \<not> is_wait (state (tcbs s u)) \<longrightarrow> pri_ok s' u)"
  unfolding tk_del_mtx_def
proof (rule pri_inv_call [OF inv a])
  let ?i = "INDEX_OBJ mid"
  let ?P = "\<lambda>s'. base_ok {} s' \<and> (\<forall>u. mtxtsk (mtxcb s ?i) \<noteq> Some u \<or> \<not> is_wait (state (tcbs s u)) \<longrightarrow> pri_ok s' u)"
  show "?P s'" if "pri_inv {} s'" for s' using that by (simp add: pri_inv_def)
  assume g: "guards [CHECK_MTXID s mid] = None" and l: "mtxid (mtxcb s ?i) \<noteq> 0"
  have i: "?i < maxid (mtxtab s)" by (rule mtx_index [OF g])
  have b: "base_ok {} s" using inv by (simp add: pri_inv_def)
  define H where "H = {h. mtxtsk (mtxcb s ?i) = Some h}"
  define rel where "rel = (case mtxtsk (mtxcb s ?i) of None \<Rightarrow> Some s | Some h \<Rightarrow> release_mutex oh h (Some ?i) s)"
  have "\<exists>s1. rel = Some s1 \<and> base_ok H s1 \<and> mtxcb s1 = mtxcb s \<and> mtxtab s1 = mtxtab s \<and>
      (\<forall>x. mtxlist (tcbs s1 x) = filter (\<lambda>j. j \<noteq> ?i) (mtxlist (tcbs s x))) \<and>
      (\<forall>u. u \<notin> H \<or> \<not> is_wait (state (tcbs s u)) \<longrightarrow> pri_ok s1 u)"
  proof (cases "mtxtsk (mtxcb s ?i)")
    case None
    have "filter (\<lambda>j. j \<noteq> ?i) (mtxlist (tcbs s x)) = mtxlist (tcbs s x)" for x
      using base_okD(5) [OF b] None by (intro filter_True) (auto simp: mtx_own_def)
    then show ?thesis using None b inv by (simp add: rel_def H_def pri_inv_def)
  next
    case (Some h)
    from release_mutex_ok [OF inv, of h ?i] obtain s1 where s1: "release_mutex oh h (Some ?i) s = Some s1" "base_ok {h} s1"
      "mtx_calm (upd_tcb h (\<lambda>c. c\<lparr>mtxlist := filter (\<lambda>j. Some ?i \<noteq> Some j) (mtxlist c)\<rparr>) s) s1"
      "\<And>u. u \<noteq> h \<or> \<not> is_wait (state (tcbs s h)) \<Longrightarrow> pri_ok s1 u" by blast
    have "filter (\<lambda>j. j \<noteq> ?i) (mtxlist (tcbs s x)) = mtxlist (tcbs s x)" if "x \<noteq> h" for x
      using base_okD(5) [OF b] Some that by (intro filter_True) (auto simp: mtx_own_def)
    moreover have "filter (\<lambda>j. ?i \<noteq> j) xs = filter (\<lambda>j. j \<noteq> ?i) xs" for xs by (rule filter_cong) auto
    ultimately have "mtxlist (tcbs s1 x) = filter (\<lambda>j. j \<noteq> ?i) (mtxlist (tcbs s x))" for x
      using mtx_calmD(7) [OF s1(3), of x] by (cases "x = h") simp_all
    moreover have "H = {h}" using Some by (auto simp: H_def)
    ultimately show ?thesis
      using s1(1,2) s1(4) mtx_calmD(1,2) [OF s1(3)] by (auto simp: rel_def Some)
  qed
  then obtain s1 where s1: "rel = Some s1" "base_ok H s1" "mtxcb s1 = mtxcb s" "mtxtab s1 = mtxtab s"
      "\<And>x. mtxlist (tcbs s1 x) = filter (\<lambda>j. j \<noteq> ?i) (mtxlist (tcbs s x))"
      "\<And>u. u \<notin> H \<or> \<not> is_wait (state (tcbs s u)) \<Longrightarrow> pri_ok s1 u" by blast
  have "\<exists>s2. wait_delete (QMtx ?i) s1 = Some s2 \<and> base_ok H s2 \<and> ques s2 (QMtx ?i) = [] \<and> mtxcb s2 = mtxcb s1 \<and>
     maxid (mtxtab s2) = maxid (mtxtab s1) \<and> (\<forall>x. pri s2 x = pri s1 x \<and> mtxlist (tcbs s2 x) = mtxlist (tcbs s1 x)) \<and>
     (\<forall>u. u \<notin> {} \<longrightarrow> set (claims s2 u) = set (claims s1 u))"
    by (rule wait_delete_mtx_ok [OF s1(2)]) (use i in \<open>simp_all add: s1(4,5)\<close>)
  then obtain s2 where s2: "wait_delete (QMtx ?i) s1 = Some s2" "base_ok H s2" "ques s2 (QMtx ?i) = []" "mtxcb s2 = mtxcb s1"
     "maxid (mtxtab s2) = maxid (mtxtab s1)" "\<And>x. pri s2 x = pri s1 x" "\<And>x. mtxlist (tcbs s2 x) = mtxlist (tcbs s1 x)"
     "\<And>u. set (claims s2 u) = set (claims s1 u)" by auto
  define s3 where "s3 = obj_unlink mtx_ops mid ?i s2"
  have own: "set (mtxlist (tcbs s2 u)) = {j. j < maxid (mtxtab s) \<and> mtxid (mtxcb s j) \<noteq> 0 \<and> mtxtsk (mtxcb s j) = Some u} - {?i}"
     "distinct (mtxlist (tcbs s2 u))" for u using base_okD(5) [OF b] by (auto simp: mtx_own_def s2(7) s1(5))
  have i2: "?i < maxid (mtxtab s2)" "mtxid (mtxcb s2 ?i) \<noteq> 0" using i l by (simp_all add: s2(4,5) s1(3,4))
  have own2: "set (mtxlist (tcbs s2 u)) = {j. j < maxid (mtxtab s2) \<and> mtxid (mtxcb s2 j) \<noteq> 0 \<and> mtxtsk (mtxcb s2 j) = Some u} - {?i}" for u
    using own(1) by (simp add: s2(4,5) s1(3,4))
  note u = unlink_mtx_ok [OF s2(2,3) i2 own2 own(2), of mid, folded s3_def]
  have P: "pri_ok s3 u" if "u \<notin> H \<or> \<not> is_wait (state (tcbs s u))" for u
  proof -
    have "pri_ok s2 u" using s1(6) [OF that] by (simp only: pri_ok_def s2(6,8))
    then show ?thesis using u(2) by blast
  qed
  define X where "X = {u. u \<in> H \<and> is_wait (state (tcbs s u))}"
  have "pri_inv X s3" using u(1) P by (auto simp: pri_inv_def base_ok_def mtx_own_def X_def simp del: is_wait_iff)
  from pri_inv_end_ex [OF this, of E_OK] obtain s' where s': "end_critical E_OK s3 = Some (E_OK, s')" "pri_inv X s'" by blast
  have "mtx_own {} s'" using base_okD(5) [OF u(1)] mtx_calmD(13) [OF sched_calm(1)] end_critical_result [OF s'(1) base_okD(1) [OF u(1)]] by blast
  then have "?P s'" using s'(2) by (auto simp: pri_inv_def base_ok_def X_def H_def simp del: is_wait_iff)
  then show "\<exists>e s'. do { s \<leftarrow> (case mtxtsk (mtxcb s ?i) of None \<Rightarrow> Some s | Some h \<Rightarrow> release_mutex oh h (Some ?i) s);
         s \<leftarrow> wait_delete (QMtx ?i) s; end_critical E_OK (obj_unlink mtx_ops mid ?i s) } = Some (e, s') \<and> ?P s'"
    using s1(1) s2(1) s'(1) by (simp add: rel_def [symmetric] s3_def)
qed

section \<open>Locking\<close>

lemma base_ok_mono: "base_ok X s \<Longrightarrow> X \<subseteq> Y \<Longrightarrow> base_ok Y s"
  by (auto simp: base_ok_def mtx_own_def)

lemma lock_free_ok:
  assumes inv: "pri_inv {} s" and t: "t \<in> set (rdy s)" and i: "i < maxid (mtxtab s)" "mtxid (mtxcb s i) \<noteq> 0" "mtxtsk (mtxcb s i) = None"
  shows "\<exists>s'. lock_free oh t i s = Some s' \<and> pri_inv {} s'"
proof -
  have b: "base_ok {} s" and p: "\<And>u. pri_ok s u" using inv by (simp_all add: pri_inv_def)
  have w: "\<not> is_wait (state (tcbs s t))" using t kinv_rdy [OF base_okD(1) [OF b]] by auto
  have q: "ques s (QMtx i) = []" using mtab_okD [OF base_okD(3) [OF b] i(1)] i(2,3) by simp
  define s1 where "s1 = take_mtx t i s"
  have b1: "base_ok {} s1"
    unfolding s1_def by (rule take_mtx_ok [OF base_okD(1-4,6) [OF b]]) (use i q base_okD(5) [OF b] in \<open>auto simp: mtx_own_def\<close>)
  have "\<exists>s'. ceiling t i s1 = Some s' \<and> base_ok {} s' \<and> mtx_calm s1 s' \<and> (\<forall>u. u \<notin> {} \<longrightarrow> pri_ok s' u)"
  proof (rule ceiling_ok [OF b1, where A = "set (claims s t)"])
    show "ceilpri (mtxcb s1 i) < NUM_PRI" using mtab_okD [OF base_okD(3) [OF b] i(1)] i(2) by (simp add: s1_def)
    show "pri_ok s1 u" if "u \<notin> {}" "u \<noteq> t" for u using p [of u] that(2) by (simp add: pri_ok_iff s1_def take_claims)
    show "is_min (set (claims s t)) (pri s1 t)" using p [of t] by (simp add: pri_ok_iff s1_def)
  qed (use w q in \<open>simp_all add: s1_def take_claims\<close>)
  then obtain s' where "ceiling t i s1 = Some s'" "base_ok {} s'" "\<forall>u. pri_ok s' u" by auto
  moreover have "lock_free oh t i s = ceiling t i s1"
    by (simp add: lock_free_def ceiling_def s1_def take_mtx_def Let_def)
  ultimately show ?thesis by (simp add: pri_inv_def)
qed

text \<open>The current task leaves the ready queue and joins the queue of the mutex.\<close>

lemma enter_mutex_queue:
  assumes k: "kinv s" and c: "ctxtsk s prid = Some t" and t: "t \<in> set (rdy s)" and h: "wait_head q"
    and u: "u = upd_tcb t (\<lambda>c. c\<lparr>wspec := w, wercd := E_TMOUT, wid := d\<rparr>) s"
  shows "\<exists>s'. do { s \<leftarrow> make_wait prid tmout atr u; Some (if fifo then QueInsert_tail t q s else queue_insert_tpri q t s) } = Some s' \<and>
     kinv s' \<and> objs_same s s' \<and> touches {q} s s' \<and> state (tcbs s' t) = TS_WAIT \<and> wspec (tcbs s' t) = w \<and> wid (tcbs s' t) = d \<and>
     waiters s' q = join_queue (if fifo then TA_TFIFO else TA_TPRI) (t, winfo (tcbs s t), d, w, pri s t) (waiters s q) \<and>
     (\<forall>x. x \<noteq> t \<longrightarrow> tcbs s' x = tcbs s x) \<and> pri s' t = pri s t \<and> bpriority (tcbs s' t) = bpriority (tcbs s t) \<and>
     mtxlist (tcbs s' t) = mtxlist (tcbs s t)"
proof -
  have ku: "kinv u" "rdy u = rdy s" unfolding u by (rule kinv_tcb_upd [OF k]; simp)+
  have cu: "ctxtsk u prid = Some t" "t \<in> set (rdy u)" using c t ku by (simp_all add: u)
  from make_wait_ok [OF ku(1) cu, of tmout atr] obtain s1 where m: "make_wait prid tmout atr u = Some s1" and b: "kinv_but t s1"
    and qs: "\<forall>q. \<not> ready_head q \<longrightarrow> ques s1 q = ques u q" and f: "task_frame t u s1"
    and st: "state (tcbs s1 t) = TS_WAIT" "wid (tcbs s1 t) = wid (tcbs u t)" "\<not> klockwait (tcbs s1 t)" by blast
  have pr: "pri s1 x = pri s x" for x using f by (cases "x = t") (auto simp: task_frame_def u)
  have qq: "ques s1 q' = ques s q'" if "\<not> ready_head q'" for q' using qs that by (simp add: u)
  define xs where "xs = (if fifo then ques s q @ [t] else insert_before (\<lambda>x. pri s x > pri s t) t (ques s q))"
  define S where "S = set_que q xs s1"
  have g: "(if fifo then QueInsert_tail t q s1 else queue_insert_tpri q t s1) = S"
    using qq [OF wait_head_ready [OF h]] by (simp add: queue_insert_tpri_def QueInsert_tail_def xs_def pr S_def)
  have nt: "t \<notin> set (ques s q')" if "\<not> ready_head q'" for q' by (rule ready_not_waiting [OF k t that])
  have kk: "kinv S"
    unfolding S_def by (rule kinv_but_enqueue [OF b wait_head_ready [OF h]])
      (use st nt [OF wait_head_ready [OF h]] kinv_dest(5) [OF k, of q] wait_head_place [OF h] qq [OF wait_head_ready [OF h]] in \<open>simp_all add: xs_def\<close>)
  have tx: "tcbs S x = tcbs s x" if "x \<noteq> t" for x using f that by (simp add: task_frame_def u set_que_def S_def)
  have tt: "winfo (tcbs S t) = winfo (tcbs s t)" "wspec (tcbs S t) = w" "wid (tcbs S t) = d" "state (tcbs S t) = TS_WAIT"
    "pri S t = pri s t" "bpriority (tcbs S t) = bpriority (tcbs s t)" "mtxlist (tcbs S t) = mtxlist (tcbs s t)"
    using f st by (simp_all add: task_frame_def u set_que_def S_def)
  have o: "objs_same s S" using f by (simp add: task_frame_def u set_que_def S_def objs_same_def)
  have "touches {q} s S"
  proof (rule touchesI)
    show "ques S q' = ques s q'" if "\<not> ready_head q'" "q' \<notin> {q}" for q' using qq [OF that(1)] that(2) by (simp add: set_que_def S_def)
    fix q' x assume "\<not> ready_head q'" "x \<in> set (ques s q')"
    then have "x \<noteq> t" using nt by blast
    from tx [OF this] show "wview (tcbs S x) = wview (tcbs s x)" by (rule arg_cong)
  qed
  moreover have "waiters S q = join_queue (if fifo then TA_TFIFO else TA_TPRI) (t, winfo (tcbs s t), d, w, pri s t) (waiters s q)"
  proof -
    have nq: "t \<notin> set (ques s q)" using nt wait_head_ready [OF h] by simp
    then have ws: "map (\<lambda>x. (x, wview (tcbs S x))) (ques s q) = waiters s q"
      unfolding waiters_def by (intro map_cong refl) (metis tx)
    have v: "wview (tcbs S t) = (winfo (tcbs s t), d, w, pri s t)" by (simp add: wview_def tt)
    have "waiters S q = map (\<lambda>x. (x, wview (tcbs S x))) xs" by (simp add: waiters_def) (simp add: set_que_def S_def)
    also have "\<dots> = join_queue (if fifo then TA_TFIFO else TA_TPRI) (t, wview (tcbs S t)) (map (\<lambda>x. (x, wview (tcbs S x))) (ques s q))"
    proof (cases fifo)
      case True
      then show ?thesis by (simp add: xs_def join_queue_def TA_TFIFO_def)
    next
      case False
      have "map (\<lambda>x. (x, wview (tcbs S x))) (insert_before (\<lambda>x. pri s x > pri s t) t (ques s q)) =
          insert_before (\<lambda>y. waiter_pri y > pri s t) (t, wview (tcbs S t)) (map (\<lambda>x. (x, wview (tcbs S x))) (ques s q))"
      proof (rule map_insert_before)
        fix x assume "x \<in> set (ques s q)"
        with nq have "x \<noteq> t" by blast
        then show "pri s t < waiter_pri (x, wview (tcbs S x)) \<longleftrightarrow> pri s t < pri s x" by (simp add: wview_def tx)
      qed
      then show ?thesis using False by (simp add: xs_def join_queue_def v TA_TPRI_def)
    qed
    finally show ?thesis by (simp only: ws v)
  qed
  ultimately show ?thesis using kk o tx tt by (intro exI [of _ S]) (simp add: m g)
qed

text \<open>A holder that gets the priority of the task about to wait: its claims with the new one.\<close>

lemma raise_holder_ok:
  assumes inv: "pri_inv {} s" and t: "t \<in> set (rdy s)" and c: "ctxtsk s prid = Some t" and h: "h \<noteq> t"
  shows "\<exists>s1. (if inh \<and> pri s h > pri s t then change_task_priority oh h (pri s t) s else Some s) = Some s1 \<and> base_ok {} s1 \<and>
     mtx_calm s s1 \<and> pri s1 t = pri s t \<and> (\<forall>u. u \<noteq> h \<longrightarrow> pri_ok s1 u) \<and>
     (if inh then is_min (insert (pri s t) (set (claims s1 h))) (pri s1 h) else pri_ok s1 h)"
proof -
  have b: "base_ok {} s" and p: "\<And>u. pri_ok s u" using inv by (simp_all add: pri_inv_def)
  have mh: "is_min (set (claims s h)) (pri s h)" using p [of h] by (simp add: pri_ok_iff)
  show ?thesis
  proof (cases "inh \<and> pri s h > pri s t")
    case False
    then have "is_min (insert (pri s t) (set (claims s h))) (pri s h)" if inh using mh that by (auto simp: is_min_def)
    then show ?thesis using False b p by auto
  next
    case True
    have "chain_pre {h} h (pri s t) s"
      using base_ok_mono [OF b, of "{h}"] p kinv_dest(4) [OF base_okD(1) [OF b]] by (simp add: chain_pre_def)
    from change_priority_ok [OF this] True obtain s1 where s1: "change_task_priority oh h (pri s t) s = Some s1"
      "chain_post {h} s s1" "raised (pri s t) s s1" "pri s1 h = pri s t" by blast
    have m: "mtx_calm s s1" using s1(2) by (simp add: chain_post_def)
    have b1: "base_ok {} s1" using s1(2) b mtx_calmD(13) [OF m] by (simp add: chain_post_def base_ok_def)
    have lo: "pri s t \<le> pri s1 x" if "x \<in> heirs s h" for x
    proof -
      have "pri s h \<le> pri s x" using mh that by (auto simp: is_min_def set_claims)
      then show ?thesis using s1(3) True unfolding raised_def by (metis less_imp_le order_refl order_trans)
    qed
    moreover have "pri s t \<le> x" if "x \<in> own_pris s h" for x using mh that True by (auto simp: is_min_def set_claims intro: less_imp_le order_trans)
    ultimately have "is_min (insert (pri s t) (set (claims s1 h))) (pri s1 h)"
      unfolding set_claims claims_calm [OF m] s1(4) by (auto simp: is_min_def)
    moreover have "pri s1 t = pri s t" using s1(3) unfolding raised_def by (metis less_irrefl)
    ultimately show ?thesis using s1 True b1 m by (auto simp: chain_post_def)
  qed
qed

lemma lock_wait_ok:
  assumes inv: "pri_inv {} s" and c: "ctxtsk s prid = Some t" and t: "t \<in> set (rdy s)"
    and i: "i < maxid (mtxtab s)" "mtxid (mtxcb s i) \<noteq> 0" and h: "mtxtsk (mtxcb s i) = Some h" "h \<noteq> t"
  shows "\<exists>s'. lock_wait oh prid t i tmout h s = Some s' \<and> pri_inv {} s' \<and> state (tcbs s' t) = TS_WAIT \<and> t \<in> set (ques s' (QMtx i))"
proof -
  let ?inh = "mtx_proto s i = TA_INHERIT"
  from raise_holder_ok [OF inv t c h(2), of ?inh] obtain s1 where s1: "(if ?inh \<and> pri s h > pri s t then change_task_priority oh h (pri s t) s
      else Some s) = Some s1" "base_ok {} s1" "mtx_calm s s1" "pri s1 t = pri s t" "\<forall>u. u \<noteq> h \<longrightarrow> pri_ok s1 u"
    "if ?inh then is_min (insert (pri s t) (set (claims s1 h))) (pri s1 h) else pri_ok s1 h" by blast
  note m = mtx_calmD [OF s1(3)] and k1 = base_okD(1) [OF s1(2)]
  have c1: "ctxtsk s1 prid = Some t" "t \<in> set (rdy s1)" using c t m(4,12) by auto
  define u where "u = upd_tcb t (\<lambda>c. c\<lparr>wspec := mtx_wspec (mtx_proto s1 i), wercd := E_TMOUT, wid := mtxid (mtxcb s1 i)\<rparr>) s1"
  let ?ff = "mtx_proto s i = TA_TFIFO" and ?w = "(t, winfo (tcbs s1 t), mtxid (mtxcb s i), mtx_wspec (mtx_proto s i), pri s1 t)"
  from enter_mutex_queue [OF k1 c1 _ u_def, of "QMtx i" tmout "mtxatr (mtxcb s1 i)" ?ff] obtain s2 where
    s2: "do { s \<leftarrow> make_wait prid tmout (mtxatr (mtxcb s1 i)) u;
        Some (if ?ff then QueInsert_tail t (QMtx i) s else queue_insert_tpri (QMtx i) t s) } = Some s2"
      "kinv s2" "objs_same s1 s2" "touches {QMtx i} s1 s2" "state (tcbs s2 t) = TS_WAIT" "wspec (tcbs s2 t) = mtx_wspec (mtx_proto s1 i)"
      "wid (tcbs s2 t) = mtxid (mtxcb s1 i)"
      "waiters s2 (QMtx i) = join_queue (if ?ff then TA_TFIFO else TA_TPRI) (t, winfo (tcbs s1 t), mtxid (mtxcb s1 i), mtx_wspec (mtx_proto s1 i), pri s1 t)
         (waiters s1 (QMtx i))"
      "\<forall>x. x \<noteq> t \<longrightarrow> tcbs s2 x = tcbs s1 x" "pri s2 t = pri s1 t" "bpriority (tcbs s2 t) = bpriority (tcbs s1 t)"
      "mtxlist (tcbs s2 t) = mtxlist (tcbs s1 t)" by auto
  have tv: "bpriority (tcbs s2 x) = bpriority (tcbs s1 x)" "mtxlist (tcbs s2 x) = mtxlist (tcbs s1 x)" "pri s2 x = pri s1 x" for x
    using s2(9-12) by (cases "x = t"; simp)+
  have tab: "mtxtab s2 = mtxtab s1" "mtxcb s2 = mtxcb s1" using s2(3) by (simp_all add: objs_same_def mtxcb_def fun_eq_iff)
  note cb = m(1-3) and w = mtab_okD [OF base_okD(3) [OF s1(2)], of i, unfolded m(1,2), OF i(1)]
  have qo: "ques s2 (QMtx j) = ques s1 (QMtx j)" if "j \<noteq> i" for j by (rule touches_ques [OF s2(4)]) (use that in simp_all)
  have qi: "set (ques s2 (QMtx i)) = insert t (set (ques s1 (QMtx i)))"
    using arg_cong [OF s2(8), of "\<lambda>ws. fst ` set ws"] by (simp add: set_join) (metis waiters_tasks list.set_map)
  have wf2: "mtx_wf i (mtxcb s i, waiters s2 (QMtx i))"
  proof -
    have "\<forall>x\<in>set (waiters s2 (QMtx i)). mtx_waiter (mtxcb s i) x"
      using w i(2) h by (auto simp: s2(8) cb set_join mtx_waiter_def mtx_proto_def)
    moreover have "sorted (map waiter_pri (waiters s2 (QMtx i)))" if "mtxatr (mtxcb s i) AND TA_CEILING \<noteq> TA_TFIFO"
    proof -
      have "sorted (map waiter_pri (waiters s1 (QMtx i)))" using w i(2) that by simp
      from sorted_join [of TA_TPRI, OF _ this] show ?thesis using that unfolding s2(8) by (simp add: mtx_proto_def TA_TPRI_def)
    qed
    ultimately show ?thesis using w i(2) h by simp
  qed
  have "mtab_ok s2"
    by (rule mtab_ok_step [OF base_okD(3) [OF s1(2)] _ _ _ s2(4)]) (use i wf2 in \<open>simp_all add: tab cb del: mtx_wf.simps\<close>)
  moreover have "OK s2" by (rule foreign [OF base_okD(2) [OF s1(2)] s2(3) touches_mono [OF s2(4)]]) (simp add: mtx_heads_def)
  moreover have pl: "placed s2"
    unfolding placed_def
  proof (intro allI impI)
    fix x assume x: "is_wait (state (tcbs s2 x))"
    show "well_placed s2 x"
    proof (cases "x = t")
      case True
      have "INDEX_OBJ (mtxid (mtxcb s i)) = i" using w i(2) by simp
      then show ?thesis using s2(6,7) qi True by (auto simp: well_placed_def cb mtx_wspec_def split: if_splits)
    next
      case False
      then have e: "tcbs s2 x = tcbs s1 x" using s2(9) by simp
      have wp: "well_placed s1 x" using base_okD(4) [OF s1(2)] x unfolding e placed_def by blast
      have "x \<in> set (ques s2 q)" if "wait_place (wspec (tcbs s1 x)) (wid (tcbs s1 x)) = Some q" for q
      proof -
        have q: "x \<in> set (ques s1 q)" "\<not> ready_head q" using wp that by (auto simp: well_placed_def elim: wait_place.elims)
        show ?thesis using q qi touches_ques [OF s2(4) q(2)] by (cases "q = QMtx i") auto
      qed
      then show ?thesis using wp by (simp add: well_placed_def e)
    qed
  qed
  moreover have "mtx_own {} s2"
    using base_okD(5) [OF s1(2)] i(1) qo by (auto simp: mtx_own_def tv tab cb)
  ultimately have b2: "base_ok {} s2" using s2(2) base_okD(6) [OF s1(2)] by (simp add: base_ok_def tv)
  have mc: "mtx_claims s2 j = mtx_claims s1 j" if "j \<noteq> i \<or> mtx_proto s i \<noteq> TA_INHERIT" for j
  proof (cases "mtx_proto s j = TA_INHERIT")
    case True
    then have "j \<noteq> i" using that by auto
    from qo [OF this] show ?thesis by (simp add: mtx_claims_def tab cb mtx_proto_def tv)
  next
    case False
    then show ?thesis by (simp add: mtx_claims_def tab cb mtx_proto_def)
  qed
  have ih: "i \<in> set (mtxlist (tcbs s1 u)) \<longleftrightarrow> u = h" for u
    using base_okD(5) [OF s1(2)] i h by (auto simp: mtx_own_def cb)
  have "pri_ok s2 u" for u
  proof (cases "u = h \<and> ?inh")
    case False
    have "map (mtx_claims s2) (mtxlist (tcbs s1 u)) = map (mtx_claims s1) (mtxlist (tcbs s1 u))"
      by (rule map_cong [OF refl], rule mc) (use False ih [of u] in auto)
    then have "claims s2 u = claims s1 u" unfolding claims_def tv by (simp only:)
    moreover have "pri_ok s1 u" using s1(5,6) False by (cases "u = h") auto
    ultimately show ?thesis by (simp only: pri_ok_def tv)
  next
    case True
    have ci: "set (mtx_claims s2 i) = insert (pri s t) (set (mtx_claims s1 i))"
      using True qi by (simp add: mtx_claims_def tab mtx_proto_def cb tv s1(4) TA_INHERIT_def TA_CEILING_def)
    have "set (claims s2 h) = insert (pri s t) (set (claims s1 h))"
    proof -
      have "(\<Union>j\<in>set (mtxlist (tcbs s1 h)). set (mtx_claims s2 j)) = insert (pri s t) (\<Union>j\<in>set (mtxlist (tcbs s1 h)). set (mtx_claims s1 j))"
        using ih [of h] ci mc by (auto; metis insertE insertI1 insertI2)
      then show ?thesis by (auto simp: claims_def tv)
    qed
    then show ?thesis using s1(6) True by (simp add: pri_ok_iff tv)
  qed
  then have "pri_inv {} s2" using b2 by (simp add: pri_inv_def)
  moreover have "lock_wait oh prid t i tmout h s = Some s2"
    using s2(1) by (simp add: lock_wait_def Let_def s1(1) u_def m(3))
  ultimately show ?thesis using s2(5) qi by auto
qed

lemma tk_loc_mtx_ok:
  assumes inv: "pri_inv {} s" and a: "access_ends prid mid s" and c: "ctxtsk s prid = Some t" "t \<in> set (rdy s)"
  shows "\<exists>e s'. tk_loc_mtx oh prid mid tmout s = Some (e, s') \<and> pri_inv {} s'"
  unfolding tk_loc_mtx_def
proof (rule pri_inv_call [OF inv a])
  let ?i = "INDEX_OBJ mid"
  let ?P = "\<lambda>r. \<exists>e s'. r = Some (e, s') \<and> pri_inv {} s'"
  assume g: "guards [CHECK_MTXID s mid, CHECK_TMOUT tmout, CHECK_DISPATCH prid s] = None" and l: "mtxid (mtxcb s ?i) \<noteq> 0"
  have i: "?i < maxid (mtxtab s)" by (rule mtx_index [OF g])
  have e: "?P (end_critical r s)" for r using pri_inv_end_ex [OF inv, of r] by blast
  have f: "?P (do { s \<leftarrow> lock_free oh t ?i s; end_critical E_OK s })" if "mtxtsk (mtxcb s ?i) = None"
  proof -
    from lock_free_ok [OF inv c(2) i l that] obtain s1 where s1: "lock_free oh t ?i s = Some s1" "pri_inv {} s1" by blast
    show ?thesis using pri_inv_end_ex [OF s1(2), of E_OK] s1(1) by auto
  qed
  have w: "?P (do { s \<leftarrow> lock_wait oh prid t ?i tmout h s; end_critical (wercd (tcbs s t)) s })"
    if "mtxtsk (mtxcb s ?i) = Some h" "h \<noteq> t" for h
  proof -
    from lock_wait_ok [OF inv c i l that] obtain s1 where s1: "lock_wait oh prid t ?i tmout h s = Some s1" "pri_inv {} s1" by blast
    show ?thesis using pri_inv_end_ex [OF s1(2), of "wercd (tcbs s1 t)"] s1(1) by auto
  qed
  show "?P (do {
         t \<leftarrow> ctxtsk s prid;
         if mtxtsk (mtxcb s ?i) = Some t then end_critical E_ILUSE s
         else if mtx_proto s ?i = TA_CEILING \<and> bpriority (tcbs s t) < ceilpri (mtxcb s ?i) then end_critical E_ILUSE s
         else if is_diswai (mtx_gcb s ?i) (tcbs s t) TTW_MTX then end_critical E_DISWAI s
         else (case mtxtsk (mtxcb s ?i) of
             None \<Rightarrow> do { s \<leftarrow> lock_free oh t ?i s; end_critical E_OK s }
           | Some h \<Rightarrow>
               if tmout = TMO_POL then end_critical E_TMOUT s
               else do { s \<leftarrow> lock_wait oh prid t ?i tmout h s; end_critical (wercd (tcbs s t)) s })
       })"
    using c(1) e f w by (auto split: option.split)
qed

text \<open>The remaining calls.\<close>

lemma tk_cre_mtx_ok:
  assumes inv: "pri_inv {} s" and r: "tk_cre_mtx prid pk s = Some (e, s')"
  shows "pri_inv {} s'"
proof -
  let ?ceil = "cmtx_mtxatr pk AND TA_CEILING = TA_CEILING"
  let ?init = "\<lambda>i oid s. upd_mtx i (\<lambda>c. c\<lparr>mtxid := oid, mtx_exinf := cmtx_exinf pk, mtxatr := cmtx_mtxatr pk,
                   ceilpri := (if ?ceil then nat (int_priority (cmtx_ceilpri pk)) else 0), mtxtsk := None\<rparr>) (set_que (QMtx i) [] s)"
  let ?cre = "obj_cre [] prid mtx_ops (cmtx_mtxatr pk) (cmtx_domid pk) (cmtx_oname pk) ?init s"
  have b: "base_ok {} s" and p: "\<And>u. pri_ok s u" using inv by (simp_all add: pri_inv_def)
  have cp: "?ceil \<longrightarrow> nat (int_priority (cmtx_ceilpri pk)) < NUM_PRI" if "s' \<noteq> s"
    using r that by (auto simp: tk_cre_mtx_def Let_def guards_None CHECK_PRI_def CHK_PRI_def int_priority_def MIN_PRI_def MAX_PRI_def NUM_PRI_def
        split: option.splits if_splits)
  have c: "s' = s \<or> ?cre = Some (e, s')"
    using r by (auto simp: tk_cre_mtx_def Let_def split: option.splits)
  show ?thesis
  proof (cases "s' = s")
    case True
    with inv show ?thesis by simp
  next
    case False
    with c have cre: "?cre = Some (e, s')" by blast
    have km: "kinv s' \<and> mtab_ok s'"
    proof (rule mtx_tab.obj_cre_ok [OF cre base_okD(1,3) [OF b]])
      fix i oid u
      assume u: "kinv u" "mtx_wf i (mtx_view u i)" "mtxid (fst (mtx_view u i)) = 0" "INDEX_OBJ oid = i" "oid \<noteq> 0"
      have q: "ques u (QMtx i) = []" "waiters u (QMtx i) = []" using u(2,3) by (simp_all add: mtx_view_def)
      have s: "set_que (QMtx i) [] u = u" by (rule set_que_same [OF q(1)])
      show "mtx_tab.step_on i u (?init i oid u)"
        unfolding s using u(1,4,5) q cp [OF False] NUM_PRI_def by (simp add: mtx_tab.step_on_def mtx_view_def waiters_def)
    qed
    from cre show ?thesis
    proof (cases rule: obj_cre_cases)
      case 1
      with False show ?thesis by simp
    next
      case (2 i q dom nm oid)
      have i: "i < maxid (mtxtab s)" "mtxid (mtxcb s i) = 0"
        using base_okD(3) [OF b] 2(2) by (auto simp: mtx_tab.table_ok_def mtx_view_def)
      have q0: "ques s (QMtx i) = []" using mtab_okD [OF base_okD(3) [OF b] i(1)] i(2) by simp
      define s1 where "s1 = oo_set_name mtx_ops i (name_copy nm) (?init i oid (oo_set_free mtx_ops q s))"
      have s': "s' = mp_register_object_in_domain dom OT_MTX (INDEX_OBJ oid) nm s1" using 2(5) by (simp add: s1_def)
      have sq: "set_que (QMtx i) [] (set_free_mtx q s) = set_free_mtx q s" by (rule set_que_same) (simp add: q0)
      have e1: "s1 = upd_mtx i (\<lambda>c. c\<lparr>mtx_oname := name_copy nm\<rparr>) (upd_mtx i (\<lambda>c. c\<lparr>mtxid := oid, mtx_exinf := cmtx_exinf pk,
          mtxatr := cmtx_mtxatr pk, ceilpri := (if ?ceil then nat (int_priority (cmtx_ceilpri pk)) else 0), mtxtsk := None\<rparr>) (set_free_mtx q s))"
        unfolding s1_def mtx_ops_sel sq by (simp add: mtx_ops_def)
      have sel: "tcbs s' = tcbs s" "ques s' = ques s" "maxid (mtxtab s') = maxid (mtxtab s)" "\<And>j. j \<noteq> i \<Longrightarrow> mtxcb s' j = mtxcb s j"
        "mtxtsk (mtxcb s' i) = None"
        by (simp_all add: s' e1 mtxcb_def) (simp_all add: upd_mtx_def set_free_mtx_def mtxcb_def)
      have "OK s'" unfolding s' e1 upd_mtx_def set_free_mtx_def by (intro OK_register(1) foreign_mtx base_okD(2) [OF b])
      moreover have own: "mtx_own {} s'"
      proof -
        have "{j. j < maxid (mtxtab s) \<and> mtxid (mtxcb s' j) \<noteq> 0 \<and> mtxtsk (mtxcb s' j) = Some h} =
            {j. j < maxid (mtxtab s) \<and> mtxid (mtxcb s j) \<noteq> 0 \<and> mtxtsk (mtxcb s j) = Some h}" for h
          using sel(4,5) i(2) by (auto; metis option.distinct(1))
        then show ?thesis using base_okD(5) [OF b] by (simp add: mtx_own_def sel(1-3))
      qed
      moreover have "placed s'" using base_okD(4) [OF b] by (simp add: placed_def well_placed_def sel)
      ultimately have "base_ok {} s'" using km b by (simp add: base_ok_def sel)
      moreover have "pri_ok s' u" for u
      proof -
        have "i \<notin> set (mtxlist (tcbs s u))" using base_okD(5) [OF b] i(2) by (simp add: mtx_own_def)
        then have "map (mtx_claims s') (mtxlist (tcbs s u)) = map (mtx_claims s) (mtxlist (tcbs s u))"
          by (intro map_cong refl) (metis mtx_claims_def mtx_proto_def sel(1,2,4))
        then show ?thesis using p [of u] by (simp only: pri_ok_def claims_def sel(1))
      qed
      ultimately show ?thesis by (simp add: pri_inv_def)
    qed
  qed
qed

end

end
