(* ===== verification/Hooks.thy ===== *)
theory Hooks
  imports Hook_Steps Eventflag Mailbox Mempfix Mempool Messagebuf Rendezvous Semaphore Mutex_Calls
begin

text \<open>
  The hooks of the object modules, which the \<open>WSPEC\<close>s point to, put together: \<open>chg_pri_hooks\<close> is the
  argument of \<open>change_task_priority\<close>. \<open>objs_ok\<close> gathers the invariants of the modules, and
  the interpretation of \<open>pri_hooks\<close> gives all results on mutexes for the kernel as it is.
\<close>

section \<open>The hooks\<close>

fun chg_pri_hooks :: "hook \<Rightarrow> nat \<Rightarrow> int \<Rightarrow> kstate \<Rightarrow> kstate option" where
  "chg_pri_hooks Sem_chg_pri t old s = Some (sem_chg_pri t old s)"
| "chg_pri_hooks Flg_chg_pri t old s = Some (flg_chg_pri t old s)"
| "chg_pri_hooks Mbx_chg_pri t old s = Some (mbx_chg_pri t old s)"
| "chg_pri_hooks Mpf_chg_pri t old s = Some (mpf_chg_pri t old s)"
| "chg_pri_hooks Cal_chg_pri t old s = Some (cal_chg_pri t old s)"
| "chg_pri_hooks Mbf_chg_pri t old s = mbf_chg_pri t old s"
| "chg_pri_hooks Mpl_chg_pri t old s = mpl_chg_pri t old s"
| "chg_pri_hooks _ t old s = None"

text \<open>The hooks called when a task leaves its wait without being served.\<close>

fun rel_wai_hooks :: "hook \<Rightarrow> nat \<Rightarrow> kstate \<Rightarrow> kstate option" where
  "rel_wai_hooks Sem_rel_wai t s = Some (sem_rel_wai t s)"
| "rel_wai_hooks Mtx_rel_wai t s = mtx_rel_wai chg_pri_hooks t s"
| "rel_wai_hooks Mbf_rel_wai t s = mbf_rel_wai t s"
| "rel_wai_hooks Mpl_rel_wai t s = mpl_rel_wai t s"
| "rel_wai_hooks _ t s = None"

section \<open>The invariants of the modules\<close>

text \<open>
  A queue that belongs to no object. The pools of \<^verbatim>\<open>mempool.c\<close> keep their bookkeeping in memory the tasks can write,
  so there is no invariant for them here: the results below are for states where no task waits for such a pool.
\<close>

fun stray :: "kstate \<Rightarrow> qhead \<Rightarrow> bool" where
  "stray s (QSem i) \<longleftrightarrow> maxid (semtab s) \<le> i"
| "stray s (QFlg i) \<longleftrightarrow> maxid (flgtab s) \<le> i"
| "stray s (QMbx i) \<longleftrightarrow> maxid (mbxtab s) \<le> i"
| "stray s (QMpf i) \<longleftrightarrow> maxid (mpftab (ko s)) \<le> i"
| "stray s (QMpl i) \<longleftrightarrow> True"
| "stray s (QSmbf i) \<longleftrightarrow> maxid (mbftab (ko s)) \<le> i"
| "stray s (QRmbf i) \<longleftrightarrow> maxid (mbftab (ko s)) \<le> i"
| "stray s (QCal i) \<longleftrightarrow> maxid (portab (ko s)) \<le> i"
| "stray s (QAcp i) \<longleftrightarrow> maxid (portab (ko s)) \<le> i"
| "stray s _ \<longleftrightarrow> False"

definition no_stray :: "kstate \<Rightarrow> bool" where
  "no_stray s \<longleftrightarrow> (\<forall>q. stray s q \<longrightarrow> ques s q = [])"

lemma stray_not_ready: "stray s q \<Longrightarrow> \<not> ready_head q"
  by (cases q) auto

lemma no_strayD: "no_stray s \<Longrightarrow> t \<in> set (ques s q) \<Longrightarrow> \<not> stray s q"
  by (auto simp: no_stray_def)

lemma no_stray_step:
  assumes "no_stray s" and "\<And>q. stray s' q \<longleftrightarrow> stray s q" and "touches Q s s'" and "\<And>q. q \<in> Q \<Longrightarrow> \<not> stray s q"
  shows "no_stray s'"
  unfolding no_stray_def
proof (intro allI impI)
  fix q assume q: "stray s' q"
  then have s: "stray s q" using assms(2) by simp
  then have "ques s' q = ques s q" using touches_ques [OF assms(3) stray_not_ready] assms(4) by blast
  then show "ques s' q = []" using s assms(1) by (simp add: no_stray_def)
qed

definition objs_ok :: "kstate \<Rightarrow> bool" where
  "objs_ok s \<longleftrightarrow> sems_ok s \<and> flgs_ok s \<and> mbxs_ok s \<and> mpfs_ok s \<and> mbfs_ok s \<and> pors_ok s \<and> no_stray s"

text \<open>Each of them survives a step of another module.\<close>

lemma flgs_elsewhere: "flgs_ok s \<Longrightarrow> flgtab s' = flgtab s \<Longrightarrow> touches Q s s' \<Longrightarrow> (\<And>i. QFlg i \<notin> Q) \<Longrightarrow> flgs_ok s'"
  using flg_tab.table_ok_foreign [of s s' Q] by (simp add: flg_agree_def)

lemma mpfs_elsewhere: "mpfs_ok s \<Longrightarrow> mpftab (ko s') = mpftab (ko s) \<Longrightarrow> touches Q s s' \<Longrightarrow> (\<And>i. QMpf i \<notin> Q) \<Longrightarrow> mpfs_ok s'"
  using mpf_tab.table_ok_foreign [of s s' Q] by (simp add: mpf_agree_def)

lemma mbfs_elsewhere:
  "mbfs_ok s \<Longrightarrow> mbftab (ko s') = mbftab (ko s) \<Longrightarrow> touches Q s s' \<Longrightarrow> (\<And>i. QSmbf i \<notin> Q \<and> QRmbf i \<notin> Q) \<Longrightarrow> mbfs_ok s'"
  using mbf_tab.table_ok_foreign [of s s' Q] by (simp add: mbf_agree_def)

lemma pors_elsewhere:
  "pors_ok s \<Longrightarrow> portab (ko s') = portab (ko s) \<Longrightarrow> touches Q s s' \<Longrightarrow> (\<And>i. QCal i \<notin> Q \<and> QAcp i \<notin> Q) \<Longrightarrow> pors_ok s'"
  using por_tab.table_ok_foreign [of s s' Q] by (simp add: por_agree_def)

lemma mbxs_elsewhere:
  assumes ok: "mbxs_ok s" and t: "mbxtab s' = mbxtab s" "msgs s' = msgs s" and q: "touches Q s s'" "\<And>i. QMbx i \<notin> Q"
  shows "mbxs_ok s'"
proof -
  have "mbx_agree s s'" using t by (simp add: mbx_agree_def)
  then have "mbx_tab.table_ok s'" using mbx_tab.table_ok_foreign [OF _ q(1)] q(2) ok by (simp add: mbxs_ok_def)
  moreover have "msgs_of s' i = msgs_of s i" for i by (simp only: msgs_of_def mq_def mbxcb_def t)
  ultimately show ?thesis using ok t(1) by (simp add: mbxs_ok_def msgs_apart_def)
qed

lemma stray_tables:
  assumes "semtab s' = semtab s" "flgtab s' = flgtab s" "mbxtab s' = mbxtab s" "ko s' = ko s"
  shows "stray s' q \<longleftrightarrow> stray s q"
  using assms by (cases q) auto

lemma objs_ok_foreign:
  assumes ok: "objs_ok s" and t: "semtab s' = semtab s" "flgtab s' = flgtab s" "mbxtab s' = mbxtab s" "msgs s' = msgs s" "ko s' = ko s"
    and q: "touches Q s s'" "\<And>i. QSem i \<notin> Q \<and> QFlg i \<notin> Q \<and> QMbx i \<notin> Q \<and> QMpf i \<notin> Q \<and> QSmbf i \<notin> Q \<and> QRmbf i \<notin> Q \<and> QCal i \<notin> Q \<and> QAcp i \<notin> Q"
      "\<And>q. q \<in> Q \<Longrightarrow> \<not> stray s q"
  shows "objs_ok s'"
  unfolding objs_ok_def
proof (intro conjI)
  note o = ok [unfolded objs_ok_def]
  show "sems_ok s'" using sems_ok_foreign [OF t(1) q(1)] q(2) o by blast
  show "flgs_ok s'" by (rule flgs_elsewhere [OF _ t(2) q(1)]) (use o q(2) in auto)
  show "mbxs_ok s'" by (rule mbxs_elsewhere [OF _ t(3,4) q(1)]) (use o q(2) in auto)
  show "mpfs_ok s'" by (rule mpfs_elsewhere [OF _ _ q(1)]) (use o q(2) t(5) in auto)
  show "mbfs_ok s'" by (rule mbfs_elsewhere [OF _ _ q(1)]) (use o q(2) t(5) in auto)
  show "pors_ok s'" by (rule pors_elsewhere [OF _ _ q(1)]) (use o q(2) t(5) in auto)
  show "no_stray s'" by (rule no_stray_step [OF _ stray_tables [OF t(1-3,5)] q(1,3)]) (use o in simp)
qed

section \<open>A waiting task without a hook\<close>

lemma sem_repri: "sems_ok s \<Longrightarrow> sems_ok (upd_tcb t (\<lambda>c. c\<lparr>priority := p\<rparr>) s)"
proof -
  have "sem_inv (upd_tcb t (\<lambda>c. c\<lparr>priority := p\<rparr>) s) i \<longleftrightarrow> sem_inv s i" for i
    by (rule sem_same_inv) (simp add: sem_same_def semcb_def)
  then show "sems_ok s \<Longrightarrow> sems_ok (upd_tcb t (\<lambda>c. c\<lparr>priority := p\<rparr>) s)" by (simp add: sems_ok_def semcb_def)
qed

text \<open>In the following tables, the queue \<open>t\<close> is in is in the order of arrival.\<close>

lemma flg_repri:
  assumes ok: "flgs_ok s" and n: "\<And>i. i < maxid (flgtab s) \<Longrightarrow> t \<in> set (ques s (QFlg i)) \<Longrightarrow> wspec (tcbs s t) \<noteq> Wspec_flg_tpri"
  shows "flgs_ok (upd_tcb t (\<lambda>c. c\<lparr>priority := p\<rparr>) s)"
proof -
  have "flg_wf i (flgcb s i, repri t p (waiters s (QFlg i)))" if i: "i < maxid (flgtab s)" for i
  proof (rule repri_wf [where W = "\<lambda>ws. flg_wf i (flgcb s i, ws)", OF _ flgs_okD [OF ok i]])
    assume "t \<in> fst ` set (waiters s (QFlg i))"
    then have t: "(t, wview (tcbs s t)) \<in> set (waiters s (QFlg i))" by (auto simp: waiters_def)
    then have "wspec (tcbs s t) \<noteq> Wspec_flg_tpri" using n [OF i] by (auto simp: waiters_def)
    then show "flg_wf i (flgcb s i, repri t p (waiters s (QFlg i)))"
      using flgs_okD [OF ok i] t by (auto simp: set_repri flg_waiter_def wview_def)
  qed
  then show ?thesis
    using ok by (simp add: flg_tab.table_ok_def flg_view_def waiters_repri flgcb_def del: flg_wf.simps)
qed

lemma mpf_repri:
  assumes ok: "mpfs_ok s" and n: "\<And>i. i < maxid (mpftab (ko s)) \<Longrightarrow> t \<in> set (ques s (QMpf i)) \<Longrightarrow> wspec (tcbs s t) \<noteq> Wspec_mpf_tpri"
  shows "mpfs_ok (upd_tcb t (\<lambda>c. c\<lparr>priority := p\<rparr>) s)"
proof -
  have "mpf_wf i (mpfcb s i, repri t p (waiters s (QMpf i)))" if i: "i < maxid (mpftab (ko s))" for i
  proof (rule repri_wf [where W = "\<lambda>ws. mpf_wf i (mpfcb s i, ws)", OF _ mpfs_okD [OF ok i]])
    assume "t \<in> fst ` set (waiters s (QMpf i))"
    then have t: "(t, wview (tcbs s t)) \<in> set (waiters s (QMpf i))" by (auto simp: waiters_def)
    then have "wspec (tcbs s t) \<noteq> Wspec_mpf_tpri" using n [OF i] by (auto simp: waiters_def)
    then show "mpf_wf i (mpfcb s i, repri t p (waiters s (QMpf i)))"
      using mpfs_okD [OF ok i] t by (auto simp: set_repri mpf_waiter_def wview_def)
  qed
  then show ?thesis
    using ok by (simp add: mpf_tab.table_ok_def mpf_view_def waiters_repri mpfcb_def del: mpf_wf.simps)
qed

lemma repri_waiters [simp]:
  "(\<forall>w\<in>set (repri t p ws). snd_waiter c w) \<longleftrightarrow> (\<forall>w\<in>set ws. snd_waiter c w)"
  "(\<forall>w\<in>set (repri t p ws). rcv_waiter c w) \<longleftrightarrow> (\<forall>w\<in>set ws. rcv_waiter c w)"
  "(\<forall>w\<in>set (repri t p ws). cal_waiter d w) \<longleftrightarrow> (\<forall>w\<in>set ws. cal_waiter d w)"
  "(\<forall>w\<in>set (repri t p ws). acp_waiter d w) \<longleftrightarrow> (\<forall>w\<in>set ws. acp_waiter d w)"
  "(\<forall>w\<in>set (repri t p ws). unmatched x w) \<longleftrightarrow> (\<forall>w\<in>set ws. unmatched x w)"
  "(\<forall>w\<in>set (repri t p ws). \<forall>a\<in>A. unmatched w a) \<longleftrightarrow> (\<forall>w\<in>set ws. \<forall>a\<in>A. unmatched w a)"
  by (simp_all add: set_repri snd_waiter_def rcv_waiter_def cal_waiter_def acp_waiter_def unmatched_def split_def)

lemma settled_repri: "mbf_settled c (repri t p ws) \<longleftrightarrow> mbf_settled c ws"
  by (cases ws) (auto simp: repri_def mbf_settled_def)

lemma mbf_repri:
  assumes ok: "mbfs_ok s" and n: "\<And>i. i < maxid (mbftab (ko s)) \<Longrightarrow> t \<in> set (ques s (QSmbf i)) \<Longrightarrow> wspec (tcbs s t) \<noteq> Wspec_smbf_tpri"
  shows "mbfs_ok (upd_tcb t (\<lambda>c. c\<lparr>priority := p\<rparr>) s)"
proof -
  have "mbf_wf i (mbfcb s i, repri t p (waiters s (QSmbf i)), repri t p (waiters s (QRmbf i)))" if i: "i < maxid (mbftab (ko s))" for i
  proof -
    have "mbf_wf i (mbfcb s i, repri t p (waiters s (QSmbf i)), waiters s (QRmbf i))"
    proof (rule repri_wf [where W = "\<lambda>ws. mbf_wf i (mbfcb s i, ws, waiters s (QRmbf i))", OF _ mbfs_okD [OF ok i]])
      assume "t \<in> fst ` set (waiters s (QSmbf i))"
      then have t: "(t, wview (tcbs s t)) \<in> set (waiters s (QSmbf i))" by (auto simp: waiters_def)
      then have "wspec (tcbs s t) \<noteq> Wspec_smbf_tpri" using n [OF i] by (auto simp: waiters_def)
      moreover have "mbfid (mbfcb s i) \<noteq> 0 \<Longrightarrow> snd_waiter (mbfcb s i) (t, wview (tcbs s t))" using mbfs_okD [OF ok i] t by (auto simp: mbf_wf_def)
      ultimately have "mbfid (mbfcb s i) \<noteq> 0 \<Longrightarrow> mbfatr (mbfcb s i) AND TA_TPRI = 0" by (auto simp: snd_waiter_def wview_def split: if_splits)
      then show "mbf_wf i (mbfcb s i, repri t p (waiters s (QSmbf i)), waiters s (QRmbf i))"
        using mbfs_okD [OF ok i] by (cases "mbfid (mbfcb s i) = 0") (simp_all add: mbf_wf_def settled_repri mbf_settled_def [of _ "[]"] del: waiters_Nil)
    qed
    moreover have "mbf_wf i (c, ss, rs) \<Longrightarrow> mbf_wf i (c, ss, repri t p rs)" for c ss rs
      by (cases "mbfid c = 0") (simp_all add: mbf_wf_def mbf_settled_def)
    ultimately show ?thesis by blast
  qed
  then show ?thesis
    using ok by (simp add: mbf_tab.table_ok_def mbf_view_def waiters_repri mbfcb_def)
qed

lemma por_repri:
  assumes ok: "pors_ok s" and n: "\<And>i. i < maxid (portab (ko s)) \<Longrightarrow> t \<in> set (ques s (QCal i)) \<Longrightarrow> wspec (tcbs s t) \<noteq> Wspec_cal_tpri"
  shows "pors_ok (upd_tcb t (\<lambda>c. c\<lparr>priority := p\<rparr>) s)"
proof -
  have "por_wf i (porcb s i, repri t p (waiters s (QCal i)), repri t p (waiters s (QAcp i)))" if i: "i < maxid (portab (ko s))" for i
  proof -
    have "por_wf i (porcb s i, repri t p (waiters s (QCal i)), waiters s (QAcp i))"
    proof (rule repri_wf [where W = "\<lambda>ws. por_wf i (porcb s i, ws, waiters s (QAcp i))", OF _ pors_okD [OF ok i]])
      assume "t \<in> fst ` set (waiters s (QCal i))"
      then have t: "(t, wview (tcbs s t)) \<in> set (waiters s (QCal i))" by (auto simp: waiters_def)
      then have "wspec (tcbs s t) \<noteq> Wspec_cal_tpri" using n [OF i] by (auto simp: waiters_def)
      moreover have "porid (porcb s i) \<noteq> 0 \<Longrightarrow> cal_waiter (porcb s i) (t, wview (tcbs s t))" using pors_okD [OF ok i] t by auto
      ultimately have "porid (porcb s i) \<noteq> 0 \<Longrightarrow> poratr (porcb s i) AND TA_TPRI = 0" by (auto simp: cal_waiter_def wview_def split: if_splits)
      then show "por_wf i (porcb s i, repri t p (waiters s (QCal i)), waiters s (QAcp i))"
        using pors_okD [OF ok i] by (simp del: waiters_Nil)
    qed
    then show ?thesis by simp
  qed
  then show ?thesis
    using ok by (simp add: por_tab.table_ok_def por_view_def waiters_repri porcb_def del: por_wf.simps)
qed

lemma mbx_repri:
  assumes ok: "mbxs_ok s" and n: "\<And>i. i < maxid (mbxtab s) \<Longrightarrow> t \<in> set (ques s (QMbx i)) \<Longrightarrow> wspec (tcbs s t) \<noteq> Wspec_mbx_tpri"
  shows "mbxs_ok (upd_tcb t (\<lambda>c. c\<lparr>priority := p\<rparr>) s)"
proof -
  let ?s = "upd_tcb t (\<lambda>c. c\<lparr>priority := p\<rparr>) s"
  have m: "mq ?s i = mq s i" "mbxcb ?s i = mbxcb s i" for i by (simp_all add: mq_def mbxcb_def)
  have "mbx_wf i (mbxcb s i, repri t p (waiters s (QMbx i)), mq s i)" if i: "i < maxid (mbxtab s)" for i
  proof (rule repri_wf [where W = "\<lambda>ws. mbx_wf i (mbxcb s i, ws, mq s i)", OF _ mbxs_okD [OF ok i]])
    assume "t \<in> fst ` set (waiters s (QMbx i))"
    then have t: "(t, wview (tcbs s t)) \<in> set (waiters s (QMbx i))" by (auto simp: waiters_def)
    then have "wspec (tcbs s t) \<noteq> Wspec_mbx_tpri" using n [OF i] by (auto simp: waiters_def)
    then show "mbx_wf i (mbxcb s i, repri t p (waiters s (QMbx i)), mq s i)"
      using mbxs_okD [OF ok i] t by (auto simp: set_repri mbx_waiter_def wview_def)
  qed
  then have "mbx_wf i (mbxcb s i, repri t p (waiters s (QMbx i)), if mbxid (mbxcb s i) = 0 then None else mq s i)"
    if "i < maxid (mbxtab s)" for i using that by fastforce
  moreover have "mbx_view ?s i = (mbxcb s i, repri t p (waiters s (QMbx i)), if mbxid (mbxcb s i) = 0 then None else mq s i)" for i
    by (simp only: mbx_view_def m waiters_repri)
  ultimately have "mbx_tab.table_ok ?s"
    using ok by (simp add: mbxs_ok_def mbx_tab.table_ok_def m del: mbx_wf.simps split del: if_split) (simp add: mbx_view_def)
  moreover have "msgs_of ?s = msgs_of s" by (simp add: msgs_of_def m fun_eq_iff)
  ultimately show ?thesis using ok by (simp add: mbxs_ok_def msgs_apart_def)
qed

lemma objs_repri:
  assumes ok: "objs_ok s" and n: "chg_pri_hook (wspec_at (wspec (tcbs s t))) = None"
  shows "objs_ok (upd_tcb t (\<lambda>c. c\<lparr>priority := p\<rparr>) s)"
proof -
  let ?s = "upd_tcb t (\<lambda>c. c\<lparr>priority := p\<rparr>) s"
  have "wspec (tcbs s t) \<notin> {Wspec_flg_tpri, Wspec_mbx_tpri, Wspec_mpf_tpri, Wspec_smbf_tpri, Wspec_cal_tpri}" using n by auto
  then have "flgs_ok ?s" "mbxs_ok ?s" "mpfs_ok ?s" "mbfs_ok ?s" "pors_ok ?s"
    using ok by (auto simp: objs_ok_def intro!: flg_repri mbx_repri mpf_repri mbf_repri por_repri)
  moreover have "sems_ok ?s" by (rule sem_repri) (use ok in \<open>simp add: objs_ok_def\<close>)
  moreover have "stray ?s q \<longleftrightarrow> stray s q" for q by (rule stray_tables) simp_all
  then have "no_stray ?s" using ok by (simp add: objs_ok_def no_stray_def)
  ultimately show ?thesis by (simp add: objs_ok_def)
qed

section \<open>The hooks keep the invariants\<close>

lemma hook_queue:
  assumes "objs_ok s" and "placed s" and "is_wait (state (tcbs s t))" and "wait_place (wspec (tcbs s t)) (wid (tcbs s t)) = Some q"
  shows "t \<in> set (ques s q)" and "\<not> stray s q"
proof -
  show t: "t \<in> set (ques s q)" by (rule placedD [OF assms(2-4)])
  show "\<not> stray s q" by (rule no_strayD [OF _ t]) (use assms(1) in \<open>simp add: objs_ok_def\<close>)
qed

text \<open>A hook that only moves the task within its queue \<open>q\<close>; \<open>S\<close> is the invariant of its module.\<close>

lemma move_hook:
  assumes k: "kinv s" and ok: "objs_ok s" and pl: "placed s" and h: "wait_head q" and n: "\<And>i. q \<noteq> QMtx i"
    and t: "t \<in> set (ques s q)" "\<not> stray s q" and p: "p < NUM_PRI" and g: "wait_queue gcb = q"
  defines "s1 \<equiv> gcb_change_priority gcb t (upd_tcb t (\<lambda>c. c\<lparr>priority := p\<rparr>) s)"
  assumes m: "\<And>i. q = QSem i \<Longrightarrow> sems_ok s1" "\<And>i. q = QFlg i \<Longrightarrow> flgs_ok s1" "\<And>i. q = QMbx i \<Longrightarrow> mbxs_ok s1" "\<And>i. q = QMpf i \<Longrightarrow> mpfs_ok s1"
    "\<And>i. q = QCal i \<Longrightarrow> pors_ok s1" and nb: "\<And>i. q \<noteq> QSmbf i \<and> q \<noteq> QRmbf i \<and> q \<noteq> QAcp i"
  shows "objs_ok s1" and "chg_ok t p s s1" and "waiters s1 (QMtx j) = waiters s (QMtx j)"
proof -
  note r = reorder_chg_ok [OF k pl, of gcb t p, folded s1_def, unfolded g, OF h t(1) p]
  show "chg_ok t p s s1" by (rule r)
  show "waiters s1 (QMtx j) = waiters s (QMtx j)"
    by (rule touchesD [OF r(2)]) (use n in \<open>auto simp: ready_head_def\<close>)
  have o: "semtab s1 = semtab s" "flgtab s1 = flgtab s" "mbxtab s1 = mbxtab s" "msgs s1 = msgs s" "ko s1 = ko s"
    using r(3) by (simp_all add: objs_same_def)
  note i = ok [unfolded objs_ok_def]
  show "objs_ok s1"
    unfolding objs_ok_def
  proof (intro conjI)
    show "sems_ok s1" by (cases "\<exists>i. q = QSem i") (use m(1) sems_ok_foreign [OF o(1) r(2)] i in auto)
    show "flgs_ok s1" by (cases "\<exists>i. q = QFlg i") (use m(2) flgs_elsewhere [OF _ o(2) r(2)] i in auto)
    show "mbxs_ok s1" by (cases "\<exists>i. q = QMbx i") (use m(3) mbxs_elsewhere [OF _ o(3,4) r(2)] i in auto)
    show "mpfs_ok s1" by (cases "\<exists>i. q = QMpf i") (use m(4) mpfs_elsewhere [OF _ _ r(2)] o(5) i in auto)
    show "mbfs_ok s1" by (rule mbfs_elsewhere [OF _ _ r(2)]) (use o(5) i nb in auto)
    show "pors_ok s1" by (cases "\<exists>i. q = QCal i") (use m(5) pors_elsewhere [OF _ _ r(2)] o(5) i nb in auto)
    show "no_stray s1" by (rule no_stray_step [OF _ stray_tables [OF o(1-3,5)] r(2)]) (use i t(2) in auto)
  qed
qed

lemma flg_hook_ok:
  assumes k: "kinv s" and ok: "objs_ok s" and pl: "placed s" and w: "is_wait (state (tcbs s t))" and p: "p < NUM_PRI"
    and sp: "wspec (tcbs s t) = Wspec_flg_tpri" and s1: "s1 = flg_chg_pri t old (upd_tcb t (\<lambda>c. c\<lparr>priority := p\<rparr>) s)"
  shows "objs_ok s1 \<and> chg_ok t p s s1 \<and> (\<forall>j. waiters s1 (QMtx j) = waiters s (QMtx j))"
proof -
  define i where "i = INDEX_OBJ (wid (tcbs s t))"
  note q = hook_queue [OF ok pl w, of "QFlg i", unfolded sp, simplified, OF i_def [symmetric]]
  have fo: "flgs_ok s" using ok by (simp add: objs_ok_def)
  have ix: "i < maxid (flgtab s)" using q(2) by simp
  have "flg_waiter (flgcb s i) (t, wview (tcbs s t))"
    using flgs_okD [OF fo ix] q(1) by (auto simp: waiters_def split: if_splits)
  then have a: "flgatr (flgcb s i) AND TA_TPRI \<noteq> 0" using sp by (auto simp: flg_waiter_def wview_def)
  have e: "s1 = gcb_change_priority (flg_gcb s i) t (upd_tcb t (\<lambda>c. c\<lparr>priority := p\<rparr>) s)"
    by (simp add: s1 flg_chg_pri_def i_def flg_gcb_def flgcb_def)
  have "flgs_ok s1" unfolding s1 by (rule flg_chg_pri_ok [OF k fo ix q(1) p a])
  then show ?thesis
    using move_hook [OF k ok pl, of "QFlg i" t p "flg_gcb s i", folded e] q ix p by (simp add: flg_gcb_def)
qed

lemma mbx_hook_ok:
  assumes k: "kinv s" and ok: "objs_ok s" and pl: "placed s" and w: "is_wait (state (tcbs s t))" and p: "p < NUM_PRI"
    and sp: "wspec (tcbs s t) = Wspec_mbx_tpri" and s1: "s1 = mbx_chg_pri t old (upd_tcb t (\<lambda>c. c\<lparr>priority := p\<rparr>) s)"
  shows "objs_ok s1 \<and> chg_ok t p s s1 \<and> (\<forall>j. waiters s1 (QMtx j) = waiters s (QMtx j))"
proof -
  define i where "i = INDEX_OBJ (wid (tcbs s t))"
  note q = hook_queue [OF ok pl w, of "QMbx i", unfolded sp, simplified, OF i_def [symmetric]]
  have fo: "mbxs_ok s" using ok by (simp add: objs_ok_def)
  have ix: "i < maxid (mbxtab s)" using q(2) by simp
  have "mbx_waiter (mbxcb s i) (t, wview (tcbs s t))"
    using mbxs_okD [OF fo ix] q(1) by (auto simp: waiters_def split: if_splits)
  then have a: "mbxatr (mbxcb s i) AND TA_TPRI \<noteq> 0" using sp by (auto simp: mbx_waiter_def wview_def)
  have e: "s1 = gcb_change_priority (mbx_gcb s i) t (upd_tcb t (\<lambda>c. c\<lparr>priority := p\<rparr>) s)"
    by (simp add: s1 mbx_chg_pri_def i_def mbx_gcb_def mbxcb_def)
  have "mbxs_ok s1" unfolding s1 by (rule mbx_chg_pri_ok [OF k fo ix q(1) p a])
  then show ?thesis
    using move_hook [OF k ok pl, of "QMbx i" t p "mbx_gcb s i", folded e] q ix p by (simp add: mbx_gcb_def)
qed

lemma mpf_hook_ok:
  assumes k: "kinv s" and ok: "objs_ok s" and pl: "placed s" and w: "is_wait (state (tcbs s t))" and p: "p < NUM_PRI"
    and sp: "wspec (tcbs s t) = Wspec_mpf_tpri" and s1: "s1 = mpf_chg_pri t old (upd_tcb t (\<lambda>c. c\<lparr>priority := p\<rparr>) s)"
  shows "objs_ok s1 \<and> chg_ok t p s s1 \<and> (\<forall>j. waiters s1 (QMtx j) = waiters s (QMtx j))"
proof -
  define i where "i = INDEX_OBJ (wid (tcbs s t))"
  note q = hook_queue [OF ok pl w, of "QMpf i", unfolded sp, simplified, OF i_def [symmetric]]
  have fo: "mpfs_ok s" using ok by (simp add: objs_ok_def)
  have ix: "i < maxid (mpftab (ko s))" using q(2) by simp
  have "mpf_waiter (mpfcb s i) (t, wview (tcbs s t))"
    using mpfs_okD [OF fo ix] q(1) by (auto simp: waiters_def split: if_splits)
  then have a: "mpfatr (mpfcb s i) AND TA_TPRI \<noteq> 0" using sp by (auto simp: mpf_waiter_def wview_def)
  have e: "s1 = gcb_change_priority (mpf_gcb s i) t (upd_tcb t (\<lambda>c. c\<lparr>priority := p\<rparr>) s)"
    by (simp add: s1 mpf_chg_pri_def i_def mpf_gcb_def mpfcb_def)
  have "mpfs_ok s1" unfolding s1 by (rule mpf_chg_pri_ok [OF k fo ix q(1) p a])
  then show ?thesis
    using move_hook [OF k ok pl, of "QMpf i" t p "mpf_gcb s i", folded e] q ix p by (simp add: mpf_gcb_def)
qed

lemma cal_hook_ok:
  assumes k: "kinv s" and ok: "objs_ok s" and pl: "placed s" and w: "is_wait (state (tcbs s t))" and p: "p < NUM_PRI"
    and sp: "wspec (tcbs s t) = Wspec_cal_tpri" and s1: "s1 = cal_chg_pri t old (upd_tcb t (\<lambda>c. c\<lparr>priority := p\<rparr>) s)"
  shows "objs_ok s1 \<and> chg_ok t p s s1 \<and> (\<forall>j. waiters s1 (QMtx j) = waiters s (QMtx j))"
proof -
  define i where "i = INDEX_OBJ (wid (tcbs s t))"
  note q = hook_queue [OF ok pl w, of "QCal i", unfolded sp, simplified, OF i_def [symmetric]]
  have fo: "pors_ok s" using ok by (simp add: objs_ok_def)
  have ix: "i < maxid (portab (ko s))" using q(2) by simp
  have "cal_waiter (porcb s i) (t, wview (tcbs s t))"
    using pors_okD [OF fo ix] q(1) by (auto simp: waiters_def split: if_splits)
  then have a: "poratr (porcb s i) AND TA_TPRI \<noteq> 0" using sp by (auto simp: cal_waiter_def wview_def split: if_splits)
  have e: "s1 = gcb_change_priority (por_gcb s i) t (upd_tcb t (\<lambda>c. c\<lparr>priority := p\<rparr>) s)"
    by (simp add: s1 cal_chg_pri_def i_def por_gcb_def porcb_def)
  have "pors_ok s1" unfolding s1 by (rule cal_chg_pri_ok [OF k fo ix q(1) p a])
  then show ?thesis
    using move_hook [OF k ok pl, of "QCal i" t p "por_gcb s i", folded e] q ix p by (simp add: por_gcb_def)
qed

text \<open>The hook of the message buffers serves the senders at the head of the queue as well.\<close>

lemma mbf_served_calm:
  assumes k: "kinv s" and pl: "placed s" and m: "mbf_served i R s s1" and R: "R \<subseteq> set (ques s (QSmbf i))"
    and q: "set (ques s1 (QSmbf i)) = set (ques s (QSmbf i)) - R"
  shows "calm_step s s1"
  by (rule calm_served(1) [OF k _ pl, of s1 "QSmbf i" R E_OK]) (use m R q in \<open>auto simp: mbf_served_def objs_same_def\<close>)

lemma mbf_hook_ok:
  assumes k: "kinv s" and ok: "objs_ok s" and pl: "placed s" and w: "is_wait (state (tcbs s t))" and p: "p < NUM_PRI"
    and sp: "wspec (tcbs s t) = Wspec_smbf_tpri"
  defines "s0 \<equiv> upd_tcb t (\<lambda>c. c\<lparr>priority := p\<rparr>) s"
  shows "\<exists>s1. mbf_chg_pri t (int old) s0 = Some s1 \<and> objs_ok s1 \<and> chg_ok t p s s1 \<and> (\<forall>j. waiters s1 (QMtx j) = waiters s (QMtx j))"
proof -
  define i where "i = INDEX_OBJ (wid (tcbs s t))"
  note q = hook_queue [OF ok pl w, of "QSmbf i", unfolded sp, simplified, OF i_def [symmetric]]
  have fo: "mbfs_ok s" using ok by (simp add: objs_ok_def)
  have ix: "i < maxid (mbftab (ko s))" using q(2) by simp
  have a: "mbfatr (mbfcb s i) AND TA_TPRI \<noteq> 0"
    using mbf_senderD(2) [OF fo ix q(1)] sp by (auto simp: snd_waiter_def wview_def split: if_splits)
  define m where "m = gcb_change_priority (mbf_gcb s0 i) t s0"
  from mbf_chg_pri_ok [OF k fo ix q(1) p a, of "int old", folded s0_def m_def] obtain s1 n where
    s1: "mbf_chg_pri t (int old) s0 = Some s1" "mbf_served i (set (take n (ques m (QSmbf i)))) m s1" "mbfs_ok s1"
      "ques s1 (QSmbf i) = drop n (ques m (QSmbf i))"
    by auto
  have g: "mbf_gcb s0 i = mbf_gcb s i" by (simp add: mbf_gcb_def s0_def mbfcb_def)
  have h: "wait_head (wait_queue (mbf_gcb s i))" "t \<in> set (ques s (wait_queue (mbf_gcb s i)))" using q(1) by (simp_all add: mbf_gcb_def)
  note mv = reorder_chg_ok [OF k pl h p, folded s0_def, folded g, folded m_def]
  have km: "kinv m" "placed m" using mv(1) by (simp_all add: chg_ok_def)
  have c: "calm_step m s1"
  proof (rule mbf_served_calm [OF km s1(2)])
    show "set (take n (ques m (QSmbf i))) \<subseteq> set (ques m (QSmbf i))" by (rule set_take_subset)
    have "distinct (take n (ques m (QSmbf i)) @ drop n (ques m (QSmbf i)))" using kinv_dest(5) [OF km(1)] by simp
    moreover have "set (ques m (QSmbf i)) = set (take n (ques m (QSmbf i))) \<union> set (drop n (ques m (QSmbf i)))"
      by (metis append_take_drop_id set_append)
    ultimately show "set (ques s1 (QSmbf i)) = set (ques m (QSmbf i)) - set (take n (ques m (QSmbf i)))"
      unfolding s1(4) distinct_append by blast
  qed
  have mq: "waiters m (QMtx j) = waiters s (QMtx j)" for j
    by (rule touchesD [OF mv(2)]) (simp_all add: mbf_gcb_def)
  have ch: "chg_ok t p s s1" and wq: "waiters s1 (QMtx j) = waiters s (QMtx j)" for j
    using chg_ok_calm [OF mv(1) c] mq by simp_all
  have tch: "touches {QSmbf i} s s1"
    using touches_trans [OF mv(2)] mbf_served_touches [OF km(1) s1(2)] by (simp add: mbf_gcb_def)
  have tm: "semtab m = semtab s" "flgtab m = flgtab s" "mbxtab m = mbxtab s" "msgs m = msgs s" "ko m = ko s"
    using mv(3) by (simp_all add: objs_same_def)
  have tab: "semtab s1 = semtab s" "flgtab s1 = flgtab s" "mbxtab s1 = mbxtab s" "msgs s1 = msgs s" "mpftab (ko s1) = mpftab (ko s)"
    "portab (ko s1) = portab (ko s)" "maxid (mbftab (ko s1)) = maxid (mbftab (ko s))"
    using s1(2) tm by (auto simp: mbf_served_def objs_same_def)
  have str: "stray s1 x \<longleftrightarrow> stray s x" for x using tab by (cases x) auto
  have "sems_ok s1" using sems_ok_foreign [OF tab(1) tch] ok by (simp add: objs_ok_def)
  moreover have "flgs_ok s1" by (rule flgs_elsewhere [OF _ tab(2) tch]) (use ok in \<open>simp_all add: objs_ok_def\<close>)
  moreover have "mbxs_ok s1" by (rule mbxs_elsewhere [OF _ tab(3,4) tch]) (use ok in \<open>simp_all add: objs_ok_def\<close>)
  moreover have "mpfs_ok s1" by (rule mpfs_elsewhere [OF _ tab(5) tch]) (use ok in \<open>simp_all add: objs_ok_def\<close>)
  moreover have "pors_ok s1" by (rule pors_elsewhere [OF _ tab(6) tch]) (use ok in \<open>simp_all add: objs_ok_def\<close>)
  moreover have "no_stray s1" by (rule no_stray_step [OF _ str tch]) (use ok q(2) in \<open>simp_all add: objs_ok_def\<close>)
  ultimately have "objs_ok s1" using s1(3) by (simp add: objs_ok_def)
  then show ?thesis using s1(1) ch wq by blast
qed

text \<open>The hook of the semaphores serves the tasks at the head of the queue as well.\<close>

lemma sem_grant_calm:
  fixes i :: nat
  assumes k: "kinv s" and pl: "placed s"
  defines "s1 \<equiv> sem_grant i (ques s (QSem i)) s"
  shows "calm_step s s1" and "touches {QSem i} s s1" and "objs_same (s\<lparr>semtab := semtab s1\<rparr>) s1" and "maxid (semtab s1) = maxid (semtab s)"
proof -
  define R where "R = sem_served False (req s) (semcnt (semcb s i)) (ques s (QSem i))"
  have o: "sem_outcome i R s s1"
    unfolding R_def s1_def by (rule sem_grant_outcome [OF k]) (simp_all add: kinv_dest(5) [OF k])
  have f: "sem_frame i s s1" and k1: "kinv s1" using o by (simp_all add: sem_outcome_def)
  show ob: "objs_same (s\<lparr>semtab := semtab s1\<rparr>) s1" and "maxid (semtab s1) = maxid (semtab s)" using f by (simp_all add: sem_frame_def)
  have sub: "set R \<subseteq> set (ques s (QSem i))" unfolding R_def by (rule sem_served_subset)
  note c = calm_served [OF k k1 pl, of "QSem i" "set R" E_OK]
  show "calm_step s s1" "touches {QSem i} s s1"
    by (rule c; use o f ob sub in \<open>auto simp: sem_outcome_def sem_frame_def objs_same_def\<close>)+
qed

lemma sem_hook_ok:
  assumes k: "kinv s" and ok: "objs_ok s" and pl: "placed s" and w: "is_wait (state (tcbs s t))" and p: "p < NUM_PRI"
    and sp: "wspec (tcbs s t) = Wspec_sem_tpri"
  defines "s0 \<equiv> upd_tcb t (\<lambda>c. c\<lparr>priority := p\<rparr>) s"
  assumes s1: "s1 = sem_chg_pri t (int old) s0"
  shows "objs_ok s1 \<and> chg_ok t p s s1 \<and> (\<forall>j. waiters s1 (QMtx j) = waiters s (QMtx j))"
proof -
  define i where "i = INDEX_OBJ (wid (tcbs s t))"
  note q = hook_queue [OF ok pl w, of "QSem i", unfolded sp, simplified, OF i_def [symmetric]]
  have ix: "i < maxid (semtab s)" using q(2) by simp
  have nr: "t \<notin> set (rdy s)" using k w by (auto simp: kinv_rdy)
  have k0: "kinv s0" unfolding s0_def by (rule kinv_upd_pri [OF k nr p])
  have so: "sems_ok s0" unfolding s0_def by (rule sem_repri) (use ok in \<open>simp add: objs_ok_def\<close>)
  have t0: "t \<in> set (ques s0 (QSem i))" "i < maxid (semtab s0)" using q(1) ix by (simp_all add: s0_def)
  note hk = sem_chg_pri_inv [OF k0 so t0(2,1), of "int old", folded s1, simplified]
  define m where "m = gcb_change_priority (sem_gcb s i) t s0"
  have g: "sem_gcb s0 i = sem_gcb s i" by (simp add: sem_gcb_def s0_def semcb_def)
  have h: "wait_head (wait_queue (sem_gcb s i))" "t \<in> set (ques s (wait_queue (sem_gcb s i)))" using q(1) by (simp_all add: sem_gcb_def)
  note mv = reorder_chg_ok [OF k pl h p, folded s0_def, folded m_def]
  have mq: "waiters m (QMtx j) = waiters s (QMtx j)" for j
    by (rule touchesD [OF mv(2)]) (simp_all add: sem_gcb_def)
  have e: "s1 = (if sematr (semcb m i) AND TA_CNT \<noteq> 0 then m else sem_grant i (ques m (QSem i)) m)"
  proof -
    have "INDEX_OBJ (wid (tcbs s0 t)) = i" by (simp add: s0_def i_def)
    then show ?thesis by (simp add: s1 sem_chg_pri_def Let_def g m_def)
  qed
  have km: "kinv m" "placed m" using mv(1) by (simp_all add: chg_ok_def)
  note c = sem_grant_calm [OF km, of i]
  have st: "calm_step m s1" "touches {QSem i} m s1" "objs_same (m\<lparr>semtab := semtab s1\<rparr>) s1" "maxid (semtab s1) = maxid (semtab m)"
    using c calm_step_refl [OF km] by (auto simp: e)
  have ch: "chg_ok t p s s1" and wq: "waiters s1 (QMtx j) = waiters s (QMtx j)" for j
    using chg_ok_calm [OF mv(1) st(1)] mq by simp_all
  have tch: "touches {QSem i} s s1" using touches_trans [OF mv(2)] st(2) by (simp add: sem_gcb_def)
  have tab: "flgtab s1 = flgtab s" "mbxtab s1 = mbxtab s" "msgs s1 = msgs s" "ko s1 = ko s" "maxid (semtab s1) = maxid (semtab s)"
    using mv(3) st(3,4) by (simp_all add: objs_same_def)
  have str: "stray s1 x \<longleftrightarrow> stray s x" for x using tab by (cases x) auto
  have "flgs_ok s1" by (rule flgs_elsewhere [OF _ tab(1) tch]) (use ok in \<open>simp_all add: objs_ok_def\<close>)
  moreover have "mbxs_ok s1" by (rule mbxs_elsewhere [OF _ tab(2,3) tch]) (use ok in \<open>simp_all add: objs_ok_def\<close>)
  moreover have "mpfs_ok s1" by (rule mpfs_elsewhere [OF _ _ tch]) (use ok tab in \<open>simp_all add: objs_ok_def\<close>)
  moreover have "mbfs_ok s1" by (rule mbfs_elsewhere [OF _ _ tch]) (use ok tab in \<open>simp_all add: objs_ok_def\<close>)
  moreover have "pors_ok s1" by (rule pors_elsewhere [OF _ _ tch]) (use ok tab in \<open>simp_all add: objs_ok_def\<close>)
  moreover have "no_stray s1" by (rule no_stray_step [OF _ str tch]) (use ok q(2) in \<open>simp_all add: objs_ok_def\<close>)
  ultimately have "objs_ok s1" using hk(2) by (simp add: objs_ok_def)
  then show ?thesis using ch wq by blast
qed

section \<open>The results on mutexes for the hooks of the kernel\<close>

lemma mtx_heads_simps [simp]:
  "QSem i \<notin> mtx_heads" "QFlg i \<notin> mtx_heads" "QMbx i \<notin> mtx_heads" "QMpf i \<notin> mtx_heads" "QMpl i \<notin> mtx_heads"
  "QSmbf i \<notin> mtx_heads" "QRmbf i \<notin> mtx_heads" "QCal i \<notin> mtx_heads" "QAcp i \<notin> mtx_heads"
  by (auto simp: mtx_heads_def)

lemma mtx_heads_not_stray: "q \<in> mtx_heads \<Longrightarrow> \<not> stray s q"
  by (auto simp: mtx_heads_def lock_heads_def)

text \<open>Without a queue for them, no task waits with the hook of these objects.\<close>

lemma other_hooks_ok:
  assumes k: "kinv s" and ok: "objs_ok s" and pl: "placed s" and w: "is_wait (state (tcbs s t))" and p: "p < NUM_PRI"
    and h: "chg_pri_hook (wspec_at (wspec (tcbs s t))) = Some h" "h \<noteq> Mtx_chg_pri"
  shows "\<exists>s'. chg_pri_hooks h t (int (pri s t)) (upd_tcb t (\<lambda>c. c\<lparr>priority := p\<rparr>) s) = Some s' \<and> objs_ok s' \<and> chg_ok t p s s' \<and>
     (\<forall>i. waiters s' (QMtx i) = waiters s (QMtx i))"
proof -
  have no: "wait_place (wspec (tcbs s t)) (wid (tcbs s t)) \<noteq> Some q" if "stray s q" for q
    using hook_queue [OF ok pl w] that by blast
  have lw: "wspec (tcbs s t) \<noteq> Wspec_local x" for x
    using h(1) pl w unfolding placed_def well_placed_def by fastforce
  show ?thesis
  proof (cases "wspec (tcbs s t)")
    case Wspec_sem_tpri
    from sem_hook_ok [OF k ok pl w p this refl] h show ?thesis by (auto simp: Wspec_sem_tpri)
  next
    case Wspec_flg_tpri
    from flg_hook_ok [OF k ok pl w p this refl] h show ?thesis by (auto simp: Wspec_flg_tpri)
  next
    case Wspec_mbx_tpri
    from mbx_hook_ok [OF k ok pl w p this refl] h show ?thesis by (auto simp: Wspec_mbx_tpri)
  next
    case Wspec_mpf_tpri
    from mpf_hook_ok [OF k ok pl w p this refl] h show ?thesis by (auto simp: Wspec_mpf_tpri)
  next
    case Wspec_cal_tpri
    from cal_hook_ok [OF k ok pl w p this refl] h show ?thesis by (auto simp: Wspec_cal_tpri)
  next
    case Wspec_smbf_tpri
    from mbf_hook_ok [OF k ok pl w p this] h show ?thesis by (auto simp: Wspec_smbf_tpri)
  qed (use h no [of "QMpl (INDEX_OBJ (wid (tcbs s t)))"] lw in auto)
qed

interpretation kern: pri_hooks chg_pri_hooks objs_ok
proof unfold_locales
  show "objs_ok s'" if "objs_ok s" "objs_same s s'" "touches mtx_heads s s'" for s s'
    by (rule objs_ok_foreign [OF that(1) _ _ _ _ _ that(3)]) (use that(2) mtx_heads_not_stray in \<open>auto simp: objs_same_def\<close>)
  show "objs_ok (s\<lparr>mtxtab := m\<rparr>)" if "objs_ok s" for s m
    by (rule objs_ok_foreign [OF that, where Q = "{}"]) (simp_all add: touches_same)
  show "objs_ok (s\<lparr>hashcb := hk, domtab := dt\<rparr>)" if "objs_ok s" for s hk dt
    by (rule objs_ok_foreign [OF that, where Q = "{}"]) (simp_all add: touches_same)
qed (use objs_repri other_hooks_ok in blast)+

end
