(* ===== verification/Task_Manage.thy ===== *)
theory Task_Manage
  imports Task_Sync Klock Hooks
begin

text \<open>
  Task management, \<^verbatim>\<open>task_manage.c\<close>: creation, start, termination and deletion of tasks, priorities, forced release and
  prohibition of waiting, and the calls that read a task's state. The stacks come from the memory allocator,
  so their addresses are arguments; \<open>setup_context\<close> writes the start-up frame of \<^verbatim>\<open>cpu_task.h\<close>. The switch to another task
  that ends \<open>tk_ext_tsk\<close> and \<open>tk_exd_tsk\<close> is the dispatcher's step, and so is the final deletion of a task that was still running.
\<close>

section \<open>Attributes and sizes\<close>

definition TA_SSTKSZ :: ATR where "TA_SSTKSZ = 0x00000002"
definition TA_USERSTACK :: ATR where "TA_USERSTACK = 0x00000004"
definition TA_TASKSPACE :: ATR where "TA_TASKSPACE = 0x00000008"
definition TA_RESID :: ATR where "TA_RESID = 0x00000010"
definition TA_RNG0 :: ATR where "TA_RNG0 = 0"
definition TA_COPS :: ATR where "TA_COPS = 0x0000f000"

definition MIN_SYS_STACK_SIZE :: int where "MIN_SYS_STACK_SIZE = 1024"
definition MAX_LSID :: int where "MAX_LSID = 255"
definition MIN_RESID :: int where "MIN_RESID = 1"
definition SYS_RESID :: int where "SYS_RESID = MIN_RESID"

definition CHECK_RESID :: "kstate \<Rightarrow> int \<Rightarrow> bool \<times> ER" where
  "CHECK_RESID s r = (MIN_RESID \<le> r \<and> r \<le> int (max_resid (ko s)), E_ID)"

definition CHECK_NOCOP :: "kstate \<Rightarrow> ATR \<Rightarrow> bool \<times> ER" where
  "CHECK_NOCOP s atr = (\<not> (atr AND TA_COPS \<noteq> 0 \<and> atr AND available_cop (ko s) = 0), E_NOCOP)"

record T_CTSK =
  ctsk_exinf :: UW
  ctsk_tskatr :: ATR
  ctsk_task :: UW
  ctsk_itskpri :: int
  ctsk_stksz :: int
  ctsk_sstksz :: int
  ctsk_stkptr :: UW
  ctsk_uatb :: UW
  ctsk_lsid :: int
  ctsk_resid :: int
  ctsk_domid :: ID
  ctsk_assprc :: UW
  ctsk_oname :: "UB list"

definition VALID_TSKATR :: ATR where
  "VALID_TSKATR = TA_HLNG OR TA_SSTKSZ OR TA_USERSTACK OR TA_TASKSPACE OR TA_RESID OR TA_RNG3 OR TA_COPS OR TA_ASSPRC OR
     TA_DOMID OR TA_ONAME OR TA_PRIVATE OR TA_PROTECTED OR TA_PUBLIC"

section \<open>The start-up frame\<close>

definition PSR_SVC :: UW where "PSR_SVC = 19"
definition PSR_SYS :: UW where "PSR_SYS = 31"
definition PSR_T :: UW where "PSR_T = 0x00000020"

definition INIT_PSR :: "UW \<Rightarrow> UW" where
  "INIT_PSR rng = (if rng = 0 then PSR_SVC else PSR_SYS)"

definition INIT_TMF :: "UW \<Rightarrow> UW" where
  "INIT_TMF rng = push_bit 16 rng OR rng"

text \<open>Offsets in \<open>SStackFrame\<close>, of 19 words.\<close>

definition FRAME_SZ :: UW where "FRAME_SZ = 76"

definition setup_context :: "nat \<Rightarrow> kstate \<Rightarrow> kstate" where
  "setup_context t s =
    (let rng = drop_bit 8 (tskatr (tcbs s t) AND TA_RNG3);
         ssp = isstack (tcbs s t) - FRAME_SZ;
         pc = tsk_task (tcbs s t);
         spsr = (if pc AND 1 \<noteq> 0 then INIT_PSR rng OR PSR_T else INIT_PSR rng);
         s = s\<lparr>umem := (umem s)(ssp + 48 := INIT_TMF rng, ssp + 64 := spsr, ssp + 72 := pc AND NOT 1)\<rparr>;
         s = upd_tcb t (\<lambda>c. c\<lparr>ctx_ssp := ssp\<rparr>) s
     in if rng > 0 then s\<lparr>umem := (umem s)(ssp + 52 := istack (tcbs s t))\<rparr> else s)"

definition setup_stacd :: "nat \<Rightarrow> int \<Rightarrow> kstate \<Rightarrow> kstate" where
  "setup_stacd t stacd s =
    (let ssp = ctx_ssp (tcbs s t)
     in s\<lparr>umem := (umem s)(ssp := word_of_int stacd, ssp + 4 := exinf (tcbs s t))\<rparr>)"

section \<open>Creation and deletion\<close>

definition tsk_ops :: objops where
  "tsk_ops = \<lparr>oo_type = OT_TSK, oo_dispatch = False, oo_max = max_tskid, oo_id = \<lambda>s i. tskid (tcbs s i),
     oo_atr = \<lambda>s i. tskatr (tcbs s i), oo_name = \<lambda>s i. tsk_oname (tcbs s i),
     oo_set_name = \<lambda>i nm. upd_tcb i (\<lambda>c. c\<lparr>tsk_oname := nm\<rparr>), oo_free = \<lambda>s. ques s QFreeTcb,
     oo_set_free = set_que QFreeTcb, oo_set_id = \<lambda>i x. upd_tcb i (\<lambda>c. c\<lparr>tskid := x\<rparr>)\<rparr>"

definition ctsk_guards :: "T_CTSK \<Rightarrow> kstate \<Rightarrow> (bool \<times> ER) list" where
  "ctsk_guards pk s =
    (let atr = ctsk_tskatr pk
     in [CHECK_RSATR atr VALID_TSKATR, CHECK_PRI (ctsk_itskpri pk), CHECK_NOCOP s atr] @
        (if atr AND TA_USERSTACK \<noteq> 0 then [CHECK_PAR (atr AND TA_RNG3 \<noteq> TA_RNG0), CHECK_PAR (ctsk_stksz pk = 0)]
         else [CHECK_PAR (ctsk_stksz pk \<ge> 0)]) @
        (if atr AND TA_TASKSPACE \<noteq> 0 then [CHECK_PAR (ctsk_lsid pk \<ge> 0 \<and> ctsk_lsid pk \<le> MAX_LSID)] else []) @
        (if atr AND TA_ASSPRC \<noteq> 0 then [CHECK_PAR (ctsk_assprc pk \<noteq> 0), CHECK_PAR (ctsk_assprc pk AND NOT (ALL_CORE_BIT s) = 0)] else []) @
        [CHECK_PATR atr] @
        (if atr AND TA_DOMID \<noteq> 0 then [CHECK_DOMID s (ctsk_domid pk)] else []) @
        (if atr AND TA_RESID \<noteq> 0 then [CHECK_RESID s (ctsk_resid pk)] else []) @
        (if atr AND TA_SSTKSZ \<noteq> 0 then [CHECK_PAR (ctsk_sstksz pk \<ge> MIN_SYS_STACK_SIZE)] else []))"

text \<open>The sizes of the system and of the user stack, in multiples of 8.\<close>

definition ctsk_sizes :: "T_CTSK \<Rightarrow> kstate \<Rightarrow> int \<times> int" where
  "ctsk_sizes pk s =
    (let sst = (if ctsk_tskatr pk AND TA_SSTKSZ \<noteq> 0 then ctsk_sstksz pk else default_sstksz (ko s));
         (sst, st) = (if ctsk_tskatr pk AND TA_RNG3 = TA_RNG0 then (sst + ctsk_stksz pk, 0) else (sst, ctsk_stksz pk))
     in ((sst + 7) div 8 * 8, (st + 7) div 8 * 8))"

definition ctsk_init :: "T_CTSK \<Rightarrow> kstate \<Rightarrow> UW \<Rightarrow> UW \<Rightarrow> tcb \<Rightarrow> tcb" where
  "ctsk_init pk s sstack stack c =
    (let atr = ctsk_tskatr pk;
         (sst, st) = ctsk_sizes pk s;
         mode = (if atr AND TA_RNG3 = TA_RNG0 then 1 else 0)
     in c\<lparr>exinf := ctsk_exinf pk, tskatr := atr, tsk_task := ctsk_task pk, ipriority := nat (int_priority (ctsk_itskpri pk)),
          resid := (if atr AND TA_RESID \<noteq> 0 then ctsk_resid pk else SYS_RESID), stksz := st, sstksz := sst,
          assprc := (if atr AND TA_ASSPRC \<noteq> 0 then ctsk_assprc pk else ALL_CORE_BIT s),
          istack := (if st > 0 then stack + word_of_int st else ctsk_stkptr pk),
          isstack := sstack + word_of_int sst, isysmode := mode, sysmode := mode,
          ctx_uatb := (if atr AND TA_TASKSPACE \<noteq> 0 then ctsk_uatb pk else 0),
          ctx_lsid := (if atr AND TA_TASKSPACE \<noteq> 0 then ctsk_lsid pk else 0)\<rparr>)"

definition set_domid_part :: "ID \<Rightarrow> ID \<Rightarrow> ID" where
  "set_domid_part i did = (i AND NOT DOMID_MASK) OR MP_GEN_DOMIDPART did"

definition tk_cre_tsk :: "nat \<Rightarrow> UW option \<Rightarrow> UW option \<Rightarrow> T_CTSK \<Rightarrow> kstate \<Rightarrow> (ER \<times> kstate) option" where
  "tk_cre_tsk prid sstack stack pk s =
    (case guards (ctsk_guards pk s) of
       Some e \<Rightarrow> Some (e, s)
     | None \<Rightarrow>
         if sstack = None \<or> snd (ctsk_sizes pk s) > 0 \<and> stack = None then Some (E_NOMEM, s)
         else do {
           r \<leftarrow> cre_prologue prid tsk_ops (ctsk_tskatr pk) (ctsk_domid pk) (ctsk_oname pk) s;
           case r of
             Inl e \<Rightarrow> Some (e, s)
           | Inr (did, oname) \<Rightarrow>
               (case ques s QFreeTcb of
                  [] \<Rightarrow> Some (E_LIMIT, s)
                | t # ts \<Rightarrow>
                    (let s = set_que QFreeTcb ts s;
                         s = upd_tcb t (\<lambda>c. c\<lparr>tskid := set_domid_part (tskid c) did, wrdvno := set_domid_part (wrdvno c) did,
                               tsk_oname := name_copy oname\<rparr>) s;
                         s = mp_register_object_in_domain did OT_TSK (INDEX_OBJ (tskid (tcbs s t))) oname s;
                         s = upd_tcb t (ctsk_init pk s (the sstack) (case stack of Some a \<Rightarrow> a | None \<Rightarrow> 0)) s;
                         s = setup_context t (make_dormant t s)
                     in Some (sint (tskid (tcbs s t)), s)))
         })"

definition del_tsk :: "nat \<Rightarrow> kstate \<Rightarrow> kstate" where
  "del_tsk t s =
    (let s = mp_unregister_object_in_domain (tskid (tcbs s t)) OT_TSK (INDEX_OBJ (tskid (tcbs s t))) s;
         s = QueInsert_tail t QFreeTcb s
     in upd_tcb t (\<lambda>c. c\<lparr>state := TS_NONEXIST\<rparr>) s)"

definition tk_del_tsk :: "nat \<Rightarrow> ID \<Rightarrow> kstate \<Rightarrow> (ER \<times> kstate) option" where
  "tk_del_tsk prid tid s =
    tsk_call (mp_check_domain_and_protection prid s) False (CHECK_TSKID prid s tid @ [CHECK_NONSELF prid s tid]) prid tid
      (\<lambda>t s. if state (tcbs s t) \<noteq> TS_DORMANT then Some (E_OBJ, s)
             else if is_ctxtsk s t then Some (E_OK, upd_tcb t (\<lambda>c. c\<lparr>stkfree := True, state := TS_NONEXIST\<rparr>) s)
             else Some (E_OK, del_tsk t s)) s"

section \<open>Start and termination\<close>

definition tk_sta_tsk :: "nat \<Rightarrow> ID \<Rightarrow> int \<Rightarrow> kstate \<Rightarrow> (ER \<times> kstate) option" where
  "tk_sta_tsk prid tid stacd s =
    tsk_call (mp_check_domain_and_protection prid s) True (CHECK_TSKID prid s tid @ [CHECK_NONSELF prid s tid]) prid tid
      (\<lambda>t s. if state (tcbs s t) \<noteq> TS_DORMANT then end_critical E_OBJ s
             else if is_ctxtsk s t then end_critical E_OBJ s
             else end_critical E_OK (make_ready t (setup_stacd t stacd (setup_context t s)))) s"

text \<open>\<open>_ter_tsk\<close>; \<open>cleanup_context\<close> does nothing.\<close>

definition ter_tsk :: "nat \<Rightarrow> nat \<Rightarrow> kstate \<Rightarrow> kstate option" where
  "ter_tsk prid t s = do {
     s \<leftarrow> (if svclocked (tcbs s t) \<noteq> [] then AllUnlockSVC prid t s else Some s);
     s \<leftarrow> (if state (tcbs s t) = TS_READY then make_non_ready t s
           else if is_wait (state (tcbs s t)) then
             (let s = wait_cancel t s
              in case rel_wai_hook (wspec_at (wspec (tcbs s t))) of None \<Rightarrow> Some s | Some h \<Rightarrow> rel_wai_hooks h t s)
           else Some s);
     signal_all_mutex chg_pri_hooks t s
   }"

definition tk_ext_tsk :: "nat \<Rightarrow> kstate \<Rightarrow> kstate option" where
  "tk_ext_tsk prid s = do {
     let s = s\<lparr>dispatch_disabled := (dispatch_disabled s)(prid := DDS_ENABLE)\<rparr>;
     t \<leftarrow> ctxtsk s prid;
     s \<leftarrow> ter_tsk prid t s;
     update_schedtsk (make_dormant t s)
   }"

definition tk_exd_tsk :: "nat \<Rightarrow> kstate \<Rightarrow> kstate option" where
  "tk_exd_tsk prid s = do {
     let s = s\<lparr>dispatch_disabled := (dispatch_disabled s)(prid := DDS_ENABLE)\<rparr>;
     t \<leftarrow> ctxtsk s prid;
     s \<leftarrow> ter_tsk prid t s;
     update_schedtsk (upd_tcb t (\<lambda>c. c\<lparr>stkfree := True, state := TS_NONEXIST\<rparr>) s)
   }"

definition tk_ter_tsk :: "nat \<Rightarrow> ID \<Rightarrow> kstate \<Rightarrow> (ER \<times> kstate) option" where
  "tk_ter_tsk prid tid s =
    tsk_call (mp_check_domain_and_protection prid s) True (CHECK_TSKID prid s tid @ [CHECK_NONSELF prid s tid]) prid tid
      (\<lambda>t s. if state (tcbs s t) = TS_DORMANT then end_critical E_OBJ s
             else if klocked (tcbs s t) then end_critical E_OBJ s
             else do {
               let s = (if is_ctxtsk s t then s\<lparr>dispatch_disabled := (dispatch_disabled s)(get_prid_from_ctx s t := DDS_ENABLE)\<rparr> else s);
               s \<leftarrow> ter_tsk prid t s;
               end_critical E_OK (make_dormant t s)
             }) s"

section \<open>Priority, time slice, order of execution\<close>

definition tk_chg_pri :: "nat \<Rightarrow> ID \<Rightarrow> int \<Rightarrow> kstate \<Rightarrow> (ER \<times> kstate) option" where
  "tk_chg_pri prid tid tskpri s =
    tsk_call (mp_check_domain_and_protection_tsk prid s) True [CHECK_TSKID_SELF prid s tid, CHECK_PRI_INI tskpri] prid tid
      (\<lambda>t s. let p = (if tskpri = TPRI_INI then int (ipriority (tcbs s t)) else int_priority tskpri);
                 ercd = chg_pri_mutex t p s
             in if ercd < E_OK then end_critical ercd s
                else do {
                  s \<leftarrow> change_task_priority chg_pri_hooks t (nat ercd) (upd_tcb t (\<lambda>c. c\<lparr>bpriority := nat p\<rparr>) s);
                  end_critical E_OK s
                }) s"

definition tk_rot_rdq :: "nat \<Rightarrow> int \<Rightarrow> kstate \<Rightarrow> (ER \<times> kstate) option" where
  "tk_rot_rdq prid tskpri s =
    (case guards [CHECK_PRI_RUN tskpri] of
       Some e \<Rightarrow> Some (e, s)
     | None \<Rightarrow> do {
         s \<leftarrow> (if tskpri = TPRI_RUN then (if in_indp prid s then rotate_ready_queue_run s else rotate_ready_queue_ctx prid s)
               else Some (rotate_ready_queue (nat (int_priority tskpri)) s));
         end_critical E_OK s
       })"

definition tk_chg_slt :: "nat \<Rightarrow> ID \<Rightarrow> UW \<Rightarrow> kstate \<Rightarrow> (ER \<times> kstate) option" where
  "tk_chg_slt prid tid slt s =
    tsk_call (mp_check_domain_and_protection_tsk prid s) False [CHECK_TSKID_SELF prid s tid] prid tid
      (\<lambda>t s. Some (E_OK, upd_tcb t (\<lambda>c. c\<lparr>slicetime := slt\<rparr>) s)) s"

section \<open>Reading and changing a task's data\<close>

definition tk_get_tid :: "nat \<Rightarrow> kstate \<Rightarrow> ID" where
  "tk_get_tid prid s = (case ctxtsk s prid of None \<Rightarrow> 0 | Some t \<Rightarrow> tskid (tcbs s t))"

definition TTS_RUN :: UW where "TTS_RUN = 1"
definition TTS_NODISWAI :: UW where "TTS_NODISWAI = 0x80"

record T_RTSK =
  rtsk_exinf :: UW
  rtsk_tskpri :: int
  rtsk_tskbpri :: int
  rtsk_tskstat :: UW
  rtsk_tskwait :: UW
  rtsk_wid :: ID
  rtsk_wupcnt :: int
  rtsk_suscnt :: int
  rtsk_slicetime :: UW
  rtsk_waitmask :: UW
  rtsk_texmask :: UW
  rtsk_tskevent :: UW

text \<open>The \<open>memset\<close> at the start clears the fields that only a waiting task has.\<close>

definition tsk_ref :: "kstate \<Rightarrow> nat \<Rightarrow> T_RTSK" where
  "tsk_ref s t =
    (let c = tcbs s t;
         stat = (if state c = TS_READY \<and> is_ctxtsk s t then TTS_RUN else push_bit 1 (tstat_code (state c)));
         w = is_wait (state c)
     in \<lparr>rtsk_exinf = exinf c, rtsk_tskpri = ext_tskpri (priority c), rtsk_tskbpri = ext_tskpri (bpriority c),
         rtsk_tskstat = (if w \<and> nodiswai c then stat OR TTS_NODISWAI else stat),
         rtsk_tskwait = (if w then tskwait (wspec_at (wspec c)) else 0), rtsk_wid = (if w then wid c else 0),
         rtsk_wupcnt = wupcnt c, rtsk_suscnt = suscnt c, rtsk_slicetime = slicetime c, rtsk_waitmask = waitmask c,
         rtsk_texmask = texmask c, rtsk_tskevent = ucast (tskevt c)\<rparr>)"

text \<open>The shape of the calls that only read; \<open>chk\<close> is the check behind the test for existence.\<close>

definition tsk_read :: "(ID \<Rightarrow> ID \<Rightarrow> ATR \<Rightarrow> ER option) \<Rightarrow> nat \<Rightarrow> ID \<Rightarrow> (nat \<Rightarrow> 'r) \<Rightarrow> kstate \<Rightarrow> (ER \<times> 'r option) option" where
  "tsk_read chk prid tid rd s =
    (case guards [CHECK_TSKID_SELF prid s tid] of
       Some e \<Rightarrow> Some (e, None)
     | None \<Rightarrow> do {
         t \<leftarrow> get_tcb_self prid s tid;
         if state (tcbs s t) = TS_NONEXIST then Some (E_NOEXS, None)
         else do {
           ercd \<leftarrow> chk tid (tskid (tcbs s t)) (tskatr (tcbs s t));
           Some (ercd, if ercd = E_OK then Some (rd t) else None)
         }
       })"

text \<open>The debugger's calls compare the domain part of the identifier only.\<close>

definition td_check :: "ID \<Rightarrow> ID \<Rightarrow> ATR \<Rightarrow> ER option" where
  "td_check tid oid atr = Some (if tid \<noteq> TSK_SELF \<and> \<not> MP_CMP_DOMIDPART tid oid then E_NOEXS else E_OK)"

definition tk_ref_tsk :: "nat \<Rightarrow> ID \<Rightarrow> kstate \<Rightarrow> (ER \<times> T_RTSK option) option" where
  "tk_ref_tsk prid tid s = tsk_read (mp_check_domain_and_protection_tsk prid s) prid tid (tsk_ref s) s"

record TD_RTSK =
  tdr_rtsk :: T_RTSK
  tdr_task :: UW
  tdr_stksz :: int
  tdr_sstksz :: int
  tdr_istack :: UW
  tdr_isstack :: UW

definition td_tsk_ref :: "kstate \<Rightarrow> nat \<Rightarrow> TD_RTSK" where
  "td_tsk_ref s t = \<lparr>tdr_rtsk = tsk_ref s t, tdr_task = tsk_task (tcbs s t), tdr_stksz = stksz (tcbs s t), tdr_sstksz = sstksz (tcbs s t),
     tdr_istack = istack (tcbs s t), tdr_isstack = isstack (tcbs s t)\<rparr>"

definition td_ref_tsk :: "nat \<Rightarrow> ID \<Rightarrow> kstate \<Rightarrow> (ER \<times> TD_RTSK option) option" where
  "td_ref_tsk prid tid s = tsk_read td_check prid tid (td_tsk_ref s) s"

text \<open>The times of a task, and its state with the times set back if asked for.\<close>

definition inf_tsk :: "(ID \<Rightarrow> ID \<Rightarrow> ATR \<Rightarrow> ER option) \<Rightarrow> nat \<Rightarrow> ID \<Rightarrow> bool \<Rightarrow> kstate \<Rightarrow> ((ER \<times> (UW \<times> UW) option) \<times> kstate) option" where
  "inf_tsk chk prid tid clr s = do {
     r \<leftarrow> tsk_read chk prid tid (\<lambda>t. (t, stime (tcbs s t), utime (tcbs s t))) s;
     Some (case r of
         (e, Some (t, tv)) \<Rightarrow> ((e, Some tv), if clr then upd_tcb t (\<lambda>c. c\<lparr>stime := 0, utime := 0\<rparr>) s else s)
       | (e, None) \<Rightarrow> ((e, None), s))
   }"

definition tk_inf_tsk :: "nat \<Rightarrow> ID \<Rightarrow> bool \<Rightarrow> kstate \<Rightarrow> ((ER \<times> (UW \<times> UW) option) \<times> kstate) option" where
  "tk_inf_tsk prid tid clr s = inf_tsk (mp_check_domain_and_protection_tsk prid s) prid tid clr s"

definition td_inf_tsk :: "nat \<Rightarrow> ID \<Rightarrow> bool \<Rightarrow> kstate \<Rightarrow> ((ER \<times> (UW \<times> UW) option) \<times> kstate) option" where
  "td_inf_tsk prid tid clr s = inf_tsk td_check prid tid clr s"

definition tk_get_rid :: "nat \<Rightarrow> ID \<Rightarrow> kstate \<Rightarrow> (int \<times> kstate) option" where
  "tk_get_rid prid tid s =
    tsk_call (mp_check_domain_and_protection_tsk prid s) False [CHECK_TSKID_SELF prid s tid] prid tid (\<lambda>t s. Some (resid (tcbs s t), s)) s"

definition tk_set_rid :: "nat \<Rightarrow> ID \<Rightarrow> int \<Rightarrow> kstate \<Rightarrow> (int \<times> kstate) option" where
  "tk_set_rid prid tid r s =
    tsk_call (mp_check_domain_and_protection_tsk prid s) False [CHECK_TSKID_SELF prid s tid, CHECK_RESID s r] prid tid
      (\<lambda>t s. Some (resid (tcbs s t), upd_tcb t (\<lambda>c. c\<lparr>resid := r\<rparr>) s)) s"

section \<open>Releasing and forbidding waits\<close>

definition tk_rel_wai :: "nat \<Rightarrow> ID \<Rightarrow> kstate \<Rightarrow> (ER \<times> kstate) option" where
  "tk_rel_wai prid tid s =
    tsk_call (mp_check_domain_and_protection prid s) True (CHECK_TSKID prid s tid) prid tid
      (\<lambda>t s. if \<not> is_wait (state (tcbs s t)) then end_critical E_OBJ s
             else do { s \<leftarrow> wait_release_ng rel_wai_hooks t E_RLWAI s; end_critical E_OK s }) s"

text \<open>All wait factors and \<open>TTX_SVC\<close>\<close>

definition WAIT_PATTERN :: UW where
  "WAIT_PATTERN = TTW_SLP OR TTW_DLY OR TTW_SEM OR TTW_FLG OR TTW_MBX OR TTW_MTX OR TTW_SMBF OR TTW_RMBF OR TTW_CAL OR TTW_ACP OR
     TTW_RDV OR TTW_MPF OR TTW_MPL OR 0x00ff0000 OR 0x80000000"

definition tk_dis_wai :: "nat \<Rightarrow> ID \<Rightarrow> UW \<Rightarrow> kstate \<Rightarrow> (int \<times> kstate) option" where
  "tk_dis_wai prid tid wm s =
    tsk_call (mp_check_domain_and_protection_tsk prid s) True
      [CHECK_TSKID_SELF prid s tid, CHECK_PAR (wm AND NOT WAIT_PATTERN = 0 \<and> wm AND WAIT_PATTERN \<noteq> 0)] prid tid
      (\<lambda>t s. let s = upd_tcb t (\<lambda>c. c\<lparr>waitmask := wm\<rparr>) s
             in if is_wait (state (tcbs s t)) then
                  (let w = tskwait (wspec_at (wspec (tcbs s t)))
                   in if w AND wm \<noteq> 0 \<and> \<not> nodiswai (tcbs s t) then
                        do { s \<leftarrow> wait_release_ng rel_wai_hooks t E_DISWAI s; end_critical 0 s }
                      else end_critical (sint w) s)
                else end_critical 0 s) s"

definition tk_ena_wai :: "nat \<Rightarrow> ID \<Rightarrow> kstate \<Rightarrow> (ER \<times> kstate) option" where
  "tk_ena_wai prid tid s =
    tsk_call (mp_check_domain_and_protection_tsk prid s) False [CHECK_TSKID_SELF prid s tid] prid tid
      (\<lambda>t s. Some (E_OK, upd_tcb t (\<lambda>c. c\<lparr>waitmask := 0\<rparr>) s)) s"

section \<open>Names and the debugger\<close>

definition tk_fnd_tsk :: "nat \<Rightarrow> ID \<Rightarrow> UB list \<Rightarrow> kstate \<Rightarrow> (ER \<times> kstate) option" where
  "tk_fnd_tsk prid = obj_fnd prid tsk_ops"

definition tsk_dmi :: "kstate \<Rightarrow> nat \<Rightarrow> T_DMI" where
  "tsk_dmi s t = \<lparr>dmi_domatr = MP_GET_DOMATR (tskatr (tcbs s t)), dmi_domid = mp_get_domid_from_id s (tskid (tcbs s t)),
     dmi_kdmid = MP_KDMID_SELF, dmi_oname = tsk_oname (tcbs s t)\<rparr>"

definition tk_dmi_tsk :: "nat \<Rightarrow> ID \<Rightarrow> kstate \<Rightarrow> (ER \<times> T_DMI option) option" where
  "tk_dmi_tsk prid tid s = tsk_read (mp_check_domain_and_protection_tsk prid s) prid tid (tsk_dmi s) s"

definition td_dmi_tsk :: "nat \<Rightarrow> ID \<Rightarrow> kstate \<Rightarrow> (ER \<times> T_DMI option) option" where
  "td_dmi_tsk prid tid s = tsk_read td_check prid tid (tsk_dmi s) s"

definition named_check :: "ID \<Rightarrow> ID \<Rightarrow> ATR \<Rightarrow> ER option" where
  "named_check tid oid atr = do {
     e \<leftarrow> td_check tid oid atr;
     Some (if e \<noteq> E_OK then e else if atr AND TA_ONAME = 0 then E_OBJ else E_OK)
   }"

definition task_getname :: "nat \<Rightarrow> ID \<Rightarrow> kstate \<Rightarrow> (ER \<times> UB list option) option" where
  "task_getname prid tid s = tsk_read named_check prid tid (\<lambda>t. tsk_oname (tcbs s t)) s"

definition task_setname :: "nat \<Rightarrow> ID \<Rightarrow> UB list \<Rightarrow> kstate \<Rightarrow> (ER \<times> kstate) option" where
  "task_setname prid tid name s = do {
     r \<leftarrow> tsk_read named_check prid tid id s;
     Some (case r of
         (e, None) \<Rightarrow> (e, s)
       | (e, Some t) \<Rightarrow> mp_change_oname OT_TSK (oo_name tsk_ops s) (oo_set_name tsk_ops) (tskid (tcbs s t)) name (INDEX_OBJ (tskid (tcbs s t))) s)
   }"

definition td_lst_tsk :: "int \<Rightarrow> kstate \<Rightarrow> int \<times> ID list" where
  "td_lst_tsk nent s =
    (let ids = map (\<lambda>t. tskid (tcbs s t)) (filter (\<lambda>t. state (tcbs s t) \<noteq> TS_NONEXIST) [0..<max_tskid s])
     in (int (length ids), take (nat nent) ids))"

definition td_fnd_tsk :: "ID \<Rightarrow> UB list \<Rightarrow> kstate \<Rightarrow> ER" where
  "td_fnd_tsk = obj_td_fnd tsk_ops"

end
