(* ===== verification/Change_Priority.thy ===== *)
theory Change_Priority
  imports Task_Manage
begin

text \<open>
  \<open>tk_chg_pri\<close> keeps the invariants on priorities: \<open>chg_pri_mutex\<close> computes the priority that the new base
  priority and the mutexes of the task give, and \<open>change_task_priority\<close> carries it along the chain of holders.
\<close>

lemma chg_pri_scan_release:
  "fst (chg_pri_scan s is (int hi) low (int p)) = int (release_scan s None is hi p)"
proof (induction "is" arbitrary: hi low p)
  case (Cons i "is")
  show ?case by (auto simp: Let_def Cons TA_INHERIT_def TA_CEILING_def)
qed simp

lemma chg_pri_mutex_min:
  assumes "0 \<le> p" and "mtx_sorted s (mtxlist (tcbs s t))" and "\<not> chg_pri_mutex t p s < E_OK"
  shows "nat (chg_pri_mutex t p s) = Min (set (nat p # concat (map (mtx_claims s) (mtxlist (tcbs s t)))))"
proof -
  have "\<exists>low. chg_pri_mutex t p s = (if p < snd (chg_pri_scan s (mtxlist (tcbs s t)) p low p) then E_ILUSE
      else fst (chg_pri_scan s (mtxlist (tcbs s t)) p low p))"
    unfolding chg_pri_mutex_def Let_def case_prod_beta by blast
  then obtain low where "chg_pri_mutex t p s = fst (chg_pri_scan s (mtxlist (tcbs s t)) p low p)"
    using assms(3) by (auto simp: E_ILUSE_val E_OK_def split: if_splits)
  then have "chg_pri_mutex t p s = int (release_scan s None (mtxlist (tcbs s t)) (nat p) (nat p))"
    using chg_pri_scan_release [of s "mtxlist (tcbs s t)" "nat p" low "nat p"] assms(1) by simp
  then show ?thesis using release_scan_min [OF assms(2) order_refl, of None "nat p"] by simp
qed

lemma chg_base_ok:
  fixes t p :: nat
  assumes b: "kern.base_ok {} s" and p: "p < NUM_PRI"
  defines "u \<equiv> upd_tcb t (\<lambda>c. c\<lparr>bpriority := p\<rparr>) s"
  shows "kern.base_ok {} u" and "claims u t = p # concat (map (mtx_claims s) (mtxlist (tcbs s t)))"
    and "x \<noteq> t \<Longrightarrow> claims u x = claims s x"
proof -
  have k: "kinv s" and o: "objs_ok s" and m: "mtab_ok s" and pl: "placed s" and ow: "mtx_own {} s" and bp: "\<And>x. bpriority (tcbs s x) < NUM_PRI"
    using b by (simp_all add: kern.base_ok_def)
  have t0: "touches {} s u" "objs_same s u" by (auto simp: u_def wview_def intro!: touchesI)
  have "kinv u" unfolding u_def by (rule kinv_tcb_upd [OF k]) simp_all
  moreover have "objs_ok u" by (rule kern.foreign [OF o t0(2) touches_mono [OF t0(1)]]) simp
  moreover have "mtab_ok u" using mtx_tab.table_ok_elsewhere [OF mtx_tab.same_objs [OF t0(2)] t0(1)] m by simp
  moreover have "placed u" using pl unfolding placed_def well_placed_def u_def by simp
  moreover have "mtx_own {} u" using ow by (simp add: mtx_own_def u_def mtxcb_def)
  ultimately show "kern.base_ok {} u" using bp p by (simp add: kern.base_ok_def u_def)
  have c: "mtx_claims u = mtx_claims s"
    by (simp add: fun_eq_iff mtx_claims_def mtx_proto_def mtxcb_def u_def)
  show "claims u t = p # concat (map (mtx_claims s) (mtxlist (tcbs s t)))" "x \<noteq> t \<Longrightarrow> claims u x = claims s x"
    by (simp_all add: claims_def c) (simp_all add: u_def)
qed

lemma tk_chg_pri_ok:
  assumes inv: "kern.pri_inv {} s" and ini: "\<And>t. get_tcb_self prid s tid = Some t \<Longrightarrow> ipriority (tcbs s t) < NUM_PRI"
    and r: "\<And>t. get_tcb_self prid s tid = Some t \<Longrightarrow> mp_check_domain_and_protection_tsk prid s tid (tskid (tcbs s t)) (tskatr (tcbs s t)) \<noteq> None"
    and c: "tid = TSK_SELF \<Longrightarrow> ctxtsk s prid \<noteq> None"
  shows "\<exists>e s'. tk_chg_pri prid tid tskpri s = Some (e, s') \<and> kern.pri_inv {} s'"
proof -
  have en: "\<exists>s'. end_critical e s = Some (e, s') \<and> kern.pri_inv {} s'" for e by (rule kern.pri_inv_end_ex [OF inv])
  show ?thesis
  proof (cases "guards [CHECK_TSKID_SELF prid s tid, CHECK_PRI_INI tskpri]")
    case (Some e)
    then show ?thesis using inv by (simp add: tk_chg_pri_def tsk_call_def)
  next
    case g: None
    obtain t where t: "get_tcb_self prid s tid = Some t" using c by (cases "tid = TSK_SELF") (auto simp: get_tcb_self_def)
    obtain x where x: "mp_check_domain_and_protection_tsk prid s tid (tskid (tcbs s t)) (tskatr (tcbs s t)) = Some x" using r [OF t] by auto
    define p where "p = (if tskpri = TPRI_INI then int (ipriority (tcbs s t)) else int_priority tskpri)"
    have p: "0 \<le> p" "nat p < NUM_PRI"
      using g ini [OF t] by (auto simp: p_def guards_None CHECK_PRI_INI_def CHK_PRI_def int_priority_def MIN_PRI_def MAX_PRI_def NUM_PRI_def)
    have b: "kern.base_ok {} s" and po: "\<And>u. pri_ok s u" using inv by (simp_all add: kern.pri_inv_def)
    have body: "\<exists>e s'. (if chg_pri_mutex t p s < E_OK then end_critical (chg_pri_mutex t p s) s
        else do { s \<leftarrow> change_task_priority chg_pri_hooks t (nat (chg_pri_mutex t p s)) (upd_tcb t (\<lambda>c. c\<lparr>bpriority := nat p\<rparr>) s);
                  end_critical E_OK s }) = Some (e, s') \<and> kern.pri_inv {} s'"
    proof (cases "chg_pri_mutex t p s < E_OK")
      case True
      then show ?thesis using en [of "chg_pri_mutex t p s"] by auto
    next
      case False
      let ?u = "upd_tcb t (\<lambda>c. c\<lparr>bpriority := nat p\<rparr>) s" and ?q = "nat (chg_pri_mutex t p s)"
      note u = chg_base_ok [OF b p(2), of t]
      have q: "?q = Min (set (claims ?u t))"
        using chg_pri_mutex_min [OF p(1) kern.base_ok_sorted [OF b] False] by (simp add: u(2))
      then have m: "is_min (set (claims ?u t)) ?q" by (subst is_min_set) (simp_all add: claims_def)
      then have "?q \<le> nat p" by (simp add: u(2) is_min_def)
      then have "kern.chain_pre {} t ?q ?u"
        using u(1) m p(2) po chg_base_ok(3) [OF b p(2)] by (auto simp: kern.chain_pre_def pri_ok_def)
      from kern.change_priority_ok [OF this] obtain s1 where s1: "change_task_priority chg_pri_hooks t ?q ?u = Some s1" "kern.chain_post {} ?u s1" by blast
      then show ?thesis using False kern.pri_inv_end_ex [OF kern.chain_post_inv [OF s1(2)], of E_OK] by auto
    qed
    show ?thesis
      unfolding tk_chg_pri_def tsk_call_def using g t x body en [of E_NOEXS] en [of x]
      by (simp add: leave_critical_def Let_def p_def [symmetric]) auto
  qed
qed

end
