(* ===== verification/Time_Calls.thy ===== *)
theory Time_Calls
  imports Task_Sync "HOL-Library.Signed_Division"
begin

text \<open>
  Time management, \<^verbatim>\<open>time_calls.c\<close>: the clock, task delay, cyclic and alarm handlers. The timer event of
  a handler is in the timer queue, or, once its time has come, in the handler queue of the processor that runs it.
  User handlers are not part of the source: \<open>uh\<close> is the effect of a call of one, of everything that happens between
  \<open>LEAVE_CRITICAL_SECTION\<close> and \<open>ENTER_CRITICAL_SECTION\<close>.
\<close>

section \<open>The clock\<close>

definition ll_sub :: "LL \<Rightarrow> LL \<Rightarrow> LL" where
  "ll_sub a b = a - b"

definition ll_sign :: "LL \<Rightarrow> int" where
  "ll_sign a = sint a"

definition ll_inc :: "LL \<Rightarrow> LL" where
  "ll_inc a = a + 1"

text \<open>The unsigned operand is converted to \<open>longlong\<close>, so division and product are signed.\<close>

definition lui_div :: "LL \<Rightarrow> UW \<Rightarrow> LL" where
  "lui_div a b = word_of_int (sint a sdiv uint b)"

definition lui_mul :: "LL \<Rightarrow> UW \<Rightarrow> LL" where
  "lui_mul a b = a * ucast b"

record SYSTIM =
  st_hi :: int
  st_lo :: UW

definition toLSYSTIM :: "SYSTIM \<Rightarrow> LL" where
  "toLSYSTIM tim = push_bit 32 (word_of_int (st_hi tim)) OR ucast (st_lo tim)"

definition toSYSTIM :: "LL \<Rightarrow> SYSTIM" where
  "toSYSTIM l = \<lparr>st_hi = sint l div 2 ^ 32, st_lo = ucast l\<rparr>"

definition real_time :: "kstate \<Rightarrow> LL" where
  "real_time s = ll_add (current_time s) (real_time_ofs s)"

definition tk_set_tim :: "SYSTIM \<Rightarrow> kstate \<Rightarrow> ER \<times> kstate" where
  "tk_set_tim tim s =
    (case guards [CHECK_PAR (st_hi tim \<ge> 0)] of
       Some e \<Rightarrow> (e, s)
     | None \<Rightarrow> (E_OK, s\<lparr>real_time_ofs := ll_sub (toLSYSTIM tim) (current_time s)\<rparr>))"

definition tk_get_tim :: "kstate \<Rightarrow> ER \<times> SYSTIM" where
  "tk_get_tim s = (E_OK, toSYSTIM (real_time s))"

definition tk_get_otm :: "kstate \<Rightarrow> ER \<times> SYSTIM" where
  "tk_get_otm s = (E_OK, toSYSTIM (current_time s))"

text \<open>The nanoseconds are read from the hardware timer.\<close>

definition td_get_tim :: "UW \<Rightarrow> kstate \<Rightarrow> ER \<times> SYSTIM \<times> UW" where
  "td_get_tim nsec s = (E_OK, toSYSTIM (real_time s), nsec)"

definition td_get_otm :: "UW \<Rightarrow> kstate \<Rightarrow> ER \<times> SYSTIM \<times> UW" where
  "td_get_otm nsec s = (E_OK, toSYSTIM (current_time s), nsec)"

section \<open>Task delay\<close>

definition tk_dly_tsk :: "nat \<Rightarrow> UW \<Rightarrow> kstate \<Rightarrow> (ER \<times> kstate) option" where
  "tk_dly_tsk prid dlytim s =
    (case guards [CHECK_DISPATCH prid s] of
       Some e \<Rightarrow> Some (e, s)
     | None \<Rightarrow>
         if dlytim > 0 then do {
           t \<leftarrow> ctxtsk s prid;
           if waitmask (tcbs s t) AND TTW_DLY \<noteq> 0 then end_critical E_DISWAI s
           else do {
             s \<leftarrow> make_wait_reltim prid dlytim 0 (upd_tcb t (\<lambda>c. c\<lparr>wspec := Wspec_dly, wid := 0, wercd := E_OK\<rparr>) s);
             end_critical (wercd (tcbs s t)) s
           }
         } else Some (E_OK, s))"

section \<open>Processors and handler queues\<close>

definition bit_tbl :: "nat list" where
  "bit_tbl = [0, 0, 1, 0, 2, 0, 1, 0, 3, 0, 1, 0, 2, 0, 1, 0]"

fun assprc_scan :: "nat \<Rightarrow> UW \<Rightarrow> nat \<Rightarrow> nat" where
  "assprc_scan 0 asp prid = 0"
| "assprc_scan (Suc i) asp prid =
    (let b = asp AND 0xf
     in if b \<noteq> 0 then prid + bit_tbl ! unat b else assprc_scan i (drop_bit 4 asp) (prid + 4))"

definition assprc_to_prid :: "UW \<Rightarrow> nat" where
  "assprc_to_prid asp = (if asp \<noteq> 0 then assprc_scan 8 asp 0 else 0)"

definition chk_assprc :: "kstate \<Rightarrow> UW \<Rightarrow> bool" where
  "chk_assprc s asp \<longleftrightarrow> \<not> (asp = 0 \<or> asp AND NOT (ALL_CORE_BIT s) \<noteq> 0 \<or> asp AND (asp - 1) \<noteq> 0)"

definition upd_hq :: "nat \<Rightarrow> (HDRQUE \<Rightarrow> HDRQUE) \<Rightarrow> kstate \<Rightarrow> kstate" where
  "upd_hq p f s = s\<lparr>ko := (ko s)\<lparr>handler_queue := (handler_queue (ko s))(p := f (handler_queue (ko s) p))\<rparr>\<rparr>"

definition handler_initialize :: "kstate \<Rightarrow> kstate" where
  "handler_initialize s = foldl (\<lambda>s p. upd_hq p (\<lambda>_. \<lparr>hq_upd = False, hq_act = False, hdrque = []\<rparr>) s) s [0..<MAX_PROC]"

definition enqueue_handler :: "nat \<Rightarrow> tmeb_ref \<Rightarrow> callback \<Rightarrow> kstate \<Rightarrow> kstate" where
  "enqueue_handler p e cback s =
    (let s = upd_tmeb e (\<lambda>x. x\<lparr>tm_callback := Some cback\<rparr>) s
     in upd_hq p (\<lambda>h. h\<lparr>hdrque := hdrque h @ [e], hq_upd := True\<rparr>) s)"

text \<open>The entry of a handler's event may be in the timer queue or in a handler queue when \<open>timer_delete\<close> unlinks it.\<close>

definition event_delete :: "tmeb_ref \<Rightarrow> kstate \<Rightarrow> kstate" where
  "event_delete e s =
    (let s = timer_delete e s
     in s\<lparr>ko := (ko s)\<lparr>handler_queue := \<lambda>p. (handler_queue (ko s) p)\<lparr>hdrque := remove1 e (hdrque (handler_queue (ko s) p))\<rparr>\<rparr>\<rparr>)"

definition chq_step :: "UW \<times> kstate \<Rightarrow> nat \<Rightarrow> UW \<times> kstate" where
  "chq_step st i =
    (case st of (asp, s) \<Rightarrow>
      (let h = handler_queue (ko s) i
       in if hq_upd h \<and> \<not> hq_act h then (asp OR push_bit i 1, upd_hq i (\<lambda>h. h\<lparr>hq_act := True, hq_upd := False\<rparr>) s)
          else (asp, upd_hq i (\<lambda>h. h\<lparr>hq_upd := False\<rparr>) s)))"

definition check_handler_queue :: "kstate \<Rightarrow> UW \<times> kstate" where
  "check_handler_queue s = foldl chq_step (0, s) [0..<MAX_PROC]"

text \<open>The loop runs until the queue is empty; whether it becomes so is up to the user handlers.\<close>

partial_function (option) hdr_loop :: "nat \<Rightarrow> (callback \<Rightarrow> kstate \<Rightarrow> kstate option) \<Rightarrow> kstate \<Rightarrow> kstate option" where
  "hdr_loop prid cb s =
    (case hdrque (handler_queue (ko s) prid) of
       [] \<Rightarrow> Some s
     | e # es \<Rightarrow>
         (let s = upd_hq prid (\<lambda>h. h\<lparr>hdrque := es\<rparr>) s
          in case tm_callback (tmeb_at s e) of
               None \<Rightarrow> None
             | Some f \<Rightarrow> do { s \<leftarrow> cb f s; hdr_loop prid cb s }))"

definition handler_execution :: "nat \<Rightarrow> (callback \<Rightarrow> kstate \<Rightarrow> kstate option) \<Rightarrow> kstate \<Rightarrow> kstate option" where
  "handler_execution prid cb s = do {
     s \<leftarrow> hdr_loop prid cb s;
     Some (upd_hq prid (\<lambda>h. h\<lparr>hq_act := False\<rparr>) s)
   }"

text \<open>The other processors are notified by an interrupt.\<close>

definition handler_request :: "nat \<Rightarrow> UW \<Rightarrow> bool" where
  "handler_request prid asp \<longleftrightarrow> asp AND push_bit prid 1 \<noteq> 0"

definition handler_update :: "nat \<Rightarrow> (callback \<Rightarrow> kstate \<Rightarrow> kstate option) \<Rightarrow> UW \<Rightarrow> kstate \<Rightarrow> kstate option" where
  "handler_update prid cb asp s =
    (if asp \<noteq> 0 \<and> handler_request prid asp then handler_execution prid cb s else Some s)"

text \<open>The effect of a call of the user handler at an address, with the extended information as argument.\<close>

type_synonym uhandler = "UW \<Rightarrow> UW \<Rightarrow> kstate \<Rightarrow> kstate option"

definition in_task_indep :: "nat \<Rightarrow> (kstate \<Rightarrow> kstate option) \<Rightarrow> kstate \<Rightarrow> kstate option" where
  "in_task_indep prid f s = do {
     s' \<leftarrow> f (s\<lparr>task_indep := (task_indep s)(prid := True)\<rparr>);
     Some (s'\<lparr>task_indep := (task_indep s')(prid := task_indep s prid)\<rparr>)
   }"

section \<open>Cyclic handlers\<close>

definition TA_STA :: ATR where "TA_STA = 0x00000002"
definition TA_PHS :: ATR where "TA_PHS = 0x00000004"
definition TCYC_STP :: UW where "TCYC_STP = 0x00"
definition TCYC_STA :: UW where "TCYC_STA = 0x01"
definition TCYC_RUN :: UW where "TCYC_RUN = 0x02"
definition TCYC_IMM :: UW where "TCYC_IMM = 0x04"

definition cyccb :: "kstate \<Rightarrow> nat \<Rightarrow> CYCCB" where
  "cyccb s i = cbs (cyctab (ko s)) i"

definition set_cyctab :: "CYCCB objtab \<Rightarrow> kstate \<Rightarrow> kstate" where
  "set_cyctab m s = s\<lparr>ko := (ko s)\<lparr>cyctab := m\<rparr>\<rparr>"

definition upd_cyc :: "nat \<Rightarrow> (CYCCB \<Rightarrow> CYCCB) \<Rightarrow> kstate \<Rightarrow> kstate" where
  "upd_cyc i f s = set_cyctab ((cyctab (ko s))\<lparr>cbs := (cbs (cyctab (ko s)))(i := f (cbs (cyctab (ko s)) i))\<rparr>) s"

definition set_free_cyc :: "nat list \<Rightarrow> kstate \<Rightarrow> kstate" where
  "set_free_cyc q s = set_cyctab ((cyctab (ko s))\<lparr>freeq := q\<rparr>) s"

definition get_cycstat :: "CYCCB \<Rightarrow> UW" where
  "get_cycstat c = cycstat c AND NOT (TCYC_RUN OR TCYC_IMM)"

definition is_cyc_assprc :: "CYCCB \<Rightarrow> bool" where
  "is_cyc_assprc c \<longleftrightarrow> cycatr c AND TA_ASSPRC \<noteq> 0"

text \<open>\<open>size\<close> is what \<open>_tk_get_cfn\<close> answers, \<open>None\<close> for an error; \<open>got\<close> tells whether there is memory for the table.\<close>

definition cyclichandler_initialize :: "int option \<Rightarrow> bool \<Rightarrow> kstate \<Rightarrow> ER \<times> kstate" where
  "cyclichandler_initialize sz got s =
    (case sz of
       None \<Rightarrow> (E_SYS, s)
     | Some m \<Rightarrow>
         (let s = set_cyctab ((cyctab (ko s))\<lparr>maxid := nat m\<rparr>) s
          in if m < 1 then (E_SYS, s)
             else if \<not> got then (E_NOMEM, s)
             else (E_OK, set_cyctab \<lparr>cbs = (\<lambda>i. if i < nat m then (cyccb s i)\<lparr>cychdr := 0, cycid := 0, cycno := 0\<rparr> else cyccb s i),
                                     freeq = [0..<nat m], maxid = nat m\<rparr> s)))"

definition cyc_next_time :: "kstate \<Rightarrow> nat \<Rightarrow> LL" where
  "cyc_next_time s i =
    (let tm0 = tm_time (cyc_tmeb s i);
         period = cyctim (cyccb s i);
         tm = ll_add tm0 (uitoll period)
     in if ll_cmp tm (current_time s) \<le> 0 then
          (let tm = ll_sub (current_time s) tm0;
               n = ll_inc (lui_div tm period)
           in ll_add tm0 (lui_mul n period))
        else tm)"

definition distribute_cychdr :: "nat \<Rightarrow> nat \<Rightarrow> kstate \<Rightarrow> kstate" where
  "distribute_cychdr prid i s =
    enqueue_handler (if is_cyc_assprc (cyccb s i) then assprc_to_prid (cyc_assprc (cyccb s i)) else prid) (TmCyc i) (Cb_call (TmCyc i)) s"

definition cyc_timer_insert :: "nat \<Rightarrow> LL \<Rightarrow> kstate \<Rightarrow> kstate" where
  "cyc_timer_insert i tm s = timer_insert_abs (TmCyc i) tm (Some (Cb_distribute (TmCyc i))) s"

text \<open>\<open>para\<close> is the copy of the control block; only its number tells afterwards whether it is still the same handler.\<close>

definition call_cychdr :: "uhandler \<Rightarrow> nat \<Rightarrow> kstate \<Rightarrow> kstate option" where
  "call_cychdr uh i s =
    (let s = cyc_timer_insert i (cyc_next_time s i) s;
         s = upd_cyc i (\<lambda>c. c\<lparr>cycstat := cycstat c OR TCYC_RUN\<rparr>) s;
         para = cyccb s i
     in do {
       s \<leftarrow> uh (cychdr para) (cyc_exinf para) s;
       Some (if cycno para = cycno (cyccb s i) then upd_cyc i (\<lambda>c. c\<lparr>cycstat := cycstat c AND NOT TCYC_RUN\<rparr>) s else s)
     })"

definition immediate_call_cychdr :: "(callback \<Rightarrow> kstate \<Rightarrow> kstate option) \<Rightarrow> uhandler \<Rightarrow> nat \<Rightarrow> nat \<Rightarrow> kstate \<Rightarrow> kstate option" where
  "immediate_call_cychdr cb uh prid i s =
    (if is_cyc_assprc (cyccb s i) then
       (case check_handler_queue (distribute_cychdr prid i s) of (asp, s) \<Rightarrow> handler_update prid cb asp s)
     else
       (let s = cyc_timer_insert i (cyc_next_time s i) s;
            s = upd_cyc i (\<lambda>c. c\<lparr>cycstat := cycstat c OR (TCYC_RUN OR TCYC_IMM)\<rparr>) s;
            para = cyccb s i
        in do {
          s \<leftarrow> in_task_indep prid (uh (cychdr para) (cyc_exinf para)) s;
          Some (if cycno para = cycno (cyccb s i) then upd_cyc i (\<lambda>c. c\<lparr>cycstat := cycstat c AND NOT (TCYC_RUN OR TCYC_IMM)\<rparr>) s else s)
        }))"

section \<open>Alarm handlers\<close>

definition TALM_STP :: UW where "TALM_STP = 0x00"
definition TALM_STA :: UW where "TALM_STA = 0x01"
definition TALM_RUN :: UW where "TALM_RUN = 0x02"
definition TALM_IMM :: UW where "TALM_IMM = 0x04"

definition almcb :: "kstate \<Rightarrow> nat \<Rightarrow> ALMCB" where
  "almcb s i = cbs (almtab (ko s)) i"

definition set_almtab :: "ALMCB objtab \<Rightarrow> kstate \<Rightarrow> kstate" where
  "set_almtab m s = s\<lparr>ko := (ko s)\<lparr>almtab := m\<rparr>\<rparr>"

definition upd_alm :: "nat \<Rightarrow> (ALMCB \<Rightarrow> ALMCB) \<Rightarrow> kstate \<Rightarrow> kstate" where
  "upd_alm i f s = set_almtab ((almtab (ko s))\<lparr>cbs := (cbs (almtab (ko s)))(i := f (cbs (almtab (ko s)) i))\<rparr>) s"

definition set_free_alm :: "nat list \<Rightarrow> kstate \<Rightarrow> kstate" where
  "set_free_alm q s = set_almtab ((almtab (ko s))\<lparr>freeq := q\<rparr>) s"

definition get_almstat :: "ALMCB \<Rightarrow> UW" where
  "get_almstat c = almstat c AND NOT (TALM_RUN OR TALM_IMM)"

definition is_alm_assprc :: "ALMCB \<Rightarrow> bool" where
  "is_alm_assprc c \<longleftrightarrow> almatr c AND TA_ASSPRC \<noteq> 0"

definition is_alm_run :: "ALMCB \<Rightarrow> bool" where
  "is_alm_run c \<longleftrightarrow> almstat c AND TALM_RUN \<noteq> 0"

definition is_alm_imm :: "ALMCB \<Rightarrow> bool" where
  "is_alm_imm c \<longleftrightarrow> almstat c AND TALM_IMM \<noteq> 0"

definition alarmhandler_initialize :: "int option \<Rightarrow> bool \<Rightarrow> kstate \<Rightarrow> ER \<times> kstate" where
  "alarmhandler_initialize sz got s =
    (case sz of
       None \<Rightarrow> (E_SYS, s)
     | Some m \<Rightarrow>
         (let s = set_almtab ((almtab (ko s))\<lparr>maxid := nat m\<rparr>) s
          in if m < 1 then (E_SYS, s)
             else if \<not> got then (E_NOMEM, s)
             else (E_OK, set_almtab \<lparr>cbs = (\<lambda>i. if i < nat m then (almcb s i)\<lparr>almhdr := 0, almid := 0, almno := 0\<rparr> else almcb s i),
                                     freeq = [0..<nat m], maxid = nat m\<rparr> s)))"

definition call_almhdr :: "uhandler \<Rightarrow> nat \<Rightarrow> kstate \<Rightarrow> kstate option" where
  "call_almhdr uh i s =
    (let s = upd_alm i (\<lambda>c. c\<lparr>almstat := almstat c AND NOT TALM_STA\<rparr>) s;
         s = upd_alm i (\<lambda>c. c\<lparr>almstat := almstat c OR TALM_RUN\<rparr>) s;
         para = almcb s i
     in do {
       s \<leftarrow> uh (almhdr para) (alm_exinf para) s;
       Some (if almno para = almno (almcb s i) then upd_alm i (\<lambda>c. c\<lparr>almstat := almstat c AND NOT TALM_RUN\<rparr>) s else s)
     })"

definition distribute_almhdr :: "nat \<Rightarrow> nat \<Rightarrow> kstate \<Rightarrow> kstate" where
  "distribute_almhdr prid i s =
    enqueue_handler (if is_alm_assprc (almcb s i) then assprc_to_prid (alm_assprc (almcb s i)) else prid) (TmAlm i) (Cb_call (TmAlm i)) s"

definition immediate_call_almhdr :: "(callback \<Rightarrow> kstate \<Rightarrow> kstate option) \<Rightarrow> uhandler \<Rightarrow> nat \<Rightarrow> nat \<Rightarrow> kstate \<Rightarrow> kstate option" where
  "immediate_call_almhdr cb uh prid i s =
    (if is_alm_assprc (almcb s i) then
       (let s = upd_alm i (\<lambda>c. c\<lparr>almstat := almstat c OR TALM_STA\<rparr>) s
        in case check_handler_queue (distribute_almhdr prid i s) of (asp, s) \<Rightarrow> handler_update prid cb asp s)
     else
       (let s = upd_alm i (\<lambda>c. c\<lparr>almstat := almstat c AND NOT TALM_STA\<rparr>) s;
            s = upd_alm i (\<lambda>c. c\<lparr>almstat := almstat c OR (TALM_RUN OR TALM_IMM)\<rparr>) s;
            para = almcb s i
        in do {
          s \<leftarrow> in_task_indep prid (uh (almhdr para) (alm_exinf para)) s;
          Some (if almno para = almno (almcb s i) then upd_alm i (\<lambda>c. c\<lparr>almstat := almstat c AND NOT (TALM_RUN OR TALM_IMM)\<rparr>) s else s)
        }))"

definition alm_timer_insert :: "nat \<Rightarrow> UW \<Rightarrow> kstate \<Rightarrow> kstate" where
  "alm_timer_insert i reltim s =
    timer_insert_abs (TmAlm i) (ll_add (ll_add (current_time s) (uitoll reltim)) (uitoll (timer_period s))) (Some (Cb_distribute (TmAlm i))) s"

text \<open>The callback functions of the handlers' events, as the handler queue calls them.\<close>

fun hdr_callback :: "uhandler \<Rightarrow> nat \<Rightarrow> callback \<Rightarrow> kstate \<Rightarrow> kstate option" where
  "hdr_callback uh prid (Cb_distribute (TmCyc i)) s = Some (distribute_cychdr prid i s)"
| "hdr_callback uh prid (Cb_distribute (TmAlm i)) s = Some (distribute_almhdr prid i s)"
| "hdr_callback uh prid (Cb_call (TmCyc i)) s = call_cychdr uh i s"
| "hdr_callback uh prid (Cb_call (TmAlm i)) s = call_almhdr uh i s"
| "hdr_callback uh prid _ s = None"

section \<open>The shape of the system calls\<close>

text \<open>
  An entry without a handler is unused; in this, not in the identifier, the calls differ from those on other objects.
  \<open>reg\<close> tells whether an entry has a handler.
\<close>

definition hdr_call :: "(kstate \<Rightarrow> nat \<Rightarrow> bool) \<Rightarrow> bool \<Rightarrow> (bool \<times> ER) list \<Rightarrow> nat \<Rightarrow> objops \<Rightarrow> ID \<Rightarrow>
    (nat \<Rightarrow> kstate \<Rightarrow> (ER \<times> kstate) option) \<Rightarrow> kstate \<Rightarrow> (ER \<times> kstate) option" where
  "hdr_call reg dsp gs prid ops oid body s =
    (case guards gs of
       Some e \<Rightarrow> Some (e, s)
     | None \<Rightarrow>
         (let i = INDEX_OBJ oid
          in if \<not> reg s i then leave_critical dsp E_NOEXS s
             else do {
               ercd \<leftarrow> mp_check_domain_and_protection prid s oid (oo_id ops s i) (oo_atr ops s i);
               if ercd \<noteq> E_OK then leave_critical dsp ercd s else body i s
             }))"

text \<open>\<open>init\<close> fills the control block; \<open>start\<close> is what follows the registration.\<close>

definition hdr_cre :: "bool \<Rightarrow> (bool \<times> ER) list \<Rightarrow> nat \<Rightarrow> objops \<Rightarrow> ATR \<Rightarrow> ID \<Rightarrow> UB list \<Rightarrow>
    (nat \<Rightarrow> ID \<Rightarrow> kstate \<Rightarrow> kstate) \<Rightarrow> (nat \<Rightarrow> kstate \<Rightarrow> kstate option) \<Rightarrow> kstate \<Rightarrow> (ER \<times> kstate) option" where
  "hdr_cre dsp gs prid ops atr did oname init start s =
    (case guards gs of
       Some e \<Rightarrow> Some (e, s)
     | None \<Rightarrow> do {
         r \<leftarrow> cre_prologue prid ops atr did oname s;
         case r of
           Inl e \<Rightarrow> leave_critical dsp e s
         | Inr (did, oname) \<Rightarrow>
             (case oo_free ops s of
                [] \<Rightarrow> leave_critical dsp E_LIMIT s
              | i # q \<Rightarrow>
                  (let s = oo_set_free ops q s;
                       oid = MP_GEN_DOMIDPART did OR ID_OBJ i;
                       s = oo_set_name ops i (name_copy oname) (init i oid s);
                       s = mp_register_object_in_domain did (oo_type ops) (INDEX_OBJ oid) oname s
                   in do { s \<leftarrow> start i s; leave_critical dsp (sint oid) s }))
       })"

definition hdr_ref :: "(kstate \<Rightarrow> nat \<Rightarrow> bool) \<Rightarrow> (bool \<times> ER) list \<Rightarrow> nat \<Rightarrow> objops \<Rightarrow> ID \<Rightarrow> (nat \<Rightarrow> 'r) \<Rightarrow> kstate \<Rightarrow> (ER \<times> 'r option) option" where
  "hdr_ref reg gs prid ops oid body s =
    (case guards gs of
       Some e \<Rightarrow> Some (e, None)
     | None \<Rightarrow>
         (let i = INDEX_OBJ oid
          in if \<not> reg s i then Some (E_NOEXS, None)
             else do {
               ercd \<leftarrow> mp_check_domain_and_protection prid s oid (oo_id ops s i) (oo_atr ops s i);
               Some (ercd, if ercd = E_OK then Some (body i) else None)
             }))"

definition hdr_td_ref :: "(kstate \<Rightarrow> nat \<Rightarrow> bool) \<Rightarrow> (bool \<times> ER) list \<Rightarrow> objops \<Rightarrow> ID \<Rightarrow> (nat \<Rightarrow> 'r) \<Rightarrow> kstate \<Rightarrow> ER \<times> 'r option" where
  "hdr_td_ref reg gs ops oid body s =
    (case guards gs of
       Some e \<Rightarrow> (e, None)
     | None \<Rightarrow>
         (let i = INDEX_OBJ oid
          in if \<not> reg s i then (E_NOEXS, None)
             else if \<not> MP_CMP_DOMIDPART oid (oo_id ops s i) then (E_NOEXS, None)
             else (E_OK, Some (body i))))"

definition hdr_dmi :: "objops \<Rightarrow> kstate \<Rightarrow> nat \<Rightarrow> T_DMI" where
  "hdr_dmi ops s i = \<lparr>dmi_domatr = MP_GET_DOMATR (oo_atr ops s i), dmi_domid = mp_get_domid_from_id s (oo_id ops s i),
     dmi_kdmid = MP_KDMID_SELF, dmi_oname = oo_name ops s i\<rparr>"

definition hdr_name_call :: "(kstate \<Rightarrow> nat \<Rightarrow> bool) \<Rightarrow> (bool \<times> ER) list \<Rightarrow> objops \<Rightarrow> ID \<Rightarrow> kstate \<Rightarrow> ER" where
  "hdr_name_call reg gs ops oid s =
    (case guards gs of
       Some e \<Rightarrow> e
     | None \<Rightarrow>
         (let i = INDEX_OBJ oid
          in if \<not> reg s i then E_NOEXS
             else if \<not> MP_CMP_DOMIDPART oid (oo_id ops s i) then E_NOEXS
             else if oo_atr ops s i AND TA_ONAME = 0 then E_OBJ
             else E_OK))"

definition hdr_getname :: "(kstate \<Rightarrow> nat \<Rightarrow> bool) \<Rightarrow> (bool \<times> ER) list \<Rightarrow> objops \<Rightarrow> ID \<Rightarrow> kstate \<Rightarrow> ER \<times> UB list option" where
  "hdr_getname reg gs ops oid s =
    (let e = hdr_name_call reg gs ops oid s in (e, if e = E_OK then Some (oo_name ops s (INDEX_OBJ oid)) else None))"

definition hdr_setname :: "(kstate \<Rightarrow> nat \<Rightarrow> bool) \<Rightarrow> (bool \<times> ER) list \<Rightarrow> objops \<Rightarrow> ID \<Rightarrow> UB list \<Rightarrow> kstate \<Rightarrow> ER \<times> kstate" where
  "hdr_setname reg gs ops oid name s =
    (let e = hdr_name_call reg gs ops oid s
     in if e \<noteq> E_OK then (e, s)
        else mp_change_oname (oo_type ops) (oo_name ops s) (oo_set_name ops) oid name (INDEX_OBJ oid) s)"

definition hdr_lst :: "(kstate \<Rightarrow> nat \<Rightarrow> bool) \<Rightarrow> objops \<Rightarrow> int \<Rightarrow> kstate \<Rightarrow> int \<times> ID list" where
  "hdr_lst reg ops nent s =
    (let ids = map (oo_id ops s) (filter (reg s) [0..<oo_max ops s]) in (int (length ids), take (nat nent) ids))"

text \<open>The time left until an event, rounded down to whole periods that have not begun.\<close>

definition time_left :: "kstate \<Rightarrow> LL \<Rightarrow> UW" where
  "time_left s tm =
    (let tm = ll_sub (ll_sub tm (current_time s)) (uitoll (timer_period s))
     in ucast (if ll_sign tm < 0 then ltoll 0 else tm))"

section \<open>System calls on cyclic handlers\<close>

record T_CCYC =
  ccyc_exinf :: UW
  ccyc_cycatr :: ATR
  ccyc_cychdr :: UW
  ccyc_cyctim :: UW
  ccyc_cycphs :: UW
  ccyc_domid :: ID
  ccyc_assprc :: UW
  ccyc_oname :: "UB list"

record T_RCYC =
  rcyc_exinf :: UW
  rcyc_lfttim :: UW
  rcyc_cycstat :: UW

definition VALID_CYCATR :: ATR where
  "VALID_CYCATR = TA_HLNG OR TA_STA OR TA_PHS OR TA_DOMID OR TA_ONAME OR TA_ASSPRC OR TA_PRIVATE OR TA_PROTECTED OR TA_PUBLIC"

definition cyc_ops :: objops where
  "cyc_ops = \<lparr>oo_type = OT_CYC, oo_dispatch = False, oo_max = \<lambda>s. maxid (cyctab (ko s)), oo_id = \<lambda>s i. cycid (cyccb s i),
     oo_atr = \<lambda>s i. cycatr (cyccb s i), oo_name = \<lambda>s i. cyc_oname (cyccb s i),
     oo_set_name = \<lambda>i nm. upd_cyc i (\<lambda>c. c\<lparr>cyc_oname := nm\<rparr>), oo_free = \<lambda>s. freeq (cyctab (ko s)),
     oo_set_free = set_free_cyc, oo_set_id = \<lambda>i x. upd_cyc i (\<lambda>c. c\<lparr>cycid := x\<rparr>)\<rparr>"

definition cyc_reg :: "kstate \<Rightarrow> nat \<Rightarrow> bool" where
  "cyc_reg s i \<longleftrightarrow> cychdr (cyccb s i) \<noteq> 0"

definition ccyc_guards :: "T_CCYC \<Rightarrow> kstate \<Rightarrow> (bool \<times> ER) list" where
  "ccyc_guards pk s =
    [CHECK_RSATR (ccyc_cycatr pk) VALID_CYCATR, CHECK_PAR (ccyc_cychdr pk \<noteq> 0), CHECK_PAR (ccyc_cyctim pk > 0), CHECK_PATR (ccyc_cycatr pk)] @
    (if ccyc_cycatr pk AND TA_ASSPRC \<noteq> 0 then [CHECK_PAR (chk_assprc s (ccyc_assprc pk))] else []) @
    (if ccyc_cycatr pk AND TA_DOMID \<noteq> 0 then [CHECK_DOMID s (ccyc_domid pk)] else [])"

definition cyc_init :: "T_CCYC \<Rightarrow> nat \<Rightarrow> ID \<Rightarrow> kstate \<Rightarrow> kstate" where
  "cyc_init pk i oid = upd_cyc i (\<lambda>c. c\<lparr>cyc_exinf := ccyc_exinf pk, cycatr := ccyc_cycatr pk, cychdr := ccyc_cychdr pk,
     cyctim := ccyc_cyctim pk, cyc_assprc := (if ccyc_cycatr pk AND TA_ASSPRC \<noteq> 0 then ccyc_assprc pk else 0), cycid := oid\<rparr>)"

definition cyc_start :: "(callback \<Rightarrow> kstate \<Rightarrow> kstate option) \<Rightarrow> uhandler \<Rightarrow> nat \<Rightarrow> T_CCYC \<Rightarrow> nat \<Rightarrow> kstate \<Rightarrow> kstate option" where
  "cyc_start cb uh prid pk i s =
    (let tm = ll_add (ll_add (current_time s) (uitoll (ccyc_cycphs pk))) (uitoll (timer_period s))
     in if ccyc_cycatr pk AND TA_STA \<noteq> 0 then
          (let s = upd_cyc i (\<lambda>c. c\<lparr>cycstat := TCYC_STA\<rparr>) s
           in if ccyc_cycphs pk = 0 then immediate_call_cychdr cb uh prid i (upd_tmeb (TmCyc i) (\<lambda>x. x\<lparr>tm_time := tm\<rparr>) s)
              else Some (cyc_timer_insert i tm s))
        else Some (upd_tmeb (TmCyc i) (\<lambda>x. x\<lparr>tm_time := tm\<rparr>) (upd_cyc i (\<lambda>c. c\<lparr>cycstat := TCYC_STP\<rparr>) s)))"

definition tk_cre_cyc :: "uhandler \<Rightarrow> nat \<Rightarrow> T_CCYC \<Rightarrow> kstate \<Rightarrow> (ER \<times> kstate) option" where
  "tk_cre_cyc uh prid pk s =
    hdr_cre True (ccyc_guards pk s) prid cyc_ops (ccyc_cycatr pk) (ccyc_domid pk) (ccyc_oname pk)
      (cyc_init pk) (cyc_start (hdr_callback uh prid) uh prid pk) s"

definition tk_del_cyc :: "nat \<Rightarrow> ID \<Rightarrow> kstate \<Rightarrow> (ER \<times> kstate) option" where
  "tk_del_cyc prid oid s =
    hdr_call cyc_reg False [CHECK_CYCID s oid] prid cyc_ops oid
      (\<lambda>i s. let s = (if cycstat (cyccb s i) AND TCYC_STA \<noteq> 0 then event_delete (TmCyc i) s else s);
                 s = mp_unregister_object_in_domain oid OT_CYC i s;
                 s = set_free_cyc (freeq (cyctab (ko s)) @ [i]) s
             in Some (E_OK, upd_cyc i (\<lambda>c. c\<lparr>cychdr := 0, cycid := 0, cycno := cycno c + 1\<rparr>) s)) s"

definition tk_sta_cyc :: "nat \<Rightarrow> ID \<Rightarrow> kstate \<Rightarrow> (ER \<times> kstate) option" where
  "tk_sta_cyc prid oid s =
    hdr_call cyc_reg False [CHECK_CYCID s oid] prid cyc_ops oid
      (\<lambda>i s. let started = (cycstat (cyccb s i) AND TCYC_STA \<noteq> 0);
                 s = (if cycatr (cyccb s i) AND TA_PHS \<noteq> 0 then
                        (if \<not> started then
                           (let tm = tm_time (cyc_tmeb s i)
                            in cyc_timer_insert i (if ll_cmp tm (current_time s) \<le> 0 then cyc_next_time s i else tm) s)
                         else s)
                      else
                        (let s = (if started then event_delete (TmCyc i) s else s)
                         in cyc_timer_insert i (ll_add (ll_add (current_time s) (uitoll (cyctim (cyccb s i)))) (uitoll (timer_period s))) s))
             in Some (E_OK, upd_cyc i (\<lambda>c. c\<lparr>cycstat := cycstat c OR TCYC_STA\<rparr>) s)) s"

definition tk_stp_cyc :: "nat \<Rightarrow> ID \<Rightarrow> kstate \<Rightarrow> (ER \<times> kstate) option" where
  "tk_stp_cyc prid oid s =
    hdr_call cyc_reg False [CHECK_CYCID s oid] prid cyc_ops oid
      (\<lambda>i s. let s = (if cycstat (cyccb s i) AND TCYC_STA \<noteq> 0 then event_delete (TmCyc i) s else s)
             in Some (E_OK, upd_cyc i (\<lambda>c. c\<lparr>cycstat := cycstat c AND NOT TCYC_STA\<rparr>) s)) s"

definition cyc_ref :: "kstate \<Rightarrow> nat \<Rightarrow> T_RCYC" where
  "cyc_ref s i =
    (let tm = tm_time (cyc_tmeb s i);
         tm = (if cycstat (cyccb s i) AND TCYC_STA = 0 \<and> ll_cmp tm (current_time s) \<le> 0 then cyc_next_time s i else tm)
     in \<lparr>rcyc_exinf = cyc_exinf (cyccb s i), rcyc_lfttim = time_left s tm, rcyc_cycstat = get_cycstat (cyccb s i)\<rparr>)"

definition tk_ref_cyc :: "nat \<Rightarrow> ID \<Rightarrow> kstate \<Rightarrow> (ER \<times> T_RCYC option) option" where
  "tk_ref_cyc prid oid s = hdr_ref cyc_reg [CHECK_CYCID s oid] prid cyc_ops oid (cyc_ref s) s"

definition tk_fnd_cyc :: "nat \<Rightarrow> ID \<Rightarrow> UB list \<Rightarrow> kstate \<Rightarrow> (ER \<times> kstate) option" where
  "tk_fnd_cyc prid = obj_fnd prid cyc_ops"

definition tk_dmi_cyc :: "nat \<Rightarrow> ID \<Rightarrow> kstate \<Rightarrow> (ER \<times> T_DMI option) option" where
  "tk_dmi_cyc prid oid s = hdr_ref cyc_reg [CHECK_CYCID s oid] prid cyc_ops oid (hdr_dmi cyc_ops s) s"

definition cyclichandler_getname :: "ID \<Rightarrow> kstate \<Rightarrow> ER \<times> UB list option" where
  "cyclichandler_getname oid s = hdr_getname cyc_reg [CHECK_CYCID s oid] cyc_ops oid s"

definition cyclichandler_setname :: "ID \<Rightarrow> UB list \<Rightarrow> kstate \<Rightarrow> ER \<times> kstate" where
  "cyclichandler_setname oid name s = hdr_setname cyc_reg [CHECK_CYCID s oid] cyc_ops oid name s"

definition td_lst_cyc :: "int \<Rightarrow> kstate \<Rightarrow> int \<times> ID list" where
  "td_lst_cyc = hdr_lst cyc_reg cyc_ops"

definition td_ref_cyc :: "ID \<Rightarrow> kstate \<Rightarrow> ER \<times> T_RCYC option" where
  "td_ref_cyc oid s = hdr_td_ref cyc_reg [CHECK_CYCID s oid] cyc_ops oid (cyc_ref s) s"

definition td_fnd_cyc :: "ID \<Rightarrow> UB list \<Rightarrow> kstate \<Rightarrow> ER" where
  "td_fnd_cyc = obj_td_fnd cyc_ops"

definition td_dmi_cyc :: "ID \<Rightarrow> kstate \<Rightarrow> ER \<times> T_DMI option" where
  "td_dmi_cyc oid s = hdr_td_ref cyc_reg [CHECK_CYCID s oid] cyc_ops oid (hdr_dmi cyc_ops s) s"

section \<open>System calls on alarm handlers\<close>

record T_CALM =
  calm_exinf :: UW
  calm_almatr :: ATR
  calm_almhdr :: UW
  calm_domid :: ID
  calm_assprc :: UW
  calm_oname :: "UB list"

record T_RALM =
  ralm_exinf :: UW
  ralm_lfttim :: UW
  ralm_almstat :: UW

definition VALID_ALMATR :: ATR where
  "VALID_ALMATR = TA_HLNG OR TA_DOMID OR TA_ONAME OR TA_ASSPRC OR TA_PRIVATE OR TA_PROTECTED OR TA_PUBLIC"

definition alm_ops :: objops where
  "alm_ops = \<lparr>oo_type = OT_ALM, oo_dispatch = False, oo_max = \<lambda>s. maxid (almtab (ko s)), oo_id = \<lambda>s i. almid (almcb s i),
     oo_atr = \<lambda>s i. almatr (almcb s i), oo_name = \<lambda>s i. alm_oname (almcb s i),
     oo_set_name = \<lambda>i nm. upd_alm i (\<lambda>c. c\<lparr>alm_oname := nm\<rparr>), oo_free = \<lambda>s. freeq (almtab (ko s)),
     oo_set_free = set_free_alm, oo_set_id = \<lambda>i x. upd_alm i (\<lambda>c. c\<lparr>almid := x\<rparr>)\<rparr>"

definition alm_reg :: "kstate \<Rightarrow> nat \<Rightarrow> bool" where
  "alm_reg s i \<longleftrightarrow> almhdr (almcb s i) \<noteq> 0"

definition calm_guards :: "T_CALM \<Rightarrow> kstate \<Rightarrow> (bool \<times> ER) list" where
  "calm_guards pk s =
    [CHECK_RSATR (calm_almatr pk) VALID_ALMATR, CHECK_PAR (calm_almhdr pk \<noteq> 0), CHECK_PATR (calm_almatr pk)] @
    (if calm_almatr pk AND TA_ASSPRC \<noteq> 0 then [CHECK_PAR (chk_assprc s (calm_assprc pk))] else []) @
    (if calm_almatr pk AND TA_DOMID \<noteq> 0 then [CHECK_DOMID s (calm_domid pk)] else [])"

definition alm_init :: "T_CALM \<Rightarrow> nat \<Rightarrow> ID \<Rightarrow> kstate \<Rightarrow> kstate" where
  "alm_init pk i oid = upd_alm i (\<lambda>c. c\<lparr>alm_exinf := calm_exinf pk, almatr := calm_almatr pk, almhdr := calm_almhdr pk,
     almstat := TALM_STP, alm_assprc := (if calm_almatr pk AND TA_ASSPRC \<noteq> 0 then calm_assprc pk else 0), almid := oid\<rparr>)"

definition tk_cre_alm :: "nat \<Rightarrow> T_CALM \<Rightarrow> kstate \<Rightarrow> (ER \<times> kstate) option" where
  "tk_cre_alm prid pk s =
    hdr_cre False (calm_guards pk s) prid alm_ops (calm_almatr pk) (calm_domid pk) (calm_oname pk) (alm_init pk) (\<lambda>i. Some) s"

definition tk_del_alm :: "nat \<Rightarrow> ID \<Rightarrow> kstate \<Rightarrow> (ER \<times> kstate) option" where
  "tk_del_alm prid oid s =
    hdr_call alm_reg False [CHECK_ALMID s oid] prid alm_ops oid
      (\<lambda>i s. let s = (if almstat (almcb s i) AND TALM_STA \<noteq> 0 then event_delete (TmAlm i) s else s);
                 s = mp_unregister_object_in_domain oid OT_ALM i s;
                 s = set_free_alm (freeq (almtab (ko s)) @ [i]) s
             in Some (E_OK, upd_alm i (\<lambda>c. c\<lparr>almhdr := 0, almid := 0, almno := almno c + 1\<rparr>) s)) s"

definition tk_sta_alm :: "uhandler \<Rightarrow> nat \<Rightarrow> ID \<Rightarrow> UW \<Rightarrow> kstate \<Rightarrow> (ER \<times> kstate) option" where
  "tk_sta_alm uh prid oid almtim s =
    hdr_call alm_reg True [CHECK_ALMID s oid] prid alm_ops oid
      (\<lambda>i s. let c = almcb s i
             in if is_alm_run c \<and> (almtim = 0 \<and> is_alm_imm c \<or> \<not> is_alm_assprc c \<and> (almtim = 0 \<or> is_alm_imm c)) then end_critical E_OBJ s
                else
                  (let s = (if almstat c AND TALM_STA \<noteq> 0 then event_delete (TmAlm i) s else s)
                   in if almtim > 0 then
                        end_critical E_OK (upd_alm i (\<lambda>c. c\<lparr>almstat := almstat c OR TALM_STA\<rparr>) (alm_timer_insert i almtim s))
                      else do {
                        s \<leftarrow> immediate_call_almhdr (hdr_callback uh prid) uh prid i s;
                        end_critical E_OK s
                      })) s"

definition tk_stp_alm :: "nat \<Rightarrow> ID \<Rightarrow> kstate \<Rightarrow> (ER \<times> kstate) option" where
  "tk_stp_alm prid oid s =
    hdr_call alm_reg False [CHECK_ALMID s oid] prid alm_ops oid
      (\<lambda>i s. Some (E_OK, if almstat (almcb s i) AND TALM_STA \<noteq> 0
                         then upd_alm i (\<lambda>c. c\<lparr>almstat := almstat c AND NOT TALM_STA\<rparr>) (event_delete (TmAlm i) s) else s)) s"

definition alm_ref :: "kstate \<Rightarrow> nat \<Rightarrow> T_RALM" where
  "alm_ref s i =
    \<lparr>ralm_exinf = alm_exinf (almcb s i),
     ralm_lfttim = (if almstat (almcb s i) AND TALM_STA \<noteq> 0 then time_left s (tm_time (alm_tmeb s i)) else 0),
     ralm_almstat = get_almstat (almcb s i)\<rparr>"

definition tk_ref_alm :: "nat \<Rightarrow> ID \<Rightarrow> kstate \<Rightarrow> (ER \<times> T_RALM option) option" where
  "tk_ref_alm prid oid s = hdr_ref alm_reg [CHECK_ALMID s oid] prid alm_ops oid (alm_ref s) s"

definition tk_fnd_alm :: "nat \<Rightarrow> ID \<Rightarrow> UB list \<Rightarrow> kstate \<Rightarrow> (ER \<times> kstate) option" where
  "tk_fnd_alm prid = obj_fnd prid alm_ops"

definition tk_dmi_alm :: "nat \<Rightarrow> ID \<Rightarrow> kstate \<Rightarrow> (ER \<times> T_DMI option) option" where
  "tk_dmi_alm prid oid s = hdr_ref alm_reg [CHECK_ALMID s oid] prid alm_ops oid (hdr_dmi alm_ops s) s"

definition alarmhandler_getname :: "ID \<Rightarrow> kstate \<Rightarrow> ER \<times> UB list option" where
  "alarmhandler_getname oid s = hdr_getname alm_reg [CHECK_ALMID s oid] alm_ops oid s"

definition alarmhandler_setname :: "ID \<Rightarrow> UB list \<Rightarrow> kstate \<Rightarrow> ER \<times> kstate" where
  "alarmhandler_setname oid name s = hdr_setname alm_reg [CHECK_ALMID s oid] alm_ops oid name s"

definition td_lst_alm :: "int \<Rightarrow> kstate \<Rightarrow> int \<times> ID list" where
  "td_lst_alm = hdr_lst alm_reg alm_ops"

definition td_ref_alm :: "ID \<Rightarrow> kstate \<Rightarrow> ER \<times> T_RALM option" where
  "td_ref_alm oid s = hdr_td_ref alm_reg [CHECK_ALMID s oid] alm_ops oid (alm_ref s) s"

definition td_fnd_alm :: "ID \<Rightarrow> UB list \<Rightarrow> kstate \<Rightarrow> ER" where
  "td_fnd_alm = obj_td_fnd alm_ops"

definition td_dmi_alm :: "ID \<Rightarrow> kstate \<Rightarrow> ER \<times> T_DMI option" where
  "td_dmi_alm oid s = hdr_td_ref alm_reg [CHECK_ALMID s oid] alm_ops oid (hdr_dmi alm_ops s) s"

end
