(* ===== verification/Handlers.thy ===== *)
theory Handlers
  imports Time_Calls
begin

text \<open>
  What time management promises: the clock reads back what was set, the next time of a cyclic handler is the first one in its
  cycle that is still to come, and the events of handlers are in exactly one queue while the handler is started.
\<close>

section \<open>The clock and the cycle\<close>


lemma hilo_range: "0 \<le> (l :: int) \<Longrightarrow> l < 2 ^ 32 \<Longrightarrow> - (2 ^ 31) \<le> h \<Longrightarrow> h < 2 ^ 31 \<Longrightarrow> - (2 ^ 63) \<le> h * 2 ^ 32 + l \<and> h * 2 ^ 32 + l < 2 ^ 63"
  by auto

lemma SYSTIM_roundtrip:
  assumes "- (2 ^ 31) \<le> st_hi t" and "st_hi t < 2 ^ 31"
  shows "toSYSTIM (toLSYSTIM t) = t"
proof -
  define h where "h = st_hi t"
  define x where "x = (word_of_int h :: LL)"
  define y where "y = (ucast (st_lo t) :: LL)"
  define w where "w = toLSYSTIM t"
  have w: "w = push_bit 32 x OR y" by (simp add: w_def h_def x_def y_def toLSYSTIM_def)
  have lo: "ucast w = st_lo t"
    by (rule bit_word_eqI) (auto simp: w x_def y_def bit_simps)
  have plus: "w = push_bit 32 x + y"
    unfolding w by (rule disjunctive_add [symmetric]) (auto simp: x_def y_def bit_simps dest: bit_imp_le_length)
  let ?l = "uint (st_lo t)"
  have l: "0 \<le> ?l" "?l < 2 ^ 32" using uint_lt2p [of "st_lo t"] by simp_all
  have px: "push_bit 32 x = word_of_int (h * 2 ^ 32)"
    by (simp only: x_def push_bit_eq_mult of_int_mult of_int_power of_int_numeral)
  have py: "y = word_of_int ?l" by (simp only: y_def ucast_eq)
  have "w = word_of_int (h * 2 ^ 32 + ?l)"
    by (simp only: plus px py of_int_add)
  moreover have "- (2 ^ 63) \<le> h * 2 ^ 32 + ?l" "h * 2 ^ 32 + ?l < 2 ^ 63"
    using hilo_range [OF l assms] by (simp_all only: h_def)
  ultimately have "sint w = h * 2 ^ 32 + ?l"
    by (simp only: sint_sbintrunc') (simp add: signed_take_bit_int_eq_self_iff)
  then have "sint w div 2 ^ 32 = h" using l by simp
  then show ?thesis using lo by (simp add: toSYSTIM_def w_def h_def)
qed

lemma set_get_tim:
  assumes "0 \<le> st_hi t" and "st_hi t < 2 ^ 31"
  shows "fst (tk_set_tim t s) = E_OK \<and> tk_get_tim (snd (tk_set_tim t s)) = (E_OK, t)"
  using assms SYSTIM_roundtrip [of t]
  by (simp add: tk_set_tim_def tk_get_tim_def real_time_def CHECK_PAR_def ll_add_def ll_sub_def)

lemma sint_LL: "- (2 ^ 63) \<le> k \<Longrightarrow> k < 2 ^ 63 \<Longrightarrow> sint (word_of_int k :: LL) = k"
  by (simp only: sint_sbintrunc') (simp add: signed_take_bit_int_eq_self_iff)

lemma div_bounds:
  assumes "0 < (p :: int)"
  shows "x div p * p \<le> x" "x < (x div p + 1) * p" "p \<le> x \<Longrightarrow> 1 \<le> x div p"
proof -
  have m: "0 \<le> x mod p" "x mod p < p" "x div p * p + x mod p = x" using assms by simp_all
  show "x div p * p \<le> x" using m by linarith
  show "x < (x div p + 1) * p" using m unfolding distrib_right mult_1 by linarith
  show "1 \<le> x div p" if "p \<le> x" using assms that pos_imp_zdiv_pos_iff [OF assms, of x] by linarith
qed

lemma cyc_next_time_ok:
  fixes s :: kstate and i :: nat
  defines "t \<equiv> sint (tm_time (cyc_tmeb s i))" and "p \<equiv> uint (cyctim (cyccb s i))" and "c \<equiv> sint (current_time s)"
  assumes p: "0 < p" and t: "time_ok (tm_time (cyc_tmeb s i))" and c: "time_ok (current_time s)"
  shows "\<exists>k\<ge>1. sint (cyc_next_time s i) = t + k * p \<and> c < t + k * p \<and> (k = 1 \<or> t + (k - 1) * p \<le> c)"
proof -
  have b: "0 \<le> t" "t < 2 ^ 62" "0 \<le> c" "c < 2 ^ 62" "p < 2 ^ 32"
    using t c uint_lt2p [of "cyctim (cyccb s i)"] by (simp_all add: time_ok_def t_def c_def p_def)
  have w: "tm_time (cyc_tmeb s i) = word_of_int t" "current_time s = word_of_int c" by (simp_all add: t_def c_def)
  have wp: "ucast (cyctim (cyccb s i)) = (word_of_int p :: LL)" by (simp only: p_def ucast_eq)
  define W where "W = ll_add (tm_time (cyc_tmeb s i)) (uitoll (cyctim (cyccb s i)))"
  have W: "W = word_of_int (t + p)" by (simp only: W_def ll_add_def uitoll_def w wp of_int_add)
  have cmp: "ll_cmp W (current_time s) = t + p - c"
    unfolding ll_cmp_def w(2) W of_int_diff [symmetric] by (rule sint_LL) (use b p in simp_all)
  have next_time: "cyc_next_time s i =
      (if t + p - c \<le> 0 then ll_add (tm_time (cyc_tmeb s i))
         (lui_mul (ll_inc (lui_div (ll_sub (current_time s) (tm_time (cyc_tmeb s i))) (cyctim (cyccb s i)))) (cyctim (cyccb s i))) else W)"
    by (simp only: cyc_next_time_def Let_def W_def [symmetric] cmp)
  show ?thesis
  proof (cases "t + p \<le> c")
    case False
    then have "cyc_next_time s i = word_of_int (t + 1 * p)" by (simp only: next_time W) simp
    moreover have "sint (word_of_int (t + 1 * p) :: LL) = t + 1 * p" by (rule sint_LL) (use b p in simp_all)
    ultimately have "sint (cyc_next_time s i) = t + 1 * p" by simp
    with False show ?thesis by (intro exI [of _ 1]) simp
  next
    case True
    define n where "n = (c - t) div p"
    have n: "n * p \<le> c - t" "c - t < (n + 1) * p" "1 \<le> n"
      using div_bounds [OF p, of "c - t"] True by (simp_all only: n_def) 
    have "ll_sub (current_time s) (tm_time (cyc_tmeb s i)) = word_of_int (c - t)"
      by (simp only: ll_sub_def w of_int_diff)
    moreover have "sint (word_of_int (c - t) :: LL) = c - t" by (rule sint_LL) (use b in simp_all)
    ultimately have d: "lui_div (ll_sub (current_time s) (tm_time (cyc_tmeb s i))) (cyctim (cyccb s i)) = word_of_int n"
      using True p by (simp add: lui_div_def signed_divide_int_def n_def p_def [symmetric] sgn_if)
    have "cyc_next_time s i = word_of_int (t + (n + 1) * p)"
      using True unfolding next_time unfolding d unfolding ll_inc_def lui_mul_def ll_add_def w wp by simp
    moreover have "sint (word_of_int (t + (n + 1) * p) :: LL) = t + (n + 1) * p"
    proof (rule sint_LL)
      have "0 \<le> (n + 1) * p" using n(3) p by simp
      then show "- (2 ^ 63) \<le> t + (n + 1) * p" using b by simp
      have "(n + 1) * p \<le> c - t + p" using n(1) by (simp add: distrib_right)
      then show "t + (n + 1) * p < 2 ^ 63" using b by simp
    qed
    ultimately have "sint (cyc_next_time s i) = t + (n + 1) * p" by simp
    then show ?thesis using n by (intro exI [of _ "n + 1"]) simp
  qed
qed

section \<open>Processors\<close>

lemma assprc_scan_low:
  "asp \<noteq> 0 \<Longrightarrow> (\<forall>q\<ge>4 * n. \<not> bit asp q) \<Longrightarrow> \<exists>p. assprc_scan n asp k = k + p \<and> bit asp p \<and> (\<forall>q<p. \<not> bit asp q)"
proof (induction n arbitrary: asp k)
  case 0
  have "asp = 0" by (rule bit_word_eqI) (use 0 in simp)
  with 0 show ?case by simp
next
  case (Suc n)
  define b where "b = asp AND 0xf"
  have bb: "bit asp q \<longleftrightarrow> bit b q" if "q < 4" for q
    using that by (auto simp: b_def bit_simps numeral_eq_Suc less_Suc_eq)
  show ?case
  proof (cases "b = 0")
    case True
    have z: "\<not> bit asp q" if "q < 4" for q using bb [OF that] True by simp
    have nz: "drop_bit 4 asp \<noteq> 0"
    proof
      assume e: "drop_bit 4 asp = 0"
      have "\<not> bit asp q" for q
      proof (cases "q < 4")
        case False
        then have "bit asp q = bit (drop_bit 4 asp) (q - 4)" by (simp add: bit_drop_bit_eq)
        with e show ?thesis by simp
      qed (rule z)
      then have "asp = 0" by (simp add: bit_word_eqI)
      with Suc.prems show False by simp
    qed
    have "\<forall>q\<ge>4 * n. \<not> bit (drop_bit 4 asp) q" using Suc.prems by (simp add: bit_drop_bit_eq)
    from Suc.IH [OF nz this, of "k + 4"] obtain p where
      p: "assprc_scan n (drop_bit 4 asp) (k + 4) = k + 4 + p" "bit (drop_bit 4 asp) p" "\<forall>q<p. \<not> bit (drop_bit 4 asp) q" by blast
    have "\<not> bit asp q" if "q < 4 + p" for q
    proof (cases "q < 4")
      case False
      then have "bit asp q = bit (drop_bit 4 asp) (q - 4)" by (simp add: bit_drop_bit_eq)
      with p(3) that False show ?thesis by simp
    qed (rule z)
    moreover have "assprc_scan (Suc n) asp k = k + (4 + p)" using True p(1) by (simp add: b_def Let_def)
    ultimately show ?thesis using p(2) by (auto simp: bit_drop_bit_eq)
  next
    case False
    have r: "unat b < 16"
    proof -
      have "b \<le> 0xf" unfolding b_def by (rule word_and_le1)
      then show ?thesis by (simp add: word_le_nat_alt)
    qed
    have "b = word_of_nat (unat b)" by simp
    moreover have "\<forall>m\<in>{1..<16 :: nat}. bit (word_of_nat m :: UW) (bit_tbl ! m) \<and> (\<forall>q<bit_tbl ! m. \<not> bit (word_of_nat m :: UW) q) \<and> bit_tbl ! m < 4"
      by code_simp
    moreover have "unat b \<in> {1..<16}" using r False by (simp add: unat_gt_0 Suc_le_eq)
    ultimately have t: "bit b (bit_tbl ! unat b)" "\<forall>q<bit_tbl ! unat b. \<not> bit b q" "bit_tbl ! unat b < 4" by metis+
    then show ?thesis using False bb by (intro exI [of _ "bit_tbl ! unat b"]) (auto simp: b_def Let_def)
  qed
qed

lemma assprc_to_prid_low: "asp \<noteq> 0 \<Longrightarrow> bit asp (assprc_to_prid asp) \<and> (\<forall>q<assprc_to_prid asp. \<not> bit asp q)"
  using assprc_scan_low [of asp 8 0] bit_imp_le_length [of asp] by (fastforce simp: assprc_to_prid_def)

section \<open>The events of the handlers\<close>

fun is_hdr :: "tmeb_ref \<Rightarrow> bool" where
  "is_hdr (TmTsk t) = False"
| "is_hdr (TmCyc i) = True"
| "is_hdr (TmAlm i) = True"

text \<open>A handler is started if it exists and its status says so.\<close>

fun started :: "kstate \<Rightarrow> tmeb_ref \<Rightarrow> bool" where
  "started s (TmTsk t) = False"
| "started s (TmCyc i) = (cyc_reg s i \<and> cycstat (cyccb s i) AND TCYC_STA \<noteq> 0)"
| "started s (TmAlm i) = (alm_reg s i \<and> almstat (almcb s i) AND TALM_STA \<noteq> 0)"

abbreviation hqs :: "kstate \<Rightarrow> nat \<Rightarrow> tmeb_ref list" where
  "hqs s p \<equiv> hdrque (handler_queue (ko s) p)"

text \<open>
  No event is linked twice, and those linked are the events of the started handlers; the events in \<open>X\<close> are on their way
  from one queue to another. \<open>tq\<close> is the timer queue, \<open>hq\<close> are the handler queues.
\<close>

definition links_ok :: "tmeb_ref set \<Rightarrow> tmeb_ref list \<Rightarrow> (nat \<Rightarrow> tmeb_ref list) \<Rightarrow> (tmeb_ref \<Rightarrow> bool) \<Rightarrow> bool" where
  "links_ok X tq hq st \<longleftrightarrow> distinct (filter is_hdr tq) \<and> (\<forall>p. distinct (hq p)) \<and> (\<forall>p. set tq \<inter> set (hq p) = {}) \<and>
     (\<forall>p q. p \<noteq> q \<longrightarrow> set (hq p) \<inter> set (hq q) = {}) \<and> (\<forall>p. \<forall>e\<in>set (hq p). is_hdr e) \<and>
     (\<forall>e. is_hdr e \<longrightarrow> (e \<in> set tq \<or> (\<exists>p. e \<in> set (hq p)) \<longleftrightarrow> st e \<and> e \<notin> X))"

definition calls_ok :: "kstate \<Rightarrow> bool" where
  "calls_ok s \<longleftrightarrow>
     (\<forall>e\<in>set (timer_queue s). is_hdr e \<longrightarrow> tm_callback (tmeb_at s e) = Some (Cb_distribute e)) \<and>
     (\<forall>p. \<forall>e\<in>set (hqs s p). tm_callback (tmeb_at s e) = Some (Cb_call e))"

text \<open>The entries in the free queues have no handler.\<close>

definition unused_ok :: "kstate \<Rightarrow> bool" where
  "unused_ok s \<longleftrightarrow> distinct (freeq (cyctab (ko s))) \<and> distinct (freeq (almtab (ko s))) \<and>
     (\<forall>i\<in>set (freeq (cyctab (ko s))). \<not> cyc_reg s i) \<and> (\<forall>i\<in>set (freeq (almtab (ko s))). \<not> alm_reg s i)"

definition hdr_inv :: "tmeb_ref set \<Rightarrow> kstate \<Rightarrow> bool" where
  "hdr_inv X s \<longleftrightarrow> links_ok X (timer_queue s) (hqs s) (started s) \<and> calls_ok s \<and> unused_ok s"

abbreviation hdrs_ok :: "kstate \<Rightarrow> bool" where
  "hdrs_ok \<equiv> hdr_inv {}"

section \<open>Moving an event\<close>

lemma filter_insert_before_distinct:
  "e \<notin> set xs \<Longrightarrow> distinct (filter Q xs) \<Longrightarrow> distinct (filter Q (insert_before P e xs))"
  by (induction xs) auto

lemma links_insert_timer:
  assumes l: "links_ok X tq hq st" and e: "e \<in> X" "is_hdr e" "st e"
  shows "links_ok (X - {e}) (insert_before P e tq) hq st"
proof -
  have n: "e \<notin> set tq" "e \<notin> set (hq p)" for p using l e by (auto simp: links_ok_def)
  with l e filter_insert_before_distinct [of e tq is_hdr P] show ?thesis by (auto simp: links_ok_def)
qed

lemma links_insert_hdr:
  assumes l: "links_ok X tq hq st" and e: "e \<in> X" "is_hdr e" "st e"
  shows "links_ok (X - {e}) tq (hq(p := hq p @ [e])) st"
proof -
  let ?h = "hq(p := hq p @ [e])"
  have n: "e \<notin> set tq" "e \<notin> set (hq q)" for q using l e by (auto simp: links_ok_def)
  have s: "set (?h q) = (if q = p then insert e (set (hq q)) else set (hq q))" for q by simp
  have d: "distinct (?h q)" for q using l n(2) [of p] by (simp add: links_ok_def)
  have m: "(\<exists>q. x \<in> set (?h q)) \<longleftrightarrow> x = e \<or> (\<exists>q. x \<in> set (hq q))" for x by (auto simp: s split: if_splits)
  have "set tq \<inter> set (?h q) = {}" for q using l n(1) by (simp add: s links_ok_def)
  moreover have "a \<noteq> b \<longrightarrow> set (?h a) \<inter> set (?h b) = {}" for a b using l n(2) by (simp add: s links_ok_def)
  moreover have "\<forall>x\<in>set (?h q). is_hdr x" for q using l e(2) by (simp add: s links_ok_def)
  moreover have "is_hdr x \<longrightarrow> (x \<in> set tq \<or> (\<exists>q. x \<in> set (?h q)) \<longleftrightarrow> st x \<and> x \<notin> X - {e})" for x
    using l e n unfolding m by (auto simp: links_ok_def)
  ultimately show ?thesis using l d unfolding links_ok_def by blast
qed

lemma links_remove:
  assumes l: "links_ok X tq hq st" and t: "set tq' = set tq - {e}" "distinct (filter is_hdr tq')"
    and h: "\<And>p. set (hq' p) = set (hq p) - {e}" "\<And>p. distinct (hq' p)"
  shows "links_ok (insert e X) tq' hq' st"
  using l unfolding links_ok_def t(1) h(1) by (simp add: t(2) h(2)) blast

lemma links_delete:
  assumes l: "links_ok X tq hq st" and e: "is_hdr e"
  shows "links_ok (insert e X) (remove1 e tq) (\<lambda>p. remove1 e (hq p)) st"
proof (rule links_remove [OF l])
  have d: "distinct (filter is_hdr tq)" and dh: "distinct (hq p)" for p using l by (auto simp: links_ok_def)
  have f: "filter is_hdr (remove1 e tq) = remove1 e (filter is_hdr tq)" by (rule filter_remove1)
  show "distinct (filter is_hdr (remove1 e tq))" using d by (simp add: f)
  have "e \<notin> set (remove1 e tq)"
  proof
    assume "e \<in> set (remove1 e tq)"
    then have "e \<in> set (filter is_hdr (remove1 e tq))" using e by simp
    with d show False by (simp add: f)
  qed
  then have "x \<in> set (remove1 e tq) \<longleftrightarrow> x \<in> set tq - {e}" for x by (cases "x = e") simp_all
  then show "set (remove1 e tq) = set tq - {e}" by blast
  show "set (remove1 e (hq p)) = set (hq p) - {e}" "distinct (remove1 e (hq p))" for p using dh [of p] by simp_all
qed

lemma links_pop_timer:
  assumes l: "links_ok X (e # tq) hq st" and e: "is_hdr e"
  shows "links_ok (insert e X) tq hq st"
proof (rule links_remove [OF l])
  show "set tq = set (e # tq) - {e}" "distinct (filter is_hdr tq)" using l e by (auto simp: links_ok_def)
  show "set (hq p) = set (hq p) - {e}" "distinct (hq p)" for p using l by (auto simp: links_ok_def)
qed

lemma links_pop_task:
  assumes l: "links_ok X (e # tq) hq st" and e: "\<not> is_hdr e"
  shows "links_ok X tq hq st"
proof -
  have d: "distinct (filter is_hdr tq)" and i: "set tq \<inter> set (hq p) = {}" for p using l e by (auto simp: links_ok_def)
  have m: "is_hdr x \<longrightarrow> (x \<in> set tq \<or> (\<exists>p. x \<in> set (hq p)) \<longleftrightarrow> st x \<and> x \<notin> X)" for x
  proof
    assume x: "is_hdr x"
    with e have n: "x \<noteq> e" by auto
    have "x \<in> set (e # tq) \<or> (\<exists>p. x \<in> set (hq p)) \<longleftrightarrow> st x \<and> x \<notin> X" using l x unfolding links_ok_def by blast
    with n show "x \<in> set tq \<or> (\<exists>p. x \<in> set (hq p)) \<longleftrightarrow> st x \<and> x \<notin> X" by simp
  qed
  show ?thesis using l d i m unfolding links_ok_def by (elim conjE) (intro conjI; assumption | blast)
qed

lemma links_pop_hdr:
  assumes l: "links_ok X tq hq st" and p: "hq p = e # es"
  shows "links_ok (insert e X) tq (hq(p := es)) st"
proof (rule links_remove [OF l])
  have c: "distinct (hq q)" "set tq \<inter> set (hq p) = {}" "q \<noteq> p \<Longrightarrow> set (hq q) \<inter> set (hq p) = {}" "distinct (filter is_hdr tq)" for q
    using l unfolding links_ok_def by blast+
  have n: "e \<notin> set tq" "e \<notin> set es" "distinct es" "q \<noteq> p \<Longrightarrow> e \<notin> set (hq q)" for q
    using c(1) [of p] c(2) c(3) [of q] by (simp_all add: p)
  show "set tq = set tq - {e}" "distinct (filter is_hdr tq)" using n(1) c(4) by simp_all
  show "set ((hq(p := es)) q) = set (hq q) - {e}" for q using n(2) n(4) [of q] by (cases "q = p") (simp_all add: p)
  show "distinct ((hq(p := es)) q)" for q using n(3) c(1) [of q] by simp
qed

lemma links_status:
  "links_ok X tq hq st \<Longrightarrow> (\<And>x. is_hdr x \<Longrightarrow> (st' x \<and> x \<notin> Y) = (st x \<and> x \<notin> X)) \<Longrightarrow> links_ok Y tq hq st'"
  by (simp add: links_ok_def)

section \<open>The invariant in the kernel state\<close>

text \<open>What the invariant looks at.\<close>

definition hview :: "kstate \<Rightarrow> tmeb_ref list \<times> (nat \<Rightarrow> tmeb_ref list) \<times> CYCCB objtab \<times> ALMCB objtab \<times> (nat \<Rightarrow> callback option) \<times> (nat \<Rightarrow> callback option)" where
  "hview s = (filter is_hdr (timer_queue s), \<lambda>p. hqs s p, cyctab (ko s), almtab (ko s), tm_callback \<circ> cyc_tmeb s, tm_callback \<circ> alm_tmeb s)"

lemma links_filter:
  assumes l: "links_ok X tq hq st" and f: "filter is_hdr tq' = filter is_hdr tq"
  shows "links_ok X tq' hq st"
proof -
  have m: "is_hdr x \<Longrightarrow> x \<in> set tq' \<longleftrightarrow> x \<in> set tq" for x using arg_cong [OF f, of set] by auto
  have c: "\<forall>p. \<forall>e\<in>set (hq p). is_hdr e" "\<And>p. set tq \<inter> set (hq p) = {}" "\<And>x. is_hdr x \<Longrightarrow> (x \<in> set tq \<or> (\<exists>p. x \<in> set (hq p))) = (st x \<and> x \<notin> X)"
    using l unfolding links_ok_def by blast+
  have d: "set tq' \<inter> set (hq p) = {}" for p using c(1) c(2) [of p] m by blast
  have e: "is_hdr x \<longrightarrow> (x \<in> set tq' \<or> (\<exists>p. x \<in> set (hq p))) = (st x \<and> x \<notin> X)" for x using c(3) [of x] m by blast
  show ?thesis using l d e f unfolding links_ok_def by (elim conjE) (intro conjI; (assumption | simp | blast))
qed

lemma hdr_inv_view:
  assumes i: "hdr_inv X s" and v: "hview s' = hview s"
  shows "hdr_inv X s'"
proof -
  have f: "filter is_hdr (timer_queue s') = filter is_hdr (timer_queue s)" and q: "\<And>p. hqs s' p = hqs s p"
    and t: "cyctab (ko s') = cyctab (ko s)" "almtab (ko s') = almtab (ko s)"
    and c: "\<And>i. tm_callback (cyc_tmeb s' i) = tm_callback (cyc_tmeb s i)" "\<And>i. tm_callback (alm_tmeb s' i) = tm_callback (alm_tmeb s i)"
    using v by (simp_all add: hview_def fun_eq_iff)
  have st: "started s' e = started s e" for e by (cases e) (simp_all add: cyc_reg_def alm_reg_def cyccb_def almcb_def t)
  have cb: "is_hdr e \<Longrightarrow> tm_callback (tmeb_at s' e) = tm_callback (tmeb_at s e)" for e by (cases e) (simp_all add: c)
  have m: "is_hdr x \<Longrightarrow> x \<in> set (timer_queue s') \<longleftrightarrow> x \<in> set (timer_queue s)" for x using arg_cong [OF f, of set] by auto
  have h: "x \<in> set (hqs s p) \<Longrightarrow> is_hdr x" for x p using i by (auto simp: hdr_inv_def links_ok_def)
  have "started s' = started s" using st by blast
  then have "links_ok X (timer_queue s') (hqs s') (started s')"
    using i links_filter [OF _ f] by (simp add: hdr_inv_def q)
  moreover have "calls_ok s'"
  proof -
    have c: "calls_ok s" using i by (simp add: hdr_inv_def)
    show ?thesis unfolding calls_ok_def q
      by (intro conjI ballI allI impI) (use c m cb h in \<open>simp add: calls_ok_def\<close>)+
  qed
  moreover have "unused_ok s'" using i by (simp add: hdr_inv_def unused_ok_def t cyc_reg_def alm_reg_def cyccb_def almcb_def)
  ultimately show ?thesis by (simp add: hdr_inv_def)
qed

lemma hview_sched: "sched_frame s s' \<Longrightarrow> hview s' = hview s"
  by (simp add: hview_def sched_frame_sel)

lemma hview_domain [simp]:
  "hview (mp_register_object_in_domain d ty i nm s) = hview s" "hview (mp_unregister_object_in_domain d ty i s) = hview s"
  by (simp_all add: hview_def mp_register_object_in_domain_def mp_unregister_object_in_domain_def Let_def set_key_def upd_dom_def split: prod.split)

section \<open>Steps on the queues\<close>

lemma started_frame: "cyctab (ko s') = cyctab (ko s) \<Longrightarrow> almtab (ko s') = almtab (ko s) \<Longrightarrow> started s' = started s"
proof
  fix e assume "cyctab (ko s') = cyctab (ko s)" "almtab (ko s') = almtab (ko s)"
  then show "started s' e = started s e" by (cases e) (simp_all add: cyc_reg_def alm_reg_def cyccb_def almcb_def)
qed

lemma unused_frame: "cyctab (ko s') = cyctab (ko s) \<Longrightarrow> almtab (ko s') = almtab (ko s) \<Longrightarrow> unused_ok s' = unused_ok s"
  by (simp add: unused_ok_def cyc_reg_def alm_reg_def cyccb_def almcb_def)

lemma timer_abs_sel [simp]:
  assumes "is_hdr e"
  shows "ko (timer_insert_abs e tm cb s) = ko s" "kinv (timer_insert_abs e tm cb s) = kinv s"
    "tmeb_at (timer_insert_abs e tm cb s) x = (if x = e then \<lparr>tm_time = tm, tm_callback = cb\<rparr> else tmeb_at s x)"
    "ques (timer_insert_abs e tm cb s) = ques s" "tcbs (timer_insert_abs e tm cb s) = tcbs s"
  using assms by (cases e; cases x; simp add: timer_insert_abs_def Let_def enqueue_tmeb_def)+

lemma not_queued:
  assumes "hdr_inv X s" and "e \<in> X" and "is_hdr e"
  shows "e \<notin> set (timer_queue s)" "e \<notin> set (hqs s p)"
  using assms by (auto simp: hdr_inv_def links_ok_def)

lemma hdr_inv_timer:
  assumes i: "hdr_inv X s" and e: "e \<in> X" "is_hdr e" "started s e"
  shows "hdr_inv (X - {e}) (timer_insert_abs e tm (Some (Cb_distribute e)) s)" (is "hdr_inv _ ?s")
proof -
  note n = not_queued [OF i e(1,2)]
  have st: "started ?s = started s" by (rule started_frame) (use e in simp_all)
  have q: "\<exists>P. timer_queue ?s = insert_before P e (timer_queue s)"
    by (simp add: timer_insert_abs_def Let_def enqueue_tmeb_def) blast
  then have "links_ok (X - {e}) (timer_queue ?s) (hqs ?s) (started ?s)"
    using links_insert_timer [of X "timer_queue s" "hqs s" "started s" e] i e by (auto simp: hdr_inv_def st)
  moreover have "set (timer_queue ?s) = insert e (set (timer_queue s))" using q by auto
  then have "calls_ok ?s" using i n e by (auto simp: hdr_inv_def calls_ok_def)
  moreover have "unused_ok ?s" using i e unused_frame [of ?s s] by (simp add: hdr_inv_def)
  ultimately show ?thesis by (simp add: hdr_inv_def)
qed

lemma upd_hq_sel [simp]:
  "cyc_tmeb (upd_hq p f s) = cyc_tmeb s" "alm_tmeb (upd_hq p f s) = alm_tmeb s"
  "timer_queue (upd_hq p f s) = timer_queue s" "cyctab (ko (upd_hq p f s)) = cyctab (ko s)" "almtab (ko (upd_hq p f s)) = almtab (ko s)"
  "tmeb_at (upd_hq p f s) = tmeb_at s" "kinv (upd_hq p f s) = kinv s" "ques (upd_hq p f s) = ques s" "tcbs (upd_hq p f s) = tcbs s"
  "handler_queue (ko (upd_hq p f s)) = (handler_queue (ko s))(p := f (handler_queue (ko s) p))"
proof -
  show "tmeb_at (upd_hq p f s) = tmeb_at s"
  proof
    fix e show "tmeb_at (upd_hq p f s) e = tmeb_at s e" by (cases e) (simp_all add: upd_hq_def)
  qed
qed (simp_all add: upd_hq_def)

lemma upd_tmeb_sel [simp]:
  assumes "is_hdr e"
  shows "ko (upd_tmeb e f s) = ko s" "kinv (upd_tmeb e f s) = kinv s" "ques (upd_tmeb e f s) = ques s" "tcbs (upd_tmeb e f s) = tcbs s"
  using assms by (cases e; simp)+

lemma enqueue_handler_sel:
  assumes "is_hdr e"
  shows "kinv (enqueue_handler p e cb s) = kinv s" "timer_queue (enqueue_handler p e cb s) = timer_queue s"
    "cyctab (ko (enqueue_handler p e cb s)) = cyctab (ko s)" "almtab (ko (enqueue_handler p e cb s)) = almtab (ko s)"
    "hqs (enqueue_handler p e cb s) = (hqs s)(p := hqs s p @ [e])"
    "tmeb_at (enqueue_handler p e cb s) x = (if x = e then (tmeb_at s e)\<lparr>tm_callback := Some cb\<rparr> else tmeb_at s x)"
  using assms by (auto simp: enqueue_handler_def Let_def tmeb_at_upd fun_eq_iff)

lemma hdr_inv_enqueue:
  assumes i: "hdr_inv X s" and e: "e \<in> X" "is_hdr e" "started s e"
  shows "hdr_inv (X - {e}) (enqueue_handler p e (Cb_call e) s)" (is "hdr_inv _ ?s")
proof -
  note n = not_queued [OF i e(1,2)] and q = enqueue_handler_sel [OF e(2)]
  have st: "started ?s = started s" by (rule started_frame) (simp_all add: q)
  have "links_ok (X - {e}) (timer_queue ?s) (hqs ?s) (started ?s)"
    using links_insert_hdr [of X "timer_queue s" "hqs s" "started s" e p] i e by (simp add: hdr_inv_def st q)
  moreover have "calls_ok ?s"
  proof -
    have h: "hqs ?s x = (if x = p then hqs s p @ [e] else hqs s x)" for x
      using fun_cong [OF q(5) [of p "Cb_call e" s], of x] by simp
    show ?thesis using i n unfolding hdr_inv_def calls_ok_def h q(2,6) by (auto split: if_splits)
  qed
  moreover have "unused_ok ?s" using i unused_frame [of ?s s] by (simp add: hdr_inv_def q)
  ultimately show ?thesis by (simp add: hdr_inv_def)
qed

lemma hdr_inv_delete:
  assumes i: "hdr_inv X s" and e: "is_hdr e"
  shows "hdr_inv (insert e X) (event_delete e s)" (is "hdr_inv _ ?s")
proof -
  have q: "timer_queue ?s = remove1 e (timer_queue s)" "hqs ?s = (\<lambda>p. remove1 e (hqs s p))" "cyctab (ko ?s) = cyctab (ko s)"
    "almtab (ko ?s) = almtab (ko s)" "tmeb_at ?s x = tmeb_at s x" for x
    by (simp_all add: event_delete_def timer_delete_def Let_def) (cases x, simp_all)
  have st: "started ?s = started s" by (rule started_frame) (simp_all add: q)
  have "links_ok (insert e X) (timer_queue ?s) (hqs ?s) (started ?s)"
    using links_delete [OF _ e] i by (simp add: hdr_inv_def st q)
  moreover have "calls_ok ?s" 
  proof -
    have h: "hqs ?s x = remove1 e (hqs s x)" for x using fun_cong [OF q(2), of x] by simp
    show ?thesis using i unfolding hdr_inv_def calls_ok_def h q(1,5)
      using set_remove1_subset [of e] by (auto dest: notin_set_remove1) (metis notin_set_remove1)
  qed
  moreover have "unused_ok ?s" using i unused_frame [of ?s s] by (simp add: hdr_inv_def q)
  ultimately show ?thesis by (simp add: hdr_inv_def)
qed

lemma event_delete_kinv [simp]: "kinv (event_delete e s) = kinv s"
  by (simp add: event_delete_def Let_def timer_delete_def)

lemma hdr_inv_pop:
  assumes i: "hdr_inv {} s" and q: "hqs s p = e # es"
  shows "hdr_inv {e} (upd_hq p (\<lambda>h. h\<lparr>hdrque := es\<rparr>) s)" (is "hdr_inv _ ?s") and "is_hdr e" and "started s e"
    and "tm_callback (tmeb_at s e) = Some (Cb_call e)"
proof -
  show e: "is_hdr e" and st: "started s e" and cb: "tm_callback (tmeb_at s e) = Some (Cb_call e)"
    using i q unfolding hdr_inv_def links_ok_def calls_ok_def by (metis list.set_intros(1))+
  have h: "hqs ?s = (hqs s)(p := es)" by (auto simp: fun_eq_iff)
  have s2: "started ?s = started s" by (rule started_frame) simp_all
  have "links_ok {e} (timer_queue ?s) (hqs ?s) (started ?s)"
    using links_pop_hdr [of "{}" "timer_queue s" "hqs s" "started s" p e es] i q unfolding hdr_inv_def h s2 by simp
  moreover have "calls_ok ?s" using i q unfolding hdr_inv_def calls_ok_def h by (auto split: if_splits) (metis list.set_intros(2))
  moreover have "unused_ok ?s" using i unused_frame [of ?s s] by (simp add: hdr_inv_def)
  ultimately show "hdr_inv {e} ?s" by (simp add: hdr_inv_def)
qed

section \<open>Status changes\<close>

lemma upd_cyc_sel [simp]:
  "cyccb (upd_cyc i f s) = (cyccb s)(i := f (cyccb s i))" "freeq (cyctab (ko (upd_cyc i f s))) = freeq (cyctab (ko s))"
  "maxid (cyctab (ko (upd_cyc i f s))) = maxid (cyctab (ko s))"
  "almtab (ko (upd_cyc i f s)) = almtab (ko s)" "almcb (upd_cyc i f s) = almcb s" "timer_queue (upd_cyc i f s) = timer_queue s"
  "handler_queue (ko (upd_cyc i f s)) = handler_queue (ko s)" "tmeb_at (upd_cyc i f s) = tmeb_at s" "kinv (upd_cyc i f s) = kinv s"
  "current_time (upd_cyc i f s) = current_time s" "cyc_tmeb (upd_cyc i f s) = cyc_tmeb s" "timer_period (upd_cyc i f s) = timer_period s"
proof -
  show "tmeb_at (upd_cyc i f s) = tmeb_at s"
  proof
    fix e show "tmeb_at (upd_cyc i f s) e = tmeb_at s e" by (cases e) (simp_all add: upd_cyc_def set_cyctab_def)
  qed
qed (simp_all add: upd_cyc_def set_cyctab_def cyccb_def almcb_def fun_eq_iff)

lemma upd_alm_sel [simp]:
  "almcb (upd_alm i f s) = (almcb s)(i := f (almcb s i))" "freeq (almtab (ko (upd_alm i f s))) = freeq (almtab (ko s))"
  "maxid (almtab (ko (upd_alm i f s))) = maxid (almtab (ko s))"
  "cyctab (ko (upd_alm i f s)) = cyctab (ko s)" "cyccb (upd_alm i f s) = cyccb s" "timer_queue (upd_alm i f s) = timer_queue s"
  "handler_queue (ko (upd_alm i f s)) = handler_queue (ko s)" "tmeb_at (upd_alm i f s) = tmeb_at s" "kinv (upd_alm i f s) = kinv s"
  "current_time (upd_alm i f s) = current_time s" "alm_tmeb (upd_alm i f s) = alm_tmeb s" "timer_period (upd_alm i f s) = timer_period s"
proof -
  show "tmeb_at (upd_alm i f s) = tmeb_at s"
  proof
    fix e show "tmeb_at (upd_alm i f s) e = tmeb_at s e" by (cases e) (simp_all add: upd_alm_def set_almtab_def)
  qed
qed (simp_all add: upd_alm_def set_almtab_def cyccb_def almcb_def fun_eq_iff)

lemma hdr_inv_upd_cyc:
  assumes i: "hdr_inv X s"
    and st: "(cychdr (f (cyccb s n)) \<noteq> 0 \<and> cycstat (f (cyccb s n)) AND TCYC_STA \<noteq> 0) \<and> TmCyc n \<notin> Y \<longleftrightarrow> started s (TmCyc n) \<and> TmCyc n \<notin> X"
    and XY: "\<And>e. e \<noteq> TmCyc n \<Longrightarrow> e \<in> Y \<longleftrightarrow> e \<in> X"
    and fr: "n \<in> set (freeq (cyctab (ko s))) \<Longrightarrow> cychdr (f (cyccb s n)) = 0"
  shows "hdr_inv Y (upd_cyc n f s)"
proof -
  have "(started (upd_cyc n f s) e \<and> e \<notin> Y) = (started s e \<and> e \<notin> X)" for e
  proof (cases "e = TmCyc n")
    case True
    with st show ?thesis by (simp add: cyc_reg_def)
  next
    case False
    then have "started (upd_cyc n f s) e = started s e" by (cases e) (auto simp: cyc_reg_def alm_reg_def)
    with XY [OF False] show ?thesis by simp
  qed
  with i have "links_ok Y (timer_queue s) (hqs s) (started (upd_cyc n f s))"
    by (auto simp: hdr_inv_def intro: links_status)
  with i fr show ?thesis by (auto simp: hdr_inv_def calls_ok_def unused_ok_def cyc_reg_def alm_reg_def)
qed

lemma hdr_inv_upd_alm:
  assumes i: "hdr_inv X s"
    and st: "(almhdr (f (almcb s n)) \<noteq> 0 \<and> almstat (f (almcb s n)) AND TALM_STA \<noteq> 0) \<and> TmAlm n \<notin> Y \<longleftrightarrow> started s (TmAlm n) \<and> TmAlm n \<notin> X"
    and XY: "\<And>e. e \<noteq> TmAlm n \<Longrightarrow> e \<in> Y \<longleftrightarrow> e \<in> X"
    and fr: "n \<in> set (freeq (almtab (ko s))) \<Longrightarrow> almhdr (f (almcb s n)) = 0"
  shows "hdr_inv Y (upd_alm n f s)"
proof -
  have "(started (upd_alm n f s) e \<and> e \<notin> Y) = (started s e \<and> e \<notin> X)" for e
  proof (cases "e = TmAlm n")
    case True
    with st show ?thesis by (simp add: alm_reg_def)
  next
    case False
    then have "started (upd_alm n f s) e = started s e" by (cases e) (auto simp: cyc_reg_def alm_reg_def)
    with XY [OF False] show ?thesis by simp
  qed
  with i have "links_ok Y (timer_queue s) (hqs s) (started (upd_alm n f s))"
    by (auto simp: hdr_inv_def intro: links_status)
  with i fr show ?thesis by (auto simp: hdr_inv_def calls_ok_def unused_ok_def cyc_reg_def alm_reg_def)
qed

lemma status_bits [simp]:
  "(x OR TCYC_RUN) AND TCYC_STA = x AND TCYC_STA" "(x OR (TCYC_RUN OR TCYC_IMM)) AND TCYC_STA = x AND TCYC_STA"
  "(x AND NOT TCYC_RUN) AND TCYC_STA = x AND TCYC_STA" "(x AND NOT (TCYC_RUN OR TCYC_IMM)) AND TCYC_STA = x AND TCYC_STA"
  "(x AND NOT TCYC_RUN AND NOT TCYC_IMM) AND TCYC_STA = x AND TCYC_STA" "(x AND NOT TALM_RUN AND NOT TALM_IMM) AND TALM_STA = x AND TALM_STA"
  "(x AND NOT TCYC_STA) AND TCYC_STA = 0" "(x OR TCYC_STA) AND TCYC_STA \<noteq> 0" "TCYC_STA AND TCYC_STA \<noteq> 0" "TCYC_STP AND TCYC_STA = 0"
  "(x OR TALM_RUN) AND TALM_STA = x AND TALM_STA" "(x OR (TALM_RUN OR TALM_IMM)) AND TALM_STA = x AND TALM_STA"
  "(x AND NOT TALM_RUN) AND TALM_STA = x AND TALM_STA" "(x AND NOT (TALM_RUN OR TALM_IMM)) AND TALM_STA = x AND TALM_STA"
  "(x AND NOT TALM_STA) AND TALM_STA = 0" "(x OR TALM_STA) AND TALM_STA \<noteq> 0" "TALM_STP AND TALM_STA = 0"
  by (simp_all add: TCYC_STA_def TCYC_RUN_def TCYC_IMM_def TCYC_STP_def TALM_STA_def TALM_RUN_def TALM_IMM_def TALM_STP_def
      bit.conj_disj_distrib2 and.assoc)

lemma hdr_inv_cyc_status:
  "hdr_inv X s \<Longrightarrow> (\<And>c. cychdr (f c) = cychdr c \<and> cycstat (f c) AND TCYC_STA = cycstat c AND TCYC_STA) \<Longrightarrow> hdr_inv X (upd_cyc n f s)"
  by (rule hdr_inv_upd_cyc [where X = X]) (auto simp: cyc_reg_def hdr_inv_def unused_ok_def)

lemma hdr_inv_alm_status:
  "hdr_inv X s \<Longrightarrow> (\<And>c. almhdr (f c) = almhdr c \<and> almstat (f c) AND TALM_STA = almstat c AND TALM_STA) \<Longrightarrow> hdr_inv X (upd_alm n f s)"
  by (rule hdr_inv_upd_alm [where X = X]) (auto simp: alm_reg_def hdr_inv_def unused_ok_def)

section \<open>Calls of handlers\<close>

text \<open>User handlers may do what they like as long as they keep the kernel's invariants, which its system calls do.\<close>

definition tim_ok :: "kstate \<Rightarrow> bool" where
  "tim_ok s \<longleftrightarrow> kinv s \<and> hdrs_ok s"

definition uh_ok :: "uhandler \<Rightarrow> bool" where
  "uh_ok uh \<longleftrightarrow> (\<forall>h x s s'. tim_ok s \<and> uh h x s = Some s' \<longrightarrow> tim_ok s')"

lemma uh_okD: "uh_ok uh \<Longrightarrow> tim_ok s \<Longrightarrow> uh h x s = Some s' \<Longrightarrow> tim_ok s'"
  by (auto simp: uh_ok_def)

lemma tim_ok_cyc_status:
  "tim_ok s \<Longrightarrow> (\<And>c. cychdr (f c) = cychdr c \<and> cycstat (f c) AND TCYC_STA = cycstat c AND TCYC_STA) \<Longrightarrow> tim_ok (upd_cyc n f s)"
  unfolding tim_ok_def by (auto intro: hdr_inv_cyc_status)

lemma tim_ok_alm_status:
  "tim_ok s \<Longrightarrow> (\<And>c. almhdr (f c) = almhdr c \<and> almstat (f c) AND TALM_STA = almstat c AND TALM_STA) \<Longrightarrow> tim_ok (upd_alm n f s)"
  unfolding tim_ok_def by (auto intro: hdr_inv_alm_status)

lemma cyc_restart:
  assumes "kinv s" and "hdr_inv {TmCyc n} s" and "started s (TmCyc n)"
  shows "tim_ok (cyc_timer_insert n tm s)"
  using hdr_inv_timer [OF assms(2) _ _ assms(3)] assms(1) by (simp add: cyc_timer_insert_def tim_ok_def)

lemma call_cychdr_ok:
  assumes "kinv s" and "hdr_inv {TmCyc n} s" and "started s (TmCyc n)" and u: "uh_ok uh" and r: "call_cychdr uh n s = Some s'"
  shows "tim_ok s'"
proof -
  define s1 where "s1 = upd_cyc n (\<lambda>c. c\<lparr>cycstat := cycstat c OR TCYC_RUN\<rparr>) (cyc_timer_insert n (cyc_next_time s n) s)"
  have "tim_ok s1" unfolding s1_def by (rule tim_ok_cyc_status [OF cyc_restart [OF assms(1-3)]]) simp
  then have k: "uh (cychdr (cyccb s1 n)) (cyc_exinf (cyccb s1 n)) s1 = Some s2 \<Longrightarrow> tim_ok s2" for s2 using uh_okD [OF u] by blast
  from r obtain s2 where s2: "uh (cychdr (cyccb s1 n)) (cyc_exinf (cyccb s1 n)) s1 = Some s2"
    "s' = (if cycno (cyccb s1 n) = cycno (cyccb s2 n) then upd_cyc n (\<lambda>c. c\<lparr>cycstat := cycstat c AND NOT TCYC_RUN\<rparr>) s2 else s2)"
    unfolding call_cychdr_def Let_def s1_def by (auto split: Option.bind_splits)
  show ?thesis using k [OF s2(1)] by (auto simp: s2(2) intro: tim_ok_cyc_status)
qed

lemma alm_stop:
  assumes "kinv s" and "hdr_inv {TmAlm n} s" and "started s (TmAlm n)"
  shows "tim_ok (upd_alm n (\<lambda>c. c\<lparr>almstat := almstat c AND NOT TALM_STA\<rparr>) s)"
proof -
  have "hdr_inv {} (upd_alm n (\<lambda>c. c\<lparr>almstat := almstat c AND NOT TALM_STA\<rparr>) s)"
    by (rule hdr_inv_upd_alm [OF assms(2)]) (use assms(2,3) in \<open>auto simp: alm_reg_def hdr_inv_def unused_ok_def\<close>)
  with assms(1) show ?thesis by (simp add: tim_ok_def)
qed

lemma call_almhdr_ok:
  assumes "kinv s" and "hdr_inv {TmAlm n} s" and "started s (TmAlm n)" and u: "uh_ok uh" and r: "call_almhdr uh n s = Some s'"
  shows "tim_ok s'"
proof -
  define s1 where "s1 = upd_alm n (\<lambda>c. c\<lparr>almstat := almstat c OR TALM_RUN\<rparr>) (upd_alm n (\<lambda>c. c\<lparr>almstat := almstat c AND NOT TALM_STA\<rparr>) s)"
  have "tim_ok s1" unfolding s1_def by (rule tim_ok_alm_status [OF alm_stop [OF assms(1-3)]]) simp
  then have k: "uh (almhdr (almcb s1 n)) (alm_exinf (almcb s1 n)) s1 = Some s2 \<Longrightarrow> tim_ok s2" for s2 using uh_okD [OF u] by blast
  from r obtain s2 where s2: "uh (almhdr (almcb s1 n)) (alm_exinf (almcb s1 n)) s1 = Some s2"
    "s' = (if almno (almcb s1 n) = almno (almcb s2 n) then upd_alm n (\<lambda>c. c\<lparr>almstat := almstat c AND NOT TALM_RUN\<rparr>) s2 else s2)"
    unfolding call_almhdr_def Let_def s1_def by (auto split: Option.bind_splits)
  show ?thesis using k [OF s2(1)] by (auto simp: s2(2) intro: tim_ok_alm_status)
qed

text \<open>The loop over the handler queue of a processor.\<close>

lemma hdr_loop_ok:
  assumes u: "uh_ok uh" and r: "hdr_loop prid (hdr_callback uh prid) s = Some s'" and i: "tim_ok s"
  shows "tim_ok s'"
proof -
  have "hdr_callback uh prid = hdr_callback uh prid \<longrightarrow> tim_ok s \<longrightarrow> tim_ok s'"
  proof (rule hdr_loop.raw_induct [OF _ r, of "\<lambda>p cb s s'. cb = hdr_callback uh p \<longrightarrow> tim_ok s \<longrightarrow> tim_ok s'"])
    fix rec :: "nat \<Rightarrow> (callback \<Rightarrow> kstate \<Rightarrow> kstate option) \<Rightarrow> kstate \<Rightarrow> kstate option" and p cb s s'
    assume ih: "\<And>p cb s s'. rec p cb s = Some s' \<Longrightarrow> cb = hdr_callback uh p \<longrightarrow> tim_ok s \<longrightarrow> tim_ok s'"
    assume l: "(case hqs s p of [] \<Rightarrow> Some s
      | e # es \<Rightarrow> let s = upd_hq p (\<lambda>h. h\<lparr>hdrque := es\<rparr>) s
          in case tm_callback (tmeb_at s e) of None \<Rightarrow> None | Some f \<Rightarrow> cb f s \<bind> rec p cb) = Some s'"
    show "cb = hdr_callback uh p \<longrightarrow> tim_ok s \<longrightarrow> tim_ok s'"
    proof (intro impI)
      assume cb: "cb = hdr_callback uh p" and i: "tim_ok s"
      show "tim_ok s'"
      proof (cases "hqs s p")
        case Nil
        with l i show ?thesis by simp
      next
        case (Cons e es)
        define s1 where "s1 = upd_hq p (\<lambda>h. h\<lparr>hdrque := es\<rparr>) s"
        from i have j: "hdr_inv {} s" "kinv s" by (simp_all add: tim_ok_def)
        note q = hdr_inv_pop [OF j(1) Cons, folded s1_def]
        have s1: "kinv s1" "started s1 = started s" "tmeb_at s1 = tmeb_at s" using j
          by (simp_all add: s1_def started_frame [of s1 s, unfolded s1_def])
        have "cb (Cb_call e) s1 \<bind> rec p cb = Some s'" using l q(4) by (simp add: Cons s1_def)
        then obtain s2 where s2: "cb (Cb_call e) s1 = Some s2" "rec p cb s2 = Some s'" by (cases "cb (Cb_call e) s1") simp_all
        have "tim_ok s2"
        proof (cases e)
          case (TmTsk t)
          with q(2) show ?thesis by simp
        next
          case (TmCyc n)
          with call_cychdr_ok [OF s1(1) _ _ u, of n s2] q(1,3) s2(1) cb s1(2) show ?thesis by simp
        next
          case (TmAlm n)
          with call_almhdr_ok [OF s1(1) _ _ u, of n s2] q(1,3) s2(1) cb s1(2) show ?thesis by simp
        qed
        with ih [OF s2(2)] cb show ?thesis by simp
      qed
    qed
  qed
  with i show ?thesis by simp
qed

section \<open>Requests to the processors\<close>

lemma chq_fold:
  "foldl chq_step (0, s) [0..<n] = (asp, s') \<Longrightarrow> n \<le> 32 \<Longrightarrow>
     (\<forall>p. bit asp p \<longleftrightarrow> p < n \<and> hq_upd (handler_queue (ko s) p) \<and> \<not> hq_act (handler_queue (ko s) p)) \<and>
     (\<forall>p. handler_queue (ko s') p = (if p < n then (handler_queue (ko s) p)\<lparr>hq_upd := False,
        hq_act := hq_act (handler_queue (ko s) p) \<or> hq_upd (handler_queue (ko s) p)\<rparr> else handler_queue (ko s) p)) \<and>
     kinv s' = kinv s \<and> hview s' = hview s"
proof (induction n arbitrary: asp s')
  case (Suc n)
  obtain a s1 where f: "foldl chq_step (0, s) [0..<n] = (a, s1)" by fastforce
  note ih = Suc.IH [OF f]
  have st: "chq_step (a, s1) n = (asp, s')" using Suc.prems f by simp
  have v: "hview (upd_hq n g s1) = hview s1" if "\<And>h. hdrque (g h) = hdrque h" for g
    using that by (simp add: hview_def upd_hq_def fun_eq_iff)
  define h where "h = handler_queue (ko s) n"
  have h: "handler_queue (ko s1) n = h" using ih Suc.prems by (simp add: h_def)
  show ?case
  proof (cases "hq_upd h \<and> \<not> hq_act h")
    case True
    with st h have e: "asp = a OR push_bit n 1" "s' = upd_hq n (\<lambda>h. h\<lparr>hq_act := True, hq_upd := False\<rparr>) s1"
      by (simp_all add: chq_step_def Let_def)
    have b: "bit asp p \<longleftrightarrow> bit a p \<or> p = n" for p using Suc.prems by (auto simp: e bit_simps)
    show ?thesis using ih Suc.prems True v [of "\<lambda>h. h\<lparr>hq_act := True, hq_upd := False\<rparr>"]
      by (auto simp: b e(2) h less_Suc_eq h_def)
  next
    case False
    with st h have e: "asp = a" "s' = upd_hq n (\<lambda>h. h\<lparr>hq_upd := False\<rparr>) s1" by (auto simp: chq_step_def Let_def)
    show ?thesis using ih Suc.prems False v [of "\<lambda>h. h\<lparr>hq_upd := False\<rparr>"]
      by (auto simp: e h less_Suc_eq h_def)
  qed
qed simp

lemma check_handler_queue_ok:
  assumes "check_handler_queue s = (asp, s')"
  shows "\<forall>p. bit asp p \<longleftrightarrow> p < MAX_PROC \<and> hq_upd (handler_queue (ko s) p) \<and> \<not> hq_act (handler_queue (ko s) p)"
    and "\<forall>p<MAX_PROC. handler_queue (ko s') p = (handler_queue (ko s) p)\<lparr>hq_upd := False,
        hq_act := hq_act (handler_queue (ko s) p) \<or> hq_upd (handler_queue (ko s) p)\<rparr>"
    and "kinv s' = kinv s" "hview s' = hview s"
  using chq_fold [OF assms [unfolded check_handler_queue_def]] by (simp_all add: MAX_PROC_def)

lemma tim_ok_view: "tim_ok s \<Longrightarrow> hview s' = hview s \<Longrightarrow> kinv s' = kinv s \<Longrightarrow> tim_ok s'"
  by (auto simp: tim_ok_def intro: hdr_inv_view)

lemma handler_update_ok:
  assumes u: "uh_ok uh" and i: "tim_ok s" and r: "handler_update prid (hdr_callback uh prid) asp s = Some s'"
  shows "tim_ok s'"
proof (cases "asp \<noteq> 0 \<and> handler_request prid asp")
  case True
  with r obtain s1 where s1: "hdr_loop prid (hdr_callback uh prid) s = Some s1" "s' = upd_hq prid (\<lambda>h. h\<lparr>hq_act := False\<rparr>) s1"
    by (auto simp: handler_update_def handler_execution_def split: Option.bind_splits)
  show ?thesis
    by (rule tim_ok_view [OF hdr_loop_ok [OF u s1(1) i]]) (simp_all add: s1(2) hview_def fun_eq_iff)
next
  case False
  with r i show ?thesis by (simp add: handler_update_def)
qed

lemma kinv_task_indep [simp]: "kinv (s\<lparr>task_indep := x\<rparr>) = kinv s"
  by (rule kinv_cong) simp_all

lemma in_task_indep_ok:
  assumes u: "uh_ok uh" and i: "tim_ok s" and r: "in_task_indep prid (uh h x) s = Some s'"
  shows "tim_ok s'"
proof -
  have "tim_ok (s\<lparr>task_indep := (task_indep s)(prid := True)\<rparr>)"
    by (rule tim_ok_view [OF i]) (simp_all add: hview_def)
  from uh_okD [OF u this] r obtain s1 where "tim_ok s1" "s' = s1\<lparr>task_indep := (task_indep s1)(prid := task_indep s prid)\<rparr>"
    by (auto simp: in_task_indep_def split: Option.bind_splits)
  then show ?thesis by (auto intro: tim_ok_view simp: hview_def)
qed

text \<open>An immediate call: the handler is started, but its event is not linked.\<close>

lemma immediate_call_cychdr_ok:
  assumes k: "kinv s" and i: "hdr_inv {TmCyc n} s" and st: "started s (TmCyc n)" and u: "uh_ok uh"
    and r: "immediate_call_cychdr (hdr_callback uh prid) uh prid n s = Some s'"
  shows "tim_ok s'"
proof (cases "is_cyc_assprc (cyccb s n)")
  case True
  obtain asp s1 where c: "check_handler_queue (distribute_cychdr prid n s) = (asp, s1)" by fastforce
  have "tim_ok (distribute_cychdr prid n s)"
    using hdr_inv_enqueue [OF i _ _ st] k by (simp add: distribute_cychdr_def tim_ok_def enqueue_handler_sel)
  then have "tim_ok s1" by (rule tim_ok_view) (use check_handler_queue_ok [OF c] in simp_all)
  from handler_update_ok [OF u this] r True c show ?thesis by (simp add: immediate_call_cychdr_def)
next
  case False
  define s1 where "s1 = upd_cyc n (\<lambda>c. c\<lparr>cycstat := cycstat c OR (TCYC_RUN OR TCYC_IMM)\<rparr>) (cyc_timer_insert n (cyc_next_time s n) s)"
  have "tim_ok s1" unfolding s1_def by (rule tim_ok_cyc_status [OF cyc_restart [OF k i st]]) simp
  note w = in_task_indep_ok [OF u this]
  from r False obtain s2 where s2: "in_task_indep prid (uh (cychdr (cyccb s1 n)) (cyc_exinf (cyccb s1 n))) s1 = Some s2"
    "s' = (if cycno (cyccb s1 n) = cycno (cyccb s2 n) then upd_cyc n (\<lambda>c. c\<lparr>cycstat := cycstat c AND NOT (TCYC_RUN OR TCYC_IMM)\<rparr>) s2 else s2)"
    unfolding immediate_call_cychdr_def Let_def s1_def by (auto split: Option.bind_splits)
  show ?thesis using w [OF s2(1)] by (auto simp: s2(2) intro: tim_ok_cyc_status)
qed

section \<open>The system calls\<close>

lemma STA_nonzero [simp]: "TALM_STA \<noteq> 0" "TCYC_STA \<noteq> 0"
  by (simp_all add: TALM_STA_def TCYC_STA_def)

lemma hdr_inv_unstarted: "hdr_inv X s \<Longrightarrow> \<not> started s e \<Longrightarrow> hdr_inv (insert e X) s"
  by (auto simp: hdr_inv_def intro: links_status)

lemma alm_stop':
  assumes "kinv s" and "hdr_inv {TmAlm n} s"
  shows "tim_ok (upd_alm n (\<lambda>c. c\<lparr>almstat := almstat c AND NOT TALM_STA\<rparr>) s)"
proof -
  have "hdr_inv {} (upd_alm n (\<lambda>c. c\<lparr>almstat := almstat c AND NOT TALM_STA\<rparr>) s)"
    by (rule hdr_inv_upd_alm [OF assms(2)]) (use assms(2) in \<open>auto simp: alm_reg_def hdr_inv_def unused_ok_def\<close>)
  with assms(1) show ?thesis by (simp add: tim_ok_def)
qed

lemma immediate_call_almhdr_ok:
  assumes k: "kinv s" and i: "hdr_inv {TmAlm n} s" and g: "alm_reg s n" and u: "uh_ok uh"
    and r: "immediate_call_almhdr (hdr_callback uh prid) uh prid n s = Some s'"
  shows "tim_ok s'"
proof (cases "is_alm_assprc (almcb s n)")
  case True
  define s0 where "s0 = upd_alm n (\<lambda>c. c\<lparr>almstat := almstat c OR TALM_STA\<rparr>) s"
  have i0: "hdr_inv {TmAlm n} s0" unfolding s0_def
    by (rule hdr_inv_upd_alm [OF i]) (use i in \<open>auto simp: alm_reg_def hdr_inv_def unused_ok_def\<close>)
  have st: "started s0 (TmAlm n)" "kinv s0" using g k by (simp_all add: s0_def alm_reg_def)
  obtain asp s1 where c: "check_handler_queue (distribute_almhdr prid n s0) = (asp, s1)" by fastforce
  have "tim_ok (distribute_almhdr prid n s0)"
    using hdr_inv_enqueue [OF i0 _ _ st(1)] st(2) by (simp add: distribute_almhdr_def tim_ok_def enqueue_handler_sel)
  then have "tim_ok s1" by (rule tim_ok_view) (use check_handler_queue_ok [OF c] in simp_all)
  from handler_update_ok [OF u this] r True c show ?thesis by (simp add: immediate_call_almhdr_def s0_def)
next
  case False
  define s1 where "s1 = upd_alm n (\<lambda>c. c\<lparr>almstat := almstat c OR (TALM_RUN OR TALM_IMM)\<rparr>) (upd_alm n (\<lambda>c. c\<lparr>almstat := almstat c AND NOT TALM_STA\<rparr>) s)"
  have "tim_ok s1" unfolding s1_def by (rule tim_ok_alm_status [OF alm_stop' [OF k i]]) simp
  note w = in_task_indep_ok [OF u this]
  from r False obtain s2 where s2: "in_task_indep prid (uh (almhdr (almcb s1 n)) (alm_exinf (almcb s1 n))) s1 = Some s2"
    "s' = (if almno (almcb s1 n) = almno (almcb s2 n) then upd_alm n (\<lambda>c. c\<lparr>almstat := almstat c AND NOT (TALM_RUN OR TALM_IMM)\<rparr>) s2 else s2)"
    unfolding immediate_call_almhdr_def Let_def s1_def by (auto split: Option.bind_splits)
  show ?thesis using w [OF s2(1)] by (auto simp: s2(2) intro: tim_ok_alm_status)
qed

lemma tim_ok_end: "tim_ok s \<Longrightarrow> end_critical r s = Some (e, s') \<Longrightarrow> tim_ok s'"
  by (frule end_critical_ok [of s r, OF conjunct1 [OF tim_ok_def [THEN iffD1]]]) (auto simp: tim_ok_def intro: hdr_inv_view hview_sched)

lemma tim_ok_leave: "tim_ok s \<Longrightarrow> leave_critical d r s = Some (e, s') \<Longrightarrow> tim_ok s'"
  by (cases d) (auto simp: leave_critical_def intro: tim_ok_end)

lemma hdr_call_ok:
  assumes i: "tim_ok s" and r: "hdr_call reg dsp gs prid ops oid body s = Some (e, s')"
    and b: "\<And>n. guards gs = None \<Longrightarrow> n = INDEX_OBJ oid \<Longrightarrow> reg s n \<Longrightarrow> body n s = Some (e, s') \<Longrightarrow> tim_ok s'"
  shows "tim_ok s'"
proof (cases "guards gs")
  case None
  show ?thesis
  proof (cases "reg s (INDEX_OBJ oid)")
    case True
    with r None obtain x where "(if x \<noteq> E_OK then leave_critical dsp x s else body (INDEX_OBJ oid) s) = Some (e, s')"
      by (auto simp: hdr_call_def Let_def split: Option.bind_splits)
    then show ?thesis using b [OF None refl True] tim_ok_leave [OF i] by (auto split: if_splits)
  next
    case False
    with r None tim_ok_leave [OF i] show ?thesis by (simp add: hdr_call_def Let_def)
  qed
next
  case (Some x)
  with r i show ?thesis by (simp add: hdr_call_def)
qed

lemma event_delete_sel [simp]:
  "cyccb (event_delete e s) = cyccb s" "almcb (event_delete e s) = almcb s" "current_time (event_delete e s) = current_time s"
  "timer_period (event_delete e s) = timer_period s" "cyc_tmeb (event_delete e s) = cyc_tmeb s"
  by (simp_all add: event_delete_def Let_def cyccb_def almcb_def timer_delete_def fun_eq_iff)

text \<open>The event of a started handler is taken out of its queue; that of a handler that is not started is in no queue.\<close>

lemma cyc_unlink:
  assumes "tim_ok s" and "cyc_reg s n"
  shows "hdr_inv {TmCyc n} (if cycstat (cyccb s n) AND TCYC_STA \<noteq> 0 then event_delete (TmCyc n) s else s)"
    and "kinv (if cycstat (cyccb s n) AND TCYC_STA \<noteq> 0 then event_delete (TmCyc n) s else s)"
  using assms hdr_inv_delete [of "{}" s "TmCyc n"] hdr_inv_unstarted [of "{}" s "TmCyc n"] by (auto simp: tim_ok_def)

lemma alm_unlink:
  assumes "tim_ok s" and "alm_reg s n"
  shows "hdr_inv {TmAlm n} (if almstat (almcb s n) AND TALM_STA \<noteq> 0 then event_delete (TmAlm n) s else s)"
    and "kinv (if almstat (almcb s n) AND TALM_STA \<noteq> 0 then event_delete (TmAlm n) s else s)"
  using assms hdr_inv_delete [of "{}" s "TmAlm n"] hdr_inv_unstarted [of "{}" s "TmAlm n"] by (auto simp: tim_ok_def)

lemma set_free_sel [simp]:
  "cyccb (set_free_cyc q s) = cyccb s" "almcb (set_free_cyc q s) = almcb s" "kinv (set_free_cyc q s) = kinv s"
  "cyccb (set_free_alm q s) = cyccb s" "almcb (set_free_alm q s) = almcb s" "kinv (set_free_alm q s) = kinv s"
  by (simp_all add: set_free_cyc_def set_cyctab_def set_free_alm_def set_almtab_def cyccb_def almcb_def fun_eq_iff)

lemma hdr_inv_free_cyc:
  assumes "hdr_inv X s" and "distinct q" and "\<forall>n\<in>set q. \<not> cyc_reg s n"
  shows "hdr_inv X (set_free_cyc q s)"
proof -
  have "tmeb_at (set_free_cyc q s) e = tmeb_at s e" for e by (cases e) (simp_all add: set_free_cyc_def set_cyctab_def)
  moreover have "started (set_free_cyc q s) = started s"
  proof
    fix e show "started (set_free_cyc q s) e = started s e" by (cases e) (simp_all add: cyc_reg_def alm_reg_def)
  qed
  moreover have "timer_queue (set_free_cyc q s) = timer_queue s" "handler_queue (ko (set_free_cyc q s)) = handler_queue (ko s)"
    "freeq (cyctab (ko (set_free_cyc q s))) = q" "almtab (ko (set_free_cyc q s)) = almtab (ko s)"
    by (simp_all add: set_free_cyc_def set_cyctab_def)
  ultimately show ?thesis using assms by (simp add: hdr_inv_def calls_ok_def unused_ok_def cyc_reg_def alm_reg_def)
qed

lemma hdr_inv_free_alm:
  assumes "hdr_inv X s" and "distinct q" and "\<forall>n\<in>set q. \<not> alm_reg s n"
  shows "hdr_inv X (set_free_alm q s)"
proof -
  have "tmeb_at (set_free_alm q s) e = tmeb_at s e" for e by (cases e) (simp_all add: set_free_alm_def set_almtab_def)
  moreover have "started (set_free_alm q s) = started s"
  proof
    fix e show "started (set_free_alm q s) e = started s e" by (cases e) (simp_all add: cyc_reg_def alm_reg_def)
  qed
  moreover have "timer_queue (set_free_alm q s) = timer_queue s" "handler_queue (ko (set_free_alm q s)) = handler_queue (ko s)"
    "freeq (almtab (ko (set_free_alm q s))) = q" "cyctab (ko (set_free_alm q s)) = cyctab (ko s)"
    by (simp_all add: set_free_alm_def set_almtab_def)
  ultimately show ?thesis using assms by (simp add: hdr_inv_def calls_ok_def unused_ok_def cyc_reg_def alm_reg_def)
qed

text \<open>Setting the status of a handler whose event is linked nowhere.\<close>

lemma cyc_stopped:
  assumes "kinv s" and "hdr_inv {TmCyc n} s" and "\<And>c. cychdr (f c) = cychdr c" and "\<And>c. cycstat (f c) AND TCYC_STA = 0"
  shows "tim_ok (upd_cyc n f s)"
proof -
  have "hdr_inv {} (upd_cyc n f s)"
    by (rule hdr_inv_upd_cyc [OF assms(2)]) (use assms(2-4) in \<open>auto simp: cyc_reg_def hdr_inv_def unused_ok_def\<close>)
  with assms(1) show ?thesis by (simp add: tim_ok_def)
qed

lemma cyc_changed:
  assumes "hdr_inv {TmCyc n} s" and "n \<in> set (freeq (cyctab (ko s))) \<Longrightarrow> cychdr (f (cyccb s n)) = 0"
  shows "hdr_inv {TmCyc n} (upd_cyc n f s)"
  by (rule hdr_inv_upd_cyc [OF assms(1)]) (use assms(2) in auto)

lemma timer_abs_queue:
  "timer_queue (timer_insert_abs e tm cb s) = insert_before (\<lambda>q. ll_cmp tm (if q = e then tm else etime s q) < 0) e (timer_queue s)"
  by (simp add: timer_insert_abs_def Let_def enqueue_tmeb_def tmeb_at_upd if_distrib cong: if_cong)

lemma cyctab_upd: "cyctab (ko (upd_cyc n f s)) = (cyctab (ko s))\<lparr>cbs := (cbs (cyctab (ko s)))(n := f (cbs (cyctab (ko s)) n))\<rparr>"
  by (simp add: upd_cyc_def set_cyctab_def)

lemma almtab_upd: "almtab (ko (upd_alm n f s)) = (almtab (ko s))\<lparr>cbs := (cbs (almtab (ko s)))(n := f (cbs (almtab (ko s)) n))\<rparr>"
  by (simp add: upd_alm_def set_almtab_def)

lemma tmeb_cbs:
  "cyc_tmeb (timer_insert_abs e tm cb s) i = (if e = TmCyc i then \<lparr>tm_time = tm, tm_callback = cb\<rparr> else cyc_tmeb s i)"
  "alm_tmeb (timer_insert_abs e tm cb s) i = (if e = TmAlm i then \<lparr>tm_time = tm, tm_callback = cb\<rparr> else alm_tmeb s i)"
  "cyc_tmeb (upd_alm n f u) = cyc_tmeb u" "alm_tmeb (upd_cyc n g u) = alm_tmeb u"
  by (cases e; simp add: timer_insert_abs_def Let_def enqueue_tmeb_def upd_alm_def set_almtab_def upd_cyc_def set_cyctab_def)+

lemma cyc_start_linked:
  assumes "kinv s" and "hdr_inv {TmCyc n} s" and "cyc_reg s n" and st: "\<And>c. cychdr (f c) = cychdr c" "\<And>c. cycstat (f c) AND TCYC_STA \<noteq> 0"
  shows "tim_ok (upd_cyc n f (cyc_timer_insert n tm s))"
proof -
  have e: "hview (upd_cyc n f (cyc_timer_insert n tm s)) = hview (cyc_timer_insert n tm (upd_cyc n f s))"
    "kinv (upd_cyc n f (cyc_timer_insert n tm s)) = kinv (cyc_timer_insert n tm (upd_cyc n f s))"
    by (simp_all add: hview_def cyc_timer_insert_def timer_abs_queue cyctab_upd fun_eq_iff) (simp_all add: tmeb_cbs)
  have "hdr_inv {TmCyc n} (upd_cyc n f s)"
    by (rule cyc_changed [OF assms(2)]) (use assms(2,3) in \<open>simp add: hdr_inv_def unused_ok_def\<close>)
  then have "tim_ok (cyc_timer_insert n tm (upd_cyc n f s))"
    by (intro cyc_restart) (use assms(1,3) st in \<open>simp_all add: cyc_reg_def\<close>)
  then show ?thesis by (rule tim_ok_view) (use e in simp_all)
qed

lemma alm_start_linked:
  assumes "kinv s" and "hdr_inv {TmAlm n} s" and "alm_reg s n" and st: "\<And>c. almhdr (f c) = almhdr c" "\<And>c. almstat (f c) AND TALM_STA \<noteq> 0"
  shows "tim_ok (upd_alm n f (alm_timer_insert n tm s))"
proof -
  have e: "hview (upd_alm n f (alm_timer_insert n tm s)) = hview (alm_timer_insert n tm (upd_alm n f s))"
    "kinv (upd_alm n f (alm_timer_insert n tm s)) = kinv (alm_timer_insert n tm (upd_alm n f s))"
    by (simp_all add: hview_def alm_timer_insert_def timer_abs_queue almtab_upd fun_eq_iff) (simp_all add: tmeb_cbs)
  have "hdr_inv {TmAlm n} (upd_alm n f s)"
    by (rule hdr_inv_upd_alm [OF assms(2)]) (use assms(2,3) in \<open>auto simp: hdr_inv_def unused_ok_def\<close>)
  then have "tim_ok (alm_timer_insert n tm (upd_alm n f s))" unfolding alm_timer_insert_def
    using hdr_inv_timer [of "{TmAlm n}" "upd_alm n f s" "TmAlm n"] assms(1,3) st by (simp add: tim_ok_def alm_reg_def)
  then show ?thesis by (rule tim_ok_view) (use e in simp_all)
qed

lemma tk_stp_cyc_ok:
  assumes i: "tim_ok s" and r: "tk_stp_cyc prid oid s = Some (e, s')"
  shows "tim_ok s'"
proof (rule hdr_call_ok [OF i r [unfolded tk_stp_cyc_def]])
  fix n
  let ?u = "if cycstat (cyccb s n) AND TCYC_STA \<noteq> 0 then event_delete (TmCyc n) s else s"
  assume g: "cyc_reg s n" and b: "(let s = ?u in Some (E_OK, upd_cyc n (\<lambda>c. c\<lparr>cycstat := cycstat c AND NOT TCYC_STA\<rparr>) s)) = Some (e, s')"
  have "tim_ok (upd_cyc n (\<lambda>c. c\<lparr>cycstat := cycstat c AND NOT TCYC_STA\<rparr>) ?u)"
    by (rule cyc_stopped [OF cyc_unlink(2,1) [OF i g]]) simp_all
  with b show "tim_ok s'" by (simp add: Let_def)
qed

lemma tk_sta_cyc_ok:
  assumes i: "tim_ok s" and r: "tk_sta_cyc prid oid s = Some (e, s')"
  shows "tim_ok s'"
proof (rule hdr_call_ok [OF i r [unfolded tk_sta_cyc_def]])
  fix n
  let ?f = "\<lambda>c. c\<lparr>cycstat := cycstat c OR TCYC_STA\<rparr>"
  let ?u = "if cycstat (cyccb s n) AND TCYC_STA \<noteq> 0 then event_delete (TmCyc n) s else s"
  assume g: "cyc_reg s n" and b: "(let started = cycstat (cyccb s n) AND TCYC_STA \<noteq> 0;
        s = if cycatr (cyccb s n) AND TA_PHS \<noteq> 0
            then if \<not> started then let tm = tm_time (cyc_tmeb s n) in cyc_timer_insert n (if ll_cmp tm (current_time s) \<le> 0 then cyc_next_time s n else tm) s
                 else s
            else let s = if started then event_delete (TmCyc n) s else s
                 in cyc_timer_insert n (ll_add (ll_add (current_time s) (uitoll (cyctim (cyccb s n)))) (uitoll (timer_period s))) s
    in Some (E_OK, upd_cyc n ?f s)) = Some (e, s')"
  note un = cyc_unlink(2,1) [OF i g]
  have start: "tim_ok (upd_cyc n ?f (cyc_timer_insert n tm ?u))" for tm
    by (rule cyc_start_linked [OF un]) (use g in \<open>simp_all add: cyc_reg_def\<close>)
  show "tim_ok s'"
  proof (cases "cycatr (cyccb s n) AND TA_PHS \<noteq> 0 \<and> cycstat (cyccb s n) AND TCYC_STA \<noteq> 0")
    case True
    then have "tim_ok (upd_cyc n ?f s)"
      using i g unfolding tim_ok_def
      by (intro conjI hdr_inv_upd_cyc [where X = "{}"]) (auto simp: cyc_reg_def hdr_inv_def unused_ok_def)
    with True b show ?thesis by (simp add: Let_def)
  next
    case False
    with b start show ?thesis by (auto simp: Let_def split: if_splits)
  qed
qed

lemma tk_del_cyc_ok:
  assumes i: "tim_ok s" and r: "tk_del_cyc prid oid s = Some (e, s')"
  shows "tim_ok s'"
proof (rule hdr_call_ok [OF i r [unfolded tk_del_cyc_def]])
  fix n
  let ?u = "if cycstat (cyccb s n) AND TCYC_STA \<noteq> 0 then event_delete (TmCyc n) s else s"
  let ?f = "\<lambda>c. c\<lparr>cychdr := 0, cycid := 0, cycno := cycno c + 1\<rparr>"
  assume g: "cyc_reg s n" and b: "(let s = ?u; s = mp_unregister_object_in_domain oid OT_CYC n s;
      s = set_free_cyc (freeq (cyctab (ko s)) @ [n]) s in Some (E_OK, upd_cyc n ?f s)) = Some (e, s')"
  define v where "v = mp_unregister_object_in_domain oid OT_CYC n ?u"
  have v: "hdr_inv {TmCyc n} v" "kinv v" "cyccb v = cyccb s" "freeq (cyctab (ko v)) = freeq (cyctab (ko s))"
  proof -
    show "hdr_inv {TmCyc n} v" unfolding v_def by (rule hdr_inv_view [OF cyc_unlink(1) [OF i g]]) simp
    show "kinv v" using cyc_unlink(2) [OF i g] by (simp add: v_def)
    have "cyctab (ko v) = cyctab (ko ?u)"
      using hview_domain(2) [of oid OT_CYC n ?u] by (simp add: v_def hview_def)
    then show "cyccb v = cyccb s" "freeq (cyctab (ko v)) = freeq (cyctab (ko s))"
      by (auto simp: cyccb_def fun_eq_iff event_delete_def Let_def)
  qed
  have "hdr_inv {} (upd_cyc n ?f v)"
    by (rule hdr_inv_upd_cyc [OF v(1)]) auto
  then have "hdr_inv {} (set_free_cyc (freeq (cyctab (ko v)) @ [n]) (upd_cyc n ?f v))"
  proof (rule hdr_inv_free_cyc)
    have u: "distinct (freeq (cyctab (ko s)))" "\<forall>m\<in>set (freeq (cyctab (ko s))). \<not> cyc_reg s m"
      using i by (simp_all add: tim_ok_def hdr_inv_def unused_ok_def)
    with g show "distinct (freeq (cyctab (ko v)) @ [n])" by (auto simp: v)
    show "\<forall>m\<in>set (freeq (cyctab (ko v)) @ [n]). \<not> cyc_reg (upd_cyc n ?f v) m" using u by (auto simp: v cyc_reg_def)
  qed
  moreover have "upd_cyc n ?f (set_free_cyc q v) = set_free_cyc q (upd_cyc n ?f v)" for q
    by (simp add: upd_cyc_def set_free_cyc_def set_cyctab_def)
  ultimately show "tim_ok s'" using b v(2) by (auto simp: Let_def v_def [symmetric] tim_ok_def)
qed

lemma alm_changed:
  assumes "hdr_inv {TmAlm n} s" and "n \<in> set (freeq (almtab (ko s))) \<Longrightarrow> almhdr (f (almcb s n)) = 0"
  shows "hdr_inv {TmAlm n} (upd_alm n f s)"
  by (rule hdr_inv_upd_alm [OF assms(1)]) (use assms(2) in auto)

text \<open>The ways out of a creation.\<close>

lemma hdr_cre_cases:
  assumes r: "hdr_cre dsp gs prid ops atr did oname init start s = Some (e, s')"
  obtains "s' = s" | x where "leave_critical dsp x s = Some (e, s')"
  | n q oid dom nm s1 where "guards gs = None" "oo_free ops s = n # q"
    "start n (mp_register_object_in_domain dom (oo_type ops) (INDEX_OBJ oid) nm
       (oo_set_name ops n (name_copy nm) (init n oid (oo_set_free ops q s)))) = Some s1" "leave_critical dsp (sint oid) s1 = Some (e, s')"
proof (cases "guards gs")
  case (Some x)
  with r that(1) show ?thesis by (simp add: hdr_cre_def)
next
  case None
  obtain p where p: "cre_prologue prid ops atr did oname s = Some p"
    using r None by (auto simp: hdr_cre_def split: Option.bind_splits)
  show ?thesis
  proof (cases p)
    case (Inl x)
    with r None p that(2) show ?thesis by (simp add: hdr_cre_def)
  next
    case (Inr y)
    obtain dom nm where y: "y = (dom, nm)" by (cases y)
    show ?thesis
    proof (cases "oo_free ops s")
      case Nil
      with r None p Inr y that(2) show ?thesis by (simp add: hdr_cre_def)
    next
      case (Cons n q)
      define s0 where "s0 = mp_register_object_in_domain dom (oo_type ops) (INDEX_OBJ (MP_GEN_DOMIDPART dom OR ID_OBJ n)) nm
        (oo_set_name ops n (name_copy nm) (init n (MP_GEN_DOMIDPART dom OR ID_OBJ n) (oo_set_free ops q s)))"
      have "start n s0 \<bind> leave_critical dsp (sint (MP_GEN_DOMIDPART dom OR ID_OBJ n)) = Some (e, s')"
        using r None p Inr y Cons by (simp add: hdr_cre_def Let_def s0_def)
      then obtain s1 where "start n s0 = Some s1" "leave_critical dsp (sint (MP_GEN_DOMIDPART dom OR ID_OBJ n)) s1 = Some (e, s')"
        by (cases "start n s0") simp_all
      then show ?thesis using that(3) None Cons by (simp add: s0_def)
    qed
  qed
qed

lemma cyc_start_ok:
  assumes k: "kinv s" and i: "hdr_inv {TmCyc n} s" and g: "cyc_reg s n" and u: "uh_ok uh"
    and r: "cyc_start (hdr_callback uh prid) uh prid pk n s = Some s'"
  shows "tim_ok s'"
proof -
  have nf: "n \<notin> set (freeq (cyctab (ko s)))" using i g by (auto simp: hdr_inv_def unused_ok_def)
  have hv: "hview (upd_tmeb (TmCyc n) (\<lambda>x. x\<lparr>tm_time := tm\<rparr>) v) = hview v" "kinv (upd_tmeb (TmCyc n) (\<lambda>x. x\<lparr>tm_time := tm\<rparr>) v) = kinv v" for tm v
    by (simp_all add: hview_def fun_eq_iff)
  have tv: "tim_ok v \<Longrightarrow> tim_ok (upd_tmeb (TmCyc n) (\<lambda>x. x\<lparr>tm_time := tm\<rparr>) v)"
    "hdr_inv X v \<Longrightarrow> hdr_inv X (upd_tmeb (TmCyc n) (\<lambda>x. x\<lparr>tm_time := tm\<rparr>) v)" for tm v X
    using hv tim_ok_view hdr_inv_view by blast+
  define s1 where "s1 = upd_cyc n (\<lambda>c. c\<lparr>cycstat := TCYC_STA\<rparr>) s"
  have s1: "hdr_inv {TmCyc n} s1" "kinv s1" "started s1 (TmCyc n)"
    using cyc_changed [OF i] nf k g by (simp_all add: s1_def cyc_reg_def)
  have imm: "tim_ok s'" if "immediate_call_cychdr (hdr_callback uh prid) uh prid n (upd_tmeb (TmCyc n) (\<lambda>x. x\<lparr>tm_time := tm\<rparr>) s1) = Some s'" for tm
  proof (rule immediate_call_cychdr_ok [OF _ tv(2) [OF s1(1)] _ u that])
    show "kinv (upd_tmeb (TmCyc n) (\<lambda>x. x\<lparr>tm_time := tm\<rparr>) s1)" using s1(2) by simp
    show "started (upd_tmeb (TmCyc n) (\<lambda>x. x\<lparr>tm_time := tm\<rparr>) s1) (TmCyc n)" using s1(3) by (simp add: cyc_reg_def cyccb_def)
  qed
  have ins: "tim_ok (cyc_timer_insert n tm s1)" for tm by (rule cyc_restart [OF s1(2,1,3)])
  have stop: "tim_ok (upd_cyc n (\<lambda>c. c\<lparr>cycstat := TCYC_STP\<rparr>) s)" by (rule cyc_stopped [OF k i]) simp_all
  show ?thesis using r imm ins tv(1) [OF stop] by (auto simp: cyc_start_def Let_def s1_def split: if_splits)
qed

lemma guards_cychdr: "guards (ccyc_guards pk s) = None \<Longrightarrow> ccyc_cychdr pk \<noteq> 0"
  by (auto simp: guards_None ccyc_guards_def CHECK_PAR_def)

lemma guards_almhdr: "guards (calm_guards pk s) = None \<Longrightarrow> calm_almhdr pk \<noteq> 0"
  by (auto simp: guards_None calm_guards_def CHECK_PAR_def)

lemma tk_cre_cyc_ok:
  assumes i: "tim_ok s" and u: "uh_ok uh" and r: "tk_cre_cyc uh prid pk s = Some (e, s')"
  shows "tim_ok s'"
  using r [unfolded tk_cre_cyc_def]
proof (cases rule: hdr_cre_cases)
  case (3 n q oid dom nm s1)
  have o: "freeq (cyctab (ko s)) = n # q" using 3(2) by (simp add: cyc_ops_def)
  have f: "distinct (n # q)" "\<forall>m\<in>set (n # q). \<not> cyc_reg s m" using i o by (auto simp: tim_ok_def hdr_inv_def unused_ok_def)
  define s0 where "s0 = set_free_cyc q s"
  have a: "hdr_inv {} s0" using hdr_inv_free_cyc [of "{}" s q] i f by (simp add: tim_ok_def s0_def)
  have b: "hdr_inv {TmCyc n} s0" using hdr_inv_unstarted [OF a, of "TmCyc n"] f by (simp add: s0_def cyc_reg_def)
  have nf: "n \<notin> set (freeq (cyctab (ko s0)))" "kinv s0" using f i by (simp_all add: s0_def set_free_cyc_def set_cyctab_def tim_ok_def)
  define s2 where "s2 = upd_cyc n (\<lambda>c. c\<lparr>cyc_oname := name_copy nm\<rparr>) (cyc_init pk n oid s0)"
  have s2: "hdr_inv {TmCyc n} s2" "kinv s2" "cyc_reg s2 n"
    using b nf guards_cychdr [OF 3(1)] by (auto simp: s2_def cyc_init_def cyc_reg_def intro!: cyc_changed)
  define s3 where "s3 = mp_register_object_in_domain dom OT_CYC (INDEX_OBJ oid) nm s2"
  have i3: "hdr_inv {TmCyc n} s3" unfolding s3_def by (rule hdr_inv_view [OF s2(1)]) simp
  have k3: "kinv s3" "cyc_reg s3 n"
    using s2 hview_domain(1) [of dom OT_CYC "INDEX_OBJ oid" nm s2] by (simp_all add: s3_def cyc_reg_def cyccb_def hview_def)
  have st: "cyc_start (hdr_callback uh prid) uh prid pk n s3 = Some s1"
    using 3(3) by (simp add: cyc_ops_def s3_def s2_def s0_def)
  have "tim_ok s1" by (rule cyc_start_ok [OF k3(1) i3 k3(2) u st])
  then show ?thesis using 3(4) by (rule tim_ok_leave)
qed (use i tim_ok_leave [OF i] in simp_all)

lemma tk_cre_alm_ok:
  assumes i: "tim_ok s" and r: "tk_cre_alm prid pk s = Some (e, s')"
  shows "tim_ok s'"
  using r [unfolded tk_cre_alm_def]
proof (cases rule: hdr_cre_cases)
  case (3 n q oid dom nm s1)
  have o: "freeq (almtab (ko s)) = n # q" using 3(2) by (simp add: alm_ops_def)
  have f: "distinct (n # q)" "\<forall>m\<in>set (n # q). \<not> alm_reg s m" using i o by (auto simp: tim_ok_def hdr_inv_def unused_ok_def)
  define s0 where "s0 = set_free_alm q s"
  have a: "hdr_inv {} s0" using hdr_inv_free_alm [of "{}" s q] i f by (simp add: tim_ok_def s0_def)
  have nf: "n \<notin> set (freeq (almtab (ko s0)))" "kinv s0" using f i by (simp_all add: s0_def set_free_alm_def set_almtab_def tim_ok_def)
  define s2 where "s2 = upd_alm n (\<lambda>c. c\<lparr>alm_oname := name_copy nm\<rparr>) (alm_init pk n oid s0)"
  have ns: "\<not> started s0 (TmAlm n)" using f by (simp add: s0_def alm_reg_def)
  have "hdr_inv {} (alm_init pk n oid s0)" unfolding alm_init_def
    by (rule hdr_inv_upd_alm [OF a]) (use ns nf in auto)
  then have "hdr_inv {} s2" unfolding s2_def by (rule hdr_inv_alm_status) simp
  then have "hdr_inv {} s1" using 3(3) by (auto simp: alm_ops_def s2_def s0_def intro: hdr_inv_view)
  moreover have "kinv s1" using 3(3) nf by (auto simp: alm_ops_def s0_def alm_init_def)
  ultimately have "tim_ok s1" by (simp add: tim_ok_def)
  then show ?thesis using 3(4) by (rule tim_ok_leave)
qed (use i tim_ok_leave [OF i] in simp_all)

lemma tk_stp_alm_ok:
  assumes i: "tim_ok s" and r: "tk_stp_alm prid oid s = Some (e, s')"
  shows "tim_ok s'"
proof (rule hdr_call_ok [OF i r [unfolded tk_stp_alm_def]])
  fix n
  assume g: "alm_reg s n" and b: "Some (E_OK, if almstat (almcb s n) AND TALM_STA \<noteq> 0
      then upd_alm n (\<lambda>c. c\<lparr>almstat := almstat c AND NOT TALM_STA\<rparr>) (event_delete (TmAlm n) s) else s) = Some (e, s')"
  show "tim_ok s'" using b i alm_stop' [OF alm_unlink(2,1) [OF i g]] by (auto split: if_splits)
qed

lemma tk_sta_alm_ok:
  assumes i: "tim_ok s" and u: "uh_ok uh" and r: "tk_sta_alm uh prid oid almtim s = Some (e, s')"
  shows "tim_ok s'"
proof (rule hdr_call_ok [OF i r [unfolded tk_sta_alm_def]])
  fix n
  let ?u = "if almstat (almcb s n) AND TALM_STA \<noteq> 0 then event_delete (TmAlm n) s else s"
  assume g: "alm_reg s n" and b: "(let c = almcb s n
     in if is_alm_run c \<and> (almtim = 0 \<and> is_alm_imm c \<or> \<not> is_alm_assprc c \<and> (almtim = 0 \<or> is_alm_imm c)) then end_critical E_OBJ s
        else (let s = if almstat c AND TALM_STA \<noteq> 0 then event_delete (TmAlm n) s else s
           in if almtim > 0 then end_critical E_OK (upd_alm n (\<lambda>c. c\<lparr>almstat := almstat c OR TALM_STA\<rparr>) (alm_timer_insert n almtim s))
              else immediate_call_almhdr (hdr_callback uh prid) uh prid n s \<bind> end_critical E_OK)) = Some (e, s')"
  note un = alm_unlink(2,1) [OF i g]
  have g': "alm_reg ?u n" using g by (simp add: alm_reg_def)
  have t: "tim_ok (upd_alm n (\<lambda>c. c\<lparr>almstat := almstat c OR TALM_STA\<rparr>) (alm_timer_insert n almtim ?u))"
    by (rule alm_start_linked [OF un g']) simp_all
  let ?C = "is_alm_run (almcb s n) \<and> (almtim = 0 \<and> is_alm_imm (almcb s n) \<or> \<not> is_alm_assprc (almcb s n) \<and> (almtim = 0 \<or> is_alm_imm (almcb s n)))"
  let ?Y = "end_critical E_OK (upd_alm n (\<lambda>c. c\<lparr>almstat := almstat c OR TALM_STA\<rparr>) (alm_timer_insert n almtim ?u))"
  let ?Z = "immediate_call_almhdr (hdr_callback uh prid) uh prid n ?u \<bind> end_critical E_OK"
  have d: "(if ?C then end_critical E_OBJ s else if almtim > 0 then ?Y else ?Z) = Some (e, s')" using b by (simp only: Let_def)
  show "tim_ok s'"
  proof (cases ?C)
    case True
    show ?thesis by (rule tim_ok_end [OF i trans [OF if_P [OF True, symmetric] d]])
  next
    case False
    have d2: "(if almtim > 0 then ?Y else ?Z) = Some (e, s')" by (rule trans [OF if_not_P [OF False, symmetric] d])
    show ?thesis
    proof (cases "almtim > 0")
      case True
      show ?thesis by (rule tim_ok_end [OF t trans [OF if_P [OF True, symmetric] d2]])
    next
      case False
      have z: "?Z = Some (e, s')" by (rule trans [OF if_not_P [OF False, symmetric] d2])
      then obtain s1 where "immediate_call_almhdr (hdr_callback uh prid) uh prid n ?u = Some s1" "end_critical E_OK s1 = Some (e, s')"
        unfolding bind_eq_Some_conv by (elim exE conjE)
      from tim_ok_end [OF immediate_call_almhdr_ok [OF un g' u this(1)] this(2)] show ?thesis .
    qed
  qed
qed

lemma tk_del_alm_ok:
  assumes i: "tim_ok s" and r: "tk_del_alm prid oid s = Some (e, s')"
  shows "tim_ok s'"
proof (rule hdr_call_ok [OF i r [unfolded tk_del_alm_def]])
  fix n
  let ?u = "if almstat (almcb s n) AND TALM_STA \<noteq> 0 then event_delete (TmAlm n) s else s"
  let ?f = "\<lambda>c. c\<lparr>almhdr := 0, almid := 0, almno := almno c + 1\<rparr>"
  assume g: "alm_reg s n" and b: "(let s = ?u; s = mp_unregister_object_in_domain oid OT_ALM n s;
      s = set_free_alm (freeq (almtab (ko s)) @ [n]) s in Some (E_OK, upd_alm n ?f s)) = Some (e, s')"
  define v where "v = mp_unregister_object_in_domain oid OT_ALM n ?u"
  have v: "hdr_inv {TmAlm n} v" "kinv v" "almcb v = almcb s" "freeq (almtab (ko v)) = freeq (almtab (ko s))"
  proof -
    show "hdr_inv {TmAlm n} v" unfolding v_def by (rule hdr_inv_view [OF alm_unlink(1) [OF i g]]) simp
    show "kinv v" using alm_unlink(2) [OF i g] by (simp add: v_def)
    have "almtab (ko v) = almtab (ko ?u)"
      using hview_domain(2) [of oid OT_ALM n ?u] by (simp add: v_def hview_def)
    then show "almcb v = almcb s" "freeq (almtab (ko v)) = freeq (almtab (ko s))"
      by (auto simp: almcb_def fun_eq_iff event_delete_def Let_def)
  qed
  have "hdr_inv {} (upd_alm n ?f v)"
    by (rule hdr_inv_upd_alm [OF v(1)]) auto
  then have "hdr_inv {} (set_free_alm (freeq (almtab (ko v)) @ [n]) (upd_alm n ?f v))"
  proof (rule hdr_inv_free_alm)
    have u: "distinct (freeq (almtab (ko s)))" "\<forall>m\<in>set (freeq (almtab (ko s))). \<not> alm_reg s m"
      using i by (simp_all add: tim_ok_def hdr_inv_def unused_ok_def)
    with g show "distinct (freeq (almtab (ko v)) @ [n])" by (auto simp: v)
    show "\<forall>m\<in>set (freeq (almtab (ko v)) @ [n]). \<not> alm_reg (upd_alm n ?f v) m" using u by (auto simp: v alm_reg_def)
  qed
  moreover have "upd_alm n ?f (set_free_alm q v) = set_free_alm q (upd_alm n ?f v)" for q
    by (simp add: upd_alm_def set_free_alm_def set_almtab_def)
  ultimately show "tim_ok s'" using b v(2) by (auto simp: Let_def v_def [symmetric] tim_ok_def)
qed

section \<open>Events of handlers in the timer interrupt\<close>

text \<open>The time of a handler's event has come: the timer interrupt unlinks it and its callback function hands it on.\<close>

lemma tim_ok_distribute:
  assumes i: "tim_ok s" and q: "timer_queue s = x # es" and h: "is_hdr x"
    and r: "hdr_callback uh prid (Cb_distribute x) (s\<lparr>timer_queue := es\<rparr>) = Some s'"
  shows "tm_callback (tmeb_at s x) = Some (Cb_distribute x)" and "tim_ok s'"
proof -
  show "tm_callback (tmeb_at s x) = Some (Cb_distribute x)"
    using i q h by (simp add: tim_ok_def hdr_inv_def calls_ok_def)
  let ?s = "s\<lparr>timer_queue := es\<rparr>"
  have inv: "hdr_inv {} s" "kinv s" using i by (simp_all add: tim_ok_def)
  have st: "started ?s = started s" by (rule started_frame) simp_all
  have sx: "started ?s x" using inv(1) h q unfolding st hdr_inv_def links_ok_def by (metis empty_iff list.set_intros(1))
  have "links_ok {x} es (hqs s) (started s)" using inv(1) h q links_pop_timer [of "{}" x es] by (simp add: hdr_inv_def)
  then have p: "hdr_inv {x} ?s" "kinv ?s"
    using inv q unused_frame [of ?s s] by (simp_all add: hdr_inv_def st calls_ok_def)
  have "tim_ok (enqueue_handler n x (Cb_call x) ?s)" for n
    using hdr_inv_enqueue [OF p(1) _ h sx, of n] p(2) by (simp add: tim_ok_def enqueue_handler_sel [OF h])
  then show "tim_ok s'" using r h by (cases x) (auto simp: distribute_cychdr_def distribute_almhdr_def)
qed

lemma tim_ok_pop_task:
  assumes i: "tim_ok s" and q: "timer_queue s = x # es" and h: "\<not> is_hdr x"
  shows "tim_ok (s\<lparr>timer_queue := es\<rparr>)"
  by (rule tim_ok_view [OF i]) (use q h in \<open>simp_all add: hview_def\<close>)

end
