(* ===== verification/Timer_Handler.thy ===== *)
theory Timer_Handler
  imports Handlers Hooks
begin

text \<open>
  The timer interrupt, \<^verbatim>\<open>timer.c\<close>, put together: the clock, the events whose time has come with their callback functions, and
  the handlers that became due.
\<close>

fun timer_callback :: "uhandler \<Rightarrow> nat \<Rightarrow> callback \<Rightarrow> kstate \<Rightarrow> kstate option" where
  "timer_callback uh prid (Cb_wait_release_tmout t) s = wait_release_tmout rel_wai_hooks t s"
| "timer_callback uh prid cb s = hdr_callback uh prid cb s"

definition timer_handler :: "uhandler \<Rightarrow> nat \<Rightarrow> kstate \<Rightarrow> kstate option" where
  "timer_handler uh prid s = do {
     s \<leftarrow> timer_tick s;
     s \<leftarrow> timer_events (timer_callback uh prid) s;
     s \<leftarrow> (case check_handler_queue s of (asp, s) \<Rightarrow> handler_update prid (hdr_callback uh prid) asp s);
     (r, s) \<leftarrow> end_critical () s;
     Some s
   }"

text \<open>\<open>timer_initialize\<close>; \<open>period\<close> is what \<open>_tk_get_cfn\<close> answers, the hardware timer is started elsewhere.\<close>

definition MIN_TIMER_PERIOD :: int where "MIN_TIMER_PERIOD = 1"
definition MAX_TIMER_PERIOD :: int where "MAX_TIMER_PERIOD = 50"

definition timer_initialize :: "UW option \<Rightarrow> kstate \<Rightarrow> ER \<times> kstate" where
  "timer_initialize prd s =
    (case prd of
       None \<Rightarrow> (E_SYS, s)
     | Some p \<Rightarrow>
         (let s = s\<lparr>timer_period := p\<rparr>
          in if uint p < MIN_TIMER_PERIOD \<or> uint p > MAX_TIMER_PERIOD then (E_SYS, s)
             else (E_OK, handler_initialize (s\<lparr>current_time := ltoll 0, real_time_ofs := ltoll 0, timer_queue := []\<rparr>))))"

end
