(* ===== verification/Concrete_State.thy ===== *)
theory Concrete_State
  imports Core_Properties Change_Priority Timer_Handler
begin

text \<open>
  The state with two running tasks that the concrete runs start from meets the invariants of all objects, of the mutexes and
  priorities, and of the event handlers.
\<close>

lemma running_frame_sched:
  "\<exists>s. update_schedtsk (run_task 1 20 (run_task 0 10 boot_state)) = Some s \<and> sched_frame (run_task 1 20 (run_task 0 10 boot_state)) s \<and>
     running_state = dispatch_on 0 (dispatch_on 1 s)"
proof -
  have q: "ques (run_task t p s) q = (if q = QReady p then ques s q @ [t] else ques s q)" for t p s q
    by (simp add: run_task_def make_ready_def ready_queue_insert_sel QueInsert_tail_def set_que_def)
  have k0: "kinv (run_task 0 10 boot_state)"
    by (rule run_task_kinv [OF boot_kinv]) (simp_all add: boot_state_def blank_tcb_def NUM_PRI_def)
  have "kinv (run_task 1 20 (run_task 0 10 boot_state))"
    by (rule run_task_kinv [OF k0]) (simp_all add: q, simp_all add: run_task_def boot_state_def blank_tcb_def NUM_PRI_def)
  from update_schedtsk_kinv [OF this] show ?thesis by (auto simp: running_state_def)
qed

lemma running_tables:
  "flgtab running_state = flgtab boot_state" "mbxtab running_state = mbxtab boot_state" "mtxtab running_state = mtxtab boot_state"
  "ko running_state = ko boot_state" "msgs running_state = msgs boot_state" "umem running_state = umem boot_state"
  "timer_queue running_state = []"
proof -
  obtain s where f: "sched_frame (run_task 1 20 (run_task 0 10 boot_state)) s" and r: "running_state = dispatch_on 0 (dispatch_on 1 s)"
    using running_frame_sched by blast
  have z: "timer_queue boot_state = []" by (simp add: boot_state_def)
  show "flgtab running_state = flgtab boot_state" "mbxtab running_state = mbxtab boot_state" "mtxtab running_state = mtxtab boot_state"
    "ko running_state = ko boot_state" "msgs running_state = msgs boot_state" "umem running_state = umem boot_state"
    "timer_queue running_state = []"
    by (simp_all add: r dispatch_on_def sched_frame_sel [OF f] run_task_def z)
qed

lemma tcbs_run_task: "tcbs (run_task t p s) = (tcbs s)(t := (tcbs s t)\<lparr>priority := p, bpriority := p, state := TS_READY, slicecnt := 0\<rparr>)"
  by (simp add: run_task_def)

lemma running_tcb:
  "state (tcbs running_state t) = (if t < 2 then TS_READY else TS_DORMANT)" "mtxlist (tcbs running_state t) = []"
  "priority (tcbs running_state t) = bpriority (tcbs running_state t)" "bpriority (tcbs running_state t) < NUM_PRI"
proof -
  obtain s where f: "sched_frame (run_task 1 20 (run_task 0 10 boot_state)) s" and r: "running_state = dispatch_on 0 (dispatch_on 1 s)"
    using running_frame_sched by blast
  have c: "tcbs running_state = tcbs s" by (simp add: r dispatch_on_def)
  have b: "tcbs boot_state = blank_tcb" by (simp add: boot_state_def)
  have p: "tcbs running_state t = tcbs s t" "priority (blank_tcb u) = 9" "bpriority (blank_tcb u) = 9" "state (blank_tcb u) = TS_DORMANT"
    "mtxlist (blank_tcb u) = []" "tskevt (blank_tcb u) = 0" for u
    by (simp_all add: c blank_tcb_def)
  note q = p sched_frame_tcb [OF f] tcbs_run_task b NUM_PRI_def
  show "mtxlist (tcbs running_state t) = []" by (simp add: q)
  show "priority (tcbs running_state t) = bpriority (tcbs running_state t)" by (simp add: q)
  show "bpriority (tcbs running_state t) < NUM_PRI" by (simp add: q)
  show "state (tcbs running_state t) = (if t < 2 then TS_READY else TS_DORMANT)" by (simp add: q less_2_cases_iff)
qed
lemma running_waiters: "\<not> ready_head q \<Longrightarrow> waiters running_state q = []"
  using running_frame(2) by (simp add: waiters_def)

lemma running_objs_ok: "objs_ok running_state"
proof -
  note t = running_tables running_waiters
  have "flgs_ok running_state"
    by (simp add: flg_tab.table_ok_def flg_view_def t flgcb_def) (simp add: boot_state_def)
  moreover have "mbxs_ok running_state"
    by (simp add: mbxs_ok_def mbx_tab.table_ok_def mbx_view_def t mbxcb_def msgs_apart_def msgs_of_def) (simp add: boot_state_def)
  moreover have "mpfs_ok running_state"
    by (simp add: mpf_tab.table_ok_def mpf_view_def t mpfcb_def) (simp add: boot_state_def boot_objs_def)
  moreover have "mbfs_ok running_state"
    by (simp add: mbf_tab.table_ok_def mbf_view_def t mbfcb_def mbf_wf_def mbf_settled_def) (simp add: boot_state_def boot_objs_def)
  moreover have "pors_ok running_state"
    by (simp add: por_tab.table_ok_def por_view_def t porcb_def) (simp add: boot_state_def boot_objs_def)
  moreover have "no_stray running_state"
    using running_frame(2) stray_not_ready by (auto simp: no_stray_def)
  ultimately show ?thesis using running_sems_ok by (simp add: objs_ok_def)
qed

lemma running_pri_inv: "kern.pri_inv {} running_state"
proof -
  note t = running_tables running_waiters
  have m: "mtab_ok running_state"
    by (simp add: mtx_tab.table_ok_def mtx_view_def t mtxcb_def) (simp add: boot_state_def)
  have z: "mtxid (mtxcb running_state i) = 0" for i by (simp add: mtxcb_def running_tables) (simp add: boot_state_def)
  have "mtx_own {} running_state" by (simp add: mtx_own_def running_tcb z running_frame)
  moreover have "placed running_state" by (simp add: placed_def running_tcb)
  moreover have "pri_ok running_state u" for u by (simp add: pri_ok_def claims_def running_tcb)
  ultimately show ?thesis
    using m running_kinv running_objs_ok running_tcb by (simp add: kern.pri_inv_def kern.base_ok_def)
qed

lemma running_ctx_ready: "ctx_ready 0 running_state"
  using running_ctx by (simp add: ctx_ready_def running_rdy)

lemma running_tim_ok: "tim_ok running_state"
proof -
  have h: "hqs boot_state p = []" for p by (simp add: boot_state_def boot_objs_def)
  have c: "cyctab (ko running_state) = cyctab boot_objs" "almtab (ko running_state) = almtab boot_objs"
    by (simp_all add: running_tables) (simp_all add: boot_state_def)
  have st: "\<not> started running_state e" for e by (cases e) (simp_all add: started.simps cyccb_def almcb_def c, simp_all add: boot_objs_def)
  have "links_ok {} (timer_queue running_state) (hqs running_state) (started running_state)"
    by (simp add: links_ok_def h st running_tables)
  moreover have "calls_ok running_state" by (simp add: calls_ok_def h running_tables)
  moreover have "unused_ok running_state" by (simp add: unused_ok_def cyc_reg_def alm_reg_def cyccb_def almcb_def c) (simp add: boot_objs_def)
  ultimately show ?thesis using running_kinv by (simp add: tim_ok_def hdr_inv_def)
qed

end
