(* ===== verification/Mutex_Properties.thy ===== *)
theory Mutex_Properties
  imports Concrete_State
begin

text \<open>
  The main statements about mutexes and priority inheritance, with runs of two tasks that share a mutex with \<open>TA_INHERIT\<close>. The
  proofs are in the theories on mutexes and on the change of priorities.
\<close>

declare change_task_priority.simps [code]

definition mtx_packet :: T_CMTX where
  "mtx_packet = \<lparr>cmtx_exinf = 0, cmtx_mtxatr = TA_INHERIT, cmtx_ceilpri = 0, cmtx_domid = 0, cmtx_oname = []\<rparr>"

definition mtx_state :: kstate where
  "mtx_state = snd (the (tk_cre_mtx 0 mtx_packet running_state))"

definition held_state :: kstate where
  "held_state = snd (the (tk_loc_mtx chg_pri_hooks 1 (ID_OBJ 0) 100 mtx_state))"

lemma mtx_created: "map_option fst (tk_cre_mtx 0 mtx_packet running_state) = Some (sint (ID_OBJ 0))"
  by code_simp

lemma mtx_locked: "map_option fst (tk_loc_mtx chg_pri_hooks 1 (ID_OBJ 0) 100 mtx_state) = Some E_OK"
  by code_simp

lemma held_facts: "mtxtsk (mtxcb held_state 0) = Some 1" "rdy held_state = [0, 1]" "ctxtsk held_state 0 = Some 0"
  by code_simp+

lemma mtx_inherited: "map_option (\<lambda>(e, s). (e, map (pri s) [0, 1])) (tk_loc_mtx chg_pri_hooks 0 (ID_OBJ 0) 100 held_state) = Some (E_TMOUT, [10, 10])"
  by code_simp

lemma mtx_state_inv: "kern.pri_inv {} mtx_state"
proof -
  obtain e where "tk_cre_mtx 0 mtx_packet running_state = Some (e, mtx_state)"
    using mtx_created by (auto simp: mtx_state_def)
  with kern.tk_cre_mtx_ok [OF running_pri_inv] show ?thesis by blast
qed

lemma kern_priorities:
  assumes "\<exists>e s'. r = Some (e, s') \<and> kern.pri_inv {} s'"
  shows "\<exists>e s'. r = Some (e, s') \<and> kern.pri_inv {} s' \<and> (\<forall>u. pri s' u = Min (set (claims s' u)))"
proof -
  obtain e s' where r: "r = Some (e, s')" "kern.pri_inv {} s'" using assms by blast
  then have "pri s' u = Min (set (claims s' u))" for u by (simp add: kern.pri_inv_def pri_ok_def)
  with r show ?thesis by blast
qed

text \<open>
  C2. \<open>tk_loc_mtx\<close> by the running task always returns, whatever the mutex, and keeps the invariants of the
  kernel, of all objects and of the mutexes; afterwards the priority of every task is the highest of
  its base priority, the ceilings of the mutexes it holds and the priorities of the tasks that wait for one of
  them with inheritance, through chains of any length. (The invariant of the objects asks that no task waits for a memory pool of variable size; see \<open>Hooks\<close>.)
\<close>

theorem lock_inherits:
  assumes "kern.pri_inv {} s" and "ctxtsk s prid = Some t" and "t \<in> set (rdy s)"
    and "mp_check_domain_and_protection prid s mid (mtxid (mtxcb s (INDEX_OBJ mid))) (mtxatr (mtxcb s (INDEX_OBJ mid))) \<noteq> None"
  shows "\<exists>e s'. tk_loc_mtx chg_pri_hooks prid mid tmout s = Some (e, s') \<and> kern.pri_inv {} s' \<and>
     (\<forall>u. pri s' u = Min (set (claims s' u)))"
  by (rule kern_priorities [OF kern.tk_loc_mtx_ok [OF assms(1) _ assms(2,3)]]) (use assms(4) in \<open>simp add: kern.access_ends_def Let_def\<close>)

lemma held_state_inv: "kern.pri_inv {} held_state"
proof -
  have c: "ctxtsk mtx_state 1 = Some 1" "rdy mtx_state = [0, 1]" by code_simp+
  have "mp_check_domain_and_protection 1 mtx_state (ID_OBJ 0) (mtxid (mtxcb mtx_state (INDEX_OBJ (ID_OBJ 0)))) (mtxatr (mtxcb mtx_state (INDEX_OBJ (ID_OBJ 0)))) = Some E_OK"
    by code_simp
  then have "kern.access_ends 1 (ID_OBJ 0) mtx_state" by (simp add: kern.access_ends_def Let_def)
  from kern.tk_loc_mtx_ok [OF mtx_state_inv this c(1), of 100] show ?thesis by (auto simp: c(2) held_state_def)
qed

lemma held_access:
  "mp_check_domain_and_protection 0 held_state (ID_OBJ 0) (mtxid (mtxcb held_state (INDEX_OBJ (ID_OBJ 0))))
     (mtxatr (mtxcb held_state (INDEX_OBJ (ID_OBJ 0)))) = Some E_OK"
  "mp_check_domain_and_protection 1 held_state (ID_OBJ 0) (mtxid (mtxcb held_state (INDEX_OBJ (ID_OBJ 0))))
     (mtxatr (mtxcb held_state (INDEX_OBJ (ID_OBJ 0)))) = Some E_OK"
  "ctxtsk held_state 1 = Some 1"
  by code_simp+

text \<open>Task 1 holds the mutex with priority 20; task 0 asks for it, and task 1 gets priority 10.\<close>

theorem lock_inherits_witness:
  "\<exists>s'. tk_loc_mtx chg_pri_hooks 0 (ID_OBJ 0) 100 held_state = Some (E_TMOUT, s') \<and> kern.pri_inv {} s' \<and> pri s' 1 = 10"
proof -
  have p: "pri s' 1 = 10 \<and> e = E_TMOUT" if "tk_loc_mtx chg_pri_hooks 0 (ID_OBJ 0) 100 held_state = Some (e, s')" for e s'
    using mtx_inherited that by auto
  show ?thesis
    using lock_inherits [OF held_state_inv held_facts(3), of "ID_OBJ 0" 100] held_access(1) held_facts(2) p by force
qed

text \<open>
  C14. \<open>tk_unl_mtx\<close> by the running task always returns and keeps the same invariants: the priority falls back to what the mutexes
  the task still holds give, and the mutex goes to the first task that waits for it. (Again no task waits for a memory pool of variable size.)
\<close>

theorem unlock_inherits:
  assumes "kern.pri_inv {} s" and "ctxtsk s prid = Some t" and "t \<in> set (rdy s)"
    and "mp_check_domain_and_protection prid s mid (mtxid (mtxcb s (INDEX_OBJ mid))) (mtxatr (mtxcb s (INDEX_OBJ mid))) \<noteq> None"
  shows "\<exists>e s'. tk_unl_mtx chg_pri_hooks prid mid s = Some (e, s') \<and> kern.pri_inv {} s' \<and>
     (\<forall>u. pri s' u = Min (set (claims s' u)))"
  by (rule kern_priorities [OF kern.tk_unl_mtx_ok [OF assms(1) _ assms(2,3)]]) (use assms(4) in \<open>simp add: kern.access_ends_def Let_def\<close>)

theorem unlock_inherits_witness:
  "\<exists>s'. tk_unl_mtx chg_pri_hooks 1 (ID_OBJ 0) held_state = Some (E_OK, s') \<and> kern.pri_inv {} s'"
proof -
  have "map_option fst (tk_unl_mtx chg_pri_hooks 1 (ID_OBJ 0) held_state) = Some E_OK" by code_simp
  then show ?thesis
    using unlock_inherits [OF held_state_inv held_access(3), of "ID_OBJ 0"] held_access(2) held_facts(2) by force
qed

text \<open>
  C5. \<open>tk_chg_pri\<close> always returns, along chains of mutex holders of any length, and keeps the same invariants: the new base
  priority is taken over unless a ceiling forbids it, and the priorities of the task and of all holders that depend on
  it are right again. (Again no task waits for a memory pool of variable size.)
\<close>

theorem chg_pri_ends:
  assumes "kern.pri_inv {} s" and "tid = TSK_SELF \<longrightarrow> ctxtsk s prid \<noteq> None"
    and "\<forall>t. get_tcb_self prid s tid = Some t \<longrightarrow> ipriority (tcbs s t) < NUM_PRI \<and>
      mp_check_domain_and_protection_tsk prid s tid (tskid (tcbs s t)) (tskatr (tcbs s t)) \<noteq> None"
  shows "\<exists>e s'. tk_chg_pri prid tid tskpri s = Some (e, s') \<and> kern.pri_inv {} s' \<and> (\<forall>u. pri s' u = Min (set (claims s' u)))"
proof -
  from tk_chg_pri_ok [OF assms(1), of prid tid tskpri] assms(2,3) obtain e s' where
    "tk_chg_pri prid tid tskpri s = Some (e, s')" "kern.pri_inv {} s'" by blast
  then show ?thesis by (auto simp: kern.pri_inv_def pri_ok_def)
qed

definition blocked_state :: kstate where
  "blocked_state = snd (the (tk_loc_mtx chg_pri_hooks 0 (ID_OBJ 0) 100 held_state))"

lemma blocked_state_inv: "kern.pri_inv {} blocked_state"
proof -
  have "kern.access_ends 0 (ID_OBJ 0) held_state" using held_access(1) by (simp add: kern.access_ends_def Let_def)
  from kern.tk_loc_mtx_ok [OF held_state_inv this held_facts(3), of 100] show ?thesis
    by (auto simp: held_facts(2) blocked_state_def)
qed

text \<open>Task 0 waits for the mutex of task 1 and gets priority 4, 3 inside the kernel; task 1 is raised with it.\<close>

theorem chg_pri_ends_witness:
  "\<exists>s'. tk_chg_pri 1 (ID_OBJ 0) 4 blocked_state = Some (E_OK, s') \<and> kern.pri_inv {} s' \<and> pri s' 0 = 3 \<and> pri s' 1 = 3"
proof -
  have "map_option (\<lambda>(e, s). (e, pri s 0, pri s 1)) (tk_chg_pri 1 (ID_OBJ 0) 4 blocked_state) = Some (E_OK, 3, 3)" by code_simp
  then have r: "e = E_OK \<and> pri s' 0 = 3 \<and> pri s' 1 = 3" if "tk_chg_pri 1 (ID_OBJ 0) 4 blocked_state = Some (e, s')" for e s'
    using that by simp
  have t: "get_tcb_self 1 blocked_state (ID_OBJ 0) = Some 0" "ID_OBJ 0 \<noteq> TSK_SELF" by code_simp+
  have a: "mp_check_domain_and_protection_tsk 1 blocked_state (ID_OBJ 0) (tskid (tcbs blocked_state 0)) (tskatr (tcbs blocked_state 0)) = Some E_OK"
    "ipriority (tcbs blocked_state 0) < NUM_PRI"
    by code_simp+
  from chg_pri_ends [OF blocked_state_inv, of "ID_OBJ 0" 1 4] t a r show ?thesis by force
qed

text \<open>
  \<open>tk_del_mtx\<close> always returns and keeps the invariants of the kernel, of the objects and of the mutexes; every task that waited
  for the mutex is released. All priorities are right afterwards, except that of a holder that itself waits.
\<close>

theorem delete_mutex:
  assumes "kern.pri_inv {} s"
    and "mp_check_domain_and_protection prid s mid (mtxid (mtxcb s (INDEX_OBJ mid))) (mtxatr (mtxcb s (INDEX_OBJ mid))) \<noteq> None"
  shows "\<exists>e s'. tk_del_mtx chg_pri_hooks prid mid s = Some (e, s') \<and> kern.base_ok {} s' \<and>
     (\<forall>u. mtxtsk (mtxcb s (INDEX_OBJ mid)) \<noteq> Some u \<or> \<not> is_wait (state (tcbs s u)) \<longrightarrow> pri s' u = Min (set (claims s' u)))"
proof -
  have "kern.access_ends prid mid s" using assms(2) by (simp add: kern.access_ends_def Let_def)
  from kern.tk_del_mtx_ok [OF assms(1) this] obtain e s' where "tk_del_mtx chg_pri_hooks prid mid s = Some (e, s')" "kern.base_ok {} s'"
    "\<forall>u. mtxtsk (mtxcb s (INDEX_OBJ mid)) \<noteq> Some u \<or> \<not> is_wait (state (tcbs s u)) \<longrightarrow> pri_ok s' u" by blast
  then show ?thesis by (intro exI conjI) (assumption | simp add: pri_ok_def)+
qed

theorem delete_mutex_witness:
  "\<exists>s'. tk_del_mtx chg_pri_hooks 0 (ID_OBJ 0) held_state = Some (E_OK, s') \<and> kern.base_ok {} s'"
proof -
  have "map_option fst (tk_del_mtx chg_pri_hooks 0 (ID_OBJ 0) held_state) = Some E_OK" by code_simp
  then show ?thesis using delete_mutex [OF held_state_inv, of 0 "ID_OBJ 0"] held_access(1) by force
qed

end
