(* ===== verification/Object_Properties.thy ===== *)
theory Object_Properties
  imports Concrete_State
begin

text \<open>
  The main statements about event flags and mailboxes, as statements about whole system calls, each with a run of the calls on
  a concrete state that meets its hypotheses.
\<close>

section \<open>Calls on an object that exists and may be accessed\<close>

lemma obj_call_open:
  assumes "guards gs = None" and "oo_id ops s (INDEX_OBJ oid) \<noteq> 0"
    and "mp_check_domain_and_protection prid s oid (oo_id ops s (INDEX_OBJ oid)) (oo_atr ops s (INDEX_OBJ oid)) = Some E_OK"
  shows "obj_call dsp gs prid ops oid body s = body (INDEX_OBJ oid) s"
  using assms by (simp add: obj_call_def)

section \<open>Event flags\<close>

text \<open>
  C9. \<open>tk_set_flg\<close> on an accessible event flag returns \<open>E_OK\<close>. The waiting tasks are looked at in queue order with the pattern as
  it is by then: \<open>flg_serve\<close> names those whose condition holds, the value each of them gets and the pattern that
  their clear modes leave. Exactly these are released with \<open>E_OK\<close>, their values are written to their
  \<open>p_flgptn\<close>, and no task is left waiting whose condition holds.
\<close>

theorem set_flg_serves:
  assumes "kinv s" and "flgs_ok s" and "guards [CHECK_FLGID s fid] = None" and "i = INDEX_OBJ fid" and "flgid (flgcb s i) \<noteq> 0"
    and "mp_check_domain_and_protection prid s fid (flgid (flgcb s i)) (flgatr (flgcb s i)) = Some E_OK"
    and "flg_serve (flgptn (flgcb s i) OR setptn) (conds s (ques s (QFlg i))) = (r, p)"
  shows "\<exists>s1 s'. tk_set_flg prid fid setptn s = Some (E_OK, s') \<and> flg_outcome i r p s s1 \<and> sched_frame s1 s' \<and> kinv s' \<and> flgs_ok s'"
proof -
  let ?u = "upd_flg i (\<lambda>c. c\<lparr>flgptn := flgptn c OR setptn\<rparr>) s"
  have ix: "i < maxid (flgtab s)" using flg_index [OF assms(3)] assms(4) by simp
  note o = set_flg_ok [OF assms(1,2) ix assms(5,7)]
  have k: "kinv (set_scan i (ques ?u (QFlg i)) ?u)" using o(1) by (simp add: flg_outcome_def)
  from end_critical_ok [OF k, of E_OK] obtain s' where s': "end_critical E_OK (set_scan i (ques ?u (QFlg i)) ?u) = Some (E_OK, s')"
    "sched_frame (set_scan i (ques ?u (QFlg i)) ?u) s'" by blast
  have c: "tk_set_flg prid fid setptn s = end_critical E_OK (set_scan i (ques ?u (QFlg i)) ?u)"
  proof -
    have o: "oo_id flg_ops s i = flgid (flgcb s i)" "oo_atr flg_ops s i = flgatr (flgcb s i)" by (simp_all add: flg_ops_def)
    show ?thesis
      unfolding tk_set_flg_def obj_call_open [OF assms(3), of flg_ops s fid prid, folded assms(4), unfolded o, OF assms(5,6)] Let_def
      by (rule refl)
  qed
  note e = flg_tab.table_ok_end [OF s'(1) k o(2)]
  show ?thesis
    by (rule exI, rule exI [where x = s'], intro conjI, rule trans [OF c s'(1)], rule o(1), rule s'(2)) (use e in simp_all)
qed

definition flg_packet :: T_CFLG where
  "flg_packet = \<lparr>cflg_exinf = 0, cflg_flgatr = TA_WMUL OR TA_TPRI, cflg_iflgptn = 1, cflg_domid = 0, cflg_oname = []\<rparr>"

definition flg_state :: kstate where
  "flg_state = snd (the (tk_cre_flg 0 flg_packet running_state))"

definition flg_waiting :: kstate where
  "flg_waiting = snd (the (tk_wai_flg 0 (ID_OBJ 0) 6 TWF_ORW 100 100 flg_state))"

lemma flg_state_ok: "kinv flg_state" "flgs_ok flg_state"
proof -
  have "map_option fst (tk_cre_flg 0 flg_packet running_state) = Some (sint (ID_OBJ 0))" by code_simp
  then obtain e where "tk_cre_flg 0 flg_packet running_state = Some (e, flg_state)" by (auto simp: flg_state_def)
  moreover have "flgs_ok running_state" using running_objs_ok by (simp add: objs_ok_def)
  ultimately show "kinv flg_state" "flgs_ok flg_state" using tk_cre_flg_inv [OF running_kinv] by blast+
qed

lemma flg_wait_run: "map_option (\<lambda>(e, s). (e, ques s (QFlg 0))) (tk_wai_flg 0 (ID_OBJ 0) 6 TWF_ORW 100 100 flg_state) = Some (E_TMOUT, [0])"
  by code_simp

lemma flg_state_ctx: "ctx_ready 0 flg_state"
proof -
  have "ctxtsk flg_state 0 = Some 0" "rdy flg_state = [0, 1]" by code_simp+
  then show ?thesis by (simp add: ctx_ready_def)
qed

text \<open>
  \<open>tk_wai_flg\<close>, in every branch, keeps the kernel invariant and the invariant of event flags: no task waits for a condition that
  holds already, and without \<open>TA_WMUL\<close> at most one task waits.
\<close>

theorem wai_flg_invariant:
  assumes "kinv s" and "flgs_ok s" and "ctx_ready prid s" and "tk_wai_flg prid fid waiptn wfmode p_flgptn tmout s = Some (e, s')"
  shows "kinv s' \<and> flgs_ok s'"
  using assms by (rule tk_wai_flg_inv)

theorem wai_flg_invariant_witness:
  "\<exists>s'. tk_wai_flg 0 (ID_OBJ 0) 6 TWF_ORW 100 100 flg_state = Some (E_TMOUT, s') \<and> kinv s' \<and> flgs_ok s'"
proof -
  obtain s' where s': "tk_wai_flg 0 (ID_OBJ 0) 6 TWF_ORW 100 100 flg_state = Some (E_TMOUT, s')" using flg_wait_run by auto
  from wai_flg_invariant [OF flg_state_ok flg_state_ctx this] s' show ?thesis by blast
qed

lemma flg_waiting_ok: "kinv flg_waiting" "flgs_ok flg_waiting"
proof -
  have "tk_wai_flg 0 (ID_OBJ 0) 6 TWF_ORW 100 100 flg_state = Some (E_TMOUT, flg_waiting)" using flg_wait_run by (auto simp: flg_waiting_def)
  from tk_wai_flg_inv [OF flg_state_ok flg_state_ctx this] show "kinv flg_waiting" "flgs_ok flg_waiting" by simp_all
qed

text \<open>Task 0 waits for one of the bits 6; the bit 2 is set, and it sees the pattern 3.\<close>

theorem set_flg_serves_witness:
  "\<exists>s'. tk_set_flg 1 (ID_OBJ 0) 2 flg_waiting = Some (E_OK, s') \<and> ques s' (QFlg 0) = [] \<and> umem s' 100 = 3 \<and> flgs_ok s'"
proof -
  have g: "guards [CHECK_FLGID flg_waiting (ID_OBJ 0)] = None" "0 = INDEX_OBJ (ID_OBJ 0)" "flgid (flgcb flg_waiting 0) \<noteq> 0"
    "mp_check_domain_and_protection 1 flg_waiting (ID_OBJ 0) (flgid (flgcb flg_waiting 0)) (flgatr (flgcb flg_waiting 0)) = Some E_OK"
    by code_simp+
  have f: "flg_serve (flgptn (flgcb flg_waiting 0) OR 2) (conds flg_waiting (ques flg_waiting (QFlg 0))) = ([(0, 100, 3)], 3)"
    "ques flg_waiting (QFlg 0) = [0]"
    by code_simp+
  from set_flg_serves [OF flg_waiting_ok g f(1)] obtain s1 s' where
    "tk_set_flg 1 (ID_OBJ 0) 2 flg_waiting = Some (E_OK, s')" "flg_outcome 0 [(0, 100, 3)] 3 flg_waiting s1" "sched_frame s1 s'" "flgs_ok s'"
    by blast
  then show ?thesis using f(2) sched_frame_ques [of s1 s' "QFlg 0"] by (auto simp: flg_outcome_def sched_frame_sel)
qed

lemma critical_end:
  assumes "kinv s"
  obtains s' where "end_critical r s = Some (r, s')" "sched_frame s s'"
  using end_critical_ok [OF assms, of r] by blast

section \<open>Mailboxes\<close>

declare mpri_scan.simps [code]

text \<open>
  C12. \<open>tk_snd_mbx\<close> on an accessible mailbox for which no task waits returns \<open>E_OK\<close> and links the message into the list in user memory:
  behind all messages of the same or a higher priority with \<open>TA_MPRI\<close>, at the end otherwise. The other mailboxes keep
  their lists.
\<close>

theorem snd_mbx_queues:
  assumes "kinv s" and "mbxs_ok s" and "unlinked m s" and "guards [CHECK_MBXID s mid] = None" and "i = INDEX_OBJ mid"
    and "mbxid (mbxcb s i) \<noteq> 0"
    and "mp_check_domain_and_protection prid s mid (mbxid (mbxcb s i)) (mbxatr (mbxcb s i)) = Some E_OK"
    and "mbxatr (mbxcb s i) AND TA_MPRI \<noteq> 0 \<longrightarrow> msgpri (msgs s m) > 0" and "ques s (QMbx i) = []" and "mq s i = Some l"
  shows "\<exists>s'. tk_snd_mbx prid mid m s = Some (E_OK, s') \<and> mq s' i = Some (mq_put (mbxatr (mbxcb s i)) (m, msgpri (msgs s m)) l) \<and>
     (\<forall>j<maxid (mbxtab s). j \<noteq> i \<longrightarrow> msgs_of s' j = msgs_of s j) \<and> kinv s' \<and> mbxs_ok s'"
proof -
  have ix: "i < maxid (mbxtab s)" using mbx_index [OF assms(4)] assms(5) by simp
  obtain l' where l': "mq s i = Some l'" "mbx_msgs_ok (mbxcb s i) l'" "msgs_of s i = fst ` set l'"
    by (rule mbxs_ok_mq [OF assms(2) ix assms(6)]) (rule that; assumption)
  have l: "mbx_msgs_ok (mbxcb s i) l" "msgs_of s i = fst ` set l" using l' assms(10) by simp_all
  have m: "m \<notin> fst ` set l" using assms(3) ix unfolding unlinked_def l(2) [symmetric] by blast
  from connect_msg_ok [OF assms(10) l(1) m] obtain s1 where s1: "connect_msg m i s = Some s1" "mq_frame i (insert m (fst ` set l)) s s1"
    "mq s1 i = Some (mq_put (mbxatr (mbxcb s i)) (m, msgpri (msgs s m)) l)" by blast
  have k: "kinv s1" using mq_frame_state [OF s1(2)] assms(1) by simp
  obtain s' where s': "end_critical E_OK s1 = Some (E_OK, s')" "sched_frame s1 s'" by (rule critical_end [OF k])
  have c: "tk_snd_mbx prid mid m s = Some (E_OK, s')"
  proof -
    have o: "oo_id mbx_ops s i = mbxid (mbxcb s i)" "oo_atr mbx_ops s i = mbxatr (mbxcb s i)" by (simp_all add: mbx_ops_def)
    have n: "\<not> (mbxatr (mbxcb s i) AND TA_MPRI \<noteq> 0 \<and> msgpri (msgs s m) \<le> 0)" using assms(8) by auto
    show ?thesis
      unfolding tk_snd_mbx_def obj_call_open [OF assms(4), of mbx_ops s mid prid, folded assms(5), unfolded o, OF assms(6,7)]
        if_not_P [OF n]
      using assms(9) s1(1) s'(1) by simp
  qed
  have q: "mbxcb s' = mbxcb s1" "msgs s' = msgs s1" using s'(2) by (simp_all add: mbxcb_def fun_eq_iff sched_frame_sel)
  have ap: "msgs_of s' j = msgs_of s j" if j: "j < maxid (mbxtab s)" "j \<noteq> i" for j
  proof -
    have f: "mbxcb s1 j = mbxcb s j" "\<And>x. x \<notin> insert m (fst ` set l) \<Longrightarrow> msgs s1 x = msgs s x"
      using s1(2) j(2) by (simp_all add: mq_frame_def)
    show ?thesis
    proof (cases "mbxid (mbxcb s j) = 0")
      case False
      obtain lj where lj: "mq s j = Some lj" "msgs_of s j = fst ` set lj"
        by (rule mbxs_ok_mq [OF assms(2) j(1) False]) (rule that; assumption)
      have "fst ` set lj \<inter> insert m (fst ` set l) = {}"
        using assms(2,3) j ix unfolding mbxs_ok_def msgs_apart_def unlinked_def lj(2) [symmetric] l(2) [symmetric] by blast
      then have "msgs s' x = msgs s x" if "x \<in> fst ` set lj" for x using that f(2) [of x] q(2) by auto
      with mq_same [OF lj(1), of s'] have "mq s' j = Some lj" using f(1) q(1) by simp
      then show ?thesis using lj f(1) q(1) False by (simp add: msgs_of_def)
    qed (simp add: msgs_of_def q f)
  qed
  have "mq s' i = mq s1 i" by (rule mq_cong) (simp_all add: q)
  with s1(3) c ap tk_snd_mbx_inv [OF assms(1-3) c] show ?thesis by auto
qed

definition mbx_packet :: T_CMBX where
  "mbx_packet = \<lparr>cmbx_exinf = 0, cmbx_mbxatr = TA_MPRI, cmbx_domid = 0, cmbx_oname = []\<rparr>"

text \<open>The messages of priorities 5, 3 and 1 in user memory.\<close>

definition with_msgs :: kstate where
  "with_msgs = running_state\<lparr>msgs := (\<lambda>x. \<lparr>nextmsg = None, msgpri = (if x = 64 then 5 else if x = 80 then 3 else 1)\<rparr>)\<rparr>"

definition mbx_made :: kstate where
  "mbx_made = snd (the (tk_cre_mbx 0 mbx_packet with_msgs))"

definition mbx_state :: kstate where
  "mbx_state = snd (the (tk_snd_mbx 0 (ID_OBJ 0) 64 mbx_made))"

lemma mbx_runs:
  "map_option fst (tk_cre_mbx 0 mbx_packet with_msgs) = Some (sint (ID_OBJ 0))"
  "map_option fst (tk_snd_mbx 0 (ID_OBJ 0) 64 mbx_made) = Some E_OK"
  by code_simp+

lemma mbx_lists: "map (\<lambda>i. mbxid (mbxcb mbx_made i)) [1, 2] = [0, 0]" "mq_head (mbxcb mbx_made 0) = None" "maxid (mbxtab mbx_made) = 3"
  "map (\<lambda>i. mbxid (mbxcb mbx_state i)) [1, 2] = [0, 0]" "chain (msgs mbx_state) (mq_head (mbxcb mbx_state 0)) [64]"
  "maxid (mbxtab mbx_state) = 3" "chain (msgs mbx_made) (mq_head (mbxcb mbx_made 0)) []" "msgpri (msgs mbx_state 64) = 5" "msgpri (msgs mbx_state 80) = 3"
  by code_simp+

lemma mbx_abs: "mq mbx_made 0 = Some []" "mq mbx_state 0 = Some [(64, 5)]"
  using mq_chain [OF mbx_lists(7)] mq_chain [OF mbx_lists(5)] by (simp_all add: mbx_lists(8))

lemma mbx_unlinked: "unlinked m mbx_made" "m \<noteq> 64 \<Longrightarrow> unlinked m mbx_state"
proof -
  have t: "j < 3 \<longleftrightarrow> j = 0 \<or> j = 1 \<or> j = 2" for j :: nat by auto
  show "unlinked m mbx_made" "m \<noteq> 64 \<Longrightarrow> unlinked m mbx_state"
    using mbx_lists(1,4) by (auto simp: unlinked_def mbx_lists(3,6) t msgs_of_def mbx_abs)
qed

lemma mbx_state_ok: "kinv mbx_state" "mbxs_ok mbx_state"
proof -
  have k: "kinv with_msgs" using running_kinv by (simp add: with_msgs_def)
  have w: "waiters with_msgs (QMbx i) = []" for i using running_waiters [of "QMbx i"] by (simp add: waiters_def with_msgs_def)
  have "mbxs_ok with_msgs"
    by (simp add: mbxs_ok_def mbx_tab.table_ok_def mbx_view_def w mbxcb_def msgs_apart_def msgs_of_def)
      (simp add: with_msgs_def running_tables, simp add: boot_state_def)
  from tk_cre_mbx_inv [OF k this] have "kinv mbx_made" "mbxs_ok mbx_made"
    using mbx_runs(1) unfolding mbx_made_def by (metis (no_types, lifting) map_option_eq_Some option.sel prod.collapse)+
  from tk_snd_mbx_inv [OF this mbx_unlinked(1)] show "kinv mbx_state" "mbxs_ok mbx_state"
    using mbx_runs(2) unfolding mbx_state_def by (metis (no_types, lifting) map_option_eq_Some option.sel prod.collapse)+
qed

text \<open>A message of priority 3 overtakes one of priority 5.\<close>

theorem snd_mbx_queues_witness:
  "\<exists>s'. tk_snd_mbx 1 (ID_OBJ 0) 80 mbx_state = Some (E_OK, s') \<and> mq s' 0 = Some [(80, 3), (64, 5)] \<and> mbxs_ok s'"
proof -
  have g: "guards [CHECK_MBXID mbx_state (ID_OBJ 0)] = None" "0 = INDEX_OBJ (ID_OBJ 0)" "mbxid (mbxcb mbx_state 0) \<noteq> 0"
    "mp_check_domain_and_protection 1 mbx_state (ID_OBJ 0) (mbxid (mbxcb mbx_state 0)) (mbxatr (mbxcb mbx_state 0)) = Some E_OK"
    by code_simp+
  have f: "ques mbx_state (QMbx 0) = []" "mbxatr (mbxcb mbx_state 0) AND TA_MPRI \<noteq> 0" by code_simp+
  have "mq_put (mbxatr (mbxcb mbx_state 0)) (80, msgpri (msgs mbx_state 80)) [(64, 5)] = [(80, 3), (64, 5)]"
    using f(2) by (simp add: mq_put_def mbx_lists(9))
  moreover have "unlinked 80 mbx_state" by (rule mbx_unlinked(2)) simp
  from snd_mbx_queues [OF mbx_state_ok this g _ f(1) mbx_abs(2)] have
    "\<exists>s'. tk_snd_mbx 1 (ID_OBJ 0) 80 mbx_state = Some (E_OK, s') \<and> mq s' 0 =
       Some (mq_put (mbxatr (mbxcb mbx_state 0)) (80, msgpri (msgs mbx_state 80)) [(64, 5)]) \<and> mbxs_ok s'"
    by (simp add: mbx_lists(9)) blast
  ultimately show ?thesis by simp
qed

text \<open>
  C13. \<open>tk_rcv_mbx\<close> by a task that may wait, on an accessible mailbox that holds messages, returns \<open>E_OK\<close>, writes the address of the first
  message to the task's variable and leaves the others in order.
\<close>

theorem rcv_mbx_takes_first:
  assumes "kinv s" and "mbxs_ok s" and "ctx_ready prid s"
    and "guards [CHECK_MBXID s mid, CHECK_TMOUT tmout, CHECK_DISPATCH prid s] = None" and "i = INDEX_OBJ mid" and "mbxid (mbxcb s i) \<noteq> 0"
    and "mp_check_domain_and_protection prid s mid (mbxid (mbxcb s i)) (mbxatr (mbxcb s i)) = Some E_OK"
    and "ctxtsk s prid = Some t" and "\<not> is_diswai (mbx_gcb s i) (tcbs s t) TTW_MBX" and "mq s i = Some ((m, p) # l)"
  shows "\<exists>s'. tk_rcv_mbx prid mid ppk_msg tmout s = Some (E_OK, s') \<and> umem s' ppk_msg = m \<and> mq s' i = Some l \<and> kinv s' \<and> mbxs_ok s'"
proof -
  have ix: "i < maxid (mbxtab s)" using mbx_index [OF assms(4)] assms(5) by simp
  obtain l' where l': "mq s i = Some l'" "mbx_msgs_ok (mbxcb s i) l'"
    by (rule mbxs_ok_mq [OF assms(2) ix assms(6)]) (rule that; assumption)
  have l: "mbx_msgs_ok (mbxcb s i) ((m, p) # l)" using l' assms(10) by simp
  note pop = pop_msg_ok(1) [OF assms(10) l, of ppk_msg] and head = pop_msg_ok(4) [OF assms(10) l]
  have k: "kinv (pop_msg i m ppk_msg s)" using assms(1) by (simp add: pop_msg_def Let_def)
  obtain s' where s': "end_critical E_OK (pop_msg i m ppk_msg s) = Some (E_OK, s')" "sched_frame (pop_msg i m ppk_msg s) s'"
    by (rule critical_end [OF k])
  have c: "tk_rcv_mbx prid mid ppk_msg tmout s = Some (E_OK, s')"
  proof -
    have o: "oo_id mbx_ops s i = mbxid (mbxcb s i)" "oo_atr mbx_ops s i = mbxatr (mbxcb s i)" by (simp_all add: mbx_ops_def)
    show ?thesis
      unfolding tk_rcv_mbx_def obj_call_open [OF assms(4), of mbx_ops s mid prid, folded assms(5), unfolded o, OF assms(6,7)]
      using assms(8,9) head s'(1) by (simp add: pop_msg_def Let_def)
  qed
  have "mq s' i = mq (pop_msg i m ppk_msg s) i" by (rule mq_cong) (simp_all add: mbxcb_def sched_frame_sel [OF s'(2)])
  moreover have "umem s' ppk_msg = m" by (simp add: sched_frame_sel [OF s'(2)]) (simp add: pop_msg_def Let_def upd_mbx_def)
  ultimately show ?thesis using c pop tk_rcv_mbx_inv [OF assms(1-3) c] by simp
qed

theorem rcv_mbx_takes_first_witness:
  "\<exists>s'. tk_rcv_mbx 0 (ID_OBJ 0) 200 100 mbx_state = Some (E_OK, s') \<and> umem s' 200 = 64 \<and> mq s' 0 = Some []"
proof -
  have "ctxtsk mbx_state 0 = Some 0" "rdy mbx_state = [0, 1]" by code_simp+
  then have c: "ctx_ready 0 mbx_state" by (simp add: ctx_ready_def)
  have g: "guards [CHECK_MBXID mbx_state (ID_OBJ 0), CHECK_TMOUT 100, CHECK_DISPATCH 0 mbx_state] = None" "0 = INDEX_OBJ (ID_OBJ 0)"
    "mbxid (mbxcb mbx_state 0) \<noteq> 0" "ctxtsk mbx_state 0 = Some 0" "\<not> is_diswai (mbx_gcb mbx_state 0) (tcbs mbx_state 0) TTW_MBX"
    "mp_check_domain_and_protection 0 mbx_state (ID_OBJ 0) (mbxid (mbxcb mbx_state 0)) (mbxatr (mbxcb mbx_state 0)) = Some E_OK"
    by code_simp+
  from rcv_mbx_takes_first [OF mbx_state_ok c g(1-3,6,4,5) mbx_abs(2), of 200] show ?thesis by blast
qed

end
