(* ===== verification/Buffer_Properties.thy ===== *)
theory Buffer_Properties
  imports Object_Properties
begin

text \<open>
  The main statements about message buffers: the ring of bytes as a queue of messages, and \<open>tk_rcv_mbf\<close> with the senders it
  lets in, with a run in which one message is stored and one task waits to send.
\<close>

text \<open>
  C29. Storing a message of \<open>n\<close> bytes for which there is room, \<open>msg_to_mbf\<close>, adds exactly these bytes as the last message
  of the ring, wherever the ring wraps around: the header of four bytes, the bytes of the message and the padding.
\<close>

theorem store_message:
  assumes "mbf_holds c ms" and "0 < n" and "total ms + (4 + n) \<le> length (buffer c)"
  shows "\<exists>c'. msg_to_mbf m c a (int n) = Some c' \<and> mbf_holds c' (ms @ [read_bytes m a n]) \<and>
     c' = c\<lparr>frbufsz := frbufsz c', buffer := buffer c', mbf_tail := mbf_tail c'\<rparr> \<and> length (buffer c') = length (buffer c)"
  using assms by (rule msg_to_mbf_ok)

definition small_mbf :: MBFCB where
  "small_mbf = \<lparr>mbfid = 1, mbf_exinf = 0, mbfatr = 0, bufsz = 16, maxmsz = 8, frbufsz = 16, mbf_head = 0, mbf_tail = 0,
     buffer = replicate 16 0, mbf_oname = []\<rparr>"

lemma small_mbf_holds: "mbf_holds small_mbf []"
  by (rule mbf_holds_new) (simp_all add: small_mbf_def)

theorem store_message_witness:
  "\<exists>c'. msg_to_mbf (\<lambda>a. ucast a) small_mbf 100 (int 5) = Some c' \<and> mbf_holds c' [[100, 101, 102, 103, 104]]"
proof -
  have "read_bytes (\<lambda>a :: UW. ucast a :: UB) 100 5 = [100, 101, 102, 103, 104]" by code_simp
  moreover have "total [] + (4 + 5) \<le> length (buffer small_mbf)" by (simp add: small_mbf_def)
  ultimately show ?thesis using store_message [OF small_mbf_holds, of 5 "\<lambda>a. ucast a" 100] by auto
qed

text \<open>
  C30. Loading a message, \<open>mbf_to_msg\<close>, from a ring that holds \<open>x\<close> and then \<open>ms\<close> returns the length of \<open>x\<close>, copies exactly its bytes
  and leaves \<open>ms\<close>: messages come out as they went in, in the same order.
\<close>

theorem load_message:
  assumes "mbf_holds c (x # ms)"
  shows "\<exists>c'. mbf_to_msg c a m = Some (int (length x), c', write_bytes a x m) \<and> mbf_holds c' ms \<and>
     c' = c\<lparr>frbufsz := frbufsz c', mbf_head := mbf_head c'\<rparr>"
  using assms by (rule mbf_to_msg_ok)

theorem load_message_witness:
  "\<exists>c c' m'. msg_to_mbf (\<lambda>a. ucast a) small_mbf 100 (int 5) = Some c \<and> mbf_to_msg c 200 (\<lambda>_. 0) = Some (5, c', m') \<and>
     read_bytes m' 200 5 = [100, 101, 102, 103, 104]"
proof -
  have "read_bytes (\<lambda>a :: UW. ucast a :: UB) 100 5 = [100, 101, 102, 103, 104]" by code_simp
  moreover have "total [] + (4 + 5) \<le> length (buffer small_mbf)" by (simp add: small_mbf_def)
  ultimately obtain c where c: "msg_to_mbf (\<lambda>a. ucast a) small_mbf 100 (int 5) = Some c" "mbf_holds c [[100, 101, 102, 103, 104]]"
    using msg_to_mbf_ok [OF small_mbf_holds, of 5 "\<lambda>a. ucast a" 100] by auto
  moreover have "read_bytes (write_bytes 200 [100, 101, 102, 103, 104] (\<lambda>_. 0)) 200 5 = [100, 101, 102, 103, 104]" by code_simp
  ultimately show ?thesis using load_message [OF c(2), of 200 "\<lambda>_. 0"] by auto
qed

text \<open>
  C10. \<open>tk_rcv_mbf\<close> by a task that may wait, on an accessible buffer that holds the message \<open>x\<close> and then \<open>ms\<close>, returns the size of \<open>x\<close> and
  copies it to the task's area. The room goes to the waiting senders: a prefix of their queue is released, their
  messages follow the stored ones in queue order, and the next sender, if any, still does not fit.
\<close>

theorem rcv_mbf_in_order:
  assumes "kinv s" and "mbfs_ok s" and "ctx_ready prid s"
    and "guards [CHECK_MBFID s mid, CHECK_TMOUT tmout, CHECK_DISPATCH prid s] = None" and "i = INDEX_OBJ mid" and "mbfid (mbfcb s i) \<noteq> 0"
    and "mp_check_domain_and_protection prid s mid (mbfid (mbfcb s i)) (mbfatr (mbfcb s i)) = Some E_OK"
    and "ctxtsk s prid = Some t" and "\<not> is_diswai (mbf_gcb s i) (tcbs s t) TTW_RMBF" and "mbf_holds (mbfcb s i) (x # ms)"
    and "s0 = upd_bmem (\<lambda>_. write_bytes msg x (bmem (ko s))) s" and "ws = waiters s (QSmbf i)"
  shows "\<exists>n s'. tk_rcv_mbf prid mid msg p_rcvsz tmout s = Some (int (length x), s') \<and> bmem (ko s') = write_bytes msg x (bmem (ko s)) \<and>
     mbf_holds (mbfcb s' i) (ms @ map (snd_msg s0) (take n ws)) \<and> mbf_settled (mbfcb s' i) (drop n ws) \<and>
     ques s' (QSmbf i) = drop n (ques s (QSmbf i)) \<and> (\<forall>y\<in>set (take n (ques s (QSmbf i))). state (tcbs s' y) \<noteq> TS_WAIT) \<and>
     kinv s' \<and> mbfs_ok s'"
proof -
  have ix: "i < maxid (mbftab (ko s))" using mbf_index [OF assms(4)] assms(5) by simp
  from mbf_to_msg_ok [OF assms(10), where a = msg and m = "bmem (ko s)"] obtain c where
    c: "mbf_to_msg (mbfcb s i) msg (bmem (ko s)) = Some (int (length x), c, write_bytes msg x (bmem (ko s)))" "mbf_holds c ms" by blast
  define u where "u = upd_mbf i (\<lambda>_. c) s0"
  have u: "kinv u" "ques u = ques s" "waiters u = waiters s" "mbfcb u i = c" "snd_msg u = snd_msg s0" "bmem (ko u) = write_bytes msg x (bmem (ko s))"
    using assms(1) by (simp_all add: u_def assms(11) snd_msg_def fun_eq_iff)
  have a: "\<forall>w\<in>set (waiters u (QSmbf i)). \<exists>m n. fst (snd w) = Winfo_smbf m (int n) \<and> 0 < n \<and> n < 2 ^ 31"
    using mbfs_okD [OF assms(2) ix] assms(6) snd_waiter_info by (auto simp: mbf_wf_def u(3))
  have h: "mbf_holds (mbfcb u i) ms" using c(2) u(4) by simp
  from mbf_wakeup_ok [OF u(1) h a refl] obtain v n where
    v: "mbf_wakeup i u = Some v" "mbf_served i (fst ` set (take n ws)) u v" "waiters v (QSmbf i) = drop n ws"
      "mbf_holds (mbfcb v i) (ms @ map (snd_msg s0) (take n ws))" "mbf_settled (mbfcb v i) (drop n ws)"
    unfolding u(3,5) assms(12) by blast
  have kv: "kinv v" using v(2) by (simp add: mbf_served_def)
  obtain s' where s': "end_critical (int (length x)) v = Some (int (length x), s')" "sched_frame v s'" by (rule critical_end [OF kv])
  have call: "tk_rcv_mbf prid mid msg p_rcvsz tmout s = Some (int (length x), s')"
  proof -
    have o: "oo_id mbf_ops s i = mbfid (mbfcb s i)" "oo_atr mbf_ops s i = mbfatr (mbfcb s i)" by (simp_all add: mbf_ops_def)
    have e: "\<not> mbf_empty (mbfcb s i)" using mbf_empty_holds [OF assms(10)] by simp
    show ?thesis
      unfolding tk_rcv_mbf_def obj_call_open [OF assms(4), of mbf_ops s mid prid, folded assms(5), unfolded o, OF assms(6,7)]
      using assms(8,9) e c(1) v(1) s'(1) by (simp add: u_def assms(11))
  qed
  have f: "mbfcb s' = mbfcb v" "ques s' (QSmbf i) = ques v (QSmbf i)"
    using s'(2) sched_frame_ques [OF s'(2)] by (simp_all add: mbfcb_def fun_eq_iff sched_frame_sel)
  have b: "bmem (ko s') = bmem (ko u)" using v(2) s'(2) by (auto simp: mbf_served_def sched_frame_sel)
  have q: "ques s' (QSmbf i) = drop n (ques s (QSmbf i))"
    using v(3) waiters_tasks unfolding f assms(12) by (metis drop_map)
  have "fst ` set (take n ws) = set (take n (ques s (QSmbf i)))"
    unfolding assms(12) by (metis list.set_map take_map waiters_tasks)
  then have "state (tcbs s' y) \<noteq> TS_WAIT" if "y \<in> set (take n (ques s (QSmbf i)))" for y
    using v(2) that sched_frame_tcb(2) [OF s'(2), of y] by (auto simp: mbf_served_def released_def split: if_splits)
  then show ?thesis
    using call b q v(4,5) f(1) u(6) tk_rcv_mbf_inv [OF assms(1-3) call] by (intro exI [where x = n] exI [where x = s']) simp
qed

declare mbf_wakeup.simps [code]

definition mbf_packet :: T_CMBF where
  "mbf_packet = \<lparr>cmbf_exinf = 0, cmbf_mbfatr = 0, cmbf_bufsz = 16, cmbf_maxmsz = 8, cmbf_domid = 0, cmbf_oname = []\<rparr>"

definition mbf_made :: kstate where
  "mbf_made = snd (the (tk_cre_mbf 0 (Some (replicate 16 0)) mbf_packet (upd_bmem (\<lambda>_ a. ucast a) running_state)))"

definition mbf_one :: kstate where
  "mbf_one = snd (the (tk_snd_mbf 1 (ID_OBJ 0) 100 5 100 mbf_made))"

definition mbf_state :: kstate where
  "mbf_state = snd (the (tk_snd_mbf 0 (ID_OBJ 0) 110 8 100 mbf_one))"

lemma mbf_made_run:
  "map_option (\<lambda>(e, s). (e, ctxtsk s 1, rdy s, bufsz (mbfcb s 0), frbufsz (mbfcb s 0), mbf_head (mbfcb s 0), mbf_tail (mbfcb s 0), length (buffer (mbfcb s 0))))
     (tk_cre_mbf 0 (Some (replicate 16 0)) mbf_packet (upd_bmem (\<lambda>_ a. ucast a) running_state)) =
   Some (sint (ID_OBJ 0), Some 1, [0, 1], 16, 16, 0, 0, 16)"
  by code_simp

lemma mbf_one_run:
  "map_option (\<lambda>(e, s). (e, ctxtsk s 0, rdy s, msg_to_mbf (\<lambda>a. ucast a) (mbfcb mbf_made 0) 100 (int 5) = Some (mbfcb s 0)))
     (tk_snd_mbf 1 (ID_OBJ 0) 100 5 100 mbf_made) = Some (E_OK, Some 0, [0, 1], True)"
  by code_simp

lemma mbf_state_run:
  "map_option (\<lambda>(e, s). (e, ctxtsk s 1, rdy s, mbfcb s 0 = mbfcb mbf_one 0,
       guards [CHECK_MBFID s (ID_OBJ 0), CHECK_TMOUT 100, CHECK_DISPATCH 1 s], mbfid (mbfcb s 0) = 0,
       mp_check_domain_and_protection 1 s (ID_OBJ 0) (mbfid (mbfcb s 0)) (mbfatr (mbfcb s 0)), is_diswai (mbf_gcb s 0) (tcbs s 1) TTW_RMBF))
     (tk_snd_mbf 0 (ID_OBJ 0) 110 8 100 mbf_one) = Some (E_TMOUT, Some 1, [1], True, None, False, Some E_OK, False)"
  by code_simp

lemma mbf_made_facts: "tk_cre_mbf 0 (Some (replicate 16 0)) mbf_packet (upd_bmem (\<lambda>_ a. ucast a) running_state) = Some (sint (ID_OBJ 0), mbf_made)"
  "ctxtsk mbf_made 1 = Some 1" "rdy mbf_made = [0, 1]"
  "mbf_holds (mbfcb mbf_made 0) []" "length (buffer (mbfcb mbf_made 0)) = 16"
  using mbf_made_run by (auto simp: mbf_made_def intro!: mbf_holds_new)

lemma mbf_one_facts: "tk_snd_mbf 1 (ID_OBJ 0) 100 5 100 mbf_made = Some (E_OK, mbf_one)" "ctxtsk mbf_one 0 = Some 0" "rdy mbf_one = [0, 1]"
  "msg_to_mbf (\<lambda>a. ucast a) (mbfcb mbf_made 0) 100 (int 5) = Some (mbfcb mbf_one 0)"
  using mbf_one_run by (auto simp: mbf_one_def)

lemma mbf_state_facts: "tk_snd_mbf 0 (ID_OBJ 0) 110 8 100 mbf_one = Some (E_TMOUT, mbf_state)"
  "ctxtsk mbf_state 1 = Some 1" "rdy mbf_state = [1]" "mbfcb mbf_state 0 = mbfcb mbf_one 0"
  "guards [CHECK_MBFID mbf_state (ID_OBJ 0), CHECK_TMOUT 100, CHECK_DISPATCH 1 mbf_state] = None" "mbfid (mbfcb mbf_state 0) \<noteq> 0"
  "mp_check_domain_and_protection 1 mbf_state (ID_OBJ 0) (mbfid (mbfcb mbf_state 0)) (mbfatr (mbfcb mbf_state 0)) = Some E_OK"
  "\<not> is_diswai (mbf_gcb mbf_state 0) (tcbs mbf_state 1) TTW_RMBF"
  using mbf_state_run by (auto simp: mbf_state_def)

lemma mbf_rcv: "map_option (\<lambda>(e, s). (e, ques s (QSmbf 0))) (tk_rcv_mbf 1 (ID_OBJ 0) 200 0 100 mbf_state) = Some (5, [])"
  by code_simp

lemma mbf_state_holds: "mbf_holds (mbfcb mbf_state 0) [[100, 101, 102, 103, 104]]"
proof -
  have "read_bytes (\<lambda>a :: UW. ucast a :: UB) 100 5 = [100, 101, 102, 103, 104]" by code_simp
  then show ?thesis
    using msg_to_mbf_ok [OF mbf_made_facts(4), of 5 "\<lambda>a. ucast a" 100] mbf_one_facts(4) by (auto simp: mbf_made_facts(5) mbf_state_facts(4))
qed

lemma mbf_state_ok: "kinv mbf_state" "mbfs_ok mbf_state"
proof -
  let ?s = "upd_bmem (\<lambda>_ a. ucast a) running_state"
  have k: "kinv ?s" and o: "mbfs_ok ?s" using running_kinv running_objs_ok by (simp_all add: objs_ok_def)
  have r: "nat (sint (ROUNDSZ (cmbf_bufsz mbf_packet))) = 16" by code_simp
  have "kinv mbf_made \<and> mbfs_ok mbf_made"
    by (rule tk_cre_mbf_inv [OF k o mbf_made_facts(1)]) (use r in \<open>simp_all\<close>, simp_all add: mbf_packet_def)
  moreover have "ctx_ready 1 mbf_made" "ctx_ready 0 mbf_one" using mbf_made_facts(2,3) mbf_one_facts(2,3) by (simp_all add: ctx_ready_def)
  ultimately have "kinv mbf_one \<and> mbfs_ok mbf_one" "ctx_ready 0 mbf_one" using tk_snd_mbf_inv [OF _ _ _ mbf_one_facts(1)] by blast+
  then have "kinv mbf_state \<and> mbfs_ok mbf_state" using tk_snd_mbf_inv [OF _ _ _ mbf_state_facts(1)] by blast
  then show "kinv mbf_state" "mbfs_ok mbf_state" by simp_all
qed

text \<open>The 16 bytes hold a message of 5 bytes, and task 0 waits to send 8 more.\<close>

theorem rcv_mbf_in_order_witness:
  "\<exists>s'. tk_rcv_mbf 1 (ID_OBJ 0) 200 0 100 mbf_state = Some (5, s') \<and> kinv s' \<and> mbfs_ok s' \<and>
     read_bytes (bmem (ko s')) 200 5 = [100, 101, 102, 103, 104] \<and> ques s' (QSmbf 0) = []"
proof -
  have i: "0 = INDEX_OBJ (ID_OBJ 0)" by code_simp
  have c: "ctx_ready 1 mbf_state" using mbf_state_facts(2,3) by (simp add: ctx_ready_def)
  have q: "ques s' (QSmbf 0) = []" if "tk_rcv_mbf 1 (ID_OBJ 0) 200 0 100 mbf_state = Some (e, s')" for e s'
    using mbf_rcv that by simp
  have l: "length [100, 101, 102, 103, 104 :: UB] = 5" by simp
  have b: "read_bytes (write_bytes 200 [100, 101, 102, 103, 104] m) 200 5 = [100, 101, 102, 103, 104]" for m
    using read_write_bytes [of "[100, 101, 102, 103, 104]" 200 m] unfolding l by simp
  from rcv_mbf_in_order [OF mbf_state_ok c mbf_state_facts(5) i mbf_state_facts(6,7,2,8) mbf_state_holds refl refl, of 200 0] obtain s' where
    "tk_rcv_mbf 1 (ID_OBJ 0) 200 0 100 mbf_state = Some (5, s')" "kinv s'" "mbfs_ok s'"
    "bmem (ko s') = write_bytes 200 [100, 101, 102, 103, 104] (bmem (ko mbf_state))" by auto
  with q b show ?thesis by auto
qed

text \<open>
  A size just below $2^{31}$ is rounded up to a negative one: the buffer is created without storage, every message seems to fit, and
  storing one writes through a \<open>NULL\<close> pointer.
\<close>

definition mbf_huge :: kstate where
  "mbf_huge = snd (the (tk_cre_mbf 0 None (mbf_packet\<lparr>cmbf_bufsz := 0x7FFFFFFE\<rparr>) (upd_bmem (\<lambda>_ a. ucast a) running_state)))"

theorem oversized_buffer:
  "map_option (\<lambda>(e, s). (e, bufsz (mbfcb s 0), buffer (mbfcb s 0), mbf_free (mbfcb s 0) 8))
     (tk_cre_mbf 0 None (mbf_packet\<lparr>cmbf_bufsz := 0x7FFFFFFE\<rparr>) (upd_bmem (\<lambda>_ a. ucast a) running_state)) =
   Some (sint (ID_OBJ 0), - (2 ^ 31), [], True)"
  "tk_snd_mbf 0 (ID_OBJ 0) 100 5 100 mbf_huge = None"
  by code_simp+

end
