(* ===== verification/Pool_Properties.thy ===== *)
theory Pool_Properties
  imports Object_Properties
begin

text \<open>
  The main statements about fixed size memory pools: which addresses are blocks, and that the calls hand out and take back
  exactly one block each.
\<close>

text \<open>
  \<open>tk_rel_mpf\<close> accepts exactly the addresses at which a block of the pool begins, as long as the pool's area does not wrap around
  the end of the address space.
\<close>

theorem block_addresses:
  assumes "area_ok c"
  shows "blf_valid c b \<longleftrightarrow> (\<exists>k. int k < mpfcnt c \<and> b = blf_addr c k)"
  using assms by (rule blf_valid_iff)

definition mpf_packet :: T_CMPF where
  "mpf_packet = \<lparr>cmpf_exinf = 0, cmpf_mpfatr = TA_RNG3, cmpf_mpfcnt = 4, cmpf_blfsz = 8, cmpf_domid = 0, cmpf_oname = []\<rparr>"

definition mpf_made :: kstate where
  "mpf_made = snd (the (tk_cre_mpf 0 (Some 1000) mpf_packet running_state))"

definition mpf_state :: kstate where
  "mpf_state = snd (the (tk_get_mpf 0 (ID_OBJ 0) 100 100 mpf_made))"

definition mpf_facts :: "kstate \<Rightarrow> UW \<Rightarrow> int \<Rightarrow> bool" where
  "mpf_facts s a n \<longleftrightarrow> mpfcnt (mpfcb s 0) = 4 \<and> blfsz (mpfcb s 0) = 8 \<and> mpfsz (mpfcb s 0) = 32 \<and> mempool (mpfcb s 0) = 1000 \<and>
     freelist (mpfcb s 0) = 0 \<and> unused (mpfcb s 0) = a \<and> frbcnt (mpfcb s 0) = n \<and> ques s (QMpf 0) = [] \<and> ctxtsk s 0 = Some 0 \<and> rdy s = [0, 1] \<and>
     guards [CHECK_MPFID s (ID_OBJ 0), CHECK_TMOUT 100, CHECK_DISPATCH 0 s] = None \<and> guards [CHECK_MPFID s (ID_OBJ 0), CHECK_DISPATCH 0 s] = None \<and>
     mpfid (mpfcb s 0) \<noteq> 0 \<and> mp_check_domain_and_protection 0 s (ID_OBJ 0) (mpfid (mpfcb s 0)) (mpfatr (mpfcb s 0)) = Some E_OK \<and>
     \<not> is_diswai (mpf_gcb s 0) (tcbs s 0) TTW_MPF"

lemma mpf_made_run:
  "map_option (\<lambda>(e, s). (e, mpf_facts s 1000 4)) (tk_cre_mpf 0 (Some 1000) mpf_packet running_state) = Some (sint (ID_OBJ 0), True)"
  by code_simp

lemma mpf_state_run:
  "map_option (\<lambda>(e, s). (e, mpf_facts s 1008 3)) (tk_get_mpf 0 (ID_OBJ 0) 100 100 mpf_made) = Some (E_OK, True)"
  by code_simp

lemma mpf_factsD: "mpf_facts mpf_made 1000 4" "mpf_facts mpf_state 1008 3"
  "tk_cre_mpf 0 (Some 1000) mpf_packet running_state = Some (sint (ID_OBJ 0), mpf_made)" "tk_get_mpf 0 (ID_OBJ 0) 100 100 mpf_made = Some (E_OK, mpf_state)"
  using mpf_made_run mpf_state_run by (auto simp: mpf_made_def mpf_state_def)

lemma mpf_facts_ok:
  assumes "mpf_facts s a n"
  shows "area_ok (mpfcb s 0)" "ctx_ready 0 s" "blf_addr (mpfcb s 0) k = 1000 + of_nat k * 8"
    "a = 1000 + of_nat u * 8 \<Longrightarrow> n = 4 - int u \<Longrightarrow> u \<le> 4 \<Longrightarrow> mpf_used s 0 {..<u}"
proof -
  note f = assms [unfolded mpf_facts_def]
  show "area_ok (mpfcb s 0)" using f by (simp add: area_ok_def)
  show "ctx_ready 0 s" using f by (simp add: ctx_ready_def)
  show b: "blf_addr (mpfcb s 0) k = 1000 + of_nat k * 8" for k using f by (simp add: blf_addr_def)
  show "mpf_used s 0 {..<u}" if "a = 1000 + of_nat u * 8" "n = 4 - int u" "u \<le> 4"
    unfolding mpf_used_def using f that b by (intro exI [where x = "[]"] exI [where x = u]) simp
qed

lemma mpf_state_ok: "kinv mpf_made" "mpfs_ok mpf_made" "kinv mpf_state" "mpfs_ok mpf_state"
proof -
  have "mpfs_ok running_state" using running_objs_ok by (simp add: objs_ok_def)
  from tk_cre_mpf_inv [OF running_kinv this mpf_factsD(3)] show m: "kinv mpf_made" "mpfs_ok mpf_made" by simp_all
  from tk_get_mpf_inv [OF m mpf_facts_ok(2) [OF mpf_factsD(1)] mpf_factsD(4)] show "kinv mpf_state" "mpfs_ok mpf_state" by simp_all
qed

lemma below_4: "k < 4 \<Longrightarrow> k = 0 \<or> k = 1 \<or> k = 2 \<or> k = (3 :: nat)"
  by linarith

theorem block_addresses_witness:
  "blf_valid (mpfcb mpf_made 0) 1008 \<and> \<not> blf_valid (mpfcb mpf_made 0) 1012"
proof -
  note b = block_addresses [OF mpf_facts_ok(1) [OF mpf_factsD(1)]] and c = mpf_facts_ok(3) [OF mpf_factsD(1)]
  have n: "mpfcnt (mpfcb mpf_made 0) = 4" using mpf_factsD(1) by (simp add: mpf_facts_def)
  have "k < 4 \<Longrightarrow> 1012 \<noteq> (1000 + of_nat k * 8 :: UW)" for k :: nat using below_4 [of k] by auto
  then show ?thesis unfolding b c n by (intro conjI exI [where x = 1]) auto
qed

lemma mpf_used_cong: "umem s' = umem s \<Longrightarrow> mpfcb s' i = mpfcb s i \<Longrightarrow> mpf_used s' i U \<longleftrightarrow> mpf_used s i U"
  by (simp add: mpf_used_def)

text \<open>
  C11. \<open>tk_get_mpf\<close> by a task that may wait, on an accessible pool with free blocks, returns \<open>E_OK\<close> and the address of a block of the
  pool that nobody has: with \<open>U\<close> the blocks in use, the new one is not in \<open>U\<close>, and the list of free blocks in the pool's memory
  and the part never used stand for all others afterwards. The variable for the address must not lie in a free block.
\<close>

theorem get_block_fresh:
  assumes "kinv s" and "mpfs_ok s" and "ctx_ready prid s"
    and "guards [CHECK_MPFID s mid, CHECK_TMOUT tmout, CHECK_DISPATCH prid s] = None" and "i = INDEX_OBJ mid" and "mpfid (mpfcb s i) \<noteq> 0"
    and "mp_check_domain_and_protection prid s mid (mpfid (mpfcb s i)) (mpfatr (mpfcb s i)) = Some E_OK"
    and "ctxtsk s prid = Some t" and "\<not> is_diswai (mpf_gcb s i) (tcbs s t) TTW_MPF"
    and "mpf_used s i U" and "area_ok (mpfcb s i)" and "frbcnt (mpfcb s i) > 0"
    and "\<forall>k. int k < mpfcnt (mpfcb s i) \<and> k \<notin> U \<longrightarrow> blf_addr (mpfcb s i) k \<noteq> p_blf"
  shows "\<exists>k s'. tk_get_mpf prid mid p_blf tmout s = Some (E_OK, s') \<and> int k < mpfcnt (mpfcb s i) \<and> k \<notin> U \<and>
     umem s' p_blf = blf_addr (mpfcb s i) k \<and> mpf_used s' i (insert k U) \<and> kinv s' \<and> mpfs_ok s'"
proof -
  from take_blf_used [OF assms(10-12)] assms(13) obtain k where
    k: "int k < mpfcnt (mpfcb s i)" "k \<notin> U" "umem (take_blf i p_blf s) p_blf = blf_addr (mpfcb s i) k" "mpf_used (take_blf i p_blf s) i (insert k U)"
    by blast
  have "kinv (take_blf i p_blf s)" using assms(1) by (simp add: take_blf_def Let_def)
  then obtain s' where s': "end_critical E_OK (take_blf i p_blf s) = Some (E_OK, s')" "sched_frame (take_blf i p_blf s) s'" by (rule critical_end)
  have c: "tk_get_mpf prid mid p_blf tmout s = Some (E_OK, s')"
  proof -
    have o: "oo_id mpf_ops s i = mpfid (mpfcb s i)" "oo_atr mpf_ops s i = mpfatr (mpfcb s i)" by (simp_all add: mpf_ops_def)
    show ?thesis
      unfolding tk_get_mpf_def obj_call_open [OF assms(4), of mpf_ops s mid prid, folded assms(5), unfolded o, OF assms(6,7)]
      using assms(8,9,12) s'(1) by simp
  qed
  have f: "umem s' = umem (take_blf i p_blf s)" "mpfcb s' i = mpfcb (take_blf i p_blf s) i"
    by (simp_all add: sched_frame_sel [OF s'(2)] mpfcb_def)
  show ?thesis
    using c k f mpf_used_cong [OF f] tk_get_mpf_inv [OF assms(1-3) c] by auto
qed

theorem get_block_fresh_witness:
  "\<exists>k s'. tk_get_mpf 0 (ID_OBJ 0) 200 100 mpf_state = Some (E_OK, s') \<and> k \<noteq> 0 \<and> umem s' 200 = 1000 + of_nat k * 8 \<and> mpf_used s' 0 {k, 0}"
proof -
  note f = mpf_factsD(2) [unfolded mpf_facts_def]
  note g = mpf_facts_ok [OF mpf_factsD(2)]
  have u: "mpf_used mpf_state 0 {0}" using g(4) [of 1] by (simp add: lessThan_Suc)
  have i: "0 = INDEX_OBJ (ID_OBJ 0)" by code_simp
  have a: "\<forall>k. int k < mpfcnt (mpfcb mpf_state 0) \<and> k \<notin> {0} \<longrightarrow> blf_addr (mpfcb mpf_state 0) k \<noteq> 200"
  proof (intro allI impI)
    fix k assume "int k < mpfcnt (mpfcb mpf_state 0) \<and> k \<notin> {0}"
    then show "blf_addr (mpfcb mpf_state 0) k \<noteq> 200" using f below_4 [of k] unfolding g(3) by auto
  qed
  have "guards [CHECK_MPFID mpf_state (ID_OBJ 0), CHECK_TMOUT 100, CHECK_DISPATCH 0 mpf_state] = None" "mpfid (mpfcb mpf_state 0) \<noteq> 0"
    "mp_check_domain_and_protection 0 mpf_state (ID_OBJ 0) (mpfid (mpfcb mpf_state 0)) (mpfatr (mpfcb mpf_state 0)) = Some E_OK"
    "ctxtsk mpf_state 0 = Some 0" "\<not> is_diswai (mpf_gcb mpf_state 0) (tcbs mpf_state 0) TTW_MPF" "0 < frbcnt (mpfcb mpf_state 0)"
    using f by simp_all
  from get_block_fresh [OF mpf_state_ok(3,4) g(2) this(1) i this(2-5) u g(1) this(6) a] g(3) show ?thesis by fastforce
qed

text \<open>
  \<open>tk_rel_mpf\<close> with a block in use, when no task waits for one, returns \<open>E_OK\<close> and takes exactly this block back.
\<close>

theorem release_block:
  assumes "kinv s" and "mpfs_ok s" and "guards [CHECK_MPFID s mid, CHECK_DISPATCH prid s] = None" and "i = INDEX_OBJ mid"
    and "mpfid (mpfcb s i) \<noteq> 0"
    and "mp_check_domain_and_protection prid s mid (mpfid (mpfcb s i)) (mpfatr (mpfcb s i)) = Some E_OK"
    and "mpf_used s i U" and "area_ok (mpfcb s i)" and "k \<in> U" and "ques s (QMpf i) = []"
  shows "\<exists>s'. tk_rel_mpf prid mid (blf_addr (mpfcb s i) k) s = Some (E_OK, s') \<and> mpf_used s' i (U - {k}) \<and>
     frbcnt (mpfcb s' i) = frbcnt (mpfcb s i) + 1 \<and> kinv s' \<and> mpfs_ok s'"
proof -
  let ?b = "blf_addr (mpfcb s i) k"
  note g = give_blf_used [OF assms(7-9)]
  have "int k < mpfcnt (mpfcb s i)" using assms(7,9) by (auto simp: mpf_used_def)
  then have v: "blf_valid (mpfcb s i) ?b" using blf_valid_iff [OF assms(8)] by blast
  have "kinv (give_blf i ?b s)" using assms(1) by (simp add: give_blf_sel)
  then obtain s' where s': "end_critical E_OK (give_blf i ?b s) = Some (E_OK, s')" "sched_frame (give_blf i ?b s) s'" by (rule critical_end)
  have c: "tk_rel_mpf prid mid ?b s = Some (E_OK, s')"
  proof -
    have o: "oo_id mpf_ops s i = mpfid (mpfcb s i)" "oo_atr mpf_ops s i = mpfatr (mpfcb s i)" by (simp_all add: mpf_ops_def)
    show ?thesis
      unfolding tk_rel_mpf_def obj_call_open [OF assms(3), of mpf_ops s mid prid, folded assms(4), unfolded o, OF assms(5,6)]
      using assms(10) v s'(1) by simp
  qed
  have f: "umem s' = umem (give_blf i ?b s)" "mpfcb s' i = mpfcb (give_blf i ?b s) i"
    by (simp_all add: sched_frame_sel [OF s'(2)] mpfcb_def)
  show ?thesis
    using c g f mpf_used_cong [OF f] tk_rel_mpf_inv [OF assms(1,2) c] by (auto simp: give_blf_sel)
qed

theorem release_block_witness:
  "\<exists>s'. tk_rel_mpf 0 (ID_OBJ 0) 1000 mpf_state = Some (E_OK, s') \<and> mpf_used s' 0 {} \<and> frbcnt (mpfcb s' 0) = 4"
proof -
  note f = mpf_factsD(2) [unfolded mpf_facts_def]
  note g = mpf_facts_ok [OF mpf_factsD(2)]
  have u: "mpf_used mpf_state 0 {0}" using g(4) [of 1] by (simp add: lessThan_Suc)
  have i: "0 = INDEX_OBJ (ID_OBJ 0)" by code_simp
  have "guards [CHECK_MPFID mpf_state (ID_OBJ 0), CHECK_DISPATCH 0 mpf_state] = None" "mpfid (mpfcb mpf_state 0) \<noteq> 0" "ques mpf_state (QMpf 0) = []"
    "mp_check_domain_and_protection 0 mpf_state (ID_OBJ 0) (mpfid (mpfcb mpf_state 0)) (mpfatr (mpfcb mpf_state 0)) = Some E_OK"
    "frbcnt (mpfcb mpf_state 0) = 3"
    using f by simp_all
  from release_block [OF mpf_state_ok(3,4) this(1) i this(2,4) u g(1) _ this(3), of 0] this(5) g(3) [of 0] show ?thesis by auto
qed

end
