(* ===== verification/Rendezvous_Properties.thy ===== *)
theory Rendezvous_Properties
  imports Object_Properties
begin

text \<open>
  The main statements about rendezvous: the numbers that name them, the ports on which callers and acceptors meet, and the reply that
  ends them.
\<close>

section \<open>Numbers of rendezvous\<close>

unbundle bit_operations_syntax

definition rdv_field :: "UW \<Rightarrow> UW" where
  "rdv_field r = take_bit 4 (drop_bit 12 r)"

lemma bit_RDVNO_MASK: "bit RDVNO_MASK n \<longleftrightarrow> 12 \<le> n \<and> n < 16"
proof -
  have m: "RDVNO_MASK = push_bit 12 (mask 4)" by (simp add: RDVNO_MASK_def mask_eq_exp_minus_1)
  show ?thesis unfolding m by (auto simp: bit_push_bit_iff bit_mask_iff)
qed

lemma field_unat: "unat (rdv_field r) = unat r div 2 ^ 12 mod 16"
  proof -
  have "unat r < 2 ^ 32" using unsigned_less [of r] by simp
  then show ?thesis
    unfolding rdv_field_def unsigned_take_bit_eq unsigned_drop_bit_eq by (simp add: take_bit_eq_mod drop_bit_eq_div)
qed

lemma add_mod_div: "(u + 4096) mod 4294967296 div 4096 mod 16 = Suc (u div 4096) mod (16 :: nat)"
proof -
  have "(u + 4096) mod (4096 * 1048576) div 4096 = (u + 4096) div 4096 mod (1048576 :: nat)" unfolding mod_mult2_eq by simp
  moreover have "(u + 4096) div 4096 = Suc (u div 4096)" using div_add_self2 [of 4096 u] by simp
  ultimately show ?thesis by (simp add: mod_mod_cancel)
qed

lemma next_rdvno_parts: "next_rdvno r AND NOT RDVNO_MASK = r AND NOT RDVNO_MASK" "unat (rdv_field (next_rdvno r)) = (unat (rdv_field r) + 1) mod 16"
proof -
  show "next_rdvno r AND NOT RDVNO_MASK = r AND NOT RDVNO_MASK"
    by (rule bit_word_eqI) (auto simp: next_rdvno_def bit_and_iff bit_or_iff bit_not_iff)
  have "rdv_field (next_rdvno r) = rdv_field (r + 2 ^ 12)"
    by (rule bit_word_eqI) (auto simp: next_rdvno_def rdv_field_def RDVNO_SHIFT_def bit_and_iff bit_or_iff bit_not_iff bit_take_bit_iff
        bit_drop_bit_eq bit_RDVNO_MASK)
  moreover have "unat (rdv_field (r + 2 ^ 12)) = (unat (rdv_field r) + 1) mod 16"
    unfolding field_unat by (simp add: unat_word_ariths add_mod_div mod_Suc_eq)
  ultimately show "unat (rdv_field (next_rdvno r)) = (unat (rdv_field r) + 1) mod 16" by simp
qed

lemma rdvno_eqI: "r AND NOT RDVNO_MASK = q AND NOT RDVNO_MASK \<Longrightarrow> rdv_field r = rdv_field q \<Longrightarrow> r = q"
proof (rule bit_word_eqI)
  fix n assume b: "r AND NOT RDVNO_MASK = q AND NOT RDVNO_MASK" and f: "rdv_field r = rdv_field q" and n: "n < LENGTH(32)"
  show "bit r n \<longleftrightarrow> bit q n"
  proof (cases "12 \<le> n \<and> n < 16")
    case True
    then show ?thesis using arg_cong [OF f, of "\<lambda>w. bit w (n - 12)"] by (simp add: rdv_field_def bit_take_bit_iff bit_drop_bit_eq) auto
  next
    case False
    then show ?thesis using arg_cong [OF b, of "\<lambda>w. bit w n"] n by (simp add: bit_and_iff bit_not_iff bit_RDVNO_MASK)
  qed
qed

lemma next_rdvno_power: "(next_rdvno ^^ k) r AND NOT RDVNO_MASK = r AND NOT RDVNO_MASK"
  "unat (rdv_field ((next_rdvno ^^ k) r)) = (unat (rdv_field r) + k) mod 16"
proof (induction k)
  case 0
  {
    case 2
    show ?case using field_unat [of r] by simp
  }
next
  case (Suc k)
  {
    case 1
    show ?case using Suc(1) by (simp add: next_rdvno_parts)
  next
    case 2
    show ?case using Suc(2) by (simp add: next_rdvno_parts mod_simps)
  }
qed simp

lemma add_mod_16: "(f + j) mod 16 = (f + k) mod (16 :: nat) \<longleftrightarrow> j mod 16 = k mod 16"
proof
  assume "(f + j) mod 16 = (f + k) mod 16"
  then have "(15 * f + (f + j)) mod 16 = (15 * f + (f + k)) mod 16" by (rule mod_add_cong [OF refl])
  moreover have "15 * f + (f + j) = j + 16 * f" "15 * f + (f + k) = k + 16 * f" by simp_all
  ultimately show "j mod 16 = k mod 16" by simp
qed (rule mod_add_cong [OF refl])

text \<open>The state after \<open>k\<close> calls of \<open>gen_rdvno\<close> for task \<open>t\<close>, and the number that the next one gives.\<close>

definition after_rdv :: "nat \<Rightarrow> nat \<Rightarrow> kstate \<Rightarrow> kstate" where
  "after_rdv t k s = ((\<lambda>s. snd (gen_rdvno t s)) ^^ k) s"

definition rdv_no :: "nat \<Rightarrow> nat \<Rightarrow> kstate \<Rightarrow> UW" where
  "rdv_no t k s = fst (gen_rdvno t (after_rdv t k s))"

lemma rdv_no_power: "rdv_no t k s = (next_rdvno ^^ k) (wrdvno (tcbs s t))"
proof -
  have "wrdvno (tcbs (after_rdv t k s) t) = (next_rdvno ^^ k) (wrdvno (tcbs s t))"
    by (induction k) (simp_all add: after_rdv_def gen_rdvno_def)
  then show ?thesis by (simp add: rdv_no_def gen_rdvno_def)
qed

lemma rdv_no_eq: "rdv_no t j s = rdv_no t k s \<longleftrightarrow> j mod 16 = k mod 16"
proof -
  define r where "r = wrdvno (tcbs s t)"
  have "(next_rdvno ^^ j) r = (next_rdvno ^^ k) r \<longleftrightarrow> rdv_field ((next_rdvno ^^ j) r) = rdv_field ((next_rdvno ^^ k) r)"
    using rdvno_eqI [of "(next_rdvno ^^ j) r" "(next_rdvno ^^ k) r"] by (auto simp: next_rdvno_power)
  also have "\<dots> \<longleftrightarrow> (unat (rdv_field r) + j) mod 16 = (unat (rdv_field r) + k) mod 16"
    unfolding next_rdvno_power(2) [symmetric] word_unat_eq_iff ..
  also have "\<dots> \<longleftrightarrow> j mod 16 = k mod 16" by (rule add_mod_16)
  finally show ?thesis by (simp add: rdv_no_power r_def)
qed

lemma rdv_no_task: "get_tskid_rdvno (rdv_no t k s) = wrdvno (tcbs s t) AND NOT RDVNO_MASK"
  by (simp add: get_tskid_rdvno_def rdv_no_power next_rdvno_power)

lemma and_not_id: "(x :: UW) AND NOT m = x \<longleftrightarrow> x AND m = 0"
proof
  assume "x AND NOT m = x"
  then have "x AND m = (x AND NOT m) AND m" by simp
  also have "\<dots> = 0" by (rule bit_word_eqI) (simp add: bit_and_iff bit_not_iff)
  finally show "x AND m = 0" .
next
  assume z: "x AND m = 0"
  have "\<not> (bit x n \<and> bit m n)" for n using arg_cong [OF z, of "\<lambda>w. bit w n"] by (simp add: bit_and_iff)
  then show "x AND NOT m = x" by (intro bit_word_eqI) (auto simp: bit_and_iff bit_not_iff)
qed

text \<open>
  C38. The numbers that successive calls of \<open>gen_rdvno\<close> give for a task, whose first one agrees with its identifier as \<open>tk_cre_tsk\<close> leaves it, lead back
  to the identifier if and only if this does not use the bits that count, and a number comes again exactly after 16 rendezvous. So while
  the task waits for the reply to one rendezvous, a reply to any other of its last 15 is refused with \<open>E_OBJ\<close>.
\<close>

theorem rendezvous_numbers:
  assumes "wrdvno (tcbs s t) AND NOT RDVNO_MASK = tskid (tcbs s t) AND NOT RDVNO_MASK"
  shows "(get_tskid_rdvno (rdv_no t k s) = tskid (tcbs s t) \<longleftrightarrow> tskid (tcbs s t) AND RDVNO_MASK = 0) \<and>
     (rdv_no t j s = rdv_no t k s \<longleftrightarrow> j mod 16 = k mod 16) \<and>
     (kinv u \<and> tskid (tcbs s t) AND RDVNO_MASK = 0 \<and> INDEX_OBJ (tskid (tcbs s t)) = t \<and>
        rdv_rdvno (winfo (tcbs u t)) = rdv_no t k s \<and> j mod 16 \<noteq> k mod 16 \<and>
        guards [CHECK_RDVNO u (rdv_no t j s), CHECK_PAR (0 \<le> rmsgsz), CHECK_INTSK prid u] = None \<longrightarrow>
      (\<exists>u'. tk_rpl_rdv prid (rdv_no t j s) msg rmsgsz u = Some (E_OBJ, u') \<and> sched_frame u u'))"
proof (intro conjI impI)
  have i: "get_tskid_rdvno (rdv_no t n s) = tskid (tcbs s t) AND NOT RDVNO_MASK" for n by (simp add: rdv_no_task assms)
  show "get_tskid_rdvno (rdv_no t k s) = tskid (tcbs s t) \<longleftrightarrow> tskid (tcbs s t) AND RDVNO_MASK = 0"
    unfolding i by (rule and_not_id)
  show "rdv_no t j s = rdv_no t k s \<longleftrightarrow> j mod 16 = k mod 16" by (rule rdv_no_eq)
  assume a: "kinv u \<and> tskid (tcbs s t) AND RDVNO_MASK = 0 \<and> INDEX_OBJ (tskid (tcbs s t)) = t \<and>
      rdv_rdvno (winfo (tcbs u t)) = rdv_no t k s \<and> j mod 16 \<noteq> k mod 16 \<and>
      guards [CHECK_RDVNO u (rdv_no t j s), CHECK_PAR (0 \<le> rmsgsz), CHECK_INTSK prid u] = None"
  then have "INDEX_OBJ (get_tskid_rdvno (rdv_no t j s)) = t" unfolding i using and_not_id by metis
  moreover have "\<not> rdv_waiting u t (rdv_no t j s)" using a rdv_no_eq [of t j s k] by (auto simp: rdv_waiting_def)
  moreover obtain u' where u': "end_critical E_OBJ u = Some (E_OBJ, u')" "sched_frame u u'" using a end_critical_ok [of u E_OBJ] by blast
  ultimately have "tk_rpl_rdv prid (rdv_no t j s) msg rmsgsz u = Some (E_OBJ, u')" using a unfolding tk_rpl_rdv_def by (simp add: Let_def)
  then show "\<exists>u'. tk_rpl_rdv prid (rdv_no t j s) msg rmsgsz u = Some (E_OBJ, u') \<and> sched_frame u u'" using u'(2) by blast
qed

section \<open>Calls, acceptance and replies\<close>

text \<open>
  \<open>tk_acp_por\<close>, in every branch, keeps the kernel invariant and the invariant of ports: no task waits to call and no task to accept
  whose patterns have a bit in common.
\<close>

theorem acp_por_invariant:
  assumes "kinv s" and "pors_ok s" and "ctx_ready prid s" and "tk_acp_por rh prid pid acpptn p_rdvno msg p_cmsgsz tmout s = Some (e, s')"
  shows "kinv s' \<and> pors_ok s'"
  using assms by (rule tk_acp_por_inv)

text \<open>
  C16. \<open>tk_rpl_rdv\<close> with the number of a rendezvous that is going on and a reply that is not too long returns \<open>E_OK\<close>, copies the bytes
  of the reply and its size to where the caller wants them, and makes the caller ready, or suspended, with the result \<open>E_OK\<close>.
\<close>

theorem reply_reaches_caller:
  assumes "kinv s" and "pors_ok s" and "rdv_apart s" and "guards [CHECK_RDVNO s rdvno, CHECK_PAR (rmsgsz \<ge> 0), CHECK_INTSK prid s] = None"
    and "c = INDEX_OBJ (get_tskid_rdvno rdvno)" and "rdv_waiting s c rdvno" and "rmsgsz \<le> rdv_maxrmsz (winfo (tcbs s c))" and "rmsgsz < 2 ^ 31"
  shows "\<exists>s'. tk_rpl_rdv prid rdvno msg rmsgsz s = Some (E_OK, s') \<and>
     state (tcbs s' c) = (if state (tcbs s c) = TS_WAIT then TS_READY else TS_SUSPEND) \<and> wercd (tcbs s' c) = E_OK \<and>
     umem s' (rdv_p_rmsgsz (winfo (tcbs s c))) = word_of_int rmsgsz \<and>
     read_bytes (bmem (ko s')) (rdv_msg (winfo (tcbs s c))) (nat rmsgsz) = read_bytes (bmem (ko s)) msg (nat rmsgsz) \<and> kinv s' \<and> pors_ok s'"
proof -
  define m where "m = (if rmsgsz > 0 then upd_bmem (memcpy (rdv_msg (winfo (tcbs s c))) msg (nat rmsgsz)) s else s)"
  define v where "v = m\<lparr>umem := (umem m)(rdv_p_rmsgsz (winfo (tcbs m c)) := word_of_int rmsgsz)\<rparr>"
  have v: "kinv v" "tcbs v = tcbs s" "ques v = ques s" using assms(1) by (simp_all add: v_def m_def)
  have "nat rmsgsz < 2 ^ 32" using assms(8) by simp
  then have b: "read_bytes (bmem (ko v)) (rdv_msg (winfo (tcbs s c))) (nat rmsgsz) = read_bytes (bmem (ko s)) msg (nat rmsgsz)"
    by (cases "rmsgsz > 0") (simp_all add: v_def m_def memcpy_read, simp add: read_bytes_def)
  have w: "is_wait (state (tcbs v c))" using assms(6) v(2) by (simp add: rdv_waiting_def)
  have n: "c \<notin> set (ques v q)" for q using rdv_alone [OF assms(1,3,6)] v(3) by simp
  let ?x = "wait_release_ok_ercd c E_OK v"
  note x = release_alone [OF v(1) w n, where e = E_OK]
  obtain s' where s': "end_critical E_OK ?x = Some (E_OK, s')" "sched_frame ?x s'" by (rule critical_end [OF x(1)])
  have c: "tk_rpl_rdv prid rdvno msg rmsgsz s = Some (E_OK, s')"
    using assms(4-7) s'(1) by (simp add: tk_rpl_rdv_def Let_def v_def m_def wait_release_ok_ercd_E_OK not_less split: if_splits)
  have r: "released E_OK (tcbs s c) (tcbs ?x c)" using w v(2) by (simp add: released_def wait_release_ok_ercd_def wait_release_tcbs)
  have k: "umem ?x = umem v" "bmem (ko ?x) = bmem (ko v)" using x(2) by (simp_all add: objs_same_def)
  have u: "umem v (rdv_p_rmsgsz (winfo (tcbs s c))) = word_of_int rmsgsz" by (simp add: v_def m_def)
  show ?thesis
    using c r tk_rpl_rdv_inv [OF assms(1-3) c] sched_frame_tcb(2,8) [OF s'(2)] b u k by (auto simp: sched_frame_sel [OF s'(2)] released_def)
qed

definition por_packet :: T_CPOR where
  "por_packet = \<lparr>cpor_exinf = 0, cpor_poratr = 0, cpor_maxcmsz = 8, cpor_maxrmsz = 8, cpor_domid = 0, cpor_oname = []\<rparr>"

text \<open>The state of task 0 has its first rendezvous number, its own identifier.\<close>

definition numbered :: kstate where
  "numbered = upd_tcb 0 (\<lambda>c. c\<lparr>wrdvno := ID_OBJ 0\<rparr>) running_state"

definition por_made :: kstate where
  "por_made = snd (the (tk_cre_por 0 por_packet numbered))"

definition por_called :: kstate where
  "por_called = snd (the (tk_cal_por 0 (ID_OBJ 0) 3 100 4 400 100 por_made))"

definition por_met :: kstate where
  "por_met = snd (the (tk_acp_por rel_wai_hooks 1 (ID_OBJ 0) 2 500 200 600 100 por_called))"

lemma por_made_run:
  "map_option (\<lambda>(e, s). (e, ctxtsk s 0, rdy s)) (tk_cre_por 0 por_packet numbered) = Some (sint (ID_OBJ 0), Some 0, [0, 1])"
  by code_simp

lemma por_called_run:
  "map_option (\<lambda>(e, s). (e, ctxtsk s 1, rdy s)) (tk_cal_por 0 (ID_OBJ 0) 3 100 4 400 100 por_made) = Some (E_TMOUT, Some 1, [1])"
  by code_simp

lemma por_met_run:
  "map_option (\<lambda>(e, s). (e, umem s 500 = ID_OBJ 0, guards [CHECK_RDVNO s (ID_OBJ 0), CHECK_PAR ((3 :: int) \<ge> 0), CHECK_INTSK 1 s],
     rdv_waiting s 0 (ID_OBJ 0), INDEX_OBJ (get_tskid_rdvno (ID_OBJ 0)), winfo (tcbs s 0), state (tcbs s 0),
     concat (map (ques s) [QSem i, QFlg i, QMbx i, QMtx i, QMpf i, QMpl i, QSmbf i, QRmbf i, QCal 0, QCal (Suc i), QAcp 0, QAcp (Suc i)])))
     (tk_acp_por rel_wai_hooks 1 (ID_OBJ 0) 2 500 200 600 100 por_called) =
   Some (4, True, None, True, 0, Winfo_rdv (ID_OBJ 0) 100 8 400, TS_WAIT, [])"
  by code_simp

lemma por_met_facts: "tk_acp_por rel_wai_hooks 1 (ID_OBJ 0) 2 500 200 600 100 por_called = Some (4, por_met)"
  "guards [CHECK_RDVNO por_met (ID_OBJ 0), CHECK_PAR ((3 :: int) \<ge> 0), CHECK_INTSK 1 por_met] = None" "rdv_waiting por_met 0 (ID_OBJ 0)"
  "winfo (tcbs por_met 0) = Winfo_rdv (ID_OBJ 0) 100 8 400" "state (tcbs por_met 0) = TS_WAIT"
  "\<forall>q \<in> {QSem i, QFlg i, QMbx i, QMtx i, QMpf i, QMpl i, QSmbf i, QRmbf i, QCal 0, QCal (Suc i), QAcp 0, QAcp (Suc i)}. ques por_met q = []"
  using por_met_run [of i] by (auto simp: por_met_def)

lemma por_called_ok: "kinv por_called" "pors_ok por_called" "ctx_ready 1 por_called"
proof -
  have k: "kinv numbered" unfolding numbered_def by (rule kinv_tcb_upd [OF running_kinv]) simp_all
  have "touches {} running_state numbered" by (auto simp: numbered_def wview_def intro!: touchesI)
  then have p: "pors_ok numbered"
    using running_objs_ok por_tab.table_ok_elsewhere [of running_state numbered] by (simp add: objs_ok_def por_agree_def numbered_def)
  have m: "tk_cre_por 0 por_packet numbered = Some (sint (ID_OBJ 0), por_made)" "ctx_ready 0 por_made"
    using por_made_run by (auto simp: por_made_def ctx_ready_def)
  have c: "tk_cal_por 0 (ID_OBJ 0) 3 100 4 400 100 por_made = Some (E_TMOUT, por_called)" "ctx_ready 1 por_called"
    using por_called_run by (auto simp: por_called_def ctx_ready_def)
  from tk_cre_por_inv [OF k p m(1)] tk_cal_por_inv [OF _ _ m(2) c(1)] c(2) show "kinv por_called" "pors_ok por_called" "ctx_ready 1 por_called"
    by blast+
qed

theorem acp_por_invariant_witness:
  "\<exists>s'. tk_acp_por rel_wai_hooks 1 (ID_OBJ 0) 2 500 200 600 100 por_called = Some (4, s') \<and> kinv s' \<and> pors_ok s'"
  using acp_por_invariant [OF por_called_ok por_met_facts(1)] por_met_facts(1) by blast

lemma por_met_ok: "kinv por_met" "pors_ok por_met" "rdv_apart por_met"
proof -
  show "kinv por_met" "pors_ok por_met" using tk_acp_por_inv [OF por_called_ok por_met_facts(1)] by simp_all
  have "ques por_met q = []" if "wait_head q" for q
  proof (cases q)
    case (QCal n)
    then show ?thesis using por_met_facts(6) [of 0] por_met_facts(6) [of "n - 1"] by (cases n) auto
  next
    case (QAcp n)
    then show ?thesis using por_met_facts(6) [of 0] por_met_facts(6) [of "n - 1"] by (cases n) auto
  qed (use that por_met_facts(6) in auto)
  then show "rdv_apart por_met" by (simp add: rdv_apart_def)
qed

text \<open>Task 0 has called and task 1 has accepted; task 1 replies three bytes.\<close>

theorem reply_reaches_caller_witness:
  "\<exists>s'. tk_rpl_rdv 1 (ID_OBJ 0) 300 3 por_met = Some (E_OK, s') \<and> state (tcbs s' 0) = TS_READY \<and> wercd (tcbs s' 0) = E_OK \<and> umem s' 400 = 3"
proof -
  have i: "0 = INDEX_OBJ (get_tskid_rdvno (ID_OBJ 0))" by code_simp
  from reply_reaches_caller [OF por_met_ok por_met_facts(2) i por_met_facts(3), of 300] show ?thesis
    by (auto simp: por_met_facts(4,5))
qed

text \<open>In this state task 0 waits for the reply to its first rendezvous; a reply with its second number is refused.\<close>

theorem rendezvous_numbers_witness:
  "get_tskid_rdvno (rdv_no 0 1 numbered) = ID_OBJ 0 \<and> rdv_no 0 1 numbered \<noteq> rdv_no 0 0 numbered \<and>
   (\<exists>u'. tk_rpl_rdv 1 (rdv_no 0 1 numbered) 300 3 por_met = Some (E_OBJ, u') \<and> sched_frame por_met u')"
proof -
  have i: "tskid (tcbs numbered 0) = ID_OBJ 0" "ID_OBJ 0 AND RDVNO_MASK = 0" "INDEX_OBJ (ID_OBJ 0) = 0"
    "rdv_rdvno (winfo (tcbs por_met 0)) = rdv_no 0 0 numbered"
    "guards [CHECK_RDVNO por_met (rdv_no 0 1 numbered), CHECK_PAR (0 \<le> (3 :: int)), CHECK_INTSK 1 por_met] = None"
    by code_simp+
  have h: "wrdvno (tcbs numbered 0) AND NOT RDVNO_MASK = tskid (tcbs numbered 0) AND NOT RDVNO_MASK" by code_simp
  show ?thesis
    using rendezvous_numbers [OF h, of 1 0 por_met 3 1 300] rendezvous_numbers [OF h, of 0 1 por_met 3 1 300] por_met_ok(1)
    unfolding i by (simp add: i)
qed

end
