(* ===== verification/Time_Properties.thy ===== *)
theory Time_Properties
  imports Concrete_State
begin

text \<open>
  The main statements about the clock and the event handlers.
\<close>

section \<open>The clock\<close>

text \<open>
  A time that \<open>tk_set_tim\<close> accepts is the one that \<open>tk_get_tim\<close> reports, the two halves of 32 bits put together and taken apart
  again and the offset to the running clock included.
\<close>

theorem clock_roundtrip:
  assumes "0 \<le> st_hi t" and "st_hi t < 2 ^ 31"
  shows "fst (tk_set_tim t s) = E_OK \<and> tk_get_tim (snd (tk_set_tim t s)) = (E_OK, t)"
  using assms by (rule set_get_tim)

theorem clock_roundtrip_witness:
  "tk_get_tim (snd (tk_set_tim \<lparr>st_hi = 7, st_lo = 0xffffffff\<rparr> running_state)) = (E_OK, \<lparr>st_hi = 7, st_lo = 0xffffffff\<rparr>)"
  using clock_roundtrip [of "\<lparr>st_hi = 7, st_lo = 0xffffffff\<rparr>" running_state] by simp

section \<open>Cyclic handlers\<close>

text \<open>
  C33. \<open>cyc_next_time\<close> gives the first time in the grid of the handler's periods that lies after the present one, however many
  periods have been missed; nothing wraps around as long as the clock is below a quarter of its range.
\<close>

theorem next_activation:
  assumes "0 < uint (cyctim (cyccb s i))" and "time_ok (tm_time (cyc_tmeb s i))" and "time_ok (current_time s)"
  shows "\<exists>k\<ge>1. sint (cyc_next_time s i) = sint (tm_time (cyc_tmeb s i)) + k * uint (cyctim (cyccb s i)) \<and>
     sint (current_time s) < sint (tm_time (cyc_tmeb s i)) + k * uint (cyctim (cyccb s i)) \<and>
     (k = 1 \<or> sint (tm_time (cyc_tmeb s i)) + (k - 1) * uint (cyctim (cyccb s i)) \<le> sint (current_time s))"
  using assms by (rule cyc_next_time_ok)

definition cyc_packet :: T_CCYC where
  "cyc_packet = \<lparr>ccyc_exinf = 5, ccyc_cycatr = TA_STA OR TA_HLNG, ccyc_cychdr = 0x8000, ccyc_cyctim = 100, ccyc_cycphs = 0, ccyc_domid = 0,
     ccyc_assprc = 0, ccyc_oname = []\<rparr>"

definition quiet_handler :: uhandler where
  "quiet_handler h x s = Some s"

lemma quiet_handler_ok: "uh_ok quiet_handler"
  by (simp add: uh_ok_def quiet_handler_def)

definition cyc_state :: kstate where
  "cyc_state = snd (the (tk_cre_cyc quiet_handler 0 cyc_packet running_state))"

declare hdr_loop.simps [code]
lemma cyc_run:
  "map_option (\<lambda>(e, s). (e, timer_queue s, sint (tm_time (cyc_tmeb s 0)), uint (cyctim (cyccb s 0)), cycstat (cyccb s 0) = TCYC_STA))
     (tk_cre_cyc quiet_handler 0 cyc_packet running_state) = Some (sint (ID_OBJ 0), [TmCyc 0], 110, 100, True)"
  by code_simp

lemma cyc_facts: "tk_cre_cyc quiet_handler 0 cyc_packet running_state = Some (sint (ID_OBJ 0), cyc_state)"
  "sint (tm_time (cyc_tmeb cyc_state 0)) = 110" "uint (cyctim (cyccb cyc_state 0)) = 100"
  using cyc_run by (auto simp: cyc_state_def)

text \<open>The handler was to run at 110, every 100 units; at 500 its next time is 510.\<close>

theorem next_activation_witness:
  "sint (cyc_next_time (cyc_state\<lparr>current_time := 500\<rparr>) 0) = 510"
proof -
  let ?s = "cyc_state\<lparr>current_time := 500\<rparr>"
  have f: "sint (tm_time (cyc_tmeb ?s 0)) = 110" "uint (cyctim (cyccb ?s 0)) = 100" "sint (current_time ?s) = 500"
    using cyc_facts by (simp_all add: cyccb_def)
  have "0 < uint (cyctim (cyccb ?s 0))" "time_ok (tm_time (cyc_tmeb ?s 0))" "time_ok (current_time ?s)" using f by (simp_all add: time_ok_def)
  from next_activation [OF this] obtain k where "k \<ge> 1" "sint (cyc_next_time ?s 0) = 110 + k * 100" "500 < 110 + k * 100"
    "k = 1 \<or> 110 + (k - 1) * 100 \<le> 500"
    unfolding f by blast
  then show ?thesis by presburger
qed

text \<open>
  C15. The calls on cyclic handlers keep the kernel invariant and the invariant of handler events, in every branch and whatever the
  handler itself does within the invariants: the event of a started handler is linked into exactly one of the timer queue and
  the processors' handler queues, that of any other handler nowhere, with the right function to call, and unused
  control blocks have no handler.
\<close>

theorem cyclic_calls_keep_events:
  assumes "tim_ok s" and "uh_ok uh"
    and "tk_cre_cyc uh prid pk s = Some (e, s') \<or> tk_del_cyc prid oid s = Some (e, s') \<or> tk_sta_cyc prid oid s = Some (e, s') \<or>
      tk_stp_cyc prid oid s = Some (e, s')"
  shows "tim_ok s'"
  using assms(3)
  by (elim disjE)
    (rule tk_cre_cyc_ok [OF assms(1,2)] tk_del_cyc_ok [OF assms(1)] tk_sta_cyc_ok [OF assms(1)] tk_stp_cyc_ok [OF assms(1)], assumption)+

theorem cyclic_calls_keep_events_witness:
  "tim_ok cyc_state"
  using cyclic_calls_keep_events [OF running_tim_ok quiet_handler_ok, of 0 cyc_packet] cyc_facts(1) by blast

section \<open>Alarm handlers\<close>

text \<open>
  The calls on alarm handlers keep the kernel invariant and the invariant of handler events, also when a time of 0 lets the
  handler run at once, and when it stops or deletes itself.
\<close>

theorem alarm_calls_keep_events:
  assumes "tim_ok s" and "uh_ok uh"
    and "tk_cre_alm prid pk s = Some (e, s') \<or> tk_del_alm prid oid s = Some (e, s') \<or> tk_sta_alm uh prid oid almtim s = Some (e, s') \<or>
      tk_stp_alm prid oid s = Some (e, s')"
  shows "tim_ok s'"
  using assms(3)
  by (elim disjE)
    (rule tk_cre_alm_ok [OF assms(1)] tk_del_alm_ok [OF assms(1)] tk_sta_alm_ok [OF assms(1,2)] tk_stp_alm_ok [OF assms(1)], assumption)+

definition alm_packet :: T_CALM where
  "alm_packet = \<lparr>calm_exinf = 5, calm_almatr = TA_HLNG, calm_almhdr = 0x8000, calm_domid = 0, calm_assprc = 0, calm_oname = []\<rparr>"

definition alm_made :: kstate where
  "alm_made = snd (the (tk_cre_alm 0 alm_packet running_state))"

lemma alm_run:
  "map_option fst (tk_cre_alm 0 alm_packet running_state) = Some (sint (ID_OBJ 0))"
  "map_option (\<lambda>(e, s). (e, timer_queue s)) (tk_sta_alm quiet_handler 0 (ID_OBJ 0) 50 alm_made) = Some (E_OK, [TmAlm 0])"
  by code_simp+

theorem alarm_calls_keep_events_witness:
  "\<exists>s'. tk_sta_alm quiet_handler 0 (ID_OBJ 0) 50 alm_made = Some (E_OK, s') \<and> timer_queue s' = [TmAlm 0] \<and> tim_ok s'"
proof -
  obtain e where "tk_cre_alm 0 alm_packet running_state = Some (e, alm_made)" using alm_run(1) by (auto simp: alm_made_def)
  then have "tim_ok alm_made" by (rule tk_cre_alm_ok [OF running_tim_ok])
  from alarm_calls_keep_events [OF this quiet_handler_ok] alm_run(2) show ?thesis by force
qed

section \<open>Distribution to the processors\<close>

text \<open>
  \<open>assprc_to_prid\<close> finds the lowest processor of a non-empty set, four bits of it at a time.
\<close>

theorem lowest_processor:
  assumes "asp \<noteq> 0"
  shows "bit asp (assprc_to_prid asp) \<and> (\<forall>q<assprc_to_prid asp. \<not> bit asp q)"
  using assms by (rule assprc_to_prid_low)

theorem lowest_processor_witness:
  "bit (0x60 :: UW) (assprc_to_prid 0x60) \<and> assprc_to_prid 0x60 = 5"
proof -
  have "assprc_to_prid 0x60 = 5" by code_simp
  then show ?thesis using lowest_processor [of "0x60"] by simp
qed

text \<open>
  \<open>check_handler_queue\<close> asks exactly the processors to run their handlers that got new events and are not at work on
  their queue already, and marks these queues as being worked on; no queue loses an event.
\<close>

theorem due_processors:
  assumes "check_handler_queue s = (asp, s')"
  shows "(\<forall>p. bit asp p \<longleftrightarrow> p < MAX_PROC \<and> hq_upd (handler_queue (ko s) p) \<and> \<not> hq_act (handler_queue (ko s) p)) \<and>
     (\<forall>p<MAX_PROC. handler_queue (ko s') p = (handler_queue (ko s) p)\<lparr>hq_upd := False,
        hq_act := hq_act (handler_queue (ko s) p) \<or> hq_upd (handler_queue (ko s) p)\<rparr>)"
  using check_handler_queue_ok(1,2) [OF assms] by blast

theorem due_processors_witness:
  "bit (fst (check_handler_queue (enqueue_handler 1 (TmCyc 0) (Cb_call (TmCyc 0)) cyc_state))) 1"
proof -
  let ?s = "enqueue_handler 1 (TmCyc 0) (Cb_call (TmCyc 0)) cyc_state"
  have "hq_upd (handler_queue (ko ?s) 1) \<and> \<not> hq_act (handler_queue (ko ?s) 1)" by code_simp
  then show ?thesis using due_processors [of ?s] by (cases "check_handler_queue ?s") (simp add: MAX_PROC_def)
qed

end
