(* ===== verification/Klock_Inv.thy ===== *)
theory Klock_Inv
  imports Klock Wait
begin

text \<open>
  What \<open>AllUnlockSVC\<close> does: the loop ends, and every lock of the calling task goes to the task that has waited longest for it, or
  becomes free. The task it is called for keeps its locks unless it is the calling task.
\<close>

section \<open>Giving up all locks\<close>

text \<open>The task that gets the lock \<open>l\<close> next.\<close>

definition heir :: "kstate \<Rightarrow> svclock_ref \<Rightarrow> nat option" where
  "heir s l = (case ques s (QSvcLock l) of [] \<Rightarrow> None | x # _ \<Rightarrow> Some x)"

text \<open>The locks \<open>ls\<close> of task \<open>c\<close> have been passed on or become free.\<close>

definition locks_passed :: "nat \<Rightarrow> svclock_ref list \<Rightarrow> kstate \<Rightarrow> kstate \<Rightarrow> bool" where
  "locks_passed c ls s s' \<longleftrightarrow> svclocked (tcbs s' c) = [] \<and>
     (\<forall>l. svclock_held (ko s') l = (if l \<in> set ls \<and> heir s l = None then False else svclock_held (ko s) l)) \<and>
     (\<forall>l. ques s' (QSvcLock l) = (if l \<in> set ls then tl (ques s (QSvcLock l)) else ques s (QSvcLock l))) \<and>
     (\<forall>l\<in>set ls. \<forall>x. heir s l = Some x \<longrightarrow>
        svclocked (tcbs s' x) = l # svclocked (tcbs s x) \<and> \<not> klockwait (tcbs s' x) \<and> x \<in> set (rdy s')) \<and>
     (\<forall>u. u \<noteq> c \<and> (\<forall>l\<in>set ls. heir s l \<noteq> Some u) \<longrightarrow>
        svclocked (tcbs s' u) = svclocked (tcbs s u) \<and> klockwait (tcbs s' u) = klockwait (tcbs s u)) \<and>
     set (rdy s') = set (rdy s) \<union> {x. \<exists>l\<in>set ls. heir s l = Some x}"

lemma store_top_ok:
  assumes k: "kinv s"
  shows "\<exists>s'. store_top s = Some s' \<and> kinv s' \<and> sched_frame s s'"
proof -
  from ready_queue_top_ok [OF kinv_dest(2) [OF k]] obtain sch where
    r: "ready_queue_top s = Some (sch, s\<lparr>rq_chg := False\<rparr>)" and ok: "sched_ok s sch" by blast
  let ?s = "s\<lparr>rq_chg := False, schedtsk := copy_sched (num_proc s) sch (schedtsk s)\<rparr>"
  have q: "rdy ?s = rdy s" "rq_wf ?s = rq_wf s" by (rule rq_cong; simp)+
  have "x \<in> set (rdy s)" if "i < num_proc s" "sch ! i = Some x" for i x
    using ok that chosen_rdy [of s] unfolding sched_ok_def by blast
  then have "sched_in ?s" by (auto simp: sched_in_def copy_sched_def q)
  then have "sched_wf ?s" using kinv_dest(1) [OF k] q by (simp add: sched_wf_def rdy_excl_def)
  moreover have f: "sched_frame s ?s" by (simp add: sched_frame_def q)
  ultimately show ?thesis using kinv_frame [OF k f] r by (simp add: store_top_def)
qed

lemma lock_head [simp]: "\<not> ready_head (QSvcLock l)"
  by (simp add: ready_head_def)

lemma make_ready_again: "state (tcbs s x) = TS_READY \<Longrightarrow> make_ready x s = ready_queue_insert x s"
proof -
  assume "state (tcbs s x) = TS_READY"
  then have "(tcbs s x)\<lparr>state := TS_READY\<rparr> = tcbs s x" by (cases "tcbs s x") simp
  then have "upd_tcb x (\<lambda>c. c\<lparr>state := TS_READY\<rparr>) s = s" by (simp add: upd_tcb_def)
  then show ?thesis by (simp add: make_ready_def)
qed

lemma lock_waiter:
  assumes "kinv s" and "x \<in> set (ques s (QSvcLock l))"
  shows "state (tcbs s x) = TS_READY" "klockwait (tcbs s x)" "x \<notin> set (rdy s)" "x \<in> set (ques s q) \<Longrightarrow> q = QSvcLock l"
  using kinv_dest(6,7) [OF assms] kinv_rdy [OF assms(1), of x] by auto

text \<open>One lock.\<close>

lemma release_svc_ok:
  assumes k: "kinv s" and c: "\<not> klockwait (tcbs s c)" and l: "svclocked (tcbs s c) = l # ls"
  shows "kinv (release_svc c l s) \<and>
     svclock_held (ko (release_svc c l s)) = (svclock_held (ko s))(l := heir s l \<noteq> None \<and> svclock_held (ko s) l) \<and>
     (\<forall>q. \<not> ready_head q \<longrightarrow> ques (release_svc c l s) q = (if q = QSvcLock l then tl (ques s q) else ques s q)) \<and>
     (\<forall>u. svclocked (tcbs (release_svc c l s) u) =
        (if u = c then ls else if heir s l = Some u then l # svclocked (tcbs s u) else svclocked (tcbs s u))) \<and>
     (\<forall>u. klockwait (tcbs (release_svc c l s) u) = (heir s l \<noteq> Some u \<and> klockwait (tcbs s u))) \<and>
     set (rdy (release_svc c l s)) = set (rdy s) \<union> {x. heir s l = Some x}"
proof -
  let ?s1 = "upd_tcb c (\<lambda>c. c\<lparr>svclocked := tl (svclocked c)\<rparr>) s"
  have k1: "kinv ?s1" "rdy ?s1 = rdy s" by (rule kinv_tcb_upd; use k in simp)+
  show ?thesis
  proof (cases "ques s (QSvcLock l)")
    case Nil
    then have r: "release_svc c l s = upd_ko (\<lambda>k. k\<lparr>svclock_held := (svclock_held k)(l := False)\<rparr>) ?s1"
      by (simp add: release_svc_def)
    have "kinv (release_svc c l s)" "rdy (release_svc c l s) = rdy s" using k1 by (simp_all add: r upd_ko_def rdy_def)
    then show ?thesis using Nil l by (auto simp: r upd_ko_def heir_def)
  next
    case (Cons x xs)
    note w = lock_waiter [OF k, of x l] 
    have x: "x \<in> set (ques s (QSvcLock l))" "x \<noteq> c" using Cons w(2) c by auto
    let ?g = "\<lambda>c. c\<lparr>klockwait := False, svclocked := l # svclocked c\<rparr>"
    let ?s2 = "QueRemove_tsk x ?s1"
    have "set_que (QSvcLock l) xs ?s1 = ?s2"
    proof -
      have "((ques s)(QSvcLock l := xs)) q = remove1 x (ques s q)" for q
      proof (cases "q = QSvcLock l")
        case False
        then have "x \<notin> set (ques s q)" using w(4) [OF x(1)] by blast
        then show ?thesis using False by (simp add: remove1_idem)
      qed (use Cons in simp)
      then show ?thesis by (simp add: set_que_def QueRemove_tsk_def fun_eq_iff)
    qed
    then have r: "release_svc c l s = ready_queue_insert x (upd_tcb x ?g ?s2)" by (simp add: release_svc_def Cons)
    have k2: "kinv_but x ?s2" by (rule kinv_but_remove [OF k1(1)]) (use w(3) [OF x(1)] k1(2) in simp)
    have k3: "kinv_but x (upd_tcb x ?g ?s2)" "rdy (upd_tcb x ?g ?s2) = rdy ?s2"
      by (rule kinv_but_upd [OF k2]; use kinv_dest(4) [OF k] in simp)+
    have st: "state (tcbs (upd_tcb x ?g ?s2) x) = TS_READY" using w(1) [OF x(1)] x(2) by simp
    have m: "release_svc c l s = make_ready x (upd_tcb x ?g ?s2)"
      unfolding r by (rule make_ready_again [OF st, symmetric])
    have k4: "kinv (release_svc c l s)" unfolding m by (rule kinv_but_ready(1) [OF k3(1)]) simp
    have rd: "set (rdy (release_svc c l s)) = insert x (set (rdy s))"
    proof -
      have "rdy ?s2 = rdy s"
      proof -
        have "x \<notin> set (ques s (QReady p))" for p using w(4) [OF x(1), of "QReady p"] by auto
        then have "remove1 x (ques s (QReady p)) = ques s (QReady p)" for p by (simp add: remove1_idem)
        then show ?thesis by (simp add: rdy_def QueRemove_tsk_def)
      qed
      then show ?thesis unfolding m using kinv_but_ready(2) [OF k3(1)] by (simp add: k3(2) set_insert_before)
    qed
    have h: "heir s l = Some x" by (simp add: heir_def Cons)
    have qs: "ques (release_svc c l s) q = (if q = QSvcLock l then tl (ques s q) else ques s q)" if "\<not> ready_head q" for q
    proof -
      have "q \<noteq> QReady (pri s x)" using that kinv_dest(4) [OF k, of x] by (auto simp: ready_head_def)
      then show ?thesis using Cons x(2) by (simp add: release_svc_def ready_queue_insert_sel QueInsert_tail_def set_que_def)
    qed
    have "ko (release_svc c l s) = ko s" unfolding r by (simp add: ready_queue_insert_def Let_def QueInsert_tail_def set_que_def QueRemove_tsk_def)
    moreover have "svclocked (tcbs (release_svc c l s) u) =
        (if u = c then ls else if x = u then l # svclocked (tcbs s u) else svclocked (tcbs s u)) \<and>
        klockwait (tcbs (release_svc c l s) u) = (x \<noteq> u \<and> klockwait (tcbs s u))" for u
      using x(2) l unfolding r by (simp add: ready_queue_insert_sel QueRemove_tsk_def)
    ultimately show ?thesis using k4 rd h qs by auto
  qed
qed

text \<open>All locks, one after the other: the loop ends because no lock can come back to \<open>c\<close>.\<close>

lemma unlock_svcs_ok:
  "kinv s \<Longrightarrow> \<not> klockwait (tcbs s c) \<Longrightarrow> svclocked (tcbs s c) = ls \<Longrightarrow> distinct ls \<Longrightarrow>
   \<exists>s'. unlock_svcs c s = Some s' \<and> kinv s' \<and> locks_passed c ls s s'"
proof (induction ls arbitrary: s)
  case Nil
  then have "unlock_svcs c s = Some s" by (simp add: unlock_svcs.simps [of c s])
  moreover have "locks_passed c [] s s" using Nil by (simp add: locks_passed_def)
  ultimately show ?case using Nil.prems(1) by blast
next
  case (Cons l ls)
  define s1 where "s1 = release_svc c l s"
  have e: "unlock_svcs c s = unlock_svcs c s1" using Cons.prems(3) by (simp add: unlock_svcs.simps [of c s] s1_def)
  note r = release_svc_ok [OF Cons.prems(1,2,3), folded s1_def]
  have r1: "kinv s1" "svclock_held (ko s1) = (svclock_held (ko s))(l := heir s l \<noteq> None \<and> svclock_held (ko s) l)"
    "\<And>q. \<not> ready_head q \<Longrightarrow> ques s1 q = (if q = QSvcLock l then tl (ques s q) else ques s q)"
    "\<And>u. svclocked (tcbs s1 u) = (if u = c then ls else if heir s l = Some u then l # svclocked (tcbs s u) else svclocked (tcbs s u))"
    "\<And>u. klockwait (tcbs s1 u) = (heir s l \<noteq> Some u \<and> klockwait (tcbs s u))"
    "set (rdy s1) = set (rdy s) \<union> {x. heir s l = Some x}"
    using r by blast+
  have nl: "l \<notin> set ls" using Cons.prems(4) by simp
  have h: "heir s1 m = heir s m" if "m \<noteq> l" for m using that by (simp add: heir_def r1(3))
  have other: "heir s m \<noteq> Some x" if "heir s l = Some x" "m \<noteq> l" for m x
    using that kinv_dest(7) [OF Cons.prems(1), of x "QSvcLock l" "QSvcLock m"] by (auto simp: heir_def split: list.splits)
  obtain s' where s': "unlock_svcs c s1 = Some s'" "kinv s'" "locks_passed c ls s1 s'"
    using Cons.IH [OF r1(1)] r1(4,5) Cons.prems by auto
  have nc: "heir s m \<noteq> Some c" for m
    using lock_waiter(2) [OF Cons.prems(1), of c m] Cons.prems(2) by (auto simp: heir_def split: list.splits)
  note p = s'(3) [unfolded locks_passed_def]
  have "locks_passed c (l # ls) s s'"
    unfolding locks_passed_def
  proof (intro conjI allI ballI impI)
    show "svclocked (tcbs s' c) = []" using p by blast
    fix m
    show "svclock_held (ko s') m = (if m \<in> set (l # ls) \<and> heir s m = None then False else svclock_held (ko s) m)"
      using p nl h [of m] by (cases "m = l") (auto simp: r1(2))
    show "ques s' (QSvcLock m) = (if m \<in> set (l # ls) then tl (ques s (QSvcLock m)) else ques s (QSvcLock m))"
      using p nl by (cases "m = l") (auto simp: r1(3))
  next
    fix m x assume m: "m \<in> set (l # ls)" and x: "heir s m = Some x"
    show "svclocked (tcbs s' x) = m # svclocked (tcbs s x)" "\<not> klockwait (tcbs s' x)" "x \<in> set (rdy s')"
    proof -
      have "svclocked (tcbs s' x) = m # svclocked (tcbs s x) \<and> \<not> klockwait (tcbs s' x) \<and> x \<in> set (rdy s')"
      proof (cases "m = l")
        case True
        then have "\<forall>k\<in>set ls. heir s1 k \<noteq> Some x" using other x h nl by metis
        then have "svclocked (tcbs s' x) = svclocked (tcbs s1 x) \<and> klockwait (tcbs s' x) = klockwait (tcbs s1 x)"
          using p nc [of m] x by (cases "x = c") auto
        moreover have "x \<in> set (rdy s')" using p x True by (auto simp: r1(6))
        ultimately show ?thesis using True x nc [of m] by (auto simp: r1(4,5))
      next
        case False
        then have "m \<in> set ls" "heir s1 m = Some x" using m x h by auto
        then have "svclocked (tcbs s' x) = m # svclocked (tcbs s1 x) \<and> \<not> klockwait (tcbs s' x) \<and> x \<in> set (rdy s')" using p by blast
        moreover have "svclocked (tcbs s1 x) = svclocked (tcbs s x)" using other [of x m] x False nc [of m] by (auto simp: r1(4))
        ultimately show ?thesis by simp
      qed
      then show "svclocked (tcbs s' x) = m # svclocked (tcbs s x)" "\<not> klockwait (tcbs s' x)" "x \<in> set (rdy s')" by simp_all
    qed
  next
    fix u assume u: "u \<noteq> c \<and> (\<forall>m\<in>set (l # ls). heir s m \<noteq> Some u)"
    then have "u \<noteq> c \<and> (\<forall>m\<in>set ls. heir s1 m \<noteq> Some u)" using h nl by (metis list.set_intros(2))
    then have "svclocked (tcbs s' u) = svclocked (tcbs s1 u)" "klockwait (tcbs s' u) = klockwait (tcbs s1 u)" using p by blast+
    then show "svclocked (tcbs s' u) = svclocked (tcbs s u)" "klockwait (tcbs s' u) = klockwait (tcbs s u)" using u by (simp_all add: r1(4,5))
  next
    have "{x. \<exists>m\<in>set ls. heir s1 m = Some x} = {x. \<exists>m\<in>set ls. heir s m = Some x}" using h nl by metis
    then show "set (rdy s') = set (rdy s) \<union> {x. \<exists>m\<in>set (l # ls). heir s m = Some x}" using p by (auto simp: r1(6))
  qed
  then show ?case using e s'(1,2) by auto
qed

lemma sched_frame_svc: "sched_frame s s' \<Longrightarrow> svclocked (tcbs s' u) = svclocked (tcbs s u)"
proof -
  assume "sched_frame s s'"
  then have "(tcbs s' u)\<lparr>slicecnt := 0\<rparr> = (tcbs s u)\<lparr>slicecnt := 0\<rparr>" by (simp add: sched_frame_def)
  then have "svclocked ((tcbs s' u)\<lparr>slicecnt := 0\<rparr>) = svclocked ((tcbs s u)\<lparr>slicecnt := 0\<rparr>)" by simp
  then show ?thesis by simp
qed

lemma locks_passed_frame: "locks_passed c ls s s1 \<Longrightarrow> sched_frame s1 s' \<Longrightarrow> locks_passed c ls s s'"
  unfolding locks_passed_def
  by (simp only: sched_frame_svc sched_frame_tcb(3) sched_frame_rdy sched_frame_sel(15) sched_frame_ques [OF _ lock_head]) blast

lemma all_unlock_ok:
  assumes k: "kinv s" and c: "ctxtsk s prid = Some c" "\<not> klockwait (tcbs s c)" "distinct (svclocked (tcbs s c))"
  shows "\<exists>s'. AllUnlockSVC prid t s = Some s' \<and> kinv s' \<and> locks_passed c (svclocked (tcbs s c)) s s'"
proof -
  from unlock_svcs_ok [OF k c(2) refl c(3)] obtain s1 where s1: "unlock_svcs c s = Some s1" "kinv s1" "locks_passed c (svclocked (tcbs s c)) s s1" by blast
  from store_top_ok [OF s1(2)] obtain s2 where s2: "store_top s1 = Some s2" "kinv s2" "sched_frame s1 s2" by blast
  from update_schedtsk_kinv [OF s2(2)] obtain s3 where s3: "update_schedtsk s2 = Some s3" "kinv s3" "sched_frame s2 s3" by blast
  have "AllUnlockSVC prid t s = Some s3" by (simp add: AllUnlockSVC_def c(1) s1(1) s2(1) s3(1))
  then show ?thesis using s3(2) locks_passed_frame [OF s1(3) sched_frame_trans [OF s2(3) s3(3)]] by blast
qed

text \<open>A task that has no part in this keeps its locks, and they stay held.\<close>

lemma locks_kept:
  assumes p: "locks_passed c ls s s'" and t: "t \<noteq> c" "l \<in> set (svclocked (tcbs s t))" and h: "svclock_held (ko s) l" "l \<notin> set ls"
  shows "l \<in> set (svclocked (tcbs s' t)) \<and> svclock_held (ko s') l"
proof (cases "\<exists>m\<in>set ls. heir s m = Some t")
  case True
  then show ?thesis using p t h unfolding locks_passed_def by fastforce
next
  case False
  then show ?thesis using p t h unfolding locks_passed_def by auto
qed

end
