(* ===== verification/Task_Properties.thy ===== *)
theory Task_Properties
  imports Object_Properties Klock_Inv
begin

text \<open>
  The main statements about calls on tasks, identifiers and error codes.
\<close>

section \<open>The locks of extended SVCs\<close>

text \<open>
  C35. \<open>AllUnlockSVC\<close> always returns, and gives up all SVC locks of the task that calls it: each one goes to the task that has waited longest
  for it, which is ready then, and is free if no task waits; all other tasks and locks keep what they have. The argument plays no part: a task other
  than the calling one that it is called for keeps its locks, and they stay held, although the comment says that the locks of the argument are given up.
\<close>

theorem all_unlock_svc:
  assumes "kinv s" and "ctxtsk s prid = Some c" and "\<not> klockwait (tcbs s c)" and "distinct (svclocked (tcbs s c))"
  shows "\<exists>s'. AllUnlockSVC prid t s = Some s' \<and> kinv s' \<and> locks_passed c (svclocked (tcbs s c)) s s' \<and>
     (\<forall>l\<in>set (svclocked (tcbs s t)). t \<noteq> c \<and> svclock_held (ko s) l \<and> l \<notin> set (svclocked (tcbs s c)) \<longrightarrow>
        l \<in> set (svclocked (tcbs s' t)) \<and> svclock_held (ko s') l)"
  using all_unlock_ok [OF assms, of t] locks_kept by blast

declare unlock_svcs.simps [code]

text \<open>Tasks 0 and 1 hold their own locks, task 2 waits for that of task 0.\<close>

definition locked_state :: kstate where
  "locked_state = upd_ko (\<lambda>k. k\<lparr>svclock_held := (\<lambda>l. l \<in> {SvcTsk 0, SvcTsk 1})\<rparr>)
     (upd_tcb 0 (\<lambda>c. c\<lparr>svclocked := [SvcTsk 0]\<rparr>) (upd_tcb 1 (\<lambda>c. c\<lparr>svclocked := [SvcTsk 1]\<rparr>)
       (set_que (QSvcLock (SvcTsk 0)) [2]
         (upd_tcb 2 (\<lambda>c. c\<lparr>state := TS_READY, klockwait := True\<rparr>) (QueRemove_tsk 2 running_state)))))"

lemma locked_kinv: "kinv locked_state"
proof -
  let ?u = "upd_tcb 2 (\<lambda>c. c\<lparr>state := TS_READY, klockwait := True\<rparr>) (QueRemove_tsk 2 running_state)"
  have "kinv_but 2 (QueRemove_tsk 2 running_state)" by (rule kinv_but_remove [OF running_kinv]) (simp add: running_rdy)
  then have u: "kinv_but 2 ?u" by (rule kinv_but_upd) (use kinv_dest(4) [OF running_kinv, of 2] in \<open>simp add: QueRemove_tsk_def\<close>)
  have "ques running_state (QSvcLock (SvcTsk 0)) = []" by code_simp
  then have "kinv (set_que (QSvcLock (SvcTsk 0)) [2] ?u)"
    by (intro kinv_but_enqueue(1) [OF u]) (simp_all add: QueRemove_tsk_def)
  then have "kinv (upd_tcb 0 (\<lambda>c. c\<lparr>svclocked := [SvcTsk 0]\<rparr>) (upd_tcb 1 (\<lambda>c. c\<lparr>svclocked := [SvcTsk 1]\<rparr>) (set_que (QSvcLock (SvcTsk 0)) [2] ?u)))"
    by (intro kinv_tcb_upd(1)) simp_all
  then show ?thesis by (simp add: locked_state_def upd_ko_def)
qed

theorem all_unlock_svc_witness:
  "\<exists>s'. AllUnlockSVC 0 1 locked_state = Some s' \<and> svclocked (tcbs s' 0) = [] \<and> svclocked (tcbs s' 2) = [SvcTsk 0] \<and> 2 \<in> set (rdy s') \<and>
     SvcTsk 1 \<in> set (svclocked (tcbs s' 1)) \<and> svclock_held (ko s') (SvcTsk 1)"
proof -
  have f: "ctxtsk locked_state 0 = Some 0" "\<not> klockwait (tcbs locked_state 0)" "svclocked (tcbs locked_state 0) = [SvcTsk 0]"
    "svclocked (tcbs locked_state 1) = [SvcTsk 1]" "svclocked (tcbs locked_state 2) = []" "svclock_held (ko locked_state) (SvcTsk 1)"
    "heir locked_state (SvcTsk 0) = Some 2"
    by code_simp+
  from all_unlock_svc [OF locked_kinv f(1,2), of 1] obtain s' where s': "AllUnlockSVC 0 1 locked_state = Some s'"
    "locks_passed 0 [SvcTsk 0] locked_state s'" "SvcTsk 1 \<in> set (svclocked (tcbs s' 1)) \<and> svclock_held (ko s') (SvcTsk 1)"
    by (auto simp: f [simplified])
  then show ?thesis using f(5,7) by (auto simp: locks_passed_def)
qed

text \<open>
  So when task 0 terminates task 1 while both hold their own locks, task 0 loses its lock without having given it up, and the lock of the dormant task 1 is never
  free again: whoever asks for it has to wait.
\<close>

definition svc_state :: kstate where
  "svc_state = snd (the (LockSVC 1 (SvcTsk 1) (snd (the (LockSVC 0 (SvcTsk 0) running_state)))))"

theorem terminate_unlocks_caller:
  "\<exists>s'. tk_ter_tsk 0 (ID_OBJ 1) svc_state = Some (E_OK, s') \<and> svclocked (tcbs svc_state 0) = [SvcTsk 0] \<and> svclocked (tcbs s' 0) = [] \<and>
     \<not> svclock_held (ko s') (SvcTsk 0) \<and> state (tcbs s' 1) = TS_DORMANT \<and> svclocked (tcbs s' 1) = [SvcTsk 1] \<and>
     map_option fst (LockSVC 0 (SvcTsk 1) s') = Some False"
proof -
  have r: "map_option (\<lambda>(e, s). (e, svclocked (tcbs s 0), svclocked (tcbs s 1), svclock_held (ko s) (SvcTsk 0), state (tcbs s 1),
      map_option fst (LockSVC 0 (SvcTsk 1) s))) (tk_ter_tsk 0 (ID_OBJ 1) svc_state) = Some (E_OK, [], [SvcTsk 1], False, TS_DORMANT, Some False)"
    by code_simp
  moreover have "svclocked (tcbs svc_state 0) = [SvcTsk 0]" by code_simp
  ultimately show ?thesis by auto
qed

section \<open>Errors of the calls on semaphores\<close>

text \<open>
  C31. Every error of \<open>tk_sig_sem\<close> has its one reason, in the order of the checks, and leaves everything as it was but for the
  decisions of the scheduler: the count and the waiting tasks are untouched.
\<close>

theorem sig_sem_errors:
  assumes "kinv s" and "tk_sig_sem prid sid cnt s = Some (e, s')" and "e \<noteq> E_OK" and "i = INDEX_OBJ sid"
  shows "sched_frame s s' \<and>
     (if guards [CHECK_SEMID s sid, CHECK_PAR (cnt > 0)] \<noteq> None then s' = s \<and> guards [CHECK_SEMID s sid, CHECK_PAR (cnt > 0)] = Some e
      else if semid (semcb s i) = 0 then e = E_NOEXS
      else if mp_check_domain_and_protection prid s sid (semid (semcb s i)) (sematr (semcb s i)) \<noteq> Some E_OK then
        mp_check_domain_and_protection prid s sid (semid (semcb s i)) (sematr (semcb s i)) = Some e
      else e = E_QOVR \<and> cnt > maxsem (semcb s i) - semcnt (semcb s i))"
proof -
  have en: "end_critical x s = Some (e, s') \<Longrightarrow> e = x \<and> sched_frame s s'" for x using end_critical_result [of x s e s'] assms(1) by auto
  note r = assms(2) [unfolded tk_sig_sem_def, folded assms(4), unfolded Let_def]
  show ?thesis
  proof (cases "guards [CHECK_SEMID s sid, CHECK_PAR (cnt > 0)]")
    case (Some x)
    then show ?thesis using r sched_frame_refl by auto
  next
    case g: None
    show ?thesis
    proof (cases "semid (semcb s i) = 0")
      case True
      then show ?thesis using r g en by auto
    next
      case l: False
      obtain x where x: "mp_check_domain_and_protection prid s sid (semid (semcb s i)) (sematr (semcb s i)) = Some x"
        using r g l by (auto split: Option.bind_splits)
      have q: "x = E_OK \<Longrightarrow> cnt > maxsem (semcb s i) - semcnt (semcb s i)"
      proof (rule ccontr)
        assume xo: "x = E_OK" and n: "\<not> cnt > maxsem (semcb s i) - semcnt (semcb s i)"
        then have "end_critical E_OK (sig_scan i (ques (upd_sem i (\<lambda>c. c\<lparr>semcnt := semcnt c + cnt\<rparr>) s) (QSem i))
            (upd_sem i (\<lambda>c. c\<lparr>semcnt := semcnt c + cnt\<rparr>) s)) = Some (e, s')"
          using r g l x by simp
        then show False using assms(3) by (auto simp: end_critical_def)
      qed
      show ?thesis
      proof (cases "x = E_OK")
        case True
        then have "end_critical E_QOVR s = Some (e, s')" using r g l x q by simp
        then show ?thesis using en g l x True q by auto
      next
        case False
        then have "end_critical x s = Some (e, s')" using r g l x by simp
        then show ?thesis using en g l x False by auto
      qed
    qed
  qed
qed

theorem sig_sem_errors_witness:
  "\<exists>s'. tk_sig_sem 0 (ID_OBJ 0) 7 sem_state = Some (E_QOVR, s') \<and> sched_frame sem_state s' \<and> 7 > maxsem (semcb sem_state 0) - semcnt (semcb sem_state 0)"
proof -
  have r: "map_option fst (tk_sig_sem 0 (ID_OBJ 0) 7 sem_state) = Some E_QOVR" "guards [CHECK_SEMID sem_state (ID_OBJ 0), CHECK_PAR ((7 :: int) > 0)] = None"
    "semid (semcb sem_state 0) \<noteq> 0" "0 = INDEX_OBJ (ID_OBJ 0)" "E_QOVR \<noteq> E_OK"
    "mp_check_domain_and_protection 0 sem_state (ID_OBJ 0) (semid (semcb sem_state 0)) (sematr (semcb sem_state 0)) = Some E_OK"
    by code_simp+
  then obtain s' where s': "tk_sig_sem 0 (ID_OBJ 0) 7 sem_state = Some (E_QOVR, s')" by auto
  from sig_sem_errors [OF sem_state_ok(1) s' r(5,4)] r s' show ?thesis by auto
qed

section \<open>Identifiers\<close>

text \<open>
  C32. \<open>tk_cre_sem\<close> either changes nothing, or the identifier it returns has the number of the control block as its
  object part and is what the block itself stores; the block is the first of the free queue, is taken out of it,
  and has the attributes and a count between 0 and its maximum.
\<close>

theorem created_identifier:
  assumes "tk_cre_sem prid pk s = Some (e, s')" and "sems_ok s" and "i = INDEX_OBJ (word_of_int e)"
  shows "s' = s \<or> freeq (semtab s) = i # freeq (semtab s') \<and> semid (semcb s' i) = word_of_int e \<and> i < maxid (semtab s) \<and>
     sematr (semcb s' i) = csem_sematr pk \<and> 0 \<le> semcnt (semcb s' i) \<and> semcnt (semcb s' i) \<le> maxsem (semcb s' i)"
  using assms(1)
proof (cases rule: tk_cre_sem_cases)
  case (2 j q did oname s1)
  have j: "j < maxid (semtab s)" "maxid (semtab s) < 65535" using assms(2) 2(1) by (auto simp: sems_ok_def)
  then have i: "i = j" using 2(6) INDEX_gen_id [of j did] by (simp add: assms(3))
  have "semcb s' j = semcb s1 j" "semtab s' = semtab s1" by (simp_all add: 2(5))
  moreover have "freeq (semtab s1) = q" by (simp add: 2(4) upd_sem_def set_que_def set_free_sem_def)
  moreover have "semcb s1 j = (semcb s j)\<lparr>semid := MP_GEN_DOMIDPART did OR ID_OBJ j, sem_exinf := csem_exinf pk, sematr := csem_sematr pk,
      semcnt := csem_isemcnt pk, maxsem := csem_maxsem pk, sem_oname := name_copy oname\<rparr>"
    by (simp add: 2(4) upd_sem_def set_que_def set_free_sem_def semcb_def)
  ultimately show ?thesis using 2 i j by simp
qed simp

theorem created_identifier_witness:
  "freeq (semtab running_state) = 0 # freeq (semtab sem_state) \<and> semid (semcb sem_state 0) = ID_OBJ 0"
proof -
  have e: "tk_cre_sem 0 sem_packet running_state = Some (sint (ID_OBJ 0), sem_state)" using sem_created by (auto simp: sem_state_def)
  have i: "0 = INDEX_OBJ (word_of_int (sint (ID_OBJ 0)))" by code_simp
  have "semid (semcb sem_state 0) \<noteq> 0 \<and> semid (semcb running_state 0) = 0" by code_simp
  then have "sem_state \<noteq> running_state" by auto
  with created_identifier [OF e running_sems_ok i] show ?thesis by simp
qed

section \<open>Suspending and waking up\<close>

text \<open>A task is suspended as long as its requests are not all taken back.\<close>

definition suscnt_ok :: "tcb \<Rightarrow> bool" where
  "suscnt_ok c \<longleftrightarrow> 0 \<le> suscnt c \<and> (state c \<in> {TS_SUSPEND, TS_WAITSUS} \<longleftrightarrow> suscnt c > 0)"

lemma guards_not_OK: "guards (CHECK_TSKID prid s tid @ [CHECK_NONSELF prid s tid]) \<noteq> Some E_OK"
  by (simp add: CHECK_TSKID_def CHECK_NONSELF_def CHECK_OBJID_def E_ID_val E_OBJ_val E_OK_def)

lemma tsk_call_open:
  assumes "kinv s" and "tsk_call pchk True gs prid tid body s = Some (E_OK, s')" and "get_tcb_self prid s tid = Some t" and "guards gs \<noteq> Some E_OK"
  shows "state (tcbs s t) \<noteq> TS_NONEXIST \<and> body t s = Some (E_OK, s')"
proof -
  have en: "end_critical x s \<noteq> Some (E_OK, s')" if "x \<noteq> E_OK" for x using end_critical_result [OF _ assms(1), of x E_OK s'] that by auto
  have n: "E_NOEXS \<noteq> E_OK" by (simp add: E_NOEXS_val E_OK_def)
  show ?thesis
    using assms(2-4) en [OF n] en
    by (cases "guards gs"; cases "state (tcbs s t) = TS_NONEXIST")
      (auto simp: tsk_call_def leave_critical_def split: Option.bind_splits if_splits)
qed

lemma end_OK: "end_critical x s = Some (E_OK, s') \<Longrightarrow> kinv s \<Longrightarrow> x = E_OK \<and> sched_frame s s' \<and> kinv s'"
  using end_critical_result [of x s E_OK s'] by auto

lemma make_non_ready_counts:
  assumes "kinv s" and "state (tcbs s t) = TS_READY" and "make_non_ready t s = Some u"
  shows "suscnt (tcbs u t) = suscnt (tcbs s t)"
proof (cases "klockwait (tcbs s t)")
  case True
  then show ?thesis using klock_leave(3) [OF assms(1) True] assms(3) by simp
next
  case False
  then have "t \<in> set (rdy s)" using kinv_rdy [OF assms(1)] assms(2) by simp
  from kinv_but_non_ready [OF assms(1) this] assms(3) show ?thesis by auto
qed

lemma suspend_effect:
  assumes k: "kinv s" and t: "get_tcb_self prid s tid = Some t" and ok: "suscnt_ok (tcbs s t)" and r: "tk_sus_tsk prid tid s = Some (E_OK, s')"
  shows "kinv s' \<and> suscnt (tcbs s' t) = suscnt (tcbs s t) + 1 \<and>
    state (tcbs s' t) = (if state (tcbs s t) = TS_READY then TS_SUSPEND else if state (tcbs s t) = TS_WAIT then TS_WAITSUS else state (tcbs s t)) \<and>
    state (tcbs s t) \<in> {TS_READY, TS_WAIT, TS_SUSPEND, TS_WAITSUS}"
proof -
  let ?u = "upd_tcb t (\<lambda>c. c\<lparr>suscnt := suscnt c + 1\<rparr>) s"
  have ku: "kinv ?u" by (rule kinv_tcb_upd [OF k]) simp_all
  have n: "E_OBJ \<noteq> E_OK" "E_CTX \<noteq> E_OK" "E_QOVR \<noteq> E_OK" by (simp_all add: E_OBJ_val E_CTX_val E_QOVR_val E_OK_def)
  from tsk_call_open [OF k r [unfolded tk_sus_tsk_def] t guards_not_OK] have ne: "state (tcbs s t) \<noteq> TS_NONEXIST"
    and b: "(if state (tcbs s t) = TS_DORMANT then end_critical E_OBJ s
             else if is_ctxtsk s t \<and> dispatch_disabled s (get_prid_from_ctx s t) \<ge> DDS_DISABLE then end_critical E_CTX s
             else if suscnt (tcbs s t) = INT_MAX then end_critical E_QOVR s
             else if state (tcbs ?u t) = TS_READY then
                     do { s \<leftarrow> make_non_ready t ?u; end_critical E_OK (upd_tcb t (\<lambda>c. c\<lparr>state := TS_SUSPEND\<rparr>) s) }
                   else if state (tcbs ?u t) = TS_WAIT then end_critical E_OK (upd_tcb t (\<lambda>c. c\<lparr>state := TS_WAITSUS\<rparr>) ?u)
                   else end_critical E_OK ?u) = Some (E_OK, s')"
    by (auto simp: Let_def)
  have q: "quiet s s'" by (rule tk_sus_tsk_quiet [OF k r])
  consider v where "state (tcbs s t) = TS_READY" "make_non_ready t ?u = Some v" "end_critical E_OK (upd_tcb t (\<lambda>c. c\<lparr>state := TS_SUSPEND\<rparr>) v) = Some (E_OK, s')"
    | "state (tcbs s t) = TS_WAIT" "end_critical E_OK (upd_tcb t (\<lambda>c. c\<lparr>state := TS_WAITSUS\<rparr>) ?u) = Some (E_OK, s')"
    | "state (tcbs s t) \<in> {TS_SUSPEND, TS_WAITSUS}" "end_critical E_OK ?u = Some (E_OK, s')"
    using b ne n end_OK [OF _ k] by (cases "state (tcbs s t)") (auto split: Option.bind_splits if_splits)
  then show ?thesis
  proof cases
    case (1 v)
    have c: "suscnt (tcbs v t) = suscnt (tcbs s t) + 1" using make_non_ready_counts [OF ku _ 1(2)] 1(1) by simp
    obtain w where w: "make_non_ready t ?u = Some w" "quiet ?u (upd_tcb t (\<lambda>c. c\<lparr>state := TS_SUSPEND\<rparr>) w)"
      using suspend_ready [OF ku, of t] 1(1) by auto
    have kv: "kinv (upd_tcb t (\<lambda>c. c\<lparr>state := TS_SUSPEND\<rparr>) v)" using quiet_kinv [OF w(2)] w(1) 1(2) by simp
    have f: "sched_frame (upd_tcb t (\<lambda>c. c\<lparr>state := TS_SUSPEND\<rparr>) v) s'" using end_OK [OF 1(3) kv] by simp
    show ?thesis using quiet_kinv [OF q] sched_frame_tcb(2,14) [OF f, of t] c 1(1) by simp
  next
    case 2
    have kw: "kinv (upd_tcb t (\<lambda>c. c\<lparr>state := TS_WAITSUS\<rparr>) ?u)"
      by (rule quiet_kinv, rule quiet_waitsus [OF ku]) (use 2(1) in \<open>simp_all add: wview_def\<close>)
    have f: "sched_frame (upd_tcb t (\<lambda>c. c\<lparr>state := TS_WAITSUS\<rparr>) ?u) s'" using end_OK [OF 2(2) kw] by simp
    show ?thesis using quiet_kinv [OF q] sched_frame_tcb(2,14) [OF f, of t] 2(1) by simp
  next
    case 3
    have f: "sched_frame ?u s'" using end_OK [OF 3(2) ku] by simp
    show ?thesis using quiet_kinv [OF q] sched_frame_tcb(2,14) [OF f, of t] 3(1) by auto
  qed
qed

lemma resume_effect:
  assumes k: "kinv s" and t: "get_tcb_self prid s tid = Some t" and r: "tk_rsm_tsk prid tid s = Some (E_OK, s')"
  shows "suscnt (tcbs s' t) = suscnt (tcbs s t) - 1 \<and> state (tcbs s t) \<in> {TS_SUSPEND, TS_WAITSUS} \<and>
    state (tcbs s' t) = (if suscnt (tcbs s t) = 1 then if state (tcbs s t) = TS_SUSPEND then TS_READY else TS_WAIT else state (tcbs s t))"
proof -
  let ?u = "upd_tcb t (\<lambda>c. c\<lparr>suscnt := suscnt c - 1\<rparr>) s"
  have ku: "kinv ?u" by (rule kinv_tcb_upd [OF k]) simp_all
  have n: "E_OBJ \<noteq> E_OK" "E_SYS \<noteq> E_OK" by (simp_all add: E_OBJ_val E_SYS_val E_OK_def)
  from tsk_call_open [OF k r [unfolded tk_rsm_tsk_def] t guards_not_OK] have
    b: "(case state (tcbs s t) of
         TS_SUSPEND \<Rightarrow> end_critical E_OK (if suscnt (tcbs ?u t) = 0 then make_ready t ?u else ?u)
       | TS_WAITSUS \<Rightarrow> end_critical E_OK (if suscnt (tcbs ?u t) = 0 then upd_tcb t (\<lambda>c. c\<lparr>state := TS_WAIT\<rparr>) ?u else ?u)
       | TS_NONEXIST \<Rightarrow> end_critical E_SYS s
       | _ \<Rightarrow> end_critical E_OBJ s) = Some (E_OK, s')"
    unfolding Let_def by (rule conjunct2)
  consider "state (tcbs s t) = TS_SUSPEND" "end_critical E_OK (if suscnt (tcbs ?u t) = 0 then make_ready t ?u else ?u) = Some (E_OK, s')"
    | "state (tcbs s t) = TS_WAITSUS" "end_critical E_OK (if suscnt (tcbs ?u t) = 0 then upd_tcb t (\<lambda>c. c\<lparr>state := TS_WAIT\<rparr>) ?u else ?u) = Some (E_OK, s')"
    using b n end_OK [OF _ k] by (cases "state (tcbs s t)") auto
  then show ?thesis
  proof cases
    case 1
    have "kinv (make_ready t ?u)"
      by (rule quiet_kinv, rule quiet_resume [OF k 1(1)]) (simp_all add: wview_def)
    then have kv: "kinv (if suscnt (tcbs ?u t) = 0 then make_ready t ?u else ?u)" using ku by simp
    have f: "sched_frame (if suscnt (tcbs ?u t) = 0 then make_ready t ?u else ?u) s'" using end_OK [OF 1(2) kv] by simp
    show ?thesis using sched_frame_tcb(2,14) [OF f, of t] 1(1) by (auto split: if_splits)
  next
    case 2
    have "kinv (upd_tcb t (\<lambda>c. c\<lparr>state := TS_WAIT\<rparr>) ?u)"
      by (rule quiet_kinv, rule quiet_waitsus [OF ku]) (use 2(1) in \<open>simp_all add: wview_def\<close>)
    then have kv: "kinv (if suscnt (tcbs ?u t) = 0 then upd_tcb t (\<lambda>c. c\<lparr>state := TS_WAIT\<rparr>) ?u else ?u)" using ku by simp
    have f: "sched_frame (if suscnt (tcbs ?u t) = 0 then upd_tcb t (\<lambda>c. c\<lparr>state := TS_WAIT\<rparr>) ?u else ?u) s'" using end_OK [OF 2(2) kv] by simp
    show ?thesis using sched_frame_tcb(2,14) [OF f, of t] 2(1) by (auto split: if_splits)
  qed
qed

text \<open>
  C17. A successful \<open>tk_rsm_tsk\<close> undoes a successful \<open>tk_sus_tsk\<close>: afterwards the task has the state and the number of suspensions it
  had before, whether it was ready, waiting or suspended already, and in between it does not run.
\<close>

theorem suspend_resume:
  assumes "kinv s" and "get_tcb_self prid s tid = Some t" and "get_tcb_self prid' s1 tid' = Some t" and "suscnt_ok (tcbs s t)"
    and "tk_sus_tsk prid tid s = Some (E_OK, s1)" and "tk_rsm_tsk prid' tid' s1 = Some (E_OK, s2)"
  shows "t \<notin> set (rdy s1) \<and> state (tcbs s2 t) = state (tcbs s t) \<and> suscnt (tcbs s2 t) = suscnt (tcbs s t) \<and> suscnt_ok (tcbs s2 t)"
proof -
  note a = suspend_effect [OF assms(1,2,4,5)]
  then have k: "kinv s1" by simp
  note b = resume_effect [OF k assms(3,6)]
  have "t \<notin> set (rdy s1)" using a kinv_rdy [OF k] assms(4) by (auto simp: suscnt_ok_def split: if_splits)
  then show ?thesis using a b assms(4) by (auto simp: suscnt_ok_def split: if_splits)
qed

definition suspended :: kstate where
  "suspended = snd (the (tk_sus_tsk 0 (ID_OBJ 1) running_state))"

theorem suspend_resume_witness:
  "\<exists>s2. tk_rsm_tsk 0 (ID_OBJ 1) suspended = Some (E_OK, s2) \<and> 1 \<notin> set (rdy suspended) \<and> state (tcbs s2 1) = TS_READY"
proof -
  have r: "map_option fst (tk_sus_tsk 0 (ID_OBJ 1) running_state) = Some E_OK" "map_option fst (tk_rsm_tsk 0 (ID_OBJ 1) suspended) = Some E_OK"
    "get_tcb_self 0 running_state (ID_OBJ 1) = Some 1" "get_tcb_self 0 suspended (ID_OBJ 1) = Some 1" "suscnt_ok (tcbs running_state 1)"
    by code_simp+
  obtain s2 where s: "tk_sus_tsk 0 (ID_OBJ 1) running_state = Some (E_OK, suspended)" "tk_rsm_tsk 0 (ID_OBJ 1) suspended = Some (E_OK, s2)"
    using r(1,2) by (auto simp: suspended_def)
  from suspend_resume [OF running_kinv r(3-5) s] running_tcb(1) [of 1] s(2) show ?thesis by auto
qed

section \<open>Wake-ups that come early\<close>

text \<open>
  C18. A wake-up that \<open>tk_wup_tsk\<close> accepts for a task that does not sleep is not lost: it is counted, and the next
  \<open>tk_slp_tsk\<close> of the task returns \<open>E_OK\<close> at once instead of waiting and takes the count back.
\<close>

theorem early_wakeup_kept:
  assumes "kinv s" and "get_tcb_self prid s tid = Some t" and "\<not> (is_wait (state (tcbs s t)) \<and> wspec (tcbs s t) = Wspec_slp)"
    and "0 \<le> wupcnt (tcbs s t)" and "tk_wup_tsk prid tid s = Some (E_OK, s1)" and "ctxtsk s1 prid' = Some t"
    and "guards [CHECK_TMOUT tmout, CHECK_DISPATCH prid' s1] = None" and "waitmask (tcbs s1 t) AND TTW_SLP = 0"
  shows "\<exists>s2. tk_slp_tsk prid' tmout s1 = Some (E_OK, s2) \<and> wupcnt (tcbs s2 t) = wupcnt (tcbs s t) \<and> state (tcbs s2 t) = state (tcbs s t) \<and> kinv s2"
proof -
  let ?u = "upd_tcb t (\<lambda>c. c\<lparr>wupcnt := wupcnt c + 1\<rparr>) s" and ?v = "upd_tcb t (\<lambda>c. c\<lparr>wupcnt := wupcnt c - 1\<rparr>) s1"
  have ku: "kinv ?u" by (rule kinv_tcb_upd [OF assms(1)]) simp_all
  have n: "E_OBJ \<noteq> E_OK" "E_QOVR \<noteq> E_OK" by (simp_all add: E_OBJ_val E_QOVR_val E_OK_def)
  from tsk_call_open [OF assms(1) assms(5) [unfolded tk_wup_tsk_def] assms(2) guards_not_OK] assms(3) n end_OK [OF _ assms(1)]
  have "end_critical E_OK ?u = Some (E_OK, s1)" by (auto split: if_splits)
  from end_OK [OF this ku] have f: "sched_frame ?u s1" and k1: "kinv s1" by simp_all
  have kv: "kinv ?v" by (rule kinv_tcb_upd [OF k1]) simp_all
  obtain s2 where s2: "end_critical E_OK ?v = Some (E_OK, s2)" "sched_frame ?v s2" by (rule critical_end [OF kv])
  have w: "wupcnt (tcbs s1 t) = wupcnt (tcbs s t) + 1" "state (tcbs s1 t) = state (tcbs s t)" using sched_frame_tcb(2,13) [OF f, of t] by simp_all
  have "tk_slp_tsk prid' tmout s1 = Some (E_OK, s2)" using assms(4,6-8) s2(1) w(1) by (simp add: tk_slp_tsk_def)
  moreover have "wupcnt (tcbs s2 t) = wupcnt (tcbs s t)" "state (tcbs s2 t) = state (tcbs s t)" using sched_frame_tcb(2,13) [OF s2(2), of t] w by simp_all
  moreover have "kinv s2" using end_OK [OF s2(1) kv] by simp
  ultimately show ?thesis by blast
qed

definition woken :: kstate where
  "woken = snd (the (tk_wup_tsk 0 (ID_OBJ 1) running_state))"

theorem early_wakeup_kept_witness:
  "\<exists>s2. tk_slp_tsk 1 TMO_FEVR woken = Some (E_OK, s2) \<and> state (tcbs s2 1) = TS_READY"
proof -
  have r: "map_option fst (tk_wup_tsk 0 (ID_OBJ 1) running_state) = Some E_OK" "get_tcb_self 0 running_state (ID_OBJ 1) = Some 1"
    "\<not> (is_wait (state (tcbs running_state 1)) \<and> wspec (tcbs running_state 1) = Wspec_slp)" "0 \<le> wupcnt (tcbs running_state 1)"
    "ctxtsk woken 1 = Some 1" "guards [CHECK_TMOUT TMO_FEVR, CHECK_DISPATCH 1 woken] = None" "waitmask (tcbs woken 1) AND TTW_SLP = 0"
    by code_simp+
  then have s: "tk_wup_tsk 0 (ID_OBJ 1) running_state = Some (E_OK, woken)" by (auto simp: woken_def)
  from early_wakeup_kept [OF running_kinv r(2-4) s r(5-7)] running_tcb(1) [of 1] show ?thesis by auto
qed

text \<open>
  \<open>_tk_can_wup\<close> checks access with the variant that does not know \<open>TSK_SELF\<close>: a task of any domain but the kernel's cannot cancel
  its own wake-up requests that way.
\<close>

theorem can_wup_self_fails:
  assumes "\<not> in_indp prid s" and "ctxtsk s prid = Some t" and "state (tcbs s t) \<noteq> TS_NONEXIST" and "tskid (tcbs s t) AND DOMID_MASK \<noteq> 0"
  shows "tk_can_wup prid TSK_SELF s = end_critical E_NOEXS s"
proof -
  have "mp_check_domain_and_protection prid s TSK_SELF (tskid (tcbs s t)) (tskatr (tcbs s t)) = Some E_NOEXS"
    using assms(4) by (simp add: mp_check_domain_and_protection_def MP_CMP_DOMIDPART_def TSK_SELF_def)
  then show ?thesis
    using assms(1-3) by (simp add: tk_can_wup_def tsk_call_def CHECK_TSKID_SELF_def get_tcb_self_def leave_critical_def er_defs)
qed

end
