(* ===== verification/Subsystem.thy ===== *)
theory Subsystem
  imports Task_Manage Bitop Message_Base
begin

text \<open>
  Subsystems, task exceptions and resource groups, \<^verbatim>\<open>subsystem.c\<close>, with the start of a task exception handler in
  \<^verbatim>\<open>cpu_init.c\<close>. The functions of a subsystem are user code: \<open>uh fn args prid s\<close> is the effect of the call of the function at
  address \<open>fn\<close>, of everything that happens until it returns, with its result and the processor on which the calling task
  runs then. A task that waits for the lock of extended SVCs sees the effect \<open>env\<close> of the others until it runs again.
\<close>

section \<open>State\<close>

text \<open>
  A handler \<open>None\<close> is \<open>no_support\<close>, the mark of an unused control block; an address 0 is \<open>NULL\<close>, and links are indices of control
  blocks.
\<close>

record SSYCB =
  ssy_link :: "nat option"
  ssyatr :: ATR
  ssypri :: int
  svchdr :: "UW option"
  breakfn :: UW
  startupfn :: UW
  cleanupfn :: UW
  eventfn :: UW
  resblksz :: int
  resblk :: UW

record sys_state =
  ks :: kstate
  ssycb_table :: "nat \<Rightarrow> SSYCB"
  max_ssyid :: int
  max_ssypri :: int
  ssypri_table :: "nat \<Rightarrow> nat option"
  resid_bitmap :: "UB list"

type_synonym ssy_handler = "UW \<Rightarrow> int list \<Rightarrow> nat \<Rightarrow> sys_state \<Rightarrow> (int \<times> nat \<times> sys_state) option"
type_synonym others = "nat \<Rightarrow> sys_state \<Rightarrow> (nat \<times> sys_state) option"

definition E_RSFN :: ER where "E_RSFN = ERCD (-10) 0"

definition MIN_SSYID :: int where "MIN_SSYID = 1"
definition INDEX_SSY :: "int \<Rightarrow> nat" where "INDEX_SSY i = nat (i - MIN_SSYID)"
definition ID_SSY :: "nat \<Rightarrow> int" where "ID_SSY n = int n + MIN_SSYID"
definition MIN_SSYPRI :: int where "MIN_SSYPRI = 1"
definition ssypri_index :: "int \<Rightarrow> nat" where "ssypri_index p = nat (p - MIN_SSYPRI)"
definition resid_to_index :: "int \<Rightarrow> int" where "resid_to_index r = r - MIN_RESID"
definition index_to_resid :: "int \<Rightarrow> int" where "index_to_resid n = n + MIN_RESID"

definition ROUND_RESBLKSZ :: "int \<Rightarrow> int" where
  "ROUND_RESBLKSZ sz = sint ((word_of_int sz + 3 :: UW) AND NOT 3)"

definition CHK_SSYID :: "sys_state \<Rightarrow> int \<Rightarrow> bool" where
  "CHK_SSYID s i \<longleftrightarrow> MIN_SSYID \<le> i \<and> i \<le> max_ssyid s"

definition CHECK_SSYID :: "sys_state \<Rightarrow> int \<Rightarrow> bool \<times> ER" where
  "CHECK_SSYID s i = (CHK_SSYID s i, E_ID)"

definition CHECK_SSYID_ALL :: "sys_state \<Rightarrow> int \<Rightarrow> bool \<times> ER" where
  "CHECK_SSYID_ALL s i = (CHK_SSYID s i \<or> i = 0, E_ID)"

definition CHECK_RESID_ANY :: "kstate \<Rightarrow> int \<Rightarrow> bool \<times> ER" where
  "CHECK_RESID_ANY s r = (fst (CHECK_RESID s r) \<or> r = 0, E_ID)"

definition CHECK_SSYPRI :: "sys_state \<Rightarrow> int \<Rightarrow> bool \<times> ER" where
  "CHECK_SSYPRI s p = (MIN_SSYPRI \<le> p \<and> p \<le> max_ssypri s, E_PAR)"

definition upd_ks :: "(kstate \<Rightarrow> kstate) \<Rightarrow> sys_state \<Rightarrow> sys_state" where
  "upd_ks f s = s\<lparr>ks := f (ks s)\<rparr>"

definition upd_ssy :: "nat \<Rightarrow> (SSYCB \<Rightarrow> SSYCB) \<Rightarrow> sys_state \<Rightarrow> sys_state" where
  "upd_ssy i f s = s\<lparr>ssycb_table := (ssycb_table s)(i := f (ssycb_table s i))\<rparr>"

definition lift_ks :: "('a \<times> kstate) option \<Rightarrow> sys_state \<Rightarrow> ('a \<times> sys_state) option" where
  "lift_ks r s = map_option (\<lambda>(x, k). (x, s\<lparr>ks := k\<rparr>)) r"

definition in_ks :: "(kstate \<Rightarrow> kstate option) \<Rightarrow> sys_state \<Rightarrow> sys_state option" where
  "in_ks f s = map_option (\<lambda>k. s\<lparr>ks := k\<rparr>) (f (ks s))"

text \<open>\<open>_tk_get_cfn\<close> gives the number of values and the first value; the allocations succeed or not.\<close>

definition no_ssycb :: "SSYCB \<Rightarrow> SSYCB" where
  "no_ssycb c = c\<lparr>svchdr := None, breakfn := 0, startupfn := 0, cleanupfn := 0, eventfn := 0\<rparr>"

definition subsystem_initialize :: "int \<times> int \<Rightarrow> int \<times> int \<Rightarrow> bool \<Rightarrow> bool \<Rightarrow> sys_state \<Rightarrow> ER \<times> sys_state" where
  "subsystem_initialize cfn_id cfn_pri mem1 mem2 s =
    (let s = s\<lparr>max_ssyid := snd cfn_id\<rparr>
     in if fst cfn_id < 1 \<or> max_ssyid s < 1 then (E_SYS, s)
        else (let s = s\<lparr>max_ssypri := snd cfn_pri\<rparr>
              in if fst cfn_pri < 1 \<or> max_ssypri s < 1 then (E_SYS, s)
                 else if \<not> mem1 \<or> \<not> mem2 then (E_NOMEM, s)
                 else (E_OK, s\<lparr>ssycb_table := \<lambda>i. if int i < max_ssyid s then no_ssycb (ssycb_table s i) else ssycb_table s i,
                               ssypri_table := \<lambda>p. if int p < max_ssypri s then None else ssypri_table s p\<rparr>)))"

section \<open>Definition of subsystems\<close>

record T_DSSY =
  dssy_ssyatr :: ATR
  dssy_ssypri :: int
  dssy_svchdr :: UW
  dssy_breakfn :: UW
  dssy_startupfn :: UW
  dssy_cleanupfn :: UW
  dssy_eventfn :: UW
  dssy_resblksz :: int

text \<open>The cell \<open>prev\<close> points to: a link, or the entry of the priority.\<close>

definition ssy_cell :: "nat \<Rightarrow> nat option \<Rightarrow> sys_state \<Rightarrow> nat option" where
  "ssy_cell p prev s = (case prev of None \<Rightarrow> ssypri_table s p | Some j \<Rightarrow> ssy_link (ssycb_table s j))"

definition set_ssy_cell :: "nat \<Rightarrow> nat option \<Rightarrow> nat option \<Rightarrow> sys_state \<Rightarrow> sys_state" where
  "set_ssy_cell p prev x s =
    (case prev of None \<Rightarrow> s\<lparr>ssypri_table := (ssypri_table s)(p := x)\<rparr> | Some j \<Rightarrow> upd_ssy j (\<lambda>c. c\<lparr>ssy_link := x\<rparr>) s)"

partial_function (option) ssy_unlink :: "nat \<Rightarrow> nat \<Rightarrow> nat option \<Rightarrow> sys_state \<Rightarrow> sys_state option" where
  "ssy_unlink p i prev s =
    (case ssy_cell p prev s of
       None \<Rightarrow> Some s
     | Some j \<Rightarrow> if j = i then Some (set_ssy_cell p prev (ssy_link (ssycb_table s i)) s) else ssy_unlink p i (Some j) s)"

definition ssy_register :: "nat \<Rightarrow> T_DSSY \<Rightarrow> UW \<Rightarrow> sys_state \<Rightarrow> sys_state" where
  "ssy_register i pk blk s =
    (let s = upd_ssy i (\<lambda>c. c\<lparr>ssyatr := dssy_ssyatr pk, ssypri := dssy_ssypri pk, svchdr := Some (dssy_svchdr pk),
           breakfn := dssy_breakfn pk, startupfn := dssy_startupfn pk, cleanupfn := dssy_cleanupfn pk, eventfn := dssy_eventfn pk,
           resblksz := dssy_resblksz pk, resblk := blk\<rparr>) s;
         p = ssypri_index (ssypri (ssycb_table s i));
         s = upd_ssy i (\<lambda>c. c\<lparr>ssy_link := ssypri_table s p\<rparr>) s
     in s\<lparr>ssypri_table := (ssypri_table s)(p := Some i)\<rparr>)"

definition ssy_delete :: "nat \<Rightarrow> sys_state \<Rightarrow> sys_state option" where
  "ssy_delete i s = do {
     s \<leftarrow> ssy_unlink (ssypri_index (ssypri (ssycb_table s i))) i None s;
     Some (upd_ssy i no_ssycb s)
   }"

definition zero_bytes :: "UW \<Rightarrow> int \<Rightarrow> sys_state \<Rightarrow> sys_state" where
  "zero_bytes a n = upd_ks (upd_bmem (write_bytes a (replicate (nat n) 0)))"

text \<open>\<open>mem\<close> is the result of \<open>Icalloc\<close>, which clears the block.\<close>

definition tk_def_ssy :: "UW option \<Rightarrow> int \<Rightarrow> T_DSSY option \<Rightarrow> sys_state \<Rightarrow> (ER \<times> sys_state) option" where
  "tk_def_ssy mem ssid pk_dssy s =
    (case guards (CHECK_SSYID s ssid # (case pk_dssy of None \<Rightarrow> []
         | Some pk \<Rightarrow> [CHECK_RSATR (dssy_ssyatr pk) 0, CHECK_SSYPRI s (dssy_ssypri pk), CHECK_PAR (dssy_resblksz pk \<ge> 0)])) of
       Some e \<Rightarrow> Some (e, s)
     | None \<Rightarrow>
         (let i = INDEX_SSY ssid
          in case pk_dssy of
               None \<Rightarrow> (if svchdr (ssycb_table s i) = None then Some (E_NOEXS, s) else map_option (Pair E_OK) (ssy_delete i s))
             | Some pk \<Rightarrow>
                 if dssy_resblksz pk > 0 \<and> mem = None then Some (E_NOMEM, s)
                 else
                   (let blk = (if dssy_resblksz pk > 0 then the mem else 0);
                        s = (if dssy_resblksz pk > 0
                             then zero_bytes blk (int (max_resid (ko (ks s))) * ROUND_RESBLKSZ (dssy_resblksz pk)) s else s)
                    in if svchdr (ssycb_table s i) \<noteq> None then Some (E_OBJ, s)
                       else Some (E_OK, ssy_register i pk blk s))))"

section \<open>Task exceptions and break functions\<close>

definition TEX0_RUNNING :: UH where "TEX0_RUNNING = 0x0001"
definition TEX1_RUNNING :: UH where "TEX1_RUNNING = 0x0002"
definition SSFN_RUNNING :: UH where "SSFN_RUNNING = 0x0004"
definition BREAK_RAN :: UH where "BREAK_RAN = 0x8000"
definition TTX_SVC :: UW where "TTX_SVC = 0x80000000"

abbreviation stcb :: "sys_state \<Rightarrow> nat \<Rightarrow> tcb" where
  "stcb s t \<equiv> tcbs (ks s) t"

definition upd_stcb :: "nat \<Rightarrow> (tcb \<Rightarrow> tcb) \<Rightarrow> sys_state \<Rightarrow> sys_state" where
  "upd_stcb t f = upd_ks (upd_tcb t f)"

text \<open>The start and the end of a function of a subsystem: task exceptions are held back meanwhile.\<close>

definition enter_ssyfn :: "nat \<Rightarrow> sys_state \<Rightarrow> sys_state" where
  "enter_ssyfn t = upd_stcb t (\<lambda>c. c\<lparr>texflg := texflg c OR SSFN_RUNNING, sysmode := sysmode c + 1\<rparr>)"

definition leave_ssyfn :: "nat \<Rightarrow> UH \<Rightarrow> sys_state \<Rightarrow> sys_state" where
  "leave_ssyfn t save = upd_stcb t (\<lambda>c. c\<lparr>sysmode := sysmode c - 1, texflg := save\<rparr>)"

text \<open>A break function is due: a task exception has occurred during an extended SVC and none has run yet.\<close>

definition break_due :: "tcb \<Rightarrow> bool" where
  "break_due c \<longleftrightarrow> texflg c AND SSFN_RUNNING = 0 \<and> exectex c \<noteq> 0 \<and> sint (execssid c) > 0"

text \<open>The processor's current task is set back to the priority that its base priority and its mutexes give.\<close>

definition restore_priority :: "nat \<Rightarrow> kstate \<Rightarrow> kstate option" where
  "restore_priority t s =
    (let p = chg_pri_mutex t (int (bpriority (tcbs s t))) s
     in if int (pri s t) \<noteq> p then change_task_priority chg_pri_hooks t (nat p) s else Some s)"

definition break_leave :: "UH \<Rightarrow> nat \<Rightarrow> sys_state \<Rightarrow> sys_state option" where
  "break_leave save prid s = do {
     t \<leftarrow> ctxtsk (ks s) prid;
     s \<leftarrow> in_ks (restore_priority t) (leave_ssyfn t save s);
     in_ks update_schedtsk s
   }"

definition call_brkhdr :: "ssy_handler \<Rightarrow> nat \<Rightarrow> nat \<Rightarrow> sys_state \<Rightarrow> (nat \<times> sys_state) option" where
  "call_brkhdr uh t prid s =
    (if \<not> break_due (stcb s t) then do { s \<leftarrow> in_ks update_schedtsk s; Some (prid, s) }
     else
       (let i = INDEX_SSY (sint (execssid (stcb s t)));
            s = upd_stcb t (\<lambda>c. c\<lparr>execssid := execssid c OR BREAK_RAN\<rparr>) s;
            fn = breakfn (ssycb_table s i)
        in if fn = 0 then do { s \<leftarrow> in_ks update_schedtsk s; Some (prid, s) }
           else do {
             c \<leftarrow> ctxtsk (ks s) prid;
             s \<leftarrow> (if pri (ks s) t < pri (ks s) c then in_ks (change_task_priority chg_pri_hooks c (pri (ks s) t)) s else Some s);
             let save = texflg (stcb s c);
             s \<leftarrow> in_ks update_schedtsk (enter_ssyfn c s);
             (_, prid, s) \<leftarrow> uh fn [sint (tskid (stcb s t))] prid s;
             s \<leftarrow> break_leave save prid s;
             Some (prid, s)
           }))"

definition brk_if_exectex :: "ssy_handler \<Rightarrow> nat \<Rightarrow> nat \<Rightarrow> sys_state \<Rightarrow> (nat \<times> sys_state) option" where
  "brk_if_exectex uh t prid s = (if exectex (stcb s t) \<noteq> 0 then call_brkhdr uh t prid s else Some (prid, s))"

section \<open>Functions of all subsystems\<close>

text \<open>What a loop over subsystems changes: the processor, the error code and the state.\<close>

type_synonym ssy_run = "nat \<times> ER \<times> sys_state"

partial_function (option) ssy_chain :: "(nat \<Rightarrow> ssy_run \<Rightarrow> ssy_run option) \<Rightarrow> nat option \<Rightarrow> ssy_run \<Rightarrow> ssy_run option" where
  "ssy_chain f ssycb r =
    (case ssycb of
       None \<Rightarrow> Some r
     | Some i \<Rightarrow> do { r \<leftarrow> f i r; ssy_chain f (ssy_link (ssycb_table (snd (snd r)) i)) r })"

fun ssy_all :: "(nat \<Rightarrow> ssy_run \<Rightarrow> ssy_run option) \<Rightarrow> nat list \<Rightarrow> ssy_run \<Rightarrow> ssy_run option" where
  "ssy_all f [] r = Some r"
| "ssy_all f (p # ps) r = do { r \<leftarrow> ssy_chain f (ssypri_table (snd (snd r)) p) r; ssy_all f ps r }"

text \<open>The priorities from highest to lowest.\<close>

definition ssy_pris :: "sys_state \<Rightarrow> nat list" where
  "ssy_pris s = [0..<nat (max_ssypri s)]"

definition sta_fn :: "ssy_handler \<Rightarrow> int \<Rightarrow> int \<Rightarrow> nat \<Rightarrow> ssy_run \<Rightarrow> ssy_run option" where
  "sta_fn uh rid info i r =
    (case r of (prid, ercd, s) \<Rightarrow>
       let fn = startupfn (ssycb_table s i)
       in if fn = 0 then Some r else do { (_, prid, s) \<leftarrow> uh fn [rid, info] prid s; Some (prid, ercd, s) })"

definition clean_resblk :: "nat \<Rightarrow> int \<Rightarrow> sys_state \<Rightarrow> sys_state" where
  "clean_resblk i idx s =
    (let c = ssycb_table s i; sz = ROUND_RESBLKSZ (resblksz c)
     in if resblk c \<noteq> 0 then zero_bytes (resblk c + word_of_int (sz * idx)) sz s else s)"

definition cln_fn :: "ssy_handler \<Rightarrow> int \<Rightarrow> int \<Rightarrow> nat \<Rightarrow> ssy_run \<Rightarrow> ssy_run option" where
  "cln_fn uh rid info i r =
    (case r of (prid, ercd, s) \<Rightarrow>
       let fn = cleanupfn (ssycb_table s i)
       in do {
         (prid, s) \<leftarrow> (if fn = 0 then Some (prid, s) else do { (_, prid, s) \<leftarrow> uh fn [rid, info] prid s; Some (prid, s) });
         Some (prid, ercd, clean_resblk i (resid_to_index rid) s)
       })"

text \<open>For one subsystem the result is the error code; for all, the latest negative result.\<close>

definition evt_fn :: "ssy_handler \<Rightarrow> bool \<Rightarrow> int \<Rightarrow> int \<Rightarrow> int \<Rightarrow> nat \<Rightarrow> ssy_run \<Rightarrow> ssy_run option" where
  "evt_fn uh one evttyp rid info i r =
    (case r of (prid, ercd, s) \<Rightarrow>
       let fn = eventfn (ssycb_table s i)
       in if fn = 0 then Some r
          else do { (er, prid, s) \<leftarrow> uh fn [evttyp, rid, info] prid s; Some (prid, if one \<or> er < 0 then er else ercd, s) })"

text \<open>The shape of the three calls: \<open>f\<close> is the work for one subsystem, \<open>g\<close> for all of them.\<close>

definition ssy_call :: "ssy_handler \<Rightarrow> (bool \<times> ER) list \<Rightarrow> nat \<Rightarrow> int \<Rightarrow> (nat \<Rightarrow> ssy_run \<Rightarrow> ssy_run option) \<Rightarrow>
    (ssy_run \<Rightarrow> ssy_run option) \<Rightarrow> sys_state \<Rightarrow> (nat \<times> ER \<times> sys_state) option" where
  "ssy_call uh gs prid ssid f g s =
    (case guards (CHECK_SSYID_ALL s ssid # gs) of
       Some e \<Rightarrow> Some (prid, e, s)
     | None \<Rightarrow> do {
         t \<leftarrow> ctxtsk (ks s) prid;
         let save = texflg (stcb s t);
         let s = enter_ssyfn t s;
         (prid, ercd, s) \<leftarrow>
           (if ssid > 0 then
              (let i = INDEX_SSY ssid
               in if svchdr (ssycb_table s i) = None then Some (prid, E_NOEXS, s) else f i (prid, E_OK, s))
            else g (prid, E_OK, s));
         let s = leave_ssyfn t save s;
         (prid, s) \<leftarrow> brk_if_exectex uh t prid s;
         Some (prid, ercd, s)
       })"

definition tk_sta_ssy :: "ssy_handler \<Rightarrow> nat \<Rightarrow> int \<Rightarrow> int \<Rightarrow> int \<Rightarrow> sys_state \<Rightarrow> (nat \<times> ER \<times> sys_state) option" where
  "tk_sta_ssy uh prid ssid rid info s =
    ssy_call uh [CHECK_RESID (ks s) rid, CHECK_DISPATCH prid (ks s)] prid ssid (sta_fn uh rid info)
      (ssy_all (sta_fn uh rid info) (ssy_pris s)) s"

definition tk_cln_ssy :: "ssy_handler \<Rightarrow> nat \<Rightarrow> int \<Rightarrow> int \<Rightarrow> int \<Rightarrow> sys_state \<Rightarrow> (nat \<times> ER \<times> sys_state) option" where
  "tk_cln_ssy uh prid ssid rid info s =
    ssy_call uh [CHECK_RESID (ks s) rid, CHECK_DISPATCH prid (ks s)] prid ssid (cln_fn uh rid info)
      (ssy_all (cln_fn uh rid info) (rev (ssy_pris s))) s"

definition tk_evt_ssy :: "ssy_handler \<Rightarrow> nat \<Rightarrow> int \<Rightarrow> int \<Rightarrow> int \<Rightarrow> int \<Rightarrow> sys_state \<Rightarrow> (nat \<times> ER \<times> sys_state) option" where
  "tk_evt_ssy uh prid ssid evttyp rid info s =
    ssy_call uh [CHECK_RESID_ANY (ks s) rid, CHECK_DISPATCH prid (ks s)] prid ssid (evt_fn uh True evttyp rid info)
      (ssy_all (evt_fn uh False evttyp rid info) (if evttyp mod 2 = 0 then rev (ssy_pris s) else ssy_pris s)) s"

definition tk_ref_ssy :: "int \<Rightarrow> sys_state \<Rightarrow> ER \<times> (int \<times> int) option" where
  "tk_ref_ssy ssid s =
    (case guards [CHECK_SSYID s ssid] of
       Some e \<Rightarrow> (e, None)
     | None \<Rightarrow>
         (let c = ssycb_table s (INDEX_SSY ssid)
          in if svchdr c = None then (E_NOEXS, None) else (E_OK, Some (ssypri c, resblksz c))))"

definition td_ref_ssy :: "int \<Rightarrow> sys_state \<Rightarrow> ER \<times> (int \<times> int) option" where
  "td_ref_ssy = tk_ref_ssy"

definition td_lst_ssy :: "int \<Rightarrow> sys_state \<Rightarrow> int \<times> int list" where
  "td_lst_ssy nent s =
    (let ids = map ID_SSY (filter (\<lambda>i. svchdr (ssycb_table s i) \<noteq> None) [0..<nat (max_ssyid s)])
     in (int (length ids), take (nat nent) ids))"

section \<open>Extended SVCs\<close>

text \<open>The lock of extended SVCs of a task, with the retries of \<open>LockSVC\<close>.\<close>

partial_function (option) lock_svc :: "others \<Rightarrow> svclock_ref \<Rightarrow> nat \<Rightarrow> sys_state \<Rightarrow> (nat \<times> sys_state) option" where
  "lock_svc env loc prid s = do {
     (got, s) \<leftarrow> lift_ks (LockSVC prid loc (ks s)) s;
     if got then Some (prid, s) else do { (prid, s) \<leftarrow> env prid s; lock_svc env loc prid s }
   }"

definition svc_handler :: "ssy_handler \<Rightarrow> nat \<Rightarrow> UW \<Rightarrow> UW \<Rightarrow> nat \<Rightarrow> sys_state \<Rightarrow> (int \<times> nat \<times> sys_state) option" where
  "svc_handler uh i para fncd prid s =
    (case svchdr (ssycb_table s i) of None \<Rightarrow> Some (E_RSFN, prid, s) | Some fn \<Rightarrow> uh fn [uint para, uint fncd] prid s)"

definition svc_ientry :: "ssy_handler \<Rightarrow> others \<Rightarrow> UW \<Rightarrow> UW \<Rightarrow> nat \<Rightarrow> sys_state \<Rightarrow> (int \<times> nat \<times> sys_state) option" where
  "svc_ientry uh env para fncd prid s =
    (let ssid = uint (fncd AND 0xff);
         i = INDEX_SSY ssid
     in if ssid < 1 \<or> ssid > max_ssyid s then Some (E_RSFN, prid, s)
        else if in_indp prid (ks s) then svc_handler uh i para fncd prid s
        else do {
          t \<leftarrow> ctxtsk (ks s) prid;
          (prid, s) \<leftarrow> lock_svc env (SvcTsk t) prid s;
          if waitmask (stcb s t) AND TTX_SVC \<noteq> 0 then do { s \<leftarrow> in_ks (UnlockSVC prid) s; Some (E_DISWAI, prid, s) }
          else do {
            let save = stcb s t;
            let s = upd_stcb t (\<lambda>c. c\<lparr>execssid := word_of_int ssid, waitmask := 0,
                      exectex := (if sint (execssid c) < 0 then 0 else exectex c), sysmode := sysmode c + 1\<rparr>) s;
            s \<leftarrow> in_ks (UnlockSVC prid) s;
            (ercd, prid, s) \<leftarrow> svc_handler uh i para fncd prid s;
            (prid, s) \<leftarrow> lock_svc env (SvcTsk t) prid s;
            let s = upd_stcb t (\<lambda>c. c\<lparr>sysmode := sysmode c - 1, execssid := execssid save, waitmask := waitmask save,
                      exectex := exectex c OR exectex save\<rparr>) s;
            s \<leftarrow> in_ks (UnlockSVC prid) s;
            (prid, s) \<leftarrow> brk_if_exectex uh t prid s;
            Some (ercd, prid, s)
          }
        })"

section \<open>Task exception handlers\<close>

definition tk_def_tex :: "nat \<Rightarrow> ID \<Rightarrow> (ATR \<times> UW) option \<Rightarrow> kstate \<Rightarrow> (ER \<times> kstate) option" where
  "tk_def_tex prid tid pk_dtex s =
    tsk_call (mp_check_domain_and_protection_tsk prid s) False
      (CHECK_TSKID_SELF prid s tid # (case pk_dtex of None \<Rightarrow> [] | Some (atr, _) \<Rightarrow> [CHECK_RSATR atr 0])) prid tid
      (\<lambda>t s. if tskatr (tcbs s t) AND TA_RNG3 = TA_RNG0 then Some (E_OBJ, s)
             else Some (E_OK, upd_tcb t (\<lambda>c. c\<lparr>pendtex := 0, exectex := 0, texmask := 0,
                    texhdr := (case pk_dtex of None \<Rightarrow> 0 | Some (_, hdr) \<Rightarrow> hdr)\<rparr>) s)) s"

definition set_tex_mask :: "nat \<Rightarrow> ID \<Rightarrow> UW \<Rightarrow> bool \<Rightarrow> kstate \<Rightarrow> (ER \<times> kstate) option" where
  "set_tex_mask prid tid texmsk enable s =
    tsk_call (mp_check_domain_and_protection_tsk prid s) False [CHECK_TSKID_SELF prid s tid] prid tid
      (\<lambda>t s. let (ercd, s) =
                  (if texhdr (tcbs s t) = 0 then (E_NOEXS, s)
                   else (let s = upd_tcb t (\<lambda>c. c\<lparr>texmask := (if enable then texmask c OR texmsk else texmask c AND NOT texmsk)\<rparr>) s
                         in (E_OK, upd_tcb t (\<lambda>c. c\<lparr>pendtex := pendtex c AND texmask c\<rparr>) s)))
             in Some (ercd, upd_tcb t (\<lambda>c. c\<lparr>pendtex := pendtex c AND texmask c\<rparr>) s)) s"

definition tk_dis_tex :: "nat \<Rightarrow> ID \<Rightarrow> UW \<Rightarrow> kstate \<Rightarrow> (ER \<times> kstate) option" where
  "tk_dis_tex prid tid texptn = set_tex_mask prid tid texptn False"

definition tk_ena_tex :: "nat \<Rightarrow> ID \<Rightarrow> UW \<Rightarrow> kstate \<Rightarrow> (ER \<times> kstate) option" where
  "tk_ena_tex prid tid texptn = set_tex_mask prid tid texptn True"

definition request_tex :: "nat \<Rightarrow> kstate \<Rightarrow> kstate" where
  "request_tex t s = (if isysmode (tcbs s t) = 0 then upd_tcb t (\<lambda>c. c\<lparr>reqdct := 1\<rparr>) s else s)"

text \<open>The part of \<open>_tk_ras_tex\<close> inside its critical section; the flag is \<open>rastex\<close>.\<close>

definition raise_tex :: "nat \<Rightarrow> ID \<Rightarrow> nat \<Rightarrow> nat \<Rightarrow> kstate \<Rightarrow> ((ER \<times> bool) \<times> kstate) option" where
  "raise_tex prid tid t texcd s =
    (if state (tcbs s t) = TS_NONEXIST then Some ((E_NOEXS, False), s)
     else do {
       ercd \<leftarrow> mp_check_domain_and_protection_tsk prid s tid (tskid (tcbs s t)) (tskatr (tcbs s t));
       Some (if ercd \<noteq> E_OK then ((ercd, False), s)
             else if texhdr (tcbs s t) = 0 then ((E_NOEXS, False), s)
             else if state (tcbs s t) = TS_DORMANT then ((E_OBJ, False), s)
             else if texflg (tcbs s t) AND TEX0_RUNNING \<noteq> 0 then ((E_OK, False), s)
             else
               (let s = upd_tcb t (\<lambda>c. c\<lparr>pendtex := pendtex c OR (push_bit texcd 1 AND texmask c)\<rparr>) s
                in if pendtex (tcbs s t) = 0 then ((E_OK, False), s)
                   else if pendtex (tcbs s t) AND 1 \<noteq> 0 \<or> texflg (tcbs s t) AND TEX1_RUNNING = 0 then
                     ((E_OK, True), request_tex t (upd_tcb t (\<lambda>c. c\<lparr>exectex := exectex c OR pendtex c\<rparr>) s))
                   else ((E_OK, False), s)))
     })"

definition tk_ras_tex :: "ssy_handler \<Rightarrow> others \<Rightarrow> nat \<Rightarrow> ID \<Rightarrow> int \<Rightarrow> sys_state \<Rightarrow> (nat \<times> ER \<times> sys_state) option" where
  "tk_ras_tex uh env prid tid texcd s =
    (case guards [CHECK_INTSK prid (ks s), CHECK_TSKID_SELF prid (ks s) tid, CHECK_PAR (texcd \<ge> 0 \<and> texcd \<le> 31), CHECK_DISPATCH prid (ks s)] of
       Some e \<Rightarrow> Some (prid, e, s)
     | None \<Rightarrow> do {
         t \<leftarrow> get_tcb_self prid (ks s) tid;
         (prid, s) \<leftarrow> lock_svc env (SvcTsk t) prid s;
         ((ercd, rastex), s) \<leftarrow> lift_ks (raise_tex prid tid t (nat texcd) (ks s)) s;
         (prid, s) \<leftarrow> (if rastex then call_brkhdr uh t prid s else Some (prid, s));
         s \<leftarrow> in_ks (UnlockSVC prid) s;
         (prid, s) \<leftarrow> (if rastex then do { t \<leftarrow> ctxtsk (ks s) prid; brk_if_exectex uh t prid s } else Some (prid, s));
         Some (prid, ercd, s)
       })"

partial_function (option) texcd_scan :: "UW \<Rightarrow> int \<Rightarrow> int option" where
  "texcd_scan texptn texcd = (if texptn AND 1 = 0 then texcd_scan (drop_bit 1 texptn) (texcd + 1) else Some texcd)"

definition tk_end_tex :: "bool \<Rightarrow> nat \<Rightarrow> kstate \<Rightarrow> (int \<times> kstate) option" where
  "tk_end_tex enatex prid s =
    (case guards [CHECK_DISPATCH prid s] of
       Some e \<Rightarrow> Some (e, s)
     | None \<Rightarrow> do {
         t \<leftarrow> ctxtsk s prid;
         if texflg (tcbs s t) AND (TEX0_RUNNING OR TEX1_RUNNING) \<noteq> TEX1_RUNNING then Some (E_CTX, s)
         else do {
           let texptn = pendtex (tcbs s t) AND NOT 1;
           texcd \<leftarrow> (if texptn \<noteq> 0 then texcd_scan texptn 0 else Some 0);
           Some (texcd,
             if enatex \<or> texcd = 0 then
               (let s = upd_tcb t (\<lambda>c. c\<lparr>texflg := texflg c AND NOT TEX1_RUNNING, exectex := exectex c OR pendtex c\<rparr>) s
                in if texcd > 0 then request_tex t s else s)
             else upd_tcb t (\<lambda>c. c\<lparr>pendtex := pendtex c AND NOT (push_bit (nat texcd) 1)\<rparr>) s)
         }
       })"

definition tk_ref_tex :: "nat \<Rightarrow> ID \<Rightarrow> kstate \<Rightarrow> (ER \<times> (UW \<times> UW) option) option" where
  "tk_ref_tex prid tid s = tsk_read (mp_check_domain_and_protection_tsk prid s) prid tid (\<lambda>t. (pendtex (tcbs s t), texmask (tcbs s t))) s"

definition td_ref_tex :: "nat \<Rightarrow> ID \<Rightarrow> kstate \<Rightarrow> (ER \<times> (UW \<times> UW) option) option" where
  "td_ref_tex prid tid s = tsk_read td_check prid tid (\<lambda>t. (pendtex (tcbs s t), texmask (tcbs s t))) s"

text \<open>
  On its way out of the kernel a task with \<open>reqdct\<close> set starts its handler. \<open>ssp\<close> is the address of the saved registers,
  \<open>usp\<close> the user stack pointer, a register; the new one is returned.
\<close>

definition setup_texhdr :: "nat \<Rightarrow> UW \<Rightarrow> UW \<Rightarrow> kstate \<Rightarrow> (UW \<times> kstate) option" where
  "setup_texhdr prid ssp usp s = do {
     t \<leftarrow> ctxtsk s prid;
     let s = upd_tcb t (\<lambda>c. c\<lparr>reqdct := 0\<rparr>) s;
     Some (case find (\<lambda>n. exectex (tcbs s t) AND push_bit n 1 \<noteq> 0) [0..<32] of
         None \<Rightarrow> (usp, s)
       | Some texcd \<Rightarrow>
           (let s = upd_tcb t (\<lambda>c. c\<lparr>exectex := 0, pendtex := pendtex c AND NOT (push_bit texcd 1),
                      texflg := texflg c OR (if texcd = 0 then TEX0_RUNNING else TEX1_RUNNING)\<rparr>) s;
                hdr = texhdr (tcbs s t);
                usp = (if texcd = 0 then istack (tcbs s t) else usp) - 12;
                s = s\<lparr>umem := (umem s)(usp := umem s ssp)\<rparr>;
                s = s\<lparr>umem := (umem s)(usp + 4 := of_nat texcd)\<rparr>;
                s = s\<lparr>umem := (umem s)(usp + 8 := umem s (ssp + 8))\<rparr>;
                s = s\<lparr>umem := (umem s)(ssp + 8 := hdr AND NOT 1)\<rparr>;
                s = s\<lparr>umem := (umem s)(ssp := (if hdr AND 1 = 0 then umem s ssp AND NOT PSR_T else umem s ssp OR PSR_T))\<rparr>
            in (usp, s)))
   }"

section \<open>Resource groups\<close>

definition resource_group_initialize :: "int \<times> int \<Rightarrow> bool \<Rightarrow> sys_state \<Rightarrow> ER \<times> sys_state" where
  "resource_group_initialize cfn mem s =
    (let s = upd_ks (upd_ko (\<lambda>k. k\<lparr>max_resid := nat (snd cfn)\<rparr>)) s
     in if fst cfn < 1 \<or> snd cfn < 1 then (E_SYS, s)
        else if \<not> mem then (E_NOMEM, s)
        else (E_OK, s\<lparr>resid_bitmap := tstdlib_bitset (replicate (nat ((snd cfn + 7) div 8)) 0) (resid_to_index SYS_RESID)\<rparr>))"

definition tk_cre_res :: "sys_state \<Rightarrow> (int \<times> sys_state) option" where
  "tk_cre_res s = do {
     n \<leftarrow> tstdlib_bitsearch0 (resid_bitmap s) 0 (int (max_resid (ko (ks s))));
     Some (if n < 0 then (E_LIMIT, s) else (index_to_resid n, s\<lparr>resid_bitmap := tstdlib_bitset (resid_bitmap s) n\<rparr>))
   }"

definition tk_del_res :: "int \<Rightarrow> sys_state \<Rightarrow> ER \<times> sys_state" where
  "tk_del_res rid s =
    (case guards [CHECK_RESID (ks s) rid, (rid \<noteq> SYS_RESID, E_ID)] of
       Some e \<Rightarrow> (e, s)
     | None \<Rightarrow>
         (let idx = resid_to_index rid
          in if \<not> tstdlib_bittest (resid_bitmap s) idx then (E_NOEXS, s)
             else (E_OK, s\<lparr>resid_bitmap := tstdlib_bitclr (resid_bitmap s) idx\<rparr>)))"

definition tk_get_res :: "int \<Rightarrow> int \<Rightarrow> sys_state \<Rightarrow> ER \<times> UW option" where
  "tk_get_res rid ssid s =
    (case guards [CHECK_RESID (ks s) rid, CHECK_SSYID s ssid] of
       Some e \<Rightarrow> (e, None)
     | None \<Rightarrow>
         (let idx = resid_to_index rid; c = ssycb_table s (INDEX_SSY ssid)
          in if \<not> tstdlib_bittest (resid_bitmap s) idx \<or> svchdr c = None then (E_NOEXS, None)
             else (E_OK, Some (resblk c + word_of_int (ROUND_RESBLKSZ (resblksz c) * idx)))))"

end
