(* ===== verification/Subsystem_Inv.thy ===== *)
theory Subsystem_Inv
  imports Subsystem
begin

text \<open>
  What subsystems, extended SVCs and task exceptions promise: the lists of subsystems by priority, the order in which the
  functions of all subsystems run, the task's state around an extended SVC, and pending task exceptions.
\<close>

section \<open>The lists of subsystems\<close>

fun slist :: "(nat \<Rightarrow> SSYCB) \<Rightarrow> nat option \<Rightarrow> nat list \<Rightarrow> bool" where
  "slist m h [] \<longleftrightarrow> h = None"
| "slist m h (x # xs) \<longleftrightarrow> h = Some x \<and> slist m (ssy_link (m x)) xs"

lemma slist_None [simp]: "slist m None xs \<longleftrightarrow> xs = []"
  by (cases xs) auto

lemma slist_upd [simp]: "x \<notin> set xs \<Longrightarrow> slist (m(x := v)) h xs \<longleftrightarrow> slist m h xs"
  by (induction xs arbitrary: h) auto

lemma slist_cong: "(\<And>x. x \<in> set xs \<Longrightarrow> ssy_link (m' x) = ssy_link (m x)) \<Longrightarrow> slist m' h xs \<longleftrightarrow> slist m h xs"
  by (induction xs arbitrary: h) auto

definition registered :: "sys_state \<Rightarrow> nat \<Rightarrow> nat set" where
  "registered s p = {i. int i < max_ssyid s \<and> svchdr (ssycb_table s i) \<noteq> None \<and> ssypri_index (ssypri (ssycb_table s i)) = p}"

text \<open>\<open>L p\<close> is the list of the subsystems of the priority with index \<open>p\<close>: every registered one is in the list of its priority, once.\<close>

definition ssy_lists :: "sys_state \<Rightarrow> (nat \<Rightarrow> nat list) \<Rightarrow> bool" where
  "ssy_lists s L \<longleftrightarrow> (\<forall>p. int p < max_ssypri s \<longrightarrow>
     slist (ssycb_table s) (ssypri_table s p) (L p) \<and> distinct (L p) \<and> set (L p) = registered s p) \<and>
     (\<forall>p. int p \<ge> max_ssypri s \<longrightarrow> registered s p = {})"

lemma ssy_listsD:
  assumes "ssy_lists s L" and "int p < max_ssypri s"
  shows "slist (ssycb_table s) (ssypri_table s p) (L p)" "distinct (L p)" "set (L p) = registered s p"
  using assms by (auto simp: ssy_lists_def)

lemma upd_ssy_sel [simp]:
  "ssycb_table (upd_ssy i f s) = (ssycb_table s)(i := f (ssycb_table s i))" "ssypri_table (upd_ssy i f s) = ssypri_table s"
  "max_ssyid (upd_ssy i f s) = max_ssyid s" "max_ssypri (upd_ssy i f s) = max_ssypri s" "ks (upd_ssy i f s) = ks s"
  "resid_bitmap (upd_ssy i f s) = resid_bitmap s"
  by (simp_all add: upd_ssy_def)

lemma upd_ks_sel [simp]:
  "ssycb_table (upd_ks f s) = ssycb_table s" "ssypri_table (upd_ks f s) = ssypri_table s" "max_ssyid (upd_ks f s) = max_ssyid s"
  "max_ssypri (upd_ks f s) = max_ssypri s" "ks (upd_ks f s) = f (ks s)" "resid_bitmap (upd_ks f s) = resid_bitmap s"
  by (simp_all add: upd_ks_def)

text \<open>Registration puts the subsystem in front of the list of its priority.\<close>

lemma ssy_register_lists:
  assumes l: "ssy_lists s L" and i: "int i < max_ssyid s" and n: "svchdr (ssycb_table s i) = None" and p: "p = ssypri_index (dssy_ssypri pk)"
    and b: "int p < max_ssypri s"
  shows "ssy_lists (ssy_register i pk blk s) (L(p := i # L p))"
proof -
  let ?s = "ssy_register i pk blk s"
  have nr: "i \<notin> registered s q" for q using n by (simp add: registered_def)
  have r: "registered ?s q = (if q = p then insert i (registered s q) else registered s q)" for q
    using i n by (auto simp: registered_def ssy_register_def Let_def p)
  have t: "ssypri_table ?s = (ssypri_table s)(p := Some i)" "max_ssypri ?s = max_ssypri s"
    by (simp_all add: ssy_register_def Let_def p)
  have f: "ssy_link (ssycb_table ?s i) = ssypri_table s p" "j \<noteq> i \<Longrightarrow> ssycb_table ?s j = ssycb_table s j" for j
    by (simp_all add: ssy_register_def Let_def p)
  have c: "slist (ssycb_table ?s) h (L q) \<longleftrightarrow> slist (ssycb_table s) h (L q)" if "int q < max_ssypri s" for q h
  proof (rule slist_cong)
    fix x assume "x \<in> set (L q)"
    then have "x \<noteq> i" using ssy_listsD(3) [OF l that] nr by blast
    then show "ssy_link (ssycb_table ?s x) = ssy_link (ssycb_table s x)" by (simp add: f(2))
  qed
  show ?thesis
    using ssy_listsD [OF l] l nr b by (auto simp: ssy_lists_def t r c f(1))
qed

text \<open>The search for the link to the subsystem ends, and takes it out of the list.\<close>

lemma ssy_unlink_ok:
  assumes "slist (ssycb_table s) (ssy_cell p prev s) (xs @ i # ys)" and "distinct (xs @ i # ys)"
  shows "ssy_unlink p i prev s = Some (set_ssy_cell p (if xs = [] then prev else Some (last xs)) (ssy_link (ssycb_table s i)) s)"
  using assms
proof (induction xs arbitrary: prev)
  case Nil
  then show ?case by (subst ssy_unlink.simps) simp
next
  case (Cons x xs)
  then have "ssy_cell p prev s = Some x" "x \<noteq> i" by auto
  moreover have "slist (ssycb_table s) (ssy_cell p (Some x) s) (xs @ i # ys)" using Cons.prems(1) by (simp add: ssy_cell_def)
  ultimately show ?case using Cons.IH [of "Some x"] Cons.prems(2) by (subst ssy_unlink.simps) auto
qed

lemma slist_remove:
  "slist m h (xs @ i # ys) \<Longrightarrow> xs \<noteq> [] \<Longrightarrow> distinct (xs @ i # ys) \<Longrightarrow>
   slist (m(last xs := (m (last xs))\<lparr>ssy_link := ssy_link (m i)\<rparr>)) h (xs @ ys)"
  by (induction xs arbitrary: h) (auto split: if_splits)


lemma slist_remove_set:
  assumes "slist (ssycb_table s) (ssypri_table s p) (xs @ i # ys)" and "distinct (xs @ i # ys)"
    and "s' = set_ssy_cell p (if xs = [] then None else Some (last xs)) (ssy_link (ssycb_table s i)) s"
  shows "slist (ssycb_table s') (ssypri_table s' p) (xs @ ys)" "q \<noteq> p \<Longrightarrow> ssypri_table s' q = ssypri_table s q"
    "x \<notin> set xs \<Longrightarrow> ssycb_table s' x = ssycb_table s x" "\<exists>l. ssycb_table s' x = (ssycb_table s x)\<lparr>ssy_link := l\<rparr>"
    "max_ssypri s' = max_ssypri s" "max_ssyid s' = max_ssyid s" "ks s' = ks s" "resid_bitmap s' = resid_bitmap s"
proof -
  show "slist (ssycb_table s') (ssypri_table s' p) (xs @ ys)"
  proof (cases "xs = []")
    case True
    then show ?thesis using assms by (simp add: set_ssy_cell_def)
  next
    case False
    then show ?thesis using slist_remove [OF assms(1) False assms(2)] by (simp add: set_ssy_cell_def assms(3))
  qed
  have "\<exists>l. c = c\<lparr>ssy_link := l\<rparr>" for c :: SSYCB by (rule exI [where x = "ssy_link c"]) simp
  then show "q \<noteq> p \<Longrightarrow> ssypri_table s' q = ssypri_table s q" "x \<notin> set xs \<Longrightarrow> ssycb_table s' x = ssycb_table s x"
    "\<exists>l. ssycb_table s' x = (ssycb_table s x)\<lparr>ssy_link := l\<rparr>" "max_ssypri s' = max_ssypri s" "max_ssyid s' = max_ssyid s"
    "ks s' = ks s" "resid_bitmap s' = resid_bitmap s"
    using last_in_set [of xs] by (auto simp: set_ssy_cell_def assms(3))
qed

lemma ssy_delete_lists:
  assumes l: "ssy_lists s L" and i: "int i < max_ssyid s" and n: "svchdr (ssycb_table s i) \<noteq> None"
    and p: "p = ssypri_index (ssypri (ssycb_table s i))"
  shows "\<exists>s'. ssy_delete i s = Some s' \<and> ssy_lists s' (L(p := remove1 i (L p))) \<and> svchdr (ssycb_table s' i) = None \<and>
     (\<forall>j. j \<noteq> i \<longrightarrow> (\<exists>l. ssycb_table s' j = (ssycb_table s j)\<lparr>ssy_link := l\<rparr>)) \<and> ks s' = ks s \<and> resid_bitmap s' = resid_bitmap s"
proof -
  have r: "i \<in> registered s p" using i n p by (simp add: registered_def)
  then have b: "int p < max_ssypri s" using l by (cases "int p < max_ssypri s") (auto simp: ssy_lists_def)
  note d = ssy_listsD [OF l b]
  from r d(3) obtain xs ys where x: "L p = xs @ i # ys" using split_list by fastforce
  define u where "u = set_ssy_cell p (if xs = [] then None else Some (last xs)) (ssy_link (ssycb_table s i)) s"
  note v = slist_remove_set [OF d(1,2) [unfolded x] u_def]
  have "ssy_unlink p i None s = Some u"
    using ssy_unlink_ok [of s p None xs i ys] d(1,2) by (simp add: ssy_cell_def x u_def)
  then have e: "ssy_delete i s = Some (upd_ssy i no_ssycb u)" by (simp add: ssy_delete_def p [symmetric])
  let ?s = "upd_ssy i no_ssycb u"
  have ix: "i \<notin> set xs" "i \<notin> set ys" using d(2) by (auto simp: x)
  have g: "registered ?s q = registered s q - {i}" for q
  proof -
    have "svchdr (ssycb_table u j) = svchdr (ssycb_table s j) \<and> ssypri (ssycb_table u j) = ssypri (ssycb_table s j)" for j
      using v(4) [of j] by auto
    then show ?thesis by (auto simp: registered_def v(6) no_ssycb_def)
  qed
  have "slist (ssycb_table ?s) (ssypri_table ?s q) ((L(p := remove1 i (L p))) q)" if q: "int q < max_ssypri s" for q
  proof (cases "q = p")
    case True
    have "slist (ssycb_table ?s) (ssypri_table u p) (xs @ ys)" using v(1) ix by simp
    then show ?thesis using ix by (simp add: True x remove1_append)
  next
    case False
    have m: "y \<notin> set (L p)" if "y \<in> set (L q)" for y
      using that False ssy_listsD(3) [OF l q] d(3) by (auto simp: registered_def)
    then have "ssycb_table ?s y = ssycb_table s y" if "y \<in> set (L q)" for y
      using that v(3) [of y] by (auto simp: x)
    then have "slist (ssycb_table ?s) (ssypri_table s q) (L q) = slist (ssycb_table s) (ssypri_table s q) (L q)"
      by (intro slist_cong) simp
    then show ?thesis using False ssy_listsD(1) [OF l q] v(2) [OF False] by simp
  qed
  moreover have "distinct ((L(p := remove1 i (L p))) q) \<and> set ((L(p := remove1 i (L p))) q) = registered ?s q" if q: "int q < max_ssypri s" for q
    using ssy_listsD(2,3) [OF l q] r g [of q] by (auto simp: registered_def p)
  moreover have "registered ?s q = {}" if "int q \<ge> max_ssypri s" for q using l that g by (simp add: ssy_lists_def)
  ultimately have "ssy_lists ?s (L(p := remove1 i (L p)))" by (simp add: ssy_lists_def v(5))
  moreover have "svchdr (ssycb_table ?s i) = None" by (simp add: no_ssycb_def)
  moreover have "\<exists>l. ssycb_table ?s j = (ssycb_table s j)\<lparr>ssy_link := l\<rparr>" if "j \<noteq> i" for j using v(4) [of j] that by simp
  ultimately show ?thesis using e v(7,8) by auto
qed

section \<open>The loops over all subsystems\<close>

text \<open>The subsystems one by one.\<close>

fun run_list :: "(nat \<Rightarrow> ssy_run \<Rightarrow> ssy_run option) \<Rightarrow> nat list \<Rightarrow> ssy_run \<Rightarrow> ssy_run option" where
  "run_list f [] r = Some r"
| "run_list f (i # is) r = do { r \<leftarrow> f i r; run_list f is r }"

lemma run_list_append: "run_list f (xs @ ys) r = do { r \<leftarrow> run_list f xs r; run_list f ys r }"
  by (induction xs arbitrary: r) (auto simp: bind_eq_Some_conv split: Option.bind_split)

text \<open>A function that leaves the control blocks alone.\<close>

definition tables_kept :: "sys_state \<Rightarrow> sys_state \<Rightarrow> bool" where
  "tables_kept s s' \<longleftrightarrow> ssycb_table s' = ssycb_table s \<and> ssypri_table s' = ssypri_table s \<and> max_ssyid s' = max_ssyid s \<and> max_ssypri s' = max_ssypri s"

definition keeps_tables :: "(nat \<Rightarrow> ssy_run \<Rightarrow> ssy_run option) \<Rightarrow> bool" where
  "keeps_tables f \<longleftrightarrow> (\<forall>i r r'. f i r = Some r' \<longrightarrow> tables_kept (snd (snd r)) (snd (snd r')))"

lemma keeps_tablesD: "keeps_tables f \<Longrightarrow> f i r = Some r' \<Longrightarrow> tables_kept (snd (snd r)) (snd (snd r'))"
  unfolding keeps_tables_def by blast

lemma tables_kept_trans: "tables_kept s s' \<Longrightarrow> tables_kept s' s'' \<Longrightarrow> tables_kept s s''"
  by (simp add: tables_kept_def)

lemma run_list_kept: "keeps_tables f \<Longrightarrow> run_list f xs r = Some r' \<Longrightarrow> tables_kept (snd (snd r)) (snd (snd r'))"
proof (induction xs arbitrary: r)
  case Nil
  then show ?case by (simp add: tables_kept_def)
next
  case (Cons x xs)
  then obtain r1 where r1: "f x r = Some r1" "run_list f xs r1 = Some r'" by (auto split: Option.bind_splits)
  then show ?case using Cons.IH [OF Cons.prems(1) r1(2)] Cons.prems(1) keeps_tablesD [of f x r r1] tables_kept_trans by blast
qed

lemma ssy_chain_list:
  assumes f: "keeps_tables f"
  shows "slist (ssycb_table (snd (snd r))) h xs \<Longrightarrow> ssy_chain f h r = run_list f xs r"
proof (induction xs arbitrary: h r)
  case Nil
  then show ?case by (subst ssy_chain.simps) simp
next
  case (Cons x xs)
  have "ssy_chain f (ssy_link (ssycb_table (snd (snd r1)) x)) r1 = run_list f xs r1" if "f x r = Some r1" for r1
  proof -
    have "ssycb_table (snd (snd r1)) = ssycb_table (snd (snd r))" using keeps_tablesD [OF f that] by (simp add: tables_kept_def)
    then show ?thesis using Cons.IH [of r1 "ssy_link (ssycb_table (snd (snd r1)) x)"] Cons.prems by simp
  qed
  then show ?case using Cons.prems by (subst ssy_chain.simps) (cases "f x r", auto)
qed

lemma ssy_all_list:
  assumes f: "keeps_tables f" and l: "ssy_lists (snd (snd r)) L" and p: "\<forall>p\<in>set ps. int p < max_ssypri (snd (snd r))"
  shows "ssy_all f ps r = run_list f (concat (map L ps)) r"
  using l p
proof (induction ps arbitrary: r)
  case Nil
  then show ?case by simp
next
  case (Cons p ps)
  have "slist (ssycb_table (snd (snd r))) (ssypri_table (snd (snd r)) p) (L p)" using ssy_listsD(1) [OF Cons.prems(1)] Cons.prems(2) by simp
  note c = ssy_chain_list [OF f this]
  have "ssy_all f ps r1 = run_list f (concat (map L ps)) r1" if "run_list f (L p) r = Some r1" for r1
  proof -
    from run_list_kept [OF f that] have k: "tables_kept (snd (snd r)) (snd (snd r1))" .
    then have "ssy_lists (snd (snd r1)) L" using Cons.prems(1) by (simp add: ssy_lists_def tables_kept_def registered_def)
    then show ?thesis using k Cons.prems(2) by (intro Cons.IH) (auto simp: tables_kept_def)
  qed
  then show ?case by (cases "run_list f (L p) r") (auto simp: c run_list_append)
qed


section \<open>Extended SVCs\<close>

section \<open>Task exceptions\<close>

lemma texcd_scan_ok: "w \<noteq> 0 \<Longrightarrow> \<exists>n. texcd_scan w c = Some (c + int n) \<and> bit w n \<and> (\<forall>m<n. \<not> bit w m)"
proof (induction "LEAST n. bit w n" arbitrary: w c)
  case 0
  from 0(2) obtain n where "bit w n" by (auto simp: bit_eq_iff)
  from LeastI [of "bit w", OF this] have "bit w 0" using 0(1) by simp
  then have "texcd_scan w c = Some c" by (subst texcd_scan.simps) (auto simp: and_one_eq bit_0 odd_iff_mod_2_eq_one)
  with \<open>bit w 0\<close> show ?case by (intro exI [where x = 0]) simp
next
  case (Suc k)
  from Suc(3) obtain n where n: "bit w n" by (auto simp: bit_eq_iff)
  have l: "bit w (Suc k)" using LeastI [of "bit w", OF n] Suc(2) by simp
  have z: "\<not> bit w m" if "m < Suc k" for m using not_less_Least [of m "bit w"] that Suc(2) by simp
  let ?v = "drop_bit 1 w"
  have b [simp]: "bit ?v m \<longleftrightarrow> bit w (Suc m)" for m by (simp add: bit_simps)
  have "(LEAST m. bit ?v m) = k" using l z by (intro Least_equality) (auto simp del: One_nat_def simp: not_less [symmetric])
  moreover have "?v \<noteq> 0" using l b [of k] by (metis bit_0_eq bot_apply bot_bool_def)
  ultimately obtain m where m: "texcd_scan ?v (c + 1) = Some (c + 1 + int m)" "bit ?v m" "\<forall>j<m. \<not> bit ?v j" using Suc(1) [of ?v "c + 1"] by auto
  have "w AND 1 = 0" using z [of 0] by (simp add: and_one_eq bit_0 even_iff_mod_2_eq_zero)
  then have "texcd_scan w c = texcd_scan ?v (c + 1)" by (subst texcd_scan.simps) simp
  moreover have "\<not> bit w j" if "j < Suc m" for j using that m(3) z [of 0] b by (cases j) auto
  ultimately show ?case using m(1,2) b by (intro exI [where x = "Suc m"]) auto
qed

text \<open>Only enabled exceptions are pending.\<close>

definition tex_ok :: "kstate \<Rightarrow> bool" where
  "tex_ok s \<longleftrightarrow> (\<forall>t. pendtex (tcbs s t) AND NOT (texmask (tcbs s t)) = 0)"

lemma tex_ok_bits: "tex_ok s \<longleftrightarrow> (\<forall>t n. bit (pendtex (tcbs s t)) n \<longrightarrow> bit (texmask (tcbs s t)) n)"
proof -
  have "v AND NOT m = 0 \<longleftrightarrow> (\<forall>n. bit v n \<longrightarrow> bit m n)" for v m :: UW
  proof
    assume z: "v AND NOT m = 0"
    show "\<forall>n. bit v n \<longrightarrow> bit m n"
    proof (intro allI impI)
      fix n assume "bit v n"
      moreover have "\<not> bit (v AND NOT m) n" by (simp add: z)
      ultimately show "bit m n" using bit_imp_le_length [of v n] by (auto simp: bit_simps)
    qed
  qed (auto simp: bit_eq_iff bit_simps)
  then show ?thesis by (simp add: tex_ok_def)
qed

lemma tex_okI: "(\<And>t n. bit (pendtex (tcbs s t)) n \<Longrightarrow> bit (texmask (tcbs s t)) n) \<Longrightarrow> tex_ok s"
  by (simp add: tex_ok_bits)

lemma tex_okD: "tex_ok s \<Longrightarrow> bit (pendtex (tcbs s t)) n \<Longrightarrow> bit (texmask (tcbs s t)) n"
  by (simp add: tex_ok_bits)

lemma tex_ok_narrow:
  assumes "tex_ok s" and "\<And>n. bit (pendtex (f (tcbs s t))) n \<Longrightarrow> bit (texmask (f (tcbs s t))) n"
  shows "tex_ok (upd_tcb t f s)"
  using assms by (intro tex_okI) (auto dest: tex_okD split: if_splits)

lemma tsk_call_tex:
  assumes r: "tsk_call pchk False gs prid tid body s = Some (e, s')" and i: "tex_ok s"
    and b: "\<And>t. body t s = Some (e, s') \<Longrightarrow> tex_ok s'"
  shows "tex_ok s'"
  using r i by (auto simp: tsk_call_def leave_critical_def split: option.splits Option.bind_splits if_splits intro: b)

lemma def_tex_ok: "tk_def_tex prid tid pk s = Some (e, s') \<Longrightarrow> tex_ok s \<Longrightarrow> tex_ok s'"
  unfolding tk_def_tex_def by (erule tsk_call_tex) (auto simp: tex_ok_def split: if_splits)

lemma set_tex_mask_ok: "set_tex_mask prid tid m b s = Some (e, s') \<Longrightarrow> tex_ok s \<Longrightarrow> tex_ok s'"
  unfolding set_tex_mask_def
  by (erule tsk_call_tex) (auto simp: Let_def bit_simps tex_okD intro!: tex_okI split: if_splits)

lemma request_tex_ok [simp]: "tex_ok (request_tex t s) \<longleftrightarrow> tex_ok s"
  by (auto simp: request_tex_def tex_ok_def)

lemma raise_tex_ok: "raise_tex prid tid t n s = Some (r, s') \<Longrightarrow> tex_ok s \<Longrightarrow> tex_ok s'"
  unfolding raise_tex_def
  by (auto simp: Let_def bit_simps tex_okD intro!: tex_ok_narrow split: if_splits Option.bind_splits)

lemma end_tex_ok: "tk_end_tex b prid s = Some (r, s') \<Longrightarrow> tex_ok s \<Longrightarrow> tex_ok s'"
  unfolding tk_end_tex_def
  by (auto simp: Let_def bit_simps tex_okD intro!: tex_ok_narrow split: if_splits Option.bind_splits option.splits)

lemma tex_ok_umem [simp]: "tex_ok (s\<lparr>umem := m\<rparr>) \<longleftrightarrow> tex_ok s"
  by (simp add: tex_ok_def)

lemma setup_texhdr_ok: 
  assumes r: "setup_texhdr prid ssp usp s = Some (u, s')" and i: "tex_ok s"
  shows "tex_ok s'"
proof -
  from r obtain t where t: "ctxtsk s prid = Some t" by (auto simp: setup_texhdr_def split: Option.bind_splits)
  let ?s = "upd_tcb t (\<lambda>c. c\<lparr>reqdct := 0\<rparr>) s"
  have k: "tex_ok ?s" by (rule tex_ok_narrow [OF i]) (simp add: tex_okD [OF i])
  have "tex_ok (upd_tcb t (\<lambda>c. c\<lparr>exectex := 0, pendtex := pendtex c AND NOT (push_bit n 1), texflg := x c\<rparr>) ?s)" for n x
    by (rule tex_ok_narrow [OF k]) (auto simp: bit_simps tex_okD [OF i])
  then show ?thesis using r k unfolding setup_texhdr_def t
    by (cases "find (\<lambda>n. exectex (tcbs ?s t) AND push_bit n 1 \<noteq> 0) [0..<32]") (auto simp: Let_def simp del: push_bit_of_1)
qed

lemma end_tex_lowest:
  assumes "CHECK_DISPATCH prid s = (True, E_CTX)" and c: "ctxtsk s prid = Some t"
    and x: "texflg (tcbs s t) AND (TEX0_RUNNING OR TEX1_RUNNING) = TEX1_RUNNING"
  shows "\<exists>n s'. tk_end_tex enatex prid s = Some (int n, s') \<and>
     (if pendtex (tcbs s t) AND NOT 1 = 0 then n = 0
      else n > 0 \<and> bit (pendtex (tcbs s t)) n \<and> (\<forall>m. 0 < m \<and> m < n \<longrightarrow> \<not> bit (pendtex (tcbs s t)) m))"
proof (cases "pendtex (tcbs s t) AND NOT 1 = 0")
  case True
  then show ?thesis using assms by (auto simp: tk_end_tex_def intro!: exI [where x = 0])
next
  case False
  obtain n where n: "texcd_scan (pendtex (tcbs s t) AND NOT 1) 0 = Some (0 + int n)" "bit (pendtex (tcbs s t) AND NOT 1) n"
    "\<forall>m<n. \<not> bit (pendtex (tcbs s t) AND NOT 1) m"
    using texcd_scan_ok [OF False] by blast
  have "n > 0" using n(2) by (cases n) (auto simp: bit_simps)
  moreover have "bit (pendtex (tcbs s t)) n" using n(2) by (simp add: bit_simps)
  moreover have "\<not> bit (pendtex (tcbs s t)) m" if "0 < m" "m < n" for m
    using n(3) that bit_imp_le_length [OF n(2)] by (auto simp: bit_simps)
  ultimately show ?thesis using assms False n(1) by (auto simp: tk_end_tex_def Let_def intro!: exI [where x = n])
qed

section \<open>What locking leaves alone\<close>

text \<open>The parts of the control blocks that only this module changes.\<close>

definition svc_part :: "tcb \<Rightarrow> UH \<times> UW \<times> UW \<times> int \<times> UH" where
  "svc_part c = (execssid c, waitmask c, exectex c, sysmode c, texflg c)"

definition svc_view :: "kstate \<Rightarrow> (nat \<Rightarrow> UH \<times> UW \<times> UW \<times> int \<times> UH) \<times> (nat \<Rightarrow> nat option)" where
  "svc_view s = (\<lambda>t. svc_part (tcbs s t), ctxtsk s)"

lemma svc_part_sel [simp]:
  "svc_part (c\<lparr>slicecnt := x\<rparr>) = svc_part c" "svc_part (c\<lparr>klockwait := b\<rparr>) = svc_part c" "svc_part (c\<lparr>svclocked := l\<rparr>) = svc_part c"
  by (simp_all add: svc_part_def)

lemma svc_view_upd [simp]: "svc_part (f (tcbs s t)) = svc_part (tcbs s t) \<Longrightarrow> svc_view (upd_tcb t f s) = svc_view s"
  by (auto simp: svc_view_def fun_eq_iff)

lemma svc_view_simps [simp]:
  "svc_view (set_que q xs s) = svc_view s" "svc_view (QueInsert_tail t q s) = svc_view s" "svc_view (QueRemove_tsk t s) = svc_view s"
  "svc_view (s\<lparr>rq_top := x\<rparr>) = svc_view s" "svc_view (s\<lparr>rq_chg := b\<rparr>) = svc_view s" "svc_view (s\<lparr>rq_top := x, rq_chg := b\<rparr>) = svc_view s"
  "svc_view (s\<lparr>rq_bitmap := bm\<rparr>) = svc_view s" "svc_view (s\<lparr>rq_klocktsk := k\<rparr>) = svc_view s"
  "svc_view (s\<lparr>schedtsk := sc\<rparr>) = svc_view s" "svc_view (upd_ko g s) = svc_view s"
  by (simp_all add: svc_view_def upd_ko_def set_que_def QueInsert_tail_def QueRemove_tsk_def)

lemma svc_view_delete [simp]: "svc_view (ready_queue_delete t s) = svc_view s"
  by (simp add: ready_queue_delete_def rq_unlink_def Let_def)

lemma svc_view_insert [simp]: "svc_view (ready_queue_insert t s) = svc_view s"
  by (simp add: ready_queue_insert_def Let_def)

lemma svc_view_move_last [simp]: "svc_view (snd (ready_queue_move_last t s)) = svc_view s"
  by (simp add: ready_queue_move_last_def Let_def split_beta)

lemma svc_view_slice [simp]: "svc_view (snd (time_slice_schedule x s)) = svc_view s"
  by (simp add: time_slice_schedule_def Let_def split: option.splits)

lemma svc_view_top: "ready_queue_top s = Some (x, s') \<Longrightarrow> svc_view s' = svc_view s"
  by (auto simp: ready_queue_top_def)

lemma svc_view_update: "update_schedtsk s = Some s' \<Longrightarrow> svc_view s' = svc_view s"
proof -
  have "svc_view (foldl (reschedule_step x) u is) = svc_view u" for u x "is"
    by (induction "is" arbitrary: u) (simp_all add: reschedule_step_def Let_def)
  then show "update_schedtsk s = Some s' \<Longrightarrow> svc_view s' = svc_view s"
    by (auto simp: update_schedtsk_def reschedule_def split: if_splits Option.bind_splits dest: svc_view_top)
qed

lemma svc_view_store: "store_top s = Some s' \<Longrightarrow> svc_view s' = svc_view s"
  by (auto simp: store_top_def split: Option.bind_splits dest: svc_view_top)

lemma svc_view_klock_wait: "klock_wait t q s = Some s' \<Longrightarrow> svc_view s' = svc_view s"
  unfolding klock_wait_def Let_def by (drule svc_view_store) simp

lemma LockSVC_view: "LockSVC prid loc s = Some (got, s') \<Longrightarrow> svc_view s' = svc_view s"
  unfolding LockSVC_def
  by (auto simp: Let_def split: Option.bind_splits if_splits list.splits dest!: svc_view_klock_wait svc_view_update)

lemma LockSVC_free: "LockSVC prid loc s = Some (got, s') \<Longrightarrow> \<not> svclock_held (ko s) loc \<Longrightarrow> got"
  unfolding LockSVC_def by (auto simp: Let_def split: Option.bind_splits if_splits list.splits)

lemma release_svc_view [simp]: "svc_view (release_svc t loc s) = svc_view s"
  by (auto simp: release_svc_def Let_def split: list.splits)

lemma UnlockSVC_view: "UnlockSVC prid s = Some s' \<Longrightarrow> svc_view s' = svc_view s"
  unfolding UnlockSVC_def
  by (auto simp: Let_def split: Option.bind_splits if_splits list.splits dest!: svc_view_store svc_view_update)

lemma in_ks_Some: "in_ks f s = Some s' \<longleftrightarrow> (\<exists>k. f (ks s) = Some k \<and> s' = s\<lparr>ks := k\<rparr>)"
  by (auto simp: in_ks_def)

lemma lock_svc_free:
  assumes "lock_svc env loc prid s = Some (p, s')" and "\<not> svclock_held (ko (ks s)) loc"
  shows "p = prid" "svc_view (ks s') = svc_view (ks s)" "tables_kept s s'"
proof -
  from assms(1) obtain got k where k: "LockSVC prid loc (ks s) = Some (got, k)"
    by (subst (asm) lock_svc.simps) (auto simp: lift_ks_def split: Option.bind_splits)
  from LockSVC_free [OF k assms(2)] have g: "got" .
  show "p = prid" "svc_view (ks s') = svc_view (ks s)" "tables_kept s s'"
    using assms(1) k g LockSVC_view [OF k] by (subst (asm) lock_svc.simps, auto simp: lift_ks_def tables_kept_def)+
qed

lemma svc_viewD:
  assumes "svc_view s' = svc_view s"
  shows "execssid (tcbs s' t) = execssid (tcbs s t)" "waitmask (tcbs s' t) = waitmask (tcbs s t)" "exectex (tcbs s' t) = exectex (tcbs s t)"
    "sysmode (tcbs s' t) = sysmode (tcbs s t)" "texflg (tcbs s' t) = texflg (tcbs s t)" "ctxtsk s' = ctxtsk s"
  using assms by (auto simp: svc_view_def svc_part_def fun_eq_iff)

text \<open>
  The task's state in an extended SVC: entering records the subsystem, lets the task wait again and forgets exceptions whose break
  function has run; on return all this is as before, and exceptions from before the call are not lost.
\<close>

definition svc_enter :: "int \<Rightarrow> tcb \<Rightarrow> tcb" where
  "svc_enter ssid c = c\<lparr>execssid := word_of_int ssid, waitmask := 0, exectex := (if sint (execssid c) < 0 then 0 else exectex c),
     sysmode := sysmode c + 1\<rparr>"

definition svc_leave :: "tcb \<Rightarrow> tcb \<Rightarrow> tcb" where
  "svc_leave save c = c\<lparr>sysmode := sysmode c - 1, execssid := execssid save, waitmask := waitmask save, exectex := exectex c OR exectex save\<rparr>"

lemma svc_ientry_cases:
  assumes r: "svc_ientry uh env para fncd prid s = Some (e, p', s')"
    and v: "1 \<le> uint (fncd AND 0xff)" "uint (fncd AND 0xff) \<le> max_ssyid s" and n: "\<not> in_indp prid (ks s)"
    and c: "ctxtsk (ks s) prid = Some t"
  obtains (disabled) p s1 where "lock_svc env (SvcTsk t) prid s = Some (p, s1)" "waitmask (stcb s1 t) AND TTX_SVC \<noteq> 0"
      "e = E_DISWAI" "p' = p" "in_ks (UnlockSVC p) s1 = Some s'"
  | (called) p s1 s3 p2 s4 p1 s5 u where "lock_svc env (SvcTsk t) prid s = Some (p, s1)" "waitmask (stcb s1 t) AND TTX_SVC = 0"
      "in_ks (UnlockSVC p) (upd_stcb t (svc_enter (uint (fncd AND 0xff))) s1) = Some s3"
      "svc_handler uh (INDEX_SSY (uint (fncd AND 0xff))) para fncd p s3 = Some (e, p2, s4)"
      "lock_svc env (SvcTsk t) p2 s4 = Some (p1, s5)" "in_ks (UnlockSVC p1) (upd_stcb t (svc_leave (stcb s1 t)) s5) = Some u"
      "brk_if_exectex uh t p1 u = Some (p', s')"
proof -
  have f: "svc_enter i = (\<lambda>c. c\<lparr>execssid := word_of_int i, waitmask := 0, exectex := (if sint (execssid c) < 0 then 0 else exectex c), sysmode := sysmode c + 1\<rparr>)"
    "svc_leave v = (\<lambda>c. c\<lparr>sysmode := sysmode c - 1, execssid := execssid v, waitmask := waitmask v, exectex := exectex c OR exectex v\<rparr>)" for i v
    by (simp_all add: fun_eq_iff svc_enter_def svc_leave_def)
  from r v n c obtain p s1 where s1: "lock_svc env (SvcTsk t) prid s = Some (p, s1)"
    by (auto simp: svc_ientry_def Let_def split: Option.bind_splits)
  show thesis
  proof (cases "waitmask (stcb s1 t) AND TTX_SVC = 0")
    case False
    then show ?thesis using r v n c s1 by (intro disabled [of p s1]) (auto simp: svc_ientry_def Let_def split: Option.bind_splits)
  next
    case True
    from r v n c s1 True obtain s3 where
      s3: "in_ks (UnlockSVC p) (upd_stcb t (svc_enter (uint (fncd AND 0xff))) s1) = Some s3"
      by (auto simp: svc_ientry_def Let_def f split: Option.bind_splits)
    from r v n c s1 True s3 obtain p2 s4 where s4: "svc_handler uh (INDEX_SSY (uint (fncd AND 0xff))) para fncd p s3 = Some (e, p2, s4)"
      by (auto simp: svc_ientry_def Let_def f split: Option.bind_splits)
    from r v n c s1 True s3 s4 obtain p1 s5 where s5: "lock_svc env (SvcTsk t) p2 s4 = Some (p1, s5)"
      by (auto simp: svc_ientry_def Let_def f split: Option.bind_splits)
    from r v n c s1 True s3 s4 s5 obtain u where "in_ks (UnlockSVC p1) (upd_stcb t (svc_leave (stcb s1 t)) s5) = Some u"
      "brk_if_exectex uh t p1 u = Some (p', s')"
      by (auto simp: svc_ientry_def Let_def f split: Option.bind_splits)
    with s1 True s3 s4 s5 show ?thesis by (rule called)
  qed
qed

lemma unlock_tcb:
  assumes "in_ks (UnlockSVC p) (upd_stcb t f s) = Some s'"
  shows "svc_part (stcb s' t) = svc_part (f (stcb s t))"
  using assms by (auto simp: in_ks_Some upd_stcb_def svc_view_def fun_eq_iff dest!: UnlockSVC_view)

lemma svc_restores:
  assumes r: "svc_ientry uh env para fncd prid s = Some (e, p', s')"
    and v: "1 \<le> uint (fncd AND 0xff)" "uint (fncd AND 0xff) \<le> max_ssyid s" and n: "\<not> in_indp prid (ks s)"
    and c: "ctxtsk (ks s) prid = Some t" and l: "\<not> svclock_held (ko (ks s)) (SvcTsk t)"
  shows "if waitmask (stcb s t) AND TTX_SVC \<noteq> 0 then e = E_DISWAI \<and> svc_view (ks s') = svc_view (ks s)
     else \<exists>s3 p2 s4 p1 u. svc_handler uh (INDEX_SSY (uint (fncd AND 0xff))) para fncd prid s3 = Some (e, p2, s4) \<and>
       svc_part (stcb s3 t) = svc_part (svc_enter (uint (fncd AND 0xff)) (stcb s t)) \<and>
       brk_if_exectex uh t p1 u = Some (p', s') \<and> execssid (stcb u t) = execssid (stcb s t) \<and>
       waitmask (stcb u t) = waitmask (stcb s t) \<and> exectex (stcb u t) AND exectex (stcb s t) = exectex (stcb s t)"
  using r v n c
proof (cases rule: svc_ientry_cases)
  case (disabled p s1)
  then show ?thesis using lock_svc_free [OF disabled(1) l] svc_viewD(2) [of "ks s1" "ks s" t]
    by (auto simp: in_ks_Some dest!: UnlockSVC_view)
next
  case (called p s1 s3 p2 s4 p1 s5 u)
  note k = lock_svc_free [OF called(1) l]
  note d = svc_viewD [OF k(2)]
  have "svc_part (svc_enter i (stcb s1 t)) = svc_part (svc_enter i (stcb s t))" for i using d by (simp add: svc_enter_def svc_part_def)
  then have a: "svc_part (stcb s3 t) = svc_part (svc_enter (uint (fncd AND 0xff)) (stcb s t))" using unlock_tcb [OF called(3)] by simp
  have o: "(x OR y) AND y = y" for x y :: UW by (rule bit_word_eqI) (auto simp: bit_simps)
  have b: "execssid (stcb u t) = execssid (stcb s t)" "waitmask (stcb u t) = waitmask (stcb s t)"
    "exectex (stcb u t) AND exectex (stcb s t) = exectex (stcb s t)"
    using unlock_tcb [OF called(6)] d by (auto simp: svc_leave_def svc_part_def o)
  show ?thesis using called(2,4,7) k(1) a b d(2) [of t] by auto
qed

end
