(* ===== verification/Subsystem_Properties.thy ===== *)
theory Subsystem_Properties
  imports Subsystem_Inv Object_Properties
begin

text \<open>
  The main statements about subsystems, extended SVCs, task exceptions and resource groups, with a kernel that has three subsystems.
\<close>

section \<open>Definition of subsystems\<close>

lemma ssy_lists_kept: "tables_kept s s' \<Longrightarrow> ssy_lists s' L \<longleftrightarrow> ssy_lists s L"
  by (simp add: ssy_lists_def tables_kept_def registered_def)

lemma zero_bytes_sel [simp]:
  "ssycb_table (zero_bytes a n s) = ssycb_table s" "ssypri_table (zero_bytes a n s) = ssypri_table s"
  "max_ssyid (zero_bytes a n s) = max_ssyid s" "max_ssypri (zero_bytes a n s) = max_ssypri s"
  by (simp_all add: zero_bytes_def)

text \<open>The reason for which \<open>tk_def_ssy\<close> refuses.\<close>

definition def_ssy_error :: "UW option \<Rightarrow> int \<Rightarrow> T_DSSY option \<Rightarrow> sys_state \<Rightarrow> ER option" where
  "def_ssy_error mem ssid pk s =
    (if \<not> CHK_SSYID s ssid then Some E_ID
     else case pk of
       None \<Rightarrow> if svchdr (ssycb_table s (INDEX_SSY ssid)) = None then Some E_NOEXS else None
     | Some d \<Rightarrow> if dssy_ssyatr d \<noteq> 0 then Some E_RSATR
                else if dssy_ssypri d < 1 \<or> dssy_ssypri d > max_ssypri s \<or> dssy_resblksz d < 0 then Some E_PAR
                else if dssy_resblksz d > 0 \<and> mem = None then Some E_NOMEM
                else if svchdr (ssycb_table s (INDEX_SSY ssid)) \<noteq> None then Some E_OBJ
                else None)"

definition def_ssy_list :: "int \<Rightarrow> T_DSSY option \<Rightarrow> sys_state \<Rightarrow> (nat \<Rightarrow> nat list) \<Rightarrow> nat \<Rightarrow> nat list" where
  "def_ssy_list ssid pk s L =
    (let i = INDEX_SSY ssid
     in case pk of
          None \<Rightarrow> (let p = ssypri_index (ssypri (ssycb_table s i)) in L(p := remove1 i (L p)))
        | Some d \<Rightarrow> (let p = ssypri_index (dssy_ssypri d) in L(p := i # L p)))"

lemma define_lists:
  assumes "ssy_lists s L"
  shows "\<exists>e s'. tk_def_ssy mem ssid pk s = Some (e, s') \<and>
     (case def_ssy_error mem ssid pk s of Some x \<Rightarrow> e = x \<and> ssy_lists s' L | None \<Rightarrow> e = E_OK \<and> ssy_lists s' (def_ssy_list ssid pk s L))"
proof (cases "CHK_SSYID s ssid")
  case False
  then show ?thesis using assms by (auto simp: tk_def_ssy_def def_ssy_error_def CHECK_SSYID_def)
next
  case True
  let ?i = "INDEX_SSY ssid"
  have i: "int ?i < max_ssyid s" using True by (simp add: CHK_SSYID_def INDEX_SSY_def MIN_SSYID_def)
  show ?thesis
  proof (cases pk)
    case None
    show ?thesis
    proof (cases "svchdr (ssycb_table s ?i) = None")
      case False
      from ssy_delete_lists [OF assms i False refl] show ?thesis
        using True False None by (auto simp: tk_def_ssy_def def_ssy_error_def def_ssy_list_def CHECK_SSYID_def Let_def)
    qed (use True None assms in \<open>simp add: tk_def_ssy_def def_ssy_error_def CHECK_SSYID_def Let_def\<close>)
  next
    case (Some d)
    define m where "m = (if dssy_resblksz d > 0 then zero_bytes (the mem) (int (max_resid (ko (ks s))) * ROUND_RESBLKSZ (dssy_resblksz d)) s else s)"
    have k: "tables_kept s m" by (simp add: m_def tables_kept_def)
    then have l: "ssy_lists m L" using ssy_lists_kept assms by blast
    have a: "CHECK_RSATR (dssy_ssyatr d) 0 = (dssy_ssyatr d = 0, E_RSATR)" by (simp add: CHECK_RSATR_def)
    show ?thesis
    proof (cases "def_ssy_error mem ssid pk s")
      case None
      have "ssy_lists (ssy_register ?i d b m) (L(ssypri_index (dssy_ssypri d) := ?i # L (ssypri_index (dssy_ssypri d))))" for b
        by (rule ssy_register_lists [OF l _ _ refl])
          (use None i k True in \<open>auto simp: def_ssy_error_def Some tables_kept_def ssypri_index_def MIN_SSYPRI_def split: if_splits\<close>)
      then show ?thesis using None True
        by (auto simp: tk_def_ssy_def def_ssy_error_def def_ssy_list_def Some CHECK_SSYID_def a CHECK_SSYPRI_def CHECK_PAR_def Let_def MIN_SSYPRI_def m_def
            split: if_splits)
    next
      case (Some x)
      then show ?thesis using True l assms \<open>pk = Some d\<close>
        by (auto simp: tk_def_ssy_def def_ssy_error_def CHECK_SSYID_def a CHECK_SSYPRI_def CHECK_PAR_def Let_def MIN_SSYPRI_def m_def split: if_splits)
    qed
  qed
qed

text \<open>
  C19. \<open>tk_def_ssy\<close> always returns. If nothing is wrong it puts the subsystem in front of the list of its priority, or takes it
  out of the list it is in; every error has its reason and leaves the lists as they are.
\<close>

theorem define_subsystem:
  assumes "ssy_lists s L"
  shows "\<exists>e s'. tk_def_ssy mem ssid pk s = Some (e, s') \<and>
     (case def_ssy_error mem ssid pk s of Some x \<Rightarrow> e = x \<and> ssy_lists s' L | None \<Rightarrow> e = E_OK \<and> ssy_lists s' (def_ssy_list ssid pk s L))"
  using assms by (rule define_lists)

section \<open>Calling all subsystems\<close>

definition handlers_keep_tables :: "ssy_handler \<Rightarrow> bool" where
  "handlers_keep_tables uh \<longleftrightarrow> (\<forall>fn a p s e p' s'. uh fn a p s = Some (e, p', s') \<longrightarrow> tables_kept s s')"

lemma handlers_keepD: "handlers_keep_tables uh \<Longrightarrow> uh fn a p s = Some (e, p', s') \<Longrightarrow> tables_kept s s'"
  unfolding handlers_keep_tables_def by blast

lemma tables_kept_refl [simp]: "tables_kept s s"
  by (simp add: tables_kept_def)

lemma tables_kept_clean [simp]: "tables_kept s (clean_resblk i x s') \<longleftrightarrow> tables_kept s s'"
  by (simp add: clean_resblk_def Let_def tables_kept_def)

lemma keeps_tables_fns:
  assumes "handlers_keep_tables uh"
  shows "keeps_tables (sta_fn uh r n)" "keeps_tables (cln_fn uh r n)" "keeps_tables (evt_fn uh b y r n)"
  using assms unfolding keeps_tables_def sta_fn_def cln_fn_def evt_fn_def
  by (auto simp: Let_def split: Option.bind_splits if_splits dest: handlers_keepD)

lemma enter_sel [simp]: "ssycb_table (enter_ssyfn t s) = ssycb_table s" "ssypri_table (enter_ssyfn t s) = ssypri_table s"
  "max_ssyid (enter_ssyfn t s) = max_ssyid s" "max_ssypri (enter_ssyfn t s) = max_ssypri s"
  by (simp_all add: enter_ssyfn_def upd_stcb_def)

lemma ssy_all_order:
  assumes "ssy_lists s L" and "keeps_tables f"
  shows "ssy_all f (ssy_pris s) (p, e, enter_ssyfn t s) = run_list f (concat (map L (ssy_pris s))) (p, e, enter_ssyfn t s)"
    "ssy_all f (rev (ssy_pris s)) (p, e, enter_ssyfn t s) = run_list f (concat (map L (rev (ssy_pris s)))) (p, e, enter_ssyfn t s)"
proof -
  have "tables_kept s (enter_ssyfn t s)" by (simp add: tables_kept_def)
  then have "ssy_lists (enter_ssyfn t s) L" using ssy_lists_kept assms(1) by blast
  then show "ssy_all f (ssy_pris s) (p, e, enter_ssyfn t s) = run_list f (concat (map L (ssy_pris s))) (p, e, enter_ssyfn t s)"
    "ssy_all f (rev (ssy_pris s)) (p, e, enter_ssyfn t s) = run_list f (concat (map L (rev (ssy_pris s)))) (p, e, enter_ssyfn t s)"
    by (auto simp: ssy_pris_def intro!: ssy_all_list [OF assms(2)])
qed

text \<open>What the task does around the functions it calls for the subsystems \<open>xs\<close>.\<close>

definition around :: "ssy_handler \<Rightarrow> nat \<Rightarrow> nat \<Rightarrow> (nat \<Rightarrow> ssy_run \<Rightarrow> ssy_run option) \<Rightarrow> nat list \<Rightarrow> sys_state \<Rightarrow> ssy_run option" where
  "around uh prid t f xs s = do {
     (prid, ercd, u) \<leftarrow> run_list f xs (prid, E_OK, enter_ssyfn t s);
     (prid, u) \<leftarrow> brk_if_exectex uh t prid (leave_ssyfn t (texflg (stcb s t)) u);
     Some (prid, ercd, u)
   }"

text \<open>
  C20. With subsystem 0, \<open>tk_sta_ssy\<close> calls the start-up function of every registered subsystem exactly once, those of higher priority
  first; \<open>tk_cln_ssy\<close> goes through the priorities the other way.
\<close>

theorem startup_order:
  assumes "ssy_lists s L" and "handlers_keep_tables uh" and "ctxtsk (ks s) prid = Some t"
    and "guards [CHECK_RESID (ks s) r, CHECK_DISPATCH prid (ks s)] = None"
  shows "tk_sta_ssy uh prid 0 r n s = around uh prid t (sta_fn uh r n) (concat (map L (ssy_pris s))) s \<and>
     tk_cln_ssy uh prid 0 r n s = around uh prid t (cln_fn uh r n) (concat (map L (rev (ssy_pris s)))) s \<and>
     distinct (concat (map L (ssy_pris s))) \<and>
     set (concat (map L (ssy_pris s))) = {i. int i < max_ssyid s \<and> svchdr (ssycb_table s i) \<noteq> None}"
proof -
  note f = keeps_tables_fns [OF assms(2)]
  have g: "guards [CHECK_SSYID_ALL s 0, CHECK_RESID (ks s) r, CHECK_DISPATCH prid (ks s)] = None"
    using assms(4) by (simp add: CHECK_SSYID_ALL_def)
  have l: "distinct (L p) \<and> set (L p) = registered s p" if "p \<in> set (ssy_pris s)" for p
    using ssy_listsD(2,3) [OF assms(1)] that by (auto simp: ssy_pris_def)
  have "distinct (concat (map L ps))" if "distinct ps" "set ps \<subseteq> set (ssy_pris s)" for ps
    using that by (induction ps) (auto simp: l registered_def)
  then have d: "distinct (concat (map L (ssy_pris s)))" by (simp add: ssy_pris_def)
  have "i \<in> registered s (ssypri_index (ssypri (ssycb_table s i))) \<longleftrightarrow> int i < max_ssyid s \<and> svchdr (ssycb_table s i) \<noteq> None" for i
    by (simp add: registered_def)
  moreover have "registered s p \<noteq> {} \<Longrightarrow> p \<in> set (ssy_pris s)" for p
    using assms(1) by (cases "int p < max_ssypri s") (auto simp: ssy_lists_def ssy_pris_def)
  ultimately have "(\<exists>p\<in>set (ssy_pris s). i \<in> registered s p) \<longleftrightarrow> int i < max_ssyid s \<and> svchdr (ssycb_table s i) \<noteq> None" for i
    by (auto simp: registered_def)
  then have e: "set (concat (map L (ssy_pris s))) = {i. int i < max_ssyid s \<and> svchdr (ssycb_table s i) \<noteq> None}" using l by auto
  show ?thesis
    using assms(3) d e by (simp add: tk_sta_ssy_def tk_cln_ssy_def ssy_call_def g around_def Let_def ssy_all_order [OF assms(1) f(1)] ssy_all_order [OF assms(1) f(2)] del: guards.simps)
qed


section \<open>A kernel with three subsystems\<close>

definition ssy_zero :: SSYCB where
  "ssy_zero = \<lparr>ssy_link = None, ssyatr = 0, ssypri = 0, svchdr = None, breakfn = 0, startupfn = 0, cleanupfn = 0, eventfn = 0,
     resblksz = 0, resblk = 0\<rparr>"

definition ssy_raw :: sys_state where
  "ssy_raw = \<lparr>ks = running_state, ssycb_table = (\<lambda>_. ssy_zero), max_ssyid = 0, max_ssypri = 0, ssypri_table = (\<lambda>_. None), resid_bitmap = []\<rparr>"

definition ssy_boot :: sys_state where
  "ssy_boot = snd (resource_group_initialize (1, 10) True (snd (subsystem_initialize (1, 3) (1, 2) True True ssy_raw)))"

definition ssy_packet :: "int \<Rightarrow> UW \<Rightarrow> T_DSSY" where
  "ssy_packet p fn = \<lparr>dssy_ssyatr = 0, dssy_ssypri = p, dssy_svchdr = 100 + fn, dssy_breakfn = 0, dssy_startupfn = fn, dssy_cleanupfn = fn,
     dssy_eventfn = 0, dssy_resblksz = 6\<rparr>"

definition ssy_one :: sys_state where "ssy_one = snd (the (tk_def_ssy (Some 1000) 1 (Some (ssy_packet 2 1)) ssy_boot))"
definition ssy_two :: sys_state where "ssy_two = snd (the (tk_def_ssy (Some 2000) 2 (Some (ssy_packet 1 2)) ssy_one))"
definition ssy_three :: sys_state where "ssy_three = snd (the (tk_def_ssy (Some 3000) 3 (Some (ssy_packet 2 3)) ssy_two))"

text \<open>A handler that writes down its calls, as decimal digits.\<close>

definition log_handler :: ssy_handler where
  "log_handler fn args prid s = Some (0, prid, upd_ks (\<lambda>k. k\<lparr>umem := (umem k)(0 := 10 * umem k 0 + fn)\<rparr>) s)"

lemma log_handler_keeps: "handlers_keep_tables log_handler"
  by (simp add: handlers_keep_tables_def log_handler_def tables_kept_def)

definition three_lists :: "nat \<Rightarrow> nat list" where
  "three_lists p = (if p = 0 then [1] else if p = 1 then [2, 0] else [])"

lemma ssy_boot_lists: "ssy_lists ssy_boot (\<lambda>_. [])"
  by (simp add: ssy_lists_def registered_def ssy_boot_def resource_group_initialize_def subsystem_initialize_def ssy_raw_def no_ssycb_def Let_def)

lemma ssy_runs:
  "def_ssy_error (Some 1000) 1 (Some (ssy_packet 2 1)) ssy_boot = None" "tk_def_ssy (Some 1000) 1 (Some (ssy_packet 2 1)) ssy_boot \<noteq> None"
  "def_ssy_error (Some 2000) 2 (Some (ssy_packet 1 2)) ssy_one = None" "tk_def_ssy (Some 2000) 2 (Some (ssy_packet 1 2)) ssy_one \<noteq> None"
  "def_ssy_error (Some 3000) 3 (Some (ssy_packet 2 3)) ssy_two = None" "tk_def_ssy (Some 3000) 3 (Some (ssy_packet 2 3)) ssy_two \<noteq> None"
  by code_simp+

lemma define_step:
  assumes "ssy_lists s L" and "def_ssy_error mem ssid pk s = None" and "s' = snd (the (tk_def_ssy mem ssid pk s))"
  shows "ssy_lists s' (def_ssy_list ssid pk s L)"
  using define_lists [OF assms(1), of mem ssid pk] assms(2,3) by auto

lemma ssy_three_lists: "ssy_lists ssy_three three_lists"
proof -
  note a = define_step [OF ssy_boot_lists ssy_runs(1) ssy_one_def]
  note b = define_step [OF a ssy_runs(3) ssy_two_def]
  note c = define_step [OF b ssy_runs(5) ssy_three_def]
  have "def_ssy_list 3 (Some (ssy_packet 2 3)) ssy_two (def_ssy_list 2 (Some (ssy_packet 1 2)) ssy_one
      (def_ssy_list 1 (Some (ssy_packet 2 1)) ssy_boot (\<lambda>_. []))) = three_lists"
    by (auto simp: def_ssy_list_def three_lists_def ssy_packet_def INDEX_SSY_def MIN_SSYID_def ssypri_index_def MIN_SSYPRI_def fun_eq_iff)
  with c show ?thesis by simp
qed

theorem define_subsystem_witness:
  "\<exists>e s'. tk_def_ssy None 3 None ssy_three = Some (e, s') \<and> e = E_OK \<and> ssy_lists s' (three_lists(1 := [0]))"
proof -
  have e: "def_ssy_error None 3 None ssy_three = None" "ssypri (ssycb_table ssy_three 2) = 2" by code_simp+
  have l: "def_ssy_list 3 None ssy_three three_lists = three_lists(1 := [0])"
    using e(2) by (simp add: def_ssy_list_def INDEX_SSY_def MIN_SSYID_def ssypri_index_def MIN_SSYPRI_def three_lists_def)
  show ?thesis using define_subsystem [OF ssy_three_lists, of None 3 None] by (simp add: e l)
qed

text \<open>The start-up functions 2, 3 and 1 run in this order, the clean-up functions of the subsystems 3, 1 and 2.\<close>

theorem startup_order_witness:
  "tk_sta_ssy log_handler 0 0 5 7 ssy_three = around log_handler 0 0 (sta_fn log_handler 5 7) [1, 2, 0] ssy_three \<and>
   map_option (\<lambda>(p, e, s). (e, umem (ks s) 0)) (tk_sta_ssy log_handler 0 0 5 7 ssy_three) = Some (E_OK, 231) \<and>
   map_option (\<lambda>(p, e, s). (e, umem (ks s) 0)) (tk_cln_ssy log_handler 0 0 5 7 ssy_three) = Some (E_OK, 312)"
proof -
  have g: "guards [CHECK_RESID (ks ssy_three) 5, CHECK_DISPATCH 0 (ks ssy_three)] = None" "ctxtsk (ks ssy_three) 0 = Some 0" "ssy_pris ssy_three = [0, 1]"
    by code_simp+
  have r: "map_option (\<lambda>(p, e, s). (e, umem (ks s) 0)) (around log_handler 0 0 (sta_fn log_handler 5 7) [1, 2, 0] ssy_three) = Some (E_OK, 231)"
    "map_option (\<lambda>(p, e, s). (e, umem (ks s) 0)) (around log_handler 0 0 (cln_fn log_handler 5 7) [2, 0, 1] ssy_three) = Some (E_OK, 312)"
    by code_simp+
  show ?thesis using startup_order [OF ssy_three_lists log_handler_keeps g(2,1), of 7] r by (simp add: g(3) three_lists_def)
qed

section \<open>Extended SVCs\<close>

text \<open>
  C21. An extended SVC of a task whose lock is free is refused if the task must not make one, and changes nothing then. Otherwise the handler runs
  with the subsystem recorded, waiting allowed, and no exception left over whose break function has run; on return, before a break
  function that has become due, the task has its subsystem and its mask of forbidden waits back, and no exception from before the call is lost.
\<close>

theorem svc_state_restored:
  assumes "svc_ientry uh env para fncd prid s = Some (e, p', s')"
    and "1 \<le> uint (fncd AND 0xff)" and "uint (fncd AND 0xff) \<le> max_ssyid s" and "\<not> in_indp prid (ks s)"
    and "ctxtsk (ks s) prid = Some t" and "\<not> svclock_held (ko (ks s)) (SvcTsk t)"
  shows "if waitmask (stcb s t) AND TTX_SVC \<noteq> 0 then e = E_DISWAI \<and> svc_view (ks s') = svc_view (ks s)
     else \<exists>s3 p2 s4 p1 u. svc_handler uh (INDEX_SSY (uint (fncd AND 0xff))) para fncd prid s3 = Some (e, p2, s4) \<and>
       svc_part (stcb s3 t) = svc_part (svc_enter (uint (fncd AND 0xff)) (stcb s t)) \<and>
       brk_if_exectex uh t p1 u = Some (p', s') \<and> execssid (stcb u t) = execssid (stcb s t) \<and>
       waitmask (stcb u t) = waitmask (stcb s t) \<and> exectex (stcb u t) AND exectex (stcb s t) = exectex (stcb s t)"
  using assms by (rule svc_restores)

declare lock_svc.simps [code]

lemma svc_run:
  "map_option (\<lambda>(e, p, s). (e, p, umem (ks s) 0)) (svc_ientry log_handler (\<lambda>p s. None) 5 0x101 0 ssy_three) = Some (0, 0, 101)"
  by code_simp

lemma svc_start: "\<not> in_indp 0 (ks ssy_three)" "ctxtsk (ks ssy_three) 0 = Some 0" "\<not> svclock_held (ko (ks ssy_three)) (SvcTsk 0)"
  "max_ssyid ssy_three = 3" "waitmask (stcb ssy_three 0) AND TTX_SVC = 0" "execssid (stcb ssy_three 0) = 0"
  by code_simp+

theorem svc_state_restored_witness:
  "\<exists>s' s3 p2 s4 p1 u. svc_ientry log_handler (\<lambda>p s. None) 5 0x101 0 ssy_three = Some (0, 0, s') \<and>
     svc_handler log_handler 0 5 0x101 0 s3 = Some (0, p2, s4) \<and> execssid (stcb s3 0) = 1 \<and>
     brk_if_exectex log_handler 0 p1 u = Some (0, s') \<and> execssid (stcb u 0) = 0"
proof -
  obtain s' where r: "svc_ientry log_handler (\<lambda>p s. None) 5 0x101 0 ssy_three = Some (0, 0, s')" using svc_run by auto
  have i: "INDEX_SSY (uint ((0x101 :: UW) AND 0xff)) = 0" "uint ((0x101 :: UW) AND 0xff) = 1" "INDEX_SSY 1 = 0" by code_simp+
  show ?thesis
    using svc_state_restored [OF r _ _ svc_start(1-3)] r
    by (simp add: i svc_start(4-6) svc_part_def svc_enter_def) blast
qed

section \<open>Task exceptions\<close>

text \<open>
  C22. Only enabled task exceptions are pending, and every call on task exceptions keeps it so: also disabling, which takes back what
  is pending, and raising, which adds only what is enabled.
\<close>

theorem pending_enabled:
  assumes "tex_ok s"
  shows "(tk_def_tex prid tid pk s = Some (e, s') \<longrightarrow> tex_ok s') \<and> (tk_ena_tex prid tid m s = Some (e, s') \<longrightarrow> tex_ok s') \<and>
     (tk_dis_tex prid tid m s = Some (e, s') \<longrightarrow> tex_ok s') \<and> (raise_tex prid tid t n s = Some (r, s') \<longrightarrow> tex_ok s') \<and>
     (tk_end_tex b prid s = Some (c, s') \<longrightarrow> tex_ok s') \<and> (setup_texhdr prid ssp usp s = Some (u, s') \<longrightarrow> tex_ok s')"
  unfolding tk_ena_tex_def tk_dis_tex_def
  by (intro conjI impI; elim def_tex_ok set_tex_mask_ok raise_tex_ok end_tex_ok setup_texhdr_ok) (rule assms)+

text \<open>Task 0, at protection level 3, gets a handler, enables the exceptions 1, 2 and 4, and three of them are raised while one is handled.\<close>

definition tex_user :: kstate where
  "tex_user = upd_tcb 0 (\<lambda>c. c\<lparr>tskatr := tskatr c OR TA_RNG3, isysmode := 0\<rparr>) running_state"

definition tex_def :: kstate where "tex_def = snd (the (tk_def_tex 0 TSK_SELF (Some (0, 0x1000)) tex_user))"
definition tex_ena :: kstate where "tex_ena = snd (the (tk_ena_tex 0 TSK_SELF 0x16 tex_def))"
definition tex_run :: kstate where
  "tex_run = upd_tcb 0 (\<lambda>c. c\<lparr>texflg := texflg c OR TEX1_RUNNING\<rparr>) tex_ena"
definition tex_two :: kstate where "tex_two = snd (the (raise_tex 0 TSK_SELF 0 4 tex_run))"
definition tex_pend :: kstate where "tex_pend = snd (the (raise_tex 0 TSK_SELF 0 2 tex_two))"

lemma tex_runs:
  "map_option fst (tk_def_tex 0 TSK_SELF (Some (0, 0x1000)) tex_user) = Some E_OK" "map_option fst (tk_ena_tex 0 TSK_SELF 0x16 tex_def) = Some E_OK"
  "map_option fst (raise_tex 0 TSK_SELF 0 4 tex_run) = Some (E_OK, False)" "map_option fst (raise_tex 0 TSK_SELF 0 2 tex_two) = Some (E_OK, False)"
  "pendtex (tcbs tex_pend 0) = 0x14" "texmask (tcbs tex_pend 0) = 0x16" "CHECK_DISPATCH 0 tex_pend = (True, E_CTX)" "ctxtsk tex_pend 0 = Some 0"
  "texflg (tcbs tex_pend 0) AND (TEX0_RUNNING OR TEX1_RUNNING) = TEX1_RUNNING"
  by code_simp+

lemma tex_user_ok: "tex_ok tex_user"
proof -
  have "tex_ok running_state" 
  proof (rule tex_okI)
    fix t n
    obtain s where f: "sched_frame (run_task 1 20 (run_task 0 10 boot_state)) s" and r: "running_state = dispatch_on 0 (dispatch_on 1 s)"
      using running_frame_sched by blast
    have p: "pendtex (tcbs (run_task 1 20 (run_task 0 10 boot_state)) t) = 0"
      by (simp add: tcbs_run_task) (simp add: boot_state_def blank_tcb_def)
    have "(tcbs s t)\<lparr>slicecnt := 0\<rparr> = (tcbs (run_task 1 20 (run_task 0 10 boot_state)) t)\<lparr>slicecnt := 0\<rparr>"
      using f unfolding sched_frame_def by blast
    then have "pendtex ((tcbs s t)\<lparr>slicecnt := 0\<rparr>) = pendtex ((tcbs (run_task 1 20 (run_task 0 10 boot_state)) t)\<lparr>slicecnt := 0\<rparr>)" by (rule arg_cong)
    then have "pendtex (tcbs running_state t) = 0" by (simp add: r dispatch_on_def p del: One_nat_def)
    then show "bit (pendtex (tcbs running_state t)) n \<Longrightarrow> bit (texmask (tcbs running_state t)) n" by simp
  qed
  then show ?thesis unfolding tex_user_def by (intro tex_ok_narrow) (auto simp: tex_okD)
qed

lemma tex_pend_ok: "tex_ok tex_pend"
proof -
  have "tex_ok tex_def" using def_tex_ok [of 0 TSK_SELF "Some (0, 0x1000)" tex_user E_OK tex_def] tex_runs(1) tex_user_ok by (auto simp: tex_def_def)
  then have "tex_ok tex_ena" using set_tex_mask_ok [of 0 TSK_SELF "0x16" True tex_def E_OK tex_ena] tex_runs(2) by (auto simp: tex_ena_def tk_ena_tex_def)
  then have "tex_ok tex_run" unfolding tex_run_def by (intro tex_ok_narrow) (auto simp: tex_okD)
  then have "tex_ok tex_two" using raise_tex_ok [where s = tex_run and s' = tex_two] tex_runs(3) by (auto simp: tex_two_def)
  then show ?thesis using raise_tex_ok [where s = tex_two and s' = tex_pend] tex_runs(4) by (auto simp: tex_pend_def)
qed

text \<open>When the exceptions 2 and 4 are disabled again they are no longer pending.\<close>

theorem pending_enabled_witness:
  "\<exists>s'. tk_dis_tex 0 TSK_SELF 0x14 tex_pend = Some (E_OK, s') \<and> tex_ok s' \<and> pendtex (tcbs s' 0) = 0"
proof -
  have "map_option (\<lambda>(e, s). (e, pendtex (tcbs s 0))) (tk_dis_tex 0 TSK_SELF 0x14 tex_pend) = Some (E_OK, 0)" by code_simp
  then obtain s' where s': "tk_dis_tex 0 TSK_SELF 0x14 tex_pend = Some (E_OK, s')" "pendtex (tcbs s' 0) = 0" by auto
  then show ?thesis using pending_enabled [OF tex_pend_ok, where m = "0x14" and s' = s' and e = E_OK and prid = 0 and tid = TSK_SELF] by blast
qed

text \<open>
  C24. \<open>tk_end_tex\<close> always returns: the lowest pending exception other than 0, or 0 if there is none.
\<close>

theorem end_tex_next:
  assumes "CHECK_DISPATCH prid s = (True, E_CTX)" and "ctxtsk s prid = Some t"
    and "texflg (tcbs s t) AND (TEX0_RUNNING OR TEX1_RUNNING) = TEX1_RUNNING"
  shows "\<exists>n s'. tk_end_tex enatex prid s = Some (int n, s') \<and>
     (if pendtex (tcbs s t) AND NOT 1 = 0 then n = 0
      else n > 0 \<and> bit (pendtex (tcbs s t)) n \<and> (\<forall>m. 0 < m \<and> m < n \<longrightarrow> \<not> bit (pendtex (tcbs s t)) m))"
  using assms by (rule end_tex_lowest)

theorem end_tex_next_witness:
  "\<exists>n s'. tk_end_tex False 0 tex_pend = Some (int n, s') \<and> n = 2"
proof -
  have b: "bit (0x14 :: UW) m \<longleftrightarrow> m = 2 \<or> m = 4" for m
  proof (cases "m < 32")
    case True
    then show ?thesis by (auto simp: less_Suc_eq numeral_eq_Suc)
  next
    case False
    then show ?thesis using bit_imp_le_length [of "0x14 :: UW" m] by auto
  qed
  have "(0x14 :: UW) AND NOT 1 \<noteq> 0" by simp
  with end_tex_next [OF tex_runs(7-9), of False] obtain n s' where n: "tk_end_tex False 0 tex_pend = Some (int n, s')" "n > 0"
    "n = 2 \<or> n = 4" "\<forall>m. 0 < m \<and> m < n \<longrightarrow> \<not> (m = 2 \<or> m = 4)"
    unfolding tex_runs(5) b by auto
  then show ?thesis using n(4) [THEN spec, of 2] by auto
qed

section \<open>Resource groups\<close>

definition resid_used :: "sys_state \<Rightarrow> int \<Rightarrow> bool" where
  "resid_used s r \<longleftrightarrow> r \<ge> 1 \<and> bit_at (resid_bitmap s) (nat (r - 1))"

definition res_ok :: "sys_state \<Rightarrow> bool" where
  "res_ok s \<longleftrightarrow> max_resid (ko (ks s)) \<le> 8 * length (resid_bitmap s)"

text \<open>
  C23. \<open>tk_cre_res\<close> always returns: \<open>E_LIMIT\<close> if all identifiers of resource groups are in use; otherwise the lowest one that is not,
  which is the only one it marks, and \<open>tk_del_res\<close> takes the mark back.
\<close>

theorem create_resource:
  assumes "res_ok s" and "resid_used s SYS_RESID"
  shows "\<exists>e s'. tk_cre_res s = Some (e, s') \<and> res_ok s' \<and>
     (if \<forall>r\<in>{1..int (max_resid (ko (ks s)))}. resid_used s r then e = E_LIMIT \<and> s' = s
      else e \<in> {1..int (max_resid (ko (ks s)))} \<and> \<not> resid_used s e \<and> (\<forall>r\<in>{1..<e}. resid_used s r) \<and>
        resid_used s' = (resid_used s)(e := True) \<and>
        (\<exists>s''. tk_del_res e s' = (E_OK, s'') \<and> resid_used s'' = resid_used s))"
proof -
  let ?b = "resid_bitmap s" and ?n = "max_resid (ko (ks s))"
  have l: "0 + ?n \<le> 8 * length ?b" using assms(1) by (simp add: res_ok_def)
  note f = bitsearch0_first [OF l, unfolded of_nat_0]
  have all: "(\<forall>r\<in>{1..int ?n}. resid_used s r) \<longleftrightarrow> (\<forall>i<?n. bit_at ?b i)"
  proof
    assume a: "\<forall>r\<in>{1..int ?n}. resid_used s r"
    show "\<forall>i<?n. bit_at ?b i" using a [rule_format, of "int _ + 1"] by (auto simp: resid_used_def)
  qed (auto simp: resid_used_def)
  show ?thesis
  proof (cases "\<forall>i<?n. bit_at ?b i")
    case True
    then have "first_bit False ?b 0 ?n = -1" by (simp add: first_bit_minus1)
    then show ?thesis using True f all assms(1) by (simp add: tk_cre_res_def)
  next
    case False
    have "first_bit False ?b 0 ?n \<noteq> -1" using False by (simp add: first_bit_minus1)
    then obtain p where p: "first_bit False ?b 0 ?n = int p" by (auto simp: first_bit_def split: option.splits)
    note q = first_bit_Some [OF p, simplified]
    let ?s = "s\<lparr>resid_bitmap := tstdlib_bitset ?b (int p)\<rparr>"
    have c: "tk_cre_res s = Some (int p + 1, ?s)"
      using f p by (simp add: tk_cre_res_def index_to_resid_def MIN_RESID_def)
    have pl: "p < 8 * length ?b" using q l by linarith
    have u: "resid_used ?s = (resid_used s)(int p + 1 := True)"
      by (auto simp: resid_used_def fun_eq_iff bit_at_bitset [OF pl])
    have p0: "p \<noteq> 0" using assms(2) q by (cases p) (auto simp: resid_used_def SYS_RESID_def MIN_RESID_def)
    let ?v = "?s\<lparr>resid_bitmap := tstdlib_bitclr (resid_bitmap ?s) (int p)\<rparr>"
    have d: "tk_del_res (int p + 1) ?s = (E_OK, ?v)"
      using q p0 by (simp add: tk_del_res_def CHECK_RESID_def MIN_RESID_def SYS_RESID_def resid_to_index_def bittest_bit_at bit_at_bitset [OF pl] Let_def)
    have "resid_used ?v = resid_used s"
      using q pl by (auto simp: resid_used_def fun_eq_iff bit_at_bitclr bit_at_bitset [OF pl])
    then show ?thesis using c d u q False all assms(1)
      by (intro exI [where x = "int p + 1"] exI [where x = ?s]) (auto simp: resid_used_def res_ok_def)
  qed
qed

theorem create_resource_witness:
  "\<exists>s'. tk_cre_res ssy_three = Some (2, s') \<and> resid_used s' = (resid_used ssy_three)(2 := True)"
proof -
  have f: "res_ok ssy_three" "resid_used ssy_three SYS_RESID" "\<not> resid_used ssy_three 2" "max_resid (ko (ks ssy_three)) = 10"
    "map_option fst (tk_cre_res ssy_three) = Some 2"
    by code_simp+
  then have "\<not> (\<forall>r\<in>{1..int (max_resid (ko (ks ssy_three)))}. resid_used ssy_three r)" by force
  with create_resource [OF f(1,2)] f(5) show ?thesis by auto
qed

end
