(* ===== verification/Spec2Isabelle.thy ===== *)
theory Spec2Isabelle
  imports Core_Properties Mutex_Properties Buffer_Properties Pool_Properties Rendezvous_Properties Time_Properties Task_Properties Subsystem_Properties
begin

text \<open>
  A model of the SMP T-Kernel, \<^verbatim>\<open>src/kernel/tkernel/smp_src\<close>, with the little-endian bit operations of
  \<^verbatim>\<open>src/kernel/tstdlib/bitop.c\<close>, the queues of \<^verbatim>\<open>src/include/sys/queue.h\<close> and, where the kernel depends on the processor,
  the variant \<^verbatim>\<open>smp_naviengine\<close>.

  \<^bold>\<open>The program.\<close> The kernel runs on several processors that share one ready queue. Every system call of a task or
  a handler checks its arguments, takes the one spin lock (\<open>BEGIN_CRITICAL_SECTION\<close>), changes the kernel's
  data, chooses the tasks to run (\<open>update_schedtsk\<close>) and gives the lock back. So the calls are atomic steps, and the model has
  one function for each: \<open>tk_xxx prid args s\<close> is the call on processor \<open>prid\<close> in the state \<open>s\<close>, and returns the
  result and the new state, or \<open>None\<close> if the code does not return or dereferences \<open>NULL\<close>. The state \<open>kstate\<close> (theory
  \<open>Kernel_State\<close>) has the task control blocks, the queues that link them, the ready queue's bitmap and table of top
  tasks, each object module's table, the timer queue and the memory that messages and blocks are in. Where a task waits, the call ends with the task
  blocked; the error code it will see is \<open>wercd\<close> of its control block, which the call that releases it sets.

  \<^bold>\<open>Theories, in the order they build on each other.\<close>
  \<^item> \<open>Prelude\<close>: C types, error codes, ordered insertion into lists, and the locale \<open>stable_queue\<close>, the contract of
    an ordered queue that keeps equals in the order of arrival. It is interpreted for the ready queue (\<open>readyq\<close>), the
    wait queues (\<open>waitq\<close>), the timer queue (\<open>timerq\<close>) and the messages of a mailbox (\<open>mpriq\<close>).
  \<^item> \<open>Ring_Queue\<close>: \<^verbatim>\<open>queue.h\<close> on a heap of pointers; \<open>ring\<close> relates a heap to the list that the other theories use for it.
  \<^item> \<open>Bitop\<close>: \<^verbatim>\<open>bitop.c\<close>; the searches equal a reference search over the bits.
  \<^item> \<open>Kernel_State\<close>: \<^verbatim>\<open>task.h\<close>, \<^verbatim>\<open>winfo.h\<close> and the control blocks of all objects.
  \<^item> \<open>Ready_Queue\<close>, \<open>Scheduler\<close>, \<open>Assignment\<close>, \<open>Hall\<close>, \<open>Greedy\<close>: \<^verbatim>\<open>ready_queue.h\<close>, \<^verbatim>\<open>ready_queue.c\<close>, \<^verbatim>\<open>task.c\<close>. \<open>rq_wf\<close> ties the bitmap, the rings
    and the table of top tasks together; \<open>rdy\<close> is the list of tasks they stand for. \<open>Greedy\<close> shows that the retry loop of
    \<open>ready_queue_top\<close> takes a task if and only if it and the tasks taken before can have processors of their own; what its history of sets of
    processors decides is, by the theorem of Hall (\<open>Hall\<close>), just this.
  \<^item> \<open>Timer\<close>: the event queue of \<^verbatim>\<open>timer.c\<close>, with the 64-bit comparison of \<^verbatim>\<open>longlong.h\<close>.
  \<^item> \<open>Kernel_Inv\<close>, \<open>Wait\<close>: the invariant \<open>kinv\<close> on where tasks are, and \<^verbatim>\<open>wait.h\<close>, \<^verbatim>\<open>wait.c\<close>.
  \<^item> \<open>Check\<close>, \<open>Mp_Domain\<close>, \<open>Domain_Tree\<close>: identifiers (\<^verbatim>\<open>config.h\<close>), argument checks (\<^verbatim>\<open>check.h\<close>), the end of a critical section (\<^verbatim>\<open>cpu_status.h\<close>), and \<^verbatim>\<open>mp_domain.c\<close>;
    \<open>dom_tree\<close> says that the domains form a tree, in which the protection check ends.
  \<^item> \<open>Object_Base\<close>: the shape all object modules share, and the locale \<open>obj_table\<close>, the laws of a table of
    control blocks: what a step that leaves an object and its queues alone keeps of its invariant. It is interpreted for every module
    (\<open>sem_tab\<close>, \<open>flg_tab\<close>, \<open>mbx_tab\<close>, \<open>mtx_tab\<close>, \<open>mpf_tab\<close>, \<open>mbf_tab\<close>, \<open>por_tab\<close>).
  \<^item> \<open>Semaphore\<close>, \<open>Eventflag\<close>, \<open>Mailbox\<close>, \<open>Message_Base\<close>, \<open>Ring_Buffer\<close>, \<open>Messagebuf\<close>, \<open>Mempfix\<close>, \<open>Mempool\<close>, \<open>Rendezvous\<close>: the C file of the
    same name each (\<open>Ring_Buffer\<close> is the storage of a message buffer). The invariants say that the queue of an object has
    exactly its waiting tasks and that no task waits which could be served.
  \<^item> \<open>Mutex\<close>, \<open>Priority\<close>, \<open>Mutex_Inv\<close>, \<open>Inheritance\<close>, \<open>Hook_Steps\<close>, \<open>Hooks\<close>, \<open>Mutex_Calls\<close>, \<open>Change_Priority\<close>: \<^verbatim>\<open>mutex.c\<close> and \<open>change_task_priority\<close>. A change of priority moves
    the task in the queue it waits in through a hook of that object's module, and for a mutex goes on to its holder. The
    locale \<open>pri_hooks\<close> states what is asked of the hooks; all proofs on inheritance are done in it; \<open>kern\<close> is its
    interpretation on the hooks of the kernel's own modules. \<open>pri_inv\<close> is the invariant: every priority is the highest
    that base priority, ceilings and waiting tasks give. It does not exclude cycles of holders that wait: the calls end in them, too. It covers states in which
    no task waits for a memory pool of variable size, because there is no invariant of the memory that \<^verbatim>\<open>mempool.c\<close> links its areas in.
  \<^item> \<open>Task_Sync\<close>, \<open>Klock\<close>, \<open>Klock_Inv\<close>, \<open>Task_Manage\<close>: \<^verbatim>\<open>task_sync.c\<close>, \<^verbatim>\<open>klock.c\<close> (\<open>locks_passed\<close> is what becomes of the locks of a task that
    gives all of them up), \<^verbatim>\<open>task_manage.c\<close>.
  \<^item> \<open>Time_Calls\<close>, \<open>Handlers\<close>, \<open>Timer_Handler\<close>: \<^verbatim>\<open>time_calls.c\<close> and the timer interrupt. \<open>tim_ok\<close> says that the event of a
    started handler is in exactly one queue and that of a stopped one in none.
  \<^item> \<open>Subsystem\<close>, \<open>Subsystem_Inv\<close>: \<^verbatim>\<open>subsystem.c\<close> and \<open>request_tex\<close> of \<^verbatim>\<open>cpu_init.c\<close>. The record \<open>sys_state\<close> puts the subsystem control
    blocks, the lists of them by priority and the resource identifiers around \<open>kstate\<close>. The invariant \<open>ssy_lists\<close> says that the list of a
    priority links exactly the registered subsystems of that priority; \<open>run_list\<close> is the sequence of their functions that a start-up
    or clean-up calls; \<open>tex_ok\<close> says that a task exception is pending only if it is enabled.
  \<^item> \<open>Boot_State\<close>, \<open>Concrete_State\<close>: a concrete kernel with two running tasks that meets all invariants; the runs of
    calls on it, evaluated by the kernel, show that the hypotheses of the main statements can be met.
  \<^item> \<open>Core_Properties\<close>, \<open>Mutex_Properties\<close>, \<open>Object_Properties\<close>, \<open>Buffer_Properties\<close>, \<open>Pool_Properties\<close>, \<open>Rendezvous_Properties\<close>, \<open>Time_Properties\<close>,
    \<open>Task_Properties\<close>, \<open>Subsystem_Properties\<close>: the main statements, numbered, each with such a run.

  \<^bold>\<open>Loops.\<close> A loop whose end is not evident is a \<open>partial_function\<close> into \<open>option\<close>, so that a run without end is the value
  \<open>None\<close>. That the chains of \<open>change_task_priority\<close>, the retries of \<open>ready_queue_top\<close>, the scans of the bitmap and of the queues, and the wake-up
  loops of the modules end is part of the theorems about them. No fuel is used.

  \<^bold>\<open>Numbers.\<close> Attributes, patterns, addresses and event times are words of their width. Counters and sizes are \<open>int\<close>: the code
  checks their bounds before it computes, and the ring buffer's sizes are proved to stay below $2^{31}$.
  Times are 64-bit words; the statements on them assume they are below $2^{62}$, which they are for more than a hundred million years.

  \<^bold>\<open>Parameters.\<close> Memory allocation (\<open>mem\<close>, \<open>sstack\<close>, \<open>stack\<close>): the address, or \<open>None\<close>. User handlers (\<open>uh\<close>): any effect that keeps the invariant of the
  handlers. The functions of subsystems (\<open>uh\<close> in \<open>Subsystem\<close>): any effect, and any processor to return on; the statements on
  start-up and clean-up ask that they leave the tables of subsystems alone. Waiting for the lock of
  extended SVCs (\<open>env\<close>): what other tasks do meanwhile. Hooks (\<open>oh\<close>, \<open>rh\<close>): instantiated in \<open>Hooks\<close>.

  \<^bold>\<open>Not modelled.\<close> The dispatcher and interrupt entry (assembler), the start and stop of the timer device and of
  other processors, the initialisation of the tasks (\<open>task_initialize\<close>) and the order of the initialisation functions, most of which are modelled with their
  modules (\<open>Boot_State\<close> stands for their common result), the start-up sequence, the variants for other processors, device drivers, the device manager and memory manager (\<^verbatim>\<open>src/kernel/sysmgr\<close>), and the
  monitor. The allocator of memory pools is modelled, without a proof that its areas stay disjoint.
\<close>

end
